(* ===== verification/Relay_Prelude.thy ===== *)
theory Relay_Prelude imports
  Complex_Main
  "HOL-Library.AList"
  "HOL-Library.Char_ord"
  "HOL-Library.Multiset"
  "HOL-Library.Word"
begin

text \<open>
  The prelude of the development: the reading of the C++ data types that all components share,
  and the generic lemmas on association lists, pruning loops and minimum scans they rest on.

  \<^item> A \<open>double\<close> (and a \<open>float\<close>) is an exact \<open>real\<close>: rounding, NaN and overflow of the floating
    formats are not modelled. Where the code starts a minimum scan at
    \<open>std::numeric_limits<double>::infinity()\<close> the model uses \<open>None\<close> of \<open>real option\<close>.
  \<^item> A \<open>ros::Time\<close> is its value in seconds, a \<open>real\<close>; \<open>isZero()\<close> is equality with \<open>0\<close>, and
    \<open>(a - b).toSec()\<close> is \<open>a - b\<close>. Every handler takes the one reading \<open>now\<close> of the clock that it
    makes (all its calls of \<open>ros::Time::now()\<close> see the same instant).
  \<^item> A \<open>std::unordered_map\<close> or \<open>std::map\<close> is an association list with distinct keys, in iteration
    order; \<open>find\<close> is \<open>map_of\<close>, \<open>m[k] = v\<close> is \<open>AList.update\<close>, \<open>erase\<close> is \<open>AList.delete\<close>. An
    unordered map does not fix its iteration order: the theorems hold for every order of the list.
  \<^item> An \<open>int\<close> is an \<open>int\<close>, except where width matters (versions, epochs, packed keys: words).
\<close>

section \<open>Hint collections\<close>

named_theorems umap_simps \<open>lookups in association lists after an update, deletion or prune\<close>
named_theorems keys_intros \<open>distinctness of the keys of association lists\<close>

section \<open>Shared types\<close>

type_synonym time = real
type_synonym 'v umap = "(int \<times> 'v) list"

text \<open>\<open>geometry_msgs::Point\<close> and \<open>geometry_msgs::Vector3\<close>; their constructors zero the fields.\<close>

record point =
  px :: real
  py :: real
  pz :: real

record vector3 =
  vx :: real
  vy :: real
  vz :: real

definition zero_point :: point where
  "zero_point = \<lparr>px = 0, py = 0, pz = 0\<rparr>"

definition zero_vector :: vector3 where
  "zero_vector = \<lparr>vx = 0, vy = 0, vz = 0\<rparr>"

text \<open>\<open>std::atan2\<close>.\<close>

definition atan2 :: "real \<Rightarrow> real \<Rightarrow> real" where
  "atan2 y x =
     (if x > 0 then arctan (y / x)
      else if x < 0 then (if y \<ge> 0 then arctan (y / x) + pi else arctan (y / x) - pi)
      else if y > 0 then pi / 2 else if y < 0 then - (pi / 2) else 0)"

text \<open>\<open>std::numeric_limits<int>::max()\<close>.\<close>

abbreviation (input) int_max :: int where
  "int_max \<equiv> 2147483647"

section \<open>Association lists\<close>

abbreviation distinct_keys :: "('k \<times> 'v) list \<Rightarrow> bool" where
  "distinct_keys m \<equiv> distinct (map fst m)"

lemma map_of_update [umap_simps]: "map_of (AList.update k v m) = (map_of m)(k \<mapsto> v)"
  by (rule update_conv')

lemma map_of_delete [umap_simps]: "map_of (AList.delete k m) = (map_of m)(k := None)"
  by (rule delete_conv')

lemma distinct_keys_update [keys_intros]:
  "distinct_keys m \<Longrightarrow> distinct_keys (AList.update k v m)"
  by (rule distinct_update)

lemma distinct_keys_delete [keys_intros]:
  "distinct_keys m \<Longrightarrow> distinct_keys (AList.delete k m)"
  by (rule distinct_delete)

lemma distinct_keys_filter [keys_intros]:
  "distinct_keys m \<Longrightarrow> distinct_keys (filter P m)"
  by (rule distinct_map_filter)

lemma map_of_filter_keys:
  assumes "distinct_keys m"
  shows "map_of (filter (\<lambda>e. P (fst e) (snd e)) m) k =
    (case map_of m k of None \<Rightarrow> None | Some v \<Rightarrow> if P k v then Some v else None)"
  using assms
proof (induction m)
  case Nil
  then show ?case by simp
next
  case (Cons e m)
  obtain a b where e: "e = (a, b)" by fastforce
  show ?case
  proof (cases "k = a")
    case True
    with Cons.prems e have "map_of m k = None"
      by (auto simp: map_of_eq_None_iff)
    with Cons True e show ?thesis by auto
  next
    case False
    with Cons e show ?thesis by auto
  qed
qed

lemma map_of_filter_fst:
  "map_of (filter (\<lambda>e. P (fst e)) m) k = (if P k then map_of m k else None)"
  by (induction m) auto

text \<open>Two association lists that represent the same map (\<open>unordered_map\<close> equality).\<close>

definition same_map :: "('k \<times> 'v) list \<Rightarrow> ('k \<times> 'v) list \<Rightarrow> bool" where
  "same_map m n \<longleftrightarrow> map_of m = map_of n"

section \<open>Pruning loops\<close>

text \<open>
  The caches of the program are cleaned by the same loop
  \<^verbatim>\<open>for (it = m.begin(); it != m.end();) if (expired(*it)) it = m.erase(it); else ++it;\<close>
  with one age test per cache. The locale is the contract of that test: an entry that has
  expired stays expired at any later time.
\<close>

definition prune :: "('v \<Rightarrow> bool) \<Rightarrow> ('k \<times> 'v) list \<Rightarrow> ('k \<times> 'v) list" where
  "prune dead m = filter (\<lambda>e. \<not> dead (snd e)) m"

lemma map_of_prune [umap_simps]:
  "distinct_keys m \<Longrightarrow>
   map_of (prune dead m) k = (case map_of m k of None \<Rightarrow> None | Some v \<Rightarrow> if dead v then None else Some v)"
  using map_of_filter_keys [of m "\<lambda>_ v. \<not> dead v" k]
  by (auto simp: prune_def split: option.splits)

lemma distinct_keys_prune [keys_intros]: "distinct_keys m \<Longrightarrow> distinct_keys (prune dead m)"
  unfolding prune_def by (rule distinct_keys_filter)

lemma set_prune: "set (prune dead m) = {e \<in> set m. \<not> dead (snd e)}"
  by (auto simp: prune_def)

text \<open>The keys that a prune removes, for the loops that clean other maps along with them.\<close>

lemma keys_prune:
  assumes "distinct_keys m"
  shows "fst ` set (prune dead m) = fst ` set m - set (map fst (filter (\<lambda>e. dead (snd e)) m))"
proof -
  have "k \<in> fst ` set (prune dead m) \<longleftrightarrow> k \<in> fst ` set m \<and> k \<notin> set (map fst (filter (\<lambda>e. dead (snd e)) m))" for k
  proof
    assume "k \<in> fst ` set (prune dead m)"
    then obtain v where v: "(k, v) \<in> set m" "\<not> dead v" by (auto simp: set_prune)
    then have "\<not> dead v'" if "(k, v') \<in> set m" for v'
      using eq_key_imp_eq_value [OF assms that v(1)] by simp
    with v show "k \<in> fst ` set m \<and> k \<notin> set (map fst (filter (\<lambda>e. dead (snd e)) m))"
      by (auto intro: image_eqI [of k fst "(k, v)"])
  qed (force simp: set_prune)
  then show ?thesis by blast
qed

lemma keys_filter_fst: "fst ` set (filter (\<lambda>e. P (fst e)) m) = {k \<in> fst ` set m. P k}"
  by force

lemma prune_idem [simp]: "prune dead (prune dead m) = prune dead m"
  by (simp add: prune_def)

locale expiring_cache =
  fixes expired :: "time \<Rightarrow> 'v \<Rightarrow> bool"
  assumes expired_mono: "now \<le> now' \<Longrightarrow> expired now v \<Longrightarrow> expired now' v"
begin

text \<open>A prune at an earlier time does not change the outcome of a later one.\<close>

lemma prune_later:
  assumes "now \<le> now'"
  shows "prune (expired now') (prune (expired now) m) = prune (expired now') m"
proof -
  have "\<not> expired now' v \<Longrightarrow> \<not> expired now v" for v
    using assms expired_mono by blast
  then show ?thesis
    by (auto simp: prune_def intro!: filter_cong)
qed

lemma prune_lookup_live:
  assumes "distinct_keys m" and "map_of (prune (expired now) m) k = Some v"
  shows "map_of m k = Some v \<and> \<not> expired now v"
  using assms by (auto simp: umap_simps split: option.splits if_splits)

lemma prune_keeps_live:
  assumes "distinct_keys m" and "map_of m k = Some v" and "\<not> expired now v"
  shows "map_of (prune (expired now) m) k = Some v"
  using assms by (simp add: umap_simps)

lemma prune_subset: "set (prune (expired now) m) \<subseteq> set m"
  by (auto simp: set_prune)

end

section \<open>Caches of a node\<close>

text \<open>
  A cache of a node maps the other nodes' ids to entries: its keys are distinct, the node's own
  id is not among them, and every entry satisfies the predicate the callbacks establish.
\<close>

definition cache_ok :: "int \<Rightarrow> ('v \<Rightarrow> bool) \<Rightarrow> 'v umap \<Rightarrow> bool" where
  "cache_ok self Q m \<longleftrightarrow> distinct_keys m \<and> self \<notin> fst ` set m \<and> (\<forall>e \<in> set m. Q (snd e))"

lemma cache_ok_update:
  assumes "cache_ok self Q m" and "k \<noteq> self" and "Q v"
  shows "cache_ok self Q (AList.update k v m)"
proof -
  have "fst ` set (AList.update k v m) = insert k (fst ` set m)"
    by (induction m) auto
  moreover have "\<forall>e \<in> set m. Q (snd e) \<Longrightarrow> \<forall>e \<in> set (AList.update k v m). Q (snd e)"
    using assms(3) by (induction m) auto
  ultimately show ?thesis
    using assms(1,2) by (auto simp: cache_ok_def intro: keys_intros)
qed

lemma cache_ok_prune: "cache_ok self Q m \<Longrightarrow> cache_ok self Q (prune dead m)"
  by (auto simp: cache_ok_def set_prune intro: keys_intros)

lemma cache_ok_lookup: "cache_ok self Q m \<Longrightarrow> map_of m k = Some v \<Longrightarrow> k \<noteq> self \<and> Q v"
  by (force simp: cache_ok_def dest: map_of_SomeD)

lemma cache_ok_distinct [keys_intros]: "cache_ok self Q m \<Longrightarrow> distinct_keys m"
  by (simp add: cache_ok_def)

section \<open>Minimum scans with a tolerance\<close>

text \<open>
  The program picks its best candidates by one kind of loop: skip the candidates without a score,
  take the first one, then replace the best so far by a candidate that is better by more than a
  tolerance, or equal within the tolerance and preferred by a tie-break. The locale is the
  contract of one round of such a loop: \<open>pick\<close> reads the key and score of the best so far,
  \<open>good\<close> says which keys the loop can tell from its initial value.
\<close>

locale tolerant_scan =
  fixes step :: "'b \<Rightarrow> 'a \<Rightarrow> 'b"
    and pick :: "'b \<Rightarrow> ('k \<times> real) option"
    and key :: "'a \<Rightarrow> 'k"
    and score :: "'a \<Rightarrow> real option"
    and good :: "'k \<Rightarrow> bool"
    and eps :: real
  assumes eps_nonneg: "0 \<le> eps"
    and step_skip: "score a = None \<Longrightarrow> step b a = b"
    and step_first: "pick b = None \<Longrightarrow> score a = Some x \<Longrightarrow> good (key a) \<Longrightarrow>
      pick (step b a) = Some (key a, x)"
    and step_next: "pick b = Some (k, v) \<Longrightarrow> score a = Some x \<Longrightarrow> good k \<Longrightarrow> good (key a) \<Longrightarrow>
      (pick (step b a) = Some (key a, x) \<and> x \<le> v + eps) \<or>
      (pick (step b a) = Some (k, v) \<and> v \<le> x + eps)"
begin

definition good_list :: "'a list \<Rightarrow> bool" where
  "good_list xs \<longleftrightarrow> (\<forall>a \<in> set xs. good (key a))"

text \<open>The pick is always one of the candidates, with its own score.\<close>

lemma scan_from:
  assumes "good_list xs" and "pick b = None \<or> (\<exists>k v. pick b = Some (k, v) \<and> good k)"
    and "pick (foldl step b xs) = Some (k, v)"
  shows "pick b = Some (k, v) \<or> (\<exists>a \<in> set xs. key a = k \<and> score a = Some v)"
  using assms
proof (induction xs arbitrary: b)
  case Nil
  then show ?case by simp
next
  case (Cons a xs)
  have ga: "good (key a)" and gl: "good_list xs" using Cons.prems(1) by (auto simp: good_list_def)
  show ?case
  proof (cases "score a")
    case None
    with step_skip have "step b a = b" by simp
    with Cons.IH [OF gl, of b] Cons.prems show ?thesis by auto
  next
    case (Some x)
    have "pick (step b a) = Some (key a, x) \<or> (\<exists>k' v'. pick b = Some (k', v') \<and> good k' \<and> pick (step b a) = Some (k', v'))"
      using step_first [OF _ Some ga] step_next [OF _ Some _ ga] Cons.prems(2) by fastforce
    with ga Some Cons.IH [OF gl, of "step b a"] Cons.prems(3) show ?thesis by auto
  qed
qed

text \<open>The pick loses to no candidate by more than one tolerance per round.\<close>

lemma scan_bound:
  assumes "good_list xs" and "pick b = Some (k0, v0)" and "good k0"
  shows "\<exists>k v. pick (foldl step b xs) = Some (k, v) \<and> v \<le> v0 + real (length xs) * eps"
  using assms
proof (induction xs arbitrary: b k0 v0)
  case Nil
  then show ?case by simp
next
  case (Cons a xs)
  have ga: "good (key a)" and gl: "good_list xs" using Cons.prems(1) by (auto simp: good_list_def)
  have "\<exists>k1 v1. pick (step b a) = Some (k1, v1) \<and> good k1 \<and> v1 \<le> v0 + eps"
  proof (cases "score a")
    case None
    with step_skip Cons.prems eps_nonneg show ?thesis by auto
  next
    case (Some x)
    with step_next [OF Cons.prems(2) Some Cons.prems(3) ga] ga Cons.prems eps_nonneg show ?thesis by auto
  qed
  then obtain k1 v1 where 1: "pick (step b a) = Some (k1, v1)" "good k1" "v1 \<le> v0 + eps" by blast
  from Cons.IH [OF gl 1(1,2)] obtain k v where
    "pick (foldl step b (a # xs)) = Some (k, v)" "v \<le> v1 + real (length xs) * eps" by auto
  with 1(3) show ?case by (auto simp: algebra_simps)
qed

lemma scan_best:
  assumes "good_list xs" and "pick b = None \<or> (\<exists>k v. pick b = Some (k, v) \<and> good k)"
    and "a \<in> set xs" and "score a = Some x"
  shows "\<exists>k v. pick (foldl step b xs) = Some (k, v) \<and> v \<le> x + real (length xs) * eps"
  using assms
proof (induction xs arbitrary: b)
  case Nil
  then show ?case by simp
next
  case (Cons c xs)
  have gc: "good (key c)" and gl: "good_list xs" using Cons.prems(1) by (auto simp: good_list_def)
  have inv: "pick (step b c) = None \<or> (\<exists>k v. pick (step b c) = Some (k, v) \<and> good k)"
  proof (cases "score c")
    case None
    with step_skip Cons.prems(2) show ?thesis by simp
  next
    case (Some y)
    with step_first [OF _ Some gc] step_next [OF _ Some _ gc] gc Cons.prems(2) show ?thesis by fastforce
  qed
  show ?case
  proof (cases "a = c")
    case True
    have "\<exists>k1 v1. pick (step b c) = Some (k1, v1) \<and> good k1 \<and> v1 \<le> x + eps"
      using step_first [of b c x] step_next [of b _ _ c x] gc Cons.prems(2,4) True eps_nonneg
      by fastforce
    then obtain k1 v1 where 1: "pick (step b c) = Some (k1, v1)" "good k1" "v1 \<le> x + eps" by blast
    from scan_bound [OF gl 1(1,2)] obtain k v where
      "pick (foldl step b (c # xs)) = Some (k, v)" "v \<le> v1 + real (length xs) * eps" by auto
    with 1(3) show ?thesis by (auto simp: algebra_simps)
  next
    case False
    with Cons.prems(3) have "a \<in> set xs" by simp
    from Cons.IH [OF gl inv this Cons.prems(4)] obtain k v where
      "pick (foldl step b (c # xs)) = Some (k, v)" "v \<le> x + real (length xs) * eps" by auto
    moreover have "real (length xs) * eps \<le> real (length (c # xs)) * eps"
      using eps_nonneg by (simp add: mult_right_mono)
    ultimately show ?thesis by force
  qed
qed

lemma scan_None:
  assumes "pick b = None" and "\<forall>a \<in> set xs. score a = None"
  shows "foldl step b xs = b"
  using assms by (induction xs) (auto simp: step_skip)

end

section \<open>Small arithmetic facts\<close>

lemma sqrt_eqI: "0 \<le> y \<Longrightarrow> y * y = x \<Longrightarrow> sqrt x = y"
  using real_sqrt_abs2 [of y] by simp

text \<open>The Cauchy-Schwarz inequality in three dimensions, in the form the code's cosines need.\<close>

lemma cauchy_schwarz3:
  fixes a1 a2 a3 b1 b2 b3 :: real
  shows "\<bar>a1 * b1 + a2 * b2 + a3 * b3\<bar> \<le>
    sqrt (a1 * a1 + a2 * a2 + a3 * a3) * sqrt (b1 * b1 + b2 * b2 + b3 * b3)"
proof -
  have "(a1 * a1 + a2 * a2 + a3 * a3) * (b1 * b1 + b2 * b2 + b3 * b3) - (a1 * b1 + a2 * b2 + a3 * b3)\<^sup>2 =
      (a1 * b2 - a2 * b1)\<^sup>2 + (a1 * b3 - a3 * b1)\<^sup>2 + (a2 * b3 - a3 * b2)\<^sup>2"
    by (simp add: power2_eq_square algebra_simps)
  also have "\<dots> \<ge> 0" by simp
  finally have "(a1 * b1 + a2 * b2 + a3 * b3)\<^sup>2 \<le>
      (a1 * a1 + a2 * a2 + a3 * a3) * (b1 * b1 + b2 * b2 + b3 * b3)" by simp
  then have "sqrt ((a1 * b1 + a2 * b2 + a3 * b3)\<^sup>2) \<le>
      sqrt ((a1 * a1 + a2 * a2 + a3 * a3) * (b1 * b1 + b2 * b2 + b3 * b3))"
    by (rule real_sqrt_le_mono)
  then show ?thesis by (simp add: real_sqrt_mult)
qed

lemma sum_squares_nonneg3 [simp]: "0 \<le> (a::real) * a + b * b + c * c"
  by simp

lemma foldl_invariant:
  assumes "P a" and "\<And>a x. P a \<Longrightarrow> x \<in> set xs \<Longrightarrow> P (f a x)"
  shows "P (foldl f a xs)"
  using assms by (induction xs arbitrary: a) auto

lemma fold_invariant:
  assumes "P a" and "\<And>a x. P a \<Longrightarrow> x \<in> set xs \<Longrightarrow> P (f x a)"
  shows "P (fold f xs a)"
  using assms by (induction xs arbitrary: a) auto

section \<open>Decimal numbers\<close>

text \<open>\<open>std::to_string\<close>.\<close>

definition digit :: "nat \<Rightarrow> char" where
  "digit n = ''0123456789'' ! n"

fun to_dec :: "nat \<Rightarrow> string" where
  "to_dec n = (if n < 10 then [digit n] else to_dec (n div 10) @ [digit (n mod 10)])"

declare to_dec.simps [simp del]

definition to_string_int :: "int \<Rightarrow> string" where
  "to_string_int i = (if i < 0 then CHR ''-'' # to_dec (nat (- i)) else to_dec (nat i))"

definition isspace :: "char \<Rightarrow> bool" where
  "isspace c \<longleftrightarrow> c = CHR '' '' \<or> of_char c \<in> {9 :: nat..13}"

section \<open>Sorting\<close>

text \<open>Sorting by an order given as a predicate.\<close>

fun insert_by :: "('a \<Rightarrow> 'a \<Rightarrow> bool) \<Rightarrow> 'a \<Rightarrow> 'a list \<Rightarrow> 'a list" where
  "insert_by lt x [] = [x]"
| "insert_by lt x (y # ys) = (if lt y x then y # insert_by lt x ys else x # y # ys)"

definition sort_by :: "('a \<Rightarrow> 'a \<Rightarrow> bool) \<Rightarrow> 'a list \<Rightarrow> 'a list" where
  "sort_by lt xs = foldr (insert_by lt) xs []"

lemma mset_insert_by: "mset (insert_by lt x xs) = add_mset x (mset xs)"
  by (induction xs) auto

lemma mset_sort_by: "mset (sort_by lt xs) = mset xs"
  by (induction xs) (simp_all add: sort_by_def mset_insert_by)

end
