(* ===== verification/Relay_Geometry.thy ===== *)
theory Relay_Geometry imports Relay_Prelude
begin

text \<open>
  The helpers in the anonymous namespace of
  \<open>relay_racer_integration/src/racer_local_relay_controller_node.cpp\<close>, which
  \<open>racer_comm_controller_node.cpp\<close> repeats word for word: the policy names, the obstacle boxes
  read from the parameter server, and the projection that keeps a relay target out of them.
  The output pointers of the code are results here; every call passes the address of an object,
  so the \<open>nullptr\<close> guards are not modelled.
\<close>

section \<open>Policy names\<close>

datatype RelayPolicyMode = kOff | kRule | kRl

definition Clamp01 :: "real \<Rightarrow> real" where
  "Clamp01 value = max 0 (min 1 value)"

text \<open>\<open>std::tolower\<close> in the C locale.\<close>

definition tolower :: "char \<Rightarrow> char" where
  "tolower ch =
     (let c = (of_char ch :: nat) in if 65 \<le> c \<and> c \<le> 90 then char_of (c + 32) else ch)"

definition NormalizePolicyName :: "string \<Rightarrow> string" where
  "NormalizePolicyName value = map tolower value"

text \<open>\<open>None\<close> is the result \<open>false\<close>, which leaves \<open>*mode\<close> as it was.\<close>

definition TryParseRelayPolicyMode :: "string \<Rightarrow> RelayPolicyMode option" where
  "TryParseRelayPolicyMode raw_value =
     (let normalized = NormalizePolicyName raw_value in
      if normalized = [] \<or> normalized = ''rule'' \<or> normalized = ''rule_relay'' then Some kRule
      else if normalized = ''off'' \<or> normalized = ''disabled'' \<or> normalized = ''no_relay'' then Some kOff
      else if normalized = ''rl'' \<or> normalized = ''rl_relay'' then Some kRl
      else None)"

fun RelayPolicyModeName :: "RelayPolicyMode \<Rightarrow> string" where
  "RelayPolicyModeName kOff = ''off''"
| "RelayPolicyModeName kRl = ''rl''"
| "RelayPolicyModeName kRule = ''rule''"

section \<open>Distances and obstacle boxes\<close>

definition SquaredDistance :: "point \<Rightarrow> point \<Rightarrow> real" where
  "SquaredDistance a b =
     (let dx = px a - px b; dy = py a - py b; dz = pz a - pz b in dx * dx + dy * dy + dz * dz)"

record ObstacleBox =
  min_x :: real
  max_x :: real
  min_y :: real
  max_y :: real
  min_z :: real
  max_z :: real

text \<open>
  The values of the parameter server that the code tells apart; \<open>TypeOther\<close> stands for every
  other type tag.
\<close>

datatype XmlRpcValue =
    TypeDouble real
  | TypeInt int
  | TypeArray "XmlRpcValue list"
  | TypeStruct "(string \<times> XmlRpcValue) list"
  | TypeOther

fun XmlRpcValueToDouble :: "XmlRpcValue \<Rightarrow> real option" where
  "XmlRpcValueToDouble (TypeDouble d) = Some d"
| "XmlRpcValueToDouble (TypeInt i) = Some (real_of_int i)"
| "XmlRpcValueToDouble _ = None"

definition member_double :: "(string \<times> XmlRpcValue) list \<Rightarrow> string \<Rightarrow> real option" where
  "member_double members key = Option.bind (map_of members key) XmlRpcValueToDouble"

text \<open>One round of the loop over the array: \<open>None\<close> is \<open>continue\<close>.\<close>

fun parse_obstacle :: "XmlRpcValue \<Rightarrow> ObstacleBox option" where
  "parse_obstacle (TypeStruct members) =
     (case (member_double members ''x'', member_double members ''y'',
            member_double members ''size_x'', member_double members ''size_y'',
            member_double members ''size_z'') of
        (Some x, Some y, Some size_x, Some size_y, Some size_z) \<Rightarrow>
          Some \<lparr>min_x = x - 1/2 * size_x, max_x = x + 1/2 * size_x,
                min_y = y - 1/2 * size_y, max_y = y + 1/2 * size_y,
                min_z = 0, max_z = max 0 size_z\<rparr>
      | _ \<Rightarrow> None)"
| "parse_obstacle _ = None"

fun ParseObstacleBoxes :: "XmlRpcValue \<Rightarrow> bool \<times> ObstacleBox list" where
  "ParseObstacleBoxes (TypeArray vs) = (True, List.map_filter parse_obstacle vs)"
| "ParseObstacleBoxes _ = (False, [])"

definition IsInsideObstacle :: "point \<Rightarrow> ObstacleBox \<Rightarrow> real \<Rightarrow> bool" where
  "IsInsideObstacle p obstacle clearance \<longleftrightarrow>
     px p \<ge> min_x obstacle - clearance \<and> px p \<le> max_x obstacle + clearance \<and>
     py p \<ge> min_y obstacle - clearance \<and> py p \<le> max_y obstacle + clearance \<and>
     pz p \<ge> min_z obstacle \<and> pz p \<le> max_z obstacle"

text \<open>The choice of \<open>best_dir\<close> among the four faces (left, right, bottom, top).\<close>

definition best_face :: "real \<Rightarrow> real \<Rightarrow> real \<Rightarrow> real \<Rightarrow> nat" where
  "best_face dist_left dist_right dist_bottom dist_top =
     (let (best_dir, best_dist) = (0, dist_left);
          (best_dir, best_dist) =
            (if dist_right < best_dist then (1, dist_right) else (best_dir, best_dist));
          (best_dir, best_dist) =
            (if dist_bottom < best_dist then (2, dist_bottom) else (best_dir, best_dist))
      in if dist_top < best_dist then 3 else best_dir)"

text \<open>The result is the flag returned and the new value of \<open>*point\<close>.\<close>

definition ProjectPointOutOfObstacle :: "ObstacleBox \<Rightarrow> real \<Rightarrow> point \<Rightarrow> bool \<times> point" where
  "ProjectPointOutOfObstacle obstacle clearance p =
     (if \<not> IsInsideObstacle p obstacle clearance then (False, p)
      else
        let x0 = min_x obstacle - clearance; x1 = max_x obstacle + clearance;
            y0 = min_y obstacle - clearance; y1 = max_y obstacle + clearance;
            best_dir = best_face \<bar>px p - x0\<bar> \<bar>x1 - px p\<bar> \<bar>py p - y0\<bar> \<bar>y1 - py p\<bar>;
            eps = 1 / 1000
        in (True,
            if best_dir = 0 then p\<lparr>px := x0 - eps\<rparr>
            else if best_dir = 1 then p\<lparr>px := x1 + eps\<rparr>
            else if best_dir = 2 then p\<lparr>py := y0 - eps\<rparr>
            else p\<lparr>py := y1 + eps\<rparr>))"

section \<open>Keeping the relay target out of the obstacles\<close>

text \<open>The parameters \<open>relay_target_*\<close> that \<open>sanitizeRelayAnchor\<close> reads.\<close>

record target_params =
  relay_target_use_fixed_z :: bool
  relay_target_fixed_z :: real
  relay_target_min_z :: real
  relay_target_max_z :: real
  relay_target_obstacle_clearance :: real
  relay_obstacles :: "ObstacleBox list"

text \<open>One pass over the obstacles; the flag is \<open>moved\<close>.\<close>

fun project_pass :: "real \<Rightarrow> ObstacleBox list \<Rightarrow> point \<Rightarrow> bool \<times> point" where
  "project_pass c [] p = (False, p)"
| "project_pass c (b # bs) p =
     (let (hit, p') = ProjectPointOutOfObstacle b c p; (moved, p'') = project_pass c bs p'
      in (hit \<or> moved, p''))"

text \<open>\<open>for (pass = 0; pass < n; ++pass)\<close> with \<open>if (!moved) break\<close>.\<close>

fun project_passes :: "nat \<Rightarrow> real \<Rightarrow> ObstacleBox list \<Rightarrow> point \<Rightarrow> point" where
  "project_passes 0 c bs p = p"
| "project_passes (Suc n) c bs p =
     (case project_pass c bs p of
        (True, p') \<Rightarrow> project_passes n c bs p'
      | (False, p') \<Rightarrow> p')"

definition clamp_target_z :: "target_params \<Rightarrow> point \<Rightarrow> point" where
  "clamp_target_z tp anchor =
     (let z = (if relay_target_use_fixed_z tp then relay_target_fixed_z tp else pz anchor)
      in anchor\<lparr>pz := max (relay_target_min_z tp) (min (relay_target_max_z tp) z)\<rparr>)"

definition sanitizeRelayAnchor :: "target_params \<Rightarrow> point \<Rightarrow> point" where
  "sanitizeRelayAnchor tp anchor =
     project_passes 8 (relay_target_obstacle_clearance tp) (relay_obstacles tp) (clamp_target_z tp anchor)"

section \<open>Lemmas\<close>

lemma Clamp01_range [simp]: "0 \<le> Clamp01 v" "Clamp01 v \<le> 1"
  by (simp_all add: Clamp01_def)

lemma Clamp01_id: "0 \<le> v \<Longrightarrow> v \<le> 1 \<Longrightarrow> Clamp01 v = v"
  by (simp add: Clamp01_def)

lemma SquaredDistance_nonneg [simp]: "0 \<le> SquaredDistance a b"
  by (simp add: SquaredDistance_def Let_def)

lemma SquaredDistance_sym: "SquaredDistance a b = SquaredDistance b a"
  unfolding SquaredDistance_def Let_def by (simp add: algebra_simps)

lemma SquaredDistance_eq_0: "SquaredDistance a b = 0 \<longleftrightarrow> px a = px b \<and> py a = py b \<and> pz a = pz b"
  unfolding SquaredDistance_def Let_def
  by (auto simp: add_nonneg_eq_0_iff)

lemma tolower_idem [simp]: "tolower (tolower c) = tolower c"
proof (cases "65 \<le> (of_char c :: nat) \<and> (of_char c :: nat) \<le> 90")
  case True
  then have "(of_char (char_of (of_char c + 32 :: nat)) :: nat) = of_char c + 32"
    by simp
  with True show ?thesis by (auto simp: tolower_def Let_def)
next
  case False
  then show ?thesis by (auto simp: tolower_def Let_def)
qed

lemma NormalizePolicyName_idem [simp]:
  "NormalizePolicyName (NormalizePolicyName s) = NormalizePolicyName s"
  by (simp add: NormalizePolicyName_def)

lemma TryParse_normalized: "TryParseRelayPolicyMode (NormalizePolicyName s) = TryParseRelayPolicyMode s"
  by (simp add: TryParseRelayPolicyMode_def)

lemma TryParse_name: "TryParseRelayPolicyMode (RelayPolicyModeName m) = Some m"
  by (cases m) (simp_all add: TryParseRelayPolicyMode_def NormalizePolicyName_def tolower_def)

lemma best_face_minimal:
  fixes l r b t :: real
  defines "ds \<equiv> [l, r, b, t]"
  shows "best_face l r b t < 4 \<and> (\<forall>d \<in> set ds. ds ! best_face l r b t \<le> d)"
  by (auto simp: ds_def best_face_def Let_def)

lemma best_face_less4: "best_face l r b t < 4"
  using best_face_minimal by blast

text \<open>A projection leaves the box, and moves one horizontal coordinate past its nearest face.\<close>

lemma project_not_inside:
  "\<not> IsInsideObstacle (snd (ProjectPointOutOfObstacle b c p)) b c"
  by (auto simp: ProjectPointOutOfObstacle_def IsInsideObstacle_def Let_def)

lemma project_flag: "fst (ProjectPointOutOfObstacle b c p) = IsInsideObstacle p b c"
  by (simp add: ProjectPointOutOfObstacle_def Let_def)

lemma project_outside_id:
  "\<not> IsInsideObstacle p b c \<Longrightarrow> ProjectPointOutOfObstacle b c p = (False, p)"
  by (simp add: ProjectPointOutOfObstacle_def)

lemma project_pz [simp]: "pz (snd (ProjectPointOutOfObstacle b c p)) = pz p"
  by (simp add: ProjectPointOutOfObstacle_def Let_def)

lemma project_distance:
  assumes "IsInsideObstacle p b c"
  defines "q \<equiv> snd (ProjectPointOutOfObstacle b c p)"
  defines "x0 \<equiv> min_x b - c" and "x1 \<equiv> max_x b + c" and "y0 \<equiv> min_y b - c" and "y1 \<equiv> max_y b + c"
  shows "\<bar>px q - px p\<bar> + \<bar>py q - py p\<bar> =
    Min {px p - x0, x1 - px p, py p - y0, y1 - py p} + 1 / 1000"
proof -
  have in_box: "x0 \<le> px p" "px p \<le> x1" "y0 \<le> py p" "py p \<le> y1"
    using assms(1) by (auto simp: IsInsideObstacle_def x0_def x1_def y0_def y1_def)
  let ?d = "best_face (px p - x0) (x1 - px p) (py p - y0) (y1 - py p)"
  have q: "q = (if ?d = 0 then p\<lparr>px := x0 - 1/1000\<rparr> else if ?d = 1 then p\<lparr>px := x1 + 1/1000\<rparr>
      else if ?d = 2 then p\<lparr>py := y0 - 1/1000\<rparr> else p\<lparr>py := y1 + 1/1000\<rparr>)"
    using assms(1) in_box
    unfolding q_def ProjectPointOutOfObstacle_def x0_def x1_def y0_def y1_def Let_def
    by (simp add: abs_of_nonneg)
  have "\<bar>px q - px p\<bar> + \<bar>py q - py p\<bar> =
      [px p - x0, x1 - px p, py p - y0, y1 - py p] ! ?d + 1 / 1000"
    using q in_box best_face_less4 [of "px p - x0" "x1 - px p" "py p - y0" "y1 - py p"]
    by (auto simp: less_Suc_eq numeral_eq_Suc)
  moreover have "[px p - x0, x1 - px p, py p - y0, y1 - py p] ! ?d =
      Min {px p - x0, x1 - px p, py p - y0, y1 - py p}"
    using best_face_minimal [of "px p - x0" "x1 - px p" "py p - y0" "y1 - py p"]
    by (intro Min_eqI [symmetric]) (auto simp: less_Suc_eq numeral_eq_Suc)
  ultimately show ?thesis by simp
qed

text \<open>A pass that moves nothing has found the point outside every box.\<close>

lemma project_pass_stable:
  "project_pass c bs p = (False, q) \<longleftrightarrow> q = p \<and> (\<forall>b \<in> set bs. \<not> IsInsideObstacle p b c)"
proof (induction bs arbitrary: p)
  case Nil
  then show ?case by auto
next
  case (Cons b bs)
  show ?case
  proof (cases "IsInsideObstacle p b c")
    case True
    then show ?thesis by (auto simp: Let_def split_beta project_flag)
  next
    case False
    then show ?thesis using Cons by (auto simp: Let_def split_beta project_outside_id)
  qed
qed

lemma project_pass_pz [simp]: "pz (snd (project_pass c bs p)) = pz p"
  by (induction bs arbitrary: p) (auto simp: Let_def split_beta)

lemma project_passes_pz [simp]: "pz (project_passes n c bs p) = pz p"
proof (induction n arbitrary: p)
  case (Suc n)
  obtain moved q where mq: "project_pass c bs p = (moved, q)" by fastforce
  then have "pz q = pz p" using project_pass_pz [of c bs p] by simp
  with Suc mq show ?case by (cases moved) simp_all
qed simp

lemma sanitizeRelayAnchor_pz:
  "pz (sanitizeRelayAnchor tp p) = pz (clamp_target_z tp p)"
  by (simp add: sanitizeRelayAnchor_def)

lemma clamp_target_z_range:
  "relay_target_min_z tp \<le> relay_target_max_z tp \<Longrightarrow>
   relay_target_min_z tp \<le> pz (clamp_target_z tp p) \<and> pz (clamp_target_z tp p) \<le> relay_target_max_z tp"
  by (auto simp: clamp_target_z_def Let_def)

text \<open>Running out of passes is the only way to end inside a box.\<close>

lemma project_passes_clear_or_moving:
  "(\<forall>b \<in> set bs. \<not> IsInsideObstacle (project_passes n c bs p) b c) \<or>
   (\<forall>k < n. fst (project_pass c bs (((\<lambda>q. snd (project_pass c bs q)) ^^ k) p)))"
proof (induction n arbitrary: p)
  case 0
  then show ?case by simp
next
  case (Suc n)
  obtain moved q where mq: "project_pass c bs p = (moved, q)" by fastforce
  show ?case
  proof (cases moved)
    case False
    with mq have "q = p \<and> (\<forall>b \<in> set bs. \<not> IsInsideObstacle p b c)"
      by (simp add: project_pass_stable)
    with mq False show ?thesis by simp
  next
    case True
    with mq Suc [of q] show ?thesis
      by (auto simp: funpow_Suc_right less_Suc_eq_0_disj simp del: funpow.simps)
  qed
qed

lemma project_passes_clear_id:
  assumes "\<forall>b \<in> set bs. \<not> IsInsideObstacle p b c"
  shows "project_passes n c bs p = p"
proof (cases n)
  case (Suc m)
  from assms have "project_pass c bs p = (False, p)" by (simp add: project_pass_stable)
  with Suc show ?thesis by simp
qed simp

lemma project_passes_single:
  assumes "0 < n"
  shows "\<not> IsInsideObstacle (project_passes n c [b] p) b c"
proof (cases n)
  case (Suc m)
  then show ?thesis
    using project_not_inside [of b c p] project_passes_clear_id [of "[b]" "snd (ProjectPointOutOfObstacle b c p)" c m]
    by (auto simp: Let_def split_beta project_flag project_outside_id split: bool.splits)
qed (use assms in simp)

end
