(* ===== verification/Relay_Anchors.thy ===== *)
theory Relay_Anchors imports Relay_Geometry
begin

text \<open>
  The geometry that the two relay controllers share word for word: averages of positions and
  velocities, the midpoint of the closest pair between two groups of drones, the penalty for a
  drone that flies away from its anchor, and the progress of a group away from a midpoint. The role
  command \<open>RelayRoleCmd\<close>, which both publish and the drones obey, is here as well.
\<close>

section \<open>The role command\<close>

text \<open>\<open>RelayRoleCmd::ROLE_EXPLORER = 0\<close> and \<open>ROLE_RELAY = 1\<close>.\<close>

abbreviation (input) ROLE_EXPLORER :: int where "ROLE_EXPLORER \<equiv> 0"
abbreviation (input) ROLE_RELAY :: int where "ROLE_RELAY \<equiv> 1"

record RelayRoleCmd =
  rrc_stamp :: time
  rrc_agent_id :: int
  rrc_role :: int
  rrc_relay_target :: point
  rrc_relay_yaw :: real
  rrc_valid :: bool

record RelayTaskState =
  rts_agent_id :: int
  rts_stamp :: real
  rts_relay_role :: int
  rts_task_assignable :: bool
  rts_grid_count :: int
  rts_last_safety_replan_stamp :: real
  rts_last_plan_fail_stamp :: real
  rts_last_plan_success_stamp :: real
  rts_consecutive_plan_failures :: int

section \<open>Averages and midpoints\<close>

text \<open>The sums of the loops, divided by the number of terms.\<close>

definition average_point :: "point list \<Rightarrow> point" where
  "average_point found =
     (let count = real (length found) in
      \<lparr>px = sum_list (map px found) / count, py = sum_list (map py found) / count,
       pz = sum_list (map pz found) / count\<rparr>)"

definition average_vector :: "vector3 list \<Rightarrow> vector3" where
  "average_vector found =
     (let count = real (length found) in
      \<lparr>vx = sum_list (map vx found) / count, vy = sum_list (map vy found) / count,
       vz = sum_list (map vz found) / count\<rparr>)"

definition midpoint :: "point \<Rightarrow> point \<Rightarrow> point" where
  "midpoint a b = \<lparr>px = 1/2 * (px a + px b), py = 1/2 * (py a + py b), pz = 1/2 * (pz a + pz b)\<rparr>"

text \<open>
  The double loop keeps the best squared distance (infinity at first) and the midpoint found.
\<close>

definition bridge_step ::
  "(int \<Rightarrow> point option) \<Rightarrow> point \<Rightarrow> (real \<times> point) option \<Rightarrow> int \<Rightarrow> (real \<times> point) option" where
  "bridge_step lookup lhs best rhs_id =
     (case lookup rhs_id of
        None \<Rightarrow> best
      | Some rhs \<Rightarrow>
          let distance_sq = SquaredDistance lhs rhs in
          (case best of
             None \<Rightarrow> Some (distance_sq, midpoint lhs rhs)
           | Some (b, m) \<Rightarrow> if distance_sq \<ge> b then best else Some (distance_sq, midpoint lhs rhs)))"

definition bridge_scan ::
  "(int \<Rightarrow> point option) \<Rightarrow> int list \<Rightarrow> (real \<times> point) option \<Rightarrow> int \<Rightarrow> (real \<times> point) option" where
  "bridge_scan lookup rhs_ids best lhs_id =
     (case lookup lhs_id of
        None \<Rightarrow> best
      | Some lhs \<Rightarrow> foldl (bridge_step lookup lhs) best rhs_ids)"

section \<open>Motion towards and away from a point\<close>

definition computeBacktrackPenalty :: "point \<Rightarrow> vector3 \<Rightarrow> point \<Rightarrow> real" where
  "computeBacktrackPenalty position velocity anchor =
     (let speed = sqrt (vx velocity * vx velocity + vy velocity * vy velocity + vz velocity * vz velocity)
      in if speed < 1 / 1000 then 0
         else
           let dx = px anchor - px position; dy = py anchor - py position; dz = pz anchor - pz position;
               anchor_distance = sqrt (dx * dx + dy * dy + dz * dz)
           in if anchor_distance < 1 / 1000 then 0
              else
                let cosine = (vx velocity * dx + vy velocity * dy + vz velocity * dz) /
                      (speed * anchor_distance)
                in max 0 (- cosine) * anchor_distance)"

definition outward_progress :: "point \<Rightarrow> point \<Rightarrow> vector3 \<Rightarrow> real" where
  "outward_progress mid centroid velocity =
     (let cx = px centroid - px mid; cy = py centroid - py mid; cz = pz centroid - pz mid;
          cnorm = sqrt (cx * cx + cy * cy + cz * cz)
      in if cnorm < 1 / 1000 then 0
         else (vx velocity * cx + vy velocity * cy + vz velocity * cz) / cnorm)"

section \<open>Bounds\<close>

text \<open>The backtrack penalty never exceeds the distance to the anchor.\<close>

lemma backtrack_penalty_bounds:
  "0 \<le> computeBacktrackPenalty position velocity anchor"
  "computeBacktrackPenalty position velocity anchor \<le> sqrt (SquaredDistance position anchor)"
proof -
  define d1 d2 d3 where "d1 = px anchor - px position" and "d2 = py anchor - py position"
    and "d3 = pz anchor - pz position"
  define speed where "speed = sqrt (vx velocity * vx velocity + vy velocity * vy velocity + vz velocity * vz velocity)"
  define dist where "dist = sqrt (d1 * d1 + d2 * d2 + d3 * d3)"
  define dot where "dot = vx velocity * d1 + vy velocity * d2 + vz velocity * d3"
  have dist_eq: "sqrt (SquaredDistance position anchor) = dist"
    unfolding dist_def SquaredDistance_def Let_def d1_def d2_def d3_def
    by (rule arg_cong [where f = sqrt]) (simp add: algebra_simps)
  have penalty: "computeBacktrackPenalty position velocity anchor =
      (if speed < 1/1000 then 0 else if dist < 1/1000 then 0
       else max 0 (- (dot / (speed * dist))) * dist)"
    by (simp add: computeBacktrackPenalty_def Let_def speed_def dist_def dot_def d1_def d2_def d3_def)
  have nonneg: "0 \<le> dist" "0 \<le> speed" by (simp_all add: dist_def speed_def)
  have "\<bar>dot\<bar> \<le> speed * dist"
    unfolding dot_def speed_def dist_def by (rule cauchy_schwarz3)
  then have "- (dot / (speed * dist)) \<le> 1" if "speed \<ge> 1/1000" "dist \<ge> 1/1000"
    using that by (simp add: divide_simps)
  then have "max 0 (- (dot / (speed * dist))) * dist \<le> 1 * dist" if "speed \<ge> 1/1000" "dist \<ge> 1/1000"
    using that nonneg by (intro mult_right_mono) auto
  with nonneg show "computeBacktrackPenalty position velocity anchor \<le> sqrt (SquaredDistance position anchor)"
    by (auto simp: penalty dist_eq)
  show "0 \<le> computeBacktrackPenalty position velocity anchor"
    using nonneg by (auto simp: penalty)
qed

lemma outward_progress_le_speed:
  "\<bar>outward_progress m c v\<bar> \<le> sqrt (vx v * vx v + vy v * vy v + vz v * vz v)"
proof -
  define c1 c2 c3 where "c1 = px c - px m" and "c2 = py c - py m" and "c3 = pz c - pz m"
  define n where "n = sqrt (c1 * c1 + c2 * c2 + c3 * c3)"
  have "\<bar>vx v * c1 + vy v * c2 + vz v * c3\<bar> \<le> sqrt (vx v * vx v + vy v * vy v + vz v * vz v) * n"
    unfolding n_def by (rule cauchy_schwarz3)
  then have "\<bar>(vx v * c1 + vy v * c2 + vz v * c3) / n\<bar> \<le> sqrt (vx v * vx v + vy v * vy v + vz v * vz v)"
    if "\<not> n < 1/1000" using that by (simp add: abs_divide divide_simps)
  then show ?thesis
    by (simp add: outward_progress_def Let_def c1_def c2_def c3_def n_def)
qed

section \<open>The nearest pair\<close>

text \<open>What the double loop has established after some pairs: it holds the midpoint of a pair at
  the least distance among them.\<close>

definition bridge_inv :: "(point \<times> point) set \<Rightarrow> (real \<times> point) option \<Rightarrow> bool" where
  "bridge_inv pairs best \<longleftrightarrow>
     (case best of
        None \<Rightarrow> pairs = {}
      | Some (b, m) \<Rightarrow>
          (\<exists>(l, r) \<in> pairs. SquaredDistance l r = b \<and> m = midpoint l r) \<and>
          (\<forall>(l, r) \<in> pairs. b \<le> SquaredDistance l r))"

definition known :: "(int \<Rightarrow> point option) \<Rightarrow> int list \<Rightarrow> point set" where
  "known lookup ids = {q. \<exists>i \<in> set ids. lookup i = Some q}"

lemma known_simps [simp]:
  "known lookup [] = {}"
  "known lookup (i # ids) = (case lookup i of None \<Rightarrow> known lookup ids | Some q \<Rightarrow> insert q (known lookup ids))"
  by (auto simp: known_def split: option.splits)

lemma bridge_inv_step:
  "bridge_inv P best \<Longrightarrow>
   bridge_inv (P \<union> {lhs} \<times> known lookup [i]) (bridge_step lookup lhs best i)"
  by (auto simp: bridge_inv_def bridge_step_def Let_def split: option.splits)

lemma bridge_inv_inner:
  "bridge_inv P best \<Longrightarrow> bridge_inv (P \<union> {lhs} \<times> known lookup ids) (foldl (bridge_step lookup lhs) best ids)"
proof (induction ids arbitrary: P best)
  case Nil
  then show ?case by simp
next
  case (Cons i ids)
  from Cons.IH [OF bridge_inv_step [OF Cons.prems, of lhs lookup i]]
  show ?case by (auto simp: Un_assoc split: option.splits)
qed

lemma bridge_inv_scan:
  "bridge_inv P best \<Longrightarrow>
   bridge_inv (P \<union> known lookup lhs_ids \<times> known lookup rhs_ids)
     (foldl (bridge_scan lookup rhs_ids) best lhs_ids)"
proof (induction lhs_ids arbitrary: P best)
  case Nil
  then show ?case by simp
next
  case (Cons i ids)
  have "bridge_inv (P \<union> known lookup [i] \<times> known lookup rhs_ids) (bridge_scan lookup rhs_ids best i)"
    using Cons.prems by (auto simp: bridge_scan_def intro: bridge_inv_inner split: option.split)
  from Cons.IH [OF this] show ?case
    by (simp add: Un_assoc Sigma_Un_distrib1 [symmetric] split: option.splits)
qed

lemma bridge_scan_nearest:
  assumes "map_option snd (foldl (bridge_scan lookup rhs_ids) None lhs_ids) = Some m"
  shows "\<exists>l \<in> known lookup lhs_ids. \<exists>r \<in> known lookup rhs_ids. m = midpoint l r \<and>
    (\<forall>l' \<in> known lookup lhs_ids. \<forall>r' \<in> known lookup rhs_ids.
       SquaredDistance l r \<le> SquaredDistance l' r')"
proof -
  from assms obtain b where scan: "foldl (bridge_scan lookup rhs_ids) None lhs_ids = Some (b, m)" by auto
  have "bridge_inv {} None" by (simp add: bridge_inv_def)
  from bridge_inv_scan [OF this, of lookup lhs_ids rhs_ids]
  have "bridge_inv (known lookup lhs_ids \<times> known lookup rhs_ids) (Some (b, m))" by (simp add: scan)
  then show ?thesis unfolding bridge_inv_def by fastforce
qed

lemma bridge_scan_None:
  "map_option snd (foldl (bridge_scan lookup rhs_ids) None lhs_ids) = None \<longleftrightarrow>
   known lookup lhs_ids = {} \<or> known lookup rhs_ids = {}"
proof -
  have "bridge_inv {} None" by (simp add: bridge_inv_def)
  from bridge_inv_scan [OF this, of lookup lhs_ids rhs_ids] show ?thesis
    by (auto simp: bridge_inv_def split: option.splits)
qed

end
