(* ===== verification/Local_Relay_State.thy ===== *)
theory Local_Relay_State imports Relay_Anchors
begin

text \<open>
  The data of \<open>RacerLocalRelayControllerNode\<close>
  (\<open>relay_racer_integration/src/racer_local_relay_controller_node.cpp\<close>): its parameters and the
  constructor that bounds them, its member variables, the messages it exchanges, the callbacks
  that fill its caches, and the pruning of those caches. Every drone runs one such node.
\<close>

section \<open>Parameters\<close>

record lr_params = target_params +
  self_id :: int
  drone_ids :: "int list"
  relay_policy_mode :: RelayPolicyMode
  peer_state_fresh_timeout_sec :: real
  peer_state_stale_retention_sec :: real
  proposal_timeout_sec :: real
  task_state_fresh_timeout_sec :: real
  relay_trigger_persist_time :: real
  relay_winner_persist_time :: real
  relay_recover_time :: real
  relay_min_hold_time :: real
  relay_reenter_cooldown :: real
  relay_startup_grace_period :: real
  relay_max_occupancy_ratio :: real
  relay_no_improvement_timeout :: real
  relay_max_active_duration :: real
  relay_activation_min_stale_count :: int
  relay_activation_score_margin :: real
  relay_activation_min_votes :: int
  relay_handoff_persist_time :: real
  relay_handoff_min_vote_margin :: int
  relay_candidate_speed_penalty_gain :: real
  relay_candidate_reuse_penalty_gain :: real
  relay_candidate_grid_load_penalty_gain :: real
  relay_candidate_backtrack_penalty_gain :: real
  relay_candidate_recent_safety_penalty_gain :: real
  relay_candidate_recent_safety_timeout_sec :: real
  relay_candidate_recent_plan_fail_penalty_gain :: real
  relay_candidate_recent_plan_fail_timeout_sec :: real
  relay_candidate_recent_plan_success_penalty_gain :: real
  relay_candidate_recent_plan_success_timeout_sec :: real
  relay_candidate_consecutive_plan_fail_penalty_gain :: real
  relay_suppress_balanced_split :: bool
  relay_balanced_min_component_size :: int
  relay_balanced_size_ratio_threshold :: real
  relay_balanced_min_separation_m :: real
  relay_balanced_axis_ratio_threshold :: real
  relay_balanced_outward_velocity_threshold :: real
  relay_anchor_use_nearest_pair_midpoint :: bool

text \<open>The defaults passed to \<open>pnh_.param\<close>, for a node with one drone and no obstacles.\<close>

definition lr_default_params :: lr_params where
  "lr_default_params =
    \<lparr>relay_target_use_fixed_z = True, relay_target_fixed_z = 1, relay_target_min_z = 9/10,
     relay_target_max_z = 13/10, relay_target_obstacle_clearance = 6/10, relay_obstacles = [],
     self_id = 1, drone_ids = [1], relay_policy_mode = kRule,
     peer_state_fresh_timeout_sec = 2, peer_state_stale_retention_sec = 20,
     proposal_timeout_sec = 3, task_state_fresh_timeout_sec = 2,
     relay_trigger_persist_time = 1, relay_winner_persist_time = 2, relay_recover_time = 2,
     relay_min_hold_time = 5, relay_reenter_cooldown = 2, relay_startup_grace_period = 25,
     relay_max_occupancy_ratio = 1/2, relay_no_improvement_timeout = 15,
     relay_max_active_duration = 30, relay_activation_min_stale_count = 1,
     relay_activation_score_margin = 0, relay_activation_min_votes = 2,
     relay_handoff_persist_time = 4, relay_handoff_min_vote_margin = 1,
     relay_candidate_speed_penalty_gain = 6, relay_candidate_reuse_penalty_gain = 15/100,
     relay_candidate_grid_load_penalty_gain = 3, relay_candidate_backtrack_penalty_gain = 8,
     relay_candidate_recent_safety_penalty_gain = 25,
     relay_candidate_recent_safety_timeout_sec = 8,
     relay_candidate_recent_plan_fail_penalty_gain = 18,
     relay_candidate_recent_plan_fail_timeout_sec = 8,
     relay_candidate_recent_plan_success_penalty_gain = 22,
     relay_candidate_recent_plan_success_timeout_sec = 10,
     relay_candidate_consecutive_plan_fail_penalty_gain = 4,
     relay_suppress_balanced_split = True, relay_balanced_min_component_size = 2,
     relay_balanced_size_ratio_threshold = 3/4, relay_balanced_min_separation_m = 10,
     relay_balanced_axis_ratio_threshold = 18/10,
     relay_balanced_outward_velocity_threshold = 15/100,
     relay_anchor_use_nearest_pair_midpoint = True\<rparr>"

text \<open>
  \<open>loadDroneIds\<close>: the ids of the parameter \<open>drone_ids\<close> when it holds some, and otherwise
  \<open>drone_num\<close> ids from \<open>first_drone_id\<close> on.
\<close>

definition loadDroneIds :: "int list option \<Rightarrow> int \<Rightarrow> int \<Rightarrow> int list" where
  "loadDroneIds drone_ids_param drone_num first_drone_id =
     (let ids = (case drone_ids_param of None \<Rightarrow> [] | Some xs \<Rightarrow> xs) in
      if ids \<noteq> [] then ids
      else map (\<lambda>i. first_drone_id + int i) [0..<nat drone_num])"

text \<open>The bounds the constructor enforces on the values it read.\<close>

definition lr_bound_target :: "lr_params \<Rightarrow> lr_params" where
  "lr_bound_target p =
     (let p = (if relay_target_min_z p > relay_target_max_z p
               then p\<lparr>relay_target_min_z := relay_target_max_z p,
                      relay_target_max_z := relay_target_min_z p\<rparr> else p)
      in p\<lparr>relay_target_obstacle_clearance := max 0 (relay_target_obstacle_clearance p)\<rparr>)"

definition lr_bound_params :: "lr_params \<Rightarrow> lr_params" where
  "lr_bound_params p = (lr_bound_target p)
    \<lparr>relay_candidate_speed_penalty_gain := max 0 (relay_candidate_speed_penalty_gain p),
     relay_candidate_reuse_penalty_gain := max 0 (relay_candidate_reuse_penalty_gain p),
     relay_candidate_grid_load_penalty_gain := max 0 (relay_candidate_grid_load_penalty_gain p),
     relay_candidate_backtrack_penalty_gain := max 0 (relay_candidate_backtrack_penalty_gain p),
     relay_candidate_recent_safety_penalty_gain :=
       max 0 (relay_candidate_recent_safety_penalty_gain p),
     relay_candidate_recent_safety_timeout_sec :=
       max 0 (relay_candidate_recent_safety_timeout_sec p),
     relay_candidate_recent_plan_fail_penalty_gain :=
       max 0 (relay_candidate_recent_plan_fail_penalty_gain p),
     relay_candidate_recent_plan_fail_timeout_sec :=
       max 0 (relay_candidate_recent_plan_fail_timeout_sec p),
     relay_candidate_recent_plan_success_penalty_gain :=
       max 0 (relay_candidate_recent_plan_success_penalty_gain p),
     relay_candidate_recent_plan_success_timeout_sec :=
       max 0 (relay_candidate_recent_plan_success_timeout_sec p),
     relay_candidate_consecutive_plan_fail_penalty_gain :=
       max 0 (relay_candidate_consecutive_plan_fail_penalty_gain p),
     relay_balanced_min_component_size := max 1 (relay_balanced_min_component_size p),
     relay_balanced_size_ratio_threshold := Clamp01 (relay_balanced_size_ratio_threshold p),
     relay_balanced_min_separation_m := max 0 (relay_balanced_min_separation_m p),
     relay_balanced_axis_ratio_threshold := max 1 (relay_balanced_axis_ratio_threshold p),
     relay_balanced_outward_velocity_threshold :=
       max 0 (relay_balanced_outward_velocity_threshold p)\<rparr>"

text \<open>The policy parameter is a string; an unknown one falls back to the rule policy.\<close>

definition lr_policy_of :: "string \<Rightarrow> RelayPolicyMode" where
  "lr_policy_of relay_policy_mode_param =
     (case TryParseRelayPolicyMode relay_policy_mode_param of None \<Rightarrow> kRule | Some m \<Rightarrow> m)"

definition lr_effective_params :: "lr_params \<Rightarrow> string \<Rightarrow> lr_params" where
  "lr_effective_params p relay_policy_mode_param =
     (lr_bound_params p)\<lparr>relay_policy_mode := lr_policy_of relay_policy_mode_param\<rparr>"

definition effectiveRelayPolicyMode :: "lr_params \<Rightarrow> RelayPolicyMode" where
  "effectiveRelayPolicyMode p =
     (if relay_policy_mode p = kRl then kRule else relay_policy_mode p)"

text \<open>What the constructor guarantees of the parameters the other operations read.\<close>

definition lr_params_ok :: "lr_params \<Rightarrow> bool" where
  "lr_params_ok p \<longleftrightarrow>
     relay_target_min_z p \<le> relay_target_max_z p \<and> 0 \<le> relay_target_obstacle_clearance p \<and>
     0 \<le> relay_candidate_speed_penalty_gain p \<and> 0 \<le> relay_candidate_reuse_penalty_gain p \<and>
     0 \<le> relay_candidate_grid_load_penalty_gain p \<and> 0 \<le> relay_candidate_backtrack_penalty_gain p \<and>
     0 \<le> relay_candidate_recent_safety_penalty_gain p \<and>
     0 \<le> relay_candidate_recent_plan_fail_penalty_gain p \<and>
     0 \<le> relay_candidate_recent_plan_success_penalty_gain p \<and>
     0 \<le> relay_candidate_consecutive_plan_fail_penalty_gain p \<and>
     1 \<le> relay_balanced_min_component_size p"

lemma lr_bound_target_ok:
  "relay_target_min_z (lr_bound_target p) \<le> relay_target_max_z (lr_bound_target p)"
  "0 \<le> relay_target_obstacle_clearance (lr_bound_target p)"
  by (simp_all add: lr_bound_target_def Let_def)

lemma lr_effective_params_ok: "lr_params_ok (lr_effective_params p m)"
  using lr_bound_target_ok [of p]
  by (simp add: lr_params_ok_def lr_effective_params_def lr_bound_params_def)

section \<open>Messages\<close>

record RelayPeerState =
  rps_stamp :: time
  rps_agent_id :: int
  rps_position :: point
  rps_velocity :: vector3
  rps_cumulative_relay_occupancy_sec :: real
  rps_valid :: bool

record RelayProposal =
  rp_stamp :: time
  rp_proposer_id :: int
  rp_candidate_id :: int
  rp_valid :: bool
  rp_score :: real
  rp_relay_target :: point
  rp_fresh_peer_count :: int
  rp_stale_peer_count :: int

record Odometry =
  odom_stamp :: time
  odom_position :: point
  odom_velocity :: vector3

datatype lr_output = PubPeerState RelayPeerState | PubProposal RelayProposal | PubRole RelayRoleCmd

section \<open>Member variables\<close>

record PeerStateEntry =
  pe_position :: point
  pe_velocity :: vector3
  pe_cumulative_relay_occupancy_sec :: real
  pe_last_rx_time :: time
  pe_valid :: bool

record TaskStateEntry =
  te_relay_role :: int
  te_task_assignable :: bool
  te_grid_count :: nat
  te_last_safety_replan_stamp :: real
  te_last_plan_fail_stamp :: real
  te_last_plan_success_stamp :: real
  te_consecutive_plan_failures :: int
  te_last_rx_time :: time
  te_valid :: bool

record ProposalView =
  pv_fragmented_observed :: bool
  pv_valid :: bool
  pv_candidate_id :: int
  pv_relay_target :: point
  pv_score :: real
  pv_fresh_peer_count :: int
  pv_stale_peer_count :: int

record ProposalEntry =
  pr_valid :: bool
  pr_candidate_id :: int
  pr_score :: real
  pr_relay_target :: point
  pr_fresh_peer_count :: int
  pr_stale_peer_count :: int
  pr_support_count :: int
  pr_stamp :: time

definition default_task_state :: TaskStateEntry where
  "default_task_state = \<lparr>te_relay_role = 0, te_task_assignable = True, te_grid_count = 0,
     te_last_safety_replan_stamp = 0, te_last_plan_fail_stamp = 0, te_last_plan_success_stamp = 0,
     te_consecutive_plan_failures = 0, te_last_rx_time = 0, te_valid = False\<rparr>"

definition default_proposal :: ProposalEntry where
  "default_proposal = \<lparr>pr_valid = False, pr_candidate_id = -1, pr_score = 0,
     pr_relay_target = zero_point, pr_fresh_peer_count = 0, pr_stale_peer_count = 0,
     pr_support_count = 0, pr_stamp = 0\<rparr>"

definition default_view :: ProposalView where
  "default_view = \<lparr>pv_fragmented_observed = False, pv_valid = False, pv_candidate_id = -1,
     pv_relay_target = zero_point, pv_score = 0, pv_fresh_peer_count = 0, pv_stale_peer_count = 0\<rparr>"

record lr_state =
  relay_active :: bool
  have_self_odom :: bool
  peer_cache :: "PeerStateEntry umap"
  peer_task_cache :: "TaskStateEntry umap"
  proposal_cache :: "ProposalEntry umap"
  self_position :: point
  self_velocity :: vector3
  self_odom_stamp :: time
  self_task_state :: TaskStateEntry
  relay_anchor :: point
  first_tick_time :: time
  fragmented_since :: time
  connected_since :: time
  relay_change_time :: time
  relay_exit_time :: time
  relay_last_improvement_time :: time
  stable_winner_since :: time
  stable_winner_id :: int
  relay_best_stale_peer_count :: int
  relay_best_fresh_peer_count :: int
  relay_active_support_count :: int
  cumulative_relay_occupancy_sec :: real

text \<open>The state after the constructor.\<close>

definition lr_init :: "lr_params \<Rightarrow> lr_state" where
  "lr_init p =
    \<lparr>relay_active = False, have_self_odom = False, peer_cache = [], peer_task_cache = [],
     proposal_cache = [], self_position = zero_point, self_velocity = zero_vector,
     self_odom_stamp = 0, self_task_state = default_task_state,
     relay_anchor = \<lparr>px = 0, py = 0, pz = relay_target_fixed_z p\<rparr>,
     first_tick_time = 0, fragmented_since = 0, connected_since = 0, relay_change_time = 0,
     relay_exit_time = 0, relay_last_improvement_time = 0, stable_winner_since = 0,
     stable_winner_id = -1, relay_best_stale_peer_count = int_max,
     relay_best_fresh_peer_count = 0, relay_active_support_count = 0,
     cumulative_relay_occupancy_sec = 0\<rparr>"

section \<open>Callbacks\<close>

definition stamp_or_now :: "time \<Rightarrow> time \<Rightarrow> time" where
  "stamp_or_now stamp now = (if stamp = 0 then now else stamp)"

definition odomCallback :: "Odometry \<Rightarrow> time \<Rightarrow> lr_state \<Rightarrow> lr_state" where
  "odomCallback msg now s =
     s\<lparr>self_position := odom_position msg, self_velocity := odom_velocity msg,
       self_odom_stamp := stamp_or_now (odom_stamp msg) now, have_self_odom := True\<rparr>"

definition peerStateCallback :: "lr_params \<Rightarrow> RelayPeerState \<Rightarrow> time \<Rightarrow> lr_state \<Rightarrow> lr_state" where
  "peerStateCallback p msg now s =
     (if \<not> rps_valid msg \<or> rps_agent_id msg = self_id p then s
      else
        let entry = \<lparr>pe_position = rps_position msg, pe_velocity = rps_velocity msg,
              pe_cumulative_relay_occupancy_sec = rps_cumulative_relay_occupancy_sec msg,
              pe_last_rx_time = stamp_or_now (rps_stamp msg) now, pe_valid = True\<rparr>
        in s\<lparr>peer_cache := AList.update (rps_agent_id msg) entry (peer_cache s)\<rparr>)"

definition proposalCallback :: "lr_params \<Rightarrow> RelayProposal \<Rightarrow> time \<Rightarrow> lr_state \<Rightarrow> lr_state" where
  "proposalCallback p msg now s =
     (if rp_proposer_id msg = self_id p then s
      else
        let entry = \<lparr>pr_valid = rp_valid msg, pr_candidate_id = rp_candidate_id msg,
              pr_score = rp_score msg, pr_relay_target = rp_relay_target msg,
              pr_fresh_peer_count = rp_fresh_peer_count msg,
              pr_stale_peer_count = rp_stale_peer_count msg, pr_support_count = 1,
              pr_stamp = stamp_or_now (rp_stamp msg) now\<rparr>
        in s\<lparr>proposal_cache := AList.update (rp_proposer_id msg) entry (proposal_cache s)\<rparr>)"

text \<open>\<open>updateTaskState\<close> writes every field of the entry, so the entry it had is not an argument.\<close>

definition updateTaskState :: "RelayTaskState \<Rightarrow> time \<Rightarrow> TaskStateEntry" where
  "updateTaskState msg now =
     \<lparr>te_relay_role = rts_relay_role msg, te_task_assignable = rts_task_assignable msg,
      te_grid_count = nat (max 0 (rts_grid_count msg)),
      te_last_safety_replan_stamp = rts_last_safety_replan_stamp msg,
      te_last_plan_fail_stamp = rts_last_plan_fail_stamp msg,
      te_last_plan_success_stamp = rts_last_plan_success_stamp msg,
      te_consecutive_plan_failures = max 0 (rts_consecutive_plan_failures msg),
      te_last_rx_time = (if rts_stamp msg > 1 / 1000000 then rts_stamp msg else now),
      te_valid = True\<rparr>"

definition selfDroneStateCallback :: "lr_params \<Rightarrow> RelayTaskState \<Rightarrow> time \<Rightarrow> lr_state \<Rightarrow> lr_state" where
  "selfDroneStateCallback p msg now s =
     (if rts_agent_id msg \<noteq> self_id p then s
      else s\<lparr>self_task_state := updateTaskState msg now\<rparr>)"

definition peerDroneStateCallback :: "lr_params \<Rightarrow> RelayTaskState \<Rightarrow> time \<Rightarrow> lr_state \<Rightarrow> lr_state" where
  "peerDroneStateCallback p msg now s =
     (if rts_agent_id msg = self_id p then s
      else s\<lparr>peer_task_cache :=
               AList.update (rts_agent_id msg) (updateTaskState msg now) (peer_task_cache s)\<rparr>)"

section \<open>Pruning\<close>

definition peer_expired :: "lr_params \<Rightarrow> time \<Rightarrow> PeerStateEntry \<Rightarrow> bool" where
  "peer_expired p now e \<longleftrightarrow>
     \<not> pe_valid e \<or> now - pe_last_rx_time e > peer_state_stale_retention_sec p"

definition proposal_expired :: "lr_params \<Rightarrow> time \<Rightarrow> ProposalEntry \<Rightarrow> bool" where
  "proposal_expired p now e \<longleftrightarrow> now - pr_stamp e > proposal_timeout_sec p"

definition task_expired :: "lr_params \<Rightarrow> time \<Rightarrow> TaskStateEntry \<Rightarrow> bool" where
  "task_expired p now e \<longleftrightarrow>
     \<not> te_valid e \<or> now - te_last_rx_time e > peer_state_stale_retention_sec p"

definition pruneCaches :: "lr_params \<Rightarrow> time \<Rightarrow> lr_state \<Rightarrow> lr_state" where
  "pruneCaches p now s =
     s\<lparr>peer_cache := prune (peer_expired p now) (peer_cache s),
       proposal_cache := prune (proposal_expired p now) (proposal_cache s),
       peer_task_cache := prune (task_expired p now) (peer_task_cache s)\<rparr>"

interpretation peers: expiring_cache "peer_expired p" for p
  by unfold_locales (auto simp: peer_expired_def)

interpretation proposals: expiring_cache "proposal_expired p" for p
  by unfold_locales (auto simp: proposal_expired_def)

interpretation tasks: expiring_cache "task_expired p" for p
  by unfold_locales (auto simp: task_expired_def)

section \<open>The caches stay well formed\<close>

text \<open>
  Keys are unique, the node is never its own peer, and every entry of the peer caches is valid
  (the callbacks only ever store valid entries).
\<close>

definition lr_caches_ok :: "lr_params \<Rightarrow> lr_state \<Rightarrow> bool" where
  "lr_caches_ok p s \<longleftrightarrow>
     cache_ok (self_id p) pe_valid (peer_cache s) \<and>
     cache_ok (self_id p) (\<lambda>_. True) (proposal_cache s) \<and>
     cache_ok (self_id p) (\<lambda>e. te_valid e \<and> 0 \<le> te_consecutive_plan_failures e) (peer_task_cache s)"

lemma lr_caches_ok_init: "lr_caches_ok p (lr_init p)"
  by (simp add: lr_caches_ok_def lr_init_def cache_ok_def)

lemma lr_caches_ok_odom: "lr_caches_ok p s \<Longrightarrow> lr_caches_ok p (odomCallback msg now s)"
  by (simp add: lr_caches_ok_def odomCallback_def)

lemma lr_caches_ok_peerState:
  "lr_caches_ok p s \<Longrightarrow> lr_caches_ok p (peerStateCallback p msg now s)"
  by (simp add: lr_caches_ok_def peerStateCallback_def cache_ok_update)

lemma lr_caches_ok_proposal:
  "lr_caches_ok p s \<Longrightarrow> lr_caches_ok p (proposalCallback p msg now s)"
  by (simp add: lr_caches_ok_def proposalCallback_def cache_ok_update)

lemma lr_caches_ok_selfTask:
  "lr_caches_ok p s \<Longrightarrow> lr_caches_ok p (selfDroneStateCallback p msg now s)"
  by (simp add: lr_caches_ok_def selfDroneStateCallback_def)

lemma lr_caches_ok_peerTask:
  "lr_caches_ok p s \<Longrightarrow> lr_caches_ok p (peerDroneStateCallback p msg now s)"
  by (simp add: lr_caches_ok_def peerDroneStateCallback_def updateTaskState_def cache_ok_update)

lemma lr_caches_ok_prune: "lr_caches_ok p s \<Longrightarrow> lr_caches_ok p (pruneCaches p now s)"
  by (simp add: lr_caches_ok_def pruneCaches_def cache_ok_prune)

end
