(* ===== verification/Local_Relay_Scoring.thy ===== *)
theory Local_Relay_Scoring imports Local_Relay_State
begin

text \<open>
  What \<open>RacerLocalRelayControllerNode\<close> computes from its caches: the lookups of a drone's pose,
  velocity, occupancy and task state, the score of a relay candidate, the scan for the best
  candidate, and the relay anchor between the reachable side and the lost side of the swarm.
\<close>

section \<open>Lookups\<close>

definition currentRelayOccupancySec :: "lr_state \<Rightarrow> time \<Rightarrow> real" where
  "currentRelayOccupancySec s now =
     (if relay_active s \<and> relay_change_time s \<noteq> 0
      then cumulative_relay_occupancy_sec s + max 0 (now - relay_change_time s)
      else cumulative_relay_occupancy_sec s)"

definition find_valid_peer :: "lr_state \<Rightarrow> int \<Rightarrow> PeerStateEntry option" where
  "find_valid_peer s agent_id =
     (case map_of (peer_cache s) agent_id of
        None \<Rightarrow> None
      | Some e \<Rightarrow> if pe_valid e then Some e else None)"

definition lookupRelayOccupancy :: "lr_params \<Rightarrow> lr_state \<Rightarrow> int \<Rightarrow> time \<Rightarrow> real option" where
  "lookupRelayOccupancy p s agent_id now =
     (if agent_id = self_id p
      then (if have_self_odom s then Some (currentRelayOccupancySec s now) else None)
      else map_option pe_cumulative_relay_occupancy_sec (find_valid_peer s agent_id))"

definition lookupTaskState :: "lr_params \<Rightarrow> lr_state \<Rightarrow> int \<Rightarrow> time \<Rightarrow> TaskStateEntry option" where
  "lookupTaskState p s agent_id now =
     (if agent_id = self_id p then
        (if \<not> te_valid (self_task_state s) then None
         else if now - te_last_rx_time (self_task_state s) > task_state_fresh_timeout_sec p then None
         else Some (self_task_state s))
      else
        (case map_of (peer_task_cache s) agent_id of
           None \<Rightarrow> None
         | Some e \<Rightarrow>
             if \<not> te_valid e then None
             else if now - te_last_rx_time e > task_state_fresh_timeout_sec p then None
             else Some e))"

definition lookupPoint :: "lr_params \<Rightarrow> lr_state \<Rightarrow> int \<Rightarrow> point option" where
  "lookupPoint p s agent_id =
     (if agent_id = self_id p then (if have_self_odom s then Some (self_position s) else None)
      else map_option pe_position (find_valid_peer s agent_id))"

definition lookupVelocity :: "lr_params \<Rightarrow> lr_state \<Rightarrow> int \<Rightarrow> vector3 option" where
  "lookupVelocity p s agent_id =
     (if agent_id = self_id p then (if have_self_odom s then Some (self_velocity s) else None)
      else map_option pe_velocity (find_valid_peer s agent_id))"

section \<open>The score of a candidate\<close>

text \<open>
  The penalty for a recent event, common to the three stamps of a task state: linear in the age,
  from the gain down to zero at the timeout.
\<close>

definition recent_age :: "time \<Rightarrow> real \<Rightarrow> real" where
  "recent_age now_sec stamp = max 0 (now_sec - stamp)"

definition is_recent :: "time \<Rightarrow> real \<Rightarrow> real \<Rightarrow> bool" where
  "is_recent now_sec timeout stamp \<longleftrightarrow>
     timeout > 1 / 1000000 \<and> stamp > 1 / 1000000 \<and> recent_age now_sec stamp < timeout"

definition recent_penalty :: "time \<Rightarrow> real \<Rightarrow> real \<Rightarrow> real \<Rightarrow> real" where
  "recent_penalty now_sec gain timeout stamp =
     (if is_recent now_sec timeout stamp then gain * (1 - recent_age now_sec stamp / timeout) else 0)"

text \<open>
  The task part of the score: \<open>None\<close> for a drone that must not be taken (not assignable, already
  a relay, or a busy multi-grid explorer that planned successfully a short while ago).
\<close>

definition task_penalties :: "lr_params \<Rightarrow> TaskStateEntry \<Rightarrow> time \<Rightarrow> real option" where
  "task_penalties p t now_sec =
     (if \<not> te_task_assignable t \<or> te_relay_role t = ROLE_RELAY then None
      else
        let task_penalty = relay_candidate_grid_load_penalty_gain p * real (te_grid_count t);
            recent_safety_penalty = recent_penalty now_sec
              (relay_candidate_recent_safety_penalty_gain p)
              (relay_candidate_recent_safety_timeout_sec p) (te_last_safety_replan_stamp t);
            recent_plan_fail_penalty = recent_penalty now_sec
              (relay_candidate_recent_plan_fail_penalty_gain p)
              (relay_candidate_recent_plan_fail_timeout_sec p) (te_last_plan_fail_stamp t);
            recent_plan_success_penalty = recent_penalty now_sec
              (relay_candidate_recent_plan_success_penalty_gain p)
              (relay_candidate_recent_plan_success_timeout_sec p) (te_last_plan_success_stamp t);
            consecutive_plan_fail_penalty =
              relay_candidate_consecutive_plan_fail_penalty_gain p *
              real_of_int (te_consecutive_plan_failures t)
        in if is_recent now_sec (relay_candidate_recent_plan_success_timeout_sec p)
                (te_last_plan_success_stamp t) \<and> te_grid_count t > 1
           then None
           else Some (task_penalty + recent_safety_penalty + recent_plan_fail_penalty +
                      recent_plan_success_penalty + consecutive_plan_fail_penalty))"

definition computeCandidateScore :: "lr_params \<Rightarrow> lr_state \<Rightarrow> int \<Rightarrow> point \<Rightarrow> time \<Rightarrow> real option" where
  "computeCandidateScore p s agent_id anchor now =
     (case (lookupPoint p s agent_id, lookupVelocity p s agent_id, lookupRelayOccupancy p s agent_id now) of
        (Some position, Some velocity, Some occupancy) \<Rightarrow>
          (case (case lookupTaskState p s agent_id now of
                   None \<Rightarrow> Some 0 | Some t \<Rightarrow> task_penalties p t now) of
             None \<Rightarrow> None
           | Some task_part \<Rightarrow>
               let speed = sqrt (vx velocity * vx velocity + vy velocity * vy velocity +
                     vz velocity * vz velocity);
                   anchor_distance = sqrt (SquaredDistance position anchor);
                   backtrack_penalty = computeBacktrackPenalty position velocity anchor
               in Some (anchor_distance +
                    relay_candidate_speed_penalty_gain p * speed +
                    relay_candidate_reuse_penalty_gain p * occupancy +
                    relay_candidate_backtrack_penalty_gain p * backtrack_penalty +
                    task_part))
      | _ \<Rightarrow> None)"

section \<open>The best candidate\<close>

text \<open>Comparisons with a best value that starts at infinity (\<open>None\<close>).\<close>

definition beats :: "real \<Rightarrow> real option \<Rightarrow> bool" where
  "beats x best = (case best of None \<Rightarrow> True | Some b \<Rightarrow> x < b - 1 / 1000000)"

definition ties :: "real \<Rightarrow> real option \<Rightarrow> bool" where
  "ties x best = (case best of None \<Rightarrow> False | Some b \<Rightarrow> \<bar>x - b\<bar> \<le> 1 / 1000000)"

definition best_candidate_step ::
  "(int \<Rightarrow> real option) \<Rightarrow> int \<times> real option \<Rightarrow> int \<Rightarrow> int \<times> real option" where
  "best_candidate_step score_of best agent_id =
     (case score_of agent_id of
        None \<Rightarrow> best
      | Some score \<Rightarrow>
          if fst best < 0 \<or> beats score (snd best) \<or> (ties score (snd best) \<and> agent_id < fst best)
          then (agent_id, Some score) else best)"

definition computeBestCandidate ::
  "lr_params \<Rightarrow> lr_state \<Rightarrow> int list \<Rightarrow> point \<Rightarrow> time \<Rightarrow> (int \<times> real) option" where
  "computeBestCandidate p s ids anchor now =
     (let (candidate_id, candidate_score) =
        foldl (best_candidate_step (\<lambda>agent_id. computeCandidateScore p s agent_id anchor now)) (-1, None) ids
      in if candidate_id < 0 then None
         else Some (candidate_id, the candidate_score))"

section \<open>The two sides of a split\<close>

text \<open>The sums of the loops run over the ids with a known position (velocity) only.\<close>

definition computeCentroid :: "lr_params \<Rightarrow> lr_state \<Rightarrow> int list \<Rightarrow> point option" where
  "computeCentroid p s ids =
     (let found = List.map_filter (lookupPoint p s) ids
      in if ids = [] \<or> found = [] then None else Some (average_point found))"

definition computeAverageVelocity :: "lr_params \<Rightarrow> lr_state \<Rightarrow> int list \<Rightarrow> vector3 option" where
  "computeAverageVelocity p s ids =
     (let found = List.map_filter (lookupVelocity p s) ids
      in if ids = [] \<or> found = [] then None else Some (average_vector found))"

definition computeNearestBridgeMidpoint ::
  "lr_params \<Rightarrow> lr_state \<Rightarrow> int list \<Rightarrow> int list \<Rightarrow> point option" where
  "computeNearestBridgeMidpoint p s lhs_ids rhs_ids =
     map_option snd (foldl (bridge_scan (lookupPoint p s) rhs_ids) None lhs_ids)"

definition computeRelayAnchor :: "lr_params \<Rightarrow> lr_state \<Rightarrow> int list \<Rightarrow> int list \<Rightarrow> point option" where
  "computeRelayAnchor p s fresh_ids stale_ids =
     (if stale_ids = [] then None
      else
        let lhs_ids = fresh_ids @ [self_id p];
            bridge = (if relay_anchor_use_nearest_pair_midpoint p
                      then computeNearestBridgeMidpoint p s lhs_ids stale_ids else None)
        in case bridge of
             Some anchor \<Rightarrow> Some (sanitizeRelayAnchor (target_params.truncate p) anchor)
           | None \<Rightarrow>
               (case (computeCentroid p s lhs_ids, computeCentroid p s stale_ids) of
                  (Some lhs, Some rhs) \<Rightarrow>
                    Some (sanitizeRelayAnchor (target_params.truncate p) (midpoint lhs rhs))
                | _ \<Rightarrow> None))"

definition shouldCoordinateLocalSide :: "lr_params \<Rightarrow> int list \<Rightarrow> int list \<Rightarrow> bool" where
  "shouldCoordinateLocalSide p fresh_ids stale_ids =
     (case stale_ids of
        [] \<Rightarrow> True
      | r # _ \<Rightarrow> foldl min (self_id p) fresh_ids \<le> foldl min r stale_ids)"

definition shouldSuppressBalancedSplit :: "lr_params \<Rightarrow> lr_state \<Rightarrow> int list \<Rightarrow> int list \<Rightarrow> bool" where
  "shouldSuppressBalancedSplit p s fresh_ids stale_ids =
     (let lhs_ids = fresh_ids @ [self_id p] in
      if stale_ids = [] \<or> lhs_ids = [] then False
      else
        let lhs_size = int (length lhs_ids); rhs_size = int (length stale_ids);
            min_size = min lhs_size rhs_size; max_size = max lhs_size rhs_size
        in if min_size < relay_balanced_min_component_size p \<or> max_size \<le> 0 then False
           else if real_of_int min_size / real_of_int max_size < relay_balanced_size_ratio_threshold p
           then False
           else
             (case (computeCentroid p s lhs_ids, computeCentroid p s stale_ids) of
                (Some lhs_centroid, Some rhs_centroid) \<Rightarrow>
                  let dx = px rhs_centroid - px lhs_centroid; dy = py rhs_centroid - py lhs_centroid;
                      separation = sqrt (dx * dx + dy * dy);
                      major_axis = max \<bar>dx\<bar> \<bar>dy\<bar>; minor_axis = max (1 / 1000) (min \<bar>dx\<bar> \<bar>dy\<bar>)
                  in if separation < relay_balanced_min_separation_m p then False
                     else if major_axis / minor_axis < relay_balanced_axis_ratio_threshold p then False
                     else
                       (case (computeAverageVelocity p s lhs_ids, computeAverageVelocity p s stale_ids) of
                          (Some lhs_velocity, Some rhs_velocity) \<Rightarrow>
                            let mid = midpoint lhs_centroid rhs_centroid
                            in outward_progress mid lhs_centroid lhs_velocity \<ge>
                                 relay_balanced_outward_velocity_threshold p \<and>
                               outward_progress mid rhs_centroid rhs_velocity \<ge>
                                 relay_balanced_outward_velocity_threshold p
                        | _ \<Rightarrow> False)
              | _ \<Rightarrow> False))"

section \<open>Bounds on the parts of the score\<close>

lemma recent_penalty_bounds:
  "0 \<le> gain \<Longrightarrow> 0 \<le> recent_penalty now gain timeout stamp \<and> recent_penalty now gain timeout stamp \<le> gain"
proof -
  assume g: "0 \<le> gain"
  show ?thesis
  proof (cases "is_recent now timeout stamp")
    case True
    then have "0 \<le> recent_age now stamp / timeout" "recent_age now stamp / timeout < 1"
      by (auto simp: is_recent_def recent_age_def)
    with g True show ?thesis
      by (auto simp: recent_penalty_def intro: mult_left_le)
  qed (simp add: recent_penalty_def g)
qed

lemma task_penalties_nonneg:
  assumes "lr_params_ok p" and "0 \<le> te_consecutive_plan_failures t" and "task_penalties p t now = Some x"
  shows "0 \<le> x"
  using assms recent_penalty_bounds
  by (auto simp: task_penalties_def Let_def lr_params_ok_def split: if_splits)

definition occupancy_ok :: "lr_state \<Rightarrow> bool" where
  "occupancy_ok s \<longleftrightarrow> 0 \<le> cumulative_relay_occupancy_sec s \<and>
     (\<forall>e \<in> snd ` set (peer_cache s). 0 \<le> pe_cumulative_relay_occupancy_sec e) \<and>
     0 \<le> te_consecutive_plan_failures (self_task_state s) \<and>
     (\<forall>e \<in> snd ` set (peer_task_cache s). 0 \<le> te_consecutive_plan_failures e)"

lemma lookupRelayOccupancy_nonneg:
  assumes "occupancy_ok s" and "lookupRelayOccupancy p s i now = Some x"
  shows "0 \<le> x"
  using assms
  by (force simp: occupancy_ok_def lookupRelayOccupancy_def find_valid_peer_def currentRelayOccupancySec_def
      dest: map_of_SomeD split: if_splits option.splits)

lemma lookupTaskState_failures:
  assumes "occupancy_ok s" and "lookupTaskState p s i now = Some t"
  shows "0 \<le> te_consecutive_plan_failures t"
  using assms
  by (force simp: occupancy_ok_def lookupTaskState_def dest: map_of_SomeD split: if_splits option.splits)

text \<open>No candidate scores below its distance to the anchor: penalties only ever add.\<close>

lemma computeCandidateScore_ge_distance:
  assumes ok: "lr_params_ok p" "occupancy_ok s"
    and score: "computeCandidateScore p s i anchor now = Some x"
    and pos: "lookupPoint p s i = Some position"
  shows "sqrt (SquaredDistance position anchor) \<le> x"
proof -
  from score pos obtain velocity occupancy task_part where
    l: "lookupVelocity p s i = Some velocity" "lookupRelayOccupancy p s i now = Some occupancy"
       "(case lookupTaskState p s i now of None \<Rightarrow> Some 0 | Some t \<Rightarrow> task_penalties p t now) = Some task_part"
    and x: "x = sqrt (SquaredDistance position anchor) +
      relay_candidate_speed_penalty_gain p *
        sqrt (vx velocity * vx velocity + vy velocity * vy velocity + vz velocity * vz velocity) +
      relay_candidate_reuse_penalty_gain p * occupancy +
      relay_candidate_backtrack_penalty_gain p * computeBacktrackPenalty position velocity anchor + task_part"
    by (auto simp: computeCandidateScore_def Let_def split: option.splits)
  have "0 \<le> task_part"
    using l(3) ok task_penalties_nonneg lookupTaskState_failures by (fastforce split: option.splits)
  moreover have "0 \<le> occupancy" using ok l(2) lookupRelayOccupancy_nonneg by blast
  ultimately show ?thesis
    using ok(1) x backtrack_penalty_bounds(1) [of position velocity anchor]
    by (simp add: lr_params_ok_def)
qed

text \<open>A drone that reported itself not assignable, or already relaying, has no score.\<close>

lemma computeCandidateScore_assignable:
  assumes "computeCandidateScore p s i anchor now = Some x" and "lookupTaskState p s i now = Some t"
  shows "te_task_assignable t \<and> te_relay_role t \<noteq> ROLE_RELAY \<and>
    \<not> (is_recent now (relay_candidate_recent_plan_success_timeout_sec p) (te_last_plan_success_stamp t) \<and>
       te_grid_count t > 1)"
  using assms
  by (auto simp: computeCandidateScore_def task_penalties_def Let_def split: option.splits if_splits)

section \<open>The scan for the best candidate\<close>

definition scan_pick :: "int \<times> real option \<Rightarrow> (int \<times> real) option" where
  "scan_pick b = (if fst b < 0 then None else map_option (\<lambda>x. (fst b, x)) (snd b))"

interpretation candidate_scan: tolerant_scan
  "best_candidate_step f" scan_pick "\<lambda>i. i" f "\<lambda>k. 0 \<le> k" "1 / 1000000" for f
  by unfold_locales
    (auto simp: best_candidate_step_def scan_pick_def beats_def ties_def abs_if split: option.splits if_splits)

lemma best_scan_score_known:
  "(fst b < 0 \<or> snd b \<noteq> None) \<Longrightarrow>
   fst (foldl (best_candidate_step f) b ids) < 0 \<or> snd (foldl (best_candidate_step f) b ids) \<noteq> None"
  by (induction ids arbitrary: b) (auto simp: best_candidate_step_def split: option.splits)

lemma computeBestCandidate_pick:
  "computeBestCandidate p s ids anchor now =
   scan_pick (foldl (best_candidate_step (\<lambda>i. computeCandidateScore p s i anchor now)) (-1, None) ids)"
  using best_scan_score_known [of "(-1, None)" "\<lambda>i. computeCandidateScore p s i anchor now" ids]
  by (auto simp: computeBestCandidate_def scan_pick_def split_beta split: option.splits)

lemma computeBestCandidate_from:
  assumes "\<forall>i \<in> set ids. 0 \<le> i" and "computeBestCandidate p s ids anchor now = Some (c, x)"
  shows "c \<in> set ids \<and> computeCandidateScore p s c anchor now = Some x"
  using candidate_scan.scan_from [of ids "(-1, None)" "\<lambda>i. computeCandidateScore p s i anchor now" c x] assms
  by (auto simp: candidate_scan.good_list_def computeBestCandidate_pick scan_pick_def [of "(-1, None)"])

lemma computeBestCandidate_near_minimum:
  assumes "\<forall>i \<in> set ids. 0 \<le> i" and "j \<in> set ids"
    and "computeCandidateScore p s j anchor now = Some y"
  shows "\<exists>c x. computeBestCandidate p s ids anchor now = Some (c, x) \<and>
    x \<le> y + real (length ids) * (1 / 1000000)"
  using candidate_scan.scan_best [of ids "(-1, None)" j _ y] assms
  by (auto simp: candidate_scan.good_list_def computeBestCandidate_pick scan_pick_def [of "(-1, None)"])

section \<open>The nearest pair across the split\<close>

lemma computeNearestBridgeMidpoint_nearest:
  assumes "computeNearestBridgeMidpoint p s lhs_ids rhs_ids = Some m"
  shows "\<exists>l \<in> known (lookupPoint p s) lhs_ids. \<exists>r \<in> known (lookupPoint p s) rhs_ids.
    m = midpoint l r \<and>
    (\<forall>l' \<in> known (lookupPoint p s) lhs_ids. \<forall>r' \<in> known (lookupPoint p s) rhs_ids.
       SquaredDistance l r \<le> SquaredDistance l' r')"
  using bridge_scan_nearest assms unfolding computeNearestBridgeMidpoint_def by blast

lemma computeNearestBridgeMidpoint_None:
  "computeNearestBridgeMidpoint p s lhs_ids rhs_ids = None \<longleftrightarrow>
   known (lookupPoint p s) lhs_ids = {} \<or> known (lookupPoint p s) rhs_ids = {}"
  unfolding computeNearestBridgeMidpoint_def by (rule bridge_scan_None)

lemma computeRelayAnchor_z:
  assumes "lr_params_ok p" and "computeRelayAnchor p s fresh stale = Some a"
  shows "relay_target_min_z p \<le> pz a \<and> pz a \<le> relay_target_max_z p"
proof -
  from assms(2) obtain q where "a = sanitizeRelayAnchor (target_params.truncate p) q"
    by (auto simp: computeRelayAnchor_def Let_def split: if_splits option.splits)
  then show ?thesis
    using assms(1) clamp_target_z_range [of "target_params.truncate p" q]
    by (simp add: sanitizeRelayAnchor_pz lr_params_ok_def target_params.defs)
qed

section \<open>Which side of a split coordinates\<close>

lemma foldl_min_Min: "foldl min (a :: int) xs = Min (insert a (set xs))"
proof -
  have "(\<lambda>x s. min s x) = (min :: int \<Rightarrow> int \<Rightarrow> int)" by (simp add: fun_eq_iff min.commute)
  then show ?thesis using Min.set_eq_fold [of a xs] by (simp add: foldl_conv_fold)
qed

lemma shouldCoordinateLocalSide_iff:
  assumes "stale \<noteq> []"
  shows "shouldCoordinateLocalSide p fresh stale \<longleftrightarrow>
    Min (insert (self_id p) (set fresh)) \<le> Min (set stale)"
  using assms by (cases stale) (simp_all add: shouldCoordinateLocalSide_def foldl_min_Min)

text \<open>
  Two nodes on opposite sides of a split, each seeing exactly its own side as fresh and the other
  side as stale: exactly one of them coordinates.
\<close>

lemma exactly_one_side_coordinates:
  assumes A: "insert (self_id p) (set fresh) = A" "set stale = B"
    and B: "insert (self_id q) (set fresh') = B" "set stale' = A"
    and disj: "A \<inter> B = {}"
  shows "shouldCoordinateLocalSide p fresh stale \<noteq> shouldCoordinateLocalSide q fresh' stale'"
proof -
  have ne: "A \<noteq> {}" "B \<noteq> {}" and fin: "finite A" "finite B" using A B by auto
  then have "Min A \<in> A" "Min B \<in> B" by auto
  with disj have "Min A \<noteq> Min B" by auto
  moreover have "shouldCoordinateLocalSide p fresh stale \<longleftrightarrow> Min A \<le> Min B"
    using A ne by (subst shouldCoordinateLocalSide_iff) auto
  moreover have "shouldCoordinateLocalSide q fresh' stale' \<longleftrightarrow> Min B \<le> Min A"
    using B ne by (subst shouldCoordinateLocalSide_iff) auto
  ultimately show ?thesis by linarith
qed

end
