(* ===== verification/Local_Relay_Election.thy ===== *)
theory Local_Relay_Election imports Local_Relay_Scoring
begin

text \<open>
  The election of the relay (\<open>selectWinningProposal\<close>): every node votes with its own proposal and
  the proposals it has received and not let expire; the candidate with the most votes wins if it
  has enough of them, and equal counts are decided by the average score and then by the smaller
  id. The lemmas count the votes and show when two nodes cannot elect different relays.
\<close>

section \<open>Aggregation\<close>

record AggregateEntry =
  ag_candidate_id :: int
  ag_votes :: int
  ag_score_sum :: real
  ag_best_score :: "real option"
  ag_relay_target :: point
  ag_fresh_peer_count :: int
  ag_stale_peer_count :: int
  ag_best_proposer_id :: int
  ag_stamp :: time

definition default_aggregate :: AggregateEntry where
  "default_aggregate = \<lparr>ag_candidate_id = -1, ag_votes = 0, ag_score_sum = 0, ag_best_score = None,
     ag_relay_target = zero_point, ag_fresh_peer_count = 0, ag_stale_peer_count = 0,
     ag_best_proposer_id = int_max, ag_stamp = 0\<rparr>"

text \<open>The lambda \<open>consider\<close>; \<open>aggregate_by_candidate[id]\<close> creates a default entry when it is new.\<close>

definition add_vote :: "int \<Rightarrow> ProposalEntry \<Rightarrow> AggregateEntry \<Rightarrow> AggregateEntry" where
  "add_vote proposer_id candidate aggregate =
     (let aggregate = aggregate\<lparr>ag_candidate_id := pr_candidate_id candidate,
            ag_votes := ag_votes aggregate + 1,
            ag_score_sum := ag_score_sum aggregate + pr_score candidate\<rparr>
      in if beats (pr_score candidate) (ag_best_score aggregate) \<or>
            (ties (pr_score candidate) (ag_best_score aggregate) \<and>
             proposer_id < ag_best_proposer_id aggregate)
         then aggregate\<lparr>ag_best_score := Some (pr_score candidate),
            ag_relay_target := pr_relay_target candidate,
            ag_fresh_peer_count := pr_fresh_peer_count candidate,
            ag_stale_peer_count := pr_stale_peer_count candidate,
            ag_best_proposer_id := proposer_id, ag_stamp := pr_stamp candidate\<rparr>
         else aggregate)"

definition consider_ballot ::
  "AggregateEntry umap \<Rightarrow> int \<times> ProposalEntry \<Rightarrow> AggregateEntry umap" where
  "consider_ballot aggregates ballot =
     (let candidate = snd ballot; c = pr_candidate_id candidate in
      if \<not> pr_valid candidate \<or> c \<le> 0 then aggregates
      else
        let aggregate = (case map_of aggregates c of None \<Rightarrow> default_aggregate | Some a \<Rightarrow> a)
        in AList.update c (add_vote (fst ballot) candidate aggregate) aggregates)"

definition self_entry :: "ProposalView \<Rightarrow> time \<Rightarrow> ProposalEntry" where
  "self_entry self_view now = \<lparr>pr_valid = True, pr_candidate_id = pv_candidate_id self_view,
     pr_score = pv_score self_view, pr_relay_target = pv_relay_target self_view,
     pr_fresh_peer_count = pv_fresh_peer_count self_view,
     pr_stale_peer_count = pv_stale_peer_count self_view, pr_support_count = 1, pr_stamp = now\<rparr>"

text \<open>The ballots considered, in the order the code considers them.\<close>

definition ballots :: "lr_params \<Rightarrow> lr_state \<Rightarrow> ProposalView \<Rightarrow> time \<Rightarrow> (int \<times> ProposalEntry) list" where
  "ballots p s self_view now =
     (if pv_valid self_view then [(self_id p, self_entry self_view now)] else []) @
     filter (\<lambda>b. \<not> (now - pr_stamp (snd b) > proposal_timeout_sec p)) (proposal_cache s)"

section \<open>The winner\<close>

text \<open>The loop's variables: \<open>best_candidate_id\<close>, \<open>best\<close> and \<open>best_average_score\<close>.\<close>

type_synonym winner_scan = "int \<times> ProposalEntry \<times> real option"

definition average_score :: "AggregateEntry \<Rightarrow> real" where
  "average_score aggregate = ag_score_sum aggregate / real_of_int (max 1 (ag_votes aggregate))"

definition winner_step :: "int \<Rightarrow> winner_scan \<Rightarrow> AggregateEntry \<Rightarrow> winner_scan" where
  "winner_step min_votes w aggregate =
     (case w of (best_candidate_id, best, best_average_score) \<Rightarrow>
        if ag_votes aggregate < min_votes then w
        else
          let average = average_score aggregate in
          if best_candidate_id < 0 \<or> ag_votes aggregate > pr_support_count best \<or>
             (ag_votes aggregate = pr_support_count best \<and> beats average best_average_score) \<or>
             (ag_votes aggregate = pr_support_count best \<and> ties average best_average_score \<and>
              ag_candidate_id aggregate < best_candidate_id)
          then (ag_candidate_id aggregate,
                \<lparr>pr_valid = True, pr_candidate_id = ag_candidate_id aggregate,
                 pr_score = the (ag_best_score aggregate),
                 pr_relay_target = ag_relay_target aggregate,
                 pr_fresh_peer_count = ag_fresh_peer_count aggregate,
                 pr_stale_peer_count = ag_stale_peer_count aggregate,
                 pr_support_count = ag_votes aggregate, pr_stamp = ag_stamp aggregate\<rparr>,
                Some average)
          else w)"

text \<open>\<open>aggregate_by_candidate\<close> is a \<open>std::map\<close>: the second loop runs in ascending id order.\<close>

definition elect :: "int \<Rightarrow> (int \<times> ProposalEntry) list \<Rightarrow> winner_scan" where
  "elect min_votes bs =
     foldl (winner_step min_votes) (-1, default_proposal, None)
       (map snd (sort_key fst (foldl consider_ballot [] bs)))"

definition selectWinningProposal ::
  "lr_params \<Rightarrow> lr_state \<Rightarrow> ProposalView \<Rightarrow> time \<Rightarrow> int \<times> ProposalEntry" where
  "selectWinningProposal p s self_view now =
     (case elect (relay_activation_min_votes p) (ballots p s self_view now) of
        (best_candidate_id, best, _) \<Rightarrow> (best_candidate_id, best))"

definition updateWinnerHistory :: "int \<Rightarrow> time \<Rightarrow> lr_state \<Rightarrow> lr_state" where
  "updateWinnerHistory winner_id now s =
     (if winner_id \<noteq> stable_winner_id s
      then s\<lparr>stable_winner_id := winner_id, stable_winner_since := now\<rparr> else s)"

section \<open>Counting votes\<close>

text \<open>The specification: the ballots that support a candidate, and their number.\<close>

definition supports :: "int \<Rightarrow> int \<times> ProposalEntry \<Rightarrow> bool" where
  "supports c b \<longleftrightarrow> pr_valid (snd b) \<and> pr_candidate_id (snd b) = c \<and> 0 < c"

definition votes_for :: "int \<Rightarrow> (int \<times> ProposalEntry) list \<Rightarrow> nat" where
  "votes_for c bs = length (filter (supports c) bs)"

lemma votes_for_simps [simp]:
  "votes_for c [] = 0"
  "votes_for c (b # bs) = (if supports c b then Suc (votes_for c bs) else votes_for c bs)"
  "votes_for c (bs @ bs') = votes_for c bs + votes_for c bs'"
  by (simp_all add: votes_for_def)

lemma add_vote_fields [simp]:
  "ag_votes (add_vote i e a) = ag_votes a + 1"
  "ag_candidate_id (add_vote i e a) = pr_candidate_id e"
  "ag_score_sum (add_vote i e a) = ag_score_sum a + pr_score e"
  "ag_best_score (add_vote i e a) \<noteq> None"
  by (auto simp: add_vote_def Let_def beats_def split: option.splits)

text \<open>The aggregates after some ballots: one per supported candidate, with its count and sum.\<close>

definition aggregate_ok :: "(int \<times> ProposalEntry) list \<Rightarrow> int \<Rightarrow> AggregateEntry option \<Rightarrow> bool" where
  "aggregate_ok bs c x =
     (case x of
        None \<Rightarrow> votes_for c bs = 0
      | Some a \<Rightarrow> 0 < c \<and> ag_candidate_id a = c \<and> ag_votes a = int (votes_for c bs) \<and>
          0 < votes_for c bs \<and>
          ag_score_sum a = sum_list (map (pr_score \<circ> snd) (filter (supports c) bs)))"

definition aggregates_ok :: "(int \<times> ProposalEntry) list \<Rightarrow> AggregateEntry umap \<Rightarrow> bool" where
  "aggregates_ok bs m \<longleftrightarrow> distinct_keys m \<and> (\<forall>c. aggregate_ok bs c (map_of m c))"

lemma aggregate_ok_other:
  "aggregate_ok bs c x \<Longrightarrow> \<not> supports c b \<Longrightarrow> aggregate_ok (bs @ [b]) c x"
  by (auto simp: aggregate_ok_def split: option.splits)

lemma aggregate_ok_add:
  assumes "aggregate_ok bs c x" and "supports c b"
  shows "aggregate_ok (bs @ [b]) c
    (Some (add_vote (fst b) (snd b) (case x of None \<Rightarrow> default_aggregate | Some a \<Rightarrow> a)))"
proof (cases x)
  case None
  with assms(1) have "votes_for c bs = 0" "filter (supports c) bs = []"
    by (simp_all add: aggregate_ok_def votes_for_def)
  with None assms(2) show ?thesis
    by (simp add: aggregate_ok_def default_aggregate_def supports_def)
next
  case (Some a)
  with assms show ?thesis by (simp add: aggregate_ok_def supports_def)
qed

lemma aggregates_ok_consider:
  assumes ok: "aggregates_ok bs m"
  shows "aggregates_ok (bs @ [b]) (consider_ballot m b)"
proof (cases "supports (pr_candidate_id (snd b)) b")
  case False
  then have "\<And>c. \<not> supports c b" and "consider_ballot m b = m"
    by (auto simp: supports_def consider_ballot_def Let_def)
  with ok show ?thesis by (simp add: aggregates_ok_def aggregate_ok_other)
next
  case True
  let ?c = "pr_candidate_id (snd b)"
  have other: "supports c b \<longleftrightarrow> c = ?c" for c using True by (auto simp: supports_def)
  have lookup: "map_of (consider_ballot m b) = (map_of m)(?c \<mapsto> add_vote (fst b) (snd b)
      (case map_of m ?c of None \<Rightarrow> default_aggregate | Some a \<Rightarrow> a))"
    using True by (auto simp: supports_def consider_ballot_def Let_def umap_simps)
  have "distinct_keys (consider_ballot m b)"
    using ok by (auto simp: consider_ballot_def Let_def aggregates_ok_def intro: keys_intros)
  moreover have "aggregate_ok (bs @ [b]) c (map_of (consider_ballot m b) c)" for c
    using ok aggregate_ok_add [of bs ?c "map_of m ?c" b] True
    by (auto simp: lookup other aggregates_ok_def intro: aggregate_ok_other)
  ultimately show ?thesis by (simp add: aggregates_ok_def)
qed

lemma aggregates_ok_fold: "aggregates_ok bs (foldl consider_ballot [] bs)"
proof (induction bs rule: rev_induct)
  case Nil
  show ?case by (simp add: aggregates_ok_def aggregate_ok_def)
next
  case (snoc b bs)
  then show ?case using aggregates_ok_consider by simp
qed

lemma aggregates_ok_Some:
  "aggregates_ok bs m \<Longrightarrow> map_of m c = Some a \<Longrightarrow> aggregate_ok bs c (Some a)"
  unfolding aggregates_ok_def by metis

lemma aggregate_entries:
  assumes "a \<in> set (map snd (sort_key fst (foldl consider_ballot [] bs)))"
  shows "0 < ag_candidate_id a \<and> ag_votes a = int (votes_for (ag_candidate_id a) bs) \<and>
    0 < votes_for (ag_candidate_id a) bs \<and>
    ag_score_sum a = sum_list (map (pr_score \<circ> snd) (filter (supports (ag_candidate_id a)) bs))"
proof -
  from assms obtain c where "(c, a) \<in> set (foldl consider_ballot [] bs)" by auto
  with aggregates_ok_fold [of bs] have "map_of (foldl consider_ballot [] bs) c = Some a"
    by (auto simp: aggregates_ok_def)
  with aggregates_ok_Some [OF aggregates_ok_fold] have "aggregate_ok bs c (Some a)" by blast
  then show ?thesis by (auto simp: aggregate_ok_def)
qed

lemma aggregate_exists:
  assumes "0 < votes_for c bs"
  shows "\<exists>a \<in> set (map snd (sort_key fst (foldl consider_ballot [] bs))). ag_candidate_id a = c"
proof -
  have ok: "aggregate_ok bs c (map_of (foldl consider_ballot [] bs) c)"
    using aggregates_ok_fold [of bs] by (simp add: aggregates_ok_def)
  then obtain a where a: "map_of (foldl consider_ballot [] bs) c = Some a" and "ag_candidate_id a = c"
    using assms by (auto simp: aggregate_ok_def split: option.splits)
  moreover from a have "(c, a) \<in> set (foldl consider_ballot [] bs)" by (rule map_of_SomeD)
  ultimately show ?thesis by force
qed

section \<open>What the winner is\<close>

definition winner_inv :: "int \<Rightarrow> AggregateEntry set \<Rightarrow> winner_scan \<Rightarrow> bool" where
  "winner_inv min_votes seen w \<longleftrightarrow>
     (case w of (c, best, avg) \<Rightarrow>
        if c < 0 then c = -1 \<and> best = default_proposal \<and> (\<forall>a \<in> seen. ag_votes a < min_votes)
        else (\<exists>a \<in> seen. ag_candidate_id a = c \<and> min_votes \<le> ag_votes a \<and>
                 pr_support_count best = ag_votes a \<and> pr_candidate_id best = c \<and> pr_valid best) \<and>
             (\<forall>a \<in> seen. min_votes \<le> ag_votes a \<longrightarrow> ag_votes a \<le> pr_support_count best))"

lemma winner_inv_step:
  assumes "winner_inv min_votes seen w" and "0 < ag_candidate_id a"
  shows "winner_inv min_votes (insert a seen) (winner_step min_votes w a)"
  using assms
  by (auto simp: winner_inv_def winner_step_def Let_def beats_def ties_def split: prod.splits if_splits)

lemma winner_inv_fold:
  assumes "\<forall>a \<in> set es. 0 < ag_candidate_id a"
  shows "winner_inv min_votes (set es) (foldl (winner_step min_votes) (-1, default_proposal, None) es)"
  using assms
proof (induction es rule: rev_induct)
  case Nil
  show ?case by (simp add: winner_inv_def)
next
  case (snoc a es)
  then show ?case using winner_inv_step [of min_votes "set es" _ a] by simp
qed

lemma elect_inv:
  "winner_inv min_votes (set (map snd (sort_key fst (foldl consider_ballot [] bs)))) (elect min_votes bs)"
  unfolding elect_def using aggregate_entries by (intro winner_inv_fold) blast

lemma elect_winner:
  assumes "elect min_votes bs = (c, best, avg)" and "c \<noteq> -1"
  shows "0 < c" and "int (votes_for c bs) = pr_support_count best" and "min_votes \<le> pr_support_count best"
    and "pr_valid best" and "pr_candidate_id best = c" and "0 < votes_for c bs"
    and "min_votes \<le> int (votes_for c' bs) \<Longrightarrow> votes_for c' bs \<le> votes_for c bs"
proof -
  define A where "A = set (map snd (sort_key fst (foldl consider_ballot [] bs)))"
  note A = A_def [symmetric]
  have inv: "winner_inv min_votes A (c, best, avg)" using elect_inv [of min_votes bs] unfolding A assms(1) .
  have "\<not> c < 0" using inv assms(2) by (auto simp: winner_inv_def split: if_splits)
  then obtain a where a: "a \<in> A" "ag_candidate_id a = c" "min_votes \<le> ag_votes a"
      "pr_support_count best = ag_votes a" "pr_candidate_id best = c" "pr_valid best"
    and max: "\<forall>a \<in> A. min_votes \<le> ag_votes a \<longrightarrow> ag_votes a \<le> pr_support_count best"
    using inv unfolding winner_inv_def by auto
  note e = aggregate_entries [of _ bs, unfolded A, OF a(1), unfolded a(2)]
  show "0 < c" "int (votes_for c bs) = pr_support_count best" "min_votes \<le> pr_support_count best"
    "pr_valid best" "pr_candidate_id best = c" "0 < votes_for c bs"
    using e a by auto
  show "votes_for c' bs \<le> votes_for c bs" if "min_votes \<le> int (votes_for c' bs)"
  proof (cases "votes_for c' bs = 0")
    case False
    then obtain a' where "a' \<in> A" "ag_candidate_id a' = c'" using aggregate_exists [of c' bs] unfolding A by auto
    with aggregate_entries [of a' bs, unfolded A] max that e a show ?thesis by auto
  qed simp
qed

lemma elect_none:
  assumes "elect min_votes bs = (-1, best, avg)" and "0 < votes_for c bs"
  shows "int (votes_for c bs) < min_votes" and "best = default_proposal"
proof -
  define A where "A = set (map snd (sort_key fst (foldl consider_ballot [] bs)))"
  note A = A_def [symmetric]
  have inv: "winner_inv min_votes A (-1, best, avg)" using elect_inv [of min_votes bs] unfolding A assms(1) .
  obtain a where "a \<in> A" "ag_candidate_id a = c" using aggregate_exists [OF assms(2)] unfolding A by blast
  with inv aggregate_entries [of a bs, unfolded A] show "int (votes_for c bs) < min_votes" "best = default_proposal"
    by (auto simp: winner_inv_def)
qed

section \<open>One vote per proposer, and agreement\<close>

lemma ballots_distinct: "lr_caches_ok p s \<Longrightarrow> distinct_keys (ballots p s view now)"
  by (auto simp: lr_caches_ok_def cache_ok_def ballots_def intro: keys_intros)

definition supporters :: "int \<Rightarrow> (int \<times> ProposalEntry) list \<Rightarrow> int set" where
  "supporters c bs = fst ` set (filter (supports c) bs)"

lemma votes_for_card: "distinct_keys bs \<Longrightarrow> votes_for c bs = card (supporters c bs)"
proof -
  assume "distinct_keys bs"
  then have "distinct (map fst (filter (supports c) bs))" by (rule distinct_map_filter)
  then show ?thesis
    unfolding supporters_def votes_for_def using distinct_card by fastforce
qed

lemma supporters_subset: "supporters c bs \<subseteq> fst ` set bs"
  by (auto simp: supporters_def)

text \<open>
  Two ballot lists over the same proposers that agree on whom each common proposer supports elect
  the same candidate, when a winner needs more than half of the proposers.
\<close>

definition consistent_ballots :: "(int \<times> ProposalEntry) list \<Rightarrow> (int \<times> ProposalEntry) list \<Rightarrow> bool" where
  "consistent_ballots bs bs' \<longleftrightarrow>
     (\<forall>i e e'. (i, e) \<in> set bs \<longrightarrow> (i, e') \<in> set bs' \<longrightarrow> pr_valid e \<longrightarrow> pr_valid e' \<longrightarrow>
        pr_candidate_id e = pr_candidate_id e')"

lemma elect_agree:
  assumes d: "distinct_keys bs" "distinct_keys bs'"
    and D: "finite D" "fst ` set bs \<subseteq> D" "fst ` set bs' \<subseteq> D"
    and quorum: "int (card D) < 2 * min_votes"
    and cons: "consistent_ballots bs bs'"
    and w: "elect min_votes bs = (c, best, avg)" "c \<noteq> -1"
    and w': "elect min_votes bs' = (c', best', avg')" "c' \<noteq> -1"
  shows "c = c'"
proof -
  have sub: "supporters c bs \<subseteq> D" "supporters c' bs' \<subseteq> D"
    by (rule order_trans [OF supporters_subset D(2)], rule order_trans [OF supporters_subset D(3)])
  then have fin: "finite (supporters c bs)" "finite (supporters c' bs')"
    using D(1) by (auto intro: finite_subset)
  have "min_votes \<le> int (card (supporters c bs))"
    using elect_winner(2,3) [OF w] votes_for_card [OF d(1), of c] by simp
  moreover have "min_votes \<le> int (card (supporters c' bs'))"
    using elect_winner(2,3) [OF w'] votes_for_card [OF d(2), of c'] by simp
  moreover have "card (supporters c bs \<union> supporters c' bs') \<le> card D"
    using D(1) sub by (intro card_mono) auto
  ultimately have "supporters c bs \<inter> supporters c' bs' \<noteq> {}"
    using quorum card_Un_disjoint [OF fin] by linarith
  then obtain i e e' where "(i, e) \<in> set bs" "supports c (i, e)" "(i, e') \<in> set bs'" "supports c' (i, e')"
    by (force simp: supporters_def)
  with cons show ?thesis unfolding consistent_ballots_def supports_def by auto
qed

text \<open>The order of the ballots (of the unordered cache) does not change the vote counts.\<close>

lemma votes_for_mset: "mset bs = mset bs' \<Longrightarrow> votes_for c bs = votes_for c bs'"
  unfolding votes_for_def by (metis mset_filter size_mset)

end
