(* ===== verification/Local_Relay_Machine.thy ===== *)
theory Local_Relay_Machine imports Local_Relay_Election
begin

text \<open>
  The control loop of \<open>RacerLocalRelayControllerNode\<close>: its own proposal, the entry and exit
  conditions of the relay role, and \<open>tick\<close>, which the node runs every control period. The
  callbacks and the tick together are the steps of a state machine; the invariant at the end holds
  in every reachable state.
\<close>

section \<open>The node's own proposal\<close>

definition fresh_ids_of :: "lr_params \<Rightarrow> lr_state \<Rightarrow> time \<Rightarrow> int list" where
  "fresh_ids_of p s now =
     filter (\<lambda>drone_id. drone_id \<noteq> self_id p \<and>
       (case find_valid_peer s drone_id of
          None \<Rightarrow> False
        | Some e \<Rightarrow> now - pe_last_rx_time e \<le> peer_state_fresh_timeout_sec p)) (drone_ids p)"

definition stale_ids_of :: "lr_params \<Rightarrow> lr_state \<Rightarrow> time \<Rightarrow> int list" where
  "stale_ids_of p s now =
     filter (\<lambda>drone_id. drone_id \<noteq> self_id p \<and>
       (case find_valid_peer s drone_id of
          None \<Rightarrow> False
        | Some e \<Rightarrow> \<not> now - pe_last_rx_time e \<le> peer_state_fresh_timeout_sec p \<and>
                    now - pe_last_rx_time e \<le> peer_state_stale_retention_sec p)) (drone_ids p)"

definition computeSelfProposal :: "lr_params \<Rightarrow> lr_state \<Rightarrow> time \<Rightarrow> ProposalView" where
  "computeSelfProposal p s now =
     (let view = default_view\<lparr>pv_relay_target := relay_anchor s\<rparr> in
      if \<not> have_self_odom s then view
      else
        let fresh_ids = fresh_ids_of p s now; stale_ids = stale_ids_of p s now;
            view = view\<lparr>pv_fragmented_observed := (stale_ids \<noteq> []),
                        pv_fresh_peer_count := int (length fresh_ids),
                        pv_stale_peer_count := int (length stale_ids)\<rparr>
        in if effectiveRelayPolicyMode p = kOff then view
           else if first_tick_time s \<noteq> 0 \<and> relay_startup_grace_period p > 0 \<and>
                   now - first_tick_time s < relay_startup_grace_period p then view
           else if stale_ids = [] then view
           else if int (length stale_ids) < relay_activation_min_stale_count p then view
           else if 1 / real (max 1 (length (drone_ids p))) > relay_max_occupancy_ratio p then view
           else if relay_suppress_balanced_split p \<and>
                   shouldSuppressBalancedSplit p s fresh_ids stale_ids then view
           else if \<not> shouldCoordinateLocalSide p fresh_ids stale_ids then view
           else
             (case computeRelayAnchor p s fresh_ids stale_ids of
                None \<Rightarrow> view
              | Some anchor \<Rightarrow>
                  (case computeBestCandidate p s (fresh_ids @ [self_id p]) anchor now of
                     None \<Rightarrow> view
                   | Some (best_id, best_score) \<Rightarrow>
                       view\<lparr>pv_valid := True, pv_candidate_id := best_id,
                            pv_relay_target := anchor, pv_score := best_score\<rparr>)))"

section \<open>Publications\<close>

definition publishSelfPeerState :: "lr_params \<Rightarrow> lr_state \<Rightarrow> time \<Rightarrow> RelayPeerState" where
  "publishSelfPeerState p s now =
     \<lparr>rps_stamp = now, rps_agent_id = self_id p, rps_position = self_position s,
      rps_velocity = self_velocity s,
      rps_cumulative_relay_occupancy_sec = currentRelayOccupancySec s now,
      rps_valid = have_self_odom s\<rparr>"

definition publishSelfProposal :: "lr_params \<Rightarrow> ProposalView \<Rightarrow> time \<Rightarrow> RelayProposal" where
  "publishSelfProposal p view now =
     \<lparr>rp_stamp = now, rp_proposer_id = self_id p,
      rp_candidate_id = (if pv_valid view then pv_candidate_id view else -1),
      rp_valid = pv_valid view, rp_score = (if pv_valid view then pv_score view else 0),
      rp_relay_target = pv_relay_target view, rp_fresh_peer_count = pv_fresh_peer_count view,
      rp_stale_peer_count = pv_stale_peer_count view\<rparr>"

definition publishRole :: "lr_params \<Rightarrow> time \<Rightarrow> bool \<Rightarrow> point \<Rightarrow> RelayRoleCmd" where
  "publishRole p now active target =
     \<lparr>rrc_stamp = now, rrc_agent_id = self_id p,
      rrc_role = (if active then ROLE_RELAY else ROLE_EXPLORER),
      rrc_relay_target = sanitizeRelayAnchor (target_params.truncate p) target,
      rrc_relay_yaw = 0, rrc_valid = active\<rparr>"

section \<open>Entering and leaving the relay role\<close>

definition updateFragmentationState :: "bool \<Rightarrow> time \<Rightarrow> lr_state \<Rightarrow> lr_state" where
  "updateFragmentationState fragmented now s =
     (if fragmented
      then (let s = s\<lparr>connected_since := 0\<rparr> in
            if fragmented_since s = 0 then s\<lparr>fragmented_since := now\<rparr> else s)
      else (let s = s\<lparr>fragmented_since := 0\<rparr> in
            if connected_since s = 0 then s\<lparr>connected_since := now\<rparr> else s))"

definition shouldActivateRelay :: "lr_params \<Rightarrow> ProposalView \<Rightarrow> int \<Rightarrow> time \<Rightarrow> lr_state \<Rightarrow> bool" where
  "shouldActivateRelay p view winner_id now s \<longleftrightarrow>
     \<not> (\<not> pv_valid view \<or> winner_id \<noteq> self_id p) \<and>
     \<not> fragmented_since s = 0 \<and>
     \<not> now - fragmented_since s < relay_trigger_persist_time p \<and>
     \<not> (winner_id \<noteq> stable_winner_id s \<or> stable_winner_since s = 0 \<or>
        now - stable_winner_since s < relay_winner_persist_time p) \<and>
     \<not> (relay_exit_time s \<noteq> 0 \<and> now - relay_exit_time s < relay_reenter_cooldown p)"

definition activateRelay :: "ProposalView \<Rightarrow> ProposalEntry \<Rightarrow> time \<Rightarrow> lr_state \<Rightarrow> lr_state" where
  "activateRelay view winner now s =
     s\<lparr>relay_active := True, relay_anchor := pv_relay_target view, relay_change_time := now,
       relay_last_improvement_time := now,
       relay_best_stale_peer_count := pv_stale_peer_count view,
       relay_best_fresh_peer_count := pv_fresh_peer_count view,
       relay_active_support_count := max 1 (pr_support_count winner)\<rparr>"

text \<open>The reason is only logged.\<close>

definition deactivateRelay :: "time \<Rightarrow> lr_state \<Rightarrow> lr_state" where
  "deactivateRelay now s =
     (let duration_sec = (if relay_change_time s = 0 then 0 else now - relay_change_time s)
      in s\<lparr>cumulative_relay_occupancy_sec := cumulative_relay_occupancy_sec s + max 0 duration_sec,
           relay_active := False, relay_change_time := 0, relay_exit_time := now,
           relay_last_improvement_time := 0, relay_best_stale_peer_count := int_max,
           relay_best_fresh_peer_count := 0, relay_active_support_count := 0\<rparr>)"

definition noteRelayProgress :: "ProposalView \<Rightarrow> time \<Rightarrow> lr_state \<Rightarrow> lr_state" where
  "noteRelayProgress view now s =
     (if \<not> relay_active s then s
      else
        let fewer_stale = pv_stale_peer_count view < relay_best_stale_peer_count s;
            more_fresh = pv_fresh_peer_count view > relay_best_fresh_peer_count s;
            s = (if fewer_stale then s\<lparr>relay_best_stale_peer_count := pv_stale_peer_count view\<rparr> else s);
            s = (if more_fresh then s\<lparr>relay_best_fresh_peer_count := pv_fresh_peer_count view\<rparr> else s)
        in if fewer_stale \<or> more_fresh then s\<lparr>relay_last_improvement_time := now\<rparr> else s)"

datatype exit_reason =
  recovered | no_local_view | lost_election | no_improvement | max_active_duration

definition shouldExitRelay ::
  "lr_params \<Rightarrow> ProposalView \<Rightarrow> int \<Rightarrow> ProposalEntry \<Rightarrow> time \<Rightarrow> lr_state \<Rightarrow> exit_reason option" where
  "shouldExitRelay p view winner_id winner now s =
     (if \<not> relay_active s then None
      else
        let active_duration_sec = now - relay_change_time s;
            stable_handoff = (winner_id = stable_winner_id s \<and> stable_winner_since s \<noteq> 0 \<and>
              now - stable_winner_since s \<ge> relay_handoff_persist_time p);
            required_support = max 1 (relay_active_support_count s) + max 0 (relay_handoff_min_vote_margin p)
        in if active_duration_sec < relay_min_hold_time p then None
           else if \<not> pv_fragmented_observed view \<and> connected_since s \<noteq> 0 \<and>
                   now - connected_since s \<ge> relay_recover_time p then Some recovered
           else if \<not> pv_valid view then Some no_local_view
           else if winner_id > 0 \<and> winner_id \<noteq> self_id p \<and> stable_handoff \<and>
                   pr_valid winner \<and> pr_support_count winner \<ge> required_support then Some lost_election
           else if relay_no_improvement_timeout p > 0 \<and> relay_last_improvement_time s \<noteq> 0 \<and>
                   now - relay_last_improvement_time s \<ge> relay_no_improvement_timeout p \<and>
                   pv_stale_peer_count view \<ge> relay_best_stale_peer_count s then Some no_improvement
           else if relay_max_active_duration p > 0 \<and>
                   active_duration_sec \<ge> relay_max_active_duration p then Some max_active_duration
           else None)"

section \<open>The tick\<close>

text \<open>The block under \<open>if (relay_active_)\<close>: first the relay's own values, then the exit test.\<close>

definition refresh_relay ::
  "lr_params \<Rightarrow> ProposalView \<Rightarrow> int \<Rightarrow> ProposalEntry \<Rightarrow> time \<Rightarrow> lr_state \<Rightarrow> lr_state" where
  "refresh_relay p self_view winner_id winner now s =
     (let s = (if pv_valid self_view then s\<lparr>relay_anchor := pv_relay_target self_view\<rparr> else s);
          s = (if winner_id = self_id p \<and> pr_valid winner
               then s\<lparr>relay_active_support_count := max 1 (pr_support_count winner)\<rparr> else s)
      in noteRelayProgress self_view now s)"

definition tick_while_active ::
  "lr_params \<Rightarrow> ProposalView \<Rightarrow> int \<Rightarrow> ProposalEntry \<Rightarrow> time \<Rightarrow> lr_state \<Rightarrow> lr_state" where
  "tick_while_active p self_view winner_id winner now s =
     (if \<not> relay_active s then s
      else
        let s = refresh_relay p self_view winner_id winner now s
        in (case shouldExitRelay p self_view winner_id winner now s of
              None \<Rightarrow> s | Some reason \<Rightarrow> deactivateRelay now s))"

text \<open>The steps of \<open>tick\<close> before the policy is read: time origin, pruning, own proposal, timers.\<close>

definition tick_prologue :: "lr_params \<Rightarrow> time \<Rightarrow> lr_state \<Rightarrow> ProposalView \<times> lr_state" where
  "tick_prologue p now s =
     (let s = (if first_tick_time s = 0 then s\<lparr>first_tick_time := now\<rparr> else s);
          s = pruneCaches p now s;
          self_view = computeSelfProposal p s now
      in (self_view, updateFragmentationState (pv_fragmented_observed self_view) now s))"

text \<open>The relay decision after the election.\<close>

definition tick_decide :: "lr_params \<Rightarrow> ProposalView \<Rightarrow> time \<Rightarrow> lr_state \<Rightarrow> lr_state" where
  "tick_decide p self_view now s =
     (case selectWinningProposal p s self_view now of
        (winner_id, winner) \<Rightarrow>
          let s = updateWinnerHistory winner_id now s;
              s = tick_while_active p self_view winner_id winner now s
          in if \<not> relay_active s \<and> shouldActivateRelay p self_view winner_id now s
             then activateRelay self_view winner now s else s)"

definition tick :: "lr_params \<Rightarrow> time \<Rightarrow> lr_state \<Rightarrow> lr_state \<times> lr_output list" where
  "tick p now s =
     (let (self_view, s) = tick_prologue p now s;
          out = (if have_self_odom s then [PubPeerState (publishSelfPeerState p s now)] else []) @
                [PubProposal (publishSelfProposal p self_view now)]
      in if effectiveRelayPolicyMode p = kOff \<or> \<not> have_self_odom s
         then (let s = (if relay_active s then deactivateRelay now s else s)
               in (s, out @ [PubRole (publishRole p now False (relay_anchor s))]))
         else (let s = tick_decide p self_view now s
               in (s, out @ [PubRole (publishRole p now (relay_active s)
                              (if relay_active s then relay_anchor s else pv_relay_target self_view))])))"

text \<open>What a node reacts to.\<close>

datatype lr_event =
    OdomMsg Odometry
  | PeerStateMsg RelayPeerState
  | ProposalMsg RelayProposal
  | SelfTaskMsg RelayTaskState
  | PeerTaskMsg RelayTaskState
  | Tick

fun lr_handle :: "lr_params \<Rightarrow> time \<Rightarrow> lr_event \<Rightarrow> lr_state \<Rightarrow> lr_state" where
  "lr_handle p now (OdomMsg m) s = odomCallback m now s"
| "lr_handle p now (PeerStateMsg m) s = peerStateCallback p m now s"
| "lr_handle p now (ProposalMsg m) s = proposalCallback p m now s"
| "lr_handle p now (SelfTaskMsg m) s = selfDroneStateCallback p m now s"
| "lr_handle p now (PeerTaskMsg m) s = peerDroneStateCallback p m now s"
| "lr_handle p now Tick s = fst (tick p now s)"

text \<open>The reachable states, with the time of the last event; the clock starts above zero and never
  runs backwards.\<close>

inductive lr_reach :: "lr_params \<Rightarrow> time \<Rightarrow> lr_state \<Rightarrow> bool" for p where
  start: "0 < t \<Longrightarrow> lr_reach p t (lr_init p)"
| event: "lr_reach p t s \<Longrightarrow> t \<le> t' \<Longrightarrow> lr_reach p t' (lr_handle p t' e s)"

end
