(* ===== verification/Local_Relay_Props.thy ===== *)
theory Local_Relay_Props imports Local_Relay_Machine
begin

text \<open>
  The correctness of the local relay controller: the invariant of its reachable states, one
  preservation lemma per operation, and the properties of single ticks: when the relay role is
  taken, when it is given up, what is published, and how the occupancy is accounted.
\<close>

section \<open>The invariant\<close>

text \<open>Time stamps are never in the future.\<close>

definition stamps_ok :: "time \<Rightarrow> lr_state \<Rightarrow> bool" where
  "stamps_ok t s \<longleftrightarrow>
     0 \<le> first_tick_time s \<and> first_tick_time s \<le> t \<and>
     0 \<le> fragmented_since s \<and> fragmented_since s \<le> t \<and>
     0 \<le> connected_since s \<and> connected_since s \<le> t \<and>
     0 \<le> relay_change_time s \<and> relay_change_time s \<le> t \<and>
     0 \<le> relay_exit_time s \<and> relay_exit_time s \<le> t \<and>
     0 \<le> relay_last_improvement_time s \<and> relay_last_improvement_time s \<le> t \<and>
     0 \<le> stable_winner_since s \<and> stable_winner_since s \<le> t"

text \<open>Exactly one of the two fragmentation timers runs, from the first tick on.\<close>

definition timers_ok :: "lr_state \<Rightarrow> bool" where
  "timers_ok s \<longleftrightarrow>
     (if first_tick_time s = 0 then fragmented_since s = 0 \<and> connected_since s = 0
      else (fragmented_since s = 0) \<noteq> (connected_since s = 0))"

text \<open>The bookkeeping of the relay role is set exactly while the role is held.\<close>

definition role_ok :: "lr_params \<Rightarrow> lr_state \<Rightarrow> bool" where
  "role_ok p s \<longleftrightarrow> 0 \<le> cumulative_relay_occupancy_sec s \<and>
     (if relay_active s
      then relay_change_time s \<noteq> 0 \<and> relay_change_time s \<le> relay_last_improvement_time s \<and>
           have_self_odom s \<and> 1 \<le> relay_active_support_count s \<and> effectiveRelayPolicyMode p \<noteq> kOff
      else relay_change_time s = 0 \<and> relay_last_improvement_time s = 0 \<and>
           relay_best_stale_peer_count s = int_max \<and> relay_best_fresh_peer_count s = 0 \<and>
           relay_active_support_count s = 0)"

definition lr_inv :: "lr_params \<Rightarrow> time \<Rightarrow> lr_state \<Rightarrow> bool" where
  "lr_inv p t s \<longleftrightarrow> lr_caches_ok p s \<and> stamps_ok t s \<and> timers_ok s \<and> role_ok p s"

lemmas lr_inv_defs = stamps_ok_def timers_ok_def role_ok_def

lemma lr_inv_later: "lr_inv p t s \<Longrightarrow> t \<le> t' \<Longrightarrow> lr_inv p t' s"
  by (auto simp: lr_inv_def stamps_ok_def)

lemma lr_inv_init: "0 < t \<Longrightarrow> lr_inv p t (lr_init p)"
  unfolding lr_inv_def
  by (intro conjI lr_caches_ok_init) (simp_all add: lr_inv_defs lr_init_def)

section \<open>Preservation, one operation at a time\<close>

lemma lr_inv_odom: "lr_inv p t s \<Longrightarrow> lr_inv p t (odomCallback m now s)"
  unfolding lr_inv_def using lr_caches_ok_odom
  by (auto simp: lr_inv_defs odomCallback_def)

lemma lr_inv_peerState: "lr_inv p t s \<Longrightarrow> lr_inv p t (peerStateCallback p m now s)"
  unfolding lr_inv_def using lr_caches_ok_peerState
  by (auto simp: lr_inv_defs peerStateCallback_def Let_def)

lemma lr_inv_proposal: "lr_inv p t s \<Longrightarrow> lr_inv p t (proposalCallback p m now s)"
  unfolding lr_inv_def using lr_caches_ok_proposal
  by (auto simp: lr_inv_defs proposalCallback_def Let_def)

lemma lr_inv_selfTask: "lr_inv p t s \<Longrightarrow> lr_inv p t (selfDroneStateCallback p m now s)"
  unfolding lr_inv_def using lr_caches_ok_selfTask
  by (auto simp: lr_inv_defs selfDroneStateCallback_def)

lemma lr_inv_peerTask: "lr_inv p t s \<Longrightarrow> lr_inv p t (peerDroneStateCallback p m now s)"
  unfolding lr_inv_def using lr_caches_ok_peerTask
  by (auto simp: lr_inv_defs peerDroneStateCallback_def)

text \<open>Caches are only touched by the callbacks and the pruning.\<close>

lemma lr_caches_ok_cong:
  "peer_cache s' = peer_cache s \<Longrightarrow> proposal_cache s' = proposal_cache s \<Longrightarrow>
   peer_task_cache s' = peer_task_cache s \<Longrightarrow> lr_caches_ok p s' = lr_caches_ok p s"
  by (simp add: lr_caches_ok_def)

lemma caches_frame [simp]:
  "peer_cache (updateFragmentationState f now s) = peer_cache s"
  "proposal_cache (updateFragmentationState f now s) = proposal_cache s"
  "peer_task_cache (updateFragmentationState f now s) = peer_task_cache s"
  "peer_cache (deactivateRelay now s) = peer_cache s"
  "proposal_cache (deactivateRelay now s) = proposal_cache s"
  "peer_task_cache (deactivateRelay now s) = peer_task_cache s"
  "peer_cache (noteRelayProgress v now s) = peer_cache s"
  "proposal_cache (noteRelayProgress v now s) = proposal_cache s"
  "peer_task_cache (noteRelayProgress v now s) = peer_task_cache s"
  "peer_cache (updateWinnerHistory w now s) = peer_cache s"
  "proposal_cache (updateWinnerHistory w now s) = proposal_cache s"
  "peer_task_cache (updateWinnerHistory w now s) = peer_task_cache s"
  by (simp_all add: updateFragmentationState_def deactivateRelay_def noteRelayProgress_def
      updateWinnerHistory_def Let_def)

lemma deactivateRelay_fields [simp]:
  "relay_active (deactivateRelay now s) = False"
  "relay_exit_time (deactivateRelay now s) = now"
  "first_tick_time (deactivateRelay now s) = first_tick_time s"
  "fragmented_since (deactivateRelay now s) = fragmented_since s"
  "connected_since (deactivateRelay now s) = connected_since s"
  "have_self_odom (deactivateRelay now s) = have_self_odom s"
  "stable_winner_id (deactivateRelay now s) = stable_winner_id s"
  "stable_winner_since (deactivateRelay now s) = stable_winner_since s"
  "relay_anchor (deactivateRelay now s) = relay_anchor s"
  by (simp_all add: deactivateRelay_def Let_def)

lemma noteRelayProgress_fields [simp]:
  "relay_active (noteRelayProgress v now s) = relay_active s"
  "relay_change_time (noteRelayProgress v now s) = relay_change_time s"
  "relay_exit_time (noteRelayProgress v now s) = relay_exit_time s"
  "first_tick_time (noteRelayProgress v now s) = first_tick_time s"
  "fragmented_since (noteRelayProgress v now s) = fragmented_since s"
  "connected_since (noteRelayProgress v now s) = connected_since s"
  "have_self_odom (noteRelayProgress v now s) = have_self_odom s"
  "stable_winner_id (noteRelayProgress v now s) = stable_winner_id s"
  "stable_winner_since (noteRelayProgress v now s) = stable_winner_since s"
  "relay_active_support_count (noteRelayProgress v now s) = relay_active_support_count s"
  "cumulative_relay_occupancy_sec (noteRelayProgress v now s) = cumulative_relay_occupancy_sec s"
  "relay_anchor (noteRelayProgress v now s) = relay_anchor s"
  by (simp_all add: noteRelayProgress_def Let_def)

lemma updateWinnerHistory_fields [simp]:
  "relay_active (updateWinnerHistory w now s) = relay_active s"
  "relay_change_time (updateWinnerHistory w now s) = relay_change_time s"
  "relay_exit_time (updateWinnerHistory w now s) = relay_exit_time s"
  "first_tick_time (updateWinnerHistory w now s) = first_tick_time s"
  "fragmented_since (updateWinnerHistory w now s) = fragmented_since s"
  "connected_since (updateWinnerHistory w now s) = connected_since s"
  "have_self_odom (updateWinnerHistory w now s) = have_self_odom s"
  "relay_last_improvement_time (updateWinnerHistory w now s) = relay_last_improvement_time s"
  "cumulative_relay_occupancy_sec (updateWinnerHistory w now s) = cumulative_relay_occupancy_sec s"
  "relay_best_stale_peer_count (updateWinnerHistory w now s) = relay_best_stale_peer_count s"
  "relay_best_fresh_peer_count (updateWinnerHistory w now s) = relay_best_fresh_peer_count s"
  "relay_active_support_count (updateWinnerHistory w now s) = relay_active_support_count s"
  "relay_anchor (updateWinnerHistory w now s) = relay_anchor s"
  "stable_winner_id (updateWinnerHistory w now s) = w"
  by (simp_all add: updateWinnerHistory_def)

lemma updateFragmentationState_fields [simp]:
  "relay_active (updateFragmentationState f now s) = relay_active s"
  "relay_change_time (updateFragmentationState f now s) = relay_change_time s"
  "relay_exit_time (updateFragmentationState f now s) = relay_exit_time s"
  "first_tick_time (updateFragmentationState f now s) = first_tick_time s"
  "have_self_odom (updateFragmentationState f now s) = have_self_odom s"
  "stable_winner_id (updateFragmentationState f now s) = stable_winner_id s"
  "stable_winner_since (updateFragmentationState f now s) = stable_winner_since s"
  "cumulative_relay_occupancy_sec (updateFragmentationState f now s) = cumulative_relay_occupancy_sec s"
  "relay_anchor (updateFragmentationState f now s) = relay_anchor s"
  by (simp_all add: updateFragmentationState_def Let_def)

lemma lr_inv_deactivate:
  assumes "lr_inv p now s" and "0 < now"
  shows "lr_inv p now (deactivateRelay now s)"
  using assms unfolding lr_inv_def
  by (auto simp: lr_inv_defs deactivateRelay_def Let_def lr_caches_ok_def)

lemma lr_inv_progress:
  assumes "lr_inv p now s" and "0 < now"
  shows "lr_inv p now (noteRelayProgress v now s)"
proof -
  have "relay_last_improvement_time (noteRelayProgress v now s) \<in> {relay_last_improvement_time s, now}"
    "\<not> relay_active s \<Longrightarrow> noteRelayProgress v now s = s"
    by (simp_all add: noteRelayProgress_def Let_def)
  with assms show ?thesis unfolding lr_inv_def
    by (auto simp: lr_inv_defs lr_caches_ok_def)
qed

lemma lr_inv_winner: "lr_inv p now s \<Longrightarrow> 0 < now \<Longrightarrow> lr_inv p now (updateWinnerHistory w now s)"
  unfolding lr_inv_def by (auto simp: lr_inv_defs updateWinnerHistory_def lr_caches_ok_def)

lemma lr_inv_activate:
  assumes "lr_inv p now s" and "0 < now" and "have_self_odom s" and "effectiveRelayPolicyMode p \<noteq> kOff"
  shows "lr_inv p now (activateRelay v w now s)"
  using assms unfolding lr_inv_def
  by (auto simp: lr_inv_defs activateRelay_def lr_caches_ok_def)

lemma lr_inv_prologue:
  assumes "lr_inv p t s" and "t \<le> now" and "0 < now"
  shows "lr_inv p now (snd (tick_prologue p now s))"
proof -
  have caches: "lr_caches_ok p (snd (tick_prologue p now s))"
    using assms(1) lr_caches_ok_prune [of p "s\<lparr>first_tick_time := now\<rparr>" now] lr_caches_ok_prune [of p s now]
    unfolding lr_inv_def tick_prologue_def Let_def by (simp add: lr_caches_ok_def)
  have "stamps_ok now (snd (tick_prologue p now s))" "timers_ok (snd (tick_prologue p now s))"
    "role_ok p (snd (tick_prologue p now s))"
    using assms unfolding lr_inv_def
    by (auto simp: lr_inv_defs tick_prologue_def Let_def pruneCaches_def updateFragmentationState_def)
  with caches show ?thesis by (simp add: lr_inv_def)
qed

lemma lr_inv_anchor [simp]: "lr_inv p t (s\<lparr>relay_anchor := a\<rparr>) = lr_inv p t s"
  unfolding lr_inv_def by (simp add: lr_inv_defs lr_caches_ok_def)

lemma lr_inv_support:
  "lr_inv p t s \<Longrightarrow> relay_active s \<Longrightarrow> 1 \<le> n \<Longrightarrow> lr_inv p t (s\<lparr>relay_active_support_count := n\<rparr>)"
  unfolding lr_inv_def by (simp add: lr_inv_defs lr_caches_ok_def)

lemma refresh_relay_fields [simp]:
  "relay_active (refresh_relay p v w winner now s) = relay_active s"
  "relay_change_time (refresh_relay p v w winner now s) = relay_change_time s"
  "relay_exit_time (refresh_relay p v w winner now s) = relay_exit_time s"
  "first_tick_time (refresh_relay p v w winner now s) = first_tick_time s"
  "fragmented_since (refresh_relay p v w winner now s) = fragmented_since s"
  "connected_since (refresh_relay p v w winner now s) = connected_since s"
  "have_self_odom (refresh_relay p v w winner now s) = have_self_odom s"
  "stable_winner_id (refresh_relay p v w winner now s) = stable_winner_id s"
  "stable_winner_since (refresh_relay p v w winner now s) = stable_winner_since s"
  "cumulative_relay_occupancy_sec (refresh_relay p v w winner now s) = cumulative_relay_occupancy_sec s"
  by (simp_all add: refresh_relay_def Let_def)

lemma lr_inv_refresh:
  assumes "lr_inv p now s" and "0 < now" and "relay_active s"
  shows "lr_inv p now (refresh_relay p v w winner now s)"
  using assms lr_inv_progress lr_inv_support by (simp add: refresh_relay_def Let_def)

lemma lr_inv_while_active:
  assumes "lr_inv p now s" and "0 < now"
  shows "lr_inv p now (tick_while_active p v w winner now s)"
  using assms lr_inv_refresh lr_inv_deactivate
  by (simp add: tick_while_active_def Let_def split: option.split)

lemma lr_inv_decide:
  assumes "lr_inv p now s" and "0 < now" and "have_self_odom s" and "effectiveRelayPolicyMode p \<noteq> kOff"
  shows "lr_inv p now (tick_decide p v now s)"
proof -
  obtain w winner where win: "selectWinningProposal p s v now = (w, winner)" by fastforce
  let ?s1 = "updateWinnerHistory w now s"
  let ?s2 = "tick_while_active p v w winner now ?s1"
  have inv: "lr_inv p now ?s2" using assms lr_inv_winner lr_inv_while_active by blast
  have "have_self_odom ?s2" using assms(3)
    by (simp add: tick_while_active_def Let_def split: option.split)
  with inv assms lr_inv_activate show ?thesis by (simp add: tick_decide_def win Let_def)
qed

lemma lr_inv_tick:
  assumes "lr_inv p t s" and "t \<le> now" and "0 < now"
  shows "lr_inv p now (fst (tick p now s))"
proof -
  obtain v s1 where pro: "tick_prologue p now s = (v, s1)" by fastforce
  with lr_inv_prologue [OF assms] have "lr_inv p now s1" by simp
  with pro assms(3) lr_inv_deactivate lr_inv_decide show ?thesis
    by (auto simp: tick_def Let_def)
qed

lemma lr_reach_pos: "lr_reach p t s \<Longrightarrow> 0 < t"
  by (induction rule: lr_reach.induct) auto

lemma lr_reach_inv: "lr_reach p t s \<Longrightarrow> lr_inv p t s"
proof (induction rule: lr_reach.induct)
  case (start t)
  then show ?case by (rule lr_inv_init)
next
  case (event t s t' e)
  have "0 < t'" using event lr_reach_pos by fastforce
  have later: "lr_inv p t' s" using event by (auto intro: lr_inv_later)
  show ?case
  proof (cases e)
    case Tick
    with lr_inv_tick [OF later order_refl \<open>0 < t'\<close>] show ?thesis by simp
  qed (use later lr_inv_odom lr_inv_peerState lr_inv_proposal lr_inv_selfTask lr_inv_peerTask in simp_all)
qed

section \<open>One tick\<close>

lemma fst_tick:
  assumes "tick_prologue p now s = (v, s1)"
  shows "fst (tick p now s) =
    (if effectiveRelayPolicyMode p = kOff \<or> \<not> have_self_odom s1
     then (if relay_active s1 then deactivateRelay now s1 else s1)
     else tick_decide p v now s1)"
  using assms by (simp add: tick_def Let_def)

lemma prologue_fields:
  assumes "tick_prologue p now s = (v, s1)"
  shows "relay_active s1 = relay_active s" "have_self_odom s1 = have_self_odom s"
    "relay_change_time s1 = relay_change_time s" "relay_exit_time s1 = relay_exit_time s"
    "cumulative_relay_occupancy_sec s1 = cumulative_relay_occupancy_sec s"
    "stable_winner_id s1 = stable_winner_id s" "stable_winner_since s1 = stable_winner_since s"
  using assms
  by (cases "first_tick_time s = 0"; auto simp: tick_prologue_def Let_def pruneCaches_def)+

lemma prologue_caches_ok:
  assumes "tick_prologue p now s = (v, s1)" and "lr_caches_ok p s"
  shows "lr_caches_ok p s1"
proof -
  let ?s0 = "if first_tick_time s = 0 then s\<lparr>first_tick_time := now\<rparr> else s"
  have "lr_caches_ok p ?s0" using assms(2) by (simp add: lr_caches_ok_def)
  then have "lr_caches_ok p (pruneCaches p now ?s0)" by (rule lr_caches_ok_prune)
  with assms(1) show ?thesis by (auto simp: tick_prologue_def Let_def lr_caches_ok_def)
qed

lemma tick_decide_eq:
  assumes "selectWinningProposal p s1 v now = (w, winner)"
  shows "tick_decide p v now s1 =
    (let s2 = tick_while_active p v w winner now (updateWinnerHistory w now s1)
     in if \<not> relay_active s2 \<and> shouldActivateRelay p v w now s2 then activateRelay v winner now s2 else s2)"
  using assms by (simp add: tick_decide_def)

lemma activate_active [simp]: "relay_active (activateRelay v w now s)"
  by (simp add: activateRelay_def)

lemma tick_takes_role:
  assumes pro: "tick_prologue p now s = (v, s1)" and off: "\<not> relay_active s"
    and on: "relay_active (fst (tick p now s))"
    and win: "selectWinningProposal p s1 v now = (w, winner)"
  shows "have_self_odom s \<and> effectiveRelayPolicyMode p \<noteq> kOff \<and>
    shouldActivateRelay p v w now (updateWinnerHistory w now s1)"
proof -
  have s1: "\<not> relay_active s1" "have_self_odom s1 = have_self_odom s" using pro off prologue_fields by auto
  have "\<not> (effectiveRelayPolicyMode p = kOff \<or> \<not> have_self_odom s1)"
    using on s1 by (auto simp: fst_tick [OF pro] split: if_splits)
  then have go: "have_self_odom s1" "effectiveRelayPolicyMode p \<noteq> kOff" by auto
  then have "relay_active (tick_decide p v now s1)" using on by (simp add: fst_tick [OF pro])
  then have "shouldActivateRelay p v w now (updateWinnerHistory w now s1)"
    using s1 by (auto simp: tick_decide_eq [OF win] tick_while_active_def Let_def split: if_splits)
  with go s1 show ?thesis by simp
qed

lemma shouldExitRelay_hold:
  "now - relay_change_time s < relay_min_hold_time p \<Longrightarrow> shouldExitRelay p v w winner now s = None"
  by (simp add: shouldExitRelay_def Let_def)

lemma tick_keeps_role:
  assumes pro: "tick_prologue p now s = (v, s1)" and on: "relay_active s"
    and odom: "have_self_odom s" and policy: "effectiveRelayPolicyMode p \<noteq> kOff"
    and hold: "now - relay_change_time s < relay_min_hold_time p"
  shows "relay_active (fst (tick p now s)) \<and>
    relay_change_time (fst (tick p now s)) = relay_change_time s"
proof -
  obtain w winner where win: "selectWinningProposal p s1 v now = (w, winner)" by fastforce
  show ?thesis
    using on odom policy hold prologue_fields [OF pro]
    by (simp add: fst_tick [OF pro] tick_decide_eq [OF win] tick_while_active_def Let_def shouldExitRelay_hold)
qed

lemma shouldExitRelay_max_duration:
  assumes "relay_active s" and "relay_min_hold_time p \<le> now - relay_change_time s"
    and "0 < relay_max_active_duration p" and "relay_max_active_duration p \<le> now - relay_change_time s"
  shows "shouldExitRelay p v w winner now s \<noteq> None"
  using assms by (auto simp: shouldExitRelay_def Let_def)

lemma tick_gives_up_role:
  assumes pro: "tick_prologue p now s = (v, s1)" and now: "now \<noteq> 0"
    and hold: "relay_min_hold_time p \<le> now - relay_change_time s"
    and dur: "0 < relay_max_active_duration p" "relay_max_active_duration p \<le> now - relay_change_time s"
    and cool: "0 < relay_reenter_cooldown p" and on: "relay_active s"
  shows "\<not> relay_active (fst (tick p now s))"
proof -
  obtain w winner where win: "selectWinningProposal p s1 v now = (w, winner)" by fastforce
  let ?r = "refresh_relay p v w winner now (updateWinnerHistory w now s1)"
  have "shouldExitRelay p v w winner now ?r \<noteq> None"
    using on hold dur prologue_fields [OF pro] by (intro shouldExitRelay_max_duration) simp_all
  then have "tick_while_active p v w winner now (updateWinnerHistory w now s1) = deactivateRelay now ?r"
    using on prologue_fields [OF pro] by (auto simp: tick_while_active_def Let_def)
  moreover have "\<not> shouldActivateRelay p v w now (deactivateRelay now ?r)"
    using cool now by (simp add: shouldActivateRelay_def)
  ultimately show ?thesis
    by (simp add: fst_tick [OF pro] tick_decide_eq [OF win] Let_def)
qed

section \<open>Occupancy accounting\<close>

lemma occupancy_deactivate:
  "role_ok p s \<Longrightarrow> currentRelayOccupancySec (deactivateRelay now s) now = currentRelayOccupancySec s now"
  by (simp add: currentRelayOccupancySec_def deactivateRelay_def Let_def role_ok_def split: if_splits)

lemma occupancy_activate:
  "\<not> relay_active s \<Longrightarrow> currentRelayOccupancySec (activateRelay v w now s) now = currentRelayOccupancySec s now"
  by (simp add: currentRelayOccupancySec_def activateRelay_def)

lemma occupancy_cong:
  "relay_active s' = relay_active s \<Longrightarrow> relay_change_time s' = relay_change_time s \<Longrightarrow>
   cumulative_relay_occupancy_sec s' = cumulative_relay_occupancy_sec s \<Longrightarrow>
   currentRelayOccupancySec s' now = currentRelayOccupancySec s now"
  by (simp add: currentRelayOccupancySec_def)

lemma occupancy_while_active:
  assumes "lr_inv p now s" and "0 < now"
  shows "currentRelayOccupancySec (tick_while_active p v w winner now s) now = currentRelayOccupancySec s now"
proof (cases "relay_active s")
  case True
  have "role_ok p (refresh_relay p v w winner now s)"
    using lr_inv_refresh [OF assms True] by (simp add: lr_inv_def)
  then have "currentRelayOccupancySec (deactivateRelay now (refresh_relay p v w winner now s)) now =
      currentRelayOccupancySec (refresh_relay p v w winner now s) now" by (rule occupancy_deactivate)
  moreover have "currentRelayOccupancySec (refresh_relay p v w winner now s) now = currentRelayOccupancySec s now"
    by (rule occupancy_cong) simp_all
  ultimately show ?thesis by (simp add: tick_while_active_def Let_def split: option.split)
qed (simp add: tick_while_active_def)

text \<open>A tick neither loses nor double-counts relay time.\<close>

lemma occupancy_tick:
  assumes "lr_inv p t s" and "t \<le> now" and "0 < now"
  shows "currentRelayOccupancySec (fst (tick p now s)) now = currentRelayOccupancySec s now"
proof -
  obtain v s1 where pro: "tick_prologue p now s = (v, s1)" by fastforce
  obtain w winner where win: "selectWinningProposal p s1 v now = (w, winner)" by fastforce
  have inv: "lr_inv p now s1" using lr_inv_prologue [OF assms] pro by simp
  have eq: "currentRelayOccupancySec s1 now = currentRelayOccupancySec s now"
    using prologue_fields [OF pro] by (intro occupancy_cong) auto
  let ?s2 = "tick_while_active p v w winner now (updateWinnerHistory w now s1)"
  have "currentRelayOccupancySec (updateWinnerHistory w now s1) now = currentRelayOccupancySec s1 now"
    by (rule occupancy_cong) simp_all
  with occupancy_while_active [OF lr_inv_winner [OF inv assms(3)] assms(3)] eq
  have s2: "currentRelayOccupancySec ?s2 now = currentRelayOccupancySec s now" by simp
  have "role_ok p s1" using inv by (simp add: lr_inv_def)
  then show ?thesis
    using s2 eq by (simp add: fst_tick [OF pro] tick_decide_eq [OF win] Let_def occupancy_activate occupancy_deactivate)
qed

lemma occupancy_mono_time: "t \<le> t' \<Longrightarrow> currentRelayOccupancySec s t \<le> currentRelayOccupancySec s t'"
  by (auto simp: currentRelayOccupancySec_def max_def)

lemma occupancy_mono_handle:
  assumes "lr_inv p t s" and "0 < t" and "t \<le> t'"
  shows "currentRelayOccupancySec s t \<le> currentRelayOccupancySec (lr_handle p t' e s) t'"
proof (cases e)
  case Tick
  with occupancy_tick [OF assms(1,3)] assms occupancy_mono_time [of t t' s] show ?thesis by simp
qed (use assms(3) occupancy_mono_time [of t t' s] in
  \<open>auto simp: currentRelayOccupancySec_def odomCallback_def peerStateCallback_def proposalCallback_def
    selfDroneStateCallback_def peerDroneStateCallback_def Let_def\<close>)

section \<open>Two nodes\<close>

lemma selectWinningProposal_elect:
  assumes "selectWinningProposal p s v now = (w, winner)"
  shows "\<exists>avg. elect (relay_activation_min_votes p) (ballots p s v now) = (w, winner, avg)"
  using assms by (auto simp: selectWinningProposal_def split: prod.splits)

lemma two_nodes_one_relay:
  assumes ids: "0 < self_id p" "0 < self_id q" "self_id p \<noteq> self_id q"
    and caches: "lr_caches_ok p s" "lr_caches_ok q s'"
    and pro: "tick_prologue p now s = (v, s1)" "tick_prologue q now' s' = (v', s1')"
    and D: "finite D" "fst ` set (ballots p s1 v now) \<subseteq> D" "fst ` set (ballots q s1' v' now') \<subseteq> D"
    and quorum: "int (card D) < 2 * relay_activation_min_votes p"
      "relay_activation_min_votes q = relay_activation_min_votes p"
    and cons: "consistent_ballots (ballots p s1 v now) (ballots q s1' v' now')"
    and off: "\<not> relay_active s" "\<not> relay_active s'"
  shows "\<not> (relay_active (fst (tick p now s)) \<and> relay_active (fst (tick q now' s')))"
proof
  assume on: "relay_active (fst (tick p now s)) \<and> relay_active (fst (tick q now' s'))"
  obtain w winner where win: "selectWinningProposal p s1 v now = (w, winner)" by fastforce
  obtain w' winner' where win': "selectWinningProposal q s1' v' now' = (w', winner')" by fastforce
  have w: "w = self_id p" "w' = self_id q"
    using tick_takes_role [OF pro(1) off(1) _ win] tick_takes_role [OF pro(2) off(2) _ win'] on
    by (auto simp: shouldActivateRelay_def)
  obtain avg avg' where e:
    "elect (relay_activation_min_votes p) (ballots p s1 v now) = (w, winner, avg)"
    "elect (relay_activation_min_votes p) (ballots q s1' v' now') = (w', winner', avg')"
    using selectWinningProposal_elect [OF win] selectWinningProposal_elect [OF win'] quorum(2) by auto
  have "w \<noteq> -1" "w' \<noteq> -1" using w ids by auto
  with elect_agree [OF ballots_distinct [OF prologue_caches_ok [OF pro(1) caches(1)]]
      ballots_distinct [OF prologue_caches_ok [OF pro(2) caches(2)]] D quorum(1) cons e(1) _ e(2)]
  have "w = w'" by blast
  with w ids show False by simp
qed

section \<open>Published commands\<close>

lemma snd_tick_role:
  "\<exists>out target. snd (tick p now s) =
     out @ [PubRole (publishRole p now (relay_active (fst (tick p now s))) target)] \<and>
     (\<forall>r. PubRole r \<notin> set out)"
proof -
  obtain v s1 where pro: "tick_prologue p now s = (v, s1)" by fastforce
  show ?thesis by (auto simp: tick_def pro Let_def)
qed

lemma publishRole_z:
  assumes "lr_params_ok p"
  shows "relay_target_min_z p \<le> pz (rrc_relay_target (publishRole p now a q)) \<and>
    pz (rrc_relay_target (publishRole p now a q)) \<le> relay_target_max_z p"
  using assms clamp_target_z_range [of "target_params.truncate p" q]
  by (simp add: publishRole_def sanitizeRelayAnchor_pz lr_params_ok_def target_params.defs)

end
