(* ===== verification/Local_Relay_Claims.thy ===== *)
theory Local_Relay_Claims imports Local_Relay_Props
begin

text \<open>
  The properties of the local relay controller, each with an instance on a concrete node: drone 1
  at the origin has lost drone 2, which it last heard five seconds ago eight metres away.
\<close>

section \<open>A concrete node\<close>

definition ex_params :: lr_params where
  "ex_params = lr_default_params\<lparr>drone_ids := [1, 2], relay_startup_grace_period := 0,
     relay_activation_min_votes := 1, relay_suppress_balanced_split := False\<rparr>"

definition ex_at :: "real \<Rightarrow> point" where
  "ex_at x = \<lparr>px = x, py = 0, pz = 1\<rparr>"

definition ex_peer :: PeerStateEntry where
  "ex_peer = \<lparr>pe_position = ex_at 8, pe_velocity = zero_vector,
     pe_cumulative_relay_occupancy_sec = 0, pe_last_rx_time = 5, pe_valid = True\<rparr>"

definition ex_state :: lr_state where
  "ex_state = (lr_init ex_params)\<lparr>have_self_odom := True, peer_cache := [(2, ex_peer)],
     self_position := ex_at 0, first_tick_time := 1, fragmented_since := 7,
     stable_winner_since := 7, stable_winner_id := 1\<rparr>"

text \<open>The same node holding the role since time \<open>6\<close>.\<close>

definition ex_relay :: lr_state where
  "ex_relay = ex_state\<lparr>relay_active := True, relay_change_time := 6, relay_anchor := ex_at 4,
     relay_last_improvement_time := 6, relay_best_stale_peer_count := 1,
     relay_active_support_count := 1\<rparr>"

definition ex_view :: ProposalView where
  "ex_view = \<lparr>pv_fragmented_observed = True, pv_valid = True, pv_candidate_id = 1,
     pv_relay_target = ex_at 4, pv_score = 4, pv_fresh_peer_count = 0, pv_stale_peer_count = 1\<rparr>"

lemma ex_params_simps [simp]:
  "self_id ex_params = 1" "drone_ids ex_params = [1, 2]" "relay_policy_mode ex_params = kRule"
  "effectiveRelayPolicyMode ex_params = kRule" "relay_activation_min_votes ex_params = 1"
  "peer_state_fresh_timeout_sec ex_params = 2" "peer_state_stale_retention_sec ex_params = 20"
  "relay_winner_persist_time ex_params = 2" "relay_trigger_persist_time ex_params = 1"
  "relay_min_hold_time ex_params = 5" "relay_max_active_duration ex_params = 30"
  "relay_reenter_cooldown ex_params = 2" "relay_anchor_use_nearest_pair_midpoint ex_params"
  by (simp_all add: ex_params_def lr_default_params_def effectiveRelayPolicyMode_def)

lemma ex_params_ok: "lr_params_ok ex_params"
  by (simp add: lr_params_ok_def ex_params_def lr_default_params_def)

lemma ex_sanitize: "sanitizeRelayAnchor (target_params.truncate ex_params) (ex_at x) = ex_at x"
  by (simp add: sanitizeRelayAnchor_def clamp_target_z_def ex_params_def lr_default_params_def
      target_params.defs ex_at_def eval_nat_numeral)

lemma ex_midpoint: "midpoint (ex_at 0) (ex_at 8) = ex_at 4"
  by (simp add: midpoint_def ex_at_def)

lemma ex_distance: "SquaredDistance (ex_at x) (ex_at y) = (x - y) * (x - y)"
  by (simp add: SquaredDistance_def ex_at_def Let_def)

text \<open>What the node knows, in either role.\<close>

definition ex_knows :: "lr_state \<Rightarrow> bool" where
  "ex_knows s \<longleftrightarrow> have_self_odom s \<and> peer_cache s = [(2, ex_peer)] \<and> self_position s = ex_at 0 \<and>
     self_velocity s = zero_vector \<and> self_task_state s = default_task_state \<and> proposal_cache s = [] \<and>
     peer_task_cache s = [] \<and> first_tick_time s = 1 \<and> cumulative_relay_occupancy_sec s = 0 \<and>
     (relay_active s \<longrightarrow> relay_change_time s = 6)"

lemma ex_anchor: "ex_knows s \<Longrightarrow> computeRelayAnchor ex_params s [] [2] = Some (ex_at 4)"
  by (simp add: ex_knows_def computeRelayAnchor_def computeNearestBridgeMidpoint_def bridge_scan_def
      bridge_step_def lookupPoint_def find_valid_peer_def ex_peer_def Let_def ex_midpoint ex_sanitize)

lemma ex_score:
  assumes "ex_knows s" and "\<not> relay_active s"
  shows "computeCandidateScore ex_params s 1 (ex_at 4) now = Some 4"
proof -
  have "sqrt (4 * 4 :: real) = 4" by (rule sqrt_eqI) simp_all
  with assms show ?thesis
    by (simp add: ex_knows_def computeCandidateScore_def lookupPoint_def lookupVelocity_def
        lookupRelayOccupancy_def currentRelayOccupancySec_def lookupTaskState_def
        computeBacktrackPenalty_def Let_def ex_distance default_task_state_def zero_vector_def)
qed

lemma ex_prologue:
  assumes "now = 10" and "ex_knows s" and "\<not> relay_active s" and "fragmented_since s = 7"
    and "connected_since s = 0"
  shows "tick_prologue ex_params now s = (ex_view, s)"
proof -
  have pruned: "pruneCaches ex_params now s = s"
    using assms by (simp add: ex_knows_def pruneCaches_def prune_def peer_expired_def ex_peer_def)
  have ids: "fresh_ids_of ex_params s now = []" "stale_ids_of ex_params s now = [2]"
    using assms by (simp_all add: ex_knows_def fresh_ids_of_def stale_ids_of_def find_valid_peer_def ex_peer_def)
  have best: "computeBestCandidate ex_params s [1] (ex_at 4) now = Some (1, 4)"
    using ex_score [OF assms(2,3)] by (simp add: computeBestCandidate_def best_candidate_step_def)
  have rest: "relay_startup_grace_period ex_params = 0" "relay_max_occupancy_ratio ex_params = 1/2"
    "\<not> relay_suppress_balanced_split ex_params" "relay_activation_min_stale_count ex_params = 1"
    by (simp_all add: ex_params_def lr_default_params_def)
  have "computeSelfProposal ex_params s now = ex_view"
    using assms(2) rest
    by (simp add: computeSelfProposal_def ids Let_def ex_anchor [OF assms(2)] best ex_view_def
        default_view_def shouldCoordinateLocalSide_def ex_knows_def)
  with assms pruned show ?thesis
    by (simp add: tick_prologue_def Let_def ex_knows_def updateFragmentationState_def ex_view_def)
qed

lemma ex_state_knows: "ex_knows ex_state" "\<not> relay_active ex_state" "fragmented_since ex_state = 7"
  "connected_since ex_state = 0"
  by (simp_all add: ex_knows_def ex_state_def lr_init_def)

lemmas ex_state_prologue = ex_prologue [OF refl ex_state_knows]

lemma ex_state_ballots: "ballots ex_params ex_state ex_view 10 = [(1, self_entry ex_view 10)]"
  by (simp add: ballots_def ex_view_def ex_state_def lr_init_def)

lemma ex_state_no_proposals [simp]: "proposal_cache ex_state = []"
  by (simp add: ex_state_def lr_init_def)

definition ex_winner :: ProposalEntry where
  "ex_winner = self_entry ex_view 10"

lemma ex_elect: "elect 1 [(1, self_entry ex_view 10)] = (1, ex_winner, Some 4)"
  by (simp add: elect_def consider_ballot_def add_vote_def beats_def winner_step_def average_score_def
      default_aggregate_def default_proposal_def self_entry_def ex_view_def ex_winner_def Let_def)

lemma ex_select: "selectWinningProposal ex_params ex_state ex_view 10 = (1, ex_winner)"
  by (simp add: selectWinningProposal_def ex_state_ballots ex_elect)

lemma ex_tick_takes: "relay_active (fst (tick ex_params 10 ex_state))"
proof -
  have "relay_active (tick_decide ex_params ex_view 10 ex_state)"
    using ex_state_knows
    by (simp add: tick_decide_eq [OF ex_select] Let_def tick_while_active_def shouldActivateRelay_def)
      (simp add: ex_state_def lr_init_def ex_view_def updateWinnerHistory_def)
  with ex_state_knows show ?thesis
    by (simp add: fst_tick [OF ex_state_prologue] ex_knows_def)
qed

section \<open>The role over time\<close>

text \<open>C23: in every state that the callbacks and ticks of a node can reach, the caches have unique
  keys without the node's own id, no time stamp lies in the future, exactly one of the two
  fragmentation timers runs once the node has ticked, and the bookkeeping of the relay role
  (activation time, best counts, support) is set exactly while the role is held under a policy that
  allows it.\<close>

theorem lr_reachable_invariant: "lr_reach p t s \<Longrightarrow> lr_inv p t s"
  by (rule lr_reach_inv)

theorem lr_reachable_invariant_witness:
  "lr_inv ex_params 11 (lr_handle ex_params 11 Tick
     (lr_handle ex_params 10 (OdomMsg \<lparr>odom_stamp = 10, odom_position = ex_at 0, odom_velocity = zero_vector\<rparr>)
       (lr_init ex_params)))"
  by (rule lr_reachable_invariant, rule lr_reach.event [where t = 10], rule lr_reach.event [where t = 9],
      rule lr_reach.start) simp_all

text \<open>C24: a tick gives the node the relay role only when its own view is valid, it wins the election
  with at least the required number of votes, the swarm has been fragmented and it has been the
  stable winner for the configured times, and the re-entry cooldown has passed.\<close>

theorem relay_role_only_by_election:
  assumes "tick_prologue p now s = (v, s1)" and "\<not> relay_active s"
    and "relay_active (fst (tick p now s))" and "0 < self_id p" and "0 < relay_winner_persist_time p"
  shows "pv_valid v \<and>
    relay_activation_min_votes p \<le> int (votes_for (self_id p) (ballots p s1 v now)) \<and>
    (\<forall>c. relay_activation_min_votes p \<le> int (votes_for c (ballots p s1 v now)) \<longrightarrow>
         votes_for c (ballots p s1 v now) \<le> votes_for (self_id p) (ballots p s1 v now)) \<and>
    fragmented_since s1 \<noteq> 0 \<and> relay_trigger_persist_time p \<le> now - fragmented_since s1 \<and>
    stable_winner_id s = self_id p \<and> relay_winner_persist_time p \<le> now - stable_winner_since s \<and>
    (relay_exit_time s = 0 \<or> relay_reenter_cooldown p \<le> now - relay_exit_time s)"
proof -
  obtain w winner where win: "selectWinningProposal p s1 v now = (w, winner)" by fastforce
  from tick_takes_role [OF assms(1-3) win]
  have go: "shouldActivateRelay p v w now (updateWinnerHistory w now s1)" by blast
  then have w: "w = self_id p" and stable: "w = stable_winner_id s"
    using assms(5) prologue_fields [OF assms(1)]
    by (auto simp: shouldActivateRelay_def updateWinnerHistory_def split: if_splits)
  obtain avg where e: "elect (relay_activation_min_votes p) (ballots p s1 v now) = (w, winner, avg)"
    using selectWinningProposal_elect [OF win] by blast
  have "w \<noteq> -1" using w assms(4) by simp
  from elect_winner [OF e this] w go stable prologue_fields [OF assms(1)] show ?thesis
    by (auto simp: shouldActivateRelay_def updateWinnerHistory_def not_less split: if_splits)
qed

theorem relay_role_only_by_election_witness:
  "pv_valid ex_view \<and> stable_winner_id ex_state = 1 \<and> 2 \<le> 10 - stable_winner_since ex_state"
  using relay_role_only_by_election [OF ex_state_prologue ex_state_knows(2) ex_tick_takes] by simp

text \<open>Two nodes that vote over the same proposers, hear consistent ballots and need more than
  half of the votes never both take the relay role.\<close>

theorem at_most_one_elected_relay:
  assumes "0 < self_id p" and "0 < self_id q" and "self_id p \<noteq> self_id q"
    and "lr_caches_ok p s" and "lr_caches_ok q s'"
    and "tick_prologue p now s = (v, s1)" and "tick_prologue q now' s' = (v', s1')"
    and "finite D" and "fst ` set (ballots p s1 v now) \<subseteq> D" and "fst ` set (ballots q s1' v' now') \<subseteq> D"
    and "int (card D) < 2 * relay_activation_min_votes p"
    and "relay_activation_min_votes q = relay_activation_min_votes p"
    and "consistent_ballots (ballots p s1 v now) (ballots q s1' v' now')"
    and "\<not> relay_active s" and "\<not> relay_active s'"
  shows "\<not> (relay_active (fst (tick p now s)) \<and> relay_active (fst (tick q now' s')))"
  by (rule two_nodes_one_relay [OF assms])

lemma ex_caches_ok: "lr_caches_ok ex_params ex_state"
  by (simp add: lr_caches_ok_def cache_ok_def ex_state_def lr_init_def ex_peer_def)

lemma ex_other_prologue:
  defines "q \<equiv> ex_params\<lparr>self_id := 2\<rparr>"
  shows "tick_prologue q 10 (lr_init q) =
    (default_view\<lparr>pv_relay_target := relay_anchor (lr_init q)\<rparr>,
     (lr_init q)\<lparr>first_tick_time := 10, connected_since := 10\<rparr>)"
  by (simp add: tick_prologue_def Let_def pruneCaches_def prune_def computeSelfProposal_def
      updateFragmentationState_def default_view_def lr_init_def)

theorem at_most_one_elected_relay_witness:
  "\<not> (relay_active (fst (tick ex_params 10 ex_state)) \<and>
      relay_active (fst (tick (ex_params\<lparr>self_id := 2\<rparr>) 10 (lr_init (ex_params\<lparr>self_id := 2\<rparr>)))))"
  by (rule at_most_one_elected_relay [where D = "{1}", OF _ _ _ ex_caches_ok lr_caches_ok_init
        ex_state_prologue ex_other_prologue])
    (auto simp: ex_state_ballots ballots_def default_view_def lr_init_def consistent_ballots_def
      ex_state_knows)

text \<open>a node that holds the relay role keeps it, with its activation time, until the minimum
  hold time has passed, as long as it has odometry and the policy is on.\<close>

theorem relay_role_held_min_time:
  assumes "relay_active s" and "have_self_odom s" and "effectiveRelayPolicyMode p \<noteq> kOff"
    and "now - relay_change_time s < relay_min_hold_time p"
  shows "relay_active (fst (tick p now s)) \<and>
    relay_change_time (fst (tick p now s)) = relay_change_time s"
proof -
  obtain v s1 where "tick_prologue p now s = (v, s1)" by fastforce
  from tick_keeps_role [OF this assms] show ?thesis .
qed

theorem relay_role_held_min_time_witness:
  "relay_active (fst (tick ex_params 10 ex_relay))"
  using relay_role_held_min_time [of ex_relay ex_params 10]
  by (simp add: ex_relay_def ex_state_def)

text \<open>a node whose relay role has lasted the maximum duration (and the minimum hold time) gives
  it up in that tick, whatever the election says, and cannot take it back in the same tick.\<close>

theorem relay_role_given_up:
  assumes "relay_active s" and "now \<noteq> 0" and "relay_min_hold_time p \<le> now - relay_change_time s"
    and "0 < relay_max_active_duration p" and "relay_max_active_duration p \<le> now - relay_change_time s"
    and "0 < relay_reenter_cooldown p"
  shows "\<not> relay_active (fst (tick p now s))"
proof -
  obtain v s1 where "tick_prologue p now s = (v, s1)" by fastforce
  from tick_gives_up_role [OF this assms(2-6) assms(1)] show ?thesis .
qed

theorem relay_role_given_up_witness: "\<not> relay_active (fst (tick ex_params 40 ex_relay))"
  by (rule relay_role_given_up) (simp_all add: ex_relay_def ex_state_def)

text \<open>The relay occupancy a node reports never decreases from one event to the next, and a tick
  (which may close or open an interval of relay time) leaves its value at that instant unchanged.\<close>

theorem relay_occupancy_accounting:
  assumes "lr_reach p t s" and "t \<le> t'"
  shows "currentRelayOccupancySec s t \<le> currentRelayOccupancySec (lr_handle p t' e s) t' \<and>
    currentRelayOccupancySec (fst (tick p t' s)) t' = currentRelayOccupancySec s t'"
  using occupancy_mono_handle [OF lr_reach_inv [OF assms(1)] lr_reach_pos [OF assms(1)] assms(2)]
    occupancy_tick [OF lr_reach_inv [OF assms(1)] assms(2)] lr_reach_pos [OF assms(1)] assms(2)
  by simp

theorem relay_occupancy_accounting_witness:
  "currentRelayOccupancySec (fst (tick ex_params 12 (lr_init ex_params))) 12 =
   currentRelayOccupancySec (lr_init ex_params) 12"
  using relay_occupancy_accounting [OF lr_reach.start [of 10 ex_params], of 12] by simp

text \<open>Every tick publishes exactly one role command, as its last message; it carries the node's
  id, the relay role exactly when the new state holds it, and a target height within the bounds.\<close>

theorem tick_publishes_role:
  assumes "lr_params_ok p"
  shows "\<exists>out cmd. snd (tick p now s) = out @ [PubRole cmd] \<and> (\<forall>r. PubRole r \<notin> set out) \<and>
    rrc_agent_id cmd = self_id p \<and>
    (rrc_role cmd = ROLE_RELAY \<longleftrightarrow> relay_active (fst (tick p now s))) \<and>
    (rrc_valid cmd \<longleftrightarrow> relay_active (fst (tick p now s))) \<and>
    relay_target_min_z p \<le> pz (rrc_relay_target cmd) \<and>
    pz (rrc_relay_target cmd) \<le> relay_target_max_z p"
proof -
  obtain out target where "snd (tick p now s) =
      out @ [PubRole (publishRole p now (relay_active (fst (tick p now s))) target)]"
    and "\<forall>r. PubRole r \<notin> set out" using snd_tick_role by blast
  moreover have "rrc_agent_id (publishRole p now a q) = self_id p"
    "rrc_role (publishRole p now a q) = ROLE_RELAY \<longleftrightarrow> a" "rrc_valid (publishRole p now a q) \<longleftrightarrow> a" for a q
    by (simp_all add: publishRole_def)
  ultimately show ?thesis using publishRole_z [OF assms] by blast
qed

theorem tick_publishes_role_witness:
  "\<exists>out cmd. snd (tick ex_params 10 ex_state) = out @ [PubRole cmd] \<and> rrc_role cmd = ROLE_RELAY"
  using tick_publishes_role [OF ex_params_ok, of 10 ex_state] ex_tick_takes by blast

section \<open>The election and the choice of the candidate\<close>

lemma elect_none_default: "elect min_votes bs = (-1, best, avg) \<Longrightarrow> best = default_proposal"
  using elect_inv [of min_votes bs] by (simp add: winner_inv_def)

text \<open>When an election has a winner it is a candidate with the most votes among those that reach
  the minimum, its support count is its number of votes, and no election with a candidate above the
  minimum ends without a winner.\<close>

theorem election_result:
  assumes "elect min_votes bs = (c, best, avg)"
  shows "(c \<noteq> -1 \<longrightarrow> 0 < c \<and> pr_candidate_id best = c \<and> min_votes \<le> int (votes_for c bs) \<and>
      pr_support_count best = int (votes_for c bs) \<and>
      (\<forall>c'. min_votes \<le> int (votes_for c' bs) \<longrightarrow> votes_for c' bs \<le> votes_for c bs)) \<and>
    (c = -1 \<longrightarrow> best = default_proposal \<and>
      (\<forall>c'. 0 < votes_for c' bs \<longrightarrow> int (votes_for c' bs) < min_votes))"
  using elect_winner [OF assms] elect_none(1) [of min_votes bs best avg] elect_none_default [of min_votes bs] assms
  by (cases "c = -1") auto

theorem election_result_witness:
  "pr_support_count ex_winner = int (votes_for 1 [(1, self_entry ex_view 10)])"
  using election_result [OF ex_elect] by simp

text \<open>the candidate chosen by the scan is one of the given drones with its own score, and no
  drone with a score beats it by more than one tolerance per drone scanned; a drone that is not
  assignable, already relays or is busy after a recent plan is never chosen.\<close>

theorem best_candidate_chosen:
  assumes "\<forall>i \<in> set ids. 0 \<le> i" and "computeBestCandidate p s ids anchor now = Some (c, x)"
  shows "c \<in> set ids \<and> computeCandidateScore p s c anchor now = Some x \<and>
    (\<forall>j \<in> set ids. \<forall>y. computeCandidateScore p s j anchor now = Some y \<longrightarrow>
       x \<le> y + real (length ids) * (1 / 1000000)) \<and>
    (\<forall>t. lookupTaskState p s c now = Some t \<longrightarrow>
       te_task_assignable t \<and> te_relay_role t \<noteq> ROLE_RELAY \<and>
       \<not> (is_recent now (relay_candidate_recent_plan_success_timeout_sec p)
            (te_last_plan_success_stamp t) \<and> te_grid_count t > 1))"
  using computeBestCandidate_from [OF assms] computeBestCandidate_near_minimum [OF assms(1), of _ p s anchor now]
    computeCandidateScore_assignable [of p s c anchor now x] assms(2)
  by fastforce

theorem best_candidate_chosen_witness:
  "computeCandidateScore ex_params ex_state 1 (ex_at 4) 10 = Some 4"
  using best_candidate_chosen [of "[1]" ex_params ex_state "ex_at 4" 10 1 4]
    ex_score [OF ex_state_knows(1,2)]
  by (simp add: computeBestCandidate_def best_candidate_step_def)

text \<open>With parameters the constructor has bounded and non-negative occupancies, penalties only
  ever add to a candidate's score: it is at least the drone's distance to the anchor, and the
  backtrack part lies between zero and that distance.\<close>

theorem candidate_score_at_least_distance:
  assumes "occupancy_ok s" and "lookupPoint (lr_effective_params p m) s i = Some position"
    and "computeCandidateScore (lr_effective_params p m) s i anchor now = Some x"
  shows "sqrt (SquaredDistance position anchor) \<le> x \<and>
    0 \<le> computeBacktrackPenalty position velocity anchor \<and>
    computeBacktrackPenalty position velocity anchor \<le> sqrt (SquaredDistance position anchor)"
  using computeCandidateScore_ge_distance [OF lr_effective_params_ok assms(1,3,2)] backtrack_penalty_bounds
  by blast

lemma ex_effective: "lr_effective_params ex_params ''Rule'' = ex_params"
  by (simp add: lr_effective_params_def lr_bound_params_def lr_bound_target_def Let_def ex_params_def
      lr_default_params_def lr_policy_of_def TryParseRelayPolicyMode_def NormalizePolicyName_def
      tolower_def Clamp01_def)

theorem candidate_score_at_least_distance_witness: "sqrt (SquaredDistance (ex_at 0) (ex_at 4)) \<le> 4"
  using candidate_score_at_least_distance [of ex_state ex_params "''Rule''" 1 "ex_at 0" "ex_at 4" 10 4]
    ex_score [OF ex_state_knows(1,2)]
  by (simp add: ex_effective occupancy_ok_def ex_state_def lr_init_def ex_peer_def default_task_state_def
      lookupPoint_def)

text \<open>Two nodes on opposite sides of a split, each with its own side fresh and the other side
  stale, never both coordinate and never both stand back.\<close>

theorem one_side_coordinates:
  assumes "insert (self_id p) (set fresh) = A" and "set stale = B"
    and "insert (self_id q) (set fresh') = B" and "set stale' = A" and "A \<inter> B = {}"
  shows "shouldCoordinateLocalSide p fresh stale \<noteq> shouldCoordinateLocalSide q fresh' stale'"
  by (rule exactly_one_side_coordinates [OF assms])

theorem one_side_coordinates_witness:
  "shouldCoordinateLocalSide ex_params [3] [2, 4] \<noteq>
   shouldCoordinateLocalSide (ex_params\<lparr>self_id := 2\<rparr>) [4] [1, 3]"
  by (rule one_side_coordinates [where A = "{1, 3}" and B = "{2, 4}"]) auto

text \<open>The bridge point is the midpoint of a closest pair across the split: a drone of the left
  side and one of the right side, both with a known position, at the least distance of all such
  pairs; it exists exactly when both sides have a drone with a known position.\<close>

theorem bridge_midpoint_of_closest_pair:
  "(case computeNearestBridgeMidpoint p s lhs_ids rhs_ids of
      None \<Rightarrow> known (lookupPoint p s) lhs_ids = {} \<or> known (lookupPoint p s) rhs_ids = {}
    | Some m \<Rightarrow> \<exists>l \<in> known (lookupPoint p s) lhs_ids. \<exists>r \<in> known (lookupPoint p s) rhs_ids.
        m = midpoint l r \<and>
        (\<forall>l' \<in> known (lookupPoint p s) lhs_ids. \<forall>r' \<in> known (lookupPoint p s) rhs_ids.
           SquaredDistance l r \<le> SquaredDistance l' r'))"
  using computeNearestBridgeMidpoint_nearest computeNearestBridgeMidpoint_None
  by (simp split: option.split)

theorem bridge_midpoint_of_closest_pair_witness:
  "\<exists>l \<in> known (lookupPoint ex_params ex_state) [1]. \<exists>r \<in> known (lookupPoint ex_params ex_state) [2].
     ex_at 4 = midpoint l r"
  using bridge_midpoint_of_closest_pair [of ex_params ex_state "[1]" "[2]"] ex_state_knows(1)
  by (simp add: ex_knows_def computeNearestBridgeMidpoint_def bridge_scan_def bridge_step_def
      lookupPoint_def find_valid_peer_def ex_peer_def Let_def ex_midpoint)

section \<open>Relay targets and obstacles\<close>

definition ex_box :: "real \<Rightarrow> real \<Rightarrow> ObstacleBox" where
  "ex_box lo hi = \<lparr>min_x = lo, max_x = hi, min_y = -50, max_y = 50, min_z = 0, max_z = 5\<rparr>"

text \<open>Projecting a point that lies inside an inflated box takes it out of the box by the
  shortest horizontal way: one coordinate moves by the distance to the nearest face plus the
  millimetre of margin.\<close>

theorem projection_shortest:
  assumes "IsInsideObstacle p b c"
  shows "\<not> IsInsideObstacle (snd (ProjectPointOutOfObstacle b c p)) b c \<and>
    \<bar>px (snd (ProjectPointOutOfObstacle b c p)) - px p\<bar> + \<bar>py (snd (ProjectPointOutOfObstacle b c p)) - py p\<bar> =
      Min {px p - (min_x b - c), max_x b + c - px p, py p - (min_y b - c), max_y b + c - py p} + 1 / 1000"
  using project_not_inside project_distance [OF assms] by blast

theorem projection_shortest_witness:
  "\<not> IsInsideObstacle (snd (ProjectPointOutOfObstacle (ex_box 0 10) 0 (ex_at 1))) (ex_box 0 10) 0"
  using projection_shortest [of "ex_at 1" "ex_box 0 10" 0] by (simp add: IsInsideObstacle_def ex_box_def ex_at_def)

text \<open>With at most one obstacle, or whenever one of the eight passes no longer moves it, the relay
  target ends outside every inflated obstacle.\<close>

theorem sanitized_target_outside:
  assumes "length (relay_obstacles tp) \<le> 1 \<or>
    (\<exists>k < 8. \<not> fst (project_pass (relay_target_obstacle_clearance tp) (relay_obstacles tp)
      (((\<lambda>q. snd (project_pass (relay_target_obstacle_clearance tp) (relay_obstacles tp) q)) ^^ k)
        (clamp_target_z tp a))))"
  shows "\<forall>b \<in> set (relay_obstacles tp).
    \<not> IsInsideObstacle (sanitizeRelayAnchor tp a) b (relay_target_obstacle_clearance tp)"
proof -
  consider "length (relay_obstacles tp) \<le> 1" | "\<exists>k < 8. \<not> fst (project_pass
      (relay_target_obstacle_clearance tp) (relay_obstacles tp)
      (((\<lambda>q. snd (project_pass (relay_target_obstacle_clearance tp) (relay_obstacles tp) q)) ^^ k)
        (clamp_target_z tp a)))"
    using assms by blast
  then show ?thesis
  proof cases
    case 1
    then consider "relay_obstacles tp = []" | b where "relay_obstacles tp = [b]"
      by (cases "relay_obstacles tp") auto
    then show ?thesis by cases (simp_all add: sanitizeRelayAnchor_def project_passes_single)
  next
    case 2
    with project_passes_clear_or_moving [of "relay_obstacles tp" 8] show ?thesis
      unfolding sanitizeRelayAnchor_def by blast
  qed
qed

definition ex_target :: "ObstacleBox list \<Rightarrow> target_params" where
  "ex_target boxes = \<lparr>relay_target_use_fixed_z = True, relay_target_fixed_z = 1, relay_target_min_z = 9/10,
     relay_target_max_z = 13/10, relay_target_obstacle_clearance = 0, relay_obstacles = boxes\<rparr>"

theorem sanitized_target_outside_witness:
  "\<not> IsInsideObstacle (sanitizeRelayAnchor (ex_target [ex_box 0 10]) (ex_at 1)) (ex_box 0 10) 0"
proof -
  have "length (relay_obstacles (ex_target [ex_box 0 10])) \<le> 1" by (simp add: ex_target_def)
  from sanitized_target_outside [OF disjI1 [OF this], of "ex_at 1"] show ?thesis
    by (simp add: ex_target_def)
qed

lemma ex_ping_pong_pass:
  "project_pass 0 [ex_box 0 10, ex_box (-10) 0] (\<lparr>px = 1/1000, py = 0, pz = 1\<rparr>) =
   (True, \<lparr>px = 1/1000, py = 0, pz = 1\<rparr>)"
  by (simp add: ProjectPointOutOfObstacle_def IsInsideObstacle_def best_face_def ex_box_def Let_def)

text \<open>two obstacles that touch can keep a relay target inside one of them: each pass pushes it
  across the common face into the other box and back, and after eight passes the target that is
  published lies in an obstacle.\<close>

theorem touching_obstacles_trap_target:
  "IsInsideObstacle
     (sanitizeRelayAnchor (ex_target [ex_box 0 10, ex_box (-10) 0]) (\<lparr>px = 1/1000, py = 0, pz = 1\<rparr>))
     (ex_box 0 10) 0"
proof -
  have "project_passes n 0 [ex_box 0 10, ex_box (-10) 0] (\<lparr>px = 1/1000, py = 0, pz = 1\<rparr>) =
      (\<lparr>px = 1/1000, py = 0, pz = 1\<rparr>)" for n
    by (induction n) (simp_all add: ex_ping_pong_pass del: project_pass.simps)
  then show ?thesis
    by (simp add: sanitizeRelayAnchor_def ex_target_def clamp_target_z_def IsInsideObstacle_def ex_box_def)
qed

end
