(* ===== verification/Comm_Snapshot.thy ===== *)
theory Comm_Snapshot imports Relay_Anchors
begin

text \<open>
  The input side of \<open>RacerCommControllerNode\<close>
  (\<open>relay_racer_integration/src/racer_comm_controller_node.cpp\<close>), the central relay controller: its
  parameters and member variables, the decoding of a batch of receive events into a snapshot of
  directed links, the application of a snapshot to the link store, and the removal of stale state.
  Event times are 64-bit microsecond counters, as in the code.
\<close>

unbundle bit_operations_syntax

section \<open>Identifiers and link keys\<close>

datatype InputSource = kUnknown | kServiceChain | kRawTopic

definition PlatformIdFromRacerId :: "int \<Rightarrow> int \<Rightarrow> int" where
  "PlatformIdFromRacerId racer_id id_offset = racer_id + id_offset"

definition RacerIdFromPlatformId :: "int \<Rightarrow> int \<Rightarrow> int" where
  "RacerIdFromPlatformId platform_id id_offset = platform_id - id_offset"

text \<open>A link is keyed by one \<open>long long\<close>: the source in the upper and the destination in the lower
  32 bits.\<close>

definition DirectedKey :: "int \<Rightarrow> int \<Rightarrow> 64 word" where
  "DirectedKey src_id dst_id =
     (push_bit 32 (word_of_int src_id)) XOR (ucast (word_of_int dst_id :: 32 word))"

definition DirectedKeySrc :: "64 word \<Rightarrow> int" where
  "DirectedKeySrc key = sint (ucast (signed_drop_bit 32 key) :: 32 word)"

definition DirectedKeyDst :: "64 word \<Rightarrow> int" where
  "DirectedKeyDst key = sint (ucast key :: 32 word)"

section \<open>Parameters\<close>

record cc_params = target_params +
  relay_trigger_age_threshold :: real
  relay_link_exit_age_threshold :: real
  relay_trigger_persist_time :: real
  relay_recover_time :: real
  relay_min_hold_time :: real
  relay_reenter_cooldown :: real
  relay_startup_grace_period :: real
  relay_max_occupancy_ratio :: real
  relay_no_improvement_timeout :: real
  relay_max_active_duration :: real
  relay_failed_agent_cooldown :: real
  relay_endgame_completion_ratio_threshold :: real
  relay_endgame_frontier_cell_threshold :: int
  relay_endgame_frontier_cluster_threshold :: int
  relay_endgame_active_grid_threshold :: int
  relay_candidate_speed_penalty_gain :: real
  relay_candidate_reuse_penalty_gain :: real
  relay_candidate_small_component_penalty_gain :: real
  relay_candidate_backtrack_penalty_gain :: real
  relay_suppress_balanced_split :: bool
  relay_balanced_min_component_size :: int
  relay_balanced_size_ratio_threshold :: real
  relay_balanced_min_separation_m :: real
  relay_balanced_axis_ratio_threshold :: real
  relay_balanced_outward_velocity_threshold :: real
  relay_anchor_use_nearest_pair_midpoint :: bool
  relay_frontier_improvement_min_delta :: int
  relay_frontier_regression_grace_sec :: real
  relay_frontier_regression_abs_threshold :: int
  relay_frontier_regression_ratio_threshold :: real
  relay_policy_mode :: RelayPolicyMode
  id_offset :: int
  prefer_service_input :: bool
  service_input_timeout_sec :: real
  service_input_replaces_graph :: bool
  comm_component_requires_bidirectional :: bool
  observed_agent_retention_sec :: real
  agent_cache_timeout_sec :: real
  edge_state_prune_age_sec :: real
  publish_relay_role_cmds :: bool

text \<open>The defaults passed to \<open>pnh_.param\<close>, with no obstacles.\<close>

definition cc_default_params :: cc_params where
  "cc_default_params =
    \<lparr>relay_target_use_fixed_z = True, relay_target_fixed_z = 1, relay_target_min_z = 9/10,
     relay_target_max_z = 13/10, relay_target_obstacle_clearance = 6/10, relay_obstacles = [],
     relay_trigger_age_threshold = 1/2, relay_link_exit_age_threshold = 8/10,
     relay_trigger_persist_time = 1/2, relay_recover_time = 1, relay_min_hold_time = 15/10,
     relay_reenter_cooldown = 1, relay_startup_grace_period = 0, relay_max_occupancy_ratio = 1/2,
     relay_no_improvement_timeout = 15, relay_max_active_duration = 30,
     relay_failed_agent_cooldown = 20, relay_endgame_completion_ratio_threshold = 99/100,
     relay_endgame_frontier_cell_threshold = 1200, relay_endgame_frontier_cluster_threshold = 3,
     relay_endgame_active_grid_threshold = 4, relay_candidate_speed_penalty_gain = 4,
     relay_candidate_reuse_penalty_gain = 8/100, relay_candidate_small_component_penalty_gain = 6,
     relay_candidate_backtrack_penalty_gain = 8, relay_suppress_balanced_split = True,
     relay_balanced_min_component_size = 2, relay_balanced_size_ratio_threshold = 3/4,
     relay_balanced_min_separation_m = 10, relay_balanced_axis_ratio_threshold = 18/10,
     relay_balanced_outward_velocity_threshold = 15/100,
     relay_anchor_use_nearest_pair_midpoint = True, relay_frontier_improvement_min_delta = 200,
     relay_frontier_regression_grace_sec = 8, relay_frontier_regression_abs_threshold = 1500,
     relay_frontier_regression_ratio_threshold = 125/100, relay_policy_mode = kRule,
     id_offset = -1, prefer_service_input = True, service_input_timeout_sec = 1,
     service_input_replaces_graph = False, comm_component_requires_bidirectional = False,
     observed_agent_retention_sec = 5, agent_cache_timeout_sec = 3, edge_state_prune_age_sec = 5,
     publish_relay_role_cmds = True\<rparr>"

text \<open>The bounds the constructor enforces, in its order (the last two groups only touch the target).\<close>

definition cc_bound_params :: "cc_params \<Rightarrow> cc_params" where
  "cc_bound_params p =
     (let p = p
        \<lparr>relay_link_exit_age_threshold :=
           max (relay_link_exit_age_threshold p) (relay_trigger_age_threshold p),
         relay_trigger_persist_time := max 0 (relay_trigger_persist_time p),
         relay_recover_time := max 0 (relay_recover_time p),
         relay_min_hold_time := max 0 (relay_min_hold_time p),
         relay_reenter_cooldown := max 0 (relay_reenter_cooldown p),
         relay_startup_grace_period := max 0 (relay_startup_grace_period p),
         relay_no_improvement_timeout := max 0 (relay_no_improvement_timeout p),
         relay_max_active_duration := max 0 (relay_max_active_duration p),
         relay_failed_agent_cooldown := max 0 (relay_failed_agent_cooldown p),
         relay_endgame_completion_ratio_threshold := Clamp01 (relay_endgame_completion_ratio_threshold p),
         relay_endgame_frontier_cell_threshold := max (-1) (relay_endgame_frontier_cell_threshold p),
         relay_endgame_frontier_cluster_threshold := max (-1) (relay_endgame_frontier_cluster_threshold p),
         relay_endgame_active_grid_threshold := max (-1) (relay_endgame_active_grid_threshold p),
         relay_candidate_speed_penalty_gain := max 0 (relay_candidate_speed_penalty_gain p),
         relay_candidate_reuse_penalty_gain := max 0 (relay_candidate_reuse_penalty_gain p),
         relay_candidate_small_component_penalty_gain :=
           max 0 (relay_candidate_small_component_penalty_gain p),
         relay_candidate_backtrack_penalty_gain := max 0 (relay_candidate_backtrack_penalty_gain p),
         relay_balanced_min_component_size := max 1 (relay_balanced_min_component_size p),
         relay_balanced_size_ratio_threshold := Clamp01 (relay_balanced_size_ratio_threshold p),
         relay_balanced_min_separation_m := max 0 (relay_balanced_min_separation_m p),
         relay_balanced_axis_ratio_threshold := max 1 (relay_balanced_axis_ratio_threshold p),
         relay_balanced_outward_velocity_threshold :=
           max 0 (relay_balanced_outward_velocity_threshold p),
         relay_frontier_improvement_min_delta := max 0 (relay_frontier_improvement_min_delta p),
         relay_frontier_regression_grace_sec := max 0 (relay_frontier_regression_grace_sec p),
         relay_frontier_regression_abs_threshold := max 0 (relay_frontier_regression_abs_threshold p),
         relay_frontier_regression_ratio_threshold := max 1 (relay_frontier_regression_ratio_threshold p),
         observed_agent_retention_sec := max 0 (observed_agent_retention_sec p),
         agent_cache_timeout_sec := max 0 (agent_cache_timeout_sec p),
         edge_state_prune_age_sec := max 0 (edge_state_prune_age_sec p)\<rparr>;
          p = (if relay_target_min_z p > relay_target_max_z p
               then p\<lparr>relay_target_min_z := relay_target_max_z p,
                      relay_target_max_z := relay_target_min_z p\<rparr> else p)
      in p\<lparr>relay_target_obstacle_clearance := max 0 (relay_target_obstacle_clearance p)\<rparr>)"

definition cc_policy_of :: "string \<Rightarrow> RelayPolicyMode" where
  "cc_policy_of relay_policy_mode_param =
     (case TryParseRelayPolicyMode relay_policy_mode_param of None \<Rightarrow> kRule | Some m \<Rightarrow> m)"

definition cc_effectiveRelayPolicyMode :: "cc_params \<Rightarrow> RelayPolicyMode" where
  "cc_effectiveRelayPolicyMode p =
     (if relay_policy_mode p = kRl then kRule else relay_policy_mode p)"

section \<open>Member variables\<close>

record AgentCacheEntry =
  ac_platform_id :: int
  ac_position :: point
  ac_velocity :: vector3
  ac_heading :: real
  ac_stamp :: time

record DirectedEdgeState =
  de_last_rx_time_us :: "64 word"
  de_quality :: real
  de_delay_sec :: real

type_synonym link_map = "(64 word \<times> DirectedEdgeState) list"

text \<open>Counts and window starts that are only logged are left out of the snapshot.\<close>

record CommSnapshot =
  cs_horizon_time_us :: "64 word"
  cs_edges :: link_map
  cs_observed_agent_ids :: "int list"

text \<open>\<open>None\<close> in \<open>scs_link_age\<close> is the infinite age of a link that was never seen.\<close>

record SwarmCommState =
  scs_stamp :: time
  scs_agent_ids :: "int list"
  scs_component_ids :: "int list"
  scs_link_src_ids :: "int list"
  scs_link_dst_ids :: "int list"
  scs_link_up :: "bool list"
  scs_link_quality :: "real list"
  scs_link_age :: "real option list"
  scs_num_components :: int

definition empty_comm_state :: SwarmCommState where
  "empty_comm_state = \<lparr>scs_stamp = 0, scs_agent_ids = [], scs_component_ids = [], scs_link_src_ids = [],
     scs_link_dst_ids = [], scs_link_up = [], scs_link_quality = [], scs_link_age = [],
     scs_num_components = 0\<rparr>"

record cc_state =
  agent_cache :: "AgentCacheEntry umap"
  agent_last_observed_wall_time :: "time umap"
  directed_edges :: link_map
  latest_link_up :: "(64 word \<times> bool) list"
  latest_components :: "int umap"
  observed_agent_ids :: "int list"
  current_comm_state :: SwarmCommState
  relay_active :: bool
  relay_agent_id :: int
  relay_anchor :: point
  relay_change_time :: time
  connected_since :: time
  fragmented_since :: time
  relay_exit_time :: time
  relay_last_improvement_time :: time
  relay_last_failed_time :: time
  first_eval_time :: time
  relay_start_num_components :: int
  relay_best_num_components :: int
  last_failed_relay_agent_id :: int
  relay_start_frontier_cell_count :: int
  relay_best_frontier_cell_count :: int
  saw_task_metrics :: bool
  unknown_cells_total :: int
  unknown_cells_peak :: int
  frontier_cluster_count_metric :: int
  frontier_cell_count_metric :: int
  active_grid_count :: int
  completion_ratio :: real
  relay_total_occupancy_by_agent :: "real umap"
  latest_comm_horizon_us :: "64 word"
  last_service_snapshot_horizon_us :: "64 word"
  last_raw_snapshot_horizon_us :: "64 word"
  last_fresh_service_snapshot_wall_time :: time
  last_raw_topic_update :: time
  last_input_source :: InputSource

definition cc_init :: cc_state where
  "cc_init =
    \<lparr>agent_cache = [], agent_last_observed_wall_time = [], directed_edges = [], latest_link_up = [],
     latest_components = [], observed_agent_ids = [], current_comm_state = empty_comm_state,
     relay_active = False, relay_agent_id = -1, relay_anchor = zero_point, relay_change_time = 0,
     connected_since = 0, fragmented_since = 0, relay_exit_time = 0, relay_last_improvement_time = 0,
     relay_last_failed_time = 0, first_eval_time = 0, relay_start_num_components = 0,
     relay_best_num_components = 0, last_failed_relay_agent_id = -1,
     relay_start_frontier_cell_count = -1, relay_best_frontier_cell_count = -1,
     saw_task_metrics = False, unknown_cells_total = -1, unknown_cells_peak = 0,
     frontier_cluster_count_metric = -1, frontier_cell_count_metric = -1, active_grid_count = -1,
     completion_ratio = 0, relay_total_occupancy_by_agent = [], latest_comm_horizon_us = 0,
     last_service_snapshot_horizon_us = 0, last_raw_snapshot_horizon_us = 0,
     last_fresh_service_snapshot_wall_time = 0, last_raw_topic_update = 0,
     last_input_source = kUnknown\<rparr>"

section \<open>Input messages\<close>

text \<open>The fields of \<open>RxEvent\<close> and \<open>NetRxEventsPayload\<close> that the node reads.\<close>

record RxEvent =
  re_src_id :: "32 word"
  re_dst_id :: "32 word"
  re_tx_time_us :: "64 word"
  re_rx_time_us :: "64 word"
  re_delay_us :: "64 word"
  re_rssi_dbm_x10 :: int

record NetRxEventsPayload =
  np_t_window_end_us :: "64 word"
  np_events :: "RxEvent list"

record AgentStruct =
  as_agent_id :: "32 word"
  as_position :: point
  as_velocity :: vector3
  as_heading :: real

section \<open>Observed agents\<close>

definition cc_noteObservedAgent :: "int \<Rightarrow> time \<Rightarrow> cc_state \<Rightarrow> cc_state" where
  "cc_noteObservedAgent agent_id now s =
     (if agent_id \<le> 0 then s
      else s\<lparr>observed_agent_ids := List.insert agent_id (observed_agent_ids s),
             agent_last_observed_wall_time := AList.update agent_id now (agent_last_observed_wall_time s)\<rparr>)"

definition cache_agent :: "int \<Rightarrow> time \<Rightarrow> AgentStruct \<Rightarrow> cc_state \<Rightarrow> cc_state" where
  "cache_agent offset now agent s =
     (let platform_id = sint (as_agent_id agent); racer_id = RacerIdFromPlatformId platform_id offset in
      if racer_id \<le> 0 then s
      else
        let entry = \<lparr>ac_platform_id = platform_id, ac_position = as_position agent,
              ac_velocity = as_velocity agent, ac_heading = as_heading agent, ac_stamp = now\<rparr>
        in cc_noteObservedAgent racer_id now
             (s\<lparr>agent_cache := AList.update racer_id entry (agent_cache s)\<rparr>))"

definition updateAgentCache :: "cc_params \<Rightarrow> AgentStruct list \<Rightarrow> time \<Rightarrow> cc_state \<Rightarrow> cc_state" where
  "updateAgentCache p agents now s = fold (cache_agent (id_offset p) now) agents s"

text \<open>A number that the message does not carry leaves its metric as it was.\<close>

definition taskMetricsCallback :: "int list \<Rightarrow> cc_state \<Rightarrow> cc_state" where
  "taskMetricsCallback data s =
     (let s = s\<lparr>saw_task_metrics := True\<rparr>;
          s = (if length data \<ge> 1
               then (let s = s\<lparr>unknown_cells_total := data ! 0\<rparr>;
                         s = s\<lparr>unknown_cells_peak :=
                                 max (unknown_cells_peak s) (max 0 (unknown_cells_total s))\<rparr>
                     in if unknown_cells_peak s > 0
                        then s\<lparr>completion_ratio := Clamp01
                                (1 - real_of_int (unknown_cells_total s) / real_of_int (unknown_cells_peak s))\<rparr>
                        else s)
               else s);
          s = (if length data \<ge> 2 then s\<lparr>frontier_cluster_count_metric := data ! 1\<rparr> else s);
          s = (if length data \<ge> 3 then s\<lparr>frontier_cell_count_metric := data ! 2\<rparr> else s)
      in if length data \<ge> 4 then s\<lparr>active_grid_count := data ! 3\<rparr> else s)"

section \<open>Decoding a snapshot\<close>

definition resolveEventTimeUs :: "RxEvent \<Rightarrow> 64 word \<Rightarrow> 64 word" where
  "resolveEventTimeUs event snapshot_window_end_us =
     (if re_rx_time_us event \<noteq> 0 then re_rx_time_us event
      else if re_tx_time_us event \<noteq> 0 \<and> re_delay_us event \<noteq> 0
      then re_tx_time_us event + re_delay_us event
      else if snapshot_window_end_us \<noteq> 0 then snapshot_window_end_us
      else re_tx_time_us event)"

definition computeEdgeQuality :: "RxEvent \<Rightarrow> real \<Rightarrow> real" where
  "computeEdgeQuality event delay_sec =
     (let quality = (if delay_sec > 0 then 1 / (1 + 10 * delay_sec) else 1);
          quality = (if re_rssi_dbm_x10 event \<noteq> 0
                     then quality + 1 / 1000 * real_of_int (re_rssi_dbm_x10 event + 900) else quality)
      in Clamp01 quality)"

text \<open>The candidate replaces the link's state if it is later, or as late and of better quality.\<close>

definition fresher :: "DirectedEdgeState \<Rightarrow> DirectedEdgeState option \<Rightarrow> bool" where
  "fresher candidate existing =
     (case existing of
        None \<Rightarrow> True
      | Some e \<Rightarrow> de_last_rx_time_us candidate > de_last_rx_time_us e \<or>
          (de_last_rx_time_us candidate = de_last_rx_time_us e \<and> de_quality candidate > de_quality e))"

definition event_edge :: "RxEvent \<Rightarrow> 64 word \<Rightarrow> DirectedEdgeState" where
  "event_edge event window_end_us =
     (let delay_sec = real (unat (re_delay_us event)) / 1000000 in
      \<lparr>de_last_rx_time_us = resolveEventTimeUs event window_end_us,
       de_quality = computeEdgeQuality event delay_sec, de_delay_sec = delay_sec\<rparr>)"

definition decode_event :: "int \<Rightarrow> 64 word \<Rightarrow> RxEvent \<Rightarrow> CommSnapshot \<Rightarrow> CommSnapshot" where
  "decode_event offset window_end_us event snapshot =
     (let src_id = RacerIdFromPlatformId (sint (re_src_id event)) offset;
          dst_id = RacerIdFromPlatformId (sint (re_dst_id event)) offset in
      if src_id \<le> 0 \<or> dst_id \<le> 0 then snapshot
      else
        let snapshot = snapshot\<lparr>cs_observed_agent_ids :=
              List.insert dst_id (List.insert src_id (cs_observed_agent_ids snapshot))\<rparr>;
            candidate = event_edge event window_end_us;
            snapshot = (if de_last_rx_time_us candidate > 0
                        then snapshot\<lparr>cs_horizon_time_us :=
                               max (cs_horizon_time_us snapshot) (de_last_rx_time_us candidate)\<rparr>
                        else snapshot);
            edge_key = DirectedKey src_id dst_id
        in if fresher candidate (map_of (cs_edges snapshot) edge_key)
           then snapshot\<lparr>cs_edges := AList.update edge_key candidate (cs_edges snapshot)\<rparr>
           else snapshot)"

text \<open>\<open>parse\<close> stands for the generated \<open>ParseFromArray\<close>; \<open>None\<close> is its failure.\<close>

definition decodeCommSnapshot ::
  "(8 word list \<Rightarrow> NetRxEventsPayload option) \<Rightarrow> int \<Rightarrow> 8 word list \<Rightarrow> CommSnapshot option" where
  "decodeCommSnapshot parse offset bytes =
     (if bytes = [] then None
      else
        (case parse bytes of
           None \<Rightarrow> None
         | Some payload \<Rightarrow>
             let window_end_us = np_t_window_end_us payload;
                 snapshot = fold (decode_event offset window_end_us) (np_events payload)
                   \<lparr>cs_horizon_time_us = window_end_us, cs_edges = [], cs_observed_agent_ids = []\<rparr>
             in if cs_horizon_time_us snapshot = 0 then None else Some snapshot))"

section \<open>Applying a snapshot\<close>

definition applyCommSnapshot ::
  "CommSnapshot \<Rightarrow> InputSource \<Rightarrow> bool \<Rightarrow> time \<Rightarrow> cc_state \<Rightarrow> bool \<times> cc_state" where
  "applyCommSnapshot snapshot source replace_graph now s =
     (if cs_horizon_time_us snapshot = 0 \<or> cs_horizon_time_us snapshot \<le> latest_comm_horizon_us s
      then (False, s)
      else
        let s = (if replace_graph then s\<lparr>directed_edges := [], latest_link_up := []\<rparr> else s);
            s = s\<lparr>latest_comm_horizon_us := cs_horizon_time_us snapshot\<rparr>;
            s = fold (\<lambda>agent_id. cc_noteObservedAgent agent_id now) (sort (cs_observed_agent_ids snapshot)) s;
            s = s\<lparr>directed_edges :=
                    fold (\<lambda>(key, e). AList.update key e) (cs_edges snapshot) (directed_edges s)\<rparr>;
            s = (if source = kServiceChain
                 then s\<lparr>last_service_snapshot_horizon_us := cs_horizon_time_us snapshot,
                        last_fresh_service_snapshot_wall_time := now\<rparr>
                 else if source = kRawTopic
                 then s\<lparr>last_raw_snapshot_horizon_us := cs_horizon_time_us snapshot\<rparr>
                 else s)
        in (True, s))"

text \<open>The only call passes a snapshot.\<close>

definition shouldPreferServiceInput :: "cc_params \<Rightarrow> time \<Rightarrow> CommSnapshot \<Rightarrow> cc_state \<Rightarrow> bool" where
  "shouldPreferServiceInput p now incoming_snapshot s =
     (if \<not> prefer_service_input p \<or> last_fresh_service_snapshot_wall_time s = 0 then False
      else if now - last_fresh_service_snapshot_wall_time s > service_input_timeout_sec p then False
      else if cs_horizon_time_us incoming_snapshot > 0 \<and>
              cs_horizon_time_us incoming_snapshot > last_service_snapshot_horizon_us s then False
      else True)"

section \<open>Removing stale state\<close>

text \<open>The age of a link against the latest horizon; \<open>None\<close> is infinity.\<close>

definition link_age :: "64 word \<Rightarrow> DirectedEdgeState \<Rightarrow> real option" where
  "link_age horizon e =
     (if horizon = 0 \<or> de_last_rx_time_us e = 0 then None
      else if horizon \<le> de_last_rx_time_us e then Some 0
      else Some (real (unat (horizon - de_last_rx_time_us e)) / 1000000))"

definition observation_expired :: "cc_params \<Rightarrow> time \<Rightarrow> time \<Rightarrow> bool" where
  "observation_expired p now t \<longleftrightarrow>
     observed_agent_retention_sec p > 0 \<and> t \<noteq> 0 \<and> now - t > observed_agent_retention_sec p"

definition agent_expired :: "cc_params \<Rightarrow> time \<Rightarrow> AgentCacheEntry \<Rightarrow> bool" where
  "agent_expired p now e \<longleftrightarrow>
     agent_cache_timeout_sec p > 0 \<and> ac_stamp e \<noteq> 0 \<and> now - ac_stamp e > agent_cache_timeout_sec p"

definition edge_too_old :: "cc_params \<Rightarrow> 64 word \<Rightarrow> DirectedEdgeState \<Rightarrow> bool" where
  "edge_too_old p horizon e \<longleftrightarrow>
     edge_state_prune_age_sec p > 0 \<and> horizon > 0 \<and>
     (case link_age horizon e of None \<Rightarrow> True | Some age \<Rightarrow> age > edge_state_prune_age_sec p)"

definition key_touches :: "int list \<Rightarrow> 64 word \<Rightarrow> bool" where
  "key_touches ids key \<longleftrightarrow> DirectedKeySrc key \<in> set ids \<or> DirectedKeyDst key \<in> set ids"

definition pruneStaleState :: "cc_params \<Rightarrow> time \<Rightarrow> cc_state \<Rightarrow> cc_state" where
  "pruneStaleState p now s =
     (let pruned = map fst (filter (\<lambda>e. observation_expired p now (snd e)) (agent_last_observed_wall_time s)) in
      s\<lparr>agent_last_observed_wall_time :=
          prune (observation_expired p now) (agent_last_observed_wall_time s),
        observed_agent_ids := filter (\<lambda>i. i \<notin> set pruned) (observed_agent_ids s),
        latest_components := filter (\<lambda>e. fst e \<notin> set pruned) (latest_components s),
        agent_cache := prune (agent_expired p now) (filter (\<lambda>e. fst e \<notin> set pruned) (agent_cache s)),
        directed_edges := filter (\<lambda>e. \<not> (key_touches pruned (fst e) \<or>
            edge_too_old p (latest_comm_horizon_us s) (snd e))) (directed_edges s),
        latest_link_up := filter (\<lambda>e. \<not> key_touches pruned (fst e)) (latest_link_up s)\<rparr>)"

interpretation observations: expiring_cache "observation_expired p" for p
  by unfold_locales (auto simp: observation_expired_def)

interpretation agents: expiring_cache "agent_expired p" for p
  by unfold_locales (auto simp: agent_expired_def)

end
