(* ===== verification/Comm_Links.thy ===== *)
theory Comm_Links imports Comm_Snapshot
begin

text \<open>
  What holds of the input side of the central controller: the packing of a link into one key loses
  nothing, a snapshot keeps the freshest event of each link, only snapshots with a later horizon
  change the link store, and the task metrics keep the completion ratio between zero and one.
\<close>

section \<open>Link keys\<close>

definition int32 :: "int \<Rightarrow> bool" where
  "int32 i \<longleftrightarrow> - (2 ^ 31) \<le> i \<and> i < 2 ^ 31"

lemma sint_word32: "int32 i \<Longrightarrow> sint (word_of_int i :: 32 word) = i"
  by (simp add: int32_def signed_take_bit_int_eq_self signed_of_int)

lemma DirectedKeyDst_key: "int32 d \<Longrightarrow> DirectedKeyDst (DirectedKey s d) = d"
proof -
  assume d: "int32 d"
  have "ucast (DirectedKey s d) = (word_of_int d :: 32 word)"
    by (rule bit_word_eqI) (simp add: DirectedKey_def bit_simps)
  with d show ?thesis by (simp add: DirectedKeyDst_def sint_word32)
qed

lemma DirectedKeySrc_key: "int32 s \<Longrightarrow> DirectedKeySrc (DirectedKey s d) = s"
proof -
  assume s: "int32 s"
  have "ucast (signed_drop_bit 32 (DirectedKey s d)) = (word_of_int s :: 32 word)"
    by (rule bit_word_eqI) (auto simp: DirectedKey_def bit_simps)
  with s show ?thesis by (simp add: DirectedKeySrc_def sint_word32)
qed

lemma DirectedKey_inj:
  assumes "int32 s" "int32 d" "int32 s'" "int32 d'" and "DirectedKey s d = DirectedKey s' d'"
  shows "s = s' \<and> d = d'"
  using assms DirectedKeySrc_key DirectedKeyDst_key by metis

section \<open>Decoding\<close>

text \<open>The states of the links that the events of a batch report for one key, in order.\<close>

definition event_src :: "int \<Rightarrow> RxEvent \<Rightarrow> int" where
  "event_src offset e = RacerIdFromPlatformId (sint (re_src_id e)) offset"

definition event_dst :: "int \<Rightarrow> RxEvent \<Rightarrow> int" where
  "event_dst offset e = RacerIdFromPlatformId (sint (re_dst_id e)) offset"

definition reports :: "int \<Rightarrow> 64 word \<Rightarrow> RxEvent \<Rightarrow> bool" where
  "reports offset key e \<longleftrightarrow> 0 < event_src offset e \<and> 0 < event_dst offset e \<and>
     DirectedKey (event_src offset e) (event_dst offset e) = key"

definition reported :: "int \<Rightarrow> 64 word \<Rightarrow> RxEvent list \<Rightarrow> 64 word \<Rightarrow> DirectedEdgeState list" where
  "reported offset window events key = map (\<lambda>e. event_edge e window) (filter (reports offset key) events)"

definition at_most_as_fresh :: "DirectedEdgeState \<Rightarrow> DirectedEdgeState \<Rightarrow> bool" where
  "at_most_as_fresh a b \<longleftrightarrow> de_last_rx_time_us a < de_last_rx_time_us b \<or>
     (de_last_rx_time_us a = de_last_rx_time_us b \<and> de_quality a \<le> de_quality b)"

definition freshest :: "DirectedEdgeState list \<Rightarrow> DirectedEdgeState option \<Rightarrow> bool" where
  "freshest es best =
     (case best of None \<Rightarrow> es = [] | Some b \<Rightarrow> b \<in> set es \<and> (\<forall>e \<in> set es. at_most_as_fresh e b))"

lemma at_most_as_fresh_refl [simp]: "at_most_as_fresh e e"
  by (simp add: at_most_as_fresh_def)

lemma at_most_as_fresh_trans:
  "at_most_as_fresh a b \<Longrightarrow> at_most_as_fresh b c \<Longrightarrow> at_most_as_fresh a c"
  by (auto simp: at_most_as_fresh_def)

lemma not_fresher: "fresher c (Some e) \<longleftrightarrow> \<not> at_most_as_fresh c e"
  by (auto simp: fresher_def at_most_as_fresh_def)

lemma at_most_as_fresh_linear: "at_most_as_fresh a b \<or> at_most_as_fresh b a"
  by (auto simp: at_most_as_fresh_def)

lemma freshest_snoc:
  assumes "freshest es best"
  shows "freshest (es @ [c]) (if fresher c best then Some c else best)"
proof (cases best)
  case None
  with assms show ?thesis by (simp add: freshest_def fresher_def)
next
  case (Some b)
  with assms have b: "b \<in> set es" "\<forall>e \<in> set es. at_most_as_fresh e b" by (auto simp: freshest_def)
  show ?thesis
  proof (cases "fresher c best")
    case True
    with Some have "at_most_as_fresh b c" using at_most_as_fresh_linear not_fresher by blast
    with b True show ?thesis by (auto simp: freshest_def intro: at_most_as_fresh_trans)
  next
    case False
    with Some b show ?thesis by (auto simp: freshest_def not_fresher)
  qed
qed

definition decode_ok :: "int \<Rightarrow> 64 word \<Rightarrow> RxEvent list \<Rightarrow> CommSnapshot \<Rightarrow> bool" where
  "decode_ok offset window events snap \<longleftrightarrow>
     distinct_keys (cs_edges snap) \<and>
     (\<forall>key. freshest (reported offset window events key) (map_of (cs_edges snap) key)) \<and>
     (\<forall>key e. map_of (cs_edges snap) key = Some e \<longrightarrow>
        de_last_rx_time_us e \<le> cs_horizon_time_us snap) \<and>
     window \<le> cs_horizon_time_us snap \<and> (\<forall>i \<in> set (cs_observed_agent_ids snap). 0 < i)"

lemma decode_event_skip:
  "\<not> (0 < event_src offset e \<and> 0 < event_dst offset e) \<Longrightarrow> decode_event offset w e snap = snap"
  by (auto simp: decode_event_def event_src_def event_dst_def Let_def)

lemma decode_event_fields:
  assumes "0 < event_src offset e" and "0 < event_dst offset e"
  defines "key \<equiv> DirectedKey (event_src offset e) (event_dst offset e)"
  shows "cs_edges (decode_event offset w e snap) =
      (if fresher (event_edge e w) (map_of (cs_edges snap) key)
       then AList.update key (event_edge e w) (cs_edges snap) else cs_edges snap)"
    and "cs_horizon_time_us (decode_event offset w e snap) =
      max (cs_horizon_time_us snap) (de_last_rx_time_us (event_edge e w))"
    and "set (cs_observed_agent_ids (decode_event offset w e snap)) =
      insert (event_dst offset e) (insert (event_src offset e) (set (cs_observed_agent_ids snap)))"
  using assms
  by (simp_all add: decode_event_def event_src_def event_dst_def Let_def word_gt_0 max_def)

lemma decode_ok_event:
  assumes "decode_ok offset w events snap"
  shows "decode_ok offset w (events @ [e]) (decode_event offset w e snap)"
proof (cases "0 < event_src offset e \<and> 0 < event_dst offset e")
  case False
  then have "\<not> reports offset key e" for key by (auto simp: reports_def)
  with assms decode_event_skip [OF False] show ?thesis by (simp add: decode_ok_def reported_def)
next
  case True
  let ?key = "DirectedKey (event_src offset e) (event_dst offset e)"
  let ?s = "decode_event offset w e snap"
  note eq = decode_event_fields [OF True [THEN conjunct1] True [THEN conjunct2]]
  have rep: "reports offset key e \<longleftrightarrow> key = ?key" for key using True by (auto simp: reports_def)
  have lookup: "map_of (cs_edges ?s) key =
      (if key = ?key then (if fresher (event_edge e w) (map_of (cs_edges snap) key)
         then Some (event_edge e w) else map_of (cs_edges snap) key) else map_of (cs_edges snap) key)" for key
    by (simp add: eq(1) umap_simps)
  have fresh: "freshest (reported offset w events key) (map_of (cs_edges snap) key)" for key
    using assms by (simp add: decode_ok_def)
  have app: "reported offset w (events @ [e]) key =
      (if key = ?key then reported offset w events key @ [event_edge e w] else reported offset w events key)" for key
    by (simp add: reported_def rep)
  have "freshest (reported offset w (events @ [e]) key) (map_of (cs_edges ?s) key)" for key
    using fresh [of key] freshest_snoc [OF fresh [of key], of "event_edge e w"]
    unfolding app lookup by (cases "key = ?key") (simp_all split: if_splits)
  moreover have "distinct_keys (cs_edges ?s)"
    using assms by (auto simp: eq(1) decode_ok_def intro: keys_intros)
  moreover have "de_last_rx_time_us x \<le> cs_horizon_time_us ?s" if "map_of (cs_edges ?s) key = Some x" for key x
    using that assms by (auto simp: lookup eq(2) decode_ok_def max.coboundedI1 split: if_splits)
  moreover have "w \<le> cs_horizon_time_us ?s" "\<forall>i \<in> set (cs_observed_agent_ids ?s). 0 < i"
    using assms True by (auto simp: eq(2,3) decode_ok_def max.coboundedI1)
  ultimately show ?thesis unfolding decode_ok_def by blast
qed

lemma decode_ok_fold:
  "decode_ok offset w events
     (fold (decode_event offset w) events \<lparr>cs_horizon_time_us = w, cs_edges = [], cs_observed_agent_ids = []\<rparr>)"
proof (induction events rule: rev_induct)
  case Nil
  show ?case by (simp add: decode_ok_def reported_def freshest_def)
next
  case (snoc e events)
  then show ?case by (simp add: decode_ok_event)
qed

lemma decodeCommSnapshot_ok:
  assumes "decodeCommSnapshot parse offset bytes = Some snap"
  shows "\<exists>payload. parse bytes = Some payload \<and> cs_horizon_time_us snap \<noteq> 0 \<and>
    decode_ok offset (np_t_window_end_us payload) (np_events payload) snap"
  using assms decode_ok_fold by (auto simp: decodeCommSnapshot_def Let_def split: if_splits option.splits)

section \<open>Applying\<close>

lemma noteObserved_fields [simp]:
  "latest_comm_horizon_us (cc_noteObservedAgent i now s) = latest_comm_horizon_us s"
  "directed_edges (cc_noteObservedAgent i now s) = directed_edges s"
  "latest_link_up (cc_noteObservedAgent i now s) = latest_link_up s"
  "latest_components (cc_noteObservedAgent i now s) = latest_components s"
  "agent_cache (cc_noteObservedAgent i now s) = agent_cache s"
  by (simp_all add: cc_noteObservedAgent_def)

lemma noteObserved_fold [simp]:
  "latest_comm_horizon_us (fold (\<lambda>i. cc_noteObservedAgent i now) is' s) = latest_comm_horizon_us s"
  "directed_edges (fold (\<lambda>i. cc_noteObservedAgent i now) is' s) = directed_edges s"
  by (induction is' arbitrary: s) simp_all

lemma map_of_fold_update:
  assumes "distinct_keys kvs"
  shows "map_of (fold (\<lambda>(k, v). AList.update k v) kvs m) k =
    (case map_of kvs k of None \<Rightarrow> map_of m k | Some v \<Rightarrow> Some v)"
  using assms
proof (induction kvs arbitrary: m)
  case Nil
  then show ?case by simp
next
  case (Cons kv kvs)
  obtain a b where ab: "kv = (a, b)" by fastforce
  have "k = a \<Longrightarrow> map_of kvs k = None" using Cons.prems ab by (auto simp: map_of_eq_None_iff)
  with Cons ab show ?case by (auto simp: umap_simps split: option.splits)
qed

lemma applyCommSnapshot_horizon:
  "fst (applyCommSnapshot snap src replace now s) \<longleftrightarrow>
     cs_horizon_time_us snap \<noteq> 0 \<and> latest_comm_horizon_us s < cs_horizon_time_us snap"
  "latest_comm_horizon_us (snd (applyCommSnapshot snap src replace now s)) =
     max (latest_comm_horizon_us s) (cs_horizon_time_us snap)"
  by (cases "cs_horizon_time_us snap = 0"; auto simp: applyCommSnapshot_def Let_def max_def not_le)+

lemma applyCommSnapshot_rejected:
  "\<not> fst (applyCommSnapshot snap src replace now s) \<Longrightarrow>
   snd (applyCommSnapshot snap src replace now s) = s"
  by (auto simp: applyCommSnapshot_def Let_def split: if_splits)

lemma applyCommSnapshot_links:
  assumes "fst (applyCommSnapshot snap src replace now s)" and "distinct_keys (cs_edges snap)"
  shows "map_of (directed_edges (snd (applyCommSnapshot snap src replace now s))) key =
    (case map_of (cs_edges snap) key of
       Some e \<Rightarrow> Some e
     | None \<Rightarrow> if replace then None else map_of (directed_edges s) key)"
  using assms map_of_fold_update [OF assms(2)]
  by (auto simp: applyCommSnapshot_def Let_def split: if_splits option.splits)

section \<open>Task metrics\<close>

definition metrics_ok :: "cc_state \<Rightarrow> bool" where
  "metrics_ok s \<longleftrightarrow> 0 \<le> completion_ratio s \<and> completion_ratio s \<le> 1 \<and> 0 \<le> unknown_cells_peak s \<and>
     unknown_cells_total s \<le> unknown_cells_peak s"

lemma metrics_ok_init: "metrics_ok cc_init"
  by (simp add: metrics_ok_def cc_init_def)

lemma metrics_ok_task: "metrics_ok s \<Longrightarrow> metrics_ok (taskMetricsCallback data s)"
  by (auto simp: metrics_ok_def taskMetricsCallback_def Let_def)

lemma taskMetrics_peak_mono: "unknown_cells_peak s \<le> unknown_cells_peak (taskMetricsCallback data s)"
  by (auto simp: taskMetricsCallback_def Let_def)

end
