(* ===== verification/Comm_Graph.thy ===== *)
theory Comm_Graph imports Comm_Links
begin

text \<open>
  The communication graph of the central controller (\<open>updateCommGraph\<close>): directed links with
  hysteresis, the undirected adjacency lists, the depth-first search with an explicit stack that
  numbers the connected components, and the connected/fragmented timers. The search is proved to
  label two agents alike exactly when links connect them.
\<close>

section \<open>Adjacency lists and the search\<close>

type_synonym adjacency = "int list umap"

text \<open>\<open>adjacency[k]\<close>, empty for a missing key.\<close>

definition nbrs :: "adjacency \<Rightarrow> int \<Rightarrow> int list" where
  "nbrs adj k = (case map_of adj k of None \<Rightarrow> [] | Some ns \<Rightarrow> ns)"

definition push_nbr :: "int \<Rightarrow> int \<Rightarrow> adjacency \<Rightarrow> adjacency" where
  "push_nbr k v adj = AList.update k (nbrs adj k @ [v]) adj"

text \<open>The pairs of the double loop over \<open>i < j\<close>.\<close>

fun pairs :: "'a list \<Rightarrow> ('a \<times> 'a) list" where
  "pairs [] = []"
| "pairs (x # xs) = map (Pair x) xs @ pairs xs"

definition add_link :: "(int \<Rightarrow> int \<Rightarrow> bool) \<Rightarrow> int \<times> int \<Rightarrow> adjacency \<Rightarrow> adjacency" where
  "add_link linked pair adj =
     (case pair of (lhs, rhs) \<Rightarrow>
        if linked lhs rhs then push_nbr rhs lhs (push_nbr lhs rhs adj) else adj)"

definition build_adjacency :: "(int \<Rightarrow> int \<Rightarrow> bool) \<Rightarrow> int list \<Rightarrow> adjacency" where
  "build_adjacency linked agent_ids =
     fold (add_link linked) (pairs agent_ids) (map (\<lambda>i. (i, [])) agent_ids)"

text \<open>
  The inner loop. The stack is a list with its top first (the loop pushes the unvisited neighbours
  in order, so the last one is on top); \<open>visited\<close> and \<open>components\<close> grow together.
\<close>

function dfs :: "adjacency \<Rightarrow> int \<Rightarrow> int list \<Rightarrow> int list \<Rightarrow> int umap \<Rightarrow> int list \<times> int umap" where
  "dfs adj component_id [] visited components = (visited, components)"
| "dfs adj component_id (current # stack) visited components =
     (if current \<in> set visited then dfs adj component_id stack visited components
      else
        let visited' = current # visited in
        dfs adj component_id (rev (filter (\<lambda>n. n \<notin> set visited') (nbrs adj current)) @ stack)
          visited' (AList.update current component_id components))"
  by pat_completeness auto

text \<open>Every round visits one more agent with neighbours, or shortens the stack.\<close>

lemma nbrs_no_key: "k \<notin> fst ` set adj \<Longrightarrow> nbrs adj k = []"
  unfolding nbrs_def by (metis map_of_eq_None_iff option.case(1))

termination dfs
proof (relation "(\<lambda>(adj, _, stack, visited, _). card (fst ` set adj - set visited)) <*mlex*>
    measure (\<lambda>(_, _, stack, _, _). length stack)", goal_cases)
  case 1
  show ?case by (simp add: wf_mlex)
next
  case (2 adj c current stack visited comps)
  then show ?case by (auto simp: mlex_prod_def)
next
  case (3 adj c current stack visited comps v')
  have sub: "fst ` set adj - set v' \<subseteq> fst ` set adj - set visited" using 3 by auto
  show ?case
  proof (cases "current \<in> fst ` set adj")
    case True
    with 3 have "fst ` set adj - set v' \<subset> fst ` set adj - set visited" by auto
    then have "card (fst ` set adj - set v') < card (fst ` set adj - set visited)"
      by (intro psubset_card_mono) auto
    then show ?thesis by (auto simp: mlex_prod_def)
  next
    case False
    then have "fst ` set adj - set v' = fst ` set adj - set visited" using 3 by auto
    with nbrs_no_key [OF False] show ?thesis by (auto simp: mlex_prod_def)
  qed
qed

text \<open>The outer loop: \<open>(visited, components, component_id)\<close>.\<close>

definition component_step ::
  "adjacency \<Rightarrow> int \<Rightarrow> int list \<times> int umap \<times> int \<Rightarrow> int list \<times> int umap \<times> int" where
  "component_step adj agent_id acc =
     (case acc of (visited, components, component_id) \<Rightarrow>
        if agent_id \<in> set visited then acc
        else (case dfs adj (component_id + 1) [agent_id] visited components of
                (visited', components') \<Rightarrow> (visited', components', component_id + 1)))"

definition components_of :: "adjacency \<Rightarrow> int list \<Rightarrow> int list \<times> int umap \<times> int" where
  "components_of adj agent_ids = fold (component_step adj) agent_ids ([], [], 0)"

section \<open>One search\<close>

definition edge_rel :: "adjacency \<Rightarrow> (int \<times> int) set" where
  "edge_rel adj = {(a, b). b \<in> set (nbrs adj a)}"

text \<open>What a search returns: it visits everything on the stack, is closed under edges, reaches
  nothing that the stack does not reach, and labels exactly the newly visited agents.\<close>

lemma dfs_visited:
  "dfs adj c stack visited comps = (visited', comps') \<Longrightarrow>
   set visited \<subseteq> set visited' \<and> set stack \<subseteq> set visited'"
proof (induction adj c stack visited comps rule: dfs.induct)
  case (2 adj c current stack visited comps)
  then show ?case by (cases "current \<in> set visited") (auto simp: Let_def)
qed auto

lemma dfs_closed:
  "dfs adj c stack visited comps = (visited', comps') \<Longrightarrow>
   \<forall>v \<in> set visited' - set visited. set (nbrs adj v) \<subseteq> set visited'"
proof (induction adj c stack visited comps rule: dfs.induct)
  case (2 adj c current stack visited comps)
  show ?case
  proof (cases "current \<in> set visited")
    case True
    with 2 show ?thesis by auto
  next
    case False
    let ?st = "rev (filter (\<lambda>n. n \<notin> set (current # visited)) (nbrs adj current)) @ stack"
    have run: "dfs adj c ?st (current # visited) (AList.update current c comps) = (visited', comps')"
      using 2(3) False by (simp add: Let_def)
    have ih: "\<forall>v \<in> set visited' - set (current # visited). set (nbrs adj v) \<subseteq> set visited'"
      using 2(2) [OF False refl run] .
    have "set (current # visited) \<union> set ?st \<subseteq> set visited'" using dfs_visited [OF run] by blast
    then have "set (nbrs adj current) \<subseteq> set visited'" by auto
    with ih show ?thesis by auto
  qed
qed auto

lemma dfs_reach:
  "dfs adj c stack visited comps = (visited', comps') \<Longrightarrow> v \<in> set visited' - set visited \<Longrightarrow>
   \<exists>s \<in> set stack. (s, v) \<in> (edge_rel adj)\<^sup>*"
proof (induction adj c stack visited comps arbitrary: v rule: dfs.induct)
  case (2 adj c current stack visited comps)
  show ?case
  proof (cases "current \<in> set visited")
    case True
    with 2 show ?thesis by auto
  next
    case False
    let ?st = "rev (filter (\<lambda>n. n \<notin> set (current # visited)) (nbrs adj current)) @ stack"
    have run: "dfs adj c ?st (current # visited) (AList.update current c comps) = (visited', comps')"
      using 2(3) False by (simp add: Let_def)
    show ?thesis
    proof (cases "v = current")
      case False
      with 2(4) have "v \<in> set visited' - set (current # visited)" by auto
      from 2(2) [OF \<open>current \<notin> set visited\<close> refl run this] obtain s
        where s: "s \<in> set ?st" "(s, v) \<in> (edge_rel adj)\<^sup>*" by blast
      then consider "s \<in> set stack" | "(current, s) \<in> edge_rel adj" by (auto simp: edge_rel_def)
      then show ?thesis
        using s(2) by cases (auto intro: converse_rtrancl_into_rtrancl)
    qed auto
  qed
qed auto

lemma dfs_labels:
  "dfs adj c stack visited comps = (visited', comps') \<Longrightarrow>
   map_of comps' v = (if v \<in> set visited' - set visited then Some c else map_of comps v)"
proof (induction adj c stack visited comps rule: dfs.induct)
  case (2 adj c current stack visited comps)
  show ?case
  proof (cases "current \<in> set visited")
    case True
    with 2 show ?thesis by simp
  next
    case False
    let ?st = "rev (filter (\<lambda>n. n \<notin> set (current # visited)) (nbrs adj current)) @ stack"
    have run: "dfs adj c ?st (current # visited) (AList.update current c comps) = (visited', comps')"
      using 2(3) False by (simp add: Let_def)
    have "current \<in> set visited'" using dfs_visited [OF run] by auto
    with 2(2) [OF False refl run] False show ?thesis by (auto simp: umap_simps)
  qed
qed auto

lemma dfs_keys:
  "dfs adj c stack visited comps = (visited', comps') \<Longrightarrow> distinct_keys comps \<Longrightarrow> distinct_keys comps'"
  by (induction adj c stack visited comps rule: dfs.induct)
    (auto simp: Let_def intro: keys_intros split: if_splits)

section \<open>All searches\<close>

definition connected :: "adjacency \<Rightarrow> int \<Rightarrow> int \<Rightarrow> bool" where
  "connected adj a b \<longleftrightarrow> (a, b) \<in> (edge_rel adj)\<^sup>*"

text \<open>The state of the outer loop: the visited agents are a union of components, and the labels
  \<open>1 .. n\<close> tell those components apart.\<close>

definition labels_ok :: "adjacency \<Rightarrow> int list \<times> int umap \<times> int \<Rightarrow> bool" where
  "labels_ok adj acc \<longleftrightarrow>
     (case acc of (visited, comps, n) \<Rightarrow>
        (\<forall>v \<in> set visited. set (nbrs adj v) \<subseteq> set visited) \<and>
        (\<forall>v. map_of comps v \<noteq> None \<longleftrightarrow> v \<in> set visited) \<and>
        (\<forall>a \<in> set visited. \<forall>b \<in> set visited. map_of comps a = map_of comps b \<longleftrightarrow> connected adj a b) \<and>
        (\<forall>v l. map_of comps v = Some l \<longrightarrow> 1 \<le> l \<and> l \<le> n) \<and>
        (\<forall>l. 1 \<le> l \<and> l \<le> n \<longrightarrow> (\<exists>v. map_of comps v = Some l)) \<and>
        0 \<le> n \<and> distinct_keys comps)"

locale symmetric_graph =
  fixes adj :: adjacency
  assumes nbrs_sym: "b \<in> set (nbrs adj a) \<Longrightarrow> a \<in> set (nbrs adj b)"
begin

lemma connected_sym: "connected adj a b \<Longrightarrow> connected adj b a"
proof -
  have "sym (edge_rel adj)" by (auto simp: sym_def edge_rel_def intro: nbrs_sym)
  then show "connected adj a b \<Longrightarrow> connected adj b a"
    unfolding connected_def by (metis sym_rtrancl symD)
qed

lemma connected_closed:
  assumes "\<forall>v \<in> V. set (nbrs adj v) \<subseteq> V" and "connected adj a b" and "a \<in> V"
  shows "b \<in> V"
  using assms(2,3) unfolding connected_def
proof (induction rule: rtrancl_induct)
  case (step y z)
  with assms(1) show ?case by (auto simp: edge_rel_def)
qed auto

lemma component_step_ok:
  assumes ok: "labels_ok adj (visited, comps, n)" and new: "a \<notin> set visited"
    and run: "dfs adj (n + 1) [a] visited comps = (visited', comps')"
  shows "labels_ok adj (visited', comps', n + 1)"
proof -
  let ?V = "set visited" and ?V' = "set visited'"
  note lab = dfs_labels [OF run]
  have closed: "\<forall>v \<in> ?V. set (nbrs adj v) \<subseteq> ?V" and dom: "\<And>v. map_of comps v \<noteq> None \<longleftrightarrow> v \<in> ?V"
    and old: "\<And>x y. x \<in> ?V \<Longrightarrow> y \<in> ?V \<Longrightarrow> map_of comps x = map_of comps y \<longleftrightarrow> connected adj x y"
    and range: "\<And>v l. map_of comps v = Some l \<Longrightarrow> 1 \<le> l \<and> l \<le> n"
    and onto: "\<And>l. 1 \<le> l \<Longrightarrow> l \<le> n \<Longrightarrow> \<exists>v. map_of comps v = Some l"
    and n: "0 \<le> n" and keys: "distinct_keys comps"
    using ok by (auto simp: labels_ok_def)
  have sub: "?V \<subseteq> ?V'" and a: "a \<in> ?V'" using dfs_visited [OF run] by auto
  have from_a: "connected adj a v" if "v \<in> ?V' - ?V" for v
    using dfs_reach [OF run that] by (simp add: connected_def)
  have closed': "\<forall>v \<in> ?V'. set (nbrs adj v) \<subseteq> ?V'" using dfs_closed [OF run] closed sub by blast
  have new_new: "connected adj x y" if "x \<in> ?V' - ?V" "y \<in> ?V' - ?V" for x y
    using from_a [OF that(1)] from_a [OF that(2)] connected_sym
    unfolding connected_def by (meson rtrancl_trans)
  have apart: "\<not> connected adj x y \<and> \<not> connected adj y x" if "x \<in> ?V" "y \<in> ?V' - ?V" for x y
    using that connected_closed [OF closed] connected_sym by blast
  have new_label: "map_of comps' x = Some (n + 1)" if "x \<in> ?V' - ?V" for x using that lab by simp
  have old_label: "map_of comps' x = map_of comps x \<and> map_of comps x \<noteq> Some (n + 1)" if "x \<in> ?V" for x
    using that lab range [of x "n + 1"] by auto
  have "map_of comps' x = map_of comps' y \<longleftrightarrow> connected adj x y" if "x \<in> ?V'" "y \<in> ?V'" for x y
  proof (cases "x \<in> ?V"; cases "y \<in> ?V")
    assume "x \<in> ?V" "y \<in> ?V"
    with old old_label show ?thesis by simp
  next
    assume "x \<in> ?V" "y \<notin> ?V"
    with that apart [of x y] old_label [of x] new_label [of y] show ?thesis by auto
  next
    assume "x \<notin> ?V" "y \<in> ?V"
    with that apart [of y x] old_label [of y] new_label [of x] show ?thesis by auto
  next
    assume "x \<notin> ?V" "y \<notin> ?V"
    with that new_new new_label show ?thesis by simp
  qed
  moreover have "map_of comps' v \<noteq> None \<longleftrightarrow> v \<in> ?V'" for v
    using dom [of v] sub by (auto simp: lab)
  moreover have "1 \<le> l \<and> l \<le> n + 1" if "map_of comps' v = Some l" for v l
    using that range [of v l] n by (auto simp: lab split: if_splits)
  moreover have "\<exists>v. map_of comps' v = Some l" if "1 \<le> l" "l \<le> n + 1" for l
  proof (cases "l = n + 1")
    case True
    with new_label [of a] a new show ?thesis by blast
  next
    case False
    with that onto obtain v where "map_of comps v = Some l" by force
    moreover from this dom [of v] have "v \<in> ?V" by auto
    ultimately show ?thesis using old_label by metis
  qed
  moreover have "distinct_keys comps'" by (rule dfs_keys [OF run keys])
  ultimately show ?thesis using closed' n by (auto simp: labels_ok_def)
qed

lemma components_of_ok: "labels_ok adj (components_of adj ids)"
proof (induction ids rule: rev_induct)
  case Nil
  show ?case by (simp add: components_of_def labels_ok_def)
next
  case (snoc a ids)
  obtain visited comps n where acc: "components_of adj ids = (visited, comps, n)"
    by (cases "components_of adj ids") auto
  obtain visited' comps' where run: "dfs adj (n + 1) [a] visited comps = (visited', comps')" by fastforce
  have eq: "components_of adj (ids @ [a]) =
      (if a \<in> set visited then (visited, comps, n) else (visited', comps', n + 1))"
    using acc run by (simp add: components_of_def component_step_def del: dfs.simps)
  with snoc acc component_step_ok [OF _ _ run] show ?case by (simp split: if_splits)
qed

end

lemma component_step_visits:
  assumes "component_step adj a (visited, comps, n) = (visited', comps', n')"
  shows "insert a (set visited) \<subseteq> set visited'"
  using assms dfs_visited by (fastforce simp: component_step_def split: if_splits prod.splits)

lemma components_of_visits: "set ids \<subseteq> set (fst (components_of adj ids))"
proof (induction ids rule: rev_induct)
  case (snoc a ids)
  obtain visited comps n where acc: "components_of adj ids = (visited, comps, n)"
    by (cases "components_of adj ids") auto
  obtain visited' comps' n' where step: "component_step adj a (visited, comps, n) = (visited', comps', n')"
    by (cases "component_step adj a (visited, comps, n)") auto
  with component_step_visits [OF step] snoc acc show ?case by (auto simp: components_of_def)
qed simp

section \<open>The graph that the node builds\<close>

lemma nbrs_push [simp]: "nbrs (push_nbr k v adj) i = (if i = k then nbrs adj k @ [v] else nbrs adj i)"
  by (simp add: nbrs_def push_nbr_def umap_simps)

lemma nbrs_add_link:
  "b \<in> set (nbrs (add_link linked p adj) a) \<longleftrightarrow>
   b \<in> set (nbrs adj a) \<or> (linked (fst p) (snd p) \<and> (p = (a, b) \<or> p = (b, a)))"
  by (cases p) (auto simp: add_link_def)

lemma nbrs_fold:
  "b \<in> set (nbrs (fold (add_link linked) ps adj) a) \<longleftrightarrow>
   b \<in> set (nbrs adj a) \<or> (\<exists>p \<in> set ps. linked (fst p) (snd p) \<and> (p = (a, b) \<or> p = (b, a)))"
  by (induction ps arbitrary: adj) (auto simp: nbrs_add_link)

lemma nbrs_empty [simp]: "nbrs (map (\<lambda>i. (i, [])) ids) a = []"
  by (induction ids) (auto simp: nbrs_def)

lemma nbrs_build:
  "b \<in> set (nbrs (build_adjacency linked ids) a) \<longleftrightarrow>
   (a, b) \<in> set (pairs ids) \<and> linked a b \<or> (b, a) \<in> set (pairs ids) \<and> linked b a"
  unfolding build_adjacency_def nbrs_fold by force

interpretation comm_graph: symmetric_graph "build_adjacency linked ids" for linked ids
  by unfold_locales (auto simp: nbrs_build)

lemma pairs_set:
  assumes "distinct ids"
  shows "(a, b) \<in> set (pairs ids) \<or> (b, a) \<in> set (pairs ids) \<longleftrightarrow> a \<in> set ids \<and> b \<in> set ids \<and> a \<noteq> b"
  using assms by (induction ids) auto

lemma pairs_sorted:
  assumes "distinct ids" and "sorted ids"
  shows "(a, b) \<in> set (pairs ids) \<longleftrightarrow> a \<in> set ids \<and> b \<in> set ids \<and> a < (b :: int)"
  using assms by (induction ids) (auto simp: order_less_le)

lemma edge_rel_build:
  assumes "distinct ids" and "\<And>a b. linked a b = linked b a"
  shows "edge_rel (build_adjacency linked ids) = {(a, b). a \<in> set ids \<and> b \<in> set ids \<and> a \<noteq> b \<and> linked a b}"
  using pairs_set [OF assms(1)] assms(2) by (fastforce simp: edge_rel_def nbrs_build)

text \<open>Only the given agents are visited, when the edges stay among them.\<close>

lemma dfs_within:
  assumes "edge_rel adj \<subseteq> UNIV \<times> D" and "dfs adj c [a] visited comps = (visited', comps')"
    and "a \<in> D" and "set visited \<subseteq> D"
  shows "set visited' \<subseteq> D"
proof
  fix v assume v: "v \<in> set visited'"
  show "v \<in> D"
  proof (cases "v \<in> set visited")
    case False
    with v dfs_reach [OF assms(2)] have "(a, v) \<in> (edge_rel adj)\<^sup>*" by simp
    then show ?thesis using assms(1,3) by (induction rule: rtrancl_induct) auto
  qed (use assms(4) in auto)
qed

lemma components_of_within:
  assumes "edge_rel adj \<subseteq> UNIV \<times> D" and "set ids \<subseteq> D"
  shows "set (fst (components_of adj ids)) \<subseteq> D"
  using assms(2)
proof (induction ids rule: rev_induct)
  case Nil
  show ?case by (simp add: components_of_def)
next
  case (snoc a ids)
  obtain visited comps n where acc: "components_of adj ids = (visited, comps, n)"
    by (metis prod_cases3)
  obtain visited' comps' where run: "dfs adj (n + 1) [a] visited comps = (visited', comps')" by fastforce
  have "components_of adj (ids @ [a]) = (if a \<in> set visited then (visited, comps, n) else (visited', comps', n + 1))"
    using acc run by (simp add: components_of_def component_step_def del: dfs.simps)
  with snoc acc dfs_within [OF assms(1) run] show ?case by simp
qed

section \<open>Links with hysteresis\<close>

record LinkReport =
  lk_src :: int
  lk_dst :: int
  lk_up :: bool
  lk_quality :: real
  lk_age :: "real option"

text \<open>One round of the double loop over sources and destinations. A link that was up stays up until
  its age exceeds the exit threshold; a link that was down needs an age within the trigger.\<close>

definition link_report ::
  "cc_params \<Rightarrow> 64 word \<Rightarrow> link_map \<Rightarrow> (64 word \<times> bool) list \<Rightarrow> int \<Rightarrow> int \<Rightarrow> LinkReport" where
  "link_report p horizon edges previous_link_up src_id dst_id =
     (let edge_key = DirectedKey src_id dst_id;
          edge = map_of edges edge_key;
          age = (case edge of None \<Rightarrow> None | Some e \<Rightarrow> link_age horizon e);
          was_up = (map_of previous_link_up edge_key = Some True);
          link_age_threshold =
            (if was_up then relay_link_exit_age_threshold p else relay_trigger_age_threshold p);
          link_up = (case age of None \<Rightarrow> False | Some a \<Rightarrow> a \<le> link_age_threshold)
      in \<lparr>lk_src = src_id, lk_dst = dst_id, lk_up = link_up,
          lk_quality = (case edge of None \<Rightarrow> 0 | Some e \<Rightarrow> if link_up then de_quality e else 0),
          lk_age = age\<rparr>)"

definition link_reports ::
  "cc_params \<Rightarrow> 64 word \<Rightarrow> link_map \<Rightarrow> (64 word \<times> bool) list \<Rightarrow> int list \<Rightarrow> LinkReport list" where
  "link_reports p horizon edges previous_link_up agent_ids =
     concat (map (\<lambda>src_id. map (link_report p horizon edges previous_link_up src_id)
       (filter (\<lambda>dst_id. src_id \<noteq> dst_id) agent_ids)) agent_ids)"

definition report_key :: "LinkReport \<Rightarrow> 64 word" where
  "report_key r = DirectedKey (lk_src r) (lk_dst r)"

definition latestLinkUp :: "int \<Rightarrow> int \<Rightarrow> cc_state \<Rightarrow> bool" where
  "latestLinkUp src_id dst_id s = (map_of (latest_link_up s) (DirectedKey src_id dst_id) = Some True)"

definition undirected_link_up :: "cc_params \<Rightarrow> cc_state \<Rightarrow> int \<Rightarrow> int \<Rightarrow> bool" where
  "undirected_link_up p s lhs rhs =
     (if comm_component_requires_bidirectional p
      then latestLinkUp lhs rhs s \<and> latestLinkUp rhs lhs s
      else latestLinkUp lhs rhs s \<or> latestLinkUp rhs lhs s)"

text \<open>The timers at the end: a single component counts as connected.\<close>

definition update_split_timers :: "int \<Rightarrow> time \<Rightarrow> cc_state \<Rightarrow> cc_state" where
  "update_split_timers component_id now s =
     (if component_id \<le> 1
      then s\<lparr>connected_since := (if connected_since s = 0 then now else connected_since s),
             fragmented_since := 0\<rparr>
      else s\<lparr>connected_since := 0,
             fragmented_since := (if fragmented_since s = 0 then now else fragmented_since s)\<rparr>)"

definition component_ids_of :: "int umap \<Rightarrow> int list \<Rightarrow> int list" where
  "component_ids_of components agent_ids =
     map (\<lambda>i. case map_of components i of None \<Rightarrow> 0 | Some c \<Rightarrow> c) agent_ids"

definition updateCommGraph :: "cc_params \<Rightarrow> time \<Rightarrow> cc_state \<Rightarrow> cc_state" where
  "updateCommGraph p now s =
     (let agent_ids = sort (observed_agent_ids s);
          previous_link_up = latest_link_up s;
          s = s\<lparr>current_comm_state := empty_comm_state\<lparr>scs_stamp := now\<rparr>,
                latest_components := [], latest_link_up := []\<rparr>
      in if agent_ids = [] then s\<lparr>connected_since := 0, fragmented_since := 0\<rparr>
         else
           let reports = link_reports p (latest_comm_horizon_us s) (directed_edges s)
                 previous_link_up agent_ids;
               s = s\<lparr>latest_link_up := fold (\<lambda>r. AList.update (report_key r) (lk_up r)) reports []\<rparr>;
               adj = build_adjacency (undirected_link_up p s) agent_ids
           in (case components_of adj agent_ids of
                 (visited, components, component_id) \<Rightarrow>
                   update_split_timers component_id now
                     (s\<lparr>latest_components := components,
                        current_comm_state := \<lparr>scs_stamp = now, scs_agent_ids = agent_ids,
                          scs_component_ids = component_ids_of components agent_ids,
                          scs_link_src_ids = map lk_src reports, scs_link_dst_ids = map lk_dst reports,
                          scs_link_up = map lk_up reports, scs_link_quality = map lk_quality reports,
                          scs_link_age = map lk_age reports, scs_num_components = component_id\<rparr>\<rparr>)))"

section \<open>The result of an update\<close>

lemma update_split_timers_fields [simp]:
  "latest_components (update_split_timers c now s) = latest_components s"
  "latest_link_up (update_split_timers c now s) = latest_link_up s"
  "current_comm_state (update_split_timers c now s) = current_comm_state s"
  "directed_edges (update_split_timers c now s) = directed_edges s"
  "agent_cache (update_split_timers c now s) = agent_cache s"
  "observed_agent_ids (update_split_timers c now s) = observed_agent_ids s"
  "relay_active (update_split_timers c now s) = relay_active s"
  "relay_agent_id (update_split_timers c now s) = relay_agent_id s"
  "relay_change_time (update_split_timers c now s) = relay_change_time s"
  "relay_exit_time (update_split_timers c now s) = relay_exit_time s"
  by (simp_all add: update_split_timers_def)

text \<open>Updates of an association list whose values are determined by their key.\<close>

lemma map_of_fold_keyed:
  assumes "\<And>x. x \<in> set xs \<Longrightarrow> k x = key \<Longrightarrow> v x = val"
  shows "map_of (fold (\<lambda>x. AList.update (k x) (v x)) xs m) key =
    (if \<exists>x \<in> set xs. k x = key then Some val else map_of m key)"
  using assms by (induction xs arbitrary: m) (auto simp: umap_simps)

lemma link_report_ids [simp]:
  "lk_src (link_report p h es prev a b) = a" "lk_dst (link_report p h es prev a b) = b"
  by (simp_all add: link_report_def Let_def)

lemma set_link_reports:
  "set (link_reports p h es prev ids) =
   {link_report p h es prev a b | a b. a \<in> set ids \<and> b \<in> set ids \<and> a \<noteq> b}"
  by (auto simp: link_reports_def)

definition agent_ids_ok :: "int list \<Rightarrow> bool" where
  "agent_ids_ok ids \<longleftrightarrow> distinct ids \<and> (\<forall>i \<in> set ids. 0 < i \<and> int32 i)"

lemma link_table:
  assumes "agent_ids_ok ids" and "a \<in> set ids" and "b \<in> set ids"
  shows "map_of (fold (\<lambda>r. AList.update (report_key r) (lk_up r)) (link_reports p h es prev ids) [])
      (DirectedKey a b) = (if a \<noteq> b then Some (lk_up (link_report p h es prev a b)) else None)"
proof -
  have inj: "a' = a \<and> b' = b" if "a' \<in> set ids" "b' \<in> set ids" "DirectedKey a' b' = DirectedKey a b" for a' b'
    using DirectedKey_inj [OF _ _ _ _ that(3)] that assms by (auto simp: agent_ids_ok_def)
  have "\<And>r. r \<in> set (link_reports p h es prev ids) \<Longrightarrow> report_key r = DirectedKey a b \<Longrightarrow>
      lk_up r = lk_up (link_report p h es prev a b)"
    using inj by (force simp: set_link_reports report_key_def)
  moreover have "(\<exists>r \<in> set (link_reports p h es prev ids). report_key r = DirectedKey a b) \<longleftrightarrow> a \<noteq> b"
    using assms inj by (fastforce simp: set_link_reports report_key_def)
  ultimately show ?thesis by (subst map_of_fold_keyed) auto
qed

lemma undirected_link_up_sym: "undirected_link_up p s a b = undirected_link_up p s b a"
  by (auto simp: undirected_link_up_def)

text \<open>The facts that an update establishes, for a node that has observed some agents.\<close>

lemma updateCommGraph_eq:
  fixes p now s
  defines "ids \<equiv> sort (observed_agent_ids s)"
  defines "rs \<equiv> link_reports p (latest_comm_horizon_us s) (directed_edges s) (latest_link_up s) ids"
  defines "s1 \<equiv> s\<lparr>current_comm_state := empty_comm_state\<lparr>scs_stamp := now\<rparr>, latest_components := [],
      latest_link_up := fold (\<lambda>r. AList.update (report_key r) (lk_up r)) rs []\<rparr>"
  assumes "observed_agent_ids s \<noteq> []"
    and "components_of (build_adjacency (undirected_link_up p s1) ids) ids = (visited, comps, n)"
  shows "updateCommGraph p now s = update_split_timers n now
    (s1\<lparr>latest_components := comps,
        current_comm_state := \<lparr>scs_stamp = now, scs_agent_ids = ids,
          scs_component_ids = component_ids_of comps ids,
          scs_link_src_ids = map lk_src rs, scs_link_dst_ids = map lk_dst rs,
          scs_link_up = map lk_up rs, scs_link_quality = map lk_quality rs,
          scs_link_age = map lk_age rs, scs_num_components = n\<rparr>\<rparr>)"
proof -
  have "ids \<noteq> []" using assms(4) by (metis ids_def set_empty set_sort)
  with assms(5) show ?thesis
    by (simp add: updateCommGraph_def Let_def s1_def rs_def ids_def)
qed

lemma updateCommGraph_links:
  assumes "agent_ids_ok (observed_agent_ids s)"
    and "a \<in> set (observed_agent_ids s)" "b \<in> set (observed_agent_ids s)" "a \<noteq> b"
  shows "latestLinkUp a b (updateCommGraph p now s) =
    lk_up (link_report p (latest_comm_horizon_us s) (directed_edges s) (latest_link_up s) a b)"
proof -
  have ok: "agent_ids_ok (sort (observed_agent_ids s))" using assms(1) by (simp add: agent_ids_ok_def)
  have ne: "observed_agent_ids s \<noteq> []" using assms(2) by auto
  let ?s1 = "s\<lparr>current_comm_state := empty_comm_state\<lparr>scs_stamp := now\<rparr>, latest_components := [],
      latest_link_up := fold (\<lambda>r. AList.update (report_key r) (lk_up r))
        (link_reports p (latest_comm_horizon_us s) (directed_edges s) (latest_link_up s)
          (sort (observed_agent_ids s))) []\<rparr>"
  let ?run = "components_of (build_adjacency (undirected_link_up p ?s1) (sort (observed_agent_ids s)))
      (sort (observed_agent_ids s))"
  have "?run = (fst ?run, fst (snd ?run), snd (snd ?run))" by simp
  from updateCommGraph_eq [OF ne this] link_table [OF ok, of a b] assms show ?thesis
    by (simp add: latestLinkUp_def)
qed

lemma updateCommGraph_components:
  fixes p now s
  assumes "agent_ids_ok (observed_agent_ids s)" and "observed_agent_ids s \<noteq> []"
  defines "s' \<equiv> updateCommGraph p now s"
  defines "links \<equiv> {(a, b). a \<in> set (observed_agent_ids s) \<and> b \<in> set (observed_agent_ids s) \<and> a \<noteq> b \<and>
    undirected_link_up p s' a b}"
  shows "a \<in> set (observed_agent_ids s) \<Longrightarrow> b \<in> set (observed_agent_ids s) \<Longrightarrow>
      map_of (latest_components s') a = map_of (latest_components s') b \<longleftrightarrow> (a, b) \<in> links\<^sup>*"
    and "a \<in> set (observed_agent_ids s) \<Longrightarrow>
      \<exists>c. map_of (latest_components s') a = Some c \<and> 1 \<le> c \<and> c \<le> scs_num_components (current_comm_state s')"
    and "1 \<le> c \<Longrightarrow> c \<le> scs_num_components (current_comm_state s') \<Longrightarrow>
      \<exists>a \<in> set (observed_agent_ids s). map_of (latest_components s') a = Some c"
    and "distinct_keys (latest_components s')"
    and "fst ` set (latest_components s') = set (observed_agent_ids s)"
    and "scs_agent_ids (current_comm_state s') = sort (observed_agent_ids s)"
    and "connected_since s' = (if scs_num_components (current_comm_state s') \<le> 1
      then (if connected_since s = 0 then now else connected_since s) else 0)"
    and "fragmented_since s' = (if scs_num_components (current_comm_state s') \<le> 1
      then 0 else (if fragmented_since s = 0 then now else fragmented_since s))"
proof -
  let ?ids = "sort (observed_agent_ids s)"
  let ?s1 = "s\<lparr>current_comm_state := empty_comm_state\<lparr>scs_stamp := now\<rparr>, latest_components := [],
      latest_link_up := fold (\<lambda>r. AList.update (report_key r) (lk_up r))
        (link_reports p (latest_comm_horizon_us s) (directed_edges s) (latest_link_up s) ?ids) []\<rparr>"
  let ?adj = "build_adjacency (undirected_link_up p ?s1) ?ids"
  let ?run = "components_of ?adj ?ids"
  obtain visited comps n where "visited = fst ?run" "comps = fst (snd ?run)" "n = snd (snd ?run)" by simp
  then have run: "components_of ?adj ?ids = (visited, comps, n)" by simp
  note eq = updateCommGraph_eq [OF assms(2) run]
  have fields: "latest_components s' = comps" "latest_link_up s' = latest_link_up ?s1"
    "scs_num_components (current_comm_state s') = n" "scs_agent_ids (current_comm_state s') = ?ids"
    by (simp_all add: s'_def eq)
  have "undirected_link_up p s' = undirected_link_up p ?s1"
    using fields(2) by (simp add: undirected_link_up_def latestLinkUp_def fun_eq_iff)
  moreover have "distinct ?ids" using assms(1) by (simp add: agent_ids_ok_def)
  ultimately have rel: "edge_rel ?adj = links"
    using edge_rel_build [of ?ids "undirected_link_up p ?s1"] undirected_link_up_sym
    by (simp add: links_def)
  have ok: "labels_ok ?adj (visited, comps, n)" 
    using comm_graph.components_of_ok [of "undirected_link_up p ?s1" ?ids ?ids] unfolding run .
  have "edge_rel ?adj \<subseteq> UNIV \<times> set ?ids" by (auto simp: rel links_def)
  with components_of_within [of ?adj "set ?ids" ?ids] run
  have "set visited \<subseteq> set (observed_agent_ids s)" by simp
  then have V: "set visited = set (observed_agent_ids s)" using components_of_visits [of ?ids ?adj] run by auto
  have dom: "\<And>v. map_of comps v \<noteq> None \<longleftrightarrow> v \<in> set (observed_agent_ids s)"
    and same: "\<And>a b. a \<in> set (observed_agent_ids s) \<Longrightarrow> b \<in> set (observed_agent_ids s) \<Longrightarrow>
      map_of comps a = map_of comps b \<longleftrightarrow> (a, b) \<in> links\<^sup>*"
    and range: "\<And>v l. map_of comps v = Some l \<Longrightarrow> 1 \<le> l \<and> l \<le> n"
    and onto: "\<And>l. 1 \<le> l \<Longrightarrow> l \<le> n \<Longrightarrow> \<exists>v. map_of comps v = Some l"
    and keys: "distinct_keys comps"
    using ok unfolding labels_ok_def prod.case V connected_def rel by blast+
  show "a \<in> set (observed_agent_ids s) \<Longrightarrow> b \<in> set (observed_agent_ids s) \<Longrightarrow>
      map_of (latest_components s') a = map_of (latest_components s') b \<longleftrightarrow> (a, b) \<in> links\<^sup>*"
    unfolding fields by (rule same)
  show "a \<in> set (observed_agent_ids s) \<Longrightarrow> \<exists>c. map_of (latest_components s') a = Some c \<and> 1 \<le> c \<and>
      c \<le> scs_num_components (current_comm_state s')"
    unfolding fields using dom [of a] range [of a] by auto
  show "1 \<le> c \<Longrightarrow> c \<le> scs_num_components (current_comm_state s') \<Longrightarrow>
      \<exists>a \<in> set (observed_agent_ids s). map_of (latest_components s') a = Some c"
    unfolding fields using onto [of c] dom by blast
  show "distinct_keys (latest_components s')" unfolding fields by (rule keys)
  show "fst ` set (latest_components s') = set (observed_agent_ids s)"
    unfolding fields using dom by (auto simp: map_of_eq_None_iff)
  show "scs_agent_ids (current_comm_state s') = ?ids" by (rule fields(4))
  show "connected_since s' = (if scs_num_components (current_comm_state s') \<le> 1
      then (if connected_since s = 0 then now else connected_since s) else 0)"
    "fragmented_since s' = (if scs_num_components (current_comm_state s') \<le> 1
      then 0 else (if fragmented_since s = 0 then now else fragmented_since s))"
    by (simp_all add: s'_def eq update_split_timers_def)
qed

end
