(* ===== verification/Comm_Relay.thy ===== *)
theory Comm_Relay imports Comm_Graph
begin

text \<open>
  The relay decision of the central controller (\<open>racer_comm_controller_node.cpp\<close>): when a relay is
  needed, which agent takes the role and where its anchor lies, when the role ends, and what is
  published. \<open>evaluateAndPublish\<close> runs after every accepted input; the service call, the raw topic
  and the task metrics are the steps of the node's state machine.

  Components of equal size are kept in the order of their ids. The code leaves this to
  \<open>std::sort\<close>, which is free to choose another order.
\<close>

section \<open>Components and their geometry\<close>

definition components_by_id :: "cc_state \<Rightarrow> int list list" where
  "components_by_id s =
     (let members = sort_key fst (latest_components s) in
      map (\<lambda>c. map fst (filter (\<lambda>e. snd e = c) members)) (sort (remdups (map snd members))))"

definition orderedComponentsBySize :: "cc_state \<Rightarrow> int list list" where
  "orderedComponentsBySize s = sort_key (\<lambda>ids. - int (length ids)) (components_by_id s)"

definition cc_point :: "cc_state \<Rightarrow> int \<Rightarrow> point option" where
  "cc_point s agent_id = map_option ac_position (map_of (agent_cache s) agent_id)"

definition computeCentroidForAgents :: "cc_state \<Rightarrow> int list \<Rightarrow> point option" where
  "computeCentroidForAgents s ids =
     (let found = List.map_filter (cc_point s) ids
      in if found = [] then None else Some (average_point found))"

definition computeAverageVelocityForAgents :: "cc_state \<Rightarrow> int list \<Rightarrow> vector3 option" where
  "computeAverageVelocityForAgents s ids =
     (let found = List.map_filter (\<lambda>i. map_option ac_velocity (map_of (agent_cache s) i)) ids
      in if found = [] then None else Some (average_vector found))"

definition cc_computeNearestBridgeMidpoint :: "cc_state \<Rightarrow> int list \<Rightarrow> int list \<Rightarrow> point option" where
  "cc_computeNearestBridgeMidpoint s lhs_ids rhs_ids =
     map_option snd (foldl (bridge_scan (cc_point s) rhs_ids) None lhs_ids)"

definition component_weight :: "int list \<Rightarrow> real" where
  "component_weight ids = real (max 1 (length ids))"

definition computeWeightedCentroidForComponents :: "cc_state \<Rightarrow> int list list \<Rightarrow> point option" where
  "computeWeightedCentroidForComponents s components =
     (let parts = List.map_filter
            (\<lambda>ids. map_option (Pair (component_weight ids)) (computeCentroidForAgents s ids)) components;
          total_weight = sum_list (map fst parts)
      in if total_weight \<le> 0 then None
         else Some \<lparr>px = sum_list (map (\<lambda>(w, c). w * px c) parts) / total_weight,
                    py = sum_list (map (\<lambda>(w, c). w * py c) parts) / total_weight,
                    pz = sum_list (map (\<lambda>(w, c). w * pz c) parts) / total_weight\<rparr>)"

text \<open>\<open>None\<close> is infinity in the next two.\<close>

definition closest_step :: "cc_state \<Rightarrow> point \<Rightarrow> int \<Rightarrow> real option \<Rightarrow> real option" where
  "closest_step s p agent_id best_distance_sq =
     (case cc_point s agent_id of
        None \<Rightarrow> best_distance_sq
      | Some q \<Rightarrow> (case best_distance_sq of
          None \<Rightarrow> Some (SquaredDistance p q) | Some b \<Rightarrow> Some (min b (SquaredDistance p q))))"

definition distanceToClosestAgent :: "cc_state \<Rightarrow> point \<Rightarrow> int list \<Rightarrow> real option" where
  "distanceToClosestAgent s p ids = map_option sqrt (fold (closest_step s p) ids None)"

definition scoreAnchorAgainstComponents :: "cc_state \<Rightarrow> point \<Rightarrow> int list list \<Rightarrow> real option" where
  "scoreAnchorAgainstComponents s candidate components =
     (let parts = List.map_filter (\<lambda>ids. map_option (\<lambda>d. component_weight ids * d)
            (distanceToClosestAgent s candidate ids)) components
      in if parts = [] then None else Some (sum_list parts))"

section \<open>The anchor\<close>

definition pair_anchor :: "cc_params \<Rightarrow> cc_state \<Rightarrow> int list \<Rightarrow> int list \<Rightarrow> point option" where
  "pair_anchor p s lhs_ids rhs_ids =
     (case (if relay_anchor_use_nearest_pair_midpoint p
            then cc_computeNearestBridgeMidpoint s lhs_ids rhs_ids else None) of
        Some m \<Rightarrow> Some m
      | None \<Rightarrow> (case (computeCentroidForAgents s lhs_ids, computeCentroidForAgents s rhs_ids) of
          (Some lhs, Some rhs) \<Rightarrow> Some (midpoint lhs rhs)
        | _ \<Rightarrow> None))"

definition anchor_candidates :: "cc_params \<Rightarrow> cc_state \<Rightarrow> int list list \<Rightarrow> point list" where
  "anchor_candidates p s components =
     (case computeWeightedCentroidForComponents s components of None \<Rightarrow> [] | Some c \<Rightarrow> [c]) @
     List.map_filter (\<lambda>(lhs, rhs). pair_anchor p s lhs rhs) (pairs components)"

definition anchor_step :: "(point \<Rightarrow> real option) \<Rightarrow> (point \<times> real) option \<Rightarrow> point \<Rightarrow> (point \<times> real) option" where
  "anchor_step score_of best candidate =
     (case score_of candidate of
        None \<Rightarrow> best
      | Some score \<Rightarrow> (case best of
          None \<Rightarrow> Some (candidate, score)
        | Some (_, best_score) \<Rightarrow> if score \<ge> best_score then best else Some (candidate, score)))"

definition best_anchor :: "cc_params \<Rightarrow> cc_state \<Rightarrow> int list list \<Rightarrow> point option" where
  "best_anchor p s components =
     map_option fst (foldl (anchor_step (\<lambda>c. scoreAnchorAgainstComponents s c components)) None
       (anchor_candidates p s components))"

definition cc_fallback_anchor :: "cc_state \<Rightarrow> point" where
  "cc_fallback_anchor s =
     (case computeCentroidForAgents s (map fst (agent_cache s)) of None \<Rightarrow> zero_point | Some c \<Rightarrow> c)"

definition cc_raw_anchor :: "cc_params \<Rightarrow> cc_state \<Rightarrow> point" where
  "cc_raw_anchor p s =
     (let ordered = orderedComponentsBySize s in
      case (if length ordered \<ge> 3 then best_anchor p s ordered else None) of
        Some a \<Rightarrow> a
      | None \<Rightarrow>
          (case (if length ordered \<ge> 2 then pair_anchor p s (ordered ! 0) (ordered ! 1) else None) of
             Some a \<Rightarrow> a
           | None \<Rightarrow> cc_fallback_anchor s))"

definition cc_computeRelayAnchor :: "cc_params \<Rightarrow> cc_state \<Rightarrow> point" where
  "cc_computeRelayAnchor p s = sanitizeRelayAnchor (target_params.truncate p) (cc_raw_anchor p s)"

section \<open>When a relay is needed\<close>

definition shouldSuppressRelayInEndgame :: "cc_params \<Rightarrow> cc_state \<Rightarrow> bool" where
  "shouldSuppressRelayInEndgame p s =
     (if \<not> saw_task_metrics s then False
      else
        let low_frontier_cells = relay_endgame_frontier_cell_threshold p \<ge> 0 \<and>
              frontier_cell_count_metric s \<ge> 0 \<and>
              frontier_cell_count_metric s \<le> relay_endgame_frontier_cell_threshold p;
            low_active_grids = relay_endgame_active_grid_threshold p \<ge> 0 \<and> active_grid_count s \<ge> 0 \<and>
              active_grid_count s \<le> relay_endgame_active_grid_threshold p;
            low_frontier_clusters = relay_endgame_frontier_cluster_threshold p \<ge> 0 \<and>
              frontier_cluster_count_metric s \<ge> 0 \<and>
              frontier_cluster_count_metric s \<le> relay_endgame_frontier_cluster_threshold p;
            near_completion = completion_ratio s \<ge> relay_endgame_completion_ratio_threshold p
        in low_frontier_cells \<or> low_active_grids \<or> (near_completion \<and> low_frontier_clusters))"

definition shouldSuppressRelayForBalancedSplit :: "cc_params \<Rightarrow> cc_state \<Rightarrow> bool" where
  "shouldSuppressRelayForBalancedSplit p s =
     (if \<not> relay_suppress_balanced_split p \<or> scs_num_components (current_comm_state s) \<noteq> 2 then False
      else
        (case orderedComponentsBySize s of
           [lhs_ids, rhs_ids] \<Rightarrow>
             let lhs_size = int (length lhs_ids); rhs_size = int (length rhs_ids);
                 min_size = min lhs_size rhs_size; max_size = max lhs_size rhs_size
             in if min_size < relay_balanced_min_component_size p \<or> max_size \<le> 0 then False
                else if real_of_int min_size / real_of_int max_size < relay_balanced_size_ratio_threshold p
                then False
                else
                  (case (computeCentroidForAgents s lhs_ids, computeCentroidForAgents s rhs_ids) of
                     (Some lhs_centroid, Some rhs_centroid) \<Rightarrow>
                       let dx = px rhs_centroid - px lhs_centroid; dy = py rhs_centroid - py lhs_centroid;
                           separation = sqrt (dx * dx + dy * dy);
                           major_axis = max \<bar>dx\<bar> \<bar>dy\<bar>; minor_axis = max (1 / 1000) (min \<bar>dx\<bar> \<bar>dy\<bar>)
                       in if separation < relay_balanced_min_separation_m p then False
                          else if major_axis / minor_axis < relay_balanced_axis_ratio_threshold p then False
                          else
                            (case (computeAverageVelocityForAgents s lhs_ids,
                                   computeAverageVelocityForAgents s rhs_ids) of
                               (Some lhs_velocity, Some rhs_velocity) \<Rightarrow>
                                 let mid = midpoint lhs_centroid rhs_centroid
                                 in outward_progress mid lhs_centroid lhs_velocity \<ge>
                                      relay_balanced_outward_velocity_threshold p \<and>
                                    outward_progress mid rhs_centroid rhs_velocity \<ge>
                                      relay_balanced_outward_velocity_threshold p
                             | _ \<Rightarrow> False)
                   | _ \<Rightarrow> False)
         | _ \<Rightarrow> False))"

definition evaluateRelayNeed :: "cc_params \<Rightarrow> time \<Rightarrow> cc_state \<Rightarrow> bool" where
  "evaluateRelayNeed p now s =
     (let agents = scs_agent_ids (current_comm_state s) in
      if length agents < 2 then False
      else if first_eval_time s \<noteq> 0 \<and> relay_startup_grace_period p > 0 \<and>
              now - first_eval_time s < relay_startup_grace_period p then False
      else if shouldSuppressRelayInEndgame p s then False
      else if shouldSuppressRelayForBalancedSplit p s then False
      else if scs_num_components (current_comm_state s) \<le> 1 then False
      else if fragmented_since s = 0 then False
      else if now - fragmented_since s < relay_trigger_persist_time p then False
      else if relay_exit_time s \<noteq> 0 \<and> now - relay_exit_time s < relay_reenter_cooldown p then False
      else 1 / real (length agents) \<le> relay_max_occupancy_ratio p)"

section \<open>Which agent\<close>

definition agent_component_size :: "cc_state \<Rightarrow> int \<Rightarrow> int" where
  "agent_component_size s racer_id =
     (case map_of (latest_components s) racer_id of
        None \<Rightarrow> 1
      | Some c \<Rightarrow> max 1 (int (length (filter (\<lambda>e. snd e = c) (latest_components s)))))"

definition agent_score :: "cc_params \<Rightarrow> cc_state \<Rightarrow> point \<Rightarrow> int \<times> AgentCacheEntry \<Rightarrow> real" where
  "agent_score p s anchor agent =
     (case agent of (racer_id, entry) \<Rightarrow>
        let anchor_distance = sqrt (SquaredDistance (ac_position entry) anchor);
            v = ac_velocity entry;
            speed = sqrt (vx v * vx v + vy v * vy v + vz v * vz v);
            backtrack_penalty = computeBacktrackPenalty (ac_position entry) v anchor;
            component_size = agent_component_size s racer_id;
            cumulative_occupancy_sec =
              (case map_of (relay_total_occupancy_by_agent s) racer_id of None \<Rightarrow> 0 | Some t \<Rightarrow> t)
        in anchor_distance + relay_candidate_speed_penalty_gain p * speed +
           relay_candidate_reuse_penalty_gain p * cumulative_occupancy_sec +
           relay_candidate_small_component_penalty_gain p / real_of_int component_size +
           relay_candidate_backtrack_penalty_gain p * backtrack_penalty)"

definition skip_recent_failed_agent :: "cc_params \<Rightarrow> time \<Rightarrow> cc_state \<Rightarrow> bool" where
  "skip_recent_failed_agent p now s \<longleftrightarrow>
     relay_failed_agent_cooldown p > 0 \<and> last_failed_relay_agent_id s > 0 \<and>
     relay_last_failed_time s \<noteq> 0 \<and> now - relay_last_failed_time s < relay_failed_agent_cooldown p"

text \<open>The pair of the best id and score so far; a score of \<open>None\<close> is infinity.\<close>

definition select_step ::
  "(int \<times> AgentCacheEntry \<Rightarrow> real) \<Rightarrow> int \<times> real option \<Rightarrow> int \<times> AgentCacheEntry \<Rightarrow> int \<times> real option" where
  "select_step score_of best agent =
     (let score = score_of agent in
      case snd best of
        None \<Rightarrow> (fst agent, Some score)
      | Some b \<Rightarrow> if score < b then (fst agent, Some score) else best)"

text \<open>The loop keeps the best agent and, apart, the best among the recently failed ones.\<close>

definition selectRelayAgent :: "cc_params \<Rightarrow> point \<Rightarrow> time \<Rightarrow> cc_state \<Rightarrow> int" where
  "selectRelayAgent p anchor now s =
     (let is_failed = (\<lambda>agent. skip_recent_failed_agent p now s \<and>
            fst agent = last_failed_relay_agent_id s);
          (best, fallback) = foldl
            (\<lambda>(best, fallback) agent.
               if is_failed agent then (best, select_step (agent_score p s anchor) fallback agent)
               else (select_step (agent_score p s anchor) best agent, fallback))
            ((-1, None), (-1, None)) (agent_cache s)
      in if fst best > 0 then fst best else fst fallback)"

section \<open>The relay role\<close>

definition cc_activateRelay :: "int \<Rightarrow> point \<Rightarrow> time \<Rightarrow> cc_state \<Rightarrow> cc_state" where
  "cc_activateRelay relay_candidate anchor now s =
     (let n = max 0 (scs_num_components (current_comm_state s)) in
      s\<lparr>relay_active := True, relay_agent_id := relay_candidate, relay_anchor := anchor,
        relay_change_time := now, relay_start_num_components := n, relay_best_num_components := n,
        relay_start_frontier_cell_count := frontier_cell_count_metric s,
        relay_best_frontier_cell_count := frontier_cell_count_metric s,
        relay_last_improvement_time := now\<rparr>)"

definition cc_deactivateRelay :: "time \<Rightarrow> string \<Rightarrow> cc_state \<Rightarrow> cc_state" where
  "cc_deactivateRelay now reason s =
     (if \<not> relay_active s \<or> relay_agent_id s \<le> 0
      then s\<lparr>relay_active := False, relay_agent_id := -1, relay_change_time := now,
             relay_exit_time := now, relay_start_num_components := 0,
             relay_best_num_components := 0, relay_last_improvement_time := 0\<rparr>
      else
        let previous_agent_id = relay_agent_id s;
            duration_sec = (if relay_change_time s = 0 then 0 else now - relay_change_time s);
            occupancy = (case map_of (relay_total_occupancy_by_agent s) previous_agent_id of
              None \<Rightarrow> 0 | Some t \<Rightarrow> t);
            s = s\<lparr>relay_total_occupancy_by_agent := AList.update previous_agent_id
                    (occupancy + duration_sec) (relay_total_occupancy_by_agent s)\<rparr>;
            s = (if reason = ''no_improvement'' \<or> reason = ''max_active_duration'' \<or>
                    reason = ''frontier_regression''
                 then s\<lparr>last_failed_relay_agent_id := previous_agent_id, relay_last_failed_time := now\<rparr>
                 else s)
        in s\<lparr>relay_active := False, relay_agent_id := -1, relay_change_time := now,
             relay_exit_time := now, relay_start_num_components := 0,
             relay_best_num_components := 0, relay_start_frontier_cell_count := -1,
             relay_best_frontier_cell_count := -1, relay_last_improvement_time := 0\<rparr>)"

definition cc_noteRelayProgress :: "cc_params \<Rightarrow> time \<Rightarrow> cc_state \<Rightarrow> cc_state" where
  "cc_noteRelayProgress p now s =
     (if \<not> relay_active s \<or> relay_agent_id s \<le> 0 then s
      else
        let n = scs_num_components (current_comm_state s);
            s = (if n > 0 \<and> (relay_best_num_components s \<le> 0 \<or> n < relay_best_num_components s)
                 then s\<lparr>relay_best_num_components := n, relay_last_improvement_time := now\<rparr> else s)
        in if saw_task_metrics s \<and> frontier_cell_count_metric s \<ge> 0
           then if relay_best_frontier_cell_count s < 0
                then s\<lparr>relay_best_frontier_cell_count := frontier_cell_count_metric s\<rparr>
                else if frontier_cell_count_metric s \<le>
                        relay_best_frontier_cell_count s - relay_frontier_improvement_min_delta p
                then s\<lparr>relay_best_frontier_cell_count := frontier_cell_count_metric s,
                       relay_last_improvement_time := now\<rparr>
                else s
           else s)"

definition frontier_regressed :: "cc_params \<Rightarrow> cc_state \<Rightarrow> bool" where
  "frontier_regressed p s \<longleftrightarrow>
     frontier_cell_count_metric s - relay_best_frontier_cell_count s \<ge>
       relay_frontier_regression_abs_threshold p \<and>
     (if relay_start_frontier_cell_count s > 0
      then real_of_int (frontier_cell_count_metric s) / real_of_int (relay_start_frontier_cell_count s)
      else 1) \<ge> relay_frontier_regression_ratio_threshold p"

definition evaluateRelayExit :: "cc_params \<Rightarrow> time \<Rightarrow> cc_state \<Rightarrow> string option" where
  "evaluateRelayExit p now s =
     (if \<not> relay_active s \<or> relay_agent_id s \<le> 0 then None
      else
        let active_duration_sec = now - relay_change_time s;
            n = scs_num_components (current_comm_state s)
        in if active_duration_sec < relay_min_hold_time p then None
           else if n \<le> 1 \<and> connected_since s \<noteq> 0 \<and> now - connected_since s \<ge> relay_recover_time p
           then Some ''recovered''
           else if relay_no_improvement_timeout p > 0 \<and> relay_last_improvement_time s \<noteq> 0 \<and>
                   now - relay_last_improvement_time s \<ge> relay_no_improvement_timeout p \<and>
                   n \<ge> relay_best_num_components s
           then Some ''no_improvement''
           else if relay_frontier_regression_grace_sec p > 0 \<and> saw_task_metrics s \<and>
                   relay_start_frontier_cell_count s \<ge> 0 \<and> relay_best_frontier_cell_count s \<ge> 0 \<and>
                   frontier_cell_count_metric s \<ge> 0 \<and>
                   active_duration_sec \<ge> relay_frontier_regression_grace_sec p \<and> frontier_regressed p s
           then Some ''frontier_regression''
           else if relay_max_active_duration p > 0 \<and> active_duration_sec \<ge> relay_max_active_duration p
           then Some ''max_active_duration''
           else None)"

section \<open>Publication\<close>

definition cc_role_cmd :: "cc_params \<Rightarrow> time \<Rightarrow> cc_state \<Rightarrow> int \<Rightarrow> RelayRoleCmd" where
  "cc_role_cmd p now s agent_id =
     (let is_relay = (relay_active s \<and> agent_id = relay_agent_id s) in
      \<lparr>rrc_stamp = now, rrc_agent_id = agent_id,
       rrc_role = (if is_relay then ROLE_RELAY else ROLE_EXPLORER),
       rrc_relay_target = sanitizeRelayAnchor (target_params.truncate p) (relay_anchor s),
       rrc_relay_yaw = 0, rrc_valid = is_relay\<rparr>)"

definition publishRelayRoleCommands :: "cc_params \<Rightarrow> time \<Rightarrow> cc_state \<Rightarrow> RelayRoleCmd list" where
  "publishRelayRoleCommands p now s =
     map (cc_role_cmd p now s) (scs_agent_ids (current_comm_state s))"

definition publishSwarmCommState :: "time \<Rightarrow> cc_state \<Rightarrow> cc_state" where
  "publishSwarmCommState now s =
     s\<lparr>current_comm_state := current_comm_state s\<lparr>scs_stamp := now\<rparr>\<rparr>"

text \<open>The velocities in the answer of the service are always zero.\<close>

record VelocityHeading =
  vh_agent_id :: "32 word"
  vh_velocity :: vector3
  vh_heading :: real

definition fillZeroVelocityResponse :: "AgentStruct list \<Rightarrow> VelocityHeading list" where
  "fillZeroVelocityResponse agents =
     map (\<lambda>a. \<lparr>vh_agent_id = as_agent_id a, vh_velocity = zero_vector, vh_heading = as_heading a\<rparr>) agents"

section \<open>One evaluation\<close>

definition noteInputSource :: "InputSource \<Rightarrow> cc_state \<Rightarrow> cc_state" where
  "noteInputSource input_source s =
     (if input_source = last_input_source s then s else s\<lparr>last_input_source := input_source\<rparr>)"

text \<open>The first half: time origin, stale state, graph, and a relay that is no longer seen.\<close>

definition drop_stale_relay :: "time \<Rightarrow> cc_state \<Rightarrow> cc_state" where
  "drop_stale_relay now s =
     (if relay_active s \<and> relay_agent_id s > 0 \<and>
         (relay_agent_id s \<notin> set (scs_agent_ids (current_comm_state s)) \<or>
          map_of (agent_cache s) (relay_agent_id s) = None)
      then cc_deactivateRelay now ''relay_agent_stale'' s else s)"

definition eval_graph :: "cc_params \<Rightarrow> InputSource \<Rightarrow> time \<Rightarrow> cc_state \<Rightarrow> cc_state" where
  "eval_graph p input_source now s =
     (let s = (if input_source \<noteq> kUnknown then noteInputSource input_source s else s);
          s = (if first_eval_time s = 0 then s\<lparr>first_eval_time := now\<rparr> else s);
          s = pruneStaleState p now s;
          s = updateCommGraph p now s
      in drop_stale_relay now s)"

text \<open>The second half: the policy.\<close>

definition eval_policy :: "cc_params \<Rightarrow> time \<Rightarrow> cc_state \<Rightarrow> cc_state" where
  "eval_policy p now s =
     (if cc_effectiveRelayPolicyMode p = kOff
      then (let s = (if relay_active s then cc_deactivateRelay now ''policy_off'' s else s)
            in s\<lparr>relay_anchor := cc_computeRelayAnchor p s\<rparr>)
      else if relay_active s
      then (let s = cc_noteRelayProgress p now s;
                s = s\<lparr>relay_anchor := cc_computeRelayAnchor p s\<rparr>
            in (case evaluateRelayExit p now s of
                  None \<Rightarrow> s | Some reason \<Rightarrow> cc_deactivateRelay now reason s))
      else if evaluateRelayNeed p now s
      then (let anchor = cc_computeRelayAnchor p s; relay_candidate = selectRelayAgent p anchor now s
            in if relay_candidate > 0 then cc_activateRelay relay_candidate anchor now s else s)
      else s)"

definition evaluateAndPublish ::
  "cc_params \<Rightarrow> InputSource \<Rightarrow> time \<Rightarrow> cc_state \<Rightarrow> cc_state \<times> RelayRoleCmd list" where
  "evaluateAndPublish p input_source now s =
     (let s = publishSwarmCommState now (eval_policy p now (eval_graph p input_source now s))
      in (s, if publish_relay_role_cmds p then publishRelayRoleCommands p now s else []))"

section \<open>The node's inputs\<close>

text \<open>\<open>parse\<close> is the generated protobuf parser.\<close>

definition getAgentVelocitiesCallback ::
  "cc_params \<Rightarrow> (8 word list \<Rightarrow> NetRxEventsPayload option) \<Rightarrow> AgentStruct list \<Rightarrow> 8 word list \<Rightarrow> time \<Rightarrow>
   cc_state \<Rightarrow> cc_state \<times> RelayRoleCmd list \<times> VelocityHeading list" where
  "getAgentVelocitiesCallback p parse agents bytes now s =
     (let s = updateAgentCache p agents now s;
          (applied_fresh_snapshot, s) =
            (case decodeCommSnapshot parse (id_offset p) bytes of
               None \<Rightarrow> (False, s)
             | Some snapshot \<Rightarrow>
                 applyCommSnapshot snapshot kServiceChain (service_input_replaces_graph p) now s);
          (s, cmds) = evaluateAndPublish p (if applied_fresh_snapshot then kServiceChain else kUnknown) now s
      in (s, cmds, fillZeroVelocityResponse agents))"

definition rawCommCallback ::
  "cc_params \<Rightarrow> (8 word list \<Rightarrow> NetRxEventsPayload option) \<Rightarrow> 8 word list \<Rightarrow> time \<Rightarrow>
   cc_state \<Rightarrow> cc_state \<times> RelayRoleCmd list" where
  "rawCommCallback p parse bytes now s =
     (if bytes = [] then (s, [])
      else
        (case decodeCommSnapshot parse (id_offset p) bytes of
           None \<Rightarrow> (s, [])
         | Some snapshot \<Rightarrow>
             if shouldPreferServiceInput p now snapshot s then (s, [])
             else (case applyCommSnapshot snapshot kRawTopic False now s of
               (False, s) \<Rightarrow> (s, [])
             | (True, s) \<Rightarrow> evaluateAndPublish p kRawTopic now (s\<lparr>last_raw_topic_update := now\<rparr>))))"

datatype cc_event =
    ServiceCall "AgentStruct list" "8 word list"
  | RawComm "8 word list"
  | TaskMetrics "int list"

fun cc_handle ::
  "cc_params \<Rightarrow> (8 word list \<Rightarrow> NetRxEventsPayload option) \<Rightarrow> time \<Rightarrow> cc_event \<Rightarrow>
   cc_state \<Rightarrow> cc_state \<times> RelayRoleCmd list" where
  "cc_handle p parse now (ServiceCall agents bytes) s =
     (case getAgentVelocitiesCallback p parse agents bytes now s of (s', cmds, _) \<Rightarrow> (s', cmds))"
| "cc_handle p parse now (RawComm bytes) s = rawCommCallback p parse bytes now s"
| "cc_handle p parse now (TaskMetrics data) s = (taskMetricsCallback data s, [])"

inductive cc_reach ::
  "cc_params \<Rightarrow> (8 word list \<Rightarrow> NetRxEventsPayload option) \<Rightarrow> time \<Rightarrow> cc_state \<Rightarrow> bool" for p parse where
  start: "0 < t \<Longrightarrow> cc_reach p parse t cc_init"
| event: "cc_reach p parse t s \<Longrightarrow> t \<le> t' \<Longrightarrow> cc_reach p parse t' (fst (cc_handle p parse t' e s))"

end
