(* ===== verification/Comm_Props.thy ===== *)
theory Comm_Props imports Comm_Relay
begin

text \<open>
  Lemmas on the central controller: the scans for the relay agent and the anchor, the invariant of
  its reachable states (who is observed, cached and relaying), and the conditions under which one
  evaluation starts, keeps or ends the role.
\<close>

section \<open>The scans\<close>

definition select_pick :: "int \<times> real option \<Rightarrow> (int \<times> real) option" where
  "select_pick b = map_option (Pair (fst b)) (snd b)"

interpretation agent_scan: tolerant_scan
  "select_step f" select_pick fst "\<lambda>a. Some (f a)" "\<lambda>_. True" 0 for f
  by unfold_locales (auto simp: select_step_def select_pick_def Let_def split: option.splits if_splits)

interpretation anchor_scan: tolerant_scan
  "anchor_step f" "\<lambda>b. b" "\<lambda>c. c" f "\<lambda>_. True" 0 for f
  by unfold_locales (auto simp: anchor_step_def split: option.splits if_splits)

lemma agent_scan_all [simp]: "agent_scan.good_list xs"
  by (simp add: agent_scan.good_list_def)

lemma anchor_scan_all [simp]: "anchor_scan.good_list xs"
  by (simp add: anchor_scan.good_list_def)

lemma foldl_partition:
  "foldl (\<lambda>(a, b) x. if P x then (a, f b x) else (f a x, b)) (a0, b0) xs =
   (foldl f a0 (filter (\<lambda>x. \<not> P x) xs), foldl f b0 (filter P xs))"
  by (induction xs arbitrary: a0 b0) auto

lemma select_first_known:
  "agents \<noteq> [] \<Longrightarrow> \<exists>x. snd (foldl (select_step f) b agents) = Some x"
proof (induction agents rule: rev_induct)
  case (snoc a agents)
  then show ?case by (auto simp: select_step_def Let_def split: option.splits)
qed simp

lemma select_scan:
  assumes "agents \<noteq> []"
  shows "\<exists>a \<in> set agents. fst (foldl (select_step f) (-1, None) agents) = fst a \<and>
    (\<forall>b \<in> set agents. f a \<le> f b)"
proof -
  let ?r = "foldl (select_step f) (-1, None) agents"
  obtain x where x: "select_pick ?r = Some (fst ?r, x)"
    using select_first_known [OF assms, of f "(-1, None)"] by (auto simp: select_pick_def)
  from agent_scan.scan_from [of agents "(-1, None)" f "fst ?r" x] x
  obtain a where a: "a \<in> set agents" "fst a = fst ?r" "f a = x"
    by (auto simp: select_pick_def)
  have "x \<le> f b" if "b \<in> set agents" for b
    using agent_scan.scan_best [of agents "(-1, None)" b f "f b"] x that by (simp add: select_pick_def)
  with a show ?thesis by metis
qed

definition recently_failed :: "cc_params \<Rightarrow> time \<Rightarrow> cc_state \<Rightarrow> int \<times> AgentCacheEntry \<Rightarrow> bool" where
  "recently_failed p now s agent \<longleftrightarrow>
     skip_recent_failed_agent p now s \<and> fst agent = last_failed_relay_agent_id s"

lemma selectRelayAgent_eq:
  "selectRelayAgent p anchor now s =
    (let best = foldl (select_step (agent_score p s anchor)) (-1, None)
           (filter (\<lambda>a. \<not> recently_failed p now s a) (agent_cache s));
         fallback = foldl (select_step (agent_score p s anchor)) (-1, None)
           (filter (recently_failed p now s) (agent_cache s))
     in if fst best > 0 then fst best else fst fallback)"
  unfolding selectRelayAgent_def Let_def foldl_partition recently_failed_def by simp

text \<open>The agent chosen has the least score among those that did not fail recently; a recently
  failed one is chosen only when there is no other.\<close>

lemma selectRelayAgent_spec:
  assumes pos: "\<forall>a \<in> set (agent_cache s). 0 < fst a" and ne: "agent_cache s \<noteq> []"
  shows "\<exists>a \<in> set (agent_cache s). selectRelayAgent p anchor now s = fst a \<and>
    (\<forall>b \<in> set (agent_cache s). \<not> recently_failed p now s b \<longrightarrow>
       \<not> recently_failed p now s a \<and> agent_score p s anchor a \<le> agent_score p s anchor b)"
proof (cases "filter (\<lambda>a. \<not> recently_failed p now s a) (agent_cache s) = []")
  case True
  then have all: "\<forall>b \<in> set (agent_cache s). recently_failed p now s b" by (auto simp: filter_empty_conv)
  then have "filter (recently_failed p now s) (agent_cache s) = agent_cache s" by (simp add: filter_id_conv)
  with select_scan [OF ne, of "agent_score p s anchor"] True all show ?thesis
    by (auto simp: selectRelayAgent_eq)
next
  case False
  let ?ok = "filter (\<lambda>a. \<not> recently_failed p now s a) (agent_cache s)"
  from select_scan [OF False, of "agent_score p s anchor"] obtain a where
    "a \<in> set ?ok" and a: "fst (foldl (select_step (agent_score p s anchor)) (-1, None) ?ok) = fst a"
      "\<forall>b \<in> set ?ok. agent_score p s anchor a \<le> agent_score p s anchor b"
    by blast
  then have "a \<in> set (agent_cache s)" "\<not> recently_failed p now s a" by simp_all
  with a pos show ?thesis by (intro bexI [of _ a]) (auto simp: selectRelayAgent_eq Let_def)
qed

lemma selectRelayAgent_none: "agent_cache s = [] \<Longrightarrow> selectRelayAgent p anchor now s = -1"
  by (simp add: selectRelayAgent_eq)

lemma selectRelayAgent_cached:
  assumes "\<forall>a \<in> set (agent_cache s). 0 < fst a" and "0 < selectRelayAgent p anchor now s"
  shows "selectRelayAgent p anchor now s \<in> fst ` set (agent_cache s)"
proof -
  have "agent_cache s \<noteq> []" using assms(2) selectRelayAgent_none by fastforce
  with selectRelayAgent_spec [OF assms(1)] show ?thesis by fastforce
qed

lemma best_anchor_spec:
  assumes "best_anchor p s components = Some a"
  shows "\<exists>x. a \<in> set (anchor_candidates p s components) \<and>
    scoreAnchorAgainstComponents s a components = Some x \<and>
    (\<forall>c \<in> set (anchor_candidates p s components). \<forall>y.
       scoreAnchorAgainstComponents s c components = Some y \<longrightarrow> x \<le> y)"
proof -
  let ?f = "\<lambda>c. scoreAnchorAgainstComponents s c components"
  obtain x where x: "foldl (anchor_step ?f) None (anchor_candidates p s components) = Some (a, x)"
    using assms by (auto simp: best_anchor_def)
  have "x \<le> y" if "c \<in> set (anchor_candidates p s components)" "?f c = Some y" for c y
    using anchor_scan.scan_best [of "anchor_candidates p s components" None c ?f y] x that by simp
  with anchor_scan.scan_from [of "anchor_candidates p s components" None ?f a x] x show ?thesis by auto
qed

section \<open>Who is observed and cached\<close>

definition observed_ok :: "cc_state \<Rightarrow> bool" where
  "observed_ok s \<longleftrightarrow> distinct (observed_agent_ids s) \<and> (\<forall>i \<in> set (observed_agent_ids s). 0 < i) \<and>
     distinct_keys (agent_cache s) \<and> fst ` set (agent_cache s) \<subseteq> set (observed_agent_ids s) \<and>
     distinct_keys (agent_last_observed_wall_time s) \<and>
     fst ` set (agent_last_observed_wall_time s) = set (observed_agent_ids s)"

lemma observed_ok_init: "observed_ok cc_init"
  by (simp add: observed_ok_def cc_init_def)

lemma keys_update: "fst ` set (AList.update k v m) = insert k (fst ` set m)"
  by (induction m) auto

lemma observed_ok_note: "observed_ok s \<Longrightarrow> observed_ok (cc_noteObservedAgent i now s)"
  by (auto simp: observed_ok_def cc_noteObservedAgent_def keys_update distinct_keys_update)

lemma observed_ok_cache:
  assumes "observed_ok s" shows "observed_ok (cache_agent offset now a s)"
proof -
  let ?i = "RacerIdFromPlatformId (sint (as_agent_id a)) offset"
  have "observed_ok (cc_noteObservedAgent ?i now (s\<lparr>agent_cache := AList.update ?i e (agent_cache s)\<rparr>))"
    if "0 < ?i" for e
    using assms that
    by (auto simp: observed_ok_def cc_noteObservedAgent_def keys_update distinct_keys_update)
  then show ?thesis using assms by (simp add: cache_agent_def Let_def)
qed

lemma observed_ok_cong:
  "observed_agent_ids s' = observed_agent_ids s \<Longrightarrow> agent_cache s' = agent_cache s \<Longrightarrow>
   agent_last_observed_wall_time s' = agent_last_observed_wall_time s \<Longrightarrow> observed_ok s' = observed_ok s"
  by (simp add: observed_ok_def)

lemma observed_ok_updateCache: "observed_ok s \<Longrightarrow> observed_ok (updateAgentCache p agents now s)"
  unfolding updateAgentCache_def by (rule fold_invariant) (auto intro: observed_ok_cache)

lemma observed_ok_apply:
  assumes "observed_ok s" shows "observed_ok (snd (applyCommSnapshot snap src replace now s))"
proof -
  let ?s0 = "if replace then s\<lparr>directed_edges := [], latest_link_up := []\<rparr> else s"
  let ?s1 = "fold (\<lambda>i. cc_noteObservedAgent i now) (sort (cs_observed_agent_ids snap))
      (?s0\<lparr>latest_comm_horizon_us := cs_horizon_time_us snap\<rparr>)"
  have "observed_ok (?s0\<lparr>latest_comm_horizon_us := cs_horizon_time_us snap\<rparr>)"
    using assms by (simp add: observed_ok_def)
  then have "observed_ok ?s1" by (rule fold_invariant) (rule observed_ok_note)
  then have "observed_ok (?s1\<lparr>directed_edges := d\<rparr>)"
    "observed_ok (?s1\<lparr>directed_edges := d, last_service_snapshot_horizon_us := h,
      last_fresh_service_snapshot_wall_time := now\<rparr>)"
    "observed_ok (?s1\<lparr>directed_edges := d, last_raw_snapshot_horizon_us := h\<rparr>)" for d h
    by (simp_all add: observed_ok_def)
  with assms show ?thesis by (simp add: applyCommSnapshot_def Let_def)
qed

lemma observed_ok_metrics: "observed_ok s \<Longrightarrow> observed_ok (taskMetricsCallback data s)"
  by (rule iffD2 [OF observed_ok_cong]) (auto simp: taskMetricsCallback_def Let_def)

lemma observed_ok_prune:
  assumes "observed_ok s" shows "observed_ok (pruneStaleState p now s)"
proof -
  let ?o = "agent_last_observed_wall_time s" and ?dead = "observation_expired p now"
  have keys: "distinct_keys ?o" and same: "fst ` set ?o = set (observed_agent_ids s)"
    using assms by (simp_all add: observed_ok_def)
  let ?pruned = "map fst (filter (\<lambda>e. ?dead (snd e)) ?o)"
  have "fst ` set (prune ?dead ?o) = set (observed_agent_ids s) - set ?pruned"
    using keys_prune [OF keys, of ?dead] same by simp
  moreover have "fst ` set (prune (agent_expired p now) (filter (\<lambda>e. fst e \<notin> set ?pruned) (agent_cache s)))
      \<subseteq> set (observed_agent_ids s) - set ?pruned"
    using assms by (auto simp: observed_ok_def set_prune)
  ultimately show ?thesis
    using assms unfolding observed_ok_def pruneStaleState_def Let_def
    by (auto intro: keys_intros distinct_filter)
qed

section \<open>The invariant\<close>

text \<open>The fields that inputs and graph updates leave alone.\<close>

definition role_fields :: "cc_state \<Rightarrow> bool \<times> int \<times> time \<times> time" where
  "role_fields s = (relay_active s, relay_agent_id s, relay_change_time s, relay_exit_time s)"

definition metric_fields :: "cc_state \<Rightarrow> real \<times> int \<times> int" where
  "metric_fields s = (completion_ratio s, unknown_cells_peak s, unknown_cells_total s)"

abbreviation same_fields :: "cc_state \<Rightarrow> cc_state \<Rightarrow> bool" where
  "same_fields s' s \<equiv> role_fields s' = role_fields s \<and> metric_fields s' = metric_fields s"

lemmas field_defs = role_fields_def metric_fields_def

lemma same_fields_note: "same_fields (cc_noteObservedAgent i now s) s"
  by (simp add: field_defs cc_noteObservedAgent_def)

lemma same_fields_updateCache: "same_fields (updateAgentCache p agents now s) s"
  unfolding updateAgentCache_def
  by (rule fold_invariant [where P = "\<lambda>x. same_fields x s"])
    (auto simp: field_defs cache_agent_def cc_noteObservedAgent_def Let_def)

lemma same_fields_fold_note: "same_fields (fold (\<lambda>i. cc_noteObservedAgent i now) ids s) s"
  by (rule fold_invariant [where P = "\<lambda>x. same_fields x s"]) (auto simp: same_fields_note)

lemma same_fields_apply: "same_fields (snd (applyCommSnapshot snap src replace now s)) s"
proof -
  let ?s0 = "if replace then s\<lparr>directed_edges := [], latest_link_up := []\<rparr> else s"
  let ?s1 = "fold (\<lambda>i. cc_noteObservedAgent i now) (sort (cs_observed_agent_ids snap))
      (?s0\<lparr>latest_comm_horizon_us := cs_horizon_time_us snap\<rparr>)"
  have "same_fields ?s1 s"
    using same_fields_fold_note [of now _ "?s0\<lparr>latest_comm_horizon_us := cs_horizon_time_us snap\<rparr>"]
    by (auto simp: field_defs)
  then show ?thesis by (simp add: applyCommSnapshot_def Let_def field_defs)
qed

lemma same_fields_prune: "same_fields (pruneStaleState p now s) s"
  by (simp add: field_defs pruneStaleState_def Let_def)

lemma same_fields_timers: "same_fields (update_split_timers c now s) s"
  by (simp add: field_defs update_split_timers_def)

lemma same_fields_graph: "same_fields (updateCommGraph p now s) s"
  by (auto simp: updateCommGraph_def Let_def field_defs update_split_timers_def split: prod.splits)

lemma graph_keeps [simp]:
  "observed_agent_ids (updateCommGraph p now s) = observed_agent_ids s"
  "agent_cache (updateCommGraph p now s) = agent_cache s"
  "agent_last_observed_wall_time (updateCommGraph p now s) = agent_last_observed_wall_time s"
  by (auto simp: updateCommGraph_def Let_def update_split_timers_def split: prod.splits)

lemma graph_agent_ids [simp]:
  "scs_agent_ids (current_comm_state (updateCommGraph p now s)) = sort (observed_agent_ids s)"
proof (cases "sort (observed_agent_ids s) = []")
  case True
  then show ?thesis by (simp add: updateCommGraph_def Let_def empty_comm_state_def)
next
  case False
  then show ?thesis by (auto simp: updateCommGraph_def Let_def split: prod.splits)
qed

definition relay_basic :: "cc_state \<Rightarrow> bool" where
  "relay_basic s \<longleftrightarrow> (if relay_active s then 0 < relay_agent_id s else relay_agent_id s = -1)"

definition relay_ok :: "cc_state \<Rightarrow> bool" where
  "relay_ok s \<longleftrightarrow> relay_basic s \<and> (relay_active s \<longrightarrow>
     relay_agent_id s \<in> fst ` set (agent_cache s) \<and>
     relay_agent_id s \<in> set (scs_agent_ids (current_comm_state s)))"

definition cc_inv :: "cc_state \<Rightarrow> bool" where
  "cc_inv s \<longleftrightarrow> observed_ok s \<and> metrics_ok s \<and> relay_ok s"

text \<open>What holds in the middle of a handler.\<close>

definition cc_mid :: "cc_state \<Rightarrow> bool" where
  "cc_mid s \<longleftrightarrow> observed_ok s \<and> metrics_ok s \<and> relay_basic s"

lemma cc_mid_same:
  "same_fields s' s \<Longrightarrow> cc_mid s \<Longrightarrow> observed_ok s' \<Longrightarrow> cc_mid s'"
  by (simp add: cc_mid_def field_defs relay_basic_def metrics_ok_def)

lemma cc_inv_mid: "cc_inv s \<Longrightarrow> cc_mid s"
  by (simp add: cc_inv_def cc_mid_def relay_ok_def)

lemma cc_mid_updateCache: "cc_mid s \<Longrightarrow> cc_mid (updateAgentCache p agents now s)"
  using cc_mid_same [OF same_fields_updateCache] observed_ok_updateCache cc_mid_def by blast

lemma cc_mid_apply: "cc_mid s \<Longrightarrow> cc_mid (snd (applyCommSnapshot snap src replace now s))"
  using cc_mid_same [OF same_fields_apply] observed_ok_apply cc_mid_def by blast

lemma deactivate_keeps [simp]:
  "observed_agent_ids (cc_deactivateRelay now r s) = observed_agent_ids s"
  "agent_cache (cc_deactivateRelay now r s) = agent_cache s"
  "agent_last_observed_wall_time (cc_deactivateRelay now r s) = agent_last_observed_wall_time s"
  "current_comm_state (cc_deactivateRelay now r s) = current_comm_state s"
  "metric_fields (cc_deactivateRelay now r s) = metric_fields s"
  "relay_active (cc_deactivateRelay now r s) = False"
  "relay_agent_id (cc_deactivateRelay now r s) = -1"
  "relay_exit_time (cc_deactivateRelay now r s) = now"
  by (simp_all add: cc_deactivateRelay_def Let_def field_defs)

lemma metrics_ok_fields: "metric_fields s' = metric_fields s \<Longrightarrow> metrics_ok s' = metrics_ok s"
  by (simp add: metrics_ok_def metric_fields_def)

lemma metrics_ok_deactivate [simp]: "metrics_ok (cc_deactivateRelay now r s) = metrics_ok s"
  by (rule metrics_ok_fields) simp

lemma cc_inv_deactivate: "cc_mid s \<Longrightarrow> cc_inv (cc_deactivateRelay now r s)"
  by (simp add: cc_mid_def cc_inv_def relay_ok_def relay_basic_def observed_ok_def)

definition eval_start :: "cc_params \<Rightarrow> InputSource \<Rightarrow> time \<Rightarrow> cc_state \<Rightarrow> cc_state" where
  "eval_start p src now s =
     (let s = (if src \<noteq> kUnknown then noteInputSource src s else s);
          s = (if first_eval_time s = 0 then s\<lparr>first_eval_time := now\<rparr> else s)
      in pruneStaleState p now s)"

lemma eval_graph_start: "eval_graph p src now s = drop_stale_relay now (updateCommGraph p now (eval_start p src now s))"
  by (simp add: eval_graph_def eval_start_def Let_def)

lemma cc_mid_time [simp]: "cc_mid (s\<lparr>first_eval_time := now\<rparr>) = cc_mid s"
  by (simp add: cc_mid_def observed_ok_def metrics_ok_def relay_basic_def)

lemma cc_mid_source [simp]: "cc_mid (noteInputSource src s) = cc_mid s"
  by (simp add: noteInputSource_def cc_mid_def observed_ok_def metrics_ok_def relay_basic_def)

lemma cc_mid_prune: "cc_mid s \<Longrightarrow> cc_mid (pruneStaleState p now s)"
  using cc_mid_same [OF same_fields_prune] observed_ok_prune cc_mid_def by blast

lemma cc_mid_start: "cc_mid s \<Longrightarrow> cc_mid (eval_start p src now s)"
  unfolding eval_start_def Let_def by (intro cc_mid_prune) simp

lemma role_fields_start: "role_fields (eval_start p src now s) = role_fields s"
  using same_fields_prune by (simp add: eval_start_def Let_def role_fields_def noteInputSource_def pruneStaleState_def)

lemma cc_mid_graph: "cc_mid s \<Longrightarrow> cc_mid (updateCommGraph p now s)"
  using cc_mid_same [OF same_fields_graph] by (simp add: cc_mid_def observed_ok_def)

lemma eval_graph_inv:
  assumes "cc_mid s"
  shows "cc_inv (eval_graph p src now s) \<and>
    scs_agent_ids (current_comm_state (eval_graph p src now s)) =
      sort (observed_agent_ids (eval_graph p src now s))"
proof -
  let ?g = "updateCommGraph p now (eval_start p src now s)"
  have mid: "cc_mid ?g" using assms cc_mid_start cc_mid_graph by blast
  then have "cc_inv (drop_stale_relay now ?g)"
    using cc_inv_deactivate [OF mid]
    by (auto simp: drop_stale_relay_def cc_inv_def cc_mid_def relay_ok_def relay_basic_def
        map_of_eq_None_iff split: if_splits)
  then show ?thesis by (simp add: eval_graph_start drop_stale_relay_def)
qed

section \<open>The policy keeps the invariant\<close>

lemma progress_keeps [simp]:
  "observed_agent_ids (cc_noteRelayProgress p now s) = observed_agent_ids s"
  "agent_cache (cc_noteRelayProgress p now s) = agent_cache s"
  "agent_last_observed_wall_time (cc_noteRelayProgress p now s) = agent_last_observed_wall_time s"
  "current_comm_state (cc_noteRelayProgress p now s) = current_comm_state s"
  "role_fields (cc_noteRelayProgress p now s) = role_fields s"
  "metric_fields (cc_noteRelayProgress p now s) = metric_fields s"
  by (simp_all add: cc_noteRelayProgress_def Let_def field_defs)

lemma progress_role [simp]:
  "relay_active (cc_noteRelayProgress p now s) = relay_active s"
  "relay_agent_id (cc_noteRelayProgress p now s) = relay_agent_id s"
  "relay_change_time (cc_noteRelayProgress p now s) = relay_change_time s"
  using progress_keeps(5) [of p now s] by (simp_all add: role_fields_def)

lemma metrics_ok_progress [simp]: "metrics_ok (cc_noteRelayProgress p now s) = metrics_ok s"
  by (rule metrics_ok_fields) simp

lemma cc_inv_progress: "cc_inv s \<Longrightarrow> cc_inv (cc_noteRelayProgress p now s)"
  by (simp add: cc_inv_def relay_ok_def relay_basic_def observed_ok_def)

lemma cc_inv_anchor [simp]: "cc_inv (s\<lparr>relay_anchor := a\<rparr>) = cc_inv s"
  by (simp add: cc_inv_def relay_ok_def relay_basic_def observed_ok_def metrics_ok_def)

lemma cc_inv_stamp [simp]: "cc_inv (publishSwarmCommState now s) = cc_inv s"
  by (simp add: publishSwarmCommState_def cc_inv_def relay_ok_def relay_basic_def observed_ok_def metrics_ok_def)

lemma cc_inv_activate:
  assumes "cc_inv s" and "scs_agent_ids (current_comm_state s) = sort (observed_agent_ids s)"
    and "0 < selectRelayAgent p a now s"
  shows "cc_inv (cc_activateRelay (selectRelayAgent p a now s) a now s)"
proof -
  have "\<forall>x \<in> set (agent_cache s). 0 < fst x" using assms(1) by (auto simp: cc_inv_def observed_ok_def)
  from selectRelayAgent_cached [OF this assms(3)]
  have cached: "selectRelayAgent p a now s \<in> fst ` set (agent_cache s)" .
  then have "selectRelayAgent p a now s \<in> set (observed_agent_ids s)"
    using assms(1) by (auto simp: cc_inv_def observed_ok_def)
  with cached assms show ?thesis
    by (simp add: cc_inv_def cc_activateRelay_def Let_def relay_ok_def relay_basic_def observed_ok_def metrics_ok_def)
qed

lemma eval_policy_inv:
  assumes "cc_inv s" and "scs_agent_ids (current_comm_state s) = sort (observed_agent_ids s)"
  shows "cc_inv (eval_policy p now s)"
proof -
  have "cc_inv (s\<lparr>relay_anchor := a\<rparr>)" for a using assms(1) by simp
  moreover have "cc_inv (cc_deactivateRelay now r s)" for r
    using cc_inv_deactivate [OF cc_inv_mid [OF assms(1)]] .
  moreover have "cc_inv (cc_deactivateRelay now r (cc_noteRelayProgress p now s\<lparr>relay_anchor := a\<rparr>))" for r a
    using cc_inv_progress [OF assms(1)] by (intro cc_inv_deactivate cc_inv_mid) simp
  ultimately show ?thesis
    using assms cc_inv_progress [OF assms(1)] cc_inv_activate [OF assms]
    by (simp add: eval_policy_def Let_def split: option.split)
qed

lemma evaluate_inv: "cc_mid s \<Longrightarrow> cc_inv (fst (evaluateAndPublish p src now s))"
  using eval_policy_inv eval_graph_inv by (simp add: evaluateAndPublish_def Let_def)

lemma cc_inv_metrics: "cc_inv s \<Longrightarrow> cc_inv (taskMetricsCallback data s)"
proof -
  assume inv: "cc_inv s"
  have "relay_ok (taskMetricsCallback data s)"
    using inv by (auto simp: cc_inv_def relay_ok_def relay_basic_def taskMetricsCallback_def Let_def)
  with inv show ?thesis by (simp add: cc_inv_def observed_ok_metrics metrics_ok_task)
qed

lemma cc_inv_service: "cc_inv s \<Longrightarrow> cc_inv (fst (cc_handle p parse now (ServiceCall agents bytes) s))"
proof -
  assume "cc_inv s"
  then have mid: "cc_mid (updateAgentCache p agents now s)" by (intro cc_mid_updateCache cc_inv_mid)
  show ?thesis
    using evaluate_inv [OF mid] evaluate_inv [OF cc_mid_apply [OF mid]]
    by (auto simp: getAgentVelocitiesCallback_def Let_def split_beta split: option.split)
qed

lemma cc_inv_raw: "cc_inv s \<Longrightarrow> cc_inv (fst (rawCommCallback p parse bytes now s))"
proof -
  assume inv: "cc_inv s"
  have mid: "cc_mid (snd (applyCommSnapshot snap kRawTopic False now s)\<lparr>last_raw_topic_update := now\<rparr>)" for snap
    using cc_mid_apply [OF cc_inv_mid [OF inv], of snap kRawTopic False now]
    by (simp add: cc_mid_def observed_ok_def metrics_ok_def relay_basic_def)
  have rejected: "applyCommSnapshot snap kRawTopic False now s = (False, s') \<Longrightarrow> s' = s" for snap s'
    using applyCommSnapshot_rejected [of snap kRawTopic False now s] by simp
  have "cc_inv (fst (evaluateAndPublish p kRawTopic now (s'\<lparr>last_raw_topic_update := now\<rparr>)))"
    if "applyCommSnapshot snap kRawTopic False now s = (True, s')" for snap s'
    using evaluate_inv [OF mid [of snap]] that by simp
  with inv rejected show ?thesis
    unfolding rawCommCallback_def by (fastforce split: option.split bool.split prod.split)
qed

lemma cc_inv_init: "cc_inv cc_init"
  using observed_ok_init metrics_ok_init by (simp add: cc_inv_def relay_ok_def relay_basic_def cc_init_def)

lemma cc_reach_inv: "cc_reach p parse t s \<Longrightarrow> cc_inv s"
proof (induction rule: cc_reach.induct)
  case (event t s t' e)
  then show ?case by (cases e) (auto intro: cc_inv_service cc_inv_raw cc_inv_metrics simp del: cc_handle.simps(1))
qed (rule cc_inv_init)

end
