(* ===== verification/Comm_Claims.thy ===== *)
theory Comm_Claims imports Comm_Props
begin

text \<open>
  The properties of the central relay controller, each with an instance on a small swarm: three
  agents, of which the first has just been heard by the second.
\<close>

section \<open>A concrete swarm\<close>

definition ex_edge :: DirectedEdgeState where
  "ex_edge = \<lparr>de_last_rx_time_us = 1000000, de_quality = 1, de_delay_sec = 0\<rparr>"

definition ex_agent :: "real \<Rightarrow> AgentCacheEntry" where
  "ex_agent x = \<lparr>ac_platform_id = 0, ac_position = \<lparr>px = x, py = 0, pz = 1\<rparr>, ac_velocity = zero_vector,
     ac_heading = 0, ac_stamp = 9\<rparr>"

definition ex_swarm :: cc_state where
  "ex_swarm = cc_init\<lparr>observed_agent_ids := [1, 2, 3],
     agent_last_observed_wall_time := [(1, 9), (2, 9), (3, 9)],
     agent_cache := [(1, ex_agent 0), (2, ex_agent 2), (3, ex_agent 9)],
     directed_edges := [(DirectedKey 1 2, ex_edge)], latest_comm_horizon_us := 1000000\<rparr>"

lemma ex_swarm_ids [simp]: "observed_agent_ids ex_swarm = [1, 2, 3]"
  by (simp add: ex_swarm_def)

lemma ex_swarm_ids_ok: "agent_ids_ok (observed_agent_ids ex_swarm)"
  by (simp add: agent_ids_ok_def int32_def)

lemma ex_swarm_mid: "cc_mid ex_swarm"
  by (simp add: cc_mid_def observed_ok_def metrics_ok_def relay_basic_def ex_swarm_def cc_init_def)

lemma ex_link_age: "link_age 1000000 ex_edge = Some 0"
  by (simp add: link_age_def ex_edge_def)

lemma ex_link_12: "latestLinkUp 1 2 (updateCommGraph cc_default_params 10 ex_swarm)"
proof -
  have "lk_up (link_report cc_default_params 1000000 [(DirectedKey 1 2, ex_edge)] [] 1 2)"
    by (simp add: link_report_def Let_def ex_link_age cc_default_params_def)
  then show ?thesis
    using updateCommGraph_links [OF ex_swarm_ids_ok, of 1 2 cc_default_params 10]
    by (simp add: ex_swarm_def cc_init_def)
qed

section \<open>The input side\<close>

text \<open>Packing the source and destination of a link into one 64-bit key loses nothing: both ids
  can be read back, so different links have different keys.\<close>

theorem link_key_round_trip:
  assumes "int32 src" and "int32 dst"
  shows "DirectedKeySrc (DirectedKey src dst) = src \<and> DirectedKeyDst (DirectedKey src dst) = dst \<and>
    (\<forall>src' dst'. int32 src' \<longrightarrow> int32 dst' \<longrightarrow> DirectedKey src' dst' = DirectedKey src dst \<longrightarrow>
       src' = src \<and> dst' = dst)"
  using DirectedKeySrc_key [OF assms(1)] DirectedKeyDst_key [OF assms(2)] DirectedKey_inj assms by blast

theorem link_key_round_trip_witness: "DirectedKeySrc (DirectedKey 7 (-1)) = 7 \<and> DirectedKeyDst (DirectedKey 7 (-1)) = -1"
  using link_key_round_trip [of 7 "-1"] by (simp add: int32_def)

text \<open>A decoded snapshot holds for each link exactly the freshest event reported for it (the
  latest, and of equally late ones the best quality), none for a link without events, and its
  horizon is not before any of them nor before the end of the window.\<close>

theorem decode_keeps_freshest:
  assumes "decodeCommSnapshot parse offset bytes = Some snap"
  shows "\<exists>payload. parse bytes = Some payload \<and> cs_horizon_time_us snap \<noteq> 0 \<and>
    np_t_window_end_us payload \<le> cs_horizon_time_us snap \<and>
    (\<forall>key. freshest (reported offset (np_t_window_end_us payload) (np_events payload) key)
       (map_of (cs_edges snap) key)) \<and>
    (\<forall>key e. map_of (cs_edges snap) key = Some e \<longrightarrow> de_last_rx_time_us e \<le> cs_horizon_time_us snap)"
  using decodeCommSnapshot_ok [OF assms] unfolding decode_ok_def by blast

definition ex_payload :: NetRxEventsPayload where
  "ex_payload = \<lparr>np_t_window_end_us = 500, np_events = [\<lparr>re_src_id = 0, re_dst_id = 1, re_tx_time_us = 0,
     re_rx_time_us = 400, re_delay_us = 0, re_rssi_dbm_x10 = 0\<rparr>]\<rparr>"

theorem decode_keeps_freshest_witness:
  "\<exists>snap. decodeCommSnapshot (\<lambda>_. Some ex_payload) (-1) [0] = Some snap \<and> 500 \<le> cs_horizon_time_us snap"
proof -
  obtain snap where "decodeCommSnapshot (\<lambda>_. Some ex_payload) (-1) [0] = Some snap"
    by (simp add: decodeCommSnapshot_def ex_payload_def decode_event_def RacerIdFromPlatformId_def
        Let_def event_edge_def resolveEventTimeUs_def fresher_def)
  with decode_keeps_freshest [OF this] show ?thesis by (auto simp: ex_payload_def)
qed

text \<open>A snapshot is applied exactly when its horizon is later than the latest one; otherwise
  nothing changes, so links never go back in time. When it is applied, its links overwrite the
  stored ones and the others stay (or are dropped when the graph is replaced).\<close>

theorem snapshot_application:
  assumes "distinct_keys (cs_edges snap)"
  shows "(fst (applyCommSnapshot snap src replace now s) \<longleftrightarrow>
      cs_horizon_time_us snap \<noteq> 0 \<and> latest_comm_horizon_us s < cs_horizon_time_us snap) \<and>
    (\<not> fst (applyCommSnapshot snap src replace now s) \<longrightarrow> snd (applyCommSnapshot snap src replace now s) = s) \<and>
    latest_comm_horizon_us (snd (applyCommSnapshot snap src replace now s)) =
      max (latest_comm_horizon_us s) (cs_horizon_time_us snap) \<and>
    (fst (applyCommSnapshot snap src replace now s) \<longrightarrow>
      (\<forall>key. map_of (directed_edges (snd (applyCommSnapshot snap src replace now s))) key =
        (case map_of (cs_edges snap) key of
           Some e \<Rightarrow> Some e
         | None \<Rightarrow> if replace then None else map_of (directed_edges s) key)))"
  using applyCommSnapshot_horizon applyCommSnapshot_rejected applyCommSnapshot_links [OF _ assms] by blast

theorem snapshot_application_witness:
  "fst (applyCommSnapshot \<lparr>cs_horizon_time_us = 2000000, cs_edges = [], cs_observed_agent_ids = []\<rparr>
     kRawTopic False 10 ex_swarm)"
  using snapshot_application [of "\<lparr>cs_horizon_time_us = 2000000, cs_edges = [], cs_observed_agent_ids = []\<rparr>"
      kRawTopic False 10 ex_swarm]
  by (simp add: ex_swarm_def)

section \<open>The graph\<close>

text \<open>C27: after a graph update two observed agents carry the same component number exactly when a
  chain of links that are up connects them; the numbers in use are exactly \<open>1\<close> to the published
  number of components.\<close>

theorem components_are_reachability:
  assumes "agent_ids_ok (observed_agent_ids s)" and "observed_agent_ids s \<noteq> []"
    and "a \<in> set (observed_agent_ids s)" and "b \<in> set (observed_agent_ids s)"
  shows "(map_of (latest_components (updateCommGraph p now s)) a =
      map_of (latest_components (updateCommGraph p now s)) b \<longleftrightarrow>
      (a, b) \<in> {(x, y). x \<in> set (observed_agent_ids s) \<and> y \<in> set (observed_agent_ids s) \<and> x \<noteq> y \<and>
        undirected_link_up p (updateCommGraph p now s) x y}\<^sup>*) \<and>
    (\<forall>c. (\<exists>i \<in> set (observed_agent_ids s). map_of (latest_components (updateCommGraph p now s)) i = Some c) \<longleftrightarrow>
       1 \<le> c \<and> c \<le> scs_num_components (current_comm_state (updateCommGraph p now s)))"
  using updateCommGraph_components(1) [OF assms(1,2), of a b p now] assms(3,4)
    updateCommGraph_components(2) [OF assms(1,2), of _ p now]
    updateCommGraph_components(3) [OF assms(1,2), of _ p now]
  by fastforce

theorem components_are_reachability_witness:
  "map_of (latest_components (updateCommGraph cc_default_params 10 ex_swarm)) 1 =
   map_of (latest_components (updateCommGraph cc_default_params 10 ex_swarm)) 2"
proof -
  have "(1, 2) \<in> {(x, y). x \<in> set (observed_agent_ids ex_swarm) \<and> y \<in> set (observed_agent_ids ex_swarm) \<and>
      x \<noteq> y \<and> undirected_link_up cc_default_params (updateCommGraph cc_default_params 10 ex_swarm) x y}"
    using ex_link_12 by (simp add: undirected_link_up_def cc_default_params_def)
  with components_are_reachability [OF ex_swarm_ids_ok, of 1 2 cc_default_params 10] show ?thesis
    by (simp add: r_into_rtrancl)
qed

text \<open>The links have hysteresis: with bounded parameters a link no older than the trigger age is
  up, a link older than the exit age (or never heard) is down, and in between it stays as it was.\<close>

theorem link_hysteresis:
  assumes "agent_ids_ok (observed_agent_ids s)" and "a \<in> set (observed_agent_ids s)"
    and "b \<in> set (observed_agent_ids s)" and "a \<noteq> b"
    and "age = (case map_of (directed_edges s) (DirectedKey a b) of
        None \<Rightarrow> None | Some e \<Rightarrow> link_age (latest_comm_horizon_us s) e)"
  shows "latestLinkUp a b (updateCommGraph (cc_bound_params q) now s) =
    (case age of
       None \<Rightarrow> False
     | Some t \<Rightarrow>
         if t \<le> relay_trigger_age_threshold (cc_bound_params q) then True
         else if relay_link_exit_age_threshold (cc_bound_params q) < t then False
         else latestLinkUp a b s)"
proof -
  have "relay_trigger_age_threshold (cc_bound_params q) \<le> relay_link_exit_age_threshold (cc_bound_params q)"
    by (simp add: cc_bound_params_def Let_def)
  then show ?thesis
    using updateCommGraph_links [OF assms(1-4), of "cc_bound_params q" now] assms(5)
    by (auto simp: link_report_def Let_def latestLinkUp_def split: option.splits)
qed

lemma ex_trigger: "relay_trigger_age_threshold (cc_bound_params cc_default_params) = 1 / 2"
  by (simp add: cc_bound_params_def cc_default_params_def Let_def)

theorem link_hysteresis_witness:
  "latestLinkUp 1 2 (updateCommGraph (cc_bound_params cc_default_params) 10 ex_swarm)"
proof -
  have "Some 0 = (case map_of (directed_edges ex_swarm) (DirectedKey 1 2) of
      None \<Rightarrow> None | Some e \<Rightarrow> link_age (latest_comm_horizon_us ex_swarm) e)"
    by (simp add: ex_swarm_def ex_link_age)
  from link_hysteresis [OF ex_swarm_ids_ok _ _ _ this, of cc_default_params 10] show ?thesis
    by (simp add: ex_trigger)
qed

section \<open>The role\<close>

text \<open>C25: in every reachable state the observed agents are positive and unique, every cached agent is
  observed, the completion ratio lies between zero and one, and an active relay is an agent that
  is both cached with a pose and listed in the published graph, while without a relay its id is \<open>-1\<close>.\<close>

theorem comm_reachable_invariant: "cc_reach p parse t s \<Longrightarrow> cc_inv s"
  by (rule cc_reach_inv)

theorem comm_reachable_invariant_witness:
  "cc_inv (fst (cc_handle cc_default_params (\<lambda>_. None) 11 (ServiceCall [] [1])
     (fst (cc_handle cc_default_params (\<lambda>_. None) 10 (TaskMetrics [100, 3]) cc_init))))"
  by (rule comm_reachable_invariant, rule cc_reach.event [where t = 10], rule cc_reach.event [where t = 9],
      rule cc_reach.start) simp_all

lemma policy_ids:
  "scs_agent_ids (current_comm_state (eval_policy p now s)) = scs_agent_ids (current_comm_state s)"
  "observed_agent_ids (eval_policy p now s) = observed_agent_ids s"
  by (auto simp: eval_policy_def Let_def cc_activateRelay_def split: option.splits)

lemma filter_the_one: "distinct xs \<Longrightarrow> x \<in> set xs \<Longrightarrow> filter (\<lambda>i. i = x) xs = [x]"
  by (induction xs) (auto simp: filter_empty_conv)

lemma evaluate_cmds:
  fixes src now
  assumes "cc_mid s" and "publish_relay_role_cmds p"
  defines "s' \<equiv> fst (evaluateAndPublish p src now s)" and "cmds \<equiv> snd (evaluateAndPublish p src now s)"
  shows "map rrc_agent_id cmds = sort (observed_agent_ids s') \<and> distinct (map rrc_agent_id cmds) \<and>
    map rrc_agent_id (filter (\<lambda>c. rrc_role c = ROLE_RELAY) cmds) =
      (if relay_active s' then [relay_agent_id s'] else [])"
proof -
  let ?g = "eval_graph p src now s"
  have inv: "cc_inv s'" unfolding s'_def by (rule evaluate_inv [OF assms(1)])
  have cmds: "cmds = publishRelayRoleCommands p now s'" and
    ids: "scs_agent_ids (current_comm_state s') = sort (observed_agent_ids s')"
    using assms(2) eval_graph_inv [OF assms(1), of p src now]
    by (simp_all add: cmds_def s'_def evaluateAndPublish_def Let_def publishSwarmCommState_def policy_ids)
  have agents: "map rrc_agent_id cmds = sort (observed_agent_ids s')"
    by (simp add: cmds publishRelayRoleCommands_def ids cc_role_cmd_def Let_def comp_def)
  have dist: "distinct (sort (observed_agent_ids s'))" using inv by (simp add: cc_inv_def observed_ok_def)
  have "map rrc_agent_id (filter (\<lambda>c. rrc_role c = ROLE_RELAY) cmds) =
      filter (\<lambda>i. relay_active s' \<and> i = relay_agent_id s') (sort (observed_agent_ids s'))"
    by (simp add: cmds publishRelayRoleCommands_def ids cc_role_cmd_def Let_def filter_map comp_def)
  also have "\<dots> = (if relay_active s' then [relay_agent_id s'] else [])"
  proof (cases "relay_active s'")
    case True
    with inv ids have "relay_agent_id s' \<in> set (sort (observed_agent_ids s'))"
      by (simp add: cc_inv_def relay_ok_def)
    with True dist show ?thesis by (simp add: filter_the_one)
  qed simp
  finally show ?thesis using agents dist by simp
qed

text \<open>C26: if commands are published, the evaluation of a service request in any reachable state sends each
  observed agent exactly one, and exactly one of them is a relay command when a relay is active (to that
  relay), none otherwise; the velocities of the answer are zero.\<close>

theorem one_relay_command:
  assumes "cc_reach p parse t s" and "publish_relay_role_cmds p"
    and "getAgentVelocitiesCallback p parse agents bytes now s = (s', cmds, res)"
  shows "map rrc_agent_id cmds = sort (observed_agent_ids s') \<and> distinct (map rrc_agent_id cmds) \<and>
    map rrc_agent_id (filter (\<lambda>c. rrc_role c = ROLE_RELAY) cmds) =
      (if relay_active s' then [relay_agent_id s'] else []) \<and>
    (\<forall>v \<in> set res. vh_velocity v = zero_vector)"
proof -
  let ?u = "updateAgentCache p agents now s"
  have mid: "cc_mid ?u" using cc_reach_inv [OF assms(1)] by (intro cc_mid_updateCache cc_inv_mid)
  have "\<exists>s1 src. cc_mid s1 \<and> (s', cmds) = evaluateAndPublish p src now s1"
  proof (cases "decodeCommSnapshot parse (id_offset p) bytes")
    case None
    with assms(3) have "(s', cmds) = evaluateAndPublish p kUnknown now ?u"
      by (auto simp: getAgentVelocitiesCallback_def Let_def split_beta)
    with mid show ?thesis by blast
  next
    case (Some snap)
    let ?a = "applyCommSnapshot snap kServiceChain (service_input_replaces_graph p) now ?u"
    have "cc_mid (snd ?a)" by (rule cc_mid_apply [OF mid])
    moreover have "(s', cmds) = evaluateAndPublish p (if fst ?a then kServiceChain else kUnknown) now (snd ?a)"
      using assms(3) Some by (auto simp: getAgentVelocitiesCallback_def Let_def split_beta)
    ultimately show ?thesis by blast
  qed
  then obtain s1 src where s1: "cc_mid s1" "(s', cmds) = evaluateAndPublish p src now s1" by blast
  have "\<forall>v \<in> set res. vh_velocity v = zero_vector"
    using assms(3) by (auto simp: getAgentVelocitiesCallback_def fillZeroVelocityResponse_def Let_def
        split_beta split: option.splits)
  moreover have "s' = fst (evaluateAndPublish p src now s1)" "cmds = snd (evaluateAndPublish p src now s1)"
    by (simp_all flip: s1(2))
  ultimately show ?thesis using evaluate_cmds [OF s1(1) assms(2), of src now] by blast
qed

lemma ex_publishes: "publish_relay_role_cmds cc_default_params"
  by (simp add: cc_default_params_def)

theorem one_relay_command_witness:
  "\<exists>s' cmds res. getAgentVelocitiesCallback cc_default_params (\<lambda>_. None)
      [\<lparr>as_agent_id = 0, as_position = zero_point, as_velocity = zero_vector, as_heading = 0\<rparr>] [] 10 cc_init =
      (s', cmds, res) \<and> distinct (map rrc_agent_id cmds)"
proof -
  obtain s' cmds res where "getAgentVelocitiesCallback cc_default_params (\<lambda>_. None)
      [\<lparr>as_agent_id = 0, as_position = zero_point, as_velocity = zero_vector, as_heading = 0\<rparr>] [] 10 cc_init =
      (s', cmds, res)" by (metis prod_cases3)
  with one_relay_command [OF cc_reach.start [of 9] ex_publishes this] show ?thesis by auto
qed

text \<open>the relay agent chosen has the least score of the cached agents that did not fail as a relay
  within the cooldown; an agent that did is chosen only when no other agent is cached.\<close>

theorem relay_selection:
  assumes "cc_inv s" and "agent_cache s \<noteq> []"
  shows "\<exists>a \<in> set (agent_cache s). selectRelayAgent p anchor now s = fst a \<and> 0 < fst a \<and>
    (\<forall>b \<in> set (agent_cache s). \<not> recently_failed p now s b \<longrightarrow>
       \<not> recently_failed p now s a \<and> agent_score p s anchor a \<le> agent_score p s anchor b)"
proof -
  have pos: "\<forall>a \<in> set (agent_cache s). 0 < fst a" using assms(1) by (auto simp: cc_inv_def observed_ok_def)
  from selectRelayAgent_spec [OF pos assms(2), of p anchor now] pos show ?thesis by metis
qed

lemma ex_swarm_inv: "cc_inv ex_swarm"
  using ex_swarm_mid by (simp add: cc_inv_def cc_mid_def relay_ok_def ex_swarm_def cc_init_def)

theorem relay_selection_witness:
  "selectRelayAgent cc_default_params zero_point 10 ex_swarm \<in> {1, 2, 3}"
  using relay_selection [OF ex_swarm_inv, of cc_default_params zero_point 10]
  by (auto simp: ex_swarm_def)

section \<open>One evaluation\<close>

text \<open>Two agents that have not heard each other since time \<open>7\<close>.\<close>

definition ex_cc_params :: cc_params where
  "ex_cc_params = cc_default_params\<lparr>relay_suppress_balanced_split := False\<rparr>"

definition ex_split :: cc_state where
  "ex_split = cc_init\<lparr>observed_agent_ids := [1, 3], agent_last_observed_wall_time := [(1, 9), (3, 9)],
     agent_cache := [(1, ex_agent 0), (3, ex_agent 9)], fragmented_since := 7, first_eval_time := 1\<rparr>"

definition ex_graph :: "cc_state \<Rightarrow> cc_state" where
  "ex_graph s = updateCommGraph ex_cc_params 10 s"

lemma ex_split_prune: "pruneStaleState ex_cc_params 10 ex_split = ex_split"
  by (simp add: pruneStaleState_def Let_def ex_split_def cc_init_def ex_cc_params_def cc_default_params_def
      observation_expired_def agent_expired_def ex_agent_def prune_def)

lemma ex_split_graph: "eval_graph ex_cc_params kUnknown 10 ex_split = ex_graph ex_split"
proof -
  have "first_eval_time ex_split = 1" by (simp add: ex_split_def)
  moreover have "\<not> relay_active (ex_graph ex_split)"
    using same_fields_graph [of ex_cc_params 10 ex_split]
    by (simp add: ex_graph_def role_fields_def ex_split_def cc_init_def)
  ultimately show ?thesis
    by (simp add: eval_graph_def Let_def ex_split_prune drop_stale_relay_def ex_graph_def)
qed

lemma ex_split_ids: "observed_agent_ids ex_split = [1, 3]" "agent_ids_ok (observed_agent_ids ex_split)"
  by (simp_all add: ex_split_def agent_ids_ok_def int32_def)

lemma ex_split_components: "2 \<le> scs_num_components (current_comm_state (ex_graph ex_split))"
proof -
  have down: "\<not> latestLinkUp a b (ex_graph ex_split)" if "a \<in> {1, 3}" "b \<in> {1, 3}" "a \<noteq> b" for a b
    using updateCommGraph_links [OF ex_split_ids(2), of a b ex_cc_params 10] that
    by (simp add: ex_graph_def ex_split_def cc_init_def link_report_def Let_def)
  have "(1, 3) \<notin> {(x, y). x \<in> set (observed_agent_ids ex_split) \<and> y \<in> set (observed_agent_ids ex_split) \<and>
      x \<noteq> y \<and> undirected_link_up ex_cc_params (ex_graph ex_split) x y}\<^sup>*"
  proof -
    have "{(x, y). x \<in> set (observed_agent_ids ex_split) \<and> y \<in> set (observed_agent_ids ex_split) \<and>
        x \<noteq> y \<and> undirected_link_up ex_cc_params (ex_graph ex_split) x y} = {}"
      using down by (auto simp: ex_split_ids undirected_link_up_def)
    then show ?thesis by (simp only: rtrancl_empty) simp
  qed
  then have "map_of (latest_components (ex_graph ex_split)) 1 \<noteq> map_of (latest_components (ex_graph ex_split)) 3"
    using updateCommGraph_components(1) [OF ex_split_ids(2), of 1 3 ex_cc_params 10]
    unfolding ex_graph_def by (simp add: ex_split_ids(1))
  then show ?thesis
    using updateCommGraph_components(2) [OF ex_split_ids(2), of 1 ex_cc_params 10]
      updateCommGraph_components(2) [OF ex_split_ids(2), of 3 ex_cc_params 10]
    unfolding ex_graph_def by (fastforce simp: ex_split_ids(1))
qed

lemma graph_saw: "saw_task_metrics (updateCommGraph p now s) = saw_task_metrics s"
  by (auto simp: updateCommGraph_def Let_def update_split_timers_def split: prod.splits)

lemma ex_split_need: "evaluateRelayNeed ex_cc_params 10 (ex_graph ex_split)"
proof -
  have "fragmented_since (ex_graph ex_split) = 7"
    using updateCommGraph_components(8) [OF ex_split_ids(2), of ex_cc_params 10] ex_split_components
    unfolding ex_graph_def by (simp add: ex_split_ids(1)) (simp add: ex_split_def)
  moreover have "relay_exit_time (ex_graph ex_split) = 0"
    using same_fields_graph [of ex_cc_params 10 ex_split]
    by (simp add: ex_graph_def role_fields_def ex_split_def cc_init_def)
  moreover have "\<not> shouldSuppressRelayInEndgame ex_cc_params (ex_graph ex_split)"
    using graph_saw [of ex_cc_params 10 ex_split]
    by (simp add: shouldSuppressRelayInEndgame_def ex_graph_def ex_split_def cc_init_def)
  moreover have "scs_agent_ids (current_comm_state (ex_graph ex_split)) = [1, 3]"
    by (simp add: ex_graph_def ex_split_ids(1))
  ultimately show ?thesis
    using ex_split_components
    by (simp add: evaluateRelayNeed_def Let_def ex_cc_params_def cc_default_params_def
        shouldSuppressRelayForBalancedSplit_def)
qed

lemma policy_starts:
  assumes "\<not> relay_active g" and "relay_active (eval_policy p now g)"
  shows "cc_effectiveRelayPolicyMode p \<noteq> kOff \<and> evaluateRelayNeed p now g \<and>
    relay_agent_id (eval_policy p now g) = selectRelayAgent p (cc_computeRelayAnchor p g) now g"
  using assms by (auto simp: eval_policy_def Let_def cc_activateRelay_def split: if_splits)

text \<open>an evaluation starts a relay only under a policy that allows it, when the agents form at
  least two components and have done so for the persistence time, the re-entry cooldown since the
  last relay has passed, the exploration is not about to end, and the agent was selected for the
  anchor computed from the current graph.\<close>

theorem relay_starts_only_when_needed:
  assumes "\<not> relay_active (eval_graph p src now s)" and "relay_active (fst (evaluateAndPublish p src now s))"
    and "g = eval_graph p src now s"
  shows "cc_effectiveRelayPolicyMode p \<noteq> kOff \<and> 2 \<le> scs_num_components (current_comm_state g) \<and>
    2 \<le> length (scs_agent_ids (current_comm_state g)) \<and>
    fragmented_since g \<noteq> 0 \<and> relay_trigger_persist_time p \<le> now - fragmented_since g \<and>
    (relay_exit_time g = 0 \<or> relay_reenter_cooldown p \<le> now - relay_exit_time g) \<and>
    \<not> shouldSuppressRelayInEndgame p g \<and>
    relay_agent_id (fst (evaluateAndPublish p src now s)) =
      selectRelayAgent p (cc_computeRelayAnchor p g) now g"
  using policy_starts [of g p now] assms
  by (auto simp: evaluateAndPublish_def Let_def publishSwarmCommState_def evaluateRelayNeed_def split: if_splits)

lemma exit_hold: "now - relay_change_time s < relay_min_hold_time p \<Longrightarrow> evaluateRelayExit p now s = None"
  by (simp add: evaluateRelayExit_def Let_def)

lemma exit_max:
  assumes "relay_active s" "0 < relay_agent_id s" "relay_min_hold_time p \<le> now - relay_change_time s"
    "0 < relay_max_active_duration p" "relay_max_active_duration p \<le> now - relay_change_time s"
  shows "evaluateRelayExit p now s \<noteq> None"
  using assms by (auto simp: evaluateRelayExit_def Let_def)

theorem relay_starts_only_when_needed_witness:
  "relay_agent_id (fst (evaluateAndPublish ex_cc_params kUnknown 10 ex_split)) =
   selectRelayAgent ex_cc_params (cc_computeRelayAnchor ex_cc_params (ex_graph ex_split)) 10 (ex_graph ex_split)"
proof -
  have mid: "cc_mid ex_split"
    by (simp add: cc_mid_def observed_ok_def metrics_ok_def relay_basic_def ex_split_def cc_init_def)
  have inv: "cc_inv (ex_graph ex_split)"
    using eval_graph_inv [OF mid, of ex_cc_params kUnknown 10] by (simp add: ex_split_graph)
  have cache: "agent_cache (ex_graph ex_split) = [(1, ex_agent 0), (3, ex_agent 9)]"
    by (simp add: ex_graph_def ex_split_def)
  have off: "\<not> relay_active (ex_graph ex_split)"
    using same_fields_graph [of ex_cc_params 10 ex_split]
    by (simp add: ex_graph_def role_fields_def ex_split_def cc_init_def)
  have "0 < selectRelayAgent ex_cc_params a 10 (ex_graph ex_split)" for a
    using selectRelayAgent_spec [of "ex_graph ex_split" ex_cc_params a 10] cache by auto
  moreover have "cc_effectiveRelayPolicyMode ex_cc_params = kRule"
    by (simp add: cc_effectiveRelayPolicyMode_def ex_cc_params_def cc_default_params_def)
  ultimately have on: "relay_active (fst (evaluateAndPublish ex_cc_params kUnknown 10 ex_split))"
    using off ex_split_need
    by (simp add: evaluateAndPublish_def Let_def ex_split_graph eval_policy_def cc_activateRelay_def
        publishSwarmCommState_def)
  from relay_starts_only_when_needed [OF _ on refl] off show ?thesis by (simp add: ex_split_graph)
qed

text \<open>An active relay that is still seen keeps its role and its agent until the minimum hold time
  has passed, and loses it in the first evaluation after the maximum duration.\<close>

theorem relay_hold_and_limit:
  assumes "relay_active g" and "0 < relay_agent_id g" and "cc_effectiveRelayPolicyMode p \<noteq> kOff"
    and "g = eval_graph p src now s"
  shows "(now - relay_change_time g < relay_min_hold_time p \<longrightarrow>
      relay_active (fst (evaluateAndPublish p src now s)) \<and>
      relay_agent_id (fst (evaluateAndPublish p src now s)) = relay_agent_id g \<and>
      relay_change_time (fst (evaluateAndPublish p src now s)) = relay_change_time g) \<and>
    (relay_min_hold_time p \<le> now - relay_change_time g \<and> 0 < relay_max_active_duration p \<and>
     relay_max_active_duration p \<le> now - relay_change_time g \<longrightarrow>
      \<not> relay_active (fst (evaluateAndPublish p src now s)) \<and>
      relay_exit_time (fst (evaluateAndPublish p src now s)) = now)"
proof -
  let ?n = "(cc_noteRelayProgress p now g)\<lparr>relay_anchor := cc_computeRelayAnchor p (cc_noteRelayProgress p now g)\<rparr>"
  have pol: "eval_policy p now g = (case evaluateRelayExit p now ?n of
      None \<Rightarrow> ?n | Some reason \<Rightarrow> cc_deactivateRelay now reason ?n)"
    using assms(1,3) by (simp add: eval_policy_def Let_def)
  show ?thesis
    using pol assms exit_hold [of now ?n p] exit_max [of ?n p now]
    by (auto simp: evaluateAndPublish_def Let_def publishSwarmCommState_def)
qed

definition ex_relaying :: cc_state where
  "ex_relaying = ex_split\<lparr>relay_active := True, relay_agent_id := 1, relay_change_time := 9\<rparr>"

lemma ex_relaying_graph:
  "relay_active (eval_graph ex_cc_params kUnknown 10 ex_relaying)"
  "relay_agent_id (eval_graph ex_cc_params kUnknown 10 ex_relaying) = 1"
  "relay_change_time (eval_graph ex_cc_params kUnknown 10 ex_relaying) = 9"
proof -
  have "pruneStaleState ex_cc_params 10 ex_relaying = ex_relaying"
    using ex_split_prune
    by (simp add: pruneStaleState_def Let_def ex_relaying_def ex_split_def cc_init_def ex_cc_params_def
        cc_default_params_def observation_expired_def agent_expired_def ex_agent_def prune_def)
  moreover have "first_eval_time ex_relaying = 1" by (simp add: ex_relaying_def ex_split_def)
  ultimately have eq: "eval_graph ex_cc_params kUnknown 10 ex_relaying =
      drop_stale_relay 10 (updateCommGraph ex_cc_params 10 ex_relaying)"
    by (simp add: eval_graph_def Let_def)
  have role: "relay_active (updateCommGraph ex_cc_params 10 ex_relaying)"
    "relay_agent_id (updateCommGraph ex_cc_params 10 ex_relaying) = 1"
    "relay_change_time (updateCommGraph ex_cc_params 10 ex_relaying) = 9"
    using same_fields_graph [of ex_cc_params 10 ex_relaying]
    by (simp_all add: role_fields_def ex_relaying_def)
  then have "eval_graph ex_cc_params kUnknown 10 ex_relaying = updateCommGraph ex_cc_params 10 ex_relaying"
    by (simp add: eq drop_stale_relay_def) (simp add: ex_relaying_def ex_split_def)
  with role show "relay_active (eval_graph ex_cc_params kUnknown 10 ex_relaying)"
    "relay_agent_id (eval_graph ex_cc_params kUnknown 10 ex_relaying) = 1"
    "relay_change_time (eval_graph ex_cc_params kUnknown 10 ex_relaying) = 9" by simp_all
qed

theorem relay_hold_and_limit_witness:
  "relay_active (fst (evaluateAndPublish ex_cc_params kUnknown 10 ex_relaying))"
  using relay_hold_and_limit [OF ex_relaying_graph(1), of ex_cc_params kUnknown 10 ex_relaying]
  by (simp add: ex_relaying_graph cc_effectiveRelayPolicyMode_def)
    (simp add: ex_cc_params_def cc_default_params_def)

text \<open>With three or more components the anchor is a candidate (the weighted centroid or a bridge
  point of two components) whose weighted distance to all components is least among the candidates.\<close>

theorem anchor_least_distance:
  assumes "best_anchor p s components = Some a"
  shows "\<exists>x. a \<in> set (anchor_candidates p s components) \<and>
    scoreAnchorAgainstComponents s a components = Some x \<and>
    (\<forall>c \<in> set (anchor_candidates p s components). \<forall>y.
       scoreAnchorAgainstComponents s c components = Some y \<longrightarrow> x \<le> y)"
  by (rule best_anchor_spec [OF assms])

theorem anchor_least_distance_witness:
  "\<exists>a. best_anchor cc_default_params ex_swarm [[1], [2], [3]] = Some a \<and>
     a \<in> set (anchor_candidates cc_default_params ex_swarm [[1], [2], [3]])"
proof -
  have point: "cc_point ex_swarm 1 = Some \<lparr>px = 0, py = 0, pz = 1\<rparr>"
    "cc_point ex_swarm 2 = Some \<lparr>px = 2, py = 0, pz = 1\<rparr>" "cc_point ex_swarm 3 = Some \<lparr>px = 9, py = 0, pz = 1\<rparr>"
    by (simp_all add: cc_point_def ex_swarm_def ex_agent_def)
  obtain c where c: "computeWeightedCentroidForComponents ex_swarm [[1], [2], [3]] = Some c"
    by (simp add: computeWeightedCentroidForComponents_def computeCentroidForAgents_def point
        component_weight_def List.map_filter_def)
  then have cand: "c \<in> set (anchor_candidates cc_default_params ex_swarm [[1], [2], [3]])"
    by (simp add: anchor_candidates_def)
  obtain x where "scoreAnchorAgainstComponents ex_swarm c [[1], [2], [3]] = Some x"
    by (simp add: scoreAnchorAgainstComponents_def distanceToClosestAgent_def closest_step_def point
        List.map_filter_def)
  with anchor_scan.scan_best [OF anchor_scan_all _ cand, of None
      "\<lambda>c. scoreAnchorAgainstComponents ex_swarm c [[1], [2], [3]]" x]
  obtain a where "best_anchor cc_default_params ex_swarm [[1], [2], [3]] = Some a"
    by (auto simp: best_anchor_def)
  with anchor_least_distance [OF this] show ?thesis by blast
qed

end
