(* ===== verification/Assignment_Messages.thy ===== *)
theory Assignment_Messages imports Relay_Prelude
begin

text \<open>
  The messages of the grid assignment protocol (\<open>exploration_manager/msg\<close>) that the allocation
  coordinator and the exploration state machines of the drones exchange. Epochs, versions and
  transaction numbers are \<open>uint64\<close>, so their arithmetic wraps.
\<close>

record AllocationRequest =
  arq_component_epoch :: "64 word"
  arq_leader_id :: int
  arq_requester_id :: int
  arq_grid_ids :: "int list"
  arq_txn_id :: "64 word"
  arq_reason :: string
  arq_stamp :: real

text \<open>\<open>AssignmentPlan\<close>, \<open>AssignmentCommit\<close> and \<open>ReleaseRequest\<close> have the same fields.\<close>

record AssignmentPlan =
  apl_component_epoch :: "64 word"
  apl_leader_id :: int
  apl_grid_ids :: "int list"
  apl_owner_ids :: "int list"
  apl_owner_versions :: "64 word list"
  apl_txn_id :: "64 word"
  apl_reason :: string
  apl_stamp :: real

type_synonym AssignmentCommit = AssignmentPlan
type_synonym ReleaseRequest = AssignmentPlan

record AssignmentAck =
  aak_component_epoch :: "64 word"
  aak_leader_id :: int
  aak_grid_id :: int
  aak_owner_id :: int
  aak_owner_version :: "64 word"
  aak_txn_id :: "64 word"
  aak_accept :: bool
  aak_reason :: string
  aak_stamp :: real

record ComponentState =
  cst_component_epoch :: "64 word"
  cst_leader_id :: int
  cst_source_id :: int
  cst_grid_ids :: "int list"
  cst_owner_ids :: "int list"
  cst_owner_versions :: "64 word list"
  cst_free_grid_ids :: "int list"
  cst_stamp :: real

text \<open>The grids of a message with their owners and versions, cut to the shortest of the three
  arrays.\<close>

definition claimed_grids :: "int list \<Rightarrow> int list \<Rightarrow> 64 word list \<Rightarrow> (int \<times> int \<times> 64 word) list" where
  "claimed_grids grid_ids owner_ids owner_versions = zip grid_ids (zip owner_ids owner_versions)"

text \<open>\<open>map[key]\<close> with the value a missing key gets.\<close>

definition at_or :: "'v \<Rightarrow> 'v umap \<Rightarrow> int \<Rightarrow> 'v" where
  "at_or d m k = (case map_of m k of None \<Rightarrow> d | Some v \<Rightarrow> v)"

lemma length_claimed_grids:
  "length (claimed_grids g ow v) = min (length g) (min (length ow) (length v))"
  by (simp add: claimed_grids_def)

end
