(* ===== verification/Alloc_Coordinator.thy ===== *)
theory Alloc_Coordinator imports Assignment_Messages
begin

text \<open>
  The allocation coordinator of a component
  (\<open>exploration_manager/src/component_allocation_coordinator_node.cpp\<close>). It caches the latest
  component state of every source, merges them into an ownership table and a pool of free grids,
  and, when its drone leads the component, answers allocation requests by a plan, an accepted plan
  by a commit, and release requests by freeing grids. Its own recent decisions override the cached
  snapshots for a while.
\<close>

section \<open>State\<close>

record OwnershipRecord =
  own_owner_id :: int
  own_owner_version :: "64 word"

record ac_params =
  ac_drone_id :: int
  ac_pending_plan_timeout_sec :: real
  ac_component_snapshot_timeout_sec :: real
  ac_local_override_timeout_sec :: real

definition ac_default_params :: ac_params where
  "ac_default_params = \<lparr>ac_drone_id = 1, ac_pending_plan_timeout_sec = 1,
     ac_component_snapshot_timeout_sec = 1, ac_local_override_timeout_sec = 1\<rparr>"

record ac_state =
  leader_id :: int
  is_component_leader :: bool
  component_epoch :: "64 word"
  component_stamp :: real
  last_allocation_request_txn_id :: "64 word"
  last_allocation_requester_id :: int
  last_release_request_txn_id :: "64 word"
  pending_plan_active :: bool
  pending_plan_txn_id :: "64 word"
  pending_plan_grid_id :: int
  pending_plan_owner_id :: int
  pending_plan_owner_version :: "64 word"
  pending_plan_stamp :: real
  pending_plan_reason :: string
  last_component_snapshots_by_source :: "ComponentState umap"
  free_grid_pool :: "64 word umap"
  latest_owner_versions :: "64 word umap"
  local_override_owner_ids :: "int umap"
  local_override_versions :: "64 word umap"
  local_override_stamps :: "real umap"
  ownership_table :: "OwnershipRecord umap"

definition ac_init :: ac_state where
  "ac_init = \<lparr>leader_id = 0, is_component_leader = False, component_epoch = 0, component_stamp = 0,
     last_allocation_request_txn_id = 0, last_allocation_requester_id = 0,
     last_release_request_txn_id = 0, pending_plan_active = False, pending_plan_txn_id = 0,
     pending_plan_grid_id = 0, pending_plan_owner_id = 0, pending_plan_owner_version = 0,
     pending_plan_stamp = 0, pending_plan_reason = [], last_component_snapshots_by_source = [],
     free_grid_pool = [], latest_owner_versions = [], local_override_owner_ids = [],
     local_override_versions = [], local_override_stamps = [], ownership_table = []\<rparr>"

definition clearPendingPlan :: "ac_state \<Rightarrow> ac_state" where
  "clearPendingPlan s = s\<lparr>pending_plan_active := False, pending_plan_txn_id := 0,
     pending_plan_grid_id := 0, pending_plan_owner_id := 0, pending_plan_owner_version := 0,
     pending_plan_reason := [], pending_plan_stamp := 0\<rparr>"

section \<open>Which snapshots count\<close>

definition snapshotMatchesAuthoritativeView :: "ac_state \<Rightarrow> ComponentState \<Rightarrow> bool" where
  "snapshotMatchesAuthoritativeView s snapshot =
     (if leader_id s \<le> 0 \<or> component_epoch s = 0 then True
      else cst_leader_id snapshot = leader_id s \<and> cst_component_epoch snapshot = component_epoch s)"

definition authoritativeSourceTimedOut :: "ac_params \<Rightarrow> time \<Rightarrow> ac_state \<Rightarrow> bool" where
  "authoritativeSourceTimedOut p now s =
     (if component_stamp s \<le> 0 then True
      else now - component_stamp s > ac_component_snapshot_timeout_sec p)"

text \<open>The empty string means that the snapshot is not accepted as authoritative.\<close>

definition authoritativeAcceptanceReason :: "ac_params \<Rightarrow> time \<Rightarrow> ac_state \<Rightarrow> ComponentState \<Rightarrow> string" where
  "authoritativeAcceptanceReason p now s snapshot =
     (if cst_source_id snapshot \<noteq> cst_leader_id snapshot then []
      else if leader_id s = 0 then ''leader_id_unset''
      else if component_epoch s = 0 then ''component_epoch_unset''
      else if cst_source_id snapshot = leader_id s then ''same_leader_refresh''
      else if cst_component_epoch snapshot > component_epoch s then ''newer_component_epoch''
      else if authoritativeSourceTimedOut p now s then ''authoritative_source_timeout''
      else [])"

section \<open>Merging the snapshots\<close>

text \<open>The maps the first loop writes: the ownership table, the sources of its entries, and the
  latest version seen of every grid.\<close>

record claim_acc =
  ca_table :: "OwnershipRecord umap"
  ca_sources :: "int umap"
  ca_latest :: "64 word umap"

text \<open>A snapshot's claim is ignored while a newer local decision overrides it.\<close>

definition claim_overridden :: "ac_state \<Rightarrow> real \<Rightarrow> int \<Rightarrow> 64 word \<Rightarrow> bool" where
  "claim_overridden s stamp grid_id owner_version =
     (case map_of (local_override_versions s) grid_id of
        None \<Rightarrow> False
      | Some v \<Rightarrow> owner_version < v \<or>
          (owner_version = v \<and> stamp < at_or 0 (local_override_stamps s) grid_id))"

definition raise_version :: "int \<Rightarrow> 64 word \<Rightarrow> 64 word umap \<Rightarrow> 64 word umap" where
  "raise_version grid_id v m =
     (case map_of m grid_id of
        None \<Rightarrow> AList.update grid_id v m
      | Some w \<Rightarrow> if w < v then AList.update grid_id v m else m)"

definition claim_step ::
  "ac_state \<Rightarrow> int \<Rightarrow> real \<Rightarrow> int \<times> int \<times> 64 word \<Rightarrow> claim_acc \<Rightarrow> claim_acc" where
  "claim_step s source_id stamp claim acc =
     (case claim of (grid_id, owner_id, owner_version) \<Rightarrow>
        if claim_overridden s stamp grid_id owner_version then acc
        else
          let acc = acc\<lparr>ca_latest := raise_version grid_id owner_version (ca_latest acc)\<rparr>;
              take = acc\<lparr>ca_table := AList.update grid_id
                       \<lparr>own_owner_id = owner_id, own_owner_version = owner_version\<rparr> (ca_table acc),
                     ca_sources := AList.update grid_id source_id (ca_sources acc)\<rparr>
          in (case map_of (ca_table acc) grid_id of
                None \<Rightarrow> take
              | Some r \<Rightarrow>
                  if own_owner_version r < owner_version then take
                  else if own_owner_version r \<noteq> owner_version then acc
                  else
                    let current_source_id = at_or 0 (ca_sources acc) grid_id in
                    if own_owner_id r \<noteq> owner_id \<and> source_id < current_source_id then take
                    else if own_owner_id r = owner_id \<and> source_id < current_source_id
                    then acc\<lparr>ca_sources := AList.update grid_id source_id (ca_sources acc)\<rparr>
                    else acc))"

definition snapshot_claims :: "ComponentState \<Rightarrow> (int \<times> int \<times> 64 word) list" where
  "snapshot_claims snapshot =
     claimed_grids (cst_grid_ids snapshot) (cst_owner_ids snapshot) (cst_owner_versions snapshot)"

definition merge_claims :: "ac_state \<Rightarrow> int \<times> ComponentState \<Rightarrow> claim_acc \<Rightarrow> claim_acc" where
  "merge_claims s entry acc =
     (case entry of (source_id, snapshot) \<Rightarrow>
        if \<not> snapshotMatchesAuthoritativeView s snapshot then acc
        else fold (claim_step s source_id (cst_stamp snapshot)) (snapshot_claims snapshot) acc)"

text \<open>The second loop: free grids, at the latest version known of them.\<close>

definition free_step :: "ac_state \<Rightarrow> real \<Rightarrow> claim_acc \<Rightarrow> int \<Rightarrow> 64 word umap \<Rightarrow> 64 word umap" where
  "free_step s stamp acc grid_id pool =
     (if map_of (local_override_versions s) grid_id \<noteq> None \<and>
         stamp < at_or 0 (local_override_stamps s) grid_id then pool
      else if map_of (ca_table acc) grid_id \<noteq> None then pool
      else raise_version grid_id (at_or 0 (ca_latest acc) grid_id) pool)"

definition merge_free ::
  "ac_state \<Rightarrow> claim_acc \<Rightarrow> int \<times> ComponentState \<Rightarrow> 64 word umap \<Rightarrow> 64 word umap" where
  "merge_free s acc entry pool =
     (case entry of (source_id, snapshot) \<Rightarrow>
        if \<not> snapshotMatchesAuthoritativeView s snapshot then pool
        else fold (free_step s (cst_stamp snapshot) acc) (cst_free_grid_ids snapshot) pool)"

text \<open>The third loop: the local decisions.\<close>

definition override_step :: "ac_state \<Rightarrow> int \<times> 64 word \<Rightarrow> ac_state \<Rightarrow> ac_state" where
  "override_step s0 entry s =
     (case entry of (grid_id, owner_version) \<Rightarrow>
        let owner_id = at_or 0 (local_override_owner_ids s0) grid_id;
            s = s\<lparr>latest_owner_versions := raise_version grid_id owner_version (latest_owner_versions s)\<rparr>
        in if owner_id > 0
           then s\<lparr>ownership_table := AList.update grid_id
                    \<lparr>own_owner_id = owner_id, own_owner_version = owner_version\<rparr> (ownership_table s),
                  free_grid_pool := AList.delete grid_id (free_grid_pool s)\<rparr>
           else s\<lparr>ownership_table := AList.delete grid_id (ownership_table s),
                  free_grid_pool := raise_version grid_id owner_version (free_grid_pool s)\<rparr>)"

definition rebuildAggregatedState :: "ac_state \<Rightarrow> ac_state" where
  "rebuildAggregatedState s =
     (let snapshots = last_component_snapshots_by_source s;
          acc = fold (merge_claims s) snapshots
            \<lparr>ca_table = [], ca_sources = [], ca_latest = latest_owner_versions s\<rparr>;
          pool = fold (merge_free s acc) snapshots [];
          s1 = s\<lparr>ownership_table := ca_table acc, latest_owner_versions := ca_latest acc,
                 free_grid_pool := pool\<rparr>
      in fold (override_step s) (local_override_versions s) s1)"

section \<open>Expiry\<close>

definition snapshot_expired :: "ac_params \<Rightarrow> time \<Rightarrow> ComponentState \<Rightarrow> bool" where
  "snapshot_expired p now snapshot \<longleftrightarrow>
     \<not> (cst_stamp snapshot > 0 \<and> now - cst_stamp snapshot \<le> ac_component_snapshot_timeout_sec p)"

definition pruneExpiredSnapshots :: "ac_params \<Rightarrow> time \<Rightarrow> ac_state \<Rightarrow> ac_state" where
  "pruneExpiredSnapshots p now s =
     (let removed_snapshot = (\<exists>e \<in> set (last_component_snapshots_by_source s).
            snapshot_expired p now (snd e));
          s = s\<lparr>last_component_snapshots_by_source :=
                  prune (snapshot_expired p now) (last_component_snapshots_by_source s)\<rparr>
      in if removed_snapshot then rebuildAggregatedState s else s)"

definition override_expired :: "ac_params \<Rightarrow> time \<Rightarrow> real \<Rightarrow> bool" where
  "override_expired p now stamp \<longleftrightarrow> \<not> now - stamp \<le> ac_local_override_timeout_sec p"

definition pruneExpiredLocalOverrides :: "ac_params \<Rightarrow> time \<Rightarrow> ac_state \<Rightarrow> ac_state" where
  "pruneExpiredLocalOverrides p now s =
     (let gone = map fst (filter (\<lambda>e. override_expired p now (snd e)) (local_override_stamps s));
          s = s\<lparr>local_override_owner_ids :=
                  filter (\<lambda>e. fst e \<notin> set gone) (local_override_owner_ids s),
                local_override_versions := filter (\<lambda>e. fst e \<notin> set gone) (local_override_versions s),
                local_override_stamps := prune (override_expired p now) (local_override_stamps s)\<rparr>
      in if gone \<noteq> [] then rebuildAggregatedState s else s)"

interpretation snapshots: expiring_cache "snapshot_expired p" for p
  by unfold_locales (auto simp: snapshot_expired_def)

interpretation overrides: expiring_cache "override_expired p" for p
  by unfold_locales (auto simp: override_expired_def)

definition pendingPlanTimerCallback :: "ac_params \<Rightarrow> time \<Rightarrow> ac_state \<Rightarrow> ac_state" where
  "pendingPlanTimerCallback p now s =
     (let s = pruneExpiredLocalOverrides p now (pruneExpiredSnapshots p now s) in
      if \<not> pending_plan_active s then s
      else if pending_plan_stamp s \<le> 0 then s
      else if now - pending_plan_stamp s < ac_pending_plan_timeout_sec p then s
      else clearPendingPlan s)"

section \<open>Message handlers\<close>

definition adopt_view :: "ac_params \<Rightarrow> ComponentState \<Rightarrow> ac_state \<Rightarrow> ac_state" where
  "adopt_view p msg s =
     (let view_changed = (component_epoch s \<noteq> cst_component_epoch msg \<or> leader_id s \<noteq> cst_leader_id msg);
          s = (if view_changed
               then (clearPendingPlan s)\<lparr>last_component_snapshots_by_source := [], ownership_table := [],
                  free_grid_pool := [], latest_owner_versions := [], local_override_owner_ids := [],
                  local_override_versions := [], local_override_stamps := []\<rparr>
               else s)
      in s\<lparr>component_epoch := cst_component_epoch msg, leader_id := cst_leader_id msg,
           component_stamp := cst_stamp msg,
           is_component_leader := (cst_leader_id msg > 0 \<and> cst_leader_id msg = ac_drone_id p)\<rparr>)"

definition componentStateCallback :: "ac_params \<Rightarrow> ComponentState \<Rightarrow> time \<Rightarrow> ac_state \<Rightarrow> ac_state" where
  "componentStateCallback p msg now s =
     (if cst_source_id msg \<le> 0 then s
      else
        let is_authoritative_source = (authoritativeAcceptanceReason p now s msg \<noteq> []);
            s = (if is_authoritative_source then adopt_view p msg s else s);
            s = s\<lparr>last_component_snapshots_by_source :=
                    AList.update (cst_source_id msg) msg (last_component_snapshots_by_source s)\<rparr>
        in rebuildAggregatedState s)"

text \<open>The first requested grid that is free; without a request the free grid of the smallest id.\<close>

definition first_free :: "int list \<Rightarrow> 64 word umap \<Rightarrow> (int \<times> 64 word) option" where
  "first_free requested pool =
     (case filter (\<lambda>g. map_of pool g \<noteq> None) requested of
        [] \<Rightarrow> None | g # _ \<Rightarrow> Some (g, the (map_of pool g)))"

definition smallest_free :: "64 word umap \<Rightarrow> (int \<times> 64 word) option" where
  "smallest_free pool =
     foldl (\<lambda>best entry. case best of
        None \<Rightarrow> Some entry | Some b \<Rightarrow> if fst entry < fst b then Some entry else best) None pool"

definition select_free_grid :: "int list \<Rightarrow> 64 word umap \<Rightarrow> (int \<times> 64 word) option" where
  "select_free_grid requested pool =
     (if requested \<noteq> [] then first_free requested pool else smallest_free pool)"

definition pending_plan_msg :: "time \<Rightarrow> ac_state \<Rightarrow> AssignmentPlan" where
  "pending_plan_msg now s =
     \<lparr>apl_component_epoch = component_epoch s, apl_leader_id = leader_id s,
      apl_grid_ids = [pending_plan_grid_id s], apl_owner_ids = [pending_plan_owner_id s],
      apl_owner_versions = [pending_plan_owner_version s], apl_txn_id = pending_plan_txn_id s,
      apl_reason = pending_plan_reason s, apl_stamp = now\<rparr>"

definition allocationRequestCallback ::
  "AllocationRequest \<Rightarrow> time \<Rightarrow> ac_state \<Rightarrow> ac_state \<times> AssignmentPlan option" where
  "allocationRequestCallback msg now s =
     (let s = s\<lparr>last_allocation_request_txn_id := arq_txn_id msg,
                last_allocation_requester_id := arq_requester_id msg\<rparr> in
      if \<not> is_component_leader s then (s, None)
      else if arq_leader_id msg \<noteq> leader_id s \<or> arq_component_epoch msg \<noteq> component_epoch s then (s, None)
      else if pending_plan_active s then (s, None)
      else
        (case select_free_grid (arq_grid_ids msg) (free_grid_pool s) of
           None \<Rightarrow> (s, None)
         | Some (selected_grid_id, version) \<Rightarrow>
             let s = s\<lparr>pending_plan_active := True, pending_plan_txn_id := arq_txn_id msg,
                    pending_plan_grid_id := selected_grid_id,
                    pending_plan_owner_id := arq_requester_id msg,
                    pending_plan_owner_version := version + 1,
                    pending_plan_reason := arq_reason msg, pending_plan_stamp := now\<rparr>
             in (s, Some (pending_plan_msg now s))))"

text \<open>The effect of a local decision on a grid: owner \<open>0\<close> frees it.\<close>

definition set_override :: "int \<Rightarrow> int \<Rightarrow> 64 word \<Rightarrow> time \<Rightarrow> ac_state \<Rightarrow> ac_state" where
  "set_override grid_id owner_id owner_version now s =
     s\<lparr>local_override_owner_ids := AList.update grid_id owner_id (local_override_owner_ids s),
       local_override_versions := AList.update grid_id owner_version (local_override_versions s),
       local_override_stamps := AList.update grid_id now (local_override_stamps s)\<rparr>"

definition release_step :: "time \<Rightarrow> int \<times> int \<times> 64 word \<Rightarrow> ac_state \<Rightarrow> ac_state" where
  "release_step now claim s =
     (case claim of (grid_id, owner_id, owner_version) \<Rightarrow>
        (case map_of (ownership_table s) grid_id of
           None \<Rightarrow> s
         | Some r \<Rightarrow>
             if own_owner_id r \<noteq> owner_id \<or> own_owner_version r \<noteq> owner_version then s
             else set_override grid_id 0 owner_version now
               (s\<lparr>latest_owner_versions :=
                    AList.update grid_id (own_owner_version r) (latest_owner_versions s),
                  ownership_table := AList.delete grid_id (ownership_table s),
                  free_grid_pool := AList.update grid_id owner_version (free_grid_pool s)\<rparr>)))"

definition releaseRequestCallback :: "ReleaseRequest \<Rightarrow> time \<Rightarrow> ac_state \<Rightarrow> ac_state" where
  "releaseRequestCallback msg now s =
     (let s = s\<lparr>last_release_request_txn_id := apl_txn_id msg\<rparr> in
      if \<not> is_component_leader s then s
      else if apl_leader_id msg \<noteq> leader_id s \<or> apl_component_epoch msg \<noteq> component_epoch s then s
      else fold (release_step now)
             (claimed_grids (apl_grid_ids msg) (apl_owner_ids msg) (apl_owner_versions msg)) s)"

definition ack_matches :: "AssignmentAck \<Rightarrow> ac_state \<Rightarrow> bool" where
  "ack_matches msg s \<longleftrightarrow> is_component_leader s \<and> pending_plan_active s \<and>
     aak_leader_id msg = leader_id s \<and> aak_component_epoch msg = component_epoch s \<and>
     aak_txn_id msg = pending_plan_txn_id s \<and> aak_grid_id msg = pending_plan_grid_id s \<and>
     aak_owner_id msg = pending_plan_owner_id s \<and>
     aak_owner_version msg = pending_plan_owner_version s \<and> aak_accept msg"

definition assignmentAckCallback ::
  "AssignmentAck \<Rightarrow> time \<Rightarrow> ac_state \<Rightarrow> ac_state \<times> AssignmentCommit option" where
  "assignmentAckCallback msg now s =
     (if \<not> ack_matches msg s then (s, None)
      else
        let grid_id = pending_plan_grid_id s; owner_id = pending_plan_owner_id s;
            owner_version = pending_plan_owner_version s;
            commit_msg = pending_plan_msg now s;
            s = s\<lparr>latest_owner_versions := AList.update grid_id owner_version (latest_owner_versions s),
                  ownership_table := AList.update grid_id
                    \<lparr>own_owner_id = owner_id, own_owner_version = owner_version\<rparr> (ownership_table s),
                  free_grid_pool := AList.delete grid_id (free_grid_pool s)\<rparr>
        in (clearPendingPlan (set_override grid_id owner_id owner_version now s), Some commit_msg))"

section \<open>The node as a state machine\<close>

datatype ac_event =
    ComponentStateMsg ComponentState
  | AllocationRequestMsg AllocationRequest
  | ReleaseRequestMsg ReleaseRequest
  | AssignmentAckMsg AssignmentAck
  | PlanTimer

fun ac_handle :: "ac_params \<Rightarrow> time \<Rightarrow> ac_event \<Rightarrow> ac_state \<Rightarrow> ac_state" where
  "ac_handle p now (ComponentStateMsg m) s = componentStateCallback p m now s"
| "ac_handle p now (AllocationRequestMsg m) s = fst (allocationRequestCallback m now s)"
| "ac_handle p now (ReleaseRequestMsg m) s = releaseRequestCallback m now s"
| "ac_handle p now (AssignmentAckMsg m) s = fst (assignmentAckCallback m now s)"
| "ac_handle p now PlanTimer s = pendingPlanTimerCallback p now s"

inductive ac_reach :: "ac_params \<Rightarrow> ac_state \<Rightarrow> bool" for p where
  start: "ac_reach p ac_init"
| event: "ac_reach p s \<Longrightarrow> ac_reach p (ac_handle p now e s)"

end
