(* ===== verification/Alloc_Props.thy ===== *)
theory Alloc_Props imports Alloc_Coordinator
begin

text \<open>
  The correctness of the allocation coordinator: what the merge of the snapshots computes for one
  grid, the invariant of the reachable states, and the effect of each decision on the ledger of
  grids (free at a version, or owned at a version).
\<close>

section \<open>The merge, one grid at a time\<close>

lemma lookup_raise_version [umap_simps]:
  "map_of (raise_version k v m) g =
   (if g = k then Some (case map_of m k of None \<Rightarrow> v | Some w \<Rightarrow> max w v) else map_of m g)"
  by (auto simp: raise_version_def umap_simps max_def split: option.splits)

lemma distinct_raise_version [keys_intros]: "distinct_keys m \<Longrightarrow> distinct_keys (raise_version k v m)"
  by (auto simp: raise_version_def intro: keys_intros split: option.splits)

lemma at_or_raise: "at_or 0 m g \<le> at_or 0 (raise_version k v m) g"
  by (auto simp: at_or_def umap_simps split: option.splits)

text \<open>A claim on a grid: source, owner and version.\<close>

type_synonym claim = "int \<times> int \<times> 64 word"

definition beaten_by :: "claim \<Rightarrow> claim \<Rightarrow> bool" where
  "beaten_by c best =
     (case (c, best) of ((src, _, v), (bsrc, _, bv)) \<Rightarrow> v < bv \<or> (v = bv \<and> bsrc \<le> src))"

text \<open>What the first loop has established for grid \<open>g\<close> after the claims \<open>S\<close>: nothing, or a claim of
  the highest version, and among those of the smallest source.\<close>

definition merged :: "int \<Rightarrow> claim set \<Rightarrow> claim_acc \<Rightarrow> bool" where
  "merged g S acc =
     (case map_of (ca_table acc) g of
        None \<Rightarrow> S = {}
      | Some r \<Rightarrow> \<exists>src. map_of (ca_sources acc) g = Some src \<and>
          (src, own_owner_id r, own_owner_version r) \<in> S \<and>
          (\<forall>c \<in> S. beaten_by c (src, own_owner_id r, own_owner_version r)))"

lemma claim_step_other:
  assumes "fst claim \<noteq> g"
  shows "map_of (ca_table (claim_step s src stamp claim acc)) g = map_of (ca_table acc) g"
    "map_of (ca_sources (claim_step s src stamp claim acc)) g = map_of (ca_sources acc) g"
  using assms by (auto simp: claim_step_def Let_def umap_simps split: prod.splits option.splits)

lemma merged_other: "fst claim \<noteq> g \<Longrightarrow> merged g S (claim_step s src stamp claim acc) = merged g S acc"
  unfolding merged_def using claim_step_other [of claim g s src stamp acc] by (simp split: option.split)

lemma merged_step:
  assumes "merged g S acc" and "\<not> claim_overridden s stamp g v"
  shows "merged g (insert (src, owner, v) S) (claim_step s src stamp (g, owner, v) acc)"
proof (cases "map_of (ca_table acc) g")
  case None
  with assms show ?thesis by (simp add: merged_def claim_step_def Let_def umap_simps beaten_by_def)
next
  case (Some r)
  with assms(1) obtain bsrc where best: "map_of (ca_sources acc) g = Some bsrc"
    "(bsrc, own_owner_id r, own_owner_version r) \<in> S"
    "\<forall>c \<in> S. beaten_by c (bsrc, own_owner_id r, own_owner_version r)"
    by (auto simp: merged_def)
  have trans: "beaten_by c (src', o', v')"
    if "c \<in> S" "own_owner_version r < v' \<or> own_owner_version r = v' \<and> src' \<le> bsrc" for c src' o' v'
    using best(3) that by (fastforce simp: beaten_by_def)
  consider "own_owner_version r < v" | "v < own_owner_version r" | "own_owner_version r = v" by force
  then show ?thesis
  proof cases
    case 1
    with Some assms(2) have "map_of (ca_table (claim_step s src stamp (g, owner, v) acc)) g =
        Some \<lparr>own_owner_id = owner, own_owner_version = v\<rparr>"
      "map_of (ca_sources (claim_step s src stamp (g, owner, v) acc)) g = Some src"
      by (simp_all add: claim_step_def Let_def umap_simps)
    with trans 1 show ?thesis by (simp add: merged_def beaten_by_def)
  next
    case 2
    with Some assms(2) have "claim_step s src stamp (g, owner, v) acc =
        acc\<lparr>ca_latest := raise_version g v (ca_latest acc)\<rparr>"
      by (auto simp: claim_step_def Let_def)
    with Some best 2 show ?thesis by (simp add: merged_def beaten_by_def)
  next
    case 3
    show ?thesis
    proof (cases "src < bsrc")
      case True
      have "map_of (ca_table (claim_step s src stamp (g, owner, v) acc)) g =
          Some \<lparr>own_owner_id = owner, own_owner_version = v\<rparr>"
        "map_of (ca_sources (claim_step s src stamp (g, owner, v) acc)) g = Some src"
        using Some assms(2) 3 True best(1) by (auto simp: claim_step_def Let_def umap_simps at_or_def)
      with trans 3 True show ?thesis by (simp add: merged_def beaten_by_def)
    next
      case False
      with Some assms(2) 3 best(1) have "claim_step s src stamp (g, owner, v) acc =
          acc\<lparr>ca_latest := raise_version g v (ca_latest acc)\<rparr>"
        by (auto simp: claim_step_def Let_def at_or_def)
      with Some best 3 False show ?thesis by (simp add: merged_def beaten_by_def)
    qed
  qed
qed

lemma claim_step_overridden:
  "claim_overridden s stamp g v \<Longrightarrow> claim_step s src stamp (g, owner, v) acc = acc"
  by (simp add: claim_step_def)

text \<open>The claims on one grid that count.\<close>

definition counted :: "ac_state \<Rightarrow> int \<Rightarrow> int \<times> ComponentState \<Rightarrow> claim set" where
  "counted s g entry =
     (case entry of (src, snapshot) \<Rightarrow>
        {(src, owner, v) | owner v. snapshotMatchesAuthoritativeView s snapshot \<and>
           (g, owner, v) \<in> set (snapshot_claims snapshot) \<and>
           \<not> claim_overridden s (cst_stamp snapshot) g v})"

definition claims_on :: "ac_state \<Rightarrow> int \<Rightarrow> claim set" where
  "claims_on s g = (\<Union>entry \<in> set (last_component_snapshots_by_source s). counted s g entry)"

lemma merged_claims:
  assumes "merged g S acc"
  shows "merged g (S \<union> {(src, owner, v) | owner v. (g, owner, v) \<in> set claims \<and>
      \<not> claim_overridden s stamp g v}) (fold (claim_step s src stamp) claims acc)"
  using assms
proof (induction claims arbitrary: S acc)
  case Nil
  then show ?case by simp
next
  case (Cons c claims)
  obtain g' owner v where c: "c = (g', owner, v)" by (metis prod_cases3)
  show ?case
  proof (cases "g' = g \<and> \<not> claim_overridden s stamp g v")
    case True
    let ?T = "\<lambda>cs. {(src, owner, v) | owner v. (g, owner, v) \<in> set cs \<and> \<not> claim_overridden s stamp g v}"
    have "S \<union> ?T (c # claims) = insert (src, owner, v) S \<union> ?T claims" using True c by auto
    moreover have "merged g (insert (src, owner, v) S) (claim_step s src stamp c acc)"
      using merged_step [OF Cons.prems] True c by simp
    ultimately show ?thesis using Cons.IH by (simp only: fold_simps)
  next
    case False
    let ?T = "\<lambda>cs. {(src, owner, v) | owner v. (g, owner, v) \<in> set cs \<and> \<not> claim_overridden s stamp g v}"
    have "?T (c # claims) = ?T claims" using False c by auto
    moreover have "merged g S (claim_step s src stamp c acc)"
      using Cons.prems False c merged_other [of c g] claim_step_overridden by fastforce
    ultimately show ?thesis using Cons.IH by (simp only: fold_simps)
  qed
qed

lemma merged_entry:
  "merged g S acc \<Longrightarrow> merged g (S \<union> counted s g entry) (merge_claims s entry acc)"
  using merged_claims by (cases entry) (auto simp: merge_claims_def counted_def)

lemma merged_all:
  assumes "merged g S acc"
  shows "merged g (S \<union> (\<Union>e \<in> set entries. counted s g e)) (fold (merge_claims s) entries acc)"
  using assms
proof (induction entries arbitrary: S acc)
  case (Cons e entries)
  from Cons.IH [OF merged_entry [OF Cons.prems, of s e]] show ?case by (simp add: Un_assoc)
qed simp

definition merge_result :: "ac_state \<Rightarrow> claim_acc" where
  "merge_result s = fold (merge_claims s) (last_component_snapshots_by_source s)
     \<lparr>ca_table = [], ca_sources = [], ca_latest = latest_owner_versions s\<rparr>"

lemma merge_result_claims: "merged g (claims_on s g) (merge_result s)"
proof -
  have "merged g {} \<lparr>ca_table = [], ca_sources = [], ca_latest = latest_owner_versions s\<rparr>"
    by (simp add: merged_def)
  from merged_all [OF this, of s "last_component_snapshots_by_source s"] show ?thesis
    by (simp add: merge_result_def claims_on_def)
qed

section \<open>The overrides\<close>

lemma override_step_fields [simp]:
  "last_component_snapshots_by_source (override_step s0 e s) = last_component_snapshots_by_source s"
  "local_override_versions (override_step s0 e s) = local_override_versions s"
  "local_override_owner_ids (override_step s0 e s) = local_override_owner_ids s"
  "local_override_stamps (override_step s0 e s) = local_override_stamps s"
  by (simp_all add: override_step_def Let_def split_beta)

lemma override_step_other:
  assumes "fst e \<noteq> g"
  shows "map_of (ownership_table (override_step s0 e s)) g = map_of (ownership_table s) g"
    "map_of (free_grid_pool (override_step s0 e s)) g = map_of (free_grid_pool s) g"
    "map_of (latest_owner_versions (override_step s0 e s)) g = map_of (latest_owner_versions s) g"
  using assms by (simp_all add: override_step_def Let_def split_beta umap_simps)

lemma override_step_this:
  "map_of (ownership_table (override_step s0 (g, v) s)) g =
    (if at_or 0 (local_override_owner_ids s0) g > 0
     then Some \<lparr>own_owner_id = at_or 0 (local_override_owner_ids s0) g, own_owner_version = v\<rparr> else None)"
  "map_of (free_grid_pool (override_step s0 (g, v) s)) g =
    (if at_or 0 (local_override_owner_ids s0) g > 0 then None
     else Some (case map_of (free_grid_pool s) g of None \<Rightarrow> v | Some w \<Rightarrow> max w v))"
  by (simp_all add: override_step_def Let_def umap_simps)

lemma overrides_other:
  assumes "g \<notin> fst ` set entries"
  shows "map_of (ownership_table (fold (override_step s0) entries s)) g = map_of (ownership_table s) g \<and>
    map_of (free_grid_pool (fold (override_step s0) entries s)) g = map_of (free_grid_pool s) g"
  using assms by (induction entries arbitrary: s) (simp_all add: override_step_other)

lemma overrides_this:
  assumes "distinct_keys entries" and "map_of entries g = Some v"
  shows "map_of (ownership_table (fold (override_step s0) entries s)) g =
      (if at_or 0 (local_override_owner_ids s0) g > 0
       then Some \<lparr>own_owner_id = at_or 0 (local_override_owner_ids s0) g, own_owner_version = v\<rparr> else None) \<and>
    (map_of (free_grid_pool (fold (override_step s0) entries s)) g = None \<longleftrightarrow>
       at_or 0 (local_override_owner_ids s0) g > 0)"
  using assms
proof (induction entries arbitrary: s)
  case (Cons e entries)
  show ?case
  proof (cases "fst e = g")
    case True
    with Cons.prems have e: "e = (g, v)" "g \<notin> fst ` set entries" by (cases e; auto)+
    show ?thesis
      using overrides_other [OF e(2), of s0 "override_step s0 e s"] override_step_this [of s0 g v s] e(1)
      by simp
  next
    case False
    with Cons show ?thesis by (cases e) simp
  qed
qed simp

lemma rebuild_eq:
  "rebuildAggregatedState s = fold (override_step s) (local_override_versions s)
     (s\<lparr>ownership_table := ca_table (merge_result s), latest_owner_versions := ca_latest (merge_result s),
        free_grid_pool := fold (merge_free s (merge_result s)) (last_component_snapshots_by_source s) []\<rparr>)"
  by (simp add: rebuildAggregatedState_def merge_result_def Let_def)

text \<open>A rebuild gives a grid without a local decision to the best claim on it.\<close>

lemma rebuild_ownership:
  assumes "map_of (local_override_versions s) g = None"
  shows "case map_of (ownership_table (rebuildAggregatedState s)) g of
      None \<Rightarrow> claims_on s g = {}
    | Some r \<Rightarrow> \<exists>src. (src, own_owner_id r, own_owner_version r) \<in> claims_on s g \<and>
        (\<forall>c \<in> claims_on s g. beaten_by c (src, own_owner_id r, own_owner_version r))"
proof -
  have "g \<notin> fst ` set (local_override_versions s)" using assms by (simp add: map_of_eq_None_iff)
  then have "map_of (ownership_table (rebuildAggregatedState s)) g = map_of (ca_table (merge_result s)) g"
    unfolding rebuild_eq by (simp add: overrides_other)
  with merge_result_claims [of g s] show ?thesis
    by (auto simp: merged_def split: option.splits)
qed

text \<open>While a local decision stands, a rebuild keeps to it.\<close>

lemma rebuild_override:
  assumes "distinct_keys (local_override_versions s)" and "map_of (local_override_versions s) g = Some v"
  shows "map_of (ownership_table (rebuildAggregatedState s)) g =
      (if at_or 0 (local_override_owner_ids s) g > 0
       then Some \<lparr>own_owner_id = at_or 0 (local_override_owner_ids s) g, own_owner_version = v\<rparr> else None) \<and>
    (map_of (free_grid_pool (rebuildAggregatedState s)) g = None \<longleftrightarrow> at_or 0 (local_override_owner_ids s) g > 0)"
  unfolding rebuild_eq by (rule overrides_this [OF assms])

section \<open>The ledger\<close>

text \<open>No grid is both owned and free, and no version is ahead of the latest one known.\<close>

definition ledger_ok :: "ac_state \<Rightarrow> bool" where
  "ledger_ok s \<longleftrightarrow>
     (\<forall>g. (map_of (ownership_table s) g = None \<or> map_of (free_grid_pool s) g = None) \<and>
        (\<forall>r. map_of (ownership_table s) g = Some r \<longrightarrow>
           own_owner_version r \<le> at_or 0 (latest_owner_versions s) g) \<and>
        (\<forall>v. map_of (free_grid_pool s) g = Some v \<longrightarrow> v \<le> at_or 0 (latest_owner_versions s) g))"

definition overrides_ok :: "ac_state \<Rightarrow> bool" where
  "overrides_ok s \<longleftrightarrow> distinct_keys (local_override_owner_ids s) \<and>
     distinct_keys (local_override_versions s) \<and> distinct_keys (local_override_stamps s) \<and>
     fst ` set (local_override_owner_ids s) = fst ` set (local_override_stamps s) \<and>
     fst ` set (local_override_versions s) = fst ` set (local_override_stamps s)"

text \<open>The node leads exactly when the view names its drone, and only a leader has a plan pending.\<close>

definition leader_ok :: "ac_params \<Rightarrow> ac_state \<Rightarrow> bool" where
  "leader_ok p s \<longleftrightarrow>
     (is_component_leader s \<longleftrightarrow> leader_id s > 0 \<and> leader_id s = ac_drone_id p) \<and>
     (pending_plan_active s \<longrightarrow> is_component_leader s)"

definition ac_inv :: "ac_params \<Rightarrow> ac_state \<Rightarrow> bool" where
  "ac_inv p s \<longleftrightarrow> ledger_ok s \<and> overrides_ok s \<and> distinct_keys (last_component_snapshots_by_source s) \<and>
     leader_ok p s"

lemma acc_versions:
  assumes "\<forall>g r. map_of (ca_table acc) g = Some r \<longrightarrow> own_owner_version r \<le> at_or 0 (ca_latest acc) g"
  shows "\<forall>g r. map_of (ca_table (claim_step s src stamp c acc)) g = Some r \<longrightarrow>
    own_owner_version r \<le> at_or 0 (ca_latest (claim_step s src stamp c acc)) g"
proof -
  obtain k owner v where c: "c = (k, owner, v)" by (metis prod_cases3)
  have raised: "v \<le> at_or 0 (raise_version k v (ca_latest acc)) k"
    by (simp add: at_or_def umap_simps split: option.split)
  have mono: "own_owner_version r \<le> at_or 0 (raise_version k v (ca_latest acc)) g"
    if "map_of (ca_table acc) g = Some r" for g r
    using assms that at_or_raise order_trans by blast
  show ?thesis
    using assms raised mono by (auto simp: c claim_step_def Let_def umap_simps split: option.splits if_splits)
qed

lemma merge_versions:
  "map_of (ca_table (merge_result s)) g = Some r \<Longrightarrow>
   own_owner_version r \<le> at_or 0 (ca_latest (merge_result s)) g"
proof -
  let ?P = "\<lambda>acc. \<forall>g r. map_of (ca_table acc) g = Some r \<longrightarrow> own_owner_version r \<le> at_or 0 (ca_latest acc) g"
  have "?P (fold (claim_step s src stamp) cs acc)" if "?P acc" for src stamp cs acc
    using that by (rule fold_invariant [where P = ?P]) (rule acc_versions)
  then have "?P (merge_claims s e acc)" if "?P acc" for e acc
    using that by (simp add: merge_claims_def split: prod.split)
  then have "?P (merge_result s)"
    unfolding merge_result_def by (intro fold_invariant [where P = ?P]) auto
  then show "map_of (ca_table (merge_result s)) g = Some r \<Longrightarrow>
    own_owner_version r \<le> at_or 0 (ca_latest (merge_result s)) g" by blast
qed

lemma merge_free_ok:
  defines "Q \<equiv> \<lambda>acc pool. \<forall>g v. map_of pool g = Some v \<longrightarrow>
    map_of (ca_table acc) g = None \<and> v \<le> at_or 0 (ca_latest acc) g"
  shows "Q acc (fold (merge_free s acc) entries [])"
proof -
  have step: "Q acc (free_step s stamp acc k pool)" if "Q acc pool" for stamp k pool
    using that unfolding Q_def free_step_def by (auto simp: umap_simps split: option.splits)
  have "Q acc (fold (free_step s stamp acc) ks pool)" if "Q acc pool" for stamp ks pool
    using that by (rule fold_invariant [where P = "Q acc"]) (rule step)
  then have merge: "Q acc (merge_free s acc e pool)" if "Q acc pool" for e pool
    using that by (simp add: merge_free_def split: prod.split)
  show ?thesis
  proof (rule fold_invariant [where P = "Q acc"])
    show "Q acc []" by (simp add: Q_def)
  qed (rule merge)
qed

lemma ledger_ok_override: "ledger_ok s \<Longrightarrow> ledger_ok (override_step s0 e s)"
proof -
  assume ok: "ledger_ok s"
  obtain k v where e: "e = (k, v)" by fastforce
  have raised: "v \<le> at_or 0 (raise_version k v (latest_owner_versions s)) k"
    by (simp add: at_or_def umap_simps split: option.split)
  have free_max: "(case map_of (free_grid_pool s) k of None \<Rightarrow> v | Some w \<Rightarrow> max w v) \<le>
      at_or 0 (raise_version k v (latest_owner_versions s)) k"
    using ok raised at_or_raise [of "latest_owner_versions s" k k v]
    by (auto simp: ledger_ok_def split: option.split intro: order_trans)
  have mono: "w \<le> at_or 0 (latest_owner_versions s) g \<Longrightarrow>
      w \<le> at_or 0 (raise_version k v (latest_owner_versions s)) g" for w g
    using at_or_raise order_trans by blast
  show ?thesis
    using ok raised free_max mono unfolding ledger_ok_def
    by (auto simp: e override_step_def Let_def umap_simps)
qed

lemma ledger_ok_rebuild: "ledger_ok (rebuildAggregatedState s)"
proof -
  have "ledger_ok (s\<lparr>ownership_table := ca_table (merge_result s), latest_owner_versions := ca_latest (merge_result s),
      free_grid_pool := fold (merge_free s (merge_result s)) (last_component_snapshots_by_source s) []\<rparr>)"
    using merge_versions [of s] merge_free_ok [where acc = "merge_result s" and s = s and entries = "last_component_snapshots_by_source s"]
    unfolding ledger_ok_def by (auto simp del: map_of_eq_None_iff)
  then show ?thesis
    unfolding rebuild_eq by (rule fold_invariant) (rule ledger_ok_override)
qed

lemma fold_override_fields [simp]:
  "last_component_snapshots_by_source (fold (override_step s0) es s) = last_component_snapshots_by_source s"
  "local_override_versions (fold (override_step s0) es s) = local_override_versions s"
  "local_override_owner_ids (fold (override_step s0) es s) = local_override_owner_ids s"
  "local_override_stamps (fold (override_step s0) es s) = local_override_stamps s"
  "leader_id (fold (override_step s0) es s) = leader_id s"
  "is_component_leader (fold (override_step s0) es s) = is_component_leader s"
  "component_epoch (fold (override_step s0) es s) = component_epoch s"
  "pending_plan_active (fold (override_step s0) es s) = pending_plan_active s"
  "pending_plan_grid_id (fold (override_step s0) es s) = pending_plan_grid_id s"
  "pending_plan_owner_id (fold (override_step s0) es s) = pending_plan_owner_id s"
  "pending_plan_owner_version (fold (override_step s0) es s) = pending_plan_owner_version s"
  "pending_plan_txn_id (fold (override_step s0) es s) = pending_plan_txn_id s"
  by (induction es arbitrary: s) (simp_all add: override_step_def Let_def split_beta)

lemma rebuild_fields [simp]:
  "last_component_snapshots_by_source (rebuildAggregatedState s) = last_component_snapshots_by_source s"
  "local_override_versions (rebuildAggregatedState s) = local_override_versions s"
  "local_override_owner_ids (rebuildAggregatedState s) = local_override_owner_ids s"
  "local_override_stamps (rebuildAggregatedState s) = local_override_stamps s"
  "leader_id (rebuildAggregatedState s) = leader_id s"
  "is_component_leader (rebuildAggregatedState s) = is_component_leader s"
  "component_epoch (rebuildAggregatedState s) = component_epoch s"
  "pending_plan_active (rebuildAggregatedState s) = pending_plan_active s"
  "pending_plan_grid_id (rebuildAggregatedState s) = pending_plan_grid_id s"
  "pending_plan_owner_id (rebuildAggregatedState s) = pending_plan_owner_id s"
  "pending_plan_owner_version (rebuildAggregatedState s) = pending_plan_owner_version s"
  "pending_plan_txn_id (rebuildAggregatedState s) = pending_plan_txn_id s"
  by (simp_all add: rebuild_eq)

lemma leader_ok_rebuild [simp]: "leader_ok p (rebuildAggregatedState s) = leader_ok p s"
  by (simp add: leader_ok_def)

lemma leader_ok_maps [simp]:
  "leader_ok p (s\<lparr>last_component_snapshots_by_source := a\<rparr>) = leader_ok p s"
  "leader_ok p (s\<lparr>ownership_table := b, latest_owner_versions := c, free_grid_pool := d\<rparr>) = leader_ok p s"
  "leader_ok p (s\<lparr>local_override_owner_ids := e, local_override_versions := f, local_override_stamps := g\<rparr>) =
   leader_ok p s"
  "leader_ok p (s\<lparr>last_release_request_txn_id := h\<rparr>) = leader_ok p s"
  by (simp_all add: leader_ok_def)

lemma overrides_ok_rebuild [simp]: "overrides_ok (rebuildAggregatedState s) = overrides_ok s"
  by (simp add: overrides_ok_def)

text \<open>A rebuild restores the ledger whatever it was; the rest of the invariant it leaves alone.\<close>

lemma ac_inv_rebuild:
  assumes "overrides_ok s" and "distinct_keys (last_component_snapshots_by_source s)"
    and "leader_ok p s"
  shows "ac_inv p (rebuildAggregatedState s)"
  using assms ledger_ok_rebuild by (simp add: ac_inv_def)

lemma ac_inv_clear: "ac_inv p s \<Longrightarrow> ac_inv p (clearPendingPlan s)"
  by (simp add: ac_inv_def clearPendingPlan_def ledger_ok_def overrides_ok_def leader_ok_def)

lemma ac_inv_pruneSnapshots: "ac_inv p s \<Longrightarrow> ac_inv p (pruneExpiredSnapshots p now s)"
proof -
  assume inv: "ac_inv p s"
  let ?s = "s\<lparr>last_component_snapshots_by_source := prune (snapshot_expired p now) (last_component_snapshots_by_source s)\<rparr>"
  have "ac_inv p ?s" using inv by (auto simp: ac_inv_def ledger_ok_def overrides_ok_def intro: keys_intros)
  moreover from this have "ac_inv p (rebuildAggregatedState ?s)"
    unfolding ac_inv_def [of p ?s] by (intro ac_inv_rebuild) blast+
  ultimately show ?thesis by (simp add: pruneExpiredSnapshots_def Let_def)
qed

lemma overrides_ok_prune:
  fixes p now
  assumes "overrides_ok s"
  defines "gone \<equiv> map fst (filter (\<lambda>e. override_expired p now (snd e)) (local_override_stamps s))"
  shows "overrides_ok (s\<lparr>local_override_owner_ids := filter (\<lambda>e. fst e \<notin> set gone) (local_override_owner_ids s),
    local_override_versions := filter (\<lambda>e. fst e \<notin> set gone) (local_override_versions s),
    local_override_stamps := prune (override_expired p now) (local_override_stamps s)\<rparr>)"
proof -
  have "distinct_keys (local_override_stamps s)" using assms(1) by (simp add: overrides_ok_def)
  from keys_prune [OF this, of "override_expired p now"]
  have "fst ` set (prune (override_expired p now) (local_override_stamps s)) =
      {k \<in> fst ` set (local_override_stamps s). k \<notin> set gone}" by (auto simp: gone_def)
  with assms(1) show ?thesis
    by (auto simp: overrides_ok_def keys_filter_fst [of "\<lambda>k. k \<notin> set gone"] simp del: set_filter intro: keys_intros)
qed

lemma ac_inv_pruneOverrides: "ac_inv p s \<Longrightarrow> ac_inv p (pruneExpiredLocalOverrides p now s)"
proof -
  assume inv: "ac_inv p s"
  let ?gone = "map fst (filter (\<lambda>e. override_expired p now (snd e)) (local_override_stamps s))"
  let ?s = "s\<lparr>local_override_owner_ids := filter (\<lambda>e. fst e \<notin> set ?gone) (local_override_owner_ids s),
    local_override_versions := filter (\<lambda>e. fst e \<notin> set ?gone) (local_override_versions s),
    local_override_stamps := prune (override_expired p now) (local_override_stamps s)\<rparr>"
  have "overrides_ok ?s" using inv by (intro overrides_ok_prune) (simp add: ac_inv_def)
  then have "ac_inv p ?s" using inv by (auto simp: ac_inv_def ledger_ok_def)
  moreover from this have "ac_inv p (rebuildAggregatedState ?s)"
    unfolding ac_inv_def [of p ?s] by (intro ac_inv_rebuild) blast+
  ultimately show ?thesis unfolding pruneExpiredLocalOverrides_def Let_def by (split if_split) blast
qed

lemma ac_inv_timer: "ac_inv p s \<Longrightarrow> ac_inv p (pendingPlanTimerCallback p now s)"
  using ac_inv_pruneOverrides ac_inv_pruneSnapshots ac_inv_clear
  by (simp add: pendingPlanTimerCallback_def Let_def)

lemma overrides_ok_snapshots [simp]:
  "overrides_ok (s\<lparr>last_component_snapshots_by_source := m\<rparr>) = overrides_ok s"
  by (simp add: overrides_ok_def)

lemma ac_inv_store:
  assumes "overrides_ok s" and "distinct_keys (last_component_snapshots_by_source s)"
    and "leader_ok p s"
  shows "ac_inv p (rebuildAggregatedState (s\<lparr>last_component_snapshots_by_source :=
    AList.update k m (last_component_snapshots_by_source s)\<rparr>))"
  by (rule ac_inv_rebuild) (use assms in \<open>auto intro: keys_intros\<close>)

lemma ac_inv_component: "ac_inv p s \<Longrightarrow> ac_inv p (componentStateCallback p msg now s)"
proof -
  assume inv: "ac_inv p s"
  have adopt: "overrides_ok (adopt_view p msg s)" "distinct_keys (last_component_snapshots_by_source (adopt_view p msg s))"
    "leader_ok p (adopt_view p msg s)"
    using inv by (auto simp: ac_inv_def adopt_view_def Let_def overrides_ok_def clearPendingPlan_def leader_ok_def)
  have own: "overrides_ok s" "distinct_keys (last_component_snapshots_by_source s)"
    "leader_ok p s"
    using inv by (simp_all add: ac_inv_def)
  show ?thesis
    using inv ac_inv_store [OF adopt] ac_inv_store [OF own]
    by (simp add: componentStateCallback_def Let_def)
qed

lemma ac_inv_request: "ac_inv p s \<Longrightarrow> ac_inv p (fst (allocationRequestCallback msg now s))"
  by (auto simp: allocationRequestCallback_def Let_def ac_inv_def ledger_ok_def overrides_ok_def leader_ok_def
      split: option.split)

section \<open>Releases and commits\<close>

lemma keys_of_update: "fst ` set (AList.update k v m) = insert k (fst ` set m)"
  by (induction m) auto

lemma overrides_ok_set: "overrides_ok s \<Longrightarrow> overrides_ok (set_override g ow v now s)"
  by (auto simp: overrides_ok_def set_override_def keys_of_update intro: keys_intros)

lemma set_override_fields [simp]:
  "ownership_table (set_override g ow v now s) = ownership_table s"
  "free_grid_pool (set_override g ow v now s) = free_grid_pool s"
  "latest_owner_versions (set_override g ow v now s) = latest_owner_versions s"
  "last_component_snapshots_by_source (set_override g ow v now s) = last_component_snapshots_by_source s"
  "leader_id (set_override g ow v now s) = leader_id s"
  "is_component_leader (set_override g ow v now s) = is_component_leader s"
  "pending_plan_active (set_override g ow v now s) = pending_plan_active s"
  by (simp_all add: set_override_def)

lemma ac_inv_decide:
  assumes "ac_inv p s"
    and "ledger_ok (s\<lparr>latest_owner_versions := l, ownership_table := t, free_grid_pool := f\<rparr>)"
  shows "ac_inv p (set_override g ow v now
    (s\<lparr>latest_owner_versions := l, ownership_table := t, free_grid_pool := f\<rparr>))"
proof -
  let ?s = "s\<lparr>latest_owner_versions := l, ownership_table := t, free_grid_pool := f\<rparr>"
  have "overrides_ok ?s" using assms(1) by (simp add: ac_inv_def overrides_ok_def)
  moreover have "ledger_ok (set_override g ow v now ?s)" using assms(2) by (simp add: ledger_ok_def)
  moreover have "leader_ok p (set_override g ow v now ?s) = leader_ok p s" by (simp add: leader_ok_def)
  ultimately show ?thesis using assms(1) overrides_ok_set by (simp add: ac_inv_def)
qed

lemma ac_inv_release_step: "ac_inv p s \<Longrightarrow> ac_inv p (release_step now c s)"
proof -
  assume inv: "ac_inv p s"
  obtain g ow v where c: "c = (g, ow, v)" by (metis prod_cases3)
  have "ledger_ok (s\<lparr>latest_owner_versions := AList.update g v (latest_owner_versions s),
      ownership_table := AList.delete g (ownership_table s),
      free_grid_pool := AList.update g v (free_grid_pool s)\<rparr>)"
    using inv by (auto simp: ac_inv_def ledger_ok_def umap_simps at_or_def)
  from ac_inv_decide [OF inv this, of g 0 v now] inv show ?thesis
    by (auto simp: c release_step_def split: option.split)
qed

lemma ac_inv_release: "ac_inv p s \<Longrightarrow> ac_inv p (releaseRequestCallback msg now s)"
proof -
  assume "ac_inv p s"
  then have inv: "ac_inv p (s\<lparr>last_release_request_txn_id := apl_txn_id msg\<rparr>)"
    by (simp add: ac_inv_def ledger_ok_def overrides_ok_def)
  have "ac_inv p (fold (release_step now) cs (s\<lparr>last_release_request_txn_id := apl_txn_id msg\<rparr>))" for cs
    using inv by (rule fold_invariant [where P = "ac_inv p"]) (rule ac_inv_release_step)
  with inv show ?thesis by (simp add: releaseRequestCallback_def Let_def)
qed

lemma ac_inv_ack: "ac_inv p s \<Longrightarrow> ac_inv p (fst (assignmentAckCallback msg now s))"
proof -
  assume inv: "ac_inv p s"
  let ?g = "pending_plan_grid_id s" and ?v = "pending_plan_owner_version s"
  have "ledger_ok (s\<lparr>latest_owner_versions := AList.update ?g ?v (latest_owner_versions s),
      ownership_table := AList.update ?g
        \<lparr>own_owner_id = pending_plan_owner_id s, own_owner_version = ?v\<rparr> (ownership_table s),
      free_grid_pool := AList.delete ?g (free_grid_pool s)\<rparr>)"
    using inv by (auto simp: ac_inv_def ledger_ok_def umap_simps at_or_def)
  from ac_inv_clear [OF ac_inv_decide [OF inv this, of ?g "pending_plan_owner_id s" ?v now]] inv
  show ?thesis by (simp add: assignmentAckCallback_def Let_def)
qed

lemma ac_inv_init: "ac_inv p ac_init"
  by (simp add: ac_inv_def ac_init_def ledger_ok_def overrides_ok_def leader_ok_def)

lemma ac_reach_inv: "ac_reach p s \<Longrightarrow> ac_inv p s"
proof (induction rule: ac_reach.induct)
  case (event s now e)
  then show ?case
    by (cases e) (simp_all add: ac_inv_component ac_inv_request ac_inv_release ac_inv_ack ac_inv_timer)
qed (rule ac_inv_init)

end
