(* ===== verification/Alloc_Claims.thy ===== *)
theory Alloc_Claims imports Alloc_Props
begin

text \<open>
  The properties of the allocation coordinator, with instances on a component of two drones that
  is led by drone 1, where grid 5 is free and grid 6 belongs to drone 2.
\<close>

section \<open>A concrete component\<close>

definition ex_component :: "int \<Rightarrow> ComponentState" where
  "ex_component source = \<lparr>cst_component_epoch = 4, cst_leader_id = 1, cst_source_id = source,
     cst_grid_ids = [6], cst_owner_ids = [2], cst_owner_versions = [3], cst_free_grid_ids = [5], cst_stamp = 10\<rparr>"

definition ex_coord :: ac_state where
  "ex_coord = ac_init\<lparr>leader_id := 1, is_component_leader := True, component_epoch := 4, component_stamp := 10,
     last_component_snapshots_by_source := [(1, ex_component 1)],
     free_grid_pool := [(5, 0)], latest_owner_versions := [(6, 3)],
     ownership_table := [(6, \<lparr>own_owner_id = 2, own_owner_version = 3\<rparr>)]\<rparr>"

definition ex_request :: AllocationRequest where
  "ex_request = \<lparr>arq_component_epoch = 4, arq_leader_id = 1, arq_requester_id = 2, arq_grid_ids = [6, 5],
     arq_txn_id = 9, arq_reason = ''idle'', arq_stamp = 10\<rparr>"

lemma ex_coord_inv: "ac_inv ac_default_params ex_coord"
  by (simp add: ac_inv_def ledger_ok_def overrides_ok_def leader_ok_def ex_coord_def ac_init_def
      ac_default_params_def at_or_def)

section \<open>The ledger\<close>

text \<open>C10: in every reachable state no grid is both free and owned, no owned or free version is ahead of
  the latest version known of the grid, the three maps of local decisions have the same grids, the
  node leads exactly when the view names its drone, and only a leader has a plan pending.\<close>

theorem alloc_reachable_invariant: "ac_reach p s \<Longrightarrow> ac_inv p s"
  by (rule ac_reach_inv)

theorem alloc_reachable_invariant_witness:
  "ac_inv ac_default_params (ac_handle ac_default_params 10 (AllocationRequestMsg ex_request)
     (ac_handle ac_default_params 10 (ComponentStateMsg (ex_component 1)) ac_init))"
  by (rule alloc_reachable_invariant, rule ac_reach.event, rule ac_reach.event, rule ac_reach.start)

text \<open>C11: a rebuild gives each grid without a local decision to the claim of the highest version, and
  among those of the smallest source; a grid without a claim that counts has no owner.\<close>

theorem rebuild_gives_best_claim:
  assumes "map_of (local_override_versions s) g = None"
  shows "case map_of (ownership_table (rebuildAggregatedState s)) g of
      None \<Rightarrow> claims_on s g = {}
    | Some r \<Rightarrow> \<exists>src. (src, own_owner_id r, own_owner_version r) \<in> claims_on s g \<and>
        (\<forall>c \<in> claims_on s g. beaten_by c (src, own_owner_id r, own_owner_version r))"
  by (rule rebuild_ownership [OF assms])

lemma ex_coord_claims: "claims_on ex_coord 6 = {(1, 2, 3)}"
  by (auto simp: claims_on_def counted_def ex_coord_def ac_init_def ex_component_def
      snapshotMatchesAuthoritativeView_def snapshot_claims_def claimed_grids_def claim_overridden_def)

theorem rebuild_gives_best_claim_witness:
  "map_of (ownership_table (rebuildAggregatedState ex_coord)) 6 =
   Some \<lparr>own_owner_id = 2, own_owner_version = 3\<rparr>"
  using rebuild_gives_best_claim [of ex_coord 6] ex_coord_claims
  by (auto simp: ex_coord_def ac_init_def split: option.splits)

definition one_claim_per_source :: "ac_state \<Rightarrow> bool" where
  "one_claim_per_source s \<longleftrightarrow> (\<forall>g src o1 v1 o2 v2.
     (src, o1, v1) \<in> claims_on s g \<longrightarrow> (src, o2, v2) \<in> claims_on s g \<longrightarrow> o1 = o2 \<and> v1 = v2)"

lemma counted_order: "counted (s\<lparr>last_component_snapshots_by_source := es\<rparr>) g e = counted s g e"
  by (cases e) (simp add: counted_def snapshotMatchesAuthoritativeView_def claim_overridden_def cong: option.case_cong)

lemma claims_on_order:
  "set es = set (last_component_snapshots_by_source s) \<Longrightarrow>
   claims_on (s\<lparr>last_component_snapshots_by_source := es\<rparr>) g = claims_on s g"
  by (simp add: claims_on_def counted_order)

lemma best_claim_unique:
  assumes "one_claim_per_source s" and "c \<in> claims_on s g" and "\<forall>x \<in> claims_on s g. beaten_by x c"
    and "d \<in> claims_on s g" and "\<forall>x \<in> claims_on s g. beaten_by x d"
  shows "c = d"
proof -
  obtain cs co cv ds do' dv where cd: "c = (cs, co, cv)" "d = (ds, do', dv)" by (metis prod_cases3)
  have "beaten_by c d" "beaten_by d c" using assms by blast+
  then have "cv = dv" "cs = ds" by (auto simp: cd beaten_by_def)
  with assms show ?thesis unfolding one_claim_per_source_def cd by blast
qed

text \<open>The result of a rebuild does not depend on the order in which the unordered map of snapshots
  is traversed, provided no source claims the same grid twice.\<close>

theorem rebuild_order_independent:
  assumes "distinct_keys (local_override_versions s)" and "one_claim_per_source s"
    and "mset es = mset (last_component_snapshots_by_source s)"
  shows "map_of (ownership_table (rebuildAggregatedState (s\<lparr>last_component_snapshots_by_source := es\<rparr>))) g =
    map_of (ownership_table (rebuildAggregatedState s)) g"
proof (cases "map_of (local_override_versions s) g")
  case (Some v)
  then show ?thesis
    using rebuild_override [OF assms(1)] rebuild_override [of "s\<lparr>last_component_snapshots_by_source := es\<rparr>" g v] assms(1)
    by simp
next
  case None
  let ?s = "s\<lparr>last_component_snapshots_by_source := es\<rparr>"
  have same: "claims_on ?s g = claims_on s g"
    using assms(3) by (intro claims_on_order) (metis set_mset_mset)
  let ?spec = "\<lambda>t. case map_of t g of None \<Rightarrow> claims_on s g = {}
    | Some r \<Rightarrow> \<exists>src. (src, own_owner_id r, own_owner_version r) \<in> claims_on s g \<and>
        (\<forall>c \<in> claims_on s g. beaten_by c (src, own_owner_id r, own_owner_version r))"
  have spec: "?spec (ownership_table (rebuildAggregatedState s))" by (rule rebuild_ownership [OF None])
  have spec': "?spec (ownership_table (rebuildAggregatedState ?s))"
    using rebuild_ownership [of ?s g] None unfolding same by simp
  show ?thesis
  proof (cases "map_of (ownership_table (rebuildAggregatedState s)) g")
    case None
    with spec spec' show ?thesis by (auto split: option.splits)
  next
    case (Some r)
    with spec have "claims_on s g \<noteq> {}" by auto
    with spec' obtain r' where r': "map_of (ownership_table (rebuildAggregatedState ?s)) g = Some r'"
      by (auto split: option.splits)
    from spec Some obtain src where a: "(src, own_owner_id r, own_owner_version r) \<in> claims_on s g"
      "\<forall>c \<in> claims_on s g. beaten_by c (src, own_owner_id r, own_owner_version r)" by auto
    from spec' r' obtain src' where b: "(src', own_owner_id r', own_owner_version r') \<in> claims_on s g"
      "\<forall>c \<in> claims_on s g. beaten_by c (src', own_owner_id r', own_owner_version r')" by auto
    from best_claim_unique [OF assms(2) a b] have "r = r'" by simp
    with r' Some show ?thesis by simp
  qed
qed

definition ex_two_sources :: ac_state where
  "ex_two_sources = ex_coord\<lparr>last_component_snapshots_by_source := [(1, ex_component 1), (2, ex_component 2)]\<rparr>"

lemma ex_two_claims: "claims_on ex_two_sources g = (if g = 6 then {(1, 2, 3), (2, 2, 3)} else {})"
  by (auto simp: claims_on_def counted_def ex_two_sources_def ex_coord_def ac_init_def ex_component_def
      snapshotMatchesAuthoritativeView_def snapshot_claims_def claimed_grids_def claim_overridden_def)

theorem rebuild_order_independent_witness:
  "map_of (ownership_table (rebuildAggregatedState
     (ex_two_sources\<lparr>last_component_snapshots_by_source := [(2, ex_component 2), (1, ex_component 1)]\<rparr>))) 6 =
   map_of (ownership_table (rebuildAggregatedState ex_two_sources)) 6"
  by (rule rebuild_order_independent)
    (simp_all add: one_claim_per_source_def ex_two_claims,
     simp_all add: ex_two_sources_def ex_coord_def ac_init_def add_mset_commute)

section \<open>Requests, acknowledgements, releases\<close>

lemma first_free_Some:
  "first_free requested pool = Some (g, v) \<Longrightarrow> g \<in> set requested \<and> map_of pool g = Some v"
  by (auto simp: first_free_def filter_eq_Cons_iff split: list.splits)

lemma smallest_free_fold:
  "foldl (\<lambda>best entry. case best of None \<Rightarrow> Some entry | Some b \<Rightarrow> if fst entry < fst b then Some entry else best)
     b pool = Some e \<Longrightarrow> b = Some e \<or> e \<in> set pool"
  by (induction pool arbitrary: b) (auto split: option.splits if_splits)

lemma smallest_free_Some: "smallest_free pool = Some e \<Longrightarrow> e \<in> set pool"
  using smallest_free_fold [of None pool e] by (simp add: smallest_free_def)

lemma select_free_grid_Some:
  assumes "select_free_grid requested pool = Some (g, v)"
  shows "g \<in> fst ` set pool \<and> (requested \<noteq> [] \<longrightarrow> g \<in> set requested)"
  using assms first_free_Some [of requested pool g v] smallest_free_Some [of pool "(g, v)"]
  by (force simp: select_free_grid_def dest: map_of_SomeD split: if_splits)

text \<open>What a plan of the coordinator contains, and what an acknowledgement makes of it.\<close>

lemma request_plan_commit:
  assumes "allocationRequestCallback msg now s = (s', Some plan)"
  shows "(is_component_leader s \<and> arq_leader_id msg = leader_id s \<and>
      arq_component_epoch msg = component_epoch s \<and> \<not> pending_plan_active s) \<and>
    (\<exists>g v. select_free_grid (arq_grid_ids msg) (free_grid_pool s) = Some (g, v) \<and>
       g \<in> fst ` set (free_grid_pool s) \<and>
       plan = \<lparr>apl_component_epoch = component_epoch s, apl_leader_id = leader_id s, apl_grid_ids = [g],
         apl_owner_ids = [arq_requester_id msg], apl_owner_versions = [v + 1], apl_txn_id = arq_txn_id msg,
         apl_reason = arq_reason msg, apl_stamp = now\<rparr> \<and>
       (\<forall>ack now'. if ack_matches ack s'
          then snd (assignmentAckCallback ack now' s') = Some (plan\<lparr>apl_stamp := now'\<rparr>) \<and>
               map_of (ownership_table (fst (assignmentAckCallback ack now' s'))) g =
                 Some \<lparr>own_owner_id = arq_requester_id msg, own_owner_version = v + 1\<rparr> \<and>
               map_of (free_grid_pool (fst (assignmentAckCallback ack now' s'))) g = None \<and>
               \<not> pending_plan_active (fst (assignmentAckCallback ack now' s'))
          else assignmentAckCallback ack now' s' = (s', None)))"
proof -
  have guards: "is_component_leader s" "arq_leader_id msg = leader_id s"
    "arq_component_epoch msg = component_epoch s" "\<not> pending_plan_active s"
    using assms by (auto simp: allocationRequestCallback_def Let_def split: if_splits)
  then obtain g v where sel: "select_free_grid (arq_grid_ids msg) (free_grid_pool s) = Some (g, v)"
    using assms by (auto simp: allocationRequestCallback_def Let_def split: option.splits)
  have state: "pending_plan_grid_id s' = g" "pending_plan_owner_id s' = arq_requester_id msg"
    "pending_plan_owner_version s' = v + 1" "pending_plan_txn_id s' = arq_txn_id msg"
    "pending_plan_reason s' = arq_reason msg" "component_epoch s' = component_epoch s" "leader_id s' = leader_id s"
    and plan: "plan = pending_plan_msg now s'"
    using assms guards sel by (auto simp: allocationRequestCallback_def Let_def)
  have "if ack_matches ack s'
      then snd (assignmentAckCallback ack now' s') = Some (plan\<lparr>apl_stamp := now'\<rparr>) \<and>
        map_of (ownership_table (fst (assignmentAckCallback ack now' s'))) g =
          Some \<lparr>own_owner_id = arq_requester_id msg, own_owner_version = v + 1\<rparr> \<and>
        map_of (free_grid_pool (fst (assignmentAckCallback ack now' s'))) g = None \<and>
        \<not> pending_plan_active (fst (assignmentAckCallback ack now' s'))
      else assignmentAckCallback ack now' s' = (s', None)" for ack now'
    using state by (simp add: plan assignmentAckCallback_def Let_def pending_plan_msg_def
        clearPendingPlan_def umap_simps)
  moreover have "plan = \<lparr>apl_component_epoch = component_epoch s, apl_leader_id = leader_id s, apl_grid_ids = [g],
      apl_owner_ids = [arq_requester_id msg], apl_owner_versions = [v + 1], apl_txn_id = arq_txn_id msg,
      apl_reason = arq_reason msg, apl_stamp = now\<rparr>"
    using state by (simp add: plan pending_plan_msg_def)
  ultimately show ?thesis using guards sel select_free_grid_Some [OF sel] by blast
qed


definition ex_planned :: ac_state where
  "ex_planned = fst (allocationRequestCallback ex_request 10 ex_coord)"

lemma ex_request_plan:
  "\<exists>plan. allocationRequestCallback ex_request 10 ex_coord = (ex_planned, Some plan) \<and> apl_grid_ids plan = [5]"
  by (simp add: ex_planned_def allocationRequestCallback_def Let_def ex_coord_def ac_init_def ex_request_def
      select_free_grid_def first_free_def pending_plan_msg_def)


lemma release_step_own:
  "map_of (ownership_table (release_step now (k, ow, v) s)) g =
    (if k = g \<and> map_of (ownership_table s) g = Some \<lparr>own_owner_id = ow, own_owner_version = v\<rparr>
     then None else map_of (ownership_table s) g)"
  by (auto simp: release_step_def umap_simps split: option.splits)

lemma release_fold_own:
  "map_of (ownership_table (fold (release_step now) cs s)) g =
    (case map_of (ownership_table s) g of
       None \<Rightarrow> None
     | Some r \<Rightarrow> if (g, own_owner_id r, own_owner_version r) \<in> set cs then None else Some r)"
proof (induction cs arbitrary: s)
  case (Cons c cs)
  obtain k ow v where c: "c = (k, ow, v)" by (metis prod_cases3)
  show ?case using Cons [of "release_step now c s"] by (auto simp: c release_step_own split: option.splits)
qed (simp split: option.split)

text \<open>a release request of the current leader and epoch frees exactly the grids it names with their
  current owner and version, at that version, and leaves the ownership of every other grid.\<close>

theorem release_exact:
  assumes "is_component_leader s" and "apl_leader_id msg = leader_id s"
    and "apl_component_epoch msg = component_epoch s"
  shows "map_of (ownership_table (releaseRequestCallback msg now s)) g =
    (case map_of (ownership_table s) g of
       None \<Rightarrow> None
     | Some r \<Rightarrow> if (g, own_owner_id r, own_owner_version r) \<in>
           set (claimed_grids (apl_grid_ids msg) (apl_owner_ids msg) (apl_owner_versions msg))
         then None else Some r)"
  using assms by (simp add: releaseRequestCallback_def Let_def release_fold_own)

definition ex_release :: ReleaseRequest where
  "ex_release = \<lparr>apl_component_epoch = 4, apl_leader_id = 1, apl_grid_ids = [6], apl_owner_ids = [2],
     apl_owner_versions = [3], apl_txn_id = 1, apl_reason = ''plan_fail'', apl_stamp = 10\<rparr>"

theorem release_exact_witness: "map_of (ownership_table (releaseRequestCallback ex_release 10 ex_coord)) 6 = None"
  using release_exact [of ex_coord ex_release 10 6]
  by (simp add: ex_coord_def ac_init_def ex_release_def claimed_grids_def)

text \<open>A decision of this node (a commit or a release) outlives the snapshots: a component state of
  the same view cannot change the owner of the grid while the decision stands.\<close>

theorem decision_survives_snapshots:
  assumes "ac_inv p s" and "map_of (local_override_versions s) g = Some v"
    and "cst_leader_id msg = leader_id s" and "cst_component_epoch msg = component_epoch s"
    and "0 < cst_source_id msg"
  shows "map_of (ownership_table (componentStateCallback p msg now s)) g =
    (if at_or 0 (local_override_owner_ids s) g > 0
     then Some \<lparr>own_owner_id = at_or 0 (local_override_owner_ids s) g, own_owner_version = v\<rparr> else None)"
proof -
  let ?s1 = "if authoritativeAcceptanceReason p now s msg \<noteq> [] then adopt_view p msg s else s"
  let ?s2 = "?s1\<lparr>last_component_snapshots_by_source :=
      AList.update (cst_source_id msg) msg (last_component_snapshots_by_source ?s1)\<rparr>"
  have "local_override_versions ?s2 = local_override_versions s"
    "local_override_owner_ids ?s2 = local_override_owner_ids s"
    using assms(3,4) by (simp_all add: adopt_view_def Let_def)
  moreover have "distinct_keys (local_override_versions s)" using assms(1) by (simp add: ac_inv_def overrides_ok_def)
  moreover have "componentStateCallback p msg now s = rebuildAggregatedState ?s2"
    using assms(5) by (simp add: componentStateCallback_def Let_def)
  ultimately show ?thesis using rebuild_override [of ?s2 g v] assms(2) by simp
qed

definition ex_committed :: ac_state where
  "ex_committed = set_override 5 2 1 10 (ex_coord\<lparr>free_grid_pool := [],
     latest_owner_versions := [(6, 3), (5, 1)],
     ownership_table := [(6, \<lparr>own_owner_id = 2, own_owner_version = 3\<rparr>),
       (5, \<lparr>own_owner_id = 2, own_owner_version = 1\<rparr>)]\<rparr>)"

theorem decision_survives_snapshots_witness:
  "map_of (ownership_table (componentStateCallback ac_default_params (ex_component 2) 10 ex_committed)) 5 =
   Some \<lparr>own_owner_id = 2, own_owner_version = 1\<rparr>"
proof -
  have "ac_inv ac_default_params ex_committed"
    by (simp add: ac_inv_def ledger_ok_def overrides_ok_def leader_ok_def ex_committed_def ex_coord_def
        ac_init_def ac_default_params_def at_or_def set_override_def)
  from decision_survives_snapshots [OF this, of 5 1 "ex_component 2" 10] show ?thesis
    by (simp add: ex_committed_def ex_coord_def ac_init_def ex_component_def at_or_def set_override_def)
qed

definition ex_report :: "int \<Rightarrow> (int \<times> int \<times> 64 word) list \<Rightarrow> int list \<Rightarrow> ComponentState" where
  "ex_report source owned free = \<lparr>cst_component_epoch = 4, cst_leader_id = 1, cst_source_id = source,
     cst_grid_ids = map fst owned, cst_owner_ids = map (fst \<circ> snd) owned,
     cst_owner_versions = map (snd \<circ> snd) owned, cst_free_grid_ids = free, cst_stamp = 10\<rparr>"

definition ex_taken :: ac_state where
  "ex_taken = ac_handle ac_default_params 10 (ComponentStateMsg (ex_report 3 [(5, 3, 70)] []))
     (ac_handle ac_default_params 10 (AllocationRequestMsg ex_request)
       (ac_handle ac_default_params 10 (ComponentStateMsg (ex_report 1 [] [5])) ac_init))"

lemma ex_taken_reach: "ac_reach ac_default_params ex_taken"
  unfolding ex_taken_def by (intro ac_reach.event ac_reach.start)

definition ex_ack :: AssignmentAck where
  "ex_ack = \<lparr>aak_component_epoch = 4, aak_leader_id = 1, aak_grid_id = 5, aak_owner_id = 2,
     aak_owner_version = 1, aak_txn_id = 9, aak_accept = True, aak_reason = [], aak_stamp = 10\<rparr>"

text \<open>A pending plan is not checked again when it is acknowledged. If drone 3 has meanwhile been
  reported as the owner of the planned grid at a much later version, the acceptance of the old plan
  still takes the grid from it and sets the latest known version back.\<close>

theorem stale_commit_takes_grid:
  "ac_reach ac_default_params ex_taken \<and>
   map_of (ownership_table ex_taken) 5 = Some \<lparr>own_owner_id = 3, own_owner_version = 70\<rparr> \<and>
   map_of (ownership_table (fst (assignmentAckCallback ex_ack 10 ex_taken))) 5 =
     Some \<lparr>own_owner_id = 2, own_owner_version = 1\<rparr> \<and>
   map_of (latest_owner_versions (fst (assignmentAckCallback ex_ack 10 ex_taken))) 5 = Some 1"
  by (rule conjI, rule ex_taken_reach) code_simp

end
