(* ===== verification/Expl_State.thy ===== *)
theory Expl_State imports Relay_Anchors Assignment_Messages
begin

text \<open>
  The exploration state machine of one drone
  (\<open>exploration_manager/src/fast_exploration_fsm.cpp\<close>): its state, and the helper functions by which
  it keeps the set of grids it explores, stages releases and claims, and publishes requests.

  What the mapping and planning modules answer during one callback is a value of \<open>fsm_world\<close>: the
  frontier detection, the hierarchical grid, the trajectory planner and the executed trajectory.
  Published messages are appended to the list \<open>fs_out\<close>. The pointers that the helpers test are set
  by \<open>init\<close> before the first callback, so those tests are not modelled; nor is drawing or logging.
\<close>

section \<open>The state\<close>

datatype EXPL_STATE = INIT | WAIT_TRIGGER | PLAN_TRAJ | PUB_TRAJ | EXEC_TRAJ | FINISH | IDLE

datatype EXPL_RESULT = NO_FRONTIER | FAIL | SUCCEED | NO_GRID

record DroneState =
  ds_pos :: point
  ds_vel :: vector3
  ds_yaw :: real
  ds_stamp :: real
  ds_recent_attempt_time :: real
  ds_relay_role :: int
  ds_task_assignable :: bool
  ds_grid_ids :: "int list"
  ds_recent_interact_time :: real

text \<open>The messages \<open>DroneState\<close>, \<open>PairOpt\<close> and \<open>PairOptResponse\<close>; their grid ids are \<open>int8\<close>.\<close>

record DroneStateMsg =
  dsm_drone_id :: int
  dsm_grid_ids :: "8 word list"
  dsm_recent_attempt_time :: real
  dsm_stamp :: real
  dsm_relay_role :: "8 word"
  dsm_task_assignable :: bool
  dsm_pos :: point
  dsm_vel :: vector3
  dsm_yaw :: real

record PairOpt =
  po_from_drone_id :: int
  po_to_drone_id :: int
  po_stamp :: real
  po_ego_ids :: "8 word list"
  po_other_ids :: "8 word list"

record PairOptResponse =
  por_from_drone_id :: int
  por_to_drone_id :: int
  por_status :: int
  por_stamp :: real

text \<open>What the state machine publishes. The trajectory topics carry the newest trajectory, of which
  only the start time is modelled.\<close>

datatype fsm_out =
    AllocationRequestOut AllocationRequest
  | ReleaseRequestOut ReleaseRequest
  | AssignmentAckOut AssignmentAck
  | ReplanOut
  | BsplineOut time
  | SwarmTrajOut time
  | VirtualTrajOut point time
  | DroneStateOut DroneStateMsg
  | RelayTaskStateOut RelayTaskState
  | ComponentStateOut ComponentState
  | PairOptOut PairOpt
  | PairOptResponseOut PairOptResponse

record fsm_params =
  fp_drone_id :: int
  fp_drone_num :: nat
  fp_replan_thresh1 :: real
  fp_replan_thresh2 :: real
  fp_replan_thresh3 :: real
  fp_replan_time :: real
  fp_idle_retry_interval :: real
  fp_auto_start :: bool
  fp_auto_start_retry_interval :: real
  fp_remote_map_replan_interval :: real
  fp_attempt_interval :: real
  fp_repeat_send_num :: nat

definition fsm_default_params :: "int \<Rightarrow> nat \<Rightarrow> fsm_params" where
  "fsm_default_params drone_id drone_num = \<lparr>fp_drone_id = drone_id, fp_drone_num = drone_num,
     fp_replan_thresh1 = -1, fp_replan_thresh2 = -1, fp_replan_thresh3 = -1, fp_replan_time = -1,
     fp_idle_retry_interval = 100, fp_auto_start = False, fp_auto_start_retry_interval = 1 / 2,
     fp_remote_map_replan_interval = 1, fp_attempt_interval = 1 / 5, fp_repeat_send_num = 10\<rparr>"

text \<open>Members of the class (\<open>fs\<close>), of \<open>FSMData\<close> (\<open>fd\<close>) and of \<open>ExplorationData\<close> (\<open>ed\<close>). The last three
  are the start of the executed trajectory, of the newest one, and of the trajectories received from the
  other drones (none yet: \<open>None\<close>).\<close>

record fsm_state =
  fs_state :: EXPL_STATE
  fs_current_role :: int
  fs_have_relay_target :: bool
  fs_relay_target :: point
  fs_relay_yaw :: real
  fs_relay_suspended_grid_ids :: "int list"
  fs_component_epoch :: "64 word"
  fs_component_leader_id :: int
  fs_component_members_initialized :: bool
  fs_last_component_member_ids :: "int list"
  fs_component_owner_ids :: "int umap"
  fs_component_owner_versions :: "64 word umap"
  fs_pending_active :: bool
  fs_pending_txn_id :: "64 word"
  fs_pending_epoch :: "64 word"
  fs_pending_leader_id :: int
  fs_pending_grid_id :: int
  fs_pending_owner_id :: int
  fs_pending_owner_version :: "64 word"
  fs_next_allocation_request_txn_id :: "64 word"
  fs_next_release_request_txn_id :: "64 word"
  fs_out :: "fsm_out list"
  fd_trigger :: bool
  fd_have_odom :: bool
  fd_static_state :: bool
  fd_odom_pos :: point
  fd_odom_vel :: vector3
  fd_odom_yaw :: real
  fd_start_pt :: point
  fd_start_yaw :: real
  fd_start_pos :: point
  fd_avoid_collision :: bool
  fd_go_back :: bool
  fd_fsm_init_time :: time
  fd_last_check_frontier_time :: time
  fd_last_idle_recovery_time :: time
  fd_last_remote_map_replan_time :: time
  fd_last_safety_replan_time :: time
  fd_last_plan_fail_time :: time
  fd_last_plan_success_time :: time
  fd_last_assignment_relief_time :: time
  fd_aggressive_reassign_requested :: bool
  fd_consecutive_plan_failures :: int
  fd_plan_failure_relief_rounds :: int
  ed_swarm_state :: "DroneState list"
  ed_pair_opt_stamps :: "real list"
  ed_pair_opt_res_stamps :: "real list"
  ed_ego_ids :: "int list"
  ed_other_ids :: "int list"
  ed_observed_peer_grid_ids :: "int list list"
  ed_pending_grid_ids :: "int list"
  ed_pending_claim_grid_ids :: "int list"
  ed_pending_relay_recover_grid_ids :: "int list"
  ed_pending_pair_opt_grid_ids :: "int list"
  ed_pending_pair_opt_peer_grid_ids :: "int list"
  ed_pending_release_grid_ids :: "int list"
  ed_pending_invalidated_grid_ids :: "int list"
  ed_pending_plan_fail_release_grid_ids :: "int list"
  ed_pending_commit_grid_ids :: "int list"
  ed_pending_commit_peer_grid_ids :: "int list"
  ed_pending_relay_enter_release_grid_ids :: "int list"
  ed_pair_opt_stamp :: real
  ed_reallocated :: bool
  ed_wait_response :: bool
  ed_last_grid_ids :: "int list"
  ed_traj_start_time :: time
  ed_newest_traj_start_time :: time
  ed_swarm_traj_starts :: "time option list"

definition init_drone_state :: DroneState where
  "init_drone_state = \<lparr>ds_pos = zero_point, ds_vel = zero_vector, ds_yaw = 0, ds_stamp = 0,
     ds_recent_attempt_time = 0, ds_relay_role = 0, ds_task_assignable = True, ds_grid_ids = [],
     ds_recent_interact_time = 0\<rparr>"

definition fsm_init :: "fsm_params \<Rightarrow> fsm_state" where
  "fsm_init p = \<lparr>fs_state = INIT, fs_current_role = ROLE_EXPLORER, fs_have_relay_target = False,
     fs_relay_target = zero_point, fs_relay_yaw = 0, fs_relay_suspended_grid_ids = [],
     fs_component_epoch = 0, fs_component_leader_id = 0, fs_component_members_initialized = False,
     fs_last_component_member_ids = [], fs_component_owner_ids = [],
     fs_component_owner_versions = [], fs_pending_active = False, fs_pending_txn_id = 0,
     fs_pending_epoch = 0, fs_pending_leader_id = 0, fs_pending_grid_id = 0,
     fs_pending_owner_id = 0, fs_pending_owner_version = 0,
     fs_next_allocation_request_txn_id = 1, fs_next_release_request_txn_id = 1, fs_out = [],
     fd_trigger = False, fd_have_odom = False, fd_static_state = True, fd_odom_pos = zero_point,
     fd_odom_vel = zero_vector, fd_odom_yaw = 0, fd_start_pt = zero_point, fd_start_yaw = 0,
     fd_start_pos = zero_point, fd_avoid_collision = False, fd_go_back = False,
     fd_fsm_init_time = 0, fd_last_check_frontier_time = 0, fd_last_idle_recovery_time = 0,
     fd_last_remote_map_replan_time = 0, fd_last_safety_replan_time = 0, fd_last_plan_fail_time = 0,
     fd_last_plan_success_time = 0, fd_last_assignment_relief_time = 0,
     fd_aggressive_reassign_requested = False, fd_consecutive_plan_failures = 0,
     fd_plan_failure_relief_rounds = 0,
     ed_swarm_state = replicate (fp_drone_num p) init_drone_state,
     ed_pair_opt_stamps = replicate (fp_drone_num p) 0,
     ed_pair_opt_res_stamps = replicate (fp_drone_num p) 0, ed_ego_ids = [], ed_other_ids = [],
     ed_observed_peer_grid_ids = [], ed_pending_grid_ids = [], ed_pending_claim_grid_ids = [],
     ed_pending_relay_recover_grid_ids = [], ed_pending_pair_opt_grid_ids = [],
     ed_pending_pair_opt_peer_grid_ids = [], ed_pending_release_grid_ids = [],
     ed_pending_invalidated_grid_ids = [], ed_pending_plan_fail_release_grid_ids = [],
     ed_pending_commit_grid_ids = [], ed_pending_commit_peer_grid_ids = [],
     ed_pending_relay_enter_release_grid_ids = [], ed_pair_opt_stamp = 0, ed_reallocated = True,
     ed_wait_response = False, ed_last_grid_ids = [], ed_traj_start_time = 0,
     ed_newest_traj_start_time = 0, ed_swarm_traj_starts = replicate (fp_drone_num p) None\<rparr>"

section \<open>What the other modules answer\<close>

text \<open>The planner calls of \<open>callExplorationPlanner\<close>: \<open>planTrajToView\<close> to the last goal, to a relay goal,
  and \<open>planExploreMotion\<close>.\<close>

datatype plan_call = TrajToLastGoal | TrajToView point real | ExploreMotion

text \<open>
  The answers within one callback: the status of \<open>updateFrontierStruct\<close> and whether the frontiers
  changed or are covered, the pending remote chunk update, the active grids of the hierarchical grid
  (after the frontier update, where the callback makes one), fine grids, the frontiers of a grid,
  consistency, the two costs \<open>getCostDroneToGrid\<close> from a position (and a velocity) to a grid, the
  result of a planner call, the grids that the global allocation of this callback staged in
  \<open>pending_grid_ids\<close> (if it ran) and the clock afterwards, the point and yaw of the executed trajectory
  at a time, its duration, its collision checks and whether its end point is near the goal.
\<close>

record fsm_world =
  w_frontier_status :: int
  w_frontier_changed :: bool
  w_frontier_covered :: bool
  w_remote_update :: bool
  w_active_grids :: "int list"
  w_fine_grid :: "int \<Rightarrow> bool"
  w_grid_frontiers :: "int \<Rightarrow> int list"
  w_consistent :: "int \<Rightarrow> int \<Rightarrow> bool"
  w_grid_cost :: "point \<Rightarrow> int \<Rightarrow> real"
  w_grid_vel_cost :: "point \<Rightarrow> vector3 \<Rightarrow> int \<Rightarrow> real"
  w_plan :: "plan_call \<Rightarrow> EXPL_RESULT"
  w_plan_grids :: "int list option"
  w_plan_done :: time
  w_traj_pos :: "time \<Rightarrow> point"
  w_traj_vel :: "time \<Rightarrow> vector3"
  w_traj_yaw :: "time \<Rightarrow> real"
  w_duration :: real
  w_traj_safe :: bool
  w_swarm_safe :: bool
  w_near_goal :: bool

section \<open>The drone's own entry\<close>

text \<open>\<open>swarm_state_[getId() - 1]\<close>.\<close>

definition self_index :: "fsm_params \<Rightarrow> nat" where
  "self_index p = nat (fp_drone_id p - 1)"

definition self_state :: "fsm_params \<Rightarrow> fsm_state \<Rightarrow> DroneState" where
  "self_state p s = ed_swarm_state s ! self_index p"

definition set_self :: "fsm_params \<Rightarrow> DroneState \<Rightarrow> fsm_state \<Rightarrow> fsm_state" where
  "set_self p d s = s\<lparr>ed_swarm_state := (ed_swarm_state s)[self_index p := d]\<rparr>"

definition publish :: "fsm_out \<Rightarrow> fsm_state \<Rightarrow> fsm_state" where
  "publish m s = s\<lparr>fs_out := fs_out s @ [m]\<rparr>"

definition transitState :: "EXPL_STATE \<Rightarrow> fsm_state \<Rightarrow> fsm_state" where
  "transitState new_state s = s\<lparr>fs_state := new_state\<rparr>"

end
