(* ===== verification/Expl_Grids.thy ===== *)
theory Expl_Grids imports Expl_State
begin

text \<open>
  The helper functions of \<open>fast_exploration_fsm.cpp\<close> that keep the grids of a drone: the grids it may
  plan with, the grids staged for release or wanted as a claim, the requests published for them, the
  choice of unallocated grids, and the return from the relay role.
\<close>

section \<open>Grid lists\<close>

definition getEffectiveSelfGridIds :: "fsm_params \<Rightarrow> fsm_state \<Rightarrow> int list" where
  "getEffectiveSelfGridIds p s =
     (if fs_current_role s = ROLE_RELAY then []
      else filter (\<lambda>g. g \<notin> set (ed_pending_release_grid_ids s)) (ds_grid_ids (self_state p s)))"

text \<open>Appending the ids that a hash set has not seen yet.\<close>

definition append_unique :: "int list \<Rightarrow> int list \<Rightarrow> int list" where
  "append_unique dst src = foldl (\<lambda>acc g. if g \<in> set acc then acc else acc @ [g]) dst src"

definition stagePendingSelfRelease :: "int list \<Rightarrow> fsm_state \<Rightarrow> fsm_state" where
  "stagePendingSelfRelease grid_ids s =
     s\<lparr>ed_pending_release_grid_ids := append_unique (ed_pending_release_grid_ids s) grid_ids\<rparr>"

definition getPendingAllocationCandidates :: "fsm_state \<Rightarrow> int list" where
  "getPendingAllocationCandidates s =
     append_unique (append_unique [] (ed_pending_relay_recover_grid_ids s)) (ed_pending_claim_grid_ids s)"

text \<open>The grid to give up after repeated planning failures: the most expensive one after the first, of
  the largest id among equals.\<close>

definition release_cost_step ::
  "(int \<Rightarrow> real) \<Rightarrow> int list \<Rightarrow> nat \<times> real \<Rightarrow> nat \<Rightarrow> nat \<times> real" where
  "release_cost_step cost grids best i =
     (case best of (best_index, best_cost) \<Rightarrow>
        if cost (grids ! i) > best_cost + 1 / 1000000 \<or>
           (\<bar>cost (grids ! i) - best_cost\<bar> \<le> 1 / 1000000 \<and> grids ! i > grids ! best_index)
        then (i, cost (grids ! i)) else best)"

definition selectPlanFailureReleaseGrids ::
  "fsm_world \<Rightarrow> int list \<Rightarrow> bool \<Rightarrow> fsm_state \<Rightarrow> int list" where
  "selectPlanFailureReleaseGrids w grids aggressive s =
     (if grids = [] then []
      else if aggressive \<or> length grids \<le> 1 then grids
      else [grids ! fst (foldl (release_cost_step (w_grid_vel_cost w (fd_odom_pos s) (fd_odom_vel s)) grids)
              (1, -1) [1..<length grids])])"

definition needsImmediateAssignmentReplan :: "fsm_world \<Rightarrow> int list \<Rightarrow> int list \<Rightarrow> bool" where
  "needsImmediateAssignmentReplan w prev_ids new_ids =
     (if (prev_ids = []) \<noteq> (new_ids = []) then True
      else if prev_ids = [] \<or> new_ids = [] then False
      else \<not> w_consistent w (hd prev_ids) (hd new_ids))"

section \<open>Transactions\<close>

definition clearPendingAssignmentTxn :: "fsm_state \<Rightarrow> fsm_state" where
  "clearPendingAssignmentTxn s = s\<lparr>fs_pending_active := False, fs_pending_txn_id := 0,
     fs_pending_epoch := 0, fs_pending_leader_id := 0, fs_pending_grid_id := 0,
     fs_pending_owner_id := 0, fs_pending_owner_version := 0\<rparr>"

definition clearLegacyPairOptState :: "fsm_state \<Rightarrow> fsm_state" where
  "clearLegacyPairOptState s = s\<lparr>ed_ego_ids := [], ed_other_ids := [],
     ed_pending_pair_opt_grid_ids := [], ed_pending_pair_opt_peer_grid_ids := [],
     ed_pending_commit_grid_ids := [], ed_pending_commit_peer_grid_ids := [],
     ed_wait_response := False, ed_pair_opt_stamp := 0\<rparr>"

definition publishAllocationRequest ::
  "fsm_params \<Rightarrow> time \<Rightarrow> string \<Rightarrow> fsm_state \<Rightarrow> bool \<times> fsm_state" where
  "publishAllocationRequest p now reason s =
     (if \<not> fs_component_members_initialized s \<or> fs_component_leader_id s \<le> 0 then (False, s)
      else if getPendingAllocationCandidates s = [] then (False, s)
      else if fs_pending_active s then (False, s)
      else
        let s = clearLegacyPairOptState s;
            request_msg = \<lparr>arq_component_epoch = fs_component_epoch s,
              arq_leader_id = fs_component_leader_id s, arq_requester_id = fp_drone_id p,
              arq_grid_ids = getPendingAllocationCandidates s,
              arq_txn_id = fs_next_allocation_request_txn_id s, arq_reason = reason, arq_stamp = now\<rparr>;
            s = s\<lparr>fs_next_allocation_request_txn_id := fs_next_allocation_request_txn_id s + 1\<rparr>
        in (True, publish (AllocationRequestOut request_msg) s))"

definition known_owner_version :: "fsm_state \<Rightarrow> int \<Rightarrow> 64 word" where
  "known_owner_version s grid_id = at_or 1 (fs_component_owner_versions s) grid_id"

definition publishReleaseRequest ::
  "fsm_params \<Rightarrow> time \<Rightarrow> int list \<Rightarrow> string \<Rightarrow> fsm_state \<Rightarrow> bool \<times> fsm_state" where
  "publishReleaseRequest p now grid_ids reason s =
     (if \<not> fs_component_members_initialized s \<or> fs_component_leader_id s \<le> 0 \<or> grid_ids = [] then (False, s)
      else
        let s = clearLegacyPairOptState s;
            request_msg = \<lparr>apl_component_epoch = fs_component_epoch s,
              apl_leader_id = fs_component_leader_id s, apl_grid_ids = grid_ids,
              apl_owner_ids = replicate (length grid_ids) (fp_drone_id p),
              apl_owner_versions = map (known_owner_version s) grid_ids,
              apl_txn_id = fs_next_release_request_txn_id s, apl_reason = reason, apl_stamp = now\<rparr>;
            s = s\<lparr>fs_next_release_request_txn_id := fs_next_release_request_txn_id s + 1\<rparr>
        in (True, publish (ReleaseRequestOut request_msg) s))"

section \<open>Unallocated grids\<close>

text \<open>The grids of a drone as this one knows them: its own effective grids, the grids a peer has
  broadcast, or the initial ones of a peer never heard of.\<close>

definition known_grids :: "fsm_params \<Rightarrow> fsm_state \<Rightarrow> nat \<Rightarrow> int list" where
  "known_grids p s i =
     (if int i + 1 = fp_drone_id p then getEffectiveSelfGridIds p s
      else if i < length (ed_observed_peer_grid_ids s) \<and> ds_stamp (ed_swarm_state s ! i) > 1 / 10000
      then ed_observed_peer_grid_ids s ! i
      else ds_grid_ids (ed_swarm_state s ! i))"

definition findUnallocated :: "fsm_params \<Rightarrow> fsm_world \<Rightarrow> int list \<Rightarrow> fsm_state \<Rightarrow> int list" where
  "findUnallocated p w actives s =
     (let active_map = append_unique [] (filter (\<lambda>g. \<not> (w_fine_grid w g \<and> w_grid_frontiers w g = [])) actives)
      in foldl (\<lambda>m i. if ds_task_assignable (ed_swarm_state s ! i)
             then filter (\<lambda>g. g \<notin> set (known_grids p s i)) m else m)
           active_map [0..<length (ed_swarm_state s)])"

text \<open>The loop that gives every missed grid to the candidate of the least cost and load. The best
  agent, score and load so far are \<open>None\<close> at the start, where the code has \<open>-1\<close>, infinity and the
  largest \<open>int\<close>.\<close>

definition claim_score :: "fsm_world \<Rightarrow> fsm_state \<Rightarrow> int umap \<Rightarrow> int \<Rightarrow> int \<Rightarrow> real" where
  "claim_score w s loads grid_id agent_id =
     w_grid_cost w (ds_pos (ed_swarm_state s ! nat (agent_id - 1))) grid_id + 2 * real_of_int (at_or 0 loads agent_id)"

definition claim_agent_step ::
  "fsm_world \<Rightarrow> fsm_state \<Rightarrow> int umap \<Rightarrow> int \<Rightarrow> (int \<times> real \<times> int) option \<Rightarrow> int \<Rightarrow> (int \<times> real \<times> int) option" where
  "claim_agent_step w s loads grid_id best agent_id =
     (let load = at_or 0 loads agent_id;
          score = claim_score w s loads grid_id agent_id
      in case best of
           None \<Rightarrow> Some (agent_id, score, load)
         | Some (best_agent, best_score, best_load) \<Rightarrow>
             if score + 1 / 1000 < best_score \<or>
                (\<bar>score - best_score\<bar> \<le> 1 / 1000 \<and>
                 (load < best_load \<or> (load = best_load \<and> agent_id < best_agent)))
             then Some (agent_id, score, load) else best)"

definition claim_grid_step ::
  "fsm_world \<Rightarrow> fsm_state \<Rightarrow> int list \<Rightarrow> (int \<times> int) list \<times> int umap \<Rightarrow> int \<Rightarrow> (int \<times> int) list \<times> int umap" where
  "claim_grid_step w s candidate_ids acc grid_id =
     (case acc of (claimed, loads) \<Rightarrow>
        (case foldl (claim_agent_step w s loads grid_id) None candidate_ids of
           None \<Rightarrow> acc
         | Some (best_agent, _, _) \<Rightarrow>
             (claimed @ [(best_agent, grid_id)],
              AList.update best_agent (at_or 0 loads best_agent + 1) loads)))"

definition claimed_by :: "(int \<times> int) list \<Rightarrow> int \<Rightarrow> int list" where
  "claimed_by claimed agent_id = map snd (filter (\<lambda>c. fst c = agent_id) claimed)"

definition refresh_self :: "fsm_params \<Rightarrow> time \<Rightarrow> fsm_state \<Rightarrow> fsm_state" where
  "refresh_self p now s = set_self p ((self_state p s)\<lparr>ds_pos := fd_odom_pos s, ds_vel := fd_odom_vel s,
     ds_yaw := fd_odom_yaw s, ds_stamp := now, ds_relay_role := fs_current_role s,
     ds_task_assignable := True\<rparr>) s"

definition claim_candidates :: "fsm_params \<Rightarrow> time \<Rightarrow> fsm_state \<Rightarrow> int list" where
  "claim_candidates p now s =
     (let assignable = filter (\<lambda>i. ds_task_assignable (ed_swarm_state s ! i) \<and>
            \<not> (int i + 1 \<noteq> fp_drone_id p \<and> now - ds_stamp (ed_swarm_state s ! i) > 1 / 2))
            [0..<length (ed_swarm_state s)];
          idle = filter (\<lambda>i. known_grids p s i = []) assignable
      in map (\<lambda>i. int i + 1) (if idle = [] then assignable else idle))"

definition own_claim :: "fsm_params \<Rightarrow> fsm_world \<Rightarrow> time \<Rightarrow> int list \<Rightarrow> fsm_state \<Rightarrow> int list" where
  "own_claim p w now missed s =
     (let candidate_ids = claim_candidates p now s;
          loads = fold (\<lambda>a m. AList.update a (int (length (known_grids p s (nat (a - 1))))) m) candidate_ids []
      in claimed_by (fst (foldl (claim_grid_step w s candidate_ids) ([], loads) missed)) (fp_drone_id p))"

definition tryClaimUnallocatedGrids ::
  "fsm_params \<Rightarrow> fsm_world \<Rightarrow> time \<Rightarrow> string \<Rightarrow> bool \<Rightarrow> fsm_state \<Rightarrow> bool \<times> fsm_state" where
  "tryClaimUnallocatedGrids p w now pos_call require_empty_assignment s =
     (if \<not> fd_have_odom s \<or> fs_current_role s = ROLE_RELAY then (False, s)
      else
        let s = refresh_self p now s;
            retry_interval = max (1 / 5) (min (fp_idle_retry_interval p) 1)
        in
        if require_empty_assignment \<and> getEffectiveSelfGridIds p s \<noteq> [] then (False, s)
        else if fd_last_idle_recovery_time s \<noteq> 0 \<and> now - fd_last_idle_recovery_time s < retry_interval
        then (False, s)
        else
          let s = s\<lparr>fd_last_idle_recovery_time := now\<rparr> in
          if w_frontier_status w = 0 then (False, s)
          else
            let missed = findUnallocated p w (w_active_grids w) s;
                claim = own_claim p w now missed s
            in
            if missed = [] \<or> claim = [] then (False, s)
            else
              let s = s\<lparr>ed_pending_claim_grid_ids := claim, fd_aggressive_reassign_requested := False,
                        fd_last_check_frontier_time := now\<rparr>;
                  s = set_self p ((self_state p s)\<lparr>ds_recent_attempt_time := now\<rparr>) s
              in (True, snd (publishAllocationRequest p now (''pendingClaim:'' @ pos_call) s)))"

definition requestAggressiveReassign ::
  "fsm_params \<Rightarrow> fsm_world \<Rightarrow> time \<Rightarrow> string \<Rightarrow> bool \<Rightarrow> fsm_state \<Rightarrow> fsm_state" where
  "requestAggressiveReassign p w now reason immediate_claim s =
     (if \<not> fd_have_odom s \<or> fs_current_role s = ROLE_RELAY then s
      else
        let s = s\<lparr>fd_aggressive_reassign_requested := True\<rparr> in
        if \<not> immediate_claim then s else snd (tryClaimUnallocatedGrids p w now reason True s))"

section \<open>Leaving the relay role\<close>

definition to_idle :: "fsm_state \<Rightarrow> fsm_state" where
  "to_idle s = (if fs_state s \<noteq> INIT \<and> fs_state s \<noteq> IDLE then transitState IDLE s else s)"

definition recoverAssignmentAfterRelayExit ::
  "fsm_params \<Rightarrow> fsm_world \<Rightarrow> time \<Rightarrow> string \<Rightarrow> fsm_state \<Rightarrow> fsm_state" where
  "recoverAssignmentAfterRelayExit p w now reason s =
     (if \<not> fd_have_odom s \<or> fs_current_role s = ROLE_RELAY then s
      else
        let s = refresh_self p now s;
            missed = findUnallocated p w (w_active_grids w) s;
            recoverable = filter (\<lambda>g. g \<in> set missed) (fs_relay_suspended_grid_ids s);
            s = s\<lparr>ed_pending_relay_recover_grid_ids := recoverable, fd_go_back := False,
                  fd_avoid_collision := False, fd_static_state := True, fd_last_check_frontier_time := now,
                  fd_consecutive_plan_failures := 0, fd_plan_failure_relief_rounds := 0,
                  fd_last_assignment_relief_time := 0\<rparr>;
            s = set_self p ((self_state p s)\<lparr>ds_recent_attempt_time := now\<rparr>) s
        in
        if recoverable \<noteq> [] then
          let s = s\<lparr>fd_aggressive_reassign_requested := False, ed_pending_claim_grid_ids := []\<rparr>
          in to_idle (snd (publishAllocationRequest p now (''relayRecover:'' @ reason) s))
        else
          let s = s\<lparr>ed_pending_relay_recover_grid_ids := [], fd_aggressive_reassign_requested := True\<rparr>
          in (case tryClaimUnallocatedGrids p w now reason True s of
                (claimed, s) \<Rightarrow>
                  if claimed then to_idle s
                  else to_idle (snd (publishAllocationRequest p now (''relayExitNeedTask:'' @ reason) s))))"

end
