(* ===== verification/Expl_Assignment.thy ===== *)
theory Expl_Assignment imports Expl_Grids
begin

text \<open>
  The message handlers and timers of \<open>fast_exploration_fsm.cpp\<close> that take part in the grid assignment
  protocol: the periodic broadcast of the drone and component state, plans and commits, the relay role,
  the states of peers, and what is left of the pairwise optimisation. A handler that indexes the vector
  of drones by an id of a message returns \<open>None\<close> where that index is out of range (undefined behaviour
  of the code).
\<close>

section \<open>Periodic broadcast\<close>

text \<open>An \<open>int\<close> stored into an \<open>int8\<close> field, and read back.\<close>

definition to_int8 :: "int \<Rightarrow> 8 word" where
  "to_int8 i = word_of_int i"

definition of_int8 :: "8 word \<Rightarrow> int" where
  "of_int8 b = sint b"

definition visible_members :: "fsm_params \<Rightarrow> time \<Rightarrow> fsm_state \<Rightarrow> nat list" where
  "visible_members p now s = filter (\<lambda>i. let candidate = ed_swarm_state s ! i in
       (int i + 1 = fp_drone_id p \<or>
        (ds_stamp candidate > 1 / 10000 \<and> now - ds_stamp candidate \<le> 1 / 2)) \<and>
       ds_task_assignable candidate \<and> ds_relay_role candidate \<noteq> ROLE_RELAY)
     [0..<length (ed_swarm_state s)]"

text \<open>\<open>std::map::emplace\<close> does not overwrite; the map is traversed in the order of its keys.\<close>

definition emplace :: "int \<Rightarrow> 'v \<Rightarrow> 'v umap \<Rightarrow> 'v umap" where
  "emplace k v m = (if map_of m k = None then m @ [(k, v)] else m)"

definition owner_by_grid :: "fsm_params \<Rightarrow> fsm_state \<Rightarrow> nat list \<Rightarrow> int umap" where
  "owner_by_grid p s members =
     sort_key fst (foldl (\<lambda>m i. foldl (\<lambda>m g. emplace g (int i + 1) m) m (known_grids p s i)) [] members)"

definition next_owner_version :: "fsm_state \<Rightarrow> int \<times> int \<Rightarrow> 64 word" where
  "next_owner_version s entry =
     (case (map_of (fs_component_owner_ids s) (fst entry), map_of (fs_component_owner_versions s) (fst entry)) of
        (Some last_owner, Some v) \<Rightarrow> if last_owner \<noteq> snd entry then v + 1 else v
      | _ \<Rightarrow> 1)"

definition update_members :: "int list \<Rightarrow> fsm_state \<Rightarrow> fsm_state" where
  "update_members members s =
     (let s = (if \<not> fs_component_members_initialized s
               then s\<lparr>fs_last_component_member_ids := members, fs_component_members_initialized := True\<rparr>
               else if fs_last_component_member_ids s \<noteq> members
               then s\<lparr>fs_component_epoch := fs_component_epoch s + 1, fs_last_component_member_ids := members\<rparr>
               else s)
      in s\<lparr>fs_component_leader_id := (case members of [] \<Rightarrow> 0 | a # _ \<Rightarrow> a)\<rparr>)"

definition drop_stale_txn :: "fsm_state \<Rightarrow> fsm_state" where
  "drop_stale_txn s =
     (if fs_pending_active s \<and> (fs_pending_epoch s \<noteq> fs_component_epoch s \<or>
           fs_pending_leader_id s \<noteq> fs_component_leader_id s)
      then clearPendingAssignmentTxn s else s)"

definition drone_state_msg :: "fsm_params \<Rightarrow> int list \<Rightarrow> DroneState \<Rightarrow> DroneStateMsg" where
  "drone_state_msg p published d =
     \<lparr>dsm_drone_id = fp_drone_id p, dsm_grid_ids = map to_int8 published,
      dsm_recent_attempt_time = ds_recent_attempt_time d, dsm_stamp = ds_stamp d,
      dsm_relay_role = to_int8 (ds_relay_role d), dsm_task_assignable = ds_task_assignable d,
      dsm_pos = ds_pos d, dsm_vel = ds_vel d, dsm_yaw = ds_yaw d\<rparr>"

definition relay_task_msg :: "DroneStateMsg \<Rightarrow> int list \<Rightarrow> fsm_state \<Rightarrow> RelayTaskState" where
  "relay_task_msg msg published s =
     \<lparr>rts_agent_id = dsm_drone_id msg, rts_stamp = dsm_stamp msg,
      rts_relay_role = of_int8 (dsm_relay_role msg), rts_task_assignable = dsm_task_assignable msg,
      rts_grid_count = int (length published),
      rts_last_safety_replan_stamp = fd_last_safety_replan_time s,
      rts_last_plan_fail_stamp = fd_last_plan_fail_time s,
      rts_last_plan_success_stamp = fd_last_plan_success_time s,
      rts_consecutive_plan_failures = fd_consecutive_plan_failures s\<rparr>"

definition component_msg ::
  "fsm_params \<Rightarrow> fsm_world \<Rightarrow> time \<Rightarrow> (int \<times> int) list \<Rightarrow> fsm_state \<Rightarrow> ComponentState" where
  "component_msg p w now owners s =
     \<lparr>cst_component_epoch = fs_component_epoch s, cst_leader_id = fs_component_leader_id s,
      cst_source_id = fp_drone_id p, cst_grid_ids = map fst owners, cst_owner_ids = map snd owners,
      cst_owner_versions = map (next_owner_version s) owners,
      cst_free_grid_ids = filter (\<lambda>g. g \<notin> set (map fst owners)) (w_active_grids w), cst_stamp = now\<rparr>"

definition refresh_broadcast :: "fsm_params \<Rightarrow> fsm_world \<Rightarrow> time \<Rightarrow> fsm_state \<Rightarrow> fsm_state" where
  "refresh_broadcast p w now s =
     (let d = self_state p s; t_r = now - ed_traj_start_time s;
          d = (if fd_static_state s
               then d\<lparr>ds_pos := fd_odom_pos s, ds_vel := fd_odom_vel s, ds_yaw := fd_odom_yaw s\<rparr>
               else d\<lparr>ds_pos := w_traj_pos w t_r, ds_vel := w_traj_vel w t_r, ds_yaw := w_traj_yaw w t_r\<rparr>)
      in set_self p (d\<lparr>ds_stamp := now, ds_relay_role := fs_current_role s,
           ds_task_assignable := (fs_current_role s \<noteq> ROLE_RELAY)\<rparr>) s)"

definition droneStateTimerCallback :: "fsm_params \<Rightarrow> fsm_world \<Rightarrow> time \<Rightarrow> fsm_state \<Rightarrow> fsm_state" where
  "droneStateTimerCallback p w now s =
     (let s = refresh_broadcast p w now s;
          published = getEffectiveSelfGridIds p s;
          msg = drone_state_msg p published (self_state p s);
          task = relay_task_msg msg published s;
          members = visible_members p now s;
          owners = owner_by_grid p s members;
          s = drop_stale_txn (update_members (map (\<lambda>i. int i + 1) members) s);
          component = component_msg p w now owners s;
          s = s\<lparr>fs_component_owner_ids := owners,
                fs_component_owner_versions := map (\<lambda>e. (fst e, next_owner_version s e)) owners\<rparr>
      in publish (ComponentStateOut component) (publish (RelayTaskStateOut task) (publish (DroneStateOut msg) s)))"

section \<open>Plans and commits\<close>

definition assignment_ack ::
  "fsm_params \<Rightarrow> time \<Rightarrow> AssignmentPlan \<Rightarrow> int \<Rightarrow> 64 word \<Rightarrow> bool \<Rightarrow> string \<Rightarrow> AssignmentAck" where
  "assignment_ack p now msg grid_id owner_version accept reason =
     \<lparr>aak_component_epoch = apl_component_epoch msg, aak_leader_id = apl_leader_id msg, aak_grid_id = grid_id,
      aak_owner_id = fp_drone_id p, aak_owner_version = owner_version, aak_txn_id = apl_txn_id msg,
      aak_accept = accept, aak_reason = reason, aak_stamp = now\<rparr>"

definition plan_entry :: "fsm_params \<Rightarrow> AssignmentPlan \<Rightarrow> (int \<times> int \<times> 64 word) option" where
  "plan_entry p msg = find (\<lambda>e. fst (snd e) = fp_drone_id p)
     (claimed_grids (apl_grid_ids msg) (apl_owner_ids msg) (apl_owner_versions msg))"

definition same_txn :: "fsm_params \<Rightarrow> AssignmentPlan \<Rightarrow> int \<Rightarrow> 64 word \<Rightarrow> fsm_state \<Rightarrow> bool" where
  "same_txn p msg grid_id owner_version s \<longleftrightarrow>
     fs_pending_txn_id s = apl_txn_id msg \<and> fs_pending_epoch s = apl_component_epoch msg \<and>
     fs_pending_leader_id s = apl_leader_id msg \<and> fs_pending_grid_id s = grid_id \<and>
     fs_pending_owner_id s = fp_drone_id p \<and> fs_pending_owner_version s = owner_version"

definition stage_assignment :: "fsm_params \<Rightarrow> AssignmentPlan \<Rightarrow> int \<Rightarrow> 64 word \<Rightarrow> fsm_state \<Rightarrow> fsm_state" where
  "stage_assignment p msg grid_id owner_version s =
     (clearLegacyPairOptState s)\<lparr>fs_pending_active := True, fs_pending_txn_id := apl_txn_id msg,
        fs_pending_epoch := apl_component_epoch msg, fs_pending_leader_id := apl_leader_id msg,
        fs_pending_grid_id := grid_id, fs_pending_owner_id := fp_drone_id p,
        fs_pending_owner_version := owner_version\<rparr>"

definition assignmentPlanCallback :: "fsm_params \<Rightarrow> AssignmentPlan \<Rightarrow> time \<Rightarrow> fsm_state \<Rightarrow> fsm_state" where
  "assignmentPlanCallback p msg now s =
     (if apl_txn_id msg = 0 \<or> apl_component_epoch msg \<noteq> fs_component_epoch s \<or>
         apl_leader_id msg \<noteq> fs_component_leader_id s then s
      else
        (case plan_entry p msg of
           None \<Rightarrow> s
         | Some (grid_id, _, owner_version) \<Rightarrow>
             if fs_current_role s = ROLE_RELAY \<or> \<not> ds_task_assignable (self_state p s)
             then publish (AssignmentAckOut (assignment_ack p now msg grid_id owner_version False
                    (''notAssignable:'' @ apl_reason msg))) s
             else if fs_pending_active s \<and> \<not> same_txn p msg grid_id owner_version s then s
             else
               publish (AssignmentAckOut (assignment_ack p now msg grid_id owner_version True (apl_reason msg)))
                 (if fs_pending_active s then s else stage_assignment p msg grid_id owner_version s)))"

definition commit_matches :: "AssignmentCommit \<Rightarrow> fsm_state \<Rightarrow> bool" where
  "commit_matches msg s \<longleftrightarrow> fs_pending_active s \<and> apl_txn_id msg \<noteq> 0 \<and>
     apl_component_epoch msg = fs_component_epoch s \<and> apl_leader_id msg = fs_component_leader_id s \<and>
     apl_txn_id msg = fs_pending_txn_id s \<and> apl_component_epoch msg = fs_pending_epoch s \<and>
     apl_leader_id msg = fs_pending_leader_id s \<and>
     (fs_pending_grid_id s, fs_pending_owner_id s, fs_pending_owner_version s) \<in>
       set (claimed_grids (apl_grid_ids msg) (apl_owner_ids msg) (apl_owner_versions msg))"

text \<open>The grid joins the drone's own list and leaves every staging list.\<close>

definition apply_commit :: "fsm_params \<Rightarrow> fsm_state \<Rightarrow> fsm_state" where
  "apply_commit p s =
     (let g = fs_pending_grid_id s; s = clearLegacyPairOptState s; d = self_state p s;
          s = set_self p (if g \<in> set (ds_grid_ids d) then d else d\<lparr>ds_grid_ids := ds_grid_ids d @ [g]\<rparr>) s;
          erase_grid = removeAll g
      in s\<lparr>ed_pending_grid_ids := erase_grid (ed_pending_grid_ids s),
           ed_pending_claim_grid_ids := erase_grid (ed_pending_claim_grid_ids s),
           ed_pending_relay_recover_grid_ids := erase_grid (ed_pending_relay_recover_grid_ids s),
           ed_pending_pair_opt_grid_ids := erase_grid (ed_pending_pair_opt_grid_ids s),
           ed_pending_release_grid_ids := erase_grid (ed_pending_release_grid_ids s),
           ed_pending_invalidated_grid_ids := erase_grid (ed_pending_invalidated_grid_ids s),
           ed_pending_plan_fail_release_grid_ids := erase_grid (ed_pending_plan_fail_release_grid_ids s),
           ed_pending_commit_grid_ids := erase_grid (ed_pending_commit_grid_ids s),
           ed_pending_relay_enter_release_grid_ids := erase_grid (ed_pending_relay_enter_release_grid_ids s),
           ed_last_grid_ids := [], ed_reallocated := True, ed_wait_response := False,
           fd_plan_failure_relief_rounds := 0, fd_last_assignment_relief_time := 0\<rparr>)"

definition assignmentCommitCallback ::
  "fsm_params \<Rightarrow> fsm_world \<Rightarrow> AssignmentCommit \<Rightarrow> time \<Rightarrow> fsm_state \<Rightarrow> fsm_state" where
  "assignmentCommitCallback p w msg now s =
     (if \<not> commit_matches msg s then s
      else
        let prev = ds_grid_ids (self_state p s);
            s = clearPendingAssignmentTxn (apply_commit p s);
            self = ds_grid_ids (self_state p s);
            need_immediate_replan = needsImmediateAssignmentReplan w prev self;
            s = snd (publishAllocationRequest p now (''continueStagedClaim:'' @ apl_reason msg) s)
        in
        if prev = self \<or> self = [] then s
        else if (fs_state s = IDLE \<or> fs_state s = WAIT_TRIGGER) \<and> fd_have_odom s
        then transitState PLAN_TRAJ (s\<lparr>fd_trigger := True, fd_go_back := False, fd_static_state := True,
               fd_start_pos := fd_odom_pos s\<rparr>)
        else if (fs_state s = EXEC_TRAJ \<or> fs_state s = PUB_TRAJ) \<and> need_immediate_replan
        then transitState PLAN_TRAJ (publish ReplanOut s)
        else s)"

section \<open>The relay role\<close>

definition enter_relay :: "fsm_params \<Rightarrow> time \<Rightarrow> fsm_state \<Rightarrow> fsm_state" where
  "enter_relay p now s =
     (let suspended = ds_grid_ids (self_state p s);
          s = s\<lparr>fs_relay_suspended_grid_ids := suspended, ed_pending_relay_enter_release_grid_ids := suspended\<rparr>;
          s = stagePendingSelfRelease suspended s;
          s = snd (publishReleaseRequest p now suspended ''relayEnter'' s);
          s = s\<lparr>ed_pending_claim_grid_ids := [], ed_pending_relay_recover_grid_ids := [], ed_pending_grid_ids := []\<rparr>;
          s = (if fs_pending_active s then clearPendingAssignmentTxn s else s);
          s = clearLegacyPairOptState s;
          s = set_self p ((self_state p s)\<lparr>ds_grid_ids := [], ds_recent_attempt_time := now\<rparr>) s;
          s = s\<lparr>ed_last_grid_ids := [], ed_reallocated := True, ed_wait_response := False,
                fd_aggressive_reassign_requested := False, fd_go_back := False, fd_avoid_collision := False,
                fd_static_state := True\<rparr>
      in
      if fs_state s = WAIT_TRIGGER \<and> fd_have_odom s
      then transitState PLAN_TRAJ (s\<lparr>fd_trigger := True, fd_start_pos := fd_odom_pos s\<rparr>)
      else if fs_state s \<notin> {INIT, FINISH, PLAN_TRAJ}
      then transitState PLAN_TRAJ (publish ReplanOut s)
      else s)"

definition relayRoleCmdCallback ::
  "fsm_params \<Rightarrow> fsm_world \<Rightarrow> RelayRoleCmd \<Rightarrow> time \<Rightarrow> fsm_state \<Rightarrow> fsm_state" where
  "relayRoleCmdCallback p w msg now s =
     (if rrc_agent_id msg \<noteq> fp_drone_id p then s
      else
        let previous_role = fs_current_role s;
            s = s\<lparr>fs_current_role := rrc_role msg, fs_have_relay_target := rrc_valid msg,
                  fs_relay_target := rrc_relay_target msg, fs_relay_yaw := rrc_relay_yaw msg,
                  fd_consecutive_plan_failures := 0, fd_plan_failure_relief_rounds := 0,
                  fd_last_assignment_relief_time := 0\<rparr>;
            s = set_self p ((self_state p s)\<lparr>ds_relay_role := rrc_role msg,
                  ds_task_assignable := (rrc_role msg \<noteq> ROLE_RELAY)\<rparr>) s
        in
        if previous_role \<noteq> ROLE_RELAY \<and> fs_current_role s = ROLE_RELAY then enter_relay p now s
        else if previous_role = ROLE_RELAY \<and> fs_current_role s \<noteq> ROLE_RELAY
        then recoverAssignmentAfterRelayExit p w now ''relayRoleCmdCallback'' s
        else s)"

section \<open>Peers and the pairwise optimisation\<close>

definition peer_index :: "fsm_state \<Rightarrow> int \<Rightarrow> nat option" where
  "peer_index s drone_id =
     (if 1 \<le> drone_id \<and> drone_id \<le> int (length (ed_swarm_state s)) then Some (nat (drone_id - 1)) else None)"

definition droneStateMsgCallback ::
  "fsm_params \<Rightarrow> fsm_world \<Rightarrow> DroneStateMsg \<Rightarrow> time \<Rightarrow> fsm_state \<Rightarrow> fsm_state option" where
  "droneStateMsgCallback p w msg now s =
     (if dsm_drone_id msg = fp_drone_id p then Some s
      else
        (case peer_index s (dsm_drone_id msg) of
           None \<Rightarrow> None
         | Some i \<Rightarrow>
             let d = ed_swarm_state s ! i in
             if ds_stamp d + 1 / 10000 \<ge> dsm_stamp msg then Some s
             else
               let observed = ed_observed_peer_grid_ids s;
                   observed = observed @ replicate (length (ed_swarm_state s) - length observed) [];
                   d' = d\<lparr>ds_pos := dsm_pos msg, ds_vel := dsm_vel msg, ds_yaw := dsm_yaw msg,
                     ds_stamp := dsm_stamp msg, ds_recent_attempt_time := dsm_recent_attempt_time msg,
                     ds_relay_role := of_int8 (dsm_relay_role msg),
                     ds_task_assignable := dsm_task_assignable msg\<rparr>;
                   s = s\<lparr>ed_observed_peer_grid_ids := observed[i := map of_int8 (dsm_grid_ids msg)],
                         ed_swarm_state := (ed_swarm_state s)[i := d']\<rparr>
               in Some (if ds_task_assignable d \<and> \<not> ds_task_assignable d' \<and> ds_relay_role d' = ROLE_RELAY
                        then requestAggressiveReassign p w now ''peerRelayRelease'' True s else s)))"

text \<open>\<open>kPairOptTransactionalRepairOnly\<close> is \<open>true\<close>: the callback ends before the pairwise optimisation,
  whose code after that return is not modelled.\<close>

definition optTimerCallback :: "fsm_params \<Rightarrow> fsm_world \<Rightarrow> time \<Rightarrow> fsm_state \<Rightarrow> fsm_state" where
  "optTimerCallback p w now s =
     (if fs_state s = INIT then s
      else if fs_current_role s = ROLE_RELAY \<or> \<not> ds_task_assignable (self_state p s) then s
      else if fs_pending_active s then clearLegacyPairOptState s
      else
        (case (if getEffectiveSelfGridIds p s = [] then tryClaimUnallocatedGrids p w now ''optTimerCallback'' True s
               else (False, s)) of
           (claimed, s) \<Rightarrow>
             if claimed then s
             else
               let missed = findUnallocated p w (w_active_grids w) s;
                   s = clearLegacyPairOptState s
               in if missed \<noteq> [] then snd (tryClaimUnallocatedGrids p w now ''assignmentTxnRepair'' False s)
                  else s\<lparr>fd_aggressive_reassign_requested := False\<rparr>))"

definition optMsgCallback :: "fsm_params \<Rightarrow> PairOpt \<Rightarrow> time \<Rightarrow> fsm_state \<Rightarrow> fsm_state option" where
  "optMsgCallback p msg now s =
     (if po_from_drone_id msg = fp_drone_id p \<or> po_to_drone_id msg \<noteq> fp_drone_id p then Some s
      else
        (case peer_index s (po_from_drone_id msg) of
           None \<Rightarrow> None
         | Some i \<Rightarrow>
             if po_stamp msg \<le> ed_pair_opt_stamps s ! i + 1 / 10000 then Some s
             else
               let s = s\<lparr>ed_pair_opt_stamps := (ed_pair_opt_stamps s)[i := po_stamp msg]\<rparr>;
                   self = self_state p s;
                   status = (if fs_current_role s = ROLE_RELAY \<or> \<not> ds_task_assignable self then 3
                     else if \<not> ds_task_assignable (ed_swarm_state s ! i) then 4
                     else if po_stamp msg - ds_recent_attempt_time self < fp_attempt_interval p then 2
                     else 5);
                   s = (if status = 5 then set_self p (self\<lparr>ds_recent_attempt_time := now\<rparr>) s else s);
                   response = \<lparr>por_from_drone_id = po_to_drone_id msg, por_to_drone_id = po_from_drone_id msg,
                     por_status = status, por_stamp = po_stamp msg\<rparr>
               in Some ((publish (PairOptResponseOut response) ^^ fp_repeat_send_num p) (clearLegacyPairOptState s))))"

definition optResMsgCallback :: "fsm_params \<Rightarrow> PairOptResponse \<Rightarrow> fsm_state \<Rightarrow> fsm_state option" where
  "optResMsgCallback p msg s =
     (if por_from_drone_id msg = fp_drone_id p \<or> por_to_drone_id msg \<noteq> fp_drone_id p then Some s
      else
        (case peer_index s (por_from_drone_id msg) of
           None \<Rightarrow> None
         | Some i \<Rightarrow>
             if por_stamp msg \<le> ed_pair_opt_res_stamps s ! i + 1 / 10000 then Some s
             else Some (clearLegacyPairOptState
               (s\<lparr>ed_pair_opt_res_stamps := (ed_pair_opt_res_stamps s)[i := por_stamp msg]\<rparr>))))"

end
