(* ===== verification/Expl_Machine.thy ===== *)
theory Expl_Machine imports Expl_Assignment
begin

text \<open>
  The state machine proper of \<open>fast_exploration_fsm.cpp\<close>: the periodic \<open>FSMCallback\<close> with the reaction
  to remote map updates and the escalation of repeated planning failures, the remaining callbacks, and
  the drone as a transition system over all events.
\<close>

section \<open>Remote map updates\<close>

definition still_useful :: "fsm_world \<Rightarrow> int \<Rightarrow> bool" where
  "still_useful w g \<longleftrightarrow> g \<in> set (w_active_grids w) \<and> \<not> (w_fine_grid w g \<and> w_grid_frontiers w g = [])"

definition invalidate_grids :: "fsm_params \<Rightarrow> fsm_world \<Rightarrow> time \<Rightarrow> int list \<Rightarrow> fsm_state \<Rightarrow> fsm_state" where
  "invalidate_grids p w now grids s =
     (let invalidated = filter (\<lambda>g. \<not> still_useful w g) grids in
      if invalidated \<noteq> []
      then snd (publishReleaseRequest p now invalidated ''remoteMapInvalidation''
             (stagePendingSelfRelease invalidated (s\<lparr>ed_pending_invalidated_grid_ids := invalidated\<rparr>)))
      else s\<lparr>ed_pending_invalidated_grid_ids := []\<rparr>)"

definition handleRemoteMapUpdate :: "fsm_params \<Rightarrow> fsm_world \<Rightarrow> time \<Rightarrow> fsm_state \<Rightarrow> bool \<times> fsm_state" where
  "handleRemoteMapUpdate p w now s =
     (if \<not> fd_have_odom s \<or> fs_current_role s = ROLE_RELAY then (False, s)
      else if \<not> w_remote_update w then (False, s)
      else if fd_last_remote_map_replan_time s \<noteq> 0 \<and>
           now - fd_last_remote_map_replan_time s < fp_remote_map_replan_interval p then (False, s)
      else
        let s = s\<lparr>fd_last_remote_map_replan_time := now\<rparr>;
            grids = getEffectiveSelfGridIds p s;
            remaining = filter (still_useful w) grids;
            s = invalidate_grids p w now grids s;
            lost_assignment = (grids \<noteq> [] \<and> remaining = []);
            s = (if lost_assignment then s\<lparr>fd_aggressive_reassign_requested := True\<rparr> else s)
        in
        if fs_state s = WAIT_TRIGGER \<and> fp_auto_start p \<and> w_frontier_status w \<noteq> 0
        then (True, transitState PLAN_TRAJ (s\<lparr>fd_trigger := True, fd_start_pos := fd_odom_pos s\<rparr>))
        else if fs_state s = IDLE then
          (case tryClaimUnallocatedGrids p w now ''remoteMapUpdate'' True (s\<lparr>fd_last_check_frontier_time := now\<rparr>) of
             (claimed, s) \<Rightarrow>
               if claimed then (True, s)
               else if w_frontier_status w \<noteq> 0 then (True, transitState PLAN_TRAJ s)
               else (False, s))
        else if (fs_state s = EXEC_TRAJ \<or> fs_state s = PUB_TRAJ) \<and>
             (w_frontier_status w \<noteq> 0 \<or> w_frontier_changed w \<or> lost_assignment)
        then (True, transitState PLAN_TRAJ (publish ReplanOut s))
        else (False, s))"

section \<open>Starting\<close>

definition start_from_here :: "EXPL_STATE \<Rightarrow> fsm_state \<Rightarrow> fsm_state" where
  "start_from_here new_state s = transitState new_state (s\<lparr>fd_trigger := True, fd_start_pos := fd_odom_pos s\<rparr>)"

definition tryStartExploration :: "fsm_world \<Rightarrow> bool \<Rightarrow> fsm_state \<Rightarrow> bool \<times> fsm_state" where
  "tryStartExploration w finish_if_no_frontier s =
     (if fs_state s \<noteq> WAIT_TRIGGER then (False, s)
      else if fs_current_role s = ROLE_RELAY then (True, start_from_here PLAN_TRAJ s)
      else if w_frontier_status w \<noteq> 0 then (True, start_from_here PLAN_TRAJ s)
      else if finish_if_no_frontier then (True, start_from_here FINISH s)
      else (False, s))"

definition triggerCallback :: "fsm_world \<Rightarrow> fsm_state \<Rightarrow> fsm_state" where
  "triggerCallback w s = (if fs_state s \<noteq> WAIT_TRIGGER then s else snd (tryStartExploration w True s))"

section \<open>Planning\<close>

definition plan_start :: "fsm_params \<Rightarrow> fsm_world \<Rightarrow> time \<Rightarrow> fsm_state \<Rightarrow> fsm_state" where
  "plan_start p w now s =
     (if fd_static_state s then s\<lparr>fd_start_pt := fd_odom_pos s, fd_start_yaw := fd_odom_yaw s\<rparr>
      else
        let t_r = now - ed_traj_start_time s + fp_replan_time p
        in s\<lparr>fd_start_pt := w_traj_pos w t_r, fd_start_yaw := w_traj_yaw w t_r\<rparr>)"

definition planner_call :: "fsm_state \<Rightarrow> plan_call" where
  "planner_call s =
     (if fd_avoid_collision s \<or> fd_go_back s then TrajToLastGoal
      else if fs_current_role s = ROLE_RELAY then
        (if fs_have_relay_target s then TrajToView (fs_relay_target s) (fs_relay_yaw s)
         else TrajToView (fd_start_pt s) (fd_start_yaw s))
      else ExploreMotion)"

definition callExplorationPlanner ::
  "fsm_params \<Rightarrow> fsm_world \<Rightarrow> time \<Rightarrow> fsm_state \<Rightarrow> EXPL_RESULT \<times> fsm_state" where
  "callExplorationPlanner p w now s =
     (let time_r = now + fp_replan_time p;
          call = planner_call s;
          s = (if call = TrajToLastGoal then s\<lparr>fd_avoid_collision := False\<rparr> else s);
          s = (case (call, w_plan_grids w) of
                 (ExploreMotion, Some grids) \<Rightarrow> s\<lparr>ed_pending_grid_ids := grids\<rparr> | _ \<Rightarrow> s);
          start = (if w_plan_done w - time_r > 0 then w_plan_done w else time_r);
          s = (if w_plan w call = SUCCEED
               then s\<lparr>ed_traj_start_time := start, ed_newest_traj_start_time := start\<rparr> else s)
      in (w_plan w call, s))"

definition release_after_failures ::
  "fsm_params \<Rightarrow> time \<Rightarrow> int list \<Rightarrow> string \<Rightarrow> fsm_state \<Rightarrow> bool \<times> fsm_state" where
  "release_after_failures p now release_grid_ids reason s =
     (case publishReleaseRequest p now release_grid_ids reason
             (s\<lparr>ed_pending_plan_fail_release_grid_ids := release_grid_ids\<rparr>) of
        (published, s) \<Rightarrow>
          if \<not> published then (False, s\<lparr>ed_pending_plan_fail_release_grid_ids := []\<rparr>)
          else (True, (stagePendingSelfRelease release_grid_ids s)\<lparr>fd_last_assignment_relief_time := now,
                 fd_last_check_frontier_time := now\<rparr>))"

text \<open>From the eighth failure in a row on: nothing while a transaction is staged or within two seconds of
  the last relief; from the twelfth, after two partial reliefs or with one grid left, release all grids;
  otherwise release the most expensive one.\<close>

definition relieve_plan_failure :: "fsm_params \<Rightarrow> fsm_world \<Rightarrow> time \<Rightarrow> fsm_state \<Rightarrow> fsm_state" where
  "relieve_plan_failure p w now s =
     (let grids = getEffectiveSelfGridIds p s;
          failure_count = fd_consecutive_plan_failures s;
          single = (length grids \<le> 1)
      in
      if grids = [] \<or> failure_count < 8 then s
      else if fs_pending_active s then s
      else if fd_last_assignment_relief_time s \<noteq> 0 \<and> now - fd_last_assignment_relief_time s < 2 then s
      else if failure_count \<ge> 12 \<and> (fd_plan_failure_relief_rounds s \<ge> 2 \<or> single) then
        (case release_after_failures p now (selectPlanFailureReleaseGrids w grids True s)
                ''repeatedPlanFailureAggressive'' s of
           (published, s) \<Rightarrow>
             if published
             then requestAggressiveReassign p w now ''repeatedPlanFailureAggressive'' False
                    (transitState IDLE (s\<lparr>fd_consecutive_plan_failures := 0, fd_plan_failure_relief_rounds := 0\<rparr>))
             else s)
      else if single then s
      else
        (case release_after_failures p now (selectPlanFailureReleaseGrids w grids False s)
                ''repeatedPlanFailurePartial'' s of
           (published, s) \<Rightarrow>
             if published
             then s\<lparr>fd_plan_failure_relief_rounds := fd_plan_failure_relief_rounds s + 1,
                    fd_consecutive_plan_failures := 4\<rparr>
             else s))"

definition plan_failed :: "fsm_params \<Rightarrow> fsm_world \<Rightarrow> time \<Rightarrow> fsm_state \<Rightarrow> fsm_state" where
  "plan_failed p w now s =
     (let s = s\<lparr>fd_static_state := True, fd_last_plan_fail_time := now,
                fd_consecutive_plan_failures := fd_consecutive_plan_failures s + 1\<rparr>
      in if fs_current_role s \<noteq> ROLE_RELAY then relieve_plan_failure p w now s else s)"

definition step_plan :: "fsm_params \<Rightarrow> fsm_world \<Rightarrow> time \<Rightarrow> fsm_state \<Rightarrow> fsm_state" where
  "step_plan p w now s =
     (case callExplorationPlanner p w now (publish ReplanOut (plan_start p w now s)) of
        (res, s) \<Rightarrow>
          let now = w_plan_done w in
          (case res of
             SUCCEED \<Rightarrow> transitState PUB_TRAJ (s\<lparr>fd_consecutive_plan_failures := 0,
               fd_plan_failure_relief_rounds := 0, fd_last_assignment_relief_time := 0,
               fd_last_plan_success_time := now\<rparr>)
           | FAIL \<Rightarrow> plan_failed p w now s
           | NO_GRID \<Rightarrow> transitState IDLE (s\<lparr>fd_consecutive_plan_failures := 0,
               fd_plan_failure_relief_rounds := 0, fd_last_assignment_relief_time := 0,
               fd_static_state := True, fd_last_check_frontier_time := now\<rparr>)
           | NO_FRONTIER \<Rightarrow> s))"

section \<open>The periodic step\<close>

definition step_idle :: "fsm_params \<Rightarrow> fsm_world \<Rightarrow> time \<Rightarrow> fsm_state \<Rightarrow> fsm_state" where
  "step_idle p w now s =
     (case tryClaimUnallocatedGrids p w now ''idleRecovery'' True s of
        (claimed, s) \<Rightarrow>
          if claimed then s
          else if now - fd_last_check_frontier_time s > fp_idle_retry_interval p then
            (if w_frontier_status w \<noteq> 0 then transitState PLAN_TRAJ (s\<lparr>fd_go_back := False\<rparr>)
             else s\<lparr>fd_last_check_frontier_time := now\<rparr>)
          else s)"

definition step_exec :: "fsm_params \<Rightarrow> fsm_world \<Rightarrow> time \<Rightarrow> fsm_state \<Rightarrow> fsm_state" where
  "step_exec p w now s =
     (let t_cur = now - ed_traj_start_time s;
          almost_done = (w_duration w - t_cur < fp_replan_thresh1 p);
          periodic = (t_cur > fp_replan_thresh3 p)
      in
      if fs_current_role s = ROLE_RELAY then
        (if periodic \<or> almost_done then transitState PLAN_TRAJ (publish ReplanOut s) else s)
      else if \<not> fd_go_back s then
        (if (t_cur > fp_replan_thresh2 p \<and> w_frontier_covered w) \<or> almost_done \<or> periodic then
           (if w_frontier_status w \<noteq> 0 then transitState PLAN_TRAJ s
            else publish ReplanOut ((transitState IDLE (s\<lparr>fd_last_check_frontier_time := now\<rparr>))\<lparr>fd_static_state := True\<rparr>))
         else s)
      else if w_near_goal w then transitState FINISH (publish ReplanOut s)
      else if periodic \<or> almost_done then transitState PLAN_TRAJ (publish ReplanOut s)
      else s)"

definition step_wait_trigger :: "fsm_params \<Rightarrow> fsm_world \<Rightarrow> time \<Rightarrow> fsm_state \<Rightarrow> fsm_state" where
  "step_wait_trigger p w now s =
     (if fp_auto_start p \<and>
         now - fd_last_check_frontier_time s \<ge> max (1 / 20) (fp_auto_start_retry_interval p)
      then (case tryStartExploration w False s of
              (started, s) \<Rightarrow> if started then s else s\<lparr>fd_last_check_frontier_time := now\<rparr>)
      else s)"

definition step_pub :: "time \<Rightarrow> fsm_state \<Rightarrow> fsm_state" where
  "step_pub now s =
     (if now - ed_newest_traj_start_time s > 0
      then transitState EXEC_TRAJ (publish (SwarmTrajOut (ed_newest_traj_start_time s))
             ((publish (BsplineOut (ed_newest_traj_start_time s)) s)\<lparr>fd_static_state := False\<rparr>))
      else s)"

definition FSMCallback :: "fsm_params \<Rightarrow> fsm_world \<Rightarrow> time \<Rightarrow> fsm_state \<Rightarrow> fsm_state" where
  "FSMCallback p w now s =
     (case (if fs_state s \<noteq> INIT then handleRemoteMapUpdate p w now s else (False, s)) of
        (handled, s) \<Rightarrow>
          if handled then s
          else (case fs_state s of
             INIT \<Rightarrow>
               if \<not> fd_have_odom s \<or> now - fd_fsm_init_time s < 2 then s else transitState WAIT_TRIGGER s
           | WAIT_TRIGGER \<Rightarrow> step_wait_trigger p w now s
           | FINISH \<Rightarrow> s
           | IDLE \<Rightarrow> step_idle p w now s
           | PLAN_TRAJ \<Rightarrow> step_plan p w now s
           | PUB_TRAJ \<Rightarrow> step_pub now s
           | EXEC_TRAJ \<Rightarrow> step_exec p w now s))"

section \<open>The other callbacks\<close>

definition safetyCallback :: "fsm_world \<Rightarrow> time \<Rightarrow> fsm_state \<Rightarrow> fsm_state" where
  "safetyCallback w now s =
     (if fs_state s = EXEC_TRAJ \<and> \<not> w_traj_safe w
      then transitState PLAN_TRAJ (s\<lparr>fd_avoid_collision := True, fd_last_safety_replan_time := now\<rparr>) else s)"

text \<open>Of the preview that \<open>frontierCallback\<close> draws only the staged grids of the allocation remain.\<close>

definition frontierCallback :: "fsm_world \<Rightarrow> fsm_state \<Rightarrow> fsm_state" where
  "frontierCallback w s =
     (case w_plan_grids w of
        Some grids \<Rightarrow> if fs_state s = WAIT_TRIGGER then s\<lparr>ed_pending_grid_ids := grids\<rparr> else s
      | None \<Rightarrow> s)"

text \<open>The yaw is the heading that Eigen computes from the orientation of the message.\<close>

definition odometryCallback :: "point \<Rightarrow> vector3 \<Rightarrow> real \<Rightarrow> time \<Rightarrow> fsm_state \<Rightarrow> fsm_state" where
  "odometryCallback pos vel yaw now s =
     (let s = s\<lparr>fd_odom_pos := pos, fd_odom_vel := vel, fd_odom_yaw := yaw\<rparr>
      in if \<not> fd_have_odom s then s\<lparr>fd_have_odom := True, fd_fsm_init_time := now\<rparr> else s)"

text \<open>Of a received trajectory only its start time is kept.\<close>

definition swarm_traj_outdated :: "nat \<Rightarrow> time \<Rightarrow> fsm_state \<Rightarrow> bool" where
  "swarm_traj_outdated i start_time s =
     (case ed_swarm_traj_starts s ! i of None \<Rightarrow> False | Some t \<Rightarrow> start_time \<le> t + 1 / 1000)"

definition swarmTrajCallback :: "fsm_params \<Rightarrow> fsm_world \<Rightarrow> int \<Rightarrow> time \<Rightarrow> fsm_state \<Rightarrow> fsm_state option" where
  "swarmTrajCallback p w drone_id start_time s =
     (if drone_id = fp_drone_id p then Some s
      else
        (case peer_index s drone_id of
           None \<Rightarrow> None
         | Some i \<Rightarrow>
             if swarm_traj_outdated i start_time s then Some s
             else
               let s = s\<lparr>ed_swarm_traj_starts := (ed_swarm_traj_starts s)[i := Some start_time]\<rparr>
               in Some (if fs_state s = EXEC_TRAJ \<and> \<not> w_swarm_safe w
                        then transitState PLAN_TRAJ (s\<lparr>fd_avoid_collision := True\<rparr>) else s)))"

definition swarmTrajTimerCallback :: "time \<Rightarrow> fsm_state \<Rightarrow> fsm_state" where
  "swarmTrajTimerCallback now s =
     (if fs_state s = EXEC_TRAJ then publish (SwarmTrajOut (ed_newest_traj_start_time s)) s
      else if fs_state s = WAIT_TRIGGER then publish (VirtualTrajOut (fd_odom_pos s) now) s
      else s)"

section \<open>The drone as a transition system\<close>

datatype fsm_event =
    ExecTimer
  | SafetyTimer
  | FrontierTimer
  | TriggerMsg
  | OdometryMsg point vector3 real
  | RelayRoleCmdMsg RelayRoleCmd
  | DroneStateTimer
  | DroneStateRecv DroneStateMsg
  | AssignmentPlanMsg AssignmentPlan
  | AssignmentCommitMsg AssignmentCommit
  | OptTimer
  | PairOptRecv PairOpt
  | PairOptResponseRecv PairOptResponse
  | SwarmTrajRecv int time
  | SwarmTrajTimer

fun fsm_handle :: "fsm_params \<Rightarrow> fsm_world \<Rightarrow> time \<Rightarrow> fsm_event \<Rightarrow> fsm_state \<Rightarrow> fsm_state option" where
  "fsm_handle p w now ExecTimer s = Some (FSMCallback p w now s)"
| "fsm_handle p w now SafetyTimer s = Some (safetyCallback w now s)"
| "fsm_handle p w now FrontierTimer s = Some (frontierCallback w s)"
| "fsm_handle p w now TriggerMsg s = Some (triggerCallback w s)"
| "fsm_handle p w now (OdometryMsg pos vel yaw) s = Some (odometryCallback pos vel yaw now s)"
| "fsm_handle p w now (RelayRoleCmdMsg m) s = Some (relayRoleCmdCallback p w m now s)"
| "fsm_handle p w now DroneStateTimer s = Some (droneStateTimerCallback p w now s)"
| "fsm_handle p w now (DroneStateRecv m) s = droneStateMsgCallback p w m now s"
| "fsm_handle p w now (AssignmentPlanMsg m) s = Some (assignmentPlanCallback p m now s)"
| "fsm_handle p w now (AssignmentCommitMsg m) s = Some (assignmentCommitCallback p w m now s)"
| "fsm_handle p w now OptTimer s = Some (optTimerCallback p w now s)"
| "fsm_handle p w now (PairOptRecv m) s = optMsgCallback p m now s"
| "fsm_handle p w now (PairOptResponseRecv m) s = optResMsgCallback p m s"
| "fsm_handle p w now (SwarmTrajRecv i t) s = swarmTrajCallback p w i t s"
| "fsm_handle p w now SwarmTrajTimer s = Some (swarmTrajTimerCallback now s)"

inductive fsm_reach :: "fsm_params \<Rightarrow> fsm_state \<Rightarrow> bool" for p where
  start: "fsm_reach p (fsm_init p)"
| event: "fsm_reach p s \<Longrightarrow> fsm_handle p w now e s = Some s' \<Longrightarrow> fsm_reach p s'"

end
