(* ===== verification/Expl_Props.thy ===== *)
theory Expl_Props imports Expl_Machine
begin

text \<open>
  The correctness of the exploration state machine. Most operations leave alone what the assignment
  protocol rests on: the role, the staged transaction, the drone's own grids and its view of the
  component. \<open>same_ledger\<close> states that once, the collection \<open>ledger\<close> proves it of every such operation, and
  the invariant and the safety properties only look at the few that remain.
\<close>

section \<open>The ledger of a drone\<close>

named_theorems ledger \<open>operations that keep the ledger\<close>

type_synonym txn = "bool \<times> 64 word \<times> 64 word \<times> int \<times> int \<times> int \<times> 64 word"

definition pending_txn :: "fsm_state \<Rightarrow> txn" where
  "pending_txn s = (fs_pending_active s, fs_pending_txn_id s, fs_pending_epoch s, fs_pending_leader_id s,
     fs_pending_grid_id s, fs_pending_owner_id s, fs_pending_owner_version s)"

definition own_grids :: "fsm_params \<Rightarrow> fsm_state \<Rightarrow> int list" where
  "own_grids p s = ds_grid_ids (self_state p s)"

definition own_flags :: "fsm_params \<Rightarrow> fsm_state \<Rightarrow> bool" where
  "own_flags p s \<longleftrightarrow> self_index p < length (ed_swarm_state s) \<and>
     ds_relay_role (self_state p s) = fs_current_role s \<and>
     ds_task_assignable (self_state p s) = (fs_current_role s \<noteq> ROLE_RELAY)"

definition allocation_requests :: "fsm_state \<Rightarrow> fsm_out list" where
  "allocation_requests s = filter (\<lambda>m. case m of AllocationRequestOut _ \<Rightarrow> True | _ \<Rightarrow> False) (fs_out s)"

definition same_ledger :: "fsm_params \<Rightarrow> fsm_state \<Rightarrow> fsm_state \<Rightarrow> bool" where
  "same_ledger p s s' \<longleftrightarrow>
     fs_current_role s' = fs_current_role s \<and> pending_txn s' = pending_txn s \<and>
     own_grids p s' = own_grids p s \<and>
     fs_component_epoch s' = fs_component_epoch s \<and> fs_component_leader_id s' = fs_component_leader_id s \<and>
     length (ed_swarm_state s') = length (ed_swarm_state s) \<and>
     (fd_go_back s' \<longrightarrow> fd_go_back s) \<and> (own_flags p s \<longrightarrow> own_flags p s') \<and>
     (fs_pending_active s \<longrightarrow> allocation_requests s' = allocation_requests s)"

lemma same_ledger_refl [ledger]: "same_ledger p s s"
  by (simp add: same_ledger_def)

lemma same_ledger_trans: "same_ledger p s t \<Longrightarrow> same_ledger p t u \<Longrightarrow> same_ledger p s u"
  by (auto simp: same_ledger_def pending_txn_def)

lemma self_set_self [simp]:
  "self_state p (set_self p d s) = (if self_index p < length (ed_swarm_state s) then d else self_state p s)"
  by (simp add: self_state_def set_self_def list_update_beyond)

lemma length_set_self [simp]: "length (ed_swarm_state (set_self p d s)) = length (ed_swarm_state s)"
  by (simp add: set_self_def)

text \<open>The updates of all other fields, in one fact: a state with the same values of the fields that
  matter has the same ledger.\<close>

definition ledger_fields :: "fsm_state \<Rightarrow> _" where
  "ledger_fields s = (fs_current_role s, pending_txn s, ed_swarm_state s, fs_component_epoch s,
     fs_component_leader_id s)"

lemma same_ledger_fields:
  assumes "ledger_fields t = ledger_fields s" and "fd_go_back t \<Longrightarrow> fd_go_back s"
    and "allocation_requests t = allocation_requests s"
  shows "same_ledger p s t"
  using assms by (simp add: same_ledger_def ledger_fields_def own_grids_def own_flags_def self_state_def)

lemmas ledger_simps = ledger_fields_def pending_txn_def allocation_requests_def

lemma ledger_set_self:
  assumes "ds_grid_ids d = own_grids p s"
    and "own_flags p s \<Longrightarrow> ds_relay_role d = fs_current_role s \<and>
      ds_task_assignable d = (fs_current_role s \<noteq> ROLE_RELAY)"
  shows "same_ledger p s (set_self p d s)"
proof -
  have "fs_current_role (set_self p d s) = fs_current_role s"
    "pending_txn (set_self p d s) = pending_txn s" "fd_go_back (set_self p d s) = fd_go_back s"
    "fs_component_epoch (set_self p d s) = fs_component_epoch s"
    "fs_component_leader_id (set_self p d s) = fs_component_leader_id s"
    "allocation_requests (set_self p d s) = allocation_requests s"
    by (simp_all add: set_self_def ledger_simps)
  with assms show ?thesis by (simp add: same_ledger_def own_grids_def own_flags_def)
qed

lemma ledger_publish [ledger]:
  "(case m of AllocationRequestOut _ \<Rightarrow> False | _ \<Rightarrow> True) \<Longrightarrow> same_ledger p s (publish m s)"
  by (rule same_ledger_fields) (auto simp: ledger_simps publish_def split: fsm_out.splits)

lemma ledger_transit [ledger]: "same_ledger p s (transitState st s)"
  by (rule same_ledger_fields) (simp_all add: ledger_simps transitState_def)

lemma ledger_stage_release [ledger]: "same_ledger p s (stagePendingSelfRelease g s)"
  by (rule same_ledger_fields) (simp_all add: ledger_simps stagePendingSelfRelease_def)

lemma ledger_clear_legacy [ledger]: "same_ledger p s (clearLegacyPairOptState s)"
  by (rule same_ledger_fields) (simp_all add: ledger_simps clearLegacyPairOptState_def)

lemma ledger_request [ledger]: "same_ledger p s (snd (publishAllocationRequest p now reason s))"
  by (auto simp: publishAllocationRequest_def Let_def same_ledger_def own_grids_def own_flags_def self_state_def
      ledger_simps publish_def clearLegacyPairOptState_def)

lemma ledger_release [ledger]: "same_ledger p s (snd (publishReleaseRequest p now g reason s))"
  unfolding publishReleaseRequest_def Let_def
  by (auto intro!: same_ledger_fields simp: ledger_simps publish_def clearLegacyPairOptState_def)

lemma ledger_refresh_self:
  assumes "fs_current_role s \<noteq> ROLE_RELAY"
  shows "same_ledger p s (refresh_self p now s)"
  unfolding refresh_self_def using assms by (intro ledger_set_self) (auto simp: own_grids_def)

text \<open>A record of the own entry that only gets another time stamp.\<close>

lemma ledger_attempt_time:
  "same_ledger p s (set_self p ((self_state p s)\<lparr>ds_recent_attempt_time := now\<rparr>) s)"
  by (rule ledger_set_self) (auto simp: own_grids_def own_flags_def)

lemma ledger_claim [ledger]: "same_ledger p s (snd (tryClaimUnallocatedGrids p w now pos_call req s))"
proof (cases "fd_have_odom s \<and> fs_current_role s \<noteq> ROLE_RELAY")
  case True
  define t where "t = refresh_self p now s"
  define u where "u = t\<lparr>fd_last_idle_recovery_time := now\<rparr>"
  define v where "v = u\<lparr>ed_pending_claim_grid_ids := own_claim p w now (findUnallocated p w (w_active_grids w) u) u,
     fd_aggressive_reassign_requested := False, fd_last_check_frontier_time := now\<rparr>"
  define x where "x = set_self p ((self_state p v)\<lparr>ds_recent_attempt_time := now\<rparr>) v"
  have st: "same_ledger p s t" unfolding t_def using True by (intro ledger_refresh_self) simp
  have su: "same_ledger p s u"
    by (rule same_ledger_trans [OF st]) (auto intro!: same_ledger_fields simp: ledger_simps u_def)
  have sv: "same_ledger p s v"
    by (rule same_ledger_trans [OF su]) (auto intro!: same_ledger_fields simp: ledger_simps v_def)
  have sx: "same_ledger p s x"
    by (rule same_ledger_trans [OF sv]) (simp add: x_def ledger_attempt_time)
  have "snd (tryClaimUnallocatedGrids p w now pos_call req s) \<in>
      {t, u, snd (publishAllocationRequest p now (''pendingClaim:'' @ pos_call) x)}"
    using True unfolding tryClaimUnallocatedGrids_def Let_def
    by (simp flip: t_def) (simp flip: u_def, simp flip: v_def, simp flip: x_def)
  with st su same_ledger_trans [OF sx ledger_request] show ?thesis by auto
qed (simp add: tryClaimUnallocatedGrids_def ledger)

lemma ledger_updates [simp]:
  "same_ledger p s (fs_relay_target_update f1 t) = same_ledger p s t"
  "same_ledger p s (fs_have_relay_target_update f2 t) = same_ledger p s t"
  "same_ledger p s (fs_relay_yaw_update f3 t) = same_ledger p s t"
  "same_ledger p s (fs_relay_suspended_grid_ids_update f4 t) = same_ledger p s t"
  "same_ledger p s (fs_component_members_initialized_update f5 t) = same_ledger p s t"
  "same_ledger p s (fs_last_component_member_ids_update f6 t) = same_ledger p s t"
  "same_ledger p s (fs_component_owner_ids_update f7 t) = same_ledger p s t"
  "same_ledger p s (fs_component_owner_versions_update f8 t) = same_ledger p s t"
  "same_ledger p s (fs_next_allocation_request_txn_id_update f9 t) = same_ledger p s t"
  "same_ledger p s (fs_next_release_request_txn_id_update f10 t) = same_ledger p s t"
  "same_ledger p s (fs_state_update f11 t) = same_ledger p s t"
  "same_ledger p s (fd_trigger_update f12 t) = same_ledger p s t"
  "same_ledger p s (fd_have_odom_update f13 t) = same_ledger p s t"
  "same_ledger p s (fd_static_state_update f14 t) = same_ledger p s t"
  "same_ledger p s (fd_odom_pos_update f15 t) = same_ledger p s t"
  "same_ledger p s (fd_odom_vel_update f16 t) = same_ledger p s t"
  "same_ledger p s (fd_odom_yaw_update f17 t) = same_ledger p s t"
  "same_ledger p s (fd_start_pt_update f18 t) = same_ledger p s t"
  "same_ledger p s (fd_start_yaw_update f19 t) = same_ledger p s t"
  "same_ledger p s (fd_start_pos_update f20 t) = same_ledger p s t"
  "same_ledger p s (fd_avoid_collision_update f21 t) = same_ledger p s t"
  "same_ledger p s (fd_fsm_init_time_update f22 t) = same_ledger p s t"
  "same_ledger p s (fd_last_check_frontier_time_update f23 t) = same_ledger p s t"
  "same_ledger p s (fd_last_idle_recovery_time_update f24 t) = same_ledger p s t"
  "same_ledger p s (fd_last_remote_map_replan_time_update f25 t) = same_ledger p s t"
  "same_ledger p s (fd_last_safety_replan_time_update f26 t) = same_ledger p s t"
  "same_ledger p s (fd_last_plan_fail_time_update f27 t) = same_ledger p s t"
  "same_ledger p s (fd_last_plan_success_time_update f28 t) = same_ledger p s t"
  "same_ledger p s (fd_last_assignment_relief_time_update f29 t) = same_ledger p s t"
  "same_ledger p s (fd_aggressive_reassign_requested_update f30 t) = same_ledger p s t"
  "same_ledger p s (fd_consecutive_plan_failures_update f31 t) = same_ledger p s t"
  "same_ledger p s (fd_plan_failure_relief_rounds_update f32 t) = same_ledger p s t"
  "same_ledger p s (ed_pair_opt_stamps_update f33 t) = same_ledger p s t"
  "same_ledger p s (ed_pair_opt_res_stamps_update f34 t) = same_ledger p s t"
  "same_ledger p s (ed_observed_peer_grid_ids_update f35 t) = same_ledger p s t"
  "same_ledger p s (ed_pending_grid_ids_update f36 t) = same_ledger p s t"
  "same_ledger p s (ed_pending_claim_grid_ids_update f37 t) = same_ledger p s t"
  "same_ledger p s (ed_pending_relay_recover_grid_ids_update f38 t) = same_ledger p s t"
  "same_ledger p s (ed_pending_release_grid_ids_update f39 t) = same_ledger p s t"
  "same_ledger p s (ed_pending_invalidated_grid_ids_update f40 t) = same_ledger p s t"
  "same_ledger p s (ed_pending_plan_fail_release_grid_ids_update f41 t) = same_ledger p s t"
  "same_ledger p s (ed_pending_relay_enter_release_grid_ids_update f42 t) = same_ledger p s t"
  "same_ledger p s (ed_reallocated_update f43 t) = same_ledger p s t"
  "same_ledger p s (ed_wait_response_update f44 t) = same_ledger p s t"
  "same_ledger p s (ed_last_grid_ids_update f45 t) = same_ledger p s t"
  "same_ledger p s (ed_traj_start_time_update f46 t) = same_ledger p s t"
  "same_ledger p s (ed_newest_traj_start_time_update f47 t) = same_ledger p s t"
  "same_ledger p s (ed_swarm_traj_starts_update f48 t) = same_ledger p s t"
  by (simp_all add: same_ledger_def own_grids_def own_flags_def self_state_def ledger_simps)

lemma ledger_go_back [simp]: "same_ledger p s t \<Longrightarrow> same_ledger p s (t\<lparr>fd_go_back := False\<rparr>)"
  by (simp add: same_ledger_def own_grids_def own_flags_def self_state_def ledger_simps)

lemma ledger_transit_iff [simp]: "same_ledger p s (transitState st t) = same_ledger p s t"
  by (simp add: transitState_def)

lemma ledger_publish_iff [simp]:
  "(case m of AllocationRequestOut _ \<Rightarrow> False | _ \<Rightarrow> True) \<Longrightarrow> same_ledger p s (publish m t) = same_ledger p s t"
  by (auto simp: same_ledger_def own_grids_def own_flags_def self_state_def ledger_simps publish_def split: fsm_out.splits)

text \<open>Tail of a handler: one more operation that keeps the ledger.\<close>

lemmas ledger_after =
  same_ledger_trans [OF _ ledger_stage_release] same_ledger_trans [OF _ ledger_clear_legacy]
  same_ledger_trans [OF _ ledger_request] same_ledger_trans [OF _ ledger_release]
  same_ledger_trans [OF _ ledger_claim] same_ledger_trans [OF _ ledger_attempt_time]

lemma ledger_aggressive [ledger]:
  "same_ledger p s (requestAggressiveReassign p w now reason imm s)"
  by (auto simp: requestAggressiveReassign_def Let_def ledger intro: ledger_after)

lemma ledger_to_idle_iff [simp]: "same_ledger p s (to_idle t) = same_ledger p s t"
  by (simp add: to_idle_def)

lemma ledger_recover [ledger]:
  "same_ledger p s (recoverAssignmentAfterRelayExit p w now reason s)"
proof (cases "fd_have_odom s \<and> fs_current_role s \<noteq> ROLE_RELAY")
  case True
  define t where "t = refresh_self p now s"
  define r where "r = filter (\<lambda>g. g \<in> set (findUnallocated p w (w_active_grids w) t)) (fs_relay_suspended_grid_ids t)"
  define u where "u = t\<lparr>ed_pending_relay_recover_grid_ids := r, fd_go_back := False,
    fd_avoid_collision := False, fd_static_state := True, fd_last_check_frontier_time := now,
    fd_consecutive_plan_failures := 0, fd_plan_failure_relief_rounds := 0, fd_last_assignment_relief_time := 0\<rparr>"
  define v where "v = set_self p ((self_state p u)\<lparr>ds_recent_attempt_time := now\<rparr>) u"
  define a where "a = v\<lparr>fd_aggressive_reassign_requested := False, ed_pending_claim_grid_ids := []\<rparr>"
  define b where "b = v\<lparr>ed_pending_relay_recover_grid_ids := [], fd_aggressive_reassign_requested := True\<rparr>"
  define c where "c = snd (tryClaimUnallocatedGrids p w now reason True b)"
  have "same_ledger p s t" unfolding t_def using True by (intro ledger_refresh_self) simp
  then have "same_ledger p s u"
    by (rule same_ledger_trans) (auto intro!: same_ledger_fields simp: ledger_simps u_def)
  then have sv: "same_ledger p s v" by (rule same_ledger_trans) (simp add: v_def ledger_attempt_time)
  then have sa: "same_ledger p s a"
    by (rule same_ledger_trans) (auto intro!: same_ledger_fields simp: ledger_simps a_def)
  have "same_ledger p s b"
    by (rule same_ledger_trans [OF sv]) (auto intro!: same_ledger_fields simp: ledger_simps b_def)
  then have sc: "same_ledger p s c" by (rule same_ledger_trans) (simp add: c_def ledger)
  have "recoverAssignmentAfterRelayExit p w now reason s =
      (if r \<noteq> [] then to_idle (snd (publishAllocationRequest p now (''relayRecover:'' @ reason) a))
       else if fst (tryClaimUnallocatedGrids p w now reason True b) then to_idle c
       else to_idle (snd (publishAllocationRequest p now (''relayExitNeedTask:'' @ reason) c)))"
    using True by (simp only: recoverAssignmentAfterRelayExit_def Let_def case_prod_unfold a_def b_def c_def
        v_def u_def r_def t_def simp_thms if_False)
  with sa sc show ?thesis by (auto intro: ledger_after)
qed (auto simp: recoverAssignmentAfterRelayExit_def ledger)

lemma ledger_invalidate [ledger]: "same_ledger p s (invalidate_grids p w now g s)"
  by (auto simp: invalidate_grids_def Let_def ledger intro!: ledger_after)

lemma ledger_remote [ledger]: "same_ledger p s (snd (handleRemoteMapUpdate p w now s))"
proof -
  have inv: "same_ledger p s (invalidate_grids p w now g (s\<lparr>fd_last_remote_map_replan_time := now\<rparr>))" for g
    by (rule same_ledger_trans [OF _ ledger_invalidate]) (simp add: ledger)
  show ?thesis
    using inv by (auto simp: handleRemoteMapUpdate_def Let_def ledger case_prod_unfold intro!: ledger_after)
qed

lemma ledger_start [ledger]: "same_ledger p s (snd (tryStartExploration w fin s))"
  by (simp add: tryStartExploration_def start_from_here_def ledger)

lemma ledger_trigger [ledger]: "same_ledger p s (triggerCallback w s)"
  by (simp add: triggerCallback_def ledger)

lemma ledger_plan_start [ledger]: "same_ledger p s (plan_start p w now s)"
  by (simp add: plan_start_def Let_def ledger)

lemma ledger_planner [ledger]: "same_ledger p s (snd (callExplorationPlanner p w now s))"
  by (auto simp: callExplorationPlanner_def Let_def ledger split: plan_call.splits option.splits)

lemma ledger_failure_release [ledger]:
  "same_ledger p s (snd (release_after_failures p now g reason s))"
  by (auto simp: release_after_failures_def case_prod_unfold ledger intro!: ledger_after)

lemma ledger_relieve [ledger]: "same_ledger p s (relieve_plan_failure p w now s)"
  by (auto simp: relieve_plan_failure_def Let_def case_prod_unfold ledger
      intro!: same_ledger_trans [OF _ ledger_aggressive] same_ledger_trans [OF _ ledger_failure_release])

lemma ledger_plan_failed [ledger]: "same_ledger p s (plan_failed p w now s)"
  by (auto simp: plan_failed_def Let_def ledger intro!: same_ledger_trans [OF _ ledger_relieve])

lemma ledger_step_plan [ledger]: "same_ledger p s (step_plan p w now s)"
proof -
  have "same_ledger p s (snd (callExplorationPlanner p w now (publish ReplanOut (plan_start p w now s))))"
    by (rule same_ledger_trans [OF _ ledger_planner]) (simp add: ledger)
  then show ?thesis
    by (auto simp: step_plan_def Let_def case_prod_unfold intro!: same_ledger_trans [OF _ ledger_plan_failed]
        split: EXPL_RESULT.split)
qed

lemma ledger_step_idle [ledger]: "same_ledger p s (step_idle p w now s)"
  by (auto simp: step_idle_def case_prod_unfold ledger intro!: ledger_after)

lemma ledger_step_exec [ledger]: "same_ledger p s (step_exec p w now s)"
  by (simp add: step_exec_def Let_def ledger)

lemma ledger_step_wait [ledger]: "same_ledger p s (step_wait_trigger p w now s)"
  by (simp add: step_wait_trigger_def case_prod_unfold ledger)

lemma ledger_step_pub [ledger]: "same_ledger p s (step_pub now s)"
  by (simp add: step_pub_def ledger)

lemma ledger_fsm [ledger]: "same_ledger p s (FSMCallback p w now s)"
proof -
  define b where "b = (if fs_state s \<noteq> INIT then handleRemoteMapUpdate p w now s else (False, s))"
  have 1: "same_ledger p s (snd b)" by (simp add: b_def ledger)
  have "FSMCallback p w now s \<in> {snd b, transitState WAIT_TRIGGER (snd b), step_wait_trigger p w now (snd b),
      step_idle p w now (snd b), step_plan p w now (snd b), step_pub now (snd b), step_exec p w now (snd b)}"
    unfolding FSMCallback_def b_def [symmetric] by (auto split: prod.splits EXPL_STATE.splits)
  moreover note 1 same_ledger_trans [OF 1 ledger_step_wait] same_ledger_trans [OF 1 ledger_step_idle]
    same_ledger_trans [OF 1 ledger_step_plan] same_ledger_trans [OF 1 ledger_step_pub]
    same_ledger_trans [OF 1 ledger_step_exec]
  ultimately show ?thesis by (elim insertE) simp_all
qed

lemma ledger_opt_timer [ledger]: "same_ledger p s (optTimerCallback p w now s)"
  by (auto simp: optTimerCallback_def Let_def case_prod_unfold ledger intro!: ledger_after)

lemma ledger_publish_many:
  "(case m of AllocationRequestOut _ \<Rightarrow> False | _ \<Rightarrow> True) \<Longrightarrow>
   same_ledger p s ((publish m ^^ n) t) = same_ledger p s t"
  by (induction n) simp_all

lemma ledger_opt_msg:
  assumes "optMsgCallback p msg now s = Some s'"
  shows "same_ledger p s s'"
proof (cases "po_from_drone_id msg = fp_drone_id p \<or> po_to_drone_id msg \<noteq> fp_drone_id p")
  case False
  with assms obtain i where i: "peer_index s (po_from_drone_id msg) = Some i"
    by (auto simp: optMsgCallback_def split: option.splits)
  define t where "t = s\<lparr>ed_pair_opt_stamps := (ed_pair_opt_stamps s)[i := po_stamp msg]\<rparr>"
  have st: "same_ledger p s t" by (simp add: t_def ledger)
  have reply: "same_ledger p s ((publish (PairOptResponseOut r) ^^ n) (clearLegacyPairOptState u))"
    if "same_ledger p s u" for r n u
    using that by (subst ledger_publish_many) (auto intro: ledger_after)
  show ?thesis
  proof (cases "po_stamp msg \<le> ed_pair_opt_stamps s ! i + 1 / 10000")
    case True
    with False i assms show ?thesis by (simp add: optMsgCallback_def ledger)
  next
    case fresh: False
    obtain c :: bool and r where "s' = (publish (PairOptResponseOut r) ^^ fp_repeat_send_num p)
        (clearLegacyPairOptState (if c then set_self p ((self_state p t)\<lparr>ds_recent_attempt_time := now\<rparr>) t else t))"
      using assms False i fresh unfolding t_def
      by (simp only: optMsgCallback_def Let_def if_False option.case option.inject) blast
    with reply [OF st] reply [OF same_ledger_trans [OF st ledger_attempt_time]] show ?thesis
      by (simp only: split: if_split) blast
  qed
qed (use assms in \<open>simp add: optMsgCallback_def ledger\<close>)

lemma ledger_opt_res: "optResMsgCallback p msg s = Some s' \<Longrightarrow> same_ledger p s s'"
  by (auto simp: optResMsgCallback_def ledger intro!: ledger_after split: if_splits option.splits)

lemma ledger_swarm_traj: "swarmTrajCallback p w i t s = Some s' \<Longrightarrow> same_ledger p s s'"
  by (auto simp: swarmTrajCallback_def Let_def ledger split: if_splits option.splits)

definition wf_params :: "fsm_params \<Rightarrow> bool" where
  "wf_params p \<longleftrightarrow> 1 \<le> fp_drone_id p \<and> fp_drone_id p \<le> int (fp_drone_num p)"

lemma ledger_peer_state:
  assumes "wf_params p" and "droneStateMsgCallback p w msg now s = Some s'"
  shows "same_ledger p s s'"
proof (cases "dsm_drone_id msg = fp_drone_id p")
  case False
  with assms(2) obtain i where i: "peer_index s (dsm_drone_id msg) = Some i"
    by (auto simp: droneStateMsgCallback_def split: option.splits)
  with False assms(1) have ne: "i \<noteq> self_index p"
    by (auto simp: peer_index_def self_index_def wf_params_def split: if_splits)
  define u where "u = (\<lambda>x d. s\<lparr>ed_observed_peer_grid_ids := x, ed_swarm_state := (ed_swarm_state s)[i := d]\<rparr>)"
  have su: "same_ledger p s (u x d)" for x d
    using ne by (simp add: u_def same_ledger_def own_grids_def own_flags_def self_state_def ledger_simps)
  show ?thesis
  proof (cases "ds_stamp (ed_swarm_state s ! i) + 1 / 10000 \<ge> dsm_stamp msg")
    case True
    with False i assms(2) have "s' = s"
      by (simp only: droneStateMsgCallback_def Let_def if_False if_True option.case option.inject)
    then show ?thesis by (simp only: same_ledger_refl)
  next
    case fresh: False
    let ?d = "ed_swarm_state s ! i"
    let ?x = "(ed_observed_peer_grid_ids s @
      replicate (length (ed_swarm_state s) - length (ed_observed_peer_grid_ids s)) [])[i := map of_int8 (dsm_grid_ids msg)]"
    let ?d' = "?d\<lparr>ds_pos := dsm_pos msg, ds_vel := dsm_vel msg, ds_yaw := dsm_yaw msg,
      ds_stamp := dsm_stamp msg, ds_recent_attempt_time := dsm_recent_attempt_time msg,
      ds_relay_role := of_int8 (dsm_relay_role msg), ds_task_assignable := dsm_task_assignable msg\<rparr>"
    let ?c = "ds_task_assignable ?d \<and> \<not> ds_task_assignable ?d' \<and> ds_relay_role ?d' = ROLE_RELAY"
    have "s' = (if ?c then requestAggressiveReassign p w now ''peerRelayRelease'' True (u ?x ?d') else u ?x ?d')"
      using False i assms(2) fresh by (simp only: droneStateMsgCallback_def Let_def u_def if_False option.case option.inject)
    with su same_ledger_trans [OF su ledger_aggressive] show ?thesis by (simp only: split: if_split) blast
  qed
qed (use assms in \<open>simp add: droneStateMsgCallback_def ledger\<close>)

text \<open>All events but four keep the ledger.\<close>

definition touches_ledger :: "fsm_event \<Rightarrow> bool" where
  "touches_ledger e = (case e of RelayRoleCmdMsg _ \<Rightarrow> True | DroneStateTimer \<Rightarrow> True |
     AssignmentPlanMsg _ \<Rightarrow> True | AssignmentCommitMsg _ \<Rightarrow> True | _ \<Rightarrow> False)"

lemma ledger_event:
  assumes "wf_params p" and "fsm_handle p w now e s = Some s'" and "\<not> touches_ledger e"
  shows "same_ledger p s s'"
  using assms
  by (cases e) (auto simp: touches_ledger_def ledger safetyCallback_def frontierCallback_def odometryCallback_def
      Let_def swarmTrajTimerCallback_def dest: ledger_peer_state ledger_opt_msg ledger_opt_res ledger_swarm_traj
      split: option.splits)

section \<open>The events that change the ledger\<close>

definition no_txn :: txn where
  "no_txn = (False, 0, 0, 0, 0, 0, 0)"

lemma clear_txn [simp]: "pending_txn (clearPendingAssignmentTxn s) = no_txn"
  by (simp add: clearPendingAssignmentTxn_def pending_txn_def no_txn_def)

lemma clear_txn_fields [simp]:
  "fs_current_role (clearPendingAssignmentTxn s) = fs_current_role s"
  "ed_swarm_state (clearPendingAssignmentTxn s) = ed_swarm_state s"
  "fs_component_epoch (clearPendingAssignmentTxn s) = fs_component_epoch s"
  "fs_component_leader_id (clearPendingAssignmentTxn s) = fs_component_leader_id s"
  "fd_go_back (clearPendingAssignmentTxn s) = fd_go_back s"
  "fs_out (clearPendingAssignmentTxn s) = fs_out s"
  "fs_component_members_initialized (clearPendingAssignmentTxn s) = fs_component_members_initialized s"
  by (simp_all add: clearPendingAssignmentTxn_def)

text \<open>The invariant: the own entry agrees with the role, a relay owns nothing and has nothing staged, and a
  staged transaction is one of this drone, in the component view it has now.\<close>

definition fsm_inv :: "fsm_params \<Rightarrow> fsm_state \<Rightarrow> bool" where
  "fsm_inv p s \<longleftrightarrow>
     length (ed_swarm_state s) = fp_drone_num p \<and> own_flags p s \<and> \<not> fd_go_back s \<and>
     distinct (own_grids p s) \<and>
     (fs_current_role s = ROLE_RELAY \<longrightarrow> own_grids p s = [] \<and> \<not> fs_pending_active s) \<and>
     (\<not> fs_pending_active s \<longrightarrow> pending_txn s = no_txn) \<and>
     (fs_pending_active s \<longrightarrow> fs_pending_txn_id s \<noteq> 0 \<and> fs_pending_owner_id s = fp_drone_id p \<and>
        fs_pending_epoch s = fs_component_epoch s \<and> fs_pending_leader_id s = fs_component_leader_id s)"

lemma fsm_inv_ledger: "same_ledger p s t \<Longrightarrow> fsm_inv p s \<Longrightarrow> fsm_inv p t"
  unfolding fsm_inv_def same_ledger_def by (auto simp: pending_txn_def no_txn_def)

lemma fsm_inv_init: "wf_params p \<Longrightarrow> fsm_inv p (fsm_init p)"
  by (auto simp: fsm_inv_def wf_params_def fsm_init_def own_flags_def own_grids_def self_state_def self_index_def
      init_drone_state_def pending_txn_def no_txn_def)

lemma enter_relay_effect:
  assumes "self_index p < length (ed_swarm_state s)" and "\<not> fs_pending_active s \<longrightarrow> pending_txn s = no_txn"
  shows "fs_current_role (enter_relay p now s) = fs_current_role s \<and>
    own_grids p (enter_relay p now s) = [] \<and> pending_txn (enter_relay p now s) = no_txn \<and>
    length (ed_swarm_state (enter_relay p now s)) = length (ed_swarm_state s) \<and>
    \<not> fd_go_back (enter_relay p now s) \<and> (own_flags p s \<longrightarrow> own_flags p (enter_relay p now s))"
proof -
  let ?g = "ds_grid_ids (self_state p s)"
  define a where "a = snd (publishReleaseRequest p now ?g ''relayEnter'' (stagePendingSelfRelease ?g
    (s\<lparr>fs_relay_suspended_grid_ids := ?g, ed_pending_relay_enter_release_grid_ids := ?g\<rparr>)))
    \<lparr>ed_pending_claim_grid_ids := [], ed_pending_relay_recover_grid_ids := [], ed_pending_grid_ids := []\<rparr>"
  define b where "b = clearLegacyPairOptState (if fs_pending_active a then clearPendingAssignmentTxn a else a)"
  define c where "c = (set_self p ((self_state p b)\<lparr>ds_grid_ids := [], ds_recent_attempt_time := now\<rparr>) b)
    \<lparr>ed_last_grid_ids := [], ed_reallocated := True, ed_wait_response := False,
     fd_aggressive_reassign_requested := False, fd_go_back := False, fd_avoid_collision := False, fd_static_state := True\<rparr>"
  have "same_ledger p s a" unfolding a_def by (auto simp: ledger intro!: ledger_after)
  then have a: "fs_current_role a = fs_current_role s" "own_flags p s \<longrightarrow> own_flags p a"
    "length (ed_swarm_state a) = length (ed_swarm_state s)" "\<not> fs_pending_active a \<longrightarrow> pending_txn a = no_txn"
    using assms(2) by (auto simp: same_ledger_def pending_txn_def no_txn_def)
  have b: "pending_txn b = no_txn" "fs_current_role b = fs_current_role a" "ed_swarm_state b = ed_swarm_state a"
    using a(4) clear_txn [of a] by (auto simp: b_def clearLegacyPairOptState_def pending_txn_def)
  have c: "pending_txn c = no_txn" "fs_current_role c = fs_current_role s" "\<not> fd_go_back c"
    "length (ed_swarm_state c) = length (ed_swarm_state s)" "own_grids p c = []"
    "own_flags p s \<longrightarrow> own_flags p c"
    using a b assms(1) by (auto simp: c_def pending_txn_def own_grids_def own_flags_def self_state_def set_self_def)
  have "enter_relay p now s \<in> {transitState PLAN_TRAJ (c\<lparr>fd_trigger := True, fd_start_pos := fd_odom_pos c\<rparr>),
      transitState PLAN_TRAJ (publish ReplanOut c), c}"
    unfolding enter_relay_def Let_def a_def [symmetric] b_def [symmetric] c_def [symmetric] by (simp only: split: if_split) simp
  with c show ?thesis
    by (auto simp: transitState_def publish_def pending_txn_def own_grids_def own_flags_def self_state_def)
qed

lemma relay_role_inv:
  assumes "wf_params p" and "fsm_inv p s"
  shows "fsm_inv p (relayRoleCmdCallback p w msg now s)"
proof (cases "rrc_agent_id msg = fp_drone_id p")
  case True
  define t where "t = s\<lparr>fs_current_role := rrc_role msg, fs_have_relay_target := rrc_valid msg,
    fs_relay_target := rrc_relay_target msg, fs_relay_yaw := rrc_relay_yaw msg,
    fd_consecutive_plan_failures := 0, fd_plan_failure_relief_rounds := 0, fd_last_assignment_relief_time := 0\<rparr>"
  define u where "u = set_self p ((self_state p t)\<lparr>ds_relay_role := rrc_role msg,
    ds_task_assignable := (rrc_role msg \<noteq> ROLE_RELAY)\<rparr>) t"
  have idx: "self_index p < length (ed_swarm_state s)" using assms(2) by (simp add: fsm_inv_def own_flags_def)
  then have u: "fs_current_role u = rrc_role msg" "own_flags p u" "own_grids p u = own_grids p s"
    "pending_txn u = pending_txn s" "length (ed_swarm_state u) = length (ed_swarm_state s)"
    "fd_go_back u = fd_go_back s" "fs_component_epoch u = fs_component_epoch s"
    "fs_component_leader_id u = fs_component_leader_id s"
    by (auto simp: u_def t_def own_flags_def own_grids_def self_state_def set_self_def pending_txn_def)
  have inv: "fsm_inv p u" if "rrc_role msg = ROLE_RELAY \<longrightarrow> fs_current_role s = ROLE_RELAY"
    using assms(2) u that unfolding fsm_inv_def by (auto simp: pending_txn_def no_txn_def)
  have r: "relayRoleCmdCallback p w msg now s =
      (if fs_current_role s \<noteq> ROLE_RELAY \<and> fs_current_role u = ROLE_RELAY then enter_relay p now u
       else if fs_current_role s = ROLE_RELAY \<and> fs_current_role u \<noteq> ROLE_RELAY
       then recoverAssignmentAfterRelayExit p w now ''relayRoleCmdCallback'' u else u)"
    using True by (simp only: relayRoleCmdCallback_def Let_def u_def t_def if_False not_True_eq_False simp_thms)
  show ?thesis
  proof (cases "fs_current_role s \<noteq> ROLE_RELAY \<and> fs_current_role u = ROLE_RELAY")
    case enter: True
    have "\<not> fs_pending_active u \<longrightarrow> pending_txn u = no_txn"
      using assms(2) u by (auto simp: fsm_inv_def pending_txn_def)
    from enter_relay_effect [OF _ this] idx u assms(2) have "fsm_inv p (enter_relay p now u)"
      by (auto simp: fsm_inv_def pending_txn_def no_txn_def)
    with enter r show ?thesis by simp
  next
    case False
    with inv u have "fsm_inv p u" by auto
    moreover from this have "fsm_inv p (recoverAssignmentAfterRelayExit p w now reason u)" for reason
      by (rule fsm_inv_ledger [OF ledger_recover])
    ultimately show ?thesis using r False by simp
  qed
qed (use assms in \<open>simp add: relayRoleCmdCallback_def\<close>)

lemma ledger_broadcast [ledger]: "same_ledger p s (refresh_broadcast p w now s)"
  unfolding refresh_broadcast_def Let_def
  by (rule ledger_set_self) (auto simp: own_grids_def)

text \<open>The view update and the drop of a transaction of an old view, together.\<close>

lemma timer_inv:
  assumes "fsm_inv p s"
  shows "fsm_inv p (droneStateTimerCallback p w now s)"
proof -
  define t where "t = refresh_broadcast p w now s"
  define m where "m = map (\<lambda>i. int i + 1) (visible_members p now t)"
  define v where "v = drop_stale_txn (update_members m t)"
  have t: "fsm_inv p t" unfolding t_def by (rule fsm_inv_ledger [OF ledger_broadcast assms])
  have u: "fs_current_role (update_members m t) = fs_current_role t" "pending_txn (update_members m t) = pending_txn t"
    "ed_swarm_state (update_members m t) = ed_swarm_state t" "fd_go_back (update_members m t) = fd_go_back t"
    by (simp_all add: update_members_def Let_def pending_txn_def)
  have v: "fsm_inv p v"
  proof (cases "fs_pending_active (update_members m t) \<and>
      (fs_pending_epoch (update_members m t) \<noteq> fs_component_epoch (update_members m t) \<or>
       fs_pending_leader_id (update_members m t) \<noteq> fs_component_leader_id (update_members m t))")
    case True
    then have "v = clearPendingAssignmentTxn (update_members m t)" by (simp add: v_def drop_stale_txn_def)
    with t u show ?thesis
      by (auto simp: fsm_inv_def own_flags_def own_grids_def self_state_def clearPendingAssignmentTxn_def
          pending_txn_def no_txn_def)
  next
    case False
    then have "v = update_members m t" unfolding v_def drop_stale_txn_def by (simp only: if_False)
    with t u False show ?thesis
      by (auto simp: fsm_inv_def own_flags_def own_grids_def self_state_def pending_txn_def no_txn_def)
  qed
  have "same_ledger p v (droneStateTimerCallback p w now s)"
    unfolding droneStateTimerCallback_def Let_def t_def [symmetric] m_def [symmetric] v_def [symmetric]
    by (simp add: ledger)
  with v show ?thesis by (rule fsm_inv_ledger [rotated])
qed

lemma stage_assignment_fields:
  "pending_txn (stage_assignment p msg g v s) =
    (True, apl_txn_id msg, apl_component_epoch msg, apl_leader_id msg, g, fp_drone_id p, v)"
  "fs_current_role (stage_assignment p msg g v s) = fs_current_role s"
  "ed_swarm_state (stage_assignment p msg g v s) = ed_swarm_state s"
  "fs_component_epoch (stage_assignment p msg g v s) = fs_component_epoch s"
  "fs_component_leader_id (stage_assignment p msg g v s) = fs_component_leader_id s"
  "fd_go_back (stage_assignment p msg g v s) = fd_go_back s"
  "fs_out (stage_assignment p msg g v s) = fs_out s"
  by (simp_all add: stage_assignment_def pending_txn_def clearLegacyPairOptState_def)

lemma plan_inv:
  assumes "fsm_inv p s"
  shows "fsm_inv p (assignmentPlanCallback p msg now s)"
proof -
  have pub: "fsm_inv p (publish (AssignmentAckOut a) t) = fsm_inv p t" for a t
    by (simp add: fsm_inv_def publish_def own_flags_def own_grids_def self_state_def pending_txn_def)
  have "fsm_inv p (stage_assignment p msg g v s)"
    if "apl_txn_id msg \<noteq> 0" "apl_component_epoch msg = fs_component_epoch s"
      "apl_leader_id msg = fs_component_leader_id s" "fs_current_role s \<noteq> ROLE_RELAY" for g v
    using assms that stage_assignment_fields [of p msg g v s]
    by (simp add: fsm_inv_def own_flags_def own_grids_def self_state_def pending_txn_def)
  with assms show ?thesis
    by (auto simp: assignmentPlanCallback_def pub split: option.split)
qed

lemma apply_commit_effect:
  assumes "self_index p < length (ed_swarm_state s)"
  shows "own_grids p (apply_commit p s) =
      (if fs_pending_grid_id s \<in> set (own_grids p s) then own_grids p s else own_grids p s @ [fs_pending_grid_id s])"
    "pending_txn (apply_commit p s) = pending_txn s" "fs_current_role (apply_commit p s) = fs_current_role s"
    "length (ed_swarm_state (apply_commit p s)) = length (ed_swarm_state s)"
    "own_flags p s \<Longrightarrow> own_flags p (apply_commit p s)" "fd_go_back (apply_commit p s) = fd_go_back s"
    "fs_component_epoch (apply_commit p s) = fs_component_epoch s"
    "fs_component_leader_id (apply_commit p s) = fs_component_leader_id s"
  using assms by (auto simp: apply_commit_def Let_def own_grids_def own_flags_def self_state_def set_self_def
      pending_txn_def clearLegacyPairOptState_def)

text \<open>A commit that matches: apply, clear, continue with the next claim, replan.\<close>

lemma commit_ledger:
  assumes "commit_matches msg s"
  shows "same_ledger p (clearPendingAssignmentTxn (apply_commit p s)) (assignmentCommitCallback p w msg now s)"
proof -
  define t where "t = clearPendingAssignmentTxn (apply_commit p s)"
  define u where "u = snd (publishAllocationRequest p now (''continueStagedClaim:'' @ apl_reason msg) t)"
  have tu: "same_ledger p t u" unfolding u_def by (rule ledger_request)
  have "assignmentCommitCallback p w msg now s \<in> {u, transitState PLAN_TRAJ (u\<lparr>fd_trigger := True,
      fd_go_back := False, fd_static_state := True, fd_start_pos := fd_odom_pos u\<rparr>),
      transitState PLAN_TRAJ (publish ReplanOut u)}"
    using assms unfolding assignmentCommitCallback_def Let_def t_def [symmetric] u_def [symmetric]
    by (simp only: simp_thms if_False split: if_split) simp
  with tu show ?thesis by (auto simp: t_def)
qed

lemma commit_inv:
  assumes "fsm_inv p s"
  shows "fsm_inv p (assignmentCommitCallback p w msg now s)"
proof (cases "commit_matches msg s")
  case True
  let ?a = "apply_commit p s"
  have idx: "self_index p < length (ed_swarm_state s)" using assms by (simp add: fsm_inv_def own_flags_def)
  note a = apply_commit_effect [OF idx]
  have act: "fs_pending_active s" using True by (simp add: commit_matches_def)
  have "fsm_inv p ?a"
    using assms a act unfolding fsm_inv_def by (auto simp: pending_txn_def)
  then have "fsm_inv p (clearPendingAssignmentTxn ?a)"
    by (auto simp: fsm_inv_def own_flags_def own_grids_def self_state_def clearPendingAssignmentTxn_def
        pending_txn_def no_txn_def)
  with commit_ledger [OF True] show ?thesis by (rule fsm_inv_ledger)
qed (use assms in \<open>simp add: assignmentCommitCallback_def\<close>)

lemma fsm_event_inv:
  assumes "wf_params p" and "fsm_inv p s" and "fsm_handle p w now e s = Some s'"
  shows "fsm_inv p s'"
proof (cases "touches_ledger e")
  case True
  with assms relay_role_inv timer_inv plan_inv commit_inv show ?thesis
    by (cases e) (auto simp: touches_ledger_def)
next
  case False
  with ledger_event [OF assms(1,3)] assms(2) fsm_inv_ledger show ?thesis by blast
qed

lemma fsm_reach_inv:
  assumes "wf_params p" and "fsm_reach p s"
  shows "fsm_inv p s"
  using assms(2)
  by (induction rule: fsm_reach.induct) (use assms(1) fsm_inv_init fsm_event_inv in blast)+

end
