(* ===== verification/Expl_Claims.thy ===== *)
theory Expl_Claims imports Expl_Props
begin

text \<open>
  The properties of the exploration state machine, with instances on drone 1 of a swarm of two.
\<close>

section \<open>A concrete drone\<close>

definition ex_fsm_params :: fsm_params where
  "ex_fsm_params = fsm_default_params 1 2"

definition ex_world :: fsm_world where
  "ex_world = \<lparr>w_frontier_status = 1, w_frontier_changed = False, w_frontier_covered = False,
     w_remote_update = False, w_active_grids = [5, 6], w_fine_grid = (\<lambda>_. False), w_grid_frontiers = (\<lambda>_. []),
     w_consistent = (=), w_grid_cost = (\<lambda>_ g. real_of_int g), w_grid_vel_cost = (\<lambda>_ _ g. real_of_int g),
     w_plan = (\<lambda>_. FAIL), w_plan_grids = None, w_plan_done = 20, w_traj_pos = (\<lambda>_. zero_point),
     w_traj_vel = (\<lambda>_. zero_vector), w_traj_yaw = (\<lambda>_. 0), w_duration = 1, w_traj_safe = True,
     w_swarm_safe = True, w_near_goal = False\<rparr>"

text \<open>Drone 1 in the component of epoch 4 that it leads, with odometry and no grid.\<close>

definition ex_fsm :: fsm_state where
  "ex_fsm = (fsm_init ex_fsm_params)\<lparr>fs_state := IDLE, fd_have_odom := True, fs_component_epoch := 4,
     fs_component_leader_id := 1, fs_component_members_initialized := True, fs_last_component_member_ids := [1]\<rparr>"

definition ex_plan :: AssignmentPlan where
  "ex_plan = \<lparr>apl_component_epoch = 4, apl_leader_id = 1, apl_grid_ids = [5], apl_owner_ids = [1],
     apl_owner_versions = [1], apl_txn_id = 9, apl_reason = ''idle'', apl_stamp = 10\<rparr>"

lemma ex_fsm_inv: "wf_params ex_fsm_params" "fsm_inv ex_fsm_params ex_fsm"
proof -
  show wf: "wf_params ex_fsm_params" by (simp add: wf_params_def ex_fsm_params_def fsm_default_params_def)
  show "fsm_inv ex_fsm_params ex_fsm"
    by (simp add: fsm_inv_def ex_fsm_def own_flags_def own_grids_def self_state_def self_index_def pending_txn_def
        fsm_init_def no_txn_def ex_fsm_params_def fsm_default_params_def init_drone_state_def)
qed

section \<open>Ownership\<close>

text \<open>C7: in every reachable state the drone's own entry agrees with its role, a relay owns no grid and has
  no transaction staged, its grids are distinct, and a staged transaction names this drone and the
  component view it has now; the drone is never on its way back.\<close>

theorem fsm_reachable_invariant:
  assumes "wf_params p" and "fsm_reach p s"
  shows "(fs_current_role s = ROLE_RELAY \<longrightarrow> own_grids p s = [] \<and> \<not> fs_pending_active s \<and>
      \<not> ds_task_assignable (self_state p s)) \<and>
    ds_relay_role (self_state p s) = fs_current_role s \<and> distinct (own_grids p s) \<and> \<not> fd_go_back s \<and>
    (fs_pending_active s \<longrightarrow> fs_pending_txn_id s \<noteq> 0 \<and> fs_pending_owner_id s = fp_drone_id p \<and>
      fs_pending_epoch s = fs_component_epoch s \<and> fs_pending_leader_id s = fs_component_leader_id s)"
  using fsm_reach_inv [OF assms] by (auto simp: fsm_inv_def own_flags_def)

theorem fsm_reachable_invariant_witness:
  "\<not> fd_go_back (relayRoleCmdCallback ex_fsm_params ex_world
     \<lparr>rrc_stamp = 1, rrc_agent_id = 1, rrc_role = 1, rrc_relay_target = zero_point, rrc_relay_yaw = 0, rrc_valid = True\<rparr>
     1 (fsm_init ex_fsm_params))"
proof -
  have "fsm_reach ex_fsm_params (relayRoleCmdCallback ex_fsm_params ex_world m 1 (fsm_init ex_fsm_params))" for m
    by (rule fsm_reach.event [OF fsm_reach.start, of _ ex_world 1 "RelayRoleCmdMsg m"]) simp
  from fsm_reachable_invariant [OF ex_fsm_inv(1) this] show ?thesis by blast
qed

definition own_grids_after :: "fsm_params \<Rightarrow> fsm_event \<Rightarrow> fsm_state \<Rightarrow> int list" where
  "own_grids_after p e s =
     (case e of
        AssignmentCommitMsg m \<Rightarrow>
          if commit_matches m s \<and> fs_pending_grid_id s \<notin> set (own_grids p s)
          then own_grids p s @ [fs_pending_grid_id s] else own_grids p s
      | RelayRoleCmdMsg m \<Rightarrow>
          if rrc_agent_id m = fp_drone_id p \<and> rrc_role m = ROLE_RELAY then [] else own_grids p s
      | _ \<Rightarrow> own_grids p s)"

lemma own_grids_commit:
  assumes "self_index p < length (ed_swarm_state s)"
  shows "own_grids p (assignmentCommitCallback p w m now s) = own_grids_after p (AssignmentCommitMsg m) s"
proof (cases "commit_matches m s")
  case True
  with commit_ledger [OF True, of p w now] apply_commit_effect(1) [OF assms] show ?thesis
    by (simp add: same_ledger_def own_grids_after_def) (simp add: own_grids_def self_state_def)
qed (simp add: assignmentCommitCallback_def own_grids_after_def)

lemma own_grids_timer: "own_grids p (droneStateTimerCallback p w now s) = own_grids p s"
proof -
  have "ed_swarm_state (drop_stale_txn (update_members m t)) = ed_swarm_state t" for m t
    by (simp add: drop_stale_txn_def update_members_def Let_def)
  then have "own_grids p (droneStateTimerCallback p w now s) = own_grids p (refresh_broadcast p w now s)"
    by (simp add: droneStateTimerCallback_def Let_def publish_def own_grids_def self_state_def)
  also have "\<dots> = own_grids p s" using ledger_broadcast [of p s w now] by (simp add: same_ledger_def)
  finally show ?thesis .
qed

lemma own_grids_plan: "own_grids p (assignmentPlanCallback p m now s) = own_grids p s"
  by (simp add: assignmentPlanCallback_def publish_def own_grids_def self_state_def stage_assignment_fields
      split: option.split)

lemma own_grids_role:
  assumes "fsm_inv p s"
  shows "own_grids p (relayRoleCmdCallback p w m now s) = own_grids_after p (RelayRoleCmdMsg m) s"
proof (cases "rrc_agent_id m = fp_drone_id p")
  case True
  define t where "t = s\<lparr>fs_current_role := rrc_role m, fs_have_relay_target := rrc_valid m,
    fs_relay_target := rrc_relay_target m, fs_relay_yaw := rrc_relay_yaw m,
    fd_consecutive_plan_failures := 0, fd_plan_failure_relief_rounds := 0, fd_last_assignment_relief_time := 0\<rparr>"
  define u where "u = set_self p ((self_state p t)\<lparr>ds_relay_role := rrc_role m,
    ds_task_assignable := (rrc_role m \<noteq> ROLE_RELAY)\<rparr>) t"
  have idx: "self_index p < length (ed_swarm_state s)" using assms by (simp add: fsm_inv_def own_flags_def)
  then have u: "fs_current_role u = rrc_role m" "own_grids p u = own_grids p s" "pending_txn u = pending_txn s"
    "length (ed_swarm_state u) = length (ed_swarm_state s)"
    by (auto simp: u_def t_def own_grids_def self_state_def set_self_def pending_txn_def)
  have r: "relayRoleCmdCallback p w m now s =
      (if fs_current_role s \<noteq> ROLE_RELAY \<and> fs_current_role u = ROLE_RELAY then enter_relay p now u
       else if fs_current_role s = ROLE_RELAY \<and> fs_current_role u \<noteq> ROLE_RELAY
       then recoverAssignmentAfterRelayExit p w now ''relayRoleCmdCallback'' u else u)"
    using True by (simp only: relayRoleCmdCallback_def Let_def u_def t_def if_False not_True_eq_False simp_thms)
  have "\<not> fs_pending_active u \<longrightarrow> pending_txn u = no_txn"
    using assms u by (auto simp: fsm_inv_def pending_txn_def)
  from enter_relay_effect [OF _ this] idx u have "own_grids p (enter_relay p now u) = []" by simp
  moreover have "own_grids p (recoverAssignmentAfterRelayExit p w now reason u) = own_grids p u" for reason
    using ledger_recover [of p u w now reason] by (simp add: same_ledger_def)
  ultimately show ?thesis
    using r u True assms by (simp add: own_grids_after_def fsm_inv_def)
qed (simp add: relayRoleCmdCallback_def own_grids_after_def)

text \<open>C8: one event changes the drone's own grids in exactly two cases: a commit of the staged transaction
  adds its grid at the end (once), and the command to become a relay drops all of them. In particular
  no release, claim, broadcast of a peer or pairwise optimisation moves ownership.\<close>

theorem own_grids_change:
  assumes "wf_params p" and "fsm_inv p s" and "fsm_handle p w now e s = Some s'"
  shows "own_grids p s' = own_grids_after p e s"
proof (cases "touches_ledger e")
  case True
  have "self_index p < length (ed_swarm_state s)" using assms(2) by (simp add: fsm_inv_def own_flags_def)
  with True assms(3) own_grids_commit own_grids_timer own_grids_plan own_grids_role [OF assms(2)] show ?thesis
    by (cases e) (auto simp: touches_ledger_def own_grids_after_def)
next
  case False
  with ledger_event [OF assms(1,3)] show ?thesis
    by (cases e) (auto simp: same_ledger_def own_grids_after_def touches_ledger_def)
qed

theorem own_grids_change_witness:
  "own_grids ex_fsm_params (optTimerCallback ex_fsm_params ex_world 10 ex_fsm) = own_grids ex_fsm_params ex_fsm"
  using own_grids_change [OF ex_fsm_inv, of ex_world 10 OptTimer]
  by (simp add: own_grids_after_def)

section \<open>Plan, acknowledgement, commit\<close>

lemma request_keeps_release:
  "ed_pending_release_grid_ids (snd (publishAllocationRequest p now reason s)) = ed_pending_release_grid_ids s"
  by (simp add: publishAllocationRequest_def Let_def publish_def clearLegacyPairOptState_def)

lemma commit_release_list:
  assumes "commit_matches msg s"
  shows "ed_pending_release_grid_ids (assignmentCommitCallback p w msg now s) =
    removeAll (fs_pending_grid_id s) (ed_pending_release_grid_ids s)"
proof -
  have "ed_pending_release_grid_ids (clearPendingAssignmentTxn (apply_commit p s)) =
      removeAll (fs_pending_grid_id s) (ed_pending_release_grid_ids s)"
    by (simp add: clearPendingAssignmentTxn_def apply_commit_def Let_def set_self_def clearLegacyPairOptState_def)
  with assms show ?thesis
    by (simp add: assignmentCommitCallback_def Let_def request_keeps_release transitState_def publish_def)
qed

lemma plan_accepted:
  assumes "fsm_inv p s" and "\<not> fs_pending_active s" and "fs_current_role s \<noteq> ROLE_RELAY"
    and "apl_txn_id msg \<noteq> 0" and "apl_component_epoch msg = fs_component_epoch s"
    and "apl_leader_id msg = fs_component_leader_id s" and "plan_entry p msg = Some (g, ow, v)"
  shows "assignmentPlanCallback p msg now s =
    publish (AssignmentAckOut (assignment_ack p now msg g v True (apl_reason msg))) (stage_assignment p msg g v s)"
  using assms by (simp add: assignmentPlanCallback_def fsm_inv_def own_flags_def)

lemma publish_same:
  "own_grids p (publish m s) = own_grids p s" "pending_txn (publish m s) = pending_txn s"
  "fs_component_epoch (publish m s) = fs_component_epoch s"
  "fs_component_leader_id (publish m s) = fs_component_leader_id s"
  "fs_current_role (publish m s) = fs_current_role s" "fs_out (publish m s) = fs_out s @ [m]"
  by (simp_all add: publish_def own_grids_def self_state_def pending_txn_def)

lemma find_SomeD: "find P xs = Some x \<Longrightarrow> x \<in> set xs \<and> P x"
  by (induction xs) (auto split: if_splits)

lemma plan_entry_claimed:
  "plan_entry p msg = Some (g, ow, v) \<Longrightarrow> ow = fp_drone_id p \<and>
   (g, ow, v) \<in> set (claimed_grids (apl_grid_ids msg) (apl_owner_ids msg) (apl_owner_versions msg))"
  unfolding plan_entry_def by (drule find_SomeD) auto

lemma staged_commit_matches:
  assumes "plan_entry p msg = Some (g, ow, v)" and "apl_txn_id msg \<noteq> 0"
    and "apl_component_epoch msg = fs_component_epoch s" and "apl_leader_id msg = fs_component_leader_id s"
  shows "commit_matches (msg\<lparr>apl_stamp := later\<rparr>) (publish m (stage_assignment p msg g v s))"
proof -
  have "(g, fp_drone_id p, v) \<in> set (claimed_grids (apl_grid_ids msg) (apl_owner_ids msg) (apl_owner_versions msg))"
    using plan_entry_claimed [OF assms(1)] by blast
  with assms stage_assignment_fields [of p msg g v s] show ?thesis
    by (simp add: commit_matches_def publish_def pending_txn_def)
qed

text \<open>A plan of the drone's view and its commit.\<close>

lemma plan_commit_effect:
  assumes "wf_params p" and "fsm_inv p s" and "\<not> fs_pending_active s" and "fs_current_role s \<noteq> ROLE_RELAY"
    and "apl_txn_id msg \<noteq> 0" and "apl_component_epoch msg = fs_component_epoch s"
    and "apl_leader_id msg = fs_component_leader_id s" and "plan_entry p msg = Some (g, ow, v)"
  shows "fs_out (assignmentPlanCallback p msg now s) =
      fs_out s @ [AssignmentAckOut (assignment_ack p now msg g v True (apl_reason msg))] \<and>
    own_grids p (assignmentPlanCallback p msg now s) = own_grids p s \<and>
    (let s' = assignmentCommitCallback p w (msg\<lparr>apl_stamp := stamp\<rparr>) later (assignmentPlanCallback p msg now s)
     in g \<in> set (getEffectiveSelfGridIds p s') \<and> distinct (own_grids p s') \<and>
        set (own_grids p s') = insert g (set (own_grids p s)) \<and> \<not> fs_pending_active s')"
proof -
  let ?t = "assignmentPlanCallback p msg now s" and ?m = "msg\<lparr>apl_stamp := stamp\<rparr>"
  let ?s' = "assignmentCommitCallback p w ?m later ?t"
  note t = plan_accepted [OF assms(2-8), of now]
  have t_inv: "fsm_inv p ?t" by (rule plan_inv [OF assms(2)])
  have grid: "fs_pending_grid_id ?t = g" using stage_assignment_fields(1) [of p msg g v s] unfolding t
    by (simp add: publish_def pending_txn_def)
  have m: "commit_matches ?m ?t"
    unfolding t by (rule staged_commit_matches) (use assms in simp_all)
  have idx: "self_index p < length (ed_swarm_state ?t)" using t_inv by (simp add: fsm_inv_def own_flags_def)
  have s'_inv: "fsm_inv p ?s'" by (rule commit_inv [OF t_inv])
  have own: "own_grids p ?t = own_grids p s" by (rule own_grids_plan)
  have set': "set (own_grids p ?s') = insert g (set (own_grids p s))"
    using own_grids_commit [OF idx, of w ?m later] m grid own by (auto simp: own_grids_after_def)
  have "fs_current_role ?s' \<noteq> ROLE_RELAY" "pending_txn ?s' = no_txn"
    using commit_ledger [OF m, of p w later] apply_commit_effect(3) [OF idx] assms(4) stage_assignment_fields(2)
    by (simp_all add: same_ledger_def t publish_same)
  moreover have "g \<notin> set (ed_pending_release_grid_ids ?s')"
    using commit_release_list [OF m, of p w later] grid by simp
  moreover have "fs_out ?t = fs_out s @ [AssignmentAckOut (assignment_ack p now msg g v True (apl_reason msg))]"
    by (simp add: t publish_same stage_assignment_fields)
  ultimately show ?thesis
    using set' s'_inv own
    by (auto simp: getEffectiveSelfGridIds_def fsm_inv_def own_grids_def pending_txn_def no_txn_def Let_def)
qed

text \<open>C9: a drone with nothing staged answers a plan of its view that names it with exactly one accepting
  acknowledgement that repeats the plan, and the commit of that plan then makes the planned grid an
  effective grid of the drone (once, even if it was staged for release) and ends the transaction.\<close>

theorem plan_ack_commit:
  assumes "wf_params p" and "fsm_inv p s" and "\<not> fs_pending_active s" and "fs_current_role s \<noteq> ROLE_RELAY"
    and "apl_txn_id msg \<noteq> 0" and "apl_component_epoch msg = fs_component_epoch s"
    and "apl_leader_id msg = fs_component_leader_id s" and "plan_entry p msg = Some (g, ow, v)"
  shows "fs_out (assignmentPlanCallback p msg now s) =
      fs_out s @ [AssignmentAckOut (assignment_ack p now msg g v True (apl_reason msg))] \<and>
    own_grids p (assignmentPlanCallback p msg now s) = own_grids p s \<and>
    (let s' = assignmentCommitCallback p w (msg\<lparr>apl_stamp := later\<rparr>) later (assignmentPlanCallback p msg now s)
     in g \<in> set (getEffectiveSelfGridIds p s') \<and> distinct (own_grids p s') \<and>
        set (own_grids p s') = insert g (set (own_grids p s)) \<and> \<not> fs_pending_active s')"
  by (rule plan_commit_effect [OF assms])

theorem plan_ack_commit_witness:
  "5 \<in> set (getEffectiveSelfGridIds ex_fsm_params (assignmentCommitCallback ex_fsm_params ex_world
     (ex_plan\<lparr>apl_stamp := 11\<rparr>) 11 (assignmentPlanCallback ex_fsm_params ex_plan 10 ex_fsm)))"
proof -
  have "\<not> fs_pending_active ex_fsm" "fs_current_role ex_fsm \<noteq> ROLE_RELAY" "fs_component_epoch ex_fsm = 4"
    "fs_component_leader_id ex_fsm = 1" by (simp_all add: ex_fsm_def fsm_init_def)
  moreover have "plan_entry ex_fsm_params ex_plan = Some (5, 1, 1)"
    by (simp add: plan_entry_def ex_plan_def claimed_grids_def ex_fsm_params_def fsm_default_params_def)
  ultimately show ?thesis
    using plan_ack_commit [OF ex_fsm_inv, of ex_plan 5 1 1 10 ex_world 11] by (simp add: ex_plan_def Let_def)
qed

section \<open>A lost commit\<close>

type_synonym fsm_trace = "(fsm_world \<times> time \<times> fsm_event) list"

fun fsm_run :: "fsm_params \<Rightarrow> fsm_trace \<Rightarrow> fsm_state \<Rightarrow> fsm_state option" where
  "fsm_run p [] s = Some s"
| "fsm_run p ((w, now, e) # tr) s = Option.bind (fsm_handle p w now e s) (fsm_run p tr)"

definition ends_txn :: "fsm_params \<Rightarrow> fsm_world \<Rightarrow> time \<Rightarrow> fsm_event \<Rightarrow> fsm_state \<Rightarrow> bool" where
  "ends_txn p w now e s =
     (case e of
        AssignmentCommitMsg m \<Rightarrow> commit_matches m s
      | RelayRoleCmdMsg m \<Rightarrow> rrc_role m = ROLE_RELAY
      | DroneStateTimer \<Rightarrow>
          fs_component_epoch (droneStateTimerCallback p w now s) \<noteq> fs_component_epoch s \<or>
          fs_component_leader_id (droneStateTimerCallback p w now s) \<noteq> fs_component_leader_id s
      | _ \<Rightarrow> False)"

fun quiet :: "fsm_params \<Rightarrow> fsm_trace \<Rightarrow> fsm_state \<Rightarrow> bool" where
  "quiet p [] s = True"
| "quiet p ((w, now, e) # tr) s =
     (\<not> ends_txn p w now e s \<and> (case fsm_handle p w now e s of None \<Rightarrow> True | Some s' \<Rightarrow> quiet p tr s'))"

definition txn_kept :: "fsm_state \<Rightarrow> fsm_state \<Rightarrow> bool" where
  "txn_kept s s' \<longleftrightarrow> pending_txn s' = pending_txn s \<and> allocation_requests s' = allocation_requests s"

lemma plan_keeps_txn:
  assumes "fs_pending_active s"
  shows "txn_kept s (assignmentPlanCallback p m now s)"
  using assms by (auto simp: assignmentPlanCallback_def txn_kept_def publish_def pending_txn_def
      allocation_requests_def split: option.split)

lemma timer_keeps_txn:
  assumes "fsm_inv p s" and "fs_pending_active s" and "\<not> ends_txn p w now DroneStateTimer s"
  shows "txn_kept s (droneStateTimerCallback p w now s)"
proof -
  define t where "t = refresh_broadcast p w now s"
  define u where "u = update_members (map (\<lambda>i. int i + 1) (visible_members p now t)) t"
  have t: "pending_txn t = pending_txn s" "allocation_requests t = allocation_requests s"
    using ledger_broadcast [of p s w now] assms(2) by (simp_all add: same_ledger_def t_def)
  have u: "pending_txn u = pending_txn t" "fs_out u = fs_out t"
    by (simp_all add: u_def update_members_def Let_def pending_txn_def)
  have view: "fs_component_epoch (droneStateTimerCallback p w now s) = fs_component_epoch u"
    "fs_component_leader_id (droneStateTimerCallback p w now s) = fs_component_leader_id u"
    by (simp_all add: droneStateTimerCallback_def Let_def t_def u_def publish_def drop_stale_txn_def)
  have "drop_stale_txn u = u"
  proof -
    have "fs_pending_epoch u = fs_pending_epoch s" "fs_pending_leader_id u = fs_pending_leader_id s"
      using t u by (simp_all add: pending_txn_def)
    with assms view show ?thesis by (simp add: drop_stale_txn_def ends_txn_def fsm_inv_def)
  qed
  then have "droneStateTimerCallback p w now s = (let s = u in publish (ComponentStateOut
      (component_msg p w now (owner_by_grid p t (visible_members p now t)) s)) (publish (RelayTaskStateOut
      (relay_task_msg (drone_state_msg p (getEffectiveSelfGridIds p t) (self_state p t)) (getEffectiveSelfGridIds p t) t))
      (publish (DroneStateOut (drone_state_msg p (getEffectiveSelfGridIds p t) (self_state p t)))
        (s\<lparr>fs_component_owner_ids := owner_by_grid p t (visible_members p now t),
           fs_component_owner_versions := map (\<lambda>e. (fst e, next_owner_version s e))
             (owner_by_grid p t (visible_members p now t))\<rparr>))))"
    by (simp add: droneStateTimerCallback_def Let_def t_def u_def)
  with t u show ?thesis
    by (simp add: txn_kept_def publish_def pending_txn_def allocation_requests_def Let_def)
qed

lemma role_keeps_txn:
  assumes "fs_pending_active s" and "rrc_role m \<noteq> ROLE_RELAY"
  shows "txn_kept s (relayRoleCmdCallback p w m now s)"
proof (cases "rrc_agent_id m = fp_drone_id p")
  case True
  define t where "t = s\<lparr>fs_current_role := rrc_role m, fs_have_relay_target := rrc_valid m,
    fs_relay_target := rrc_relay_target m, fs_relay_yaw := rrc_relay_yaw m,
    fd_consecutive_plan_failures := 0, fd_plan_failure_relief_rounds := 0, fd_last_assignment_relief_time := 0\<rparr>"
  define u where "u = set_self p ((self_state p t)\<lparr>ds_relay_role := rrc_role m,
    ds_task_assignable := (rrc_role m \<noteq> ROLE_RELAY)\<rparr>) t"
  have u: "pending_txn u = pending_txn s" "allocation_requests u = allocation_requests s"
    "fs_current_role u = rrc_role m" "fs_pending_active u"
    using assms(1) by (simp_all add: u_def t_def set_self_def pending_txn_def allocation_requests_def)
  have "relayRoleCmdCallback p w m now s = (if fs_current_role s = ROLE_RELAY
      then recoverAssignmentAfterRelayExit p w now ''relayRoleCmdCallback'' u else u)"
    using True assms(2) u(3) unfolding relayRoleCmdCallback_def Let_def t_def [symmetric] u_def [symmetric] by simp
  with u ledger_recover [of p u w now "''relayRoleCmdCallback''"] show ?thesis
    by (simp add: txn_kept_def same_ledger_def)
qed (simp add: relayRoleCmdCallback_def txn_kept_def)

lemma event_keeps_txn:
  assumes "wf_params p" and "fsm_inv p s" and "fs_pending_active s" and "\<not> ends_txn p w now e s"
    and "fsm_handle p w now e s = Some s'"
  shows "txn_kept s s'"
proof (cases "touches_ledger e")
  case True
  with assms plan_keeps_txn [OF assms(3)] role_keeps_txn [OF assms(3)] timer_keeps_txn [OF assms(2,3)] show ?thesis
    by (cases e) (auto simp: touches_ledger_def ends_txn_def assignmentCommitCallback_def txn_kept_def)
next
  case False
  with ledger_event [OF assms(1,5)] assms(3) show ?thesis by (simp add: same_ledger_def txn_kept_def)
qed

text \<open>nothing but the matching commit, the relay command or a change of the component view ends a
  staged transaction: along any execution without them it stays staged, whatever the clock says, and the
  drone publishes no allocation request. The state machine has no time limit for it.\<close>

theorem staged_txn_never_expires:
  assumes "wf_params p" and "fsm_inv p s" and "fs_pending_active s" and "quiet p tr s" and "fsm_run p tr s = Some s'"
  shows "pending_txn s' = pending_txn s \<and> allocation_requests s' = allocation_requests s"
  using assms(2-5)
proof (induction tr arbitrary: s)
  case (Cons a tr)
  obtain w now e where a: "a = (w, now, e)" by (metis prod_cases3)
  with Cons.prems(4) obtain t where t: "fsm_handle p w now e s = Some t" "fsm_run p tr t = Some s'"
    by (auto simp: bind_eq_Some_conv)
  have "txn_kept s t"
    using event_keeps_txn [OF assms(1) Cons.prems(1,2) _ t(1)] Cons.prems(3) a by simp
  moreover have "fsm_inv p t" by (rule fsm_event_inv [OF assms(1) Cons.prems(1) t(1)])
  ultimately show ?case
    using Cons.IH [of t] Cons.prems(2,3) t a by (simp add: txn_kept_def pending_txn_def)
qed simp

definition ex_staged :: fsm_state where
  "ex_staged = assignmentPlanCallback ex_fsm_params ex_plan 10 ex_fsm"

theorem staged_txn_never_expires_witness:
  "\<exists>s'. fsm_run ex_fsm_params [(ex_world, 1000, OptTimer), (ex_world, 2000, AssignmentPlanMsg (ex_plan\<lparr>apl_txn_id := 10\<rparr>)),
     (ex_world, 3000, OptTimer)] ex_staged = Some s' \<and> pending_txn s' = (True, 9, 4, 1, 5, 1, 1)"
proof -
  let ?tr = "[(ex_world, 1000, OptTimer), (ex_world, 2000, AssignmentPlanMsg (ex_plan\<lparr>apl_txn_id := 10\<rparr>)),
     (ex_world, 3000, OptTimer)]"
  have "plan_entry ex_fsm_params ex_plan = Some (5, 1, 1)"
    by (simp add: plan_entry_def ex_plan_def claimed_grids_def ex_fsm_params_def fsm_default_params_def)
  then have st: "ex_staged = publish (AssignmentAckOut (assignment_ack ex_fsm_params 10 ex_plan 5 1 True (apl_reason ex_plan)))
      (stage_assignment ex_fsm_params ex_plan 5 1 ex_fsm)"
    unfolding ex_staged_def by (intro plan_accepted [OF ex_fsm_inv(2)]) (simp_all add: ex_fsm_def fsm_init_def ex_plan_def)
  have txn: "pending_txn ex_staged = (True, 9, 4, 1, 5, 1, 1)"
    unfolding st by (simp add: publish_same stage_assignment_fields ex_plan_def ex_fsm_params_def fsm_default_params_def)
  obtain s' where s': "fsm_run ex_fsm_params ?tr ex_staged = Some s'" by simp
  have "fsm_inv ex_fsm_params ex_staged" unfolding ex_staged_def by (rule plan_inv [OF ex_fsm_inv(2)])
  moreover have "quiet ex_fsm_params ?tr ex_staged" by (simp add: ends_txn_def)
  ultimately have "pending_txn s' = pending_txn ex_staged"
    using staged_txn_never_expires [OF ex_fsm_inv(1), of ex_staged ?tr s'] s' txn by (simp add: pending_txn_def)
  with s' txn show ?thesis by simp
qed

section \<open>Repeated planning failures\<close>

definition relief_held :: "fsm_params \<Rightarrow> time \<Rightarrow> fsm_state \<Rightarrow> bool" where
  "relief_held p now s \<longleftrightarrow> getEffectiveSelfGridIds p s = [] \<or> fd_consecutive_plan_failures s < 8 \<or>
     fs_pending_active s \<or>
     (fd_last_assignment_relief_time s \<noteq> 0 \<and> now - fd_last_assignment_relief_time s < 2)"

text \<open>\<open>s'\<close> is \<open>s\<close> after one release request for the grids \<open>rel\<close>, which it no longer plans with.\<close>

definition gave_up :: "fsm_params \<Rightarrow> int list \<Rightarrow> fsm_state \<Rightarrow> fsm_state \<Rightarrow> bool" where
  "gave_up p rel s s' \<longleftrightarrow>
     (\<exists>m. fs_out s' = fs_out s @ [ReleaseRequestOut m] \<and> apl_grid_ids m = rel) \<and>
     getEffectiveSelfGridIds p s' = filter (\<lambda>g. g \<notin> set rel) (getEffectiveSelfGridIds p s)"

lemma set_append_unique [simp]: "set (append_unique a b) = set a \<union> set b"
proof -
  have "set (foldl (\<lambda>acc g. if g \<in> set acc then acc else acc @ [g]) a b) = set a \<union> set b"
    by (induction b arbitrary: a) auto
  then show ?thesis by (simp add: append_unique_def)
qed

lemma release_after_gives_up:
  assumes "fs_component_members_initialized s" and "fs_component_leader_id s > 0" and "rel \<noteq> []"
  shows "\<exists>t. release_after_failures p now rel reason s = (True, t) \<and> gave_up p rel s t \<and>
    fs_state t = fs_state s \<and> fs_current_role t = fs_current_role s \<and> fd_have_odom t = fd_have_odom s \<and>
    fd_plan_failure_relief_rounds t = fd_plan_failure_relief_rounds s"
  using assms
  by (auto simp: release_after_failures_def publishReleaseRequest_def Let_def gave_up_def publish_def
      stagePendingSelfRelease_def clearLegacyPairOptState_def getEffectiveSelfGridIds_def self_state_def
      intro: filter_cong)

lemma gave_up_cong:
  "gave_up p rel s t \<Longrightarrow> fs_out u = fs_out t \<Longrightarrow> fs_current_role u = fs_current_role t \<Longrightarrow>
   ed_swarm_state u = ed_swarm_state t \<Longrightarrow> ed_pending_release_grid_ids u = ed_pending_release_grid_ids t \<Longrightarrow>
   gave_up p rel s u"
proof -
  assume g: "gave_up p rel s t" and u: "fs_out u = fs_out t" "fs_current_role u = fs_current_role t"
    "ed_swarm_state u = ed_swarm_state t" "ed_pending_release_grid_ids u = ed_pending_release_grid_ids t"
  then have "getEffectiveSelfGridIds p u = getEffectiveSelfGridIds p t"
    by (simp add: getEffectiveSelfGridIds_def self_state_def)
  with g u show ?thesis by (simp add: gave_up_def)
qed

lemma release_choice:
  assumes "2 \<le> length grids"
  shows "\<exists>i. 1 \<le> i \<and> i < length grids \<and> selectPlanFailureReleaseGrids w grids False s = [grids ! i]"
proof -
  let ?b = "foldl (release_cost_step (w_grid_vel_cost w (fd_odom_pos s) (fd_odom_vel s)) grids) (1, -1) [1..<length grids]"
  have "1 \<le> fst ?b \<and> fst ?b < length grids"
    by (rule foldl_invariant) (use assms in \<open>auto simp: release_cost_step_def split: prod.splits\<close>)
  moreover have "selectPlanFailureReleaseGrids w grids False s = [grids ! fst ?b]"
    using assms by (auto simp: selectPlanFailureReleaseGrids_def)
  ultimately show ?thesis by blast
qed

text \<open>C40: relief of a drone whose planner keeps failing. It keeps its grids below eight failures in a row,
  while a transaction is staged and within two seconds of the last relief. Otherwise, when a request can
  be published, it gives up all its grids and goes idle from twelve failures on, once two partial
  reliefs are used up or one grid is left; it holds a single grid before that; and else it gives up one
  grid that is not its first, without changing state.\<close>

theorem plan_failure_relief:
  fixes p w now s
  assumes "fs_component_members_initialized s" and "fs_component_leader_id s > 0"
  defines "grids \<equiv> getEffectiveSelfGridIds p s" and "s' \<equiv> relieve_plan_failure p w now s"
  shows "if relief_held p now s then s' = s
    else if fd_consecutive_plan_failures s \<ge> 12 \<and> (fd_plan_failure_relief_rounds s \<ge> 2 \<or> length grids \<le> 1)
    then gave_up p grids s s' \<and> fs_state s' = IDLE \<and> fd_consecutive_plan_failures s' = 0
    else if length grids \<le> 1 then s' = s
    else \<exists>i. 1 \<le> i \<and> i < length grids \<and> gave_up p [grids ! i] s s' \<and> fs_state s' = fs_state s \<and>
      fd_consecutive_plan_failures s' = 4 \<and>
      fd_plan_failure_relief_rounds s' = fd_plan_failure_relief_rounds s + 1"
proof (cases "relief_held p now s")
  case True
  then have "s' = s"
    unfolding s'_def relieve_plan_failure_def relief_held_def Let_def by (simp only: split: if_split) blast
  with True show ?thesis by simp
next
  case live: False
  then have ne: "grids \<noteq> []" by (simp add: relief_held_def grids_def)
  have all: "selectPlanFailureReleaseGrids w grids True s = grids"
    by (simp add: selectPlanFailureReleaseGrids_def)
  consider (full) "fd_consecutive_plan_failures s \<ge> 12 \<and> (fd_plan_failure_relief_rounds s \<ge> 2 \<or> length grids \<le> 1)"
    | (hold) "\<not> (fd_consecutive_plan_failures s \<ge> 12 \<and> (fd_plan_failure_relief_rounds s \<ge> 2 \<or> length grids \<le> 1))"
      "length grids \<le> 1"
    | (one) "\<not> (fd_consecutive_plan_failures s \<ge> 12 \<and> (fd_plan_failure_relief_rounds s \<ge> 2 \<or> length grids \<le> 1))"
      "2 \<le> length grids" by linarith
  then show ?thesis
  proof cases
    case full
    obtain t where t: "release_after_failures p now grids ''repeatedPlanFailureAggressive'' s = (True, t)"
      "gave_up p grids s t" using release_after_gives_up [OF assms(1,2) ne] by blast
    have "s' = requestAggressiveReassign p w now ''repeatedPlanFailureAggressive'' False
        (transitState IDLE (t\<lparr>fd_consecutive_plan_failures := 0, fd_plan_failure_relief_rounds := 0\<rparr>))"
      using full live t(1) all unfolding s'_def relieve_plan_failure_def relief_held_def grids_def [symmetric] Let_def
      by auto
    then have "gave_up p grids s s' \<and> fs_state s' = IDLE \<and> fd_consecutive_plan_failures s' = 0"
      using t(2) by (auto simp: requestAggressiveReassign_def transitState_def Let_def intro: gave_up_cong)
    with full live show ?thesis by simp
  next
    case hold
    with live show ?thesis
      by (auto simp: s'_def relieve_plan_failure_def relief_held_def Let_def grids_def)
  next
    case one
    obtain i where i: "1 \<le> i" "i < length grids" "selectPlanFailureReleaseGrids w grids False s = [grids ! i]"
      using release_choice [OF one(2)] by blast
    obtain t where t: "release_after_failures p now [grids ! i] ''repeatedPlanFailurePartial'' s = (True, t)"
      "gave_up p [grids ! i] s t" "fs_state t = fs_state s"
      "fd_plan_failure_relief_rounds t = fd_plan_failure_relief_rounds s"
      using release_after_gives_up [OF assms(1,2), of "[grids ! i]" p now] by blast
    have "s' = t\<lparr>fd_plan_failure_relief_rounds := fd_plan_failure_relief_rounds t + 1, fd_consecutive_plan_failures := 4\<rparr>"
      using one live t(1) i(3) unfolding s'_def relieve_plan_failure_def relief_held_def grids_def [symmetric] Let_def
      by auto
    then have "gave_up p [grids ! i] s s' \<and> fs_state s' = fs_state s \<and> fd_consecutive_plan_failures s' = 4 \<and>
        fd_plan_failure_relief_rounds s' = fd_plan_failure_relief_rounds s + 1"
      using t by (auto intro: gave_up_cong)
    with one live i show ?thesis by auto
  qed
qed

definition ex_failing :: fsm_state where
  "ex_failing = ex_fsm\<lparr>fd_consecutive_plan_failures := 12,
     ed_swarm_state := [init_drone_state\<lparr>ds_grid_ids := [5]\<rparr>, init_drone_state]\<rparr>"

theorem plan_failure_relief_witness:
  "gave_up ex_fsm_params [5] ex_failing (relieve_plan_failure ex_fsm_params ex_world 20 ex_failing)"
proof -
  have g: "getEffectiveSelfGridIds ex_fsm_params ex_failing = [5]"
    by (simp add: getEffectiveSelfGridIds_def ex_failing_def ex_fsm_def fsm_init_def self_state_def self_index_def
        ex_fsm_params_def fsm_default_params_def)
  have "\<not> relief_held ex_fsm_params 20 ex_failing"
    unfolding relief_held_def g by (simp add: ex_failing_def ex_fsm_def fsm_init_def)
  with plan_failure_relief [where s = ex_failing and p = ex_fsm_params and w = ex_world and now = 20] show ?thesis
    unfolding g by (simp add: ex_failing_def ex_fsm_def fsm_init_def)
qed

section \<open>Grid ids on the wire\<close>

lemma int8_round_trip: "of_int8 (to_int8 i) = i \<longleftrightarrow> - 128 \<le> i \<and> i < 128"
proof -
  have "of_int8 (to_int8 i) = signed_take_bit 7 i"
    by (simp add: of_int8_def to_int8_def sint_sbintrunc')
  moreover have "signed_take_bit 7 i = i \<longleftrightarrow> - 128 \<le> i \<and> i < 128"
    using signed_take_bit_int_eq_self_iff [of 7 i] by simp
  ultimately show ?thesis by simp
qed

lemma observed_set_self: "ed_observed_peer_grid_ids (set_self p d s) = ed_observed_peer_grid_ids s"
  by (simp add: set_self_def)

lemma observed_request:
  "ed_observed_peer_grid_ids (snd (publishAllocationRequest p now reason s)) = ed_observed_peer_grid_ids s"
  by (simp add: publishAllocationRequest_def Let_def publish_def clearLegacyPairOptState_def)

lemma observed_aggressive:
  "ed_observed_peer_grid_ids (requestAggressiveReassign p w now reason imm s) = ed_observed_peer_grid_ids s"
  by (simp add: requestAggressiveReassign_def tryClaimUnallocatedGrids_def Let_def refresh_self_def
      observed_set_self observed_request)

text \<open>A peer reads from a fresh broadcast of a drone exactly the grids it plans with if and only if all
  their ids fit into a signed byte; the field of the message is \<open>int8[]\<close>.\<close>

theorem broadcast_grids_round_trip:
  assumes "peer_index s (fp_drone_id q) = Some i" and "fp_drone_id q \<noteq> fp_drone_id p"
    and "ds_stamp (ed_swarm_state s ! i) + 1 / 10000 < ds_stamp d"
  shows "\<exists>s'. droneStateMsgCallback p w (drone_state_msg q published d) now s = Some s' \<and>
    (ed_observed_peer_grid_ids s' ! i = published \<longleftrightarrow> (\<forall>g \<in> set published. - 128 \<le> g \<and> g < 128))"
proof -
  have i: "i < length (ed_swarm_state s)" using assms(1) by (auto simp: peer_index_def split: if_splits)
  let ?x = "(ed_observed_peer_grid_ids s @
    replicate (length (ed_swarm_state s) - length (ed_observed_peer_grid_ids s)) [])[i := map of_int8 (map to_int8 published)]"
  obtain s' where s': "droneStateMsgCallback p w (drone_state_msg q published d) now s = Some s'"
    "ed_observed_peer_grid_ids s' = ?x"
    using assms by (simp add: droneStateMsgCallback_def drone_state_msg_def Let_def observed_aggressive)
  have "?x ! i = map of_int8 (map to_int8 published)" using i by simp
  moreover have "map of_int8 (map to_int8 published) = published \<longleftrightarrow> (\<forall>g \<in> set published. - 128 \<le> g \<and> g < 128)"
    by (simp add: o_def int8_round_trip map_idI list_eq_iff_nth_eq all_set_conv_all_nth)
  ultimately show ?thesis using s' by auto
qed

theorem broadcast_grids_round_trip_witness:
  "\<exists>s'. droneStateMsgCallback ex_fsm_params ex_world
      (drone_state_msg (fsm_default_params 2 2) [5, 130] (init_drone_state\<lparr>ds_stamp := 10\<rparr>)) 10 ex_fsm = Some s' \<and>
    ed_observed_peer_grid_ids s' ! 1 \<noteq> [5, 130]"
proof -
  have "peer_index ex_fsm (fp_drone_id (fsm_default_params 2 2)) = Some 1"
    by (simp add: peer_index_def ex_fsm_def fsm_init_def ex_fsm_params_def fsm_default_params_def)
  from broadcast_grids_round_trip [OF this, where p = ex_fsm_params and
      d = "init_drone_state\<lparr>ds_stamp := 10\<rparr>" and published = "[5, 130]" and w = ex_world and now = 10]
  show ?thesis
    by (simp add: ex_fsm_def fsm_init_def ex_fsm_params_def fsm_default_params_def init_drone_state_def)
qed

end
