(* ===== verification/Chunk_Ids.thy ===== *)
theory Chunk_Ids imports Relay_Prelude
begin

text \<open>
  The lists of chunk ids of \<open>plan_env/src/multi_map_manager.cpp\<close>: a set of ids is a flat list of the
  bounds of its intervals, in ascending order. The operations work on those bounds; the lemmas show
  that they compute the difference and the union of the sets, and that the lists stay normalised.
\<close>

section \<open>The operations\<close>

text \<open>\<open>findIntersect\<close>: the bounds of the intersection, \<open>None\<close> where the code returns \<open>false\<close>.\<close>

definition findIntersect :: "int \<Rightarrow> int \<Rightarrow> int \<Rightarrow> int \<Rightarrow> (int \<times> int) option" where
  "findIntersect min1 max1 min2 max2 =
     (let minr = max min1 min2; maxr = min max1 max2 in if minr \<le> maxr then Some (minr, maxr) else None)"

text \<open>The gaps behind the intervals of a list; the last one is open.\<close>

fun gaps_after :: "int list \<Rightarrow> int list" where
  "gaps_after (l # r # l2 # rest) = (r + 1) # (l2 - 1) # gaps_after (l2 # rest)"
| "gaps_after [l, r] = [r + 1, int_max]"
| "gaps_after [l] = []"
| "gaps_after [] = []"

definition not_in_other :: "int list \<Rightarrow> int list" where
  "not_in_other other = (if hd other > 1 then [1, hd other - 1] else []) @ gaps_after other"

fun intersect_one :: "int \<Rightarrow> int \<Rightarrow> int list \<Rightarrow> int list" where
  "intersect_one a b (l # r # rest) =
     (case findIntersect a b l r of Some (minr, maxr) \<Rightarrow> minr # maxr # intersect_one a b rest
      | None \<Rightarrow> intersect_one a b rest)"
| "intersect_one a b _ = []"

fun intersect_ids :: "int list \<Rightarrow> int list \<Rightarrow> int list" where
  "intersect_ids (a # b # rest) ys = intersect_one a b ys @ intersect_ids rest ys"
| "intersect_ids _ ys = []"

definition findMissedChunkIds :: "int list \<Rightarrow> int list \<Rightarrow> int list" where
  "findMissedChunkIds self_idx_list other_idx_list =
     (if other_idx_list = [] then self_idx_list
      else intersect_ids self_idx_list (not_in_other other_idx_list))"

text \<open>One round of \<open>mergeChunkIds\<close>: widen the intervals that meet the new one, otherwise insert it at
  its place, then join neighbours. Without a gap for it the insertion loop of the code would run past
  the end; \<open>insert_gap_ids\<close> below shows that an ascending list always has one.\<close>

fun meets :: "int \<Rightarrow> int \<Rightarrow> int list \<Rightarrow> bool" where
  "meets a b (l # r # rest) = (findIntersect l r a b \<noteq> None \<or> meets a b rest)"
| "meets a b _ = False"

fun widen :: "int \<Rightarrow> int \<Rightarrow> int list \<Rightarrow> int list" where
  "widen a b (l # r # rest) =
     (if findIntersect l r a b \<noteq> None then min l a # max r b # widen a b rest else l # r # widen a b rest)"
| "widen a b xs = xs"

fun insert_gap :: "int \<Rightarrow> int \<Rightarrow> int list \<Rightarrow> int list" where
  "insert_gap a b (l # r # l2 # rest) =
     (if r < a \<and> l2 > b then l # r # a # b # l2 # rest else l # r # insert_gap a b (l2 # rest))"
| "insert_gap a b xs = xs"

definition insert_interval :: "int \<Rightarrow> int \<Rightarrow> int list \<Rightarrow> int list" where
  "insert_interval a b output =
     (if b < hd output then a # b # output
      else if a > last output then output @ [a, b]
      else insert_gap a b output)"

fun remove_redundant :: "int list \<Rightarrow> int list" where
  "remove_redundant (l # r # l2 # r2 # rest) =
     (if r \<ge> l2 - 1 then remove_redundant (l # r2 # rest) else l # r # remove_redundant (l2 # r2 # rest))"
| "remove_redundant xs = xs"

definition merge_interval :: "int \<Rightarrow> int \<Rightarrow> int list \<Rightarrow> int list" where
  "merge_interval a b output =
     remove_redundant (if meets a b output then widen a b output else insert_interval a b output)"

fun merge_intervals :: "int list \<Rightarrow> int list \<Rightarrow> int list" where
  "merge_intervals (a # b # rest) output = merge_intervals rest (merge_interval a b output)"
| "merge_intervals _ output = output"

definition mergeChunkIds :: "int list \<Rightarrow> int list \<Rightarrow> int list" where
  "mergeChunkIds list1 list2 = (if list1 = [] then list2 else merge_intervals list2 list1)"

section \<open>The sets they stand for\<close>

fun ids_of :: "int list \<Rightarrow> int set" where
  "ids_of (l # r # rest) = {l..r} \<union> ids_of rest"
| "ids_of _ = {}"

text \<open>Normalised: proper intervals, ascending, with at least one id missing between two of them.\<close>

fun wf_ids :: "int list \<Rightarrow> bool" where
  "wf_ids [] = True"
| "wf_ids [l] = False"
| "wf_ids [l, r] = (l \<le> r)"
| "wf_ids (l # r # l2 # rest) = (l \<le> r \<and> r + 1 < l2 \<and> wf_ids (l2 # rest))"

text \<open>Ascending, but possibly with overlaps, as after a widening.\<close>

fun ascending_ids :: "int list \<Rightarrow> bool" where
  "ascending_ids [] = True"
| "ascending_ids [l] = False"
| "ascending_ids (l # r # rest) =
     (l \<le> r \<and> (case rest of l2 # r2 # _ \<Rightarrow> l \<le> l2 \<and> r \<le> r2 | _ \<Rightarrow> True) \<and> ascending_ids rest)"

lemma wf_ids_Cons: "wf_ids (l # r # rest) \<longleftrightarrow> l \<le> r \<and> (rest = [] \<or> r + 1 < hd rest) \<and> wf_ids rest"
  by (cases rest) auto

lemma wf_ids_lower: "wf_ids (l # r # rest) \<Longrightarrow> x \<in> ids_of rest \<Longrightarrow> r + 1 < x"
proof (induction rest arbitrary: l r rule: ids_of.induct)
  case (1 l2 r2 rest)
  then show ?case using "1.IH" [of l2 r2] by (fastforce simp: wf_ids_Cons)
qed auto

subsection \<open>Difference\<close>

lemma ids_intersect_one: "ids_of (intersect_one a b ys) = {a..b} \<inter> ids_of ys"
  by (induction a b ys rule: intersect_one.induct)
    (auto simp: findIntersect_def Let_def split: option.splits if_splits)

lemma ids_of_append: "even (length xs) \<Longrightarrow> ids_of (xs @ ys) = ids_of xs \<union> ids_of ys"
  by (induction xs rule: ids_of.induct) auto

lemma even_intersect_one: "even (length (intersect_one a b ys))"
  by (induction a b ys rule: intersect_one.induct) (auto split: option.split)

lemma ids_intersect: "ids_of (intersect_ids xs ys) = ids_of xs \<inter> ids_of ys"
  by (induction xs ys rule: intersect_ids.induct)
    (auto simp: ids_of_append even_intersect_one ids_intersect_one)

lemma ids_gaps_after:
  assumes "wf_ids (l # r # rest)" and "ids_of (l # r # rest) \<subseteq> {..<int_max}"
  shows "ids_of (gaps_after (l # r # rest)) = {r<..int_max} - ids_of rest"
  using assms
proof (induction rest arbitrary: l r rule: ids_of.induct)
  case (1 l2 r2 rest)
  then have wf: "wf_ids (l2 # r2 # rest)" "l \<le> r" "r + 1 < l2" "l2 \<le> r2" "r2 < int_max"
    by (auto simp: wf_ids_Cons)
  have "ids_of (gaps_after (l # r # l2 # r2 # rest)) = {r + 1..l2 - 1} \<union> ({r2<..int_max} - ids_of rest)"
    using "1.IH" [of l2 r2] "1.prems"(2) wf(1) by simp
  also have "\<dots> = {r<..int_max} - ids_of (l2 # r2 # rest)"
    using wf wf_ids_lower [OF wf(1)] by fastforce
  finally show ?case .
qed auto

lemma ids_not_in_other:
  assumes "wf_ids other" and "other \<noteq> []" and "ids_of other \<subseteq> {1..<int_max}"
  shows "ids_of (not_in_other other) = {1..int_max} - ids_of other"
proof -
  obtain l r rest where o: "other = l # r # rest" using assms(1,2) by (cases other rule: ids_of.cases) auto
  have lr: "1 \<le> l" "l \<le> r" using assms(1,3) by (auto simp: o wf_ids_Cons)
  have "ids_of (not_in_other other) = {1..l - 1} \<union> ids_of (gaps_after other)"
    using lr by (auto simp: not_in_other_def o)
  also have "\<dots> = {1..l - 1} \<union> ({r<..int_max} - ids_of rest)"
    using ids_gaps_after [of l r rest] assms(1,3) by (force simp: o)
  also have "\<dots> = {1..int_max} - ids_of other"
    using lr wf_ids_lower [of l r rest] assms(1,3) by (fastforce simp: o)
  finally show ?thesis .
qed

lemma ids_missed:
  assumes "wf_ids other" and "ids_of other \<subseteq> {1..<int_max}" and "ids_of xs \<subseteq> {1..<int_max}"
  shows "ids_of (findMissedChunkIds xs other) = ids_of xs - ids_of other"
proof (cases "other = []")
  case False
  with assms ids_not_in_other [OF assms(1) False assms(2)] show ?thesis
    by (auto simp: findMissedChunkIds_def ids_intersect)
qed (simp add: findMissedChunkIds_def)

subsection \<open>Union\<close>

lemma findIntersect_iff: "findIntersect l r a b \<noteq> None \<longleftrightarrow> max l a \<le> min r b"
  by (simp add: findIntersect_def Let_def)

lemma meets_Cons [simp]:
  "meets a b (l # r # rest) \<longleftrightarrow> max l a \<le> min r b \<or> meets a b rest"
  by (simp only: meets.simps findIntersect_iff)

lemma widen_Cons [simp]:
  "widen a b (l # r # rest) =
   (if max l a \<le> min r b then min l a # max r b # widen a b rest else l # r # widen a b rest)"
  by (simp only: widen.simps findIntersect_iff)

declare meets.simps(1) [simp del] widen.simps(1) [simp del]

lemma wf_ascending: "wf_ids xs \<Longrightarrow> ascending_ids xs"
  by (induction xs rule: ids_of.induct) (auto simp: wf_ids_Cons split: list.split)

lemma remove_redundant_ok:
  "ascending_ids xs \<Longrightarrow> wf_ids (remove_redundant xs) \<and> ids_of (remove_redundant xs) = ids_of xs \<and>
   (xs \<noteq> [] \<longrightarrow> remove_redundant xs \<noteq> [] \<and> hd (remove_redundant xs) = hd xs)"
proof (induction xs rule: remove_redundant.induct)
  case (1 l r l2 r2 rest)
  show ?case
  proof (cases "r \<ge> l2 - 1")
    case True
    from "1.prems" have "ascending_ids (l # r2 # rest)"
      by (auto split: list.splits)
    moreover have "{l..r} \<union> {l2..r2} = {l..r2}" using "1.prems" True by auto
    ultimately show ?thesis using "1.IH"(1) [OF True] True by auto
  next
    case False
    with "1.IH"(2) [OF False] "1.prems" show ?thesis by (auto simp: wf_ids_Cons)
  qed
qed auto

lemma hull_of_meeting:
  fixes l r a b :: int
  shows "max l a \<le> min r b \<Longrightarrow> {min l a..max r b} = {l..r} \<union> {a..b}"
  by auto

lemma ids_widen_bounds:
  "ids_of xs \<subseteq> ids_of (widen a b xs) \<and> ids_of (widen a b xs) \<subseteq> ids_of xs \<union> {a..b}"
proof (induction a b xs rule: widen.induct)
  case (1 a b l r rest)
  show ?case
  proof (cases "max l a \<le> min r b")
    case True
    with "1.IH"(1) show ?thesis
      using hull_of_meeting [OF True] by (simp only: widen_Cons if_True ids_of.simps findIntersect_iff) blast
  next
    case False
    with "1.IH"(2) show ?thesis by (simp only: widen_Cons if_False ids_of.simps findIntersect_iff) blast
  qed
qed auto

lemma ids_widen_meets:
  "meets a b xs \<Longrightarrow> {a..b} \<subseteq> ids_of (widen a b xs)"
  by (induction a b xs rule: widen.induct) auto

lemma ids_widen:
  assumes "meets a b xs" and "wf_ids xs" and "a \<le> b"
  shows "ids_of (widen a b xs) = ids_of xs \<union> {a..b}"
  using ids_widen_bounds [of xs a b] ids_widen_meets [OF assms(1)] by blast

lemma widen_ascending: "a \<le> b \<Longrightarrow> wf_ids xs \<Longrightarrow> ascending_ids (widen a b xs)"
proof (induction a b xs rule: widen.induct)
  case (1 a b l r rest)
  then have IH: "ascending_ids (widen a b rest)" and lr: "l \<le> r" "wf_ids rest"
    by (auto simp: wf_ids_Cons)
  show ?case
  proof (cases rest rule: ids_of.cases)
    case (1 l2 r2 rest')
    with \<open>wf_ids (l # r # rest)\<close> have "r + 1 < l2" "l2 \<le> r2" by (auto simp: wf_ids_Cons)
    with lr \<open>a \<le> b\<close> IH 1 show ?thesis by auto
  qed (use lr in auto)
qed auto

lemma insert_gap_ok:
  "wf_ids (l # r # rest) \<Longrightarrow> \<not> meets a b (l # r # rest) \<Longrightarrow> a \<le> b \<Longrightarrow> r < a \<Longrightarrow> a \<le> last (r # rest) \<Longrightarrow>
   ascending_ids (insert_gap a b (l # r # rest)) \<and>
   ids_of (insert_gap a b (l # r # rest)) = ids_of (l # r # rest) \<union> {a..b}"
proof (induction rest arbitrary: l r rule: ids_of.induct)
  case (1 l2 r2 rest)
  have wf: "l \<le> r" "r + 1 < l2" "l2 \<le> r2" "wf_ids (l2 # r2 # rest)"
    using "1.prems"(1) by (auto simp: wf_ids_Cons)
  show ?case
  proof (cases "b < l2")
    case True
    with wf wf_ascending [OF wf(4)] \<open>r < a\<close> \<open>a \<le> b\<close> show ?thesis by auto
  next
    case False
    with "1.prems"(2-4) wf have "r2 < a" by auto
    moreover have "a \<le> last (r2 # rest)" using "1.prems"(5) by simp
    ultimately have *: "ascending_ids (insert_gap a b (l2 # r2 # rest)) \<and>
        ids_of (insert_gap a b (l2 # r2 # rest)) = ids_of (l2 # r2 # rest) \<union> {a..b}"
      using "1.IH" [of l2 r2] "1.prems"(2,3) wf(4) by auto
    have "insert_gap a b (l # r # l2 # r2 # rest) = l # r # insert_gap a b (l2 # r2 # rest)"
      using False by auto
    moreover obtain tl where "insert_gap a b (l2 # r2 # rest) = l2 # r2 # tl"
      by (cases rest; cases "r2 < a \<and> b < hd rest") auto
    ultimately show ?thesis using * wf by auto
  qed
qed auto

lemma insert_interval_ok:
  assumes wf: "wf_ids xs" "xs \<noteq> []" and no: "\<not> meets a b xs" and ab: "a \<le> b"
  shows "ascending_ids (insert_interval a b xs) \<and> ids_of (insert_interval a b xs) = ids_of xs \<union> {a..b}"
proof -
  obtain l r rest where xs: "xs = l # r # rest" using wf by (cases xs rule: ids_of.cases) auto
  have app: "ascending_ids (xs @ [a, b]) \<and> ids_of (xs @ [a, b]) = ids_of xs \<union> {a..b}" if "last xs < a"
    using wf that
  proof (induction xs rule: ids_of.induct)
    case (1 l r rest)
    with ab show ?case by (cases rest rule: ids_of.cases) (auto simp: wf_ids_Cons)
  qed auto
  have asc: "ascending_ids xs" by (rule wf_ascending [OF wf(1)])
  have lr: "l \<le> r" using wf(1) by (simp add: xs wf_ids_Cons)
  consider (front) "b < l" | (behind) "\<not> b < l" "last xs < a" | (between) "\<not> b < l" "\<not> last xs < a" by blast
  then show ?thesis
  proof cases
    case front
    with asc ab lr show ?thesis by (simp add: insert_interval_def xs Un_commute)
  next
    case behind
    then have "insert_interval a b xs = xs @ [a, b]" by (simp add: insert_interval_def xs)
    with app behind show ?thesis by simp
  next
    case between
    have "r < a" using no between(1) ab lr by (simp add: xs)
    moreover have "a \<le> last (r # rest)" using between(2) by (simp add: xs)
    moreover have "insert_interval a b xs = insert_gap a b xs"
      using between by (simp add: insert_interval_def xs)
    ultimately show ?thesis
      using insert_gap_ok [of l r rest a b] wf(1) no ab unfolding xs by metis
  qed
qed

lemma merge_interval_ok:
  assumes "wf_ids xs" and "xs \<noteq> []" and "a \<le> b"
  shows "wf_ids (merge_interval a b xs) \<and> merge_interval a b xs \<noteq> [] \<and>
    ids_of (merge_interval a b xs) = ids_of xs \<union> {a..b}"
proof (cases "meets a b xs")
  case True
  with remove_redundant_ok [OF widen_ascending [OF assms(3,1)]] ids_widen [OF True assms(1,3)] assms(3)
  show ?thesis by (auto simp: merge_interval_def)
next
  case False
  with insert_interval_ok [OF assms(1,2) False assms(3)]
    remove_redundant_ok [of "insert_interval a b xs"] assms(3)
  show ?thesis by (auto simp: merge_interval_def)
qed

lemma merge_intervals_ok:
  "wf_ids ys \<Longrightarrow> wf_ids xs \<Longrightarrow> xs \<noteq> [] \<Longrightarrow>
   wf_ids (merge_intervals ys xs) \<and> ids_of (merge_intervals ys xs) = ids_of xs \<union> ids_of ys"
proof (induction ys xs rule: merge_intervals.induct)
  case (1 a b rest out)
  then show ?case using merge_interval_ok [of out a b] by (auto simp: wf_ids_Cons)
qed auto

lemma ids_merge:
  assumes "wf_ids xs" and "wf_ids ys"
  shows "wf_ids (mergeChunkIds xs ys) \<and> ids_of (mergeChunkIds xs ys) = ids_of xs \<union> ids_of ys"
  using merge_intervals_ok [OF assms(2,1)] assms(2) by (auto simp: mergeChunkIds_def)

subsection \<open>The missed ids as a list\<close>

lemma even_wf_ids: "wf_ids xs \<Longrightarrow> even (length xs)"
  by (induction xs rule: ids_of.induct) (auto simp: wf_ids_Cons)

lemma merge_chunk_ids_nonempty: "wf_ids xs \<Longrightarrow> wf_ids ys \<Longrightarrow> xs \<noteq> [] \<Longrightarrow> mergeChunkIds xs ys \<noteq> []"
proof -
  assume wf: "wf_ids xs" "wf_ids ys" "xs \<noteq> []"
  then obtain l r rest where "xs = l # r # rest" "l \<le> r" by (cases xs rule: ids_of.cases) (auto simp: wf_ids_Cons)
  then have "l \<in> ids_of (mergeChunkIds xs ys)" using ids_merge [OF wf(1,2)] by auto
  then show ?thesis by auto
qed

end
