(* ===== verification/Voxel_Map.thy ===== *)
theory Voxel_Map imports Relay_Prelude
begin

text \<open>
  The voxel map of \<open>plan_env\<close>: the parameters and buffers of \<open>SDFMap\<close> (\<open>sdf_map.h\<close>), its index
  arithmetic and queries, and the creation of the map by \<open>initMap\<close>. A \<open>std::vector\<close> indexed by a
  voxel address is a list; \<open>Eigen::Vector3i\<close> and \<open>Eigen::Vector3d\<close> are triples. Addresses are exact
  integers: the code's products of at most three dimensions are taken not to overflow an \<open>int\<close>.
\<close>

section \<open>Vectors\<close>

type_synonym idx3 = "int \<times> int \<times> int"
type_synonym vec3 = "real \<times> real \<times> real"

definition map3 :: "('a \<Rightarrow> 'b) \<Rightarrow> 'a \<times> 'a \<times> 'a \<Rightarrow> 'b \<times> 'b \<times> 'b" where
  "map3 f v = (case v of (x, y, z) \<Rightarrow> (f x, f y, f z))"

definition zip3 :: "('a \<Rightarrow> 'b \<Rightarrow> 'c) \<Rightarrow> 'a \<times> 'a \<times> 'a \<Rightarrow> 'b \<times> 'b \<times> 'b \<Rightarrow> 'c \<times> 'c \<times> 'c" where
  "zip3 f v w = (case v of (x, y, z) \<Rightarrow> (case w of (a, b, c) \<Rightarrow> (f x a, f y b, f z c)))"

definition all3 :: "('a \<Rightarrow> 'b \<Rightarrow> bool) \<Rightarrow> 'a \<times> 'a \<times> 'a \<Rightarrow> 'b \<times> 'b \<times> 'b \<Rightarrow> bool" where
  "all3 P v w \<longleftrightarrow> (case v of (x, y, z) \<Rightarrow> (case w of (a, b, c) \<Rightarrow> P x a \<and> P y b \<and> P z c))"

lemma map3_simp [simp]: "map3 f (x, y, z) = (f x, f y, f z)"
  by (simp add: map3_def)

lemma zip3_simp [simp]: "zip3 f (x, y, z) (a, b, c) = (f x a, f y b, f z c)"
  by (simp add: zip3_def)

lemma all3_simp [simp]: "all3 P (x, y, z) (a, b, c) \<longleftrightarrow> P x a \<and> P y b \<and> P z c"
  by (simp add: all3_def)

section \<open>Parameters and data\<close>

record MapParam =
  map_origin :: vec3
  map_size :: vec3
  map_min_boundary :: vec3
  map_max_boundary :: vec3
  map_voxel_num :: idx3
  resolution :: real
  resolution_inv :: real
  obstacles_inflation :: real
  local_bound_inflate :: real
  ground_height :: real
  max_ray_length :: real
  default_dist :: real
  prob_hit_log :: real
  prob_miss_log :: real
  clamp_min_log :: real
  clamp_max_log :: real
  min_occupancy_log :: real
  unknown_flag :: real
  optimistic :: bool
  signed_dist :: bool
  box_mind :: vec3
  box_maxd :: vec3
  box_min :: idx3
  box_max :: idx3

record MapData =
  occupancy_buffer :: "real list"
  occupancy_buffer_inflate :: "int list"
  distance_buffer_neg :: "real list"
  distance_buffer :: "real list"
  tmp_buffer1 :: "real list"
  tmp_buffer2 :: "real list"
  count_hit :: "int list"
  count_miss :: "int list"
  flag_rayend :: "int list"
  raycast_num :: int
  cache_voxel :: "int list"
  local_bound_min :: idx3
  local_bound_max :: idx3
  update_min :: vec3
  update_max :: vec3
  all_min :: vec3
  all_max :: vec3
  reset_updated_box :: bool

datatype OCCUPANCY = UNKNOWN | FREE | OCCUPIED

section \<open>Index arithmetic\<close>

definition posToIndex :: "MapParam \<Rightarrow> vec3 \<Rightarrow> idx3" where
  "posToIndex p pos = zip3 (\<lambda>x org. \<lfloor>(x - org) * resolution_inv p\<rfloor>) pos (map_origin p)"

definition indexToPos :: "MapParam \<Rightarrow> idx3 \<Rightarrow> vec3" where
  "indexToPos p i = zip3 (\<lambda>k org. (real_of_int k + 1 / 2) * resolution p + org) i (map_origin p)"

definition boundIndex :: "MapParam \<Rightarrow> idx3 \<Rightarrow> idx3" where
  "boundIndex p i = zip3 (\<lambda>k n. max (min k (n - 1)) 0) i (map_voxel_num p)"

definition toAddress :: "MapParam \<Rightarrow> idx3 \<Rightarrow> int" where
  "toAddress p i = (case i of (x, y, z) \<Rightarrow> case map_voxel_num p of (nx, ny, nz) \<Rightarrow>
     x * ny * nz + y * nz + z)"

text \<open>\<open>MultiMapManager::adrToIndex\<close>.\<close>

definition adrToIndex :: "MapParam \<Rightarrow> int \<Rightarrow> idx3" where
  "adrToIndex p adr = (case map_voxel_num p of (nx, ny, nz) \<Rightarrow>
     let a = ny * nz; b = nz; tmp_adr = adr mod a in (adr div a, tmp_adr div b, tmp_adr mod b))"

definition isInMapPos :: "MapParam \<Rightarrow> vec3 \<Rightarrow> bool" where
  "isInMapPos p pos =
     (all3 (\<lambda>x lo. \<not> x < lo + 1 / 10000) pos (map_min_boundary p) \<and>
      all3 (\<lambda>x hi. \<not> x > hi - 1 / 10000) pos (map_max_boundary p))"

definition isInMap :: "MapParam \<Rightarrow> idx3 \<Rightarrow> bool" where
  "isInMap p i = all3 (\<lambda>k n. \<not> k < 0 \<and> \<not> k > n - 1) i (map_voxel_num p)"

definition isInBox :: "MapParam \<Rightarrow> idx3 \<Rightarrow> bool" where
  "isInBox p i = (all3 (\<lambda>k lo. \<not> k < lo) i (box_min p) \<and> all3 (\<lambda>k hi. \<not> k \<ge> hi) i (box_max p))"

definition isInBoxPos :: "MapParam \<Rightarrow> vec3 \<Rightarrow> bool" where
  "isInBoxPos p pos = (all3 (\<lambda>x lo. \<not> x \<le> lo) pos (box_mind p) \<and> all3 (\<lambda>x hi. \<not> x \<ge> hi) pos (box_maxd p))"

definition boundBox :: "MapParam \<Rightarrow> vec3 \<Rightarrow> vec3 \<Rightarrow> vec3 \<times> vec3" where
  "boundBox p low up = (zip3 max low (box_mind p), zip3 min up (box_maxd p))"

definition getVoxelNum :: "MapParam \<Rightarrow> int" where
  "getVoxelNum p = (case map_voxel_num p of (nx, ny, nz) \<Rightarrow> nx * ny * nz)"

section \<open>Queries\<close>

text \<open>\<open>None\<close> is the answer \<open>-1\<close> for an index outside the map.\<close>

definition getOccupancy :: "MapParam \<Rightarrow> MapData \<Rightarrow> idx3 \<Rightarrow> OCCUPANCY option" where
  "getOccupancy p d i =
     (if \<not> isInMap p i then None
      else let occ = occupancy_buffer d ! nat (toAddress p i) in
        if occ < clamp_min_log p - 1 / 1000 then Some UNKNOWN
        else if occ > min_occupancy_log p then Some OCCUPIED
        else Some FREE)"

definition getInflateOccupancy :: "MapParam \<Rightarrow> MapData \<Rightarrow> idx3 \<Rightarrow> int" where
  "getInflateOccupancy p d i =
     (if \<not> isInMap p i then - 1 else occupancy_buffer_inflate d ! nat (toAddress p i))"

definition getDistance :: "MapParam \<Rightarrow> MapData \<Rightarrow> idx3 \<Rightarrow> real" where
  "getDistance p d i = (if \<not> isInMap p i then - 1 else distance_buffer d ! nat (toAddress p i))"

definition setOccupied :: "MapParam \<Rightarrow> vec3 \<Rightarrow> int \<Rightarrow> MapData \<Rightarrow> MapData" where
  "setOccupied p pos occ d =
     (if \<not> isInMapPos p pos then d
      else d\<lparr>occupancy_buffer_inflate :=
        (occupancy_buffer_inflate d)[nat (toAddress p (posToIndex p pos)) := occ]\<rparr>)"

definition getUpdatedBox :: "bool \<Rightarrow> MapData \<Rightarrow> (vec3 \<times> vec3) \<times> MapData" where
  "getUpdatedBox reset d =
     ((update_min d, update_max d), if reset then d\<lparr>reset_updated_box := True\<rparr> else d)"

text \<open>\<open>getDistWithGrad\<close>: trilinear interpolation of the distances of the eight nearest voxels, with its
  gradient.\<close>

definition lerp :: "real \<Rightarrow> real \<Rightarrow> real \<Rightarrow> real" where
  "lerp t a b = (1 - t) * a + t * b"

definition trilinear :: "(int \<Rightarrow> int \<Rightarrow> int \<Rightarrow> real) \<Rightarrow> vec3 \<Rightarrow> real" where
  "trilinear values diff = (case diff of (dx, dy, dz) \<Rightarrow>
     let v00 = lerp dx (values 0 0 0) (values 1 0 0); v01 = lerp dx (values 0 0 1) (values 1 0 1);
         v10 = lerp dx (values 0 1 0) (values 1 1 0); v11 = lerp dx (values 0 1 1) (values 1 1 1);
         v0 = lerp dy v00 v10; v1 = lerp dy v01 v11
     in lerp dz v0 v1)"

definition trilinear_grad :: "real \<Rightarrow> (int \<Rightarrow> int \<Rightarrow> int \<Rightarrow> real) \<Rightarrow> vec3 \<Rightarrow> vec3" where
  "trilinear_grad res_inv values diff = (case diff of (dx, dy, dz) \<Rightarrow>
     let v00 = lerp dx (values 0 0 0) (values 1 0 0); v01 = lerp dx (values 0 0 1) (values 1 0 1);
         v10 = lerp dx (values 0 1 0) (values 1 1 0); v11 = lerp dx (values 0 1 1) (values 1 1 1);
         v0 = lerp dy v00 v10; v1 = lerp dy v01 v11;
         g2 = (v1 - v0) * res_inv;
         g1 = lerp dz (v10 - v00) (v11 - v01) * res_inv;
         g0 = (1 - dz) * (1 - dy) * (values 1 0 0 - values 0 0 0);
         g0 = g0 + (1 - dz) * dy * (values 1 1 0 - values 0 1 0);
         g0 = g0 + dz * (1 - dy) * (values 1 0 1 - values 0 0 1);
         g0 = g0 + dz * dy * (values 1 1 1 - values 0 1 1)
     in (g0 * res_inv, g1, g2))"

definition surrounding :: "MapParam \<Rightarrow> MapData \<Rightarrow> vec3 \<Rightarrow> (int \<Rightarrow> int \<Rightarrow> int \<Rightarrow> real) \<times> vec3" where
  "surrounding p d pos =
     (let pos_m = map3 (\<lambda>x. x - 1 / 2 * resolution p) pos;
          idx = posToIndex p pos_m;
          diff = zip3 (\<lambda>x i. (x - i) * resolution_inv p) pos (indexToPos p idx)
      in ((\<lambda>x y z. getDistance p d (zip3 (+) idx (x, y, z))), diff))"

definition getDistWithGrad :: "MapParam \<Rightarrow> MapData \<Rightarrow> vec3 \<Rightarrow> real \<times> vec3" where
  "getDistWithGrad p d pos =
     (if \<not> isInMapPos p pos then (0, (0, 0, 0))
      else case surrounding p d pos of (values, diff) \<Rightarrow>
        (trilinear values diff, trilinear_grad (resolution_inv p) values diff))"

section \<open>Creating the map\<close>

text \<open>The ROS parameters that \<open>initMap\<close> reads.\<close>

record sdf_config =
  cfg_resolution :: real
  cfg_size :: vec3
  cfg_obstacles_inflation :: real
  cfg_local_bound_inflate :: real
  cfg_ground_height :: real
  cfg_default_dist :: real
  cfg_optimistic :: bool
  cfg_signed_dist :: bool
  cfg_p_hit :: real
  cfg_p_miss :: real
  cfg_p_min :: real
  cfg_p_max :: real
  cfg_p_occ :: real
  cfg_max_ray_length :: real
  cfg_box :: "(vec3 \<times> vec3) option"

definition logit :: "real \<Rightarrow> real" where
  "logit x = ln (x / (1 - x))"

definition init_params :: "sdf_config \<Rightarrow> MapParam" where
  "init_params c =
     (let res = cfg_resolution c;
          org = (case cfg_size c of (sx, sy, sz) \<Rightarrow> (- sx / 2, - sy / 2, cfg_ground_height c));
          hi = zip3 (+) org (cfg_size c);
          p = \<lparr>map_origin = org, map_size = cfg_size c, map_min_boundary = org, map_max_boundary = hi,
               map_voxel_num = map3 (\<lambda>s. \<lceil>s / res\<rceil>) (cfg_size c),
               resolution = res, resolution_inv = 1 / res,
               obstacles_inflation = cfg_obstacles_inflation c,
               local_bound_inflate = max res (cfg_local_bound_inflate c),
               ground_height = cfg_ground_height c, max_ray_length = cfg_max_ray_length c,
               default_dist = cfg_default_dist c,
               prob_hit_log = logit (cfg_p_hit c), prob_miss_log = logit (cfg_p_miss c),
               clamp_min_log = logit (cfg_p_min c), clamp_max_log = logit (cfg_p_max c),
               min_occupancy_log = logit (cfg_p_occ c), unknown_flag = 1 / 100,
               optimistic = cfg_optimistic c, signed_dist = cfg_signed_dist c,
               box_mind = (case cfg_box c of None \<Rightarrow> org | Some b \<Rightarrow> fst b),
               box_maxd = (case cfg_box c of None \<Rightarrow> hi | Some b \<Rightarrow> snd b),
               box_min = (0, 0, 0), box_max = (0, 0, 0)\<rparr>
      in p\<lparr>box_min := posToIndex p (box_mind p), box_max := posToIndex p (box_maxd p)\<rparr>)"

text \<open>The boxes that the code leaves uninitialised (\<open>local_bound_min_\<close> and its companions are written by
  the first cloud) are an argument.\<close>

definition init_data :: "MapParam \<Rightarrow> (idx3 \<times> idx3) \<times> (vec3 \<times> vec3) \<Rightarrow> MapData" where
  "init_data p u =
     (let n = nat (getVoxelNum p) in
      \<lparr>occupancy_buffer = replicate n (clamp_min_log p - unknown_flag p),
       occupancy_buffer_inflate = replicate n 0,
       distance_buffer_neg = replicate n (default_dist p),
       distance_buffer = replicate n (default_dist p),
       tmp_buffer1 = replicate n 0, tmp_buffer2 = replicate n 0,
       count_hit = replicate n 0, count_miss = replicate n 0,
       flag_rayend = replicate n (- 1), raycast_num = 0, cache_voxel = [],
       local_bound_min = fst (fst u), local_bound_max = snd (fst u),
       update_min = fst (snd u), update_max = snd (snd u),
       all_min = (1000000, 1000000, 1000000), all_max = (- 1000000, - 1000000, - 1000000),
       reset_updated_box = True\<rparr>)"

section \<open>Index lemmas\<close>

text \<open>A map has at least one voxel on every axis, and an \<open>int\<close> number of them.\<close>

definition dims_ok :: "MapParam \<Rightarrow> bool" where
  "dims_ok p \<longleftrightarrow> all3 (\<lambda>n one. one \<le> n \<and> n \<le> int_max) (map_voxel_num p) (1, 1, 1)"

text \<open>The contract of an addressing scheme: a bijection between the valid indices and the addresses
  below the size of the buffers.\<close>

locale addressing =
  fixes ok :: "'c \<Rightarrow> bool" and valid :: "'c \<Rightarrow> 'i \<Rightarrow> bool" and size_of :: "'c \<Rightarrow> int"
    and encode :: "'c \<Rightarrow> 'i \<Rightarrow> int" and decode :: "'c \<Rightarrow> int \<Rightarrow> 'i"
  assumes encode_bounds: "ok c \<Longrightarrow> valid c i \<Longrightarrow> 0 \<le> encode c i \<and> encode c i < size_of c"
    and decode_encode: "ok c \<Longrightarrow> valid c i \<Longrightarrow> decode c (encode c i) = i"
    and decode_valid: "ok c \<Longrightarrow> 0 \<le> a \<Longrightarrow> a < size_of c \<Longrightarrow> valid c (decode c a) \<and> encode c (decode c a) = a"
begin

lemma encode_inj: "ok c \<Longrightarrow> valid c i \<Longrightarrow> valid c j \<Longrightarrow> encode c i = encode c j \<Longrightarrow> i = j"
  by (metis decode_encode)

lemma encode_bij: "ok c \<Longrightarrow> bij_betw (encode c) {i. valid c i} {0..<size_of c}"
  by (rule bij_betw_byWitness [where f' = "decode c"])
    (use encode_bounds decode_encode decode_valid in auto)

lemma nat_encode_less: "ok c \<Longrightarrow> valid c i \<Longrightarrow> length xs = nat (size_of c) \<Longrightarrow> nat (encode c i) < length xs"
  using encode_bounds [of c i] by simp

lemma nat_encode_inj:
  "ok c \<Longrightarrow> valid c i \<Longrightarrow> valid c j \<Longrightarrow> nat (encode c i) = nat (encode c j) \<longleftrightarrow> i = j"
  using encode_bounds [of c i] encode_bounds [of c j] encode_inj [of c i j] by auto

lemma nth_update:
  assumes "ok c" "valid c i" "valid c j" "length xs = nat (size_of c)"
  shows "xs[nat (encode c i) := v] ! nat (encode c j) = (if i = j then v else xs ! nat (encode c j))"
  using nat_encode_less [OF assms(1,2,4)] nat_encode_inj [OF assms(1-3)] by auto

text \<open>A loop that writes one value per index of a list fills exactly these cells.\<close>

lemma length_fold_write [simp]: "length (fold (\<lambda>i b. b[nat (encode c i) := g i]) is xs) = length xs"
  by (induction "is" arbitrary: xs) auto

lemma fold_write:
  assumes "ok c" "\<forall>i \<in> set is. valid c i" "valid c j" "length xs = nat (size_of c)"
  shows "fold (\<lambda>i b. b[nat (encode c i) := g i]) is xs ! nat (encode c j) =
    (if j \<in> set is then g j else xs ! nat (encode c j))"
  using assms(2,4)
proof (induction "is" arbitrary: xs)
  case (Cons i "is")
  then show ?case using nth_update [OF assms(1) _ assms(3), of i xs "g i"] by auto
qed simp

end

lemma mixed_radix_bounds:
  fixes x y z :: int
  assumes "0 \<le> x" "x < nx" "0 \<le> y" "y < ny" "0 \<le> z" "z < nz"
  shows "0 \<le> x * ny * nz + y * nz + z" and "x * ny * nz + y * nz + z < nx * ny * nz"
proof -
  have "0 \<le> x * ny" "0 \<le> y * nz" "0 \<le> x * ny * nz" using assms by auto
  then show "0 \<le> x * ny * nz + y * nz + z" using assms by linarith
  have "x * ny + y \<le> (nx - 1) * ny + (ny - 1)"
    using assms by (intro add_mono mult_right_mono) auto
  then have "x * ny + y + 1 \<le> nx * ny" by (simp add: algebra_simps)
  then have "(x * ny + y + 1) * nz \<le> nx * ny * nz" using assms by (intro mult_right_mono) auto
  then show "x * ny * nz + y * nz + z < nx * ny * nz" using assms by (simp add: algebra_simps)
qed

lemma mixed_radix_decode:
  fixes x y z :: int
  assumes "0 \<le> y" "y < ny" "0 \<le> z" "z < nz"
  shows "(x * ny * nz + y * nz + z) div (ny * nz) = x"
    and "(x * ny * nz + y * nz + z) mod (ny * nz) = y * nz + z"
    and "(y * nz + z) div nz = y" and "(y * nz + z) mod nz = z"
proof -
  have yz: "0 \<le> y * nz + z" "y * nz + z < ny * nz"
    using mixed_radix_bounds [of 0 1 y ny z nz] assms by auto
  have *: "x * ny * nz + y * nz + z = (y * nz + z) + x * (ny * nz)" by (simp add: algebra_simps)
  show "(x * ny * nz + y * nz + z) div (ny * nz) = x"
    unfolding * using yz by (subst div_mult_self1) (auto simp: div_pos_pos_trivial)
  show "(x * ny * nz + y * nz + z) mod (ny * nz) = y * nz + z"
    unfolding * using yz by (simp add: mod_pos_pos_trivial)
  show "(y * nz + z) div nz = y" "(y * nz + z) mod nz = z" using assms by auto
qed

lemma int_div_less:
  fixes a b c :: int
  assumes "0 < b" and "a < c * b"
  shows "a div b < c"
proof -
  have "a div b * b + a mod b = a" by simp
  moreover have "0 \<le> a mod b" using assms(1) by simp
  ultimately have "a div b * b < c * b" using assms(2) by linarith
  with assms(1) show ?thesis by simp
qed

text \<open>The scheme on its own, for the dimensions of a grid: the voxel map and the exploration grid use it.\<close>

definition dims_pos :: "idx3 \<Rightarrow> bool" where
  "dims_pos n \<longleftrightarrow> all3 (\<lambda>a one. one \<le> a) n (1, 1, 1)"

definition in_dims :: "idx3 \<Rightarrow> idx3 \<Rightarrow> bool" where
  "in_dims n i \<longleftrightarrow> all3 (\<lambda>k a. 0 \<le> k \<and> k < a) i n"

definition num_cells :: "idx3 \<Rightarrow> int" where
  "num_cells n = (case n of (nx, ny, nz) \<Rightarrow> nx * ny * nz)"

definition address3 :: "idx3 \<Rightarrow> idx3 \<Rightarrow> int" where
  "address3 n i = (case i of (x, y, z) \<Rightarrow> case n of (nx, ny, nz) \<Rightarrow> x * ny * nz + y * nz + z)"

definition index3 :: "idx3 \<Rightarrow> int \<Rightarrow> idx3" where
  "index3 n adr = (case n of (nx, ny, nz) \<Rightarrow>
     let a = ny * nz; b = nz; tmp_adr = adr mod a in (adr div a, tmp_adr div b, tmp_adr mod b))"

interpretation radix: addressing dims_pos in_dims num_cells address3 index3
proof
  fix n i :: idx3 and a :: int
  obtain nx ny nz where n: "n = (nx, ny, nz)" by (cases n) auto
  assume "dims_pos n"
  then have pos: "1 \<le> nx" "1 \<le> ny" "1 \<le> nz" by (auto simp: dims_pos_def n)
  show "0 \<le> address3 n i \<and> address3 n i < num_cells n" if "in_dims n i"
    using that mixed_radix_bounds [of "fst i" nx "fst (snd i)" ny "snd (snd i)" nz]
    by (auto simp: in_dims_def address3_def num_cells_def n all3_def split: prod.splits)
  show "index3 n (address3 n i) = i" if "in_dims n i"
    using that mixed_radix_decode(1,2) [of "fst (snd i)" ny "snd (snd i)" nz "fst i"]
      mixed_radix_decode(3,4) [of "fst (snd i)" ny "snd (snd i)" nz]
    by (auto simp: in_dims_def address3_def index3_def n all3_def Let_def split: prod.splits)
  show "in_dims n (index3 n a) \<and> address3 n (index3 n a) = a" if "0 \<le> a" "a < num_cells n"
  proof -
    have "0 < ny * nz" using pos by simp
    then have a: "a div (ny * nz) < nx" "0 \<le> a div (ny * nz)"
      using that by (auto simp: num_cells_def n pos_imp_zdiv_nonneg_iff mult.assoc intro!: int_div_less)
    have m: "0 \<le> a mod (ny * nz)" "a mod (ny * nz) < ny * nz" using \<open>0 < ny * nz\<close> by auto
    then have "a mod (ny * nz) div nz < ny" "0 \<le> a mod (ny * nz) div nz"
      using pos by (auto simp: pos_imp_zdiv_nonneg_iff intro!: int_div_less)
    moreover have "a div (ny * nz) * ny * nz + a mod (ny * nz) div nz * nz + a mod (ny * nz) mod nz = a"
    proof -
      have "a mod (ny * nz) div nz * nz + a mod (ny * nz) mod nz = a mod (ny * nz)" by (rule div_mult_mod_eq)
      moreover have "a div (ny * nz) * (ny * nz) + a mod (ny * nz) = a" by (rule div_mult_mod_eq)
      ultimately show ?thesis by (simp add: mult.assoc)
    qed
    moreover have "0 \<le> a mod (ny * nz) mod nz" "a mod (ny * nz) mod nz < nz" using pos by simp_all
    ultimately show ?thesis
      using a by (simp add: in_dims_def index3_def address3_def n Let_def)
  qed
qed

lemma voxel_scheme:
  "toAddress p i = address3 (map_voxel_num p) i" "adrToIndex p a = index3 (map_voxel_num p) a"
  "isInMap p i \<longleftrightarrow> in_dims (map_voxel_num p) i" "getVoxelNum p = num_cells (map_voxel_num p)"
  "dims_ok p \<Longrightarrow> dims_pos (map_voxel_num p)"
  by (auto simp: toAddress_def address3_def adrToIndex_def index3_def isInMap_def in_dims_def getVoxelNum_def num_cells_def
      dims_ok_def dims_pos_def all3_def split: prod.splits)

interpretation voxel: addressing dims_ok isInMap getVoxelNum toAddress adrToIndex
  by unfold_locales
    (simp_all add: voxel_scheme radix.encode_bounds radix.decode_encode radix.decode_valid)

text \<open>The parameters as \<open>initMap\<close> leaves them, for a positive resolution and size.\<close>

definition geometry_ok :: "MapParam \<Rightarrow> bool" where
  "geometry_ok p \<longleftrightarrow> 0 < resolution p \<and> resolution_inv p = 1 / resolution p \<and>
     map_min_boundary p = map_origin p \<and> map_max_boundary p = zip3 (+) (map_origin p) (map_size p) \<and>
     map_voxel_num p = map3 (\<lambda>s. \<lceil>s / resolution p\<rceil>) (map_size p)"

lemma geometry_init: "0 < cfg_resolution c \<Longrightarrow> geometry_ok (init_params c)"
  by (simp add: geometry_ok_def init_params_def Let_def)

lemma posToIndex_indexToPos:
  assumes "geometry_ok p"
  shows "posToIndex p (indexToPos p i) = i"
proof -
  have "\<lfloor>((real_of_int k + 1 / 2) * resolution p + org - org) * (1 / resolution p)\<rfloor> = k" for k org
  proof -
    have "((real_of_int k + 1 / 2) * resolution p + org - org) * (1 / resolution p) = real_of_int k + 1 / 2"
      using assms by (simp add: geometry_ok_def)
    then show ?thesis by (simp add: floor_eq_iff)
  qed
  with assms show ?thesis
    by (auto simp: geometry_ok_def posToIndex_def indexToPos_def zip3_def split: prod.splits)
qed

lemma axis_in_map:
  fixes x org s res :: real
  assumes "0 < res" "\<not> x < org + 1 / 10000" "\<not> x > org + s - 1 / 10000"
  shows "0 \<le> \<lfloor>(x - org) * (1 / res)\<rfloor>" and "\<lfloor>(x - org) * (1 / res)\<rfloor> \<le> \<lceil>s / res\<rceil> - 1"
proof -
  show "0 \<le> \<lfloor>(x - org) * (1 / res)\<rfloor>" using assms by simp
  have "(x - org) * (1 / res) < s / res" using assms by (simp add: divide_strict_right_mono)
  also have "\<dots> \<le> of_int \<lceil>s / res\<rceil>" by simp
  finally show "\<lfloor>(x - org) * (1 / res)\<rfloor> \<le> \<lceil>s / res\<rceil> - 1" by linarith
qed

lemma isInMap_posToIndex:
  assumes "geometry_ok p" and "isInMapPos p pos"
  shows "isInMap p (posToIndex p pos)"
proof -
  obtain x y z ox oy oz sx sy sz where e: "pos = (x, y, z)" "map_origin p = (ox, oy, oz)" "map_size p = (sx, sy, sz)"
    by (metis prod.collapse)
  from assms e have
    "0 < resolution p" "\<not> x < ox + 1 / 10000" "\<not> x > ox + sx - 1 / 10000" "\<not> y < oy + 1 / 10000"
    "\<not> y > oy + sy - 1 / 10000" "\<not> z < oz + 1 / 10000" "\<not> z > oz + sz - 1 / 10000"
    by (auto simp: geometry_ok_def isInMapPos_def)
  moreover from this have "0 \<le> (x - ox) / resolution p" "0 \<le> (y - oy) / resolution p" "0 \<le> (z - oz) / resolution p"
    by auto
  ultimately show ?thesis using axis_in_map(2) [of "resolution p" x ox sx] axis_in_map(2) [of "resolution p" y oy sy]
    axis_in_map(2) [of "resolution p" z oz sz] assms(1) e
    by (auto simp: isInMap_def posToIndex_def geometry_ok_def divide_less_0_iff)
qed

lemma isInMap_boundIndex: "dims_ok p \<Longrightarrow> isInMap p (boundIndex p i)"
  by (auto simp: dims_ok_def isInMap_def boundIndex_def all3_def zip3_def split: prod.splits)

text \<open>All buffers have one entry per voxel.\<close>

definition buffers_ok :: "MapParam \<Rightarrow> MapData \<Rightarrow> bool" where
  "buffers_ok p d \<longleftrightarrow> (\<forall>n. n = nat (getVoxelNum p) \<longrightarrow>
     length (occupancy_buffer d) = n \<and> length (occupancy_buffer_inflate d) = n \<and>
     length (distance_buffer_neg d) = n \<and> length (distance_buffer d) = n \<and>
     length (tmp_buffer1 d) = n \<and> length (tmp_buffer2 d) = n \<and>
     length (count_hit d) = n \<and> length (count_miss d) = n \<and> length (flag_rayend d) = n)"

lemma buffers_init: "buffers_ok p (init_data p u)"
  by (simp add: buffers_ok_def init_data_def Let_def)

end
