(* ===== verification/Ray_Caster.thy ===== *)
theory Ray_Caster imports Voxel_Map
begin

text \<open>
  The voxel traversal of \<open>plan_env/src/raycast.cpp\<close> (Amanatides and Woo): the class \<open>RayCaster\<close> with
  its two ways to start a ray and its three ways to step along it. A \<open>double\<close> that can be infinite,
  the parameter of the next crossing on an axis, is a \<open>real option\<close> with \<open>None\<close> for infinity. The
  lemmas show that every ray ends, after one step per unit of its Manhattan length.
\<close>

section \<open>Helpers of the file\<close>

definition signum :: "int \<Rightarrow> int" where
  "signum x = (if x = 0 then 0 else if x < 0 then - 1 else 1)"

text \<open>The conversion of a \<open>double\<close> to \<open>int\<close> truncates, and \<open>fmod\<close> has the sign of the dividend.\<close>

definition to_int_trunc :: "real \<Rightarrow> int" where
  "to_int_trunc x = (if 0 \<le> x then \<lfloor>x\<rfloor> else \<lceil>x\<rceil>)"

definition fmod :: "real \<Rightarrow> real \<Rightarrow> real" where
  "fmod x m = x - of_int (to_int_trunc (x / m)) * m"

definition modulus :: "real \<Rightarrow> real \<Rightarrow> real" where
  "modulus value m = fmod (fmod value m + m) m"

text \<open>\<open>intbound\<close>: the least positive \<open>t\<close> such that \<open>s + t * ds\<close> is an integer, infinite for \<open>ds = 0\<close>.\<close>

definition intbound :: "real \<Rightarrow> real \<Rightarrow> real option" where
  "intbound s ds =
     (let (s', ds') = (if ds < 0 then (- s, - ds) else (s, ds)); s'' = modulus s' 1
      in if ds' = 0 then None else Some ((1 - s'') / ds'))"

fun inf_less :: "real option \<Rightarrow> real option \<Rightarrow> bool" where
  "inf_less (Some a) (Some b) = (a < b)"
| "inf_less (Some a) None = True"
| "inf_less None _ = False"

section \<open>The ray caster\<close>

record RayCaster =
  ray_cur :: idx3
  ray_end :: idx3
  ray_step :: idx3
  ray_tMax :: "real option \<times> real option \<times> real option"
  ray_tDelta :: vec3
  ray_resolution :: real
  ray_offset :: vec3
  ray_half :: vec3

definition ray_setParams :: "real \<Rightarrow> vec3 \<Rightarrow> RayCaster \<Rightarrow> RayCaster" where
  "ray_setParams res origin r =
     r\<lparr>ray_resolution := res, ray_half := (1 / 2, 1 / 2, 1 / 2),
       ray_offset := map3 (\<lambda>x. 1 / 2 - x / res) origin\<rparr>"

text \<open>\<open>setInput\<close>: start a ray in voxel coordinates; the result is \<open>false\<close> if it stays in one voxel.\<close>

definition ray_setInput :: "vec3 \<Rightarrow> vec3 \<Rightarrow> RayCaster \<Rightarrow> bool \<times> RayCaster" where
  "ray_setInput start fin r =
     (let c = map3 floor start; e = map3 floor fin;
          d = zip3 (-) e c;
          st = map3 signum d;
          r' = r\<lparr>ray_cur := c, ray_end := e, ray_step := st,
            ray_tMax := zip3 (\<lambda>s k. intbound s (of_int k)) start d,
            ray_tDelta := zip3 (\<lambda>k j. of_int k / of_int j) st d\<rparr>
      in (st \<noteq> (0, 0, 0), r'))"

text \<open>\<open>input\<close>: the same for a ray in metres.\<close>

definition ray_input :: "vec3 \<Rightarrow> vec3 \<Rightarrow> RayCaster \<Rightarrow> bool \<times> RayCaster" where
  "ray_input start fin r =
     ray_setInput (map3 (\<lambda>x. x / ray_resolution r) start) (map3 (\<lambda>x. x / ray_resolution r) fin) r"

definition bump :: "real option \<Rightarrow> real \<Rightarrow> real option" where
  "bump t dt = (case t of None \<Rightarrow> None | Some x \<Rightarrow> Some (x + dt))"

text \<open>The common step: cross the nearest cube boundary.\<close>

definition ray_advance :: "RayCaster \<Rightarrow> RayCaster" where
  "ray_advance r = (case ray_cur r of (x, y, z) \<Rightarrow> case ray_step r of (sx, sy, sz) \<Rightarrow>
     case ray_tMax r of (tx, ty, tz) \<Rightarrow> case ray_tDelta r of (dx, dy, dz) \<Rightarrow>
     if inf_less tx ty then
       if inf_less tx tz then r\<lparr>ray_cur := (x + sx, y, z), ray_tMax := (bump tx dx, ty, tz)\<rparr>
       else r\<lparr>ray_cur := (x, y, z + sz), ray_tMax := (tx, ty, bump tz dz)\<rparr>
     else
       if inf_less ty tz then r\<lparr>ray_cur := (x, y + sy, z), ray_tMax := (tx, bump ty dy, tz)\<rparr>
       else r\<lparr>ray_cur := (x, y, z + sz), ray_tMax := (tx, ty, bump tz dz)\<rparr>)"

definition ray_next :: "(RayCaster \<Rightarrow> 'p) \<Rightarrow> RayCaster \<Rightarrow> 'p \<times> bool \<times> RayCaster" where
  "ray_next out r = (if ray_cur r = ray_end r then (out r, False, r) else (out r, True, ray_advance r))"

definition cell_id :: "RayCaster \<Rightarrow> idx3" where
  "cell_id r = zip3 (\<lambda>k off. to_int_trunc (of_int k + off)) (ray_cur r) (ray_offset r)"

definition cell_pos :: "RayCaster \<Rightarrow> vec3" where
  "cell_pos r = zip3 (\<lambda>k h. (of_int k + h) * ray_resolution r) (ray_cur r) (ray_half r)"

definition nextId :: "RayCaster \<Rightarrow> idx3 \<times> bool \<times> RayCaster" where
  "nextId r = ray_next cell_id r"

definition nextPos :: "RayCaster \<Rightarrow> vec3 \<times> bool \<times> RayCaster" where
  "nextPos r = ray_next cell_pos r"

definition ray_stepPt :: "RayCaster \<Rightarrow> vec3 \<times> bool \<times> RayCaster" where
  "ray_stepPt r = ray_next (\<lambda>r. map3 of_int (ray_cur r)) r"

text \<open>The loop \<open>while (nextId(idx)) ...\<close> of the callers: the cells it visits; \<open>None\<close> if it does not end.\<close>

partial_function (option) ray_loop :: "RayCaster \<Rightarrow> RayCaster list option" where
  "ray_loop r = (case ray_next (\<lambda>r. r) r of (r0, going, r') \<Rightarrow>
     if going then Option.bind (ray_loop r') (\<lambda>rs. Some (r0 # rs)) else Some [])"

definition ray_ids :: "RayCaster \<Rightarrow> idx3 list option" where
  "ray_ids r = map_option (map cell_id) (ray_loop r)"

section \<open>Facts on the helpers\<close>

lemma modulus_one: "modulus s 1 = frac s"
proof -
  have f: "fmod x 1 = x - of_int (to_int_trunc x)" for x by (simp add: fmod_def)
  have tr: "- 1 < x - of_int (to_int_trunc x)" "x - of_int (to_int_trunc x) < 1" for x :: real
    unfolding to_int_trunc_def by (auto, linarith+)
  define y where "y = fmod s 1 + 1"
  have y: "0 \<le> y" using tr [of s] by (simp add: y_def f)
  have "modulus s 1 = fmod y 1" by (simp only: modulus_def y_def)
  also have "\<dots> = frac y" using y by (simp add: f to_int_trunc_def frac_def)
  also have "y = s + of_int (1 - to_int_trunc s)" by (simp add: y_def f)
  also have "frac \<dots> = frac s" by (simp only: frac_add_of_int_right)
  finally show ?thesis .
qed

lemma sgn_signum: "signum k = sgn k"
  by (simp add: signum_def sgn_if)

section \<open>One axis\<close>

text \<open>An axis whose ray has \<open>D\<close> units in all: after \<open>D - |e - c|\<close> of them its next crossing is at
  \<open>(f + D - |e - c|) / D\<close>, where \<open>f\<close> is the way to the first boundary.\<close>

definition axis_inv :: "int \<Rightarrow> int \<Rightarrow> int \<Rightarrow> real option \<Rightarrow> real \<Rightarrow> bool" where
  "axis_inv c e st t dt \<longleftrightarrow>
     (c = e \<and> t = None) \<or>
     (\<exists>f D. 0 < f \<and> f \<le> 1 \<and> 0 < D \<and> t = Some ((f + D - of_int \<bar>e - c\<bar>) / D) \<and> dt = 1 / D \<and>
        (c \<noteq> e \<longrightarrow> st = sgn (e - c)))"

lemma axis_init:
  "axis_inv \<lfloor>s\<rfloor> \<lfloor>e\<rfloor> (signum (\<lfloor>e\<rfloor> - \<lfloor>s\<rfloor>)) (intbound s (of_int (\<lfloor>e\<rfloor> - \<lfloor>s\<rfloor>)))
     (of_int (signum (\<lfloor>e\<rfloor> - \<lfloor>s\<rfloor>)) / of_int (\<lfloor>e\<rfloor> - \<lfloor>s\<rfloor>))"
proof (cases "\<lfloor>e\<rfloor> = \<lfloor>s\<rfloor>")
  case False
  define k where "k = \<lfloor>e\<rfloor> - \<lfloor>s\<rfloor>"
  define f where "f = 1 - frac (if k < 0 then - s else s)"
  have "0 < f" "f \<le> 1" by (auto simp: f_def frac_lt_1 frac_ge_0)
  moreover have "intbound s (of_int k) = Some (f / of_int \<bar>k\<bar>)"
    using False by (auto simp: intbound_def modulus_one f_def k_def Let_def)
  moreover have "of_int (signum k) / of_int k = 1 / (of_int \<bar>k\<bar> :: real)"
    by (simp add: signum_def)
  moreover have "0 < (of_int \<bar>k\<bar> :: real)" using False by (simp add: k_def)
  ultimately show ?thesis
    unfolding axis_inv_def k_def [symmetric] sgn_signum by (intro disjI2 exI [of _ f] exI [of _ "of_int \<bar>k\<bar>"]) auto
qed (simp add: axis_inv_def intbound_def)

lemma axis_open: "axis_inv c e st t dt \<Longrightarrow> c \<noteq> e \<Longrightarrow> \<exists>x. t = Some x \<and> x \<le> 1"
  by (auto simp: axis_inv_def divide_le_eq)

lemma axis_done: "axis_inv c e st t dt \<Longrightarrow> c = e \<Longrightarrow> t = None \<or> (\<exists>x. t = Some x \<and> 1 < x)"
  by (auto simp: axis_inv_def less_divide_eq)

lemma axis_move:
  assumes "axis_inv c e st t dt" and "c \<noteq> e"
  shows "axis_inv (c + st) e st (bump t dt) dt" and "\<bar>e - (c + st)\<bar> = \<bar>e - c\<bar> - 1" and "\<bar>st\<bar> = 1"
proof -
  obtain f D where fD: "0 < f" "f \<le> 1" "0 < D" "t = Some ((f + D - of_int \<bar>e - c\<bar>) / D)" "dt = 1 / D"
    "st = sgn (e - c)" using assms by (auto simp: axis_inv_def)
  show *: "\<bar>e - (c + st)\<bar> = \<bar>e - c\<bar> - 1" "\<bar>st\<bar> = 1" using fD(6) assms(2) by (auto simp: sgn_if)
  have "bump t dt = Some ((f + D - of_int \<bar>e - (c + st)\<bar>) / D)"
    using fD(3-5) * by (simp add: bump_def field_simps)
  moreover have "c + st \<noteq> e \<longrightarrow> st = sgn (e - (c + st))"
    using fD(6) assms(2) by (auto simp: sgn_if)
  ultimately show "axis_inv (c + st) e st (bump t dt) dt"
    unfolding axis_inv_def using fD(1-3,5) by blast
qed

section \<open>The whole ray\<close>

definition manhattan :: "idx3 \<Rightarrow> idx3 \<Rightarrow> int" where
  "manhattan a b = (case zip3 (\<lambda>i j. \<bar>j - i\<bar>) a b of (x, y, z) \<Rightarrow> x + y + z)"

definition ray_inv :: "RayCaster \<Rightarrow> bool" where
  "ray_inv r \<longleftrightarrow> (case ray_cur r of (x, y, z) \<Rightarrow> case ray_end r of (ex, ey, ez) \<Rightarrow>
     case ray_step r of (sx, sy, sz) \<Rightarrow> case ray_tMax r of (tx, ty, tz) \<Rightarrow> case ray_tDelta r of (dx, dy, dz) \<Rightarrow>
     axis_inv x ex sx tx dx \<and> axis_inv y ey sy ty dy \<and> axis_inv z ez sz tz dz)"

lemma ray_setInput_inv: "ray_inv (snd (ray_setInput s e r))"
  unfolding ray_setInput_def ray_inv_def Let_def
  by (cases s; cases e) (simp add: axis_init del: of_int_diff)

text \<open>The axis that is stepped is never one that has already arrived.\<close>

lemma ray_advance_ok:
  assumes "ray_inv r" and "ray_cur r \<noteq> ray_end r"
  shows "ray_inv (ray_advance r)" and "manhattan (ray_cur r) (ray_cur (ray_advance r)) = 1"
    and "manhattan (ray_cur (ray_advance r)) (ray_end r) = manhattan (ray_cur r) (ray_end r) - 1"
    and "ray_end (ray_advance r) = ray_end r"
proof -
  obtain x y z ex ey ez sx sy sz tx ty tz dx dy dz where
    e: "ray_cur r = (x, y, z)" "ray_end r = (ex, ey, ez)" "ray_step r = (sx, sy, sz)"
      "ray_tMax r = (tx, ty, tz)" "ray_tDelta r = (dx, dy, dz)"
    by (metis prod.collapse)
  have ax: "axis_inv x ex sx tx dx" "axis_inv y ey sy ty dy" "axis_inv z ez sz tz dz"
    using assms(1) by (auto simp: ray_inv_def e)
  have open': "x \<noteq> ex \<or> y \<noteq> ey \<or> z \<noteq> ez" using assms(2) by (simp add: e)
  note od = axis_open [OF ax(1)] axis_open [OF ax(2)] axis_open [OF ax(3)]
    axis_done [OF ax(1)] axis_done [OF ax(2)] axis_done [OF ax(3)]
  have dx: "x \<noteq> ex" if "inf_less tx ty" "inf_less tx tz"
    using od open' that by (cases "x = ex"; cases "y = ey"; cases "z = ez") auto
  have dz1: "z \<noteq> ez" if "inf_less tx ty" "\<not> inf_less tx tz"
    using od open' that by (cases "x = ex"; cases "y = ey"; cases "z = ez") auto
  have dy: "y \<noteq> ey" if "\<not> inf_less tx ty" "inf_less ty tz"
    using od open' that by (cases "x = ex"; cases "y = ey"; cases "z = ez") auto
  have dz2: "z \<noteq> ez" if "\<not> inf_less tx ty" "\<not> inf_less ty tz"
    using od open' that by (cases "x = ex"; cases "y = ey"; cases "z = ez"; cases tx; cases ty; cases tz) auto
  note mv = axis_move [OF ax(1)] axis_move [OF ax(2)] axis_move [OF ax(3)]
  show "ray_inv (ray_advance r)" "manhattan (ray_cur r) (ray_cur (ray_advance r)) = 1"
    "manhattan (ray_cur (ray_advance r)) (ray_end r) = manhattan (ray_cur r) (ray_end r) - 1"
    "ray_end (ray_advance r) = ray_end r"
    using ax dx dy dz1 dz2 mv by (simp_all add: ray_advance_def ray_inv_def manhattan_def e)
qed

text \<open>A walk: every step changes one coordinate by one.\<close>

fun walk :: "idx3 list \<Rightarrow> bool" where
  "walk (a # b # rest) = (manhattan a b = 1 \<and> walk (b # rest))"
| "walk _ = True"

lemma manhattan_eq_0: "manhattan a b = 0 \<longleftrightarrow> a = b"
  by (auto simp: manhattan_def zip3_def split: prod.splits)

lemma manhattan_same [simp]: "manhattan a a = 0"
  by (simp add: manhattan_eq_0)

lemma manhattan_nonneg: "0 \<le> manhattan a b"
  by (auto simp: manhattan_def zip3_def split: prod.splits)

lemma ray_loop_ok:
  assumes "ray_inv r"
  shows "\<exists>rs. ray_loop r = Some rs \<and> int (length rs) = manhattan (ray_cur r) (ray_end r) \<and>
    walk (map ray_cur rs @ [ray_end r]) \<and> hd (map ray_cur rs @ [ray_end r]) = ray_cur r \<and>
    (\<forall>r' \<in> set rs. ray_offset r' = ray_offset r)"
  using assms
proof (induction "nat (manhattan (ray_cur r) (ray_end r))" arbitrary: r)
  case 0
  then have "ray_cur r = ray_end r" using manhattan_nonneg manhattan_eq_0 by (metis nat_0_iff order_antisym)
  then show ?case
    using manhattan_eq_0 [of "ray_end r" "ray_end r"] by (simp add: ray_loop.simps [of r] ray_next_def)
next
  case (Suc n)
  then have ne: "ray_cur r \<noteq> ray_end r" by (auto simp: manhattan_eq_0)
  let ?r = "ray_advance r"
  note adv = ray_advance_ok [OF Suc.prems ne]
  have off: "ray_offset ?r = ray_offset r"
    by (auto simp: ray_advance_def split: prod.splits)
  have "n = nat (manhattan (ray_cur ?r) (ray_end ?r))"
    using Suc.hyps(2) adv(3,4) manhattan_nonneg [of "ray_cur r" "ray_end r"] by simp
  from Suc.hyps(1) [OF this adv(1)] obtain rs where rs: "ray_loop ?r = Some rs"
      "int (length rs) = manhattan (ray_cur ?r) (ray_end ?r)" "walk (map ray_cur rs @ [ray_end ?r])"
      "hd (map ray_cur rs @ [ray_end ?r]) = ray_cur ?r" "\<forall>r' \<in> set rs. ray_offset r' = ray_offset ?r"
    by blast
  have "ray_loop r = Some (r # rs)" using ne rs(1) by (simp add: ray_loop.simps [of r] ray_next_def)
  moreover have "walk (ray_cur r # map ray_cur rs @ [ray_end r])"
    using rs(3,4) adv(2,4) by (cases "map ray_cur rs @ [ray_end r]") auto
  ultimately show ?case using rs adv off by auto
qed

text \<open>A walk of least length stays between its ends.\<close>

definition between3 :: "idx3 \<Rightarrow> idx3 \<Rightarrow> idx3 \<Rightarrow> bool" where
  "between3 a b i \<longleftrightarrow> manhattan a i + manhattan i b = manhattan a b"

lemma manhattan_triangle: "manhattan a c \<le> manhattan a b + manhattan b c"
proof -
  obtain ax ay az bx by' bz cx cy cz where "a = (ax, ay, az)" "b = (bx, by', bz)" "c = (cx, cy, cz)"
    by (metis prod.collapse)
  then show ?thesis by (simp add: manhattan_def)
qed

lemma sums_eq_iff:
  fixes d1 d2 d3 s1 s2 s3 :: int
  shows "d1 \<le> s1 \<Longrightarrow> d2 \<le> s2 \<Longrightarrow> d3 \<le> s3 \<Longrightarrow>
    s1 + s2 + s3 = d1 + d2 + d3 \<longleftrightarrow> s1 = d1 \<and> s2 = d2 \<and> s3 = d3"
  by auto

lemma between3_iff:
  "between3 (ax, ay, az) (bx, by', bz) (x, y, z) \<longleftrightarrow>
   (min ax bx \<le> x \<and> x \<le> max ax bx) \<and> (min ay by' \<le> y \<and> y \<le> max ay by') \<and> (min az bz \<le> z \<and> z \<le> max az bz)"
proof -
  have ax: "\<bar>b - a\<bar> \<le> \<bar>k - a\<bar> + \<bar>b - k\<bar>"
    "\<bar>k - a\<bar> + \<bar>b - k\<bar> = \<bar>b - a\<bar> \<longleftrightarrow> min a b \<le> k \<and> k \<le> max a b" for a b k :: int
    by linarith+
  have "between3 (ax, ay, az) (bx, by', bz) (x, y, z) \<longleftrightarrow> \<bar>x - ax\<bar> + \<bar>bx - x\<bar> = \<bar>bx - ax\<bar> \<and>
      \<bar>y - ay\<bar> + \<bar>by' - y\<bar> = \<bar>by' - ay\<bar> \<and> \<bar>z - az\<bar> + \<bar>bz - z\<bar> = \<bar>bz - az\<bar>"
    unfolding sums_eq_iff [OF ax(1) [where a = ax and b = bx and k = x]
      ax(1) [where a = ay and b = by' and k = y] ax(1) [where a = az and b = bz and k = z], symmetric]
    by (simp only: between3_def manhattan_def zip3_simp prod.case ac_simps)
  then show ?thesis by (simp only: ax(2))
qed

lemma walk_length:
  "walk (xs @ [b]) \<Longrightarrow> i \<in> set (xs @ [b]) \<Longrightarrow>
   manhattan (hd (xs @ [b])) i + manhattan i b \<le> int (length xs)"
proof (induction xs arbitrary: i)
  case Nil
  then show ?case by simp
next
  case (Cons a xs)
  obtain h where h: "h = hd (xs @ [b])" by simp
  from Cons.prems(1) have w: "walk (xs @ [b])" "manhattan a h = 1"
    by (cases xs; auto simp: h)+
  show ?case
  proof (cases "i = a")
    case True
    have "h \<in> set (xs @ [b])" by (cases xs) (auto simp: h)
    from Cons.IH [OF w(1) this] have "manhattan h b \<le> int (length xs)"
      by (simp add: h manhattan_eq_0)
    with manhattan_triangle [of a b h] w(2) True show ?thesis by (simp add: manhattan_eq_0)
  next
    case False
    with Cons.prems(2) have "i \<in> set (xs @ [b])" by auto
    from Cons.IH [OF w(1) this] manhattan_triangle [of a i h] w(2) show ?thesis by (simp add: h)
  qed
qed

lemma ray_loop_between:
  assumes "ray_inv r" and "ray_loop r = Some rs" and "r' \<in> set rs"
  shows "between3 (ray_cur r) (ray_end r) (ray_cur r')"
proof -
  from ray_loop_ok [OF assms(1)] assms(2) have rs: "int (length rs) = manhattan (ray_cur r) (ray_end r)"
    "walk (map ray_cur rs @ [ray_end r])" "hd (map ray_cur rs @ [ray_end r]) = ray_cur r" by auto
  have "ray_cur r' \<in> set (map ray_cur rs @ [ray_end r])" using assms(3) by auto
  from walk_length [OF rs(2) this] rs(1,3) manhattan_triangle [of "ray_cur r" "ray_end r" "ray_cur r'"]
  show ?thesis by (simp add: between3_def)
qed

section \<open>Rays of the map\<close>

text \<open>The map's origin is a multiple of the resolution, so the caster's voxels are the map's.\<close>

definition aligned :: "MapParam \<Rightarrow> idx3 \<Rightarrow> bool" where
  "aligned p m \<longleftrightarrow> map_origin p = map3 (\<lambda>k. of_int k * resolution p) m"

definition caster_of :: "MapParam \<Rightarrow> RayCaster \<Rightarrow> bool" where
  "caster_of p r \<longleftrightarrow> ray_resolution r = resolution p \<and>
     ray_offset r = map3 (\<lambda>x. 1 / 2 - x / resolution p) (map_origin p)"

lemma caster_of_setParams: "caster_of p (ray_setParams (resolution p) (map_origin p) r)"
  by (simp add: caster_of_def ray_setParams_def)

lemma posToIndex_aligned:
  assumes "geometry_ok p" and "aligned p m"
  shows "posToIndex p pos = zip3 (\<lambda>x k. \<lfloor>x / resolution p\<rfloor> - k) pos m"
proof -
  have "\<lfloor>(x - of_int k * resolution p) * (1 / resolution p)\<rfloor> = \<lfloor>x / resolution p\<rfloor> - k" for x k
  proof -
    have "(x - of_int k * resolution p) * (1 / resolution p) = x / resolution p - of_int k"
      using assms(1) by (simp add: geometry_ok_def field_simps)
    then show ?thesis by simp
  qed
  with assms show ?thesis
    by (cases pos; cases m) (simp add: posToIndex_def aligned_def geometry_ok_def)
qed

lemma cell_id_aligned:
  assumes "geometry_ok p" and "aligned p m" and "ray_offset r = map3 (\<lambda>x. 1 / 2 - x / resolution p) (map_origin p)"
    and "all3 (\<le>) m (ray_cur r)"
  shows "cell_id r = zip3 (-) (ray_cur r) m"
proof -
  have "to_int_trunc (of_int c + (1 / 2 - of_int k * resolution p / resolution p)) = c - k" if "k \<le> c" for c k
  proof -
    have "of_int c + (1 / 2 - of_int k * resolution p / resolution p) = of_int (c - k) + 1 / 2"
      using assms(1) by (simp add: geometry_ok_def)
    then show ?thesis using that by (simp add: to_int_trunc_def floor_eq_iff)
  qed
  with assms show ?thesis
    by (cases "ray_cur r"; cases m) (simp add: cell_id_def aligned_def)
qed

text \<open>A ray between two points of the map visits voxels of the map only, from the voxel of its first
  point on, and ends in front of the voxel of its last.\<close>

lemma ray_ids_map:
  assumes geo: "geometry_ok p" "aligned p m" "caster_of p r"
    and ends: "isInMap p (posToIndex p a)" "isInMap p (posToIndex p b)"
  shows "\<exists>ids. ray_ids (snd (ray_input a b r)) = Some ids \<and>
    int (length ids) = manhattan (posToIndex p a) (posToIndex p b) \<and>
    walk (ids @ [posToIndex p b]) \<and> hd (ids @ [posToIndex p b]) = posToIndex p a \<and>
    (\<forall>i \<in> set ids. isInMap p i \<and> between3 (posToIndex p a) (posToIndex p b) i)"
proof -
  let ?r = "snd (ray_input a b r)" and ?sh = "\<lambda>i. zip3 (-) i m"
  have inv: "ray_inv ?r" by (simp add: ray_input_def ray_setInput_inv)
  have off: "ray_offset ?r = map3 (\<lambda>x. 1 / 2 - x / resolution p) (map_origin p)"
    using geo(3) by (simp add: ray_input_def ray_setInput_def caster_of_def Let_def)
  have ce: "?sh (ray_cur ?r) = posToIndex p a" "?sh (ray_end ?r) = posToIndex p b"
    using geo(3) posToIndex_aligned [OF geo(1,2)]
    by (cases a; cases b; cases m; simp add: ray_input_def ray_setInput_def caster_of_def Let_def)+
  have sh: "manhattan (?sh i) (?sh j) = manhattan i j" for i j
    by (cases i; cases j; cases m) (simp add: manhattan_def)
  have sh_walk: "walk (map ?sh xs) = walk xs" for xs
    by (induction xs rule: walk.induct) (auto simp: sh)
  from ray_loop_ok [OF inv] obtain rs where rs: "ray_loop ?r = Some rs"
    "int (length rs) = manhattan (ray_cur ?r) (ray_end ?r)" "walk (map ray_cur rs @ [ray_end ?r])"
    "hd (map ray_cur rs @ [ray_end ?r]) = ray_cur ?r" "\<forall>r' \<in> set rs. ray_offset r' = ray_offset ?r" by blast
  have btw: "isInMap p (?sh (ray_cur r')) \<and> between3 (posToIndex p a) (posToIndex p b) (?sh (ray_cur r')) \<and>
      all3 (\<le>) m (ray_cur r')"
    if "r' \<in> set rs" for r'
  proof -
    have b3: "between3 (posToIndex p a) (posToIndex p b) (?sh (ray_cur r'))"
      using ray_loop_between [OF inv rs(1) that] by (simp add: between3_def sh ce [symmetric])
    obtain ax ay az bx by' bz x y z where
      e: "posToIndex p a = (ax, ay, az)" "posToIndex p b = (bx, by', bz)" "?sh (ray_cur r') = (x, y, z)"
      by (metis prod.collapse)
    have "isInMap p (x, y, z)"
      using b3 ends unfolding e between3_iff by (cases "map_voxel_num p") (auto simp: isInMap_def min_def max_def split: if_splits)
    moreover from this have "0 \<le> x" "0 \<le> y" "0 \<le> z" by (cases "map_voxel_num p"; simp add: isInMap_def)+
    ultimately show ?thesis using b3 e by (cases "ray_cur r'"; cases m) auto
  qed
  have ids: "map cell_id rs = map (\<lambda>r'. ?sh (ray_cur r')) rs"
    using cell_id_aligned [OF geo(1,2)] btw rs(5) off by (intro map_cong) auto
  have app: "map cell_id rs @ [posToIndex p b] = map ?sh (map ray_cur rs @ [ray_end ?r])"
    by (simp add: ids ce)
  have "hd (map ?sh (map ray_cur rs @ [ray_end ?r])) = ?sh (hd (map ray_cur rs @ [ray_end ?r]))"
    by (rule hd_map) simp
  then have "hd (map cell_id rs @ [posToIndex p b]) = posToIndex p a"
    unfolding app rs(4) ce(1) .
  moreover have "walk (map cell_id rs @ [posToIndex p b])" unfolding app sh_walk by (rule rs(3))
  moreover have "\<forall>i \<in> set (map cell_id rs). isInMap p i \<and> between3 (posToIndex p a) (posToIndex p b) i"
    unfolding ids using btw by auto
  ultimately show ?thesis
    using rs(1,2) sh [of "ray_cur ?r" "ray_end ?r"] by (simp add: ray_ids_def ce)
qed

end
