(* ===== verification/Distance_Transform.thy ===== *)
theory Distance_Transform imports Relay_Prelude
begin

text \<open>
  The one-dimensional distance transform \<open>SDFMap::fillESDF\<close> of \<open>plan_env/src/sdf_map.cpp\<close>: the
  arrays \<open>v\<close> and \<open>z\<close> hold the lower envelope of the parabolas \<open>f(p) + (q - p)^2\<close>, their bottom at
  index \<open>start\<close>. The lemmas show that, for values that are small against the largest \<open>double\<close>, the
  inner loops stay inside the filled part of the arrays and every cell gets the minimum of all
  parabolas.
\<close>

section \<open>The code\<close>

text \<open>\<open>std::numeric_limits<double>::max()\<close>.\<close>

definition dbl_max :: real where
  "dbl_max = (2 - 1 / 2 ^ 52) * 2 ^ 1023"

definition parabola_cross :: "(nat \<Rightarrow> real) \<Rightarrow> nat \<Rightarrow> nat \<Rightarrow> real" where
  "parabola_cross f vk q =
     ((f q + real q * real q) - (f vk + real vk * real vk)) / (2 * real q - 2 * real vk)"

text \<open>The \<open>do ... while (s <= z[k])\<close> loop; \<open>None\<close> if it would leave the filled part of the arrays.\<close>

function pop_parabolas ::
  "(nat \<Rightarrow> real) \<Rightarrow> nat \<Rightarrow> nat list \<Rightarrow> real list \<Rightarrow> nat \<Rightarrow> nat \<Rightarrow> (nat \<times> real) option" where
  "pop_parabolas f start v z q k =
     (let s = parabola_cross f (v ! k) q in
      if s \<le> z ! k then (if k \<le> start then None else pop_parabolas f start v z q (k - 1))
      else Some (k, s))"
  by pat_completeness auto
termination by (relation "measure (\<lambda>(f, start, v, z, q, k). k)") auto

declare pop_parabolas.simps [simp del]

definition push_parabola ::
  "(nat \<Rightarrow> real) \<Rightarrow> nat \<Rightarrow> nat \<Rightarrow> nat \<times> nat list \<times> real list \<Rightarrow> (nat \<times> nat list \<times> real list) option" where
  "push_parabola f start q st = (case st of (k, v, z) \<Rightarrow>
     (case pop_parabolas f start v z q k of
        None \<Rightarrow> None
      | Some (k', s) \<Rightarrow> Some (k' + 1, v[k' + 1 := q], z[k' + 1 := s, k' + 2 := dbl_max])))"

fun build_envelope ::
  "(nat \<Rightarrow> real) \<Rightarrow> nat \<Rightarrow> nat list \<Rightarrow> nat \<times> nat list \<times> real list \<Rightarrow> (nat \<times> nat list \<times> real list) option" where
  "build_envelope f start [] st = Some st"
| "build_envelope f start (q # qs) st =
     (case push_parabola f start q st of None \<Rightarrow> None | Some st' \<Rightarrow> build_envelope f start qs st')"

text \<open>\<open>while (z[k + 1] < q) k++\<close>; \<open>None\<close> if it would read past the array.\<close>

function advance_parabola :: "real list \<Rightarrow> nat \<Rightarrow> nat \<Rightarrow> nat option" where
  "advance_parabola z q k =
     (if k + 1 < length z then
        if z ! (k + 1) < real q then advance_parabola z q (k + 1) else Some k
      else None)"
  by pat_completeness auto
termination by (relation "measure (\<lambda>(z, q, k). length z - k)") auto

declare advance_parabola.simps [simp del]

fun fill_cells ::
  "(nat \<Rightarrow> real) \<Rightarrow> (nat \<Rightarrow> real \<Rightarrow> 'b \<Rightarrow> 'b) \<Rightarrow> nat list \<Rightarrow> real list \<Rightarrow> nat \<Rightarrow> nat list \<Rightarrow> 'b \<Rightarrow> 'b option" where
  "fill_cells f set_val v z k [] buf = Some buf"
| "fill_cells f set_val v z k (q # qs) buf =
     (case advance_parabola z q k of
        None \<Rightarrow> None
      | Some k' \<Rightarrow> fill_cells f set_val v z k' qs
          (set_val q ((real q - real (v ! k')) * (real q - real (v ! k')) + f (v ! k')) buf))"

text \<open>\<open>f\<close> is \<open>f_get_val\<close>, \<open>set_val\<close> is \<open>f_set_val\<close> and \<open>n\<close> is \<open>map_voxel_num_(dim)\<close>, the size of the
  arrays, whose content starts uninitialised and is not read before it is written.\<close>

definition fillESDF ::
  "(nat \<Rightarrow> real) \<Rightarrow> (nat \<Rightarrow> real \<Rightarrow> 'b \<Rightarrow> 'b) \<Rightarrow> nat \<Rightarrow> nat \<Rightarrow> nat \<Rightarrow> 'b \<Rightarrow> 'b option" where
  "fillESDF f set_val start last_q n buf =
     (let v = (replicate n 0)[start := start];
          z = (replicate (n + 1) 0)[start := - dbl_max, start + 1 := dbl_max]
      in case build_envelope f start [start + 1..<last_q + 1] (start, v, z) of
           None \<Rightarrow> None
         | Some (k, v', z') \<Rightarrow> fill_cells f set_val v' z' start [start..<last_q + 1] buf)"

section \<open>The reference\<close>

definition parabola :: "(nat \<Rightarrow> real) \<Rightarrow> nat \<Rightarrow> real \<Rightarrow> real" where
  "parabola f p x = (x - real p) * (x - real p) + f p"

definition lower_envelope :: "(nat \<Rightarrow> real) \<Rightarrow> nat \<Rightarrow> nat \<Rightarrow> nat \<Rightarrow> real" where
  "lower_envelope f a b q = Min ((\<lambda>p. parabola f p (real q)) ` {a..b})"

lemma lower_envelope_eqI:
  assumes "p \<in> {a..b}" and "\<And>j. j \<in> {a..b} \<Longrightarrow> parabola f p (real q) \<le> parabola f j (real q)"
  shows "lower_envelope f a b q = parabola f p (real q)"
  unfolding lower_envelope_def using assms by (intro Min_eqI) auto

lemma cross_le_iff:
  assumes "p < q"
  shows "parabola_cross f p q \<le> x \<longleftrightarrow> parabola f q x \<le> parabola f p x"
proof -
  have "0 < 2 * real q - 2 * real p" using assms by simp
  then show ?thesis
    by (simp add: parabola_cross_def parabola_def pos_divide_le_eq algebra_simps)
qed

lemma le_cross_iff:
  assumes "p < q"
  shows "x \<le> parabola_cross f p q \<longleftrightarrow> parabola f p x \<le> parabola f q x"
proof -
  have "0 < 2 * real q - 2 * real p" using assms by simp
  then show ?thesis
    by (simp add: parabola_cross_def parabola_def pos_le_divide_eq algebra_simps)
qed

text \<open>The envelope of the parabolas \<open>start .. q\<close>, stored in \<open>v\<close> and \<open>z\<close> up to index \<open>k\<close>.\<close>

definition envelope ::
  "(nat \<Rightarrow> real) \<Rightarrow> nat \<Rightarrow> nat \<Rightarrow> nat \<Rightarrow> nat \<Rightarrow> nat list \<Rightarrow> real list \<Rightarrow> bool" where
  "envelope f n start q k v z \<longleftrightarrow>
     length v = n \<and> length z = n + 1 \<and> start \<le> k \<and> k \<le> q \<and> q < n \<and>
     (\<forall>i \<in> {start..k}. start \<le> v ! i \<and> v ! i \<le> q) \<and> z ! start = - dbl_max \<and> z ! (k + 1) = dbl_max \<and>
     (\<forall>i j. start \<le> i \<longrightarrow> i \<le> j \<longrightarrow> j \<le> k \<longrightarrow> z ! i \<le> z ! j) \<and>
     (\<forall>i \<in> {start..k}. \<forall>x. z ! i \<le> x \<longrightarrow> i = k \<or> x \<le> z ! (i + 1) \<longrightarrow>
        (\<forall>j \<in> {start..q}. parabola f (v ! i) x \<le> parabola f j x))"

lemma envelopeD:
  assumes env: "envelope f n start q k v z" and i: "start \<le> i" "i \<le> k"
  shows "start \<le> v ! i" and "v ! i \<le> q"
    and "z ! i \<le> x \<Longrightarrow> i = k \<or> x \<le> z ! (i + 1) \<Longrightarrow> start \<le> j \<Longrightarrow> j \<le> q \<Longrightarrow>
      parabola f (v ! i) x \<le> parabola f j x"
proof -
  show "start \<le> v ! i" "v ! i \<le> q" using env i by (auto simp: envelope_def)
  have "\<forall>i \<in> {start..k}. \<forall>x. z ! i \<le> x \<longrightarrow> i = k \<or> x \<le> z ! (i + 1) \<longrightarrow>
      (\<forall>j \<in> {start..q}. parabola f (v ! i) x \<le> parabola f j x)"
    using env unfolding envelope_def by blast
  then show "parabola f (v ! i) x \<le> parabola f j x"
    if "z ! i \<le> x" "i = k \<or> x \<le> z ! (i + 1)" "start \<le> j" "j \<le> q"
    using i that by (metis atLeastAtMost_iff)
qed

text \<open>Values \<open>0 .. F\<close> that are small enough for the sentinels \<open>-dbl_max\<close> and \<open>dbl_max\<close>.\<close>

definition small_values :: "(nat \<Rightarrow> real) \<Rightarrow> nat \<Rightarrow> nat \<Rightarrow> nat \<Rightarrow> bool" where
  "small_values f n a b \<longleftrightarrow> real n \<le> dbl_max \<and> a \<le> b \<and> b < n \<and>
     (\<forall>q \<in> {a..b}. 0 \<le> f q \<and> f q + real n * real n < 2 * dbl_max)"

lemma dbl_max_pos: "0 < dbl_max"
proof -
  have "(1::real) / 2 ^ 52 < 2" by simp
  then show ?thesis unfolding dbl_max_def by (intro mult_pos_pos) simp_all
qed

lemma cross_gt_sentinel:
  assumes "small_values f n start b" and "start \<le> p" and "p < q" and "q \<le> b"
  shows "- dbl_max < parabola_cross f p q"
proof -
  have *: "0 \<le> f q" "f p + real n * real n < 2 * dbl_max" "p < n"
    using assms by (auto simp: small_values_def)
  have "real p * real p \<le> real n * real n" using *(3) by (intro mult_mono) auto
  with * have "f p + real p * real p < 2 * dbl_max" by linarith
  also have "\<dots> \<le> dbl_max * (2 * real q - 2 * real p)"
  proof -
    have "2 \<le> 2 * real q - 2 * real p" using assms(3) by linarith
    with mult_left_mono [OF this, of dbl_max] dbl_max_pos show ?thesis by simp
  qed
  finally have "(- dbl_max) * (2 * real q - 2 * real p) < (f q + real q * real q) - (f p + real p * real p)"
    using *(1) zero_le_square [of "real q"] unfolding mult_minus_left by linarith
  then show ?thesis
    using assms(3) by (simp add: parabola_cross_def pos_less_divide_eq)
qed

section \<open>Building the envelope\<close>

text \<open>The new parabola \<open>q'\<close> is lowest from \<open>x\<close> on.\<close>

definition lowest_from :: "(nat \<Rightarrow> real) \<Rightarrow> nat \<Rightarrow> nat \<Rightarrow> real \<Rightarrow> bool" where
  "lowest_from f start q x0 \<longleftrightarrow> (\<forall>x \<ge> x0. \<forall>j \<in> {start..q}. parabola f (Suc q) x \<le> parabola f j x)"

lemma cross_above_bottom:
  assumes env: "envelope f n start q k0 v z" and small: "small_values f n start b" and q: "Suc q \<le> b"
    and k: "start \<le> k" "k \<le> k0" and le: "parabola_cross f (v ! k) (Suc q) \<le> z ! k"
  shows "start < k"
proof -
  have "- dbl_max < parabola_cross f (v ! k) (Suc q)"
    using envelopeD(1,2) [OF env k] q by (intro cross_gt_sentinel [OF small]) auto
  moreover have "z ! start = - dbl_max" using env by (simp add: envelope_def)
  ultimately show ?thesis using le k(1) by (cases "k = start") auto
qed

lemma pop_parabolas_ok:
  assumes env: "envelope f n start q k0 v z" and small: "small_values f n start b" and q: "Suc q \<le> b"
    and "start \<le> k" and "k \<le> k0" and "k = k0 \<or> lowest_from f start q (z ! (k + 1))"
  shows "\<exists>k' s. pop_parabolas f start v z (Suc q) k = Some (k', s) \<and> start \<le> k' \<and> k' \<le> k \<and>
    s = parabola_cross f (v ! k') (Suc q) \<and> z ! k' < s \<and>
    (k' = k0 \<or> lowest_from f start q (z ! (k' + 1)))"
  using assms(4-)
proof (induction k)
  case (0)
  then show ?case
    using cross_above_bottom [OF env small q 0(1,2)]
    by (cases "parabola_cross f (v ! 0) (Suc q) \<le> z ! 0")
      (auto simp: pop_parabolas.simps [of _ _ _ _ _ 0] Let_def)
next
  case (Suc k)
  let ?s = "parabola_cross f (v ! Suc k) (Suc q)"
  show ?case
  proof (cases "?s \<le> z ! Suc k")
    case False
    with Suc.prems show ?thesis
      by (auto simp: pop_parabolas.simps [of _ _ _ _ _ "Suc k"] Let_def)
  next
    case True
    have lt: "start < Suc k"
      by (rule cross_above_bottom [OF env small q Suc.prems(1,2) True])
    have "lowest_from f start q (z ! Suc k)"
      unfolding lowest_from_def
    proof (intro allI impI ballI)
      fix x j assume x: "z ! Suc k \<le> x" and j: "j \<in> {start..q}"
      show "parabola f (Suc q) x \<le> parabola f j x"
      proof (cases "Suc k = k0 \<or> x \<le> z ! (Suc k + 1)")
        case True
        have "parabola f (v ! Suc k) x \<le> parabola f j x"
          using envelopeD(3) [OF env Suc.prems(1,2) x True] j by simp
        moreover have "parabola f (Suc q) x \<le> parabola f (v ! Suc k) x"
          using cross_le_iff [of "v ! Suc k" "Suc q" f x] \<open>?s \<le> z ! Suc k\<close> x
            envelopeD(2) [OF env Suc.prems(1,2)] by simp
        ultimately show ?thesis by simp
      next
        case False
        with Suc.prems(3) j show ?thesis by (auto simp: lowest_from_def)
      qed
    qed
    moreover have "start \<le> k" "k \<le> k0" using lt Suc.prems(2) by auto
    moreover have "pop_parabolas f start v z (Suc q) (Suc k) = pop_parabolas f start v z (Suc q) k"
      using True lt by (simp add: pop_parabolas.simps [of _ _ _ _ _ "Suc k"] Let_def)
    ultimately show ?thesis using Suc.IH by fastforce
  qed
qed

lemma push_parabola_ok:
  assumes env: "envelope f n start q k v z" and small: "small_values f n start b" and q: "Suc q \<le> b"
  shows "\<exists>k' v' z'. push_parabola f start (Suc q) (k, v, z) = Some (k', v', z') \<and>
    envelope f n start (Suc q) k' v' z'"
proof -
  have sk: "start \<le> k" using env by (simp add: envelope_def)
  from pop_parabolas_ok [OF env small q sk] obtain k' s where
    pop: "pop_parabolas f start v z (Suc q) k = Some (k', s)" and k': "start \<le> k'" "k' \<le> k"
    and s: "s = parabola_cross f (v ! k') (Suc q)" "z ! k' < s"
    and low: "k' = k \<or> lowest_from f start q (z ! (k' + 1))" by auto
  let ?v = "v[k' + 1 := Suc q]" and ?z = "z[k' + 1 := s, k' + 2 := dbl_max]"
  have len: "length v = n" "length z = n + 1" "k \<le> q" "Suc q < n"
    using env small q by (auto simp: envelope_def small_values_def)
  have vk: "start \<le> v ! k'" "v ! k' \<le> q" using envelopeD(1,2) [OF env k'] .
  have cross: "parabola f (Suc q) x \<le> parabola f (v ! k') x \<longleftrightarrow> s \<le> x" for x
    using cross_le_iff [of "v ! k'" "Suc q" f x] vk(2) s(1) by simp
  have cross': "parabola f (v ! k') x \<le> parabola f (Suc q) x" if "x \<le> s" for x
    using le_cross_iff [of "v ! k'" "Suc q" x f] vk(2) s(1) that by simp
  have s_le: "k' = k \<or> s \<le> z ! (k' + 1)"
    using low vk cross [of "z ! (k' + 1)"] by (auto simp: lowest_from_def)
  have zmono: "\<And>i j. start \<le> i \<Longrightarrow> i \<le> j \<Longrightarrow> j \<le> k \<Longrightarrow> z ! i \<le> z ! j"
    using env by (auto simp: envelope_def)
  have z_old: "i \<le> k' \<Longrightarrow> ?z ! i = z ! i" and v_old: "i \<le> k' \<Longrightarrow> ?v ! i = v ! i" for i by simp_all
  have z_new: "?z ! (k' + 1) = s" "?z ! (k' + 2) = dbl_max" and v_new: "?v ! (k' + 1) = Suc q"
    using len k' by simp_all
  have dom: "parabola f (?v ! i) x \<le> parabola f j x"
    if i: "start \<le> i" "i \<le> k' + 1" and x: "?z ! i \<le> x" "i = k' + 1 \<or> x \<le> ?z ! (i + 1)"
      and j: "start \<le> j" "j \<le> Suc q" for i j x
  proof -
    consider (old) "i < k'" | (top) "i = k'" | (new) "i = k' + 1" using i by linarith
    then show ?thesis
    proof cases
      case old
      then have zx: "z ! i \<le> x" "x \<le> z ! (i + 1)" using x z_old by auto
      have lo: "parabola f (v ! i) x \<le> parabola f j' x" if "start \<le> j'" "j' \<le> q" for j'
        using envelopeD(3) [OF env i(1) _ zx(1)] zx old k' that by simp
      have "x \<le> z ! k'" using zx(2) zmono [of "i + 1" k'] old i k' by simp
      then have "parabola f (v ! k') x \<le> parabola f (Suc q) x" using cross' [of x] s(2) by simp
      with lo [OF vk] lo [OF j(1)] j v_old [of i] old show ?thesis
        by (cases "j = Suc q") auto
    next
      case top
      then have zx: "z ! k' \<le> x" "x \<le> s" using x z_old z_new by auto
      have lo: "parabola f (v ! k') x \<le> parabola f j' x" if "start \<le> j'" "j' \<le> q" for j'
        using envelopeD(3) [OF env k' zx(1)] zx s_le that by force
      have "parabola f (v ! k') x \<le> parabola f (Suc q) x"
        by (rule cross' [OF zx(2)])
      with lo [OF j(1)] j v_old [of k'] top show ?thesis by (cases "j = Suc q") auto
    next
      case new
      then have sx: "s \<le> x" using x z_new by simp
      have "parabola f (Suc q) x \<le> parabola f j' x" if "start \<le> j'" "j' \<le> q" for j'
      proof (cases "k' = k \<or> x \<le> z ! (k' + 1)")
        case True
        with envelopeD(3) [OF env k', of x j'] s(2) sx that cross [of x] show ?thesis by force
      next
        case False
        with low that show ?thesis by (auto simp: lowest_from_def)
      qed
      with j v_new new show ?thesis by (cases "j = Suc q") auto
    qed
  qed
  have "envelope f n start (Suc q) (k' + 1) ?v ?z"
    unfolding envelope_def
  proof (intro conjI ballI allI impI)
    fix i assume "i \<in> {start..k' + 1}"
    then have "start \<le> ?v ! i \<and> ?v ! i \<le> Suc q"
      using envelopeD(1,2) [OF env, of i] k' v_old [of i] v_new len(3) by (cases "i = k' + 1") auto
    then show "start \<le> ?v ! i" "?v ! i \<le> Suc q" by auto
  next
    fix i j assume "start \<le> i" "i \<le> j" "j \<le> k' + 1"
    then show "?z ! i \<le> ?z ! j"
      using zmono [of i j] zmono [of i k'] z_old z_new s(2) k'
      by (cases "j = k' + 1"; cases "i = k' + 1") auto
  qed (use dom len k' z_old [of start] z_new env in \<open>auto simp: envelope_def\<close>)
  with pop show ?thesis by (auto simp: push_parabola_def)
qed

lemma build_envelope_ok:
  assumes "envelope f n start q k v z" and "small_values f n start b" and "q \<le> b"
  shows "\<exists>k' v' z'. build_envelope f start [q + 1..<b + 1] (k, v, z) = Some (k', v', z') \<and>
    envelope f n start b k' v' z'"
  using assms
proof (induction "b - q" arbitrary: q k v z)
  case 0
  then show ?case by simp
next
  case (Suc d)
  then have lt: "Suc q \<le> b" by simp
  then have upt: "[Suc q..<Suc b] = Suc q # [Suc (Suc q)..<Suc b]" by (simp add: upt_conv_Cons del: upt_Suc)
  from push_parabola_ok [OF Suc.prems(1,2) lt] obtain k' v' z' where
    "push_parabola f start (Suc q) (k, v, z) = Some (k', v', z')" "envelope f n start (Suc q) k' v' z'"
    by blast
  with Suc.hyps(1) [of "Suc q" k' v' z'] Suc.hyps(2) Suc.prems(2) lt show ?case
    by (simp add: upt del: upt_Suc)
qed

section \<open>Reading the envelope\<close>

lemma advance_parabola_ok:
  assumes "envelope f n start b k v z" and "start \<le> i" and "i \<le> k" and "z ! i \<le> real q"
    and "real q \<le> dbl_max"
  shows "\<exists>i'. advance_parabola z q i = Some i' \<and> i \<le> i' \<and> i' \<le> k \<and> z ! i' \<le> real q \<and> real q \<le> z ! (i' + 1)"
  using assms(2-4)
proof (induction "k - i" arbitrary: i)
  case 0
  then have "i = k" by simp
  moreover have "k + 1 < length z" "z ! (k + 1) = dbl_max" using assms(1) by (auto simp: envelope_def)
  ultimately show ?case using 0 assms(5) by (simp add: advance_parabola.simps [of z q k])
next
  case (Suc d)
  then have "i + 1 < length z" "i + 1 \<le> k" using assms(1) by (auto simp: envelope_def)
  with Suc.hyps(1) [of "i + 1"] Suc.hyps(2) Suc.prems show ?case
    by (cases "z ! (i + 1) < real q") (fastforce simp: advance_parabola.simps [of z q i])+
qed

lemma fill_cells_ok:
  assumes env: "envelope f n start b k v z" and small: "small_values f n start b"
    and "start \<le> a" and "start \<le> i" and "i \<le> k" and "z ! i \<le> real a"
  shows "fill_cells f set_val v z i [a..<b + 1] buf =
    Some (fold (\<lambda>q. set_val q (lower_envelope f start b q)) [a..<b + 1] buf)"
  using assms(3-)
proof (induction "b + 1 - a" arbitrary: a i buf)
  case 0
  then show ?case by simp
next
  case (Suc d)
  then have ab: "a \<le> b" by simp
  then have upt: "[a..<Suc b] = a # [Suc a..<Suc b]" by (simp add: upt_conv_Cons del: upt_Suc)
  have "real a \<le> dbl_max" using small ab by (auto simp: small_values_def)
  with advance_parabola_ok [OF env Suc.prems(2,3,4)] obtain i' where
    i': "advance_parabola z a i = Some i'" "i \<le> i'" "i' \<le> k" "z ! i' \<le> real a" "real a \<le> z ! (i' + 1)"
    by blast
  have si: "start \<le> i'" using Suc.prems(2) i'(2) by simp
  have "lower_envelope f start b a = parabola f (v ! i') (real a)"
    using envelopeD [OF env si i'(3)] i'(4,5) by (intro lower_envelope_eqI) auto
  with i' si Suc.hyps(1) [of "a + 1" i'] Suc.hyps(2) Suc.prems(1) show ?case
    by (simp add: upt parabola_def del: upt_Suc)
qed

lemma fillESDF_eq:
  assumes "small_values f n start b"
  shows "fillESDF f set_val start b n buf =
    Some (fold (\<lambda>q. set_val q (lower_envelope f start b q)) [start..<b + 1] buf)"
proof -
  let ?v = "(replicate n 0)[start := start]" and ?z = "(replicate (n + 1) 0)[start := - dbl_max, start + 1 := dbl_max]"
  have n: "start \<le> b" "b < n" using assms by (auto simp: small_values_def)
  then have "envelope f n start start start ?v ?z"
    using dbl_max_pos by (auto simp: envelope_def nth_list_update simp del: replicate.simps replicate_Suc)
  from build_envelope_ok [OF this assms n(1)] obtain k v z where
    b: "build_envelope f start [start + 1..<b + 1] (start, ?v, ?z) = Some (k, v, z)" and
    env: "envelope f n start b k v z" by blast
  have "start \<le> k" "z ! start \<le> real start"
    using env dbl_max_pos by (auto simp: envelope_def)
  with fill_cells_ok [OF env assms, of start start] b show ?thesis
    by (simp add: fillESDF_def Let_def del: upt_Suc replicate.simps)
qed

end
