(* ===== verification/Voxel_Esdf.thy ===== *)
theory Voxel_Esdf imports Voxel_Map Distance_Transform
begin

text \<open>
  \<open>SDFMap::updateESDF3d\<close> (\<open>plan_env/src/sdf_map.cpp\<close>): the three passes of one-dimensional distance
  transforms over the updated box, for the distance to the obstacles and, if requested, for the
  distance to the free space inside them. The reference is the least squared index distance over
  the whole box.
\<close>

section \<open>The code\<close>

text \<open>A loop whose body may fail.\<close>

fun for_each :: "('a \<Rightarrow> 'b \<Rightarrow> 'b option) \<Rightarrow> 'a list \<Rightarrow> 'b \<Rightarrow> 'b option" where
  "for_each f [] s = Some s"
| "for_each f (x # xs) s = (case f x s of None \<Rightarrow> None | Some s' \<Rightarrow> for_each f xs s')"

text \<open>One pass: two loops over lines of cells, and \<open>fillESDF\<close> along each line.\<close>

definition esdf_pass ::
  "MapParam \<Rightarrow> (idx3 \<Rightarrow> real) \<Rightarrow> (real \<Rightarrow> real) \<Rightarrow> (int \<Rightarrow> int \<Rightarrow> nat \<Rightarrow> idx3) \<Rightarrow> int list \<Rightarrow> int list \<Rightarrow>
   int \<times> int \<times> int \<Rightarrow> real list \<Rightarrow> real list option" where
  "esdf_pass p get wr cell us ws line buf = (case line of (lo, hi, n) \<Rightarrow>
     for_each (\<lambda>u. for_each (\<lambda>w.
       fillESDF (\<lambda>q. get (cell u w q)) (\<lambda>q val b. b[nat (toAddress p (cell u w q)) := wr val])
         (nat lo) (nat hi) (nat n)) ws) us buf)"

text \<open>The three passes over the box \<open>lo .. hi\<close>, with the buffers they fill.\<close>

definition esdf_sweep ::
  "MapParam \<Rightarrow> (idx3 \<Rightarrow> real) \<Rightarrow> idx3 \<Rightarrow> idx3 \<Rightarrow> real list \<Rightarrow> real list \<Rightarrow> real list \<Rightarrow>
   (real list \<times> real list \<times> real list) option" where
  "esdf_sweep p cost lo hi tmp1 tmp2 dst =
     (case lo of (lx, ly, lz) \<Rightarrow> case hi of (hx, hy, hz) \<Rightarrow> case map_voxel_num p of (nx, ny, nz) \<Rightarrow>
      case esdf_pass p cost (\<lambda>val. val) (\<lambda>x y z. (x, y, int z)) [lx..hx] [ly..hy] (lz, hz, nz) tmp1 of
        None \<Rightarrow> None
      | Some t1 \<Rightarrow>
          (case esdf_pass p (\<lambda>i. t1 ! nat (toAddress p i)) (\<lambda>val. val) (\<lambda>x z y. (x, int y, z))
                  [lx..hx] [lz..hz] (ly, hy, ny) tmp2 of
             None \<Rightarrow> None
           | Some t2 \<Rightarrow>
               (case esdf_pass p (\<lambda>i. t2 ! nat (toAddress p i)) (\<lambda>val. resolution p * sqrt val)
                       (\<lambda>y z x. (int x, y, z)) [ly..hy] [lz..hz] (lx, hx, nx) dst of
                  None \<Rightarrow> None
                | Some ds \<Rightarrow> Some (t1, t2, ds))))"

definition obstacle_cost :: "MapParam \<Rightarrow> MapData \<Rightarrow> idx3 \<Rightarrow> real" where
  "obstacle_cost p d i = (let adr = nat (toAddress p i) in
     if optimistic p then (if occupancy_buffer_inflate d ! adr = 1 then 0 else dbl_max)
     else (if occupancy_buffer_inflate d ! adr = 1 \<or>
              occupancy_buffer d ! adr < clamp_min_log p - 1 / 1000 then 0 else dbl_max))"

definition free_cost :: "MapParam \<Rightarrow> MapData \<Rightarrow> idx3 \<Rightarrow> real" where
  "free_cost p d i = (if occupancy_buffer_inflate d ! nat (toAddress p i) = 0 then 0 else dbl_max)"

definition box_cells :: "idx3 \<Rightarrow> idx3 \<Rightarrow> idx3 list" where
  "box_cells lo hi = (case lo of (lx, ly, lz) \<Rightarrow> case hi of (hx, hy, hz) \<Rightarrow>
     concat (map (\<lambda>x. concat (map (\<lambda>y. map (\<lambda>z. (x, y, z)) [lz..hz]) [ly..hy])) [lx..hx]))"

text \<open>Merging the negative distances into the positive ones.\<close>

definition merge_negative :: "MapParam \<Rightarrow> real list \<Rightarrow> idx3 \<Rightarrow> real list \<Rightarrow> real list" where
  "merge_negative p neg i dst = (let idx = nat (toAddress p i) in
     if neg ! idx > 0 then dst[idx := dst ! idx + (- neg ! idx + resolution p)] else dst)"

definition updateESDF3d :: "MapParam \<Rightarrow> MapData \<Rightarrow> MapData option" where
  "updateESDF3d p d =
     (let lo = local_bound_min d; hi = local_bound_max d in
      case esdf_sweep p (obstacle_cost p d) lo hi (tmp_buffer1 d) (tmp_buffer2 d) (distance_buffer d) of
        None \<Rightarrow> None
      | Some (t1, t2, ds) \<Rightarrow>
          if \<not> signed_dist p then Some (d\<lparr>tmp_buffer1 := t1, tmp_buffer2 := t2, distance_buffer := ds\<rparr>)
          else (case esdf_sweep p (free_cost p d) lo hi t1 t2 (distance_buffer_neg d) of
                  None \<Rightarrow> None
                | Some (t1', t2', neg) \<Rightarrow>
                    Some (d\<lparr>tmp_buffer1 := t1', tmp_buffer2 := t2', distance_buffer_neg := neg,
                      distance_buffer := fold (merge_negative p neg) (box_cells lo hi) ds\<rparr>)))"

section \<open>The reference\<close>

definition sq_dist :: "idx3 \<Rightarrow> idx3 \<Rightarrow> int" where
  "sq_dist i j = (case zip3 (-) i j of (x, y, z) \<Rightarrow> x * x + y * y + z * z)"

definition nearest :: "(idx3 \<Rightarrow> real) \<Rightarrow> idx3 \<Rightarrow> idx3 \<Rightarrow> idx3 \<Rightarrow> real" where
  "nearest cost lo hi i = Min ((\<lambda>j. of_int (sq_dist i j) + cost j) ` set (box_cells lo hi))"

lemma set_box_cells: "set (box_cells lo hi) = {i. all3 (\<le>) lo i \<and> all3 (\<le>) i hi}"
proof -
  obtain lx ly lz hx hy hz where "lo = (lx, ly, lz)" "hi = (hx, hy, hz)" by (metis prod.collapse)
  then show ?thesis by (auto simp: box_cells_def image_iff)
qed

section \<open>One pass\<close>

lemma for_each_fold:
  assumes "\<And>x s. x \<in> set xs \<Longrightarrow> f x s = Some (g x s)"
  shows "for_each f xs s = Some (fold g xs s)"
  using assms by (induction xs arbitrary: s) auto

lemma fold_concat: "fold f (concat xss) = fold (fold f) xss"
  by (induction xss) auto

definition pass_cells :: "(int \<Rightarrow> int \<Rightarrow> nat \<Rightarrow> idx3) \<Rightarrow> int list \<Rightarrow> int list \<Rightarrow> nat \<Rightarrow> nat \<Rightarrow> idx3 list" where
  "pass_cells cell us ws a b =
     concat (map (\<lambda>u. concat (map (\<lambda>w. map (cell u w) [a..<b + 1]) ws)) us)"

lemma set_pass_cells:
  "set (pass_cells cell us ws a b) = {cell u w q | u w q. u \<in> set us \<and> w \<in> set ws \<and> q \<in> {a..b}}"
  by (fastforce simp: pass_cells_def simp del: upt_Suc)

lemma esdf_pass_ok:
  assumes p: "dims_ok p" and len: "length buf = nat (getVoxelNum p)"
    and un: "\<And>u w q. un (cell u w q) = (u, w, q)"
    and val: "\<And>u w q. u \<in> set us \<Longrightarrow> w \<in> set ws \<Longrightarrow> q \<in> {nat lo..nat hi} \<Longrightarrow> isInMap p (cell u w q)"
    and small: "\<And>u w. u \<in> set us \<Longrightarrow> w \<in> set ws \<Longrightarrow>
      small_values (\<lambda>q. get (cell u w q)) (nat n) (nat lo) (nat hi)"
  shows "\<exists>buf'. esdf_pass p get wr cell us ws (lo, hi, n) buf = Some buf' \<and> length buf' = length buf \<and>
    (\<forall>u \<in> set us. \<forall>w \<in> set ws. \<forall>q \<in> {nat lo..nat hi}.
       buf' ! nat (toAddress p (cell u w q)) = wr (lower_envelope (\<lambda>q. get (cell u w q)) (nat lo) (nat hi) q)) \<and>
    (\<forall>i. isInMap p i \<longrightarrow> i \<notin> set (pass_cells cell us ws (nat lo) (nat hi)) \<longrightarrow>
       buf' ! nat (toAddress p i) = buf ! nat (toAddress p i))"
proof -
  define g where "g i = (case un i of (u, w, q) \<Rightarrow>
      wr (lower_envelope (\<lambda>q. get (cell u w q)) (nat lo) (nat hi) q))" for i
  let ?W = "\<lambda>i b. b[nat (toAddress p i) := g i]"
  let ?cells = "pass_cells cell us ws (nat lo) (nat hi)"
  have "fillESDF (\<lambda>q. get (cell u w q)) (\<lambda>q val b. b[nat (toAddress p (cell u w q)) := wr val])
      (nat lo) (nat hi) (nat n) b = Some (fold ?W (map (cell u w) [nat lo..<nat hi + 1]) b)"
    if "u \<in> set us" "w \<in> set ws" for u w b
    using fillESDF_eq [OF small [OF that]] by (simp add: g_def un fold_map comp_def del: upt_Suc)
  then have "esdf_pass p get wr cell us ws (lo, hi, n) buf =
      Some (fold (\<lambda>u. fold (\<lambda>w. fold ?W (map (cell u w) [nat lo..<nat hi + 1])) ws) us buf)"
    unfolding esdf_pass_def prod.case by (intro for_each_fold) (auto intro: for_each_fold)
  also have "\<dots> = Some (fold ?W ?cells buf)"
    by (simp add: pass_cells_def fold_concat fold_map comp_def del: upt_Suc)
  finally have eq: "esdf_pass p get wr cell us ws (lo, hi, n) buf = Some (fold ?W ?cells buf)" .
  have valid: "\<forall>i \<in> set ?cells. isInMap p i" using val by (auto simp: set_pass_cells)
  have nth: "fold ?W ?cells buf ! nat (toAddress p j) =
      (if j \<in> set ?cells then g j else buf ! nat (toAddress p j))" if "isInMap p j" for j
    by (rule voxel.fold_write [OF p valid that len])
  have "g (cell u w q) = wr (lower_envelope (\<lambda>q. get (cell u w q)) (nat lo) (nat hi) q)" for u w q
    by (simp add: g_def un)
  then have cells: "fold ?W ?cells buf ! nat (toAddress p (cell u w q)) =
      wr (lower_envelope (\<lambda>q. get (cell u w q)) (nat lo) (nat hi) q)"
    if "u \<in> set us" "w \<in> set ws" "q \<in> {nat lo..nat hi}" for u w q
    using nth [OF val [OF that]] that by (auto simp: set_pass_cells)
  show ?thesis
    unfolding eq using nth cells by (auto simp: voxel.length_fold_write)
qed

section \<open>Three passes\<close>

lemma dbl_max_large: "(2::real) ^ 80 \<le> dbl_max"
proof -
  have "(2::real) ^ 80 \<le> 1 * 2 ^ 1023" by simp
  also have "\<dots> \<le> dbl_max" unfolding dbl_max_def by (intro mult_right_mono) simp_all
  finally show ?thesis .
qed

lemma int_dim_small:
  assumes "0 \<le> n" and "n \<le> int_max"
  shows "real (nat n) \<le> dbl_max" and "real (nat n) * real (nat n) < dbl_max"
proof -
  have n: "real (nat n) \<le> 2 ^ 31" using assms by simp
  then show "real (nat n) \<le> dbl_max" using dbl_max_large by simp
  have "real (nat n) * real (nat n) \<le> 2 ^ 31 * 2 ^ 31" using n by (intro mult_mono) auto
  also have "\<dots> < (2::real) ^ 80" by simp
  finally show "real (nat n) * real (nat n) < dbl_max" using dbl_max_large by linarith
qed

lemma le_lower_envelope_iff:
  "a \<le> b \<Longrightarrow> c \<le> lower_envelope f a b q \<longleftrightarrow> (\<forall>p \<in> {a..b}. c \<le> parabola f p (real q))"
  by (simp add: lower_envelope_def)

lemma lower_envelope_bounds:
  assumes "q \<in> {a..b}" and "\<forall>q \<in> {a..b}. 0 \<le> f q \<and> f q \<le> m"
  shows "0 \<le> lower_envelope f a b q" and "lower_envelope f a b q \<le> m"
proof -
  show "0 \<le> lower_envelope f a b q" using assms by (simp add: le_lower_envelope_iff parabola_def)
  have "lower_envelope f a b q \<le> parabola f q (real q)"
    using assms(1) by (simp add: lower_envelope_def)
  with assms show "lower_envelope f a b q \<le> m" by (auto simp: parabola_def intro: order_trans)
qed

text \<open>The minimum of the minima along the three axes is the minimum over the box.\<close>

definition int_envelope :: "(int \<Rightarrow> real) \<Rightarrow> int \<Rightarrow> int \<Rightarrow> int \<Rightarrow> real" where
  "int_envelope f a b x = Min ((\<lambda>k. of_int ((x - k) * (x - k)) + f k) ` {a..b})"

lemma lower_envelope_int:
  assumes "0 \<le> a" and "0 \<le> x" and "a \<le> b"
  shows "lower_envelope (\<lambda>q. f (int q)) (nat a) (nat b) (nat x) = int_envelope f a b x"
proof -
  have "(\<lambda>p. parabola (\<lambda>q. f (int q)) p (real (nat x))) ` {nat a..nat b} =
      (\<lambda>k. of_int ((x - k) * (x - k)) + f k) ` (int ` {nat a..nat b})"
    using assms(2) by (auto simp: parabola_def image_comp comp_def)
  also have "int ` {nat a..nat b} = {a..b}"
    using assms by (auto simp: image_int_atLeastAtMost)
  finally show ?thesis
    by (simp only: lower_envelope_def int_envelope_def)
qed

lemma le_int_envelope_iff:
  "a \<le> b \<Longrightarrow> c \<le> int_envelope f a b x \<longleftrightarrow> (\<forall>k \<in> {a..b}. c \<le> of_int ((x - k) * (x - k)) + f k)"
  by (simp add: int_envelope_def)

lemma le_nearest_iff:
  "all3 (\<le>) lo hi \<Longrightarrow> c \<le> nearest cost lo hi i \<longleftrightarrow>
   (\<forall>j. all3 (\<le>) lo j \<longrightarrow> all3 (\<le>) j hi \<longrightarrow> c \<le> of_int (sq_dist i j) + cost j)"
proof -
  assume le: "all3 (\<le>) lo hi"
  then have "lo \<in> set (box_cells lo hi)" by (auto simp: set_box_cells all3_def split: prod.splits)
  then have "set (box_cells lo hi) \<noteq> {}" by auto
  then have "c \<le> nearest cost lo hi i \<longleftrightarrow>
      (\<forall>j \<in> set (box_cells lo hi). c \<le> of_int (sq_dist i j) + cost j)"
    unfolding nearest_def by (subst Min_ge_iff) auto
  then show ?thesis by (simp only: set_box_cells mem_Collect_eq Ball_def imp_conjL)
qed

lemma nearest_axes:
  assumes "all3 (\<le>) (lx, ly, lz) (hx, hy, hz)"
  shows "int_envelope (\<lambda>x'. int_envelope (\<lambda>y'. int_envelope (\<lambda>z'. cost (x', y', z')) lz hz z) ly hy y) lx hx x =
    nearest cost (lx, ly, lz) (hx, hy, hz) (x, y, z)"
proof -
  have shift: "c \<le> k + m \<longleftrightarrow> c - k \<le> m" for c k m :: real by auto
  have le: "lx \<le> hx" "ly \<le> hy" "lz \<le> hz" using assms by auto
  have "c \<le> int_envelope (\<lambda>x'. int_envelope (\<lambda>y'. int_envelope (\<lambda>z'. cost (x', y', z')) lz hz z) ly hy y) lx hx x
      \<longleftrightarrow> c \<le> nearest cost (lx, ly, lz) (hx, hy, hz) (x, y, z)" (is "?l \<longleftrightarrow> ?r") for c
  proof -
    have "?l \<longleftrightarrow> (\<forall>x' \<in> {lx..hx}. \<forall>y' \<in> {ly..hy}. \<forall>z' \<in> {lz..hz}.
        c - of_int ((x - x') * (x - x')) - of_int ((y - y') * (y - y')) - of_int ((z - z') * (z - z'))
          \<le> cost (x', y', z'))"
      by (simp only: le_int_envelope_iff [OF le(1)] le_int_envelope_iff [OF le(2)]
        le_int_envelope_iff [OF le(3)] shift)
    also have "\<dots> \<longleftrightarrow> ?r"
      unfolding le_nearest_iff [OF assms]
      by (simp add: split_paired_all [symmetric] sq_dist_def) (auto simp: algebra_simps)
    finally show ?thesis .
  qed
  then show ?thesis by (meson order_antisym order_refl)
qed

lemma int_envelope_bounds:
  assumes "k \<in> {a..b}" and "\<And>k. k \<in> {a..b} \<Longrightarrow> 0 \<le> f k \<and> f k \<le> m"
  shows "0 \<le> int_envelope f a b k \<and> int_envelope f a b k \<le> m"
proof -
  have ab: "a \<le> b" using assms(1) by simp
  have "int_envelope f a b k \<le> of_int ((k - k) * (k - k)) + f k"
    unfolding int_envelope_def by (rule Min_le) (use assms(1) in blast)+
  moreover have "0 \<le> of_int ((k - j) * (k - j)) + f j" if "j \<in> {a..b}" for j
    using assms(2) [OF that] zero_le_square [of "k - j"] by (simp del: zero_le_square of_int_mult)
  ultimately show ?thesis using assms(2) [OF assms(1)] by (simp add: le_int_envelope_iff [OF ab])
qed

lemma int_envelope_cong:
  "(\<And>k. k \<in> {a..b} \<Longrightarrow> f k = g k) \<Longrightarrow> int_envelope f a b x = int_envelope g a b x"
  unfolding int_envelope_def by (intro arg_cong [where f = Min] image_cong) auto

lemma esdf_pass_int:
  assumes p: "dims_ok p" and len: "length buf = nat (getVoxelNum p)"
    and un: "\<And>u w q. un (cell u w q) = (u, w, q)"
    and line: "0 \<le> lo" "lo \<le> hi" "hi < n" "n \<le> int_max"
    and val: "\<forall>u \<in> set us. \<forall>w \<in> set ws. \<forall>k \<in> {lo..hi}.
      isInMap p (cell u w (nat k)) \<and> 0 \<le> get (cell u w (nat k)) \<and> get (cell u w (nat k)) \<le> dbl_max"
  shows "\<exists>buf'. esdf_pass p get wr cell us ws (lo, hi, n) buf = Some buf' \<and> length buf' = length buf \<and>
    (\<forall>u \<in> set us. \<forall>w \<in> set ws. \<forall>k \<in> {lo..hi}. buf' ! nat (toAddress p (cell u w (nat k))) =
       wr (int_envelope (\<lambda>k. get (cell u w (nat k))) lo hi k)) \<and>
    (\<forall>i. isInMap p i \<longrightarrow> i \<notin> {cell u w (nat k) | u w k. u \<in> set us \<and> w \<in> set ws \<and> k \<in> {lo..hi}} \<longrightarrow>
       buf' ! nat (toAddress p i) = buf ! nat (toAddress p i))"
proof -
  have nat_cell: "\<exists>k \<in> {lo..hi}. nat k = q" if "q \<in> {nat lo..nat hi}" for q
    using that line by (intro bexI [of _ "int q"]) auto
  have small: "small_values (\<lambda>q. get (cell u w q)) (nat n) (nat lo) (nat hi)"
    if "u \<in> set us" "w \<in> set ws" for u w
    unfolding small_values_def
  proof (intro conjI ballI)
    fix q assume "q \<in> {nat lo..nat hi}"
    from nat_cell [OF this] obtain k where "k \<in> {lo..hi}" "nat k = q" by blast
    with val that have *: "0 \<le> get (cell u w q)" "get (cell u w q) \<le> dbl_max" by auto
    then show "0 \<le> get (cell u w q)" by simp
    have "0 \<le> n" using line by simp
    from int_dim_small(2) [OF this line(4)] *
    show "get (cell u w q) + real (nat n) * real (nat n) < 2 * dbl_max" by linarith
  qed (use line int_dim_small(1) [of n] in auto)
  have val': "isInMap p (cell u w q)" if "u \<in> set us" "w \<in> set ws" "q \<in> {nat lo..nat hi}" for u w q
    using nat_cell [OF that(3)] val that(1,2) by auto
  obtain buf' where b: "esdf_pass p get wr cell us ws (lo, hi, n) buf = Some buf'" "length buf' = length buf"
      "\<And>u w q. u \<in> set us \<Longrightarrow> w \<in> set ws \<Longrightarrow> q \<in> {nat lo..nat hi} \<Longrightarrow>
         buf' ! nat (toAddress p (cell u w q)) = wr (lower_envelope (\<lambda>q. get (cell u w q)) (nat lo) (nat hi) q)"
      "\<And>i. isInMap p i \<Longrightarrow> i \<notin> set (pass_cells cell us ws (nat lo) (nat hi)) \<Longrightarrow>
         buf' ! nat (toAddress p i) = buf ! nat (toAddress p i)"
    using esdf_pass_ok [where get = get and cell = cell and wr = wr, OF p len un val' small] by blast
  have "buf' ! nat (toAddress p (cell u w (nat k))) = wr (int_envelope (\<lambda>k. get (cell u w (nat k))) lo hi k)"
    if "u \<in> set us" "w \<in> set ws" "k \<in> {lo..hi}" for u w k
  proof -
    have "nat k \<in> {nat lo..nat hi}" using that(3) by auto
    with b(3) [OF that(1,2)] have "buf' ! nat (toAddress p (cell u w (nat k))) =
        wr (lower_envelope (\<lambda>q. get (cell u w (nat (int q)))) (nat lo) (nat hi) (nat k))" by simp
    also have "lower_envelope (\<lambda>q. get (cell u w (nat (int q)))) (nat lo) (nat hi) (nat k) =
        int_envelope (\<lambda>k. get (cell u w (nat k))) lo hi k"
      by (rule lower_envelope_int [OF line(1) _ line(2)]) (use that(3) line in auto)
    finally show ?thesis .
  qed
  moreover have "buf' ! nat (toAddress p i) = buf ! nat (toAddress p i)"
    if "isInMap p i" "i \<notin> {cell u w (nat k) | u w k. u \<in> set us \<and> w \<in> set ws \<and> k \<in> {lo..hi}}" for i
  proof (rule b(4) [OF that(1)])
    show "i \<notin> set (pass_cells cell us ws (nat lo) (nat hi))"
      using that(2) nat_cell unfolding set_pass_cells by blast
  qed
  ultimately show ?thesis using b(1,2) by blast
qed

lemma box_in_map:
  assumes "isInMap p (lx, ly, lz)" and "isInMap p (hx, hy, hz)"
    and "x \<in> {lx..hx}" "y \<in> {ly..hy}" "z \<in> {lz..hz}"
  shows "isInMap p (x, y, z)"
  using assms by (cases "map_voxel_num p") (auto simp: isInMap_def)

lemma box_cells_in_map:
  assumes "isInMap p lo" and "isInMap p hi" and "i \<in> set (box_cells lo hi)"
  shows "isInMap p i"
proof -
  obtain lx ly lz hx hy hz x y z where "lo = (lx, ly, lz)" "hi = (hx, hy, hz)" "i = (x, y, z)"
    by (metis prod.collapse)
  with assms box_in_map [of p lx ly lz hx hy hz x y z] show ?thesis by (simp add: set_box_cells)
qed

lemma esdf_sweep_ok:
  assumes p: "dims_ok p" and len: "length b1 = nat (getVoxelNum p)" "length b2 = nat (getVoxelNum p)"
      "length b3 = nat (getVoxelNum p)"
    and box: "isInMap p lo" "isInMap p hi" "all3 (\<le>) lo hi"
    and cost: "\<forall>i. 0 \<le> cost i \<and> cost i \<le> dbl_max"
  shows "\<exists>t1 t2 ds. esdf_sweep p cost lo hi b1 b2 b3 = Some (t1, t2, ds) \<and>
    length t1 = length b1 \<and> length t2 = length b2 \<and> length ds = length b3 \<and>
    (\<forall>i \<in> set (box_cells lo hi). ds ! nat (toAddress p i) = resolution p * sqrt (nearest cost lo hi i)) \<and>
    (\<forall>i. isInMap p i \<longrightarrow> i \<notin> set (box_cells lo hi) \<longrightarrow>
       ds ! nat (toAddress p i) = b3 ! nat (toAddress p i))"
proof -
  obtain lx ly lz hx hy hz nx ny nz where e: "lo = (lx, ly, lz)" "hi = (hx, hy, hz)" "map_voxel_num p = (nx, ny, nz)"
    by (metis prod.collapse)
  have b: "0 \<le> lx" "0 \<le> ly" "0 \<le> lz" "lx \<le> hx" "ly \<le> hy" "lz \<le> hz" "hx < nx" "hy < ny" "hz < nz"
      "nx \<le> int_max" "ny \<le> int_max" "nz \<le> int_max"
    using p box by (auto simp: e dims_ok_def isInMap_def)
  note inm = box_in_map [OF box(1,2) [unfolded e]]
  obtain t1 where t1: "esdf_pass p cost (\<lambda>val. val) (\<lambda>x y z. (x, y, int z)) [lx..hx] [ly..hy] (lz, hz, nz) b1 = Some t1"
      "length t1 = length b1"
      "\<And>x y z. x \<in> {lx..hx} \<Longrightarrow> y \<in> {ly..hy} \<Longrightarrow> z \<in> {lz..hz} \<Longrightarrow>
         t1 ! nat (toAddress p (x, y, z)) = int_envelope (\<lambda>z. cost (x, y, z)) lz hz z"
  proof -
    have v: "\<forall>x \<in> set [lx..hx]. \<forall>y \<in> set [ly..hy]. \<forall>k \<in> {lz..hz}. isInMap p (x, y, int (nat k)) \<and> 0 \<le> cost (x, y, int (nat k)) \<and> cost (x, y, int (nat k)) \<le> dbl_max"
      using inm cost b by auto
    have un: "(\<lambda>(x, y, z). (x, y, nat z)) (x, y, int q) = (x, y, q)" for x y :: int and q by simp
    from esdf_pass_int [where un = "\<lambda>(x, y, z). (x, y, nat z)" and cell = "\<lambda>x y z. (x, y, int z)"
        and us = "[lx..hx]" and ws = "[ly..hy]"
        and wr = "\<lambda>val. val" and get = cost, OF p len(1) un b(3,6,9,12) v]
    obtain t where "esdf_pass p cost (\<lambda>val. val) (\<lambda>x y z. (x, y, int z)) [lx..hx] [ly..hy] (lz, hz, nz) b1 = Some t"
      "length t = length b1"
      "\<forall>x \<in> {lx..hx}. \<forall>y \<in> {ly..hy}. \<forall>z \<in> {lz..hz}.
         t ! nat (toAddress p (x, y, int (nat z))) = int_envelope (\<lambda>z. cost (x, y, int (nat z))) lz hz z"
      by (auto simp only: set_upto)
    moreover have "int_envelope (\<lambda>z. cost (x, y, int (nat z))) lz hz z = int_envelope (\<lambda>z. cost (x, y, z)) lz hz z"
      for x y z using b(3) by (intro int_envelope_cong) auto
    ultimately show thesis using b(3) by (intro that [of t]) auto
  qed
  obtain t2 where t2: "esdf_pass p (\<lambda>i. t1 ! nat (toAddress p i)) (\<lambda>val. val) (\<lambda>x z y. (x, int y, z))
        [lx..hx] [lz..hz] (ly, hy, ny) b2 = Some t2" "length t2 = length b2"
      "\<And>x y z. x \<in> {lx..hx} \<Longrightarrow> y \<in> {ly..hy} \<Longrightarrow> z \<in> {lz..hz} \<Longrightarrow> t2 ! nat (toAddress p (x, y, z)) =
         int_envelope (\<lambda>y. t1 ! nat (toAddress p (x, y, z))) ly hy y"
  proof -
    have v: "\<forall>x \<in> set [lx..hx]. \<forall>z \<in> set [lz..hz]. \<forall>k \<in> {ly..hy}. isInMap p (x, int (nat k), z) \<and> 0 \<le> t1 ! nat (toAddress p (x, int (nat k), z)) \<and>
        t1 ! nat (toAddress p (x, int (nat k), z)) \<le> dbl_max"
    proof (intro ballI)
      fix x z k assume *: "x \<in> set [lx..hx]" "z \<in> set [lz..hz]" "k \<in> {ly..hy}"
      with t1(3) [of x k z] int_envelope_bounds [of z lz hz "\<lambda>z. cost (x, k, z)" dbl_max] cost inm b
      show "isInMap p (x, int (nat k), z) \<and> 0 \<le> t1 ! nat (toAddress p (x, int (nat k), z)) \<and>
        t1 ! nat (toAddress p (x, int (nat k), z)) \<le> dbl_max" by auto
    qed
    have un: "(\<lambda>(x, y, z). (x, z, nat y)) (x, int q, z) = (x, z, q)" for x z :: int and q by simp
    from esdf_pass_int [where un = "\<lambda>(x, y, z). (x, z, nat y)" and cell = "\<lambda>x z y. (x, int y, z)"
        and us = "[lx..hx]" and ws = "[lz..hz]"
        and wr = "\<lambda>val. val" and get = "\<lambda>i. t1 ! nat (toAddress p i)", OF p len(2) un b(2,5,8,11) v]
    obtain t where "esdf_pass p (\<lambda>i. t1 ! nat (toAddress p i)) (\<lambda>val. val) (\<lambda>x z y. (x, int y, z))
        [lx..hx] [lz..hz] (ly, hy, ny) b2 = Some t" "length t = length b2"
      "\<forall>x \<in> {lx..hx}. \<forall>z \<in> {lz..hz}. \<forall>y \<in> {ly..hy}. t ! nat (toAddress p (x, int (nat y), z)) =
         int_envelope (\<lambda>y. t1 ! nat (toAddress p (x, int (nat y), z))) ly hy y"
      by (auto simp only: set_upto)
    moreover have "int_envelope (\<lambda>y. t1 ! nat (toAddress p (x, int (nat y), z))) ly hy y =
        int_envelope (\<lambda>y. t1 ! nat (toAddress p (x, y, z))) ly hy y"
      for x y z using b(2) by (intro int_envelope_cong) auto
    ultimately show thesis using b(2) by (intro that [of t]) auto
  qed
  obtain t3 where t3: "esdf_pass p (\<lambda>i. t2 ! nat (toAddress p i)) (\<lambda>val. resolution p * sqrt val)
        (\<lambda>y z x. (int x, y, z)) [ly..hy] [lz..hz] (lx, hx, nx) b3 = Some t3" "length t3 = length b3"
      "\<And>x y z. x \<in> {lx..hx} \<Longrightarrow> y \<in> {ly..hy} \<Longrightarrow> z \<in> {lz..hz} \<Longrightarrow> t3 ! nat (toAddress p (x, y, z)) =
         resolution p * sqrt (int_envelope (\<lambda>x. t2 ! nat (toAddress p (x, y, z))) lx hx x)"
      "\<And>i. isInMap p i \<Longrightarrow> i \<notin> set (box_cells lo hi) \<Longrightarrow> t3 ! nat (toAddress p i) = b3 ! nat (toAddress p i)"
  proof -
    have v: "\<forall>y \<in> set [ly..hy]. \<forall>z \<in> set [lz..hz]. \<forall>k \<in> {lx..hx}. isInMap p (int (nat k), y, z) \<and> 0 \<le> t2 ! nat (toAddress p (int (nat k), y, z)) \<and>
        t2 ! nat (toAddress p (int (nat k), y, z)) \<le> dbl_max"
    proof (intro ballI)
      fix y z k assume *: "y \<in> set [ly..hy]" "z \<in> set [lz..hz]" "k \<in> {lx..hx}"
      have "0 \<le> t1 ! nat (toAddress p (k, y', z)) \<and> t1 ! nat (toAddress p (k, y', z)) \<le> dbl_max"
        if "y' \<in> {ly..hy}" for y'
        using t1(3) [of k y' z] int_envelope_bounds [of z lz hz "\<lambda>z. cost (k, y', z)" dbl_max] cost inm [of k y']
          that * by auto
      with t2(3) [of k y z] int_envelope_bounds [of y ly hy "\<lambda>y. t1 ! nat (toAddress p (k, y, z))" dbl_max]
        inm [of k y z] * b
      show "isInMap p (int (nat k), y, z) \<and> 0 \<le> t2 ! nat (toAddress p (int (nat k), y, z)) \<and>
        t2 ! nat (toAddress p (int (nat k), y, z)) \<le> dbl_max" by auto
    qed
    have cells: "{(int (nat k), y, z) | y z k. y \<in> set [ly..hy] \<and> z \<in> set [lz..hz] \<and> k \<in> {lx..hx}} =
        set (box_cells lo hi)"
      using b(1) by (force simp: set_box_cells e)
    have un: "(\<lambda>(x, y, z). (y, z, nat x)) (int q, y, z) = (y, z, q)" for y z :: int and q by simp
    from esdf_pass_int [where un = "\<lambda>(x, y, z). (y, z, nat x)" and cell = "\<lambda>y z x. (int x, y, z)"
        and us = "[ly..hy]" and ws = "[lz..hz]"
        and wr = "\<lambda>val. resolution p * sqrt val" and get = "\<lambda>i. t2 ! nat (toAddress p i)",
        OF p len(3) un b(1,4,7,10) v, unfolded cells]
    obtain t where "esdf_pass p (\<lambda>i. t2 ! nat (toAddress p i)) (\<lambda>val. resolution p * sqrt val)
        (\<lambda>y z x. (int x, y, z)) [ly..hy] [lz..hz] (lx, hx, nx) b3 = Some t" "length t = length b3"
      "\<forall>y \<in> {ly..hy}. \<forall>z \<in> {lz..hz}. \<forall>x \<in> {lx..hx}. t ! nat (toAddress p (int (nat x), y, z)) =
         resolution p * sqrt (int_envelope (\<lambda>x. t2 ! nat (toAddress p (int (nat x), y, z))) lx hx x)"
      "\<forall>i. isInMap p i \<longrightarrow> i \<notin> set (box_cells lo hi) \<longrightarrow> t ! nat (toAddress p i) = b3 ! nat (toAddress p i)"
      by (auto simp only: set_upto)
    moreover have "int_envelope (\<lambda>x. t2 ! nat (toAddress p (int (nat x), y, z))) lx hx x =
        int_envelope (\<lambda>x. t2 ! nat (toAddress p (x, y, z))) lx hx x"
      for x y z using b(1) by (intro int_envelope_cong) auto
    ultimately show thesis using b(1) by (intro that [of t]) auto
  qed
  have "t3 ! nat (toAddress p (x, y, z)) = resolution p * sqrt (nearest cost lo hi (x, y, z))"
    if "x \<in> {lx..hx}" "y \<in> {ly..hy}" "z \<in> {lz..hz}" for x y z
  proof -
    have "int_envelope (\<lambda>x. t2 ! nat (toAddress p (x, y, z))) lx hx x =
        int_envelope (\<lambda>x. int_envelope (\<lambda>y. int_envelope (\<lambda>z. cost (x, y, z)) lz hz z) ly hy y) lx hx x"
    proof (rule int_envelope_cong)
      fix k assume k: "k \<in> {lx..hx}"
      have "t2 ! nat (toAddress p (k, y, z)) = int_envelope (\<lambda>y. t1 ! nat (toAddress p (k, y, z))) ly hy y"
        by (rule t2(3) [OF k that(2,3)])
      also have "\<dots> = int_envelope (\<lambda>y. int_envelope (\<lambda>z. cost (k, y, z)) lz hz z) ly hy y"
        by (rule int_envelope_cong) (rule t1(3) [OF k _ that(3)])
      finally show "t2 ! nat (toAddress p (k, y, z)) =
          int_envelope (\<lambda>y. int_envelope (\<lambda>z. cost (k, y, z)) lz hz z) ly hy y" .
    qed
    with t3(3) [OF that] nearest_axes [OF box(3) [unfolded e]] show ?thesis by (simp only: e)
  qed
  then show ?thesis
    using t1(1,2) t2(1,2) t3(1,2,4) by (auto simp: esdf_sweep_def e set_box_cells)
qed

section \<open>The whole update\<close>

lemma distinct_box_cells: "distinct (box_cells lo hi)"
proof -
  obtain lx ly lz hx hy hz where e: "lo = (lx, ly, lz)" "hi = (hx, hy, hz)" by (metis prod.collapse)
  have "box_cells lo hi = map (\<lambda>(x, y, z). (x, y, z)) (List.product [lx..hx] (List.product [ly..hy] [lz..hz]))"
    by (simp add: box_cells_def e product_concat_map map_concat comp_def)
  then show ?thesis by (simp add: distinct_product case_prod_beta)
qed

lemma fold_merge_negative:
  assumes p: "dims_ok p" and "\<forall>i \<in> set is. isInMap p i" and "distinct is" and j: "isInMap p j"
    and "length ds = nat (getVoxelNum p)"
  shows "fold (merge_negative p neg) is ds ! nat (toAddress p j) =
    (let a = nat (toAddress p j) in
     if j \<in> set is \<and> neg ! a > 0 then ds ! a + (- neg ! a + resolution p) else ds ! a)"
  using assms(2,3,5)
proof (induction "is" arbitrary: ds)
  case (Cons i "is")
  let ?ds = "merge_negative p neg i ds"
  have len: "length ?ds = nat (getVoxelNum p)"
    using Cons.prems(3) by (simp add: merge_negative_def Let_def)
  have "?ds ! nat (toAddress p j) = (let a = nat (toAddress p j) in
      if i = j \<and> neg ! a > 0 then ds ! a + (- neg ! a + resolution p) else ds ! a)"
    using voxel.nth_update [OF p _ j, of i ds] voxel.nat_encode_less [OF p j Cons.prems(3)] Cons.prems
    by (cases "i = j") (simp_all add: merge_negative_def Let_def)
  with Cons.IH [OF _ _ len] Cons.prems show ?case by (auto simp: Let_def)
qed (simp add: Let_def)

lemma length_fold_merge: "length (fold (merge_negative p neg) is ds) = length ds"
  by (induction "is" arbitrary: ds) (auto simp: merge_negative_def Let_def)

text \<open>What the updated cells hold: the least distance to an obstacle, less the depth inside one.\<close>

definition esdf_value :: "MapParam \<Rightarrow> MapData \<Rightarrow> idx3 \<Rightarrow> real" where
  "esdf_value p d i =
     (let lo = local_bound_min d; hi = local_bound_max d;
          out = resolution p * sqrt (nearest (obstacle_cost p d) lo hi i);
          depth = resolution p * sqrt (nearest (free_cost p d) lo hi i)
      in if signed_dist p \<and> depth > 0 then out + (- depth + resolution p) else out)"

text \<open>A map whose updated box lies inside it, as after a cloud.\<close>

definition esdf_ready :: "MapParam \<Rightarrow> MapData \<Rightarrow> bool" where
  "esdf_ready p d \<longleftrightarrow> dims_ok p \<and> buffers_ok p d \<and> isInMap p (local_bound_min d) \<and>
     isInMap p (local_bound_max d) \<and> all3 (\<le>) (local_bound_min d) (local_bound_max d)"

lemma updateESDF3d_value:
  assumes "esdf_ready p d"
  shows "\<exists>d'. updateESDF3d p d = Some d' \<and> buffers_ok p d' \<and>
    (\<forall>i. isInMap p i \<longrightarrow> distance_buffer d' ! nat (toAddress p i) =
       (if i \<in> set (box_cells (local_bound_min d) (local_bound_max d)) then esdf_value p d i
        else distance_buffer d ! nat (toAddress p i)))"
proof -
  let ?lo = "local_bound_min d" and ?hi = "local_bound_max d"
  have p: "dims_ok p" and box: "isInMap p ?lo" "isInMap p ?hi" "all3 (\<le>) ?lo ?hi"
    and len: "length (tmp_buffer1 d) = nat (getVoxelNum p)" "length (tmp_buffer2 d) = nat (getVoxelNum p)"
      "length (distance_buffer d) = nat (getVoxelNum p)" "length (distance_buffer_neg d) = nat (getVoxelNum p)"
    and bufs: "buffers_ok p d"
    using assms by (auto simp: esdf_ready_def buffers_ok_def)
  have c: "\<forall>i. 0 \<le> obstacle_cost p d i \<and> obstacle_cost p d i \<le> dbl_max"
    "\<forall>i. 0 \<le> free_cost p d i \<and> free_cost p d i \<le> dbl_max"
    using dbl_max_pos by (auto simp: obstacle_cost_def free_cost_def Let_def)
  obtain t1 t2 ds where s: "esdf_sweep p (obstacle_cost p d) ?lo ?hi (tmp_buffer1 d) (tmp_buffer2 d)
      (distance_buffer d) = Some (t1, t2, ds)" "length t1 = nat (getVoxelNum p)" "length t2 = nat (getVoxelNum p)"
      "length ds = nat (getVoxelNum p)"
      "\<And>i. i \<in> set (box_cells ?lo ?hi) \<Longrightarrow>
         ds ! nat (toAddress p i) = resolution p * sqrt (nearest (obstacle_cost p d) ?lo ?hi i)"
      "\<And>i. isInMap p i \<Longrightarrow> i \<notin> set (box_cells ?lo ?hi) \<Longrightarrow>
         ds ! nat (toAddress p i) = distance_buffer d ! nat (toAddress p i)"
    using esdf_sweep_ok [OF p len(1,2,3) box c(1), unfolded len] by blast
  show ?thesis
  proof (cases "signed_dist p")
    case False
    let ?d = "d\<lparr>tmp_buffer1 := t1, tmp_buffer2 := t2, distance_buffer := ds\<rparr>"
    have "updateESDF3d p d = Some ?d"
      using s(1) False by (simp only: updateESDF3d_def Let_def option.case prod.case if_True if_False simp_thms)
    moreover have "buffers_ok p ?d" using bufs s(2-4) by (simp add: buffers_ok_def)
    moreover have "distance_buffer ?d ! nat (toAddress p i) =
        (if i \<in> set (box_cells ?lo ?hi) then esdf_value p d i else distance_buffer d ! nat (toAddress p i))"
      if "isInMap p i" for i
      using s(5) [of i] s(6) [OF that] False by (simp add: esdf_value_def Let_def)
    ultimately show ?thesis by blast
  next
    case True
    obtain t1' t2' neg where n: "esdf_sweep p (free_cost p d) ?lo ?hi t1 t2 (distance_buffer_neg d) =
        Some (t1', t2', neg)" "length t1' = nat (getVoxelNum p)" "length t2' = nat (getVoxelNum p)"
        "length neg = nat (getVoxelNum p)"
        "\<And>i. i \<in> set (box_cells ?lo ?hi) \<Longrightarrow>
           neg ! nat (toAddress p i) = resolution p * sqrt (nearest (free_cost p d) ?lo ?hi i)"
      using esdf_sweep_ok [OF p s(2,3) len(4) box c(2)] unfolding s(2,3) len by blast
    have "\<forall>i \<in> set (box_cells ?lo ?hi). isInMap p i"
      using box_cells_in_map [OF box(1,2)] by blast
    note nth = fold_merge_negative [OF p this distinct_box_cells _ s(4), of _ neg]
    let ?d = "d\<lparr>tmp_buffer1 := t1', tmp_buffer2 := t2', distance_buffer_neg := neg,
      distance_buffer := fold (merge_negative p neg) (box_cells ?lo ?hi) ds\<rparr>"
    have "updateESDF3d p d = Some ?d"
      using s(1) n(1) True by (simp only: updateESDF3d_def Let_def option.case prod.case if_True if_False simp_thms)
    moreover have "buffers_ok p ?d" using bufs s(4) n(2-4) by (simp add: buffers_ok_def length_fold_merge)
    moreover have "distance_buffer ?d ! nat (toAddress p i) =
        (if i \<in> set (box_cells ?lo ?hi) then esdf_value p d i else distance_buffer d ! nat (toAddress p i))"
      if "isInMap p i" for i
    proof (cases "i \<in> set (box_cells ?lo ?hi)")
      case True
      with nth [OF that] s(5) [OF True] n(5) [OF True] \<open>signed_dist p\<close> show ?thesis
        by (simp add: esdf_value_def Let_def)
    next
      case False
      with nth [OF that] s(6) [OF that False] show ?thesis by (simp add: Let_def)
    qed
    ultimately show ?thesis by blast
  qed
qed

text \<open>With an obstacle in the box the infinite cost of the free cells plays no role.\<close>

lemma nearest_obstacle:
  assumes "dims_ok p" "isInMap p lo" "isInMap p hi" "i \<in> set (box_cells lo hi)"
    and cost: "\<forall>j. cost j = (if P j then 0 else dbl_max)"
    and ob: "ob \<in> set (box_cells lo hi)" "P ob"
  shows "nearest cost lo hi i = of_int (Min (sq_dist i ` {j \<in> set (box_cells lo hi). P j}))"
proof -
  let ?O = "{j \<in> set (box_cells lo hi). P j}"
  have fin: "finite (sq_dist i ` ?O)" "sq_dist i ` ?O \<noteq> {}" using ob by (simp, blast)
  obtain j where j: "j \<in> ?O" "sq_dist i j = Min (sq_dist i ` ?O)" using Min_in [OF fin] by auto
  have small: "of_int (sq_dist i k) \<le> dbl_max" if "k \<in> set (box_cells lo hi)" for k
  proof -
    obtain ix iy iz kx ky kz lx ly lz hx hy hz nx ny nz where
      e: "i = (ix, iy, iz)" "k = (kx, ky, kz)" "lo = (lx, ly, lz)" "hi = (hx, hy, hz)" "map_voxel_num p = (nx, ny, nz)"
      by (metis prod.collapse)
    have "\<bar>ix - kx\<bar> \<le> 2 ^ 31" "\<bar>iy - ky\<bar> \<le> 2 ^ 31" "\<bar>iz - kz\<bar> \<le> 2 ^ 31"
      using assms(1-4) that by (auto simp: e set_box_cells isInMap_def dims_ok_def)
    then have "(ix - kx) * (ix - kx) \<le> 2 ^ 62" "(iy - ky) * (iy - ky) \<le> 2 ^ 62" "(iz - kz) * (iz - kz) \<le> 2 ^ 62"
      using abs_le_square_iff [of _ "2 ^ 31 :: int"] by (auto simp: power2_eq_square)
    then have "sq_dist i k \<le> 2 ^ 64" by (simp add: sq_dist_def e)
    then have "real_of_int (sq_dist i k) \<le> real_of_int (2 ^ 64)" by (simp only: of_int_le_iff)
    then have "real_of_int (sq_dist i k) \<le> 2 ^ 64" by simp
    with dbl_max_large show ?thesis by simp
  qed
  have pos: "0 \<le> sq_dist i k" for k by (auto simp: sq_dist_def zip3_def split: prod.splits)
  show ?thesis
    unfolding nearest_def
  proof (rule Min_eqI)
    fix y assume "y \<in> (\<lambda>k. of_int (sq_dist i k) + cost k) ` set (box_cells lo hi)"
    then obtain k where k: "k \<in> set (box_cells lo hi)" "y = of_int (sq_dist i k) + cost k" by blast
    show "of_int (Min (sq_dist i ` ?O)) \<le> y"
    proof (cases "P k")
      case True
      with fin k have "Min (sq_dist i ` ?O) \<le> sq_dist i k" by (intro Min_le) auto
      with k True cost show ?thesis by simp
    next
      case False
      have "of_int (sq_dist i j) \<le> dbl_max" using small j(1) by simp
      with False k cost pos [of k] j(2) show ?thesis by simp
    qed
  next
    show "real_of_int (Min (sq_dist i ` ?O)) \<in> (\<lambda>k. of_int (sq_dist i k) + cost k) ` set (box_cells lo hi)"
      using j cost [rule_format, of j] by (intro image_eqI [of _ _ j]) auto
  qed simp
qed

end
