(* ===== verification/Voxel_Fusion.thy ===== *)
theory Voxel_Fusion imports Ray_Caster Voxel_Esdf
begin

text \<open>
  Fusing a point cloud into the voxel map and inflating the obstacles (\<open>inputPointCloud\<close>,
  \<open>setCacheOccupancy\<close>, \<open>closetPointInMap\<close>, \<open>clearAndInflateLocalMap\<close>, \<open>resetBuffer\<close> of
  \<open>plan_env/src/sdf_map.cpp\<close>). An access to a buffer outside its bounds is undefined behaviour of
  the code and gives \<open>None\<close>. \<open>short\<close> and \<open>char\<close> counters keep their 16 and 8 bits.
\<close>

section \<open>The code\<close>

definition wrap_short :: "int \<Rightarrow> int" where
  "wrap_short k = signed_take_bit 15 k"

definition wrap_char :: "int \<Rightarrow> int" where
  "wrap_char k = signed_take_bit 7 k"

definition in_buffer :: "'a list \<Rightarrow> int \<Rightarrow> bool" where
  "in_buffer b adr \<longleftrightarrow> 0 \<le> adr \<and> adr < int (length b)"

definition setCacheOccupancy :: "int \<Rightarrow> int \<Rightarrow> MapData \<Rightarrow> MapData option" where
  "setCacheOccupancy adr occ d =
     (if \<not> in_buffer (count_hit d) adr \<or> \<not> in_buffer (count_miss d) adr then None
      else
        let a = nat adr;
            d1 = (if count_hit d ! a = 0 \<and> count_miss d ! a = 0
                  then d\<lparr>cache_voxel := cache_voxel d @ [adr]\<rparr> else d)
        in Some (if occ = 0 then d1\<lparr>count_miss := (count_miss d1)[a := 1]\<rparr>
                 else d1\<lparr>count_hit := (count_hit d1)[a := wrap_short (count_hit d1 ! a + 1)]\<rparr>))"

definition vec_norm :: "vec3 \<Rightarrow> real" where
  "vec_norm v = (case v of (x, y, z) \<Rightarrow> sqrt (x * x + y * y + z * z))"

text \<open>One axis of the loop of \<open>closetPointInMap\<close>.\<close>

definition clip_axis :: "real \<Rightarrow> real \<Rightarrow> real \<Rightarrow> real \<Rightarrow> real" where
  "clip_axis diff max_tc min_tc min_t =
     (if \<bar>diff\<bar> > 0 then
        let t1 = max_tc / diff; m1 = (if t1 > 0 \<and> t1 < min_t then t1 else min_t);
            t2 = min_tc / diff
        in (if t2 > 0 \<and> t2 < m1 then t2 else m1)
      else min_t)"

definition closetPointInMap :: "MapParam \<Rightarrow> vec3 \<Rightarrow> vec3 \<Rightarrow> vec3" where
  "closetPointInMap p pt camera =
     (let diff = zip3 (-) pt camera; max_tc = zip3 (-) (map_max_boundary p) camera;
          min_tc = zip3 (-) (map_min_boundary p) camera;
          min_t = (case diff of (d0, d1, d2) \<Rightarrow> case max_tc of (a0, a1, a2) \<Rightarrow> case min_tc of (b0, b1, b2) \<Rightarrow>
            clip_axis d2 a2 b2 (clip_axis d1 a1 b1 (clip_axis d0 a0 b0 1000000)))
      in zip3 (\<lambda>c k. c + (min_t - 1 / 1000) * k) camera diff)"

definition shorten :: "MapParam \<Rightarrow> vec3 \<Rightarrow> vec3 \<Rightarrow> vec3" where
  "shorten p camera pt =
     (let len = vec_norm (zip3 (-) pt camera) in
      if len > max_ray_length p then zip3 (\<lambda>x c. (x - c) / len * max_ray_length p + c) pt camera else pt)"

text \<open>The projected point and its flag (1: an obstacle); \<open>None\<close> if the point is skipped.\<close>

definition project_point :: "MapParam \<Rightarrow> vec3 \<Rightarrow> vec3 \<Rightarrow> (vec3 \<times> int) option" where
  "project_point p camera pt =
     (let low = (\<lambda>v. case v of (x, y, z) \<Rightarrow> z < 2 / 10) in
      if \<not> isInMapPos p pt then
        let pt_w = shorten p camera (closetPointInMap p pt camera)
        in if low pt_w then None else Some (pt_w, 0)
      else if vec_norm (zip3 (-) pt camera) > max_ray_length p then
        let pt_w = shorten p camera pt in if low pt_w then None else Some (pt_w, 0)
      else Some (pt, 1))"

text \<open>The local variables \<open>update_min\<close> and \<open>update_max\<close> travel with the state.\<close>

type_synonym fusion = "MapData \<times> vec3 \<times> vec3"

definition insert_point :: "MapParam \<Rightarrow> RayCaster \<Rightarrow> vec3 \<Rightarrow> vec3 \<Rightarrow> fusion \<Rightarrow> fusion option" where
  "insert_point p caster camera pt st = (case st of (d, umin, umax) \<Rightarrow>
     (case project_point p camera pt of
        None \<Rightarrow> Some st
      | Some (pt_w, tmp_flag) \<Rightarrow>
          let vox_adr = toAddress p (posToIndex p pt_w) in
          (case setCacheOccupancy vox_adr tmp_flag d of
             None \<Rightarrow> None
           | Some d1 \<Rightarrow>
               let umin' = zip3 min umin pt_w; umax' = zip3 max umax pt_w in
               if \<not> in_buffer (flag_rayend d1) vox_adr then None
               else if flag_rayend d1 ! nat vox_adr = raycast_num d1 then Some (d1, umin', umax')
               else
                 let d2 = d1\<lparr>flag_rayend := (flag_rayend d1)[nat vox_adr := raycast_num d1]\<rparr> in
                 (case ray_ids (snd (ray_input pt_w camera caster)) of
                    None \<Rightarrow> None
                  | Some ids \<Rightarrow>
                      (case for_each (\<lambda>i. setCacheOccupancy (toAddress p i) 0) (tl ids) d2 of
                         None \<Rightarrow> None
                       | Some d3 \<Rightarrow> Some (d3, umin', umax'))))))"

text \<open>One round of the loop that empties the cache: the new log-odds of a voxel.\<close>

definition fuse_value :: "MapParam \<Rightarrow> real \<Rightarrow> bool \<Rightarrow> real" where
  "fuse_value p occ hit =
     (let log_odds_update = (if hit then prob_hit_log p else prob_miss_log p);
          base = (if occ < clamp_min_log p - 1 / 1000 then min_occupancy_log p else occ)
      in min (max (base + log_odds_update) (clamp_min_log p)) (clamp_max_log p))"

fun drain_cache :: "MapParam \<Rightarrow> int list \<Rightarrow> MapData \<Rightarrow> int list \<Rightarrow> (MapData \<times> int list) option" where
  "drain_cache p [] d new_ids = Some (d, new_ids)"
| "drain_cache p (adr # rest) d new_ids =
     (if \<not> in_buffer (count_hit d) adr \<or> \<not> in_buffer (count_miss d) adr \<or>
         \<not> in_buffer (occupancy_buffer d) adr then None
      else
        let a = nat adr; occ = occupancy_buffer d ! a;
            hit = count_hit d ! a \<ge> count_miss d ! a;
            d' = d\<lparr>cache_voxel := rest, count_hit := (count_hit d)[a := 0], count_miss := (count_miss d)[a := 0],
              occupancy_buffer := (occupancy_buffer d)[a := fuse_value p occ hit]\<rparr>
        in drain_cache p rest d' (if occ < clamp_min_log p - 1 / 1000 then new_ids @ [adr] else new_ids))"

definition start_cloud :: "vec3 \<Rightarrow> MapData \<Rightarrow> MapData" where
  "start_cloud camera d =
     (let d1 = d\<lparr>raycast_num := wrap_char (raycast_num d + 1)\<rparr> in
      if reset_updated_box d1
      then d1\<lparr>update_min := camera, update_max := camera, reset_updated_box := False\<rparr> else d1)"

definition update_boxes :: "MapParam \<Rightarrow> vec3 \<Rightarrow> vec3 \<Rightarrow> MapData \<Rightarrow> MapData" where
  "update_boxes p umin umax d =
     (let bound_inf = (local_bound_inflate p, local_bound_inflate p, 0) in
      d\<lparr>local_bound_max := boundIndex p (posToIndex p (zip3 (+) umax bound_inf)),
        local_bound_min := boundIndex p (posToIndex p (zip3 (-) umin bound_inf)),
        update_min := zip3 min umin (update_min d), update_max := zip3 max umax (update_max d),
        all_min := zip3 min umin (all_min d), all_max := zip3 max umax (all_max d)\<rparr>)"

text \<open>\<open>inputPointCloud\<close>: the map after a cloud, the voxels that became known (the argument of
  \<open>updateMapChunk\<close>), and whether \<open>local_updated_\<close> is set.\<close>

definition inputPointCloud ::
  "MapParam \<Rightarrow> RayCaster \<Rightarrow> vec3 list \<Rightarrow> vec3 \<Rightarrow> MapData \<Rightarrow> (MapData \<times> int list \<times> bool) option" where
  "inputPointCloud p caster points camera d =
     (if points = [] then Some (d, [], False)
      else
        (case for_each (insert_point p caster camera) points (start_cloud camera d, camera, camera) of
           None \<Rightarrow> None
         | Some (d1, umin, umax) \<Rightarrow>
             let d2 = update_boxes p umin umax d1 in
             (case drain_cache p (cache_voxel d2) d2 [] of
                None \<Rightarrow> None
              | Some (d3, new_voxel_ids) \<Rightarrow> Some (d3, new_voxel_ids, True))))"

section \<open>Inflation\<close>

definition inf_step :: "MapParam \<Rightarrow> int" where
  "inf_step p = \<lceil>obstacles_inflation p / resolution p\<rceil>"

definition inflate_voxel :: "MapParam \<Rightarrow> idx3 \<Rightarrow> int list \<Rightarrow> int list" where
  "inflate_voxel p i buf =
     (let s = inf_step p in
      fold (\<lambda>k b. let pt = zip3 (+) i k in if \<not> isInMap p pt then b else b[nat (toAddress p pt) := 1])
        (box_cells (- s, - s, - s) (s, s, s)) buf)"

definition clearAndInflateLocalMap :: "MapParam \<Rightarrow> MapData \<Rightarrow> MapData" where
  "clearAndInflateLocalMap p d =
     (let cells = box_cells (local_bound_min d) (local_bound_max d);
          b1 = fold (\<lambda>i b. b[nat (toAddress p i) := 0]) cells (occupancy_buffer_inflate d);
          b2 = fold (\<lambda>i b. if occupancy_buffer d ! nat (toAddress p i) > min_occupancy_log p
                 then inflate_voxel p i b else b) cells b1
      in d\<lparr>occupancy_buffer_inflate := b2\<rparr>)"

definition resetBufferBox :: "MapParam \<Rightarrow> vec3 \<Rightarrow> vec3 \<Rightarrow> MapData \<Rightarrow> MapData" where
  "resetBufferBox p min_pos max_pos d =
     (let cells = box_cells (boundIndex p (posToIndex p min_pos)) (boundIndex p (posToIndex p max_pos)) in
      d\<lparr>occupancy_buffer_inflate := fold (\<lambda>i b. b[nat (toAddress p i) := 0]) cells (occupancy_buffer_inflate d),
        distance_buffer := fold (\<lambda>i b. b[nat (toAddress p i) := default_dist p]) cells (distance_buffer d)\<rparr>)"

definition resetBuffer :: "MapParam \<Rightarrow> MapData \<Rightarrow> MapData" where
  "resetBuffer p d =
     (resetBufferBox p (map_min_boundary p) (map_max_boundary p) d)
       \<lparr>local_bound_min := (0, 0, 0), local_bound_max := map3 (\<lambda>n. n - 1) (map_voxel_num p)\<rparr>"

end
