(* ===== verification/Map_Chunks.thy ===== *)
theory Map_Chunks imports Chunk_Ids Voxel_Fusion
begin

text \<open>
  The exchange of map chunks between the drones (\<open>plan_env/src/multi_map_manager.cpp\<close>): the store of
  the chunks of all drones, the announcement of what a drone has, the chunks sent in reply to an
  announcement, and the insertion of received chunks into the voxel map. An index outside a vector
  is undefined behaviour of the code and gives \<open>None\<close>.
\<close>

section \<open>Data\<close>

record MapChunk =
  chunk_idx :: int
  voxel_adrs :: "int list"
  voxel_occ :: "int list"
  need_query :: bool
  chunk_empty :: bool

record ChunksData =
  chunks :: "MapChunk list"
  idx_list :: "int list"

record ChunksBox =
  cb_min :: vec3
  cb_max :: vec3
  cb_valid :: bool

text \<open>The messages \<open>ChunkData\<close> and \<open>ChunkStamps\<close>.\<close>

record ChunkData =
  cd_from :: int
  cd_to :: int
  cd_drone :: int
  cd_adrs :: "int list"
  cd_occ :: "int list"
  cd_idx :: int

record ChunkStamps =
  cs_from :: int
  cs_lists :: "int list list"
  cs_time :: real

text \<open>\<open>buffer_map_\<close> holds the keys of the code's hash maps, whose values are always 1.\<close>

record MultiMapManager =
  mm_drone :: int
  map_num :: nat
  chunk_size :: nat
  multi_map_chunks :: "ChunksData list"
  adr_buffer :: "int list"
  chunk_buffer :: "ChunkData list list"
  buffer_map :: "int list list"
  last_chunk_stamp_time :: "real list"
  chunk_boxes :: "ChunksBox list"
  remote_chunk_update :: bool
  remote_chunk_insert_count :: int

definition mm_init :: "int \<Rightarrow> nat \<Rightarrow> nat \<Rightarrow> MultiMapManager" where
  "mm_init drone num csize =
     \<lparr>mm_drone = drone, map_num = num, chunk_size = csize,
      multi_map_chunks = replicate num \<lparr>chunks = [], idx_list = []\<rparr>, adr_buffer = [],
      chunk_buffer = replicate num [], buffer_map = replicate num [],
      last_chunk_stamp_time = replicate num 0,
      chunk_boxes = replicate num \<lparr>cb_min = (0, 0, 0), cb_max = (0, 0, 0), cb_valid = False\<rparr>,
      remote_chunk_update = False, remote_chunk_insert_count = 0\<rparr>"

text \<open>Reading a vector at an \<open>int\<close> index.\<close>

definition vec_at :: "'a list \<Rightarrow> int \<Rightarrow> 'a option" where
  "vec_at xs k = (if 0 \<le> k \<and> k < int (length xs) then Some (xs ! nat k) else None)"

section \<open>Own chunks\<close>

definition own_chunk :: "int list \<Rightarrow> int \<Rightarrow> MapChunk" where
  "own_chunk adrs i = \<lparr>chunk_idx = i, voxel_adrs = adrs, voxel_occ = [], need_query = True, chunk_empty = False\<rparr>"

text \<open>The loop that cuts chunks off a buffer that is too long; it does not end for a chunk size of 0.\<close>

partial_function (option) cut_chunks ::
  "nat \<Rightarrow> int list \<Rightarrow> MapChunk list \<Rightarrow> (int list \<times> MapChunk list) option" where
  "cut_chunks n buf cs =
     (if n < length buf
      then cut_chunks n (drop n buf) (cs @ [own_chunk (take n buf) (int (length cs) + 1)])
      else Some (buf, cs))"

definition updateMapChunk :: "int list \<Rightarrow> MultiMapManager \<Rightarrow> MultiMapManager option" where
  "updateMapChunk adrs st =
     (let buf = adr_buffer st @ adrs in
      if length buf \<ge> chunk_size st then
        Option.bind (vec_at (multi_map_chunks st) (mm_drone st - 1)) (\<lambda>data.
        Option.bind (cut_chunks (chunk_size st) buf (chunks data)) (\<lambda>(rest, cs).
          let ids = (if idx_list data = [] then [1, 1] else idx_list data) in
          if cs = [] then None
          else Some (st\<lparr>multi_map_chunks := (multi_map_chunks st)[nat (mm_drone st - 1) :=
                  data\<lparr>chunks := cs, idx_list := butlast ids @ [chunk_idx (last cs)]\<rparr>],
                 adr_buffer := rest\<rparr>)))
      else Some (st\<lparr>adr_buffer := buf\<rparr>))"

section \<open>Announcing and sending\<close>

definition stampTimerCallback :: "real \<Rightarrow> MultiMapManager \<Rightarrow> ChunkStamps" where
  "stampTimerCallback now st =
     \<lparr>cs_from = mm_drone st, cs_lists = map idx_list (multi_map_chunks st), cs_time = now\<rparr>"

definition getOccOfChunk :: "MapParam \<Rightarrow> MapData \<Rightarrow> int list \<Rightarrow> int list option" where
  "getOccOfChunk p d adrs =
     (if \<forall>adr \<in> set adrs. in_buffer (occupancy_buffer d) adr
      then Some (map (\<lambda>adr. if occupancy_buffer d ! nat adr > min_occupancy_log p then 1 else 0) adrs)
      else None)"

text \<open>Sending one chunk; its occupancy is queried first if that is still pending. The state is the list
  of the chunks of the drone \<open>chunk_drone\<close> and the messages sent so far.\<close>

definition send_one ::
  "MapParam \<Rightarrow> MapData \<Rightarrow> int \<Rightarrow> int \<Rightarrow> int \<Rightarrow> int \<Rightarrow> MapChunk list \<times> ChunkData list \<Rightarrow>
   (MapChunk list \<times> ChunkData list) option" where
  "send_one p d self chunk_drone to_drone j st = (case st of (cs, out) \<Rightarrow>
     Option.bind (vec_at cs (j - 1)) (\<lambda>c.
     Option.bind
       (if chunk_drone = self \<and> need_query c
        then map_option (\<lambda>occ. c\<lparr>voxel_occ := voxel_occ c @ occ, need_query := False\<rparr>)
               (getOccOfChunk p d (voxel_adrs c))
        else Some c) (\<lambda>c'.
       Some (cs[nat (j - 1) := c'],
         out @ [\<lparr>cd_from = self, cd_to = to_drone, cd_drone = chunk_drone, cd_adrs = voxel_adrs c,
                 cd_occ = voxel_occ c', cd_idx = chunk_idx c\<rparr>]))))"

fun id_range :: "int list \<Rightarrow> int list" where
  "id_range (a # b # rest) = [a..b] @ id_range rest"
| "id_range _ = []"

definition sendChunks ::
  "MapParam \<Rightarrow> MapData \<Rightarrow> int \<Rightarrow> int \<Rightarrow> int list \<Rightarrow> MultiMapManager \<Rightarrow>
   (MultiMapManager \<times> ChunkData list) option" where
  "sendChunks p d chunk_drone to_drone ids st =
     Option.bind (vec_at (multi_map_chunks st) (chunk_drone - 1)) (\<lambda>data.
     Option.bind (for_each (send_one p d (mm_drone st) chunk_drone to_drone) (id_range ids) (chunks data, []))
       (\<lambda>(cs, out). Some (st\<lparr>multi_map_chunks :=
          (multi_map_chunks st)[nat (chunk_drone - 1) := data\<lparr>chunks := cs\<rparr>]\<rparr>, out)))"

definition reply_one ::
  "MapParam \<Rightarrow> MapData \<Rightarrow> ChunkStamps \<Rightarrow> int \<Rightarrow> MultiMapManager \<times> ChunkData list \<Rightarrow>
   (MultiMapManager \<times> ChunkData list) option" where
  "reply_one p d msg i acc = (case acc of (st, out) \<Rightarrow>
     if i = cs_from msg - 1 then Some (st, out)
     else Option.bind (vec_at (multi_map_chunks st) i) (\<lambda>data. Option.bind (vec_at (cs_lists msg) i) (\<lambda>ids.
       Option.bind (sendChunks p d (i + 1) (cs_from msg) (findMissedChunkIds (idx_list data) ids) st)
         (\<lambda>(st', out'). Some (st', out @ out')))))"

definition stampMsgCallback ::
  "MapParam \<Rightarrow> MapData \<Rightarrow> ChunkStamps \<Rightarrow> MultiMapManager \<Rightarrow> (MultiMapManager \<times> ChunkData list) option" where
  "stampMsgCallback p d msg st =
     (if cs_from msg = mm_drone st then Some (st, [])
      else if mm_drone st = int (map_num st) then Some (st, [])
      else Option.bind (vec_at (last_chunk_stamp_time st) (cs_from msg - 1)) (\<lambda>t.
        if cs_time msg - t < 3 / 10 then Some (st, [])
        else
          let st1 = st\<lparr>last_chunk_stamp_time := (last_chunk_stamp_time st)[nat (cs_from msg - 1) := cs_time msg]\<rparr>
          in for_each (reply_one p d msg) [0..int (length (multi_map_chunks st)) - 1] (st1, [])))"

section \<open>Receiving\<close>

definition chunkCallback :: "ChunkData \<Rightarrow> MultiMapManager \<Rightarrow> MultiMapManager option" where
  "chunkCallback msg st =
     (if cd_from msg = mm_drone st then Some st
      else Option.bind (vec_at (buffer_map st) (cd_drone msg - 1)) (\<lambda>keys.
           Option.bind (vec_at (chunk_buffer st) (cd_drone msg - 1)) (\<lambda>buf.
        let i = nat (cd_drone msg - 1) in
        if cd_idx msg \<in> set keys then Some st
        else Some (st\<lparr>chunk_buffer := (chunk_buffer st)[i := buf @ [msg]],
                      buffer_map := (buffer_map st)[i := cd_idx msg # keys]\<rparr>))))"

text \<open>\<open>insertChunkToMap\<close> for one voxel; the box of the sending drone grows with it.\<close>

definition grow_box :: "vec3 \<Rightarrow> ChunksBox \<Rightarrow> ChunksBox" where
  "grow_box pos box =
     (if cb_valid box then box\<lparr>cb_min := zip3 min (cb_min box) pos, cb_max := zip3 max (cb_max box) pos\<rparr>
      else \<lparr>cb_min = pos, cb_max = pos, cb_valid = True\<rparr>)"

definition insert_voxel ::
  "MapParam \<Rightarrow> int \<times> int \<Rightarrow> MapData \<times> ChunksBox \<Rightarrow> (MapData \<times> ChunksBox) option" where
  "insert_voxel p v st = (case v of (adr, occ) \<Rightarrow> case st of (d, box) \<Rightarrow>
     let pos = indexToPos p (adrToIndex p adr) in
     if \<not> isInMapPos p pos then Some (d, box)
     else
       let idx = posToIndex p pos; adr_tf = toAddress p idx in
       if \<not> in_buffer (occupancy_buffer d) adr_tf then None
       else
         let d1 = d\<lparr>occupancy_buffer := (occupancy_buffer d)[nat adr_tf :=
                      (if occ = 1 then clamp_max_log p else clamp_min_log p)],
                    all_min := zip3 min (all_min d) pos, all_max := zip3 max (all_max d) pos\<rparr>
         in Some ((if occ = 1 then d1\<lparr>occupancy_buffer_inflate := inflate_voxel p idx (occupancy_buffer_inflate d1)\<rparr>
                   else d1), grow_box pos box))"

definition insertChunkToMap ::
  "MapParam \<Rightarrow> MapChunk \<Rightarrow> MapData \<times> ChunksBox \<Rightarrow> (MapData \<times> ChunksBox) option" where
  "insertChunkToMap p c st =
     (if length (voxel_occ c) < length (voxel_adrs c) then None
      else for_each (insert_voxel p) (zip (voxel_adrs c) (voxel_occ c)) st)"

text \<open>The messages carry their index as \<open>uint32_t\<close>, the timer keeps it in an \<open>int\<close>.\<close>

definition to_int32 :: "int \<Rightarrow> int" where
  "to_int32 x = (x + 2 ^ 31) mod 2 ^ 32 - 2 ^ 31"

text \<open>The intervals of ascending indices; the difference is taken in unsigned arithmetic.\<close>

fun idx_runs :: "int \<Rightarrow> int list \<Rightarrow> int list" where
  "idx_runs last_idx [] = [last_idx]"
| "idx_runs last_idx (i # rest) =
     (if (i - last_idx) mod 2 ^ 32 > 1 then last_idx # to_int32 i # idx_runs (to_int32 i) rest
      else idx_runs (to_int32 i) rest)"

definition placeholder :: "int \<Rightarrow> MapChunk" where
  "placeholder i = \<lparr>chunk_idx = i, voxel_adrs = [], voxel_occ = [], need_query = False, chunk_empty = True\<rparr>"

definition add_placeholders :: "int \<Rightarrow> MapChunk list \<Rightarrow> MapChunk list" where
  "add_placeholders last_idx cs =
     (let len_inc = to_int32 (last_idx - int (length cs))
      in cs @ map placeholder [int (length cs) + 1..int (length cs) + len_inc])"

text \<open>One buffered message; the state is the chunk list, the map, the box and the number inserted.\<close>

definition insert_msg ::
  "MapParam \<Rightarrow> ChunkData \<Rightarrow> MapChunk list \<times> (MapData \<times> ChunksBox list) \<times> int \<Rightarrow>
   (MapChunk list \<times> (MapData \<times> ChunksBox list) \<times> int) option" where
  "insert_msg p msg acc = (case acc of (cs, (d, boxes), n) \<Rightarrow>
     let at_idx = (cd_idx msg - 1) mod 2 ^ 32 in
     Option.bind (vec_at cs at_idx) (\<lambda>c.
       if chunk_empty c then
         let c1 = c\<lparr>voxel_adrs := cd_adrs msg, voxel_occ := cd_occ msg\<rparr> in
         Option.bind (vec_at boxes (cd_drone msg - 1)) (\<lambda>box.
         Option.bind (insertChunkToMap p c1 (d, box)) (\<lambda>(d', box').
           Some (cs[nat at_idx := c1\<lparr>chunk_empty := False\<rparr>],
             (d', boxes[nat (cd_drone msg - 1) := box']), n + 1)))
       else Some acc))"

definition process_buffer ::
  "MapParam \<Rightarrow> nat \<Rightarrow> MultiMapManager \<times> MapData \<times> int \<Rightarrow> (MultiMapManager \<times> MapData \<times> int) option" where
  "process_buffer p i acc = (case acc of (st, d, n) \<Rightarrow>
     let buffer = chunk_buffer st ! i in
     if buffer = [] then Some acc
     else
       let sorted = sort_key cd_idx buffer;
           ids = map cd_idx sorted;
           first_idx = to_int32 (hd ids);
           new_list = first_idx # idx_runs first_idx (tl ids);
           data = multi_map_chunks st ! i
       in Option.bind (for_each (insert_msg p) sorted
              (add_placeholders (to_int32 (last ids)) (chunks data), (d, chunk_boxes st), n)) (\<lambda>(cs, (d', boxes), n').
          Some (st\<lparr>multi_map_chunks := (multi_map_chunks st)[i :=
                     data\<lparr>chunks := cs, idx_list := mergeChunkIds new_list (idx_list data)\<rparr>],
                   chunk_boxes := boxes,
                   chunk_buffer := (chunk_buffer st)[i := []],
                   buffer_map := (buffer_map st)[i := []]\<rparr>, d', n')))"

definition chunkTimerCallback ::
  "MapParam \<Rightarrow> MultiMapManager \<Rightarrow> MapData \<Rightarrow> (MultiMapManager \<times> MapData) option" where
  "chunkTimerCallback p st d =
     Option.bind (for_each (process_buffer p) [0..<length (chunk_buffer st)] (st, d, 0)) (\<lambda>(st', d', n).
       Some (if n > 0
             then st'\<lparr>remote_chunk_update := True, remote_chunk_insert_count := remote_chunk_insert_count st' + n\<rparr>
             else st', d'))"

section \<open>Reading the updates\<close>

definition hasRemoteChunkUpdate :: "MultiMapManager \<Rightarrow> bool" where
  "hasRemoteChunkUpdate st = remote_chunk_update st"

definition consumeRemoteChunkUpdate :: "MultiMapManager \<Rightarrow> bool \<times> MultiMapManager" where
  "consumeRemoteChunkUpdate st =
     (remote_chunk_update st, st\<lparr>remote_chunk_update := False, remote_chunk_insert_count := 0\<rparr>)"

definition getChunkBoxes :: "bool \<Rightarrow> MultiMapManager \<Rightarrow> (vec3 list \<times> vec3 list) \<times> MultiMapManager" where
  "getChunkBoxes reset st =
     (let valid = filter cb_valid (chunk_boxes st) in
      ((map cb_min valid, map cb_max valid),
       if reset then st\<lparr>chunk_boxes := map (\<lambda>b. if cb_valid b then b\<lparr>cb_valid := False\<rparr> else b) (chunk_boxes st)\<rparr>
       else st))"

end
