(* ===== verification/Voxel_Fusion_Props.thy ===== *)
theory Voxel_Fusion_Props imports Voxel_Fusion
begin

text \<open>
  The invariant of the fused map, the bounds of all buffer accesses of \<open>inputPointCloud\<close>, and the
  effect of the inflation.
\<close>

section \<open>Points are projected into the map\<close>

definition inside :: "MapParam \<Rightarrow> vec3 \<Rightarrow> bool" where
  "inside p v \<longleftrightarrow> all3 (<) (map_min_boundary p) v \<and> all3 (<) v (map_max_boundary p)"

lemma inside_isInMapPos: "isInMapPos p v \<Longrightarrow> inside p v"
  by (auto simp: inside_def isInMapPos_def all3_def split: prod.splits)

lemma axis_inside:
  fixes x org s res :: real
  assumes "0 < res" "org < x" "x < org + s"
  shows "0 \<le> \<lfloor>(x - org) * (1 / res)\<rfloor>" and "\<lfloor>(x - org) * (1 / res)\<rfloor> \<le> \<lceil>s / res\<rceil> - 1"
proof -
  show "0 \<le> \<lfloor>(x - org) * (1 / res)\<rfloor>" using assms by simp
  have "(x - org) * (1 / res) < s / res" using assms by (simp add: divide_strict_right_mono)
  also have "\<dots> \<le> of_int \<lceil>s / res\<rceil>" by simp
  finally show "\<lfloor>(x - org) * (1 / res)\<rfloor> \<le> \<lceil>s / res\<rceil> - 1" by linarith
qed

lemma isInMap_inside:
  assumes "geometry_ok p" and "inside p v"
  shows "isInMap p (posToIndex p v)"
proof -
  obtain x y z ox oy oz sx sy sz where e: "v = (x, y, z)" "map_origin p = (ox, oy, oz)" "map_size p = (sx, sy, sz)"
    by (metis prod.collapse)
  from assms e have r: "0 < resolution p" "ox < x" "x < ox + sx" "oy < y" "y < oy + sy" "oz < z" "z < oz + sz"
    by (auto simp: geometry_ok_def inside_def)
  from axis_inside [OF r(1-3)] axis_inside [OF r(1,4,5)] axis_inside [OF r(1,6,7)]
  show ?thesis
    using assms(1) by (simp add: isInMap_def posToIndex_def geometry_ok_def e not_less)
qed

text \<open>Every axis only lowers \<open>min_t\<close>, to a value that keeps the axis inside and not below the margin.\<close>

lemma clip_axis_ok:
  assumes c: "lo < c" "c < hi" and m: "0 < m"
  shows "0 < clip_axis diff (hi - c) (lo - c) m" and "clip_axis diff (hi - c) (lo - c) m \<le> m"
    and "0 \<le> s \<Longrightarrow> s < clip_axis diff (hi - c) (lo - c) m \<Longrightarrow> lo < c + s * diff \<and> c + s * diff < hi"
    and "\<delta> \<le> m \<Longrightarrow> \<delta> * \<bar>diff\<bar> \<le> c - lo \<Longrightarrow> \<delta> * \<bar>diff\<bar> \<le> hi - c \<Longrightarrow>
      \<delta> \<le> clip_axis diff (hi - c) (lo - c) m"
proof -
  consider (pos) "0 < diff" | (neg) "diff < 0" | (zero) "diff = 0" by linarith
  then have "0 < clip_axis diff (hi - c) (lo - c) m \<and> clip_axis diff (hi - c) (lo - c) m \<le> m \<and>
    (0 \<le> s \<longrightarrow> s < clip_axis diff (hi - c) (lo - c) m \<longrightarrow> lo < c + s * diff \<and> c + s * diff < hi) \<and>
    (\<delta> \<le> m \<longrightarrow> \<delta> * \<bar>diff\<bar> \<le> c - lo \<longrightarrow> \<delta> * \<bar>diff\<bar> \<le> hi - c \<longrightarrow>
      \<delta> \<le> clip_axis diff (hi - c) (lo - c) m)"
  proof cases
    case pos
    have "\<not> (lo - c) / diff > 0" using pos c by (simp add: zero_less_divide_iff)
    then have eq: "clip_axis diff (hi - c) (lo - c) m = min ((hi - c) / diff) m"
      using pos c by (auto simp: clip_axis_def Let_def min_def)
    have "lo < c + s * diff" if "0 \<le> s"
      using mult_nonneg_nonneg [OF that less_imp_le [OF pos]] c by linarith
    then show ?thesis unfolding eq using pos c m by (auto simp: min_less_iff_conj less_divide_eq le_divide_eq)
  next
    case neg
    have "\<not> (hi - c) / diff > 0" using neg c by (simp add: zero_less_divide_iff)
    then have eq: "clip_axis diff (hi - c) (lo - c) m = min ((lo - c) / diff) m"
      using neg c by (auto simp: clip_axis_def Let_def min_def zero_less_divide_iff)
    have "c + s * diff < hi" if "0 \<le> s"
      using mult_nonneg_nonpos [OF that less_imp_le [OF neg]] c by linarith
    then show ?thesis unfolding eq using neg c m
      by (auto simp: min_less_iff_conj less_divide_eq le_divide_eq zero_less_divide_iff)
  next
    case zero
    then show ?thesis using c m by (simp add: clip_axis_def)
  qed
  then show "0 < clip_axis diff (hi - c) (lo - c) m" "clip_axis diff (hi - c) (lo - c) m \<le> m"
    "0 \<le> s \<Longrightarrow> s < clip_axis diff (hi - c) (lo - c) m \<Longrightarrow> lo < c + s * diff \<and> c + s * diff < hi"
    "\<delta> \<le> m \<Longrightarrow> \<delta> * \<bar>diff\<bar> \<le> c - lo \<Longrightarrow> \<delta> * \<bar>diff\<bar> \<le> hi - c \<Longrightarrow>
      \<delta> \<le> clip_axis diff (hi - c) (lo - c) m"
    by blast+
qed

text \<open>The camera keeps a distance of a thousandth of the way to the point from every wall.\<close>

definition margin_ok :: "MapParam \<Rightarrow> vec3 \<Rightarrow> vec3 \<Rightarrow> bool" where
  "margin_ok p camera pt \<longleftrightarrow>
     all3 (\<lambda>d w. 1 / 1000 * \<bar>d\<bar> \<le> w) (zip3 (-) pt camera) (zip3 (-) camera (map_min_boundary p)) \<and>
     all3 (\<lambda>d w. 1 / 1000 * \<bar>d\<bar> \<le> w) (zip3 (-) pt camera) (zip3 (-) (map_max_boundary p) camera)"

lemma closetPointInMap_inside:
  assumes "inside p camera" and "margin_ok p camera pt"
  shows "inside p (closetPointInMap p pt camera)"
proof -
  obtain cx cy cz x y z lx ly lz hx hy hz where e: "camera = (cx, cy, cz)" "pt = (x, y, z)"
    "map_min_boundary p = (lx, ly, lz)" "map_max_boundary p = (hx, hy, hz)" by (metis prod.collapse)
  have c: "lx < cx" "cx < hx" "ly < cy" "cy < hy" "lz < cz" "cz < hz" using assms(1) by (auto simp: inside_def e)
  define m1 where "m1 = clip_axis (x - cx) (hx - cx) (lx - cx) 1000000"
  define m2 where "m2 = clip_axis (y - cy) (hy - cy) (ly - cy) m1"
  define m3 where "m3 = clip_axis (z - cz) (hz - cz) (lz - cz) m2"
  note k1 = clip_axis_ok [OF c(1,2), of 1000000, folded m1_def]
  have m1: "0 < m1" using k1(1) by (simp add: m1_def)
  note k2 = clip_axis_ok [OF c(3,4) m1, where diff = "y - cy", folded m2_def]
  note k3 = clip_axis_ok [OF c(5,6) k2(1), where diff = "z - cz", folded m3_def]
  have mg: "1 / 1000 * \<bar>x - cx\<bar> \<le> cx - lx" "1 / 1000 * \<bar>x - cx\<bar> \<le> hx - cx" "1 / 1000 * \<bar>y - cy\<bar> \<le> cy - ly"
    "1 / 1000 * \<bar>y - cy\<bar> \<le> hy - cy" "1 / 1000 * \<bar>z - cz\<bar> \<le> cz - lz" "1 / 1000 * \<bar>z - cz\<bar> \<le> hz - cz"
    using assms(2) by (simp_all add: margin_ok_def e)
  have "1 / 1000 \<le> m1"
    unfolding m1_def by (rule clip_axis_ok(4) [OF c(1,2)]) (use mg in auto)
  then have "1 / 1000 \<le> m3" using k2(4) [OF _ mg(3,4)] k3(4) [OF _ mg(5,6)] by blast
  define s where "s = m3 - 1 / 1000"
  have s: "0 \<le> s" "s < m3" "s < m2" "s < m1"
    using \<open>1 / 1000 \<le> m3\<close> k2(2) k3(2) by (auto simp: s_def)
  have "closetPointInMap p pt camera = (cx + s * (x - cx), cy + s * (y - cy), cz + s * (z - cz))"
    by (simp add: closetPointInMap_def e m1_def m2_def m3_def s_def Let_def)
  moreover have "lx < cx + s * (x - cx) \<and> cx + s * (x - cx) < hx"
    by (rule clip_axis_ok(3) [OF c(1,2), of 1000000]) (use s m1_def in auto)
  ultimately show ?thesis
    using k2(3) [OF s(1,3)] k3(3) [OF s(1,2)] by (simp add: inside_def e)
qed

lemma convex_axis:
  fixes lo hi x c t :: real
  assumes "lo < x" "x < hi" "lo < c" "c < hi" "0 \<le> t" "t \<le> 1"
  shows "lo < (x - c) * t + c \<and> (x - c) * t + c < hi"
proof -
  have "(x - c) * t + c = t * x + (1 - t) * c" by (simp add: algebra_simps)
  moreover have "t * lo + (1 - t) * lo < t * x + (1 - t) * c"
    using assms by (cases "t = 0") (auto intro!: add_less_le_mono mult_left_mono)
  moreover have "t * x + (1 - t) * c < t * hi + (1 - t) * hi"
    using assms by (cases "t = 0") (auto intro!: add_less_le_mono mult_left_mono)
  ultimately show ?thesis by (simp add: algebra_simps)
qed

lemma shorten_inside:
  assumes "inside p camera" and "inside p pt" and "0 \<le> max_ray_length p"
  shows "inside p (shorten p camera pt)"
proof -
  let ?l = "vec_norm (zip3 (-) pt camera)"
  show ?thesis
  proof (cases "?l > max_ray_length p")
    case True
    define t where "t = max_ray_length p / ?l"
    have "0 \<le> t" "t \<le> 1" using True assms(3) by (auto simp: t_def divide_le_eq)
    moreover have "shorten p camera pt = zip3 (\<lambda>x c. (x - c) * t + c) pt camera"
      using True by (simp add: shorten_def Let_def t_def zip3_def split: prod.splits)
    ultimately show ?thesis
      using assms(1,2) convex_axis [of _ _ _ _ t] by (auto simp: inside_def all3_def zip3_def split: prod.splits)
  next
    case False
    with assms(2) show ?thesis by (simp add: shorten_def)
  qed
qed

text \<open>A point that the projection leaves in the map.\<close>

definition projects_inside :: "MapParam \<Rightarrow> vec3 \<Rightarrow> vec3 \<Rightarrow> bool" where
  "projects_inside p camera pt \<longleftrightarrow>
     (case project_point p camera pt of None \<Rightarrow> True | Some (pt_w, flag) \<Rightarrow> isInMap p (posToIndex p pt_w))"

lemma projects_insideI:
  assumes "geometry_ok p" and "isInMapPos p camera" and "0 \<le> max_ray_length p" and "margin_ok p camera pt"
  shows "projects_inside p camera pt"
proof -
  have cam: "inside p camera" by (rule inside_isInMapPos [OF assms(2)])
  have "inside p pt_w" if "project_point p camera pt = Some (pt_w, flag)" for pt_w flag
    using that shorten_inside [OF cam closetPointInMap_inside [OF cam assms(4)] assms(3)]
      shorten_inside [OF cam _ assms(3), of pt] inside_isInMapPos [of p pt]
    by (auto simp: project_point_def Let_def split: if_splits prod.splits)
  with isInMap_inside [OF assms(1)] show ?thesis
    by (auto simp: projects_inside_def split: option.split)
qed

section \<open>The cache of touched voxels\<close>

definition adr_ok :: "MapParam \<Rightarrow> int \<Rightarrow> bool" where
  "adr_ok p adr \<longleftrightarrow> 0 \<le> adr \<and> adr < getVoxelNum p"

definition cache_inv :: "MapParam \<Rightarrow> MapData \<Rightarrow> bool" where
  "cache_inv p d \<longleftrightarrow> buffers_ok p d \<and> (\<forall>a \<in> set (cache_voxel d). adr_ok p a) \<and>
     (\<forall>a. adr_ok p a \<longrightarrow> a \<notin> set (cache_voxel d) \<longrightarrow> count_hit d ! nat a = 0 \<and> count_miss d ! nat a = 0)"

text \<open>What the fusion of a cloud leaves alone, and what casting its rays leaves alone.\<close>

definition map_frame :: "MapData \<Rightarrow> MapData \<Rightarrow> bool" where
  "map_frame d d' \<longleftrightarrow> occupancy_buffer_inflate d' = occupancy_buffer_inflate d \<and>
     distance_buffer d' = distance_buffer d \<and> distance_buffer_neg d' = distance_buffer_neg d \<and>
     local_bound_min d' = local_bound_min d \<and> local_bound_max d' = local_bound_max d \<and>
     raycast_num d' = raycast_num d"

definition cloud_frame :: "MapData \<Rightarrow> MapData \<Rightarrow> bool" where
  "cloud_frame d d' \<longleftrightarrow> map_frame d d' \<and> occupancy_buffer d' = occupancy_buffer d"

lemma map_frame_trans: "map_frame d d' \<Longrightarrow> map_frame d' d'' \<Longrightarrow> map_frame d d''"
  by (simp add: map_frame_def)

lemma cloud_frame_refl [simp]: "cloud_frame d d"
  by (simp add: cloud_frame_def map_frame_def)

lemma cloud_frame_trans: "cloud_frame d d' \<Longrightarrow> cloud_frame d' d'' \<Longrightarrow> cloud_frame d d''"
  by (simp add: cloud_frame_def map_frame_def)

lemma in_buffer_ok: "length b = nat (getVoxelNum p) \<Longrightarrow> adr_ok p adr \<Longrightarrow> in_buffer b adr"
  by (simp add: in_buffer_def adr_ok_def)

lemma for_each_inv:
  assumes "P s" and "\<And>x s. x \<in> set xs \<Longrightarrow> P s \<Longrightarrow> \<exists>s'. f x s = Some s' \<and> P s'"
  shows "\<exists>s'. for_each f xs s = Some s' \<and> P s'"
  using assms
proof (induction xs arbitrary: s)
  case (Cons x xs)
  from Cons.prems(2) [of x s] Cons.prems(1) obtain s' where "f x s = Some s'" "P s'" by auto
  with Cons.IH [of s'] Cons.prems(2) show ?case by auto
qed simp

lemma setCacheOccupancy_ok:
  assumes "cache_inv p d" and "adr_ok p adr"
  shows "\<exists>d'. setCacheOccupancy adr occ d = Some d' \<and> cache_inv p d' \<and> cloud_frame d d'"
proof -
  have len: "length (count_hit d) = nat (getVoxelNum p)" "length (count_miss d) = nat (getVoxelNum p)"
    using assms(1) by (auto simp: cache_inv_def buffers_ok_def)
  define d1 where "d1 = (if count_hit d ! nat adr = 0 \<and> count_miss d ! nat adr = 0
    then d\<lparr>cache_voxel := cache_voxel d @ [adr]\<rparr> else d)"
  define d2 where "d2 = (if occ = 0 then d1\<lparr>count_miss := (count_miss d1)[nat adr := 1]\<rparr>
    else d1\<lparr>count_hit := (count_hit d1)[nat adr := wrap_short (count_hit d1 ! nat adr + 1)]\<rparr>)"
  have "setCacheOccupancy adr occ d = Some d2"
    using in_buffer_ok [OF len(1) assms(2)] in_buffer_ok [OF len(2) assms(2)]
    by (simp add: setCacheOccupancy_def Let_def d1_def d2_def)
  moreover have fr: "cloud_frame d d2" by (simp add: cloud_frame_def map_frame_def d1_def d2_def)
  moreover have "cache_inv p d2"
    unfolding cache_inv_def
  proof (intro conjI ballI allI impI)
    show "buffers_ok p d2" using assms(1) by (simp add: cache_inv_def buffers_ok_def d1_def d2_def)
    have cv: "cache_voxel d2 = cache_voxel d1" by (simp add: d2_def)
    then show "adr_ok p a" if "a \<in> set (cache_voxel d2)" for a
      using that assms by (auto simp: d1_def cache_inv_def split: if_splits)
    fix a assume a: "adr_ok p a" "a \<notin> set (cache_voxel d2)"
    then have "a \<noteq> adr" "a \<notin> set (cache_voxel d)"
      using assms cv by (auto simp: d1_def cache_inv_def split: if_splits)
    moreover from this have "nat a \<noteq> nat adr" using a(1) assms(2) by (auto simp: adr_ok_def)
    ultimately show "count_hit d2 ! nat a = 0" "count_miss d2 ! nat a = 0"
      using assms(1) a(1) by (simp_all add: d1_def d2_def cache_inv_def)
  qed
  ultimately show ?thesis by blast
qed

text \<open>What the fusion needs of the parameters; \<open>initMap\<close> and \<open>setParams\<close> establish it.\<close>

definition fusion_params :: "MapParam \<Rightarrow> RayCaster \<Rightarrow> bool" where
  "fusion_params p caster \<longleftrightarrow> geometry_ok p \<and> dims_ok p \<and> caster_of p caster \<and> (\<exists>m. aligned p m) \<and>
     clamp_min_log p \<le> min_occupancy_log p \<and> min_occupancy_log p \<le> clamp_max_log p \<and>
     unknown_flag p = 1 / 100 \<and> 0 \<le> local_bound_inflate p"

lemma adr_ok_toAddress: "dims_ok p \<Longrightarrow> isInMap p i \<Longrightarrow> adr_ok p (toAddress p i)"
  unfolding adr_ok_def by (rule voxel.encode_bounds)

text \<open>The state of the loop over the points.\<close>

definition cloud_inv :: "MapParam \<Rightarrow> vec3 \<Rightarrow> MapData \<Rightarrow> fusion \<Rightarrow> bool" where
  "cloud_inv p camera d0 st \<longleftrightarrow> (case st of (d, umin, umax) \<Rightarrow> cache_inv p d \<and> cloud_frame d0 d \<and>
     all3 (\<le>) umin camera \<and> all3 (\<le>) camera umax)"

lemma all3_min_max:
  "all3 (\<le>) umin camera \<Longrightarrow> all3 (\<le>) (zip3 min umin w) (camera :: vec3)"
  "all3 (\<le>) camera umax \<Longrightarrow> all3 (\<le>) (camera :: vec3) (zip3 max umax w)"
  by (cases umin; cases camera; cases w; auto) (cases umax; cases camera; cases w; auto)

lemma insert_point_ok:
  assumes prm: "fusion_params p caster" and inv: "cloud_inv p camera d0 st"
    and cam: "isInMap p (posToIndex p camera)" and pt: "projects_inside p camera pt"
  shows "\<exists>st'. insert_point p caster camera pt st = Some st' \<and> cloud_inv p camera d0 st'"
proof -
  obtain d umin umax where st: "st = (d, umin, umax)" by (metis prod.collapse)
  obtain m where geo: "geometry_ok p" "aligned p m" "caster_of p caster" and dims: "dims_ok p"
    using prm by (auto simp: fusion_params_def)
  from inv have ci: "cache_inv p d" "cloud_frame d0 d" "all3 (\<le>) umin camera" "all3 (\<le>) camera umax"
    by (auto simp: cloud_inv_def st)
  show ?thesis
  proof (cases "project_point p camera pt")
    case None
    with inv show ?thesis by (simp add: insert_point_def st)
  next
    case (Some q)
    then obtain w fl where q: "project_point p camera pt = Some (w, fl)" by (cases q) auto
    define adr where "adr = toAddress p (posToIndex p w)"
    have w: "isInMap p (posToIndex p w)" using pt q by (simp add: projects_inside_def)
    have a: "adr_ok p adr" unfolding adr_def by (rule adr_ok_toAddress [OF dims w])
    from setCacheOccupancy_ok [OF ci(1) a] obtain d1 where
      d1: "setCacheOccupancy adr fl d = Some d1" "cache_inv p d1" "cloud_frame d d1" by blast
    have fr: "cloud_frame d0 d1" by (rule cloud_frame_trans [OF ci(2) d1(3)])
    have lf: "length (flag_rayend d1) = nat (getVoxelNum p)" using d1(2) by (auto simp: cache_inv_def buffers_ok_def)
    note in_f = in_buffer_ok [OF lf a]
    note box = all3_min_max(1) [OF ci(3), of w] all3_min_max(2) [OF ci(4), of w]
    show ?thesis
    proof (cases "flag_rayend d1 ! nat adr = raycast_num d1")
      case True
      with q d1 in_f fr box show ?thesis
        by (simp add: insert_point_def st adr_def [symmetric] Let_def cloud_inv_def)
    next
      case False
      define d2 where "d2 = d1\<lparr>flag_rayend := (flag_rayend d1)[nat adr := raycast_num d1]\<rparr>"
      have d2: "cache_inv p d2" "cloud_frame d0 d2"
        using d1(2) fr by (auto simp: d2_def cache_inv_def buffers_ok_def cloud_frame_def map_frame_def)
      from ray_ids_map [OF geo w cam] obtain ids where
        ids: "ray_ids (snd (ray_input w camera caster)) = Some ids" "\<forall>i \<in> set ids. isInMap p i" by blast
      have "\<exists>d3. for_each (\<lambda>i. setCacheOccupancy (toAddress p i) 0) (tl ids) d2 = Some d3 \<and>
          cache_inv p d3 \<and> cloud_frame d0 d3"
      proof (rule for_each_inv)
        fix i d assume "i \<in> set (tl ids)" "cache_inv p d \<and> cloud_frame d0 d"
        moreover from this have "i \<in> set ids" by (cases ids) auto
        moreover from this ids(2) have "isInMap p i" by blast
        ultimately show "\<exists>s'. setCacheOccupancy (toAddress p i) 0 d = Some s' \<and> cache_inv p s' \<and> cloud_frame d0 s'"
          using setCacheOccupancy_ok [of p d "toAddress p i" 0] adr_ok_toAddress [OF dims] cloud_frame_trans by blast
      qed (use d2 in simp)
      then obtain d3 where d3: "for_each (\<lambda>i. setCacheOccupancy (toAddress p i) 0) (tl ids) d2 = Some d3"
        "cache_inv p d3" "cloud_frame d0 d3" by blast
      with q d1 in_f box ids(1) False show ?thesis
        by (simp add: insert_point_def st adr_def [symmetric] Let_def cloud_inv_def d2_def)
    qed
  qed
qed

section \<open>Fusing the cache\<close>

definition unknown_at :: "MapParam \<Rightarrow> MapData \<Rightarrow> int \<Rightarrow> bool" where
  "unknown_at p d adr \<longleftrightarrow> occupancy_buffer d ! nat adr < clamp_min_log p - 1 / 1000"

definition known_value :: "MapParam \<Rightarrow> real \<Rightarrow> bool" where
  "known_value p v \<longleftrightarrow> clamp_min_log p \<le> v \<and> v \<le> clamp_max_log p"

lemma fuse_value_known: "clamp_min_log p \<le> clamp_max_log p \<Longrightarrow> known_value p (fuse_value p occ hit)"
  by (simp add: known_value_def fuse_value_def Let_def)

text \<open>Emptying the cache: the touched voxels become known, the ones that were unknown are reported
  once each, and the counters are reset.\<close>

lemma drain_cache_ok:
  assumes "clamp_min_log p \<le> clamp_max_log p" and "buffers_ok p d" and "\<forall>a \<in> set q. adr_ok p a"
    and "cache_voxel d = q" and "distinct new" and "\<forall>a \<in> set new. \<not> unknown_at p d a"
  shows "\<exists>d' new'. drain_cache p q d new = Some (d', new') \<and> buffers_ok p d' \<and> distinct new' \<and>
    set new' = set new \<union> {a \<in> set q. unknown_at p d a} \<and> cache_voxel d' = [] \<and>
    map_frame d d' \<and>
    (\<forall>a. adr_ok p a \<longrightarrow>
      (if a \<in> set q then known_value p (occupancy_buffer d' ! nat a) \<and> count_hit d' ! nat a = 0 \<and> count_miss d' ! nat a = 0
       else occupancy_buffer d' ! nat a = occupancy_buffer d ! nat a \<and>
         count_hit d' ! nat a = count_hit d ! nat a \<and> count_miss d' ! nat a = count_miss d ! nat a))"
  using assms(2-)
proof (induction q arbitrary: d new)
  case Nil
  then show ?case by (auto simp: map_frame_def)
next
  case (Cons adr q)
  have a: "adr_ok p adr" using Cons.prems(2) by simp
  have len: "length (count_hit d) = nat (getVoxelNum p)" "length (count_miss d) = nat (getVoxelNum p)"
    "length (occupancy_buffer d) = nat (getVoxelNum p)" using Cons.prems(1) by (auto simp: buffers_ok_def)
  have na: "nat adr < nat (getVoxelNum p)" using a by (auto simp: adr_ok_def)
  let ?hit = "count_hit d ! nat adr \<ge> count_miss d ! nat adr"
  let ?v = "fuse_value p (occupancy_buffer d ! nat adr) ?hit"
  define d1 where "d1 = d\<lparr>cache_voxel := q, count_hit := (count_hit d)[nat adr := 0],
    count_miss := (count_miss d)[nat adr := 0], occupancy_buffer := (occupancy_buffer d)[nat adr := ?v]\<rparr>"
  define new1 where "new1 = (if unknown_at p d adr then new @ [adr] else new)"
  have step: "drain_cache p (adr # q) d new = drain_cache p q d1 new1"
    using in_buffer_ok [OF len(1) a] in_buffer_ok [OF len(2) a] in_buffer_ok [OF len(3) a]
    by (simp add: Let_def d1_def new1_def unknown_at_def)
  have kv: "known_value p ?v" by (rule fuse_value_known [OF assms(1)])
  have eq: "nat b = nat adr \<longleftrightarrow> b = adr" if "adr_ok p b" for b using that a by (auto simp: adr_ok_def)
  have occ1: "occupancy_buffer d1 ! nat b = (if b = adr then ?v else occupancy_buffer d ! nat b)"
      "count_hit d1 ! nat b = (if b = adr then 0 else count_hit d ! nat b)"
      "count_miss d1 ! nat b = (if b = adr then 0 else count_miss d ! nat b)" if "adr_ok p b" for b
    using eq [OF that] na len by (auto simp: d1_def nth_list_update)
  have un: "unknown_at p d1 b \<longleftrightarrow> b \<noteq> adr \<and> unknown_at p d b" if "adr_ok p b" for b
    using occ1(1) [OF that] kv by (auto simp: unknown_at_def known_value_def)
  have b1: "buffers_ok p d1" using Cons.prems(1) by (simp add: d1_def buffers_ok_def)
  have new_un: "\<not> unknown_at p d1 b" if "b \<in> set new1" for b
  proof -
    have "unknown_at p d1 b \<Longrightarrow> b = adr \<or> nat b \<noteq> nat adr"
      using kv na len by (auto simp: unknown_at_def d1_def known_value_def)
    then show ?thesis
      using that Cons.prems(5) un [OF a] by (auto simp: new1_def unknown_at_def d1_def split: if_splits)
  qed
  have "distinct new1" using Cons.prems(4,5) by (auto simp: new1_def)
  with Cons.IH [OF b1, of new1] Cons.prems(2) new_un obtain d' new' where
    IH: "drain_cache p q d1 new1 = Some (d', new')" "buffers_ok p d'" "distinct new'"
      "set new' = set new1 \<union> {a \<in> set q. unknown_at p d1 a}" "cache_voxel d' = []"
      "map_frame d1 d'"
      "\<And>a. adr_ok p a \<Longrightarrow>
        (if a \<in> set q then known_value p (occupancy_buffer d' ! nat a) \<and> count_hit d' ! nat a = 0 \<and> count_miss d' ! nat a = 0
         else occupancy_buffer d' ! nat a = occupancy_buffer d1 ! nat a \<and>
           count_hit d' ! nat a = count_hit d1 ! nat a \<and> count_miss d' ! nat a = count_miss d1 ! nat a)"
    by (auto simp: d1_def)
  have "set new' = set new \<union> {a \<in> set (adr # q). unknown_at p d a}"
    using IH(4) un Cons.prems(2) by (auto simp: new1_def)
  moreover have "map_frame d d'" using IH(6) by (simp add: d1_def map_frame_def)
  moreover have "if a \<in> set (adr # q) then known_value p (occupancy_buffer d' ! nat a) \<and> count_hit d' ! nat a = 0 \<and> count_miss d' ! nat a = 0
       else occupancy_buffer d' ! nat a = occupancy_buffer d ! nat a \<and>
         count_hit d' ! nat a = count_hit d ! nat a \<and> count_miss d' ! nat a = count_miss d ! nat a"
    if "adr_ok p a" for a
    using IH(7) [OF that] occ1 [OF that] kv by (cases "a \<in> set q"; cases "a = adr") auto
  ultimately show ?case unfolding step using IH(1-3,5) by blast
qed

section \<open>A whole cloud\<close>

text \<open>Between two clouds: no voxel is pending, and every voxel is unknown or has clamped log-odds.\<close>

definition fusion_inv :: "MapParam \<Rightarrow> MapData \<Rightarrow> bool" where
  "fusion_inv p d \<longleftrightarrow> buffers_ok p d \<and> cache_voxel d = [] \<and>
     (\<forall>a. adr_ok p a \<longrightarrow> count_hit d ! nat a = 0 \<and> count_miss d ! nat a = 0 \<and>
       (occupancy_buffer d ! nat a = clamp_min_log p - unknown_flag p \<or>
        known_value p (occupancy_buffer d ! nat a)))"

lemma fusion_inv_init: "fusion_inv p (init_data p u)"
  using buffers_init [of p u] by (simp add: fusion_inv_def init_data_def adr_ok_def Let_def)

lemma fusion_inv_unknown:
  assumes "fusion_params p caster" and "fusion_inv p d" and "adr_ok p a"
  shows "unknown_at p d a \<longleftrightarrow> occupancy_buffer d ! nat a = clamp_min_log p - unknown_flag p"
    and "\<not> unknown_at p d a \<longleftrightarrow> known_value p (occupancy_buffer d ! nat a)"
  using assms by (auto simp: fusion_params_def fusion_inv_def unknown_at_def known_value_def)

lemma bound_axis_mono: "a \<le> b \<Longrightarrow> max (min a (n - 1)) 0 \<le> max (min b (n - 1)) (0 :: int)"
  by auto

lemma update_boxes_ready:
  assumes prm: "fusion_params p caster" and d: "buffers_ok p d"
    and cam: "all3 (\<le>) umin camera" "all3 (\<le>) camera umax"
  shows "esdf_ready p (update_boxes p umin umax d)"
proof -
  have dims: "dims_ok p" and inv: "0 < resolution_inv p" and inf: "0 \<le> local_bound_inflate p"
    using prm by (auto simp: fusion_params_def geometry_ok_def)
  obtain ax ay az cx cy cz bx by' bz ox oy oz nx ny nz where
    e: "umin = (ax, ay, az)" "camera = (cx, cy, cz)" "umax = (bx, by', bz)" "map_origin p = (ox, oy, oz)"
      "map_voxel_num p = (nx, ny, nz)" by (metis prod.collapse)
  let ?h = "local_bound_inflate p"
  have le: "ax \<le> bx" "ay \<le> by'" "az \<le> bz" using cam by (auto simp: e)
  have fl: "\<lfloor>(a - h - org) * resolution_inv p\<rfloor> \<le> \<lfloor>(b + h - org) * resolution_inv p\<rfloor>"
    if "a \<le> b" "0 \<le> h" for a b h org
    using that inv by (intro floor_mono mult_right_mono) auto
  have "all3 (\<le>) (local_bound_min (update_boxes p umin umax d)) (local_bound_max (update_boxes p umin umax d))"
    using fl [OF le(1) inf, of ox] fl [OF le(2) inf, of oy] fl [OF le(3), of 0 oz]
    by (simp add: update_boxes_def boundIndex_def posToIndex_def e Let_def bound_axis_mono del: max.bounded_iff min.bounded_iff)
  then show ?thesis
    using dims d isInMap_boundIndex [OF dims] by (simp add: esdf_ready_def buffers_ok_def update_boxes_def Let_def)
qed

lemma start_cloud_frame:
  "cache_voxel (start_cloud camera d) = cache_voxel d" "count_hit (start_cloud camera d) = count_hit d"
  "count_miss (start_cloud camera d) = count_miss d" "occupancy_buffer (start_cloud camera d) = occupancy_buffer d"
  "occupancy_buffer_inflate (start_cloud camera d) = occupancy_buffer_inflate d"
  "distance_buffer (start_cloud camera d) = distance_buffer d"
  "buffers_ok p (start_cloud camera d) \<longleftrightarrow> buffers_ok p d"
  by (simp_all add: start_cloud_def buffers_ok_def Let_def)

lemma inputPointCloud_ok:
  assumes prm: "fusion_params p caster" and inv: "fusion_inv p d"
    and cam: "isInMap p (posToIndex p camera)" and pts: "\<forall>pt \<in> set points. projects_inside p camera pt"
  shows "\<exists>d' new. inputPointCloud p caster points camera d = Some (d', new, points \<noteq> []) \<and>
    fusion_inv p d' \<and> distinct new \<and> set new = {a. adr_ok p a \<and> unknown_at p d a \<and> \<not> unknown_at p d' a} \<and>
    (\<forall>a. adr_ok p a \<longrightarrow> \<not> unknown_at p d a \<longrightarrow> \<not> unknown_at p d' a) \<and>
    occupancy_buffer_inflate d' = occupancy_buffer_inflate d \<and> distance_buffer d' = distance_buffer d \<and>
    (points \<noteq> [] \<longrightarrow> esdf_ready p d')"
proof (cases "points = []")
  case True
  with inv show ?thesis by (auto simp: inputPointCloud_def)
next
  case False
  let ?d0 = "start_cloud camera d"
  have clamp: "clamp_min_log p \<le> clamp_max_log p" using prm by (auto simp: fusion_params_def)
  have "\<exists>st. for_each (insert_point p caster camera) points (?d0, camera, camera) = Some st \<and>
      cloud_inv p camera ?d0 st"
  proof (rule for_each_inv)
    show "cloud_inv p camera ?d0 (?d0, camera, camera)"
      using inv by (cases camera) (simp add: cloud_inv_def cache_inv_def fusion_inv_def start_cloud_frame)
  qed (use insert_point_ok [OF prm _ cam] pts in blast)
  then obtain d1 umin umax where d1: "for_each (insert_point p caster camera) points (?d0, camera, camera) =
      Some (d1, umin, umax)" "cache_inv p d1" "cloud_frame ?d0 d1" "all3 (\<le>) umin camera" "all3 (\<le>) camera umax"
    by (auto simp: cloud_inv_def)
  define d2 where "d2 = update_boxes p umin umax d1"
  have f2: "cache_voxel d2 = cache_voxel d1" "count_hit d2 = count_hit d1" "count_miss d2 = count_miss d1"
    "occupancy_buffer d2 = occupancy_buffer d" "occupancy_buffer_inflate d2 = occupancy_buffer_inflate d"
    "distance_buffer d2 = distance_buffer d"
    using d1(3) by (simp_all add: d2_def update_boxes_def cloud_frame_def map_frame_def start_cloud_frame Let_def)
  have ready: "esdf_ready p d2"
    unfolding d2_def using d1(2) by (intro update_boxes_ready [OF prm _ d1(4,5)]) (simp add: cache_inv_def)
  then have b2: "buffers_ok p d2" by (simp add: esdf_ready_def)
  have q: "\<forall>a \<in> set (cache_voxel d2). adr_ok p a" using d1(2) by (simp add: cache_inv_def f2)
  have un: "unknown_at p d2 a \<longleftrightarrow> unknown_at p d a" for a by (simp add: unknown_at_def f2)
  from drain_cache_ok [OF clamp b2 q refl, of "[]"] obtain d' new where
    d': "drain_cache p (cache_voxel d2) d2 [] = Some (d', new)" "buffers_ok p d'" "distinct new"
      "set new = {a \<in> set (cache_voxel d2). unknown_at p d a}" "cache_voxel d' = []" "map_frame d2 d'"
      "\<And>a. adr_ok p a \<Longrightarrow>
        (if a \<in> set (cache_voxel d2)
         then known_value p (occupancy_buffer d' ! nat a) \<and> count_hit d' ! nat a = 0 \<and> count_miss d' ! nat a = 0
         else occupancy_buffer d' ! nat a = occupancy_buffer d2 ! nat a \<and>
           count_hit d' ! nat a = count_hit d2 ! nat a \<and> count_miss d' ! nat a = count_miss d2 ! nat a)"
    by (auto simp: un)
  have zero: "count_hit d2 ! nat a = 0 \<and> count_miss d2 ! nat a = 0" if "adr_ok p a" "a \<notin> set (cache_voxel d2)" for a
    using d1(2) that by (simp add: cache_inv_def f2)
  have inv': "fusion_inv p d'"
    unfolding fusion_inv_def
  proof (intro conjI allI impI)
    fix a assume a: "adr_ok p a"
    note inv_a = inv [unfolded fusion_inv_def, THEN conjunct2, THEN conjunct2, rule_format, OF a]
    show "count_hit d' ! nat a = 0" "count_miss d' ! nat a = 0"
      "occupancy_buffer d' ! nat a = clamp_min_log p - unknown_flag p \<or> known_value p (occupancy_buffer d' ! nat a)"
      using d'(7) [OF a] zero [OF a] inv_a f2(4) by (auto split: if_splits)
  qed (use d' in auto)
  have known: "\<not> unknown_at p d' a" if "a \<in> set (cache_voxel d2)" for a
    using d'(7) [of a] q that by (auto simp: unknown_at_def known_value_def)
  have same: "unknown_at p d' a \<longleftrightarrow> unknown_at p d a" if "adr_ok p a" "a \<notin> set (cache_voxel d2)" for a
    using d'(7) [OF that(1)] that(2) by (simp add: unknown_at_def f2)
  have "set new = {a. adr_ok p a \<and> unknown_at p d a \<and> \<not> unknown_at p d' a}"
    using d'(4) q known same by auto
  moreover have "\<forall>a. adr_ok p a \<longrightarrow> \<not> unknown_at p d a \<longrightarrow> \<not> unknown_at p d' a"
    using known same by blast
  moreover have "esdf_ready p d'" using ready d'(2,6) by (simp add: esdf_ready_def map_frame_def)
  moreover have "inputPointCloud p caster points camera d = Some (d', new, points \<noteq> [])"
    using False d1(1) d'(1) by (simp add: inputPointCloud_def Let_def d2_def)
  ultimately show ?thesis using inv' d'(3,6) f2 by (auto simp: map_frame_def)
qed

section \<open>Inflation\<close>

definition near :: "MapParam \<Rightarrow> idx3 \<Rightarrow> idx3 \<Rightarrow> bool" where
  "near p i j \<longleftrightarrow> all3 (\<lambda>a b. \<bar>a - b\<bar> \<le> inf_step p) i j"

lemma inflate_voxel_nth:
  assumes "dims_ok p" and j: "isInMap p j" and len: "length buf = nat (getVoxelNum p)"
  shows "inflate_voxel p i buf ! nat (toAddress p j) = (if near p i j then 1 else buf ! nat (toAddress p j))"
    and "length (inflate_voxel p i buf) = length buf"
proof -
  let ?f = "\<lambda>k b. let pt = zip3 (+) i k in if \<not> isInMap p pt then b else b[nat (toAddress p pt) := 1]"
  have fold: "length (fold ?f ks b) = length b \<and> (length b = nat (getVoxelNum p) \<longrightarrow>
      fold ?f ks b ! nat (toAddress p j) = (if j \<in> (\<lambda>k. zip3 (+) i k) ` set ks then 1 else b ! nat (toAddress p j)))"
    for ks and b :: "int list"
  proof (induction ks arbitrary: b)
    case (Cons k ks)
    show ?case
    proof (cases "isInMap p (zip3 (+) i k)")
      case True
      with Cons.IH [of "b[nat (toAddress p (zip3 (+) i k)) := 1]"]
        voxel.nth_update [OF assms(1) True j, of b 1] show ?thesis by (auto simp: Let_def)
    next
      case False
      then have "j \<noteq> zip3 (+) i k" using j by auto
      with Cons.IH [of b] False show ?thesis by (simp add: Let_def)
    qed
  qed simp
  have "j \<in> (\<lambda>k. zip3 (+) i k) ` {k. all3 (\<le>) (- s, - s, - s) k \<and> all3 (\<le>) k (s, s, s)} \<longleftrightarrow>
      all3 (\<lambda>a b. \<bar>a - b\<bar> \<le> s) i j" for s :: int
  proof
    obtain ix iy iz jx jy jz where e: "i = (ix, iy, iz)" "j = (jx, jy, jz)" by (metis prod.collapse)
    assume "all3 (\<lambda>a b. \<bar>a - b\<bar> \<le> s) i j"
    then show "j \<in> (\<lambda>k. zip3 (+) i k) ` {k. all3 (\<le>) (- s, - s, - s) k \<and> all3 (\<le>) k (s, s, s)}"
      by (intro image_eqI [of _ _ "(jx - ix, jy - iy, jz - iz)"]) (auto simp: e)
  qed (auto simp: zip3_def split: prod.splits)
  with fold len show "inflate_voxel p i buf ! nat (toAddress p j) = (if near p i j then 1 else buf ! nat (toAddress p j))"
    "length (inflate_voxel p i buf) = length buf"
    by (simp_all add: inflate_voxel_def set_box_cells near_def Let_def)
qed

text \<open>The inflated cells after \<open>clearAndInflateLocalMap\<close>.\<close>

definition inflated_value :: "MapParam \<Rightarrow> MapData \<Rightarrow> idx3 \<Rightarrow> int" where
  "inflated_value p d j =
     (let cells = set (box_cells (local_bound_min d) (local_bound_max d)) in
      if \<exists>i \<in> cells. occupancy_buffer d ! nat (toAddress p i) > min_occupancy_log p \<and> near p i j then 1
      else if j \<in> cells then 0 else occupancy_buffer_inflate d ! nat (toAddress p j))"

lemma clearAndInflate_ok:
  assumes ready: "esdf_ready p d" and j: "isInMap p j"
  shows "occupancy_buffer_inflate (clearAndInflateLocalMap p d) ! nat (toAddress p j) = inflated_value p d j"
    and "length (occupancy_buffer_inflate (clearAndInflateLocalMap p d)) = length (occupancy_buffer_inflate d)"
proof -
  let ?cells = "box_cells (local_bound_min d) (local_bound_max d)"
  let ?occ = "\<lambda>i. occupancy_buffer d ! nat (toAddress p i) > min_occupancy_log p"
  let ?f = "\<lambda>i b. if ?occ i then inflate_voxel p i b else b"
  let ?b1 = "fold (\<lambda>i b. b[nat (toAddress p i) := 0]) ?cells (occupancy_buffer_inflate d)"
  have dims: "dims_ok p" and len: "length (occupancy_buffer_inflate d) = nat (getVoxelNum p)"
    and lo: "isInMap p (local_bound_min d)" "isInMap p (local_bound_max d)"
    using ready by (auto simp: esdf_ready_def buffers_ok_def)
  have box: "\<forall>i \<in> set ?cells. isInMap p i" using box_cells_in_map [OF lo] by blast
  have fold: "length (fold ?f is b) = length b \<and> (length b = nat (getVoxelNum p) \<longrightarrow>
      fold ?f is b ! nat (toAddress p j) =
        (if \<exists>i \<in> set is. ?occ i \<and> near p i j then 1 else b ! nat (toAddress p j)))" for "is" and b :: "int list"
  proof (induction "is" arbitrary: b)
    case (Cons i "is")
    show ?case
    proof (cases "?occ i \<and> length b = nat (getVoxelNum p)")
      case True
      with Cons.IH [of "inflate_voxel p i b"] inflate_voxel_nth [OF dims j, of b i] show ?thesis by auto
    next
      case False
      have "length (inflate_voxel p i b) = length b" for b
        unfolding inflate_voxel_def Let_def by (rule fold_invariant [where P = "\<lambda>b'. length b' = length b"]) auto
      with Cons.IH False show ?thesis by auto
    qed
  qed simp
  have b1: "?b1 ! nat (toAddress p j) =
      (if j \<in> set ?cells then 0 else occupancy_buffer_inflate d ! nat (toAddress p j))"
    by (rule voxel.fold_write [OF dims box j len])
  have l1: "length ?b1 = nat (getVoxelNum p)" by (simp only: voxel.length_fold_write len)
  have "fold ?f ?cells ?b1 ! nat (toAddress p j) =
      (if \<exists>i \<in> set ?cells. ?occ i \<and> near p i j then 1 else ?b1 ! nat (toAddress p j))"
    using fold [of ?cells ?b1] l1 by blast
  then show "occupancy_buffer_inflate (clearAndInflateLocalMap p d) ! nat (toAddress p j) = inflated_value p d j"
    unfolding clearAndInflateLocalMap_def inflated_value_def Let_def b1 by simp
  show "length (occupancy_buffer_inflate (clearAndInflateLocalMap p d)) = length (occupancy_buffer_inflate d)"
    using fold [of ?cells ?b1] l1 len by (simp add: clearAndInflateLocalMap_def Let_def)
qed

end
