(* ===== verification/Map_Chunks_Props.thy ===== *)
theory Map_Chunks_Props imports Map_Chunks Voxel_Fusion_Props
begin

text \<open>
  The invariant of the chunk stores: the interval lists name exactly the chunks that are present, so
  sending never reads outside a store, and the sets of known chunks develop by set difference and
  union.
\<close>

section \<open>The invariant\<close>

definition chunk_ok :: "MapParam \<Rightarrow> bool \<Rightarrow> MapChunk \<Rightarrow> bool" where
  "chunk_ok p own c \<longleftrightarrow> (\<forall>a \<in> set (voxel_adrs c). adr_ok p a) \<and>
     (if need_query c then own \<and> voxel_occ c = [] else length (voxel_occ c) = length (voxel_adrs c))"

definition store_ok :: "MapParam \<Rightarrow> bool \<Rightarrow> ChunksData \<Rightarrow> bool" where
  "store_ok p own data \<longleftrightarrow> wf_ids (idx_list data) \<and>
     (\<forall>k. k \<in> ids_of (idx_list data) \<longleftrightarrow>
        1 \<le> k \<and> k \<le> int (length (chunks data)) \<and> \<not> chunk_empty (chunks data ! nat (k - 1))) \<and>
     (\<forall>j < length (chunks data). chunk_idx (chunks data ! j) = int j + 1 \<and> chunk_ok p own (chunks data ! j))"

text \<open>The drone's own store: every chunk is present and full.\<close>

definition own_store_ok :: "nat \<Rightarrow> ChunksData \<Rightarrow> bool" where
  "own_store_ok n data \<longleftrightarrow> (\<forall>c \<in> set (chunks data). \<not> chunk_empty c \<and> length (voxel_adrs c) = n)"

definition data_msg_ok :: "MapParam \<Rightarrow> MultiMapManager \<Rightarrow> ChunkData \<Rightarrow> bool" where
  "data_msg_ok p st m \<longleftrightarrow> 1 \<le> cd_drone m \<and> cd_drone m \<le> int (map_num st) \<and> 1 \<le> cd_idx m \<and> cd_idx m < int_max \<and>
     (cd_drone m = mm_drone st \<longrightarrow>
        cd_idx m \<le> int (length (chunks (multi_map_chunks st ! nat (mm_drone st - 1))))) \<and>
     (\<forall>a \<in> set (cd_adrs m). adr_ok p a) \<and> length (cd_occ m) = length (cd_adrs m)"

definition own_index :: "MultiMapManager \<Rightarrow> nat" where
  "own_index st = nat (mm_drone st - 1)"

definition own_data :: "MultiMapManager \<Rightarrow> ChunksData" where
  "own_data st = multi_map_chunks st ! own_index st"

definition mm_sizes :: "MultiMapManager \<Rightarrow> bool" where
  "mm_sizes st \<longleftrightarrow> 1 \<le> mm_drone st \<and> mm_drone st \<le> int (map_num st) \<and> 0 < chunk_size st \<and>
     length (multi_map_chunks st) = map_num st \<and> length (chunk_buffer st) = map_num st \<and>
     length (buffer_map st) = map_num st \<and> length (last_chunk_stamp_time st) = map_num st \<and>
     length (chunk_boxes st) = map_num st"

definition stores_ok :: "MapParam \<Rightarrow> MultiMapManager \<Rightarrow> bool" where
  "stores_ok p st \<longleftrightarrow>
     (\<forall>i < map_num st. store_ok p (i = own_index st) (multi_map_chunks st ! i)) \<and>
     own_store_ok (chunk_size st) (own_data st)"

definition buffers_mm_ok :: "MapParam \<Rightarrow> MultiMapManager \<Rightarrow> bool" where
  "buffers_mm_ok p st \<longleftrightarrow> (\<forall>i < map_num st.
     set (buffer_map st ! i) = cd_idx ` set (chunk_buffer st ! i) \<and> distinct (map cd_idx (chunk_buffer st ! i)) \<and>
     (\<forall>m \<in> set (chunk_buffer st ! i). data_msg_ok p st m \<and> cd_drone m = int i + 1))"

definition mm_inv :: "MapParam \<Rightarrow> MultiMapManager \<Rightarrow> bool" where
  "mm_inv p st \<longleftrightarrow> mm_sizes st \<and> stores_ok p st \<and> buffers_mm_ok p st \<and>
     (\<forall>a \<in> set (adr_buffer st). adr_ok p a) \<and> length (adr_buffer st) \<le> chunk_size st"

text \<open>No store holds \<open>2^31 - 1\<close> chunks, so every id fits an \<open>int\<close> and so does its successor.\<close>

definition stores_small :: "MultiMapManager \<Rightarrow> bool" where
  "stores_small st \<longleftrightarrow> (\<forall>i < map_num st. int (length (chunks (multi_map_chunks st ! i))) < int_max)"

lemma own_index_less: "mm_sizes st \<Longrightarrow> own_index st < map_num st"
  by (simp add: mm_sizes_def own_index_def) linarith

lemma vec_at_Some [simp]: "0 \<le> k \<Longrightarrow> k < int (length xs) \<Longrightarrow> vec_at xs k = Some (xs ! nat k)"
  by (simp add: vec_at_def)

lemma mm_inv_init:
  assumes "1 \<le> drone" "drone \<le> int num" "0 < csize"
  shows "mm_inv p (mm_init drone num csize)"
proof -
  have "nat (drone - 1) < num" using assms by linarith
  then show ?thesis
    using assms by (simp add: mm_inv_def mm_sizes_def stores_ok_def buffers_mm_ok_def own_index_def own_data_def
        mm_init_def store_ok_def own_store_ok_def)
qed

section \<open>Own chunks\<close>

lemma wf_ids_interval:
  assumes "wf_ids xs" and "ids_of xs = {1..n}" and "1 \<le> n"
  shows "xs = [1, n]"
proof -
  have "xs \<noteq> []" using assms(2,3) by auto
  then obtain l r rest where xs: "xs = l # r # rest" using assms(1) by (cases xs rule: ids_of.cases) auto
  have lr: "l \<le> r" using assms(1) by (simp add: xs wf_ids_Cons)
  have low: "r + 1 < x" if "x \<in> ids_of rest" for x using wf_ids_lower assms(1) that by (simp add: xs)
  have ids: "x \<in> {l..r} \<or> x \<in> ids_of rest \<longleftrightarrow> 1 \<le> x \<and> x \<le> n" for x
    using assms(2) by (auto simp: xs)
  have l: "l = 1" using ids [of l] ids [of 1] lr low [of 1] assms(3) by auto
  have r: "r = n" using ids [of r] ids [of "r + 1"] low [of "r + 1"] lr by auto
  have "ids_of rest = {}" using ids low r by force
  then have "rest = []" using assms(1) by (cases rest rule: ids_of.cases) (auto simp: xs wf_ids_Cons)
  with l r show ?thesis by (simp add: xs)
qed

lemma own_idx_list:
  assumes "store_ok p own data" and "own_store_ok n data"
  shows "ids_of (idx_list data) = {1..int (length (chunks data))}"
    and "chunks data = [] \<Longrightarrow> idx_list data = []"
    and "chunks data \<noteq> [] \<Longrightarrow> idx_list data = [1, int (length (chunks data))]"
proof -
  have "\<not> chunk_empty (chunks data ! nat (k - 1))" if "1 \<le> k" "k \<le> int (length (chunks data))" for k
    using assms(2) that by (auto simp: own_store_ok_def)
  with assms(1) show ids: "ids_of (idx_list data) = {1..int (length (chunks data))}"
    by (auto simp: store_ok_def)
  have wf: "wf_ids (idx_list data)" using assms(1) by (simp add: store_ok_def)
  show "idx_list data = []" if "chunks data = []"
    using ids wf that by (cases "idx_list data" rule: ids_of.cases) (auto simp: wf_ids_Cons)
  show "idx_list data = [1, int (length (chunks data))]" if "chunks data \<noteq> []"
    using that by (intro wf_ids_interval [OF wf ids]) (simp add: Suc_leI)
qed

lemma cut_chunks_ok:
  assumes "0 < n"
  shows "\<exists>rest new. cut_chunks n buf cs = Some (rest, cs @ new) \<and> concat (map voxel_adrs new) @ rest = buf \<and>
    length rest \<le> n \<and> (n < length buf \<longrightarrow> new \<noteq> []) \<and>
    (\<forall>j < length new. \<exists>adrs. new ! j = own_chunk adrs (int (length cs + j) + 1) \<and> length adrs = n)"
proof (induction "length buf" arbitrary: buf cs rule: less_induct)
  case less
  show ?case
  proof (cases "n < length buf")
    case False
    then show ?thesis by (simp add: cut_chunks.simps [of n buf])
  next
    case True
    let ?c = "own_chunk (take n buf) (int (length cs) + 1)"
    have "length (drop n buf) < length buf" using assms True by simp
    from less.hyps [OF this, of "cs @ [?c]"] obtain rest new where
      IH: "cut_chunks n (drop n buf) (cs @ [?c]) = Some (rest, (cs @ [?c]) @ new)"
        "concat (map voxel_adrs new) @ rest = drop n buf" "length rest \<le> n"
        "\<forall>j < length new. \<exists>adrs. new ! j = own_chunk adrs (int (length (cs @ [?c]) + j) + 1) \<and> length adrs = n"
      by blast
    have "\<exists>adrs. (?c # new) ! j = own_chunk adrs (int (length cs + j) + 1) \<and> length adrs = n"
      if "j < length (?c # new)" for j
      using IH(4) that True by (cases j) auto
    moreover have "concat (map voxel_adrs (?c # new)) @ rest = buf"
      using IH(2) by (simp add: own_chunk_def)
    moreover have "cut_chunks n buf cs = Some (rest, cs @ ?c # new)"
      using IH(1) True by (simp add: cut_chunks.simps [of n buf])
    ultimately show ?thesis using IH(3) by blast
  qed
qed

text \<open>Everything the drone ever passed to \<open>updateMapChunk\<close>: its chunks, then the buffer.\<close>

definition stream :: "MultiMapManager \<Rightarrow> int list" where
  "stream st = concat (map voxel_adrs (chunks (own_data st))) @ adr_buffer st"

text \<open>The one case that reads the last chunk of an empty store.\<close>

definition first_chunk_gap :: "int list \<Rightarrow> MultiMapManager \<Rightarrow> bool" where
  "first_chunk_gap adrs st \<longleftrightarrow> chunks (own_data st) = [] \<and> length (adr_buffer st @ adrs) = chunk_size st"

lemma own_store_extend:
  assumes st: "store_ok p True data" and own: "own_store_ok n data"
    and new: "\<forall>j < length new. \<exists>adrs. new ! j = own_chunk adrs (int (length (chunks data) + j) + 1) \<and>
      length adrs = n \<and> (\<forall>a \<in> set adrs. adr_ok p a)"
    and ne: "chunks data @ new \<noteq> []"
  shows "store_ok p True (data\<lparr>chunks := chunks data @ new, idx_list := [1, int (length (chunks data @ new))]\<rparr>)"
    and "own_store_ok n (data\<lparr>chunks := chunks data @ new, idx_list := [1, int (length (chunks data @ new))]\<rparr>)"
proof -
  have nw: "\<not> chunk_empty c \<and> length (voxel_adrs c) = n" if "c \<in> set new" for c
    using new that by (auto simp: in_set_conv_nth own_chunk_def)
  then show own': "own_store_ok n (data\<lparr>chunks := chunks data @ new, idx_list := [1, int (length (chunks data @ new))]\<rparr>)"
    using own by (auto simp: own_store_ok_def)
  have "chunk_idx ((chunks data @ new) ! j) = int j + 1 \<and> chunk_ok p True ((chunks data @ new) ! j)"
    if "j < length (chunks data @ new)" for j
  proof (cases "j < length (chunks data)")
    case True
    with st show ?thesis by (simp add: store_ok_def nth_append)
  next
    case False
    then have j: "j - length (chunks data) < length new" using that by simp
    with new obtain adrs where "new ! (j - length (chunks data)) =
        own_chunk adrs (int (length (chunks data) + (j - length (chunks data))) + 1)" "\<forall>a \<in> set adrs. adr_ok p a"
      by blast
    with False show ?thesis by (auto simp: nth_append own_chunk_def chunk_ok_def)
  qed
  moreover have "\<not> chunk_empty ((chunks data @ new) ! nat (k - 1))" if "1 \<le> k" "k \<le> int (length (chunks data @ new))" for k
  proof -
    have "(chunks data @ new) ! nat (k - 1) \<in> set (chunks data @ new)" using that by (intro nth_mem) auto
    with nw own show ?thesis by (auto simp: own_store_ok_def)
  qed
  moreover have "1 \<le> int (length (chunks data @ new))" using ne by (cases "chunks data @ new") auto
  ultimately show "store_ok p True (data\<lparr>chunks := chunks data @ new, idx_list := [1, int (length (chunks data @ new))]\<rparr>)"
    by (auto simp: store_ok_def)
qed

text \<open>Changing the own store only.\<close>

lemma mm_inv_set_own:
  assumes inv: "mm_inv p st" and data: "store_ok p True data" "own_store_ok (chunk_size st) data"
    and len: "length (chunks (own_data st)) \<le> length (chunks data)"
    and st': "st' = st\<lparr>multi_map_chunks := (multi_map_chunks st)[own_index st := data], adr_buffer := buf\<rparr>"
    and buf: "\<forall>a \<in> set buf. adr_ok p a" "length buf \<le> chunk_size st"
  shows "mm_inv p st'" and "own_data st' = data"
proof -
  have sz: "mm_sizes st" using inv by (simp add: mm_inv_def)
  note oi = own_index_less [OF sz]
  have oi': "own_index st' = own_index st" by (simp add: st' own_index_def)
  show od: "own_data st' = data"
    using oi sz by (simp add: own_data_def oi') (simp add: st' mm_sizes_def)
  have "mm_sizes st'" using sz by (simp add: mm_sizes_def st')
  moreover have "stores_ok p st'"
    unfolding stores_ok_def od
  proof (intro conjI allI impI)
    fix i assume "i < map_num st'"
    with inv data(1) oi sz show "store_ok p (i = own_index st') (multi_map_chunks st' ! i)"
      unfolding oi' by (cases "i = own_index st") (auto simp: mm_inv_def stores_ok_def st' mm_sizes_def)
  next
    show "own_store_ok (chunk_size st') data" using data(2) by (simp add: st')
  qed
  moreover have "buffers_mm_ok p st'"
  proof -
    have "data_msg_ok p st m \<Longrightarrow> data_msg_ok p st' m" for m
      using len od by (auto simp: data_msg_ok_def own_data_def own_index_def st')
    then show ?thesis using inv by (auto simp: mm_inv_def buffers_mm_ok_def st')
  qed
  ultimately show "mm_inv p st'" using buf by (simp add: mm_inv_def st')
qed

lemma updateMapChunk_ok:
  assumes inv: "mm_inv p st" and adrs: "\<forall>a \<in> set adrs. adr_ok p a" and gap: "\<not> first_chunk_gap adrs st"
  shows "\<exists>st'. updateMapChunk adrs st = Some st' \<and> mm_inv p st' \<and> stream st' = stream st @ adrs \<and>
    (\<forall>i < map_num st. i \<noteq> own_index st \<longrightarrow> multi_map_chunks st' ! i = multi_map_chunks st ! i)"
proof -
  let ?buf = "adr_buffer st @ adrs" and ?n = "chunk_size st" and ?cs = "chunks (own_data st)"
  have sz: "mm_sizes st" and b: "\<forall>a \<in> set ?buf. adr_ok p a" using inv adrs by (auto simp: mm_inv_def)
  have n: "0 < ?n" using sz by (simp add: mm_sizes_def)
  show ?thesis
  proof (cases "?n \<le> length ?buf")
    case False
    let ?st = "st\<lparr>adr_buffer := ?buf\<rparr>"
    have "mm_inv p ?st"
      using inv False b by (auto simp: mm_inv_def mm_sizes_def stores_ok_def buffers_mm_ok_def own_data_def own_index_def data_msg_ok_def)
    with False show ?thesis by (simp add: updateMapChunk_def stream_def own_data_def own_index_def)
  next
    case True
    from cut_chunks_ok [OF n, of ?buf ?cs] obtain rest new where
      cut: "cut_chunks ?n ?buf ?cs = Some (rest, ?cs @ new)" "concat (map voxel_adrs new) @ rest = ?buf"
        "length rest \<le> ?n" "?n < length ?buf \<longrightarrow> new \<noteq> []"
        "\<forall>j < length new. \<exists>adrs. new ! j = own_chunk adrs (int (length ?cs + j) + 1) \<and> length adrs = ?n"
      by blast
    have ne: "?cs @ new \<noteq> []" using gap cut(4) True by (auto simp: first_chunk_gap_def)
    have st: "store_ok p True (own_data st)" "own_store_ok ?n (own_data st)"
      using inv own_index_less [OF sz] by (auto simp: mm_inv_def stores_ok_def own_data_def)
    have new: "\<forall>j < length new. \<exists>adrs. new ! j = own_chunk adrs (int (length ?cs + j) + 1) \<and> length adrs = ?n \<and>
        (\<forall>a \<in> set adrs. adr_ok p a)"
    proof (intro allI impI)
      fix j assume j: "j < length new"
      with cut(5) obtain adrs where a: "new ! j = own_chunk adrs (int (length ?cs + j) + 1)" "length adrs = ?n" by blast
      have "set (voxel_adrs (new ! j)) \<subseteq> set (concat (map voxel_adrs new) @ rest)" using nth_mem [OF j] by auto
      then have "\<forall>a \<in> set adrs. adr_ok p a" unfolding cut(2) using b a(1) by (auto simp: own_chunk_def)
      with a show "\<exists>adrs. new ! j = own_chunk adrs (int (length ?cs + j) + 1) \<and> length adrs = ?n \<and>
        (\<forall>a \<in> set adrs. adr_ok p a)" by blast
    qed
    let ?data = "(own_data st)\<lparr>chunks := ?cs @ new, idx_list := [1, int (length (?cs @ new))]\<rparr>"
    let ?st = "st\<lparr>multi_map_chunks := (multi_map_chunks st)[own_index st := ?data], adr_buffer := rest\<rparr>"
    note ext = own_store_extend [OF st new ne]
    have last: "chunk_idx (last (?cs @ new)) = int (length (?cs @ new))"
    proof -
      have "chunk_idx ((?cs @ new) ! (length (?cs @ new) - 1)) = int (length (?cs @ new) - 1) + 1"
        using ext(1) ne by (simp add: store_ok_def)
      then show ?thesis using ne by (simp add: last_conv_nth Suc_leI of_nat_diff flip: length_greater_0_conv)
    qed
    have ids: "butlast (if idx_list (own_data st) = [] then [1, 1] else idx_list (own_data st)) = [1]"
      using own_idx_list(2,3) [OF st] by (cases "?cs = []") auto
    have at: "vec_at (multi_map_chunks st) (mm_drone st - 1) = Some (own_data st)"
      using sz by (simp add: own_data_def own_index_def mm_sizes_def)
    have "\<not> (?cs = [] \<and> new = [])" using ne by simp
    then have "updateMapChunk adrs st = Some ?st"
      using True at cut(1) last ids
      by (simp only: updateMapChunk_def Let_def if_True Option.bind.bind_lunit prod.case own_index_def [symmetric]
          append_is_Nil_conv if_False append_Cons append_Nil)
    moreover have "mm_inv p ?st \<and> own_data ?st = ?data"
    proof -
      have "set rest \<subseteq> set (concat (map voxel_adrs new) @ rest)" by simp
      then have r: "\<forall>a \<in> set rest. adr_ok p a" unfolding cut(2) using b by blast
      have "length ?cs \<le> length (chunks ?data)" by simp
      from mm_inv_set_own [OF inv ext this refl r cut(3)] show ?thesis by blast
    qed
    moreover have "stream ?st = stream st @ adrs"
    proof -
      have "own_data ?st = ?data" using calculation by simp
      then have "stream ?st = concat (map voxel_adrs ?cs) @ (concat (map voxel_adrs new) @ rest)"
        by (simp add: stream_def)
      then show ?thesis unfolding cut(2) by (simp add: stream_def)
    qed
    ultimately show ?thesis by auto
  qed
qed

lemma updateMapChunk_gap:
  assumes "mm_inv p st" and "first_chunk_gap adrs st"
  shows "updateMapChunk adrs st = None"
proof -
  have sz: "mm_sizes st" using assms(1) by (simp add: mm_inv_def)
  have "vec_at (multi_map_chunks st) (mm_drone st - 1) = Some (own_data st)"
    using sz by (simp add: own_data_def own_index_def mm_sizes_def)
  with assms(2) show ?thesis
    by (simp add: updateMapChunk_def first_chunk_gap_def cut_chunks.simps)
qed

section \<open>Sending\<close>

text \<open>What sending does not change of a chunk and of a store.\<close>

definition skeleton :: "MapChunk \<Rightarrow> int \<times> int list \<times> bool" where
  "skeleton c = (chunk_idx c, voxel_adrs c, chunk_empty c)"

definition same_store :: "ChunksData \<Rightarrow> ChunksData \<Rightarrow> bool" where
  "same_store a b \<longleftrightarrow> idx_list b = idx_list a \<and> map skeleton (chunks b) = map skeleton (chunks a)"

lemma same_store_nth:
  assumes "same_store a b" and "j < length (chunks a)"
  shows "length (chunks b) = length (chunks a)" "chunk_idx (chunks b ! j) = chunk_idx (chunks a ! j)"
    "voxel_adrs (chunks b ! j) = voxel_adrs (chunks a ! j)" "chunk_empty (chunks b ! j) = chunk_empty (chunks a ! j)"
proof -
  have m: "map skeleton (chunks b) = map skeleton (chunks a)" using assms(1) by (simp add: same_store_def)
  then show l: "length (chunks b) = length (chunks a)" by (rule map_eq_imp_length_eq)
  have "map skeleton (chunks b) ! j = map skeleton (chunks a) ! j" by (simp only: m)
  then show "chunk_idx (chunks b ! j) = chunk_idx (chunks a ! j)" "voxel_adrs (chunks b ! j) = voxel_adrs (chunks a ! j)"
    "chunk_empty (chunks b ! j) = chunk_empty (chunks a ! j)" using assms(2) l by (auto simp: skeleton_def)
qed

lemma same_store_length: "same_store a b \<Longrightarrow> length (chunks b) = length (chunks a)"
  by (metis same_store_def map_eq_imp_length_eq)

lemma store_ok_same:
  assumes "store_ok p own a" and same: "same_store a b" and "\<forall>c \<in> set (chunks b). chunk_ok p own c"
  shows "store_ok p own b"
proof -
  note l = same_store_length [OF same]
  have e: "idx_list b = idx_list a" using same by (simp add: same_store_def)
  have "chunk_empty (chunks b ! nat (k - 1)) = chunk_empty (chunks a ! nat (k - 1))"
    if "1 \<le> k" "k \<le> int (length (chunks a))" for k
    using that by (intro same_store_nth [OF same]) auto
  with assms(1,3) same_store_nth(2) [OF same] show ?thesis by (auto simp: store_ok_def l e)
qed

lemma own_store_same: "own_store_ok n a \<Longrightarrow> same_store a b \<Longrightarrow> own_store_ok n b"
  using same_store_nth(3,4) [of a b] same_store_length [of a b]
  unfolding own_store_ok_def by (metis in_set_conv_nth)

lemma getOccOfChunk_ok:
  assumes "buffers_ok p d" and "\<forall>a \<in> set adrs. adr_ok p a"
  shows "\<exists>occ. getOccOfChunk p d adrs = Some occ \<and> length occ = length adrs"
proof -
  have len: "length (occupancy_buffer d) = nat (getVoxelNum p)" using assms(1) by (simp add: buffers_ok_def)
  have "\<forall>a \<in> set adrs. in_buffer (occupancy_buffer d) a" using assms(2) in_buffer_ok [OF len] by blast
  then show ?thesis by (simp add: getOccOfChunk_def)
qed

text \<open>A message that was sent for a chunk of the store.\<close>

definition sent_from :: "MapParam \<Rightarrow> int \<Rightarrow> int \<Rightarrow> int \<Rightarrow> ChunksData \<Rightarrow> ChunkData \<Rightarrow> bool" where
  "sent_from p self chunk_drone to_drone data m \<longleftrightarrow> cd_from m = self \<and> cd_to m = to_drone \<and>
     cd_drone m = chunk_drone \<and> cd_idx m \<in> ids_of (idx_list data) \<and>
     cd_adrs m = voxel_adrs (chunks data ! nat (cd_idx m - 1)) \<and>
     length (cd_occ m) = length (cd_adrs m) \<and> (\<forall>a \<in> set (cd_adrs m). adr_ok p a)"

lemma send_list_ok:
  assumes st: "store_ok p own data" and own: "own = (chunk_drone = self)" and d: "buffers_ok p d"
    and js: "\<forall>j \<in> set js. j \<in> ids_of (idx_list data)"
    and cs: "map skeleton cs = map skeleton (chunks data)" "\<forall>c \<in> set cs. chunk_ok p own c"
  shows "\<exists>cs' out'. for_each (send_one p d self chunk_drone to_drone) js (cs, out) = Some (cs', out @ out') \<and>
    map skeleton cs' = map skeleton (chunks data) \<and> (\<forall>c \<in> set cs'. chunk_ok p own c) \<and>
    map cd_idx out' = js \<and> (\<forall>m \<in> set out'. sent_from p self chunk_drone to_drone data m)"
  using js cs
proof (induction js arbitrary: cs out)
  case (Cons j js)
  have len: "length cs = length (chunks data)" using Cons.prems(2) by (rule map_eq_imp_length_eq)
  have j: "1 \<le> j" "j \<le> int (length (chunks data))" using Cons.prems(1) st by (auto simp: store_ok_def)
  let ?c = "cs ! nat (j - 1)"
  have jl: "nat (j - 1) < length cs" using j len by auto
  have same: "same_store data (data\<lparr>chunks := cs\<rparr>)" using Cons.prems(2) by (simp add: same_store_def)
  note sk = same_store_nth(2,3) [OF same jl [unfolded len]]
  have ok: "chunk_ok p own ?c" using Cons.prems(3) jl by simp
  have at: "vec_at cs (j - 1) = Some ?c" using j len by simp
  have cidx: "chunk_idx ?c = j" using sk st j by (simp add: store_ok_def)
  obtain c' where c': "(if chunk_drone = self \<and> need_query ?c
        then map_option (\<lambda>occ. ?c\<lparr>voxel_occ := voxel_occ ?c @ occ, need_query := False\<rparr>)
               (getOccOfChunk p d (voxel_adrs ?c))
        else Some ?c) = Some c'" "skeleton c' = skeleton ?c" "chunk_ok p own c'" "\<not> need_query c'"
  proof (cases "need_query ?c")
    case True
    with ok own have "chunk_drone = self" "voxel_occ ?c = []" "\<forall>a \<in> set (voxel_adrs ?c). adr_ok p a"
      by (auto simp: chunk_ok_def)
    moreover from getOccOfChunk_ok [OF d this(3)] obtain occ where
      "getOccOfChunk p d (voxel_adrs ?c) = Some occ" "length occ = length (voxel_adrs ?c)" by blast
    ultimately show thesis
      using True by (intro that [of "?c\<lparr>voxel_occ := occ, need_query := False\<rparr>"]) (auto simp: skeleton_def chunk_ok_def)
  qed (use ok that [of ?c] in auto)
  let ?cs = "cs[nat (j - 1) := c']"
  define m where "m = \<lparr>cd_from = self, cd_to = to_drone, cd_drone = chunk_drone, cd_adrs = voxel_adrs ?c,
    cd_occ = voxel_occ c', cd_idx = chunk_idx ?c\<rparr>"
  have step: "send_one p d self chunk_drone to_drone j (cs, out) = Some (?cs, out @ [m])"
    using at c'(1) by (simp add: send_one_def m_def)
  have "voxel_adrs c' = voxel_adrs ?c" using c'(2) by (simp add: skeleton_def)
  then have "sent_from p self chunk_drone to_drone data m"
    using c'(3,4) Cons.prems(1) sk(2) by (simp add: sent_from_def m_def cidx chunk_ok_def)
  moreover have "map skeleton ?cs = map skeleton cs"
    using c'(2) jl by (simp add: map_update list_update_same_conv)
  then have "map skeleton ?cs = map skeleton (chunks data)" using Cons.prems(2) by simp
  moreover have "\<forall>c \<in> set ?cs. chunk_ok p own c" using Cons.prems(3) c'(3) by (auto dest: set_update_subset_insert [THEN subsetD])
  moreover obtain cs' out' where "for_each (send_one p d self chunk_drone to_drone) js (?cs, out @ [m]) =
      Some (cs', (out @ [m]) @ out')" "map skeleton cs' = map skeleton (chunks data)"
      "\<forall>c \<in> set cs'. chunk_ok p own c" "map cd_idx out' = js"
      "\<forall>m \<in> set out'. sent_from p self chunk_drone to_drone data m"
    using Cons.IH [of ?cs "out @ [m]"] Cons.prems(1) calculation(2,3) by (auto simp del: append_assoc)
  ultimately show ?case
    using step cidx by (intro exI [of _ cs'] exI [of _ "m # out'"]) (simp add: m_def)
qed simp

text \<open>Sending keeps everything but the occupancies of the sent chunks.\<close>

definition send_frame :: "MultiMapManager \<Rightarrow> MultiMapManager \<Rightarrow> bool" where
  "send_frame st st' \<longleftrightarrow> mm_drone st' = mm_drone st \<and> map_num st' = map_num st \<and> chunk_size st' = chunk_size st \<and>
     adr_buffer st' = adr_buffer st \<and> chunk_buffer st' = chunk_buffer st \<and> buffer_map st' = buffer_map st \<and>
     length (last_chunk_stamp_time st') = length (last_chunk_stamp_time st) \<and> chunk_boxes st' = chunk_boxes st \<and>
     length (multi_map_chunks st') = length (multi_map_chunks st) \<and>
     (\<forall>i < map_num st. same_store (multi_map_chunks st ! i) (multi_map_chunks st' ! i))"

lemma send_frame_same:
  "send_frame st st' \<Longrightarrow> i < map_num st \<Longrightarrow> same_store (multi_map_chunks st ! i) (multi_map_chunks st' ! i)"
  by (simp add: send_frame_def)

lemma send_frame_refl [simp]: "send_frame st st"
  by (simp add: send_frame_def same_store_def)

lemma send_frame_trans: "send_frame st st' \<Longrightarrow> send_frame st' st'' \<Longrightarrow> send_frame st st''"
  by (simp add: send_frame_def same_store_def)

lemma send_frame_inv:
  assumes inv: "mm_inv p st" and fr: "send_frame st st'"
    and ok: "\<forall>i < map_num st. \<forall>c \<in> set (chunks (multi_map_chunks st' ! i)). chunk_ok p (i = own_index st) c"
  shows "mm_inv p st'"
proof -
  have f: "mm_drone st' = mm_drone st" "map_num st' = map_num st" "chunk_size st' = chunk_size st"
    "own_index st' = own_index st" using fr by (simp_all add: send_frame_def own_index_def)
  have sz: "mm_sizes st" using inv by (simp add: mm_inv_def)
  have same: "same_store (multi_map_chunks st ! i) (multi_map_chunks st' ! i)" if "i < map_num st" for i
    using fr that by (simp add: send_frame_def)
  have "mm_sizes st'" using sz fr by (simp add: mm_sizes_def send_frame_def)
  moreover have "stores_ok p st'"
    using inv ok store_ok_same same own_store_same [OF _ same [OF own_index_less [OF sz]]]
    unfolding mm_inv_def stores_ok_def own_data_def f by blast
  moreover have "data_msg_ok p st' m \<longleftrightarrow> data_msg_ok p st m" for m
    using same_store_length [OF same [OF own_index_less [OF sz]]]
    by (simp add: data_msg_ok_def f own_index_def)
  then have "buffers_mm_ok p st'" using inv fr by (simp add: mm_inv_def buffers_mm_ok_def send_frame_def)
  ultimately show ?thesis using inv fr by (simp add: mm_inv_def send_frame_def)
qed

lemma set_id_range: "set (id_range xs) = ids_of xs"
  by (induction xs rule: id_range.induct) auto

lemma sendChunks_ok:
  assumes inv: "mm_inv p st" and d: "buffers_ok p d" and i: "i < map_num st"
    and ids: "ids_of ids \<subseteq> ids_of (idx_list (multi_map_chunks st ! i))"
  shows "\<exists>st' out. sendChunks p d (int i + 1) to_drone ids st = Some (st', out) \<and> mm_inv p st' \<and> send_frame st st' \<and>
    last_chunk_stamp_time st' = last_chunk_stamp_time st \<and> map cd_idx out = id_range ids \<and>
    (\<forall>m \<in> set out. sent_from p (mm_drone st) (int i + 1) to_drone (multi_map_chunks st ! i) m)"
proof -
  let ?data = "multi_map_chunks st ! i"
  have sz: "mm_sizes st" using inv by (simp add: mm_inv_def)
  have own: "(i = own_index st) = (int i + 1 = mm_drone st)" using sz by (auto simp: own_index_def mm_sizes_def)
  have ok: "store_ok p (i = own_index st) ?data" using inv i by (simp add: mm_inv_def stores_ok_def)
  have js: "\<forall>j \<in> set (id_range ids). j \<in> ids_of (idx_list ?data)" using ids by (auto simp: set_id_range)
  have cs: "\<forall>c \<in> set (chunks ?data). chunk_ok p (i = own_index st) c"
    using ok by (auto simp: store_ok_def in_set_conv_nth)
  from send_list_ok [OF ok own d js refl cs, of to_drone "[]"] obtain cs' out where
    s: "for_each (send_one p d (mm_drone st) (int i + 1) to_drone) (id_range ids) (chunks ?data, []) = Some (cs', out)"
      "map skeleton cs' = map skeleton (chunks ?data)" "\<forall>c \<in> set cs'. chunk_ok p (i = own_index st) c"
      "map cd_idx out = id_range ids" "\<forall>m \<in> set out. sent_from p (mm_drone st) (int i + 1) to_drone ?data m"
    by auto
  let ?st = "st\<lparr>multi_map_chunks := (multi_map_chunks st)[i := ?data\<lparr>chunks := cs'\<rparr>]\<rparr>"
  have len: "length (multi_map_chunks st) = map_num st" using sz by (simp add: mm_sizes_def)
  have send: "sendChunks p d (int i + 1) to_drone ids st = Some (?st, out)"
    using i s(1) len by (simp add: sendChunks_def)
  have nth: "multi_map_chunks ?st ! k = (if k = i then ?data\<lparr>chunks := cs'\<rparr> else multi_map_chunks st ! k)"
    for k using i len by simp
  have "same_store (multi_map_chunks st ! k) (multi_map_chunks ?st ! k)" for k
    unfolding nth using s(2) by (simp add: same_store_def)
  then have fr: "send_frame st ?st" by (simp add: send_frame_def)
  have "mm_inv p ?st"
  proof (rule send_frame_inv [OF inv fr], intro allI impI ballI)
    fix k c assume "k < map_num st" "c \<in> set (chunks (multi_map_chunks ?st ! k))"
    moreover from this(1) inv have "store_ok p (k = own_index st) (multi_map_chunks st ! k)"
      by (simp add: mm_inv_def stores_ok_def)
    ultimately show "chunk_ok p (k = own_index st) c"
      using s(3) unfolding nth by (cases "k = i") (auto simp: store_ok_def in_set_conv_nth)
  qed
  with send fr s(4,5) show ?thesis by auto
qed

text \<open>The chunks sent in reply to an announcement, in order.\<close>

definition replies :: "MultiMapManager \<Rightarrow> ChunkStamps \<Rightarrow> int list \<Rightarrow> (int \<times> int) list" where
  "replies st msg is = concat (map (\<lambda>i. if i = cs_from msg - 1 then []
     else map (\<lambda>k. (i + 1, k))
       (id_range (findMissedChunkIds (idx_list (multi_map_chunks st ! nat i)) (cs_lists msg ! nat i)))) is)"

lemma ids_missed_subset: "ids_of (findMissedChunkIds xs ys) \<subseteq> ids_of xs"
  by (auto simp: findMissedChunkIds_def ids_intersect)

definition sent_ok :: "MapParam \<Rightarrow> MultiMapManager \<Rightarrow> int \<Rightarrow> ChunkData \<Rightarrow> bool" where
  "sent_ok p st to_drone m \<longleftrightarrow> 1 \<le> cd_drone m \<and> cd_drone m \<le> int (map_num st) \<and>
     sent_from p (mm_drone st) (cd_drone m) to_drone (multi_map_chunks st ! nat (cd_drone m - 1)) m"

lemma sent_from_same:
  assumes "sent_from p self cd to_drone b m" and "same_store a b" and "store_ok p own a"
  shows "sent_from p self cd to_drone a m"
proof -
  have "idx_list b = idx_list a" using assms(2) by (simp add: same_store_def)
  moreover from this assms have "nat (cd_idx m - 1) < length (chunks a)"
    by (auto simp: sent_from_def store_ok_def)
  ultimately show ?thesis
    using assms(1) same_store_nth(3) [OF assms(2)] by (simp add: sent_from_def)
qed

lemma reply_list_ok:
  assumes d: "buffers_ok p d" and lists: "length (cs_lists msg) = map_num st0"
    and inv0: "mm_inv p st0" and idx: "\<forall>i \<in> set is. 0 \<le> i \<and> i < int (map_num st0)"
    and inv: "mm_inv p st" and fr: "send_frame st0 st"
  shows "\<exists>st' out'. for_each (reply_one p d msg) is (st, out) = Some (st', out @ out') \<and> mm_inv p st' \<and>
    send_frame st0 st' \<and> map (\<lambda>m. (cd_drone m, cd_idx m)) out' = replies st0 msg is \<and>
    (\<forall>m \<in> set out'. sent_ok p st0 (cs_from msg) m)"
  using idx inv fr
proof (induction "is" arbitrary: st out)
  case Nil
  then show ?case by (auto simp: replies_def)
next
  case (Cons i "is")
  have i: "0 \<le> i" "i < int (map_num st0)" using Cons.prems(1) by auto
  have num: "map_num st = map_num st0" and dr: "mm_drone st = mm_drone st0"
    using Cons.prems(3) by (auto simp: send_frame_def)
  have len: "length (multi_map_chunks st) = map_num st0"
    using Cons.prems(2) num by (simp add: mm_inv_def mm_sizes_def)
  have rep: "replies st0 msg (i # is) = replies st0 msg [i] @ replies st0 msg is" by (simp add: replies_def)
  show ?case
  proof (cases "i = cs_from msg - 1")
    case True
    with Cons.IH [of st out] Cons.prems show ?thesis
      unfolding rep by (auto simp: reply_one_def replies_def)
  next
    case False
    let ?data = "multi_map_chunks st ! nat i" and ?olddata = "multi_map_chunks st0 ! nat i"
    let ?ids = "findMissedChunkIds (idx_list ?data) (cs_lists msg ! nat i)"
    have ni: "nat i < map_num st" "int (nat i) + 1 = i + 1" "nat i < map_num st0" using i num by auto
    have same: "same_store ?olddata ?data" by (rule send_frame_same [OF Cons.prems(3) ni(3)])
    from sendChunks_ok [OF Cons.prems(2) d ni(1) ids_missed_subset, of "cs_from msg" "cs_lists msg ! nat i", unfolded ni(2)]
    obtain st1 out1 where s: "sendChunks p d (i + 1) (cs_from msg) ?ids st = Some (st1, out1)" "mm_inv p st1"
      "send_frame st st1" "map cd_idx out1 = id_range ?ids"
      "\<forall>m \<in> set out1. sent_from p (mm_drone st) (i + 1) (cs_from msg) ?data m" by blast
    have step: "reply_one p d msg i (st, out) = Some (st1, out @ out1)"
      using False i len lists s(1) by (simp add: reply_one_def)
    have fr1: "send_frame st0 st1" using send_frame_trans [OF Cons.prems(3) s(3)] .
    from Cons.IH [OF _ s(2) fr1, of "out @ out1"] Cons.prems(1) obtain st' out' where
      IH: "for_each (reply_one p d msg) is (st1, out @ out1) = Some (st', (out @ out1) @ out')" "mm_inv p st'"
        "send_frame st0 st'" "map (\<lambda>m. (cd_drone m, cd_idx m)) out' = replies st0 msg is"
        "\<forall>m \<in> set out'. sent_ok p st0 (cs_from msg) m" by auto
    have "\<forall>m \<in> set out1. cd_drone m = i + 1" using s(5) by (simp add: sent_from_def)
    then have "map (\<lambda>m. (cd_drone m, cd_idx m)) out1 = map (\<lambda>k. (i + 1, k)) (map cd_idx out1)" by auto
    also have "\<dots> = replies st0 msg [i]"
      using False same s(4) by (simp add: replies_def same_store_def)
    finally have out1: "map (\<lambda>m. (cd_drone m, cd_idx m)) out1 = replies st0 msg [i]" .
    have ok0: "store_ok p (nat i = own_index st0) ?olddata" using inv0 i by (simp add: mm_inv_def stores_ok_def)
    have "sent_ok p st0 (cs_from msg) m" if "m \<in> set out1" for m
      using s(5) that sent_from_same [OF _ same ok0] i dr by (auto simp: sent_ok_def sent_from_def)
    with step IH out1 show ?thesis
      unfolding rep by (intro exI [of _ st'] exI [of _ "out1 @ out'"]) auto
  qed
qed

lemma stampMsgCallback_ok:
  assumes inv: "mm_inv p st" and d: "buffers_ok p d" and msg: "1 \<le> cs_from msg" "cs_from msg \<le> int (map_num st)"
      "length (cs_lists msg) = map_num st"
  shows "\<exists>st' out. stampMsgCallback p d msg st = Some (st', out) \<and> mm_inv p st' \<and> send_frame st st' \<and>
    (\<forall>m \<in> set out. sent_ok p st (cs_from msg) m) \<and>
    map (\<lambda>m. (cd_drone m, cd_idx m)) out =
      (if cs_from msg = mm_drone st \<or> mm_drone st = int (map_num st) \<or>
          cs_time msg - last_chunk_stamp_time st ! nat (cs_from msg - 1) < 3 / 10
       then [] else replies st msg [0..int (map_num st) - 1])"
proof (cases "cs_from msg = mm_drone st \<or> mm_drone st = int (map_num st) \<or>
    cs_time msg - last_chunk_stamp_time st ! nat (cs_from msg - 1) < 3 / 10")
  case True
  have "length (last_chunk_stamp_time st) = map_num st" using inv by (simp add: mm_inv_def mm_sizes_def)
  with True inv msg show ?thesis by (auto simp: stampMsgCallback_def)
next
  case False
  let ?st = "st\<lparr>last_chunk_stamp_time := (last_chunk_stamp_time st)[nat (cs_from msg - 1) := cs_time msg]\<rparr>"
  have len: "length (last_chunk_stamp_time st) = map_num st" "length (multi_map_chunks st) = map_num st"
    using inv by (simp_all add: mm_inv_def mm_sizes_def)
  have fr: "send_frame st ?st" by (simp add: send_frame_def same_store_def)
  have inv': "mm_inv p ?st"
    using inv by (simp add: mm_inv_def mm_sizes_def stores_ok_def buffers_mm_ok_def data_msg_ok_def own_index_def own_data_def)
  have "stampMsgCallback p d msg st = for_each (reply_one p d msg) [0..int (map_num st) - 1] (?st, [])"
    using False msg len by (simp add: stampMsgCallback_def Let_def)
  with reply_list_ok [OF d msg(3) inv _ inv' fr, of "[0..int (map_num st) - 1]" "[]"] False show ?thesis
    by auto
qed

section \<open>Receiving\<close>

lemma chunkCallback_ok:
  assumes inv: "mm_inv p st" and m: "data_msg_ok p st m"
  shows "\<exists>st'. chunkCallback m st = Some st' \<and> mm_inv p st' \<and> multi_map_chunks st' = multi_map_chunks st \<and>
    mm_drone st' = mm_drone st \<and> map_num st' = map_num st \<and> chunk_size st' = chunk_size st \<and>
    (\<forall>i < map_num st. set (map cd_idx (chunk_buffer st' ! i)) = set (map cd_idx (chunk_buffer st ! i)) \<union>
       (if cd_from m \<noteq> mm_drone st \<and> int i + 1 = cd_drone m then {cd_idx m} else {}))"
proof (cases "cd_from m = mm_drone st")
  case True
  with inv show ?thesis by (simp add: chunkCallback_def)
next
  case False
  let ?i = "nat (cd_drone m - 1)"
  have sz: "length (buffer_map st) = map_num st" "length (chunk_buffer st) = map_num st"
    using inv by (simp_all add: mm_inv_def mm_sizes_def)
  have i: "?i < map_num st" "int ?i + 1 = cd_drone m" "0 \<le> cd_drone m - 1" "cd_drone m - 1 < int (map_num st)"
    using m by (auto simp: data_msg_ok_def)
  have keys: "set (buffer_map st ! ?i) = cd_idx ` set (chunk_buffer st ! ?i)"
    using inv i by (simp add: mm_inv_def buffers_mm_ok_def)
  have only: "j = ?i" if "int j + 1 = cd_drone m" for j using that by auto
  show ?thesis
  proof (cases "cd_idx m \<in> set (buffer_map st ! ?i)")
    case True
    then have "chunkCallback m st = Some st" using False sz i by (simp add: chunkCallback_def)
    moreover have "cd_idx m \<in> set (map cd_idx (chunk_buffer st ! j))" if "int j + 1 = cd_drone m" for j
      using True keys only [OF that] by simp
    ultimately show ?thesis using inv by (simp add: insert_absorb)
  next
    case new: False
    let ?st = "st\<lparr>chunk_buffer := (chunk_buffer st)[?i := chunk_buffer st ! ?i @ [m]],
      buffer_map := (buffer_map st)[?i := cd_idx m # buffer_map st ! ?i]\<rparr>"
    have "chunkCallback m st = Some ?st" using False new sz i by (simp add: chunkCallback_def Let_def)
    moreover have "buffers_mm_ok p ?st"
      unfolding buffers_mm_ok_def
    proof (intro allI impI)
      fix j assume "j < map_num ?st"
      then have j: "j < map_num st" by simp
      have msg: "data_msg_ok p ?st m' \<longleftrightarrow> data_msg_ok p st m'" for m' by (simp add: data_msg_ok_def)
      have old: "set (buffer_map st ! j) = cd_idx ` set (chunk_buffer st ! j)" "distinct (map cd_idx (chunk_buffer st ! j))"
        "\<forall>m \<in> set (chunk_buffer st ! j). data_msg_ok p st m \<and> cd_drone m = int j + 1"
        using inv j by (auto simp: mm_inv_def buffers_mm_ok_def)
      show "set (buffer_map ?st ! j) = cd_idx ` set (chunk_buffer ?st ! j) \<and> distinct (map cd_idx (chunk_buffer ?st ! j)) \<and>
        (\<forall>m \<in> set (chunk_buffer ?st ! j). data_msg_ok p ?st m \<and> cd_drone m = int j + 1)"
      proof (cases "j = ?i")
        case True
        have a: "set (buffer_map ?st ! j) = insert (cd_idx m) (set (buffer_map st ! j))"
          "chunk_buffer ?st ! j = chunk_buffer st ! j @ [m]" using True sz i by simp_all
        have "cd_idx m \<notin> cd_idx ` set (chunk_buffer st ! j)" using new unfolding keys True .
        moreover have "cd_drone m = int j + 1" using i(2) unfolding True by (rule sym)
        ultimately show ?thesis unfolding msg a using old m by auto
      next
        case False
        then have "buffer_map ?st ! j = buffer_map st ! j" "chunk_buffer ?st ! j = chunk_buffer st ! j" by simp_all
        then show ?thesis unfolding msg using old by simp
      qed
    qed
    moreover have "set (map cd_idx (chunk_buffer ?st ! j)) = set (map cd_idx (chunk_buffer st ! j)) \<union>
        (if cd_from m \<noteq> mm_drone st \<and> int j + 1 = cd_drone m then {cd_idx m} else {})" if "j < map_num st" for j
    proof (cases "j = ?i")
      case True
      have "int j + 1 = cd_drone m" using i(2) unfolding True .
      with True False sz i(1) show ?thesis by simp
    next
      case False
      with only [of j] show ?thesis by auto
    qed
    ultimately show ?thesis
      using inv by (simp add: mm_inv_def mm_sizes_def stores_ok_def own_data_def own_index_def)
  qed
qed

end
