(* ===== verification/Map_Chunks_Timer.thy ===== *)
theory Map_Chunks_Timer imports Map_Chunks_Props
begin

text \<open>
  The insertion of received chunks (\<open>chunkTimerCallback\<close>): the buffered ids become known, the map
  keeps its invariant, and a whole exchange of announcement, reply and insertion brings the receiver
  everything the sender had.
\<close>

section \<open>Intervals of ascending indices\<close>

lemma to_int32_id [simp]: "- 2147483648 \<le> x \<Longrightarrow> x \<le> int_max \<Longrightarrow> to_int32 x = x"
  by (simp add: to_int32_def)

text \<open>Indices that fit an \<open>int\<close> are not changed by the conversions.\<close>

lemma idx_runs_ok:
  assumes "sorted_wrt (<) (l # rest)" and "a \<le> l" and "\<forall>i \<in> set (l # rest). 0 \<le> i \<and> i < int_max"
  shows "wf_ids (a # idx_runs l rest) \<and> ids_of (a # idx_runs l rest) = {a..l} \<union> set rest"
  using assms
proof (induction rest arbitrary: a l)
  case (Cons i rest)
  then have li: "l < i" "sorted_wrt (<) (i # rest)" and rng: "0 \<le> l" "i < int_max" "0 \<le> i"
    "\<forall>i \<in> set (i # rest). 0 \<le> i \<and> i < int_max" by auto
  have eq: "to_int32 i = i" "(i - l) mod 4294967296 = i - l" using rng li(1) by simp_all
  show ?case
  proof (cases "i - l > 1")
    case True
    from Cons.IH [OF li(2) order_refl rng(4)]
    have "wf_ids (i # idx_runs i rest)" "ids_of (i # idx_runs i rest) = {i} \<union> set rest" by auto
    with True Cons.prems(2) show ?thesis by (simp add: wf_ids_Cons eq)
  next
    case False
    then have i: "i = l + 1" using li(1) by simp
    with Cons.prems(2) have "a \<le> i" by simp
    from Cons.IH [OF li(2) this rng(4)]
    have "wf_ids (a # idx_runs i rest)" "ids_of (a # idx_runs i rest) = {a..i} \<union> set rest" by auto
    moreover have "{a..i} = insert i {a..l}" using i Cons.prems(2) by auto
    ultimately show ?thesis using False by (simp add: eq)
  qed
qed auto

lemma sorted_distinct_strict: "sorted xs \<Longrightarrow> distinct xs \<Longrightarrow> sorted_wrt (<) (xs :: int list)"
  by (simp add: strict_sorted_iff)

lemma sorted_ids:
  assumes "distinct (map cd_idx buffer)" and "buffer \<noteq> []" and "\<forall>m \<in> set buffer. 1 \<le> cd_idx m \<and> cd_idx m < int_max"
  defines "ids \<equiv> map cd_idx (sort_key cd_idx buffer)"
  shows "wf_ids (to_int32 (hd ids) # idx_runs (to_int32 (hd ids)) (tl ids))"
    and "ids_of (to_int32 (hd ids) # idx_runs (to_int32 (hd ids)) (tl ids)) = cd_idx ` set buffer"
    and "ids \<noteq> []" and "\<forall>k \<in> set ids. k \<le> to_int32 (last ids)" and "to_int32 (last ids) \<in> cd_idx ` set buffer"
    and "1 \<le> to_int32 (last ids)" and "to_int32 (last ids) < int_max"
proof -
  have set: "set ids = cd_idx ` set buffer" by (simp add: ids_def)
  show ne: "ids \<noteq> []" using assms(2) by (simp add: ids_def) (metis length_0_conv length_sort)
  have rng: "1 \<le> i \<and> i < int_max" if "i \<in> set ids" for i using that assms(3) set by auto
  have eq: "to_int32 (hd ids) = hd ids" "to_int32 (last ids) = last ids"
    using rng [OF hd_in_set [OF ne]] rng [OF last_in_set [OF ne]] by simp_all
  have "sorted ids" by (simp add: ids_def)
  moreover have "distinct ids"
    using assms(1) unfolding ids_def by (simp add: distinct_map)
  ultimately have strict: "sorted_wrt (<) ids" by (rule sorted_distinct_strict)
  then have "sorted_wrt (<) (hd ids # tl ids)" using ne by simp
  moreover have "\<forall>i \<in> set (hd ids # tl ids). 0 \<le> i \<and> i < int_max" using ne rng by fastforce
  ultimately have
    "wf_ids (hd ids # idx_runs (hd ids) (tl ids))"
    "ids_of (hd ids # idx_runs (hd ids) (tl ids)) = insert (hd ids) (set (tl ids))"
    using idx_runs_ok [OF _ order_refl] by auto
  moreover have "insert (hd ids) (set (tl ids)) = set ids" using ne by (cases ids) auto
  ultimately show "wf_ids (to_int32 (hd ids) # idx_runs (to_int32 (hd ids)) (tl ids))"
    "ids_of (to_int32 (hd ids) # idx_runs (to_int32 (hd ids)) (tl ids)) = cd_idx ` set buffer"
    using set by (auto simp: eq)
  show "to_int32 (last ids) \<in> cd_idx ` set buffer" using last_in_set [OF ne] set by (simp add: eq)
  show "1 \<le> to_int32 (last ids)" "to_int32 (last ids) < int_max"
    using rng [OF last_in_set [OF ne]] by (simp_all add: eq)
  show "\<forall>k \<in> set ids. k \<le> to_int32 (last ids)"
  proof
    fix k assume "k \<in> set ids"
    then obtain j where j: "j < length ids" "k = ids ! j" by (auto simp: in_set_conv_nth)
    with \<open>sorted ids\<close> have "ids ! j \<le> ids ! (length ids - 1)" by (intro sorted_nth_mono) auto
    then show "k \<le> to_int32 (last ids)" unfolding eq using ne j(2) by (simp add: last_conv_nth)
  qed
qed

section \<open>Inserting into the map\<close>

text \<open>The centre of a voxel lies in the map's boundary (all but the last voxels of an uneven map).\<close>

definition centre_in_map :: "MapParam \<Rightarrow> int \<Rightarrow> bool" where
  "centre_in_map p adr \<longleftrightarrow> isInMapPos p (indexToPos p (adrToIndex p adr))"

lemma insert_voxel_ok:
  assumes prm: "fusion_params p caster" and inv: "fusion_inv p d" and a: "adr_ok p adr"
  shows "\<exists>d' box'. insert_voxel p (adr, occ) (d, box) = Some (d', box') \<and> fusion_inv p d' \<and>
    (\<forall>b. adr_ok p b \<longrightarrow> occupancy_buffer d' ! nat b =
       (if b = adr \<and> centre_in_map p adr then if occ = 1 then clamp_max_log p else clamp_min_log p
        else occupancy_buffer d ! nat b))"
proof -
  have geo: "geometry_ok p" and dims: "dims_ok p" and cl: "clamp_min_log p \<le> clamp_max_log p"
    using prm by (auto simp: fusion_params_def)
  let ?i = "adrToIndex p adr"
  have i: "isInMap p ?i" "toAddress p ?i = adr"
    using voxel.decode_valid [OF dims, of adr] a by (auto simp: adr_ok_def)
  have there: "posToIndex p (indexToPos p ?i) = ?i" by (rule posToIndex_indexToPos [OF geo])
  have bufs: "buffers_ok p d" using inv by (simp add: fusion_inv_def)
  have len: "length (occupancy_buffer d) = nat (getVoxelNum p)"
    "length (occupancy_buffer_inflate d) = nat (getVoxelNum p)" using bufs by (simp_all add: buffers_ok_def)
  show ?thesis
  proof (cases "centre_in_map p adr")
    case False
    with inv show ?thesis by (simp add: insert_voxel_def centre_in_map_def)
  next
    case True
    let ?v = "if occ = 1 then clamp_max_log p else clamp_min_log p" and ?pos = "indexToPos p ?i"
    define d1 where "d1 = d\<lparr>occupancy_buffer := (occupancy_buffer d)[nat adr := ?v],
      all_min := zip3 min (all_min d) ?pos, all_max := zip3 max (all_max d) ?pos\<rparr>"
    define d2 where "d2 = (if occ = 1
      then d1\<lparr>occupancy_buffer_inflate := inflate_voxel p ?i (occupancy_buffer_inflate d1)\<rparr> else d1)"
    have "insert_voxel p (adr, occ) (d, box) = Some (d2, grow_box ?pos box)"
      using True in_buffer_ok [OF len(1) a] i(2) there
      by (simp add: insert_voxel_def centre_in_map_def Let_def d1_def d2_def)
    moreover have occ2: "occupancy_buffer d2 ! nat b = (if b = adr then ?v else occupancy_buffer d ! nat b)"
      if "adr_ok p b" for b
      using that a len(1) by (auto simp: d2_def d1_def adr_ok_def nth_list_update)
    moreover have "fusion_inv p d2"
    proof -
      have "length (inflate_voxel p ?i (occupancy_buffer_inflate d)) = nat (getVoxelNum p)"
        using inflate_voxel_nth(2) [OF dims i(1) len(2)] len(2) by simp
      then have "buffers_ok p d2" using bufs by (simp add: buffers_ok_def d2_def d1_def)
      moreover have "cache_voxel d2 = []" "count_hit d2 = count_hit d" "count_miss d2 = count_miss d"
        using inv by (simp_all add: d2_def d1_def fusion_inv_def)
      ultimately show ?thesis
        using inv occ2 cl by (auto simp: fusion_inv_def known_value_def)
    qed
    ultimately show ?thesis
      using True by (intro exI [of _ d2] exI [of _ "grow_box ?pos box"]) simp
  qed
qed

text \<open>All voxels of a chunk whose centre is in the map are known afterwards; no voxel becomes unknown.\<close>

lemma insert_voxels_ok:
  assumes prm: "fusion_params p caster"
  shows "fusion_inv p d \<Longrightarrow> \<forall>v \<in> set vs. adr_ok p (fst v) \<Longrightarrow>
    \<exists>d' box'. for_each (insert_voxel p) vs (d, box) = Some (d', box') \<and> fusion_inv p d' \<and>
      (\<forall>b. adr_ok p b \<longrightarrow> \<not> unknown_at p d b \<or> b \<in> fst ` {v \<in> set vs. centre_in_map p (fst v)} \<longrightarrow>
         \<not> unknown_at p d' b)"
proof (induction vs arbitrary: d box)
  case (Cons v vs)
  obtain adr occ where v: "v = (adr, occ)" by fastforce
  from Cons.prems v have a: "adr_ok p adr" by simp
  from insert_voxel_ok [OF prm Cons.prems(1) a, of occ box] obtain d1 box1 where
    s: "insert_voxel p (adr, occ) (d, box) = Some (d1, box1)" "fusion_inv p d1"
      "\<And>b. adr_ok p b \<Longrightarrow> occupancy_buffer d1 ! nat b =
       (if b = adr \<and> centre_in_map p adr then if occ = 1 then clamp_max_log p else clamp_min_log p
        else occupancy_buffer d ! nat b)" by blast
  from Cons.IH [OF s(2), of box1] Cons.prems(2) obtain d' box' where
    IH: "for_each (insert_voxel p) vs (d1, box1) = Some (d', box')" "fusion_inv p d'"
      "\<And>b. adr_ok p b \<Longrightarrow> \<not> unknown_at p d1 b \<or> b \<in> fst ` {v \<in> set vs. centre_in_map p (fst v)} \<Longrightarrow>
         \<not> unknown_at p d' b" by auto
  have "clamp_min_log p \<le> clamp_max_log p" using prm by (auto simp: fusion_params_def)
  then have d1: "\<not> unknown_at p d1 b"
    if "adr_ok p b" "\<not> unknown_at p d b \<or> (b = adr \<and> centre_in_map p adr)" for b
  proof (cases "b = adr \<and> centre_in_map p adr")
    case True
    with s(3) [OF that(1)] \<open>clamp_min_log p \<le> clamp_max_log p\<close> show ?thesis
      unfolding unknown_at_def by (cases "occ = 1") simp_all
  next
    case False
    with s(3) [OF that(1)] that(2) show ?thesis unfolding unknown_at_def by (simp only: if_False) blast
  qed
  have "\<not> unknown_at p d' b"
    if "adr_ok p b" "\<not> unknown_at p d b \<or> b \<in> fst ` {w \<in> set (v # vs). centre_in_map p (fst w)}" for b
  proof -
    have "fst ` {w \<in> set (v # vs). centre_in_map p (fst w)} \<subseteq>
        {b. b = adr \<and> centre_in_map p adr} \<union> fst ` {w \<in> set vs. centre_in_map p (fst w)}" by (auto simp: v)
    with that d1 [OF that(1)] IH(3) [OF that(1)] show ?thesis by blast
  qed
  moreover have "for_each (insert_voxel p) (v # vs) (d, box) = Some (d', box')" using s(1) IH(1) by (simp add: v)
  ultimately show ?case using IH(2) by blast
qed auto

lemma insertChunkToMap_ok:
  assumes prm: "fusion_params p caster" and inv: "fusion_inv p d"
    and c: "\<forall>a \<in> set (voxel_adrs c). adr_ok p a" "length (voxel_occ c) = length (voxel_adrs c)"
  shows "\<exists>d' box'. insertChunkToMap p c (d, box) = Some (d', box') \<and> fusion_inv p d' \<and>
    (\<forall>b. adr_ok p b \<longrightarrow> \<not> unknown_at p d b \<or> (b \<in> set (voxel_adrs c) \<and> centre_in_map p b) \<longrightarrow>
       \<not> unknown_at p d' b)"
proof -
  have fst: "fst ` set (zip (voxel_adrs c) (voxel_occ c)) = set (voxel_adrs c)"
    using c(2) by (metis map_fst_zip set_map)
  have vs: "\<forall>v \<in> set (zip (voxel_adrs c) (voxel_occ c)). adr_ok p (fst v)"
    using c(1) fst by (metis image_eqI)
  have "b \<in> fst ` {v \<in> set (zip (voxel_adrs c) (voxel_occ c)). centre_in_map p (fst v)}"
    if "b \<in> set (voxel_adrs c)" "centre_in_map p b" for b
  proof -
    from that(1) obtain v where "v \<in> set (zip (voxel_adrs c) (voxel_occ c))" "b = fst v"
      unfolding fst [symmetric] by blast
    with that(2) show ?thesis by blast
  qed
  with insert_voxels_ok [OF prm inv vs, of box] c(2) show ?thesis
    by (auto simp: insertChunkToMap_def)
qed

section \<open>The messages of one buffer\<close>

text \<open>A message that fits a store of \<open>len\<close> chunks and \<open>boxes\<close> boxes.\<close>

definition msg_fits :: "MapParam \<Rightarrow> nat \<Rightarrow> nat \<Rightarrow> ChunkData \<Rightarrow> bool" where
  "msg_fits p len boxes m \<longleftrightarrow> 1 \<le> cd_idx m \<and> cd_idx m \<le> int len \<and> cd_idx m < int_max \<and> 1 \<le> cd_drone m \<and> cd_drone m \<le> int boxes \<and>
     (\<forall>a \<in> set (cd_adrs m). adr_ok p a) \<and> length (cd_occ m) = length (cd_adrs m)"

definition chunks_ok :: "MapParam \<Rightarrow> bool \<Rightarrow> MapChunk list \<Rightarrow> bool" where
  "chunks_ok p own cs \<longleftrightarrow> (\<forall>j < length cs. chunk_idx (cs ! j) = int j + 1 \<and> chunk_ok p own (cs ! j) \<and>
     (chunk_empty (cs ! j) \<longrightarrow> \<not> need_query (cs ! j)))"

lemma insert_msg_ok:
  assumes prm: "fusion_params p caster" and inv: "fusion_inv p d" and cs: "chunks_ok p own cs"
    and m: "msg_fits p (length cs) (length boxes) m"
  shows "\<exists>cs' d' boxes' n'. insert_msg p m (cs, (d, boxes), n) = Some (cs', (d', boxes'), n') \<and>
    chunks_ok p own cs' \<and> length cs' = length cs \<and> length boxes' = length boxes \<and> fusion_inv p d' \<and> n \<le> n' \<and>
    (\<forall>j < length cs. chunk_empty (cs' ! j) \<longleftrightarrow> chunk_empty (cs ! j) \<and> int j + 1 \<noteq> cd_idx m) \<and>
    (\<forall>j < length cs. \<not> chunk_empty (cs ! j) \<longrightarrow> cs' ! j = cs ! j) \<and>
    (\<forall>b. adr_ok p b \<longrightarrow> \<not> unknown_at p d b \<or>
       (chunk_empty (cs ! nat (cd_idx m - 1)) \<and> b \<in> set (cd_adrs m) \<and> centre_in_map p b) \<longrightarrow> \<not> unknown_at p d' b)"
proof -
  let ?j = "nat (cd_idx m - 1)"
  have j: "?j < length cs" "0 \<le> cd_idx m - 1" "cd_idx m - 1 < int (length cs)" using m by (auto simp: msg_fits_def)
  have b: "0 \<le> cd_drone m - 1" "cd_drone m - 1 < int (length boxes)" using m by (auto simp: msg_fits_def)
  have wrap: "(cd_idx m - 1) mod 4294967296 = cd_idx m - 1" using m by (simp add: msg_fits_def)
  have jj: "int k + 1 = cd_idx m \<longleftrightarrow> k = ?j" for k using j by auto
  show ?thesis
  proof (cases "chunk_empty (cs ! ?j)")
    case False
    then have "insert_msg p m (cs, (d, boxes), n) = Some (cs, (d, boxes), n)"
      using j by (simp add: insert_msg_def wrap Let_def)
    moreover have "chunk_empty (cs ! k) \<longleftrightarrow> chunk_empty (cs ! k) \<and> int k + 1 \<noteq> cd_idx m" for k
      using False jj [of k] by auto
    ultimately show ?thesis using False inv cs by (intro exI conjI) auto
  next
    case True
    let ?c1 = "(cs ! ?j)\<lparr>voxel_adrs := cd_adrs m, voxel_occ := cd_occ m\<rparr>"
    let ?c2 = "?c1\<lparr>chunk_empty := False\<rparr>"
    have "\<forall>a \<in> set (voxel_adrs ?c1). adr_ok p a" "length (voxel_occ ?c1) = length (voxel_adrs ?c1)"
      using m by (auto simp: msg_fits_def)
    from insertChunkToMap_ok [OF prm inv this, of "boxes ! nat (cd_drone m - 1)"] obtain d' box' where
      ins: "insertChunkToMap p ?c1 (d, boxes ! nat (cd_drone m - 1)) = Some (d', box')" "fusion_inv p d'"
        "\<forall>b. adr_ok p b \<longrightarrow> \<not> unknown_at p d b \<or> (b \<in> set (voxel_adrs ?c1) \<and> centre_in_map p b) \<longrightarrow> \<not> unknown_at p d' b"
      by blast
    let ?cs = "cs[?j := ?c2]" and ?boxes = "boxes[nat (cd_drone m - 1) := box']"
    have "insert_msg p m (cs, (d, boxes), n) = Some (?cs, (d', ?boxes), n + 1)"
      using True j b ins(1) by (simp add: insert_msg_def wrap Let_def)
    moreover have "chunks_ok p own ?cs"
      unfolding chunks_ok_def
    proof (intro allI impI)
      fix k assume "k < length ?cs"
      then show "chunk_idx (?cs ! k) = int k + 1 \<and> chunk_ok p own (?cs ! k) \<and>
          (chunk_empty (?cs ! k) \<longrightarrow> \<not> need_query (?cs ! k))"
        using cs m True j(1) by (cases "k = ?j") (auto simp: chunks_ok_def chunk_ok_def msg_fits_def)
    qed
    moreover have "\<forall>k < length cs. chunk_empty (?cs ! k) \<longleftrightarrow> chunk_empty (cs ! k) \<and> int k + 1 \<noteq> cd_idx m"
      using jj j(1) by (auto simp: nth_list_update)
    moreover have "\<forall>k < length cs. \<not> chunk_empty (cs ! k) \<longrightarrow> ?cs ! k = cs ! k"
      using True nth_list_update_neq by metis
    moreover have "\<forall>b. adr_ok p b \<longrightarrow> \<not> unknown_at p d b \<or>
       (chunk_empty (cs ! ?j) \<and> b \<in> set (cd_adrs m) \<and> centre_in_map p b) \<longrightarrow> \<not> unknown_at p d' b"
      using ins(3) by simp
    moreover have "length ?cs = length cs" "length ?boxes = length boxes" "n \<le> n + 1" by simp_all
    ultimately show ?thesis using ins(2) by blast
  qed
qed

lemma insert_list_ok:
  assumes prm: "fusion_params p caster"
  shows "fusion_inv p d \<Longrightarrow> chunks_ok p own cs \<Longrightarrow> \<forall>m \<in> set ms. msg_fits p (length cs) (length boxes) m \<Longrightarrow>
    distinct (map cd_idx ms) \<Longrightarrow>
    \<exists>cs' d' boxes' n'. for_each (insert_msg p) ms (cs, (d, boxes), n) = Some (cs', (d', boxes'), n') \<and>
      chunks_ok p own cs' \<and> length cs' = length cs \<and> length boxes' = length boxes \<and> fusion_inv p d' \<and> n \<le> n' \<and>
      (\<forall>j < length cs. chunk_empty (cs' ! j) \<longleftrightarrow> chunk_empty (cs ! j) \<and> int j + 1 \<notin> cd_idx ` set ms) \<and>
      (\<forall>j < length cs. \<not> chunk_empty (cs ! j) \<longrightarrow> cs' ! j = cs ! j) \<and>
      (\<forall>b. adr_ok p b \<longrightarrow> \<not> unknown_at p d b \<longrightarrow> \<not> unknown_at p d' b) \<and>
      (\<forall>m \<in> set ms. \<forall>b \<in> set (cd_adrs m). chunk_empty (cs ! nat (cd_idx m - 1)) \<longrightarrow> centre_in_map p b \<longrightarrow>
         \<not> unknown_at p d' b)"
proof (induction ms arbitrary: cs d boxes n)
  case Nil
  then show ?case by simp
next
  case (Cons m ms)
  have fit: "msg_fits p (length cs) (length boxes) m" using Cons.prems(3) by simp
  from insert_msg_ok [OF prm Cons.prems(1,2) fit, of n] obtain cs1 d1 boxes1 n1 where
    s: "insert_msg p m (cs, (d, boxes), n) = Some (cs1, (d1, boxes1), n1)" "chunks_ok p own cs1"
      "length cs1 = length cs" "length boxes1 = length boxes" "fusion_inv p d1" "n \<le> n1"
      "\<forall>j < length cs. chunk_empty (cs1 ! j) \<longleftrightarrow> chunk_empty (cs ! j) \<and> int j + 1 \<noteq> cd_idx m"
      "\<forall>j < length cs. \<not> chunk_empty (cs ! j) \<longrightarrow> cs1 ! j = cs ! j"
      "\<forall>b. adr_ok p b \<longrightarrow> \<not> unknown_at p d b \<or>
        (chunk_empty (cs ! nat (cd_idx m - 1)) \<and> b \<in> set (cd_adrs m) \<and> centre_in_map p b) \<longrightarrow> \<not> unknown_at p d1 b"
    by blast
  have ms: "\<forall>m \<in> set ms. msg_fits p (length cs1) (length boxes1) m" using Cons.prems(3) s(3,4) by simp
  from Cons.IH [OF s(5,2) ms, of n1] Cons.prems(4) obtain cs' d' boxes' n' where
    IH: "for_each (insert_msg p) ms (cs1, (d1, boxes1), n1) = Some (cs', (d', boxes'), n')" "chunks_ok p own cs'"
      "length cs' = length cs1" "length boxes' = length boxes1" "fusion_inv p d'" "n1 \<le> n'"
      "\<forall>j < length cs1. chunk_empty (cs' ! j) \<longleftrightarrow> chunk_empty (cs1 ! j) \<and> int j + 1 \<notin> cd_idx ` set ms"
      "\<forall>j < length cs1. \<not> chunk_empty (cs1 ! j) \<longrightarrow> cs' ! j = cs1 ! j"
      "\<forall>b. adr_ok p b \<longrightarrow> \<not> unknown_at p d1 b \<longrightarrow> \<not> unknown_at p d' b"
      "\<forall>m \<in> set ms. \<forall>b \<in> set (cd_adrs m). chunk_empty (cs1 ! nat (cd_idx m - 1)) \<longrightarrow> centre_in_map p b \<longrightarrow>
         \<not> unknown_at p d' b"
    by auto
  have "\<not> unknown_at p d' b"
    if "w \<in> set (m # ms)" "b \<in> set (cd_adrs w)" "chunk_empty (cs ! nat (cd_idx w - 1))" "centre_in_map p b" for w b
  proof (cases "w = m")
    case True
    have "adr_ok p b" using fit that(2) True by (simp add: msg_fits_def)
    with s(9) IH(9) that True show ?thesis by blast
  next
    case False
    then have w: "w \<in> set ms" using that(1) by simp
    with Cons.prems(4) have "cd_idx w \<noteq> cd_idx m" by (metis distinct.simps(2) image_eqI list.simps(9) set_map)
    moreover have "1 \<le> cd_idx w" "cd_idx w \<le> int (length cs)"
      using Cons.prems(3) that(1) by (auto simp: msg_fits_def)
    ultimately have "chunk_empty (cs1 ! nat (cd_idx w - 1))"
      using s(7) [rule_format, of "nat (cd_idx w - 1)"] that(3) by auto
    with IH(10) w that show ?thesis by blast
  qed
  moreover have "\<forall>j < length cs. chunk_empty (cs' ! j) \<longleftrightarrow> chunk_empty (cs ! j) \<and> int j + 1 \<notin> cd_idx ` set (m # ms)"
    using IH(7) s(3,7) by auto
  moreover have "\<forall>j < length cs. \<not> chunk_empty (cs ! j) \<longrightarrow> cs' ! j = cs ! j"
    using IH(8) s(3,7,8) by auto
  moreover have "\<forall>b. adr_ok p b \<longrightarrow> \<not> unknown_at p d b \<longrightarrow> \<not> unknown_at p d' b" using s(9) IH(9) by blast
  moreover have "for_each (insert_msg p) (m # ms) (cs, (d, boxes), n) = Some (cs', (d', boxes'), n')"
    using s(1) IH(1) by simp
  ultimately show ?case using IH(2-6) s(3,4,6) by (intro exI [of _ cs'] exI [of _ d'] exI [of _ boxes'] exI [of _ n']) auto
qed

section \<open>One buffer and the whole timer\<close>

lemma placeholders_ok:
  assumes "chunks_ok p own cs" and "1 \<le> k" "k < int_max" "int (length cs) < int_max"
  shows "chunks_ok p own (add_placeholders k cs)"
    and "j < length cs \<Longrightarrow> add_placeholders k cs ! j = cs ! j"
    and "length cs \<le> j \<Longrightarrow> j < length (add_placeholders k cs) \<Longrightarrow> chunk_empty (add_placeholders k cs ! j)"
    and "int (length (add_placeholders k cs)) = max k (int (length cs))"
proof -
  have "to_int32 (k - int (length cs)) = k - int (length cs)" using assms(2-4) by simp
  then have def: "add_placeholders k cs = cs @ map placeholder [int (length cs) + 1..k]"
    by (simp add: add_placeholders_def)
  show len: "int (length (add_placeholders k cs)) = max k (int (length cs))"
    by (auto simp: def)
  show old: "j < length cs \<Longrightarrow> add_placeholders k cs ! j = cs ! j" for j
    by (simp add: def nth_append)
  have new: "add_placeholders k cs ! j = placeholder (int j + 1)"
    if "length cs \<le> j" "j < length (add_placeholders k cs)" for j
  proof -
    have "j - length cs < length [int (length cs) + 1..k]" using that by (simp add: def)
    then show ?thesis using that by (simp add: def nth_append nth_upto of_nat_diff add.commute)
  qed
  show "length cs \<le> j \<Longrightarrow> j < length (add_placeholders k cs) \<Longrightarrow> chunk_empty (add_placeholders k cs ! j)"
    by (simp add: new placeholder_def)
  show "chunks_ok p own (add_placeholders k cs)"
    unfolding chunks_ok_def
  proof (intro allI impI)
    fix j assume j: "j < length (add_placeholders k cs)"
    show "chunk_idx (add_placeholders k cs ! j) = int j + 1 \<and> chunk_ok p own (add_placeholders k cs ! j) \<and>
        (chunk_empty (add_placeholders k cs ! j) \<longrightarrow> \<not> need_query (add_placeholders k cs ! j))"
    proof (cases "j < length cs")
      case True
      with assms(1) old show ?thesis by (simp add: chunks_ok_def)
    next
      case False
      with new j show ?thesis by (simp add: placeholder_def chunk_ok_def)
    qed
  qed
qed

text \<open>What one buffer leaves alone.\<close>

definition timer_frame :: "nat \<Rightarrow> MultiMapManager \<Rightarrow> MultiMapManager \<Rightarrow> bool" where
  "timer_frame i st st' \<longleftrightarrow> mm_drone st' = mm_drone st \<and> map_num st' = map_num st \<and> chunk_size st' = chunk_size st \<and>
     adr_buffer st' = adr_buffer st \<and> (\<forall>k < map_num st. k \<noteq> i \<longrightarrow>
       multi_map_chunks st' ! k = multi_map_chunks st ! k \<and> chunk_buffer st' ! k = chunk_buffer st ! k)"

lemma store_chunks_ok:
  assumes "mm_inv p st" and "i < map_num st"
  shows "chunks_ok p (i = own_index st) (chunks (multi_map_chunks st ! i))"
proof -
  let ?cs = "chunks (multi_map_chunks st ! i)"
  have s: "store_ok p (i = own_index st) (multi_map_chunks st ! i)" "own_store_ok (chunk_size st) (own_data st)"
    using assms by (auto simp: mm_inv_def stores_ok_def)
  have "\<not> need_query (?cs ! j)" if "j < length ?cs" "chunk_empty (?cs ! j)" for j
  proof (cases "i = own_index st")
    case True
    with s(2) that show ?thesis by (auto simp: own_store_ok_def own_data_def)
  next
    case False
    with s(1) that(1) have "chunk_ok p False (?cs ! j)" by (simp add: store_ok_def)
    then show ?thesis by (simp add: chunk_ok_def split: if_splits)
  qed
  with s(1) show ?thesis by (simp add: store_ok_def chunks_ok_def)
qed

lemma process_buffer_ok:
  assumes prm: "fusion_params p caster" and inv: "mm_inv p st" and d: "fusion_inv p d" and i: "i < map_num st"
    and small: "stores_small st"
  shows "\<exists>st' d' n'. process_buffer p i (st, d, n) = Some (st', d', n') \<and> mm_inv p st' \<and> fusion_inv p d' \<and>
    stores_small st' \<and>
    timer_frame i st st' \<and> n \<le> n' \<and> chunk_buffer st' ! i = [] \<and>
    ids_of (idx_list (multi_map_chunks st' ! i)) =
      ids_of (idx_list (multi_map_chunks st ! i)) \<union> cd_idx ` set (chunk_buffer st ! i) \<and>
    (\<forall>b. adr_ok p b \<longrightarrow> \<not> unknown_at p d b \<longrightarrow> \<not> unknown_at p d' b) \<and>
    (\<forall>m \<in> set (chunk_buffer st ! i). cd_idx m \<notin> ids_of (idx_list (multi_map_chunks st ! i)) \<longrightarrow>
       (\<forall>b \<in> set (cd_adrs m). centre_in_map p b \<longrightarrow> \<not> unknown_at p d' b))"
proof (cases "chunk_buffer st ! i = []")
  case True
  with inv d small show ?thesis by (auto simp: process_buffer_def timer_frame_def)
next
  case False
  let ?buf = "chunk_buffer st ! i" and ?data = "multi_map_chunks st ! i"
  define sorted where "sorted = sort_key cd_idx ?buf"
  define ids where "ids = map cd_idx sorted"
  define new_list where "new_list = to_int32 (hd ids) # idx_runs (to_int32 (hd ids)) (tl ids)"
  define cs0 where "cs0 = add_placeholders (to_int32 (last ids)) (chunks ?data)"
  have sz: "mm_sizes st" using inv by (simp add: mm_inv_def)
  have lens: "length (multi_map_chunks st) = map_num st" "length (chunk_buffer st) = map_num st"
    "length (buffer_map st) = map_num st" "length (chunk_boxes st) = map_num st" using sz by (simp_all add: mm_sizes_def)
  have bufs: "distinct (map cd_idx ?buf)" "\<forall>m \<in> set ?buf. data_msg_ok p st m \<and> cd_drone m = int i + 1"
    using inv i by (auto simp: mm_inv_def buffers_mm_ok_def)
  have "\<forall>m \<in> set ?buf. 1 \<le> cd_idx m \<and> cd_idx m < int_max" using bufs(2) by (auto simp: data_msg_ok_def)
  note srt = sorted_ids [OF bufs(1) False this, folded sorted_def, folded ids_def, folded new_list_def]
  have store: "store_ok p (i = own_index st) ?data" using inv i by (simp add: mm_inv_def stores_ok_def)
  have cok: "chunks_ok p (i = own_index st) (chunks ?data)" by (rule store_chunks_ok [OF inv i])
  have len_small: "int (length (chunks ?data)) < int_max" using small i by (simp add: stores_small_def)
  note ph = placeholders_ok [OF cok srt(6,7) len_small, folded cs0_def]
  have own_last: "to_int32 (last ids) \<le> int (length (chunks ?data))" if "i = own_index st"
    using srt(5) bufs(2) that sz by (fastforce simp: data_msg_ok_def own_index_def mm_sizes_def)
  have fits: "\<forall>m \<in> set sorted. msg_fits p (length cs0) (length (chunk_boxes st)) m"
  proof
    fix m assume "m \<in> set sorted"
    then have m: "m \<in> set ?buf" "cd_idx m \<le> to_int32 (last ids)" using srt(4) by (auto simp: sorted_def ids_def)
    then have "cd_idx m \<le> int (length cs0)" using ph(4) by linarith
    with bufs(2) m(1) lens(4) show "msg_fits p (length cs0) (length (chunk_boxes st)) m"
      by (auto simp: msg_fits_def data_msg_ok_def)
  qed
  have "distinct (map cd_idx sorted)" using bufs(1) by (simp add: sorted_def distinct_map)
  from insert_list_ok [OF prm d ph(1) fits this, of n] obtain cs' d' boxes' n' where
    ins: "for_each (insert_msg p) sorted (cs0, (d, chunk_boxes st), n) = Some (cs', (d', boxes'), n')"
      "chunks_ok p (i = own_index st) cs'" "length cs' = length cs0" "length boxes' = length (chunk_boxes st)"
      "fusion_inv p d'" "n \<le> n'"
      "\<forall>j < length cs0. chunk_empty (cs' ! j) \<longleftrightarrow> chunk_empty (cs0 ! j) \<and> int j + 1 \<notin> cd_idx ` set sorted"
      "\<forall>j < length cs0. \<not> chunk_empty (cs0 ! j) \<longrightarrow> cs' ! j = cs0 ! j"
      "\<forall>b. adr_ok p b \<longrightarrow> \<not> unknown_at p d b \<longrightarrow> \<not> unknown_at p d' b"
      "\<forall>m \<in> set sorted. \<forall>b \<in> set (cd_adrs m). chunk_empty (cs0 ! nat (cd_idx m - 1)) \<longrightarrow> centre_in_map p b \<longrightarrow>
         \<not> unknown_at p d' b"
    by blast
  have mem: "set sorted = set ?buf" by (simp add: sorted_def)
  let ?list = "mergeChunkIds new_list (idx_list ?data)"
  let ?data' = "?data\<lparr>chunks := cs', idx_list := ?list\<rparr>"
  let ?st = "st\<lparr>multi_map_chunks := (multi_map_chunks st)[i := ?data'], chunk_boxes := boxes',
    chunk_buffer := (chunk_buffer st)[i := []], buffer_map := (buffer_map st)[i := []]\<rparr>"
  have step: "process_buffer p i (st, d, n) = Some (?st, d', n')"
    using False ins(1) unfolding process_buffer_def prod.case Let_def
    by (simp add: sorted_def [symmetric] ids_def [symmetric] new_list_def [symmetric] cs0_def [symmetric])
  have merged: "wf_ids ?list" "ids_of ?list = ids_of (idx_list ?data) \<union> cd_idx ` set ?buf"
    using ids_merge [OF srt(1), of "idx_list ?data"] store srt(2) by (auto simp: store_ok_def)
  have present: "k \<in> ids_of ?list \<longleftrightarrow> 1 \<le> k \<and> k \<le> int (length cs') \<and> \<not> chunk_empty (cs' ! nat (k - 1))" for k
  proof -
    have old: "k \<in> ids_of (idx_list ?data) \<longleftrightarrow> 1 \<le> k \<and> k \<le> int (length cs0) \<and> \<not> chunk_empty (cs0 ! nat (k - 1))"
    proof (cases "1 \<le> k \<and> k \<le> int (length cs0)")
      case True
      then have k: "nat (k - 1) < length cs0" by auto
      show ?thesis
      proof (cases "nat (k - 1) < length (chunks ?data)")
        case True
        with ph(2) [OF True] store \<open>1 \<le> k \<and> k \<le> int (length cs0)\<close> show ?thesis by (auto simp: store_ok_def)
      next
        case False
        with ph(3) [of "nat (k - 1)"] k store \<open>1 \<le> k \<and> k \<le> int (length cs0)\<close> show ?thesis
          by (auto simp: store_ok_def)
      qed
    next
      case False
      with store ph(4) show ?thesis by (auto simp: store_ok_def)
    qed
    have rng: "1 \<le> k \<and> k \<le> int (length cs0)" if "k \<in> cd_idx ` set ?buf"
      using that fits mem by (auto simp: msg_fits_def)
    show ?thesis
    proof (cases "1 \<le> k \<and> k \<le> int (length cs0)")
      case True
      then have "nat (k - 1) < length cs0" "int (nat (k - 1)) + 1 = k" by auto
      with ins(7) have "chunk_empty (cs' ! nat (k - 1)) \<longleftrightarrow>
          chunk_empty (cs0 ! nat (k - 1)) \<and> k \<notin> cd_idx ` set ?buf" unfolding mem by metis
      with True old ins(3) merged(2) show ?thesis by auto
    next
      case False
      with rng old ins(3) merged(2) show ?thesis by auto
    qed
  qed
  have store': "store_ok p (i = own_index st) ?data'"
    using ins(2) merged(1) present by (auto simp: store_ok_def chunks_ok_def)
  have oi: "own_index ?st = own_index st" by (simp add: own_index_def)
  have own': "own_store_ok (chunk_size st) (own_data ?st) \<and> length (chunks (own_data st)) \<le> length (chunks (own_data ?st))"
  proof (cases "i = own_index st")
    case True
    have own: "own_store_ok (chunk_size st) ?data" using inv True by (simp add: mm_inv_def stores_ok_def own_data_def)
    have "length cs0 = length (chunks ?data)" using own_last [OF True] ph(4) by simp
    with ph(2) have "cs0 = chunks ?data" by (intro nth_equalityI) auto
    moreover from this own ins(3,8) have "cs' = chunks ?data"
      by (intro nth_equalityI) (auto simp: own_store_ok_def)
    ultimately have "own_data ?st = ?data\<lparr>idx_list := ?list\<rparr>"
      using True lens(1) i by (simp add: own_data_def oi [symmetric] own_index_def) 
    with own True show ?thesis by (simp add: own_store_ok_def own_data_def)
  next
    case False
    then have "own_data ?st = own_data st" by (simp add: own_data_def own_index_def)
    with inv show ?thesis by (simp add: mm_inv_def stores_ok_def)
  qed
  have "stores_ok p ?st"
    unfolding stores_ok_def oi
  proof (intro conjI allI impI)
    fix k assume "k < map_num ?st"
    with inv store' lens(1) i show "store_ok p (k = own_index st) (multi_map_chunks ?st ! k)"
      by (cases "k = i") (auto simp: mm_inv_def stores_ok_def)
  qed (use own' in simp)
  moreover have "buffers_mm_ok p ?st"
  proof -
    have msg: "data_msg_ok p st m \<Longrightarrow> data_msg_ok p ?st m" for m
      using own' by (auto simp: data_msg_ok_def own_data_def own_index_def)
    show ?thesis
      unfolding buffers_mm_ok_def
    proof (intro allI impI)
      fix k assume "k < map_num ?st"
      then have k: "k < map_num st" by simp
      show "set (buffer_map ?st ! k) = cd_idx ` set (chunk_buffer ?st ! k) \<and> distinct (map cd_idx (chunk_buffer ?st ! k)) \<and>
        (\<forall>m \<in> set (chunk_buffer ?st ! k). data_msg_ok p ?st m \<and> cd_drone m = int k + 1)"
      proof (cases "k = i")
        case True
        with lens i show ?thesis by simp
      next
        case False
        then have "buffer_map ?st ! k = buffer_map st ! k" "chunk_buffer ?st ! k = chunk_buffer st ! k" by simp_all
        with inv k msg show ?thesis by (simp only: mm_inv_def buffers_mm_ok_def) blast
      qed
    qed
  qed
  moreover have "mm_sizes ?st" using sz ins(4) by (simp add: mm_sizes_def)
  ultimately have inv': "mm_inv p ?st" using inv by (simp add: mm_inv_def)
  have "\<not> unknown_at p d' b" if "m \<in> set ?buf" "cd_idx m \<notin> ids_of (idx_list ?data)" "b \<in> set (cd_adrs m)" "centre_in_map p b"
    for m b
  proof -
    have "msg_fits p (length cs0) (length (chunk_boxes st)) m" using fits mem that(1) by blast
    then have k: "1 \<le> cd_idx m" "nat (cd_idx m - 1) < length cs0" by (auto simp: msg_fits_def)
    have "chunk_empty (cs0 ! nat (cd_idx m - 1))"
    proof (cases "nat (cd_idx m - 1) < length (chunks ?data)")
      case True
      with ph(2) [OF True] store that(2) k(1) show ?thesis by (auto simp: store_ok_def)
    next
      case False
      with ph(3) k(2) show ?thesis by simp
    qed
    with ins(10) mem that show ?thesis by blast
  qed
  moreover have "stores_small ?st"
    unfolding stores_small_def
  proof (intro allI impI)
    fix k assume "k < map_num ?st"
    with small lens(1) ins(3) ph(4) srt(7) len_small
    show "int (length (chunks (multi_map_chunks ?st ! k))) < int_max"
      by (cases "k = i") (auto simp: stores_small_def)
  qed
  moreover have "timer_frame i st ?st" by (simp add: timer_frame_def)
  moreover have "chunk_buffer ?st ! i = []" "multi_map_chunks ?st ! i = ?data'" using lens i by simp_all
  ultimately show ?thesis using step inv' ins(5,6,9) merged(2) by (intro exI [of _ ?st] exI [of _ d'] exI [of _ n']) auto
qed

text \<open>All buffers: every buffered id is known afterwards, and every voxel of a chunk that was new.\<close>

lemma process_buffers_ok:
  assumes prm: "fusion_params p caster"
  shows "mm_inv p st \<Longrightarrow> fusion_inv p d \<Longrightarrow> distinct is \<Longrightarrow> \<forall>i \<in> set is. i < map_num st \<Longrightarrow> stores_small st \<Longrightarrow>
    \<exists>st' d' n'. for_each (process_buffer p) is (st, d, n) = Some (st', d', n') \<and> mm_inv p st' \<and> fusion_inv p d' \<and>
      stores_small st' \<and>
      mm_drone st' = mm_drone st \<and> map_num st' = map_num st \<and> n \<le> n' \<and>
      (\<forall>i < map_num st. if i \<in> set is
         then chunk_buffer st' ! i = [] \<and> ids_of (idx_list (multi_map_chunks st' ! i)) =
           ids_of (idx_list (multi_map_chunks st ! i)) \<union> cd_idx ` set (chunk_buffer st ! i)
         else chunk_buffer st' ! i = chunk_buffer st ! i \<and> multi_map_chunks st' ! i = multi_map_chunks st ! i) \<and>
      (\<forall>b. adr_ok p b \<longrightarrow> \<not> unknown_at p d b \<longrightarrow> \<not> unknown_at p d' b) \<and>
      (\<forall>i \<in> set is. \<forall>m \<in> set (chunk_buffer st ! i). cd_idx m \<notin> ids_of (idx_list (multi_map_chunks st ! i)) \<longrightarrow>
         (\<forall>b \<in> set (cd_adrs m). centre_in_map p b \<longrightarrow> \<not> unknown_at p d' b))"
proof (induction "is" arbitrary: st d n)
  case Nil
  then show ?case by simp
next
  case (Cons i "is")
  have i: "i < map_num st" using Cons.prems(4) by simp
  from process_buffer_ok [OF prm Cons.prems(1,2) i Cons.prems(5), of n] obtain st1 d1 n1 where
    small1: "stores_small st1" and
    s: "process_buffer p i (st, d, n) = Some (st1, d1, n1)" "mm_inv p st1" "fusion_inv p d1" "timer_frame i st st1"
      "n \<le> n1" "chunk_buffer st1 ! i = []"
      "ids_of (idx_list (multi_map_chunks st1 ! i)) =
        ids_of (idx_list (multi_map_chunks st ! i)) \<union> cd_idx ` set (chunk_buffer st ! i)"
      "\<forall>b. adr_ok p b \<longrightarrow> \<not> unknown_at p d b \<longrightarrow> \<not> unknown_at p d1 b"
      "\<forall>m \<in> set (chunk_buffer st ! i). cd_idx m \<notin> ids_of (idx_list (multi_map_chunks st ! i)) \<longrightarrow>
         (\<forall>b \<in> set (cd_adrs m). centre_in_map p b \<longrightarrow> \<not> unknown_at p d1 b)"
    by blast
  have num: "map_num st1 = map_num st" "mm_drone st1 = mm_drone st" using s(4) by (simp_all add: timer_frame_def)
  have keep: "multi_map_chunks st1 ! k = multi_map_chunks st ! k" "chunk_buffer st1 ! k = chunk_buffer st ! k"
    if "k < map_num st" "k \<noteq> i" for k using s(4) that by (simp_all add: timer_frame_def)
  have dis: "distinct is" "\<forall>k \<in> set is. k < map_num st1" using Cons.prems(3,4) num by auto
  from Cons.IH [OF s(2,3) dis small1, of n1] obtain st' d' n' where
    small': "stores_small st'" and
    IH: "for_each (process_buffer p) is (st1, d1, n1) = Some (st', d', n')" "mm_inv p st'" "fusion_inv p d'"
      "mm_drone st' = mm_drone st1" "map_num st' = map_num st1" "n1 \<le> n'"
      "\<forall>k < map_num st1. if k \<in> set is
         then chunk_buffer st' ! k = [] \<and> ids_of (idx_list (multi_map_chunks st' ! k)) =
           ids_of (idx_list (multi_map_chunks st1 ! k)) \<union> cd_idx ` set (chunk_buffer st1 ! k)
         else chunk_buffer st' ! k = chunk_buffer st1 ! k \<and> multi_map_chunks st' ! k = multi_map_chunks st1 ! k"
      "\<forall>b. adr_ok p b \<longrightarrow> \<not> unknown_at p d1 b \<longrightarrow> \<not> unknown_at p d' b"
      "\<forall>k \<in> set is. \<forall>m \<in> set (chunk_buffer st1 ! k). cd_idx m \<notin> ids_of (idx_list (multi_map_chunks st1 ! k)) \<longrightarrow>
         (\<forall>b \<in> set (cd_adrs m). centre_in_map p b \<longrightarrow> \<not> unknown_at p d' b)"
    by blast
  have "if k \<in> set (i # is)
      then chunk_buffer st' ! k = [] \<and> ids_of (idx_list (multi_map_chunks st' ! k)) =
        ids_of (idx_list (multi_map_chunks st ! k)) \<union> cd_idx ` set (chunk_buffer st ! k)
      else chunk_buffer st' ! k = chunk_buffer st ! k \<and> multi_map_chunks st' ! k = multi_map_chunks st ! k"
    if k: "k < map_num st" for k
  proof (cases "k = i")
    case True
    have "i \<notin> set is" using Cons.prems(3) by simp
    with IH(7) i num have "chunk_buffer st' ! i = chunk_buffer st1 ! i" "multi_map_chunks st' ! i = multi_map_chunks st1 ! i"
      by auto
    with s(6,7) True show ?thesis by simp
  next
    case False
    with IH(7) keep [OF k] k num show ?thesis by simp
  qed
  moreover have "\<forall>b. adr_ok p b \<longrightarrow> \<not> unknown_at p d b \<longrightarrow> \<not> unknown_at p d' b" using s(8) IH(8) by blast
  moreover have "\<not> unknown_at p d' b"
    if "k \<in> set (i # is)" "m \<in> set (chunk_buffer st ! k)" "cd_idx m \<notin> ids_of (idx_list (multi_map_chunks st ! k))"
      "b \<in> set (cd_adrs m)" "centre_in_map p b" for k m b
  proof (cases "k = i")
    case True
    have "data_msg_ok p st m"
      using Cons.prems(1) i that(2) True by (auto simp: mm_inv_def buffers_mm_ok_def)
    then have "adr_ok p b" using that(4) by (simp add: data_msg_ok_def)
    with s(9) IH(8) that True show ?thesis by blast
  next
    case False
    with that(1) dis(2) num have "k \<in> set is" "k < map_num st" by auto
    with IH(9) keep [OF this(2) False] that show ?thesis by metis
  qed
  moreover have "for_each (process_buffer p) (i # is) (st, d, n) = Some (st', d', n')" using s(1) IH(1) by simp
  ultimately show ?case using IH(2-6) num s(5) small' by (intro exI [of _ st'] exI [of _ d'] exI [of _ n']) auto
qed

lemma chunkTimerCallback_ok:
  assumes prm: "fusion_params p caster" and inv: "mm_inv p st" and d: "fusion_inv p d" and small: "stores_small st"
  shows "\<exists>st' d'. chunkTimerCallback p st d = Some (st', d') \<and> mm_inv p st' \<and> fusion_inv p d' \<and> stores_small st' \<and>
    mm_drone st' = mm_drone st \<and> map_num st' = map_num st \<and>
    (\<forall>i < map_num st. chunk_buffer st' ! i = [] \<and> ids_of (idx_list (multi_map_chunks st' ! i)) =
       ids_of (idx_list (multi_map_chunks st ! i)) \<union> cd_idx ` set (chunk_buffer st ! i)) \<and>
    (\<forall>b. adr_ok p b \<longrightarrow> \<not> unknown_at p d b \<longrightarrow> \<not> unknown_at p d' b) \<and>
    (\<forall>i < map_num st. \<forall>m \<in> set (chunk_buffer st ! i). cd_idx m \<notin> ids_of (idx_list (multi_map_chunks st ! i)) \<longrightarrow>
       (\<forall>b \<in> set (cd_adrs m). centre_in_map p b \<longrightarrow> \<not> unknown_at p d' b))"
proof -
  have len: "length (chunk_buffer st) = map_num st" using inv by (simp add: mm_inv_def mm_sizes_def)
  have "distinct [0..<map_num st]" "\<forall>i \<in> set [0..<map_num st]. i < map_num st" by auto
  from process_buffers_ok [OF prm inv d this small, of 0] obtain st' d' n' where
    small': "stores_small st'" and
    s: "for_each (process_buffer p) [0..<map_num st] (st, d, 0) = Some (st', d', n')" "mm_inv p st'" "fusion_inv p d'"
      "mm_drone st' = mm_drone st" "map_num st' = map_num st"
      "\<forall>i < map_num st. chunk_buffer st' ! i = [] \<and> ids_of (idx_list (multi_map_chunks st' ! i)) =
           ids_of (idx_list (multi_map_chunks st ! i)) \<union> cd_idx ` set (chunk_buffer st ! i)"
      "\<forall>b. adr_ok p b \<longrightarrow> \<not> unknown_at p d b \<longrightarrow> \<not> unknown_at p d' b"
      "\<forall>i < map_num st. \<forall>m \<in> set (chunk_buffer st ! i). cd_idx m \<notin> ids_of (idx_list (multi_map_chunks st ! i)) \<longrightarrow>
         (\<forall>b \<in> set (cd_adrs m). centre_in_map p b \<longrightarrow> \<not> unknown_at p d' b)"
    by auto
  let ?st = "if n' > 0 then st'\<lparr>remote_chunk_update := True,
      remote_chunk_insert_count := remote_chunk_insert_count st' + n'\<rparr> else st'"
  have "mm_inv p ?st"
    using s(2) by (simp add: mm_inv_def mm_sizes_def stores_ok_def buffers_mm_ok_def data_msg_ok_def own_index_def own_data_def)
  moreover have "chunkTimerCallback p st d = Some (?st, d')" using s(1) len by (simp add: chunkTimerCallback_def)
  moreover have "stores_small ?st" using small' by (simp add: stores_small_def)
  ultimately show ?thesis using s(3-8) by (intro exI [of _ ?st] exI [of _ d']) simp
qed

section \<open>A whole exchange\<close>

lemma deliver_ok:
  "mm_inv p st \<Longrightarrow> \<forall>m \<in> set ms. data_msg_ok p st m \<and> cd_from m \<noteq> mm_drone st \<Longrightarrow>
   \<exists>st'. for_each chunkCallback ms st = Some st' \<and> mm_inv p st' \<and> multi_map_chunks st' = multi_map_chunks st \<and>
     mm_drone st' = mm_drone st \<and> map_num st' = map_num st \<and>
     (\<forall>i < map_num st. cd_idx ` set (chunk_buffer st' ! i) =
        cd_idx ` set (chunk_buffer st ! i) \<union> {k. (int i + 1, k) \<in> (\<lambda>m. (cd_drone m, cd_idx m)) ` set ms})"
proof (induction ms arbitrary: st)
  case (Cons m ms)
  have m: "data_msg_ok p st m" "cd_from m \<noteq> mm_drone st" using Cons.prems(2) by auto
  from chunkCallback_ok [OF Cons.prems(1) m(1)] obtain st1 where
    s: "chunkCallback m st = Some st1" "mm_inv p st1" "multi_map_chunks st1 = multi_map_chunks st"
      "mm_drone st1 = mm_drone st" "map_num st1 = map_num st"
      "\<And>i. i < map_num st \<Longrightarrow> cd_idx ` set (chunk_buffer st1 ! i) = cd_idx ` set (chunk_buffer st ! i) \<union>
         (if int i + 1 = cd_drone m then {cd_idx m} else {})"
    using m(2) by (auto simp del: Un_insert_right)
  have "\<forall>w \<in> set ms. data_msg_ok p st1 w \<and> cd_from w \<noteq> mm_drone st1"
    using Cons.prems(2) s(3-5) by (simp add: data_msg_ok_def)
  from Cons.IH [OF s(2) this] obtain st' where
    IH: "for_each chunkCallback ms st1 = Some st'" "mm_inv p st'" "multi_map_chunks st' = multi_map_chunks st1"
      "mm_drone st' = mm_drone st1" "map_num st' = map_num st1"
      "\<And>i. i < map_num st1 \<Longrightarrow> cd_idx ` set (chunk_buffer st' ! i) =
        cd_idx ` set (chunk_buffer st1 ! i) \<union> {k. (int i + 1, k) \<in> (\<lambda>m. (cd_drone m, cd_idx m)) ` set ms}"
    by blast
  have "cd_idx ` set (chunk_buffer st' ! i) = cd_idx ` set (chunk_buffer st ! i) \<union>
      {k. (int i + 1, k) \<in> (\<lambda>m. (cd_drone m, cd_idx m)) ` set (m # ms)}" if "i < map_num st" for i
    using IH(6) [of i] s(6) [OF that] s(5) that by auto
  with IH s show ?case by auto
qed auto

text \<open>Recording voxels changes the drone's own store only, and that has no more chunks than it has voxels.\<close>

lemma updateMapChunk_keeps:
  "updateMapChunk adrs st = Some st' \<Longrightarrow> mm_drone st' = mm_drone st \<and> map_num st' = map_num st"
  by (auto simp: updateMapChunk_def Let_def bind_eq_Some_conv split: if_splits)

lemma own_chunks_bounded:
  assumes "mm_inv p st"
  shows "length (chunks (own_data st)) \<le> length (stream st)"
proof -
  have "\<forall>c \<in> set (chunks (own_data st)). length (voxel_adrs c) = chunk_size st" "0 < chunk_size st"
    using assms by (simp_all add: mm_inv_def mm_sizes_def stores_ok_def own_store_ok_def)
  then have "length cs \<le> length (concat (map voxel_adrs cs))" if "set cs \<subseteq> set (chunks (own_data st))" for cs
    using that by (induction cs) auto
  from this [of "chunks (own_data st)"] show ?thesis by (simp add: stream_def)
qed

lemma stores_small_own:
  assumes "mm_inv p st'" and "mm_drone st' = mm_drone st" "map_num st' = map_num st"
    and "\<forall>i < map_num st. i \<noteq> own_index st \<longrightarrow> multi_map_chunks st' ! i = multi_map_chunks st ! i"
    and "stores_small st" and "int (length (stream st')) < int_max"
  shows "stores_small st'"
  unfolding stores_small_def
proof (intro allI impI)
  fix i assume i: "i < map_num st'"
  show "int (length (chunks (multi_map_chunks st' ! i))) < int_max"
  proof (cases "i = own_index st")
    case True
    then have "multi_map_chunks st' ! i = own_data st'" using assms(2) by (simp add: own_data_def own_index_def)
    with own_chunks_bounded [OF assms(1)] assms(6) show ?thesis by simp
  next
    case False
    with assms(3-5) i show ?thesis by (simp add: stores_small_def)
  qed
qed

lemma small_ids:
  "mm_inv p st \<Longrightarrow> stores_small st \<Longrightarrow> i < map_num st \<Longrightarrow>
   wf_ids (idx_list (multi_map_chunks st ! i)) \<and> ids_of (idx_list (multi_map_chunks st ! i)) \<subseteq> {1..<int_max}"
  by (force simp: mm_inv_def stores_ok_def store_ok_def stores_small_def)

lemma replies_set:
  assumes "mm_inv p st" "stores_small st" "length (cs_lists msg) = map_num st"
    and "\<forall>i < map_num st. wf_ids (cs_lists msg ! i) \<and> ids_of (cs_lists msg ! i) \<subseteq> {1..<int_max}"
  shows "set (replies st msg [0..int (map_num st) - 1]) = {(int i + 1, k) | i k. i < map_num st \<and>
    int i \<noteq> cs_from msg - 1 \<and> k \<in> ids_of (idx_list (multi_map_chunks st ! i)) - ids_of (cs_lists msg ! i)}"
proof -
  have eq: "ids_of (findMissedChunkIds (idx_list (multi_map_chunks st ! i)) (cs_lists msg ! i)) =
      ids_of (idx_list (multi_map_chunks st ! i)) - ids_of (cs_lists msg ! i)" if "i < map_num st" for i
    using small_ids [OF assms(1,2) that] assms(4) that by (intro ids_missed) auto
  have rng: "{0..int (map_num st) - 1} = int ` {i. i < map_num st}"
    by (auto simp: image_iff) (metis nat_0_le nat_less_iff of_nat_less_iff zless_nat_conj)
  show ?thesis
    unfolding replies_def using eq by (auto simp: set_id_range rng split: if_splits)
qed

lemma exchange_ok:
  assumes prm: "fusion_params p caster"
    and A: "mm_inv p stA" "stores_small stA" "fusion_inv p dA" and B: "mm_inv p stB" "stores_small stB" "fusion_inv p dB"
    and num: "map_num stB = map_num stA" "mm_drone stB \<noteq> mm_drone stA" "mm_drone stA \<noteq> int (map_num stA)"
    and time: "3 / 10 \<le> now - last_chunk_stamp_time stA ! nat (mm_drone stB - 1)"
    and empty: "\<forall>i < map_num stB. chunk_buffer stB ! i = []"
  shows "\<exists>stA' out stB1 stB' dB'. stampMsgCallback p dA (stampTimerCallback now stB) stA = Some (stA', out) \<and>
    for_each chunkCallback out stB = Some stB1 \<and> chunkTimerCallback p stB1 dB = Some (stB', dB') \<and>
    mm_inv p stA' \<and> mm_inv p stB' \<and> fusion_inv p dB' \<and>
    (\<forall>i < map_num stB. ids_of (idx_list (multi_map_chunks stB' ! i)) = ids_of (idx_list (multi_map_chunks stB ! i)) \<union>
       (if int i + 1 = mm_drone stB then {} else ids_of (idx_list (multi_map_chunks stA ! i)))) \<and>
    replies stA' (stampTimerCallback now stB') [0..int (map_num stA) - 1] = []"
proof -
  let ?msg = "stampTimerCallback now stB"
  have szB: "mm_sizes stB" using B(1) by (simp add: mm_inv_def)
  have msg: "1 \<le> cs_from ?msg" "cs_from ?msg \<le> int (map_num stA)" "length (cs_lists ?msg) = map_num stA"
    using szB num(1) by (simp_all add: stampTimerCallback_def mm_sizes_def)
  have lists: "cs_lists ?msg ! i = idx_list (multi_map_chunks stB ! i)" if "i < map_num stA" for i
    using that szB num(1) by (simp add: stampTimerCallback_def mm_sizes_def)
  have bA: "buffers_ok p dA" using A(3) by (simp add: fusion_inv_def)
  from stampMsgCallback_ok [OF A(1) bA msg] obtain stA' out where
    s: "stampMsgCallback p dA ?msg stA = Some (stA', out)" "mm_inv p stA'" "send_frame stA stA'"
      "\<forall>m \<in> set out. sent_ok p stA (mm_drone stB) m"
      "map (\<lambda>m. (cd_drone m, cd_idx m)) out = replies stA ?msg [0..int (map_num stA) - 1]"
    using num time by (auto simp: stampTimerCallback_def)
  have from_B: "cs_from ?msg = mm_drone stB" by (simp add: stampTimerCallback_def)
  have wfB: "\<forall>i < map_num stA. wf_ids (cs_lists ?msg ! i) \<and> ids_of (cs_lists ?msg ! i) \<subseteq> {1..<int_max}"
    using small_ids [OF B(1,2)] lists num(1) by simp
  have out: "(\<lambda>m. (cd_drone m, cd_idx m)) ` set out = {(int i + 1, k) | i k. i < map_num stA \<and>
      int i \<noteq> mm_drone stB - 1 \<and> k \<in> ids_of (idx_list (multi_map_chunks stA ! i)) - ids_of (idx_list (multi_map_chunks stB ! i))}"
  proof -
    have "(\<lambda>m. (cd_drone m, cd_idx m)) ` set out = set (replies stA ?msg [0..int (map_num stA) - 1])"
      unfolding s(5) [symmetric] by simp
    also have "\<dots> = {(int i + 1, k) | i k. i < map_num stA \<and> int i \<noteq> cs_from ?msg - 1 \<and>
        k \<in> ids_of (idx_list (multi_map_chunks stA ! i)) - ids_of (cs_lists ?msg ! i)}"
      by (rule replies_set [OF A(1,2) msg(3) wfB])
    also have "\<dots> = {(int i + 1, k) | i k. i < map_num stA \<and> int i \<noteq> mm_drone stB - 1 \<and>
        k \<in> ids_of (idx_list (multi_map_chunks stA ! i)) - ids_of (idx_list (multi_map_chunks stB ! i))}"
      using lists from_B by (intro Collect_cong) metis
    finally show ?thesis .
  qed
  have "\<forall>m \<in> set out. data_msg_ok p stB m \<and> cd_from m \<noteq> mm_drone stB"
  proof
    fix m assume m: "m \<in> set out"
    have so: "sent_ok p stA (mm_drone stB) m" using s(4) m by blast
    have "(cd_drone m, cd_idx m) \<in> (\<lambda>m. (cd_drone m, cd_idx m)) ` set out" using m by blast
    then obtain i where i: "cd_drone m = int i + 1" "i < map_num stA" "int i \<noteq> mm_drone stB - 1"
      "cd_idx m \<in> ids_of (idx_list (multi_map_chunks stA ! i))" unfolding out by blast
    have "1 \<le> cd_idx m" "cd_idx m < int_max" using i(4) small_ids [OF A(1,2) i(2)] by auto
    with so i num show "data_msg_ok p stB m \<and> cd_from m \<noteq> mm_drone stB"
      by (auto simp: sent_ok_def sent_from_def data_msg_ok_def)
  qed
  from deliver_ok [OF B(1) this] obtain stB1 where
    r: "for_each chunkCallback out stB = Some stB1" "mm_inv p stB1" "multi_map_chunks stB1 = multi_map_chunks stB"
      "mm_drone stB1 = mm_drone stB" "map_num stB1 = map_num stB"
      "\<And>i. i < map_num stB \<Longrightarrow> cd_idx ` set (chunk_buffer stB1 ! i) =
        {k. (int i + 1, k) \<in> (\<lambda>m. (cd_drone m, cd_idx m)) ` set out}"
    using empty by auto
  have "stores_small stB1" using B(2) r(3,5) by (simp add: stores_small_def)
  from chunkTimerCallback_ok [OF prm r(2) B(3) this] obtain stB' dB' where
    u: "chunkTimerCallback p stB1 dB = Some (stB', dB')" "mm_inv p stB'" "fusion_inv p dB'"
      "mm_drone stB' = mm_drone stB1" "map_num stB' = map_num stB1"
      "\<forall>i < map_num stB1. chunk_buffer stB' ! i = [] \<and> ids_of (idx_list (multi_map_chunks stB' ! i)) =
         ids_of (idx_list (multi_map_chunks stB1 ! i)) \<union> cd_idx ` set (chunk_buffer stB1 ! i)"
    by (elim exE conjE) (rule that)
  have t: "chunkTimerCallback p stB1 dB = Some (stB', dB')" "mm_inv p stB'" "fusion_inv p dB'"
      "mm_drone stB' = mm_drone stB" "map_num stB' = map_num stB"
    using u(1-5) r(4,5) by simp_all
  have t6: "ids_of (idx_list (multi_map_chunks stB' ! i)) =
      ids_of (idx_list (multi_map_chunks stB ! i)) \<union> cd_idx ` set (chunk_buffer stB1 ! i)" if "i < map_num stB" for i
    using u(6) r(3,5) that by simp
  have ids: "ids_of (idx_list (multi_map_chunks stB' ! i)) = ids_of (idx_list (multi_map_chunks stB ! i)) \<union>
      (if int i + 1 = mm_drone stB then {} else ids_of (idx_list (multi_map_chunks stA ! i)))" if "i < map_num stB" for i
  proof -
    have "cd_idx ` set (chunk_buffer stB1 ! i) = (if int i + 1 = mm_drone stB then {}
        else ids_of (idx_list (multi_map_chunks stA ! i)) - ids_of (idx_list (multi_map_chunks stB ! i)))"
      unfolding r(6) [OF that] out using that num(1) by (cases "int i + 1 = mm_drone stB") auto
    with t6 [OF that] show ?thesis by (cases "int i + 1 = mm_drone stB") simp_all
  qed
  have "replies stA' (stampTimerCallback now stB') [0..int (map_num stA) - 1] = []"
  proof -
    let ?msg' = "stampTimerCallback now stB'"
    have numA: "map_num stA' = map_num stA" using s(3) by (simp add: send_frame_def)
    have sameA: "idx_list (multi_map_chunks stA' ! i) = idx_list (multi_map_chunks stA ! i)" if "i < map_num stA" for i
      using send_frame_same [OF s(3) that] by (simp add: same_store_def)
    have "stores_small stA'"
      using A(2) same_store_length [OF send_frame_same [OF s(3)]] numA by (simp add: stores_small_def)
    moreover have "length (cs_lists ?msg') = map_num stA'"
      using t(2,5) num(1) numA by (simp add: stampTimerCallback_def mm_inv_def mm_sizes_def)
    moreover have lists': "cs_lists ?msg' ! i = idx_list (multi_map_chunks stB' ! i)" if "i < map_num stA" for i
      using that t(2,5) num(1) by (simp add: stampTimerCallback_def mm_inv_def mm_sizes_def)
    moreover have "\<forall>i < map_num stA'. wf_ids (cs_lists ?msg' ! i) \<and> ids_of (cs_lists ?msg' ! i) \<subseteq> {1..<int_max}"
    proof (intro allI impI)
      fix i assume i: "i < map_num stA'"
      have "wf_ids (idx_list (multi_map_chunks stB' ! i))"
        using t(2,5) i numA num(1) by (simp add: mm_inv_def stores_ok_def store_ok_def)
      with ids [of i] small_ids [OF A(1,2), of i] small_ids [OF B(1,2), of i] lists' [of i] i numA num(1)
      show "wf_ids (cs_lists ?msg' ! i) \<and> ids_of (cs_lists ?msg' ! i) \<subseteq> {1..<int_max}" by (auto split: if_splits)
    qed
    ultimately have "set (replies stA' ?msg' [0..int (map_num stA') - 1]) = {}"
      unfolding replies_set [OF s(2) \<open>stores_small stA'\<close> \<open>length (cs_lists ?msg') = map_num stA'\<close>
          \<open>\<forall>i < map_num stA'. wf_ids (cs_lists ?msg' ! i) \<and> ids_of (cs_lists ?msg' ! i) \<subseteq> {1..<int_max}\<close>]
      using ids sameA numA num(1) t(4) by (auto simp: stampTimerCallback_def split: if_splits)
    then show ?thesis unfolding numA by simp
  qed
  with s(1,2) r(1) t(1-3) ids show ?thesis by blast
qed

end
