(* ===== verification/Map_Ros.thy ===== *)
theory Map_Ros imports Map_Chunks_Timer
begin

text \<open>
  The callbacks of \<open>MapROS\<close> (\<open>plan_env/src/map_ros.cpp\<close>) and the part of \<open>EDTEnvironment\<close> that
  evaluates the map: a depth image or a point cloud is fused, its new voxels go to the chunk store,
  the local map is inflated, and the ESDF timer updates the distances. The rotation matrix of the
  camera is Eigen's and is a parameter; the clouds handed to the publishers are lists of positions.
\<close>

section \<open>State\<close>

record MapROS =
  ros_fx :: real
  ros_fy :: real
  ros_cx :: real
  ros_cy :: real
  depth_filter_maxdist :: real
  depth_filter_mindist :: real
  depth_filter_margin :: int
  k_depth_scaling_factor :: real
  skip_pixel :: int
  vis_truncate_height :: real
  vis_truncate_low :: real
  esdf_slice_height :: real
  camera_pos :: vec3
  local_updated :: bool
  esdf_need_update :: bool

text \<open>The depth image after \<open>toCvCopy\<close> and \<open>convertTo\<close>: 16-bit pixels, row by row.\<close>

record DepthImage =
  img_cols :: int
  img_rows :: int
  img_pixels :: "int list"

text \<open>\<open>SDFMap\<close> with the objects it points to: \<open>md_\<close>, \<open>mm_\<close> (and its \<open>drone_pos_\<close>) and \<open>mr_\<close>.\<close>

record MapSystem =
  sys_data :: MapData
  sys_chunks :: MultiMapManager
  sys_drone_pos :: vec3
  sys_ros :: MapROS

section \<open>Depth images\<close>

text \<open>The values of a loop variable that goes from \<open>lo\<close> to \<open>hi\<close> in steps of \<open>s\<close>; \<open>None\<close> for a step
  that never reaches the bound.\<close>

function loop_values :: "int \<Rightarrow> int \<Rightarrow> int \<Rightarrow> int list option" where
  "loop_values lo hi s =
     (if \<not> lo < hi then Some []
      else if s \<le> 0 then None
      else map_option (\<lambda>vs. lo # vs) (loop_values (lo + s) hi s))"
  by pat_completeness auto
termination by (relation "measure (\<lambda>(lo, hi, s). nat (hi - lo))") auto

declare loop_values.simps [simp del]

text \<open>The size of \<open>point_cloud_\<close>.\<close>

definition cloud_capacity :: "MapROS \<Rightarrow> int" where
  "cloud_capacity r = 640 * 480 div (skip_pixel r * skip_pixel r)"

text \<open>The depth used for a pixel; \<open>None\<close> if the pixel is skipped. The value \<open>nxt\<close> is the pixel that
  \<open>row_ptr\<close> points to after it has been advanced.\<close>

definition filter_depth :: "MapROS \<Rightarrow> int \<Rightarrow> int \<Rightarrow> real option" where
  "filter_depth r raw nxt =
     (let depth = of_int raw * (1 / k_depth_scaling_factor r) in
      if nxt = 0 \<or> depth > depth_filter_maxdist r then Some (depth_filter_maxdist r)
      else if depth < depth_filter_mindist r then None else Some depth)"

definition depth_point :: "MapROS \<Rightarrow> (vec3 \<Rightarrow> vec3) \<Rightarrow> int \<Rightarrow> int \<Rightarrow> real \<Rightarrow> vec3" where
  "depth_point r rot u v depth =
     zip3 (+) (rot ((of_int u - ros_cx r) * depth / ros_fx r, (of_int v - ros_cy r) * depth / ros_fy r, depth))
       (camera_pos r)"

definition depth_pixel ::
  "MapROS \<Rightarrow> (vec3 \<Rightarrow> vec3) \<Rightarrow> DepthImage \<Rightarrow> int \<Rightarrow> int \<Rightarrow> vec3 list \<Rightarrow> vec3 list option" where
  "depth_pixel r rot img v u pts =
     Option.bind (vec_at (img_pixels img) (v * img_cols img + u)) (\<lambda>raw.
     Option.bind (vec_at (img_pixels img) (v * img_cols img + u + skip_pixel r)) (\<lambda>nxt.
       (case filter_depth r raw nxt of
          None \<Rightarrow> Some pts
        | Some depth \<Rightarrow>
            if int (length pts) < cloud_capacity r then Some (pts @ [depth_point r rot u v depth]) else None)))"

text \<open>The points in \<open>point_cloud_\<close> below \<open>proj_points_cnt\<close>.\<close>

definition processDepthImage :: "MapROS \<Rightarrow> (vec3 \<Rightarrow> vec3) \<Rightarrow> DepthImage \<Rightarrow> vec3 list option" where
  "processDepthImage r rot img =
     (let m = depth_filter_margin r in
      Option.bind (loop_values m (img_rows img - m) (skip_pixel r)) (\<lambda>vs.
      Option.bind (if vs = [] then Some [] else loop_values m (img_cols img - m) (skip_pixel r)) (\<lambda>us.
        for_each (\<lambda>v. for_each (depth_pixel r rot img v) us) vs [])))"

section \<open>Callbacks\<close>

text \<open>\<open>inputPointCloud\<close> with its effects on the other objects.\<close>

definition fuse_cloud :: "MapParam \<Rightarrow> RayCaster \<Rightarrow> vec3 list \<Rightarrow> MapSystem \<Rightarrow> MapSystem option" where
  "fuse_cloud p caster points s =
     (case inputPointCloud p caster points (camera_pos (sys_ros s)) (sys_data s) of
        None \<Rightarrow> None
      | Some (d, new_voxel_ids, updated) \<Rightarrow>
          if \<not> updated then Some s
          else map_option (\<lambda>mm. s\<lparr>sys_data := d, sys_chunks := mm, sys_ros := sys_ros s\<lparr>local_updated := True\<rparr>\<rparr>)
            (updateMapChunk new_voxel_ids (sys_chunks s)))"

definition inflate_if_updated :: "MapParam \<Rightarrow> MapSystem \<Rightarrow> MapSystem" where
  "inflate_if_updated p s =
     (if local_updated (sys_ros s)
      then s\<lparr>sys_data := clearAndInflateLocalMap p (sys_data s),
             sys_ros := sys_ros s\<lparr>esdf_need_update := True, local_updated := False\<rparr>\<rparr>
      else s)"

definition set_camera :: "vec3 \<Rightarrow> MapSystem \<Rightarrow> MapSystem" where
  "set_camera pos s = s\<lparr>sys_ros := sys_ros s\<lparr>camera_pos := pos\<rparr>\<rparr>"

definition cloudPoseCallback ::
  "MapParam \<Rightarrow> RayCaster \<Rightarrow> vec3 list \<Rightarrow> vec3 \<Rightarrow> MapSystem \<Rightarrow> MapSystem option" where
  "cloudPoseCallback p caster points pos s =
     map_option (inflate_if_updated p) (fuse_cloud p caster points (set_camera pos s))"

definition depthPoseCallback ::
  "MapParam \<Rightarrow> RayCaster \<Rightarrow> (vec3 \<Rightarrow> vec3) \<Rightarrow> DepthImage \<Rightarrow> vec3 \<Rightarrow> MapSystem \<Rightarrow> MapSystem option" where
  "depthPoseCallback p caster rot img pos s =
     (let s1 = set_camera pos s in
      if \<not> isInMapPos p pos then Some s1
      else Option.bind (processDepthImage (sys_ros s1) rot img) (\<lambda>points.
        map_option (inflate_if_updated p) (fuse_cloud p caster points (s1\<lparr>sys_drone_pos := pos\<rparr>))))"

definition updateESDFCallback :: "MapParam \<Rightarrow> MapSystem \<Rightarrow> MapSystem option" where
  "updateESDFCallback p s =
     (if \<not> esdf_need_update (sys_ros s) then Some s
      else map_option (\<lambda>d. s\<lparr>sys_data := d, sys_ros := sys_ros s\<lparr>esdf_need_update := False\<rparr>\<rparr>)
        (updateESDF3d p (sys_data s)))"

section \<open>Published clouds\<close>

definition in_slice :: "MapROS \<Rightarrow> vec3 \<Rightarrow> bool" where
  "in_slice r pos = (case pos of (x, y, z) \<Rightarrow> \<not> z > vis_truncate_height r \<and> \<not> z < vis_truncate_low r)"

text \<open>The positions of the cells that satisfy \<open>P\<close>; \<open>None\<close> for a cell outside the buffer.\<close>

definition cells_cloud :: "MapParam \<Rightarrow> MapROS \<Rightarrow> MapData \<Rightarrow> (real \<Rightarrow> bool) \<Rightarrow> idx3 list \<Rightarrow> vec3 list option" where
  "cells_cloud p r d P cells =
     for_each (\<lambda>i cloud.
       if \<not> in_buffer (occupancy_buffer d) (toAddress p i) then None
       else if P (occupancy_buffer d ! nat (toAddress p i)) \<and> in_slice r (indexToPos p i)
       then Some (cloud @ [indexToPos p i]) else Some cloud) cells []"

definition all_cells :: "MapParam \<Rightarrow> MapData \<Rightarrow> idx3 list" where
  "all_cells p d = box_cells (boundIndex p (posToIndex p (all_min d))) (boundIndex p (posToIndex p (all_max d)))"

definition publishMapAll :: "MapParam \<Rightarrow> MapROS \<Rightarrow> MapData \<Rightarrow> vec3 list option" where
  "publishMapAll p r d = cells_cloud p r d (\<lambda>occ. occ > min_occupancy_log p) (all_cells p d)"

definition publishMapLocal :: "MapParam \<Rightarrow> MapROS \<Rightarrow> MapData \<Rightarrow> vec3 list option" where
  "publishMapLocal p r d =
     (case boundIndex p (local_bound_min d) of (x0, y0, _) \<Rightarrow> case boundIndex p (local_bound_max d) of (x1, y1, _) \<Rightarrow>
      case box_min p of (_, _, z0) \<Rightarrow> case box_max p of (_, _, z1) \<Rightarrow>
        cells_cloud p r d (\<lambda>occ. occ > min_occupancy_log p) (box_cells (x0, y0, z0) (x1, y1, z1 - 1)))"

definition publishUnknown :: "MapParam \<Rightarrow> MapROS \<Rightarrow> MapData \<Rightarrow> vec3 list option" where
  "publishUnknown p r d = cells_cloud p r d (\<lambda>occ. occ < clamp_min_log p - 1 / 1000) (all_cells p d)"

text \<open>Centre and size of the marker.\<close>

definition publishUpdateRange :: "MapParam \<Rightarrow> MapData \<Rightarrow> vec3 \<times> vec3" where
  "publishUpdateRange p d =
     (let esdf_min_pos = indexToPos p (local_bound_min d); esdf_max_pos = indexToPos p (local_bound_max d)
      in (map3 (\<lambda>x. 1 / 2 * x) (zip3 (+) esdf_min_pos esdf_max_pos), zip3 (-) esdf_max_pos esdf_min_pos))"

text \<open>\<open>margin\<close> is \<open>local_map_margin_\<close>; a point with its intensity.\<close>

definition publishESDF :: "MapParam \<Rightarrow> MapROS \<Rightarrow> int \<Rightarrow> MapData \<Rightarrow> (vec3 \<times> real) list" where
  "publishESDF p r margin d =
     (case boundIndex p (map3 (\<lambda>k. k - margin) (local_bound_min d)) of (x0, y0, _) \<Rightarrow>
      case boundIndex p (map3 (\<lambda>k. k + margin) (local_bound_max d)) of (x1, y1, _) \<Rightarrow>
        concat (map (\<lambda>x. map (\<lambda>y.
          case indexToPos p (x, y, 1) of (wx, wy, _) \<Rightarrow>
            let dist = getDistance p d (posToIndex p (wx, wy, esdf_slice_height r))
            in ((wx, wy, 2 / 10), (max (min dist 3) 0 - 0) / (3 - 0))) [y0..y1]) [x0..x1]))"

section \<open>Distance queries\<close>

text \<open>\<open>EDTEnvironment::distToBox\<close> for the box around a predicted centre; \<open>pred\<close> is \<open>evaluateConstVel\<close> of
  the object at the time of the query.\<close>

definition distToBox :: "vec3 \<Rightarrow> vec3 \<Rightarrow> vec3 \<Rightarrow> real" where
  "distToBox pos_box scale pos =
     (let hi = zip3 (\<lambda>c s. c + 1 / 2 * s) pos_box scale; lo = zip3 (\<lambda>c s. c - 1 / 2 * s) pos_box scale
      in vec_norm (zip3 (\<lambda>x (l, h). if x \<ge> l \<and> x \<le> h then 0 else min \<bar>x - l\<bar> \<bar>x - h\<bar>) pos (zip3 Pair lo hi)))"

definition minDistToAllBox :: "(vec3 \<times> vec3) list \<Rightarrow> vec3 \<Rightarrow> real" where
  "minDistToAllBox boxes pos =
     fold (\<lambda>(c, s) dist. let di = distToBox c s pos in if di < dist then di else dist) boxes 10000000"

definition evaluateEDTWithGrad :: "MapParam \<Rightarrow> MapData \<Rightarrow> vec3 \<Rightarrow> real \<times> vec3" where
  "evaluateEDTWithGrad p d pos = getDistWithGrad p d pos"

definition evaluateCoarseEDT :: "MapParam \<Rightarrow> MapData \<Rightarrow> (real \<Rightarrow> (vec3 \<times> vec3) list) \<Rightarrow> vec3 \<Rightarrow> real \<Rightarrow> real" where
  "evaluateCoarseEDT p d boxes pos time =
     (let d1 = getDistance p d (posToIndex p pos) in
      if time < 0 then d1 else min d1 (minDistToAllBox (boxes time) pos))"

section \<open>Depth images give bounded clouds\<close>

lemma loop_values_ok:
  "0 < s \<Longrightarrow> \<exists>vs. loop_values lo hi s = Some vs \<and> (\<forall>v \<in> set vs. lo \<le> v \<and> v < hi) \<and>
     int (length vs) * s \<le> max 0 (hi - lo + s - 1)"
proof (induction lo hi s rule: loop_values.induct)
  case (1 lo hi s)
  show ?case
  proof (cases "lo < hi")
    case True
    from 1 True obtain vs where vs: "loop_values (lo + s) hi s = Some vs" "\<forall>v \<in> set vs. lo + s \<le> v \<and> v < hi"
      "int (length vs) * s \<le> max 0 (hi - (lo + s) + s - 1)" by auto
    have "int (length (lo # vs)) * s \<le> max 0 (hi - lo + s - 1)"
      using vs(3) True 1(2) by (auto simp: distrib_right max_def split: if_splits)
    moreover have "loop_values lo hi s = Some (lo # vs)"
      using vs(1) True 1(2) by (simp add: loop_values.simps [of lo])
    ultimately show ?thesis using vs(2) True 1(2) by auto
  qed (simp add: loop_values.simps [of lo])
qed

text \<open>An image whose margin is at least one step, not larger than the code's point buffer assumes.\<close>

definition image_ok :: "MapROS \<Rightarrow> DepthImage \<Rightarrow> bool" where
  "image_ok r img \<longleftrightarrow> 0 < skip_pixel r \<and> skip_pixel r \<le> depth_filter_margin r \<and>
     0 \<le> img_rows img \<and> img_rows img \<le> 480 \<and> 0 \<le> img_cols img \<and> img_cols img \<le> 640 \<and>
     int (length (img_pixels img)) = img_cols img * img_rows img"

text \<open>What the code puts into the cloud.\<close>

definition projected :: "MapROS \<Rightarrow> (vec3 \<Rightarrow> vec3) \<Rightarrow> vec3 \<Rightarrow> bool" where
  "projected r rot pt \<longleftrightarrow> (\<exists>u v depth. pt = depth_point r rot u v depth \<and>
     (depth = depth_filter_maxdist r \<or> depth_filter_mindist r \<le> depth \<and> depth \<le> depth_filter_maxdist r))"

lemma depth_pixel_ok:
  assumes img: "image_ok r img"
    and u: "depth_filter_margin r \<le> u" "u < img_cols img - depth_filter_margin r"
    and v: "depth_filter_margin r \<le> v" "v < img_rows img - depth_filter_margin r"
    and cap: "int (length pts) < cloud_capacity r"
  shows "\<exists>new. depth_pixel r rot img v u pts = Some (pts @ new) \<and> length new \<le> 1 \<and> (\<forall>pt \<in> set new. projected r rot pt)"
proof -
  let ?k = "v * img_cols img + u"
  have m: "0 < skip_pixel r" "skip_pixel r \<le> depth_filter_margin r" using img by (auto simp: image_ok_def)
  have "0 \<le> v * img_cols img" using u v m by (intro mult_nonneg_nonneg) auto
  moreover have "(v + 1) * img_cols img \<le> img_rows img * img_cols img"
    using u v m by (intro mult_right_mono) auto
  ultimately have k: "0 \<le> ?k" "?k + skip_pixel r < int (length (img_pixels img))"
    using u m img by (auto simp: image_ok_def algebra_simps)
  then have at: "vec_at (img_pixels img) ?k = Some (img_pixels img ! nat ?k)"
      "vec_at (img_pixels img) (?k + skip_pixel r) = Some (img_pixels img ! nat (?k + skip_pixel r))"
    using m by (simp_all add: vec_at_def)
  show ?thesis
  proof (cases "filter_depth r (img_pixels img ! nat ?k) (img_pixels img ! nat (?k + skip_pixel r))")
    case None
    then show ?thesis by (intro exI [of _ "[]"]) (simp add: depth_pixel_def at)
  next
    case (Some depth)
    then have "depth = depth_filter_maxdist r \<or> depth_filter_mindist r \<le> depth \<and> depth \<le> depth_filter_maxdist r"
      by (auto simp: filter_depth_def Let_def split: if_splits)
    then have "projected r rot (depth_point r rot u v depth)" unfolding projected_def by blast
    with Some cap show ?thesis
      by (intro exI [of _ "[depth_point r rot u v depth]"]) (simp add: depth_pixel_def at)
  qed
qed

lemma depth_row_ok:
  assumes img: "image_ok r img" and v: "depth_filter_margin r \<le> v" "v < img_rows img - depth_filter_margin r"
  shows "\<forall>u \<in> set us. depth_filter_margin r \<le> u \<and> u < img_cols img - depth_filter_margin r \<Longrightarrow>
    int (length pts + length us) \<le> cloud_capacity r \<Longrightarrow>
    \<exists>new. for_each (depth_pixel r rot img v) us pts = Some (pts @ new) \<and> length new \<le> length us \<and>
      (\<forall>pt \<in> set new. projected r rot pt)"
proof (induction us arbitrary: pts)
  case (Cons u us)
  from depth_pixel_ok [OF img _ _ v, of u pts rot] Cons.prems obtain n1 where
    n1: "depth_pixel r rot img v u pts = Some (pts @ n1)" "length n1 \<le> 1" "\<forall>pt \<in> set n1. projected r rot pt"
    by auto
  from Cons.IH [of "pts @ n1"] Cons.prems n1(2) obtain n2 where
    "for_each (depth_pixel r rot img v) us (pts @ n1) = Some ((pts @ n1) @ n2)" "length n2 \<le> length us"
    "\<forall>pt \<in> set n2. projected r rot pt" by auto
  with n1 show ?case by (intro exI [of _ "n1 @ n2"]) auto
qed simp

lemma depth_rows_ok:
  assumes img: "image_ok r img" and us: "\<forall>u \<in> set us. depth_filter_margin r \<le> u \<and> u < img_cols img - depth_filter_margin r"
  shows "\<forall>v \<in> set vs. depth_filter_margin r \<le> v \<and> v < img_rows img - depth_filter_margin r \<Longrightarrow>
    int (length pts + length vs * length us) \<le> cloud_capacity r \<Longrightarrow>
    \<exists>new. for_each (\<lambda>v. for_each (depth_pixel r rot img v) us) vs pts = Some (pts @ new) \<and>
      length new \<le> length vs * length us \<and> (\<forall>pt \<in> set new. projected r rot pt)"
proof (induction vs arbitrary: pts)
  case (Cons v vs)
  have v: "depth_filter_margin r \<le> v" "v < img_rows img - depth_filter_margin r" using Cons.prems(1) by auto
  have "int (length pts + length us) \<le> int (length pts + length (v # vs) * length us)"
    unfolding of_nat_le_iff by simp
  with Cons.prems(2) have "int (length pts + length us) \<le> cloud_capacity r" by (rule order_trans [rotated])
  from depth_row_ok [OF img v us this, of rot] obtain n1 where
    n1: "for_each (depth_pixel r rot img v) us pts = Some (pts @ n1)" "length n1 \<le> length us"
      "\<forall>pt \<in> set n1. projected r rot pt"
    by blast
  from Cons.IH [of "pts @ n1"] Cons.prems n1(2) obtain n2 where
    "for_each (\<lambda>v. for_each (depth_pixel r rot img v) us) vs (pts @ n1) = Some ((pts @ n1) @ n2)"
    "length n2 \<le> length vs * length us" "\<forall>pt \<in> set n2. projected r rot pt" by auto
  with n1 show ?case by (intro exI [of _ "n1 @ n2"]) auto
qed simp

lemma loop_values_count:
  assumes "loop_values m (n - m) s = Some vs" "0 < s" "s \<le> m" "0 \<le> n"
  shows "int (length vs) * s \<le> n"
  using loop_values_ok [OF assms(2), of m "n - m"] assms by auto

lemma processDepthImage_ok:
  assumes img: "image_ok r img"
  shows "\<exists>pts. processDepthImage r rot img = Some pts \<and> int (length pts) \<le> cloud_capacity r \<and>
    (\<forall>pt \<in> set pts. projected r rot pt)"
proof -
  let ?m = "depth_filter_margin r" and ?s = "skip_pixel r"
  have s: "0 < ?s" "?s \<le> ?m" "0 \<le> img_rows img" "img_rows img \<le> 480" "0 \<le> img_cols img" "img_cols img \<le> 640"
    using img by (auto simp: image_ok_def)
  from loop_values_ok [OF s(1), of ?m "img_rows img - ?m"] obtain vs where
    vs: "loop_values ?m (img_rows img - ?m) ?s = Some vs" "\<forall>v \<in> set vs. ?m \<le> v \<and> v < img_rows img - ?m" by auto
  from loop_values_ok [OF s(1), of ?m "img_cols img - ?m"] obtain us where
    us: "loop_values ?m (img_cols img - ?m) ?s = Some us" "\<forall>u \<in> set us. ?m \<le> u \<and> u < img_cols img - ?m" by auto
  have "int (length vs) * ?s \<le> 480" "int (length us) * ?s \<le> 640"
    using loop_values_count [OF vs(1) s(1-3)] loop_values_count [OF us(1) s(1,2,5)] s by linarith+
  then have "(int (length us) * ?s) * (int (length vs) * ?s) \<le> 640 * 480"
    using s(1) by (intro mult_mono) auto
  then have "int (length vs * length us) * (?s * ?s) div (?s * ?s) \<le> 640 * 480 div (?s * ?s)"
    using s(1) by (intro zdiv_mono1) (auto simp: ac_simps)
  then have cap: "int (length [] + length vs * length us) \<le> cloud_capacity r"
    using s(1) by (simp add: cloud_capacity_def)
  from depth_rows_ok [OF img us(2) vs(2) cap, of rot] obtain new where
    new: "for_each (\<lambda>v. for_each (depth_pixel r rot img v) us) vs [] = Some new"
      "length new \<le> length vs * length us" "\<forall>pt \<in> set new. projected r rot pt" by auto
  have "processDepthImage r rot img = Some new"
    using vs(1) us(1) new(1) by (auto simp: processDepthImage_def Let_def)
  moreover have "int (length new) \<le> int (length vs * length us)" unfolding of_nat_le_iff by (rule new(2))
  ultimately show ?thesis using new(3) cap by (intro exI [of _ new]) simp
qed

section \<open>From a cloud to distances\<close>

lemma clearAndInflate_frame:
  assumes "esdf_ready p d"
  shows "fusion_inv p (clearAndInflateLocalMap p d) = fusion_inv p d"
    and "esdf_ready p (clearAndInflateLocalMap p d)"
    and "unknown_at p (clearAndInflateLocalMap p d) a = unknown_at p d a"
proof -
  have "toAddress p (local_bound_min d) = toAddress p (local_bound_min d)" by simp
  have j: "isInMap p (local_bound_min d)" using assms by (simp add: esdf_ready_def)
  have len: "length (occupancy_buffer_inflate (clearAndInflateLocalMap p d)) = length (occupancy_buffer_inflate d)"
    by (rule clearAndInflate_ok(2) [OF assms j])
  obtain b where d': "clearAndInflateLocalMap p d = d\<lparr>occupancy_buffer_inflate := b\<rparr>"
    by (simp add: clearAndInflateLocalMap_def Let_def)
  show "fusion_inv p (clearAndInflateLocalMap p d) = fusion_inv p d" "esdf_ready p (clearAndInflateLocalMap p d)"
    "unknown_at p (clearAndInflateLocalMap p d) a = unknown_at p d a"
    using assms len unfolding d'
    by (simp_all add: fusion_inv_def esdf_ready_def buffers_ok_def unknown_at_def)
qed


lemma system_updates:
  "local_updated (sys_ros (set_camera pos s)) = local_updated (sys_ros s)"
  "camera_pos (sys_ros (set_camera pos s)) = pos" "sys_data (set_camera pos s) = sys_data s"
  "sys_chunks (set_camera pos s) = sys_chunks s"
  by (simp_all add: set_camera_def)

text \<open>One cloud, then the ESDF timer.\<close>

lemma cloud_to_esdf:
  assumes prm: "fusion_params p caster" and d: "fusion_inv p (sys_data s)" and mm: "mm_inv p (sys_chunks s)"
    and cam: "isInMap p (posToIndex p pos)" and pts: "\<forall>pt \<in> set points. projects_inside p pos pt" "points \<noteq> []"
    and own: "chunks (own_data (sys_chunks s)) \<noteq> [] \<or>
      length (adr_buffer (sys_chunks s)) + nat (getVoxelNum p) < chunk_size (sys_chunks s)"
  shows "\<exists>s' s'' new. cloudPoseCallback p caster points pos s = Some s' \<and> updateESDFCallback p s' = Some s'' \<and>
    fusion_inv p (sys_data s') \<and> mm_inv p (sys_chunks s') \<and>
    stream (sys_chunks s') = stream (sys_chunks s) @ new \<and> distinct new \<and>
    set new = {a. adr_ok p a \<and> unknown_at p (sys_data s) a \<and> \<not> unknown_at p (sys_data s') a} \<and>
    (\<forall>i \<in> set (box_cells (local_bound_min (sys_data s')) (local_bound_max (sys_data s'))).
       distance_buffer (sys_data s'') ! nat (toAddress p i) = esdf_value p (sys_data s') i) \<and>
    \<not> local_updated (sys_ros s') \<and> \<not> esdf_need_update (sys_ros s'') \<and> sys_chunks s'' = sys_chunks s'"
proof -
  from inputPointCloud_ok [OF prm d cam pts(1)] pts(2) obtain d1 new where
    c: "inputPointCloud p caster points pos (sys_data s) = Some (d1, new, True)" "fusion_inv p d1" "distinct new"
      "set new = {a. adr_ok p a \<and> unknown_at p (sys_data s) a \<and> \<not> unknown_at p d1 a}" "esdf_ready p d1"
    by auto
  have adrs: "\<forall>a \<in> set new. adr_ok p a" using c(4) by blast
  have "set new \<subseteq> {0..<getVoxelNum p}" using adrs by (auto simp: adr_ok_def)
  from card_mono [OF _ this] have "length new \<le> nat (getVoxelNum p)" using distinct_card [OF c(3)] by simp
  then have "\<not> first_chunk_gap new (sys_chunks s)" using own by (auto simp: first_chunk_gap_def)
  from updateMapChunk_ok [OF mm adrs this] obtain mm1 where
    m: "updateMapChunk new (sys_chunks s) = Some mm1" "mm_inv p mm1" "stream mm1 = stream (sys_chunks s) @ new"
    by blast
  let ?s1 = "(set_camera pos s)\<lparr>sys_data := d1, sys_chunks := mm1,
      sys_ros := sys_ros (set_camera pos s)\<lparr>local_updated := True\<rparr>\<rparr>"
  let ?s2 = "inflate_if_updated p ?s1"
  have f: "cloudPoseCallback p caster points pos s = Some ?s2"
    by (simp add: cloudPoseCallback_def fuse_cloud_def system_updates c(1) m(1))
  have s2: "sys_data ?s2 = clearAndInflateLocalMap p d1" "sys_chunks ?s2 = mm1" "esdf_need_update (sys_ros ?s2)"
    "\<not> local_updated (sys_ros ?s2)"
    by (simp_all add: inflate_if_updated_def)
  have frame: "fusion_inv p (sys_data ?s2)" "esdf_ready p (sys_data ?s2)"
      "\<And>a. unknown_at p (sys_data ?s2) a = unknown_at p d1 a"
    using clearAndInflate_frame [OF c(5)] c(2) unfolding s2 by simp_all
  from updateESDF3d_value [OF frame(2)] obtain d3 where
    e: "updateESDF3d p (sys_data ?s2) = Some d3" "\<forall>i. isInMap p i \<longrightarrow> distance_buffer d3 ! nat (toAddress p i) =
       (if i \<in> set (box_cells (local_bound_min (sys_data ?s2)) (local_bound_max (sys_data ?s2)))
        then esdf_value p (sys_data ?s2) i else distance_buffer (sys_data ?s2) ! nat (toAddress p i))"
    by blast
  let ?s3 = "?s2\<lparr>sys_data := d3, sys_ros := sys_ros ?s2\<lparr>esdf_need_update := False\<rparr>\<rparr>"
  have g: "updateESDFCallback p ?s2 = Some ?s3"
    unfolding updateESDFCallback_def using s2(3) by (simp add: e(1))
  have box: "\<forall>i \<in> set (box_cells (local_bound_min (sys_data ?s2)) (local_bound_max (sys_data ?s2))).
       distance_buffer (sys_data ?s3) ! nat (toAddress p i) = esdf_value p (sys_data ?s2) i"
    using e(2) box_cells_in_map [of p "local_bound_min (sys_data ?s2)" "local_bound_max (sys_data ?s2)"] frame(2)
    by (auto simp: esdf_ready_def)
  show ?thesis
    using f g frame(1) m(2,3) c(3,4) box s2(2,4) frame(3)
    by (intro exI [of _ ?s2] exI [of _ ?s3] exI [of _ new]) simp
qed


section \<open>Published clouds and boxes\<close>

lemma cells_cloud_ok:
  assumes "dims_ok p" "buffers_ok p d" "\<forall>i \<in> set cells. isInMap p i"
  shows "cells_cloud p r d P cells = Some (map (indexToPos p)
    (filter (\<lambda>i. P (occupancy_buffer d ! nat (toAddress p i)) \<and> in_slice r (indexToPos p i)) cells))"
proof -
  have buf: "in_buffer (occupancy_buffer d) (toAddress p i)" if "i \<in> set cells" for i
  proof -
    have "isInMap p i" using assms(3) that by blast
    from voxel.encode_bounds [OF assms(1) this] assms(2) show ?thesis by (simp add: in_buffer_def buffers_ok_def)
  qed
  have "for_each (\<lambda>i cloud.
       if \<not> in_buffer (occupancy_buffer d) (toAddress p i) then None
       else if P (occupancy_buffer d ! nat (toAddress p i)) \<and> in_slice r (indexToPos p i)
       then Some (cloud @ [indexToPos p i]) else Some cloud) is acc =
    Some (acc @ map (indexToPos p)
      (filter (\<lambda>i. P (occupancy_buffer d ! nat (toAddress p i)) \<and> in_slice r (indexToPos p i)) is))"
    if "set is \<subseteq> set cells" for "is" acc
    using that buf by (induction "is" arbitrary: acc) auto
  from this [of cells "[]"] show ?thesis by (simp add: cells_cloud_def)
qed

lemma all_cells_in_map: "dims_ok p \<Longrightarrow> i \<in> set (all_cells p d) \<Longrightarrow> isInMap p i"
  using box_cells_in_map [OF isInMap_boundIndex isInMap_boundIndex] by (auto simp: all_cells_def)

lemma publishMapAll_ok:
  assumes "dims_ok p" "buffers_ok p d" and clamp: "clamp_min_log p \<le> min_occupancy_log p"
  shows "\<exists>cloud. publishMapAll p r d = Some cloud \<and> set cloud = indexToPos p ` {i \<in> set (all_cells p d).
    getOccupancy p d i = Some OCCUPIED \<and> in_slice r (indexToPos p i)}"
  and "\<exists>cloud. publishUnknown p r d = Some cloud \<and> set cloud = indexToPos p ` {i \<in> set (all_cells p d).
    getOccupancy p d i = Some UNKNOWN \<and> in_slice r (indexToPos p i)}"
proof -
  have cells: "\<forall>i \<in> set (all_cells p d). isInMap p i" using all_cells_in_map [OF assms(1)] by blast
  show "\<exists>cloud. publishUnknown p r d = Some cloud \<and> set cloud = indexToPos p ` {i \<in> set (all_cells p d).
    getOccupancy p d i = Some UNKNOWN \<and> in_slice r (indexToPos p i)}"
    unfolding publishUnknown_def cells_cloud_ok [OF assms(1,2) cells]
    using cells by (auto simp: getOccupancy_def Let_def)
  show "\<exists>cloud. publishMapAll p r d = Some cloud \<and> set cloud = indexToPos p ` {i \<in> set (all_cells p d).
    getOccupancy p d i = Some OCCUPIED \<and> in_slice r (indexToPos p i)}"
    unfolding publishMapAll_def cells_cloud_ok [OF assms(1,2) cells]
    using cells clamp by (auto simp: getOccupancy_def Let_def)
qed

definition in_box :: "vec3 \<Rightarrow> vec3 \<Rightarrow> vec3 \<Rightarrow> bool" where
  "in_box c s q \<longleftrightarrow> all3 (\<le>) (zip3 (\<lambda>c s. c - 1 / 2 * s) c s) q \<and> all3 (\<le>) q (zip3 (\<lambda>c s. c + 1 / 2 * s) c s)"

lemma distToBox_distance:
  assumes "all3 (\<le>) (0, 0, 0) scale"
  shows "\<exists>q. in_box pos_box scale q \<and> distToBox pos_box scale pos = vec_norm (zip3 (-) pos q)"
    and "in_box pos_box scale q \<Longrightarrow> distToBox pos_box scale pos \<le> vec_norm (zip3 (-) pos q)"
proof -
  obtain x y z a b c u v w where e: "pos = (x, y, z)" "pos_box = (a, b, c)" "scale = (u, v, w)" by (metis prod.collapse)
  have s: "0 \<le> u" "0 \<le> v" "0 \<le> w" using assms by (auto simp: e)
  define ax where "ax t l h = (if t \<ge> l \<and> t \<le> h then 0 else min \<bar>t - l\<bar> \<bar>t - h\<bar>)" for t l h :: real
  have dist: "distToBox pos_box scale pos = vec_norm (ax x (a - 1 / 2 * u) (a + 1 / 2 * u),
      ax y (b - 1 / 2 * v) (b + 1 / 2 * v), ax z (c - 1 / 2 * w) (c + 1 / 2 * w))"
    by (simp add: distToBox_def e ax_def)
  define cl where "cl t l h = max l (min t h)" for t l h :: real
  have clamp: "ax t l h * ax t l h = (t - cl t l h) * (t - cl t l h)" "l \<le> cl t l h" "cl t l h \<le> h"
    if "l \<le> h" for t l h
    using that by (auto simp: ax_def cl_def max_def min_def abs_if algebra_simps)
  have least: "ax t l h * ax t l h \<le> (t - k) * (t - k)" if "l \<le> k" "k \<le> h" for t l h k
  proof -
    have "0 \<le> ax t l h" "ax t l h \<le> \<bar>t - k\<bar>" using that by (auto simp: ax_def)
    then have "ax t l h * ax t l h \<le> \<bar>t - k\<bar> * \<bar>t - k\<bar>" by (intro mult_mono) auto
    then show ?thesis by simp
  qed
  let ?q = "(cl x (a - 1 / 2 * u) (a + 1 / 2 * u), cl y (b - 1 / 2 * v) (b + 1 / 2 * v), cl z (c - 1 / 2 * w) (c + 1 / 2 * w))"
  have "in_box pos_box scale ?q" using s clamp(2,3) by (simp add: in_box_def e)
  moreover have "distToBox pos_box scale pos = vec_norm (zip3 (-) pos ?q)"
    using s clamp(1) unfolding dist by (simp add: vec_norm_def e)
  ultimately show "\<exists>q. in_box pos_box scale q \<and> distToBox pos_box scale pos = vec_norm (zip3 (-) pos q)" by blast
  show "distToBox pos_box scale pos \<le> vec_norm (zip3 (-) pos q)" if "in_box pos_box scale q"
  proof -
    obtain k l m where q: "q = (k, l, m)" by (metis prod.collapse)
    show ?thesis using that unfolding dist
      by (auto simp: vec_norm_def e q in_box_def intro!: add_mono least)
  qed
qed

lemma minDistToAllBox_eq:
  "minDistToAllBox boxes pos = Min (insert 10000000 ((\<lambda>(c, s). distToBox c s pos) ` set boxes))"
proof -
  let ?f = "\<lambda>(c, s). distToBox c s pos"
  have "fold (\<lambda>(c, s) dist. let di = distToBox c s pos in if di < dist then di else dist) bs d =
      fold min (map ?f bs) d" for bs d
    by (induction bs arbitrary: d) (auto simp: Let_def min_def split: prod.splits)
  moreover have "fold min xs d = Min (insert d (set xs))" for xs :: "real list" and d
    by (metis Min.set_eq_fold list.set(2))
  ultimately show ?thesis by (simp add: minDistToAllBox_def)
qed

end
