(* ===== verification/Map_Claims.thy ===== *)
theory Map_Claims imports Map_Ros
begin

text \<open>
  The properties of the voxel map: distances, rays, clouds, inflation, addressing, and the exchange of
  chunks between the drones, each with an instance on a map of two voxels per axis.
\<close>

section \<open>A small map\<close>

definition small_param :: MapParam where
  "small_param = \<lparr>map_origin = (0, 0, 0), map_size = (2, 2, 2), map_min_boundary = (0, 0, 0),
     map_max_boundary = (2, 2, 2), map_voxel_num = (2, 2, 2), resolution = 1, resolution_inv = 1,
     obstacles_inflation = 0, local_bound_inflate = 1, ground_height = 0, max_ray_length = 5, default_dist = 0,
     prob_hit_log = 1, prob_miss_log = - 1, clamp_min_log = - 2, clamp_max_log = 2, min_occupancy_log = 0,
     unknown_flag = 1 / 100, optimistic = True, signed_dist = False, box_mind = (0, 0, 0), box_maxd = (2, 2, 2),
     box_min = (0, 0, 0), box_max = (2, 2, 2)\<rparr>"

definition small_data :: MapData where
  "small_data = init_data small_param (((0, 0, 0), (1, 1, 1)), ((0, 0, 0), (0, 0, 0)))"

definition small_caster :: RayCaster where
  "small_caster = ray_setParams 1 (0, 0, 0) \<lparr>ray_cur = (0, 0, 0), ray_end = (0, 0, 0), ray_step = (0, 0, 0),
     ray_tMax = (None, None, None), ray_tDelta = (0, 0, 0), ray_resolution = 1, ray_offset = (0, 0, 0),
     ray_half = (0, 0, 0)\<rparr>"

lemma small_dims: "dims_ok small_param"
  by (simp add: dims_ok_def small_param_def)

lemma small_in_map: "isInMap small_param (x, y, z) \<longleftrightarrow> x \<in> {0..1} \<and> y \<in> {0..1} \<and> z \<in> {0..1}"
  by (auto simp: isInMap_def small_param_def)

lemma small_fusion_params: "fusion_params small_param small_caster"
proof -
  have "aligned small_param (0, 0, 0)" by (simp add: aligned_def small_param_def)
  moreover have "caster_of small_param small_caster"
    by (simp add: caster_of_def small_caster_def ray_setParams_def small_param_def)
  moreover have "geometry_ok small_param" by (simp add: geometry_ok_def small_param_def)
  ultimately show ?thesis using small_dims by (auto simp: fusion_params_def small_param_def)
qed

lemma small_ready: "esdf_ready small_param (small_data\<lparr>occupancy_buffer_inflate := (replicate 8 0)[0 := 1]\<rparr>)"
  "esdf_ready small_param small_data"
  using small_dims by (simp_all add: esdf_ready_def buffers_ok_def small_data_def init_data_def Let_def
      getVoxelNum_def isInMap_def small_param_def)

section \<open>Distances\<close>

text \<open>C2: With an obstacle in the updated box and unsigned distances, \<open>updateESDF3d\<close> succeeds and gives every
  cell of the box the exact Euclidean distance, in metres, to the nearest inflated obstacle of the box.\<close>

theorem esdf_is_exact:
  assumes "esdf_ready p d" and "optimistic p" and "\<not> signed_dist p"
    and "i \<in> set (box_cells (local_bound_min d) (local_bound_max d))"
    and "ob \<in> set (box_cells (local_bound_min d) (local_bound_max d))"
    and "occupancy_buffer_inflate d ! nat (toAddress p ob) = 1"
  shows "\<exists>d'. updateESDF3d p d = Some d' \<and>
    distance_buffer d' ! nat (toAddress p i) = resolution p * sqrt (of_int (Min (sq_dist i `
      {j \<in> set (box_cells (local_bound_min d) (local_bound_max d)).
         occupancy_buffer_inflate d ! nat (toAddress p j) = 1})))"
proof -
  from updateESDF3d_value [OF assms(1)] obtain d' where
    d': "updateESDF3d p d = Some d'" "\<forall>i. isInMap p i \<longrightarrow> distance_buffer d' ! nat (toAddress p i) =
       (if i \<in> set (box_cells (local_bound_min d) (local_bound_max d)) then esdf_value p d i
        else distance_buffer d ! nat (toAddress p i))" by blast
  have lo: "dims_ok p" "isInMap p (local_bound_min d)" "isInMap p (local_bound_max d)"
    using assms(1) by (simp_all add: esdf_ready_def)
  have "\<forall>j. obstacle_cost p d j = (if occupancy_buffer_inflate d ! nat (toAddress p j) = 1 then 0 else dbl_max)"
    using assms(2) by (simp add: obstacle_cost_def Let_def)
  note near = nearest_obstacle [OF lo assms(4) this assms(5,6)]
  have "distance_buffer d' ! nat (toAddress p i) = esdf_value p d i"
    using d'(2) [THEN spec, of i] assms(4) box_cells_in_map [OF lo(2,3) assms(4)] by metis
  with d'(1) assms(3) near show ?thesis by (intro exI [of _ d']) (simp add: esdf_value_def Let_def)
qed

lemma esdf_is_exact_witness:
  "\<exists>d'. updateESDF3d small_param (small_data\<lparr>occupancy_buffer_inflate := (replicate 8 0)[0 := 1]\<rparr>) = Some d' \<and>
    distance_buffer d' ! nat (toAddress small_param (1, 1, 0)) = resolution small_param * sqrt (of_int (Min (sq_dist (1, 1, 0) `
      {j \<in> set (box_cells (0, 0, 0) (1, 1, 1)). (replicate 8 0)[0 := 1] ! nat (toAddress small_param j) = (1 :: int)})))"
  using esdf_is_exact [OF small_ready(1), of "(1, 1, 0)" "(0, 0, 0)"]
  by (simp add: small_data_def init_data_def Let_def set_box_cells toAddress_def small_param_def)

text \<open>C32: \<open>fillESDF\<close>, the linear-time transform with the arrays \<open>v\<close> and \<open>z\<close>, writes into every cell of its
  range the minimum over all cells \<open>p\<close> of \<open>(q - p)^2 + f(p)\<close>; no read or write leaves the arrays.\<close>

theorem fillESDF_is_lower_envelope:
  assumes "start \<le> b" "b < n" "n < 2 ^ 31" and "\<forall>q \<in> {start..b}. 0 \<le> f q \<and> f q \<le> dbl_max"
  shows "fillESDF f set_val start b n buf =
    Some (fold (\<lambda>q. set_val q (lower_envelope f start b q)) [start..<b + 1] buf)"
proof -
  have n: "real n < 2 ^ 31" using assms(3) by (metis of_nat_less_iff of_nat_numeral of_nat_power)
  then have "real n * real n < 2 ^ 31 * 2 ^ 31" by (intro mult_strict_mono) auto
  moreover have "(2 :: real) ^ 62 \<le> dbl_max" by (simp add: dbl_max_def)
  ultimately have "small_values f n start b"
    using assms(1,2,4) n unfolding small_values_def by fastforce
  then show ?thesis by (rule fillESDF_eq)
qed

lemma fillESDF_is_lower_envelope_witness:
  "fillESDF (\<lambda>q. if q = 2 then 0 else 100) (\<lambda>q v buf. buf[q := v]) 1 3 4 [9, 9, 9, 9] =
    Some (fold (\<lambda>q. (\<lambda>q v buf. buf[q := v]) q (lower_envelope (\<lambda>q. if q = 2 then 0 else 100) 1 3 q)) [1..<3 + 1]
      [9, 9, 9, 9])"
proof -
  have "(100 :: real) \<le> dbl_max" by (simp add: dbl_max_def)
  then show ?thesis
    by (intro fillESDF_is_lower_envelope) (auto simp: dbl_max_def)
qed

section \<open>Rays\<close>

text \<open>C35: The ray from a point to the camera ends: for two positions in an aligned map the loop over
  \<open>nextId\<close> visits exactly one voxel per unit of Manhattan length, each next to the one before, starting
  at the voxel of the point and arriving at the camera's, and never leaves the map.\<close>

theorem ray_ends_at_camera:
  assumes "geometry_ok p" "aligned p m" "caster_of p r"
    and "isInMap p (posToIndex p a)" "isInMap p (posToIndex p b)"
  shows "\<exists>ids. ray_ids (snd (ray_input a b r)) = Some ids \<and>
    int (length ids) = manhattan (posToIndex p a) (posToIndex p b) \<and>
    walk (ids @ [posToIndex p b]) \<and> hd (ids @ [posToIndex p b]) = posToIndex p a \<and>
    (\<forall>i \<in> set ids. isInMap p i \<and> between3 (posToIndex p a) (posToIndex p b) i)"
  using ray_ids_map [OF assms] .

lemma ray_ends_at_camera_witness:
  "\<exists>ids. ray_ids (snd (ray_input (1 / 2, 1 / 2, 1 / 2) (3 / 2, 3 / 2, 1 / 2) small_caster)) = Some ids \<and>
    int (length ids) = 2"
proof -
  have i: "posToIndex small_param (1 / 2, 1 / 2, 1 / 2) = (0, 0, 0)"
    "posToIndex small_param (3 / 2, 3 / 2, 1 / 2) = (1, 1, 0)" by (simp_all add: posToIndex_def small_param_def)
  obtain m where al: "aligned small_param m" "geometry_ok small_param" "caster_of small_param small_caster"
    using small_fusion_params by (auto simp: fusion_params_def)
  from ray_ends_at_camera [OF al(2,1,3), of "(1 / 2, 1 / 2, 1 / 2)" "(3 / 2, 3 / 2, 1 / 2)"]
  obtain ids where "ray_ids (snd (ray_input (1 / 2, 1 / 2, 1 / 2) (3 / 2, 3 / 2, 1 / 2) small_caster)) = Some ids"
    "int (length ids) = manhattan (0, 0, 0) (1, 1, 0)" unfolding i by (auto simp: small_in_map)
  then show ?thesis by (simp add: manhattan_def)
qed

section \<open>Clouds\<close>

lemma small_camera: "posToIndex small_param (1 / 2, 1 / 2, 1 / 2) = (0, 0, 0)"
  by (simp add: posToIndex_def small_param_def)

lemma small_point: "projects_inside small_param (1 / 2, 1 / 2, 1 / 2) (3 / 2, 1 / 2, 1 / 2)"
proof -
  have "project_point small_param (1 / 2, 1 / 2, 1 / 2) (3 / 2, 1 / 2, 1 / 2) = Some ((3 / 2, 1 / 2, 1 / 2), 1)"
    by (simp add: project_point_def isInMapPos_def vec_norm_def small_param_def)
  moreover have "posToIndex small_param (3 / 2, 1 / 2, 1 / 2) = (1, 0, 0)"
    by (simp add: posToIndex_def small_param_def)
  ultimately show ?thesis by (simp add: projects_inside_def small_in_map)
qed

lemma small_inv: "fusion_inv small_param small_data"
  unfolding small_data_def by (rule fusion_inv_init)

text \<open>C4: \<open>inputPointCloud\<close> with a camera in the map and points that project into it never accesses a
  buffer out of bounds and keeps the invariant of the map: counters and cache are empty again, every
  occupancy is either unknown or within the clamp bounds, a known voxel stays known, and the voxels
  handed to the chunk store are exactly those that became known, each once. The box of the update is
  ready for the distance transform.\<close>

theorem cloud_keeps_map_invariant:
  assumes "fusion_params p caster" and "fusion_inv p d"
    and "isInMap p (posToIndex p camera)" and "\<forall>pt \<in> set points. projects_inside p camera pt"
  shows "\<exists>d' new. inputPointCloud p caster points camera d = Some (d', new, points \<noteq> []) \<and>
    fusion_inv p d' \<and> distinct new \<and> set new = {a. adr_ok p a \<and> unknown_at p d a \<and> \<not> unknown_at p d' a} \<and>
    (\<forall>a. adr_ok p a \<longrightarrow> \<not> unknown_at p d a \<longrightarrow> \<not> unknown_at p d' a) \<and> (points \<noteq> [] \<longrightarrow> esdf_ready p d')"
  using inputPointCloud_ok [OF assms] by blast

lemma cloud_keeps_map_invariant_witness:
  "\<exists>d' new. inputPointCloud small_param small_caster [(3 / 2, 1 / 2, 1 / 2)] (1 / 2, 1 / 2, 1 / 2) small_data =
      Some (d', new, True) \<and> esdf_ready small_param d'"
  using cloud_keeps_map_invariant [OF small_fusion_params small_inv, of "(1 / 2, 1 / 2, 1 / 2)" "[(3 / 2, 1 / 2, 1 / 2)]"]
    small_point by (auto simp: small_camera small_in_map)

text \<open>\<open>clearAndInflateLocalMap\<close> computes the inflation: afterwards a voxel is marked iff an occupied
  voxel of the updated box is within the inflation radius on every axis; other voxels of the box are
  cleared and voxels outside keep their mark.\<close>

theorem inflation_is_exact:
  assumes "esdf_ready p d" and "isInMap p j"
  shows "occupancy_buffer_inflate (clearAndInflateLocalMap p d) ! nat (toAddress p j) =
    (if \<exists>i \<in> set (box_cells (local_bound_min d) (local_bound_max d)).
          occupancy_buffer d ! nat (toAddress p i) > min_occupancy_log p \<and> near p i j then 1
     else if j \<in> set (box_cells (local_bound_min d) (local_bound_max d)) then 0
     else occupancy_buffer_inflate d ! nat (toAddress p j))"
  using clearAndInflate_ok(1) [OF assms] by (simp only: inflated_value_def Let_def)

lemma inflation_is_exact_witness:
  "occupancy_buffer_inflate (clearAndInflateLocalMap small_param
      (small_data\<lparr>occupancy_buffer_inflate := (replicate 8 0)[0 := 1]\<rparr>)) ! nat (toAddress small_param (0, 0, 0)) = 0"
proof -
  have "unknown < min_occupancy_log small_param" if "unknown = clamp_min_log small_param - unknown_flag small_param" for unknown
    using that by (simp add: small_param_def)
  moreover have "occupancy_buffer small_data ! nat (toAddress small_param i) =
      clamp_min_log small_param - unknown_flag small_param" if "isInMap small_param i" for i
    using voxel.encode_bounds [OF small_dims that] by (simp add: small_data_def init_data_def Let_def)
  moreover have "isInMap small_param i" if "i \<in> set (box_cells (0, 0, 0) (1, 1, 1))" for i
  proof -
    obtain x y z where "i = (x, y, z)" by (metis prod.collapse)
    with that show ?thesis by (simp add: small_in_map set_box_cells)
  qed
  moreover have "local_bound_min small_data = (0, 0, 0)" "local_bound_max small_data = (1, 1, 1)"
    by (simp_all add: small_data_def init_data_def Let_def)
  ultimately show ?thesis
    using inflation_is_exact [OF small_ready(1), of "(0, 0, 0)"]
    by (force simp: small_in_map set_box_cells)
qed


section \<open>Addresses\<close>

text \<open>On a map with at least one voxel per axis \<open>toAddress\<close> is a bijection between the indices of the
  map and the addresses below the size of the buffers, with \<open>adrToIndex\<close> as its inverse, and the centre
  of every voxel lies in that voxel.\<close>

theorem voxel_address_roundtrip:
  assumes "dims_ok p" and "geometry_ok p"
  shows "(\<forall>i. isInMap p i \<longrightarrow> 0 \<le> toAddress p i \<and> toAddress p i < getVoxelNum p \<and> adrToIndex p (toAddress p i) = i) \<and>
    (\<forall>a. 0 \<le> a \<and> a < getVoxelNum p \<longrightarrow> isInMap p (adrToIndex p a) \<and> toAddress p (adrToIndex p a) = a) \<and>
    (\<forall>i. posToIndex p (indexToPos p i) = i) \<and> (\<forall>pos. isInMapPos p pos \<longrightarrow> isInMap p (posToIndex p pos))"
  using voxel.encode_bounds [OF assms(1)] voxel.decode_encode [OF assms(1)] voxel.decode_valid [OF assms(1)]
    posToIndex_indexToPos [OF assms(2)] isInMap_posToIndex [OF assms(2)] by auto

lemma voxel_address_roundtrip_witness:
  "adrToIndex small_param (toAddress small_param (1, 0, 1)) = (1, 0, 1) \<and> toAddress small_param (1, 0, 1) = 5"
proof -
  have "geometry_ok small_param" using small_fusion_params by (simp add: fusion_params_def)
  from voxel_address_roundtrip [OF small_dims this] show ?thesis
    by (auto simp: small_in_map) (simp add: toAddress_def small_param_def)
qed

section \<open>Depth images\<close>

text \<open>A depth image whose margin is at least one sampling step and that has the size the point buffer was
  made for never makes \<open>processDepthImage\<close> read outside the image or write outside the buffer, and every
  point it creates is the projection of a depth between the two filter bounds.\<close>

theorem depth_image_stays_in_buffer:
  assumes "0 < skip_pixel r" "skip_pixel r \<le> depth_filter_margin r" "0 \<le> img_rows img" "img_rows img \<le> 480"
    "0 \<le> img_cols img" "img_cols img \<le> 640" "int (length (img_pixels img)) = img_cols img * img_rows img"
  shows "\<exists>pts. processDepthImage r rot img = Some pts \<and> int (length pts) \<le> 640 * 480 div (skip_pixel r * skip_pixel r) \<and>
    (\<forall>pt \<in> set pts. projected r rot pt)"
  using processDepthImage_ok [of r img rot] assms by (simp add: image_ok_def cloud_capacity_def)

definition small_ros :: MapROS where
  "small_ros = \<lparr>ros_fx = 1, ros_fy = 1, ros_cx = 1, ros_cy = 1, depth_filter_maxdist = 5, depth_filter_mindist = 1 / 5,
     depth_filter_margin = 1, k_depth_scaling_factor = 1000, skip_pixel = 1, vis_truncate_height = 3,
     vis_truncate_low = - 1, esdf_slice_height = 1, camera_pos = (1 / 2, 1 / 2, 1 / 2), local_updated = False,
     esdf_need_update = False\<rparr>"

lemma depth_image_stays_in_buffer_witness:
  "\<exists>pts. processDepthImage small_ros (\<lambda>v. v) \<lparr>img_cols = 3, img_rows = 3, img_pixels = replicate 9 1000\<rparr> = Some pts \<and>
    int (length pts) \<le> 307200"
  using depth_image_stays_in_buffer [of small_ros "\<lparr>img_cols = 3, img_rows = 3, img_pixels = replicate 9 1000\<rparr>" "\<lambda>v. v"]
  by (auto simp: small_ros_def)

text \<open>C3: A cloud fused by \<open>cloudPoseCallback\<close> and the next \<open>updateESDFCallback\<close>, for a chunk store in its
  invariant that has a chunk or room for all voxels: both succeed, the map and the store keep their
  invariants, the voxels that became known are appended, each once, to what the drone will announce, the
  update flags are lowered, and the distances of the updated box are those of the fused and inflated map.\<close>

theorem cloud_reaches_distances_and_chunks:
  assumes "fusion_params p caster" and "fusion_inv p (sys_data s)" and "mm_inv p (sys_chunks s)"
    and "isInMap p (posToIndex p pos)" and "\<forall>pt \<in> set points. projects_inside p pos pt" "points \<noteq> []"
    and "chunks (own_data (sys_chunks s)) \<noteq> [] \<or>
      length (adr_buffer (sys_chunks s)) + nat (getVoxelNum p) < chunk_size (sys_chunks s)"
  shows "\<exists>s' s'' new. cloudPoseCallback p caster points pos s = Some s' \<and> updateESDFCallback p s' = Some s'' \<and>
    fusion_inv p (sys_data s') \<and> mm_inv p (sys_chunks s') \<and>
    stream (sys_chunks s') = stream (sys_chunks s) @ new \<and> distinct new \<and>
    set new = {a. adr_ok p a \<and> unknown_at p (sys_data s) a \<and> \<not> unknown_at p (sys_data s') a} \<and>
    (\<forall>i \<in> set (box_cells (local_bound_min (sys_data s')) (local_bound_max (sys_data s'))).
       distance_buffer (sys_data s'') ! nat (toAddress p i) = esdf_value p (sys_data s') i) \<and>
    \<not> local_updated (sys_ros s') \<and> \<not> esdf_need_update (sys_ros s'') \<and> sys_chunks s'' = sys_chunks s'"
  by (rule cloud_to_esdf [OF assms])

lemma cloud_reaches_distances_and_chunks_witness:
  "\<exists>s' s'' new. cloudPoseCallback small_param small_caster [(3 / 2, 1 / 2, 1 / 2)] (1 / 2, 1 / 2, 1 / 2)
      \<lparr>sys_data = small_data, sys_chunks = mm_init 1 2 200, sys_drone_pos = (0, 0, 0), sys_ros = small_ros\<rparr> = Some s' \<and>
    updateESDFCallback small_param s' = Some s'' \<and> stream (sys_chunks s') = new \<and> mm_inv small_param (sys_chunks s')"
proof -
  let ?s = "\<lparr>sys_data = small_data, sys_chunks = mm_init 1 2 200, sys_drone_pos = (0, 0, 0), sys_ros = small_ros\<rparr>"
  have "mm_inv small_param (mm_init 1 2 200)" by (rule mm_inv_init) auto
  moreover have "stream (mm_init 1 2 200) = []"
    by (simp add: stream_def own_data_def own_index_def mm_init_def numeral_2_eq_2)
  moreover have "length (adr_buffer (mm_init 1 2 200)) + nat (getVoxelNum small_param) < chunk_size (mm_init 1 2 200)"
    by (simp add: mm_init_def getVoxelNum_def small_param_def)
  ultimately show ?thesis
    using cloud_reaches_distances_and_chunks [OF small_fusion_params, of ?s "(1 / 2, 1 / 2, 1 / 2)" "[(3 / 2, 1 / 2, 1 / 2)]"]
      small_inv small_point by (auto simp: small_camera small_in_map)
qed


section \<open>Chunks\<close>

text \<open>C38: A list of interval bounds stands for a set of chunk ids, and the operations on the lists refine the
  operations on the sets: \<open>findMissedChunkIds\<close> is the difference, \<open>mergeChunkIds\<close> the union, and the
  merged list is normalised again (proper, ascending intervals with a gap between two of them).\<close>

theorem chunk_id_lists_refine_sets:
  assumes "wf_ids xs" "wf_ids ys" "ids_of xs \<subseteq> {1..<int_max}" "ids_of ys \<subseteq> {1..<int_max}"
  shows "ids_of (findMissedChunkIds xs ys) = ids_of xs - ids_of ys \<and>
    ids_of (mergeChunkIds xs ys) = ids_of xs \<union> ids_of ys \<and> wf_ids (mergeChunkIds xs ys)"
  using ids_missed [OF assms(2,4,3)] ids_merge [OF assms(1,2)] by simp

lemma chunk_id_lists_refine_sets_witness:
  "ids_of (findMissedChunkIds [1, 9] [3, 4, 8, 12]) = ids_of [1, 9] - ids_of [3, 4, 8, 12] \<and>
    wf_ids (mergeChunkIds [1, 9] [3, 4, 8, 12]) \<and> findMissedChunkIds [1, 9] [3, 4, 8, 12] = [1, 2, 5, 7]"
proof -
  have "ids_of [1, 9] \<subseteq> {1..<int_max}" "ids_of [3, 4, 8, 12] \<subseteq> {1..<int_max}" by auto
  moreover have "findMissedChunkIds [1, 9] [3, 4, 8, 12] = [1, 2, 5, 7]"
    by (simp add: findMissedChunkIds_def not_in_other_def findIntersect_def Let_def)
  ultimately show ?thesis using chunk_id_lists_refine_sets [of "[1, 9]" "[3, 4, 8, 12]"] by simp
qed

text \<open>\<open>updateMapChunk\<close> loses no voxel and reorders none: the chunks of the drone followed by the buffer
  are the old ones followed by the new addresses. The invariant of the store is kept, all chunks of the
  drone have the configured size, and the stores of the other drones are untouched.\<close>

theorem own_chunks_keep_every_voxel:
  assumes "mm_inv p st" and "\<forall>a \<in> set adrs. adr_ok p a"
    and "chunks (own_data st) \<noteq> [] \<or> length (adr_buffer st @ adrs) \<noteq> chunk_size st"
  shows "\<exists>st'. updateMapChunk adrs st = Some st' \<and> mm_inv p st' \<and>
    concat (map voxel_adrs (chunks (own_data st'))) @ adr_buffer st' =
      concat (map voxel_adrs (chunks (own_data st))) @ adr_buffer st @ adrs \<and>
    (\<forall>i < map_num st. i \<noteq> own_index st \<longrightarrow> multi_map_chunks st' ! i = multi_map_chunks st ! i)"
  using updateMapChunk_ok [OF assms(1,2)] assms(3) by (auto simp: first_chunk_gap_def stream_def)

lemma own_chunks_keep_every_voxel_witness:
  "\<exists>st'. updateMapChunk [1, 2, 3] (mm_init 1 2 2) = Some st' \<and> mm_inv small_param st' \<and>
    concat (map voxel_adrs (chunks (own_data st'))) @ adr_buffer st' = [1, 2, 3]"
proof -
  have "mm_inv small_param (mm_init 1 2 2)" by (rule mm_inv_init) auto
  moreover have "\<forall>a \<in> set [1, 2, 3]. adr_ok small_param a" by (simp add: adr_ok_def getVoxelNum_def small_param_def)
  moreover have "own_data (mm_init 1 2 2) = \<lparr>chunks = [], idx_list = []\<rparr>" "adr_buffer (mm_init 1 2 2) = []"
    "chunk_size (mm_init 1 2 2) = 2"
    by (simp_all add: own_data_def own_index_def mm_init_def numeral_2_eq_2)
  ultimately show ?thesis
    using own_chunks_keep_every_voxel [of small_param "mm_init 1 2 2" "[1, 2, 3]"] by auto
qed

text \<open>The one case in which \<open>updateMapChunk\<close> has no defined result: a drone without chunks whose buffer
  grows to exactly the chunk size. The loop cuts nothing off, and \<open>chunks_.back()\<close> is read from an empty
  vector.\<close>

theorem first_full_chunk_is_undefined:
  assumes "mm_inv p st" and "chunks (own_data st) = []" and "length (adr_buffer st @ adrs) = chunk_size st"
  shows "updateMapChunk adrs st = None"
  using updateMapChunk_gap [OF assms(1)] assms(2,3) by (simp add: first_chunk_gap_def)

lemma first_full_chunk_is_undefined_witness:
  "updateMapChunk [1, 2] (mm_init 1 2 2) = None"
proof -
  have "mm_inv small_param (mm_init 1 2 2)" by (rule mm_inv_init) auto
  then show ?thesis
    by (rule first_full_chunk_is_undefined) (simp_all add: own_data_def own_index_def mm_init_def numeral_2_eq_2)
qed

text \<open>The handlers of the chunk store as steps; \<open>None\<close> stands for undefined behaviour. The index of a chunk is
  a \<open>uint32_t\<close> in the messages and an \<open>int\<close> in the lists of ids, and the code computes the successor of an
  announced id: the steps are those in which every id and its successor fit an \<open>int\<close>, that is fewer than
  \<open>2^31 - 1\<close> voxels recorded by the drone itself, and announced and received ids between 1 and
  \<open>2^31 - 2\<close> (\<open>data_msg_ok\<close>). What happens beyond is the next lemma but one.\<close>

inductive store_step ::
  "MapParam \<Rightarrow> MultiMapManager \<times> MapData \<Rightarrow> (MultiMapManager \<times> MapData) option \<Rightarrow> bool" for p where
  own: "\<forall>a \<in> set adrs. adr_ok p a \<Longrightarrow> chunks (own_data st) \<noteq> [] \<or> length (adr_buffer st @ adrs) \<noteq> chunk_size st \<Longrightarrow>
    int (length (stream st @ adrs)) < int_max \<Longrightarrow>
    store_step p (st, d) (map_option (\<lambda>st'. (st', d)) (updateMapChunk adrs st))"
| stamp: "1 \<le> cs_from msg \<Longrightarrow> cs_from msg \<le> int (map_num st) \<Longrightarrow> length (cs_lists msg) = map_num st \<Longrightarrow>
    \<forall>ids \<in> set (cs_lists msg). \<forall>k \<in> set ids. 1 \<le> k \<and> k < int_max \<Longrightarrow>
    store_step p (st, d) (map_option (\<lambda>(st', out). (st', d)) (stampMsgCallback p d msg st))"
| chunk: "data_msg_ok p st m \<Longrightarrow> store_step p (st, d) (map_option (\<lambda>st'. (st', d)) (chunkCallback m st))"
| timer: "store_step p (st, d) (chunkTimerCallback p st d)"

inductive store_reachable :: "MapParam \<Rightarrow> MultiMapManager \<times> MapData \<Rightarrow> MultiMapManager \<times> MapData \<Rightarrow> bool"
  for p s0 where
  start: "store_reachable p s0 s0"
| step: "store_reachable p s0 s \<Longrightarrow> store_step p s (Some s') \<Longrightarrow> store_reachable p s0 s'"

lemma store_step_inv:
  assumes prm: "fusion_params p caster" and step: "store_step p s r"
    and inv: "mm_inv p (fst s)" "stores_small (fst s)" "fusion_inv p (snd s)"
  shows "\<exists>s'. r = Some s' \<and> mm_inv p (fst s') \<and> stores_small (fst s') \<and> fusion_inv p (snd s')"
  using step
proof cases
  case (own adrs st d)
  then have st: "mm_inv p st" "stores_small st" using inv by simp_all
  from own updateMapChunk_ok [OF st(1), of adrs] obtain st' where
    st': "updateMapChunk adrs st = Some st'" "mm_inv p st'" "stream st' = stream st @ adrs"
      "\<forall>i < map_num st. i \<noteq> own_index st \<longrightarrow> multi_map_chunks st' ! i = multi_map_chunks st ! i"
    by (auto simp: first_chunk_gap_def)
  have "stores_small st'"
    using st'(3) own(5) updateMapChunk_keeps [OF st'(1)] by (intro stores_small_own [OF st'(2) _ _ st'(4) st(2)]) auto
  with own st' inv show ?thesis by simp
next
  case (stamp msg st d)
  then have st: "mm_inv p st" "stores_small st" "buffers_ok p d" using inv by (simp_all add: fusion_inv_def)
  from stampMsgCallback_ok [OF st(1,3) stamp(3-5)] obtain st' out where
    st': "stampMsgCallback p d msg st = Some (st', out)" "mm_inv p st'" "send_frame st st'" by blast
  have "stores_small st'"
    using st(2) st'(3) same_store_length [OF send_frame_same [OF st'(3)]] by (simp add: stores_small_def send_frame_def)
  with stamp st' inv show ?thesis by simp
next
  case (chunk st m d)
  then have st: "mm_inv p st" "stores_small st" using inv by simp_all
  from chunkCallback_ok [OF st(1) chunk(3)] obtain st' where
    st': "chunkCallback m st = Some st'" "mm_inv p st'" "multi_map_chunks st' = multi_map_chunks st" "map_num st' = map_num st"
    by blast
  with chunk st inv show ?thesis by (simp add: stores_small_def)
next
  case (timer st d)
  then have "mm_inv p st" "fusion_inv p d" "stores_small st" using inv by simp_all
  from chunkTimerCallback_ok [OF prm this] timer show ?thesis by auto
qed



text \<open>Beyond that range the timer fails: a single message with an index from \<open>2^31\<close> on, negative as an \<open>int\<close>,
  adds no placeholder to a store that has fewer chunks, and is then inserted past the end of the store.\<close>

lemma huge_index_is_undefined:
  assumes "chunk_buffer st = [[m]]" "2 ^ 31 + int (length (chunks (multi_map_chunks st ! 0))) \<le> cd_idx m" "cd_idx m < 2 ^ 32"
  shows "chunkTimerCallback p st d = None"
proof -
  let ?cs = "chunks (multi_map_chunks st ! 0)"
  have neg: "to_int32 (cd_idx m) = cd_idx m - 2 ^ 32"
  proof -
    have "(cd_idx m + 2 ^ 31) mod 2 ^ 32 = (cd_idx m + 2 ^ 31 - 2 ^ 32) mod 2 ^ 32" by (rule minus_mod_self2 [symmetric])
    also have "\<dots> = cd_idx m + 2 ^ 31 - 2 ^ 32" using assms(2,3) by (intro mod_pos_pos_trivial) auto
    finally show ?thesis by (simp add: to_int32_def)
  qed
  have "to_int32 (to_int32 (cd_idx m) - int (length ?cs)) = to_int32 (cd_idx m) - int (length ?cs)"
    unfolding neg using assms(2,3) by (intro to_int32_id) auto
  then have "add_placeholders (to_int32 (cd_idx m)) ?cs = ?cs"
    unfolding add_placeholders_def Let_def neg using assms(3) by simp
  moreover have "vec_at ?cs ((cd_idx m - 1) mod 2 ^ 32) = None"
  proof -
    have "(cd_idx m - 1) mod 2 ^ 32 = cd_idx m - 1" using assms(2,3) by (intro mod_pos_pos_trivial) auto
    then show ?thesis using assms(2) by (simp add: vec_at_def)
  qed
  ultimately have "process_buffer p 0 (st, d, 0) = None"
    using assms(1) by (simp add: process_buffer_def insert_msg_def Let_def)
  then show ?thesis using assms(1) by (simp add: chunkTimerCallback_def)
qed

text \<open>C5: One exchange makes the receiver catch up: drone B announces what it has, drone A replies with what B
  misses, B takes the replies in and its timer inserts them. B then has every chunk A had of every drone
  (its own apart) beside what it had before, both stores keep their invariant, and the next announcement
  of B draws no reply.\<close>

theorem chunk_exchange_converges:
  assumes "fusion_params p caster"
    and "mm_inv p stA" "stores_small stA" "fusion_inv p dA" and "mm_inv p stB" "stores_small stB" "fusion_inv p dB"
    and "map_num stB = map_num stA" "mm_drone stB \<noteq> mm_drone stA" "mm_drone stA \<noteq> int (map_num stA)"
    and "3 / 10 \<le> now - last_chunk_stamp_time stA ! nat (mm_drone stB - 1)"
    and "\<forall>i < map_num stB. chunk_buffer stB ! i = []"
  shows "\<exists>stA' out stB1 stB' dB'. stampMsgCallback p dA (stampTimerCallback now stB) stA = Some (stA', out) \<and>
    for_each chunkCallback out stB = Some stB1 \<and> chunkTimerCallback p stB1 dB = Some (stB', dB') \<and>
    mm_inv p stA' \<and> mm_inv p stB' \<and> fusion_inv p dB' \<and>
    (\<forall>i < map_num stB. ids_of (idx_list (multi_map_chunks stB' ! i)) = ids_of (idx_list (multi_map_chunks stB ! i)) \<union>
       (if int i + 1 = mm_drone stB then {} else ids_of (idx_list (multi_map_chunks stA ! i)))) \<and>
    replies stA' (stampTimerCallback now stB') [0..int (map_num stA) - 1] = []"
  by (rule exchange_ok [OF assms])

lemma chunk_exchange_converges_witness:
  "\<exists>stA stA' out stB1 stB' dB'. updateMapChunk [1, 2, 3] (mm_init 1 3 2) = Some stA \<and>
    stampMsgCallback small_param small_data (stampTimerCallback 1 (mm_init 2 3 2)) stA = Some (stA', out) \<and>
    for_each chunkCallback out (mm_init 2 3 2) = Some stB1 \<and>
    chunkTimerCallback small_param stB1 small_data = Some (stB', dB') \<and>
    ids_of (idx_list (multi_map_chunks stB' ! 0)) = {1}"
proof -
  define stA where "stA = \<lparr>mm_drone = 1, map_num = 3, chunk_size = 2,
      multi_map_chunks = [\<lparr>chunks = [own_chunk [1, 2] 1], idx_list = [1, 1]\<rparr>, \<lparr>chunks = [], idx_list = []\<rparr>,
        \<lparr>chunks = [], idx_list = []\<rparr>], adr_buffer = [3], chunk_buffer = [[], [], []], buffer_map = [[], [], []],
      last_chunk_stamp_time = [0, 0, 0], chunk_boxes = replicate 3 \<lparr>cb_min = (0, 0, 0), cb_max = (0, 0, 0), cb_valid = False\<rparr>,
      remote_chunk_update = False, remote_chunk_insert_count = 0\<rparr>"
  have upd: "updateMapChunk [1, 2, 3] (mm_init 1 3 2) = Some stA"
    by (simp add: updateMapChunk_def mm_init_def stA_def cut_chunks.simps numeral_3_eq_3 own_chunk_def vec_at_def)
  have "\<exists>st'. updateMapChunk [1, 2, 3] (mm_init 1 3 2) = Some st' \<and> mm_inv small_param st'"
  proof -
    have "mm_inv small_param (mm_init 1 3 2)" by (rule mm_inv_init) auto
    moreover have "\<forall>a \<in> set [1, 2, 3]. adr_ok small_param a" by (simp add: adr_ok_def getVoxelNum_def small_param_def)
    moreover have "\<not> first_chunk_gap [1, 2, 3] (mm_init 1 3 2)" by (simp add: first_chunk_gap_def mm_init_def)
    ultimately show ?thesis using updateMapChunk_ok by blast
  qed
  with upd have A: "mm_inv small_param stA" by simp
  have B: "mm_inv small_param (mm_init 2 3 2)" by (rule mm_inv_init) auto
  have three: "i < 3 \<longleftrightarrow> i = 0 \<or> i = 1 \<or> i = (2 :: nat)" for i by auto
  have "stores_small stA" by (auto simp: stores_small_def stA_def three)
  moreover have "stores_small (mm_init 2 3 2)" by (auto simp: stores_small_def mm_init_def)
  moreover have "\<forall>i < map_num (mm_init 2 3 2). chunk_buffer (mm_init 2 3 2) ! i = []" by (simp add: mm_init_def)
  ultimately obtain stA' out stB1 stB' dB' where
    e: "stampMsgCallback small_param small_data (stampTimerCallback 1 (mm_init 2 3 2)) stA = Some (stA', out)"
      "for_each chunkCallback out (mm_init 2 3 2) = Some stB1"
      "chunkTimerCallback small_param stB1 small_data = Some (stB', dB')"
      "\<forall>i < map_num (mm_init 2 3 2). ids_of (idx_list (multi_map_chunks stB' ! i)) =
         ids_of (idx_list (multi_map_chunks (mm_init 2 3 2) ! i)) \<union>
         (if int i + 1 = mm_drone (mm_init 2 3 2) then {} else ids_of (idx_list (multi_map_chunks stA ! i)))"
    using chunk_exchange_converges [OF small_fusion_params A _ small_inv B _ small_inv, of 1]
    by (auto simp: stA_def mm_init_def)
  from e(4) [rule_format, of 0] have "ids_of (idx_list (multi_map_chunks stB' ! 0)) = {1}"
    by (simp add: mm_init_def stA_def)
  with e(1-3) upd show ?thesis by blast
qed

end
