(* ===== verification/Ray_Functions.thy ===== *)
theory Ray_Functions imports Ray_Caster
begin

text \<open>
  The two free functions \<open>Raycast\<close> of \<open>plan_env/src/raycast.cpp\<close>, which collect the cells of a ray
  that lie in a box. They share their loop with the class; the first writes into an array (large
  enough, as its caller promises), the second throws when it has collected more than 1500 cells. The
  lemmas show that both loops end and that every cell is one of the ray's.
\<close>

section \<open>The code\<close>

definition in_range :: "vec3 \<Rightarrow> vec3 \<Rightarrow> idx3 \<Rightarrow> bool" where
  "in_range lo hi i = (all3 (\<lambda>k l. of_int k \<ge> l) i lo \<and> all3 (\<lambda>k h. of_int k < h) i hi)"

definition squared_norm :: "vec3 \<Rightarrow> real" where
  "squared_norm v = (case v of (x, y, z) \<Rightarrow> x * x + y * y + z * z)"

text \<open>The common loop. \<open>far_of\<close> measures a collected cell, \<open>limit\<close> is the number of cells above which the
  second function throws (\<open>Inl\<close>), and \<open>None\<close> is a loop that does not end.\<close>

partial_function (option) raycast_loop ::
  "(idx3 \<Rightarrow> real) \<Rightarrow> real \<Rightarrow> nat option \<Rightarrow> vec3 \<Rightarrow> vec3 \<Rightarrow> RayCaster \<Rightarrow> idx3 list \<Rightarrow> (unit + idx3 list) option" where
  "raycast_loop far_of max_dist limit lo hi r acc =
     (let inside = in_range lo hi (ray_cur r);
          acc' = (if inside then acc @ [ray_cur r] else acc) in
      if inside \<and> far_of (ray_cur r) > max_dist then Some (Inr acc')
      else if inside \<and> (case limit of None \<Rightarrow> False | Some n \<Rightarrow> length acc' > n) then Some (Inl ())
      else if ray_cur r = ray_end r then Some (Inr acc')
      else raycast_loop far_of max_dist limit lo hi (ray_advance r) acc')"

text \<open>The first function; \<open>out\<close> are the cells the array holds already.\<close>

definition Raycast_array :: "RayCaster \<Rightarrow> vec3 \<Rightarrow> vec3 \<Rightarrow> vec3 \<Rightarrow> vec3 \<Rightarrow> idx3 list \<Rightarrow> (unit + idx3 list) option" where
  "Raycast_array r0 start fin lo hi out =
     (case ray_setInput start fin r0 of (moves, r) \<Rightarrow>
        if \<not> moves then Some (Inr out)
        else raycast_loop (\<lambda>i. sqrt (squared_norm (zip3 (\<lambda>k s. of_int k - s) i start)))
          (squared_norm (zip3 (-) fin start)) None lo hi r out)"

definition Raycast_vector :: "RayCaster \<Rightarrow> vec3 \<Rightarrow> vec3 \<Rightarrow> vec3 \<Rightarrow> vec3 \<Rightarrow> (unit + idx3 list) option" where
  "Raycast_vector r0 start fin lo hi =
     (case ray_setInput start fin r0 of (moves, r) \<Rightarrow>
        if \<not> moves then Some (Inr [])
        else raycast_loop (\<lambda>i. squared_norm (zip3 (\<lambda>k s. of_int k - s) i start))
          (squared_norm (zip3 (-) fin start)) (Some 1500) lo hi r [])"

section \<open>Both functions return\<close>

lemma raycast_loop_ok:
  assumes "ray_inv r"
  shows "\<exists>res. raycast_loop far_of maxd limit lo hi r acc = Some res \<and> (limit = None \<longrightarrow> (\<exists>cells. res = Inr cells)) \<and>
    (\<forall>cells. res = Inr cells \<longrightarrow> (\<exists>new. cells = acc @ new \<and> int (length new) \<le> manhattan (ray_cur r) (ray_end r) + 1 \<and>
       (\<forall>i \<in> set new. in_range lo hi i \<and> between3 (ray_cur r) (ray_end r) i)))"
  using assms
proof (induction "nat (manhattan (ray_cur r) (ray_end r))" arbitrary: r acc)
  case 0
  then have e: "ray_cur r = ray_end r" using manhattan_nonneg manhattan_eq_0 by (metis nat_0_iff order_antisym)
  let ?new = "if in_range lo hi (ray_cur r) then [ray_cur r] else []"
  have "int (length ?new) \<le> manhattan (ray_cur r) (ray_end r) + 1 \<and>
      (\<forall>i \<in> set ?new. in_range lo hi i \<and> between3 (ray_cur r) (ray_end r) i)"
    by (simp add: e between3_def)
  then show ?case
    unfolding raycast_loop.simps [of _ _ _ _ _ r] using e
    by (auto simp: Let_def split: option.splits if_splits)
next
  case (Suc n)
  then have ne: "ray_cur r \<noteq> ray_end r" by auto
  let ?r = "ray_advance r" and ?acc = "if in_range lo hi (ray_cur r) then acc @ [ray_cur r] else acc"
  note adv = ray_advance_ok [OF Suc.prems ne]
  have n: "n = nat (manhattan (ray_cur ?r) (ray_end ?r))" using Suc.hyps(2) adv(3,4) by simp
  have tri: "between3 (ray_cur r) (ray_end r) i" if "between3 (ray_cur ?r) (ray_end ?r) i" for i
    using that adv(2-4) manhattan_triangle [of "ray_cur r" i "ray_cur ?r"]
      manhattan_triangle [of "ray_cur r" "ray_end r" i] by (simp add: between3_def)
  from Suc.hyps(1) [OF n adv(1), of ?acc] obtain res where
    IH: "raycast_loop far_of maxd limit lo hi ?r ?acc = Some res" "limit = None \<longrightarrow> (\<exists>cells. res = Inr cells)"
      "\<forall>cells. res = Inr cells \<longrightarrow> (\<exists>new. cells = ?acc @ new \<and>
        int (length new) \<le> manhattan (ray_cur ?r) (ray_end ?r) + 1 \<and>
        (\<forall>i \<in> set new. in_range lo hi i \<and> between3 (ray_cur ?r) (ray_end ?r) i))" by blast
  have here: "between3 (ray_cur r) (ray_end r) (ray_cur r)" by (simp add: between3_def)
  have pos: "0 \<le> manhattan (ray_cur r) (ray_end r)" by (rule manhattan_nonneg)
  consider (far) "in_range lo hi (ray_cur r)" "far_of (ray_cur r) > maxd"
    | (many) m where "in_range lo hi (ray_cur r)" "\<not> far_of (ray_cur r) > maxd" "limit = Some m" "length ?acc > m"
    | (on) "\<not> (in_range lo hi (ray_cur r) \<and> far_of (ray_cur r) > maxd)"
        "\<not> (in_range lo hi (ray_cur r) \<and> (case limit of None \<Rightarrow> False | Some m \<Rightarrow> length ?acc > m))"
    by (cases limit) auto
  then show ?case
  proof cases
    case far
    with here pos show ?thesis
      unfolding raycast_loop.simps [of _ _ _ _ _ r]
      by (intro exI [of _ "Inr (acc @ [ray_cur r])"]) (simp add: Let_def)
  next
    case many
    then show ?thesis
      unfolding raycast_loop.simps [of _ _ _ _ _ r]
      by (intro exI [of _ "Inl ()"]) (simp add: Let_def)
  next
    case on
    have "raycast_loop far_of maxd limit lo hi r acc = Some res"
      unfolding raycast_loop.simps [of _ _ _ _ _ r] Let_def using on ne IH(1) by (auto split: if_splits)
    moreover have "\<exists>new. cells = acc @ new \<and> int (length new) \<le> manhattan (ray_cur r) (ray_end r) + 1 \<and>
       (\<forall>i \<in> set new. in_range lo hi i \<and> between3 (ray_cur r) (ray_end r) i)" if "res = Inr cells" for cells
    proof -
      from IH(3) that obtain new where new: "cells = ?acc @ new"
        "int (length new) \<le> manhattan (ray_cur ?r) (ray_end ?r) + 1"
        "\<forall>i \<in> set new. in_range lo hi i \<and> between3 (ray_cur ?r) (ray_end ?r) i" by blast
      with tri here adv(3,4) show ?thesis
        by (intro exI [of _ "(if in_range lo hi (ray_cur r) then [ray_cur r] else []) @ new"]) auto
    qed
    ultimately show ?thesis using IH(2) by blast
  qed
qed

lemma Raycast_returns:
  "\<exists>cells. Raycast_array r0 start fin lo hi out = Some (Inr (out @ cells)) \<and>
     int (length cells) \<le> manhattan (map3 floor start) (map3 floor fin) + 1 \<and>
     (\<forall>i \<in> set cells. in_range lo hi i \<and> between3 (map3 floor start) (map3 floor fin) i)"
  "\<exists>res. Raycast_vector r0 start fin lo hi = Some res \<and> (\<forall>cells. res = Inr cells \<longrightarrow>
     int (length cells) \<le> manhattan (map3 floor start) (map3 floor fin) + 1 \<and>
     (\<forall>i \<in> set cells. in_range lo hi i \<and> between3 (map3 floor start) (map3 floor fin) i))"
proof -
  obtain moves r where r: "ray_setInput start fin r0 = (moves, r)" by (metis prod.collapse)
  have inv: "ray_inv r" using ray_setInput_inv [of start fin r0] by (simp add: r)
  have ends: "ray_cur r = map3 floor start" "ray_end r = map3 floor fin"
    using r by (auto simp: ray_setInput_def Let_def)
  have nn: "0 \<le> manhattan (map3 floor start) (map3 floor fin)" by (rule manhattan_nonneg)
  show "\<exists>cells. Raycast_array r0 start fin lo hi out = Some (Inr (out @ cells)) \<and>
     int (length cells) \<le> manhattan (map3 floor start) (map3 floor fin) + 1 \<and>
     (\<forall>i \<in> set cells. in_range lo hi i \<and> between3 (map3 floor start) (map3 floor fin) i)"
    using raycast_loop_ok [OF inv, of "\<lambda>i. sqrt (squared_norm (zip3 (\<lambda>k s. of_int k - s) i start))"
        "squared_norm (zip3 (-) fin start)" None lo hi out] nn
    by (cases moves) (fastforce simp: Raycast_array_def r ends)+
  show "\<exists>res. Raycast_vector r0 start fin lo hi = Some res \<and> (\<forall>cells. res = Inr cells \<longrightarrow>
     int (length cells) \<le> manhattan (map3 floor start) (map3 floor fin) + 1 \<and>
     (\<forall>i \<in> set cells. in_range lo hi i \<and> between3 (map3 floor start) (map3 floor fin) i))"
    using raycast_loop_ok [OF inv, of "\<lambda>i. squared_norm (zip3 (\<lambda>k s. of_int k - s) i start)"
        "squared_norm (zip3 (-) fin start)" "Some 1500" lo hi "[]"] nn
    by (cases moves) (fastforce simp: Raycast_vector_def r ends)+
qed

end
