(* ===== verification/Transport_Phy.thy ===== *)
theory Transport_Phy imports Comm_Snapshot "HOL-Library.Product_Lexorder" "HOL-Library.Multiset"
begin

text \<open>
  The physics side of the network simulation: \<open>racer_real_phy_bridge_node\<close> answers each simulation step
  with the poses of the drones and releases the packets that the network has delivered, after their
  processing delay and unless they are too old; its loop is that of \<open>connector.hpp\<close>. The socket,
  compression and the protobuf library are not modelled: a step gets the parsed message. Doubles are
  reals, simulation times are \<open>uint64\<close> microseconds, and ROS time stamps are nanoseconds.
  \<open>std::sort\<close> leaves the order of equal packets open; the model takes the stable one.
\<close>

section \<open>State\<close>

record AgentSnapshot =
  sn_x :: real
  sn_y :: real
  sn_z :: real
  sn_vx :: real
  sn_vy :: real
  sn_vz :: real
  sn_heading :: real
  sn_stamp :: "64 word"
  sn_has_real_state :: bool

definition empty_snapshot :: AgentSnapshot where
  "empty_snapshot = \<lparr>sn_x = 0, sn_y = 0, sn_z = 0, sn_vx = 0, sn_vy = 0, sn_vz = 0, sn_heading = 0,
     sn_stamp = 0, sn_has_real_state = False\<rparr>"

record PendingDeliveredPacket =
  deliver_us :: "64 word"
  pd_rx_time_us :: "64 word"
  pd_dst_id :: "32 word"
  pd_src_id :: "32 word"
  pd_flow_id :: "32 word"
  pd_seq :: "32 word"
  wrapped_msg :: "8 word list"

record PhyConfig =
  phy_step_us :: "64 word"
  comm_processing_delay_us :: "64 word"
  comm_ttl_us :: "64 word"
  ignore_stale_agent_states :: bool

type_synonym snapshot_map = "(32 word \<times> AgentSnapshot) list"

record PhyState =
  phy_it :: "64 word"
  snapshots :: snapshot_map
  last_real_states_update :: "64 word"
  pending_delivered_packets :: "PendingDeliveredPacket list"
  pending_deliveries_dirty :: bool
  published_delivered_packets :: "64 word"
  dropped_delivered_packets :: "64 word"

text \<open>The ways the node stops: the configuration is rejected, or a batch of agent states is broken. A
  remainder by zero stops the process before its own check of the step size.\<close>

datatype phy_error = Division_by_zero | Invalid_step | Broken_batch | Time_out_of_range

definition ReadConfigFile_steps :: "32 word \<Rightarrow> 32 word \<Rightarrow> 64 word \<Rightarrow> phy_error + 64 word" where
  "ReadConfigFile_steps sync_window step_size_int phy_step =
     (if step_size_int = 0 then Inl Division_by_zero
      else if sync_window mod step_size_int \<noteq> 0 then Inl Invalid_step
      else if phy_step = 0 then Inl Invalid_step else Inr phy_step)"

section \<open>Poses of the drones\<close>

definition snapshot_of :: "32 word \<Rightarrow> snapshot_map \<Rightarrow> AgentSnapshot" where
  "snapshot_of k m = (case map_of m k of None \<Rightarrow> empty_snapshot | Some s \<Rightarrow> s)"

record InitialPose =
  ip_x :: real
  ip_y :: real
  ip_z :: real
  ip_heading :: "real option"

record InitialGrid =
  initial_spacing :: real
  initial_x :: real
  initial_y :: real
  initial_z :: real
  initial_heading :: real

definition pose_snapshot :: "InitialPose \<Rightarrow> AgentSnapshot" where
  "pose_snapshot p = empty_snapshot\<lparr>sn_x := ip_x p, sn_y := ip_y p, sn_z := ip_z p,
     sn_heading := (case ip_heading p of None \<Rightarrow> 0 | Some h \<Rightarrow> h)\<rparr>"

definition grid_snapshot :: "nat \<Rightarrow> InitialGrid \<Rightarrow> nat \<Rightarrow> AgentSnapshot" where
  "grid_snapshot robots_number g i =
     (let n_columns = max 1 \<lfloor>sqrt (real robots_number)\<rfloor>;
          n_rows = \<lceil>real robots_number / real_of_int n_columns\<rceil>;
          x0 = initial_x g - initial_spacing g * real_of_int (n_columns - 1) * 0.5;
          y0 = initial_y g - initial_spacing g * real_of_int (n_rows - 1) * 0.5;
          row = int i div n_columns; col = int i mod n_columns
      in empty_snapshot\<lparr>sn_x := x0 + initial_spacing g * real_of_int col,
           sn_y := y0 + initial_spacing g * real_of_int row, sn_z := initial_z g, sn_heading := initial_heading g\<rparr>)"

definition InitFallbackStates :: "nat \<Rightarrow> InitialPose list option \<Rightarrow> InitialGrid \<Rightarrow> snapshot_map" where
  "InitFallbackStates robots_number initial_positions g =
     (case initial_positions of
        Some ps \<Rightarrow>
          if length ps \<ge> robots_number then map (\<lambda>i. (of_nat i, pose_snapshot (ps ! i))) [0..<robots_number]
          else map (\<lambda>i. (of_nat i, grid_snapshot robots_number g i)) [0..<robots_number]
      | None \<Rightarrow> map (\<lambda>i. (of_nat i, grid_snapshot robots_number g i)) [0..<robots_number])"

record PhyAgentStruct =
  ags_agent_id :: "32 word"
  ags_position :: vector3
  ags_velocity :: vector3
  ags_heading :: real

definition agentStatesCallback :: "64 word \<Rightarrow> PhyAgentStruct list \<Rightarrow> PhyState \<Rightarrow> PhyState" where
  "agentStatesCallback now structs s =
     (if structs = [] then s
      else s\<lparr>snapshots := fold (\<lambda>a m. AList.update (ags_agent_id a)
                \<lparr>sn_x = vx (ags_position a), sn_y = vy (ags_position a), sn_z = vz (ags_position a),
                 sn_vx = vx (ags_velocity a), sn_vy = vy (ags_velocity a), sn_vz = vz (ags_velocity a),
                 sn_heading = ags_heading a, sn_stamp = now, sn_has_real_state = True\<rparr> m) structs (snapshots s),
             last_real_states_update := now\<rparr>)"

record AgentStateSample =
  smp_agent_id :: "32 word"
  smp_pos :: vector3
  smp_vel :: vector3
  smp_heading :: real
  smp_source_stamp_us :: "64 word"
  smp_has_real_state :: bool
  smp_is_fresh :: bool

text \<open>\<open>ros::Time::fromNSec\<close> throws when the seconds do not fit into 32 bits.\<close>

definition fromNSec :: "64 word \<Rightarrow> phy_error + 64 word" where
  "fromNSec t = (if t div 1000000000 > 4294967295 then Inl Time_out_of_range else Inr t)"

text \<open>One sample of a batch, with the number of samples applied.\<close>

definition apply_sample ::
  "bool \<Rightarrow> 64 word \<Rightarrow> AgentStateSample \<Rightarrow> snapshot_map \<times> nat \<Rightarrow> phy_error + snapshot_map \<times> nat" where
  "apply_sample ignore_stale now sample acc =
     (let (m, applied) = acc; usable = smp_has_real_state sample \<and> smp_is_fresh sample in
      if ignore_stale \<and> \<not> usable then
        Inr (case map_of m (smp_agent_id sample) of
               None \<Rightarrow> m
             | Some st \<Rightarrow> AList.update (smp_agent_id sample) (st\<lparr>sn_has_real_state := False\<rparr>) m, applied)
      else
        case (if smp_source_stamp_us sample > 0 then fromNSec (smp_source_stamp_us sample * 1000) else Inr now) of
          Inl e \<Rightarrow> Inl e
        | Inr stamp \<Rightarrow>
            Inr (AList.update (smp_agent_id sample)
              \<lparr>sn_x = vx (smp_pos sample), sn_y = vy (smp_pos sample), sn_z = vz (smp_pos sample),
               sn_vx = vx (smp_vel sample), sn_vy = vy (smp_vel sample), sn_vz = vz (smp_vel sample),
               sn_heading = smp_heading sample, sn_stamp = stamp, sn_has_real_state = smp_has_real_state sample\<rparr> m,
             applied + 1))"

fun apply_samples ::
  "bool \<Rightarrow> 64 word \<Rightarrow> AgentStateSample list \<Rightarrow> snapshot_map \<times> nat \<Rightarrow> phy_error + snapshot_map \<times> nat" where
  "apply_samples ignore_stale now [] acc = Inr acc"
| "apply_samples ignore_stale now (sample # ss) acc =
     (case apply_sample ignore_stale now sample acc of
        Inl e \<Rightarrow> Inl e
      | Inr acc' \<Rightarrow> apply_samples ignore_stale now ss acc')"

text \<open>A compressed field of an update: empty, not to be decompressed or parsed, or its content.\<close>

datatype 'a payload = Absent | Broken | Parsed 'a

definition UpdateSnapshotsFromAgentStateBatch ::
  "PhyConfig \<Rightarrow> 64 word \<Rightarrow> AgentStateSample list payload \<Rightarrow> PhyState \<Rightarrow> phy_error + PhyState" where
  "UpdateSnapshotsFromAgentStateBatch cfg now batch s =
     (case batch of
        Absent \<Rightarrow> Inr s
      | Broken \<Rightarrow> Inl Broken_batch
      | Parsed samples \<Rightarrow>
          (case apply_samples (ignore_stale_agent_states cfg) now samples (snapshots s, 0) of
             Inl e \<Rightarrow> Inl e
           | Inr (m, applied) \<Rightarrow>
               Inr (s\<lparr>snapshots := m,
                      last_real_states_update := (if applied > 0 then now else last_real_states_update s)\<rparr>)))"

section \<open>Delivered packets\<close>

definition DeliveryOrder :: "PendingDeliveredPacket \<Rightarrow> PendingDeliveredPacket \<Rightarrow> bool" where
  "DeliveryOrder lhs rhs =
     (if deliver_us lhs \<noteq> deliver_us rhs then deliver_us lhs < deliver_us rhs
      else if pd_rx_time_us lhs \<noteq> pd_rx_time_us rhs then pd_rx_time_us lhs < pd_rx_time_us rhs
      else if pd_dst_id lhs \<noteq> pd_dst_id rhs then pd_dst_id lhs < pd_dst_id rhs
      else if pd_src_id lhs \<noteq> pd_src_id rhs then pd_src_id lhs < pd_src_id rhs
      else if pd_flow_id lhs \<noteq> pd_flow_id rhs then pd_flow_id lhs < pd_flow_id rhs
      else pd_seq lhs < pd_seq rhs)"

definition SaturatedAdd :: "64 word \<Rightarrow> 64 word \<Rightarrow> 64 word" where
  "SaturatedAdd lhs rhs = (if lhs > - 1 - rhs then - 1 else lhs + rhs)"

definition CurrentStepEndSimUs :: "PhyConfig \<Rightarrow> PhyState \<Rightarrow> 64 word" where
  "CurrentStepEndSimUs cfg s = phy_step_us cfg * (phy_it s + 1)"

record DeliveredPacket =
  dp_rx_time_us :: "64 word"
  dp_dst_id :: "32 word"
  dp_src_id :: "32 word"
  dp_flow_id :: "32 word"
  dp_seq :: "32 word"
  dp_wrapped_msg :: "8 word list"

definition pending_of :: "PhyConfig \<Rightarrow> DeliveredPacket \<Rightarrow> PendingDeliveredPacket" where
  "pending_of cfg p =
     \<lparr>deliver_us = SaturatedAdd (dp_rx_time_us p) (comm_processing_delay_us cfg), pd_rx_time_us = dp_rx_time_us p,
      pd_dst_id = dp_dst_id p, pd_src_id = dp_src_id p, pd_flow_id = dp_flow_id p, pd_seq = dp_seq p,
      wrapped_msg = dp_wrapped_msg p\<rparr>"

definition IngestDeliveredSwarmPackets :: "PhyConfig \<Rightarrow> DeliveredPacket list payload \<Rightarrow> PhyState \<Rightarrow> PhyState" where
  "IngestDeliveredSwarmPackets cfg batch s =
     (case batch of
        Absent \<Rightarrow> s
      | Broken \<Rightarrow> s
      | Parsed packets \<Rightarrow>
          s\<lparr>pending_delivered_packets := pending_delivered_packets s @
               map (pending_of cfg) (filter (\<lambda>p. dp_wrapped_msg p \<noteq> []) packets),
            pending_deliveries_dirty := (packets \<noteq> [] \<or> pending_deliveries_dirty s)\<rparr>)"

definition packet_expired :: "PhyConfig \<Rightarrow> 64 word \<Rightarrow> PendingDeliveredPacket \<Rightarrow> bool" where
  "packet_expired cfg step_end_us p \<longleftrightarrow>
     comm_ttl_us cfg > 0 \<and> step_end_us > pd_rx_time_us p \<and> step_end_us - pd_rx_time_us p > comm_ttl_us cfg"

text \<open>The loop over the sorted packets: the published ones, the dropped ones, and the rest.\<close>

fun release_loop :: "PhyConfig \<Rightarrow> 64 word \<Rightarrow> PendingDeliveredPacket list \<Rightarrow>
    PendingDeliveredPacket list \<times> PendingDeliveredPacket list \<times> PendingDeliveredPacket list" where
  "release_loop cfg step_end_us [] = ([], [], [])"
| "release_loop cfg step_end_us (p # ps) =
     (if deliver_us p \<le> step_end_us then
        let (published, dropped, rest) = release_loop cfg step_end_us ps in
        if packet_expired cfg step_end_us p then (published, p # dropped, rest) else (p # published, dropped, rest)
      else ([], [], p # ps))"

definition ReleaseDeliveredPacketsUpTo ::
  "PhyConfig \<Rightarrow> 64 word \<Rightarrow> PhyState \<Rightarrow> PhyState \<times> PendingDeliveredPacket list" where
  "ReleaseDeliveredPacketsUpTo cfg step_end_us s =
     (if pending_delivered_packets s = [] then (s, [])
      else
        let ps = (if pending_deliveries_dirty s then sort_by DeliveryOrder (pending_delivered_packets s)
                  else pending_delivered_packets s);
            (published, dropped, rest) = release_loop cfg step_end_us ps
        in (s\<lparr>pending_deliveries_dirty := False, pending_delivered_packets := rest,
              published_delivered_packets := published_delivered_packets s + of_nat (length published),
              dropped_delivered_packets := dropped_delivered_packets s + of_nat (length dropped)\<rparr>, published))"

section \<open>Steps\<close>

record RobotPose =
  rp_agent_id :: "32 word"
  rp_pos :: vector3
  rp_vel :: vector3
  rp_qx :: real
  rp_qy :: real
  rp_qz :: real
  rp_qw :: real

text \<open>The poses in the answer, in the order of the map.\<close>

definition robot_pose :: "32 word \<times> AgentSnapshot \<Rightarrow> RobotPose" where
  "robot_pose kv =
     (let (agent_id, st) = kv; half_heading = 0.5 * sn_heading st in
      \<lparr>rp_agent_id = agent_id, rp_pos = \<lparr>vx = sn_x st, vy = sn_y st, vz = sn_z st\<rparr>,
       rp_vel = \<lparr>vx = sn_vx st, vy = sn_vy st, vz = sn_vz st\<rparr>,
       rp_qx = 0, rp_qy = 0, rp_qz = sin half_heading, rp_qw = cos half_heading\<rparr>)"

definition GenerateResponseProtobuf :: "PhyState \<Rightarrow> RobotPose list" where
  "GenerateResponseProtobuf s = map robot_pose (sort_key fst (snapshots s))"

record PhyUpdate =
  up_close :: bool
  up_agent_states :: "AgentStateSample list payload"
  up_delivered :: "DeliveredPacket list payload"

definition phy_StepSimulation ::
  "PhyConfig \<Rightarrow> 64 word \<Rightarrow> PhyUpdate \<Rightarrow> PhyState \<Rightarrow> phy_error + PhyState \<times> PendingDeliveredPacket list \<times> RobotPose list" where
  "phy_StepSimulation cfg now up s =
     (case UpdateSnapshotsFromAgentStateBatch cfg now (up_agent_states up) s of
        Inl e \<Rightarrow> Inl e
      | Inr s1 \<Rightarrow>
          let s2 = IngestDeliveredSwarmPackets cfg (up_delivered up) s1;
              (s3, published) = ReleaseDeliveredPacketsUpTo cfg (CurrentStepEndSimUs cfg s2) s2
          in Inr (s3, published, GenerateResponseProtobuf s3))"

text \<open>The loop of the connector, over the updates that arrive and the clock at each. It ends at a
  message to close; what was published and answered is listed per step.\<close>

fun phy_Loop :: "PhyConfig \<Rightarrow> (64 word \<times> PhyUpdate) list \<Rightarrow> PhyState \<Rightarrow>
    phy_error + PhyState \<times> (PendingDeliveredPacket list \<times> RobotPose list) list" where
  "phy_Loop cfg [] s = Inr (s, [])"
| "phy_Loop cfg ((now, up) # ups) s =
     (if up_close up then Inr (s, [])
      else case phy_StepSimulation cfg now up s of
        Inl e \<Rightarrow> Inl e
      | Inr (s', published, poses) \<Rightarrow>
          (case phy_Loop cfg ups (s'\<lparr>phy_it := phy_it s' + 1\<rparr>) of
             Inl e \<Rightarrow> Inl e
           | Inr (s'', outs) \<Rightarrow> Inr (s'', (published, poses) # outs)))"

definition phy_init :: "nat \<Rightarrow> InitialPose list option \<Rightarrow> InitialGrid \<Rightarrow> PhyState" where
  "phy_init robots_number initial_positions g =
     \<lparr>phy_it = 0, snapshots = InitFallbackStates robots_number initial_positions g, last_real_states_update = 0,
      pending_delivered_packets = [], pending_deliveries_dirty = False,
      published_delivered_packets = 0, dropped_delivered_packets = 0\<rparr>"

section \<open>The pose publisher\<close>

text \<open>\<open>racer_phy_connector_node\<close> sends the odometry of one drone as a pose with the platform id.\<close>

record PhyOdometry =
  odom_pos :: vector3
  odom_quat :: "real \<times> real \<times> real \<times> real"
  odom_twist :: vector3

definition phy_odomCallback :: "int \<Rightarrow> PhyOdometry \<Rightarrow> RobotPose list" where
  "phy_odomCallback platform_id msg =
     (case odom_quat msg of (x, y, z, w) \<Rightarrow>
        [\<lparr>rp_agent_id = word_of_int platform_id, rp_pos = odom_pos msg, rp_vel = odom_twist msg,
          rp_qx = x, rp_qy = y, rp_qz = z, rp_qw = w\<rparr>])"

end
