(* ===== verification/Transport_Coordinator.thy ===== *)
theory Transport_Coordinator imports Transport_Phy
begin

text \<open>
  The coordinator of the simulators (\<open>coordinator/src/coordinator.cpp\<close>): it samples the states of the
  drones, sends them to the network simulator (NET) and the physics bridge (PHY), passes the packets the
  network delivered to the bridge, and advances the clock, in lockstep. The network simulator is an
  input, its answer at each step; the bridge is the model of \<open>Transport_Phy\<close>. Sockets, compression,
  metrics, tracing and pacing are left out. PhyOdometry callbacks hold the lock of the cache, so they come
  between the samples. Simulation time is \<open>ros::Time\<close>, kept as nanoseconds; the step converts to a \<open>ros::Duration\<close> without rounding error.
\<close>

section \<open>Parameters\<close>

record CoordParams =
  step_size_us :: "64 word"
  id_offset :: int
  agent_state_max_age_us :: "64 word"
  agent_state_future_tolerance_us :: "64 word"

datatype coord_error =
    Coord_division_by_zero
  | Bad_steps
  | Net_not_end
  | Bad_delivered_batch
  | Phy_failed phy_error

definition check_steps :: "bool \<Rightarrow> 32 word \<Rightarrow> 32 word \<Rightarrow> 32 word \<Rightarrow> coord_error + 64 word" where
  "check_steps strict_lockstep sync_window phy_step_size net_step_size =
     (if strict_lockstep then
        if \<not> (sync_window = phy_step_size \<and> sync_window = net_step_size) then Inl Bad_steps else Inr (ucast sync_window)
      else if phy_step_size = 0 then Inl Coord_division_by_zero
      else if sync_window mod phy_step_size \<noteq> 0 then Inl Bad_steps
      else if net_step_size = 0 then Inl Coord_division_by_zero
      else if sync_window mod net_step_size \<noteq> 0 then Inl Bad_steps
      else Inr (ucast sync_window))"

text \<open>The defaults of the age limits, and their use of the parameters.\<close>

definition default_max_age :: "64 word \<Rightarrow> int" where
  "default_max_age step = sint (ucast (max (step * 25) 250000) :: 32 word)"

definition default_future_tolerance :: "64 word \<Rightarrow> int" where
  "default_future_tolerance step = sint (ucast (max step 1000) :: 32 word)"

definition age_limit :: "int \<Rightarrow> 64 word" where
  "age_limit p = word_of_int (max 0 p)"

text \<open>The ids in a comma-separated list. An item that is not a number makes \<open>std::stoi\<close> throw:
  \<open>stoi\<close> is its result on an item.\<close>

fun split_comma :: "string \<Rightarrow> string list" where
  "split_comma [] = []"
| "split_comma (c # cs) =
     (if c = CHR '','' then [] # split_comma cs
      else case split_comma cs of [] \<Rightarrow> [[c]] | item # items \<Rightarrow> (c # item) # items)"

fun ParseCsvInts_items :: "(string \<Rightarrow> int option) \<Rightarrow> string list \<Rightarrow> int list option" where
  "ParseCsvInts_items stoi [] = Some []"
| "ParseCsvInts_items stoi (item # items) =
     (let item' = filter (\<lambda>c. \<not> isspace c) item in
      if item' = [] then ParseCsvInts_items stoi items
      else case stoi item' of
        None \<Rightarrow> None
      | Some v \<Rightarrow> map_option (\<lambda>vs. v # vs) (ParseCsvInts_items stoi items))"

definition ParseCsvInts :: "(string \<Rightarrow> int option) \<Rightarrow> string \<Rightarrow> int list option" where
  "ParseCsvInts stoi csv = ParseCsvInts_items stoi (split_comma csv)"

section \<open>States of the drones\<close>

record CachedAgentState =
  ca_x :: real
  ca_y :: real
  ca_z :: real
  ca_vx :: real
  ca_vy :: real
  ca_vz :: real
  ca_heading :: real
  ca_source_stamp_us :: "64 word"
  ca_has_real_state :: bool

record AgentStateFreshness =
  has_real_state_source :: bool
  is_fresh :: bool
  age_us :: "64 word"

definition EvaluateAgentStateFreshness :: "CoordParams \<Rightarrow> CachedAgentState \<Rightarrow> 64 word \<Rightarrow> AgentStateFreshness" where
  "EvaluateAgentStateFreshness cp st t_sample_us =
     (if \<not> (ca_has_real_state st \<and> ca_source_stamp_us st > 0) then
        \<lparr>has_real_state_source = False, is_fresh = False, age_us = 0\<rparr>
      else if ca_source_stamp_us st > t_sample_us then
        let lead_us = ca_source_stamp_us st - t_sample_us in
        \<lparr>has_real_state_source = True, is_fresh = lead_us \<le> agent_state_future_tolerance_us cp, age_us = lead_us\<rparr>
      else
        let age = t_sample_us - ca_source_stamp_us st in
        \<lparr>has_real_state_source = True, is_fresh = age \<le> agent_state_max_age_us cp, age_us = age\<rparr>)"

text \<open>The heading of a quaternion \<open>(x, y, z, w)\<close>.\<close>

definition HeadingFromQuaternion :: "real \<times> real \<times> real \<times> real \<Rightarrow> real" where
  "HeadingFromQuaternion q = (case q of (x, y, z, w) \<Rightarrow> atan2 (2 * (w * z + x * y)) (1 - 2 * (y * y + z * z)))"

definition ToUs :: "64 word \<Rightarrow> 64 word" where
  "ToUs stamp_ns = stamp_ns div 1000"

type_synonym agent_cache = "(32 word \<times> CachedAgentState) list"

definition cached_of_snapshot :: "AgentSnapshot \<Rightarrow> CachedAgentState" where
  "cached_of_snapshot s = \<lparr>ca_x = sn_x s, ca_y = sn_y s, ca_z = sn_z s, ca_vx = sn_vx s, ca_vy = sn_vy s, ca_vz = sn_vz s,
     ca_heading = sn_heading s, ca_source_stamp_us = 0, ca_has_real_state = False\<rparr>"

text \<open>The coordinator initialises its cache as the bridge does.\<close>

definition coord_InitFallbackStates :: "nat \<Rightarrow> InitialPose list option \<Rightarrow> InitialGrid \<Rightarrow> agent_cache" where
  "coord_InitFallbackStates robots_number initial_positions g =
     map (\<lambda>(i, s). (i, cached_of_snapshot s)) (InitFallbackStates robots_number initial_positions g)"

definition OdomCallback :: "CoordParams \<Rightarrow> PhyOdometry \<Rightarrow> 64 word \<Rightarrow> int \<Rightarrow> agent_cache \<Rightarrow> agent_cache" where
  "OdomCallback cp msg stamp_ns racer_id cache =
     (let platform_id_signed = racer_id + id_offset cp in
      if platform_id_signed < 0 then cache
      else AList.update (word_of_int platform_id_signed)
        \<lparr>ca_x = vx (odom_pos msg), ca_y = vy (odom_pos msg), ca_z = vz (odom_pos msg),
         ca_vx = vx (odom_twist msg), ca_vy = vy (odom_twist msg), ca_vz = vz (odom_twist msg),
         ca_heading = HeadingFromQuaternion (odom_quat msg), ca_source_stamp_us = ToUs stamp_ns,
         ca_has_real_state = True\<rparr> cache)"

definition sample_of :: "CoordParams \<Rightarrow> 64 word \<Rightarrow> 32 word \<times> CachedAgentState \<Rightarrow> AgentStateSample" where
  "sample_of cp t_sample_us e =
     (let (agent_id, st) = e; freshness = EvaluateAgentStateFreshness cp st t_sample_us in
      \<lparr>smp_agent_id = agent_id, smp_pos = \<lparr>vx = ca_x st, vy = ca_y st, vz = ca_z st\<rparr>,
       smp_vel = \<lparr>vx = ca_vx st, vy = ca_vy st, vz = ca_vz st\<rparr>, smp_heading = ca_heading st,
       smp_source_stamp_us = ca_source_stamp_us st, smp_has_real_state = has_real_state_source freshness,
       smp_is_fresh = is_fresh freshness\<rparr>)"

definition BuildAgentStates :: "CoordParams \<Rightarrow> 64 word \<Rightarrow> agent_cache \<Rightarrow> AgentStateSample list" where
  "BuildAgentStates cp t_sample_us cache = map (sample_of cp t_sample_us) (sort_key fst cache)"

section \<open>Batches of packets\<close>

record DeliveredBatch =
  t_window_start_us :: "64 word"
  t_window_end_us :: "64 word"
  batch_packets :: "DeliveredPacket list"

text \<open>The accumulator has the earliest start, the latest end and the packets.\<close>

fun merge_batches :: "DeliveredBatch payload list \<Rightarrow> 64 word \<times> 64 word \<times> DeliveredPacket list \<Rightarrow>
    coord_error + 64 word \<times> 64 word \<times> DeliveredPacket list" where
  "merge_batches [] acc = Inr acc"
| "merge_batches (b # bs) (lo, hi, ps) =
     (case b of
        Absent \<Rightarrow> merge_batches bs (lo, hi, ps)
      | Broken \<Rightarrow> Inl Bad_delivered_batch
      | Parsed d \<Rightarrow> merge_batches bs
          (min lo (t_window_start_us d), max hi (t_window_end_us d), ps @ batch_packets d))"

definition MergeDeliveredBatches :: "DeliveredBatch payload list \<Rightarrow> coord_error + DeliveredBatch payload" where
  "MergeDeliveredBatches batches =
     (if batches = [] then Inr Absent
      else case merge_batches batches (- 1, 0, []) of
        Inl e \<Rightarrow> Inl e
      | Inr (lo, hi, ps) \<Rightarrow>
          Inr (if ps = [] then Absent
               else Parsed \<lparr>t_window_start_us = (if lo = - 1 then 0 else lo), t_window_end_us = hi, batch_packets = ps\<rparr>))"

section \<open>Lockstep\<close>

text \<open>The answer of the network simulator: an empty one counts as \<open>END\<close> without content.\<close>

datatype net_answer = Empty_answer | Answer bool "DeliveredBatch payload"

definition net_RoundTrip :: "net_answer \<Rightarrow> coord_error + DeliveredBatch payload" where
  "net_RoundTrip answer =
     (case answer of
        Empty_answer \<Rightarrow> Inr Absent
      | Answer msg_type_end delivered \<Rightarrow> if msg_type_end then Inr delivered else Inl Net_not_end)"

definition net_step :: "net_answer \<Rightarrow> coord_error + DeliveredBatch payload" where
  "net_step answer =
     (case net_RoundTrip answer of
        Inl e \<Rightarrow> Inl e
      | Inr delivered \<Rightarrow> if delivered = Absent then Inr Absent else MergeDeliveredBatches [delivered])"

record CoordState =
  current_sim_time :: "64 word"
  step_idx :: "64 word"
  cached_agent_states :: agent_cache

definition map_payload :: "('a \<Rightarrow> 'b) \<Rightarrow> 'a payload \<Rightarrow> 'b payload" where
  "map_payload f p = (case p of Absent \<Rightarrow> Absent | Broken \<Rightarrow> Broken | Parsed x \<Rightarrow> Parsed (f x))"

text \<open>The request to the bridge.\<close>

definition phy_request :: "AgentStateSample list \<Rightarrow> DeliveredBatch payload \<Rightarrow> PhyUpdate" where
  "phy_request samples merged =
     \<lparr>up_close = False, up_agent_states = Parsed samples, up_delivered = map_payload batch_packets merged\<rparr>"

text \<open>What comes in during a step: odometry (message, stamp, drone), the answer of the network, and the
  clock of the bridge.\<close>

record StepInput =
  in_odom :: "(PhyOdometry \<times> 64 word \<times> int) list"
  in_net :: net_answer
  in_clock :: "64 word"

definition sim_ended :: "64 word \<Rightarrow> CoordState \<Rightarrow> bool" where
  "sim_ended simulation_length cs \<longleftrightarrow> \<not> (current_sim_time cs < simulation_length \<or> simulation_length = 0)"

definition lockstep ::
  "CoordParams \<Rightarrow> PhyConfig \<Rightarrow> StepInput \<Rightarrow> CoordState \<times> PhyState \<Rightarrow>
     coord_error + (CoordState \<times> PhyState) \<times> PendingDeliveredPacket list" where
  "lockstep cp cfg inp st =
     (let (cs, ph) = st;
          cache = fold (\<lambda>(msg, stamp, racer_id). OdomCallback cp msg stamp racer_id) (in_odom inp) (cached_agent_states cs);
          samples = BuildAgentStates cp (ToUs (current_sim_time cs)) cache
      in case net_step (in_net inp) of
        Inl e \<Rightarrow> Inl e
      | Inr merged \<Rightarrow>
          (case phy_StepSimulation cfg (in_clock inp) (phy_request samples merged) ph of
             Inl e \<Rightarrow> Inl (Phy_failed e)
           | Inr (ph', published, poses) \<Rightarrow>
               Inr ((cs\<lparr>current_sim_time := current_sim_time cs + step_size_us cp * 1000, step_idx := step_idx cs + 1,
                        cached_agent_states := cache\<rparr>,
                     ph'\<lparr>phy_it := phy_it ph' + 1\<rparr>), published)))"

fun RunStrictLockstep ::
  "CoordParams \<Rightarrow> PhyConfig \<Rightarrow> 64 word \<Rightarrow> StepInput list \<Rightarrow> CoordState \<times> PhyState \<Rightarrow>
     coord_error + (CoordState \<times> PhyState) \<times> PendingDeliveredPacket list list" where
  "RunStrictLockstep cp cfg simulation_length [] st = Inr (st, [])"
| "RunStrictLockstep cp cfg simulation_length (inp # inps) st =
     (if sim_ended simulation_length (fst st) then Inr (st, [])
      else case lockstep cp cfg inp st of
        Inl e \<Rightarrow> Inl e
      | Inr (st', published) \<Rightarrow>
          (case RunStrictLockstep cp cfg simulation_length inps st' of
             Inl e \<Rightarrow> Inl e
           | Inr (st'', outs) \<Rightarrow> Inr (st'', published # outs)))"

definition coord_init :: "nat \<Rightarrow> InitialPose list option \<Rightarrow> InitialGrid \<Rightarrow> CoordState" where
  "coord_init robots_number initial_positions g =
     \<lparr>current_sim_time = 0, step_idx = 0,
      cached_agent_states = coord_InitFallbackStates robots_number initial_positions g\<rparr>"

end
