(* ===== verification/Transport_Bridges.thy ===== *)
theory Transport_Bridges imports Comm_Links
begin

text \<open>
  The transport of the swarm messages (\<open>relay_racer_integration/src\<close>): \<open>racer_msg_tx_bridge_node\<close>
  wraps the messages of a drone, \<open>racer_msg_relay_forwarder_node\<close> forwards them at a relay,
  \<open>racer_msg_rx_bridge_node\<close> unwraps them at the receiver, and \<open>racer_topic_router_node\<close> is the
  bypass without a network. The protobuf library is not modelled: a callback gets the parsed wrapper,
  \<open>None\<close> if parsing fails. A parsed ROS message is the record of its type and bytes. Tracing is left
  out. Wall times are \<open>uint64\<close> microseconds; a handler reads the clock twice, once to prune its cache.
\<close>

section \<open>Names of topics and keys\<close>

definition send_topic :: "string \<Rightarrow> int \<Rightarrow> string" where
  "send_topic base src_id = base @ ''_send_'' @ to_string_int src_id"

definition recv_topic :: "string \<Rightarrow> int \<Rightarrow> string" where
  "recv_topic base dst_id = base @ ''_recv_'' @ to_string_int dst_id"

text \<open>\<open>loadDroneIds\<close>: the parameter \<open>drone_ids\<close>, or consecutive ids.\<close>

definition tx_loadDroneIds :: "int list \<Rightarrow> int \<Rightarrow> int \<Rightarrow> int list" where
  "tx_loadDroneIds drone_ids_param drone_num first_drone_id =
     (if drone_ids_param \<noteq> [] then drone_ids_param else map (\<lambda>i. first_drone_id + i) [0..drone_num - 1])"

section \<open>Wrapped messages\<close>

record RosMessage =
  ros_datatype :: string
  ros_md5 :: string
  ros_msg_def :: string
  ros_payload :: "8 word list"

record RacerSwarmMsg =
  wm_family :: string
  wm_src_id :: "32 word"
  wm_dst_id :: "32 word"
  wm_bridge_seq :: "64 word"
  wm_stamp_us :: "64 word"
  wm_ros :: RosMessage
  wm_ros_latching :: string
  wm_network_tx_id :: "32 word"
  wm_relay_hop_count :: "32 word"
  wm_max_relay_hops :: "32 word"
  wm_transport_priority :: "32 word"

section \<open>Sending\<close>

definition tx_families :: "(string \<times> string) list" where
  "tx_families =
     [(''drone_state'', ''/swarm_expl/drone_state''), (''pair_opt'', ''/swarm_expl/pair_opt''),
      (''pair_opt_res'', ''/swarm_expl/pair_opt_res''), (''swarm_traj'', ''/planning/swarm_traj''),
      (''chunk_stamps'', ''/multi_map_manager/chunk_stamps''), (''chunk_data'', ''/multi_map_manager/chunk_data''),
      (''relay_peer_state'', ''/relay_integration/relay_peer_state''),
      (''relay_proposal'', ''/relay_integration/relay_proposal''),
      (''relay_task_state'', ''/relay_integration/relay_task_state''),
      (''component_state'', ''/swarm_expl/component_state''),
      (''allocation_request'', ''/swarm_expl/allocation_request''),
      (''assignment_plan'', ''/swarm_expl/assignment_plan''), (''assignment_ack'', ''/swarm_expl/assignment_ack''),
      (''assignment_commit'', ''/swarm_expl/assignment_commit''), (''release_request'', ''/swarm_expl/release_request'')]"

text \<open>The subscriptions: the topic, and the arguments bound to its callback.\<close>

definition tx_subscriptions :: "int list \<Rightarrow> (string \<times> int \<times> string) list" where
  "tx_subscriptions drone_ids = concat (map (\<lambda>(family, base).
     map (\<lambda>src_id. (send_topic base src_id, src_id, family)) drone_ids) tx_families)"

definition transportPriorityForFamily :: "string \<Rightarrow> 32 word" where
  "transportPriorityForFamily family =
     (if family = ''chunk_data'' then 0 else if family = ''chunk_stamps'' then 1
      else if family = ''swarm_traj'' then 5 else 10)"

type_synonym seq_table = "((string \<times> int) \<times> 64 word) list"

definition nextSeq :: "string \<Rightarrow> int \<Rightarrow> seq_table \<Rightarrow> 64 word \<times> seq_table" where
  "nextSeq family src_id table =
     (let current = (case map_of table (family, src_id) of None \<Rightarrow> 0 | Some v \<Rightarrow> v)
      in (current, AList.update (family, src_id) (current + 1) table))"

definition tx_messageCallback ::
  "int \<Rightarrow> RosMessage \<Rightarrow> int \<Rightarrow> string \<Rightarrow> 64 word \<Rightarrow> seq_table \<Rightarrow> RacerSwarmMsg \<times> seq_table" where
  "tx_messageCallback default_max_relay_hops msg src_id family now_us table =
     (let (bridge_seq, table') = nextSeq family src_id table in
      (\<lparr>wm_family = family, wm_src_id = word_of_int src_id, wm_dst_id = 0, wm_bridge_seq = bridge_seq,
        wm_stamp_us = now_us, wm_ros = msg, wm_ros_latching = ''0'', wm_network_tx_id = word_of_int src_id,
        wm_relay_hop_count = 0, wm_max_relay_hops = word_of_int (max 0 default_max_relay_hops),
        wm_transport_priority = transportPriorityForFamily family\<rparr>, table'))"

section \<open>Caches of what was seen\<close>

text \<open>The forwarder and the receiver keep the time each key was last seen; \<open>last_prune\<close> is the time of
  the last sweep.\<close>

record SeenCache =
  seen_us :: "(string \<times> 64 word) list"
  last_prune_us :: "64 word"

definition prune_cache :: "64 word \<Rightarrow> 64 word \<Rightarrow> SeenCache \<Rightarrow> SeenCache" where
  "prune_cache ttl_us now_us c =
     (if now_us \<le> last_prune_us c + 1000000 then c
      else c\<lparr>seen_us := prune (\<lambda>t. t \<le> now_us \<and> now_us - t > ttl_us) (seen_us c), last_prune_us := now_us\<rparr>)"

text \<open>Whether the key was seen within the last \<open>ttl_us\<close>; the key is stamped in any case.\<close>

definition check_cache :: "64 word \<Rightarrow> 64 word \<Rightarrow> 64 word \<Rightarrow> string \<Rightarrow> SeenCache \<Rightarrow> bool \<times> SeenCache" where
  "check_cache ttl_us prune_us now_us key c =
     (let c = prune_cache ttl_us prune_us c;
          seen = (case map_of (seen_us c) key of None \<Rightarrow> False | Some t \<Rightarrow> t \<le> now_us \<and> now_us - t \<le> ttl_us)
      in (seen, c\<lparr>seen_us := AList.update key now_us (seen_us c)\<rparr>))"

text \<open>A \<open>double\<close> in seconds as \<open>uint64\<close> microseconds.\<close>

definition ttl_to_us :: "real \<Rightarrow> 64 word" where
  "ttl_to_us sec = word_of_int \<lfloor>sec * 1000000\<rfloor>"

section \<open>Forwarding\<close>

record ForwarderState =
  relay_active_by_agent :: "bool umap"
  fwd_cache :: SeenCache
  forwarded_msgs :: "64 word"

definition fwd_relayRoleCallback :: "RelayRoleCmd \<Rightarrow> ForwarderState \<Rightarrow> ForwarderState" where
  "fwd_relayRoleCallback msg s =
     s\<lparr>relay_active_by_agent := AList.update (rrc_agent_id msg) (rrc_role msg = ROLE_RELAY \<and> rrc_valid msg)
         (relay_active_by_agent s)\<rparr>"

definition isRelayActive :: "int \<Rightarrow> ForwarderState \<Rightarrow> bool" where
  "isRelayActive agent_id s = (case map_of (relay_active_by_agent s) agent_id of None \<Rightarrow> False | Some b \<Rightarrow> b)"

definition forward_key :: "int \<Rightarrow> RacerSwarmMsg \<Rightarrow> string" where
  "forward_key relay_id w =
     to_string_int relay_id @ ''|'' @ wm_family w @ ''|'' @ to_dec (unat (wm_src_id w)) @ ''|'' @
       to_dec (unat (wm_bridge_seq w))"

definition seenAndRefresh ::
  "real \<Rightarrow> 64 word \<Rightarrow> 64 word \<Rightarrow> int \<Rightarrow> RacerSwarmMsg \<Rightarrow> ForwarderState \<Rightarrow> bool \<times> ForwarderState" where
  "seenAndRefresh ttl_sec prune_us now_us relay_id w s =
     (let (seen, c) = check_cache (ttl_to_us ttl_sec) prune_us now_us (forward_key relay_id w) (fwd_cache s)
      in (seen, s\<lparr>fwd_cache := c\<rparr>))"

definition fwd_rxBytesCallback ::
  "real \<Rightarrow> 64 word \<Rightarrow> 64 word \<Rightarrow> RacerSwarmMsg option \<Rightarrow> ForwarderState \<Rightarrow> ForwarderState \<times> RacerSwarmMsg option" where
  "fwd_rxBytesCallback ttl_sec prune_us now_us parsed s =
     (case parsed of
        None \<Rightarrow> (s, None)
      | Some w \<Rightarrow>
          let relay_id = sint (wm_dst_id w) in
          if relay_id \<le> 0 \<or> \<not> isRelayActive relay_id s then (s, None)
          else if wm_max_relay_hops w = 0 \<or> wm_relay_hop_count w \<ge> wm_max_relay_hops w then (s, None)
          else if wm_network_tx_id w = wm_dst_id w then (s, None)
          else case seenAndRefresh ttl_sec prune_us now_us relay_id w s of (seen, s') \<Rightarrow>
            if seen then (s', None)
            else (s'\<lparr>forwarded_msgs := forwarded_msgs s' + 1\<rparr>,
              Some (w\<lparr>wm_network_tx_id := word_of_int relay_id, wm_relay_hop_count := wm_relay_hop_count w + 1,
                      wm_dst_id := 0\<rparr>)))"

section \<open>Receiving\<close>

definition rx_families :: "(string \<times> string) list" where
  "rx_families =
     [(''drone_state'', ''/swarm_expl/drone_state''), (''pair_opt'', ''/swarm_expl/pair_opt''),
      (''pair_opt_res'', ''/swarm_expl/pair_opt_res''), (''swarm_traj'', ''/planning/swarm_traj''),
      (''chunk_stamps'', ''/multi_map_manager/chunk_stamps''), (''chunk_data'', ''/multi_map_manager/chunk_data''),
      (''relay_peer_state'', ''/relay_integration/relay_peer_state''),
      (''relay_proposal'', ''/relay_integration/relay_proposal''),
      (''relay_task_state'', ''/relay_integration/relay_task_state''),
      (''component_state'', ''/swarm_expl/component_state''),
      (''allocation_request'', ''/swarm_expl/allocation_request''),
      (''assignment_plan'', ''/swarm_expl/assignment_plan''), (''assignment_ack'', ''/swarm_expl/assignment_ack''),
      (''assignment_commit'', ''/swarm_expl/assignment_commit''), (''release_request'', ''/swarm_expl/release_request'')]"

record RxState =
  rx_cache :: SeenCache
  rx_wrapper_msgs :: "64 word"
  published_msgs :: "64 word"
  deduped_msgs :: "64 word"

definition delivery_key :: "RacerSwarmMsg \<Rightarrow> string" where
  "delivery_key w =
     wm_family w @ ''|'' @ to_dec (unat (wm_src_id w)) @ ''|'' @ to_dec (unat (wm_bridge_seq w)) @ ''|'' @
       to_dec (unat (wm_dst_id w))"

definition isDuplicateAndUpdate ::
  "real \<Rightarrow> 64 word \<Rightarrow> 64 word \<Rightarrow> RacerSwarmMsg \<Rightarrow> RxState \<Rightarrow> bool \<times> RxState" where
  "isDuplicateAndUpdate ttl_sec prune_us now_us w s =
     (let (seen, c) = check_cache (ttl_to_us ttl_sec) prune_us now_us (delivery_key w) (rx_cache s)
      in (seen, s\<lparr>rx_cache := c\<rparr>))"

text \<open>The result is the topic and the message published on it.\<close>

definition rx_bytesCallback ::
  "real \<Rightarrow> 64 word \<Rightarrow> 64 word \<Rightarrow> RacerSwarmMsg option \<Rightarrow> RxState \<Rightarrow> RxState \<times> (string \<times> RosMessage) option" where
  "rx_bytesCallback ttl_sec prune_us now_us parsed s0 =
     (let s = s0\<lparr>rx_wrapper_msgs := rx_wrapper_msgs s0 + 1\<rparr> in
      case parsed of
        None \<Rightarrow> (s, None)
      | Some w \<Rightarrow>
          (case map_of rx_families (wm_family w) of
             None \<Rightarrow> (s, None)
           | Some base \<Rightarrow>
               if wm_dst_id w = 0 then (s, None)
               else case isDuplicateAndUpdate ttl_sec prune_us now_us w s of (dup, s') \<Rightarrow>
                 if dup then (s'\<lparr>deduped_msgs := deduped_msgs s' + 1\<rparr>, None)
                 else (s'\<lparr>published_msgs := published_msgs s' + 1\<rparr>,
                   Some (recv_topic base (uint (wm_dst_id w)), wm_ros w))))"

section \<open>The bypass\<close>

definition router_families :: "(string \<times> string) list" where
  "router_families =
     [(''drone_state'', ''/swarm_expl/drone_state''), (''pair_opt'', ''/swarm_expl/pair_opt''),
      (''pair_opt_res'', ''/swarm_expl/pair_opt_res''), (''swarm_traj'', ''/planning/swarm_traj''),
      (''chunk_stamps'', ''/multi_map_manager/chunk_stamps''), (''chunk_data'', ''/multi_map_manager/chunk_data''),
      (''relay_peer_state'', ''/relay_integration/relay_peer_state''),
      (''relay_proposal'', ''/relay_integration/relay_proposal''),
      (''relay_task_state'', ''/relay_integration/relay_task_state'')]"

record RouterState =
  router_has_comm_state :: bool
  link_up_map :: "(64 word \<times> bool) list"

definition router_commStateCallback :: "SwarmCommState \<Rightarrow> RouterState \<Rightarrow> RouterState" where
  "router_commStateCallback msg s =
     s\<lparr>router_has_comm_state := True,
       link_up_map := fold (\<lambda>(src, dst, up) m. AList.update (DirectedKey src dst) up m)
         (zip (scs_link_src_ids msg) (zip (scs_link_dst_ids msg) (scs_link_up msg))) []\<rparr>"

definition shouldForward :: "bool \<Rightarrow> int \<Rightarrow> int \<Rightarrow> RouterState \<Rightarrow> bool" where
  "shouldForward fail_open_routing src_id dst_id s =
     (if \<not> router_has_comm_state s then fail_open_routing
      else (case map_of (link_up_map s) (DirectedKey src_id dst_id) of None \<Rightarrow> fail_open_routing | Some up \<Rightarrow> up))"

text \<open>The topics a message is published on.\<close>

definition routeMessage :: "bool \<Rightarrow> int list \<Rightarrow> int \<Rightarrow> string \<Rightarrow> RouterState \<Rightarrow> string list" where
  "routeMessage fail_open_routing drone_ids src_id topic_base s =
     map (recv_topic topic_base)
       (filter (\<lambda>dst_id. dst_id \<noteq> src_id \<and> shouldForward fail_open_routing src_id dst_id s) drone_ids)"

end
