(* ===== verification/Transport_Props.thy ===== *)
theory Transport_Props imports Transport_Bridges
begin

text \<open>
  What holds of the transport: the keys identify a message, a cache of seen keys answers exactly
  whether a key was seen within its time to live, sequence numbers are distinct, and a packet is
  forwarded at most as often as its budget allows, with its content unchanged.
\<close>

section \<open>Decimal numbers\<close>

lemma digit_cases: "k < 10 \<Longrightarrow> digit k \<in> set ''0123456789''"
  unfolding digit_def by (rule nth_mem) simp

lemma digit_inj: "j < 10 \<Longrightarrow> k < 10 \<Longrightarrow> digit j = digit k \<longleftrightarrow> j = k"
  unfolding digit_def by (rule nth_eq_iff_index_eq) simp_all

lemma to_dec_digits: "set (to_dec n) \<subseteq> set ''0123456789''"
  by (induction n rule: to_dec.induct) (subst to_dec.simps, use digit_cases in auto)

lemma to_dec_nonempty: "to_dec n \<noteq> []"
  by (subst to_dec.simps) simp

lemma to_dec_inj: "to_dec m = to_dec n \<longleftrightarrow> m = n"
proof
  show "to_dec m = to_dec n \<Longrightarrow> m = n"
  proof (induction m arbitrary: n rule: less_induct)
    case (less m)
    have one: "to_dec k = [digit k]" if "k < 10" for k using that by (simp add: to_dec.simps [of k])
    have more: "to_dec k = to_dec (k div 10) @ [digit (k mod 10)]" if "\<not> k < 10" for k
      using that by (simp add: to_dec.simps [of k])
    show ?case
    proof (cases "m < 10")
      case True
      with less.prems to_dec_nonempty [of "n div 10"] have "n < 10"
        by (cases "n < 10") (auto simp: one more append_eq_Cons_conv)
      with True less.prems show ?thesis by (simp add: one digit_inj)
    next
      case False
      with less.prems to_dec_nonempty [of "m div 10"] have n: "\<not> n < 10"
        by (cases "n < 10") (auto simp: one more append_eq_Cons_conv)
      then have "to_dec (m div 10) = to_dec (n div 10)" "digit (m mod 10) = digit (n mod 10)"
        using less.prems False by (simp_all add: more)
      moreover have "m div 10 < m" using False by simp
      ultimately have "m div 10 = n div 10" "m mod 10 = n mod 10" using less.IH digit_inj by auto
      then show ?thesis by (metis div_mult_mod_eq)
    qed
  qed
qed simp

lemma no_bar_to_dec: "CHR ''|'' \<notin> set (to_dec n)"
  using to_dec_digits [of n] by auto

lemma no_bar_to_string: "CHR ''|'' \<notin> set (to_string_int i)"
  using no_bar_to_dec by (simp add: to_string_int_def)

lemma to_string_int_inj: "to_string_int i = to_string_int j \<longleftrightarrow> i = j"
proof -
  have "hd (to_dec n) \<noteq> CHR ''-''" for n
  proof -
    have "hd (to_dec n) \<in> set ''0123456789''" using to_dec_digits hd_in_set [OF to_dec_nonempty] by (rule subsetD)
    then show ?thesis by auto
  qed
  then have minus: "to_dec n \<noteq> CHR ''-'' # xs" for n xs by (metis list.sel(1))
  show ?thesis
    using minus minus [symmetric] by (auto simp: to_string_int_def to_dec_inj eq_nat_nat_iff)
qed

section \<open>Keys\<close>

lemma split_at_bar:
  "CHR ''|'' \<notin> set a \<Longrightarrow> CHR ''|'' \<notin> set c \<Longrightarrow> a @ CHR ''|'' # b = c @ CHR ''|'' # d \<longleftrightarrow> a = c \<and> b = d"
proof (induction a arbitrary: c)
  case Nil
  then show ?case by (cases c) auto
next
  case (Cons x a)
  then show ?case by (cases c) auto
qed


lemma delivery_key_eq:
  assumes "CHR ''|'' \<notin> set (wm_family v)" "CHR ''|'' \<notin> set (wm_family w)"
  shows "delivery_key v = delivery_key w \<longleftrightarrow> (wm_family v, wm_src_id v, wm_bridge_seq v, wm_dst_id v) =
    (wm_family w, wm_src_id w, wm_bridge_seq w, wm_dst_id w)"
  using assms by (simp add: delivery_key_def split_at_bar no_bar_to_dec to_dec_inj word_unat_eq_iff)


lemma forward_key_eq:
  assumes "CHR ''|'' \<notin> set (wm_family v)" "CHR ''|'' \<notin> set (wm_family w)"
  shows "forward_key i v = forward_key j w \<longleftrightarrow> (i, wm_family v, wm_src_id v, wm_bridge_seq v) =
    (j, wm_family w, wm_src_id w, wm_bridge_seq w)"
  using assms by (simp add: forward_key_def split_at_bar no_bar_to_dec no_bar_to_string to_dec_inj to_string_int_inj word_unat_eq_iff)

section \<open>The caches\<close>

text \<open>What a cache knows of the last sightings: it has the time of each key, unless that is too old.\<close>

definition entry_spec :: "64 word \<Rightarrow> 64 word \<Rightarrow> 64 word option \<Rightarrow> 64 word option \<Rightarrow> bool" where
  "entry_spec ttl now sighting entry \<longleftrightarrow>
     (case sighting of None \<Rightarrow> entry = None | Some t \<Rightarrow> t \<le> now \<and> (entry = Some t \<or> entry = None \<and> now - t > ttl))"

definition cache_spec :: "64 word \<Rightarrow> (string \<rightharpoonup> 64 word) \<Rightarrow> 64 word \<Rightarrow> SeenCache \<Rightarrow> bool" where
  "cache_spec ttl sight now c \<longleftrightarrow> distinct_keys (seen_us c) \<and>
     (\<forall>k. entry_spec ttl now (sight k) (map_of (seen_us c) k))"

lemma word_diff_mono:
  fixes a b c :: "64 word"
  assumes "a \<le> b" "b \<le> c"
  shows "b - a \<le> c - a"
proof -
  have "a \<le> c" using assms by (rule order_trans)
  then show ?thesis using assms by (simp add: word_le_nat_alt unat_sub)
qed

lemma word_diff_antimono:
  fixes a b c :: "64 word"
  assumes "a \<le> b" "b \<le> c"
  shows "c - b \<le> c - a"
proof -
  have "a \<le> c" using assms by (rule order_trans)
  then show ?thesis using assms by (simp add: word_le_nat_alt unat_sub)
qed

lemma entry_later:
  assumes "entry_spec ttl t0 sighting entry" "t0 \<le> t1"
  shows "entry_spec ttl t1 sighting entry"
proof (cases sighting)
  case (Some t)
  then have t: "t \<le> t0" "entry = Some t \<or> entry = None \<and> t0 - t > ttl" using assms(1) by (simp_all add: entry_spec_def)
  have "t \<le> t1" using t(1) assms(2) by (rule order_trans)
  moreover have "t0 - t \<le> t1 - t" by (rule word_diff_mono [OF t(1) assms(2)])
  ultimately show ?thesis using t(2) Some by (auto simp: entry_spec_def)
qed (use assms in \<open>simp add: entry_spec_def\<close>)

lemma entry_prune:
  assumes "entry_spec ttl p sighting entry"
  shows "entry_spec ttl p sighting
    (case entry of None \<Rightarrow> None | Some t \<Rightarrow> if t \<le> p \<and> p - t > ttl then None else Some t)"
  using assms by (cases sighting; cases entry) (auto simp: entry_spec_def)

lemma cache_spec_later: "cache_spec ttl sight t0 c \<Longrightarrow> t0 \<le> t1 \<Longrightarrow> cache_spec ttl sight t1 c"
  unfolding cache_spec_def by (meson entry_later)

lemma cache_spec_prune:
  assumes "cache_spec ttl sight t0 c" "t0 \<le> p"
  shows "cache_spec ttl sight p (prune_cache ttl p c)"
proof -
  have c: "cache_spec ttl sight p c" by (rule cache_spec_later [OF assms])
  then have "distinct_keys (seen_us c)" by (simp add: cache_spec_def)
  with c entry_prune show ?thesis
    by (simp add: cache_spec_def prune_cache_def map_of_prune distinct_keys_prune)
qed

lemma check_cache_spec:
  assumes "cache_spec ttl sight t0 c" "t0 \<le> p" "p \<le> now"
  shows "fst (check_cache ttl p now k c) = (case sight k of None \<Rightarrow> False | Some t \<Rightarrow> now - t \<le> ttl)"
    and "cache_spec ttl (sight(k \<mapsto> now)) now (snd (check_cache ttl p now k c))"
proof -
  have c: "cache_spec ttl sight now (prune_cache ttl p c)"
    by (rule cache_spec_later [OF cache_spec_prune [OF assms(1,2)] assms(3)])
  then have "entry_spec ttl now (sight k) (map_of (seen_us (prune_cache ttl p c)) k)" by (simp add: cache_spec_def)
  then show "fst (check_cache ttl p now k c) = (case sight k of None \<Rightarrow> False | Some t \<Rightarrow> now - t \<le> ttl)"
    by (auto simp: check_cache_def Let_def entry_spec_def split: option.splits)
  have "entry_spec ttl now (Some now) (Some now)" by (simp add: entry_spec_def)
  with c show "cache_spec ttl (sight(k \<mapsto> now)) now (snd (check_cache ttl p now k c))"
    by (simp add: cache_spec_def check_cache_def Let_def umap_simps distinct_keys_update)
qed

text \<open>The sightings so far, the latest first.\<close>

definition last_sight :: "('m \<Rightarrow> 'i) \<Rightarrow> (64 word \<times> 'm) list \<Rightarrow> 'i \<rightharpoonup> 64 word" where
  "last_sight f hist = map_of (map (\<lambda>(t, m). (f m, t)) hist)"

definition seen_lately :: "64 word \<Rightarrow> ('m \<Rightarrow> 'i) \<Rightarrow> (64 word \<times> 'm) list \<Rightarrow> 64 word \<Rightarrow> 'm \<Rightarrow> bool" where
  "seen_lately ttl ident hist now m \<longleftrightarrow> (\<exists>(t, m') \<in> set hist. ident m' = ident m \<and> now - t \<le> ttl)"

definition hist_ok :: "(64 word \<times> 'm) list \<Rightarrow> 64 word \<Rightarrow> bool" where
  "hist_ok hist now \<longleftrightarrow> sorted (rev (map fst hist)) \<and> (\<forall>e \<in> set hist. fst e \<le> now)"

text \<open>A cache whose keys identify the messages: the contract of the receiver's and the forwarder's cache.\<close>

locale keyed_cache =
  fixes key :: "'m \<Rightarrow> string" and ident :: "'m \<Rightarrow> 'i" and valid :: "'m \<Rightarrow> bool"
  assumes key_ident: "valid v \<Longrightarrow> valid w \<Longrightarrow> key v = key w \<longleftrightarrow> ident v = ident w"
begin

lemma last_key:
  "valid m \<Longrightarrow> \<forall>e \<in> set hist. valid (snd e) \<Longrightarrow> last_sight key hist (key m) = last_sight ident hist (ident m)"
  by (induction hist) (auto simp: last_sight_def key_ident)

lemma last_within:
  assumes "hist_ok hist now"
  shows "(case last_sight ident hist (ident m) of None \<Rightarrow> False | Some t \<Rightarrow> now - t \<le> ttl) = seen_lately ttl ident hist now m"
  using assms
proof (induction hist)
  case Nil
  then show ?case by (simp add: last_sight_def seen_lately_def)
next
  case (Cons e hist)
  obtain t v where e: "e = (t, v)" by (cases e)
  have h: "hist_ok hist now" "t \<le> now" "\<forall>e \<in> set hist. fst e \<le> t"
    using Cons.prems by (auto simp: hist_ok_def e sorted_append)
  have older: "now - t \<le> ttl" if "e' \<in> set hist" "now - fst e' \<le> ttl" for e'
    using word_diff_antimono [of "fst e'" t now] h that by (meson order_trans)
  show ?case
  proof (cases "ident v = ident m")
    case True
    then show ?thesis using older by (fastforce simp: last_sight_def seen_lately_def e)
  next
    case False
    then have "last_sight ident (e # hist) (ident m) = last_sight ident hist (ident m)"
      "seen_lately ttl ident (e # hist) now m = seen_lately ttl ident hist now m"
      by (auto simp: last_sight_def seen_lately_def e)
    then show ?thesis using Cons.IH [OF h(1)] by simp
  qed
qed

text \<open>A check answers whether the same message was seen within the time to live.\<close>

lemma check_exact:
  assumes "cache_spec ttl (last_sight key hist) t0 c" "hist_ok hist t0" "\<forall>e \<in> set hist. valid (snd e)" "valid m"
    and "t0 \<le> p" "p \<le> now"
  shows "fst (check_cache ttl p now (key m) c) = seen_lately ttl ident hist now m"
    and "cache_spec ttl (last_sight key ((now, m) # hist)) now (snd (check_cache ttl p now (key m) c))"
    and "hist_ok ((now, m) # hist) now"
proof -
  have "t0 \<le> now" using assms(5,6) by (rule order_trans)
  then have h: "hist_ok hist now" using assms(2) by (fastforce simp: hist_ok_def)
  show "fst (check_cache ttl p now (key m) c) = seen_lately ttl ident hist now m"
    using check_cache_spec(1) [OF assms(1,5,6), of "key m"] last_within [OF h, where m = m and ttl = ttl]
    by (simp only: last_key [OF assms(4,3)])
  show "cache_spec ttl (last_sight key ((now, m) # hist)) now (snd (check_cache ttl p now (key m) c))"
    using check_cache_spec(2) [OF assms(1,5,6), of "key m"] by (simp add: last_sight_def)
  show "hist_ok ((now, m) # hist) now" using h by (auto simp: hist_ok_def sorted_append)
qed

end

definition family_ok :: "RacerSwarmMsg \<Rightarrow> bool" where
  "family_ok w \<longleftrightarrow> CHR ''|'' \<notin> set (wm_family w)"

interpretation delivered: keyed_cache delivery_key
  "\<lambda>w. (wm_family w, wm_src_id w, wm_bridge_seq w, wm_dst_id w)" family_ok
  by unfold_locales (simp add: family_ok_def delivery_key_eq)

interpretation forwarded: keyed_cache "\<lambda>(i, w). forward_key i w"
  "\<lambda>(i, w). (i, wm_family w, wm_src_id w, wm_bridge_seq w)" "\<lambda>(i, w). family_ok w"
  by unfold_locales (auto simp: family_ok_def forward_key_eq)

lemma known_family_ok: "map_of rx_families (wm_family w) = Some base \<Longrightarrow> family_ok w"
  by (auto simp: rx_families_def family_ok_def split: if_splits)

lemma same_families: "tx_families = rx_families"
  by (simp add: tx_families_def rx_families_def)


section \<open>The receiver\<close>

definition rx_init :: RxState where
  "rx_init = \<lparr>rx_cache = \<lparr>seen_us = [], last_prune_us = 0\<rparr>, rx_wrapper_msgs = 0, published_msgs = 0, deduped_msgs = 0\<rparr>"

definition rx_accepts :: "RacerSwarmMsg \<Rightarrow> bool" where
  "rx_accepts w \<longleftrightarrow> map_of rx_families (wm_family w) \<noteq> None \<and> wm_dst_id w \<noteq> 0"

text \<open>A run of the receiver with the wrappers it has looked up so far, the latest first, and the time of
  the last one. The wall clock does not go back.\<close>

inductive rx_run :: "real \<Rightarrow> (64 word \<times> RacerSwarmMsg) list \<Rightarrow> 64 word \<Rightarrow> RxState \<Rightarrow> bool" for ttl where
  start: "rx_run ttl [] 0 rx_init"
| recv: "rx_run ttl hist t0 s \<Longrightarrow> t0 \<le> prune_us \<Longrightarrow> prune_us \<le> now \<Longrightarrow>
    rx_run ttl (case parsed of Some w \<Rightarrow> if rx_accepts w then (now, w) # hist else hist | None \<Rightarrow> hist) now
      (fst (rx_bytesCallback ttl prune_us now parsed s))"

definition rx_inv :: "real \<Rightarrow> (64 word \<times> RacerSwarmMsg) list \<Rightarrow> 64 word \<Rightarrow> RxState \<Rightarrow> bool" where
  "rx_inv ttl hist t0 s \<longleftrightarrow> cache_spec (ttl_to_us ttl) (last_sight delivery_key hist) t0 (rx_cache s) \<and> hist_ok hist t0 \<and>
     (\<forall>e \<in> set hist. family_ok (snd e))"

lemma hist_later: "hist_ok hist t0 \<Longrightarrow> t0 \<le> t1 \<Longrightarrow> hist_ok hist t1"
  by (fastforce simp: hist_ok_def)

lemma rx_skip:
  assumes "case parsed of Some w \<Rightarrow> \<not> rx_accepts w | None \<Rightarrow> True"
  shows "rx_bytesCallback ttl prune_us now parsed s = (s\<lparr>rx_wrapper_msgs := rx_wrapper_msgs s + 1\<rparr>, None)"
  using assms by (auto simp: rx_bytesCallback_def rx_accepts_def Let_def split: option.splits)

lemma rx_step:
  assumes inv: "rx_inv ttl hist t0 s" and w: "rx_accepts w" and t: "t0 \<le> prune_us" "prune_us \<le> now"
  shows "rx_inv ttl ((now, w) # hist) now (fst (rx_bytesCallback ttl prune_us now (Some w) s))"
    and "snd (rx_bytesCallback ttl prune_us now (Some w) s) =
      (if seen_lately (ttl_to_us ttl) (\<lambda>w. (wm_family w, wm_src_id w, wm_bridge_seq w, wm_dst_id w)) hist now w then None
       else Some (recv_topic (the (map_of rx_families (wm_family w))) (uint (wm_dst_id w)), wm_ros w))"
proof -
  obtain base where base: "map_of rx_families (wm_family w) = Some base" "wm_dst_id w \<noteq> 0"
    using w by (auto simp: rx_accepts_def)
  have ok: "family_ok w" by (rule known_family_ok [OF base(1)])
  obtain seen c where chk: "check_cache (ttl_to_us ttl) prune_us now (delivery_key w) (rx_cache s) = (seen, c)"
    by (metis prod.collapse)
  from inv have i: "cache_spec (ttl_to_us ttl) (last_sight delivery_key hist) t0 (rx_cache s)" "hist_ok hist t0"
      "\<forall>e \<in> set hist. family_ok (snd e)" by (simp_all add: rx_inv_def)
  note ex = delivered.check_exact [OF i ok t]
  have cb: "rx_bytesCallback ttl prune_us now (Some w) s =
      (let s' = s\<lparr>rx_wrapper_msgs := rx_wrapper_msgs s + 1, rx_cache := c\<rparr> in
       if seen then (s'\<lparr>deduped_msgs := deduped_msgs s' + 1\<rparr>, None)
       else (s'\<lparr>published_msgs := published_msgs s' + 1\<rparr>, Some (recv_topic base (uint (wm_dst_id w)), wm_ros w)))"
    by (simp add: rx_bytesCallback_def isDuplicateAndUpdate_def base chk Let_def)
  show "rx_inv ttl ((now, w) # hist) now (fst (rx_bytesCallback ttl prune_us now (Some w) s))"
    unfolding cb using ex(2,3) i(3) ok by (auto simp: rx_inv_def Let_def chk)
  show "snd (rx_bytesCallback ttl prune_us now (Some w) s) =
      (if seen_lately (ttl_to_us ttl) (\<lambda>w. (wm_family w, wm_src_id w, wm_bridge_seq w, wm_dst_id w)) hist now w then None
       else Some (recv_topic (the (map_of rx_families (wm_family w))) (uint (wm_dst_id w)), wm_ros w))"
    unfolding cb ex(1) [symmetric] by (simp add: Let_def chk base)
qed

lemma rx_run_inv: "rx_run ttl hist t0 s \<Longrightarrow> rx_inv ttl hist t0 s"
proof (induction rule: rx_run.induct)
  case start
  show ?case
    by (simp add: rx_inv_def rx_init_def cache_spec_def last_sight_def entry_spec_def hist_ok_def)
next
  case (recv hist t0 s prune_us now parsed)
  have "t0 \<le> now" using recv.hyps(2,3) by (rule order_trans)
  then have skip: "rx_inv ttl hist now (s\<lparr>rx_wrapper_msgs := rx_wrapper_msgs s + 1\<rparr>)"
    using recv.IH cache_spec_later [OF _ \<open>t0 \<le> now\<close>] hist_later [OF _ \<open>t0 \<le> now\<close>] by (auto simp: rx_inv_def)
  show ?case
  proof (cases "\<exists>w. parsed = Some w \<and> rx_accepts w")
    case True
    then show ?thesis using rx_step(1) [OF recv.IH _ recv.hyps(2,3)] by auto
  next
    case False
    then show ?thesis using skip rx_skip [of parsed ttl prune_us now s] by (auto split: option.splits)
  qed
qed

section \<open>The forwarder\<close>

definition fwd_init :: ForwarderState where
  "fwd_init = \<lparr>relay_active_by_agent = [], fwd_cache = \<lparr>seen_us = [], last_prune_us = 0\<rparr>, forwarded_msgs = 0\<rparr>"

text \<open>The packets that pass the guards before the cache.\<close>

definition may_forward :: "ForwarderState \<Rightarrow> RacerSwarmMsg \<Rightarrow> bool" where
  "may_forward s w \<longleftrightarrow> 0 < sint (wm_dst_id w) \<and> isRelayActive (sint (wm_dst_id w)) s \<and>
     wm_relay_hop_count w < wm_max_relay_hops w \<and> wm_network_tx_id w \<noteq> wm_dst_id w"

definition hop :: "RacerSwarmMsg \<Rightarrow> RacerSwarmMsg" where
  "hop w = w\<lparr>wm_network_tx_id := wm_dst_id w, wm_relay_hop_count := wm_relay_hop_count w + 1, wm_dst_id := 0\<rparr>"

inductive fwd_run :: "real \<Rightarrow> (64 word \<times> int \<times> RacerSwarmMsg) list \<Rightarrow> 64 word \<Rightarrow> ForwarderState \<Rightarrow> bool" for ttl where
  start: "fwd_run ttl [] 0 fwd_init"
| role: "fwd_run ttl hist t0 s \<Longrightarrow> fwd_run ttl hist t0 (fwd_relayRoleCallback msg s)"
| packet: "fwd_run ttl hist t0 s \<Longrightarrow> t0 \<le> prune_us \<Longrightarrow> prune_us \<le> now \<Longrightarrow> family_ok w \<Longrightarrow>
    fwd_run ttl (if may_forward s w then (now, sint (wm_dst_id w), w) # hist else hist) now
      (fst (fwd_rxBytesCallback ttl prune_us now (Some w) s))"

definition fwd_inv :: "real \<Rightarrow> (64 word \<times> int \<times> RacerSwarmMsg) list \<Rightarrow> 64 word \<Rightarrow> ForwarderState \<Rightarrow> bool" where
  "fwd_inv ttl hist t0 s \<longleftrightarrow>
     cache_spec (ttl_to_us ttl) (last_sight (\<lambda>(i, w). forward_key i w) hist) t0 (fwd_cache s) \<and> hist_ok hist t0 \<and>
     (\<forall>e \<in> set hist. case snd e of (i, w) \<Rightarrow> family_ok w)"

lemma fwd_skip: "\<not> may_forward s w \<Longrightarrow> fwd_rxBytesCallback ttl prune_us now (Some w) s = (s, None)"
  by (auto simp: fwd_rxBytesCallback_def may_forward_def Let_def not_le)

lemma fwd_step:
  assumes inv: "fwd_inv ttl hist t0 s" and w: "may_forward s w" "family_ok w" and t: "t0 \<le> prune_us" "prune_us \<le> now"
  shows "fwd_inv ttl ((now, sint (wm_dst_id w), w) # hist) now (fst (fwd_rxBytesCallback ttl prune_us now (Some w) s))"
    and "snd (fwd_rxBytesCallback ttl prune_us now (Some w) s) =
      (if seen_lately (ttl_to_us ttl) (\<lambda>(i, w). (i, wm_family w, wm_src_id w, wm_bridge_seq w)) hist now (sint (wm_dst_id w), w)
       then None else Some (hop w))"
proof -
  let ?m = "(sint (wm_dst_id w), w)"
  obtain seen c where chk: "check_cache (ttl_to_us ttl) prune_us now (forward_key (sint (wm_dst_id w)) w) (fwd_cache s) = (seen, c)"
    by (metis prod.collapse)
  from inv have i: "cache_spec (ttl_to_us ttl) (last_sight (\<lambda>(i, w). forward_key i w) hist) t0 (fwd_cache s)" "hist_ok hist t0"
      "\<forall>e \<in> set hist. case snd e of (i, w) \<Rightarrow> family_ok w" by (simp_all add: fwd_inv_def)
  have ok: "case ?m of (i, w) \<Rightarrow> family_ok w" using w(2) by simp
  note ex = forwarded.check_exact [OF i ok t]
  have guards: "\<not> sint (wm_dst_id w) \<le> 0" "isRelayActive (sint (wm_dst_id w)) s" "wm_max_relay_hops w \<noteq> 0"
      "\<not> wm_max_relay_hops w \<le> wm_relay_hop_count w" "wm_network_tx_id w \<noteq> wm_dst_id w"
    using w(1) by (auto simp: may_forward_def not_le)
  have cb: "fwd_rxBytesCallback ttl prune_us now (Some w) s =
      (if seen then (s\<lparr>fwd_cache := c\<rparr>, None)
       else (s\<lparr>fwd_cache := c, forwarded_msgs := forwarded_msgs s + 1\<rparr>, Some (hop w)))"
    using guards by (simp add: fwd_rxBytesCallback_def Let_def seenAndRefresh_def chk hop_def)
  show "fwd_inv ttl ((now, sint (wm_dst_id w), w) # hist) now (fst (fwd_rxBytesCallback ttl prune_us now (Some w) s))"
    unfolding cb using ex(2,3) i(3) ok by (auto simp: fwd_inv_def chk)
  show "snd (fwd_rxBytesCallback ttl prune_us now (Some w) s) =
      (if seen_lately (ttl_to_us ttl) (\<lambda>(i, w). (i, wm_family w, wm_src_id w, wm_bridge_seq w)) hist now ?m
       then None else Some (hop w))"
    unfolding cb ex(1) [symmetric] by (simp add: chk)
qed

lemma fwd_run_inv: "fwd_run ttl hist t0 s \<Longrightarrow> fwd_inv ttl hist t0 s"
proof (induction rule: fwd_run.induct)
  case start
  show ?case by (simp add: fwd_inv_def fwd_init_def cache_spec_def last_sight_def entry_spec_def hist_ok_def)
next
  case (role hist t0 s msg)
  then show ?case by (simp add: fwd_inv_def fwd_relayRoleCallback_def)
next
  case (packet hist t0 s prune_us now w)
  have "t0 \<le> now" using packet.hyps(2,3) by (rule order_trans)
  then have "fwd_inv ttl hist now s"
    using packet.IH cache_spec_later [OF _ \<open>t0 \<le> now\<close>] hist_later [OF _ \<open>t0 \<le> now\<close>] by (auto simp: fwd_inv_def)
  then show ?case using fwd_step(1) [OF packet.IH _ packet.hyps(4,2,3)] fwd_skip [of s w ttl prune_us now] by simp
qed

section \<open>The way of a packet\<close>

text \<open>A wrapper, how often it was forwarded, and the form it was delivered in: the network fills in the
  destination, and any forwarder may pass it on.\<close>

inductive travels :: "RacerSwarmMsg \<Rightarrow> nat \<Rightarrow> RacerSwarmMsg \<Rightarrow> bool" for m where
  sent: "travels m 0 (m\<lparr>wm_dst_id := dst\<rparr>)"
| forward: "travels m n w \<Longrightarrow> fwd_rxBytesCallback ttl prune_us now (Some w) s = (s', Some w') \<Longrightarrow>
    travels m (Suc n) (w'\<lparr>wm_dst_id := dst\<rparr>)"

lemma forward_result:
  assumes "fwd_rxBytesCallback ttl prune_us now (Some w) s = (s', Some w')"
  shows "may_forward s w \<and> w' = hop w"
proof
  show may: "may_forward s w" using assms fwd_skip [of s w ttl prune_us now] by auto
  show "w' = hop w"
    using assms may by (auto simp: fwd_rxBytesCallback_def Let_def hop_def may_forward_def split: if_splits prod.splits)
qed

lemma hop_count:
  assumes "may_forward s w"
  shows "unat (wm_relay_hop_count (hop w)) = unat (wm_relay_hop_count w) + 1"
    and "unat (wm_relay_hop_count (hop w)) \<le> unat (wm_max_relay_hops w)"
proof -
  have lt: "unat (wm_relay_hop_count w) < unat (wm_max_relay_hops w)"
    using assms by (simp add: may_forward_def word_less_nat_alt)
  moreover have "unat (wm_max_relay_hops w) < 2 ^ LENGTH(32)" by (rule unsigned_less)
  ultimately have "unat (wm_relay_hop_count w) + 1 < 2 ^ LENGTH(32)" by linarith
  then show eq: "unat (wm_relay_hop_count (hop w)) = unat (wm_relay_hop_count w) + 1"
    by (simp add: hop_def unat_word_ariths)
  show "unat (wm_relay_hop_count (hop w)) \<le> unat (wm_max_relay_hops w)" unfolding eq using lt by simp
qed

lemma travels_invariant:
  assumes "travels m n w"
  shows "(wm_family w, wm_src_id w, wm_bridge_seq w, wm_ros w, wm_max_relay_hops w) =
      (wm_family m, wm_src_id m, wm_bridge_seq m, wm_ros m, wm_max_relay_hops m)"
    and "unat (wm_relay_hop_count w) = unat (wm_relay_hop_count m) + n"
    and "n = 0 \<or> unat (wm_relay_hop_count w) \<le> unat (wm_max_relay_hops m)"
  using assms
proof (induction rule: travels.induct)
  case (forward n w ttl prune_us now s s' w' dst)
  { case 1 show ?case using forward.IH(1) forward_result [OF forward.hyps(2)] by (simp add: hop_def) }
  { case 2 show ?case using forward.IH(2) forward_result [OF forward.hyps(2)] hop_count(1) [of s w] by simp }
  { case 3 show ?case using forward.IH(1) forward_result [OF forward.hyps(2)] hop_count(2) [of s w] by simp }
qed simp_all

section \<open>The sender\<close>

text \<open>A sequence of messages of the drones, each with the clock, and the wrappers sent for them.\<close>

type_synonym sending = "RosMessage \<times> int \<times> string \<times> 64 word"

fun tx_messages :: "int \<Rightarrow> sending list \<Rightarrow> seq_table \<Rightarrow> RacerSwarmMsg list" where
  "tx_messages hops [] table = []"
| "tx_messages hops ((msg, src_id, family, now_us) # ms) table =
     (let (w, table') = tx_messageCallback hops msg src_id family now_us table in w # tx_messages hops ms table')"

definition id_ok :: "int \<Rightarrow> bool" where
  "id_ok i \<longleftrightarrow> 0 \<le> i \<and> i < 2 ^ 31"

definition ids_ok :: "sending list \<Rightarrow> bool" where
  "ids_ok ms \<longleftrightarrow> (\<forall>(msg, src_id, family, now_us) \<in> set ms. id_ok src_id)"

lemma id_ok_uint: "id_ok i \<Longrightarrow> uint (word_of_int i :: 32 word) = i"
  by (simp add: id_ok_def unsigned_of_int take_bit_int_eq_self)

definition msg_id :: "RacerSwarmMsg \<Rightarrow> string \<times> 32 word \<times> 64 word" where
  "msg_id w = (wm_family w, wm_src_id w, wm_bridge_seq w)"

definition next_seq_of :: "seq_table \<Rightarrow> string \<times> int \<Rightarrow> 64 word" where
  "next_seq_of table k = (case map_of table k of None \<Rightarrow> 0 | Some v \<Rightarrow> v)"

lemma nextSeq_eq:
  "nextSeq family src_id table = (next_seq_of table (family, src_id), AList.update (family, src_id) (next_seq_of table (family, src_id) + 1) table)"
  by (simp add: nextSeq_def next_seq_of_def Let_def)

lemma next_seq_of_update: "next_seq_of (AList.update k v table) = (next_seq_of table)(k := v)"
  by (auto simp: next_seq_of_def fun_eq_iff umap_simps)

text \<open>Sequence numbers count the messages of a family and a drone.\<close>

lemma tx_distinct:
  assumes "ids_ok ms" "\<And>k. next_seq_of table k = of_nat (c k)" "\<And>k. c k + length ms \<le> 2 ^ 64"
  shows "distinct (map msg_id (tx_messages hops ms table)) \<and>
    (\<forall>w \<in> set (tx_messages hops ms table). \<exists>i. c (wm_family w, uint (wm_src_id w)) \<le> i \<and>
       i < c (wm_family w, uint (wm_src_id w)) + length ms \<and> wm_bridge_seq w = of_nat i)"
  using assms
proof (induction ms arbitrary: table c)
  case (Cons m ms)
  obtain msg src_id family now_us where m: "m = (msg, src_id, family, now_us)" by (metis prod.collapse)
  let ?k = "(family, src_id)"
  obtain w table' where w: "tx_messageCallback hops msg src_id family now_us table = (w, table')" by (metis prod.collapse)
  have id: "id_ok src_id" "ids_ok ms" using Cons.prems(1) by (auto simp: ids_ok_def m)
  have wf: "wm_family w = family" "wm_src_id w = word_of_int src_id" "wm_bridge_seq w = of_nat (c ?k)"
    and table': "table' = AList.update ?k (of_nat (c ?k) + 1) table"
    using w by (auto simp: tx_messageCallback_def nextSeq_eq Cons.prems(2))
  have seq: "next_seq_of table' k = of_nat ((c(?k := c ?k + 1)) k)" for k
    by (simp add: table' next_seq_of_update Cons.prems(2))
  have bound: "(c(?k := c ?k + 1)) k + length ms \<le> 2 ^ 64" for k
    using Cons.prems(3) [of k] by (auto split: if_splits)
  note IH = Cons.IH [OF id(2) seq bound]
  have other: "\<exists>i. (c(?k := c ?k + 1)) (wm_family v, uint (wm_src_id v)) \<le> i \<and>
       i < (c(?k := c ?k + 1)) (wm_family v, uint (wm_src_id v)) + length ms \<and> wm_bridge_seq v = of_nat i"
    if "v \<in> set (tx_messages hops ms table')" for v using IH that by blast
  have wk: "(wm_family w, uint (wm_src_id w)) = ?k" by (simp add: wf id_ok_uint [OF id(1)])
  have new: "msg_id v \<noteq> msg_id w" if v: "v \<in> set (tx_messages hops ms table')" for v
  proof
    assume same: "msg_id v = msg_id w"
    then have vk: "(wm_family v, uint (wm_src_id v)) = ?k" using wk by (simp add: msg_id_def)
    obtain i where i: "c ?k + 1 \<le> i" "i < c ?k + 1 + length ms" "wm_bridge_seq v = of_nat i"
      using other [OF v] unfolding vk by auto
    have "of_nat i = (of_nat (c ?k) :: 64 word)" using same i(3) wf(3) by (simp add: msg_id_def)
    moreover have "unat (of_nat i :: 64 word) = i" "unat (of_nat (c ?k) :: 64 word) = c ?k"
      using i(2) Cons.prems(3) [of ?k] by (auto simp: m intro!: of_nat_inverse [OF refl])
    ultimately have "i = c ?k" by metis
    with i(1) show False by simp
  qed
  have range: "\<exists>i. c (wm_family v, uint (wm_src_id v)) \<le> i \<and>
       i < c (wm_family v, uint (wm_src_id v)) + length (m # ms) \<and> wm_bridge_seq v = of_nat i"
    if "v \<in> set (tx_messages hops ms table')" for v
    using other [OF that] by (cases "(wm_family v, uint (wm_src_id v)) = ?k") (auto intro: Suc_leD)
  have list: "tx_messages hops (m # ms) table = w # tx_messages hops ms table'" by (simp add: m w)
  have dist: "distinct (map msg_id (tx_messages hops (m # ms) table))"
    unfolding list using IH new by (simp add: image_iff) metis
  have first: "\<exists>i. c (wm_family w, uint (wm_src_id w)) \<le> i \<and>
       i < c (wm_family w, uint (wm_src_id w)) + length (m # ms) \<and> wm_bridge_seq w = of_nat i"
    unfolding wk by (intro exI [of _ "c ?k"]) (simp add: wf)
  show ?case using dist first range unfolding list by auto
qed simp

lemma tx_nth:
  "i < length ms \<Longrightarrow> ms ! i = (msg, src_id, family, now_us) \<Longrightarrow> wm_family (tx_messages hops ms table ! i) = family \<and>
    wm_src_id (tx_messages hops ms table ! i) = word_of_int src_id \<and> wm_ros (tx_messages hops ms table ! i) = msg"
proof (induction ms arbitrary: i table)
  case (Cons m ms)
  then show ?case
    by (cases i; cases m) (auto simp: tx_messageCallback_def split: prod.splits)
qed simp

lemma tx_length: "length (tx_messages hops ms table) = length ms"
  by (induction hops ms table rule: tx_messages.induct) (auto split: prod.splits)

lemma tx_hops:
  "w \<in> set (tx_messages hops ms table) \<Longrightarrow> wm_relay_hop_count w = 0 \<and> wm_max_relay_hops w = word_of_int (max 0 hops)"
  by (induction hops ms table rule: tx_messages.induct)
    (auto simp: tx_messageCallback_def Let_def split: prod.splits)

end
