(* ===== verification/Transport_Phy_Props.thy ===== *)
theory Transport_Phy_Props imports Transport_Coordinator Transport_Props
begin

text \<open>
  What holds of the physics bridge and of the lockstep: a step releases exactly the packets that are due,
  in delivery order, without the expired ones; over a run nothing is lost or released twice; the clocks
  of the coordinator and the bridge agree, and the bridge has the fresh states of the coordinator.
\<close>

section \<open>Delivery order\<close>

definition delivery_rank ::
  "PendingDeliveredPacket \<Rightarrow> 64 word \<times> 64 word \<times> 32 word \<times> 32 word \<times> 32 word \<times> 32 word" where
  "delivery_rank p = (deliver_us p, pd_rx_time_us p, pd_dst_id p, pd_src_id p, pd_flow_id p, pd_seq p)"

lemma DeliveryOrder_rank: "DeliveryOrder l r \<longleftrightarrow> delivery_rank l < delivery_rank r"
  by (auto simp: DeliveryOrder_def delivery_rank_def)

lemma insert_by_key: "insert_by (\<lambda>x y. f x < f y) x ys = insort_key f x ys"
  for f :: "'a \<Rightarrow> 'k :: linorder"
  by (induction ys) (auto simp: not_le)

lemma sort_by_key: "sort_by (\<lambda>x y. f x < f y) xs = sort_key f xs"
  for f :: "'a \<Rightarrow> 'k :: linorder"
  by (induction xs) (simp_all add: sort_by_def insert_by_key)

lemma sort_by_DeliveryOrder: "sort_by DeliveryOrder ps = sort_key delivery_rank ps"
proof -
  have "DeliveryOrder = (\<lambda>x y. delivery_rank x < delivery_rank y)" by (intro ext DeliveryOrder_rank)
  then have "sort_by DeliveryOrder ps = sort_by (\<lambda>x y. delivery_rank x < delivery_rank y) ps" by (rule arg_cong)
  also have "\<dots> = sort_key delivery_rank ps" by (rule sort_by_key)
  finally show ?thesis .
qed

lemma rank_sorted_deliver: "sorted (map delivery_rank ps) \<Longrightarrow> sorted (map deliver_us ps)"
  by (induction ps) (auto simp: delivery_rank_def)

section \<open>Release\<close>

definition due :: "64 word \<Rightarrow> PendingDeliveredPacket \<Rightarrow> bool" where
  "due step_end p \<longleftrightarrow> deliver_us p \<le> step_end"

lemma release_loop_sorted:
  "sorted (map deliver_us ps) \<Longrightarrow> release_loop cfg e ps =
     (filter (\<lambda>p. due e p \<and> \<not> packet_expired cfg e p) ps, filter (\<lambda>p. due e p \<and> packet_expired cfg e p) ps,
      filter (\<lambda>p. \<not> due e p) ps)"
proof (induction ps)
  case (Cons p ps)
  show ?case
  proof (cases "deliver_us p \<le> e")
    case True
    then show ?thesis using Cons by (simp add: due_def)
  next
    case False
    then have "\<not> due e q" if "q \<in> set (p # ps)" for q
      using Cons.prems that by (auto simp: due_def)
    then have "filter (due e) (p # ps) = []" "filter (\<lambda>p. \<not> due e p) (p # ps) = p # ps"
      by (auto simp: filter_empty_conv filter_id_conv)
    then show ?thesis using False by (auto simp: filter_empty_conv)
  qed
qed simp

definition pending_inv :: "PhyState \<Rightarrow> bool" where
  "pending_inv s \<longleftrightarrow> (pending_deliveries_dirty s \<or> sorted (map delivery_rank (pending_delivered_packets s)))"

text \<open>What a release takes from the packets, and what it leaves.\<close>

abbreviation released :: "PhyConfig \<Rightarrow> 64 word \<Rightarrow> PendingDeliveredPacket list \<Rightarrow> PendingDeliveredPacket list" where
  "released cfg e ps \<equiv> filter (\<lambda>p. due e p \<and> \<not> packet_expired cfg e p) ps"

abbreviation overdue :: "PhyConfig \<Rightarrow> 64 word \<Rightarrow> PendingDeliveredPacket list \<Rightarrow> PendingDeliveredPacket list" where
  "overdue cfg e ps \<equiv> filter (\<lambda>p. due e p \<and> packet_expired cfg e p) ps"

lemma release_state:
  assumes "pending_inv s"
  defines "ps \<equiv> sort_key delivery_rank (pending_delivered_packets s)"
  shows "ReleaseDeliveredPacketsUpTo cfg e s =
    (s\<lparr>pending_deliveries_dirty := pending_deliveries_dirty s \<and> pending_delivered_packets s = [],
       pending_delivered_packets := filter (\<lambda>p. \<not> due e p) ps,
       published_delivered_packets := published_delivered_packets s + of_nat (length (released cfg e ps)),
       dropped_delivered_packets := dropped_delivered_packets s + of_nat (length (overdue cfg e ps))\<rparr>,
     released cfg e ps)"
proof (cases "pending_delivered_packets s = []")
  case True
  then show ?thesis by (simp add: ReleaseDeliveredPacketsUpTo_def ps_def)
next
  case False
  have ps: "(if pending_deliveries_dirty s then sort_by DeliveryOrder (pending_delivered_packets s)
      else pending_delivered_packets s) = ps"
    using assms(1) by (auto simp: ps_def sort_by_DeliveryOrder pending_inv_def sort_key_id_if_sorted)
  have "sorted (map deliver_us ps)" unfolding ps_def by (rule rank_sorted_deliver) simp
  note loop = release_loop_sorted [OF this, of cfg e]
  show ?thesis using False by (simp add: ReleaseDeliveredPacketsUpTo_def ps loop Let_def)
qed

lemma release_inv:
  assumes "pending_inv s"
  shows "pending_inv (fst (ReleaseDeliveredPacketsUpTo cfg e s))"
  unfolding release_state [OF assms] by (simp add: pending_inv_def sorted_filter)

text \<open>A packet is published, dropped or kept.\<close>

lemma mset_parts:
  "mset ps = mset (released cfg e ps) + mset (overdue cfg e ps) + mset (filter (\<lambda>p. \<not> due e p) ps)"
  by (induction ps) auto

lemma release_parts:
  assumes "pending_inv s" and r: "ReleaseDeliveredPacketsUpTo cfg e s = (s', published)"
  shows "\<exists>dropped. mset (pending_delivered_packets s) = mset published + mset dropped + mset (pending_delivered_packets s') \<and>
      (\<forall>p \<in> set published. due e p \<and> \<not> packet_expired cfg e p) \<and> (\<forall>p \<in> set dropped. due e p \<and> packet_expired cfg e p) \<and>
      (\<forall>p \<in> set (pending_delivered_packets s'). \<not> due e p) \<and> sorted (map delivery_rank published) \<and>
      published_delivered_packets s' = published_delivered_packets s + of_nat (length published) \<and>
      dropped_delivered_packets s' = dropped_delivered_packets s + of_nat (length dropped)"
proof -
  let ?ps = "sort_key delivery_rank (pending_delivered_packets s)"
  have "mset ?ps = mset (released cfg e ?ps) + mset (overdue cfg e ?ps) + mset (filter (\<lambda>p. \<not> due e p) ?ps)"
    by (rule mset_parts)
  then show ?thesis
    using r unfolding release_state [OF assms(1)]
    by (intro exI [of _ "overdue cfg e ?ps"]) (auto simp: sorted_filter simp del: mset_filter)
qed

section \<open>Steps\<close>

text \<open>The packets of a batch that carry something.\<close>

definition packets_of :: "PhyConfig \<Rightarrow> DeliveredPacket list payload \<Rightarrow> PendingDeliveredPacket list" where
  "packets_of cfg b = (case b of Parsed ps \<Rightarrow> map (pending_of cfg) (filter (\<lambda>p. dp_wrapped_msg p \<noteq> []) ps) | _ \<Rightarrow> [])"

lemma ingest_packets:
  "pending_delivered_packets (IngestDeliveredSwarmPackets cfg b s) = pending_delivered_packets s @ packets_of cfg b"
  "pending_inv s \<Longrightarrow> pending_inv (IngestDeliveredSwarmPackets cfg b s)"
  "phy_it (IngestDeliveredSwarmPackets cfg b s) = phy_it s"
  "published_delivered_packets (IngestDeliveredSwarmPackets cfg b s) = published_delivered_packets s"
  "dropped_delivered_packets (IngestDeliveredSwarmPackets cfg b s) = dropped_delivered_packets s"
  "snapshots (IngestDeliveredSwarmPackets cfg b s) = snapshots s"
  by (auto simp: IngestDeliveredSwarmPackets_def packets_of_def pending_inv_def split: payload.splits)

lemma update_snapshots:
  assumes "UpdateSnapshotsFromAgentStateBatch cfg now b s = Inr s'"
  shows "\<exists>m t. s' = s\<lparr>snapshots := m, last_real_states_update := t\<rparr>"
proof (cases b)
  case Absent
  then show ?thesis
    using assms by (intro exI [of _ "snapshots s"] exI [of _ "last_real_states_update s"])
      (simp add: UpdateSnapshotsFromAgentStateBatch_def)
next
  case Broken
  then show ?thesis using assms by (simp add: UpdateSnapshotsFromAgentStateBatch_def)
next
  case (Parsed samples)
  then show ?thesis
    using assms by (auto simp: UpdateSnapshotsFromAgentStateBatch_def split: sum.splits)
qed

lemma release_frame:
  "phy_it (fst (ReleaseDeliveredPacketsUpTo cfg e s)) = phy_it s"
  "snapshots (fst (ReleaseDeliveredPacketsUpTo cfg e s)) = snapshots s"
  by (simp_all add: ReleaseDeliveredPacketsUpTo_def Let_def split: prod.splits)

text \<open>What a step does with the packets.\<close>

lemma phy_step_packets:
  assumes step: "phy_StepSimulation cfg now up s = Inr (s', published, poses)" and inv: "pending_inv s"
  defines "e \<equiv> CurrentStepEndSimUs cfg s"
  shows "pending_inv s'" "phy_it s' = phy_it s"
    and "\<exists>dropped. mset (pending_delivered_packets s) + mset (packets_of cfg (up_delivered up)) =
        mset published + mset dropped + mset (pending_delivered_packets s') \<and>
      (\<forall>p \<in> set published. due e p \<and> \<not> packet_expired cfg e p) \<and> (\<forall>p \<in> set dropped. due e p \<and> packet_expired cfg e p) \<and>
      (\<forall>p \<in> set (pending_delivered_packets s'). \<not> due e p) \<and> sorted (map delivery_rank published) \<and>
      published_delivered_packets s' = published_delivered_packets s + of_nat (length published) \<and>
      dropped_delivered_packets s' = dropped_delivered_packets s + of_nat (length dropped)"
proof -
  obtain s1 where s1: "UpdateSnapshotsFromAgentStateBatch cfg now (up_agent_states up) s = Inr s1"
    using step by (auto simp: phy_StepSimulation_def split: sum.splits)
  obtain m t where s1_eq: "s1 = s\<lparr>snapshots := m, last_real_states_update := t\<rparr>" using update_snapshots [OF s1] by blast
  let ?s2 = "IngestDeliveredSwarmPackets cfg (up_delivered up) s1"
  have inv2: "pending_inv ?s2" using inv by (intro ingest_packets(2)) (simp add: s1_eq pending_inv_def)
  have e: "CurrentStepEndSimUs cfg ?s2 = e" by (simp add: e_def CurrentStepEndSimUs_def ingest_packets s1_eq)
  have r: "ReleaseDeliveredPacketsUpTo cfg e ?s2 = (s', published)"
    using step by (auto simp: phy_StepSimulation_def s1 Let_def e split: prod.splits)
  show "pending_inv s'" using release_inv [OF inv2, of cfg e] by (simp add: r)
  show "phy_it s' = phy_it s" using release_frame(1) [of cfg e ?s2] unfolding r by (simp add: ingest_packets s1_eq)
  show "\<exists>dropped. mset (pending_delivered_packets s) + mset (packets_of cfg (up_delivered up)) =
        mset published + mset dropped + mset (pending_delivered_packets s') \<and>
      (\<forall>p \<in> set published. due e p \<and> \<not> packet_expired cfg e p) \<and> (\<forall>p \<in> set dropped. due e p \<and> packet_expired cfg e p) \<and>
      (\<forall>p \<in> set (pending_delivered_packets s'). \<not> due e p) \<and> sorted (map delivery_rank published) \<and>
      published_delivered_packets s' = published_delivered_packets s + of_nat (length published) \<and>
      dropped_delivered_packets s' = dropped_delivered_packets s + of_nat (length dropped)"
    using release_parts [OF inv2 r] by (simp add: ingest_packets s1_eq)
qed

section \<open>Runs of the bridge\<close>

fun ingested :: "PhyConfig \<Rightarrow> (64 word \<times> PhyUpdate) list \<Rightarrow> PendingDeliveredPacket list" where
  "ingested cfg [] = []"
| "ingested cfg ((now, up) # ups) = (if up_close up then [] else packets_of cfg (up_delivered up) @ ingested cfg ups)"

definition step_end :: "PhyConfig \<Rightarrow> PhyState \<Rightarrow> nat \<Rightarrow> 64 word" where
  "step_end cfg s k = phy_step_us cfg * (phy_it s + of_nat k + 1)"

lemma step_end_0: "CurrentStepEndSimUs cfg s = step_end cfg s 0"
  by (simp add: CurrentStepEndSimUs_def step_end_def)

lemma step_end_Suc: "phy_it s' = phy_it s \<Longrightarrow> step_end cfg (s'\<lparr>phy_it := phy_it s' + 1\<rparr>) k = step_end cfg s (Suc k)"
  by (simp add: step_end_def algebra_simps)

lemma phy_Loop_Cons:
  assumes "phy_Loop cfg ((now, up) # ups) s = Inr (s', outs)" "\<not> up_close up"
  obtains s1 published poses outs' where "phy_StepSimulation cfg now up s = Inr (s1, published, poses)"
    "phy_Loop cfg ups (s1\<lparr>phy_it := phy_it s1 + 1\<rparr>) = Inr (s', outs')" "outs = (published, poses) # outs'"
  using assms by (auto split: sum.splits)

lemma phy_Loop_none: "phy_Loop cfg ups s = Inr (s', []) \<Longrightarrow> s' = s"
  by (cases ups) (auto split: if_splits sum.splits)

lemma phy_Loop_length: "phy_Loop cfg ups s = Inr (s', outs) \<Longrightarrow> length outs \<le> length ups"
  by (induction cfg ups s arbitrary: outs rule: phy_Loop.induct) (auto split: if_splits sum.splits)

lemma pending_inv_it [simp]: "pending_inv (s\<lparr>phy_it := i\<rparr>) = pending_inv s"
  by (simp add: pending_inv_def)

text \<open>Every packet is published once, dropped once as expired, or still waits for its time.\<close>

lemma phy_Loop_accounting:
  assumes "phy_Loop cfg ups s = Inr (s', outs)" "pending_inv s"
  shows "pending_inv s' \<and> phy_it s' = phy_it s + of_nat (length outs) \<and>
    (\<exists>dropped. mset (pending_delivered_packets s) + mset (ingested cfg ups) =
        mset (concat (map fst outs)) + mset dropped + mset (pending_delivered_packets s') \<and>
      (\<forall>p \<in> set dropped. \<exists>k < length outs. due (step_end cfg s k) p \<and> packet_expired cfg (step_end cfg s k) p) \<and>
      (outs \<noteq> [] \<longrightarrow> (\<forall>p \<in> set (pending_delivered_packets s'). \<not> due (step_end cfg s (length outs - 1)) p)) \<and>
      published_delivered_packets s' = published_delivered_packets s + of_nat (length (concat (map fst outs))) \<and>
      dropped_delivered_packets s' = dropped_delivered_packets s + of_nat (length dropped))"
  using assms
proof (induction ups arbitrary: s outs)
  case Nil
  then show ?case by simp
next
  case (Cons x ups)
  obtain now up where x: "x = (now, up)" by (cases x)
  show ?case
  proof (cases "up_close up")
    case True
    then show ?thesis using Cons.prems by (simp add: x)
  next
    case False
    obtain s1 published poses outs' where step: "phy_StepSimulation cfg now up s = Inr (s1, published, poses)"
        and loop: "phy_Loop cfg ups (s1\<lparr>phy_it := phy_it s1 + 1\<rparr>) = Inr (s', outs')" and outs: "outs = (published, poses) # outs'"
      using phy_Loop_Cons [OF Cons.prems(1) [unfolded x] False] by blast
    let ?s1 = "s1\<lparr>phy_it := phy_it s1 + 1\<rparr>"
    have inv1: "pending_inv s1" and it1: "phy_it s1 = phy_it s" by (rule phy_step_packets [OF step Cons.prems(2)])+
    note ends = step_end_Suc [OF it1, of cfg]
    obtain d1 where d1: "mset (pending_delivered_packets s) + mset (packets_of cfg (up_delivered up)) =
          mset published + mset d1 + mset (pending_delivered_packets s1)"
        "\<forall>p \<in> set d1. due (step_end cfg s 0) p \<and> packet_expired cfg (step_end cfg s 0) p"
        "\<forall>p \<in> set (pending_delivered_packets s1). \<not> due (step_end cfg s 0) p"
        "published_delivered_packets s1 = published_delivered_packets s + of_nat (length published)"
        "dropped_delivered_packets s1 = dropped_delivered_packets s + of_nat (length d1)"
      using phy_step_packets(3) [OF step Cons.prems(2)] unfolding step_end_0 by (elim exE conjE) (rule that)
    obtain d2 where d2: "pending_inv s'" "phy_it s' = phy_it ?s1 + of_nat (length outs')"
        "mset (pending_delivered_packets ?s1) + mset (ingested cfg ups) =
          mset (concat (map fst outs')) + mset d2 + mset (pending_delivered_packets s')"
        "\<forall>p \<in> set d2. \<exists>k < length outs'. due (step_end cfg ?s1 k) p \<and> packet_expired cfg (step_end cfg ?s1 k) p"
        "outs' \<noteq> [] \<longrightarrow> (\<forall>p \<in> set (pending_delivered_packets s'). \<not> due (step_end cfg ?s1 (length outs' - 1)) p)"
        "published_delivered_packets s' = published_delivered_packets ?s1 + of_nat (length (concat (map fst outs')))"
        "dropped_delivered_packets s' = dropped_delivered_packets ?s1 + of_nat (length d2)"
      using Cons.IH [OF loop, unfolded pending_inv_it, OF inv1] by (elim exE conjE) (rule that)
    have "mset (pending_delivered_packets s) + mset (ingested cfg (x # ups)) =
        mset (concat (map fst outs)) + mset (d1 @ d2) + mset (pending_delivered_packets s')"
      using d1(1) d2(3) False by (simp add: x outs) (metis (no_types, lifting) add.assoc add.commute)
    moreover have "\<exists>k < length outs. due (step_end cfg s k) p \<and> packet_expired cfg (step_end cfg s k) p" if "p \<in> set (d1 @ d2)" for p
    proof (cases "p \<in> set d1")
      case True
      then show ?thesis using d1(2) by (intro exI [of _ 0]) (simp add: outs)
    next
      case False
      then have "p \<in> set d2" using that by simp
      then obtain k where "k < length outs'" "due (step_end cfg s (Suc k)) p" "packet_expired cfg (step_end cfg s (Suc k)) p"
        using d2(4) unfolding ends by blast
      then show ?thesis by (intro exI [of _ "Suc k"]) (simp add: outs)
    qed
    moreover have "\<not> due (step_end cfg s (length outs - 1)) p" if "p \<in> set (pending_delivered_packets s')" for p
    proof (cases "outs' = []")
      case True
      then have "s' = ?s1" using loop phy_Loop_none by blast
      then show ?thesis using d1(3) that True by (simp add: outs)
    next
      case False
      then have "length outs - 1 = Suc (length outs' - 1)" by (simp add: outs)
      then show ?thesis using d2(5) that False by (simp add: ends)
    qed
    ultimately show ?thesis
      using d1 d2 by (intro conjI exI [of _ "d1 @ d2"]) (auto simp: outs it1)
  qed
qed

text \<open>A packet is published by the first step that ends after its time: it came in with that step, or was
  not due a step before.\<close>

lemma phy_Loop_on_time:
  assumes "phy_Loop cfg ups s = Inr (s', outs)" "pending_inv s" "k < length outs" "p \<in> set (fst (outs ! k))"
  shows "due (step_end cfg s k) p \<and> \<not> packet_expired cfg (step_end cfg s k) p \<and>
    (p \<in> set (packets_of cfg (up_delivered (snd (ups ! k)))) \<or>
      (if k = 0 then p \<in> set (pending_delivered_packets s) else \<not> due (step_end cfg s (k - 1)) p))"
  using assms
proof (induction ups arbitrary: s outs k)
  case Nil
  then show ?case by simp
next
  case (Cons x ups)
  obtain now up where x: "x = (now, up)" by (cases x)
  have "\<not> up_close up" using Cons.prems(1,3) by (auto simp: x)
  then obtain s1 published poses outs' where step: "phy_StepSimulation cfg now up s = Inr (s1, published, poses)"
      and loop: "phy_Loop cfg ups (s1\<lparr>phy_it := phy_it s1 + 1\<rparr>) = Inr (s', outs')" and outs: "outs = (published, poses) # outs'"
    using phy_Loop_Cons [OF Cons.prems(1) [unfolded x]] by blast
  have inv1: "pending_inv s1" and it1: "phy_it s1 = phy_it s" by (rule phy_step_packets [OF step Cons.prems(2)])+
  obtain d1 where d1: "mset (pending_delivered_packets s) + mset (packets_of cfg (up_delivered up)) =
        mset published + mset d1 + mset (pending_delivered_packets s1)"
      "\<forall>p \<in> set published. due (step_end cfg s 0) p \<and> \<not> packet_expired cfg (step_end cfg s 0) p"
      "\<forall>p \<in> set (pending_delivered_packets s1). \<not> due (step_end cfg s 0) p"
    using phy_step_packets(3) [OF step Cons.prems(2)] unfolding step_end_0 by (elim exE conjE) (rule that)
  show ?case
  proof (cases k)
    case 0
    then have p: "p \<in> set published" using Cons.prems(4) by (simp add: outs)
    then have "p \<in># mset (pending_delivered_packets s) + mset (packets_of cfg (up_delivered up))"
      unfolding d1(1) by simp
    then show ?thesis using p d1(2) 0 by (auto simp: x)
  next
    case (Suc j)
    have "due (step_end cfg s k) p \<and> \<not> packet_expired cfg (step_end cfg s k) p \<and>
      (p \<in> set (packets_of cfg (up_delivered (snd (ups ! j)))) \<or>
        (if j = 0 then p \<in> set (pending_delivered_packets s1) else \<not> due (step_end cfg s j) p))"
      using Cons.IH [OF loop, unfolded pending_inv_it, OF inv1, of j] Cons.prems(3,4) Suc
      by (cases j) (simp_all add: outs step_end_Suc [OF it1])
    then show ?thesis using Suc d1(3) by (auto split: if_splits)
  qed
qed

section \<open>Lockstep\<close>

text \<open>A lockstep run is a run of the bridge.\<close>

lemma lockstep_phy:
  assumes "lockstep cp cfg inp (cs, ph) = Inr ((cs', ph'), published)"
  obtains merged ph1 poses where "net_step (in_net inp) = Inr merged"
    "phy_StepSimulation cfg (in_clock inp) (phy_request (BuildAgentStates cp (ToUs (current_sim_time cs)) (cached_agent_states cs')) merged) ph =
      Inr (ph1, published, poses)"
    "ph' = ph1\<lparr>phy_it := phy_it ph1 + 1\<rparr>"
    "cached_agent_states cs' = fold (\<lambda>(msg, stamp, racer_id). OdomCallback cp msg stamp racer_id) (in_odom inp) (cached_agent_states cs)"
    "current_sim_time cs' = current_sim_time cs + step_size_us cp * 1000" "step_idx cs' = step_idx cs + 1"
  using assms by (auto simp: lockstep_def Let_def split: sum.splits)

lemma lockstep_Cons:
  assumes "RunStrictLockstep cp cfg len (inp # inps) st = Inr (st', outs)" "\<not> sim_ended len (fst st)"
  obtains st1 published outs' where "lockstep cp cfg inp st = Inr (st1, published)"
    "RunStrictLockstep cp cfg len inps st1 = Inr (st', outs')" "outs = published # outs'"
  using assms by (auto split: sum.splits)

text \<open>The packets the network delivers in a step.\<close>

definition delivered_in :: "PhyConfig \<Rightarrow> StepInput \<Rightarrow> PendingDeliveredPacket list" where
  "delivered_in cfg inp =
     (case in_net inp of Answer True (Parsed d) \<Rightarrow> packets_of cfg (Parsed (batch_packets d)) | _ \<Rightarrow> [])"

lemma net_step_packets:
  assumes "net_step (in_net inp) = Inr merged"
  shows "packets_of cfg (up_delivered (phy_request samples merged)) = delivered_in cfg inp"
  using assms
  by (auto simp: net_step_def net_RoundTrip_def MergeDeliveredBatches_def delivered_in_def packets_of_def phy_request_def map_payload_def
      split: net_answer.splits if_splits sum.splits payload.splits)

definition up_packets :: "PhyConfig \<Rightarrow> 64 word \<times> PhyUpdate \<Rightarrow> PendingDeliveredPacket list" where
  "up_packets cfg u = packets_of cfg (up_delivered (snd u))"

lemma lockstep_run:
  assumes "RunStrictLockstep cp cfg len inps (cs, ph) = Inr ((cs', ph'), outs)"
  shows "\<exists>ups couts. phy_Loop cfg ups ph = Inr (ph', couts) \<and> map fst couts = outs \<and>
      map (up_packets cfg) ups = map (delivered_in cfg) (take (length outs) inps) \<and>
      ingested cfg ups = concat (map (delivered_in cfg) (take (length outs) inps)) \<and>
      current_sim_time cs' = current_sim_time cs + of_nat (length outs) * (step_size_us cp * 1000) \<and>
      step_idx cs' = step_idx cs + of_nat (length outs)"
  using assms
proof (induction inps arbitrary: cs ph outs)
  case Nil
  then show ?case by (intro exI [of _ "[]"]) simp
next
  case (Cons inp inps)
  show ?case
  proof (cases "sim_ended len cs")
    case True
    then show ?thesis using Cons.prems by (intro exI [of _ "[]"]) simp
  next
    case False
    then have running: "\<not> sim_ended len (fst (cs, ph))" by simp
    obtain st1 published outs' where l: "lockstep cp cfg inp (cs, ph) = Inr (st1, published)"
        and r: "RunStrictLockstep cp cfg len inps st1 = Inr ((cs', ph'), outs')" and outs: "outs = published # outs'"
      by (rule lockstep_Cons [OF Cons.prems running])
    obtain cs1 ph1 where st1: "st1 = (cs1, ph1)" by (cases st1)
    obtain merged ph2 poses where merged: "net_step (in_net inp) = Inr merged" and ph2: "phy_StepSimulation cfg (in_clock inp)
          (phy_request (BuildAgentStates cp (ToUs (current_sim_time cs)) (cached_agent_states cs1)) merged) ph = Inr (ph2, published, poses)"
        "ph1 = ph2\<lparr>phy_it := phy_it ph2 + 1\<rparr>"
        and clock: "current_sim_time cs1 = current_sim_time cs + step_size_us cp * 1000" "step_idx cs1 = step_idx cs + 1"
      by (rule lockstep_phy [OF l [unfolded st1]])
    let ?up = "phy_request (BuildAgentStates cp (ToUs (current_sim_time cs)) (cached_agent_states cs1)) merged"
    have packets: "packets_of cfg (up_delivered ?up) = delivered_in cfg inp" by (rule net_step_packets [OF merged])
    have open_up: "\<not> up_close ?up" by (simp add: phy_request_def)
    obtain ups couts where IH: "phy_Loop cfg ups ph1 = Inr (ph', couts)" "map fst couts = outs'"
        "map (up_packets cfg) ups = map (delivered_in cfg) (take (length outs') inps)"
        "ingested cfg ups = concat (map (delivered_in cfg) (take (length outs') inps))"
        "current_sim_time cs' = current_sim_time cs1 + of_nat (length outs') * (step_size_us cp * 1000)"
        "step_idx cs' = step_idx cs1 + of_nat (length outs')"
      using Cons.IH [OF r [unfolded st1]] by (elim exE conjE) (rule that)
    let ?ups = "(in_clock inp, ?up) # ups"
    have "phy_Loop cfg ?ups ph = Inr (ph', (published, poses) # couts)" using IH(1) open_up by (simp add: ph2)
    moreover have "current_sim_time cs' = current_sim_time cs + of_nat (length outs) * (step_size_us cp * 1000)"
        "step_idx cs' = step_idx cs + of_nat (length outs)"
      by (simp_all add: IH clock outs algebra_simps)
    moreover have "map fst ((published, poses) # couts) = outs" by (simp add: IH outs)
    moreover have "map (up_packets cfg) ?ups = map (delivered_in cfg) (take (length outs) (inp # inps))"
        "ingested cfg ?ups = concat (map (delivered_in cfg) (take (length outs) (inp # inps)))"
      using open_up by (simp_all add: IH outs packets up_packets_def)
    ultimately show ?thesis by blast
  qed
qed

text \<open>With equal step sizes the end of the bridge's step is the end of the coordinator's window, as
  long as the clock does not wrap.\<close>

lemma window_end:
  assumes "phy_step_us cfg = step_size_us cp" "phy_it ph = of_nat n" "current_sim_time cs = of_nat n * (step_size_us cp * 1000)"
    and "unat (step_size_us cp) * 1000 * (n + 1) < 2 ^ 64"
  shows "CurrentStepEndSimUs cfg ph = ToUs (current_sim_time cs) + step_size_us cp"
proof -
  let ?u = "unat (step_size_us cp)"
  have t: "current_sim_time cs = of_nat (n * (?u * 1000))" by (simp add: assms(3))
  have "n * (?u * 1000) \<le> ?u * 1000 * (n + 1)" by (simp only: mult.commute [of n] mult_le_mono2 le_add1)
  then have "n * (?u * 1000) < 2 ^ 64" using assms(4) by (rule order_le_less_trans)
  then have "n * (?u * 1000) < 2 ^ LENGTH(64)" by simp
  then have ns: "unat (current_sim_time cs) = n * (?u * 1000)" unfolding t by (rule of_nat_inverse [OF refl])
  have "unat (ToUs (current_sim_time cs)) = n * (?u * 1000) div 1000" by (simp add: ToUs_def unat_div ns)
  also have "\<dots> = n * ?u" by (simp only: mult.assoc [symmetric])
  finally have "unat (ToUs (current_sim_time cs)) = n * ?u" .
  moreover have "of_nat (unat (ToUs (current_sim_time cs))) = ToUs (current_sim_time cs)" by simp
  ultimately have "ToUs (current_sim_time cs) = of_nat (n * ?u)" by (simp only:)
  then show ?thesis by (simp add: CurrentStepEndSimUs_def assms(1,2) algebra_simps)
qed

section \<open>States of the drones\<close>

text \<open>What a sample makes of the entry of its drone.\<close>

definition snapshot_of_sample :: "64 word \<Rightarrow> AgentStateSample \<Rightarrow> AgentSnapshot" where
  "snapshot_of_sample now s =
     \<lparr>sn_x = vx (smp_pos s), sn_y = vy (smp_pos s), sn_z = vz (smp_pos s),
      sn_vx = vx (smp_vel s), sn_vy = vy (smp_vel s), sn_vz = vz (smp_vel s), sn_heading = smp_heading s,
      sn_stamp = (if smp_source_stamp_us s > 0 then smp_source_stamp_us s * 1000 else now),
      sn_has_real_state = smp_has_real_state s\<rparr>"

definition sample_effect ::
  "bool \<Rightarrow> 64 word \<Rightarrow> AgentStateSample \<Rightarrow> AgentSnapshot option \<Rightarrow> AgentSnapshot option" where
  "sample_effect ignore_stale now s old =
     (if ignore_stale \<and> \<not> (smp_has_real_state s \<and> smp_is_fresh s)
      then map_option (\<lambda>st. st\<lparr>sn_has_real_state := False\<rparr>) old else Some (snapshot_of_sample now s))"

lemma apply_sample_lookup:
  assumes "apply_sample ign now s (m, n) = Inr (m', n')"
  shows "map_of m' a = (if a = smp_agent_id s then sample_effect ign now s (map_of m a) else map_of m a)"
proof (cases "ign \<and> \<not> (smp_has_real_state s \<and> smp_is_fresh s)")
  case True
  then show ?thesis using assms
    by (auto simp: apply_sample_def sample_effect_def Let_def umap_simps split: option.splits)
next
  case False
  obtain stamp where stamp: "(if smp_source_stamp_us s > 0 then fromNSec (smp_source_stamp_us s * 1000) else Inr now) = Inr stamp"
    using assms False by (auto simp: apply_sample_def Let_def split: sum.splits)
  then have "stamp = (if smp_source_stamp_us s > 0 then smp_source_stamp_us s * 1000 else now)"
    by (auto simp: fromNSec_def split: if_splits)
  with assms False stamp show ?thesis
    by (auto simp: apply_sample_def sample_effect_def snapshot_of_sample_def Let_def umap_simps)
qed

lemma apply_samples_lookup:
  assumes "apply_samples ign now ss (m, n) = Inr (m', n')" "distinct (map smp_agent_id ss)"
  shows "(\<forall>s \<in> set ss. map_of m' (smp_agent_id s) = sample_effect ign now s (map_of m (smp_agent_id s))) \<and>
    (\<forall>a. a \<notin> smp_agent_id ` set ss \<longrightarrow> map_of m' a = map_of m a)"
  using assms
proof (induction ss arbitrary: m n)
  case Nil
  then show ?case by simp
next
  case (Cons s ss)
  obtain m1 n1 where one: "apply_sample ign now s (m, n) = Inr (m1, n1)"
      and rest: "apply_samples ign now ss (m1, n1) = Inr (m', n')"
    using Cons.prems(1) by (auto split: sum.splits)
  have s: "smp_agent_id s \<notin> smp_agent_id ` set ss" "distinct (map smp_agent_id ss)" using Cons.prems(2) by auto
  note IH = Cons.IH [OF rest s(2)]
  note look = apply_sample_lookup [OF one]
  have first: "map_of m' (smp_agent_id s) = sample_effect ign now s (map_of m (smp_agent_id s))"
    using IH s(1) look by simp
  have later: "map_of m' (smp_agent_id t) = sample_effect ign now t (map_of m (smp_agent_id t))" if "t \<in> set ss" for t
  proof -
    have "smp_agent_id t \<noteq> smp_agent_id s" using s(1) that by (metis image_eqI)
    then show ?thesis using IH that look by simp
  qed
  have others: "map_of m' a = map_of m a" if "a \<notin> smp_agent_id ` set (s # ss)" for a
    using IH that look by simp
  show ?case using first later others by simp
qed

lemma phy_step_snapshots:
  assumes "phy_StepSimulation cfg now up s = Inr (s', published, poses)" "up_agent_states up = Parsed samples"
  shows "\<exists>m n. apply_samples (ignore_stale_agent_states cfg) now samples (snapshots s, 0) = Inr (m, n) \<and>
    snapshots s' = m \<and> poses = GenerateResponseProtobuf s'"
proof -
  obtain m n where m: "apply_samples (ignore_stale_agent_states cfg) now samples (snapshots s, 0) = Inr (m, n)"
    using assms by (auto simp: phy_StepSimulation_def UpdateSnapshotsFromAgentStateBatch_def split: sum.splits)
  let ?s1 = "s\<lparr>snapshots := m, last_real_states_update := (if n > 0 then now else last_real_states_update s)\<rparr>"
  have s1: "UpdateSnapshotsFromAgentStateBatch cfg now (up_agent_states up) s = Inr ?s1"
    by (simp add: UpdateSnapshotsFromAgentStateBatch_def assms(2) m)
  let ?s2 = "IngestDeliveredSwarmPackets cfg (up_delivered up) ?s1"
  have "fst (ReleaseDeliveredPacketsUpTo cfg (CurrentStepEndSimUs cfg ?s2) ?s2) = s'" "poses = GenerateResponseProtobuf s'"
    using assms(1) unfolding phy_StepSimulation_def s1 by (auto simp: Let_def split: prod.splits)
  then have "snapshots s' = m" "poses = GenerateResponseProtobuf s'"
    using release_frame(2) [of cfg "CurrentStepEndSimUs cfg ?s2" ?s2] by (simp_all add: ingest_packets)
  with m show ?thesis by blast
qed

lemma sample_of_simps:
  "smp_agent_id (sample_of cp t (a, st)) = a"
  "smp_source_stamp_us (sample_of cp t (a, st)) = ca_source_stamp_us st"
  by (simp_all add: sample_of_def Let_def)

lemma OdomCallback_keys: "distinct_keys cache \<Longrightarrow> distinct_keys (OdomCallback cp msg stamp racer_id cache)"
  by (simp add: OdomCallback_def Let_def distinct_keys_update)

lemma odom_keys:
  "distinct_keys cache \<Longrightarrow> distinct_keys (fold (\<lambda>(msg, stamp, racer_id). OdomCallback cp msg stamp racer_id) es cache)"
  by (induction es arbitrary: cache) (auto simp: OdomCallback_keys)

lemma batch_ids:
  assumes "distinct_keys cache"
  shows "distinct (map smp_agent_id (BuildAgentStates cp t cache))"
    and "map_of cache a = Some st \<Longrightarrow> sample_of cp t (a, st) \<in> set (BuildAgentStates cp t cache)"
proof -
  have "map smp_agent_id (BuildAgentStates cp t cache) = map fst (sort_key fst cache)"
    by (auto simp: BuildAgentStates_def sample_of_simps)
  moreover have "distinct (map fst (sort_key fst cache))"
    using assms by (simp add: distinct_map)
  ultimately show "distinct (map smp_agent_id (BuildAgentStates cp t cache))" by simp
  show "map_of cache a = Some st \<Longrightarrow> sample_of cp t (a, st) \<in> set (BuildAgentStates cp t cache)"
    by (auto simp: BuildAgentStates_def dest: map_of_SomeD)
qed

text \<open>After a step the bridge has what the coordinator knows of a drone.\<close>

lemma lockstep_states:
  assumes step: "lockstep cp cfg inp (cs, ph) = Inr ((cs', ph'), published)"
    and keys: "distinct_keys (cached_agent_states cs)" and a: "map_of (cached_agent_states cs') a = Some st"
  shows "map_of (snapshots ph') a =
    sample_effect (ignore_stale_agent_states cfg) (in_clock inp) (sample_of cp (ToUs (current_sim_time cs)) (a, st)) (map_of (snapshots ph) a)"
proof -
  let ?samples = "BuildAgentStates cp (ToUs (current_sim_time cs)) (cached_agent_states cs')"
  obtain merged ph1 poses where ph1: "phy_StepSimulation cfg (in_clock inp) (phy_request ?samples merged) ph = Inr (ph1, published, poses)"
      "ph' = ph1\<lparr>phy_it := phy_it ph1 + 1\<rparr>"
      and cache: "cached_agent_states cs' = fold (\<lambda>(msg, stamp, racer_id). OdomCallback cp msg stamp racer_id) (in_odom inp) (cached_agent_states cs)"
    by (rule lockstep_phy [OF step])
  have keys': "distinct_keys (cached_agent_states cs')" unfolding cache by (rule odom_keys [OF keys])
  have "up_agent_states (phy_request ?samples merged) = Parsed ?samples" by (simp add: phy_request_def)
  then obtain m n where m: "apply_samples (ignore_stale_agent_states cfg) (in_clock inp) ?samples (snapshots ph, 0) = Inr (m, n)"
      "snapshots ph1 = m" using phy_step_snapshots [OF ph1(1)] by blast
  have "map_of m (smp_agent_id (sample_of cp (ToUs (current_sim_time cs)) (a, st))) =
      sample_effect (ignore_stale_agent_states cfg) (in_clock inp) (sample_of cp (ToUs (current_sim_time cs)) (a, st))
        (map_of (snapshots ph) (smp_agent_id (sample_of cp (ToUs (current_sim_time cs)) (a, st))))"
    using apply_samples_lookup [OF m(1) batch_ids(1) [OF keys']] batch_ids(2) [OF keys' a] by blast
  then show ?thesis by (simp add: sample_of_simps ph1(2) m(2))
qed

end
