(* ===== verification/Transport_Claims.thy ===== *)
theory Transport_Claims imports Transport_Phy_Props
begin

text \<open>
  The properties of the transport: from the sender over the forwarders to the receiver, and from the
  network simulator over the coordinator to the physics bridge.
\<close>

section \<open>Examples\<close>

definition ex_ros :: "8 word \<Rightarrow> RosMessage" where
  "ex_ros b = \<lparr>ros_datatype = ''swarm/State'', ros_md5 = ''0'', ros_msg_def = ''float64 x'', ros_payload = [b]\<rparr>"

definition ex_sending :: "sending list" where
  "ex_sending = [(ex_ros 1, 1, ''drone_state'', 5), (ex_ros 2, 1, ''drone_state'', 6)]"

definition ex_sent :: "nat \<Rightarrow> RacerSwarmMsg" where
  "ex_sent i = tx_messages 1 ex_sending [] ! i"

lemma ex_sent_simps:
  "wm_family (ex_sent 0) = ''drone_state''" "wm_family (ex_sent (Suc 0)) = ''drone_state''"
  "wm_bridge_seq (ex_sent 0) = 0" "wm_bridge_seq (ex_sent (Suc 0)) = 1"
  "wm_relay_hop_count (ex_sent 0) = 0" "wm_max_relay_hops (ex_sent 0) = 1" "wm_network_tx_id (ex_sent 0) = 1"
  "ex_sent 0 \<in> set (tx_messages 1 ex_sending [])"
  by (simp_all add: ex_sent_def ex_sending_def tx_messageCallback_def nextSeq_def Let_def)

definition ex_relay :: ForwarderState where
  "ex_relay = fwd_init\<lparr>relay_active_by_agent := [(2, True)]\<rparr>"

lemma ex_relay_run: "fwd_run ttl [] 0 ex_relay"
proof -
  let ?msg = "\<lparr>rrc_stamp = 0, rrc_agent_id = 2, rrc_role = ROLE_RELAY, rrc_relay_target = zero_point, rrc_relay_yaw = 0, rrc_valid = True\<rparr>"
  have "fwd_relayRoleCallback ?msg fwd_init = ex_relay"
    by (simp add: fwd_relayRoleCallback_def ex_relay_def fwd_init_def)
  then show ?thesis using fwd_run.role [OF fwd_run.start, of ttl ?msg] by simp
qed

lemma ex_may_forward: "may_forward ex_relay (ex_sent 0\<lparr>wm_dst_id := 2\<rparr>)"
  by (simp add: may_forward_def ex_sent_simps isRelayActive_def ex_relay_def)

section \<open>Messages\<close>

text \<open>A message of the run, and the copies of it that have been received.\<close>

lemma same_message:
  assumes ms: "ids_ok ms" "length ms \<le> 2 ^ 64" and j: "j < length ms" "i < length ms"
    and v: "travels (tx_messages hops ms [] ! j) n v" and w: "travels (tx_messages hops ms [] ! i) m w"
  shows "(wm_family v, wm_src_id v, wm_bridge_seq v) = (wm_family w, wm_src_id w, wm_bridge_seq w) \<longleftrightarrow> j = i"
proof -
  let ?ws = "tx_messages hops ms []"
  have "next_seq_of [] k = of_nat 0" for k by (simp add: next_seq_of_def)
  then have "distinct (map msg_id ?ws)" using tx_distinct [OF ms(1), of "[]" "\<lambda>k. 0" hops] ms(2) by simp
  then have "msg_id (?ws ! j) = msg_id (?ws ! i) \<longleftrightarrow> j = i"
    using j nth_eq_iff_index_eq [of "map msg_id ?ws" j i] by (simp add: tx_length)
  then show ?thesis using travels_invariant(1) [OF v] travels_invariant(1) [OF w] by (simp add: msg_id_def)
qed

text \<open>C30: A message of a drone, however often it was forwarded, is published by the receiver on the
  topic of its family and destination with its content unchanged, exactly unless a copy of the same
  message for the same destination came within the time to live. No other message is taken for a copy.\<close>

theorem sent_message_delivered:
  assumes ms: "ids_ok ms" "length ms \<le> 2 ^ 64"
    and i: "i < length ms" "ms ! i = (msg, src_id, family, sent_us)" "map_of tx_families family = Some base"
    and run: "rx_run ttl hist t0 s"
    and hist: "\<And>t v. (t, v) \<in> set hist \<Longrightarrow> \<exists>j n. j < length ms \<and> travels (tx_messages hops ms [] ! j) n v"
    and w: "travels (tx_messages hops ms [] ! i) n w" "wm_dst_id w \<noteq> 0"
    and t: "t0 \<le> prune_us" "prune_us \<le> now"
  shows "snd (rx_bytesCallback ttl prune_us now (Some w) s) =
    (if \<exists>(t, v) \<in> set hist. (\<exists>m. travels (tx_messages hops ms [] ! i) m v) \<and> wm_dst_id v = wm_dst_id w \<and>
        now - t \<le> ttl_to_us ttl
     then None else Some (recv_topic base (uint (wm_dst_id w)), msg))"
proof -
  let ?ws = "tx_messages hops ms []"
  have sent: "wm_family (?ws ! i) = family" "wm_ros (?ws ! i) = msg" using tx_nth [OF i(1,2)] by auto
  then have w': "wm_family w = family" "wm_ros w = msg" using travels_invariant(1) [OF w(1)] by auto
  have acc: "rx_accepts w" using w(2) i(3) by (simp add: rx_accepts_def w' same_families)
  have "seen_lately (ttl_to_us ttl) (\<lambda>w. (wm_family w, wm_src_id w, wm_bridge_seq w, wm_dst_id w)) hist now w \<longleftrightarrow>
      (\<exists>(t, v) \<in> set hist. (\<exists>m. travels (?ws ! i) m v) \<and> wm_dst_id v = wm_dst_id w \<and> now - t \<le> ttl_to_us ttl)"
    (is "?L \<longleftrightarrow> ?R")
  proof
    assume ?L
    then obtain t v where v: "(t, v) \<in> set hist" "now - t \<le> ttl_to_us ttl" "wm_dst_id v = wm_dst_id w"
        "(wm_family v, wm_src_id v, wm_bridge_seq v) = (wm_family w, wm_src_id w, wm_bridge_seq w)"
      by (auto simp: seen_lately_def)
    obtain j m where "j < length ms" "travels (?ws ! j) m v" using hist [OF v(1)] by blast
    then show ?R using same_message [OF ms _ i(1) _ w(1)] v by blast
  next
    assume ?R
    then obtain t v m where v: "(t, v) \<in> set hist" "travels (?ws ! i) m v" "wm_dst_id v = wm_dst_id w" "now - t \<le> ttl_to_us ttl"
      by blast
    then show ?L using travels_invariant(1) [OF v(2)] travels_invariant(1) [OF w(1)] by (force simp: seen_lately_def)
  qed
  then show ?thesis using rx_step(2) [OF rx_run_inv [OF run] acc t] i(3) by (simp add: w' same_families)
qed

theorem sent_message_delivered_witness:
  "snd (rx_bytesCallback 1 20 30 (Some (ex_sent 1\<lparr>wm_dst_id := 2\<rparr>))
      (fst (rx_bytesCallback 1 0 10 (Some (ex_sent 0\<lparr>wm_dst_id := 2\<rparr>)) rx_init))) =
    Some (recv_topic ''/swarm_expl/drone_state'' 2, ex_ros 2)"
proof -
  let ?v = "ex_sent 0\<lparr>wm_dst_id := 2\<rparr>" and ?w = "ex_sent 1\<lparr>wm_dst_id := 2\<rparr>"
  have acc: "rx_accepts ?v" by (simp add: rx_accepts_def ex_sent_simps rx_families_def)
  have run: "rx_run 1 [(10, ?v)] 10 (fst (rx_bytesCallback 1 0 10 (Some ?v) rx_init))"
    using rx_run.recv [OF rx_run.start, of 0 10 1 "Some ?v"] acc by simp
  have ms: "ids_ok ex_sending" "length ex_sending \<le> 2 ^ 64" "1 < length ex_sending"
      "ex_sending ! 1 = (ex_ros 2, 1, ''drone_state'', 6)"
    by (simp_all add: ids_ok_def id_ok_def ex_sending_def)
  have fam: "map_of tx_families ''drone_state'' = Some ''/swarm_expl/drone_state''" by (simp add: tx_families_def)
  have tv: "travels (ex_sent 0) 0 ?v" and tw: "travels (ex_sent 1) 0 ?w" by (rule travels.sent)+
  have hist: "\<exists>j n. j < length ex_sending \<and> travels (tx_messages 1 ex_sending [] ! j) n v" if "(t, v) \<in> set [(10 :: 64 word, ?v)]" for t v
    using that tv by (intro exI [of _ 0]) (auto simp: ex_sent_def ex_sending_def)
  have other: "\<not> travels (ex_sent 1) m ?v" for m
    using travels_invariant(1) [of "ex_sent 1" m ?v] by (auto simp: ex_sent_simps)
  show ?thesis
    using sent_message_delivered [OF ms fam run hist tw [unfolded ex_sent_def], where prune_us = 20 and now = 30, folded ex_sent_def] other
    by simp
qed

text \<open>A relay forwards a packet exactly when it is an active relay, the packet has hops left and
  does not come from the relay itself, and the relay has not seen the same message within the time to
  live.\<close>

theorem forwarder_exact:
  assumes "fwd_run ttl hist t0 s" "family_ok w" "t0 \<le> prune_us" "prune_us \<le> now"
  shows "snd (fwd_rxBytesCallback ttl prune_us now (Some w) s) =
    (if may_forward s w \<and>
        \<not> (\<exists>(t, i, v) \<in> set hist. (i, wm_family v, wm_src_id v, wm_bridge_seq v) =
             (sint (wm_dst_id w), wm_family w, wm_src_id w, wm_bridge_seq w) \<and> now - t \<le> ttl_to_us ttl)
     then Some (hop w) else None)"
proof (cases "may_forward s w")
  case True
  have "seen_lately (ttl_to_us ttl) (\<lambda>(i, w). (i, wm_family w, wm_src_id w, wm_bridge_seq w)) hist now (sint (wm_dst_id w), w) \<longleftrightarrow>
      (\<exists>(t, i, v) \<in> set hist. (i, wm_family v, wm_src_id v, wm_bridge_seq v) =
         (sint (wm_dst_id w), wm_family w, wm_src_id w, wm_bridge_seq w) \<and> now - t \<le> ttl_to_us ttl)"
    by (simp add: seen_lately_def case_prod_beta)
  then show ?thesis using fwd_step(2) [OF fwd_run_inv [OF assms(1)] True assms(2-4)] True by simp
next
  case False
  then show ?thesis by (simp add: fwd_skip)
qed

theorem forwarder_exact_witness:
  "snd (fwd_rxBytesCallback 1 20 30 (Some (ex_sent 0\<lparr>wm_dst_id := 2\<rparr>)) ex_relay) = Some (hop (ex_sent 0\<lparr>wm_dst_id := 2\<rparr>))"
proof -
  have "family_ok (ex_sent 0\<lparr>wm_dst_id := 2\<rparr>)" by (simp add: family_ok_def ex_sent_simps)
  from forwarder_exact [OF ex_relay_run this, of 20 30 1] ex_may_forward show ?thesis by simp
qed

text \<open>A message is forwarded at most as often as the sender allows, its hop count says how often,
  and its family, source, sequence number and content stay the same.\<close>

theorem hop_budget:
  assumes "w \<in> set (tx_messages hops ms [])" "hops < 2 ^ 31" "travels w n v"
  shows "int n \<le> max 0 hops \<and> unat (wm_relay_hop_count v) = n \<and>
    (wm_family v, wm_src_id v, wm_bridge_seq v, wm_ros v) = (wm_family w, wm_src_id w, wm_bridge_seq w, wm_ros w)"
proof -
  have w: "wm_relay_hop_count w = 0" "wm_max_relay_hops w = word_of_int (max 0 hops)" using tx_hops [OF assms(1)] by auto
  have "uint (word_of_int (max 0 hops) :: 32 word) = max 0 hops"
    by (rule id_ok_uint) (use assms(2) in \<open>simp add: id_ok_def\<close>)
  then have budget: "int (unat (wm_max_relay_hops w)) = max 0 hops" by (simp add: w)
  have "unat (wm_relay_hop_count v) = n" using travels_invariant(2) [OF assms(3)] by (simp add: w)
  moreover have "int n \<le> max 0 hops" using travels_invariant(3) [OF assms(3)] calculation budget by linarith
  ultimately show ?thesis using travels_invariant(1) [OF assms(3)] by simp
qed

theorem hop_budget_witness:
  "wm_relay_hop_count (hop (ex_sent 0\<lparr>wm_dst_id := 2\<rparr>)\<lparr>wm_dst_id := 3\<rparr>) = 1"
proof -
  let ?v = "ex_sent 0\<lparr>wm_dst_id := 2\<rparr>"
  have ok: "family_ok ?v" by (simp add: family_ok_def ex_sent_simps)
  have "snd (fwd_rxBytesCallback 1 20 30 (Some ?v) ex_relay) = Some (hop ?v)"
    using fwd_step(2) [OF fwd_run_inv [OF ex_relay_run] ex_may_forward ok, of 20 30 1] by (simp add: seen_lately_def)
  then have "fwd_rxBytesCallback 1 20 30 (Some ?v) ex_relay = (fst (fwd_rxBytesCallback 1 20 30 (Some ?v) ex_relay), Some (hop ?v))"
    by (metis prod.collapse)
  from travels.forward [OF travels.sent this] have "travels (ex_sent 0) (Suc 0) (hop ?v\<lparr>wm_dst_id := 3\<rparr>)" .
  from hop_budget [OF ex_sent_simps(8) _ this] have "unat (wm_relay_hop_count (hop ?v\<lparr>wm_dst_id := 3\<rparr>)) = 1" by simp
  then show ?thesis by (metis unat_1 word_unat_eq_iff)
qed

section \<open>Packets\<close>

definition ex_cp :: CoordParams where
  "ex_cp = \<lparr>step_size_us = 1000, id_offset = - 1, agent_state_max_age_us = 250000, agent_state_future_tolerance_us = 1000\<rparr>"

definition ex_cfg :: PhyConfig where
  "ex_cfg = \<lparr>phy_step_us = 1000, comm_processing_delay_us = 0, comm_ttl_us = 5000000, ignore_stale_agent_states = True\<rparr>"

definition ex_grid :: InitialGrid where
  "ex_grid = \<lparr>initial_spacing = 1, initial_x = 0, initial_y = 0, initial_z = 1, initial_heading = 0\<rparr>"

definition ex_packet :: DeliveredPacket where
  "ex_packet = \<lparr>dp_rx_time_us = 500, dp_dst_id = 1, dp_src_id = 0, dp_flow_id = 30, dp_seq = 0, dp_wrapped_msg = [7]\<rparr>"

definition ex_odom :: PhyOdometry where
  "ex_odom = \<lparr>odom_pos = \<lparr>vx = 1, vy = 2, vz = 3\<rparr>, odom_quat = (0, 0, 0, 1), odom_twist = zero_vector\<rparr>"

definition ex_input :: StepInput where
  "ex_input = \<lparr>in_odom = [(ex_odom, 2000, 1)],
     in_net = Answer True (Parsed \<lparr>t_window_start_us = 0, t_window_end_us = 1000, batch_packets = [ex_packet]\<rparr>), in_clock = 77\<rparr>"

definition ex_start :: "CoordState \<times> PhyState" where
  "ex_start = (coord_init 0 None ex_grid, phy_init 0 None ex_grid)"

definition ex_cached :: CachedAgentState where
  "ex_cached = \<lparr>ca_x = 1, ca_y = 2, ca_z = 3, ca_vx = 0, ca_vy = 0, ca_vz = 0, ca_heading = 0,
     ca_source_stamp_us = 2, ca_has_real_state = True\<rparr>"

lemma ex_lockstep:
  obtains cs ph where "lockstep ex_cp ex_cfg ex_input ex_start = Inr ((cs, ph), [pending_of ex_cfg ex_packet])"
    "cached_agent_states cs = [(0, ex_cached)]"
proof -
  have cache: "fold (\<lambda>(msg, stamp, racer_id). OdomCallback ex_cp msg stamp racer_id) (in_odom ex_input)
      (cached_agent_states (fst ex_start)) = [(0, ex_cached)]"
    by (simp add: ex_input_def ex_start_def coord_init_def coord_InitFallbackStates_def InitFallbackStates_def OdomCallback_def
        ex_cp_def ex_odom_def ex_cached_def HeadingFromQuaternion_def atan2_def zero_vector_def ToUs_def)
  have net: "net_step (in_net ex_input) =
      Inr (Parsed \<lparr>t_window_start_us = 0, t_window_end_us = 1000, batch_packets = [ex_packet]\<rparr>)"
    by (simp add: net_step_def net_RoundTrip_def MergeDeliveredBatches_def ex_input_def)
  have samples: "BuildAgentStates ex_cp (ToUs (current_sim_time (fst ex_start))) [(0, ex_cached)] = [sample_of ex_cp 0 (0, ex_cached)]"
    by (simp add: BuildAgentStates_def ex_start_def coord_init_def ToUs_def)
  let ?sample = "sample_of ex_cp 0 (0, ex_cached)"
  have fresh: "apply_sample True 77 ?sample ([], 0) = Inr ([(0, snapshot_of_sample 77 ?sample)], 1)"
    by (simp add: apply_sample_def sample_of_def ex_cached_def ex_cp_def EvaluateAgentStateFreshness_def fromNSec_def Let_def
        snapshot_of_sample_def)
  let ?s1 = "(snd ex_start)\<lparr>snapshots := [(0, snapshot_of_sample 77 ?sample)], last_real_states_update := 77\<rparr>"
  have s0: "snapshots (snd ex_start) = []" "pending_delivered_packets (snd ex_start) = []" "phy_it (snd ex_start) = 0"
    by (simp_all add: ex_start_def phy_init_def InitFallbackStates_def)
  have s1: "UpdateSnapshotsFromAgentStateBatch ex_cfg 77 (Parsed [?sample]) (snd ex_start) = Inr ?s1"
    by (simp add: UpdateSnapshotsFromAgentStateBatch_def ex_cfg_def fresh s0)
  let ?s2 = "?s1\<lparr>pending_delivered_packets := [pending_of ex_cfg ex_packet], pending_deliveries_dirty := True\<rparr>"
  have s2: "IngestDeliveredSwarmPackets ex_cfg (Parsed [ex_packet]) ?s1 = ?s2"
    by (simp add: IngestDeliveredSwarmPackets_def s0 ex_packet_def)
  have now_due: "deliver_us (pending_of ex_cfg ex_packet) \<le> 1000" "\<not> packet_expired ex_cfg 1000 (pending_of ex_cfg ex_packet)"
    by (simp_all add: pending_of_def ex_packet_def ex_cfg_def SaturatedAdd_def packet_expired_def)
  obtain ph where ph: "ReleaseDeliveredPacketsUpTo ex_cfg (CurrentStepEndSimUs ex_cfg ?s2) ?s2 = (ph, [pending_of ex_cfg ex_packet])"
    using now_due by (simp add: ReleaseDeliveredPacketsUpTo_def CurrentStepEndSimUs_def s0 sort_by_def ex_cfg_def [THEN arg_cong, of phy_step_us])
  have "phy_StepSimulation ex_cfg 77 (phy_request [?sample]
      (Parsed \<lparr>t_window_start_us = 0, t_window_end_us = 1000, batch_packets = [ex_packet]\<rparr>)) (snd ex_start) =
      Inr (ph, [pending_of ex_cfg ex_packet], GenerateResponseProtobuf ph)"
    by (simp add: phy_StepSimulation_def phy_request_def map_payload_def s1 s2 ph Let_def)
  then show ?thesis
    using that cache net samples by (simp add: lockstep_def Let_def case_prod_beta ex_input_def)
qed


text \<open>C31: In a lockstep run from the start every packet that the network delivered is published once,
  or dropped as expired in a step that ended after its time, or still waits for its time. A packet is
  published in the step whose window contains its time, or in the one it came in with when that is later.
  The clocks of coordinator and bridge agree.\<close>

theorem lockstep_accounting:
  fixes robots poses g
  assumes run: "RunStrictLockstep cp cfg len inps (coord_init robots poses g, phy_init robots poses g) = Inr ((cs, ph), outs)"
    and step: "phy_step_us cfg = step_size_us cp"
  defines "window \<equiv> \<lambda>k. of_nat k * step_size_us cp" and "n \<equiv> length outs"
  shows "(\<exists>dropped. mset (concat (map (delivered_in cfg) (take n inps))) =
        mset (concat outs) + mset dropped + mset (pending_delivered_packets ph) \<and>
      (\<forall>p \<in> set dropped. \<exists>k < n. deliver_us p \<le> window (k + 1) \<and> packet_expired cfg (window (k + 1)) p) \<and>
      (n > 0 \<longrightarrow> (\<forall>p \<in> set (pending_delivered_packets ph). window n < deliver_us p))) \<and>
    (\<forall>k < n. \<forall>p \<in> set (outs ! k). deliver_us p \<le> window (k + 1) \<and> \<not> packet_expired cfg (window (k + 1)) p \<and>
      (p \<in> set (delivered_in cfg (inps ! k)) \<or> k > 0 \<and> window k < deliver_us p)) \<and>
    (unat (step_size_us cp) * 1000 * (n + 1) < 2 ^ 64 \<longrightarrow>
      CurrentStepEndSimUs cfg ph = ToUs (current_sim_time cs) + step_size_us cp)"
proof -
  let ?ph0 = "phy_init robots poses g"
  obtain ups couts where loop: "phy_Loop cfg ups ?ph0 = Inr (ph, couts)" and outs: "map fst couts = outs"
      and ups: "map (up_packets cfg) ups = map (delivered_in cfg) (take n inps)"
      and ing: "ingested cfg ups = concat (map (delivered_in cfg) (take n inps))"
      and clock: "current_sim_time cs = current_sim_time (coord_init robots poses g) + of_nat n * (step_size_us cp * 1000)"
    using lockstep_run [OF run, folded n_def] by (elim exE conjE) (rule that)
  have inv: "pending_inv ?ph0" by (simp add: phy_init_def pending_inv_def)
  have len: "length couts = n" using outs by (auto simp: n_def)
  have ends: "step_end cfg ?ph0 k = window (k + 1)" for k
    by (simp add: step_end_def phy_init_def window_def step algebra_simps)
  obtain dropped where d: "mset (pending_delivered_packets ?ph0) + mset (ingested cfg ups) =
        mset (concat (map fst couts)) + mset dropped + mset (pending_delivered_packets ph)"
      "\<forall>p \<in> set dropped. \<exists>k < length couts. due (step_end cfg ?ph0 k) p \<and> packet_expired cfg (step_end cfg ?ph0 k) p"
      "couts \<noteq> [] \<longrightarrow> (\<forall>p \<in> set (pending_delivered_packets ph). \<not> due (step_end cfg ?ph0 (length couts - 1)) p)"
      and it: "phy_it ph = phy_it ?ph0 + of_nat (length couts)"
    using phy_Loop_accounting [OF loop inv] by (elim exE conjE) (rule that)
  have waits: "window n < deliver_us p" if "n > 0" "p \<in> set (pending_delivered_packets ph)" for p
  proof -
    have "couts \<noteq> []" using that(1) len by auto
    then have "\<not> due (window (n - 1 + 1)) p" using d(3) that(2) unfolding len ends by blast
    then show ?thesis using that(1) by (simp add: due_def not_le)
  qed
  have parts: "\<exists>dropped. mset (concat (map (delivered_in cfg) (take n inps))) =
        mset (concat outs) + mset dropped + mset (pending_delivered_packets ph) \<and>
      (\<forall>p \<in> set dropped. \<exists>k < n. deliver_us p \<le> window (k + 1) \<and> packet_expired cfg (window (k + 1)) p) \<and>
      (n > 0 \<longrightarrow> (\<forall>p \<in> set (pending_delivered_packets ph). window n < deliver_us p))"
    using d(1,2) waits unfolding outs ing len ends by (intro exI [of _ dropped]) (auto simp: phy_init_def due_def)
  have timely: "deliver_us p \<le> window (k + 1) \<and> \<not> packet_expired cfg (window (k + 1)) p \<and>
      (p \<in> set (delivered_in cfg (inps ! k)) \<or> k > 0 \<and> window k < deliver_us p)" if k: "k < n" "p \<in> set (outs ! k)" for k p
  proof -
    have "length ups = length (take n inps)" using arg_cong [OF ups, of length] by simp
    moreover have "k < length couts" using k(1) len by simp
    moreover have "k < length ups" using loop \<open>k < length couts\<close> phy_Loop_length by fastforce
    ultimately have pk: "packets_of cfg (up_delivered (snd (ups ! k))) = delivered_in cfg (inps ! k)"
      using arg_cong [OF ups, of "\<lambda>l. l ! k"] by (simp add: up_packets_def)
    have "p \<in> set (fst (couts ! k))" using k(2) \<open>k < length couts\<close> by (simp add: outs [symmetric])
    note on_time = phy_Loop_on_time [OF loop inv \<open>k < length couts\<close> this, unfolded pk ends]
    show ?thesis
    proof (cases k)
      case 0
      then show ?thesis using on_time by (auto simp: due_def phy_init_def)
    next
      case (Suc j)
      then show ?thesis using on_time by (auto simp: due_def not_le)
    qed
  qed
  have clocks: "CurrentStepEndSimUs cfg ph = ToUs (current_sim_time cs) + step_size_us cp"
    if "unat (step_size_us cp) * 1000 * (n + 1) < 2 ^ 64"
    by (rule window_end [OF step _ _ that]) (simp_all add: it len clock phy_init_def coord_init_def)
  show ?thesis
    by (rule conjI [OF parts conjI]) (use timely clocks in blast)+
qed

theorem lockstep_accounting_witness:
  "\<exists>cs ph p. RunStrictLockstep ex_cp ex_cfg 0 [ex_input] (coord_init 0 None ex_grid, phy_init 0 None ex_grid) =
      Inr ((cs, ph), [[p]]) \<and> deliver_us p \<le> 1000 \<and> pending_delivered_packets ph = []"
proof -
  obtain cs ph where l: "lockstep ex_cp ex_cfg ex_input ex_start = Inr ((cs, ph), [pending_of ex_cfg ex_packet])"
    by (rule ex_lockstep)
  have run: "RunStrictLockstep ex_cp ex_cfg 0 [ex_input] (coord_init 0 None ex_grid, phy_init 0 None ex_grid) =
      Inr ((cs, ph), [[pending_of ex_cfg ex_packet]])"
    using l by (simp add: sim_ended_def ex_start_def)
  have step: "phy_step_us ex_cfg = step_size_us ex_cp" by (simp add: ex_cfg_def ex_cp_def)
  have "delivered_in ex_cfg ex_input = [pending_of ex_cfg ex_packet]"
    by (simp add: delivered_in_def ex_input_def packets_of_def ex_packet_def)
  then show ?thesis
    using lockstep_accounting [OF run step] run by (auto simp: ex_cp_def)
qed

text \<open>After a step of the lockstep the bridge has the position, velocity and heading of every drone
  whose state the coordinator has real and fresh; for any other drone it keeps what it had and marks it
  as not real, unless stale states are to be used.\<close>

theorem bridge_has_fresh_states:
  assumes "lockstep cp cfg inp (cs, ph) = Inr ((cs', ph'), published)" "distinct_keys (cached_agent_states cs)"
    and "map_of (cached_agent_states cs') a = Some st"
  defines "fr \<equiv> EvaluateAgentStateFreshness cp st (ToUs (current_sim_time cs))"
  shows "map_of (snapshots ph') a =
    (if has_real_state_source fr \<and> is_fresh fr \<or> \<not> ignore_stale_agent_states cfg
     then Some \<lparr>sn_x = ca_x st, sn_y = ca_y st, sn_z = ca_z st, sn_vx = ca_vx st, sn_vy = ca_vy st, sn_vz = ca_vz st,
        sn_heading = ca_heading st,
        sn_stamp = (if ca_source_stamp_us st > 0 then ca_source_stamp_us st * 1000 else in_clock inp),
        sn_has_real_state = has_real_state_source fr\<rparr>
     else map_option (\<lambda>s. s\<lparr>sn_has_real_state := False\<rparr>) (map_of (snapshots ph) a))"
  unfolding lockstep_states [OF assms(1-3)]
  by (auto simp: sample_effect_def snapshot_of_sample_def sample_of_def fr_def Let_def)

theorem bridge_has_fresh_states_witness:
  "\<exists>cs ph published. lockstep ex_cp ex_cfg ex_input (coord_init 0 None ex_grid, phy_init 0 None ex_grid) = Inr ((cs, ph), published) \<and>
    map_of (snapshots ph) 0 = Some \<lparr>sn_x = 1, sn_y = 2, sn_z = 3, sn_vx = 0, sn_vy = 0, sn_vz = 0, sn_heading = 0,
      sn_stamp = 2000, sn_has_real_state = True\<rparr>"
proof -
  obtain cs ph where l: "lockstep ex_cp ex_cfg ex_input ex_start = Inr ((cs, ph), [pending_of ex_cfg ex_packet])"
      and cache: "cached_agent_states cs = [(0, ex_cached)]"
    by (rule ex_lockstep)
  have keys: "distinct_keys (cached_agent_states (coord_init 0 None ex_grid))"
    by (simp add: coord_init_def coord_InitFallbackStates_def InitFallbackStates_def)
  have st: "map_of (cached_agent_states cs) 0 = Some ex_cached" by (simp add: cache)
  show ?thesis
    using bridge_has_fresh_states [OF l [unfolded ex_start_def] keys st] l
    by (simp add: ex_start_def EvaluateAgentStateFreshness_def ex_cached_def coord_init_def ToUs_def ex_cp_def Let_def)
qed

end
