(* ===== verification/Grid_Uniform.thy ===== *)
theory Grid_Uniform imports Map_Chunks Voxel_Fusion
begin

text \<open>
  One level of the exploration grid (\<open>active_perception/src/uniform_grid.cpp\<close>): the box to explore is
  divided into columns; each knows how many of its voxels are unknown and which frontiers it has, whether
  it is relevant, active, and to be divided. A vector of cells is a list that is indexed by an address;
  an \<open>unordered_map\<close> is an association list. The loop over the voxel positions of a cell, which adds the
  resolution to a \<open>double\<close>, visits the exact multiples here. Prints are left out, and so is the list of
  rediscovered cells, which is only printed.
\<close>

section \<open>Vectors\<close>

type_synonym mat3 = "vec3 \<times> vec3 \<times> vec3"

definition dot3 :: "vec3 \<Rightarrow> vec3 \<Rightarrow> real" where
  "dot3 v w = (case v of (x, y, z) \<Rightarrow> case w of (a, b, c) \<Rightarrow> x * a + y * b + z * c)"

definition mat_vec :: "mat3 \<Rightarrow> vec3 \<Rightarrow> vec3" where
  "mat_vec m v = (case m of (r0, r1, r2) \<Rightarrow> (dot3 r0 v, dot3 r1 v, dot3 r2 v))"

definition transpose3 :: "mat3 \<Rightarrow> mat3" where
  "transpose3 m = (case m of ((a, b, c), (d, e, f), (g, h, i)) \<Rightarrow> ((a, d, g), (b, e, h), (c, f, i)))"

definition identity3 :: mat3 where
  "identity3 = ((1, 0, 0), (0, 1, 0), (0, 0, 1))"

text \<open>\<open>normalized\<close> of Eigen leaves a zero vector as it is.\<close>

definition normalized :: "vec3 \<Rightarrow> vec3" where
  "normalized v = (if vec_norm v > 0 then map3 (\<lambda>x. x / vec_norm v) v else v)"

section \<open>Cells\<close>

record GridInfo =
  unknown_num :: int
  frontier_num :: int
  center :: vec3
  frontier_cell_nums :: "int umap"
  contained_frontier_ids :: "int umap"
  is_updated :: bool
  need_divide :: bool
  active :: bool
  is_prev_relevant :: bool
  is_cur_relevant :: bool
  vmin :: vec3
  vmax :: vec3
  vertices :: "vec3 list"
  normals :: "vec3 list"

text \<open>A cell of the resized vector; the constructor leaves the scalars open.\<close>

definition empty_grid :: GridInfo where
  "empty_grid = \<lparr>unknown_num = 0, frontier_num = 0, center = (0, 0, 0), frontier_cell_nums = [],
     contained_frontier_ids = [], is_updated = False, need_divide = False, active = False,
     is_prev_relevant = False, is_cur_relevant = False, vmin = (0, 0, 0), vmax = (0, 0, 0), vertices = [], normals = []\<rparr>"

record UniformGrid =
  ug_min :: vec3
  ug_max :: vec3
  ug_resolution :: vec3
  grid_num :: idx3
  level :: int
  min_unknown :: int
  min_frontier :: int
  min_free :: int
  fine_grid_requires_frontier :: bool
  grid_data :: "GridInfo list"
  relevant_id :: "int list"
  relevant_map :: "int umap"
  grid_initialized :: bool
  extra_ids :: "int list"
  rot_sw :: mat3
  trans_sw :: vec3
  use_swarm_tf :: bool

record PartitionConfig =
  pc_box_min :: vec3
  pc_box_max :: vec3
  pc_min_unknown :: int
  pc_min_frontier :: int
  pc_min_free :: int
  pc_fine_grid_requires_frontier :: bool
  pc_grid_size :: real
  pc_use_swarm_tf :: bool
  pc_consistent_cost :: real
  pc_consistent_cost2 :: real
  pc_velocity_cost_weight :: real
  pc_velocity_cost_cap :: real

text \<open>The side of a column on one axis: an equal division of the size, halved for each finer level.\<close>

definition axis_resolution :: "real \<Rightarrow> real \<Rightarrow> int \<Rightarrow> real" where
  "axis_resolution len grid_size lev = len / real_of_int \<lceil>len / grid_size\<rceil> * (1 / 2) ^ nat (lev - 1)"

definition make_grid :: "PartitionConfig \<Rightarrow> int \<Rightarrow> UniformGrid" where
  "make_grid c lev =
     (let (sx, sy, sz) = zip3 (-) (pc_box_max c) (pc_box_min c) in
      \<lparr>ug_min = pc_box_min c, ug_max = pc_box_max c,
       ug_resolution = (axis_resolution sx (pc_grid_size c) lev, axis_resolution sy (pc_grid_size c) lev, sz),
       grid_num = (0, 0, 0), level = lev, min_unknown = pc_min_unknown c, min_frontier = pc_min_frontier c,
       min_free = pc_min_free c, fine_grid_requires_frontier = pc_fine_grid_requires_frontier c,
       grid_data = [], relevant_id = [], relevant_map = [], grid_initialized = False, extra_ids = [],
       rot_sw = identity3, trans_sw = (0, 0, 0), use_swarm_tf = pc_use_swarm_tf c\<rparr>)"

section \<open>Indices\<close>

definition ug_toAddress :: "UniformGrid \<Rightarrow> idx3 \<Rightarrow> int" where
  "ug_toAddress g ix = (case ix of (x, y, z) \<Rightarrow> case grid_num g of (nx, ny, nz) \<Rightarrow> x * ny * nz + y * nz + z)"

definition ug_adrToIndex :: "UniformGrid \<Rightarrow> int \<Rightarrow> idx3" where
  "ug_adrToIndex g adr = (case grid_num g of (nx, ny, nz) \<Rightarrow>
     let a = ny * nz; b = nz; tmp_adr = adr mod a in (adr div a, tmp_adr div b, tmp_adr mod b))"

definition ug_posToIndex :: "UniformGrid \<Rightarrow> vec3 \<Rightarrow> idx3" where
  "ug_posToIndex g pos = zip3 (\<lambda>d r. \<lfloor>d / r\<rfloor>) (zip3 (-) pos (ug_min g)) (ug_resolution g)"

definition ug_indexToPos :: "UniformGrid \<Rightarrow> idx3 \<Rightarrow> real \<Rightarrow> vec3" where
  "ug_indexToPos g ix inc = zip3 (+) (zip3 (\<lambda>k r. (real_of_int k + inc) * r) ix (ug_resolution g)) (ug_min g)"

definition insideGrid :: "UniformGrid \<Rightarrow> idx3 \<Rightarrow> bool" where
  "insideGrid g ix = all3 (\<lambda>k n. \<not> (k < 0 \<or> k \<ge> n)) ix (grid_num g)"

definition swarm_tf :: "UniformGrid \<Rightarrow> vec3 \<Rightarrow> vec3" where
  "swarm_tf g pos = (if use_swarm_tf g then zip3 (+) (mat_vec (rot_sw g) pos) (trans_sw g) else pos)"

section \<open>Initialisation\<close>

text \<open>The conversion of a positive \<open>double\<close> to \<open>int\<close> cuts off the fraction.\<close>

definition init_cell :: "UniformGrid \<Rightarrow> real \<Rightarrow> idx3 \<Rightarrow> GridInfo" where
  "init_cell g res ix =
     (case ug_resolution g of (rx, ry, rz) \<Rightarrow>
        empty_grid\<lparr>center := swarm_tf g (ug_indexToPos g ix (1 / 2)),
          unknown_num := \<lfloor>rx * ry * rz / res ^ 3\<rfloor>, frontier_num := 0,
          is_prev_relevant := True, is_cur_relevant := True, need_divide := False, active := (level g = 1)\<rparr>)"

definition grid_indices :: "UniformGrid \<Rightarrow> idx3 list" where
  "grid_indices g = (case grid_num g of (nx, ny, nz) \<Rightarrow>
     concat (map (\<lambda>x. concat (map (\<lambda>y. map (\<lambda>z. (x, y, z)) [0..nz - 1]) [0..ny - 1])) [0..nx - 1]))"

definition initGridData :: "real \<Rightarrow> UniformGrid \<Rightarrow> UniformGrid" where
  "initGridData res g0 =
     (let g = g0\<lparr>grid_num := zip3 (\<lambda>s r. \<lceil>s / r\<rceil>) (zip3 (-) (ug_max g0) (ug_min g0)) (ug_resolution g0)\<rparr>;
          n = (case grid_num g of (nx, ny, nz) \<Rightarrow> nat (nx * ny * nz))
      in g\<lparr>grid_data := fold (\<lambda>ix b. b[nat (ug_toAddress g ix) := init_cell g res ix]) (grid_indices g) (replicate n empty_grid)\<rparr>)"

text \<open>The corners of a cell in the frame of the drone, their box, and the directions of the sides.\<close>

definition cell_vertices :: "UniformGrid \<Rightarrow> idx3 \<Rightarrow> vec3 list" where
  "cell_vertices g ix =
     (case ug_indexToPos g ix 0 of (x0, y0, z0) \<Rightarrow> case ug_indexToPos g ix 1 of (x1, y1, z1) \<Rightarrow>
        map (swarm_tf g) [(x0, y0, z0), (x1, y0, z0), (x1, y1, z0), (x0, y1, z0)])"

definition vertex_box :: "vec3 list \<Rightarrow> vec3 \<times> vec3" where
  "vertex_box vs =
     (let grow = (\<lambda>f v w. case v of (x, y, z) \<Rightarrow> case w of (a, b, c) \<Rightarrow> (f x a, f y b, z))
      in (foldl (grow min) (hd vs) (tl vs), foldl (grow max) (hd vs) (tl vs)))"

definition base_cell :: "UniformGrid \<Rightarrow> int \<Rightarrow> GridInfo \<Rightarrow> GridInfo" where
  "base_cell g i c =
     (let vs = cell_vertices g (ug_adrToIndex g i); (lo, hi) = vertex_box vs
      in c\<lparr>vertices := vs, vmin := lo, vmax := hi,
           normals := map (\<lambda>j. normalized (zip3 (-) (vs ! ((j + 1) mod 4)) (vs ! j))) [0..<4]\<rparr>)"

definition ug_updateBaseCoor :: "UniformGrid \<Rightarrow> UniformGrid" where
  "ug_updateBaseCoor g =
     g\<lparr>grid_data := map (\<lambda>i. base_cell g (int i) (grid_data g ! i)) [0..<length (grid_data g)]\<rparr>"

section \<open>Relevance\<close>

definition frontier_cells :: "GridInfo \<Rightarrow> int" where
  "frontier_cells c = sum_list (map snd (frontier_cell_nums c))"

definition isRelevant :: "UniformGrid \<Rightarrow> GridInfo \<Rightarrow> bool" where
  "isRelevant g c =
     (let frontier_supported = frontier_cells c \<ge> min_frontier g in
      if level g > 1 \<and> fine_grid_requires_frontier g then frontier_supported
      else unknown_num c \<ge> min_unknown g \<or> frontier_supported)"

definition ug_inputFrontiers :: "vec3 list \<Rightarrow> int list \<Rightarrow> UniformGrid \<Rightarrow> UniformGrid" where
  "ug_inputFrontiers avgs cell_nums g0 =
     (let Rt = transpose3 (rot_sw g0); t_inv = map3 uminus (mat_vec Rt (trans_sw g0));
          g = g0\<lparr>grid_data := map (\<lambda>c. c\<lparr>contained_frontier_ids := [], frontier_cell_nums := [], frontier_num := 0\<rparr>)
                (grid_data g0)\<rparr>
      in fold (\<lambda>i g.
           let pos = (if use_swarm_tf g then zip3 (+) (mat_vec Rt (avgs ! i)) t_inv else avgs ! i);
               ix = ug_posToIndex g pos; a = nat (ug_toAddress g ix)
           in if \<not> insideGrid g ix then g
              else let c = grid_data g ! a; ids = AList.update (int i) 1 (contained_frontier_ids c)
                in g\<lparr>grid_data := (grid_data g)[a := c\<lparr>contained_frontier_ids := ids,
                    frontier_cell_nums := AList.update (int i) (if i < length cell_nums then max 0 (cell_nums ! i) else 0)
                      (frontier_cell_nums c),
                    frontier_num := int (length ids)\<rparr>]\<rparr>)
         [0..<length avgs] g)"

section \<open>Counting voxels\<close>

text \<open>The values \<open>lo\<close>, \<open>lo + res\<close>, ... up to \<open>hi\<close>.\<close>

definition axis_samples :: "real \<Rightarrow> real \<Rightarrow> real \<Rightarrow> real list" where
  "axis_samples lo hi res = map (\<lambda>k. lo + real k * res) [0..<nat (\<lfloor>(hi - lo) / res\<rfloor> + 1)]"

definition cell_samples :: "real \<Rightarrow> GridInfo \<Rightarrow> real \<Rightarrow> vec3 list" where
  "cell_samples res c ztop =
     (case vmin c of (x0, y0, z0) \<Rightarrow> case vmax c of (x1, y1, _) \<Rightarrow>
        concat (map (\<lambda>x. concat (map (\<lambda>y. map (\<lambda>z. (x, y, z)) (axis_samples z0 ztop res)) (axis_samples y0 y1 res)))
          (axis_samples x0 x1 res)))"

definition inside_box :: "vec3 \<Rightarrow> GridInfo \<Rightarrow> bool" where
  "inside_box vox c = (\<forall>m \<in> {0..<4}. \<not> dot3 (zip3 (-) vox (vertices c ! m)) (normals c ! m) \<le> 0)"

text \<open>One voxel: the unknown ones are counted and their mean is updated, the free ones are counted.\<close>

definition count_voxel ::
  "MapParam \<Rightarrow> MapData \<Rightarrow> GridInfo \<Rightarrow> vec3 \<Rightarrow> vec3 \<times> int \<times> int \<Rightarrow> vec3 \<times> int \<times> int" where
  "count_voxel p d c pos acc =
     (case acc of (ctr, unknown, free) \<Rightarrow>
        if \<not> inside_box pos c then acc
        else case getOccupancy p d (posToIndex p pos) of
          Some FREE \<Rightarrow> (ctr, unknown, free + 1)
        | Some UNKNOWN \<Rightarrow>
            (zip3 (\<lambda>m x. (m * real_of_int unknown + x) / real_of_int (unknown + 1)) ctr pos, unknown + 1, free)
        | _ \<Rightarrow> acc)"

definition updateGridInfo :: "MapParam \<Rightarrow> MapData \<Rightarrow> idx3 \<Rightarrow> UniformGrid \<Rightarrow> UniformGrid" where
  "updateGridInfo p d ix g =
     (let adr = nat (ug_toAddress g ix); c = grid_data g ! adr in
      if is_updated c then g
      else
        let c1 = c\<lparr>is_updated := True, is_prev_relevant := is_cur_relevant c\<rparr>;
            ztop = (case ug_indexToPos g ix 1 of (_, _, z) \<Rightarrow> z);
            (ctr, unknown, free) = fold (count_voxel p d c1) (cell_samples (resolution p) c1 ztop) ((0, 0, 0), 0, 0);
            c2 = c1\<lparr>center := ctr, unknown_num := unknown\<rparr>;
            c3 = c2\<lparr>is_cur_relevant := isRelevant g c2\<rparr>;
            c4 = (if level g = 1 \<and> active c3 \<and> free > min_free g then c3\<lparr>need_divide := True\<rparr> else c3)
        in g\<lparr>grid_data := (grid_data g)[adr := c4]\<rparr>)"

section \<open>Updating a level\<close>

definition have_overlap :: "vec3 \<Rightarrow> vec3 \<Rightarrow> vec3 \<Rightarrow> vec3 \<Rightarrow> bool" where
  "have_overlap min1 max1 min2 max2 =
     (case min1 of (ax, ay, _) \<Rightarrow> case max1 of (bx, by', _) \<Rightarrow> case min2 of (cx, cy, _) \<Rightarrow> case max2 of (dx, dy, _) \<Rightarrow>
        \<not> max ax cx > min bx dx + 1 / 1000 \<and> \<not> max ay cy > min by' dy + 1 / 1000)"

text \<open>The first loop, for one cell; \<open>boxes\<close> are the boxes of the received chunks, \<open>fov\<close> is the box of the
  drone's own updates. The list has the cells to divide.\<close>

definition update_cell ::
  "MapParam \<Rightarrow> MapData \<Rightarrow> (vec3 \<times> vec3) list \<Rightarrow> vec3 \<times> vec3 \<Rightarrow> int \<Rightarrow> UniformGrid \<times> int list \<Rightarrow> UniformGrid \<times> int list" where
  "update_cell p d boxes fov i acc =
     (case acc of (g, parti_ids_all) \<Rightarrow>
        let c = grid_data g ! nat i in
        if \<not> active c then acc
        else if \<not> (\<exists>(lo, hi) \<in> set boxes. have_overlap (vmin c) (vmax c) lo hi) \<and>
                \<not> have_overlap (vmin c) (vmax c) (fst fov) (snd fov) then acc
        else
          let g' = updateGridInfo p d (ug_adrToIndex g i) g; c' = grid_data g' ! nat i in
          if need_divide c' then
            (g'\<lparr>grid_data := (grid_data g')[nat i := c'\<lparr>active := False\<rparr>]\<rparr>, parti_ids_all @ [i])
          else (g', parti_ids_all))"

definition update_extra :: "MapParam \<Rightarrow> MapData \<Rightarrow> int \<Rightarrow> UniformGrid \<Rightarrow> UniformGrid" where
  "update_extra p d i g =
     (if is_updated (grid_data g ! nat i) then g else updateGridInfo p d (ug_adrToIndex g i) g)"

definition set_relevant :: "UniformGrid \<Rightarrow> UniformGrid" where
  "set_relevant g =
     (let ids = filter (\<lambda>i. isRelevant g (grid_data g ! nat i)) [0..int (length (grid_data g)) - 1]
      in g\<lparr>relevant_id := ids, relevant_map := map (\<lambda>i. (i, 1)) ids\<rparr>)"

text \<open>The last part: the ids of the drone's own cells that stay, and those to divide.\<close>

fun own_ids :: "UniformGrid \<Rightarrow> int list \<Rightarrow> int list \<times> int list" where
  "own_ids g [] = ([], [])"
| "own_ids g (i # is) =
     (let (keep, parti) = own_ids g is in
      if map_of (relevant_map g) i = None then (keep, parti)
      else if need_divide (grid_data g ! nat i) then (keep, i # parti)
      else (i # keep, parti))"

text \<open>The result has the cells, the ids that the drone keeps, those of its cells to divide, and all cells
  to divide. The boxes of updates are read and, at level 2, reset.\<close>

definition ug_updateGridData ::
  "MapParam \<Rightarrow> int \<Rightarrow> int list \<Rightarrow> UniformGrid \<times> MapData \<times> MultiMapManager \<Rightarrow>
     (UniformGrid \<times> MapData \<times> MultiMapManager) \<times> int list \<times> int list \<times> int list" where
  "ug_updateGridData p drone_id grid_ids st =
     (let (g0, d0, mm0) = st;
          g1 = g0\<lparr>grid_data := map (\<lambda>c. c\<lparr>is_updated := False\<rparr>) (grid_data g0)\<rparr>;
          reset = (level g1 = 2);
          (fov, d) = getUpdatedBox reset d0;
          ((mins, maxs), mm) = getChunkBoxes reset mm0;
          (g2, parti_ids_all) = fold (update_cell p d (zip mins maxs) fov) [0..int (length (grid_data g1)) - 1] (g1, []);
          g3 = (fold (update_extra p d) (extra_ids g2) g2)\<lparr>extra_ids := []\<rparr>;
          g4 = set_relevant g3
      in if \<not> grid_initialized g4 then
           ((g4\<lparr>grid_initialized := True\<rparr>, d, mm),
            (if drone_id = 1 \<and> level g4 = 1 then relevant_id g4 else grid_ids), [], parti_ids_all)
         else
           let (keep, parti) = own_ids g4 grid_ids in ((g4, d, mm), keep, parti, parti_ids_all))"

definition activateGrids :: "int list \<Rightarrow> UniformGrid \<Rightarrow> UniformGrid" where
  "activateGrids ids g =
     g\<lparr>grid_data := fold (\<lambda>i b. b[nat i := (b ! nat i)\<lparr>active := True\<rparr>]) ids (grid_data g), extra_ids := ids\<rparr>"

section \<open>Other queries\<close>

definition ug_getGridTour :: "UniformGrid \<Rightarrow> int list \<Rightarrow> vec3 list" where
  "ug_getGridTour g ids = map (\<lambda>i. center (grid_data g ! nat i)) ids"

definition ug_getFrontiersInGrid :: "UniformGrid \<Rightarrow> int \<Rightarrow> int list" where
  "ug_getFrontiersInGrid g grid_id = map fst (contained_frontier_ids (grid_data g ! nat grid_id))"

definition ug_getGridMarker :: "UniformGrid \<Rightarrow> vec3 list \<times> vec3 list" where
  "ug_getGridMarker g =
     (case ug_min g of (x0, y0, _) \<Rightarrow> case ug_max g of (x1, y1, _) \<Rightarrow> case ug_resolution g of (rx, ry, _) \<Rightarrow>
      case grid_num g of (nx, ny, _) \<Rightarrow>
        let rows = map (\<lambda>i. real_of_int i * ry) [0..ny]; cols = map (\<lambda>i. real_of_int i * rx) [0..nx]
        in (map (\<lambda>s. (x0, y0 + s, 1 / 2)) rows @ map (\<lambda>s. (x0 + s, y0, 1 / 2)) cols,
            map (\<lambda>s. (x0 + (x1 - x0), y0 + s, 1 / 2)) rows @ map (\<lambda>s. (x0 + s, y0 + (y1 - y0), 1 / 2)) cols))"

end
