(* ===== verification/Grid_Hierarchy.thy ===== *)
theory Grid_Hierarchy imports Grid_Uniform
begin

text \<open>
  The two-level exploration grid (\<open>active_perception/src/hgrid.cpp\<close>): a coarse cell is replaced by its four
  fine cells when enough of it is free; ids of fine cells follow those of the coarse ones. It keeps the
  list of cells a drone owns, finds the cells that continue the last tour, and fills the cost matrix of
  the tour solver. The search for a path (\<open>Astar\<close>) is a parameter, the length of the path it finds or
  \<open>None\<close>, and the path itself. Prints are left out.
\<close>

record HGrid =
  grid1 :: UniformGrid
  grid2 :: UniformGrid
  hg_consistent_cost :: real
  hg_consistent_cost2 :: real
  velocity_cost_weight :: real
  velocity_cost_cap :: real

definition set_base :: "mat3 \<Rightarrow> vec3 \<Rightarrow> UniformGrid \<Rightarrow> UniformGrid" where
  "set_base rot t g = g\<lparr>rot_sw := rot, trans_sw := t\<rparr>"

definition hg_updateBaseCoor :: "HGrid \<Rightarrow> HGrid" where
  "hg_updateBaseCoor h =
     h\<lparr>grid1 := ug_updateBaseCoor (set_base identity3 (0, 0, 0) (grid1 h)),
       grid2 := ug_updateBaseCoor (set_base identity3 (0, 0, 0) (grid2 h))\<rparr>"

definition make_hgrid :: "real \<Rightarrow> PartitionConfig \<Rightarrow> HGrid" where
  "make_hgrid res c =
     hg_updateBaseCoor
       \<lparr>grid1 = initGridData res (make_grid c 1), grid2 = initGridData res (make_grid c 2),
        hg_consistent_cost = pc_consistent_cost c, hg_consistent_cost2 = pc_consistent_cost2 c,
        velocity_cost_weight = pc_velocity_cost_weight c, velocity_cost_cap = pc_velocity_cost_cap c\<rparr>"

definition hg_inputFrontiers :: "vec3 list \<Rightarrow> int list \<Rightarrow> HGrid \<Rightarrow> HGrid" where
  "hg_inputFrontiers avgs cell_nums h =
     h\<lparr>grid1 := ug_inputFrontiers avgs cell_nums (grid1 h), grid2 := ug_inputFrontiers avgs cell_nums (grid2 h)\<rparr>"

section \<open>Ids\<close>

definition grid_num1 :: "HGrid \<Rightarrow> int" where
  "grid_num1 h = int (length (grid_data (grid1 h)))"

definition coarseToFineId :: "HGrid \<Rightarrow> int \<Rightarrow> int list" where
  "coarseToFineId h coarse =
     (case ug_adrToIndex (grid1 h) coarse of (x, y, z) \<Rightarrow>
        map (ug_toAddress (grid2 h)) [(x * 2, y * 2, z), (x * 2 + 1, y * 2, z), (x * 2, y * 2 + 1, z), (x * 2 + 1, y * 2 + 1, z)])"

definition fineToCoarseId :: "HGrid \<Rightarrow> int \<Rightarrow> int" where
  "fineToCoarseId h fine = (case ug_adrToIndex (grid2 h) fine of (x, y, z) \<Rightarrow> ug_toAddress (grid1 h) (x div 2, y div 2, z))"

text \<open>The coarse cell of an id of either level.\<close>

definition coarse_of :: "HGrid \<Rightarrow> int \<Rightarrow> int" where
  "coarse_of h gid = (if gid \<ge> grid_num1 h then fineToCoarseId h (gid - grid_num1 h) else gid)"

definition getGrid :: "HGrid \<Rightarrow> int \<Rightarrow> GridInfo" where
  "getGrid h gid =
     (if gid < grid_num1 h then grid_data (grid1 h) ! nat gid else grid_data (grid2 h) ! nat (gid - grid_num1 h))"

definition getUnknownCellsNum :: "HGrid \<Rightarrow> int \<Rightarrow> int" where
  "getUnknownCellsNum h gid = unknown_num (getGrid h gid)"

definition getCenter :: "HGrid \<Rightarrow> int \<Rightarrow> vec3" where
  "getCenter h gid = center (getGrid h gid)"

definition active_ids :: "UniformGrid \<Rightarrow> int list" where
  "active_ids g = filter (\<lambda>i. active (grid_data g ! nat i) \<and> is_cur_relevant (grid_data g ! nat i))
     [0..int (length (grid_data g)) - 1]"

definition getActiveGrids :: "HGrid \<Rightarrow> int list" where
  "getActiveGrids h = active_ids (grid1 h) @ map (\<lambda>i. i + grid_num1 h) (active_ids (grid2 h))"

definition isFineGrid :: "HGrid \<Rightarrow> int \<Rightarrow> bool" where
  "isFineGrid h gid = (gid \<ge> grid_num1 h)"

definition inSameLevel1 :: "HGrid \<Rightarrow> int \<Rightarrow> int \<Rightarrow> bool" where
  "inSameLevel1 h id1 id2 =
     (if id1 < grid_num1 h \<or> id2 < grid_num1 h then False
      else fineToCoarseId h (id1 - grid_num1 h) = fineToCoarseId h (id2 - grid_num1 h))"

definition isConsistent :: "HGrid \<Rightarrow> int \<Rightarrow> int \<Rightarrow> bool" where
  "isConsistent h id1 id2 = (coarse_of h id1 = coarse_of h id2)"

definition isClose :: "HGrid \<Rightarrow> int \<Rightarrow> int \<Rightarrow> bool" where
  "isClose h id1 id2 =
     all3 (\<lambda>a b. \<not> \<bar>a - b\<bar> > 1) (ug_adrToIndex (grid1 h) (coarse_of h id1)) (ug_adrToIndex (grid1 h) (coarse_of h id2))"

section \<open>The cells of a drone\<close>

text \<open>The second coarse cell of a tour: the first later entry that is coarse, or is in another coarse cell
  than the first one.\<close>

fun second_coarse :: "HGrid \<Rightarrow> int \<Rightarrow> int list \<Rightarrow> int option" where
  "second_coarse h grid_id1 [] = None"
| "second_coarse h grid_id1 (i # is) =
     (if i < grid_num1 h then Some i
      else let coarse = fineToCoarseId h (i - grid_num1 h) in
        if coarse \<noteq> grid_id1 then Some coarse else second_coarse h grid_id1 is)"

definition fines_of :: "HGrid \<Rightarrow> int \<Rightarrow> int list \<Rightarrow> int list" where
  "fines_of h coarse ids =
     filter (\<lambda>gid. \<not> gid < grid_num1 h \<and> fineToCoarseId h (gid - grid_num1 h) = coarse) ids"

definition getConsistentGrid :: "HGrid \<Rightarrow> int list \<Rightarrow> int list \<Rightarrow> int list \<times> int list \<Rightarrow> int list \<times> int list" where
  "getConsistentGrid h last_ids cur_ids acc =
     (case last_ids of
        [] \<Rightarrow> acc
      | i # is \<Rightarrow>
          let grid_id1 = coarse_of h i;
              first_ids = (if grid_id1 \<in> set cur_ids then [grid_id1] else fines_of h grid_id1 cur_ids);
              second_ids = snd acc
          in case second_coarse h grid_id1 is of
               None \<Rightarrow> (first_ids, second_ids)
             | Some grid_id2 \<Rightarrow>
                 let ids = (if grid_id2 \<in> set cur_ids then [grid_id2]
                            else (if first_ids \<noteq> [] then second_ids else first_ids) @ fines_of h grid_id2 cur_ids)
                 in if first_ids \<noteq> [] then (first_ids, ids) else (ids, second_ids))"

text \<open>The state of an update: the grid, the voxel map and the chunk store.\<close>

type_synonym grid_state = "HGrid \<times> MapData \<times> MultiMapManager"

definition hg_updateGridData ::
  "MapParam \<Rightarrow> int \<Rightarrow> int list \<Rightarrow> int list \<Rightarrow> int list \<times> int list \<Rightarrow> grid_state \<Rightarrow>
     grid_state \<times> int list \<times> (int list \<times> int list)" where
  "hg_updateGridData p drone_id grid_ids last_grid_ids consistent st =
     (let (h, d, mm) = st; n1 = grid_num1 h;
          grid_ids1 = filter (\<lambda>gid. gid < n1) grid_ids;
          grid_ids2 = map (\<lambda>gid. gid - n1) (filter (\<lambda>gid. \<not> gid < n1) grid_ids);
          ((g1, d1, mm1), keep1, parti_ids1, parti_ids1_all) = ug_updateGridData p drone_id grid_ids1 (grid1 h, d, mm);
          h1 = h\<lparr>grid1 := g1\<rparr>;
          fine_ids = concat (map (coarseToFineId h1) parti_ids1);
          fine_ids_all = concat (map (coarseToFineId h1) parti_ids1_all);
          ((g2, d2, mm2), keep2, _, _) =
            ug_updateGridData p drone_id (grid_ids2 @ fine_ids) (activateGrids fine_ids_all (grid2 h1), d1, mm1);
          h2 = h1\<lparr>grid2 := g2\<rparr>;
          ids = keep1 @ map (\<lambda>gid. gid + n1) keep2
      in ((h2, d2, mm2), ids, getConsistentGrid h2 last_grid_ids ids consistent))"

section \<open>Costs\<close>

definition vdist :: "vec3 \<Rightarrow> vec3 \<Rightarrow> real" where
  "vdist v w = vec_norm (zip3 (-) v w)"

definition drone_to_grid :: "(vec3 \<Rightarrow> vec3 \<Rightarrow> real option) \<Rightarrow> HGrid \<Rightarrow> vec3 \<Rightarrow> int \<Rightarrow> int list \<Rightarrow> real" where
  "drone_to_grid path_len h pos grid_id first =
     (let c = center (getGrid h grid_id); dist1 = vdist pos c;
          cost = (if dist1 < 5 then
                    (case path_len pos c of Some len \<Rightarrow> len | None \<Rightarrow> dist1 + hg_consistent_cost2 h)
                  else 3 / 2 * dist1 + hg_consistent_cost2 h)
      in if grid_id \<in> set first then cost + hg_consistent_cost h else cost)"

text \<open>With the velocity of the drone: going towards the cell is cheaper.\<close>

definition getCostDroneToGrid ::
  "(vec3 \<Rightarrow> vec3 \<Rightarrow> real option) \<Rightarrow> HGrid \<Rightarrow> vec3 \<Rightarrow> vec3 \<Rightarrow> int \<Rightarrow> int list \<Rightarrow> real" where
  "getCostDroneToGrid path_len h pos vel grid_id first =
     (let cost = drone_to_grid path_len h pos grid_id first in
      if velocity_cost_weight h \<le> 1 / 1000000 \<or> velocity_cost_cap h \<le> 1 / 1000000 then cost
      else
        let delta = zip3 (-) (center (getGrid h grid_id)) pos; delta_norm = vec_norm delta in
        if delta_norm \<le> 1 / 1000 then cost
        else
          let closing_speed = dot3 vel (map3 (\<lambda>x. x / delta_norm) delta);
              bounded_bias = max (- velocity_cost_cap h)
                (min (velocity_cost_cap h) (- velocity_cost_weight h * closing_speed))
          in max 0 (cost + bounded_bias))"

text \<open>Whether one drone has the first gid among its first cells and the second among its second ones. The
  flags of the code are those of the last drone seen; without drones they are not initialised, and
  \<open>uninit\<close> stands for their conjunction.\<close>

fun first_second :: "bool \<Rightarrow> int \<Rightarrow> int \<Rightarrow> (int list \<times> int list) list \<Rightarrow> bool" where
  "first_second flag id1 id2 [] = flag"
| "first_second flag id1 id2 ((first, second) # rest) =
     (if id1 \<in> set first \<and> id2 \<in> set second then True else first_second False id1 id2 rest)"

definition getCostGridToGrid ::
  "(vec3 \<Rightarrow> vec3 \<Rightarrow> real option) \<Rightarrow> bool \<Rightarrow> HGrid \<Rightarrow> int \<Rightarrow> int \<Rightarrow> int list list \<Rightarrow> int list list \<Rightarrow> nat \<Rightarrow> real" where
  "getCostGridToGrid path_len uninit h id1 id2 firsts seconds drone_num =
     (let c1 = center (getGrid h id1); c2 = center (getGrid h id2) in
      if isClose h id1 id2 then
        let len = (case path_len c1 c2 of Some len \<Rightarrow> len | None \<Rightarrow> vdist c1 c2 + hg_consistent_cost2 h);
            len' = (if drone_num \<le> 1 \<and> inSameLevel1 h id1 id2 then len + hg_consistent_cost h else len)
        in if firsts \<noteq> [] \<and> first_second uninit id1 id2 (map (\<lambda>k. (firsts ! k, seconds ! k)) [0..<drone_num])
           then len' + hg_consistent_cost h else len'
      else 3 / 2 * vdist c1 c2 + hg_consistent_cost2 h)"

text \<open>The matrix over the depot, the drones and the cells, as the function of its entries.\<close>

definition cost_entry ::
  "(vec3 \<Rightarrow> vec3 \<Rightarrow> real option) \<Rightarrow> bool \<Rightarrow> HGrid \<Rightarrow> vec3 list \<Rightarrow> vec3 list \<Rightarrow> int list list \<Rightarrow> int list list \<Rightarrow>
     int list \<Rightarrow> nat \<Rightarrow> nat \<Rightarrow> real" where
  "cost_entry path_len uninit h positions velocities first_ids second_ids grid_ids r c =
     (let drone_num = length positions; base = 1 + drone_num in
      if r = c then 1000
      else if r = 0 \<and> c < base then - 1000
      else if c = 0 \<and> r < base then 1000
      else if r = 0 then 1000
      else if c = 0 then 0
      else if r < base \<and> c < base then 10000
      else if r < base then
        getCostDroneToGrid path_len h (positions ! (r - 1))
          (if r - 1 < length velocities then velocities ! (r - 1) else (0, 0, 0)) (grid_ids ! (c - base)) (first_ids ! (r - 1))
      else if c < base then 0
      else getCostGridToGrid path_len uninit h (grid_ids ! (min r c - base)) (grid_ids ! (max r c - base))
             first_ids second_ids drone_num)"

definition getCostMatrix ::
  "(vec3 \<Rightarrow> vec3 \<Rightarrow> real option) \<Rightarrow> bool \<Rightarrow> HGrid \<Rightarrow> vec3 list \<Rightarrow> vec3 list \<Rightarrow> int list list \<Rightarrow> int list list \<Rightarrow>
     int list \<Rightarrow> real list list" where
  "getCostMatrix path_len uninit h positions velocities first_ids second_ids grid_ids =
     (let dimen = 1 + length positions + length grid_ids
      in map (\<lambda>r. map (cost_entry path_len uninit h positions velocities first_ids second_ids grid_ids r) [0..<dimen]) [0..<dimen])"

section \<open>Tours\<close>

text \<open>\<open>None\<close> is the answer \<open>false\<close>. The second id may be fine here.\<close>

fun next_id :: "HGrid \<Rightarrow> int \<Rightarrow> int list \<Rightarrow> int option" where
  "next_id h grid_id1 [] = None"
| "next_id h grid_id1 (i # is) =
     (if i < grid_num1 h \<or> fineToCoarseId h (i - grid_num1 h) \<noteq> grid_id1 then Some i else next_id h grid_id1 is)"

definition getNextGrid :: "HGrid \<Rightarrow> int list \<Rightarrow> (vec3 \<times> real) option" where
  "getNextGrid h grid_ids =
     (let grid_id1 = coarse_of h (hd grid_ids) in
      case next_id h grid_id1 (tl grid_ids) of
        None \<Rightarrow> None
      | Some grid_id2 \<Rightarrow>
          let c = center (getGrid h grid_id2); (dx, dy, _) = zip3 (-) c (center (getGrid h grid_id1))
          in Some (c, atan2 dy dx))"

text \<open>The points of the tour, and the path through them; \<open>path\<close> is the path found between two points.\<close>

fun exact_tour :: "(vec3 \<Rightarrow> vec3 \<Rightarrow> vec3 list option) \<Rightarrow> vec3 list \<Rightarrow> vec3 list" where
  "exact_tour path (a # b # cs) =
     (case path a b of Some ps \<Rightarrow> tl ps | None \<Rightarrow> [b]) @ exact_tour path (b # cs)"
| "exact_tour path cs = []"

definition hg_getGridTour :: "(vec3 \<Rightarrow> vec3 \<Rightarrow> vec3 list option) \<Rightarrow> HGrid \<Rightarrow> int list \<Rightarrow> vec3 \<Rightarrow> vec3 list \<times> vec3 list" where
  "hg_getGridTour path h ids pos =
     (let centers = pos # map (getCenter h) ids in (centers, pos # exact_tour path centers))"

definition hg_getFrontiersInGrid :: "HGrid \<Rightarrow> int list \<Rightarrow> int list" where
  "hg_getFrontiersInGrid h grid_ids =
     (let tmp = hd grid_ids; n1 = grid_num1 h in
      if tmp < n1 then map fst (contained_frontier_ids (grid_data (grid1 h) ! nat tmp))
      else
        let allocated_fines = filter (\<lambda>fine. fine + n1 \<in> set grid_ids) (coarseToFineId h (fineToCoarseId h (tmp - n1)))
        in concat (map (\<lambda>fine. map fst (contained_frontier_ids (grid_data (grid2 h) ! nat fine))) allocated_fines))"

section \<open>Markers\<close>

text \<open>The sides of the active cells, as pairs of corners at a fixed height.\<close>

definition hg_getGridMarker :: "HGrid \<Rightarrow> vec3 list \<times> vec3 list" where
  "hg_getGridMarker h =
     (let cells = filter active (grid_data (grid1 h)) @ filter active (grid_data (grid2 h));
          corners = (\<lambda>k. concat (map (\<lambda>c. map (\<lambda>i. vertices c ! ((i + k) mod 4)) [0..<4]) cells));
          flat = map (\<lambda>(x, y, z). (x, y, 1 / 2))
      in (flat (corners 0), flat (corners 1)))"

definition hg_getGridMarker2 :: "HGrid \<Rightarrow> vec3 list \<times> string list" where
  "hg_getGridMarker2 h =
     (map (\<lambda>i. center (grid_data (grid1 h) ! nat i)) (active_ids (grid1 h)) @
        map (\<lambda>i. center (grid_data (grid2 h) ! nat i)) (active_ids (grid2 h)),
      map to_string_int (active_ids (grid1 h)) @
        map (\<lambda>i. to_string_int (i + grid_num1 h)) (active_ids (grid2 h)))"

end
