(* ===== verification/Grid_Update.thy ===== *)
theory Grid_Update imports Grid_Props
begin

text \<open>
  The update of the two levels: what it does to the activity of cells, to the marks of cells to divide,
  and to the ids of a drone; after it every coarse cell is active or replaced by its four fine cells.
\<close>

section \<open>Shape and flags\<close>

text \<open>An operation that changes nothing but the cells, and keeps their number.\<close>

definition same_shape :: "UniformGrid \<Rightarrow> UniformGrid \<Rightarrow> bool" where
  "same_shape g g' \<longleftrightarrow> (\<exists>cs. length cs = length (grid_data g) \<and> g' = g\<lparr>grid_data := cs\<rparr>)"

lemma same_shape_refl [simp]: "same_shape g g"
  by (auto simp: same_shape_def intro: exI [of _ "grid_data g"])

lemma same_shape_trans: "same_shape g g1 \<Longrightarrow> same_shape g1 g2 \<Longrightarrow> same_shape g g2"
  by (auto simp: same_shape_def)

lemma same_shape_fields:
  assumes "same_shape g g'"
  shows "level g' = level g" "grid_num g' = grid_num g" "length (grid_data g') = length (grid_data g)"
    "extra_ids g' = extra_ids g" "grid_initialized g' = grid_initialized g" "min_unknown g' = min_unknown g"
    "min_frontier g' = min_frontier g" "fine_grid_requires_frontier g' = fine_grid_requires_frontier g"
    "ug_ok g' \<longleftrightarrow> ug_ok g" "grid_cell g' i \<longleftrightarrow> grid_cell g i"
  using assms by (auto simp: same_shape_def ug_ok_def grid_cell_def)

lemma same_shape_update [simp]: "same_shape g (g\<lparr>grid_data := (grid_data g)[k := c]\<rparr>)"
  by (auto simp: same_shape_def intro: exI [of _ "(grid_data g)[k := c]"])

text \<open>Activity and marks of a cell by its id.\<close>

definition act :: "UniformGrid \<Rightarrow> int \<Rightarrow> bool" where
  "act g i = active (grid_data g ! nat i)"

definition divd :: "UniformGrid \<Rightarrow> int \<Rightarrow> bool" where
  "divd g i = need_divide (grid_data g ! nat i)"

text \<open>At the coarse level a cell is marked exactly when it is not active; at the fine level none is.\<close>

definition flags_ok :: "UniformGrid \<Rightarrow> bool" where
  "flags_ok g \<longleftrightarrow> (\<forall>i. grid_cell g i \<longrightarrow> (if level g = 1 then divd g i \<longleftrightarrow> \<not> act g i else \<not> divd g i)) \<and>
     (level g = 1 \<longrightarrow> extra_ids g = []) \<and> (\<forall>i \<in> set (extra_ids g). grid_cell g i)"

lemma nth_update_id:
  assumes "grid_cell g i" "grid_cell g j"
  shows "(grid_data g)[nat i := c] ! nat j = (if j = i then c else grid_data g ! nat j)"
  using assms by (auto simp: grid_cell_def nth_list_update)

lemma updateGridInfo_flags:
  fixes p d
  assumes ok: "ug_ok g" and i: "grid_cell g i"
  defines "g' \<equiv> updateGridInfo p d (ug_adrToIndex g i) g"
  shows "same_shape g g'"
    and "grid_cell g j \<Longrightarrow> act g' j = act g j"
    and "grid_cell g j \<Longrightarrow> divd g' j \<longleftrightarrow> divd g j \<or> j = i \<and> divd g' j \<and> level g = 1 \<and> act g i"
proof -
  have a: "nat (ug_toAddress g (ug_adrToIndex g i)) = nat i" using cell_address [OF ok i] by simp
  have "\<exists>c'. g' = g\<lparr>grid_data := (grid_data g)[nat i := c']\<rparr> \<and> active c' = active (grid_data g ! nat i) \<and>
    (need_divide c' \<longleftrightarrow> need_divide (grid_data g ! nat i) \<or> need_divide c' \<and> level g = 1 \<and> active (grid_data g ! nat i))"
  proof (cases "is_updated (grid_data g ! nat i)")
    case True
    then show ?thesis
      by (intro exI [of _ "grid_data g ! nat i"]) (auto simp: g'_def updateGridInfo_def a)
  next
    case False
    then show ?thesis
      by (auto simp: g'_def updateGridInfo_def a Let_def split: prod.splits)
  qed
  then obtain c' where c': "g' = g\<lparr>grid_data := (grid_data g)[nat i := c']\<rparr>" "active c' = active (grid_data g ! nat i)"
    "need_divide c' \<longleftrightarrow> need_divide (grid_data g ! nat i) \<or> need_divide c' \<and> level g = 1 \<and> active (grid_data g ! nat i)"
    by (elim exE conjE) (rule that)
  show "same_shape g g'" unfolding c'(1) by simp
  show "act g' j = act g j" if "grid_cell g j" using that c'(2) nth_update_id [OF i that] by (simp add: act_def c'(1))
  show "divd g' j \<longleftrightarrow> divd g j \<or> j = i \<and> divd g' j \<and> level g = 1 \<and> act g i" if "grid_cell g j"
    using c'(3) nth_update_id [OF i that] by (auto simp: divd_def act_def c'(1))
qed

section \<open>One level\<close>

text \<open>The first loop: it takes the activity from exactly the cells it lists.\<close>

definition divides :: "UniformGrid \<Rightarrow> UniformGrid \<times> int list \<Rightarrow> bool" where
  "divides g0 acc \<longleftrightarrow> same_shape g0 (fst acc) \<and> flags_ok (fst acc) \<and> distinct (snd acc) \<and>
     (\<forall>i \<in> set (snd acc). grid_cell g0 i \<and> act g0 i) \<and>
     (\<forall>i. grid_cell g0 i \<longrightarrow> act (fst acc) i = (act g0 i \<and> i \<notin> set (snd acc))) \<and>
     (level g0 \<noteq> 1 \<longrightarrow> snd acc = [])"

lemma update_cell_divides:
  assumes ok: "ug_ok g0" and div: "divides g0 acc" and i: "grid_cell g0 i"
  shows "divides g0 (update_cell p d boxes fov i acc)"
proof -
  obtain g ps where acc: "acc = (g, ps)" by (cases acc)
  have g: "same_shape g0 g" "flags_ok g" "distinct ps" "\<And>j. j \<in> set ps \<Longrightarrow> grid_cell g0 j \<and> act g0 j"
      "\<And>j. grid_cell g0 j \<Longrightarrow> act g j = (act g0 j \<and> j \<notin> set ps)" "level g0 \<noteq> 1 \<Longrightarrow> ps = []"
    using div by (auto simp: divides_def acc)
  note sh = same_shape_fields [OF g(1)]
  have okg: "ug_ok g" and ig: "grid_cell g i" using ok i by (simp_all add: sh)
  let ?g = "updateGridInfo p d (ug_adrToIndex g i) g"
  note u = updateGridInfo_flags [OF okg ig, where p = p and d = d]
  note shu = same_shape_fields [OF u(1)]
  show ?thesis
  proof (cases "act g i \<and> ((\<exists>(lo, hi) \<in> set boxes. have_overlap (vmin (grid_data g ! nat i)) (vmax (grid_data g ! nat i)) lo hi) \<or>
      have_overlap (vmin (grid_data g ! nat i)) (vmax (grid_data g ! nat i)) (fst fov) (snd fov))")
    case False
    then have "update_cell p d boxes fov i acc = acc" by (auto simp: update_cell_def acc act_def Let_def)
    then show ?thesis using div by simp
  next
    case True
    let ?gd = "?g\<lparr>grid_data := (grid_data ?g)[nat i := (grid_data ?g ! nat i)\<lparr>active := False\<rparr>]\<rparr>"
    have step: "update_cell p d boxes fov i acc = (if divd ?g i then (?gd, ps @ [i]) else (?g, ps))"
      using True by (auto simp: update_cell_def acc act_def divd_def Let_def)
    have act_u: "act ?g j = (act g0 j \<and> j \<notin> set ps)" if "grid_cell g0 j" for j
      using u(2) [of j] g(5) [OF that] that by (simp add: sh)
    have div_u: "divd ?g j \<longleftrightarrow> divd g j \<or> j = i \<and> divd ?g j \<and> level g0 = 1" if "grid_cell g0 j" for j
      using u(3) [of j] True that by (simp add: sh)
    have ex: "extra_ids g = []" if "level g0 = 1" using g(2) that by (simp add: flags_ok_def sh)
    have ex_ids: "grid_cell g0 j" if "j \<in> set (extra_ids g)" for j using g(2) that by (simp add: flags_ok_def sh)
    have flags_g: "if level g0 = 1 then divd g j \<longleftrightarrow> \<not> act g j else \<not> divd g j" if "grid_cell g0 j" for j
      using g(2) that by (simp add: flags_ok_def sh)
    show ?thesis
    proof (cases "divd ?g i")
      case False
      have "divd ?g j = divd g j" "act ?g j = act g j" if "grid_cell g0 j" for j
        using div_u [OF that] False u(2) [of j] that by (auto simp: sh)
      then have "flags_ok ?g" using g(2) by (auto simp: flags_ok_def shu sh)
      then show ?thesis
        unfolding step using False g u(1) act_u by (auto simp: divides_def intro: same_shape_trans)
    next
      case True': True
      have lev: "level g0 = 1" using True' div_u [OF i] flags_g [OF i] by (auto split: if_splits)
      have cell: "(grid_data ?gd) ! nat j = (if j = i then (grid_data ?g ! nat i)\<lparr>active := False\<rparr> else grid_data ?g ! nat j)"
        if "grid_cell g0 j" for j
        using nth_update_id [of ?g i j] i that by (simp add: shu sh)
      have act_d: "act ?gd j = (act ?g j \<and> j \<noteq> i)" and div_d: "divd ?gd j = divd ?g j" if "grid_cell g0 j" for j
        using cell [OF that] by (auto simp: act_def divd_def)
      have shape: "same_shape g0 ?gd" using g(1) u(1) same_shape_update by (blast intro: same_shape_trans)
      have "divd ?gd j \<longleftrightarrow> \<not> act ?gd j" if j: "grid_cell g0 j" for j
        using flags_g [OF j] div_u [OF j] u(2) [of j] act_d [OF j] div_d [OF j] True' lev j by (auto simp: sh)
      moreover have "extra_ids g0 = []" using ex lev by (simp add: sh)
      ultimately have flags: "flags_ok ?gd" using lev by (simp add: flags_ok_def same_shape_fields [OF shape])
      have new: "act g0 i" "i \<notin> set ps" using True g(5) [OF i] by auto
      show ?thesis
        unfolding step using True' g(3,4) shape flags act_d act_u new i lev by (auto simp: divides_def)
    qed
  qed
qed

lemma update_cells_divide:
  assumes "ug_ok g0" "divides g0 acc" "\<forall>i \<in> set is. grid_cell g0 i"
  shows "divides g0 (fold (update_cell p d boxes fov) is acc)"
  using assms(2,3)
proof (induction "is" arbitrary: acc)
  case (Cons i "is")
  then show ?case using update_cell_divides [OF assms(1)] by simp
qed simp

text \<open>The cells that were just activated are counted as well; this marks no cell of the fine level.\<close>

lemma update_extra_flags:
  assumes "ug_ok g" "level g \<noteq> 1" "grid_cell g i"
  shows "same_shape g (update_extra p d i g)" "grid_cell g j \<Longrightarrow> act (update_extra p d i g) j = act g j"
    "grid_cell g j \<Longrightarrow> divd (update_extra p d i g) j = divd g j"
proof -
  note u = updateGridInfo_flags [OF assms(1,3), where p = p and d = d]
  show "same_shape g (update_extra p d i g)" using u(1) by (simp add: update_extra_def)
  show "grid_cell g j \<Longrightarrow> act (update_extra p d i g) j = act g j" using u(2) by (simp add: update_extra_def)
  show "grid_cell g j \<Longrightarrow> divd (update_extra p d i g) j = divd g j" using u(3) [of j] assms(2) by (auto simp: update_extra_def)
qed

lemma update_extras_flags:
  assumes "ug_ok g" "level g \<noteq> 1" "\<forall>i \<in> set is. grid_cell g i"
  shows "same_shape g (fold (update_extra p d) is g) \<and>
    (\<forall>j. grid_cell g j \<longrightarrow> act (fold (update_extra p d) is g) j = act g j \<and> divd (fold (update_extra p d) is g) j = divd g j)"
  using assms
proof (induction "is" arbitrary: g)
  case (Cons i "is")
  let ?g = "update_extra p d i g"
  have i: "grid_cell g i" using Cons.prems(3) by simp
  note e = update_extra_flags [OF Cons.prems(1,2) i, where p = p and d = d]
  note sh = same_shape_fields [OF e(1)]
  have "same_shape ?g (fold (update_extra p d) is ?g) \<and>
    (\<forall>j. grid_cell ?g j \<longrightarrow> act (fold (update_extra p d) is ?g) j = act ?g j \<and> divd (fold (update_extra p d) is ?g) j = divd ?g j)"
    using Cons.prems by (intro Cons.IH) (simp_all add: sh)
  then show ?case using e same_shape_trans [OF e(1)] by (simp add: sh)
qed simp

text \<open>Whether a cell is relevant now, by its id.\<close>

definition rel :: "UniformGrid \<Rightarrow> int \<Rightarrow> bool" where
  "rel g i \<longleftrightarrow> grid_cell g i \<and> isRelevant g (grid_data g ! nat i)"

lemma set_relevant_ids:
  "set (relevant_id (set_relevant g)) = {i. rel g i}"
  "map_of (relevant_map (set_relevant g)) i = None \<longleftrightarrow> \<not> rel g i"
proof -
  show ids: "set (relevant_id (set_relevant g)) = {i. rel g i}"
    by (auto simp: set_relevant_def rel_def grid_cell_def Let_def)
  have "map_of (map (\<lambda>i. (i, 1)) is) i = None \<longleftrightarrow> i \<notin> set is" for "is" :: "int list" and one :: int
    by (induction "is") auto
  moreover have "relevant_map (set_relevant g) = map (\<lambda>i. (i, 1)) (relevant_id (set_relevant g))"
    by (simp add: set_relevant_def Let_def)
  ultimately show "map_of (relevant_map (set_relevant g)) i = None \<longleftrightarrow> \<not> rel g i" using ids
    by (simp add: map_of_eq_None_iff image_image)
qed

lemma own_ids_eq:
  assumes "\<And>i. map_of (relevant_map g) i = None \<longleftrightarrow> \<not> rel g i"
  shows "own_ids g is = (filter (\<lambda>i. rel g i \<and> \<not> divd g i) is, filter (\<lambda>i. rel g i \<and> divd g i) is)"
  by (induction "is") (auto simp: assms divd_def)

text \<open>What an update of a level does.\<close>

lemma ug_update_effect:
  assumes ok: "ug_ok g0" "flags_ok g0"
    and upd: "ug_updateGridData p drone_id ids (g0, d0, mm0) = ((g, d, mm), keep, parti, divided)"
  shows "ug_ok g" "flags_ok g" "level g = level g0" "grid_num g = grid_num g0" "length (grid_data g) = length (grid_data g0)"
    "extra_ids g = []" "grid_initialized g" "distinct divided" "\<And>i. i \<in> set divided \<Longrightarrow> grid_cell g0 i \<and> act g0 i"
    "\<And>i. grid_cell g0 i \<Longrightarrow> act g i = (act g0 i \<and> i \<notin> set divided)" "level g0 \<noteq> 1 \<Longrightarrow> divided = []"
    "grid_initialized g0 \<Longrightarrow> keep = filter (\<lambda>i. rel g i \<and> \<not> divd g i) ids"
    "grid_initialized g0 \<Longrightarrow> parti = filter (\<lambda>i. rel g i \<and> divd g i) ids"
proof -
  let ?g1 = "g0\<lparr>grid_data := map (\<lambda>c. c\<lparr>is_updated := False\<rparr>) (grid_data g0)\<rparr>"
  obtain fov dd where box: "getUpdatedBox (level ?g1 = 2) d0 = (fov, dd)" by (metis prod.collapse)
  obtain mins maxs mm1 where boxes: "getChunkBoxes (level ?g1 = 2) mm0 = ((mins, maxs), mm1)" by (metis prod.collapse)
  let ?r = "fold (update_cell p dd (zip mins maxs) fov) [0..int (length (grid_data ?g1)) - 1] (?g1, [])"
  obtain g2 ps where r: "?r = (g2, ps)" by (metis prod.collapse)
  obtain g3' where f3: "fold (update_extra p dd) (extra_ids g2) g2 = g3'" by blast
  let ?g3 = "g3'\<lparr>extra_ids := []\<rparr>"
  let ?g4 = "set_relevant ?g3"
  have shape1: "same_shape g0 ?g1" by (auto simp: same_shape_def intro: exI [of _ "map (\<lambda>c. c\<lparr>is_updated := False\<rparr>) (grid_data g0)"])
  note sh1 = same_shape_fields [OF shape1]
  have cells1: "act ?g1 i = act g0 i" "divd ?g1 i = divd g0 i" if "grid_cell g0 i" for i
    using that by (auto simp: act_def divd_def grid_cell_def)
  then have "flags_ok ?g1" using ok(2) by (auto simp: flags_ok_def sh1)
  then have "divides ?g1 (?g1, [])" by (simp add: divides_def)
  then have "divides ?g1 ?r"
    by (rule update_cells_divide [rotated]) (use ok(1) in \<open>auto simp: sh1 grid_cell_def\<close>)
  then have "divides ?g1 (g2, ps)" unfolding r .
  then have g2: "same_shape ?g1 g2" "flags_ok g2" "distinct ps" "\<And>i. i \<in> set ps \<Longrightarrow> grid_cell g0 i \<and> act g0 i"
      "\<And>i. grid_cell g0 i \<Longrightarrow> act g2 i = (act g0 i \<and> i \<notin> set ps)" "level g0 \<noteq> 1 \<Longrightarrow> ps = []"
    using cells1 by (auto simp: divides_def sh1)
  note sh2 = same_shape_fields [OF g2(1)]
  have g3: "same_shape g2 g3' \<and> (\<forall>j. grid_cell g2 j \<longrightarrow> act g3' j = act g2 j \<and> divd g3' j = divd g2 j)"
  proof (cases "level g2 = 1")
    case True
    then have "extra_ids g2 = []" using g2(2) by (simp add: flags_ok_def)
    then show ?thesis using f3 by simp
  next
    case False
    then show ?thesis
      unfolding f3 [symmetric] using g2(2) ok(1) by (intro update_extras_flags) (simp_all add: flags_ok_def sh2 sh1)
  qed
  note sh3 = same_shape_fields [OF conjunct1 [OF g3]]
  have g4: "level ?g4 = level g0" "grid_num ?g4 = grid_num g0" "grid_data ?g4 = grid_data ?g3" "extra_ids ?g4 = []"
      "grid_initialized ?g4 = grid_initialized g0"
    by (simp_all add: set_relevant_def Let_def sh3 sh2 sh1)
  have len4: "length (grid_data ?g4) = length (grid_data g0)" by (simp add: g4 sh3 sh2 sh1)
  have act4: "act ?g4 i = (act g0 i \<and> i \<notin> set (ps))" and div4: "divd ?g4 i = divd g2 i" if "grid_cell g0 i" for i
    using g3 g2(5) [OF that] that by (auto simp: act_def divd_def g4(3) sh2 sh1)
  have id4: "grid_cell ?g4 i \<longleftrightarrow> grid_cell g0 i" for i unfolding grid_cell_def len4 ..
  have flags4: "flags_ok ?g4"
    using g2(2) act4 div4 g2(5) by (auto simp: flags_ok_def g4(1,4) id4 sh2 sh1)
  have ok4: "ug_ok ?g4" using ok(1) by (simp add: ug_ok_def g4(2) len4)
  have relmap: "map_of (relevant_map ?g4) i = None \<longleftrightarrow> \<not> rel ?g4 i" for i
    using set_relevant_ids(2) [of ?g3 i] by (simp add: rel_def grid_cell_def isRelevant_def set_relevant_def Let_def)
  note own = own_ids_eq [of ?g4, OF relmap]
  have res: "ug_updateGridData p drone_id ids (g0, d0, mm0) =
      (if \<not> grid_initialized g0 then
         ((?g4\<lparr>grid_initialized := True\<rparr>, dd, mm1), (if drone_id = 1 \<and> level ?g4 = 1 then relevant_id ?g4 else ids), [], ps)
       else ((?g4, dd, mm1), filter (\<lambda>i. rel ?g4 i \<and> \<not> divd ?g4 i) ids, filter (\<lambda>i. rel ?g4 i \<and> divd ?g4 i) ids, ps))"
    unfolding ug_updateGridData_def Let_def prod.case box boxes r f3 own g4(5) ..
  have g: "g = ?g4\<lparr>grid_initialized := True\<rparr> \<or> grid_initialized g0 \<and> g = ?g4" and divided: "divided = ps"
    using upd unfolding res by (auto split: if_splits)
  have same: "act g i = act ?g4 i" "divd g i = divd ?g4 i" "rel g i = rel ?g4 i" for i
    using g by (auto simp: act_def divd_def rel_def grid_cell_def isRelevant_def)
  show "ug_ok g" using g ok4 by (auto simp: ug_ok_def)
  show "flags_ok g" using g flags4 by (auto simp: flags_ok_def act_def divd_def grid_cell_def)
  show "level g = level g0" "grid_num g = grid_num g0" "length (grid_data g) = length (grid_data g0)" "extra_ids g = []"
    using g g4 len4 by auto
  show "grid_initialized g" using g g4(5) by auto
  show "distinct divided" "\<And>i. i \<in> set divided \<Longrightarrow> grid_cell g0 i \<and> act g0 i" using g2(3,4) by (simp_all add: divided)
  show "\<And>i. grid_cell g0 i \<Longrightarrow> act g i = (act g0 i \<and> i \<notin> set divided)" using act4 by (simp add: same divided)
  show "level g0 \<noteq> 1 \<Longrightarrow> divided = []" using g2(6) by (simp add: divided)
  show "keep = filter (\<lambda>i. rel g i \<and> \<not> divd g i) ids" "parti = filter (\<lambda>i. rel g i \<and> divd g i) ids" if "grid_initialized g0"
    using upd that unfolding res by auto
qed

section \<open>Both levels\<close>

lemma nth_update_at: "j < length xs \<Longrightarrow> xs[k := v] ! j = (if k = j then v else xs ! j)"
  by auto

lemma length_fold_activate [simp]:
  "length (fold (\<lambda>i b. b[nat i := (b ! nat i)\<lparr>active := True\<rparr>]) is cs) = length cs"
  by (induction "is" arbitrary: cs) simp_all

lemma fold_activate:
  assumes "i < length cs"
  shows "fold (\<lambda>i b. b[nat i := (b ! nat i)\<lparr>active := True\<rparr>]) is cs ! i =
    (if i \<in> nat ` set is then (cs ! i)\<lparr>active := True\<rparr> else cs ! i)"
  using assms by (induction "is" arbitrary: cs) (auto simp: nth_update_at)

lemma activateGrids_effect:
  assumes g: "ug_ok g" "level g \<noteq> 1" "flags_ok g" and ids: "\<forall>i \<in> set is. grid_cell g i"
  shows "ug_ok (activateGrids is g)" "flags_ok (activateGrids is g)" "level (activateGrids is g) = level g"
    "grid_num (activateGrids is g) = grid_num g" "length (grid_data (activateGrids is g)) = length (grid_data g)"
    "grid_initialized (activateGrids is g) = grid_initialized g"
    "grid_cell g j \<Longrightarrow> act (activateGrids is g) j \<longleftrightarrow> act g j \<or> j \<in> set is"
proof -
  let ?g = "activateGrids is g"
  have sh: "level ?g = level g" "grid_num ?g = grid_num g" "length (grid_data ?g) = length (grid_data g)"
      "grid_initialized ?g = grid_initialized g" "extra_ids ?g = is"
    by (simp_all add: activateGrids_def)
  have cells: "grid_data ?g ! nat j = (if j \<in> set is then (grid_data g ! nat j)\<lparr>active := True\<rparr> else grid_data g ! nat j)"
    if "grid_cell g j" for j
  proof -
    have "nat j \<in> nat ` set is \<longleftrightarrow> j \<in> set is"
    proof
      assume "nat j \<in> nat ` set is"
      then obtain i where i: "i \<in> set is" "nat j = nat i" by auto
      then have "0 \<le> i" "0 \<le> j" using ids that by (auto simp: grid_cell_def)
      with i show "j \<in> set is" by (metis eq_nat_nat_iff)
    qed simp
    moreover have "nat j < length (grid_data g)" using that by (auto simp: grid_cell_def)
    ultimately show ?thesis using fold_activate [of "nat j" "grid_data g" "is"] by (simp add: activateGrids_def)
  qed
  show "ug_ok ?g" using g(1) by (simp add: ug_ok_def sh)
  show "level ?g = level g" "grid_num ?g = grid_num g" "length (grid_data ?g) = length (grid_data g)"
      "grid_initialized ?g = grid_initialized g" by (rule sh)+
  show "act ?g j \<longleftrightarrow> act g j \<or> j \<in> set is" if "grid_cell g j" using cells [OF that] by (simp add: act_def)
  have "divd ?g j = divd g j" if "grid_cell g j" for j using cells [OF that] by (simp add: divd_def)
  then show "flags_ok ?g" using g(2,3) ids by (simp add: flags_ok_def sh grid_cell_def)
qed

text \<open>Each coarse cell is active, or replaced by its four fine cells.\<close>

definition partition_ok :: "HGrid \<Rightarrow> bool" where
  "partition_ok h \<longleftrightarrow> hgrid_ok h \<and> flags_ok (grid1 h) \<and> flags_ok (grid2 h) \<and>
     (\<forall>c f. grid_cell (grid1 h) c \<longrightarrow> f \<in> set (coarseToFineId h c) \<longrightarrow> act (grid2 h) f = (\<not> act (grid1 h) c))"

lemma coarse_fine_cong:
  "grid_num (grid1 h') = grid_num (grid1 h) \<Longrightarrow> grid_num (grid2 h') = grid_num (grid2 h) \<Longrightarrow>
    coarseToFineId h' c = coarseToFineId h c \<and> fineToCoarseId h' f = fineToCoarseId h f"
  by (simp add: coarseToFineId_def fineToCoarseId_def grid_scheme split: prod.splits)

lemma hgrid_ok_cong:
  assumes "hgrid_ok h" "grid_num (grid1 h') = grid_num (grid1 h)" "grid_num (grid2 h') = grid_num (grid2 h)"
    "length (grid_data (grid1 h')) = length (grid_data (grid1 h))" "length (grid_data (grid2 h')) = length (grid_data (grid2 h))"
    "level (grid1 h') = level (grid1 h)" "level (grid2 h') = level (grid2 h)"
  shows "hgrid_ok h'"
  using assms by (simp add: hgrid_ok_def ug_ok_def)

text \<open>The parts of an update of both levels.\<close>

definition own_coarse :: "HGrid \<Rightarrow> int list \<Rightarrow> int list" where
  "own_coarse h ids = filter (\<lambda>i. i < grid_num1 h) ids"

definition own_fine :: "HGrid \<Rightarrow> int list \<Rightarrow> int list" where
  "own_fine h ids = map (\<lambda>i. i - grid_num1 h) (filter (\<lambda>i. \<not> i < grid_num1 h) ids)"

lemma hg_update_steps:
  assumes "hg_updateGridData p drone_id ids last_ids consistent (h, d, mm) = ((h', d', mm'), ids', consistent')"
  obtains g1 d1 mm1 keep1 parti1 div1 keep2 parti2 div2 where
    "ug_updateGridData p drone_id (own_coarse h ids) (grid1 h, d, mm) = ((g1, d1, mm1), keep1, parti1, div1)"
    "ug_updateGridData p drone_id (own_fine h ids @ concat (map (coarseToFineId (h\<lparr>grid1 := g1\<rparr>)) parti1))
       (activateGrids (concat (map (coarseToFineId (h\<lparr>grid1 := g1\<rparr>)) div1)) (grid2 h), d1, mm1) =
       ((grid2 h', d', mm'), keep2, parti2, div2)"
    "h' = h\<lparr>grid1 := g1, grid2 := grid2 h'\<rparr>" "ids' = keep1 @ map (\<lambda>i. i + grid_num1 h) keep2"
    "consistent' = getConsistentGrid h' last_ids ids' consistent"
  using assms
  by (auto simp: hg_updateGridData_def Let_def own_coarse_def own_fine_def split: prod.splits)

lemma activated_fine:
  assumes h: "hgrid_ok h" and cs: "\<forall>c \<in> set cs. grid_cell (grid1 h) c"
  shows "\<forall>f \<in> set (concat (map (coarseToFineId h) cs)). grid_cell (grid2 h) f"
    and "grid_cell (grid2 h) f \<Longrightarrow> f \<in> set (concat (map (coarseToFineId h) cs)) \<longleftrightarrow> fineToCoarseId h f \<in> set cs"
    and "distinct cs \<Longrightarrow> distinct (concat (map (coarseToFineId h) cs))"
proof -
  show "\<forall>f \<in> set (concat (map (coarseToFineId h) cs)). grid_cell (grid2 h) f" using fine_cells(1) [OF h] cs by auto
  show "f \<in> set (concat (map (coarseToFineId h) cs)) \<longleftrightarrow> fineToCoarseId h f \<in> set cs" if "grid_cell (grid2 h) f"
    using fine_cells(1) [OF h] cs that by fastforce
  show "distinct (concat (map (coarseToFineId h) cs))" if "distinct cs"
    using that cs
  proof (induction cs)
    case (Cons c cs)
    have "set (coarseToFineId h c) \<inter> set (concat (map (coarseToFineId h) cs)) = {}"
      using Cons.prems fine_cells(1) [OF h] by fastforce
    then show ?case using Cons fine_cells(2) [OF h] by simp
  qed simp
qed

text \<open>The update of both levels.\<close>

lemma hg_update_effect:
  assumes part: "partition_ok h"
    and upd: "hg_updateGridData p drone_id ids last_ids consistent (h, d, mm) = ((h', d', mm'), ids', consistent')"
  shows "partition_ok h'" "grid_num1 h' = grid_num1 h" "grid_cell (grid1 h') i \<longleftrightarrow> grid_cell (grid1 h) i"
    "grid_cell (grid2 h') i \<longleftrightarrow> grid_cell (grid2 h) i" "fineToCoarseId h' i = fineToCoarseId h i"
    "coarseToFineId h' i = coarseToFineId h i" "grid_initialized (grid1 h')" "grid_initialized (grid2 h')"
    "grid_cell (grid2 h) i \<Longrightarrow> act (grid2 h) i \<Longrightarrow> act (grid2 h') i" "grid_cell (grid1 h) i \<Longrightarrow> act (grid1 h') i \<Longrightarrow> act (grid1 h) i"
    "consistent' = getConsistentGrid h' last_ids ids' consistent"
    "grid_initialized (grid1 h) \<Longrightarrow> grid_initialized (grid2 h) \<Longrightarrow>
      ids' = filter (\<lambda>i. rel (grid1 h') i \<and> act (grid1 h') i) (own_coarse h ids) @
        map (\<lambda>i. i + grid_num1 h) (filter (rel (grid2 h')) (own_fine h ids @
          concat (map (coarseToFineId h) (filter (\<lambda>i. rel (grid1 h') i \<and> \<not> act (grid1 h') i) (own_coarse h ids)))))"
proof -
  have h: "hgrid_ok h" and fl: "flags_ok (grid1 h)" "flags_ok (grid2 h)"
    and p: "\<And>c f. grid_cell (grid1 h) c \<Longrightarrow> f \<in> set (coarseToFineId h c) \<Longrightarrow> act (grid2 h) f = (\<not> act (grid1 h) c)"
    using part by (auto simp: partition_ok_def)
  have ok: "ug_ok (grid1 h)" "ug_ok (grid2 h)" "level (grid1 h) = 1" "level (grid2 h) = 2" using h by (simp_all add: hgrid_ok_def)
  obtain g1 d1 mm1 keep1 parti1 div1 keep2 parti2 div2 where
    u1: "ug_updateGridData p drone_id (own_coarse h ids) (grid1 h, d, mm) = ((g1, d1, mm1), keep1, parti1, div1)" and
    u2: "ug_updateGridData p drone_id (own_fine h ids @ concat (map (coarseToFineId (h\<lparr>grid1 := g1\<rparr>)) parti1))
       (activateGrids (concat (map (coarseToFineId (h\<lparr>grid1 := g1\<rparr>)) div1)) (grid2 h), d1, mm1) =
       ((grid2 h', d', mm'), keep2, parti2, div2)" and
    h': "h' = h\<lparr>grid1 := g1, grid2 := grid2 h'\<rparr>" and ids': "ids' = keep1 @ map (\<lambda>i. i + grid_num1 h) keep2" and
    cons': "consistent' = getConsistentGrid h' last_ids ids' consistent"
    by (rule hg_update_steps [OF upd])
  note e1 = ug_update_effect [OF ok(1) fl(1) u1]
  have g1: "grid1 h' = g1" using h' by (metis HGrid.select_convs(1) HGrid.surjective HGrid.update_convs(1,2))
  have cong1: "coarseToFineId (h\<lparr>grid1 := g1\<rparr>) = coarseToFineId h"
    using coarse_fine_cong [of "h\<lparr>grid1 := g1\<rparr>" h] e1(4) by auto
  let ?new = "concat (map (coarseToFineId h) div1)"
  have div1: "\<forall>c \<in> set div1. grid_cell (grid1 h) c" using e1(9) by blast
  note new = activated_fine [OF h div1]
  have lev2: "level (grid2 h) \<noteq> 1" using ok(4) by simp
  note a2 = activateGrids_effect [OF ok(2) lev2 fl(2) new(1)]
  note e2 = ug_update_effect [OF a2(1,2) u2 [unfolded cong1]]
  have len: "length (grid_data (grid1 h')) = length (grid_data (grid1 h))" "length (grid_data (grid2 h')) = length (grid_data (grid2 h))"
    using e1(5) e2(5) a2(5) by (simp_all add: g1)
  then show ids1: "grid_cell (grid1 h') i \<longleftrightarrow> grid_cell (grid1 h) i" and ids2: "grid_cell (grid2 h') i \<longleftrightarrow> grid_cell (grid2 h) i" for i
    by (simp_all add: grid_cell_def)
  show n1: "grid_num1 h' = grid_num1 h" by (simp add: grid_num1_def len)
  have nums: "grid_num (grid1 h') = grid_num (grid1 h)" "grid_num (grid2 h') = grid_num (grid2 h)"
    using e1(4) e2(4) a2(4) by (simp_all add: g1)
  show fc: "fineToCoarseId h' i = fineToCoarseId h i" and cf: "coarseToFineId h' i = coarseToFineId h i" for i
    using coarse_fine_cong [OF nums] by auto
  have h'_ok: "hgrid_ok h'"
    using e1(3) e2(3) a2(3) by (intro hgrid_ok_cong [OF h nums len]) (simp_all add: g1)
  have act1: "act (grid1 h') c = (act (grid1 h) c \<and> c \<notin> set div1)" if "grid_cell (grid1 h) c" for c
    using e1(10) [OF that] by (simp add: g1)
  have act2: "act (grid2 h') f \<longleftrightarrow> act (grid2 h) f \<or> fineToCoarseId h f \<in> set div1" if "grid_cell (grid2 h) f" for f
  proof -
    have c: "grid_cell (activateGrids ?new (grid2 h)) f" using that by (simp add: grid_cell_def a2(5))
    have "act (grid2 h') f = act (activateGrids ?new (grid2 h)) f" using e2(10) [OF c] e2(11) lev2 a2(3) by simp
    then show ?thesis using a2(7) [OF that] new(2) [OF that] by simp
  qed
  show "act (grid2 h) i \<Longrightarrow> act (grid2 h') i" if "grid_cell (grid2 h) i" using act2 [OF that] by simp
  show "act (grid1 h') i \<Longrightarrow> act (grid1 h) i" if "grid_cell (grid1 h) i" using act1 [OF that] by simp
  have "act (grid2 h') f = (\<not> act (grid1 h') c)" if c: "grid_cell (grid1 h) c" and f: "f \<in> set (coarseToFineId h c)" for c f
    using p [OF c f] act1 [OF c] act2 [of f] fine_cells(1) [OF h c, of f] f by auto
  then show "partition_ok h'" unfolding partition_ok_def ids1 cf using h'_ok e1(2) [folded g1] e2(2) by blast
  show "grid_initialized (grid1 h')" "grid_initialized (grid2 h')" using e1(7) e2(7) by (simp_all add: g1)
  show "consistent' = getConsistentGrid h' last_ids ids' consistent" by (rule cons')
  show "ids' = filter (\<lambda>i. rel (grid1 h') i \<and> act (grid1 h') i) (own_coarse h ids) @
        map (\<lambda>i. i + grid_num1 h) (filter (rel (grid2 h')) (own_fine h ids @
          concat (map (coarseToFineId h) (filter (\<lambda>i. rel (grid1 h') i \<and> \<not> act (grid1 h') i) (own_coarse h ids)))))"
    if init: "grid_initialized (grid1 h)" "grid_initialized (grid2 h)"
  proof -
    have d1: "rel (grid1 h') i \<and> divd (grid1 h') i \<longleftrightarrow> rel (grid1 h') i \<and> \<not> act (grid1 h') i" for i
      using e1(2,3) ok(3) by (auto simp: flags_ok_def rel_def g1)
    have d2: "rel (grid2 h') i \<and> \<not> divd (grid2 h') i \<longleftrightarrow> rel (grid2 h') i" for i
      using e2(2,3) a2(3) ok(4) by (auto simp: flags_ok_def rel_def)
    have d3: "rel (grid1 h') i \<and> \<not> divd (grid1 h') i \<longleftrightarrow> rel (grid1 h') i \<and> act (grid1 h') i" for i
      using d1 by blast
    have k1: "keep1 = filter (\<lambda>i. rel (grid1 h') i \<and> act (grid1 h') i) (own_coarse h ids)"
      "parti1 = filter (\<lambda>i. rel (grid1 h') i \<and> \<not> act (grid1 h') i) (own_coarse h ids)"
      using e1(12,13) [OF init(1)] unfolding g1 [symmetric] d1 d3 by simp_all
    have "keep2 = filter (rel (grid2 h')) (own_fine h ids @ concat (map (coarseToFineId h) parti1))"
      using e2(12) init(2) a2(6) unfolding d2 by simp
    then show ?thesis by (simp add: ids' k1)
  qed
qed

end
