(* ===== verification/Grid_Claims.thy ===== *)
theory Grid_Claims imports Grid_Update Map_Claims
begin

text \<open>The properties of the exploration grid.\<close>

section \<open>Reachable grids\<close>

text \<open>An operation that keeps the number, the activity and the marks of the cells.\<close>

definition keeps_flags :: "UniformGrid \<Rightarrow> UniformGrid \<Rightarrow> bool" where
  "keeps_flags g g' \<longleftrightarrow> level g' = level g \<and> grid_num g' = grid_num g \<and> extra_ids g' = extra_ids g \<and>
     grid_initialized g' = grid_initialized g \<and>
     map (\<lambda>c. (active c, need_divide c)) (grid_data g') = map (\<lambda>c. (active c, need_divide c)) (grid_data g)"

lemma keeps_flags_simps:
  assumes "keeps_flags g g'"
  shows "length (grid_data g') = length (grid_data g)" "grid_cell g' i \<longleftrightarrow> grid_cell g i"
    "grid_cell g i \<Longrightarrow> act g' i = act g i" "grid_cell g i \<Longrightarrow> divd g' i = divd g i"
proof -
  have m: "map (\<lambda>c. (active c, need_divide c)) (grid_data g') = map (\<lambda>c. (active c, need_divide c)) (grid_data g)"
    using assms by (simp add: keeps_flags_def)
  show len: "length (grid_data g') = length (grid_data g)" using arg_cong [OF m, of length] by simp
  then show "grid_cell g' i \<longleftrightarrow> grid_cell g i" by (simp add: grid_cell_def)
  have "(active (grid_data g' ! nat i), need_divide (grid_data g' ! nat i)) =
      (active (grid_data g ! nat i), need_divide (grid_data g ! nat i))" if "grid_cell g i"
    using arg_cong [OF m, of "\<lambda>l. l ! nat i"] that len by (auto simp: grid_cell_def)
  then show "grid_cell g i \<Longrightarrow> act g' i = act g i" "grid_cell g i \<Longrightarrow> divd g' i = divd g i"
    by (simp_all add: act_def divd_def)
qed

lemma partition_keeps:
  assumes part: "partition_ok h" and k: "keeps_flags (grid1 h) (grid1 h')" "keeps_flags (grid2 h) (grid2 h')"
  shows "partition_ok h'"
proof -
  have nums: "grid_num (grid1 h') = grid_num (grid1 h)" "grid_num (grid2 h') = grid_num (grid2 h)"
    "level (grid1 h') = level (grid1 h)" "level (grid2 h') = level (grid2 h)"
    "extra_ids (grid1 h') = extra_ids (grid1 h)" "extra_ids (grid2 h') = extra_ids (grid2 h)"
    using k by (simp_all add: keeps_flags_def)
  note k1 = keeps_flags_simps [OF k(1)] and k2 = keeps_flags_simps [OF k(2)]
  have cf: "coarseToFineId h' c = coarseToFineId h c" for c using coarse_fine_cong [OF nums(1,2)] by auto
  have h: "hgrid_ok h" using part by (simp add: partition_ok_def)
  have "flags_ok (grid1 h')" "flags_ok (grid2 h')"
    using part k1 k2 nums by (simp_all add: partition_ok_def flags_ok_def)
  moreover have "hgrid_ok h'" by (rule hgrid_ok_cong [OF h nums(1,2) k1(1) k2(1) nums(3,4)])
  moreover have "act (grid2 h') f = (\<not> act (grid1 h') c)" if "grid_cell (grid1 h') c" "f \<in> set (coarseToFineId h c)" for c f
    using part that k1 k2 fine_cells(1) [OF h] by (simp add: partition_ok_def)
  ultimately show ?thesis by (simp add: partition_ok_def cf)
qed

lemma inputFrontiers_keeps: "keeps_flags g (ug_inputFrontiers avgs nums g)"
proof -
  have loop: "keeps_flags g (fold f is g1)"
    if "keeps_flags g g1" "\<And>i g1. keeps_flags g g1 \<Longrightarrow> keeps_flags g (f i g1)" for f g1 and "is" :: "nat list"
    using that by (induction "is" arbitrary: g1) simp_all
  have start: "keeps_flags g (g\<lparr>grid_data := map (\<lambda>c. c\<lparr>contained_frontier_ids := [], frontier_cell_nums := [], frontier_num := 0\<rparr>)
      (grid_data g)\<rparr>)"
    by (simp add: keeps_flags_def comp_def)
  have step: "keeps_flags g (g1\<lparr>grid_data := (grid_data g1)[a := (grid_data g1 ! a)\<lparr>contained_frontier_ids := x, frontier_cell_nums := y, frontier_num := z\<rparr>]\<rparr>)"
    if "keeps_flags g g1" for g1 a x y z
  proof (cases "a < length (grid_data g1)")
    case True
    then have "(map (\<lambda>c. (active c, need_divide c)) (grid_data g1))[a := (active (grid_data g1 ! a), need_divide (grid_data g1 ! a))] =
        map (\<lambda>c. (active c, need_divide c)) (grid_data g1)"
      by (metis (mono_tags, lifting) list_update_id nth_map)
    then show ?thesis using that by (simp add: keeps_flags_def map_update)
  next
    case False
    then show ?thesis using that by (simp add: keeps_flags_def not_less list_update_beyond)
  qed
  show ?thesis unfolding ug_inputFrontiers_def Let_def
    by (rule loop [OF start]) (simp only: if_split step simp_thms)
qed

lemma updateBaseCoor_keeps: "keeps_flags g (ug_updateBaseCoor (set_base r t g))"
proof -
  have "(active (base_cell g' i c), need_divide (base_cell g' i c)) = (active c, need_divide c)" for g' i c
    by (simp add: base_cell_def Let_def split: prod.splits)
  then have "map (\<lambda>c. (active c, need_divide c)) (grid_data (ug_updateBaseCoor (set_base r t g))) =
      map (\<lambda>c. (active c, need_divide c)) (grid_data g)"
    by (auto simp: ug_updateBaseCoor_def set_base_def intro: nth_equalityI)
  then show ?thesis by (simp add: keeps_flags_def updateBaseCoor_simps)
qed

text \<open>The cells at the start: every coarse one is active, no fine one.\<close>

lemma grid_indices_set: "i \<in> set (grid_indices g) \<longleftrightarrow> in_dims (grid_num g) i"
proof -
  obtain nx ny nz x y z where n: "grid_num g = (nx, ny, nz)" "i = (x, y, z)" by (metis prod.collapse)
  show ?thesis by (force simp: grid_indices_def in_dims_def n)
qed

lemma initGridData_cell:
  assumes ok: "ug_ok (initGridData res g)" and i: "grid_cell (initGridData res g) i"
  shows "act (initGridData res g) i \<longleftrightarrow> level g = 1" "\<not> divd (initGridData res g) i"
    "\<not> is_updated (grid_data (initGridData res g) ! nat i)"
proof -
  obtain n where n: "zip3 (\<lambda>s r. \<lceil>s / r\<rceil>) (zip3 (-) (ug_max g) (ug_min g)) (ug_resolution g) = n" by blast
  let ?g0 = "g\<lparr>grid_num := n\<rparr>"
  have num: "grid_num (initGridData res g) = n" by (simp add: initGridData_simps n)
  obtain nx ny nz where xyz: "n = (nx, ny, nz)" by (metis prod.collapse)
  have data: "grid_data (initGridData res g) =
      fold (\<lambda>ix b. b[nat (address3 n ix) := init_cell ?g0 res ix]) (grid_indices ?g0) (replicate (nat (num_cells n)) empty_grid)"
    unfolding initGridData_def n Let_def grid_scheme by (simp add: num_cells_def xyz)
  have dims: "dims_pos n" using ok by (simp add: ug_ok_def num)
  let ?ix = "index3 n i"
  have ix: "in_dims n ?ix" "address3 n ?ix = i"
    using radix.decode_valid [OF dims, of i] i ok by (auto simp: grid_cell_iff num)
  have "grid_data (initGridData res g) ! nat (address3 n ?ix) = init_cell ?g0 res ?ix"
    unfolding data using ix(1) dims by (subst radix.fold_write) (auto simp: grid_indices_set)
  then have "grid_data (initGridData res g) ! nat i = init_cell ?g0 res ?ix" by (simp add: ix(2))
  then show "act (initGridData res g) i \<longleftrightarrow> level g = 1" "\<not> divd (initGridData res g) i"
    "\<not> is_updated (grid_data (initGridData res g) ! nat i)"
    by (simp_all add: act_def divd_def init_cell_def empty_grid_def split: prod.splits)
qed

lemma make_hgrid_partition:
  assumes "box_ok c"
  shows "partition_ok (make_hgrid res c)"
proof -
  let ?h = "\<lparr>grid1 = initGridData res (make_grid c 1), grid2 = initGridData res (make_grid c 2),
        hg_consistent_cost = pc_consistent_cost c, hg_consistent_cost2 = pc_consistent_cost2 c,
        velocity_cost_weight = pc_velocity_cost_weight c, velocity_cost_cap = pc_velocity_cost_cap c\<rparr>"
  have mk: "level (make_grid c l) = l" "extra_ids (make_grid c l) = []" for l
    by (simp_all add: make_grid_def split: prod.splits)
  have k: "keeps_flags (grid1 ?h) (grid1 (make_hgrid res c))" "keeps_flags (grid2 ?h) (grid2 (make_hgrid res c))"
    by (simp_all add: make_hgrid_def hg_updateBaseCoor_def updateBaseCoor_keeps)
  have ok: "hgrid_ok ?h"
    using make_hgrid_ok [OF assms, of res]
    by (simp add: make_hgrid_def hg_updateBaseCoor_def hgrid_ok_def ug_ok_def updateBaseCoor_simps)
  then have ug: "ug_ok (initGridData res (make_grid c 1))" "ug_ok (initGridData res (make_grid c 2))" by (simp_all add: hgrid_ok_def)
  note i1 = initGridData_cell [OF ug(1)] and i2 = initGridData_cell [OF ug(2)]
  have "flags_ok (grid1 ?h)" "flags_ok (grid2 ?h)"
    using i1 i2 by (simp_all add: flags_ok_def initGridData_simps(1,4) mk)
  moreover have "act (grid2 ?h) f = (\<not> act (grid1 ?h) a)" if "grid_cell (grid1 ?h) a" "f \<in> set (coarseToFineId ?h a)" for a f
    using that fine_cells(1) [OF ok that(1)] i1 i2 by (simp add: mk)
  ultimately have "partition_ok ?h" using ok by (simp add: partition_ok_def)
  then show ?thesis by (rule partition_keeps [OF _ k])
qed

text \<open>The grids a drone can have: after construction, frontiers and updates come in any order, with any
  map, owned ids and last tour.\<close>

inductive grid_reach :: "real \<Rightarrow> PartitionConfig \<Rightarrow> HGrid \<Rightarrow> bool" for res c where
  start: "grid_reach res c (make_hgrid res c)"
| frontiers: "grid_reach res c h \<Longrightarrow> grid_reach res c (hg_inputFrontiers avgs nums h)"
| update: "grid_reach res c h \<Longrightarrow>
    hg_updateGridData p drone_id ids last_ids consistent (h, d, mm) = ((h', d', mm'), ids', consistent') \<Longrightarrow> grid_reach res c h'"

lemma grid_reach_partition: "grid_reach res c h \<Longrightarrow> box_ok c \<Longrightarrow> partition_ok h"
proof (induction rule: grid_reach.induct)
  case start
  then show ?case by (rule make_hgrid_partition)
next
  case (frontiers h avgs nums)
  have "keeps_flags (grid1 h) (grid1 (hg_inputFrontiers avgs nums h))" "keeps_flags (grid2 h) (grid2 (hg_inputFrontiers avgs nums h))"
    by (simp_all add: hg_inputFrontiers_def inputFrontiers_keeps)
  then show ?case by (rule partition_keeps [OF frontiers.IH [OF frontiers.prems]])
next
  case (update h p drone_id ids last_ids consistent d mm h' d' mm' ids' consistent')
  show ?case by (rule hg_update_effect(1) [OF update.IH [OF update.prems] update.hyps(2)])
qed

section \<open>Properties\<close>

definition grid_id :: "HGrid \<Rightarrow> int \<Rightarrow> bool" where
  "grid_id h i \<longleftrightarrow> 0 \<le> i \<and> i < grid_num1 h + int (length (grid_data (grid2 h)))"

definition small_partition :: PartitionConfig where
  "small_partition = \<lparr>pc_box_min = (0, 0, 0), pc_box_max = (4, 2, 1), pc_min_unknown = 1, pc_min_frontier = 1,
     pc_min_free = 1, pc_fine_grid_requires_frontier = False, pc_grid_size = 2, pc_use_swarm_tf = False,
     pc_consistent_cost = 1, pc_consistent_cost2 = 1, pc_velocity_cost_weight = 1, pc_velocity_cost_cap = 1\<rparr>"

lemma small_box: "box_ok small_partition"
  by (simp add: box_ok_def small_partition_def)

text \<open>C37: The fine cells of the coarse cells partition the fine level: the four fine ids of a coarse id
  are distinct and are exactly the fine ids that lead back to it, and every fine id leads to a coarse one.\<close>

theorem coarse_fine_round_trip:
  assumes "box_ok c" "grid_reach res c h"
  shows "(\<forall>a \<in> {0..<grid_num1 h}. distinct (coarseToFineId h a) \<and> length (coarseToFineId h a) = 4 \<and>
      set (coarseToFineId h a) = {f \<in> {0..<int (length (grid_data (grid2 h)))}. fineToCoarseId h f = a}) \<and>
    (\<forall>f \<in> {0..<int (length (grid_data (grid2 h)))}. fineToCoarseId h f \<in> {0..<grid_num1 h})"
proof -
  have h: "hgrid_ok h" using grid_reach_partition [OF assms(2,1)] by (simp add: partition_ok_def)
  have ids: "grid_cell (grid1 h) a \<longleftrightarrow> a \<in> {0..<grid_num1 h}" "grid_cell (grid2 h) f \<longleftrightarrow> f \<in> {0..<int (length (grid_data (grid2 h)))}" for a f
    by (simp_all add: grid_cell_def grid_num1_def)
  have "length (coarseToFineId h a) = 4" for a by (simp add: coarseToFineId_def split: prod.splits)
  then show ?thesis using fine_cells [OF h] fine_range [OF h] unfolding ids by blast
qed

lemma coarse_fine_round_trip_witness:
  "set (coarseToFineId (make_hgrid 1 small_partition) 0) =
     {f \<in> {0..<int (length (grid_data (grid2 (make_hgrid 1 small_partition))))}. fineToCoarseId (make_hgrid 1 small_partition) f = 0}"
proof -
  have "0 < grid_num1 (make_hgrid 1 small_partition)"
    by (simp add: grid_num1_def make_hgrid_def hg_updateBaseCoor_def updateBaseCoor_simps initGridData_simps make_grid_def
        axis_resolution_def small_partition_def num_cells_def)
  then show ?thesis using coarse_fine_round_trip [OF small_box grid_reach.start] by simp
qed

text \<open>C29: In every reachable grid each coarse cell is active or else all its four fine cells are, never
  both; so the active cells that are offered for allocation are distinct and no two of them overlap.\<close>

theorem active_cells_partition:
  assumes "box_ok c" "grid_reach res c h"
  shows "(\<forall>a \<in> {0..<grid_num1 h}. \<forall>f \<in> set (coarseToFineId h a).
      active (grid_data (grid2 h) ! nat f) = (\<not> active (grid_data (grid1 h) ! nat a))) \<and>
    distinct (getActiveGrids h) \<and>
    (\<forall>i \<in> set (getActiveGrids h). \<forall>j \<in> set (getActiveGrids h). i \<noteq> j \<longrightarrow> coarse_of h i = coarse_of h j \<longrightarrow>
      isFineGrid h i \<and> isFineGrid h j)"
proof -
  have part: "partition_ok h" by (rule grid_reach_partition [OF assms(2,1)])
  then have h: "hgrid_ok h" and p: "\<And>a f. grid_cell (grid1 h) a \<Longrightarrow> f \<in> set (coarseToFineId h a) \<Longrightarrow> act (grid2 h) f = (\<not> act (grid1 h) a)"
    by (auto simp: partition_ok_def)
  have 1: "\<forall>a \<in> {0..<grid_num1 h}. \<forall>f \<in> set (coarseToFineId h a).
      active (grid_data (grid2 h) ! nat f) = (\<not> active (grid_data (grid1 h) ! nat a))"
    using p by (auto simp: grid_cell_def grid_num1_def act_def)
  have dist: "distinct (active_ids g)" for g by (simp add: active_ids_def)
  have mem1: "i \<in> set (active_ids g) \<Longrightarrow> grid_cell g i \<and> act g i" for g i by (auto simp: active_ids_def grid_cell_def act_def)
  have 2: "distinct (getActiveGrids h)"
  proof -
    have "\<not> i + grid_num1 h \<in> set (active_ids (grid1 h))" if "i \<in> set (active_ids (grid2 h))" for i
      using mem1 [OF that] mem1 [of "i + grid_num1 h" "grid1 h"] by (auto simp: grid_cell_def grid_num1_def)
    then show ?thesis using dist by (auto simp: getActiveGrids_def distinct_map inj_on_def)
  qed
  have mixed: False if "i \<in> set (active_ids (grid1 h))" "f \<in> set (active_ids (grid2 h))" "fineToCoarseId h f = i" for i f
    using mem1 [OF that(1)] mem1 [OF that(2)] that(3) fine_cells(1) [OF h, of i f] p [of i f] by auto
  have 3: "isFineGrid h i \<and> isFineGrid h j"
    if ij: "i \<in> set (getActiveGrids h)" "j \<in> set (getActiveGrids h)" "i \<noteq> j" "coarse_of h i = coarse_of h j" for i j
  proof -
    have coarse: "i \<in> set (active_ids (grid1 h)) \<and> coarse_of h i = i \<and> \<not> isFineGrid h i \<or>
        i - grid_num1 h \<in> set (active_ids (grid2 h)) \<and> coarse_of h i = fineToCoarseId h (i - grid_num1 h) \<and> isFineGrid h i"
      if "i \<in> set (getActiveGrids h)" for i
      using that mem1 [of i "grid1 h"] mem1 [of "i - grid_num1 h" "grid2 h"]
      by (auto simp: getActiveGrids_def coarse_of_def isFineGrid_def grid_cell_def grid_num1_def)
    show ?thesis using coarse [OF ij(1)] coarse [OF ij(2)] ij(3,4) mixed by metis
  qed
  show ?thesis using 1 2 3 by blast
qed

lemma active_cells_partition_witness:
  "box_ok small_partition \<and> distinct (getActiveGrids (make_hgrid 1 small_partition))"
  using active_cells_partition [OF small_box grid_reach.start] small_box by blast

section \<open>The cells of a drone\<close>

text \<open>An id of either level that stands for an active cell, or for a cell that is relevant now.\<close>

definition active_cell :: "HGrid \<Rightarrow> int \<Rightarrow> bool" where
  "active_cell h i \<longleftrightarrow> grid_id h i \<and> active (getGrid h i)"

definition relevant_cell :: "HGrid \<Rightarrow> int \<Rightarrow> bool" where
  "relevant_cell h i \<longleftrightarrow> grid_id h i \<and> isRelevant (if isFineGrid h i then grid2 h else grid1 h) (getGrid h i)"

lemma cell_of_id:
  "active_cell h i \<longleftrightarrow> (if isFineGrid h i then grid_cell (grid2 h) (i - grid_num1 h) \<and> act (grid2 h) (i - grid_num1 h)
     else grid_cell (grid1 h) i \<and> act (grid1 h) i)"
  "relevant_cell h i \<longleftrightarrow> (if isFineGrid h i then rel (grid2 h) (i - grid_num1 h) else rel (grid1 h) i)"
  by (auto simp: active_cell_def relevant_cell_def isFineGrid_def grid_id_def grid_cell_def act_def rel_def getGrid_def grid_num1_def)

text \<open>C28: When both levels are initialised and a drone owns distinct active cells, an update leaves it
  exactly the relevant ones of its active cells and, for each of its relevant coarse cells that is divided
  now, its relevant fine cells; these are again distinct and active.\<close>

theorem own_ids_follow_division:
  assumes "box_ok c" "grid_reach res c h" "grid_initialized (grid1 h)" "grid_initialized (grid2 h)"
    and "distinct ids" "\<forall>i \<in> set ids. active_cell h i"
    and "hg_updateGridData p drone_id ids last_ids consistent (h, d, mm) = ((h', d', mm'), ids', consistent')"
  shows "distinct ids' \<and> (\<forall>i \<in> set ids'. active_cell h' i) \<and>
    (\<forall>i. i \<in> set ids' \<longleftrightarrow> active_cell h' i \<and> relevant_cell h' i \<and>
       (i \<in> set ids \<or> isFineGrid h i \<and> coarse_of h i \<in> set ids \<and> relevant_cell h' (coarse_of h i)))"
proof -
  have part: "partition_ok h" by (rule grid_reach_partition [OF assms(2,1)])
  note e = hg_update_effect [OF part assms(7)]
  have h: "hgrid_ok h" using part by (simp add: partition_ok_def)
  let ?n = "grid_num1 h"
  let ?old = "own_fine h ids"
  let ?div = "filter (\<lambda>i. rel (grid1 h') i \<and> \<not> act (grid1 h') i) (own_coarse h ids)"
  let ?new = "concat (map (coarseToFineId h) ?div)"
  note ids' = e(12) [OF assms(3,4)]
  have coarse: "grid_cell (grid1 h) i \<and> act (grid1 h) i" if "i \<in> set (own_coarse h ids)" for i
    using that assms(6) by (auto simp: own_coarse_def cell_of_id isFineGrid_def)
  have fine: "grid_cell (grid2 h) f \<and> act (grid2 h) f" if "f \<in> set ?old" for f
    using that assms(6) by (auto simp: own_fine_def cell_of_id isFineGrid_def)
  have div: "\<forall>i \<in> set ?div. grid_cell (grid1 h) i" using coarse by simp
  note new = activated_fine [OF h div]
  have link: "act (grid2 k) f = (\<not> act (grid1 k) (fineToCoarseId h f))" if "grid_cell (grid2 h) f" "k \<in> {h, h'}" for k f
  proof -
    have "partition_ok k" "fineToCoarseId k f = fineToCoarseId h f" "grid_cell (grid2 k) f" "grid_cell (grid1 k) (fineToCoarseId h f)"
      "hgrid_ok k"
      using that e(1,5) part e(3,4) fine_range [OF h that(1)] by (auto simp: partition_ok_def)
    then show ?thesis using fine_cells(1) [of k "fineToCoarseId h f" f] by (simp add: partition_ok_def)
  qed
  have disj: "f \<notin> set ?new" if "f \<in> set ?old" for f
    using fine [OF that] new(2) [of f] coarse link [of f h] by auto
  have dist: "distinct (own_coarse h ids)" "distinct ?old"
    using assms(5) by (auto simp: own_coarse_def own_fine_def distinct_map inj_on_def)
  have d2: "distinct (filter (rel (grid2 h')) (?old @ ?new))"
    using dist disj new(3) by (auto intro!: distinct_filter)
  have in_old: "f \<in> set ?old \<longleftrightarrow> f + ?n \<in> set ids \<and> 0 \<le> f" for f
    by (auto simp: own_fine_def image_iff intro!: bexI [of _ "f + ?n"])
  have old_act: "act (grid2 h') f" if "f \<in> set ?old" for f using fine [OF that] e(9) by blast
  have coarse_in: "i \<in> set ids' \<longleftrightarrow> i \<in> set ids \<and> rel (grid1 h') i \<and> act (grid1 h') i" if "i < ?n" for i
    using that fine new(1) unfolding ids' by (force simp: own_coarse_def grid_cell_def)
  have fine_in: "f + ?n \<in> set ids' \<longleftrightarrow> rel (grid2 h') f \<and> (f \<in> set ?old \<or> f \<in> set ?new)" if "0 \<le> f" for f
    using that unfolding ids' by (auto simp: own_coarse_def)
  have fine_new: "f \<in> set ?new \<longleftrightarrow> fineToCoarseId h f \<in> set ids \<and> rel (grid1 h') (fineToCoarseId h f) \<and> act (grid2 h') f"
    if "grid_cell (grid2 h) f" for f
    using new(2) [OF that] link [OF that, of h'] fine_range [OF h that] by (auto simp: own_coarse_def grid_cell_def grid_num1_def)
  have rel_id: "grid_cell (grid2 h) f" if "rel (grid2 h') f" for f using that e(4) by (simp add: rel_def)
  have char: "i \<in> set ids' \<longleftrightarrow> active_cell h' i \<and> relevant_cell h' i \<and>
       (i \<in> set ids \<or> isFineGrid h i \<and> coarse_of h i \<in> set ids \<and> relevant_cell h' (coarse_of h i))" for i
  proof (cases "i < ?n")
    case True
    then show ?thesis using coarse_in [OF True] by (auto simp: cell_of_id isFineGrid_def e(2) rel_def)
  next
    case False
    define f where "f = i - ?n"
    then have f: "0 \<le> f" "i = f + ?n" using False by simp_all
    have c: "coarse_of h i = fineToCoarseId h f" using False by (simp add: coarse_of_def f_def)
    have "relevant_cell h' (fineToCoarseId h f) \<longleftrightarrow> rel (grid1 h') (fineToCoarseId h f)" if "grid_cell (grid2 h) f"
      using fine_range [OF h that] by (simp add: cell_of_id isFineGrid_def e(2)) (simp add: grid_cell_def grid_num1_def)
    moreover have "active_cell h' i \<longleftrightarrow> grid_cell (grid2 h) f \<and> act (grid2 h') f" "relevant_cell h' i \<longleftrightarrow> rel (grid2 h') f"
      using False f by (simp_all add: cell_of_id isFineGrid_def e(2,4))
    moreover have "isFineGrid h i" using False by (simp add: isFineGrid_def)
    moreover have "i \<in> set ids' \<longleftrightarrow> rel (grid2 h') f \<and> (f \<in> set ?old \<or> f \<in> set ?new)" "f \<in> set ?old \<longleftrightarrow> i \<in> set ids"
      using fine_in [OF f(1)] in_old [of f] f by simp_all
    moreover have "f \<in> set ?old \<longrightarrow> act (grid2 h') f" "rel (grid2 h') f \<longrightarrow> grid_cell (grid2 h) f"
      "grid_cell (grid2 h) f \<longrightarrow> (f \<in> set ?new \<longleftrightarrow>
         fineToCoarseId h f \<in> set ids \<and> rel (grid1 h') (fineToCoarseId h f) \<and> act (grid2 h') f)"
      using old_act [of f] rel_id [of f] fine_new [of f] by simp_all
    ultimately show ?thesis unfolding c by argo
  qed
  have "distinct ids'"
  proof -
    have "inj_on (\<lambda>i. i + ?n) A" for A by (simp add: inj_on_def)
    moreover have "0 \<le> f" if "rel (grid2 h') f" for f using that by (simp add: rel_def grid_cell_def)
    then have "set (own_coarse h ids) \<inter> (\<lambda>i. i + ?n) ` {f. rel (grid2 h') f} = {}" by (fastforce simp: own_coarse_def)
    ultimately show ?thesis
      unfolding ids' distinct_append distinct_map set_filter set_map by (intro conjI distinct_filter dist(1) d2) auto
  qed
  then show ?thesis using char by blast
qed

lemma first_update_owns_cell:
  fixes mm0 :: MultiMapManager
  assumes "box_ok c" "0 < grid_num1 (make_hgrid res c)"
  shows "\<exists>h i. grid_reach res c h \<and> grid_initialized (grid1 h) \<and> grid_initialized (grid2 h) \<and> active_cell h i"
proof -
  obtain h d mm ids cons where upd: "hg_updateGridData small_param 1 [] [] ([], []) (make_hgrid res c, small_data, mm0) =
      ((h, d, mm), ids, cons)" by (metis prod.collapse)
  have reach: "grid_reach res c h" by (rule grid_reach.update [OF grid_reach.start upd])
  note part = make_hgrid_partition [OF assms(1), of res] and e = hg_update_effect [OF make_hgrid_partition [OF assms(1)] upd]
  have h: "hgrid_ok h" using e(1) by (simp add: partition_ok_def)
  have c0: "grid_cell (grid1 h) 0" using assms(2) e(2) by (simp add: grid_cell_def grid_num1_def)
  have "\<exists>i. active_cell h i"
  proof (cases "act (grid1 h) 0")
    case True
    then have "active_cell h 0" using c0 by (simp add: cell_of_id isFineGrid_def) (simp add: grid_cell_def grid_num1_def)
    then show ?thesis ..
  next
    case False
    have "coarseToFineId h 0 \<noteq> []" by (simp add: coarseToFineId_def split: prod.splits)
    then obtain f where f: "f \<in> set (coarseToFineId h 0)" using hd_in_set by blast
    then have "act (grid2 h) f" "grid_cell (grid2 h) f"
      using e(1) c0 False fine_cells(1) [OF h c0] by (auto simp: partition_ok_def)
    then have "active_cell h (f + grid_num1 h)" by (simp add: cell_of_id isFineGrid_def grid_cell_def)
    then show ?thesis ..
  qed
  then show ?thesis using reach e(7,8) by blast
qed

lemma small_coarse: "0 < grid_num1 (make_hgrid 1 small_partition)"
  by (simp add: grid_num1_def make_hgrid_def hg_updateBaseCoor_def updateBaseCoor_simps initGridData_simps make_grid_def
      axis_resolution_def small_partition_def num_cells_def)

lemma own_ids_follow_division_witness:
  "\<exists>h i. grid_reach 1 small_partition h \<and> active_cell h i \<and>
    (\<forall>mm. distinct (fst (snd (hg_updateGridData small_param 1 [i] [] ([], []) (h, small_data, mm)))))"
proof -
  obtain h i where h: "grid_reach 1 small_partition h" "grid_initialized (grid1 h)" "grid_initialized (grid2 h)" "active_cell h i"
    using first_update_owns_cell [OF small_box small_coarse] by blast
  have "distinct (fst (snd (hg_updateGridData small_param 1 [i] [] ([], []) (h, small_data, mm))))" for mm
  proof -
    obtain h' d' mm' ids' cons' where upd:
      "hg_updateGridData small_param 1 [i] [] ([], []) (h, small_data, mm) = ((h', d', mm'), ids', cons')" by (metis prod.collapse)
    show ?thesis using own_ids_follow_division [OF small_box h(1,2,3) _ _ upd] h(4) upd by simp
  qed
  then show ?thesis using h by blast
qed

section \<open>Counting\<close>

definition unknown_sample :: "MapParam \<Rightarrow> MapData \<Rightarrow> GridInfo \<Rightarrow> vec3 \<Rightarrow> bool" where
  "unknown_sample p d c pos \<longleftrightarrow> inside_box pos c \<and> getOccupancy p d (posToIndex p pos) = Some UNKNOWN"

definition free_sample :: "MapParam \<Rightarrow> MapData \<Rightarrow> GridInfo \<Rightarrow> vec3 \<Rightarrow> bool" where
  "free_sample p d c pos \<longleftrightarrow> inside_box pos c \<and> getOccupancy p d (posToIndex p pos) = Some FREE"

definition vec_sum :: "vec3 list \<Rightarrow> vec3" where
  "vec_sum vs = foldr (zip3 (+)) vs (0, 0, 0)"

lemma count_voxels:
  assumes "fold (count_voxel p d c) ps (ctr, u, f) = (ctr', u', f')" "0 \<le> u"
  shows "u' = u + int (length (filter (unknown_sample p d c) ps)) \<and> f' = f + int (length (filter (free_sample p d c) ps)) \<and>
    map3 (\<lambda>m. m * real_of_int u') ctr' = zip3 (+) (map3 (\<lambda>m. m * real_of_int u) ctr) (vec_sum (filter (unknown_sample p d c) ps))"
  using assms
proof (induction ps arbitrary: ctr u f)
  case Nil
  obtain x y z where "ctr = (x, y, z)" by (metis prod.collapse)
  then show ?case using Nil by (auto simp: vec_sum_def)
next
  case (Cons pos ps)
  obtain x y z where ctr: "ctr = (x, y, z)" by (metis prod.collapse)
  obtain a b e where pos: "pos = (a, b, e)" by (metis prod.collapse)
  obtain sx sy sz where sum: "vec_sum (filter (unknown_sample p d c) ps) = (sx, sy, sz)" by (metis prod.collapse)
  consider "unknown_sample p d c pos" "\<not> free_sample p d c pos"
    | "\<not> unknown_sample p d c pos" "free_sample p d c pos"
    | "\<not> unknown_sample p d c pos" "\<not> free_sample p d c pos"
    by (auto simp: unknown_sample_def free_sample_def)
  then show ?case
  proof cases
    case 1
    let ?m = "\<lambda>m x. (m * real_of_int u + x) / real_of_int (u + 1)"
    have "count_voxel p d c pos (ctr, u, f) = ((?m x a, ?m y b, ?m z e), u + 1, f)"
      using 1 by (auto simp: count_voxel_def unknown_sample_def ctr pos)
    moreover have m: "?m m x * real_of_int (u + 1) = m * real_of_int u + x" for m x using Cons.prems(2) by simp
    moreover have f1: "fold (count_voxel p d c) ps ((?m x a, ?m y b, ?m z e), u + 1, f) = (ctr', u', f')"
      using Cons.prems(1) calculation(1) by simp
    moreover have "0 \<le> u + 1" using Cons.prems(2) by simp
    note counted = Cons.IH [OF f1 this]
    note IH = counted [THEN conjunct1] counted [THEN conjunct2, THEN conjunct1] counted [THEN conjunct2, THEN conjunct2]
    moreover have "vec_sum (filter (unknown_sample p d c) (pos # ps)) = (a + sx, b + sy, e + sz)"
      using 1(1) sum by (simp add: vec_sum_def pos)
    moreover have "map3 (\<lambda>m. m * real_of_int u') ctr' = (x * real_of_int u + (a + sx), y * real_of_int u + (b + sy), z * real_of_int u + (e + sz))"
      unfolding IH(3) map3_simp zip3_simp sum m by simp
    ultimately show ?thesis using 1 IH(1,2) by (intro conjI) (simp_all only: ctr map3_simp zip3_simp filter.simps if_True if_False, simp_all)
  next
    case 2
    then have "count_voxel p d c pos (ctr, u, f) = (ctr, u, f + 1)"
      by (auto simp: count_voxel_def free_sample_def)
    then have "fold (count_voxel p d c) ps (ctr, u, f + 1) = (ctr', u', f')" using Cons.prems(1) by simp
    note IH = Cons.IH [OF this Cons.prems(2)]
    have "filter (unknown_sample p d c) (pos # ps) = filter (unknown_sample p d c) ps" using 2 by simp
    moreover have "f' = f + int (length (filter (free_sample p d c) (pos # ps)))" using IH 2 by simp
    ultimately show ?thesis using IH by metis
  next
    case 3
    then have "count_voxel p d c pos (ctr, u, f) = (ctr, u, f)"
      by (auto simp: count_voxel_def free_sample_def unknown_sample_def split: option.splits OCCUPANCY.splits)
    then have "fold (count_voxel p d c) ps (ctr, u, f) = (ctr', u', f')" using Cons.prems(1) by simp
    note IH = Cons.IH [OF this Cons.prems(2)]
    have "filter (unknown_sample p d c) (pos # ps) = filter (unknown_sample p d c) ps"
      "filter (free_sample p d c) (pos # ps) = filter (free_sample p d c) ps" using 3 by simp_all
    then show ?thesis using IH by metis
  qed
qed

text \<open>C36: An update counts a cell exactly: of the samples inside its sides, the unknown ones are counted and
  their sum is the count times the centre; the cell is relevant exactly when this count or its frontiers
  make it so, and an active coarse cell is marked for division exactly when it has more free samples than
  the bound; no other cell changes.\<close>

theorem cell_count_exact:
  assumes "ug_ok g" "grid_cell g i" "\<not> is_updated (grid_data g ! nat i)"
  shows "let c = grid_data g ! nat i; g' = updateGridInfo p d (ug_adrToIndex g i) g; c' = grid_data g' ! nat i;
      ps = cell_samples (resolution p) c (snd (snd (ug_indexToPos g (ug_adrToIndex g i) 1)))
    in unknown_num c' = int (length (filter (unknown_sample p d c) ps)) \<and>
      map3 (\<lambda>m. m * real_of_int (unknown_num c')) (center c') = vec_sum (filter (unknown_sample p d c) ps) \<and>
      is_cur_relevant c' = isRelevant g c' \<and> is_prev_relevant c' = is_cur_relevant c \<and>
      (need_divide c' \<longleftrightarrow> need_divide c \<or>
         level g = 1 \<and> active c \<and> int (length (filter (free_sample p d c) ps)) > min_free g) \<and>
      (\<forall>j. grid_cell g j \<and> j \<noteq> i \<longrightarrow> grid_data g' ! nat j = grid_data g ! nat j)"
proof -
  let ?c = "grid_data g ! nat i" and ?ix = "ug_adrToIndex g i"
  let ?c1 = "?c\<lparr>is_updated := True, is_prev_relevant := is_cur_relevant ?c\<rparr>"
  obtain zx zy ztop where top: "ug_indexToPos g ?ix 1 = (zx, zy, ztop)" by (metis prod.collapse)
  let ?ps = "cell_samples (resolution p) ?c ztop"
  have a: "nat (ug_toAddress g ?ix) = nat i" using cell_address [OF assms(1,2)] by simp
  have ps: "cell_samples (resolution p) ?c1 ztop = ?ps" by (simp add: cell_samples_def)
  have samples: "unknown_sample p d ?c1 = unknown_sample p d ?c" "free_sample p d ?c1 = free_sample p d ?c"
    by (simp_all add: fun_eq_iff unknown_sample_def free_sample_def inside_box_def)
  obtain ctr u f where r: "fold (count_voxel p d ?c1) ?ps ((0, 0, 0), 0, 0) = (ctr, u, f)" by (metis prod.collapse)
  obtain sx sy sz where sum: "vec_sum (filter (unknown_sample p d ?c) ?ps) = (sx, sy, sz)" by (metis prod.collapse)
  note counted = count_voxels [OF r, simplified samples, OF order_refl]
  have n: "u = int (length (filter (unknown_sample p d ?c) ?ps))" "f = int (length (filter (free_sample p d ?c) ?ps))"
    "map3 (\<lambda>m. m * real_of_int u) ctr = vec_sum (filter (unknown_sample p d ?c) ?ps)"
    using counted [THEN conjunct1] counted [THEN conjunct2, THEN conjunct1] counted [THEN conjunct2, THEN conjunct2] sum
    by simp_all
  let ?c3 = "?c1\<lparr>center := ctr, unknown_num := u, is_cur_relevant := isRelevant g (?c1\<lparr>center := ctr, unknown_num := u\<rparr>)\<rparr>"
  let ?c4 = "if level g = 1 \<and> active ?c3 \<and> f > min_free g then ?c3\<lparr>need_divide := True\<rparr> else ?c3"
  have g': "updateGridInfo p d ?ix g = g\<lparr>grid_data := (grid_data g)[nat i := ?c4]\<rparr>"
    using assms(3) unfolding updateGridInfo_def Let_def a top prod.case ps r by (simp only: if_False)
  have len: "nat i < length (grid_data g)" using assms(2) by (auto simp: grid_cell_def)
  have c': "grid_data (updateGridInfo p d ?ix g) ! nat i = ?c4" unfolding g' using len by simp
  have rest: "\<forall>j. grid_cell g j \<and> j \<noteq> i \<longrightarrow> grid_data (updateGridInfo p d ?ix g) ! nat j = grid_data g ! nat j"
    unfolding g' using nth_update_id [OF assms(2)] by simp
  have vals: "unknown_num ?c4 = u" "center ?c4 = ctr" "is_cur_relevant ?c4 = isRelevant g ?c4" "is_prev_relevant ?c4 = is_cur_relevant ?c"
      "need_divide ?c4 \<longleftrightarrow> need_divide ?c \<or> level g = 1 \<and> active ?c \<and> f > min_free g"
    by (simp_all add: isRelevant_def frontier_cells_def) blast
  show ?thesis unfolding Let_def c' top vals snd_conv using rest n by blast
qed

lemma cell_count_exact_witness:
  "is_cur_relevant (grid_data (updateGridInfo small_param small_data (0, 0, 0) (grid1 (make_hgrid 1 small_partition))) ! 0) =
    isRelevant (grid1 (make_hgrid 1 small_partition))
      (grid_data (updateGridInfo small_param small_data (0, 0, 0) (grid1 (make_hgrid 1 small_partition))) ! 0)"
proof -
  let ?g = "grid1 (make_hgrid 1 small_partition)"
  have ok: "ug_ok ?g" using make_hgrid_ok [OF small_box] by (simp add: hgrid_ok_def)
  have id0: "grid_cell ?g 0" using small_coarse by (simp add: grid_cell_def grid_num1_def)
  have ix: "ug_adrToIndex ?g 0 = (0, 0, 0)" by (simp add: ug_adrToIndex_def split: prod.splits)
  let ?raw = "set_base identity3 (0, 0, 0) (initGridData 1 (make_grid small_partition 1))"
  have g: "?g = ug_updateBaseCoor ?raw" by (simp add: make_hgrid_def hg_updateBaseCoor_def)
  have "ug_ok (initGridData 1 (make_grid small_partition 1))" "grid_cell (initGridData 1 (make_grid small_partition 1)) 0"
    using ok id0 unfolding g by (simp_all add: ug_ok_def grid_cell_def updateBaseCoor_simps)
  note start = initGridData_cell(3) [OF this] and len = this(2)
  have "is_updated (base_cell g' i c) = is_updated c" for g' i c by (simp add: base_cell_def Let_def split: prod.splits)
  then have "\<not> is_updated (grid_data ?g ! 0)"
    using start len unfolding g by (simp add: ug_updateBaseCoor_def updateBaseCoor_simps grid_cell_def)
  then show ?thesis using cell_count_exact [OF ok id0, of small_param small_data] by (simp add: ix Let_def)
qed

end
