(* ===== verification/Tour_Files.thy ===== *)
theory Tour_Files imports Grid_Hierarchy Expl_Grids
begin

text \<open>
  The exchange with the tour solver in \<open>exploration_manager/src/fast_exploration_manager.cpp\<close>: the choice
  of the solver, the demands of the cells, the problem and parameter files, and the reading of the tour
  file. A file is the list of its lines. The solver (vendored, behind a ROS service) is a parameter: from
  the request, the problem file and the parameter file to the tour file it leaves, \<open>None\<close> if the call
  fails. \<open>None\<close> as the result of reading is an exception of \<open>std::stoi\<close>.
\<close>

section \<open>Numbers in text\<close>

text \<open>\<open>std::stoi\<close> skips white space, reads a sign and at least one digit, and stops at the first other
  character; a value that is no \<open>int\<close> is an exception as well.\<close>

definition is_digit :: "char \<Rightarrow> bool" where
  "is_digit c \<longleftrightarrow> c \<in> set ''0123456789''"

definition digits_value :: "string \<Rightarrow> int" where
  "digits_value ds = foldl (\<lambda>v c. 10 * v + (of_char c - 48)) 0 ds"

definition split_sign :: "string \<Rightarrow> bool \<times> string" where
  "split_sign s =
     (case s of
        [] \<Rightarrow> (False, [])
      | c # cs \<Rightarrow> if c = CHR ''-'' then (True, cs) else if c = CHR ''+'' then (False, cs) else (False, s))"

definition stoi :: "string \<Rightarrow> int option" where
  "stoi s =
     (let (neg, s1) = split_sign (dropWhile isspace s); ds = takeWhile is_digit s1;
          v = (if neg then - digits_value ds else digits_value ds)
      in if ds = [] \<or> v < - (2 ^ 31) \<or> v \<ge> 2 ^ 31 then None else Some v)"

text \<open>The conversion of a real to \<open>int\<close>, which cuts off the fraction, is \<open>to_int_trunc\<close>.\<close>

definition lround :: "real \<Rightarrow> int" where
  "lround x = (if x \<ge> 0 then \<lfloor>x + 1 / 2\<rfloor> else - \<lfloor>- x + 1 / 2\<rfloor>)"

section \<open>The choice of the solver\<close>

record AllocationSolverDispatch =
  prob_type :: int
  request_prob :: int
  type_name :: string
  file_stem :: string
  use_acvrp_client :: bool

definition selectAllocationSolverDispatch :: "int \<Rightarrow> AllocationSolverDispatch" where
  "selectAllocationSolverDispatch drone_num =
     (if drone_num > 1
      then \<lparr>prob_type = 2, request_prob = 3, type_name = ''ACVRP'', file_stem = ''amtsp3'', use_acvrp_client = True\<rparr>
      else \<lparr>prob_type = 1, request_prob = 1, type_name = ''ATSP'', file_stem = ''amtsp'', use_acvrp_client = False\<rparr>)"

section \<open>Demands\<close>

record AllocationDemandModel =
  dm_demands :: "int list"
  dm_total_unknown :: int
  dm_positive_grid_num :: int
  dm_zero_grid_num :: int
  dm_target_total_demand :: int
  dm_total_demand :: int
  dm_max_demand :: int
  dm_min_nonzero_demand :: int
  dm_scaled :: bool
  dm_scale_ratio :: real

text \<open>An entry of the list of remainders: the fraction, the index and the count.\<close>

type_synonym remainder = "real \<times> nat \<times> int"

definition remainder_less :: "remainder \<Rightarrow> remainder \<Rightarrow> bool" where
  "remainder_less lhs rhs =
     (case lhs of (f, i, u) \<Rightarrow> case rhs of (f', i', u') \<Rightarrow>
        if \<bar>f - f'\<bar> > 1 / 10 ^ 12 then f > f'
        else if u \<noteq> u' then u > u'
        else i < i')"

definition exact_extra :: "int \<Rightarrow> int \<Rightarrow> int list \<Rightarrow> nat \<Rightarrow> real" where
  "exact_extra budget scalable us i = real_of_int budget * real_of_int (us ! i - 1) / real_of_int scalable"

text \<open>The scaled demands: one for each non-empty cell, the rest of the budget in proportion, rounded
  down, and what is left to the largest remainders.\<close>

definition scaled_demands :: "int list \<Rightarrow> nat list \<Rightarrow> int \<Rightarrow> int \<Rightarrow> int list" where
  "scaled_demands us nonempty target tot =
     (let ones = fold (\<lambda>i d. d[i := 1]) nonempty (replicate (length us) 0);
          budget = target - int (length nonempty); scalable = tot - int (length nonempty)
      in if budget > 0 \<and> scalable > 0 then
           let extra = exact_extra budget scalable us;
               d1 = fold (\<lambda>i d. d[i := d ! i + \<lfloor>extra i\<rfloor>]) nonempty ones;
               extras_left = budget - sum_list (map (\<lambda>i. \<lfloor>extra i\<rfloor>) nonempty);
               remainders = sort_by remainder_less (map (\<lambda>i. (extra i - real_of_int \<lfloor>extra i\<rfloor>, i, us ! i)) nonempty)
           in fold (\<lambda>(_, i, _) d. d[i := d ! i + 1]) (take (nat extras_left) remainders) d1
         else ones)"

definition buildAllocationDemandModel :: "int list \<Rightarrow> AllocationDemandModel" where
  "buildAllocationDemandModel us =
     (let tot = sum_list (map (max 0) us);
          nonempty = filter (\<lambda>i. us ! i > 0) [0..<length us];
          model = \<lparr>dm_demands = replicate (length us) 0, dm_total_unknown = tot,
            dm_positive_grid_num = int (length nonempty), dm_zero_grid_num = int (length us) - int (length nonempty),
            dm_target_total_demand = 0, dm_total_demand = 0, dm_max_demand = 0, dm_min_nonzero_demand = 0,
            dm_scaled = False, dm_scale_ratio = 1\<rparr>
      in if tot \<le> 0 \<or> nonempty = [] then model
         else
           let target = min tot (max 256 (int (length nonempty) * 8));
               demands = (if target < tot then scaled_demands us nonempty target tot else us);
               positive = filter (\<lambda>d. d > 0) demands
           in model\<lparr>dm_target_total_demand := target, dm_scaled := (target < tot),
                dm_scale_ratio := real_of_int target / real_of_int tot, dm_demands := demands,
                dm_total_demand := sum_list demands, dm_max_demand := foldl max 0 demands,
                dm_min_nonzero_demand := (case positive of [] \<Rightarrow> 0 | d # ds \<Rightarrow> foldl min d ds)\<rparr>)"

definition route_capacity :: "AllocationDemandModel \<Rightarrow> int \<Rightarrow> int" where
  "route_capacity m drone_num =
     max 1 (max (dm_max_demand m) \<lceil>real_of_int (dm_total_demand m) / real_of_int (max 1 drone_num)\<rceil>)"

section \<open>Problem and parameter files\<close>

definition weight_row :: "(real \<Rightarrow> int) \<Rightarrow> real list \<Rightarrow> string" where
  "weight_row to_cost row = concat (map (\<lambda>x. to_string_int (to_cost x) @ '' '') row)"

definition atsp_file :: "string \<Rightarrow> string \<Rightarrow> nat \<Rightarrow> string list \<Rightarrow> (real \<Rightarrow> int) \<Rightarrow> real list list \<Rightarrow> string list" where
  "atsp_file name type dimension sizes to_cost mat =
     [''NAME : '' @ name, ''TYPE : '' @ type, ''DIMENSION : '' @ to_dec dimension,
      ''EDGE_WEIGHT_TYPE : EXPLICIT'', ''EDGE_WEIGHT_FORMAT : FULL_MATRIX''] @ sizes @
     [''EDGE_WEIGHT_SECTION''] @ map (weight_row to_cost) mat"

definition allocation_problem ::
  "AllocationSolverDispatch \<Rightarrow> nat \<Rightarrow> int \<Rightarrow> nat \<Rightarrow> int list \<Rightarrow> real list list \<Rightarrow> string list" where
  "allocation_problem disp dimension capacity drone_num demands mat =
     (let acvrp = (prob_type disp = 2) in
      atsp_file ''pairopt'' (type_name disp) dimension
        (if acvrp then [''CAPACITY : '' @ to_string_int capacity, ''VEHICLES : '' @ to_dec drone_num] else [])
        (\<lambda>x. lround (100 * x)) mat @
      (if acvrp then
         [''DEMAND_SECTION'', ''1 0''] @ map (\<lambda>i. to_dec (i + 2) @ '' 0'') [0..<drone_num] @
         map (\<lambda>i. to_dec (i + 2 + drone_num) @ '' '' @ to_string_int (demands ! i)) [0..<length demands] @
         [''DEPOT_SECTION'', ''1'', ''EOF'']
       else []))"

definition allocation_par :: "AllocationSolverDispatch \<Rightarrow> string \<Rightarrow> nat \<Rightarrow> string list" where
  "allocation_par disp prefix drone_num =
     [''SPECIAL'', ''PROBLEM_FILE = '' @ prefix @ ''.atsp''] @
     (if prob_type disp = 1 then [''SALESMEN = '' @ to_dec drone_num, ''MTSP_OBJECTIVE = MINSUM'', ''TRACE_LEVEL = 0'']
      else if prob_type disp = 2 then [''TRACE_LEVEL = 1'', ''SEED = 0''] else []) @
     [''RUNS = 1'', ''TOUR_FILE = '' @ prefix @ ''.tour'']"

definition tour_prefix :: "string \<Rightarrow> string \<Rightarrow> int \<Rightarrow> string" where
  "tour_prefix dir stem drone_id = dir @ ''/'' @ stem @ ''_'' @ to_string_int drone_id"

section \<open>Reading tours\<close>

text \<open>The numbers after \<open>TOUR_SECTION\<close> up to and including \<open>-1\<close>, each less one.\<close>

fun read_nodes :: "string list \<Rightarrow> int list option" where
  "read_nodes [] = Some []"
| "read_nodes (l # ls) =
     (case stoi l of
        None \<Rightarrow> None
      | Some n \<Rightarrow> if n = -1 then Some [n - 1] else map_option ((#) (n - 1)) (read_nodes ls))"

definition read_tour :: "string list \<Rightarrow> int list option" where
  "read_tour ls = read_nodes (tl (dropWhile (\<lambda>l. l \<noteq> ''TOUR_SECTION'') ls))"

text \<open>The parser of \<open>allocateGrids\<close>: a route starts at the node of a drone and ends at the next drone or
  at a node that is a copy of the depot; nodes before a drone are dropped.\<close>

definition route_step :: "int \<Rightarrow> int \<Rightarrow> int list list \<times> int list \<Rightarrow> int \<Rightarrow> int list list \<times> int list" where
  "route_step drone_num dimension acc i =
     (case acc of (tours, tour) \<Rightarrow>
        let closed = (if tour \<noteq> [] then tours @ [tour] else tours) in
        if i > 0 \<and> i \<le> drone_num then (closed, [i])
        else if i \<ge> dimension \<or> i \<le> 0 then (closed, [])
        else if tour \<noteq> [] then (tours, tour @ [i]) else (tours, tour))"

definition parse_routes :: "int \<Rightarrow> int \<Rightarrow> int list \<Rightarrow> int list list" where
  "parse_routes drone_num dimension ids =
     (let (tours, tour) = foldl (route_step drone_num dimension) ([], []) ids
      in if tour \<noteq> [] then tours @ [tour] else tours)"

text \<open>The parser of the other two callers: a route ends only at a copy of the depot, and is not cleared
  there.\<close>

definition tour_step :: "int \<Rightarrow> int \<Rightarrow> int list list \<times> int list \<Rightarrow> int \<Rightarrow> int list list \<times> int list" where
  "tour_step drone_num dimension acc i =
     (case acc of (tours, tour) \<Rightarrow>
        if i > 0 \<and> i \<le> drone_num then (tours, [i])
        else if i \<ge> dimension \<or> i \<le> 0 then (tours @ [tour], tour)
        else (tours, tour @ [i]))"

definition parse_tours :: "int \<Rightarrow> int \<Rightarrow> int list \<Rightarrow> int list list" where
  "parse_tours drone_num dimension ids = fst (foldl (tour_step drone_num dimension) ([], []) ids)"

end
