(* ===== verification/Tour_Allocation.thy ===== *)
theory Tour_Allocation imports Tour_Files
begin

text \<open>
  The allocation of grid cells to drones in \<open>exploration_manager/src/fast_exploration_manager.cpp\<close>: the
  direct assignment of few cells, the assignment by the tour solver, and the global tour that a drone
  plans from its view of the swarm. The path search (\<open>path_len\<close>, \<open>path\<close>), the value of the flags that
  \<open>getCostGridToGrid\<close> leaves open without drones (\<open>uninit\<close>) and the solver are parameters. Logging is left
  out. \<open>None\<close> is an exception.
\<close>

type_synonym solver = "bool \<Rightarrow> int \<Rightarrow> string list \<Rightarrow> string list \<Rightarrow> string list option"

record plan_params =
  pp_drone_id :: int
  pp_mtsp_dir :: string

section \<open>Assigning the cells of one request\<close>

text \<open>The drone of the least cost, among nearly equal costs the one of the least id; \<open>None\<close> stands for no
  drone and an infinite cost.\<close>

definition best_cost_step :: "(nat \<Rightarrow> real) \<Rightarrow> int list \<Rightarrow> (nat \<times> real) option \<Rightarrow> nat \<Rightarrow> (nat \<times> real) option" where
  "best_cost_step cost drone_ids best i =
     (case best of
        None \<Rightarrow> Some (i, cost i)
      | Some (b, c) \<Rightarrow>
          if cost i + 1 / 1000000 < c \<or> \<bar>cost i - c\<bar> \<le> 1 / 1000000 \<and> drone_ids ! i < drone_ids ! b
          then Some (i, cost i) else best)"

definition assignGridByBestCost :: "(int \<Rightarrow> nat \<Rightarrow> real) \<Rightarrow> int list \<Rightarrow> int list list \<Rightarrow> int \<Rightarrow> int list list" where
  "assignGridByBestCost cost drone_ids assigned grid_id =
     (case foldl (best_cost_step (cost grid_id) drone_ids) None [0..<length assigned] of
        None \<Rightarrow> assigned
      | Some (b, _) \<Rightarrow> assigned[b := assigned ! b @ [grid_id]])"

text \<open>One parsed route; slots that are not among the cells are skipped.\<close>

definition assign_route :: "int list \<Rightarrow> int list list \<Rightarrow> int list \<Rightarrow> int list list" where
  "assign_route grid_ids assigned tour =
     (case tour of
        [] \<Rightarrow> assigned
      | d # nodes \<Rightarrow>
          let n = int (length assigned); drone_slot = d - 1 in
          if drone_slot < 0 \<or> drone_slot \<ge> n then assigned
          else assigned[nat drone_slot := assigned ! nat drone_slot @
                 map (\<lambda>k. grid_ids ! nat k)
                   (filter (\<lambda>k. \<not> (k < 0 \<or> k \<ge> int (length grid_ids))) (map (\<lambda>i. i - 1 - n) nodes))])"

definition hints :: "int list list \<Rightarrow> nat \<Rightarrow> int list list" where
  "hints ids n = map (\<lambda>i. if i < length ids then ids ! i else []) [0..<n]"

definition allocateGrids ::
  "(vec3 \<Rightarrow> vec3 \<Rightarrow> real option) \<Rightarrow> bool \<Rightarrow> solver \<Rightarrow> plan_params \<Rightarrow> HGrid \<Rightarrow> vec3 list \<Rightarrow> vec3 list \<Rightarrow>
     int list \<Rightarrow> int list list \<Rightarrow> int list list \<Rightarrow> int list \<Rightarrow> int list list option" where
  "allocateGrids path_len uninit solve pp h positions velocities drone_ids first_ids second_ids grid_ids =
     (if positions = [] \<or> length velocities \<noteq> length positions \<or> length drone_ids \<noteq> length positions then Some []
      else
        let n = length positions; firsts = hints first_ids n; seconds = hints second_ids n;
            nothing = replicate n [];
            cost = (\<lambda>grid_id i. getCostDroneToGrid path_len h (positions ! i) (velocities ! i) grid_id (firsts ! i))
        in if grid_ids = [] then Some nothing
           else if length grid_ids = 1 then Some (assignGridByBestCost cost drone_ids nothing (hd grid_ids))
           else if n > 1 \<and> length grid_ids < 3 then Some (foldl (assignGridByBestCost cost drone_ids) nothing grid_ids)
           else
             let mat = getCostMatrix path_len uninit h positions velocities firsts seconds grid_ids;
                 dimension = length mat;
                 m = buildAllocationDemandModel (map (\<lambda>g. max 0 (getUnknownCellsNum h g)) grid_ids);
                 disp = selectAllocationSolverDispatch (int n);
                 problem = allocation_problem disp dimension (route_capacity m (int n)) n (dm_demands m) mat;
                 par = allocation_par disp (tour_prefix (pp_mtsp_dir pp) (file_stem disp) (pp_drone_id pp)) n
             in case solve (use_acvrp_client disp) (request_prob disp) problem par of
                  None \<Rightarrow> Some nothing
                | Some tour \<Rightarrow>
                    map_option (\<lambda>ids. foldl (assign_route grid_ids) nothing (parse_routes (int n) (int dimension) ids))
                      (read_tour tour))"

definition computeGridPathCost ::
  "(vec3 \<Rightarrow> vec3 \<Rightarrow> real option) \<Rightarrow> bool \<Rightarrow> HGrid \<Rightarrow> vec3 \<Rightarrow> vec3 \<Rightarrow> int list \<Rightarrow> int list \<Rightarrow> int list list \<Rightarrow>
     int list list \<Rightarrow> real" where
  "computeGridPathCost path_len uninit h pos vel grid_ids first firsts seconds =
     (if grid_ids = [] then 0
      else getCostDroneToGrid path_len h pos vel (hd grid_ids) first +
        sum_list (map (\<lambda>i. getCostGridToGrid path_len uninit h (grid_ids ! i) (grid_ids ! Suc i) firsts seconds (length firsts))
          [0..<length grid_ids - 1]))"

section \<open>The state of the planner\<close>

text \<open>The part of \<open>ExplorationData\<close> that the state machine does not use, beside the state machine's own
  part, the grid, the map and the chunk store; the last field has the published task metrics.\<close>

record planner =
  pl_fsm :: fsm_state
  pl_grid :: HGrid
  pl_map :: MapData
  pl_chunks :: MultiMapManager
  pl_frontiers :: "vec3 list list"
  pl_averages :: "vec3 list"
  pl_grid_tour :: "vec3 list"
  pl_grid_tour2 :: "vec3 list"
  pl_metrics :: "int list list"

definition vec_of_point :: "point \<Rightarrow> vec3" where
  "vec_of_point q = (px q, py q, pz q)"

definition vec_of_vector :: "vector3 \<Rightarrow> vec3" where
  "vec_of_vector q = (vx q, vy q, vz q)"

definition publishTaskMetrics :: "plan_params \<Rightarrow> planner \<Rightarrow> planner" where
  "publishTaskMetrics pp s =
     (let actives = getActiveGrids (pl_grid s); coverable = (pl_frontiers s \<noteq> []) in
      s\<lparr>pl_metrics := pl_metrics s @
          [[sum_list (map (getUnknownCellsNum (pl_grid s)) actives),
            (if coverable then int (length (pl_frontiers s)) else 0),
            sum_list (map (\<lambda>f. int (length f)) (pl_frontiers s)),
            (if coverable then int (length actives) else 0), pp_drone_id pp]]\<rparr>)"

section \<open>The global tour\<close>

text \<open>The drones to plan with: this one, and the assignable peers with a fresh state.\<close>

definition buildSwarmGlobalAllocationInputs ::
  "plan_params \<Rightarrow> real \<Rightarrow> vec3 \<Rightarrow> vec3 \<Rightarrow> planner \<Rightarrow> int list \<times> vec3 list \<times> vec3 list" where
  "buildSwarmGlobalAllocationInputs pp now self_pos self_vel s =
     (let states = ed_swarm_state (pl_fsm s);
          peers = filter (\<lambda>i. i \<noteq> nat (max 0 (pp_drone_id pp - 1)) \<and> ds_task_assignable (states ! i) \<and>
            \<not> ds_stamp (states ! i) \<le> 1 / 10000 \<and> \<not> now - ds_stamp (states ! i) > 1 / 2) [0..<length states]
      in (pp_drone_id pp # map (\<lambda>i. int i + 1) peers,
          self_pos # map (\<lambda>i. vec_of_point (ds_pos (states ! i))) peers,
          self_vel # map (\<lambda>i. vec_of_vector (ds_vel (states ! i))) peers))"

text \<open>The cells a peer is thought to have: those it broadcast last, or those of its state.\<close>

definition peer_grid_ids :: "fsm_state \<Rightarrow> int \<Rightarrow> int list" where
  "peer_grid_ids f drone_index =
     (if 0 \<le> drone_index \<and> drone_index < int (length (ed_observed_peer_grid_ids f)) \<and>
         ed_observed_peer_grid_ids f ! nat drone_index \<noteq> [] then ed_observed_peer_grid_ids f ! nat drone_index
      else if 0 \<le> drone_index \<and> drone_index < int (length (ed_swarm_state f))
      then ds_grid_ids (ed_swarm_state f ! nat drone_index) else [])"

definition peer_hints :: "HGrid \<Rightarrow> int list \<Rightarrow> fsm_state \<Rightarrow> int \<Rightarrow> int list \<times> int list" where
  "peer_hints h actives f drone_id =
     (let ids = peer_grid_ids f (drone_id - 1) in
      if ids \<noteq> [] then getConsistentGrid h ids actives ([], []) else ([], []))"

text \<open>The cells of the routes of a drone: the first list that the parser gave is skipped.\<close>

definition routes_of :: "int list list \<Rightarrow> int \<Rightarrow> int list" where
  "routes_of tours d = concat (map tl (filter (\<lambda>t. t \<noteq> [] \<and> hd t = d) (tl tours)))"

definition not_released :: "planner \<Rightarrow> int list \<Rightarrow> int list" where
  "not_released s ids = filter (\<lambda>g. g \<notin> set (ed_pending_release_grid_ids (pl_fsm s))) ids"

text \<open>The result is whether a tour was found, the own cells in their order, and those of the others.\<close>

definition findGlobalTourOfGrid ::
  "(vec3 \<Rightarrow> vec3 \<Rightarrow> real option) \<Rightarrow> (vec3 \<Rightarrow> vec3 \<Rightarrow> vec3 list option) \<Rightarrow> bool \<Rightarrow> solver \<Rightarrow> MapParam \<Rightarrow> plan_params \<Rightarrow>
     vec3 list \<Rightarrow> vec3 list \<Rightarrow> int list \<Rightarrow> bool \<Rightarrow> planner \<Rightarrow> (bool \<times> int list \<times> int list list \<times> planner) option" where
  "findGlobalTourOfGrid path_len path uninit solve p pp positions velocities drone_ids init s0 =
     (if positions = [] \<or> length velocities \<noteq> length positions \<or> length drone_ids \<noteq> length positions
      then Some (False, [], [], s0)
      else
        let f = pl_fsm s0; own = not_released s0 (ds_grid_ids (ed_swarm_state f ! nat (pp_drone_id pp - 1)));
            h1 = hg_inputFrontiers (pl_averages s0) (map (\<lambda>c. int (length c)) (pl_frontiers s0)) (pl_grid s0);
            ((h, d, mm), _, first_ids, second_ids) =
              hg_updateGridData p (pp_drone_id pp) own (ed_last_grid_ids f) ([], []) (h1, pl_map s0, pl_chunks s0);
            s = publishTaskMetrics pp (s0\<lparr>pl_grid := h, pl_map := d, pl_chunks := mm\<rparr>);
            actives = not_released s (getActiveGrids h)
        in if actives = [] then Some (False, [], [], s\<lparr>pl_grid_tour := [], pl_grid_tour2 := []\<rparr>)
           else
             let n = length positions;
                 pairs = (if init then replicate (length drone_ids) ([], [])
                          else (first_ids, second_ids) # map (peer_hints h actives f) (tl drone_ids));
                 mat = getCostMatrix path_len uninit h positions velocities (map fst pairs) (map snd pairs) actives;
                 dimension = length mat; prefix = tour_prefix (pp_mtsp_dir pp) ''amtsp2'' (pp_drone_id pp);
                 problem = atsp_file ''amtsp'' ''ATSP'' dimension [] (\<lambda>x. to_int_trunc (100 * x)) mat;
                 par = [''SPECIAL'', ''PROBLEM_FILE = '' @ prefix @ ''.atsp'', ''SALESMEN = '' @ to_dec n,
                   ''MTSP_OBJECTIVE = MINSUM'', ''RUNS = 1'', ''TRACE_LEVEL = 0'', ''TOUR_FILE = '' @ prefix @ ''.tour'']
             in case solve False 2 problem par of
                  None \<Rightarrow> Some (False, [], [], s)
                | Some tour \<Rightarrow>
                    (case read_tour tour of
                       None \<Rightarrow> None
                     | Some ids \<Rightarrow>
                         let tours = parse_tours (int n) (int dimension) ids;
                             cells = (\<lambda>t. map (\<lambda>i. actives ! nat (i - (1 + int n))) (routes_of tours t));
                             indices = cells 1; others = map (\<lambda>k. cells (int k + 2)) [0..<n - 1];
                             (tour1, tour2) = (if indices \<noteq> [] then hg_getGridTour path h indices (hd positions) else ([], []))
                         in Some (True, indices, others,
                              s\<lparr>pl_fsm := (pl_fsm s)\<lparr>ed_pending_grid_ids := indices\<rparr>, pl_grid_tour := tour1, pl_grid_tour2 := tour2\<rparr>)))"

definition findGlobalTourOfGridFromSwarm ::
  "(vec3 \<Rightarrow> vec3 \<Rightarrow> real option) \<Rightarrow> (vec3 \<Rightarrow> vec3 \<Rightarrow> vec3 list option) \<Rightarrow> bool \<Rightarrow> solver \<Rightarrow> MapParam \<Rightarrow> plan_params \<Rightarrow>
     real \<Rightarrow> vec3 \<Rightarrow> vec3 \<Rightarrow> bool \<Rightarrow> planner \<Rightarrow> (bool \<times> int list \<times> int list list \<times> planner) option" where
  "findGlobalTourOfGridFromSwarm path_len path uninit solve p pp now self_pos self_vel init s =
     (let (drone_ids, positions, velocities) = buildSwarmGlobalAllocationInputs pp now self_pos self_vel s
      in findGlobalTourOfGrid path_len path uninit solve p pp positions velocities drone_ids init s)"

end
