(* ===== verification/Tour_Props.thy ===== *)
theory Tour_Props imports Tour_Allocation "HOL-Library.Multiset"
begin

text \<open>
  Lemmas on the exchange with the tour solver: numbers survive writing and reading, the routes of a tour
  survive the parsers, cells are assigned as often as the routes name them, and the scaled demands have
  the sum they are meant to have.
\<close>

section \<open>Numbers\<close>

lemma digit_char:
  assumes "k < 10"
  shows "is_digit (digit k)" "of_char (digit k) = (48 + int k)" "\<not> isspace (digit k)"
    "digit k \<noteq> CHR ''-''" "digit k \<noteq> CHR ''+''"
proof -
  have "\<forall>k \<in> set [0..<10]. is_digit (digit k) \<and> of_char (digit k) = (48 + int k) \<and> \<not> isspace (digit k) \<and>
      digit k \<noteq> CHR ''-'' \<and> digit k \<noteq> CHR ''+''"
    by code_simp
  moreover have "k \<in> set [0..<10]" using assms by simp
  ultimately show "is_digit (digit k)" "of_char (digit k) = (48 + int k)" "\<not> isspace (digit k)"
      "digit k \<noteq> CHR ''-''" "digit k \<noteq> CHR ''+''" by blast+
qed

lemma digits_value_snoc: "digits_value (ds @ [c]) = 10 * digits_value ds + (of_char c - 48)"
  by (simp add: digits_value_def)

lemma dec_digits:
  "digits_value (to_dec n) = int n" "\<forall>c \<in> set (to_dec n). is_digit c" "to_dec n \<noteq> []"
  "\<exists>k cs. k < 10 \<and> to_dec n = digit k # cs"
proof -
  have "digits_value (to_dec n) = int n \<and> (\<forall>c \<in> set (to_dec n). is_digit c) \<and> (\<exists>k cs. k < 10 \<and> to_dec n = digit k # cs)"
  proof (induction n rule: to_dec.induct)
    case (1 n)
    show ?case
    proof (cases "n < 10")
      case True
      then have "to_dec n = digit n # []" by (simp add: to_dec.simps [of n])
      then show ?thesis using True digit_char [of n] by (auto simp: digits_value_def)
    next
      case False
      have "n mod 10 < 10" by simp
      note d = digit_char [OF this]
      have "int n = 10 * int (n div 10) + int (n mod 10)" by (metis div_mult_mod_eq mult.commute of_nat_add of_nat_mult of_nat_numeral)
      then show ?thesis
        using 1 False d by (auto simp: to_dec.simps [of n] digits_value_snoc)
    qed
  qed
  then show "digits_value (to_dec n) = int n" "\<forall>c \<in> set (to_dec n). is_digit c" "to_dec n \<noteq> []"
    "\<exists>k cs. k < 10 \<and> to_dec n = digit k # cs" by auto
qed

definition fits_int :: "int \<Rightarrow> bool" where
  "fits_int n \<longleftrightarrow> - (2 ^ 31) \<le> n \<and> n < 2 ^ 31"

lemma stoi_to_string:
  assumes "fits_int n"
  shows "stoi (to_string_int n) = Some n"
proof -
  have take: "takeWhile is_digit (to_dec m) = to_dec m" for m using dec_digits(2) by (simp add: takeWhile_eq_all_conv)
  have drop: "dropWhile isspace (to_dec m) = to_dec m" "split_sign (to_dec m) = (False, to_dec m)" for m
    using dec_digits(4) [of m] digit_char by (auto simp: split_sign_def)
  have minus: "\<not> isspace CHR ''-''" by (simp add: isspace_def of_char_def)
  show ?thesis
  proof (cases "n < 0")
    case True
    then show ?thesis
      using assms minus
      by (simp add: stoi_def to_string_int_def split_sign_def take dec_digits fits_int_def Let_def)
  next
    case False
    then show ?thesis
      using assms by (simp add: stoi_def to_string_int_def drop take dec_digits fits_int_def Let_def)
  qed
qed

section \<open>Tours\<close>

text \<open>A tour of the solver over \<open>n\<close> drones and \<open>m\<close> cells: a route starts at a drone, has cells, and is
  followed by copies of the depot, which are numbered 1 or more than the dimension.\<close>

type_synonym route = "nat \<times> nat list \<times> int list"

definition tour_nodes :: "nat \<Rightarrow> route list \<Rightarrow> int list" where
  "tour_nodes n routes =
     1 # concat (map (\<lambda>(d, ks, es). (int d + 2) # map (\<lambda>k. int k + 2 + int n) ks @ es) routes) @ [-1]"

definition tour_file :: "string list \<Rightarrow> nat \<Rightarrow> route list \<Rightarrow> string list \<Rightarrow> string list" where
  "tour_file header n routes rest = header @ ''TOUR_SECTION'' # map to_string_int (tour_nodes n routes) @ rest"

definition route_ok :: "nat \<Rightarrow> nat \<Rightarrow> route \<Rightarrow> bool" where
  "route_ok n m r = (case r of (d, ks, es) \<Rightarrow> d < n \<and> (\<forall>k \<in> set ks. k < m) \<and>
     (\<forall>e \<in> set es. (e = 1 \<or> e > 1 + int n + int m) \<and> fits_int e))"

definition routes_ok :: "nat \<Rightarrow> nat \<Rightarrow> route list \<Rightarrow> bool" where
  "routes_ok n m routes \<longleftrightarrow> list_all (route_ok n m) routes \<and> fits_int (1 + int n + int m)"

definition route_cells :: "route list \<Rightarrow> nat list" where
  "route_cells routes = concat (map (\<lambda>(d, ks, es). ks) routes)"

lemma read_nodes_to_string:
  assumes "\<forall>x \<in> set xs. fits_int x \<and> x \<noteq> -1"
  shows "read_nodes (map to_string_int (xs @ [-1]) @ rest) = Some (map (\<lambda>x. x - 1) (xs @ [-1]))"
proof -
  have "fits_int (-1)" by (simp add: fits_int_def)
  then show ?thesis using assms by (induction xs) (simp_all add: stoi_to_string)
qed

lemma read_tour_file:
  assumes "routes_ok n m routes" "''TOUR_SECTION'' \<notin> set header"
  shows "read_tour (tour_file header n routes rest) = Some (map (\<lambda>x. x - 1) (tour_nodes n routes))"
proof -
  have "dropWhile (\<lambda>l. l \<noteq> ''TOUR_SECTION'') (header @ ''TOUR_SECTION'' # xs) = ''TOUR_SECTION'' # xs" for xs
    using assms(2) by (induction header) auto
  moreover obtain xs where xs: "1 # concat (map (\<lambda>(d, ks, es). (int d + 2) # map (\<lambda>k. int k + 2 + int n) ks @ es) routes) = xs"
    by blast
  moreover have "\<forall>x \<in> set xs. fits_int x \<and> x \<noteq> -1"
  proof -
    have "fits_int x \<and> x \<noteq> -1" if "(d, ks, es) \<in> set routes" "x \<in> set ((int d + 2) # map (\<lambda>k. int k + 2 + int n) ks @ es)" for d ks es x
    proof -
      have r: "d < n" "\<forall>k \<in> set ks. k < m" "\<forall>e \<in> set es. (e = 1 \<or> e > 1 + int n + int m) \<and> fits_int e"
        "1 + int n + int m < 2 ^ 31"
        using assms(1) that(1) by (auto simp: routes_ok_def list_all_iff route_ok_def fits_int_def)
      then show ?thesis using that(2) by (auto simp: fits_int_def)
    qed
    then show ?thesis unfolding xs [symmetric] by (auto simp: fits_int_def)
  qed
  moreover have "tour_nodes n routes = xs @ [-1]" by (simp add: tour_nodes_def xs [symmetric])
  ultimately show ?thesis
    using read_nodes_to_string [of xs rest] unfolding read_tour_def tour_file_def by (simp only: list.sel map_append append_assoc)
qed

section \<open>The parsers\<close>

text \<open>The nodes of a route as the parsers keep it, and as it is in the file, each less one.\<close>

definition route_nodes :: "nat \<Rightarrow> route \<Rightarrow> int list" where
  "route_nodes n r = (case r of (d, ks, es) \<Rightarrow> (int d + 1) # map (\<lambda>k. int k + 1 + int n) ks)"

definition route_ids :: "nat \<Rightarrow> route \<Rightarrow> int list" where
  "route_ids n r = (case r of (d, ks, es) \<Rightarrow> route_nodes n r @ map (\<lambda>e. e - 1) es)"

lemma tour_ids: "map (\<lambda>x. x - 1) (tour_nodes n routes) = 0 # concat (map (route_ids n) routes) @ [-2]"
proof -
  have "map (\<lambda>x. x - 1) (case r of (d, ks, es) \<Rightarrow> (int d + 2) # map (\<lambda>k. int k + 2 + int n) ks @ es) = route_ids n r" for r
    by (auto simp: route_ids_def route_nodes_def split: prod.splits)
  then show ?thesis by (simp add: tour_nodes_def map_concat comp_def)
qed

definition closed :: "int list list \<times> int list \<Rightarrow> int list list" where
  "closed acc = (if snd acc \<noteq> [] then fst acc @ [snd acc] else fst acc)"

lemma route_step_cells:
  assumes "tour \<noteq> []" "\<forall>k \<in> set ks. k < m"
  shows "foldl (route_step (int n) (1 + int n + int m)) (tours, tour) (map (\<lambda>k. int k + 1 + int n) ks) =
    (tours, tour @ map (\<lambda>k. int k + 1 + int n) ks)"
  using assms by (induction ks arbitrary: tour) (simp_all add: route_step_def)

lemma route_step_depots:
  assumes "\<forall>e \<in> set es. e = 1 \<or> e > 1 + int n + int m"
  shows "closed (foldl (route_step (int n) (1 + int n + int m)) acc (map (\<lambda>e. e - 1) es)) = closed acc"
  using assms
proof (induction es arbitrary: acc)
  case (Cons e es)
  then have "\<not> (e - 1 > 0 \<and> e - 1 \<le> int n)" "e - 1 \<ge> 1 + int n + int m \<or> e - 1 \<le> 0" by auto
  then have "closed (route_step (int n) (1 + int n + int m) acc (e - 1)) = closed acc"
    by (auto simp: route_step_def closed_def split: prod.splits)
  then show ?case using Cons by simp
qed simp

lemma parse_route:
  assumes "route_ok n m r"
  shows "closed (foldl (route_step (int n) (1 + int n + int m)) acc (route_ids n r)) = closed acc @ [route_nodes n r]"
proof -
  obtain d ks es where r: "r = (d, ks, es)" by (metis prod.collapse)
  have ok: "d < n" "\<forall>k \<in> set ks. k < m" "\<forall>e \<in> set es. e = 1 \<or> e > 1 + int n + int m"
    using assms by (auto simp: route_ok_def r)
  have "route_step (int n) (1 + int n + int m) acc (int d + 1) = (closed acc, [int d + 1])"
    using ok(1) by (auto simp: route_step_def closed_def split: prod.splits)
  then have "foldl (route_step (int n) (1 + int n + int m)) acc (route_nodes n r) = (closed acc, route_nodes n r)"
    using route_step_cells [OF _ ok(2), of "[int d + 1]"] by (simp add: route_nodes_def r)
  then have "closed (foldl (route_step (int n) (1 + int n + int m)) acc (route_nodes n r @ map (\<lambda>e. e - 1) es)) =
      closed (closed acc, route_nodes n r)"
    using route_step_depots [OF ok(3)] by simp
  then show ?thesis by (simp add: route_ids_def closed_def route_nodes_def r)
qed

lemma parse_routes_tour:
  assumes "list_all (route_ok n m) routes"
  shows "parse_routes (int n) (1 + int n + int m) (map (\<lambda>x. x - 1) (tour_nodes n routes)) = map (route_nodes n) routes"
proof -
  let ?step = "route_step (int n) (1 + int n + int m)"
  have "closed (foldl ?step acc (concat (map (route_ids n) rs))) = closed acc @ map (route_nodes n) rs"
    if "list_all (route_ok n m) rs" for rs acc
    using that by (induction rs arbitrary: acc) (simp_all add: parse_route)
  moreover have "closed (?step acc i) = closed acc" if "i \<le> 0" for acc i
    using that by (auto simp: route_step_def closed_def split: prod.splits)
  moreover have "parse_routes (int n) (1 + int n + int m) ids = closed (foldl ?step ([], []) ids)" for ids
    by (simp add: parse_routes_def closed_def split: prod.splits)
  ultimately show ?thesis using assms by (simp add: tour_ids) (simp add: closed_def)
qed

text \<open>For the other parser there is exactly one copy of the depot between two routes.\<close>

definition single_depots :: "route list \<Rightarrow> bool" where
  "single_depots routes \<longleftrightarrow> routes \<noteq> [] \<and> (\<forall>(d, ks, es) \<in> set (butlast routes). length es = 1) \<and> snd (snd (last routes)) = []"

lemma tour_step_route:
  assumes "d < n" "\<forall>k \<in> set ks. k < m"
  shows "foldl (tour_step (int n) (1 + int n + int m)) (tours, tour) (route_nodes n (d, ks, es)) =
    (tours, route_nodes n (d, ks, es))"
proof -
  have "foldl (tour_step (int n) (1 + int n + int m)) (tours, tour) (map (\<lambda>k. int k + 1 + int n) ks) =
      (tours, tour @ map (\<lambda>k. int k + 1 + int n) ks)" for tour
    using assms(2) by (induction ks arbitrary: tour) (simp_all add: tour_step_def)
  then show ?thesis using assms(1) by (simp add: route_nodes_def tour_step_def)
qed

lemma parse_tours_tour:
  assumes "list_all (route_ok n m) routes" "single_depots routes"
  shows "parse_tours (int n) (1 + int n + int m) (map (\<lambda>x. x - 1) (tour_nodes n routes)) = [] # map (route_nodes n) routes"
proof -
  let ?step = "tour_step (int n) (1 + int n + int m)"
  have "fst (foldl ?step acc (concat (map (route_ids n) routes) @ [-2])) = fst acc @ map (route_nodes n) routes" for acc
    using assms
  proof (induction routes arbitrary: acc)
    case (Cons r rs)
    obtain d ks es where r: "r = (d, ks, es)" by (metis prod.collapse)
    have ok: "d < n" "\<forall>k \<in> set ks. k < m" "\<forall>e \<in> set es. e = 1 \<or> e > 1 + int n + int m"
      using Cons.prems(1) by (auto simp: route_ok_def r)
    have first: "foldl ?step acc (route_nodes n r) = (fst acc, route_nodes n r)"
      using tour_step_route [OF ok(1,2), of "fst acc" "snd acc" es] by (simp add: r)
    show ?case
    proof (cases "rs = []")
      case True
      then have "es = []" using Cons.prems(2) by (simp add: single_depots_def r)
      then have "foldl ?step acc (route_ids n r @ [-2]) = ?step (fst acc, route_nodes n r) (-2)"
        using first by (simp add: route_ids_def r)
      also have "\<dots> = (fst acc @ [route_nodes n r], route_nodes n r)" by (simp add: tour_step_def)
      finally show ?thesis using True by simp
    next
      case False
      then obtain e where e: "es = [e]" using Cons.prems(2) by (auto simp: single_depots_def r length_Suc_conv)
      have "foldl ?step acc (route_ids n r) = (fst acc @ [route_nodes n r], route_nodes n r)"
        using first ok(3) by (auto simp: route_ids_def r e tour_step_def)
      moreover have "list_all (route_ok n m) rs" "single_depots rs"
        using Cons.prems False by (auto simp: single_depots_def)
      ultimately show ?thesis using Cons.IH [of "(fst acc @ [route_nodes n r], route_nodes n r)"] by simp
    qed
  qed (simp add: single_depots_def)
  then show ?thesis by (simp add: parse_tours_def tour_ids tour_step_def)
qed

text \<open>The cells of a drone in a tour.\<close>

definition cells_of :: "route list \<Rightarrow> nat \<Rightarrow> nat list" where
  "cells_of routes d = concat (map (\<lambda>(d', ks, es). if d' = d then ks else []) routes)"

lemma routes_of_tour: "routes_of ([] # map (route_nodes n) routes) (int d + 1) = map (\<lambda>k. int k + 1 + int n) (cells_of routes d)"
  by (induction routes) (auto simp: routes_of_def cells_of_def route_nodes_def)

section \<open>The assignment\<close>

lemma mset_concat_update:
  "i < length xs \<Longrightarrow> mset (concat (xs[i := xs ! i @ ys])) = mset (concat xs) + mset ys"
proof (induction xs arbitrary: i)
  case (Cons x xs)
  then show ?case by (cases i) simp_all
qed simp

lemma mset_concat_replicate [simp]: "concat (replicate n []) = []"
  by (induction n) simp_all

lemma assign_route_ok:
  assumes "route_ok n m r" "length assigned = n" "length grid_ids = m"
  shows "assign_route grid_ids assigned (route_nodes n r) =
    assigned[fst r := assigned ! fst r @ map (\<lambda>k. grid_ids ! k) (fst (snd r))]"
proof -
  obtain d ks es where r: "r = (d, ks, es)" by (metis prod.collapse)
  have ok: "d < n" "\<forall>k \<in> set ks. k < m" using assms(1) by (auto simp: route_ok_def r)
  have "filter (\<lambda>k. \<not> (k < 0 \<or> k \<ge> int m)) (map (\<lambda>i. i - 1 - int n) (map (\<lambda>k. int k + 1 + int n) ks)) = map int ks"
    using ok(2) by (induction ks) auto
  then show ?thesis using ok(1) assms(2,3) by (simp add: assign_route_def route_nodes_def r Let_def comp_def)
qed

lemma assign_routes_ok:
  assumes "list_all (route_ok n m) routes" "length assigned = n" "length grid_ids = m"
  shows "length (foldl (assign_route grid_ids) assigned (map (route_nodes n) routes)) = n \<and>
    mset (concat (foldl (assign_route grid_ids) assigned (map (route_nodes n) routes))) =
      mset (concat assigned) + image_mset (\<lambda>k. grid_ids ! k) (mset (route_cells routes)) \<and>
    (\<forall>d < n. foldl (assign_route grid_ids) assigned (map (route_nodes n) routes) ! d =
      assigned ! d @ map (\<lambda>k. grid_ids ! k) (cells_of routes d))"
  using assms
proof (induction routes arbitrary: assigned)
  case Nil
  then show ?case by (simp add: route_cells_def cells_of_def)
next
  case (Cons r rs)
  obtain d ks es where r: "r = (d, ks, es)" by (metis prod.collapse)
  have ok: "route_ok n m r" "d < n" using Cons.prems(1) by (auto simp: route_ok_def r)
  let ?a = "assigned[d := assigned ! d @ map (\<lambda>k. grid_ids ! k) ks]"
  have a: "assign_route grid_ids assigned (route_nodes n r) = ?a"
    using assign_route_ok [OF ok(1) Cons.prems(2,3)] by (simp add: r)
  have "mset (concat ?a) = mset (concat assigned) + image_mset (\<lambda>k. grid_ids ! k) (mset ks)"
    using mset_concat_update [of d assigned] ok(2) Cons.prems(2) by simp
  then show ?case
    using Cons.IH [of ?a] Cons.prems ok(2) a by (auto simp: route_cells_def cells_of_def r)
qed

lemma best_drone:
  assumes "length assigned \<noteq> 0"
  obtains b where "b < length assigned"
    "assignGridByBestCost cost drone_ids assigned g = assigned[b := assigned ! b @ [g]]"
proof -
  let ?best = "\<lambda>k. foldl (best_cost_step (cost g) drone_ids) None [0..<k]"
  have step: "case ?best k of None \<Rightarrow> k = 0 | Some (b, c) \<Rightarrow> b < k" for k
  proof (induction k)
    case (Suc k)
    then show ?case by (auto simp: best_cost_step_def split: option.splits prod.splits if_splits)
  qed simp
  obtain b c where "?best (length assigned) = Some (b, c)" "b < length assigned"
    using step [of "length assigned"] assms by (auto split: option.splits)
  then show ?thesis by (intro that) (simp_all add: assignGridByBestCost_def)
qed

lemma assign_best_ok:
  assumes "length assigned \<noteq> 0"
  shows "length (assignGridByBestCost cost drone_ids assigned g) = length assigned"
    "mset (concat (assignGridByBestCost cost drone_ids assigned g)) = add_mset g (mset (concat assigned))"
proof -
  obtain b where b: "b < length assigned" "assignGridByBestCost cost drone_ids assigned g = assigned[b := assigned ! b @ [g]]"
    by (rule best_drone [OF assms])
  show "length (assignGridByBestCost cost drone_ids assigned g) = length assigned" by (simp add: b(2))
  show "mset (concat (assignGridByBestCost cost drone_ids assigned g)) = add_mset g (mset (concat assigned))"
    using mset_concat_update [OF b(1), of "[g]"] by (simp add: b(2))
qed

lemma assign_best_fold:
  assumes "length assigned \<noteq> 0"
  shows "length (foldl (assignGridByBestCost cost drone_ids) assigned gs) = length assigned \<and>
    mset (concat (foldl (assignGridByBestCost cost drone_ids) assigned gs)) = mset (concat assigned) + mset gs"
  using assms
proof (induction gs arbitrary: assigned)
  case (Cons g gs)
  note a = assign_best_ok [OF Cons.prems, of cost drone_ids g]
  show ?case using Cons.IH [of "assignGridByBestCost cost drone_ids assigned g"] Cons.prems unfolding a by (simp add: a)
qed simp

end
