(* ===== verification/Tour_Demand.thy ===== *)
theory Tour_Demand imports Tour_Props
begin

text \<open>
  The demands of the cells: the budget is met exactly, every cell with unknown voxels has a demand of at
  least one and at most their number, and the capacity of a route is enough for all of them.
\<close>

section \<open>Updates at distinct places\<close>

lemma length_fold_change [simp]: "length (fold (\<lambda>i d. d[i := f i (d ! i)]) is d) = length d"
  by (induction "is" arbitrary: d) simp_all

lemma fold_change:
  assumes "distinct is" "\<forall>i \<in> set is. i < length d"
  shows "fold (\<lambda>i d. d[i := f i (d ! i)]) is d ! j = (if j \<in> set is then f j (d ! j) else d ! j)"
  using assms by (induction "is" arbitrary: d) (auto simp: nth_list_update)

text \<open>If a class of elements comes before all others in the order, it comes first in the sorted list.\<close>

lemma sort_by_class_first:
  assumes "\<And>x y. x \<in> A \<Longrightarrow> y \<in> B \<Longrightarrow> lt x y \<and> \<not> lt y x" and "set xs \<subseteq> A \<union> B"
  shows "\<exists>as bs. sort_by lt xs = as @ bs \<and> set as \<subseteq> A \<and> set bs \<subseteq> B"
  using assms(2)
proof (induction xs)
  case (Cons x xs)
  then obtain as bs where ih: "sort_by lt xs = as @ bs" "set as \<subseteq> A" "set bs \<subseteq> B" by auto
  have eq: "sort_by lt (x # xs) = insert_by lt x (as @ bs)" using ih(1) by (simp add: sort_by_def)
  have b: "insert_by lt x (as @ bs) = as @ insert_by lt x bs" if "x \<in> B"
    using that ih(2) assms(1) by (induction as) auto
  have a: "insert_by lt x (as @ bs) = insert_by lt x as @ bs" if "x \<in> A"
    using ih(3) that assms(1) by (induction as) (cases bs; auto)+
  have sets: "set (insert_by lt x ys) = insert x (set ys)" for ys using mset_insert_by [of lt x ys] by (metis set_mset_add_mset_insert set_mset_mset)
  have "x \<in> A \<or> x \<in> B" using Cons.prems by auto
  then show ?case
  proof
    assume x: "x \<in> A"
    have "sort_by lt (x # xs) = insert_by lt x as @ bs" "set (insert_by lt x as) \<subseteq> A"
      using a [OF x] eq ih(2) sets x by simp_all
    then show ?thesis using ih(3) by blast
  next
    assume x: "x \<in> B"
    have "sort_by lt (x # xs) = as @ insert_by lt x bs" "set (insert_by lt x bs) \<subseteq> B"
      using b [OF x] eq ih(3) sets x by simp_all
    then show ?thesis using ih(2) by blast
  qed
qed (simp add: sort_by_def)

section \<open>The scaled demands\<close>

lemma sum_floor_bounds:
  fixes f :: "nat \<Rightarrow> real"
  assumes "distinct is" "sum_list (map f is) = real_of_int b" "\<forall>i \<in> set is. 0 \<le> f i"
  shows "0 \<le> b - sum_list (map (\<lambda>i. \<lfloor>f i\<rfloor>) is)"
    "real_of_int (b - sum_list (map (\<lambda>i. \<lfloor>f i\<rfloor>) is)) = sum_list (map (\<lambda>i. f i - real_of_int \<lfloor>f i\<rfloor>) is)"
proof -
  have eq: "sum_list (map (\<lambda>i. f i - real_of_int \<lfloor>f i\<rfloor>) is) = sum_list (map f is) - real_of_int (sum_list (map (\<lambda>i. \<lfloor>f i\<rfloor>) is))"
    by (induction "is") simp_all
  then show "real_of_int (b - sum_list (map (\<lambda>i. \<lfloor>f i\<rfloor>) is)) = sum_list (map (\<lambda>i. f i - real_of_int \<lfloor>f i\<rfloor>) is)"
    using assms(2) by simp
  moreover have "0 \<le> sum_list (map (\<lambda>i. f i - real_of_int \<lfloor>f i\<rfloor>) is)"
    by (rule sum_list_nonneg) auto
  ultimately have "(0 :: real) \<le> real_of_int (b - sum_list (map (\<lambda>i. \<lfloor>f i\<rfloor>) is))" by simp
  then show "0 \<le> b - sum_list (map (\<lambda>i. \<lfloor>f i\<rfloor>) is)" by (simp only: of_int_0_le_iff)
qed

lemma sum_image: "sum_mset (image_mset f (mset xs)) = sum_list (map f xs)"
  by (simp only: mset_map [symmetric] sum_mset_sum_list)

lemma sum_fraction_length:
  fixes f :: "'a \<Rightarrow> real"
  assumes "\<forall>x \<in> set xs. f x \<le> 1"
  shows "sum_list (map f xs) \<le> real (length xs)"
  using assms by (induction xs) auto

text \<open>The largest remainders: exactly the extra units that are left go to distinct cells with more than
  one unknown voxel.\<close>

lemma largest_remainders:
  fixes f :: "nat \<Rightarrow> real"
  assumes is': "distinct is" "\<forall>i \<in> set is. 1 \<le> us ! i \<and> 0 \<le> f i \<and> (us ! i = 1 \<longrightarrow> f i = 0)"
    and b: "sum_list (map f is) = real_of_int b"
  defines "k \<equiv> nat (b - sum_list (map (\<lambda>i. \<lfloor>f i\<rfloor>) is))"
  defines "picked \<equiv> map (\<lambda>(_, i, _). i) (take k (sort_by remainder_less (map (\<lambda>i. (f i - real_of_int \<lfloor>f i\<rfloor>, i, us ! i)) is)))"
  shows "length picked = k" "distinct picked" "set picked \<subseteq> {i \<in> set is. 1 < us ! i}"
    "int k = b - sum_list (map (\<lambda>i. \<lfloor>f i\<rfloor>) is)"
proof -
  let ?e = "\<lambda>i. (f i - real_of_int \<lfloor>f i\<rfloor>, i, us ! i)"
  let ?rs = "sort_by remainder_less (map ?e is)"
  let ?A = "?e ` {i \<in> set is. 1 < us ! i}" and ?B = "?e ` {i \<in> set is. us ! i = 1}"
  note fl = sum_floor_bounds [OF is'(1) b]
  show kk: "int k = b - sum_list (map (\<lambda>i. \<lfloor>f i\<rfloor>) is)" using fl(1) is'(2) by (simp add: k_def)
  have lt: "remainder_less x y \<and> \<not> remainder_less y x" if xy: "x \<in> ?A" "y \<in> ?B" for x y
  proof -
    obtain i j where ij: "x = ?e i" "i \<in> set is" "1 < us ! i" "y = ?e j" "j \<in> set is" "us ! j = 1" using xy by blast
    then have "f j = 0" using is'(2) by auto
    moreover have "0 \<le> f i - real_of_int \<lfloor>f i\<rfloor>" by simp
    ultimately show ?thesis using ij by (simp add: remainder_less_def)
  qed
  have sub: "set (map ?e is) \<subseteq> ?A \<union> ?B" using is'(2) by force
  have "\<exists>as bs. ?rs = as @ bs \<and> set as \<subseteq> ?A \<and> set bs \<subseteq> ?B"
    by (rule sort_by_class_first [OF _ sub]) (rule lt)
  then obtain as bs where ab: "?rs = as @ bs" "set as \<subseteq> ?A" "set bs \<subseteq> ?B" by (elim exE conjE) (rule that)
  have ms: "mset as + mset bs = mset (map ?e is)" using mset_sort_by [of remainder_less "map ?e is"] ab(1) by simp
  have "sum_list (map fst as) + sum_list (map fst bs) = sum_list (map fst (map ?e is))"
    using arg_cong [OF ms, of "\<lambda>m. sum_mset (image_mset fst m)"] by (simp only: image_mset_union sum_mset.union sum_image)
  moreover have "sum_list (map fst bs) = 0"
  proof -
    have "fst e = 0" if e: "e \<in> set bs" for e
    proof -
      obtain i where "e = ?e i" "i \<in> set is" "us ! i = 1" using ab(3) e by blast
      moreover from this have "f i = 0" using is'(2) by blast
      ultimately show ?thesis by simp
    qed
    then show ?thesis by (induction bs) simp_all
  qed
  ultimately have "sum_list (map fst as) = real_of_int (int k)"
    using fl(2) [folded kk] is'(2) by (simp add: comp_def)
  moreover have "sum_list (map fst as) \<le> real (length as)"
  proof -
    have "f i - real_of_int \<lfloor>f i\<rfloor> \<le> 1" for i by linarith
    then have "\<forall>e \<in> set as. fst e \<le> 1" using ab(2) by fastforce
    then show ?thesis by (rule sum_fraction_length)
  qed
  ultimately have k: "k \<le> length as" by simp
  then have picked: "picked = map (\<lambda>(_, i, _). i) (take k as)" by (simp add: picked_def ab(1))
  show "length picked = k" using k by (simp add: picked)
  have "distinct (map (\<lambda>(_, i, _). i) ?rs)"
  proof -
    have "mset (map (\<lambda>(_, i, _). i) ?rs) = mset is"
    proof -
      have "map (\<lambda>(_, i, _). i) (map ?e is) = is" by (simp add: comp_def)
      then have "mset is = image_mset (\<lambda>(_, i, _). i) (mset (map ?e is))" by (metis mset_map)
      then show ?thesis by (simp only: mset_map mset_sort_by)
    qed
    then show ?thesis using is'(1) mset_eq_imp_distinct_iff [of "map (\<lambda>(_, i, _). i) ?rs" "is"] by simp
  qed
  then show "distinct picked" unfolding picked ab(1) by (simp flip: take_map)
  have "set (take k as) \<subseteq> ?A" by (rule order.trans [OF set_take_subset ab(2)])
  then show "set picked \<subseteq> {i \<in> set is. 1 < us ! i}" unfolding picked by auto
qed

lemma sum_list_nth: "sum_list xs = (\<Sum>i<length xs. xs ! i)"
  by (simp add: sum_list_sum_nth atLeast0LessThan)

lemma sum_over_indices:
  fixes f :: "nat \<Rightarrow> int"
  assumes "distinct is" "\<forall>i \<in> set is. i < n"
  shows "(\<Sum>i<n. if i \<in> set is then f i else 0) = sum_list (map f is)"
proof -
  have "{i. i < n \<and> i \<in> set is} = set is" using assms(2) by auto
  then have "(\<Sum>i<n. if i \<in> set is then f i else 0) = sum f (set is)"
    by (simp add: sum.If_cases Int_def lessThan_def conj_commute)
  then show ?thesis using assms(1) by (simp add: sum_list_distinct_conv_sum_set)
qed

lemma scaled_demands_ok:
  assumes ne: "nonempty = filter (\<lambda>i. us ! i > 0) [0..<length us]" "nonempty \<noteq> []"
    and tot: "tot = sum_list (map (\<lambda>i. us ! i) nonempty)"
    and target: "int (length nonempty) < target" "target < tot"
  defines "d \<equiv> scaled_demands us nonempty target tot"
  shows "length d = length us" "sum_list d = target"
    "i < length us \<Longrightarrow> if us ! i > 0 then 1 \<le> d ! i \<and> d ! i \<le> us ! i else d ! i = 0"
proof -
  let ?P = "int (length nonempty)"
  let ?budget = "target - ?P" and ?scalable = "tot - ?P"
  let ?f = "exact_extra ?budget ?scalable us"
  let ?left = "?budget - sum_list (map (\<lambda>i. \<lfloor>?f i\<rfloor>) nonempty)"
  let ?ones = "fold (\<lambda>i d. d[i := 1]) nonempty (replicate (length us) (0 :: int))"
  let ?d1 = "fold (\<lambda>i d. d[i := d ! i + \<lfloor>?f i\<rfloor>]) nonempty ?ones"
  let ?picked = "map (\<lambda>(_, i, _). i) (take (nat ?left) (sort_by remainder_less
      (map (\<lambda>i. (?f i - real_of_int \<lfloor>?f i\<rfloor>, i, us ! i)) nonempty)))"
  have dist: "distinct nonempty" and mem: "i \<in> set nonempty \<longleftrightarrow> i < length us \<and> 0 < us ! i" for i
    using ne(1) by auto
  then have small: "\<forall>i \<in> set nonempty. i < length us" by simp
  have pos: "0 < ?budget" "?budget < ?scalable" using target by simp_all
  have f_eq: "?f i = real_of_int ?budget / real_of_int ?scalable * real_of_int (us ! i - 1)" for i by (simp add: exact_extra_def)
  have sum_u: "sum_list (map (\<lambda>i. real_of_int (us ! i - 1)) is) = real_of_int (sum_list (map (\<lambda>i. us ! i) is) - int (length is))" for "is"
    by (induction "is") simp_all
  have "sum_list (map ?f nonempty) = real_of_int ?budget / real_of_int ?scalable * sum_list (map (\<lambda>i. real_of_int (us ! i - 1)) nonempty)"
    unfolding f_eq by (rule sum_list_const_mult)
  also have "\<dots> = real_of_int ?budget" using pos unfolding sum_u tot [symmetric] by simp
  finally have sum_f: "sum_list (map ?f nonempty) = real_of_int ?budget" .
  have f_ok: "\<forall>i \<in> set nonempty. 1 \<le> us ! i \<and> 0 \<le> ?f i \<and> (us ! i = 1 \<longrightarrow> ?f i = 0)"
    using pos mem by (auto simp: f_eq)
  obtain picked where picked: "?picked = picked" by blast
  note lr = largest_remainders [OF dist f_ok sum_f, unfolded picked]
  have drop: "fold (\<lambda>(_, i, _) d. d[i := d ! i + 1]) rs = fold (\<lambda>i d. d[i := d ! i + 1]) (map (\<lambda>(_, i, _). i) rs)"
    for rs :: "remainder list"
    by (induction rs) (auto simp: fun_eq_iff)
  have "0 < ?budget" "0 < ?scalable" using pos by simp_all
  then have d: "d = fold (\<lambda>i d. d[i := d ! i + 1]) picked ?d1"
    unfolding d_def scaled_demands_def Let_def drop picked by (simp only: if_True simp_thms)
  have len: "length ?d1 = length us" using length_fold_change [of "\<lambda>i x. x + \<lfloor>?f i\<rfloor>" nonempty ?ones] length_fold_change [of "\<lambda>i x. 1 :: int" nonempty]
    by simp
  show len_d: "length d = length us" unfolding d using length_fold_change [of "\<lambda>i x. x + 1" picked ?d1] len by simp
  have ones: "?ones ! i = (if i \<in> set nonempty then 1 else 0)" if "i < length us" for i
    using fold_change [OF dist, of "replicate (length us) (0 :: int)" "\<lambda>i x. 1" i] small that by simp
  have d1: "?d1 ! i = (if i \<in> set nonempty then 1 + \<lfloor>?f i\<rfloor> else 0)" if "i < length us" for i
    using fold_change [OF dist, of ?ones "\<lambda>i x. x + \<lfloor>?f i\<rfloor>" i] ones [OF that] small length_fold_change [of "\<lambda>i x. 1 :: int" nonempty] by simp
  have picked_small: "\<forall>i \<in> set picked. i < length ?d1" using lr(3) mem unfolding len by blast
  have dn: "d ! i = ?d1 ! i + (if i \<in> set picked then 1 else 0)" for i
    unfolding d using fold_change [OF lr(2) picked_small, of "\<lambda>i x. x + 1" i] by simp
  have val: "d ! i = (if i \<in> set nonempty then 1 + \<lfloor>?f i\<rfloor> else 0) + (if i \<in> set picked then 1 else 0)" if "i < length us" for i
    unfolding dn d1 [OF that] ..
  have "sum_list d = (\<Sum>i<length us. (if i \<in> set nonempty then 1 + \<lfloor>?f i\<rfloor> else 0) + (if i \<in> set picked then 1 else 0))"
    unfolding sum_list_nth len_d by (rule sum.cong [OF refl]) (simp only: lessThan_iff val)
  also have "\<dots> = sum_list (map (\<lambda>i. 1 + \<lfloor>?f i\<rfloor>) nonempty) + sum_list (map (\<lambda>i. 1) picked)"
    using picked_small unfolding sum.distrib len by (simp only: sum_over_indices [OF dist small] sum_over_indices [OF lr(2)])
  also have "sum_list (map (\<lambda>i. 1 + \<lfloor>?f i\<rfloor>) nonempty) = ?P + sum_list (map (\<lambda>i. \<lfloor>?f i\<rfloor>) nonempty)"
    by (simp add: sum_list_addf sum_list_triv)
  also have "sum_list (map (\<lambda>i. 1 :: int) picked) = ?left" using lr(1,4) by (simp add: sum_list_triv)
  finally show "sum_list d = target" by simp
  show "if us ! i > 0 then 1 \<le> d ! i \<and> d ! i \<le> us ! i else d ! i = 0" if i: "i < length us"
  proof (cases "i \<in> set nonempty")
    case False
    then show ?thesis using val [OF i] lr(3) mem [of i] i by auto
  next
    case True
    have fl: "0 \<le> \<lfloor>?f i\<rfloor>" using f_ok True by simp
    have ratio: "real_of_int ?budget / real_of_int ?scalable < 1" using pos by simp
    have u: "1 \<le> us ! i" using f_ok True by blast
    have "1 + \<lfloor>?f i\<rfloor> + (if i \<in> set picked then 1 else 0) \<le> us ! i"
    proof (cases "us ! i = 1")
      case True
      then have "?f i = 0" "i \<notin> set picked" using lr(3) by (auto simp: f_eq)
      then show ?thesis using True by simp
    next
      case False
      then have "?f i < real_of_int (us ! i - 1)"
        unfolding f_eq using mult_strict_right_mono [OF ratio, of "real_of_int (us ! i - 1)"] u by simp
      then have "\<lfloor>?f i\<rfloor> < us ! i - 1" by (simp add: floor_less_iff)
      then show ?thesis by simp
    qed
    then show ?thesis using val [OF i] True fl u mem [of i] by auto
  qed
qed

section \<open>The model of the demands\<close>

lemma sum_max_nonneg: "sum_list (map (max 0) us) = sum_list (map (\<lambda>i. us ! i) (filter (\<lambda>i. us ! i > 0) [0..<length us]))"
  for us :: "int list"
proof -
  have dist: "distinct (filter (\<lambda>i. us ! i > 0) [0..<length us])" and small: "\<forall>i \<in> set (filter (\<lambda>i. us ! i > 0) [0..<length us]). i < length us"
    by auto
  have "sum_list (map (max 0) us) = (\<Sum>i<length us. if i \<in> set (filter (\<lambda>i. us ! i > 0) [0..<length us]) then us ! i else 0)"
    unfolding sum_list_nth by (intro sum.cong) auto
  then show ?thesis unfolding sum_over_indices [OF dist small] .
qed

lemma foldl_max_ge:
  fixes xs :: "int list"
  shows "a \<le> foldl max a xs" "x \<in> set xs \<Longrightarrow> x \<le> foldl max a xs"
proof -
  have ge: "a \<le> foldl max a xs" for a and xs :: "int list"
  proof (induction xs arbitrary: a)
    case (Cons y ys)
    show ?case using Cons.IH [of "max a y"] by simp
  qed simp
  then show "a \<le> foldl max a xs" .
  show "x \<in> set xs \<Longrightarrow> x \<le> foldl max a xs"
  proof (induction xs arbitrary: a)
    case (Cons y ys)
    then show ?case using ge [of "max a y" ys] by (cases "x = y") (auto intro: order.trans)
  qed simp
qed

lemma demand_model_ok:
  fixes us :: "int list"
  assumes us: "\<forall>u \<in> set us. 0 \<le> u"
  defines "m \<equiv> buildAllocationDemandModel us" and "P \<equiv> int (length (filter (\<lambda>u. u > 0) us))"
  shows "length (dm_demands m) = length us" "dm_total_demand m = sum_list (dm_demands m)"
    "sum_list (dm_demands m) = min (sum_list us) (max 256 (8 * P))"
    "i < length us \<Longrightarrow> if us ! i > 0 then 1 \<le> dm_demands m ! i \<and> dm_demands m ! i \<le> us ! i else dm_demands m ! i = 0"
    "i < length us \<Longrightarrow> dm_demands m ! i \<le> dm_max_demand m"
proof -
  let ?ne = "filter (\<lambda>i. us ! i > 0) [0..<length us]"
  have tot: "sum_list (map (max 0) us) = sum_list us" using us by (intro arg_cong [of _ _ sum_list] map_idI) auto
  have "length (filter (\<lambda>u. u > 0) (map (\<lambda>i. us ! i) [0..<length us])) = length ?ne" by (simp add: filter_map comp_def)
  then have P: "P = int (length ?ne)" by (simp add: P_def map_nth)
  have us_i: "0 \<le> us ! i" if "i < length us" for i using us that by simp
  let ?t = "min (sum_list us) (max 256 (int (length ?ne) * 8))"
  let ?goal = "length (dm_demands m) = length us \<and> dm_total_demand m = sum_list (dm_demands m) \<and>
    sum_list (dm_demands m) = ?t \<and>
    (\<forall>i < length us. (if us ! i > 0 then 1 \<le> dm_demands m ! i \<and> dm_demands m ! i \<le> us ! i else dm_demands m ! i = 0)) \<and>
    (\<forall>i < length us. dm_demands m ! i \<le> dm_max_demand m)"
  have ?goal
  proof (cases "sum_list us \<le> 0 \<or> ?ne = []")
    case True
    have pos: "0 \<le> sum_list us" using us by (intro sum_list_nonneg) auto
    have zero: "sum_list us = 0"
    proof (cases "?ne = []")
      case True
      then show ?thesis using sum_max_nonneg [of us] by (simp only: tot) simp
    next
      case False
      then show ?thesis using \<open>sum_list us \<le> 0 \<or> ?ne = []\<close> pos by simp
    qed
    have "us ! i = 0" if "i < length us" for i
      using zero us that by (simp add: sum_list_nonneg_eq_0_iff)
    moreover have "sum_list (replicate (length us) (0 :: int)) = 0" by (simp only: sum_list_replicate)
    ultimately show ?thesis using True zero by (simp add: m_def buildAllocationDemandModel_def tot)
  next
    case False
    let ?d = "if ?t < sum_list us then scaled_demands us ?ne ?t (sum_list us) else us"
    have dm: "dm_demands m = ?d" "dm_total_demand m = sum_list ?d" "dm_max_demand m = foldl max 0 ?d"
      using False unfolding m_def buildAllocationDemandModel_def Let_def tot by (simp_all only: if_False AllocationDemandModel.simps)
    have d: "length ?d = length us \<and> sum_list ?d = ?t \<and>
      (\<forall>i < length us. (if us ! i > 0 then 1 \<le> ?d ! i \<and> ?d ! i \<le> us ! i else ?d ! i = 0))"
    proof (cases "?t < sum_list us")
      case True
      have "int (length ?ne) < ?t" using False True by (cases "?ne") auto
      note sc = scaled_demands_ok [OF refl _ sum_max_nonneg [of us, unfolded tot] this True]
      show ?thesis using sc False True by (simp only: if_True) blast
    next
      case False
      then have "?t = sum_list us" by simp
      then show ?thesis using False us_i by (simp only: if_False) (auto intro: antisym)
    qed
    moreover have "?d ! i \<le> foldl max 0 ?d" if "i < length us" for i
    proof -
      have "?d ! i \<in> set ?d" using d that by (metis nth_mem)
      then show ?thesis by (rule foldl_max_ge(2))
    qed
    ultimately show ?thesis unfolding dm by blast
  qed
  then show "length (dm_demands m) = length us" "dm_total_demand m = sum_list (dm_demands m)"
    "sum_list (dm_demands m) = min (sum_list us) (max 256 (8 * P))"
    "i < length us \<Longrightarrow> if us ! i > 0 then 1 \<le> dm_demands m ! i \<and> dm_demands m ! i \<le> us ! i else dm_demands m ! i = 0"
    "i < length us \<Longrightarrow> dm_demands m ! i \<le> dm_max_demand m"
    unfolding P by (simp_all add: mult.commute)
qed

lemma route_capacity_ok:
  assumes "0 < n"
  shows "dm_max_demand m \<le> route_capacity m n" "dm_total_demand m \<le> n * route_capacity m n" "1 \<le> route_capacity m n"
proof -
  let ?avg = "real_of_int (dm_total_demand m) / real_of_int n"
  have "?avg \<le> real_of_int \<lceil>?avg\<rceil>" by simp
  then have "real_of_int (dm_total_demand m) \<le> real_of_int n * real_of_int \<lceil>?avg\<rceil>"
    using assms by (metis mult.commute of_int_0_less_iff pos_divide_le_eq)
  then have "dm_total_demand m \<le> n * \<lceil>?avg\<rceil>" by (simp only: of_int_mult [symmetric] of_int_le_iff)
  also have "\<dots> \<le> n * route_capacity m n" using assms by (intro mult_left_mono) (simp_all add: route_capacity_def)
  finally show "dm_total_demand m \<le> n * route_capacity m n" .
  show "dm_max_demand m \<le> route_capacity m n" "1 \<le> route_capacity m n" by (simp_all add: route_capacity_def)
qed

end
