(* ===== verification/Tour_Claims.thy ===== *)
theory Tour_Claims imports Tour_Demand Grid_Claims Expl_Claims
begin

text \<open>The properties of the allocation of cells.\<close>

section \<open>Every cell is assigned once\<close>

definition complete_routes :: "nat \<Rightarrow> route list \<Rightarrow> bool" where
  "complete_routes m routes \<longleftrightarrow> mset (route_cells routes) = mset [0..<m]"

text \<open>The answer of a solver: the file of a tour in which each cell is on one route.\<close>

definition tour_answer :: "nat \<Rightarrow> nat \<Rightarrow> (route list \<Rightarrow> bool) \<Rightarrow> string list option \<Rightarrow> bool" where
  "tour_answer n m shape answer \<longleftrightarrow> (\<exists>header routes rest. answer = Some (tour_file header n routes rest) \<and>
     ''TOUR_SECTION'' \<notin> set header \<and> routes_ok n m routes \<and> complete_routes m routes \<and> shape routes)"

lemma mset_nth_cells: "mset ks = mset [0..<length xs] \<Longrightarrow> image_mset (\<lambda>k. xs ! k) (mset ks) = mset xs"
  by (metis map_nth mset_map)

lemma length_getCostMatrix:
  "length (getCostMatrix path_len uninit h positions velocities firsts seconds grid_ids) = 1 + length positions + length grid_ids"
  by (simp add: getCostMatrix_def)

text \<open>The ways of an allocation of valid inputs.\<close>

lemma allocateGrids_cases:
  assumes "positions \<noteq> []" "length velocities = length positions" "length drone_ids = length positions"
  shows "\<exists>cost acvrp prob problem par.
    allocateGrids path_len uninit solve pp h positions velocities drone_ids first_ids second_ids grid_ids =
      (if grid_ids = [] then Some (replicate (length positions) [])
       else if length grid_ids = 1 \<or> length positions > 1 \<and> length grid_ids < 3
       then Some (foldl (assignGridByBestCost cost drone_ids) (replicate (length positions) []) grid_ids)
       else (case solve acvrp prob problem par of None \<Rightarrow> Some (replicate (length positions) [])
             | Some tour \<Rightarrow> map_option (\<lambda>ids. foldl (assign_route grid_ids) (replicate (length positions) [])
                 (parse_routes (int (length positions)) (1 + int (length positions) + int (length grid_ids)) ids)) (read_tour tour)))"
proof -
  let ?n = "length positions"
  let ?nothing = "replicate ?n [] :: int list list"
  let ?cost = "\<lambda>grid_id i. getCostDroneToGrid path_len h (positions ! i) (velocities ! i) grid_id (hints first_ids ?n ! i)"
  let ?mat = "getCostMatrix path_len uninit h positions velocities (hints first_ids ?n) (hints second_ids ?n) grid_ids"
  let ?m = "buildAllocationDemandModel (map (\<lambda>g. max 0 (getUnknownCellsNum h g)) grid_ids)"
  let ?disp = "selectAllocationSolverDispatch (int ?n)"
  let ?answer = "solve (use_acvrp_client ?disp) (request_prob ?disp)
      (allocation_problem ?disp (length ?mat) (route_capacity ?m (int ?n)) ?n (dm_demands ?m) ?mat)
      (allocation_par ?disp (tour_prefix (pp_mtsp_dir pp) (file_stem ?disp) (pp_drone_id pp)) ?n)"
  have input: "\<not> (positions = [] \<or> length velocities \<noteq> ?n \<or> length drone_ids \<noteq> ?n)" using assms by simp
  have dim: "int (length ?mat) = 1 + int ?n + int (length grid_ids)" by (simp add: length_getCostMatrix)
  have alloc: "allocateGrids path_len uninit solve pp h positions velocities drone_ids first_ids second_ids grid_ids =
      (if grid_ids = [] then Some ?nothing
       else if length grid_ids = 1 then Some (assignGridByBestCost ?cost drone_ids ?nothing (hd grid_ids))
       else if ?n > 1 \<and> length grid_ids < 3 then Some (foldl (assignGridByBestCost ?cost drone_ids) ?nothing grid_ids)
       else (case ?answer of None \<Rightarrow> Some ?nothing
             | Some tour \<Rightarrow> map_option (\<lambda>ids. foldl (assign_route grid_ids) ?nothing
                 (parse_routes (int ?n) (1 + int ?n + int (length grid_ids)) ids)) (read_tour tour)))"
    unfolding allocateGrids_def Let_def if_not_P [OF input] dim ..
  have one: "assignGridByBestCost ?cost drone_ids ?nothing (hd grid_ids) = foldl (assignGridByBestCost ?cost drone_ids) ?nothing grid_ids"
    if "length grid_ids = 1" using that by (cases grid_ids) auto
  show ?thesis
    by (intro exI [of _ ?cost] exI [of _ "use_acvrp_client ?disp"] exI [of _ "request_prob ?disp"] exI, unfold alloc)
      (rule if_cong [OF refl refl], cases "length grid_ids = 1", simp_all only: one if_True if_False simp_thms)
qed

text \<open>C12: With a solver that answers a tour through all nodes in which every route starts at a drone,
  \<open>allocateGrids\<close> gives every requested cell to exactly one drone, for one cell and for few cells, which
  it assigns itself, as well as for many.\<close>

theorem allocation_is_partition:
  assumes "positions \<noteq> []" "length velocities = length positions" "length drone_ids = length positions"
    and "\<forall>acvrp prob problem par. tour_answer (length positions) (length grid_ids) (\<lambda>_. True) (solve acvrp prob problem par)"
  shows "\<exists>assigned. allocateGrids path_len uninit solve pp h positions velocities drone_ids first_ids second_ids grid_ids = Some assigned \<and>
    length assigned = length positions \<and> mset (concat assigned) = mset grid_ids"
proof -
  let ?n = "length positions" and ?m = "length grid_ids"
  let ?nothing = "replicate ?n [] :: int list list"
  obtain cost acvrp prob problem par where alloc:
    "allocateGrids path_len uninit solve pp h positions velocities drone_ids first_ids second_ids grid_ids =
      (if grid_ids = [] then Some ?nothing
       else if ?m = 1 \<or> ?n > 1 \<and> ?m < 3 then Some (foldl (assignGridByBestCost cost drone_ids) ?nothing grid_ids)
       else (case solve acvrp prob problem par of None \<Rightarrow> Some ?nothing
             | Some tour \<Rightarrow> map_option (\<lambda>ids. foldl (assign_route grid_ids) ?nothing
                 (parse_routes (int ?n) (1 + int ?n + int ?m) ids)) (read_tour tour)))"
    using allocateGrids_cases [where path_len = path_len and uninit = uninit and solve = solve and pp = pp and h = h and first_ids = first_ids and
          second_ids = second_ids and grid_ids = grid_ids, OF assms(1,2,3)]
    by (elim exE) (rule that)
  have "tour_answer ?n ?m (\<lambda>_. True) (solve acvrp prob problem par)" using assms(4) by blast
  then obtain header routes rest where r: "solve acvrp prob problem par = Some (tour_file header ?n routes rest)"
      "''TOUR_SECTION'' \<notin> set header" "routes_ok ?n ?m routes" "complete_routes ?m routes"
    unfolding tour_answer_def by (elim exE conjE) (rule that)
  have rs: "list_all (route_ok ?n ?m) routes" using r(3) by (simp add: routes_ok_def)
  have len: "length ?nothing = ?n" "length ?nothing \<noteq> 0" using assms(1) by simp_all
  have "allocateGrids path_len uninit solve pp h positions velocities drone_ids first_ids second_ids grid_ids =
      (if grid_ids = [] then Some ?nothing
       else if ?m = 1 \<or> ?n > 1 \<and> ?m < 3 then Some (foldl (assignGridByBestCost cost drone_ids) ?nothing grid_ids)
       else Some (foldl (assign_route grid_ids) ?nothing (map (route_nodes ?n) routes)))"
    unfolding alloc r(1) option.case read_tour_file [OF r(3,2)] option.map parse_routes_tour [OF rs] ..
  then show ?thesis
    using assign_best_fold [OF len(2), of cost drone_ids grid_ids] assign_routes_ok [OF rs len(1) refl] r(4)
      mset_nth_cells [of "route_cells routes" grid_ids]
    by (simp add: complete_routes_def)
qed

text \<open>The witness gives all cells to the first drone.\<close>

definition all_to_first :: "nat \<Rightarrow> nat \<Rightarrow> string list" where
  "all_to_first n m = tour_file [''NAME : pairopt''] n [(0, [0..<m], [])] [''EOF'']"

lemma all_to_first_answer:
  assumes "0 < n" "1 + n + m < 2 ^ 31"
  shows "tour_answer n m single_depots (Some (all_to_first n m))"
proof -
  have "routes_ok n m [(0, [0..<m], [])]" using assms by (auto simp: routes_ok_def route_ok_def fits_int_def)
  moreover have "complete_routes m [(0, [0..<m], [])]" by (simp add: complete_routes_def route_cells_def)
  moreover have "single_depots [(0, [0..<m], [])]" by (simp add: single_depots_def)
  moreover have "''TOUR_SECTION'' \<notin> set [''NAME : pairopt'']" by simp
  ultimately show ?thesis unfolding tour_answer_def all_to_first_def by blast
qed

lemma tour_answer_weaken: "tour_answer n m P answer \<Longrightarrow> tour_answer n m (\<lambda>_. True) answer"
  by (auto simp: tour_answer_def)

lemma allocation_is_partition_witness:
  "\<exists>assigned. allocateGrids (\<lambda>_ _. None) False (\<lambda>_ _ _ _. Some (all_to_first 2 4)) \<lparr>pp_drone_id = 1, pp_mtsp_dir = ''d''\<rparr>
     (make_hgrid 1 small_partition) [(0, 0, 0), (1, 0, 0)] [(0, 0, 0), (0, 0, 0)] [1, 2] [] [] [2, 3, 4, 5] = Some assigned \<and>
     length assigned = 2 \<and> mset (concat assigned) = {#2, 3, 4, 5#}"
proof -
  have "tour_answer 2 4 (\<lambda>_. True) (Some (all_to_first 2 4))" by (rule tour_answer_weaken [OF all_to_first_answer]) simp_all
  then show ?thesis
    using allocation_is_partition [of "[(0, 0, 0), (1, 0, 0)]" "[(0, 0, 0), (0, 0, 0)]" "[1, 2]" "[2, 3, 4, 5]"
        "\<lambda>_ _ _ _. Some (all_to_first 2 4)"] by (simp add: eval_nat_numeral)
qed

text \<open>Whatever the solver answers, the parsers use a node at most once for each time it is listed.\<close>

lemma parse_routes_cells:
  "mset (concat (map tl (parse_routes n D ids))) \<subseteq># mset (filter (\<lambda>i. n < i \<and> i < D) ids)"
proof -
  have "mset (concat (map tl (closed (foldl (route_step n D) acc ids)))) \<subseteq>#
      mset (concat (map tl (closed acc))) + mset (filter (\<lambda>i. n < i \<and> i < D) ids)" for acc
  proof (induction ids arbitrary: acc)
    case (Cons i ids)
    let ?F = "\<lambda>is. mset (filter (\<lambda>i. n < i \<and> i < D) is)"
    have step: "mset (concat (map tl (closed (route_step n D acc i)))) \<subseteq># mset (concat (map tl (closed acc))) + ?F [i]"
      by (cases acc) (auto simp: route_step_def closed_def)
    have "mset (concat (map tl (closed (foldl (route_step n D) acc (i # ids))))) \<subseteq>#
        mset (concat (map tl (closed (route_step n D acc i)))) + ?F ids"
      using Cons.IH [of "route_step n D acc i"] by simp
    also have "\<dots> \<subseteq># mset (concat (map tl (closed acc))) + ?F [i] + ?F ids"
      by (rule mset_subset_eq_mono_add [OF step subset_mset.order_refl])
    also have "\<dots> = mset (concat (map tl (closed acc))) + ?F (i # ids)" by simp
    finally show ?case .
  qed simp
  moreover have "parse_routes n D ids = closed (foldl (route_step n D) ([], []) ids)"
    by (simp add: parse_routes_def closed_def split: prod.splits)
  moreover have "mset (concat (map tl (closed ([], [])))) = {#}" by (simp add: closed_def)
  ultimately show ?thesis by (metis add_0)
qed

lemma assign_route_any:
  assumes "length assigned = n"
  shows "length (assign_route grid_ids assigned tour) = n"
    "mset (concat (assign_route grid_ids assigned tour)) \<subseteq># mset (concat assigned) +
       mset (map (\<lambda>i. grid_ids ! nat (i - 1 - int n)) (filter (\<lambda>i. int n < i \<and> i \<le> int n + int (length grid_ids)) (tl tour)))"
proof -
  show "length (assign_route grid_ids assigned tour) = n" using assms by (simp add: assign_route_def Let_def split: list.splits)
  show "mset (concat (assign_route grid_ids assigned tour)) \<subseteq># mset (concat assigned) +
       mset (map (\<lambda>i. grid_ids ! nat (i - 1 - int n)) (filter (\<lambda>i. int n < i \<and> i \<le> int n + int (length grid_ids)) (tl tour)))"
  proof (cases tour)
    case (Cons d nodes)
    have "(\<not> (i - 1 - int n < 0 \<or> i - 1 - int n \<ge> int (length grid_ids))) \<longleftrightarrow> int n < i \<and> i \<le> int n + int (length grid_ids)" for i
      by auto
    then have sel: "map (\<lambda>k. grid_ids ! nat k) (filter (\<lambda>k. \<not> (k < 0 \<or> k \<ge> int (length grid_ids))) (map (\<lambda>i. i - 1 - int n) nodes)) =
        map (\<lambda>i. grid_ids ! nat (i - 1 - int n)) (filter (\<lambda>i. int n < i \<and> i \<le> int n + int (length grid_ids)) nodes)"
      by (simp add: filter_map comp_def)
    show ?thesis
    proof (cases "d - 1 < 0 \<or> d - 1 \<ge> int n")
      case True
      then show ?thesis using assms Cons by (simp add: assign_route_def Let_def)
    next
      case False
      then have "nat (d - 1) < length assigned" using assms by (simp add: nat_less_iff)
      then show ?thesis
        using False Cons assms sel mset_concat_update [of "nat (d - 1)" assigned] by (simp add: assign_route_def Let_def)
    qed
  qed (simp add: assign_route_def)
qed

lemma assign_routes_any:
  assumes "length assigned = n"
  shows "length (foldl (assign_route grid_ids) assigned tours) = n \<and>
    mset (concat (foldl (assign_route grid_ids) assigned tours)) \<subseteq># mset (concat assigned) +
      image_mset (\<lambda>i. grid_ids ! nat (i - 1 - int n))
        (filter_mset (\<lambda>i. int n < i \<and> i \<le> int n + int (length grid_ids)) (mset (concat (map tl tours))))"
  using assms
proof (induction tours arbitrary: assigned)
  case (Cons t ts)
  let ?F = "\<lambda>ts. image_mset (\<lambda>i. grid_ids ! nat (i - 1 - int n))
      (filter_mset (\<lambda>i. int n < i \<and> i \<le> int n + int (length grid_ids)) (mset (concat (map tl ts))))"
  note a = assign_route_any [OF Cons.prems, of grid_ids t]
  have step: "mset (concat (assign_route grid_ids assigned t)) \<subseteq># mset (concat assigned) + ?F [t]" using a(2) by simp
  have "mset (concat (foldl (assign_route grid_ids) assigned (t # ts))) \<subseteq># mset (concat (assign_route grid_ids assigned t)) + ?F ts"
    using Cons.IH [OF a(1)] by simp
  also have "\<dots> \<subseteq># mset (concat assigned) + ?F [t] + ?F ts" by (rule mset_subset_eq_mono_add [OF step subset_mset.order_refl])
  also have "\<dots> = mset (concat assigned) + ?F (t # ts)" by simp
  finally show ?case using Cons.IH [OF a(1)] by simp
qed simp

lemma distinct_submset: "mset xs \<subseteq># mset ys \<Longrightarrow> distinct ys \<Longrightarrow> distinct xs \<and> set xs \<subseteq> set ys"
proof
  assume sub: "mset xs \<subseteq># mset ys" and dist: "distinct ys"
  show set: "set xs \<subseteq> set ys" using set_mset_mono [OF sub] by simp
  have "count (mset xs) a = (if a \<in> set xs then 1 else 0)" for a
  proof (cases "a \<in> set xs")
    case True
    then have "1 \<le> count (mset xs) a" by (simp add: Suc_le_eq count_greater_zero_iff)
    moreover have "count (mset xs) a \<le> count (mset ys) a" by (rule mset_subset_eq_count [OF sub])
    moreover have "count (mset ys) a = 1" using dist True set by (auto simp: distinct_count_atmost_1)
    ultimately show ?thesis using True by (simp only: if_True)
  next
    case False
    then show ?thesis by (simp add: count_eq_zero_iff)
  qed
  then show "distinct xs" by (simp add: distinct_count_atmost_1)
qed

lemma distinct_msubset: "distinct xs \<Longrightarrow> set xs \<subseteq> set ys \<Longrightarrow> mset xs \<subseteq># mset ys"
proof (rule mset_subset_eqI)
  fix a
  assume "distinct xs" "set xs \<subseteq> set ys"
  then have "count (mset xs) a = (if a \<in> set xs then 1 else 0)" by (simp add: distinct_count_atmost_1)
  moreover have "a \<in> set xs \<Longrightarrow> 1 \<le> count (mset ys) a" using \<open>set xs \<subseteq> set ys\<close> by (auto simp: Suc_le_eq count_greater_zero_iff)
  ultimately show "count (mset xs) a \<le> count (mset ys) a" by simp
qed

text \<open>C14: Whatever the solver answers: if it lists no node of a cell twice and the allocation returns, no cell is
  given to two drones or twice to one, and only requested cells are given.\<close>

theorem allocation_never_shares:
  assumes "distinct grid_ids" "drone_num = length positions"
    and "\<forall>acvrp prob problem par tour ids. solve acvrp prob problem par = Some tour \<longrightarrow> read_tour tour = Some ids \<longrightarrow>
      distinct (filter (\<lambda>i. int drone_num < i \<and> i \<le> int drone_num + int (length grid_ids)) ids)"
    and "allocateGrids path_len uninit solve pp h positions velocities drone_ids first_ids second_ids grid_ids = Some assigned"
  shows "distinct (concat assigned) \<and> set (concat assigned) \<subseteq> set grid_ids"
proof (cases "positions = [] \<or> length velocities \<noteq> length positions \<or> length drone_ids \<noteq> length positions")
  case True
  then show ?thesis using assms(4) by (simp add: allocateGrids_def)
next
  case False
  then have inputs: "positions \<noteq> []" "length velocities = length positions" "length drone_ids = length positions" by simp_all
  let ?n = "length positions" and ?m = "length grid_ids"
  let ?nothing = "replicate ?n [] :: int list list"
  obtain cost acvrp prob problem par where alloc:
    "allocateGrids path_len uninit solve pp h positions velocities drone_ids first_ids second_ids grid_ids =
      (if grid_ids = [] then Some ?nothing
       else if ?m = 1 \<or> ?n > 1 \<and> ?m < 3 then Some (foldl (assignGridByBestCost cost drone_ids) ?nothing grid_ids)
       else (case solve acvrp prob problem par of None \<Rightarrow> Some ?nothing
             | Some tour \<Rightarrow> map_option (\<lambda>ids. foldl (assign_route grid_ids) ?nothing
                 (parse_routes (int ?n) (1 + int ?n + int ?m) ids)) (read_tour tour)))"
    using allocateGrids_cases [where path_len = path_len and uninit = uninit and solve = solve and pp = pp and h = h and first_ids = first_ids and
          second_ids = second_ids and grid_ids = grid_ids, OF inputs]
    by (elim exE) (rule that)
  have len: "length ?nothing = ?n" "length ?nothing \<noteq> 0" using False by simp_all
  have "mset (concat assigned) \<subseteq># mset grid_ids"
  proof (cases "\<exists>tour ids. solve acvrp prob problem par = Some tour \<and> read_tour tour = Some ids \<and> assigned =
      foldl (assign_route grid_ids) ?nothing (parse_routes (int ?n) (1 + int ?n + int ?m) ids)")
    case False
    then have "assigned = ?nothing \<or> assigned = foldl (assignGridByBestCost cost drone_ids) ?nothing grid_ids"
      using assms(4) unfolding alloc by (auto split: if_splits option.splits)
    then show ?thesis using assign_best_fold [OF len(2), of cost drone_ids grid_ids] by auto
  next
    case True
    then obtain tour ids where t: "solve acvrp prob problem par = Some tour" "read_tour tour = Some ids" and
      a: "assigned = foldl (assign_route grid_ids) ?nothing (parse_routes (int ?n) (1 + int ?n + int ?m) ids)" by blast
    let ?in = "\<lambda>i. int ?n < i \<and> i \<le> int ?n + int ?m"
    let ?L = "filter ?in ids"
    have dist: "distinct ?L" using assms(2,3) t by blast
    have in_range: "(int ?n < i \<and> i < 1 + int ?n + int ?m) = ?in i" for i by auto
    have "mset (concat assigned) \<subseteq># image_mset (\<lambda>i. grid_ids ! nat (i - 1 - int ?n))
        (filter_mset ?in (mset (concat (map tl (parse_routes (int ?n) (1 + int ?n + int ?m) ids)))))"
      using assign_routes_any [OF len(1), of grid_ids] unfolding a by simp
    also have "\<dots> \<subseteq># image_mset (\<lambda>i. grid_ids ! nat (i - 1 - int ?n)) (filter_mset ?in (mset ?L))"
      using parse_routes_cells [of "int ?n" "1 + int ?n + int ?m" ids]
      by (intro image_mset_subseteq_mono multiset_filter_mono) (simp only: in_range)
    also have "\<dots> = image_mset (\<lambda>k. grid_ids ! k) (mset (map (\<lambda>i. nat (i - 1 - int ?n)) ?L))"
      by (simp add: multiset.map_comp comp_def filter_filter_mset)
    also have "\<dots> \<subseteq># image_mset (\<lambda>k. grid_ids ! k) (mset [0..<?m])"
    proof (rule image_mset_subseteq_mono)
      have "distinct (map (\<lambda>i. nat (i - 1 - int ?n)) ?L)" using dist by (auto simp: distinct_map inj_on_def)
      moreover have "set (map (\<lambda>i. nat (i - 1 - int ?n)) ?L) \<subseteq> set [0..<?m]" by auto
      ultimately show "mset (map (\<lambda>i. nat (i - 1 - int ?n)) ?L) \<subseteq># mset [0..<?m]"
        by (rule distinct_msubset)
    qed
    also have "\<dots> = mset grid_ids" by (simp only: mset_map [symmetric] map_nth)
    finally show ?thesis .
  qed
  then show ?thesis using distinct_submset assms(1) by blast
qed

lemma allocation_never_shares_witness:
  "\<exists>assigned. allocateGrids (\<lambda>_ _. None) False (\<lambda>_ _ _ _. Some [''TOUR_SECTION'', ''1'', ''3'', ''6'', ''2'', ''4'', ''5'', ''7'', ''-1''])
     \<lparr>pp_drone_id = 1, pp_mtsp_dir = ''d''\<rparr> (make_hgrid 1 small_partition) [(0, 0, 0), (1, 0, 0)] [(0, 0, 0), (0, 0, 0)] [1, 2]
     [] [] [2, 3, 4, 5] = Some assigned \<and> distinct (concat assigned) \<and> set (concat assigned) \<subseteq> {2, 3, 4, 5}"
proof -
  let ?tour = "[''TOUR_SECTION'', ''1'', ''3'', ''6'', ''2'', ''4'', ''5'', ''7'', ''-1'']"
  have read: "read_tour ?tour = Some [0, 2, 5, 1, 3, 4, 6, -2]" by code_simp
  have "\<exists>assigned. allocateGrids (\<lambda>_ _. None) False (\<lambda>_ _ _ _. Some ?tour) \<lparr>pp_drone_id = 1, pp_mtsp_dir = ''d''\<rparr>
      (make_hgrid 1 small_partition) [(0, 0, 0), (1, 0, 0)] [(0, 0, 0), (0, 0, 0)] [1, 2] [] [] [2, 3, 4, 5] = Some assigned"
    using allocateGrids_cases [of "[(0, 0, 0), (1, 0, 0)]" "[(0, 0, 0), (0, 0, 0)]" "[1, 2]" "\<lambda>_ _. None" False
        "\<lambda>_ _ _ _. Some ?tour" "\<lparr>pp_drone_id = 1, pp_mtsp_dir = ''d''\<rparr>" "make_hgrid 1 small_partition" "[]" "[]" "[2, 3, 4, 5]"]
      read by auto
  then obtain assigned where a: "allocateGrids (\<lambda>_ _. None) False (\<lambda>_ _ _ _. Some ?tour) \<lparr>pp_drone_id = 1, pp_mtsp_dir = ''d''\<rparr>
      (make_hgrid 1 small_partition) [(0, 0, 0), (1, 0, 0)] [(0, 0, 0), (0, 0, 0)] [1, 2] [] [] [2, 3, 4, 5] = Some assigned" by blast
  have "distinct (concat assigned) \<and> set (concat assigned) \<subseteq> set [2, 3, 4, 5]"
    by (rule allocation_never_shares [OF _ refl _ a]) (use read in \<open>auto simp: less_Suc_eq\<close>)
  then show ?thesis using a by auto
qed

section \<open>Demands\<close>

text \<open>C15: The demands of cells with counts of unknown voxels: a cell without unknown voxels has none, every
  other has at least one and at most its count; their sum is the total count, or the budget where that is
  less; no demand exceeds the capacity of a route, and the routes of all drones together can take them.\<close>

theorem demands_exact:
  assumes "\<forall>u \<in> set us. 0 \<le> u" "0 < drone_num"
  shows "let m = buildAllocationDemandModel us; d = dm_demands m; capacity = route_capacity m drone_num
    in length d = length us \<and>
      (\<forall>i < length us. (if us ! i > 0 then 1 \<le> d ! i \<and> d ! i \<le> us ! i else d ! i = 0) \<and> d ! i \<le> capacity) \<and>
      sum_list d = min (sum_list us) (max 256 (8 * int (length (filter (\<lambda>u. u > 0) us)))) \<and>
      sum_list d \<le> drone_num * capacity"
proof -
  note d = demand_model_ok [OF assms(1)] and c = route_capacity_ok [OF assms(2), of "buildAllocationDemandModel us"]
  have "dm_demands (buildAllocationDemandModel us) ! i \<le> route_capacity (buildAllocationDemandModel us) drone_num"
    if "i < length us" for i
    using d(5) [OF that] c(1) by (rule order.trans)
  then show ?thesis unfolding Let_def using d(1,3,4) c(2) [unfolded d(2)] by blast
qed

lemma demands_exact_witness:
  "sum_list (dm_demands (buildAllocationDemandModel [400, 0, 200])) = 256 \<and>
   1 \<le> dm_demands (buildAllocationDemandModel [400, 0, 200]) ! 0"
  using demands_exact [of "[400, 0, 200]" 2] by (auto simp: Let_def)

section \<open>The global tour\<close>

lemma mset_concat_append: "mset (concat (map (\<lambda>d. f d @ g d) xs)) = mset (concat (map f xs)) + mset (concat (map g xs))"
  by (induction xs) simp_all

lemma mset_cells_of:
  assumes "list_all (route_ok n m) routes"
  shows "mset (concat (map (cells_of routes) [0..<n])) = mset (route_cells routes)"
  using assms
proof (induction routes)
  case Nil
  have "concat (map (\<lambda>d. []) xs) = []" for xs :: "nat list" by (induction xs) simp_all
  then show ?case by (simp add: cells_of_def route_cells_def)
next
  case (Cons r rs)
  obtain d' ks es where r: "r = (d', ks, es)" by (metis prod.collapse)
  have d': "d' < n" using Cons.prems by (simp add: route_ok_def r)
  have "mset (concat (map (\<lambda>d. if d' = d then ks else []) [0..<k])) = (if d' < k then mset ks else {#})" for k
    by (induction k) auto
  moreover have "cells_of (r # rs) = (\<lambda>d. (if d' = d then ks else []) @ cells_of rs d)" by (auto simp: cells_of_def r)
  ultimately show ?case using Cons d' by (simp add: mset_concat_append route_cells_def r)
qed

text \<open>What a solver answers to the problem file of a global tour over \<open>n\<close> drones.\<close>

definition solves_tours :: "solver \<Rightarrow> nat \<Rightarrow> bool" where
  "solves_tours solve n \<longleftrightarrow> (\<forall>m mat par. 1 + n + m < 2 ^ 31 \<longrightarrow>
     tour_answer n m single_depots
       (solve False 2 (atsp_file ''amtsp'' ''ATSP'' (1 + n + m) [] (\<lambda>x. to_int_trunc (100 * x)) mat) par))"

text \<open>The number of cells of both levels.\<close>

definition cells_num :: "HGrid \<Rightarrow> nat" where
  "cells_num h = length (grid_data (grid1 h)) + length (grid_data (grid2 h))"

lemma length_getActiveGrids: "length (getActiveGrids h) \<le> cells_num h"
proof -
  have "length (active_ids g) \<le> length (grid_data g)" for g
    using length_filter_le [of "\<lambda>i. active (grid_data g ! nat i) \<and> is_cur_relevant (grid_data g ! nat i)" "[0..int (length (grid_data g)) - 1]"]
    by (simp add: active_ids_def)
  from this [of "grid1 h"] this [of "grid2 h"] show ?thesis by (simp add: getActiveGrids_def cells_num_def)
qed

lemma cells_num_update:
  assumes "partition_ok h" "hg_updateGridData p drone_id ids last_ids consistent (hg_inputFrontiers avgs nums h, d, mm) = ((h', d', mm'), ids', consistent')"
  shows "cells_num h' = cells_num h"
proof -
  let ?h = "hg_inputFrontiers avgs nums h"
  have k: "keeps_flags (grid1 h) (grid1 ?h)" "keeps_flags (grid2 h) (grid2 ?h)"
    by (simp_all add: hg_inputFrontiers_def inputFrontiers_keeps)
  note e = hg_update_effect [OF partition_keeps [OF assms(1) k] assms(2)]
  have "length (grid_data g') = length (grid_data g)" if "\<And>i. grid_cell g' i \<longleftrightarrow> grid_cell g i" for g g'
    using that [of "int (length (grid_data g))"] that [of "int (length (grid_data g'))"] by (simp add: grid_cell_def)
  then show ?thesis using e(3,4) keeps_flags_simps(1) [OF k(1)] keeps_flags_simps(1) [OF k(2)] by (metis cells_num_def)
qed

text \<open>The ways of the global tour for valid inputs, by the cells it plans with.\<close>

lemma findGlobalTourOfGrid_cases:
  assumes "positions \<noteq> []" "length velocities = length positions" "length drone_ids = length positions"
    and "partition_ok (pl_grid s0)"
  obtains actives s1 mat par path_tour where
    "actives = not_released s0 (getActiveGrids (pl_grid s1))" "pl_fsm s1 = pl_fsm s0" "cells_num (pl_grid s1) = cells_num (pl_grid s0)"
    "findGlobalTourOfGrid path_len path uninit solve p pp positions velocities drone_ids init s0 =
      (if actives = [] then Some (False, [], [], s1\<lparr>pl_grid_tour := [], pl_grid_tour2 := []\<rparr>)
       else (case solve False 2 (atsp_file ''amtsp'' ''ATSP'' (1 + length positions + length actives) []
           (\<lambda>x. to_int_trunc (100 * x)) mat) par of None \<Rightarrow> Some (False, [], [], s1)
         | Some tour \<Rightarrow> (case read_tour tour of None \<Rightarrow> None
           | Some ids \<Rightarrow>
               let cells = (\<lambda>t. map (\<lambda>i. actives ! nat (i - (1 + int (length positions))))
                     (routes_of (parse_tours (int (length positions)) (1 + int (length positions) + int (length actives)) ids) t));
                   indices = cells 1; others = map (\<lambda>k. cells (int k + 2)) [0..<length positions - 1];
                   (tour1, tour2) = path_tour indices
               in Some (True, indices, others, s1\<lparr>pl_fsm := (pl_fsm s1)\<lparr>ed_pending_grid_ids := indices\<rparr>,
                    pl_grid_tour := tour1, pl_grid_tour2 := tour2\<rparr>))))"
proof -
  let ?n = "length positions"
  let ?own = "not_released s0 (ds_grid_ids (ed_swarm_state (pl_fsm s0) ! nat (pp_drone_id pp - 1)))"
  let ?h1 = "hg_inputFrontiers (pl_averages s0) (map (\<lambda>c. int (length c)) (pl_frontiers s0)) (pl_grid s0)"
  obtain h d mm ids first_ids second_ids where upd: "hg_updateGridData p (pp_drone_id pp) ?own (ed_last_grid_ids (pl_fsm s0)) ([], [])
      (?h1, pl_map s0, pl_chunks s0) = ((h, d, mm), ids, first_ids, second_ids)" by (metis prod.collapse)
  let ?s1 = "publishTaskMetrics pp (s0\<lparr>pl_grid := h, pl_map := d, pl_chunks := mm\<rparr>)"
  let ?actives = "not_released ?s1 (getActiveGrids h)"
  let ?pairs = "if init then replicate (length drone_ids) ([], [])
      else (first_ids, second_ids) # map (peer_hints h ?actives (pl_fsm s0)) (tl drone_ids)"
  let ?mat = "getCostMatrix path_len uninit h positions velocities (map fst ?pairs) (map snd ?pairs) ?actives"
  have s1: "pl_fsm ?s1 = pl_fsm s0" "pl_grid ?s1 = h" by (simp_all add: publishTaskMetrics_def Let_def)
  have cells: "cells_num (pl_grid ?s1) = cells_num (pl_grid s0)" using cells_num_update [OF assms(4) upd] by (simp add: s1(2))
  have act: "?actives = not_released s0 (getActiveGrids (pl_grid ?s1))" by (simp add: not_released_def s1)
  have input: "\<not> (positions = [] \<or> length velocities \<noteq> ?n \<or> length drone_ids \<noteq> ?n)" using assms by simp
  have dim: "length ?mat = 1 + ?n + length ?actives" by (simp add: length_getCostMatrix)
  have dim': "int (1 + ?n + length ?actives) = 1 + int ?n + int (length ?actives)" by simp
  show ?thesis
    by (rule that [OF act s1(1) cells], unfold findGlobalTourOfGrid_def Let_def if_not_P [OF input] upd prod.case dim dim', rule refl)
qed

lemma swarm_inputs_length:
  "buildSwarmGlobalAllocationInputs pp now pos vel s = (drone_ids, positions, velocities) \<Longrightarrow>
    positions \<noteq> [] \<and> length velocities = length positions \<and> length drone_ids = length positions"
  by (auto simp: buildSwarmGlobalAllocationInputs_def Let_def)

text \<open>C13: A drone plans with its view of the swarm and a solver that answers tours through all nodes in
  which every route starts at a drone and one copy of the depot separates two routes: the cells that are
  active and not staged for release are divided exactly between it and the other drones it counts on; it
  stages its own ones, in the order of the tour; it finds no tour exactly when there is no such cell.\<close>

theorem global_tour_partition:
  assumes "box_ok c" "grid_reach res c (pl_grid s)"
    and "buildSwarmGlobalAllocationInputs pp now pos vel s = (drone_ids, positions, velocities)"
    and "solves_tours solve (length drone_ids)" "1 + length drone_ids + cells_num (pl_grid s) < 2 ^ 31"
  shows "\<exists>found own others s'.
    findGlobalTourOfGridFromSwarm path_len path uninit solve p pp now pos vel init s = Some (found, own, others, s') \<and>
    (let actives = not_released s (getActiveGrids (pl_grid s')) in
      (found \<longleftrightarrow> actives \<noteq> []) \<and> mset own + mset (concat others) = mset actives \<and>
      (found \<longrightarrow> length others = length drone_ids - 1 \<and> ed_pending_grid_ids (pl_fsm s') = own))"
proof -
  have inputs: "positions \<noteq> []" "length velocities = length positions" "length drone_ids = length positions"
    using swarm_inputs_length [OF assms(3)] by simp_all
  let ?n = "length positions"
  obtain actives s1 mat par path_tour where
    act: "actives = not_released s (getActiveGrids (pl_grid s1))" and s1: "pl_fsm s1 = pl_fsm s" "cells_num (pl_grid s1) = cells_num (pl_grid s)" and
    res: "findGlobalTourOfGrid path_len path uninit solve p pp positions velocities drone_ids init s =
      (if actives = [] then Some (False, [], [], s1\<lparr>pl_grid_tour := [], pl_grid_tour2 := []\<rparr>)
       else (case solve False 2 (atsp_file ''amtsp'' ''ATSP'' (1 + ?n + length actives) []
           (\<lambda>x. to_int_trunc (100 * x)) mat) par of None \<Rightarrow> Some (False, [], [], s1)
         | Some tour \<Rightarrow> (case read_tour tour of None \<Rightarrow> None
           | Some ids \<Rightarrow>
               let cells = (\<lambda>t. map (\<lambda>i. actives ! nat (i - (1 + int ?n)))
                     (routes_of (parse_tours (int ?n) (1 + int ?n + int (length actives)) ids) t));
                   indices = cells 1; others = map (\<lambda>k. cells (int k + 2)) [0..<?n - 1];
                   (tour1, tour2) = path_tour indices
               in Some (True, indices, others, s1\<lparr>pl_fsm := (pl_fsm s1)\<lparr>ed_pending_grid_ids := indices\<rparr>,
                    pl_grid_tour := tour1, pl_grid_tour2 := tour2\<rparr>))))"
    by (rule findGlobalTourOfGrid_cases [OF inputs grid_reach_partition [OF assms(2,1)], where path_len = path_len and path = path and
          uninit = uninit and solve = solve and p = p and pp = pp and init = init])
  let ?m = "length actives"
  have swarm: "findGlobalTourOfGridFromSwarm path_len path uninit solve p pp now pos vel init s =
      findGlobalTourOfGrid path_len path uninit solve p pp positions velocities drone_ids init s"
    by (simp add: findGlobalTourOfGridFromSwarm_def assms(3))
  show ?thesis
  proof (cases "actives = []")
    case True
    let ?s' = "s1\<lparr>pl_grid_tour := [], pl_grid_tour2 := []\<rparr>"
    have out: "findGlobalTourOfGridFromSwarm path_len path uninit solve p pp now pos vel init s = Some (False, [], [], ?s')"
      unfolding swarm res if_P [OF True] ..
    have "not_released s (getActiveGrids (pl_grid ?s')) = []" using act True by simp
    then show ?thesis unfolding out
      by (intro exI [of _ False] exI [of _ "[]"] exI [of _ "[]"] exI [of _ ?s']) (simp add: Let_def)
  next
    case False
    have "?m \<le> cells_num (pl_grid s)"
      using length_getActiveGrids [of "pl_grid s1"] length_filter_le unfolding act not_released_def s1(2) by (rule order.trans [rotated])
    then have "tour_answer ?n ?m single_depots
        (solve False 2 (atsp_file ''amtsp'' ''ATSP'' (1 + ?n + ?m) [] (\<lambda>x. to_int_trunc (100 * x)) mat) par)"
      using assms(4,5) inputs(3) by (simp add: solves_tours_def)
    then obtain header routes rest where
      r: "solve False 2 (atsp_file ''amtsp'' ''ATSP'' (1 + ?n + ?m) [] (\<lambda>x. to_int_trunc (100 * x)) mat) par =
          Some (tour_file header ?n routes rest)"
        "''TOUR_SECTION'' \<notin> set header" "routes_ok ?n ?m routes" "complete_routes ?m routes" "single_depots routes"
      unfolding tour_answer_def by (elim exE conjE) (rule that)
    have rs: "list_all (route_ok ?n ?m) routes" using r(3) by (simp add: routes_ok_def)
    let ?cells = "\<lambda>d. map (\<lambda>k. actives ! k) (cells_of routes d)"
    have cells: "map (\<lambda>i. actives ! nat (i - (1 + int ?n))) (routes_of ([] # map (route_nodes ?n) routes) (int d + 1)) = ?cells d" for d
      by (simp add: routes_of_tour comp_def)
    have cells1: "map (\<lambda>i. actives ! nat (i - (1 + int ?n))) (routes_of ([] # map (route_nodes ?n) routes) 1) = ?cells 0"
      using cells [of 0] by simp
    have cells2: "map (\<lambda>i. actives ! nat (i - (1 + int ?n))) (routes_of ([] # map (route_nodes ?n) routes) (int k + 2)) = ?cells (Suc k)" for k
      using cells [of "Suc k"] by (simp add: add.commute)
    obtain tour1 tour2 where tours: "path_tour (?cells 0) = (tour1, tour2)" by (metis prod.collapse)
    let ?others = "map (\<lambda>k. ?cells (Suc k)) [0..<?n - 1]"
    let ?s' = "s1\<lparr>pl_fsm := (pl_fsm s1)\<lparr>ed_pending_grid_ids := ?cells 0\<rparr>, pl_grid_tour := tour1, pl_grid_tour2 := tour2\<rparr>"
    have out: "findGlobalTourOfGridFromSwarm path_len path uninit solve p pp now pos vel init s = Some (True, ?cells 0, ?others, ?s')"
      unfolding swarm res if_not_P [OF False] r(1) option.case read_tour_file [OF r(3,2)] parse_tours_tour [OF rs r(5)] Let_def
        cells1 cells2 tours prod.case ..
    have "[0..<?n] = 0 # map Suc [0..<?n - 1]" using inputs(1) by (simp add: map_Suc_upt upt_conv_Cons)
    then have "mset (?cells 0) + mset (concat ?others) = mset (concat (map ?cells [0..<?n]))" by (simp add: comp_def)
    also have "\<dots> = image_mset (\<lambda>k. actives ! k) (mset (concat (map (cells_of routes) [0..<?n])))"
      by (simp add: map_concat comp_def flip: mset_map)
    also have "\<dots> = mset actives"
      unfolding mset_cells_of [OF rs] using mset_nth_cells [of "route_cells routes" actives] r(4) by (simp add: complete_routes_def)
    finally have parts: "mset (?cells 0) + mset (concat ?others) = mset actives" .
    have "not_released s (getActiveGrids (pl_grid ?s')) = actives" by (simp add: act)
    then show ?thesis unfolding out using parts False inputs(3)
      by (intro exI [of _ True] exI [of _ "?cells 0"] exI [of _ ?others] exI [of _ ?s']) (simp add: Let_def)
  qed
qed

text \<open>The witness reads the dimension from the problem file and gives all cells to the first drone.\<close>

definition solve_to_first :: "nat \<Rightarrow> solver" where
  "solve_to_first n acvrp prob problem par =
     (case stoi (drop 12 (problem ! 2)) of None \<Rightarrow> None | Some D \<Rightarrow> Some (all_to_first n (nat D - 1 - n)))"

lemma solve_to_first_solves: "0 < n \<Longrightarrow> solves_tours (solve_to_first n) n"
proof -
  assume n: "0 < n"
  have "solve_to_first n False 2 (atsp_file ''amtsp'' ''ATSP'' (1 + n + m) [] f mat) par = Some (all_to_first n m)"
    if "1 + n + m < 2 ^ 31" for m f mat par
  proof -
    have "stoi (to_dec (1 + n + m)) = Some (int (1 + n + m))"
    proof -
      have "to_string_int (int k) = to_dec k" for k by (simp add: to_string_int_def)
      moreover have "fits_int (int (1 + n + m))" using that by (simp add: fits_int_def)
      ultimately show ?thesis using stoi_to_string by metis
    qed
    moreover have "nat (int (1 + n + m)) - 1 - n = m" by simp
    ultimately show ?thesis by (simp add: solve_to_first_def atsp_file_def del: of_nat_add of_nat_Suc)
  qed
  then show ?thesis using all_to_first_answer [OF n] by (simp add: solves_tours_def)
qed

definition ex_planner :: planner where
  "ex_planner = \<lparr>pl_fsm = ex_fsm, pl_grid = make_hgrid 1 small_partition, pl_map = small_data, pl_chunks = mm_init 1 2 2,
     pl_frontiers = [], pl_averages = [], pl_grid_tour = [], pl_grid_tour2 = [], pl_metrics = []\<rparr>"

lemma global_tour_partition_witness:
  "\<exists>found own others s'.
    findGlobalTourOfGridFromSwarm (\<lambda>_ _. None) (\<lambda>_ _. None) False (solve_to_first 1) small_param
      \<lparr>pp_drone_id = 1, pp_mtsp_dir = ''d''\<rparr> 10 (0, 0, 0) (0, 0, 0) True ex_planner = Some (found, own, others, s') \<and>
    mset own + mset (concat others) = mset (not_released ex_planner (getActiveGrids (pl_grid s')))"
proof -
  let ?pp = "\<lparr>pp_drone_id = 1, pp_mtsp_dir = ''d''\<rparr>"
  have inputs: "buildSwarmGlobalAllocationInputs ?pp 10 (0, 0, 0) (0, 0, 0) ex_planner = ([1], [(0, 0, 0)], [(0, 0, 0)])"
  proof -
    have "ed_swarm_state (pl_fsm ex_planner) = [init_drone_state, init_drone_state]"
      by (simp add: ex_planner_def ex_fsm_def fsm_init_def ex_fsm_params_def fsm_default_params_def numeral_2_eq_2)
    then show ?thesis by (simp add: buildSwarmGlobalAllocationInputs_def init_drone_state_def Let_def)
  qed
  have cells: "cells_num (make_hgrid 1 small_partition) = 10"
    by (simp add: cells_num_def make_hgrid_def hg_updateBaseCoor_def updateBaseCoor_simps initGridData_simps make_grid_def
        axis_resolution_def small_partition_def num_cells_def)
  have reach: "grid_reach 1 small_partition (pl_grid ex_planner)" by (simp add: ex_planner_def grid_reach.start)
  have solves: "solves_tours (solve_to_first 1) (length [1 :: int])" by (simp add: solve_to_first_solves)
  have few: "1 + length [1 :: int] + cells_num (pl_grid ex_planner) < 2 ^ 31" using cells by (simp add: ex_planner_def)
  obtain found own others s' where
    r: "findGlobalTourOfGridFromSwarm (\<lambda>_ _. None) (\<lambda>_ _. None) False (solve_to_first 1) small_param ?pp 10 (0, 0, 0) (0, 0, 0)
      True ex_planner = Some (found, own, others, s')"
    "let actives = not_released ex_planner (getActiveGrids (pl_grid s')) in
      (found \<longleftrightarrow> actives \<noteq> []) \<and> mset own + mset (concat others) = mset actives \<and>
      (found \<longrightarrow> length others = length [1 :: int] - 1 \<and> ed_pending_grid_ids (pl_fsm s') = own)"
    using global_tour_partition [OF small_box reach inputs solves few, where path_len = "\<lambda>_ _. None" and
        path = "\<lambda>_ _. None" and uninit = False and p = small_param and init = True] by (elim exE conjE) (rule that)
  have "mset own + mset (concat others) = mset (not_released ex_planner (getActiveGrids (pl_grid s')))"
    using r(2) unfolding Let_def by (elim conjE)
  then show ?thesis using r(1) by (intro exI conjI)
qed

end
