(* ===== verification/Frontier_View.thy ===== *)
theory Frontier_View imports Grid_Uniform Ray_Caster
begin

text \<open>
  What the frontier search sees: the camera's field of view of \<open>active_perception/src/perception_utils.cpp\<close>
  and the costs between viewpoints of \<open>active_perception/src/graph_node.cpp\<close>. The path search of
  \<open>path_searching\<close> is the parameter \<open>astar\<close>, from two points to the path that it finds between them.
\<close>

section \<open>The field of view\<close>

record PerceptionUtils =
  pu_pos :: vec3
  pu_yaw :: real
  pu_normals :: "vec3 list"
  left_angle :: real
  right_angle :: real
  top_angle :: real
  max_dist :: real
  vis_dist :: real
  n_top :: vec3
  n_bottom :: vec3
  n_left :: vec3
  n_right :: vec3
  cam_vertices1 :: "vec3 list"
  cam_vertices2 :: "vec3 list"

text \<open>The pose is set before it is used.\<close>

definition make_perception :: "real \<Rightarrow> real \<Rightarrow> real \<Rightarrow> real \<Rightarrow> real \<Rightarrow> PerceptionUtils" where
  "make_perception top_a left_a right_a maxd visd =
     (let hor = visd * tan left_a; vert = visd * tan top_a; org = (0, 0, 0);
          left_up = (visd, hor, vert); left_down = (visd, hor, - vert);
          right_up = (visd, - hor, vert); right_down = (visd, - hor, - vert)
      in \<lparr>pu_pos = (0, 0, 0), pu_yaw = 0, pu_normals = [], left_angle = left_a, right_angle = right_a,
        top_angle = top_a, max_dist = maxd, vis_dist = visd,
        n_top = (0, sin (pi / 2 - top_a), cos (pi / 2 - top_a)),
        n_bottom = (0, - sin (pi / 2 - top_a), cos (pi / 2 - top_a)),
        n_left = (sin (pi / 2 - left_a), 0, cos (pi / 2 - left_a)),
        n_right = (- sin (pi / 2 - right_a), 0, cos (pi / 2 - right_a)),
        cam_vertices1 = [org, org, org, org, left_up, right_up, right_down, left_down],
        cam_vertices2 = [left_up, left_down, right_up, right_down, right_up, right_down, left_down, left_up]\<rparr>)"

definition mat_mul :: "mat3 \<Rightarrow> mat3 \<Rightarrow> mat3" where
  "mat_mul a b = transpose3 (map3 (mat_vec a) (transpose3 b))"

definition rot_yaw :: "real \<Rightarrow> mat3" where
  "rot_yaw y = ((cos y, - sin y, 0), (sin y, cos y, 0), (0, 0, 1))"

text \<open>The rotation of \<open>T_cb_\<close>, from the body to the camera; its inverse is its transpose.\<close>

definition R_cb :: mat3 where
  "R_cb = ((0, - 1, 0), (0, 0, 1), (1, 0, 0))"

definition setPose :: "vec3 \<Rightarrow> real \<Rightarrow> PerceptionUtils \<Rightarrow> PerceptionUtils" where
  "setPose pos y u =
     (let r_wc = mat_mul (rot_yaw y) (transpose3 R_cb)
      in u\<lparr>pu_pos := pos, pu_yaw := y, pu_normals := map (mat_vec r_wc) [n_top u, n_bottom u, n_left u, n_right u]\<rparr>)"

definition getFOV :: "PerceptionUtils \<Rightarrow> vec3 list \<times> vec3 list" where
  "getFOV u =
     (let f = (\<lambda>v. zip3 (+) (mat_vec (rot_yaw (pu_yaw u)) v) (pu_pos u))
      in (map f (cam_vertices1 u), map f (take (length (cam_vertices1 u)) (cam_vertices2 u))))"

definition insideFOV :: "PerceptionUtils \<Rightarrow> vec3 \<Rightarrow> bool" where
  "insideFOV u point =
     (let dir = zip3 (-) point (pu_pos u)
      in \<not> vec_norm dir > max_dist u \<and> (\<forall>n \<in> set (pu_normals u). \<not> dot3 (normalized dir) n < 0))"

definition getFOVBoundingBox :: "PerceptionUtils \<Rightarrow> vec3 \<times> vec3" where
  "getFOVBoundingBox u =
     (let left = pu_yaw u + left_angle u; right = pu_yaw u - right_angle u;
          at_dir = (\<lambda>v. zip3 (+) (pu_pos u) (map3 (\<lambda>x. max_dist u * x) v));
          extra = (if left > 0 \<and> right < 0 then [at_dir (1, 0, 0)]
            else if left > pi / 2 \<and> right < pi / 2 then [at_dir (0, 1, 0)]
            else if left > - (pi / 2) \<and> right < - (pi / 2) then [at_dir (0, - 1, 0)]
            else if left > pi \<and> right < pi \<or> left > - pi \<and> right < - pi then [at_dir (- 1, 0, 0)]
            else []);
          points = [at_dir (cos left, sin left, 0), at_dir (cos right, sin right, 0)] @ extra
      in (foldl (zip3 min) (pu_pos u) points, foldl (zip3 max) (pu_pos u) points))"

section \<open>Costs between viewpoints\<close>

record ViewParams =
  view_vm :: real
  view_yd :: real
  view_w_dir :: real

definition path_length :: "vec3 list \<Rightarrow> real" where
  "path_length path = sum_list (map (\<lambda>i. vec_norm (zip3 (-) (path ! Suc i) (path ! i))) [0..<length path - 1])"

text \<open>The straight line if no voxel on it is occupied or outside of the box, a path of the path search, or
  the straight line at an estimated cost. \<open>None\<close> if the ray does not end.\<close>

definition view_searchPath ::
  "(vec3 \<Rightarrow> vec3 \<Rightarrow> vec3 list option) \<Rightarrow> MapParam \<Rightarrow> MapData \<Rightarrow> RayCaster \<Rightarrow> vec3 \<Rightarrow> vec3 \<Rightarrow> (real \<times> vec3 list) option" where
  "view_searchPath astar p d caster p1 p2 =
     (case ray_ids (snd (ray_input p1 p2 caster)) of
        None \<Rightarrow> None
      | Some ids \<Rightarrow>
          if \<forall>idx \<in> set ids. \<not> (getInflateOccupancy p d idx = 1 \<or> \<not> isInBox p idx)
          then Some (vec_norm (zip3 (-) p1 p2), [p1, p2])
          else case astar p1 p2 of
                 Some path \<Rightarrow> Some (path_length path, path)
               | None \<Rightarrow> Some (100, [p1, p2]))"

definition computeCost ::
  "(vec3 \<Rightarrow> vec3 \<Rightarrow> (real \<times> vec3 list) option) \<Rightarrow> ViewParams \<Rightarrow> vec3 \<Rightarrow> vec3 \<Rightarrow> real \<Rightarrow> real \<Rightarrow> vec3 \<Rightarrow>
     (real \<times> vec3 list) option" where
  "computeCost search vp p1 p2 y1 y2 v1 =
     map_option (\<lambda>(len, path).
       let pos_cost = len / view_vm vp;
           pos_cost' = (if vec_norm v1 > 1 / 1000
             then pos_cost + view_w_dir vp * arccos (dot3 (normalized v1) (normalized (zip3 (-) p2 p1))) else pos_cost);
           diff = \<bar>y2 - y1\<bar>
       in (max pos_cost' (min diff (2 * pi - diff) / view_yd vp), path)) (search p1 p2)"

end
