(* ===== verification/Frontier_Clusters.thy ===== *)
theory Frontier_Clusters imports Frontier_View Map_Chunks
begin

text \<open>
  The frontier clusters of \<open>active_perception/src/frontier_finder.cpp\<close>: which voxels are frontiers, the
  growing of clusters with the flags of clustered voxels, the removal of changed clusters and the splitting
  of large ones. The voxel filter of PCL (\<open>downsample\<close>, by its leaf size) and the eigenvalues and
  eigenvectors of a matrix (\<open>eigen\<close>) are parameters. \<open>None\<close> is undefined behaviour, an access outside of
  a vector, or a loop that does not end. Logging is left out.
\<close>

section \<open>Data\<close>

record Viewpoint =
  vp_pos :: vec3
  vp_yaw :: real
  visib_num :: int

record Frontier =
  cells :: "vec3 list"
  filtered_cells :: "vec3 list"
  average :: vec3
  ftr_id :: int
  viewpoints :: "Viewpoint list"
  ftr_min :: vec3
  ftr_max :: vec3
  paths :: "vec3 list list"
  costs :: "real list"

record finder_params =
  cluster_min :: int
  cluster_size_xy :: real
  cluster_size_z :: real
  min_candidate_dist :: real
  min_candidate_clearance :: real
  candidate_dphi :: real
  candidate_rmax :: real
  candidate_rmin :: real
  candidate_rnum :: int
  down_sample :: int
  min_visib_num :: int
  min_view_finish_fraction :: real

text \<open>An iterator into the list of frontiers is an index, and \<open>None\<close> its end.\<close>

record FrontierFinder =
  frontier_flag :: "bool list"
  frontiers :: "Frontier list"
  dormant_frontiers :: "Frontier list"
  tmp_frontiers :: "Frontier list"
  removed_ids :: "nat list"
  first_new_ftr :: "nat option"
  percep_utils :: PerceptionUtils

definition make_finder :: "MapParam \<Rightarrow> PerceptionUtils \<Rightarrow> FrontierFinder" where
  "make_finder p u =
     \<lparr>frontier_flag = replicate (nat (getVoxelNum p)) False, frontiers = [], dormant_frontiers = [], tmp_frontiers = [],
      removed_ids = [], first_new_ftr = None, percep_utils = u\<rparr>"

definition empty_frontier :: Frontier where
  "empty_frontier = \<lparr>cells = [], filtered_cells = [], average = (0, 0, 0), ftr_id = 0, viewpoints = [],
     ftr_min = (0, 0, 0), ftr_max = (0, 0, 0), paths = [], costs = []\<rparr>"

section \<open>Frontier voxels\<close>

definition sixNeighbors :: "idx3 \<Rightarrow> idx3 list" where
  "sixNeighbors v = map (zip3 (+) v) [(- 1, 0, 0), (1, 0, 0), (0, - 1, 0), (0, 1, 0), (0, 0, - 1), (0, 0, 1)]"

text \<open>The two vertical neighbours are those of the last voxel of the loop.\<close>

definition tenNeighbors :: "idx3 \<Rightarrow> idx3 list" where
  "tenNeighbors v =
     map (zip3 (+) v) ([(x, y, 0). x \<leftarrow> [- 1, 0, 1], y \<leftarrow> [- 1, 0, 1], \<not> (x = 0 \<and> y = 0)] @ [(1, 1, - 1), (1, 1, 1)])"

definition allNeighbors :: "idx3 \<Rightarrow> idx3 list" where
  "allNeighbors v =
     map (zip3 (+) v)
       [(x, y, z). x \<leftarrow> [- 1, 0, 1], y \<leftarrow> [- 1, 0, 1], z \<leftarrow> [- 1, 0, 1], \<not> (x = 0 \<and> y = 0 \<and> z = 0)]"

definition knownfree :: "MapParam \<Rightarrow> MapData \<Rightarrow> idx3 \<Rightarrow> bool" where
  "knownfree p d i \<longleftrightarrow> getOccupancy p d i = Some FREE"

definition isNeighborUnknown :: "MapParam \<Rightarrow> MapData \<Rightarrow> idx3 \<Rightarrow> bool" where
  "isNeighborUnknown p d v \<longleftrightarrow> (\<exists>n \<in> set (sixNeighbors v). getOccupancy p d n = Some UNKNOWN)"

definition is_frontier :: "MapParam \<Rightarrow> MapData \<Rightarrow> idx3 \<Rightarrow> bool" where
  "is_frontier p d v \<longleftrightarrow> knownfree p d v \<and> isNeighborUnknown p d v"

section \<open>Flags\<close>

definition flag_at :: "bool list \<Rightarrow> int \<Rightarrow> bool option" where
  "flag_at flags adr = (if 0 \<le> adr \<and> adr < int (length flags) then Some (flags ! nat adr) else None)"

definition set_flag :: "bool \<Rightarrow> int \<Rightarrow> bool list \<Rightarrow> bool list option" where
  "set_flag b adr flags = (if 0 \<le> adr \<and> adr < int (length flags) then Some (flags[nat adr := b]) else None)"

fun fold_option :: "('a \<Rightarrow> 's \<Rightarrow> 's option) \<Rightarrow> 'a list \<Rightarrow> 's \<Rightarrow> 's option" where
  "fold_option f [] s = Some s"
| "fold_option f (x # xs) s = Option.bind (f x s) (fold_option f xs)"

section \<open>Clusters\<close>

definition computeFrontierInfo :: "(vec3 list \<Rightarrow> vec3 list) \<Rightarrow> Frontier \<Rightarrow> Frontier option" where
  "computeFrontierInfo downsample ftr =
     (case cells ftr of
        [] \<Rightarrow> None
      | c # cs \<Rightarrow>
          Some (ftr\<lparr>average := map3 (\<lambda>x. x / real (length (c # cs))) (foldl (zip3 (+)) (0, 0, 0) (c # cs)),
            ftr_min := foldl (zip3 min) c (c # cs), ftr_max := foldl (zip3 max) c (c # cs),
            filtered_cells := downsample (c # cs)\<rparr>))"

definition visit_neighbor ::
  "MapParam \<Rightarrow> MapData \<Rightarrow> idx3 \<Rightarrow> bool list \<times> idx3 list \<times> vec3 list \<Rightarrow> (bool list \<times> idx3 list \<times> vec3 list) option" where
  "visit_neighbor p d nbr acc =
     (case acc of (flags, queue, expanded) \<Rightarrow>
        let adr = toAddress p nbr; pos = indexToPos p nbr in
        case flag_at flags adr of
          None \<Rightarrow> None
        | Some flagged \<Rightarrow>
            if flagged \<or> \<not> isInBox p nbr \<or> \<not> is_frontier p d nbr then Some acc
            else if snd (snd pos) < 1 / 5 then Some acc
            else Some (flags[nat adr := True], queue @ [nbr], expanded @ [pos]))"

partial_function (option) expand_loop ::
  "MapParam \<Rightarrow> MapData \<Rightarrow> bool list \<Rightarrow> idx3 list \<Rightarrow> vec3 list \<Rightarrow> (bool list \<times> vec3 list) option" where
  "expand_loop p d flags queue expanded =
     (case queue of
        [] \<Rightarrow> Some (flags, expanded)
      | cur # rest \<Rightarrow>
          Option.bind (fold_option (visit_neighbor p d) (allNeighbors cur) (flags, rest, expanded))
            (\<lambda>(flags', queue', expanded'). expand_loop p d flags' queue' expanded'))"

text \<open>A cluster of more than \<open>cluster_min_\<close> cells is kept; the comparison is one of unsigned numbers. The
  flags of the cells of a smaller one stay set.\<close>

definition expandFrontier ::
  "(vec3 list \<Rightarrow> vec3 list) \<Rightarrow> finder_params \<Rightarrow> MapParam \<Rightarrow> MapData \<Rightarrow> idx3 \<Rightarrow> bool list \<times> Frontier list \<Rightarrow>
     (bool list \<times> Frontier list) option" where
  "expandFrontier downsample ff p d first acc =
     (case acc of (flags, tmps) \<Rightarrow>
        Option.bind (set_flag True (toAddress p first) flags) (\<lambda>flags1.
        Option.bind (expand_loop p d flags1 [first] [indexToPos p first]) (\<lambda>(flags2, expanded).
          if int (length expanded) > cluster_min ff mod 2 ^ 64
          then map_option (\<lambda>ftr. (flags2, tmps @ [ftr])) (computeFrontierInfo downsample (empty_frontier\<lparr>cells := expanded\<rparr>))
          else Some (flags2, tmps))))"

section \<open>Overlap and change\<close>

definition ftr_haveOverlap :: "vec3 \<Rightarrow> vec3 \<Rightarrow> vec3 \<Rightarrow> vec3 \<Rightarrow> bool" where
  "ftr_haveOverlap min1 max1 min2 max2 =
     all3 (\<lambda>bmin bmax. \<not> bmin > bmax + 1 / 1000) (zip3 max min1 min2) (zip3 min max1 max2)"

definition haveAnyOverlap :: "vec3 \<Rightarrow> vec3 \<Rightarrow> (vec3 \<times> vec3) list \<Rightarrow> bool" where
  "haveAnyOverlap min1 max1 boxes = (\<exists>(lo, hi) \<in> set boxes. ftr_haveOverlap min1 max1 lo hi)"

definition isFrontierChanged :: "MapParam \<Rightarrow> MapData \<Rightarrow> Frontier \<Rightarrow> bool" where
  "isFrontierChanged p d ft = (\<exists>c \<in> set (cells ft). \<not> is_frontier p d (posToIndex p c))"

definition resetFlag :: "MapParam \<Rightarrow> Frontier \<Rightarrow> bool list \<Rightarrow> bool list option" where
  "resetFlag p ft flags = fold_option (\<lambda>c. set_flag False (toAddress p (posToIndex p c))) (cells ft) flags"

text \<open>The loops over the two lists; the indices are those of the list without the entries removed before.\<close>

fun remove_changed ::
  "MapParam \<Rightarrow> MapData \<Rightarrow> (vec3 \<times> vec3) list \<Rightarrow> nat \<Rightarrow> Frontier list \<Rightarrow> bool list \<Rightarrow>
     (Frontier list \<times> nat list \<times> bool list) option" where
  "remove_changed p d boxes rmv_idx [] flags = Some ([], [], flags)"
| "remove_changed p d boxes rmv_idx (ft # fts) flags =
     (if haveAnyOverlap (ftr_min ft) (ftr_max ft) boxes \<and> isFrontierChanged p d ft
      then Option.bind (resetFlag p ft flags) (\<lambda>flags1.
             map_option (\<lambda>(kept, ids, flags2). (kept, rmv_idx # ids, flags2)) (remove_changed p d boxes rmv_idx fts flags1))
      else map_option (\<lambda>(kept, ids, flags2). (ft # kept, ids, flags2)) (remove_changed p d boxes (Suc rmv_idx) fts flags))"

section \<open>Splitting\<close>

type_synonym vec2 = "real \<times> real"
type_synonym mat2 = "vec2 \<times> vec2"

definition head2 :: "vec3 \<Rightarrow> vec2" where
  "head2 v = (case v of (x, y, _) \<Rightarrow> (x, y))"

definition dot2 :: "vec2 \<Rightarrow> vec2 \<Rightarrow> real" where
  "dot2 v w = fst v * fst w + snd v * snd w"

definition norm2 :: "vec2 \<Rightarrow> real" where
  "norm2 v = sqrt (dot2 v v)"

definition diff2 :: "vec3 \<Rightarrow> vec3 \<Rightarrow> vec2" where
  "diff2 v w = (fst v - fst w, fst (snd v) - fst (snd w))"

definition need_split :: "finder_params \<Rightarrow> Frontier \<Rightarrow> bool" where
  "need_split ff ft = (\<exists>c \<in> set (filtered_cells ft). norm2 (diff2 c (average ft)) > cluster_size_xy ff)"

definition covariance :: "Frontier \<Rightarrow> mat2" where
  "covariance ft =
     (let n = real (length (filtered_cells ft));
          add = (\<lambda>m c. case diff2 c (average ft) of (x, y) \<Rightarrow> case m of ((a, b), (b', e)) \<Rightarrow>
            ((a + x * x, b + x * y), (b' + y * x, e + y * y)));
          ((a, b), (b', e)) = foldl add ((0, 0), (0, 0)) (filtered_cells ft)
      in ((a / n, b / n), (b' / n, e / n)))"

text \<open>The eigenvector of the greatest eigenvalue above -1000000; \<open>None\<close> is an index that was not set.\<close>

definition principal :: "(real \<times> vec2) list \<Rightarrow> vec2 option" where
  "principal es =
     snd (foldl (\<lambda>(best, v) (value, vector). if value > best then (value, Some vector) else (best, v)) (- 1000000, None) es)"

partial_function (option) splitHorizontally ::
  "(vec3 list \<Rightarrow> vec3 list) \<Rightarrow> (mat2 \<Rightarrow> (real \<times> vec2) list) \<Rightarrow> finder_params \<Rightarrow> Frontier \<Rightarrow> (bool \<times> Frontier list) option" where
  "splitHorizontally downsample eigen ff frontier =
     (if \<not> need_split ff frontier then Some (False, [])
      else
        Option.bind (principal (eigen (covariance frontier))) (\<lambda>first_pc.
        let side = (\<lambda>c. dot2 (diff2 c (average frontier)) first_pc \<ge> 0) in
        Option.bind (computeFrontierInfo downsample (empty_frontier\<lparr>cells := filter side (cells frontier)\<rparr>)) (\<lambda>ftr1.
        Option.bind (computeFrontierInfo downsample (empty_frontier\<lparr>cells := filter (\<lambda>c. \<not> side c) (cells frontier)\<rparr>)) (\<lambda>ftr2.
        Option.bind (splitHorizontally downsample eigen ff ftr1) (\<lambda>(split1, splits1).
        Option.bind (splitHorizontally downsample eigen ff ftr2) (\<lambda>(split2, splits2).
          Some (True, (if split1 then splits1 else [ftr1]) @ (if split2 then splits2 else [ftr2]))))))))"

fun splitLargeFrontiers ::
  "(vec3 list \<Rightarrow> vec3 list) \<Rightarrow> (mat2 \<Rightarrow> (real \<times> vec2) list) \<Rightarrow> finder_params \<Rightarrow> Frontier list \<Rightarrow> Frontier list option" where
  "splitLargeFrontiers downsample eigen ff [] = Some []"
| "splitLargeFrontiers downsample eigen ff (ft # fts) =
     Option.bind (splitHorizontally downsample eigen ff ft) (\<lambda>(split, splits).
       map_option (\<lambda>rest. (if split then splits else [ft]) @ rest) (splitLargeFrontiers downsample eigen ff fts))"

section \<open>The search\<close>

definition updated_boxes :: "MapData \<times> MultiMapManager \<Rightarrow> (vec3 \<times> vec3) list" where
  "updated_boxes dm =
     (let (update, _) = getUpdatedBox False (fst dm); ((mins, maxs), _) = getChunkBoxes False (snd dm)
      in update # zip mins maxs)"

definition search_ids :: "MapParam \<Rightarrow> vec3 \<times> vec3 \<Rightarrow> idx3 list" where
  "search_ids p box =
     (case box of (lo, hi) \<Rightarrow>
        case posToIndex p (zip3 max (zip3 (-) lo (1, 1, 1 / 5)) (box_mind p)) of (x0, y0, z0) \<Rightarrow>
        case posToIndex p (zip3 min (zip3 (+) hi (1, 1, 1 / 5)) (box_maxd p)) of (x1, y1, z1) \<Rightarrow>
          [(x, y, z). z \<leftarrow> [z0..z1], x \<leftarrow> [x0..x1], y \<leftarrow> [y0..y1]])"

definition seed_step ::
  "(vec3 list \<Rightarrow> vec3 list) \<Rightarrow> finder_params \<Rightarrow> MapParam \<Rightarrow> MapData \<Rightarrow> idx3 \<Rightarrow> bool list \<times> Frontier list \<Rightarrow>
     (bool list \<times> Frontier list) option" where
  "seed_step downsample ff p d cur acc =
     Option.bind (flag_at (fst acc) (toAddress p cur)) (\<lambda>flagged.
       if \<not> flagged \<and> is_frontier p d cur then expandFrontier downsample ff p d cur acc else Some acc)"

definition searchFrontiers ::
  "(vec3 list \<Rightarrow> vec3 list) \<Rightarrow> (mat2 \<Rightarrow> (real \<times> vec2) list) \<Rightarrow> finder_params \<Rightarrow> MapParam \<Rightarrow> MapData \<times> MultiMapManager \<Rightarrow>
     FrontierFinder \<Rightarrow> FrontierFinder option" where
  "searchFrontiers downsample eigen ff p dm s =
     (let d = fst dm; boxes = updated_boxes dm in
      Option.bind (remove_changed p d boxes 0 (frontiers s) (frontier_flag s)) (\<lambda>(kept, ids, flags1).
      Option.bind (remove_changed p d boxes 0 (dormant_frontiers s) flags1) (\<lambda>(dormant, _, flags2).
      Option.bind (fold_option (seed_step downsample ff p d) (concat (map (search_ids p) boxes)) (flags2, [])) (\<lambda>(flags3, tmps).
      map_option (\<lambda>tmps'. s\<lparr>frontier_flag := flags3, frontiers := kept, dormant_frontiers := dormant,
          tmp_frontiers := tmps', removed_ids := ids\<rparr>) (splitLargeFrontiers downsample eigen ff tmps)))))"

definition hasFrontierStructureChange :: "FrontierFinder \<Rightarrow> bool" where
  "hasFrontierStructureChange s \<longleftrightarrow> removed_ids s \<noteq> [] \<or> tmp_frontiers s \<noteq> []"

section \<open>Coverage\<close>

text \<open>The loop over the cells of a frontier returns as soon as enough of them have changed.\<close>

fun enough_changed :: "MapParam \<Rightarrow> MapData \<Rightarrow> int \<Rightarrow> int \<Rightarrow> vec3 list \<Rightarrow> bool" where
  "enough_changed p d change_thresh change_num [] = False"
| "enough_changed p d change_thresh change_num (c # cs) =
     (if \<not> is_frontier p d (posToIndex p c)
      then (if change_num + 1 \<ge> change_thresh then True else enough_changed p d change_thresh (change_num + 1) cs)
      else enough_changed p d change_thresh change_num cs)"

definition checkChanges :: "finder_params \<Rightarrow> MapParam \<Rightarrow> MapData \<Rightarrow> (vec3 \<times> vec3) list \<Rightarrow> Frontier list \<Rightarrow> bool" where
  "checkChanges ff p d boxes fts =
     (\<exists>ft \<in> set fts. haveAnyOverlap (ftr_min ft) (ftr_max ft) boxes \<and>
        enough_changed p d (to_int_trunc (min_view_finish_fraction ff * real (length (cells ft)))) 0 (cells ft))"

definition isFrontierCovered :: "finder_params \<Rightarrow> MapParam \<Rightarrow> MapData \<times> MultiMapManager \<Rightarrow> FrontierFinder \<Rightarrow> bool" where
  "isFrontierCovered ff p dm s =
     (let boxes = updated_boxes dm
      in checkChanges ff p (fst dm) boxes (frontiers s) \<or> checkChanges ff p (fst dm) boxes (dormant_frontiers s))"

section \<open>Merging\<close>

definition merged_average :: "Frontier \<Rightarrow> Frontier \<Rightarrow> vec3" where
  "merged_average ftr1 ftr2 =
     (let n1 = real (length (cells ftr1)); n2 = real (length (cells ftr2))
      in zip3 (\<lambda>a b. (a * n1 + b * n2) / (n1 + n2)) (average ftr1) (average ftr2))"

definition mergeFrontiers :: "(vec3 list \<Rightarrow> vec3 list) \<Rightarrow> Frontier \<Rightarrow> Frontier \<Rightarrow> Frontier option" where
  "mergeFrontiers downsample ftr1 ftr2 =
     computeFrontierInfo downsample (ftr1\<lparr>average := merged_average ftr1 ftr2, cells := cells ftr1 @ cells ftr2\<rparr>)"

definition canBeMerged :: "finder_params \<Rightarrow> Frontier \<Rightarrow> Frontier \<Rightarrow> bool" where
  "canBeMerged ff ftr1 ftr2 =
     (let avg = merged_average ftr1 ftr2
      in \<forall>c \<in> set (cells ftr1 @ cells ftr2).
           \<not> (norm2 (diff2 c avg) > cluster_size_xy ff \<or> snd (snd c) - snd (snd avg) > cluster_size_z ff))"

definition isInBoxes :: "MapParam \<Rightarrow> (vec3 \<times> vec3) list \<Rightarrow> idx3 \<Rightarrow> bool" where
  "isInBoxes p boxes i = (\<exists>(lo, hi) \<in> set boxes. all3 (>) (indexToPos p i) lo \<and> all3 (<) (indexToPos p i) hi)"

end
