(* ===== verification/Frontier_Views.thy ===== *)
theory Frontier_Views imports Frontier_Clusters
begin

text \<open>
  The viewpoints of \<open>active_perception/src/frontier_finder.cpp\<close>: their sampling around a cluster, the
  bookkeeping of costs and paths between clusters, the cost matrices for the tour solvers, and the queries.
  The cost of a move (\<open>cost\<close>) and the path search are parameters, which \<open>Frontier_View\<close> instantiates.
  \<open>std::sort\<close> keeps equal entries in the order of \<open>sort_by\<close>. \<open>None\<close> is undefined behaviour or a loop that
  does not end.
\<close>

section \<open>Sampling\<close>

text \<open>The values of a loop from \<open>x\<close> by \<open>step\<close> while a test holds.\<close>

partial_function (option) loop_from :: "real \<Rightarrow> real \<Rightarrow> (real \<Rightarrow> bool) \<Rightarrow> real list option" where
  "loop_from x step cond = (if cond x then Option.bind (loop_from (x + step) step cond) (\<lambda>xs. Some (x # xs)) else Some [])"

partial_function (option) wrap_up :: "real \<Rightarrow> real option" where
  "wrap_up y = (if y < - pi then wrap_up (y + 2 * pi) else Some y)"

partial_function (option) wrap_down :: "real \<Rightarrow> real option" where
  "wrap_down y = (if y > pi then wrap_down (y - 2 * pi) else Some y)"

definition wrapYaw :: "real \<Rightarrow> real option" where
  "wrapYaw y = Option.bind (wrap_up y) wrap_down"

definition isNearUnknown :: "finder_params \<Rightarrow> MapParam \<Rightarrow> MapData \<Rightarrow> vec3 \<Rightarrow> bool" where
  "isNearUnknown ff p d pos =
     (let vox_num = \<lfloor>min_candidate_clearance ff / resolution p\<rfloor>
      in \<exists>x \<in> set [- vox_num..vox_num]. \<exists>y \<in> set [- vox_num..vox_num]. \<exists>z \<in> set [- 1..1].
           getOccupancy p d (posToIndex p (zip3 (\<lambda>c k. c + real_of_int k * resolution p) pos (x, y, z))) = Some UNKNOWN)"

definition safe_sample :: "finder_params \<Rightarrow> MapParam \<Rightarrow> MapData \<Rightarrow> vec3 \<Rightarrow> bool" where
  "safe_sample ff p d pos \<longleftrightarrow>
     \<not> (\<not> isInBoxPos p pos \<or> getInflateOccupancy p d (posToIndex p pos) = 1 \<or> isNearUnknown ff p d pos)"

text \<open>A cell is visible if no voxel on the ray from it is occupied or unknown.\<close>

definition visible_cell :: "MapParam \<Rightarrow> MapData \<Rightarrow> RayCaster \<Rightarrow> vec3 \<Rightarrow> vec3 \<Rightarrow> bool option" where
  "visible_cell p d caster pos cell =
     map_option (\<lambda>ids. \<forall>idx \<in> set ids. \<not> (getInflateOccupancy p d idx = 1 \<or> getOccupancy p d idx = Some UNKNOWN))
       (ray_ids (snd (ray_input cell pos caster)))"

definition countVisibleCells ::
  "MapParam \<Rightarrow> MapData \<Rightarrow> RayCaster \<Rightarrow> vec3 \<Rightarrow> real \<Rightarrow> vec3 list \<Rightarrow> PerceptionUtils \<Rightarrow> (int \<times> PerceptionUtils) option" where
  "countVisibleCells p d caster pos yaw cluster u0 =
     (let u = setPose pos yaw u0 in
      map_option (\<lambda>n. (n, u))
        (fold_option (\<lambda>cell n. if \<not> insideFOV u cell then Some n
           else map_option (\<lambda>visib. if visib then n + 1 else n) (visible_cell p d caster pos cell)) cluster 0))"

definition cross_z :: "vec3 \<Rightarrow> vec3 \<Rightarrow> real" where
  "cross_z v w = fst v * fst (snd w) - fst (snd v) * fst w"

text \<open>The mean of the directions to the cells, relative to that of the first one.\<close>

definition average_yaw :: "vec3 \<Rightarrow> vec3 \<Rightarrow> vec3 list \<Rightarrow> real" where
  "average_yaw sample_pos c cs =
     (let ref_dir = normalized (zip3 (-) c sample_pos);
          yaw_of = (\<lambda>cell. let dir = normalized (zip3 (-) cell sample_pos); yaw = arccos (dot3 dir ref_dir)
            in if cross_z ref_dir dir < 0 then - yaw else yaw)
      in sum_list (map yaw_of cs) / real (length (c # cs)) + atan2 (fst (snd ref_dir)) (fst ref_dir))"

definition sample_viewpoint ::
  "finder_params \<Rightarrow> MapParam \<Rightarrow> MapData \<Rightarrow> RayCaster \<Rightarrow> real \<Rightarrow> real \<Rightarrow> Frontier \<times> PerceptionUtils \<Rightarrow>
     (Frontier \<times> PerceptionUtils) option" where
  "sample_viewpoint ff p d caster rc phi acc =
     (case acc of (ft, u) \<Rightarrow>
        let sample_pos = zip3 (\<lambda>a b. a + rc * b) (average ft) (cos phi, sin phi, 0) in
        if \<not> safe_sample ff p d sample_pos then Some acc
        else case filtered_cells ft of
               [] \<Rightarrow> None
             | c # cs \<Rightarrow>
                 Option.bind (wrapYaw (average_yaw sample_pos c cs)) (\<lambda>avg_yaw.
                 map_option (\<lambda>(n, u').
                   (if n > min_visib_num ff
                    then ft\<lparr>viewpoints := viewpoints ft @ [\<lparr>vp_pos = sample_pos, vp_yaw = avg_yaw, visib_num = n\<rparr>]\<rparr> else ft, u'))
                   (countVisibleCells p d caster sample_pos avg_yaw (c # cs) u)))"

text \<open>The radii; a number of zero makes the step infinite or undefined.\<close>

definition radii :: "finder_params \<Rightarrow> real list option" where
  "radii ff =
     (let lo = candidate_rmin ff; hi = candidate_rmax ff; cond = (\<lambda>rc. rc \<le> hi + 1 / 1000) in
      if candidate_rnum ff = 0 then (if \<not> cond lo then Some [] else if lo \<le> hi then Some [lo] else None)
      else loop_from lo ((hi - lo) / real_of_int (candidate_rnum ff)) cond)"

definition sampleViewpoints ::
  "finder_params \<Rightarrow> MapParam \<Rightarrow> MapData \<Rightarrow> RayCaster \<Rightarrow> Frontier \<times> PerceptionUtils \<Rightarrow> (Frontier \<times> PerceptionUtils) option" where
  "sampleViewpoints ff p d caster acc =
     Option.bind (radii ff) (\<lambda>rs. fold_option (\<lambda>rc acc'.
       Option.bind (loop_from (- pi) (candidate_dphi ff) (\<lambda>phi. phi < pi)) (\<lambda>phis.
         fold_option (sample_viewpoint ff p d caster rc) phis acc')) rs acc)"

definition computeGainOfView :: "MapParam \<Rightarrow> MapData \<Rightarrow> vec3 \<Rightarrow> real \<Rightarrow> PerceptionUtils \<Rightarrow> int \<times> PerceptionUtils" where
  "computeGainOfView p d pos yaw u0 =
     (let u = setPose pos yaw u0; ((x0, y0, z0), (x1, y1, z1)) = getFOVBoundingBox u;
          samples = [(x, y, z). x \<leftarrow> axis_samples x0 x1 (4 / 5), y \<leftarrow> axis_samples y0 y1 (4 / 5), z \<leftarrow> axis_samples z0 z1 (4 / 5)]
      in (int (length (filter (\<lambda>v. insideFOV u v \<and> getOccupancy p d (posToIndex p v) = Some UNKNOWN) samples)), u))"

section \<open>Frontiers to visit\<close>

definition renumber :: "Frontier list \<Rightarrow> Frontier list" where
  "renumber fts = map (\<lambda>(i, ft). ft\<lparr>ftr_id := int i\<rparr>) (enumerate 0 fts)"

definition better_view :: "Viewpoint \<Rightarrow> Viewpoint \<Rightarrow> bool" where
  "better_view v1 v2 \<longleftrightarrow> visib_num v1 > visib_num v2"

definition visit_step ::
  "finder_params \<Rightarrow> MapParam \<Rightarrow> MapData \<Rightarrow> RayCaster \<Rightarrow> Frontier \<Rightarrow> FrontierFinder \<times> Frontier list \<Rightarrow>
     (FrontierFinder \<times> Frontier list) option" where
  "visit_step ff p d caster tmp acc =
     (case acc of (s, tmps) \<Rightarrow>
        map_option (\<lambda>(ft, u).
          let s1 = s\<lparr>percep_utils := u\<rparr> in
          (if viewpoints ft \<noteq> []
           then s1\<lparr>frontiers := frontiers s1 @ [ft\<lparr>viewpoints := sort_by better_view (viewpoints ft)\<rparr>],
               first_new_ftr := (case first_new_ftr s1 of None \<Rightarrow> Some (length (frontiers s1)) | Some i \<Rightarrow> Some i)\<rparr>
           else s1\<lparr>dormant_frontiers := dormant_frontiers s1 @ [ft]\<rparr>, tmps @ [ft]))
          (sampleViewpoints ff p d caster (tmp, percep_utils s)))"

definition computeFrontiersToVisit ::
  "finder_params \<Rightarrow> MapParam \<Rightarrow> MapData \<Rightarrow> RayCaster \<Rightarrow> FrontierFinder \<Rightarrow> FrontierFinder option" where
  "computeFrontiersToVisit ff p d caster s =
     map_option (\<lambda>(s', tmps). s'\<lparr>frontiers := renumber (frontiers s'), tmp_frontiers := tmps\<rparr>)
       (fold_option (visit_step ff p d caster) (tmp_frontiers s) (s\<lparr>first_new_ftr := None\<rparr>, []))"

text \<open>\<open>deleteFrontiers\<close> walks along the list with the ids in ascending order, and does not reset the flags.\<close>

fun delete_marked :: "nat \<Rightarrow> int list \<Rightarrow> Frontier list \<Rightarrow> Frontier list \<times> nat list" where
  "delete_marked rmv_idx [] fts = (fts, [])"
| "delete_marked rmv_idx ids [] = ([], [])"
| "delete_marked rmv_idx (i # is) (ft # fts) =
     (if ftr_id ft = i then let (kept, removed) = delete_marked rmv_idx is fts in (kept, rmv_idx # removed)
      else let (kept, removed) = delete_marked (Suc rmv_idx) (i # is) fts in (ft # kept, removed))"

definition deleteFrontiers :: "int list \<Rightarrow> FrontierFinder \<Rightarrow> FrontierFinder \<times> int" where
  "deleteFrontiers ids s =
     (let (kept, removed) = delete_marked 0 (sort ids) (frontiers s)
      in (s\<lparr>frontiers := renumber kept, removed_ids := removed\<rparr>, int (length kept)))"

section \<open>Costs between clusters\<close>

text \<open>Removing the entries of removed clusters: the indices are those after the removals before.\<close>

fun erase_ids :: "nat list \<Rightarrow> 'a list \<Rightarrow> 'a list option" where
  "erase_ids [] xs = Some xs"
| "erase_ids (i # is) xs = (if i < length xs then erase_ids is (take i xs @ drop (Suc i) xs) else None)"

definition erase_costs :: "nat list \<Rightarrow> Frontier \<Rightarrow> Frontier option" where
  "erase_costs ids ft =
     (case (erase_ids ids (costs ft), erase_ids ids (paths ft)) of
        (Some cs, Some ps) \<Rightarrow> Some (ft\<lparr>costs := cs, paths := ps\<rparr>)
      | _ \<Rightarrow> None)"

type_synonym move_cost = "vec3 \<Rightarrow> vec3 \<Rightarrow> real \<Rightarrow> real \<Rightarrow> vec3 \<Rightarrow> (real \<times> vec3 list) option"

definition updateCost :: "move_cost \<Rightarrow> nat \<Rightarrow> nat \<Rightarrow> Frontier list \<Rightarrow> Frontier list option" where
  "updateCost cost i j fts =
     (case (viewpoints (fts ! i), viewpoints (fts ! j)) of
        (vui # _, vuj # _) \<Rightarrow>
          map_option (\<lambda>(cost_ij, path_ij).
            let add = (\<lambda>path ft. ft\<lparr>costs := costs ft @ [cost_ij], paths := paths ft @ [path]\<rparr>);
                fts1 = fts[i := add path_ij (fts ! i)]
            in fts1[j := add (rev path_ij) (fts1 ! j)])
            (cost (vp_pos vui) (vp_pos vuj) (vp_yaw vui) (vp_yaw vuj) (0, 0, 0))
      | _ \<Rightarrow> None)"

definition zero_cost :: "Frontier \<Rightarrow> Frontier" where
  "zero_cost ft = ft\<lparr>costs := costs ft @ [0], paths := paths ft @ [[]]\<rparr>"

definition cost_pair :: "move_cost \<Rightarrow> nat \<times> nat \<Rightarrow> Frontier list \<Rightarrow> Frontier list option" where
  "cost_pair cost ij fts =
     (case ij of (i, j) \<Rightarrow> if i = j then Some (fts[i := zero_cost (fts ! i)]) else updateCost cost i j fts)"

definition cost_pairs :: "nat \<Rightarrow> nat \<Rightarrow> (nat \<times> nat) list" where
  "cost_pairs new n = [(i, j). i \<leftarrow> [0..<new], j \<leftarrow> [new..<n]] @ [(i, j). i \<leftarrow> [new..<n], j \<leftarrow> [i..<n]]"

definition map_some :: "('a \<Rightarrow> 'b option) \<Rightarrow> 'a list \<Rightarrow> 'b list option" where
  "map_some f xs = foldr (\<lambda>x r. Option.bind (f x) (\<lambda>y. map_option ((#) y) r)) xs (Some [])"

definition updateFrontierCostMatrix :: "move_cost \<Rightarrow> FrontierFinder \<Rightarrow> FrontierFinder option" where
  "updateFrontierCostMatrix cost s =
     (let n = length (frontiers s); new = (case first_new_ftr s of None \<Rightarrow> n | Some i \<Rightarrow> i) in
      Option.bind
        (if removed_ids s \<noteq> [] then map_some (erase_costs (removed_ids s)) (take new (frontiers s))
         else Some (take new (frontiers s))) (\<lambda>olds.
      map_option (\<lambda>fts. s\<lparr>frontiers := fts, removed_ids := [], first_new_ftr := None\<rparr>)
        (fold_option (cost_pair cost) (cost_pairs new n) (olds @ drop new (frontiers s)))))"

section \<open>Cost matrices\<close>

type_synonym matrix = "real list list"

text \<open>A matrix by its entries.\<close>

definition matrix_of :: "nat \<Rightarrow> (nat \<Rightarrow> nat \<Rightarrow> real) \<Rightarrow> matrix" where
  "matrix_of n f = map (\<lambda>i. map (f i) [0..<n]) [0..<n]"

text \<open>The costs from a state to the best viewpoints; \<open>None\<close> for a frontier without viewpoints.\<close>

definition costs_from :: "move_cost \<Rightarrow> vec3 \<Rightarrow> vec3 \<Rightarrow> real \<Rightarrow> Frontier list \<Rightarrow> real list option" where
  "costs_from cost pos vel yaw fts =
     map_some (\<lambda>ft. case viewpoints ft of [] \<Rightarrow> None
       | v # _ \<Rightarrow> map_option fst (cost pos (vp_pos v) yaw (vp_yaw v) vel)) fts"

text \<open>Costs beyond the number of frontiers are outside of the matrix.\<close>

definition square_costs :: "Frontier list \<Rightarrow> bool" where
  "square_costs fts \<longleftrightarrow> (\<forall>ft \<in> set fts. length (costs ft) = length fts)"

definition getFullCostMatrix :: "move_cost \<Rightarrow> vec3 \<Rightarrow> vec3 \<Rightarrow> vec3 \<Rightarrow> FrontierFinder \<Rightarrow> matrix option" where
  "getFullCostMatrix cost cur_pos cur_vel cur_yaw s =
     (if \<not> square_costs (frontiers s) then None
      else map_option (\<lambda>cs. (0 # cs) # map (\<lambda>ft. 0 # costs ft) (frontiers s))
        (costs_from cost cur_pos cur_vel (fst cur_yaw) (frontiers s)))"

text \<open>The entries that do not depend on frontiers; all drones move from the yaw of the first.\<close>

definition swarm_entry :: "nat \<Rightarrow> (nat \<Rightarrow> nat \<Rightarrow> real) \<Rightarrow> (nat \<Rightarrow> nat \<Rightarrow> real) \<Rightarrow> nat \<Rightarrow> nat \<Rightarrow> real" where
  "swarm_entry drone_num drone_cost ftr_cost r c =
     (if r = c then 1000
      else if r = 0 then (if c \<le> drone_num then - 1000 else 1000)
      else if c = 0 then (if r \<le> drone_num then 1000 else 0)
      else if r \<le> drone_num then (if c \<le> drone_num then 10000 else drone_cost (r - 1) (c - 1 - drone_num))
      else if c \<le> drone_num then 0
      else ftr_cost (r - 1 - drone_num) (c - 1 - drone_num))"

definition getSwarmCostMatrix :: "move_cost \<Rightarrow> vec3 list \<Rightarrow> vec3 list \<Rightarrow> real list \<Rightarrow> FrontierFinder \<Rightarrow> matrix option" where
  "getSwarmCostMatrix cost positions velocities yaws s =
     (let drone_num = length positions; fts = frontiers s in
      if \<not> square_costs fts then None
      else map_option (\<lambda>rows. matrix_of (1 + drone_num + length fts)
          (swarm_entry drone_num (\<lambda>i j. rows ! i ! j) (\<lambda>i j. costs (fts ! i) ! j)))
        (map_some (\<lambda>i. costs_from cost (positions ! i) (velocities ! i) (hd yaws) fts) [0..<drone_num]))"

section \<open>Queries\<close>

definition far_view :: "finder_params \<Rightarrow> vec3 \<Rightarrow> Viewpoint \<Rightarrow> bool" where
  "far_view ff cur_pos v \<longleftrightarrow> \<not> vec_norm (zip3 (-) (vp_pos v) cur_pos) < min_candidate_dist ff"

text \<open>The first viewpoint that is far enough, or the first one; \<open>None\<close> without viewpoints.\<close>

definition top_view :: "finder_params \<Rightarrow> vec3 \<Rightarrow> Frontier \<Rightarrow> Viewpoint option" where
  "top_view ff cur_pos ft =
     (case List.find (far_view ff cur_pos) (viewpoints ft) of
        Some v \<Rightarrow> Some v
      | None \<Rightarrow> (case viewpoints ft of [] \<Rightarrow> None | v # _ \<Rightarrow> Some v))"

definition getTopViewpointsInfo ::
  "finder_params \<Rightarrow> vec3 \<Rightarrow> FrontierFinder \<Rightarrow> (vec3 list \<times> real list \<times> vec3 list) option" where
  "getTopViewpointsInfo ff cur_pos s =
     map_option (\<lambda>vs. (map vp_pos vs, map vp_yaw vs, map average (frontiers s)))
       (map_some (top_view ff cur_pos) (frontiers s))"

text \<open>The views down to a fraction of the best one, at most \<open>view_num\<close> of those that pass a test; the
  comparison with \<open>view_num\<close> is one of unsigned numbers.\<close>

fun take_views :: "int \<Rightarrow> int \<Rightarrow> (Viewpoint \<Rightarrow> bool) \<Rightarrow> nat \<Rightarrow> Viewpoint list \<Rightarrow> Viewpoint list" where
  "take_views view_num thresh ok n [] = []"
| "take_views view_num thresh ok n (v # vs) =
     (if int n \<ge> view_num mod 2 ^ 64 \<or> visib_num v \<le> thresh then []
      else if \<not> ok v then take_views view_num thresh ok n vs
      else v # take_views view_num thresh ok (Suc n) vs)"

definition frontier_views :: "finder_params \<Rightarrow> vec3 \<Rightarrow> int \<Rightarrow> real \<Rightarrow> Frontier \<Rightarrow> Viewpoint list option" where
  "frontier_views ff cur_pos view_num max_decay ft =
     (case viewpoints ft of
        [] \<Rightarrow> None
      | v # _ \<Rightarrow>
          let thresh = to_int_trunc (real_of_int (visib_num v) * max_decay);
              far = take_views view_num thresh (far_view ff cur_pos) 0 (viewpoints ft)
          in Some (if far = [] then take_views view_num thresh (\<lambda>_. True) 0 (viewpoints ft) else far))"

definition getViewpointsInfo ::
  "finder_params \<Rightarrow> vec3 \<Rightarrow> int list \<Rightarrow> int \<Rightarrow> real \<Rightarrow> FrontierFinder \<Rightarrow> (vec3 list list \<times> real list list) option" where
  "getViewpointsInfo ff cur_pos ids view_num max_decay s =
     map_option (\<lambda>vss. (map (map vp_pos) vss, map (map vp_yaw) vss))
       (map_some (frontier_views ff cur_pos view_num max_decay)
         (concat (map (\<lambda>i. filter (\<lambda>ft. ftr_id ft = i) (frontiers s)) ids)))"

definition getFrontiers :: "FrontierFinder \<Rightarrow> vec3 list list" where
  "getFrontiers s = map cells (frontiers s)"

definition getDormantFrontiers :: "FrontierFinder \<Rightarrow> vec3 list list" where
  "getDormantFrontiers s = map cells (dormant_frontiers s)"

definition getFrontierBoxes :: "FrontierFinder \<Rightarrow> (vec3 \<times> vec3) list" where
  "getFrontierBoxes s =
     map (\<lambda>ft. (map3 (\<lambda>x. x * (1 / 2)) (zip3 (+) (ftr_max ft) (ftr_min ft)), zip3 (-) (ftr_max ft) (ftr_min ft))) (frontiers s)"

text \<open>The paths of a tour, from the path to its first frontier on.\<close>

definition path_between :: "FrontierFinder \<Rightarrow> int \<Rightarrow> int \<Rightarrow> vec3 list option" where
  "path_between s i j =
     (if 0 \<le> i \<and> i < int (length (frontiers s)) then
        let ps = paths (frontiers s ! nat i); k = nat j in if k < length ps then Some (ps ! k) else None
      else None)"

definition getPathForTour ::
  "(vec3 \<Rightarrow> vec3 \<Rightarrow> (real \<times> vec3 list) option) \<Rightarrow> vec3 \<Rightarrow> int list \<Rightarrow> vec3 list \<Rightarrow> FrontierFinder \<Rightarrow> vec3 list option" where
  "getPathForTour search pos ids path s =
     (case ids of
        [] \<Rightarrow> Some path
      | i # _ \<Rightarrow>
          if \<not> (0 \<le> i \<and> i < int (length (frontiers s))) then None
          else case viewpoints (frontiers s ! nat i) of
                 [] \<Rightarrow> None
               | v # _ \<Rightarrow>
                   Option.bind (search pos (vp_pos v)) (\<lambda>(_, segment).
                     map_option (\<lambda>segs. path @ segment @ concat segs)
                       (map_some (\<lambda>k. path_between s (ids ! k) (ids ! Suc k)) [0..<length ids - 1])))"

text \<open>The matrix of selected frontiers, with the next cell of the tour as one more node.\<close>

definition next_grid_costs :: "finder_params \<Rightarrow> move_cost \<Rightarrow> vec3 \<Rightarrow> vec3 \<Rightarrow> int list \<Rightarrow> FrontierFinder \<Rightarrow> real list option" where
  "next_grid_costs ff cost pos next_grid ids s =
     Option.bind (getTopViewpointsInfo ff pos s) (\<lambda>(points, _, _).
       map_some (\<lambda>i. if 0 \<le> i \<and> i < int (length points)
         then map_option fst (cost next_grid (points ! nat i) 0 0 (0, 0, 0)) else None) ids)"

definition with_next_grid :: "nat \<Rightarrow> nat \<Rightarrow> real list \<Rightarrow> (nat \<Rightarrow> nat \<Rightarrow> real) \<Rightarrow> nat \<Rightarrow> nat \<Rightarrow> real" where
  "with_next_grid drone_num ftr_num grid_costs entry r c =
     (let g = 1 + drone_num + ftr_num in
      if r = g \<and> c = g then 1000
      else if r = g then (if c = 0 then - 1000 else if c \<le> drone_num then 1000 else grid_costs ! (c - 1 - drone_num))
      else if c = g then (if r \<le> drone_num then 1000 else grid_costs ! (r - 1 - drone_num))
      else entry r c)"

definition getSelectedCostMatrix ::
  "finder_params \<Rightarrow> move_cost \<Rightarrow> vec3 list \<Rightarrow> vec3 list \<Rightarrow> real list \<Rightarrow> int list \<Rightarrow> vec3 list \<Rightarrow> FrontierFinder \<Rightarrow> matrix option" where
  "getSelectedCostMatrix ff cost positions velocities yaws ftr_ids grid_pos s =
     Option.bind (getSwarmCostMatrix cost positions velocities yaws s) (\<lambda>full.
       let drone_num = length positions; ftr_num = length ftr_ids;
           at_ftr = (\<lambda>r k. full ! r ! nat (1 + int drone_num + ftr_ids ! k));
           entry = swarm_entry drone_num (\<lambda>i j. at_ftr (1 + i) j) (\<lambda>i j. at_ftr (nat (1 + int drone_num + ftr_ids ! i)) j)
       in if \<exists>i \<in> set ftr_ids. i < 0 \<or> i \<ge> int (length (frontiers s)) then None
          else case grid_pos of
                 [] \<Rightarrow> Some (matrix_of (1 + drone_num + ftr_num) entry)
               | g # _ \<Rightarrow>
                   map_option (\<lambda>cs. matrix_of (2 + drone_num + ftr_num) (with_next_grid drone_num ftr_num cs entry))
                     (next_grid_costs ff cost (hd positions) g ftr_ids s))"

section \<open>One update\<close>

text \<open>The calls of \<open>updateFrontierStruct\<close> on the finder: the state that the planner reads, before the costs
  are updated, and the final one.\<close>

definition update_finder ::
  "(vec3 list \<Rightarrow> vec3 list) \<Rightarrow> (mat2 \<Rightarrow> (real \<times> vec2) list) \<Rightarrow> move_cost \<Rightarrow> finder_params \<Rightarrow> MapParam \<Rightarrow> RayCaster \<Rightarrow>
     MapData \<times> MultiMapManager \<Rightarrow> FrontierFinder \<Rightarrow> (FrontierFinder \<times> FrontierFinder) option" where
  "update_finder downsample eigen cost ff p caster dm s =
     Option.bind (searchFrontiers downsample eigen ff p dm s) (\<lambda>s1.
     Option.bind (computeFrontiersToVisit ff p (fst dm) caster s1) (\<lambda>s2.
       if frontiers s2 = [] then Some (s2, s2)
       else map_option (\<lambda>s3. (s2, s3)) (updateFrontierCostMatrix cost s2)))"

end
