(* ===== verification/Frontier_Props.thy ===== *)
theory Frontier_Props imports Frontier_Clusters
begin

text \<open>
  The growing of clusters: the loop of \<open>expandFrontier\<close> ends without leaving the buffer of flags and
  collects exactly the connected frontier voxels that the code accepts for growth.
\<close>

section \<open>Boxes and neighbours\<close>

text \<open>The exploration box lies in the map, with a margin of a voxel.\<close>

definition box_inside :: "MapParam \<Rightarrow> bool" where
  "box_inside p \<longleftrightarrow> dims_ok p \<and> geometry_ok p \<and> box_min p = posToIndex p (box_mind p) \<and>
     box_max p = posToIndex p (box_maxd p) \<and> all3 (\<lambda>lo one. one \<le> lo) (box_min p) (1, 1, 1) \<and>
     all3 (\<lambda>hi n. hi + 2 \<le> n) (box_max p) (map_voxel_num p)"

definition closed_box :: "MapParam \<Rightarrow> idx3 \<Rightarrow> bool" where
  "closed_box p v \<longleftrightarrow> all3 (\<le>) (box_min p) v \<and> all3 (\<le>) v (box_max p)"

lemma box_insideD: "box_inside p \<Longrightarrow> dims_ok p" "box_inside p \<Longrightarrow> geometry_ok p"
  by (simp_all add: box_inside_def)

lemma inBox_closed: "isInBox p v \<Longrightarrow> closed_box p v"
  by (auto simp: isInBox_def closed_box_def all3_def split: prod.splits)

lemma neighbor_near:
  assumes "v \<in> set (allNeighbors (x, y, z))"
  obtains a b c where "v = (x + a, y + b, z + c)" "- 1 \<le> a" "a \<le> 1" "- 1 \<le> b" "b \<le> 1" "- 1 \<le> c" "c \<le> 1"
proof -
  let ?os = "[(x, y, z). x \<leftarrow> [- 1, 0, 1], y \<leftarrow> [- 1, 0, 1], z \<leftarrow> [- 1, 0, 1], \<not> (x = 0 \<and> y = 0 \<and> z = 0)] :: idx3 list"
  have "\<forall>w \<in> set ?os. case w of (a, b, c) \<Rightarrow> - 1 \<le> a \<and> a \<le> 1 \<and> - 1 \<le> b \<and> b \<le> 1 \<and> - 1 \<le> c \<and> c \<le> 1" by simp
  moreover obtain w where "w \<in> set ?os" "v = zip3 (+) (x, y, z) w" using assms unfolding allNeighbors_def set_map by blast
  ultimately show ?thesis using that by (cases w) auto
qed

lemma box_margins:
  assumes "box_inside p" "box_min p = (lx, ly, lz)" "box_max p = (hx, hy, hz)" "map_voxel_num p = (nx, ny, nz)"
    and "closed_box p (x, y, z)"
  shows "1 \<le> x" "1 \<le> y" "1 \<le> z" "x + 2 \<le> nx" "y + 2 \<le> ny" "z + 2 \<le> nz"
proof -
  have "1 \<le> lx" "1 \<le> ly" "1 \<le> lz" "hx + 2 \<le> nx" "hy + 2 \<le> ny" "hz + 2 \<le> nz"
    using assms(1-4) by (simp_all add: box_inside_def)
  moreover have "lx \<le> x" "ly \<le> y" "lz \<le> z" "x \<le> hx" "y \<le> hy" "z \<le> hz" using assms(2,3,5) by (simp_all add: closed_box_def)
  ultimately show "1 \<le> x" "1 \<le> y" "1 \<le> z" "x + 2 \<le> nx" "y + 2 \<le> ny" "z + 2 \<le> nz" by simp_all
qed

lemma closed_in_map:
  assumes "box_inside p" "closed_box p v"
  shows "isInMap p v"
proof -
  obtain x y z lx ly lz hx hy hz nx ny nz where e: "v = (x, y, z)" "box_min p = (lx, ly, lz)" "box_max p = (hx, hy, hz)"
    "map_voxel_num p = (nx, ny, nz)" by (metis prod.collapse)
  show ?thesis using box_margins [OF assms(1) e(2-4) assms(2) [unfolded e(1)]] by (simp add: e isInMap_def)
qed

lemma neighbor_in_map:
  assumes "box_inside p" "closed_box p u" "v \<in> set (allNeighbors u)"
  shows "isInMap p v"
proof -
  obtain x y z where u: "u = (x, y, z)" by (cases u)
  obtain a b c where v: "v = (x + a, y + b, z + c)" and r: "- 1 \<le> a" "a \<le> 1" "- 1 \<le> b" "b \<le> 1" "- 1 \<le> c" "c \<le> 1"
    using assms(3) unfolding u by (rule neighbor_near)
  obtain lx ly lz hx hy hz nx ny nz where e: "box_min p = (lx, ly, lz)" "box_max p = (hx, hy, hz)" "map_voxel_num p = (nx, ny, nz)"
    by (metis prod.collapse)
  then show ?thesis using box_margins [OF assms(1) e assms(2) [unfolded u]] r by (simp add: e v isInMap_def)
qed

lemma in_box_ids:
  "(x, y, z) \<in> set [(x, y, z). z \<leftarrow> [z0..z1], x \<leftarrow> [x0..x1], y \<leftarrow> [y0..y1]] \<longleftrightarrow>
     (x0 \<le> x \<and> x \<le> x1) \<and> (y0 \<le> y \<and> y \<le> y1) \<and> (z0 \<le> z \<and> z \<le> z1)"
  by (auto simp: image_iff)

lemma search_ids_closed:
  assumes "box_inside p" "v \<in> set (search_ids p box)"
  shows "closed_box p v"
proof -
  obtain lo hi where b: "box = (lo, hi)" by (cases box)
  obtain lx ly lz hx hy hz bx by' bz mx my mz ox oy oz where e: "lo = (lx, ly, lz)" "hi = (hx, hy, hz)"
    "box_mind p = (bx, by', bz)" "box_maxd p = (mx, my, mz)" "map_origin p = (ox, oy, oz)" by (metis prod.collapse)
  have inv: "0 < resolution_inv p" using assms(1) by (simp add: box_inside_def geometry_ok_def)
  have lo: "\<lfloor>(b - c) * resolution_inv p\<rfloor> \<le> \<lfloor>(max a b - c) * resolution_inv p\<rfloor>" for a b c
    using inv by (intro floor_mono mult_right_mono) simp_all
  have hi: "\<lfloor>(min a b - c) * resolution_inv p\<rfloor> \<le> \<lfloor>(b - c) * resolution_inv p\<rfloor>" for a b c
    using inv by (intro floor_mono mult_right_mono) simp_all
  have box: "box_min p = posToIndex p (box_mind p)" "box_max p = posToIndex p (box_maxd p)"
    using assms(1) by (simp_all add: box_inside_def)
  obtain x y z where v: "v = (x, y, z)" by (cases v)
  have m: "\<lfloor>(max (lx - 1) bx - ox) * resolution_inv p\<rfloor> \<le> x" "x \<le> \<lfloor>(min (hx + 1) mx - ox) * resolution_inv p\<rfloor>"
    "\<lfloor>(max (ly - 1) by' - oy) * resolution_inv p\<rfloor> \<le> y" "y \<le> \<lfloor>(min (hy + 1) my - oy) * resolution_inv p\<rfloor>"
    "\<lfloor>(max (lz - 1 / 5) bz - oz) * resolution_inv p\<rfloor> \<le> z" "z \<le> \<lfloor>(min (hz + 1 / 5) mz - oz) * resolution_inv p\<rfloor>"
    using assms(2) unfolding b search_ids_def e posToIndex_def v zip3_simp prod.case in_box_ids by blast+
  show ?thesis
    using order.trans [OF lo m(1)] order.trans [OF m(2) hi] order.trans [OF lo m(3)] order.trans [OF m(4) hi]
      order.trans [OF lo m(5)] order.trans [OF m(6) hi]
    unfolding closed_box_def box e posToIndex_def v zip3_simp all3_simp by (intro conjI)
qed

section \<open>Flags\<close>

definition flagged :: "MapParam \<Rightarrow> bool list \<Rightarrow> idx3 \<Rightarrow> bool" where
  "flagged p flags v = flags ! nat (toAddress p v)"

definition flags_ok :: "MapParam \<Rightarrow> bool list \<Rightarrow> bool" where
  "flags_ok p flags \<longleftrightarrow> length flags = nat (getVoxelNum p)"

lemma flag_at_ok: "dims_ok p \<Longrightarrow> flags_ok p flags \<Longrightarrow> isInMap p v \<Longrightarrow> flag_at flags (toAddress p v) = Some (flagged p flags v)"
  using voxel.encode_bounds [of p v] by (simp add: flag_at_def flagged_def flags_ok_def)

lemma set_flag_ok:
  assumes "dims_ok p" "flags_ok p flags" "isInMap p v"
  obtains flags' where "set_flag b (toAddress p v) flags = Some flags'" "flags' = flags[nat (toAddress p v) := b]" "flags_ok p flags'"
    "\<And>w. isInMap p w \<Longrightarrow> flagged p flags' w = (if w = v then b else flagged p flags w)"
proof (rule that [of "flags[nat (toAddress p v) := b]"])
  show "set_flag b (toAddress p v) flags = Some (flags[nat (toAddress p v) := b])"
    using voxel.encode_bounds [OF assms(1,3)] assms(2) by (simp add: set_flag_def flags_ok_def)
  show "flagged p (flags[nat (toAddress p v) := b]) w = (if w = v then b else flagged p flags w)" if "isInMap p w" for w
    using voxel.nth_update [OF assms(1,3) that, of flags b] assms(2) by (auto simp: flagged_def flags_ok_def)
qed (use assms(2) in \<open>simp_all add: flags_ok_def\<close>)

lemma finite_in_map: "dims_ok p \<Longrightarrow> finite {v. isInMap p v}"
  using bij_betw_finite [OF voxel.encode_bij [of p]] by simp

section \<open>One step of the growing\<close>

definition eligible :: "MapParam \<Rightarrow> MapData \<Rightarrow> idx3 \<Rightarrow> bool" where
  "eligible p d v \<longleftrightarrow> isInBox p v \<and> is_frontier p d v \<and> \<not> snd (snd (indexToPos p v)) < 1 / 5"

lemma visit_neighbors:
  assumes "dims_ok p" "\<forall>v \<in> set ns. isInMap p v" "flags_ok p flags"
  shows "\<exists>flags' new. fold_option (visit_neighbor p d) ns (flags, queue, expanded) =
      Some (flags', queue @ new, expanded @ map (indexToPos p) new) \<and> distinct new \<and>
    set new = {v \<in> set ns. eligible p d v \<and> \<not> flagged p flags v} \<and> flags_ok p flags' \<and>
    (\<forall>v. isInMap p v \<longrightarrow> flagged p flags' v = (flagged p flags v \<or> v \<in> set new))"
  using assms(2,3)
proof (induction ns arbitrary: flags queue expanded)
  case Nil
  then show ?case by simp
next
  case (Cons v ns)
  have v: "isInMap p v" and ns: "\<forall>v \<in> set ns. isInMap p v" using Cons.prems(1) by simp_all
  note at = flag_at_ok [OF assms(1) Cons.prems(2) v]
  show ?case
  proof (cases "eligible p d v \<and> \<not> flagged p flags v")
    case False
    then have "visit_neighbor p d v (flags, queue, expanded) = Some (flags, queue, expanded)"
      by (auto simp: visit_neighbor_def at eligible_def Let_def)
    then have step: "fold_option (visit_neighbor p d) (v # ns) (flags, queue, expanded) =
        fold_option (visit_neighbor p d) ns (flags, queue, expanded)" by simp
    have new: "{w \<in> set (v # ns). eligible p d w \<and> \<not> flagged p flags w} = {w \<in> set ns. eligible p d w \<and> \<not> flagged p flags w}"
      using False by auto
    show ?thesis unfolding step new by (rule Cons.IH [OF ns Cons.prems(2)])
  next
    case True
    obtain flags1 where f: "flags1 = flags[nat (toAddress p v) := True]" "flags_ok p flags1"
      "\<And>w. isInMap p w \<Longrightarrow> flagged p flags1 w = (if w = v then True else flagged p flags w)"
      using set_flag_ok [OF assms(1) Cons.prems(2) v, of True] by metis
    have step: "visit_neighbor p d v (flags, queue, expanded) = Some (flags1, queue @ [v], expanded @ [indexToPos p v])"
      using True by (auto simp: visit_neighbor_def at eligible_def Let_def f(1))
    obtain flags' new where r: "fold_option (visit_neighbor p d) ns (flags1, queue @ [v], expanded @ [indexToPos p v]) =
        Some (flags', (queue @ [v]) @ new, (expanded @ [indexToPos p v]) @ map (indexToPos p) new)" "distinct new"
      "set new = {w \<in> set ns. eligible p d w \<and> \<not> flagged p flags1 w}" "flags_ok p flags'"
      "\<forall>w. isInMap p w \<longrightarrow> flagged p flags' w = (flagged p flags1 w \<or> w \<in> set new)"
      using Cons.IH [OF ns f(2), of "queue @ [v]" "expanded @ [indexToPos p v]"] by (elim exE conjE) (rule that)
    have new: "set new = {w \<in> set ns. eligible p d w \<and> \<not> flagged p flags w \<and> w \<noteq> v}"
      unfolding r(3) using f(3) ns by (auto split: if_splits)
    show ?thesis
    proof (intro exI conjI)
      show "fold_option (visit_neighbor p d) (v # ns) (flags, queue, expanded) =
          Some (flags', queue @ (v # new), expanded @ map (indexToPos p) (v # new))" using step r(1) by simp
      show "distinct (v # new)" using r(2) new by simp
      show "set (v # new) = {w \<in> set (v # ns). eligible p d w \<and> \<not> flagged p flags w}" using new True by auto
      show "\<forall>w. isInMap p w \<longrightarrow> flagged p flags' w = (flagged p flags w \<or> w \<in> set (v # new))"
        using r(5) f(3) by auto
    qed (rule r(4))
  qed
qed

section \<open>A whole cluster\<close>

text \<open>From a voxel to its neighbours that are frontiers and not yet clustered.\<close>

definition grows :: "MapParam \<Rightarrow> MapData \<Rightarrow> bool list \<Rightarrow> (idx3 \<times> idx3) set" where
  "grows p d flags = {(u, v). v \<in> set (allNeighbors u) \<and> eligible p d v \<and> \<not> flagged p flags v}"

definition cluster_of :: "MapParam \<Rightarrow> MapData \<Rightarrow> bool list \<Rightarrow> idx3 \<Rightarrow> idx3 set" where
  "cluster_of p d flags first = (grows p d flags)\<^sup>* `` {first}"

definition unflagged :: "MapParam \<Rightarrow> bool list \<Rightarrow> idx3 set" where
  "unflagged p flags = {v. isInMap p v \<and> \<not> flagged p flags v}"

lemma cluster_closed:
  assumes "closed_box p first" "v \<in> cluster_of p d flags first"
  shows "closed_box p v" "v = first \<or> eligible p d v \<and> \<not> flagged p flags v"
proof -
  have "(first, v) \<in> (grows p d flags)\<^sup>*" using assms(2) by (simp add: cluster_of_def)
  then have "closed_box p v \<and> (v = first \<or> eligible p d v \<and> \<not> flagged p flags v)"
    by (induction rule: rtrancl_induct) (use assms(1) inBox_closed in \<open>auto simp: grows_def eligible_def\<close>)
  then show "closed_box p v" "v = first \<or> eligible p d v \<and> \<not> flagged p flags v" by simp_all
qed

lemma expand_loop_ok:
  assumes box: "box_inside p" "closed_box p first"
    and "flags_ok p flags" "distinct vs" "set queue \<subseteq> set vs" "first \<in> set vs" "set vs \<subseteq> cluster_of p d flags0 first"
    and "\<forall>v. isInMap p v \<longrightarrow> flagged p flags v = (flagged p flags0 v \<or> v \<in> set vs)"
    and "\<forall>u \<in> set vs - set queue. grows p d flags0 `` {u} \<subseteq> set vs"
  shows "\<exists>flags' vs'. expand_loop p d flags queue (map (indexToPos p) vs) = Some (flags', map (indexToPos p) vs') \<and>
    distinct vs' \<and> set vs' = cluster_of p d flags0 first \<and> flags_ok p flags' \<and>
    (\<forall>v. isInMap p v \<longrightarrow> flagged p flags' v = (flagged p flags0 v \<or> v \<in> set vs'))"
  using assms(3-)
proof (induction "2 * card (unflagged p flags) + length queue" arbitrary: flags queue vs rule: less_induct)
  case less
  note dims = box_insideD(1) [OF box(1)]
  show ?case
  proof (cases queue)
    case Nil
    have "cluster_of p d flags0 first \<subseteq> set vs"
    proof
      fix v
      assume "v \<in> cluster_of p d flags0 first"
      then have "(first, v) \<in> (grows p d flags0)\<^sup>*" by (simp add: cluster_of_def)
      then show "v \<in> set vs" by (induction rule: rtrancl_induct) (use less.prems(4,7) Nil in auto)
    qed
    then have "set vs = cluster_of p d flags0 first" using less.prems(5) by blast
    then show ?thesis using Nil less.prems(1,2,6) by (intro exI [of _ flags] exI [of _ vs]) (simp add: expand_loop.simps)
  next
    case (Cons cur rest)
    have cur: "cur \<in> set vs" "set rest \<subseteq> set vs" using less.prems(3) Cons by simp_all
    then have cl: "closed_box p cur" using cluster_closed(1) [OF box(2)] less.prems(5) by blast
    then have ns: "\<forall>v \<in> set (allNeighbors cur). isInMap p v" using neighbor_in_map [OF box(1)] by blast
    obtain flags1 new where r: "fold_option (visit_neighbor p d) (allNeighbors cur) (flags, rest, map (indexToPos p) vs) =
        Some (flags1, rest @ new, map (indexToPos p) vs @ map (indexToPos p) new)" "distinct new"
      "set new = {v \<in> set (allNeighbors cur). eligible p d v \<and> \<not> flagged p flags v}" "flags_ok p flags1"
      "\<forall>v. isInMap p v \<longrightarrow> flagged p flags1 v = (flagged p flags v \<or> v \<in> set new)"
      using visit_neighbors [OF dims ns less.prems(1), of d rest "map (indexToPos p) vs"] by (elim exE conjE) (rule that)
    have new: "set new = grows p d flags0 `` {cur} - set vs"
      using r(3) less.prems(6) ns by (auto simp: grows_def)
    have step: "expand_loop p d flags queue (map (indexToPos p) vs) = expand_loop p d flags1 (rest @ new) (map (indexToPos p) (vs @ new))"
      by (subst expand_loop.simps) (simp add: Cons r(1))
    have in_map: "isInMap p v" if "v \<in> set new" for v using that r(3) ns by auto
    have "unflagged p flags1 = unflagged p flags - set new" using r(5) by (auto simp: unflagged_def)
    moreover have "set new \<subseteq> unflagged p flags" using r(3) ns by (auto simp: unflagged_def)
    moreover have "finite (unflagged p flags)"
      by (rule finite_subset [OF _ finite_in_map [OF dims]]) (auto simp: unflagged_def)
    ultimately have card: "card (unflagged p flags1) + length new = card (unflagged p flags)"
      using distinct_card [OF r(2)] by (metis card_Diff_subset card_mono finite_set le_add_diff_inverse2)
    have "\<exists>flags' vs'. expand_loop p d flags1 (rest @ new) (map (indexToPos p) (vs @ new)) = Some (flags', map (indexToPos p) vs') \<and>
        distinct vs' \<and> set vs' = cluster_of p d flags0 first \<and> flags_ok p flags' \<and>
        (\<forall>v. isInMap p v \<longrightarrow> flagged p flags' v = (flagged p flags0 v \<or> v \<in> set vs'))"
    proof (rule less.hyps)
      show "2 * card (unflagged p flags1) + length (rest @ new) < 2 * card (unflagged p flags) + length queue"
        using card Cons by simp
      show "flags_ok p flags1" by (rule r(4))
      show "distinct (vs @ new)" using less.prems(2) r(2) new by auto
      show "set (rest @ new) \<subseteq> set (vs @ new)" using cur(2) by auto
      show "first \<in> set (vs @ new)" using less.prems(4) by simp
      have "v \<in> cluster_of p d flags0 first" if "v \<in> set new" for v
      proof -
        have "(first, cur) \<in> (grows p d flags0)\<^sup>*" using less.prems(5) cur(1) by (auto simp: cluster_of_def)
        moreover have "(cur, v) \<in> grows p d flags0" using that new by simp
        ultimately show ?thesis by (auto simp: cluster_of_def intro: rtrancl.rtrancl_into_rtrancl)
      qed
      then show "set (vs @ new) \<subseteq> cluster_of p d flags0 first" using less.prems(5) by auto
      show "\<forall>v. isInMap p v \<longrightarrow> flagged p flags1 v = (flagged p flags0 v \<or> v \<in> set (vs @ new))"
        using r(5) less.prems(6) by auto
      show "\<forall>u \<in> set (vs @ new) - set (rest @ new). grows p d flags0 `` {u} \<subseteq> set (vs @ new)"
      proof
        fix u
        assume u: "u \<in> set (vs @ new) - set (rest @ new)"
        show "grows p d flags0 `` {u} \<subseteq> set (vs @ new)"
        proof (cases "u = cur")
          case True
          then show ?thesis using new by auto
        next
          case False
          then have "u \<in> set vs - set queue" using u Cons by auto
          then have "grows p d flags0 `` {u} \<subseteq> set vs" using less.prems(7) by blast
          then show ?thesis by auto
        qed
      qed
    qed
    then show ?thesis unfolding step .
  qed
qed

end
