(* ===== verification/Frontier_Search.thy ===== *)
theory Frontier_Search imports Frontier_Props
begin

text \<open>The search for frontiers: the removal of changed clusters and the clusters of the new seeds.\<close>

section \<open>Clusters and flags\<close>

definition voxels :: "MapParam \<Rightarrow> Frontier \<Rightarrow> idx3 list" where
  "voxels p ft = map (posToIndex p) (cells ft)"

text \<open>The clusters do not overlap, their cells are centres of voxels of the box, and these are flagged.\<close>

definition clusters_ok :: "MapParam \<Rightarrow> bool list \<Rightarrow> Frontier list \<Rightarrow> bool" where
  "clusters_ok p flags fts \<longleftrightarrow> distinct (concat (map (voxels p) fts)) \<and>
     (\<forall>ft \<in> set fts. cells ft = map (indexToPos p) (voxels p ft) \<and> (\<forall>v \<in> set (voxels p ft). closed_box p v \<and> flagged p flags v))"

lemma clusters_okD:
  assumes "clusters_ok p flags fts" "ft \<in> set fts"
  shows "cells ft = map (indexToPos p) (voxels p ft)" "v \<in> set (voxels p ft) \<Longrightarrow> closed_box p v"
    "v \<in> set (voxels p ft) \<Longrightarrow> flagged p flags v"
  using assms by (auto simp: clusters_ok_def)

lemma clusters_ok_append:
  "clusters_ok p flags (fts @ gts) \<longleftrightarrow> clusters_ok p flags fts \<and> clusters_ok p flags gts \<and>
     set (concat (map (voxels p) fts)) \<inter> set (concat (map (voxels p) gts)) = {}"
  by (auto simp: clusters_ok_def)

lemma clusters_ok_flags:
  assumes "clusters_ok p flags fts" "box_inside p"
    and "\<And>v. v \<in> set (concat (map (voxels p) fts)) \<Longrightarrow> isInMap p v \<Longrightarrow> flagged p flags v \<Longrightarrow> flagged p flags' v"
  shows "clusters_ok p flags' fts"
proof -
  have "flagged p flags' v" if "ft \<in> set fts" "v \<in> set (voxels p ft)" for ft v
    by (rule assms(3)) (use that clusters_okD(2,3) [OF assms(1) that] closed_in_map [OF assms(2)] in auto)
  then show ?thesis using assms(1) unfolding clusters_ok_def by blast
qed

lemma clusters_ok_filter: "clusters_ok p flags fts \<Longrightarrow> clusters_ok p flags (filter P fts)"
proof -
  assume ok: "clusters_ok p flags fts"
  have "distinct (concat (map (voxels p) (filter P fts)))" if "distinct (concat (map (voxels p) fts))"
    using that by (induction fts) auto
  then show ?thesis using ok by (auto simp: clusters_ok_def)
qed

lemma clusters_ok_mset:
  assumes "clusters_ok p flags fts" "mset (concat (map cells gts)) = mset (concat (map cells fts))"
  shows "clusters_ok p flags gts"
proof -
  have vox: "concat (map (voxels p) hts) = map (posToIndex p) (concat (map cells hts))" for hts
    by (induction hts) (simp_all add: voxels_def)
  have "mset (concat (map (voxels p) gts)) = mset (concat (map (voxels p) fts))"
    unfolding vox mset_map by (simp only: assms(2))
  then have "distinct (concat (map (voxels p) gts))"
    using assms(1) by (metis clusters_ok_def mset_eq_imp_distinct_iff)
  moreover have "c = indexToPos p (posToIndex p c) \<and> closed_box p (posToIndex p c) \<and> flagged p flags (posToIndex p c)"
    if c: "ft \<in> set gts" "c \<in> set (cells ft)" for ft c
  proof -
    have "c \<in> set (concat (map cells fts))" using c mset_eq_setD [OF assms(2)] by auto
    then obtain ht where ht: "ht \<in> set fts" "c \<in> set (cells ht)" by auto
    then have v: "posToIndex p c \<in> set (voxels p ht)" by (simp add: voxels_def)
    have "map (\<lambda>c. indexToPos p (posToIndex p c)) (cells ht) = map (\<lambda>c. c) (cells ht)"
      using clusters_okD(1) [OF assms(1) ht(1)] unfolding voxels_def map_map comp_def map_ident by (rule sym)
    then have "\<forall>c \<in> set (cells ht). c = indexToPos p (posToIndex p c)" unfolding map_eq_conv by simp
    then show ?thesis using ht clusters_okD(2,3) [OF assms(1) ht(1) v] by simp
  qed
  ultimately show ?thesis
    unfolding clusters_ok_def voxels_def by (auto intro!: map_idI [symmetric])
qed

lemma set_voxels: "set (concat (map (voxels p) fts)) = posToIndex p ` set (concat (map cells fts))"
  by (auto simp: voxels_def)

section \<open>Removing changed clusters\<close>

lemma resetFlag_ok:
  assumes "box_inside p" "flags_ok p flags" "\<forall>v \<in> set (voxels p ft). closed_box p v"
  obtains flags' where "resetFlag p ft flags = Some flags'" "flags_ok p flags'"
    "\<And>v. isInMap p v \<Longrightarrow> flagged p flags' v = (flagged p flags v \<and> v \<notin> set (voxels p ft))"
proof -
  have "\<exists>flags'. fold_option (\<lambda>c. set_flag False (toAddress p (posToIndex p c))) cs flags = Some flags' \<and> flags_ok p flags' \<and>
      (\<forall>v. isInMap p v \<longrightarrow> flagged p flags' v = (flagged p flags v \<and> v \<notin> posToIndex p ` set cs))"
    if "flags_ok p flags" "\<forall>v \<in> posToIndex p ` set cs. closed_box p v" for cs flags
    using that
  proof (induction cs arbitrary: flags)
    case Nil
    then show ?case by simp
  next
    case (Cons c cs)
    have c: "isInMap p (posToIndex p c)" using closed_in_map [OF assms(1)] Cons.prems(2) by simp
    obtain flags1 where f: "set_flag False (toAddress p (posToIndex p c)) flags = Some flags1" "flags_ok p flags1"
      "\<And>w. isInMap p w \<Longrightarrow> flagged p flags1 w = (if w = posToIndex p c then False else flagged p flags w)"
      using set_flag_ok [OF box_insideD(1) [OF assms(1)] Cons.prems(1) c, of False] by metis
    have cs: "\<forall>v \<in> posToIndex p ` set cs. closed_box p v" using Cons.prems(2) by simp
    from Cons.IH [OF f(2) cs] obtain flags' where
      r: "fold_option (\<lambda>c. set_flag False (toAddress p (posToIndex p c))) cs flags1 = Some flags'" "flags_ok p flags'"
      "\<forall>v. isInMap p v \<longrightarrow> flagged p flags' v = (flagged p flags1 v \<and> v \<notin> posToIndex p ` set cs)" by blast
    show ?case by (intro exI [of _ flags'] conjI) (use f(1,3) r in \<open>auto split: if_splits\<close>)
  qed
  then show ?thesis using assms(2,3) that unfolding resetFlag_def voxels_def set_map by metis
qed

definition gone :: "MapParam \<Rightarrow> MapData \<Rightarrow> (vec3 \<times> vec3) list \<Rightarrow> Frontier \<Rightarrow> bool" where
  "gone p d boxes ft \<longleftrightarrow> haveAnyOverlap (ftr_min ft) (ftr_max ft) boxes \<and> isFrontierChanged p d ft"

lemma remove_changed_ok:
  assumes "box_inside p" "flags_ok p flags" "clusters_ok p flags0 fts"
  shows "\<exists>ids flags'. remove_changed p d boxes n fts flags = Some (filter (\<lambda>ft. \<not> gone p d boxes ft) fts, ids, flags') \<and>
    flags_ok p flags' \<and>
    (\<forall>v. isInMap p v \<longrightarrow> flagged p flags' v = (flagged p flags v \<and> v \<notin> set (concat (map (voxels p) (filter (gone p d boxes) fts)))))"
  using assms(2,3)
proof (induction fts arbitrary: flags n)
  case Nil
  then show ?case by simp
next
  case (Cons ft fts)
  have ok: "clusters_ok p flags0 fts" "\<forall>v \<in> set (voxels p ft). closed_box p v"
    using Cons.prems(2) by (auto simp: clusters_ok_def)
  show ?case
  proof (cases "gone p d boxes ft")
    case False
    have "remove_changed p d boxes n (ft # fts) flags =
        map_option (\<lambda>(kept, ids, flags2). (ft # kept, ids, flags2)) (remove_changed p d boxes (Suc n) fts flags)"
      using False unfolding remove_changed.simps gone_def [symmetric] by (rule if_not_P)
    then show ?thesis using Cons.IH [OF Cons.prems(1) ok(1), of "Suc n"] False by auto
  next
    case True
    obtain flags1 where f: "resetFlag p ft flags = Some flags1" "flags_ok p flags1"
      "\<And>v. isInMap p v \<Longrightarrow> flagged p flags1 v = (flagged p flags v \<and> v \<notin> set (voxels p ft))"
      using resetFlag_ok [OF assms(1) Cons.prems(1) ok(2)] by metis
    have "remove_changed p d boxes n (ft # fts) flags =
        map_option (\<lambda>(kept, ids, flags2). (kept, n # ids, flags2)) (remove_changed p d boxes n fts flags1)"
      using True f(1) by (simp add: gone_def)
    then show ?thesis using Cons.IH [OF f(2) ok(1), of n] True f(3) by auto
  qed
qed

section \<open>The cluster of a seed\<close>

lemma cluster_of_first:
  assumes "\<And>v. isInMap p v \<Longrightarrow> flagged p flags1 v = (if v = first then True else flagged p flags v)" "box_inside p" "closed_box p first"
  shows "cluster_of p d flags1 first = cluster_of p d flags first"
proof -
  have inm: "isInMap p v" if "v \<in> cluster_of p d flags first" for v
    using cluster_closed(1) [OF assms(3) that] closed_in_map [OF assms(2)] by blast
  have sub: "grows p d flags1 \<subseteq> grows p d flags"
  proof
    fix e
    assume "e \<in> grows p d flags1"
    moreover obtain u v where "e = (u, v)" by (cases e)
    moreover have "isInMap p v" if "eligible p d v"
      using that inBox_closed closed_in_map [OF assms(2)] by (simp add: eligible_def)
    ultimately show "e \<in> grows p d flags" using assms(1) by (auto simp: grows_def split: if_splits)
  qed
  have "v \<in> cluster_of p d flags1 first" if "(first, v) \<in> (grows p d flags)\<^sup>*" for v
    using that
  proof (induction rule: rtrancl_induct)
    case base
    show ?case by (simp add: cluster_of_def)
  next
    case (step u v)
    show ?case
    proof (cases "v = first")
      case True
      then show ?thesis by (simp add: cluster_of_def)
    next
      case False
      have "(first, v) \<in> (grows p d flags)\<^sup>*" using step.hyps by (rule rtrancl.rtrancl_into_rtrancl)
      then have "isInMap p v" by (intro inm) (simp add: cluster_of_def)
      then have "(u, v) \<in> grows p d flags1" using step.hyps(2) assms(1) False by (auto simp: grows_def)
      then show ?thesis using step.IH by (auto simp: cluster_of_def intro: rtrancl.rtrancl_into_rtrancl)
    qed
  qed
  then show ?thesis using rtrancl_mono [OF sub] by (auto simp: cluster_of_def)
qed

definition big_enough :: "finder_params \<Rightarrow> nat \<Rightarrow> bool" where
  "big_enough ff n \<longleftrightarrow> int n > cluster_min ff mod 2 ^ 64"

text \<open>A frontier as \<open>expandFrontier\<close> makes it of its cells.\<close>

definition fresh :: "(vec3 list \<Rightarrow> vec3 list) \<Rightarrow> Frontier \<Rightarrow> bool" where
  "fresh downsample ft \<longleftrightarrow> computeFrontierInfo downsample (empty_frontier\<lparr>cells := cells ft\<rparr>) = Some ft"

lemma computeFrontierInfo_cells: "computeFrontierInfo downsample ft = Some ft' \<Longrightarrow> cells ft' = cells ft \<and> cells ft \<noteq> []"
  by (auto simp: computeFrontierInfo_def split: list.splits)

lemma computeFrontierInfo_fresh:
  assumes "cs \<noteq> []"
  obtains ft where "computeFrontierInfo downsample (empty_frontier\<lparr>cells := cs\<rparr>) = Some ft" "cells ft = cs" "fresh downsample ft"
proof -
  obtain ft where ft: "computeFrontierInfo downsample (empty_frontier\<lparr>cells := cs\<rparr>) = Some ft"
    using assms by (cases cs) (auto simp: computeFrontierInfo_def)
  then have "cells ft = cs" using computeFrontierInfo_cells by fastforce
  then show ?thesis using ft that by (simp add: fresh_def)
qed

lemma expandFrontier_ok:
  assumes "box_inside p" "flags_ok p flags" "closed_box p first"
  obtains flags' vs ft where
    "expandFrontier downsample ff p d first (flags, tmps) = Some (flags', tmps @ (if big_enough ff (length vs) then [ft] else []))"
    "cells ft = map (indexToPos p) vs" "fresh downsample ft" "distinct vs" "set vs = cluster_of p d flags first" "flags_ok p flags'"
    "\<And>v. isInMap p v \<Longrightarrow> flagged p flags' v = (flagged p flags v \<or> v \<in> set vs)"
proof -
  note dims = box_insideD(1) [OF assms(1)]
  have first: "isInMap p first" by (rule closed_in_map [OF assms(1,3)])
  obtain flags1 where f: "set_flag True (toAddress p first) flags = Some flags1" "flags_ok p flags1"
    "\<And>w. isInMap p w \<Longrightarrow> flagged p flags1 w = (if w = first then True else flagged p flags w)"
    using set_flag_ok [OF dims assms(2) first, of True] by metis
  have c1: "cluster_of p d flags1 first = cluster_of p d flags first" by (rule cluster_of_first [OF f(3) assms(1,3)])
  have "\<exists>flags' vs'. expand_loop p d flags1 [first] (map (indexToPos p) [first]) = Some (flags', map (indexToPos p) vs') \<and>
    distinct vs' \<and> set vs' = cluster_of p d flags1 first \<and> flags_ok p flags' \<and>
    (\<forall>v. isInMap p v \<longrightarrow> flagged p flags' v = (flagged p flags1 v \<or> v \<in> set vs'))"
    by (rule expand_loop_ok [OF assms(1,3) f(2)]) (use f(3) first in \<open>auto simp: cluster_of_def\<close>)
  then obtain flags' vs where r: "expand_loop p d flags1 [first] [indexToPos p first] = Some (flags', map (indexToPos p) vs)"
    "distinct vs" "set vs = cluster_of p d flags first" "flags_ok p flags'"
    "\<And>v. isInMap p v \<Longrightarrow> flagged p flags' v = (flagged p flags1 v \<or> v \<in> set vs)"
    unfolding c1 by auto
  have fv: "first \<in> set vs" using r(3) by (simp add: cluster_of_def)
  then have "map (indexToPos p) vs \<noteq> []" by auto
  then obtain ft where ft: "computeFrontierInfo downsample (empty_frontier\<lparr>cells := map (indexToPos p) vs\<rparr>) = Some ft"
    "cells ft = map (indexToPos p) vs" "fresh downsample ft"
    by (rule computeFrontierInfo_fresh)
  have "expandFrontier downsample ff p d first (flags, tmps) =
      Some (flags', tmps @ (if big_enough ff (length vs) then [ft] else []))"
    by (simp add: expandFrontier_def f(1) r(1) ft(1) big_enough_def)
  then show ?thesis using that [OF _ ft(2,3) r(2-4)] r(5) f(3) fv by auto
qed

section \<open>Clusters of other seeds\<close>

lemma allNeighbors_sym: "v \<in> set (allNeighbors u) \<Longrightarrow> u \<in> set (allNeighbors v)"
proof -
  let ?os = "[(x, y, z). x \<leftarrow> [- 1, 0, 1], y \<leftarrow> [- 1, 0, 1], z \<leftarrow> [- 1, 0, 1], \<not> (x = 0 \<and> y = 0 \<and> z = 0)] :: idx3 list"
  assume "v \<in> set (allNeighbors u)"
  then obtain w where w: "w \<in> set ?os" "v = zip3 (+) u w" unfolding allNeighbors_def set_map by blast
  have "\<forall>w \<in> set ?os. map3 uminus w \<in> set ?os" by simp
  then have "map3 uminus w \<in> set ?os" using w(1) by blast
  moreover have "u = zip3 (+) v (map3 uminus w)" by (cases u; cases w) (simp add: w(2))
  ultimately show ?thesis unfolding allNeighbors_def set_map by blast
qed

lemma cluster_of_sub: "v \<in> cluster_of p d flags u \<Longrightarrow> cluster_of p d flags v \<subseteq> cluster_of p d flags u"
  by (auto simp: cluster_of_def)

text \<open>An unflagged voxel that a search can reach reaches back.\<close>

lemma cluster_of_sym:
  assumes "eligible p d v" "\<not> flagged p flags v" "w \<in> cluster_of p d flags v"
  shows "v \<in> cluster_of p d flags w"
proof -
  have "(v, w) \<in> (grows p d flags)\<^sup>*" using assms(3) by (simp add: cluster_of_def)
  then have "(w, v) \<in> (grows p d flags)\<^sup>* \<and> eligible p d w \<and> \<not> flagged p flags w"
  proof (induction rule: rtrancl_induct)
    case base
    then show ?case using assms(1,2) by simp
  next
    case (step u w)
    then have "(w, u) \<in> grows p d flags" "eligible p d w \<and> \<not> flagged p flags w"
      using allNeighbors_sym by (auto simp: grows_def)
    then show ?case using step.IH by (blast intro: converse_rtrancl_into_rtrancl)
  qed
  then show ?thesis by (simp add: cluster_of_def)
qed

text \<open>The flags of one cluster do not cut off a voxel of another.\<close>

lemma other_cluster_kept:
  assumes box: "box_inside p" and v: "eligible p d v" "\<not> flagged p flags v" "v \<notin> cluster_of p d flags cur"
    and f: "\<And>w. isInMap p w \<Longrightarrow> flagged p flags1 w = (flagged p flags w \<or> w \<in> cluster_of p d flags cur)"
  shows "cluster_of p d flags v \<subseteq> cluster_of p d flags1 v"
proof
  fix w
  assume "w \<in> cluster_of p d flags v"
  then have "(v, w) \<in> (grows p d flags)\<^sup>*" by (simp add: cluster_of_def)
  then have "(v, w) \<in> (grows p d flags1)\<^sup>*"
  proof (induction rule: rtrancl_induct)
    case (step u w)
    have w: "w \<in> cluster_of p d flags v" "eligible p d w"
      using rtrancl.rtrancl_into_rtrancl [OF step.hyps] step.hyps(2) by (simp_all add: cluster_of_def grows_def)
    then have "v \<in> cluster_of p d flags w" by (intro cluster_of_sym [OF v(1,2)])
    then have "w \<notin> cluster_of p d flags cur" using cluster_of_sub v(3) by blast
    moreover have "isInMap p w" using w(2) inBox_closed closed_in_map [OF box] by (simp add: eligible_def)
    ultimately have "(u, w) \<in> grows p d flags1" using step.hyps(2) f by (auto simp: grows_def)
    then show ?case using step.IH by (rule rtrancl.rtrancl_into_rtrancl [rotated])
  qed simp
  then show "w \<in> cluster_of p d flags1 v" by (simp add: cluster_of_def)
qed

lemma finite_cluster:
  assumes "box_inside p" "eligible p d v"
  shows "finite (cluster_of p d flags v)"
proof -
  obtain lx ly lz hx hy hz where b: "box_min p = (lx, ly, lz)" "box_max p = (hx, hy, hz)" by (metis prod.collapse)
  have "closed_box p v" using assms(2) inBox_closed by (simp add: eligible_def)
  then have "cluster_of p d flags v \<subseteq> {lx..hx} \<times> {ly..hy} \<times> {lz..hz}"
    using cluster_closed(1) by (fastforce simp: closed_box_def b)
  then show ?thesis by (rule finite_subset) simp
qed

lemma big_enough_mono: "big_enough ff m \<Longrightarrow> m \<le> n \<Longrightarrow> big_enough ff n"
  by (simp add: big_enough_def)

section \<open>All seeds\<close>

text \<open>No big cluster is lost: a voxel that a search can reach and that was flagged by the seeds, or is one of
  them, is in a kept cluster unless its own cluster is too small.\<close>

lemma seeds_ok:
  assumes box: "box_inside p" and "\<forall>v \<in> set curs. closed_box p v"
    and "flags_ok p flags" "clusters_ok p flags (others @ tmps)"
  shows "\<exists>flags' new. fold_option (seed_step downsample ff p d) curs (flags, tmps) = Some (flags', tmps @ new) \<and>
    flags_ok p flags' \<and> clusters_ok p flags' (others @ tmps @ new) \<and>
    (\<forall>ft \<in> set new. fresh downsample ft \<and> big_enough ff (length (cells ft)) \<and> (\<forall>v \<in> set (voxels p ft). is_frontier p d v)) \<and>
    (\<forall>v. isInMap p v \<longrightarrow> flagged p flags v \<longrightarrow> flagged p flags' v) \<and>
    (\<forall>v \<in> set curs. is_frontier p d v \<longrightarrow> flagged p flags' v) \<and>
    (\<forall>v. eligible p d v \<longrightarrow> \<not> flagged p flags v \<longrightarrow> flagged p flags' v \<longrightarrow> big_enough ff (card (cluster_of p d flags v)) \<longrightarrow>
       v \<in> set (concat (map (voxels p) new)))"
  using assms(2-)
proof (induction curs arbitrary: flags tmps)
  case Nil
  then show ?case by simp
next
  case (Cons cur curs)
  have cur: "closed_box p cur" "isInMap p cur" and curs: "\<forall>v \<in> set curs. closed_box p v"
    using Cons.prems(1) closed_in_map [OF box] by simp_all
  note at = flag_at_ok [OF box_insideD(1) [OF box] Cons.prems(2) cur(2)]
  show ?case
  proof (cases "\<not> flagged p flags cur \<and> is_frontier p d cur")
    case False
    then have "seed_step downsample ff p d cur (flags, tmps) = Some (flags, tmps)" by (auto simp: seed_step_def at)
    then have step: "fold_option (seed_step downsample ff p d) (cur # curs) (flags, tmps) =
        fold_option (seed_step downsample ff p d) curs (flags, tmps)" by simp
    obtain flags' new where r: "fold_option (seed_step downsample ff p d) curs (flags, tmps) = Some (flags', tmps @ new)"
      "flags_ok p flags'" "clusters_ok p flags' (others @ tmps @ new)"
      "\<forall>ft \<in> set new. fresh downsample ft \<and> big_enough ff (length (cells ft)) \<and> (\<forall>v \<in> set (voxels p ft). is_frontier p d v)"
      "\<forall>v. isInMap p v \<longrightarrow> flagged p flags v \<longrightarrow> flagged p flags' v" "\<forall>v \<in> set curs. is_frontier p d v \<longrightarrow> flagged p flags' v"
      "\<forall>v. eligible p d v \<longrightarrow> \<not> flagged p flags v \<longrightarrow> flagged p flags' v \<longrightarrow> big_enough ff (card (cluster_of p d flags v)) \<longrightarrow>
         v \<in> set (concat (map (voxels p) new))"
      using Cons.IH [OF curs Cons.prems(2,3)] by (elim exE conjE) (rule that)
    have "\<forall>v \<in> set (cur # curs). is_frontier p d v \<longrightarrow> flagged p flags' v" using r(5,6) False cur(2) by (metis set_ConsD)
    then show ?thesis unfolding step using r(1-5,7) by blast
  next
    case True
    obtain flags1 vs ft where e: "expandFrontier downsample ff p d cur (flags, tmps) = Some (flags1, tmps @ (if big_enough ff (length vs) then [ft] else []))"
      "cells ft = map (indexToPos p) vs" "fresh downsample ft" "distinct vs" "set vs = cluster_of p d flags cur" "flags_ok p flags1"
      "\<And>v. isInMap p v \<Longrightarrow> flagged p flags1 v = (flagged p flags v \<or> v \<in> set vs)"
      by (rule expandFrontier_ok [OF box Cons.prems(2) cur(1), of downsample ff d tmps]) (rule that; blast)
    let ?one = "if big_enough ff (length vs) then [ft] else []"
    have step: "fold_option (seed_step downsample ff p d) (cur # curs) (flags, tmps) =
        fold_option (seed_step downsample ff p d) curs (flags1, tmps @ ?one)"
      using True by (simp add: seed_step_def at e(1))
    have vox: "voxels p ft = vs" by (simp add: voxels_def e(2) comp_def posToIndex_indexToPos [OF box_insideD(2) [OF box]])
    have vs: "closed_box p v" "\<not> flagged p flags v" "is_frontier p d v" if "v \<in> set vs" for v
      using cluster_closed [OF cur(1), of v d flags] that True unfolding e(5) by (auto simp: eligible_def)
    have "clusters_ok p flags1 (others @ tmps)"
      by (rule clusters_ok_flags [OF Cons.prems(3) box]) (simp add: e(7))
    moreover have "clusters_ok p flags1 ?one"
      using e(4) e(7) vs(1) closed_in_map [OF box] by (auto simp: clusters_ok_def vox e(2))
    moreover have "set (concat (map (voxels p) (others @ tmps))) \<inter> set (concat (map (voxels p) ?one)) = {}"
    proof -
      have old: "flagged p flags v" if "v \<in> set (concat (map (voxels p) (others @ tmps)))" for v
      proof -
        obtain gt where "gt \<in> set (others @ tmps)" "v \<in> set (voxels p gt)" using \<open>v \<in> _\<close> by auto
        then show ?thesis by (rule clusters_okD(3) [OF Cons.prems(3)])
      qed
      have "set (concat (map (voxels p) ?one)) \<subseteq> set vs" using vox by simp
      then show ?thesis using vs(2) old by blast
    qed
    ultimately have ok1: "clusters_ok p flags1 (others @ tmps @ ?one)"
      using clusters_ok_append [of p flags1 "others @ tmps" ?one] by simp
    obtain flags' new where r: "fold_option (seed_step downsample ff p d) curs (flags1, tmps @ ?one) = Some (flags', (tmps @ ?one) @ new)"
      "flags_ok p flags'" "clusters_ok p flags' (others @ (tmps @ ?one) @ new)"
      "\<forall>ft \<in> set new. fresh downsample ft \<and> big_enough ff (length (cells ft)) \<and> (\<forall>v \<in> set (voxels p ft). is_frontier p d v)"
      "\<forall>v. isInMap p v \<longrightarrow> flagged p flags1 v \<longrightarrow> flagged p flags' v" "\<forall>v \<in> set curs. is_frontier p d v \<longrightarrow> flagged p flags' v"
      "\<forall>v. eligible p d v \<longrightarrow> \<not> flagged p flags1 v \<longrightarrow> flagged p flags' v \<longrightarrow> big_enough ff (card (cluster_of p d flags1 v)) \<longrightarrow>
         v \<in> set (concat (map (voxels p) new))"
      using Cons.IH [OF curs e(6) ok1] by (elim exE conjE) (rule that)
    have cv: "cur \<in> set vs" by (simp add: e(5) cluster_of_def)
    have one: "\<forall>gt \<in> set ?one. fresh downsample gt \<and> big_enough ff (length (cells gt)) \<and> (\<forall>v \<in> set (voxels p gt). is_frontier p d v)"
      using e(2,3) vs(3) vox by simp
    have kept: "v \<in> set (concat (map (voxels p) (?one @ new)))"
      if v: "eligible p d v" "\<not> flagged p flags v" "flagged p flags' v" "big_enough ff (card (cluster_of p d flags v))" for v
    proof (cases "v \<in> set vs")
      case True
      then have "cluster_of p d flags v \<subseteq> set vs" unfolding e(5) by (rule cluster_of_sub)
      then have "card (cluster_of p d flags v) \<le> length vs"
        using card_mono [of "set vs"] distinct_card [OF e(4)] by simp
      then have "big_enough ff (length vs)" by (rule big_enough_mono [OF v(4)])
      then show ?thesis using True vox by simp
    next
      case False
      have inm: "isInMap p v" using v(1) inBox_closed closed_in_map [OF box] by (simp add: eligible_def)
      have "cluster_of p d flags v \<subseteq> cluster_of p d flags1 v"
        by (rule other_cluster_kept [OF box v(1,2)]) (use False e(5,7) in auto)
      then have "big_enough ff (card (cluster_of p d flags1 v))"
        using big_enough_mono [OF v(4)] card_mono [OF finite_cluster [OF box v(1)]] by blast
      moreover have "\<not> flagged p flags1 v" using False v(2) e(7) [OF inm] by simp
      ultimately have "v \<in> set (concat (map (voxels p) new))" using r(7) v(1,3) by blast
      then show ?thesis by simp
    qed
    show ?thesis
    proof (intro exI conjI)
      show "fold_option (seed_step downsample ff p d) (cur # curs) (flags, tmps) = Some (flags', tmps @ (?one @ new))"
        unfolding step using r(1) by simp
      show "clusters_ok p flags' (others @ tmps @ ?one @ new)" using r(3) by simp
      show "\<forall>ft \<in> set (?one @ new). fresh downsample ft \<and> big_enough ff (length (cells ft)) \<and> (\<forall>v \<in> set (voxels p ft). is_frontier p d v)"
        using one r(4) by (auto split: if_splits)
      show "\<forall>v. isInMap p v \<longrightarrow> flagged p flags v \<longrightarrow> flagged p flags' v" using r(5) e(7) by blast
      show "\<forall>v \<in> set (cur # curs). is_frontier p d v \<longrightarrow> flagged p flags' v" using r(5,6) e(7) [OF cur(2)] cv cur(2) by (metis set_ConsD)
      show "\<forall>v. eligible p d v \<longrightarrow> \<not> flagged p flags v \<longrightarrow> flagged p flags' v \<longrightarrow>
          big_enough ff (card (cluster_of p d flags v)) \<longrightarrow> v \<in> set (concat (map (voxels p) (?one @ new)))"
        using kept by blast
    qed (rule r(2))
  qed
qed

end
