(* ===== verification/Frontier_Costs.thy ===== *)
theory Frontier_Costs imports Frontier_Views Frontier_Search
begin

text \<open>
  The costs between clusters: the bookkeeping with removed and new clusters leaves, for each cluster, its
  cost to every other one in the order of the list, the same in both directions.
\<close>

section \<open>Symmetric tables\<close>

definition table_ok :: "nat \<Rightarrow> (nat \<Rightarrow> nat \<Rightarrow> real) \<Rightarrow> (nat \<Rightarrow> nat \<Rightarrow> vec3 list) \<Rightarrow> bool" where
  "table_ok n E P \<longleftrightarrow> (\<forall>i < n. \<forall>j < n. E i j = E j i \<and> P i j = rev (P j i)) \<and> (\<forall>i < n. E i i = 0 \<and> P i i = [])"

definition has_table :: "Frontier list \<Rightarrow> nat list \<Rightarrow> (nat \<Rightarrow> nat \<Rightarrow> real) \<Rightarrow> (nat \<Rightarrow> nat \<Rightarrow> vec3 list) \<Rightarrow> bool" where
  "has_table fts js E P \<longleftrightarrow> (\<forall>i < length fts. costs (fts ! i) = map (E i) js \<and> paths (fts ! i) = map (P i) js)"

definition costs_ok :: "Frontier list \<Rightarrow> bool" where
  "costs_ok fts \<longleftrightarrow> (\<exists>E P. table_ok (length fts) E P \<and> has_table fts [0..<length fts] E P)"

lemma costs_okD:
  assumes "costs_ok fts" "i < length fts" "j < length fts"
  shows "length (costs (fts ! i)) = length fts" "costs (fts ! i) ! j = costs (fts ! j) ! i" "costs (fts ! i) ! i = 0"
    "length (paths (fts ! i)) = length fts" "paths (fts ! i) ! j = rev (paths (fts ! j) ! i)"
proof -
  obtain E P where t: "table_ok (length fts) E P" "has_table fts [0..<length fts] E P" using assms(1) unfolding costs_ok_def by blast
  have row: "costs (fts ! k) = map (E k) [0..<length fts]" "paths (fts ! k) = map (P k) [0..<length fts]" if "k < length fts" for k
    using t(2) that by (simp_all add: has_table_def)
  have sym: "E i j = E j i" "P i j = rev (P j i)" "E i i = 0" using t(1) assms(2,3) unfolding table_ok_def by blast+
  show "length (costs (fts ! i)) = length fts" "costs (fts ! i) ! j = costs (fts ! j) ! i" "costs (fts ! i) ! i = 0"
    "length (paths (fts ! i)) = length fts" "paths (fts ! i) ! j = rev (paths (fts ! j) ! i)"
    using assms(2,3) by (simp_all add: row [OF assms(2)] row [OF assms(3)] sym)
qed

section \<open>Removed clusters\<close>

lemma remove_changed_ids:
  assumes "remove_changed p d boxes n fts flags = Some (kept, ids, flags')" "length pre = n" "length xs = length fts"
  shows "erase_ids ids (pre @ xs) = Some (pre @ map fst (filter (\<lambda>(x, ft). \<not> gone p d boxes ft) (zip xs fts)))"
  using assms
proof (induction fts arbitrary: n flags kept ids pre xs)
  case Nil
  then show ?case by simp
next
  case (Cons ft fts)
  obtain x xs' where xs: "xs = x # xs'" "length xs' = length fts" using Cons.prems(3) by (cases xs) auto
  show ?case
  proof (cases "gone p d boxes ft")
    case False
    have eq: "remove_changed p d boxes n (ft # fts) flags =
        map_option (\<lambda>(kept, ids, flags2). (ft # kept, ids, flags2)) (remove_changed p d boxes (Suc n) fts flags)"
      using False unfolding remove_changed.simps gone_def [symmetric] by (rule if_not_P)
    obtain k' where r: "remove_changed p d boxes (Suc n) fts flags = Some (k', ids, flags')"
      using Cons.prems(1) unfolding eq by auto
    show ?thesis using Cons.IH [OF r, of "pre @ [x]" xs'] Cons.prems(2) xs False by simp
  next
    case True
    have eq: "remove_changed p d boxes n (ft # fts) flags = Option.bind (resetFlag p ft flags) (\<lambda>flags1.
             map_option (\<lambda>(kept, ids, flags2). (kept, n # ids, flags2)) (remove_changed p d boxes n fts flags1))"
      using True unfolding remove_changed.simps gone_def [symmetric] by (rule if_P)
    obtain flags1 ids' where r: "remove_changed p d boxes n fts flags1 = Some (kept, ids', flags')" "ids = n # ids'"
      using Cons.prems(1) unfolding eq by (auto simp: bind_eq_Some_conv)
    show ?thesis using Cons.IH [OF r(1), of pre xs'] Cons.prems(2) xs True by (simp add: r(2))
  qed
qed

definition kept_ids :: "(Frontier \<Rightarrow> bool) \<Rightarrow> Frontier list \<Rightarrow> nat list" where
  "kept_ids gone_ft fts = filter (\<lambda>i. \<not> gone_ft (fts ! i)) [0..<length fts]"

lemma filter_zip_nth:
  assumes "length xs = length fts"
  shows "map fst (filter (\<lambda>(x, ft). Q ft) (zip xs fts)) = map ((!) xs) (filter (\<lambda>i. Q (fts ! i)) [0..<length fts])"
proof -
  have "zip xs fts = map (\<lambda>i. (xs ! i, fts ! i)) [0..<length fts]" using assms by (intro nth_equalityI) auto
  then show ?thesis by (simp add: filter_map comp_def)
qed

lemma erase_kept:
  assumes "remove_changed p d boxes 0 fts flags = Some (kept, ids, flags')"
  shows "erase_ids ids (map f [0..<length fts]) = Some (map f (kept_ids (gone p d boxes) fts))"
proof -
  have "erase_ids ids ([] @ map f [0..<length fts]) =
      Some ([] @ map fst (filter (\<lambda>(x, ft). \<not> gone p d boxes ft) (zip (map f [0..<length fts]) fts)))"
    by (rule remove_changed_ids [OF assms]) simp_all
  moreover have "map fst (filter (\<lambda>(x, ft). \<not> gone p d boxes ft) (zip (map f [0..<length fts]) fts)) =
      map ((!) (map f [0..<length fts])) (kept_ids (gone p d boxes) fts)"
    unfolding kept_ids_def by (rule filter_zip_nth) simp
  moreover have "map ((!) (map f [0..<length fts])) (kept_ids (gone p d boxes) fts) = map f (kept_ids (gone p d boxes) fts)"
    by (rule map_cong) (auto simp: kept_ids_def)
  ultimately show ?thesis by simp
qed

lemma kept_nth: "filter (\<lambda>ft. \<not> g ft) fts = map ((!) fts) (kept_ids g fts)"
proof -
  have "filter (\<lambda>ft. \<not> g ft) (map ((!) fts) [0..<length fts]) = map ((!) fts) (kept_ids g fts)"
    by (simp add: filter_map comp_def kept_ids_def)
  then show ?thesis by (simp only: map_nth)
qed

text \<open>The kept clusters lose the entries of the removed ones.\<close>

lemma map_some_eq: "\<forall>x \<in> set xs. f x = Some (g x) \<Longrightarrow> map_some f xs = Some (map g xs)"
  by (induction xs) (simp_all add: map_some_def)

lemma erase_costs_kept:
  assumes "remove_changed p d boxes 0 fts flags = Some (kept, ids, flags')" "costs_ok fts"
    and "kept = filter (\<lambda>ft. \<not> gone p d boxes ft) fts"
    and "map costs ks = map costs kept" "map paths ks = map paths kept"
  shows "\<exists>olds E P. map_some (erase_costs ids) ks = Some olds \<and> length olds = length ks \<and>
    (\<forall>i < length olds. \<exists>cs ps. olds ! i = (ks ! i)\<lparr>costs := cs, paths := ps\<rparr>) \<and>
    table_ok (length olds) E P \<and> has_table olds [0..<length olds] E P"
proof -
  obtain E P where t: "table_ok (length fts) E P" "has_table fts [0..<length fts] E P" using assms(2) by (auto simp: costs_ok_def)
  let ?K = "kept_ids (gone p d boxes) fts"
  have kept: "kept = map ((!) fts) ?K" unfolding assms(3) by (rule kept_nth)
  have len: "length ks = length ?K" using arg_cong [OF assms(4), of length] by (simp add: kept)
  have K: "?K ! i < length fts" if "i < length ?K" for i using nth_mem [OF that] by (simp add: kept_ids_def)
  have entries: "costs (ks ! i) = map (E (?K ! i)) [0..<length fts]" "paths (ks ! i) = map (P (?K ! i)) [0..<length fts]" if i: "i < length ?K" for i
  proof -
    have "costs (ks ! i) = costs (kept ! i)" "paths (ks ! i) = paths (kept ! i)"
      using arg_cong [OF assms(4), of "\<lambda>xs. xs ! i"] arg_cong [OF assms(5), of "\<lambda>xs. xs ! i"] i len by (simp_all add: kept)
    then show "costs (ks ! i) = map (E (?K ! i)) [0..<length fts]" "paths (ks ! i) = map (P (?K ! i)) [0..<length fts]"
      using t(2) K [OF i] i by (simp_all add: has_table_def kept)
  qed
  let ?g = "\<lambda>i. (ks ! i)\<lparr>costs := map (E (?K ! i)) ?K, paths := map (P (?K ! i)) ?K\<rparr>"
  have "erase_costs ids (ks ! i) = Some (?g i)" if "i < length ks" for i
    using entries [of i] that len erase_kept [OF assms(1), of "E (?K ! i)"] erase_kept [OF assms(1), of "P (?K ! i)"]
    by (simp add: erase_costs_def)
  then have "map_some (\<lambda>i. erase_costs ids (ks ! i)) [0..<length ks] = Some (map ?g [0..<length ks])" by (intro map_some_eq) simp
  moreover have "map_some (erase_costs ids) (map ((!) ks) [0..<length ks]) = map_some (\<lambda>i. erase_costs ids (ks ! i)) [0..<length ks]"
    by (simp add: map_some_def foldr_map comp_def)
  ultimately have run: "map_some (erase_costs ids) ks = Some (map ?g [0..<length ks])" by (simp only: map_nth)
  have tab: "table_ok (length ?K) (\<lambda>i j. E (?K ! i) (?K ! j)) (\<lambda>i j. P (?K ! i) (?K ! j))"
    using t(1) K unfolding table_ok_def by blast
  have at: "map f ?K = map (\<lambda>j. f (?K ! j)) [0..<length ?K]" for f :: "nat \<Rightarrow> 'c"
    by (rule nth_equalityI) simp_all
  have has: "has_table (map ?g [0..<length ks]) [0..<length ?K] (\<lambda>i j. E (?K ! i) (?K ! j)) (\<lambda>i j. P (?K ! i) (?K ! j))"
    unfolding has_table_def using len by (auto intro: at)
  show ?thesis
    by (rule exI [of _ "map ?g [0..<length ks]"], rule exI [of _ "\<lambda>i j. E (?K ! i) (?K ! j)"], rule exI [of _ "\<lambda>i j. P (?K ! i) (?K ! j)"])
      (use run tab has len in auto)
qed

section \<open>New costs\<close>

text \<open>The other cluster of each pair in which a cluster occurs.\<close>

definition partners :: "nat \<Rightarrow> (nat \<times> nat) list \<Rightarrow> nat list" where
  "partners k ps = concat (map (\<lambda>(a, b). if a = k then [b] else if b = k then [a] else []) ps)"

definition move :: "move_cost \<Rightarrow> (nat \<Rightarrow> Viewpoint) \<Rightarrow> nat \<Rightarrow> nat \<Rightarrow> real \<times> vec3 list" where
  "move cost vf i j = the (cost (vp_pos (vf i)) (vp_pos (vf j)) (vp_yaw (vf i)) (vp_yaw (vf j)) (0, 0, 0))"

definition new_cost :: "move_cost \<Rightarrow> (nat \<Rightarrow> Viewpoint) \<Rightarrow> nat \<Rightarrow> nat \<Rightarrow> real" where
  "new_cost cost vf k m = (if k = m then 0 else fst (move cost vf (min k m) (max k m)))"

definition new_path :: "move_cost \<Rightarrow> (nat \<Rightarrow> Viewpoint) \<Rightarrow> nat \<Rightarrow> nat \<Rightarrow> vec3 list" where
  "new_path cost vf k m =
     (if k = m then [] else if k < m then snd (move cost vf k m) else rev (snd (move cost vf m k)))"

definition total_cost :: "move_cost \<Rightarrow> bool" where
  "total_cost cost \<longleftrightarrow> (\<forall>p1 p2 y1 y2 v. cost p1 p2 y1 y2 v \<noteq> None)"

definition add_entries :: "move_cost \<Rightarrow> (nat \<Rightarrow> Viewpoint) \<Rightarrow> nat \<Rightarrow> nat list \<Rightarrow> Frontier \<Rightarrow> Frontier" where
  "add_entries cost vf k ms ft =
     ft\<lparr>costs := costs ft @ map (new_cost cost vf k) ms, paths := paths ft @ map (new_path cost vf k) ms\<rparr>"

lemma add_entries_simps [simp]: "viewpoints (add_entries cost vf k ms ft) = viewpoints ft"
  "add_entries cost vf k [] ft = ft" "add_entries cost vf k ns (add_entries cost vf k ms ft) = add_entries cost vf k (ms @ ns) ft"
  by (simp_all add: add_entries_def)

lemma cost_pair_ok:
  assumes "total_cost cost" "a \<le> b" "b < length fts"
    and vf: "\<And>k. k < length fts \<Longrightarrow> viewpoints (fts ! k) \<noteq> [] \<and> hd (viewpoints (fts ! k)) = vf k"
  shows "\<exists>fts'. cost_pair cost (a, b) fts = Some fts' \<and> length fts' = length fts \<and>
    (\<forall>k < length fts. fts' ! k = add_entries cost vf k (partners k [(a, b)]) (fts ! k))"
proof (cases "a = b")
  case True
  then show ?thesis using assms(3)
    by (auto simp: cost_pair_def partners_def add_entries_def zero_cost_def new_cost_def new_path_def nth_list_update)
next
  case False
  then have ab: "a < b" "a < length fts" using assms(2,3) by simp_all
  obtain va vsa vb vsb where v: "viewpoints (fts ! a) = va # vsa" "viewpoints (fts ! b) = vb # vsb"
    using vf [OF ab(2)] vf [OF assms(3)] by (metis neq_Nil_conv)
  have hd: "va = vf a" "vb = vf b" using vf [OF ab(2)] vf [OF assms(3)] v by simp_all
  obtain c path where c: "cost (vp_pos va) (vp_pos vb) (vp_yaw va) (vp_yaw vb) (0, 0, 0) = Some (c, path)"
    using assms(1) unfolding total_cost_def by (metis option.exhaust prod.collapse)
  then have m: "move cost vf a b = (c, path)" by (simp add: move_def hd)
  have entries: "new_cost cost vf a b = c" "new_cost cost vf b a = c" "new_path cost vf a b = path" "new_path cost vf b a = rev path"
    using ab(1) m by (simp_all add: new_cost_def new_path_def)
  let ?add = "\<lambda>path ft. ft\<lparr>costs := costs ft @ [c], paths := paths ft @ [path]\<rparr>"
  have run: "cost_pair cost (a, b) fts = Some ((fts[a := ?add path (fts ! a)])[b := ?add (rev path) (fts[a := ?add path (fts ! a)] ! b)])"
    using False by (simp add: cost_pair_def updateCost_def v c Let_def)
  have p: "partners k [(a, b)] = (if k = a then [b] else if k = b then [a] else [])" for k by (simp add: partners_def)
  show ?thesis unfolding run
  proof (intro exI conjI allI impI)
    fix k
    assume k: "k < length fts"
    consider "k = a" | "k = b" | "k \<noteq> a" "k \<noteq> b" by blast
    then show "(fts[a := ?add path (fts ! a)])[b := ?add (rev path) (fts[a := ?add path (fts ! a)] ! b)] ! k =
        add_entries cost vf k (partners k [(a, b)]) (fts ! k)"
      using k ab False assms(3) by cases (simp_all add: p add_entries_def entries)
  qed simp_all
qed

lemma fold_cost_pairs:
  assumes "total_cost cost" "\<forall>(a, b) \<in> set ps. a \<le> b \<and> b < length fts"
    and "\<And>k. k < length fts \<Longrightarrow> viewpoints (fts ! k) \<noteq> [] \<and> hd (viewpoints (fts ! k)) = vf k"
  shows "\<exists>fts'. fold_option (cost_pair cost) ps fts = Some fts' \<and> length fts' = length fts \<and>
    (\<forall>k < length fts. fts' ! k = add_entries cost vf k (partners k ps) (fts ! k))"
  using assms(2,3)
proof (induction ps arbitrary: fts)
  case Nil
  then show ?case by (simp add: partners_def)
next
  case (Cons ab ps)
  obtain a b where ab: "ab = (a, b)" by (cases ab)
  have le: "a \<le> b" "b < length fts" using Cons.prems(1) ab by auto
  obtain fts1 where f: "cost_pair cost ab fts = Some fts1" "length fts1 = length fts"
    "\<And>k. k < length fts \<Longrightarrow> fts1 ! k = add_entries cost vf k (partners k [ab]) (fts ! k)"
    using cost_pair_ok [OF assms(1) le Cons.prems(2)] unfolding ab by blast
  have ps: "\<forall>(a, b) \<in> set ps. a \<le> b \<and> b < length fts1" using Cons.prems(1) f(2) by auto
  have vf: "viewpoints (fts1 ! k) \<noteq> [] \<and> hd (viewpoints (fts1 ! k)) = vf k" if "k < length fts1" for k
    using that f(2,3) Cons.prems(2) by simp
  obtain fts' where r: "fold_option (cost_pair cost) ps fts1 = Some fts'" "length fts' = length fts1"
    "\<And>k. k < length fts1 \<Longrightarrow> fts' ! k = add_entries cost vf k (partners k ps) (fts1 ! k)"
    using Cons.IH [OF ps vf] by blast
  have "partners k (ab # ps) = partners k [ab] @ partners k ps" for k by (simp add: partners_def)
  then show ?case using f r by (intro exI [of _ fts']) simp
qed

text \<open>In the order of the loops each cluster gets its missing entries in the order of the list.\<close>

lemma partners_append: "partners k (ps @ qs) = partners k ps @ partners k qs"
  by (simp add: partners_def)

lemma partners_none: "\<forall>(a, b) \<in> set ps. a \<noteq> k \<and> b \<noteq> k \<Longrightarrow> partners k ps = []"
  by (auto simp: partners_def)


lemma partners_concat: "partners k (concat (map f is)) = concat (map (\<lambda>i. partners k (f i)) is)"
  by (induction "is") (simp_all add: partners_append partners_none)

lemma partners_row: "partners k (map (Pair i) js) = (if i = k then js else map (\<lambda>_. i) (filter (\<lambda>j. j = k) js))"
  by (induction js) (auto simp: partners_def)

lemma filter_upt_eq: "filter (\<lambda>j. j = k) [a..<b] = (if a \<le> k \<and> k < b then [k] else [])"
  by (induction b) auto

lemma concat_upt_one: "concat (map (\<lambda>i. if i = k then xs else []) [a..<b]) = (if a \<le> k \<and> k < b then xs else [])"
  by (induction b) auto

lemma concat_single: "concat (map (\<lambda>i. [i]) xs) = xs"
  by (induction xs) simp_all

lemma concat_nils: "concat (map (\<lambda>i. []) xs) = []"
  by (induction xs) simp_all

lemma upt_split: "i \<le> j \<Longrightarrow> j \<le> n \<Longrightarrow> [i..<n] = [i..<j] @ [j..<n]"
  using upt_add_eq_append [of i j "n - j"] by simp

lemma partners_cost_pairs:
  assumes "k < n" "new \<le> n"
  shows "partners k (cost_pairs new n) = (if k < new then [new..<n] else [0..<n])"
proof -
  have pairs: "cost_pairs new n = concat (map (\<lambda>i. map (Pair i) [new..<n]) [0..<new]) @ concat (map (\<lambda>i. map (Pair i) [i..<n]) [new..<n])"
    by (simp add: cost_pairs_def)
  have first: "concat (map (\<lambda>i. partners k (map (Pair i) [new..<n])) [0..<new]) = (if k < new then [new..<n] else [0..<new])"
  proof (cases "k < new")
    case True
    then have "map (\<lambda>i. partners k (map (Pair i) [new..<n])) [0..<new] = map (\<lambda>i. if i = k then [new..<n] else []) [0..<new]"
      by (intro map_cong) (auto simp: partners_row filter_upt_eq)
    then show ?thesis using True by (simp only: concat_upt_one) simp
  next
    case False
    then have "map (\<lambda>i. partners k (map (Pair i) [new..<n])) [0..<new] = map (\<lambda>i. [i]) [0..<new]"
      using assms by (intro map_cong) (auto simp: partners_row filter_upt_eq)
    then show ?thesis using False by (simp only: concat_single if_False)
  qed
  have second: "concat (map (\<lambda>i. partners k (map (Pair i) [i..<n])) [new..<n]) = (if k < new then [] else [new..<n])"
  proof (cases "k < new")
    case True
    then have "map (\<lambda>i. partners k (map (Pair i) [i..<n])) [new..<n] = map (\<lambda>i. []) [new..<n]"
      by (intro map_cong) (auto simp: partners_row filter_upt_eq)
    then show ?thesis using True by simp
  next
    case False
    then have split: "[new..<n] = [new..<k] @ k # [Suc k..<n]" using assms(1) upt_split [of new k n] upt_conv_Cons [of k n] by simp
    have this_row: "partners k (map (Pair k) [k..<n]) = [k..<n]" by (simp add: partners_row)
    have left: "map (\<lambda>i. partners k (map (Pair i) [i..<n])) [new..<k] = map (\<lambda>i. [i]) [new..<k]"
      using assms(1) by (intro map_cong) (auto simp: partners_row filter_upt_eq)
    have right: "map (\<lambda>i. partners k (map (Pair i) [i..<n])) [Suc k..<n] = map (\<lambda>i. []) [Suc k..<n]"
      by (intro map_cong) (auto simp: partners_row filter_upt_eq)
    have "concat (map (\<lambda>i. partners k (map (Pair i) [i..<n])) [new..<n]) = [new..<k] @ [k..<n] @ []"
      unfolding split map_append concat_append list.map concat.simps left right concat_single concat_nils this_row append_Nil2 ..
    also have "\<dots> = [new..<n]" using False assms(1) upt_split [of new k n] by simp
    finally show ?thesis using False by simp
  qed
  show ?thesis unfolding pairs partners_append partners_concat first second
    using assms upt_split [of 0 new n] by auto
qed

section \<open>The whole update\<close>

lemma cost_pairs_bounds: "new \<le> n \<Longrightarrow> \<forall>(a, b) \<in> set (cost_pairs new n). a \<le> b \<and> b < n"
  by (auto simp: cost_pairs_def)

lemma new_cost_sym: "new_cost cost vf i j = new_cost cost vf j i" "new_path cost vf i j = rev (new_path cost vf j i)"
  "new_cost cost vf i i = 0" "new_path cost vf i i = []"
  by (auto simp: new_cost_def new_path_def min.commute max.commute)

lemma mixed_table:
  assumes "table_ok m E P" "\<And>i j. e i j = e j i" "\<And>i j. p i j = rev (p j i)" "\<And>i. e i i = 0" "\<And>i. p i i = []"
  shows "table_ok n (\<lambda>i j. if i < m \<and> j < m then E i j else e i j) (\<lambda>i j. if i < m \<and> j < m then P i j else p i j)"
proof -
  have old: "E i j = E j i \<and> P i j = rev (P j i)" "E i i = 0 \<and> P i i = []" if "i < m" "j < m" for i j
    using assms(1) that unfolding table_ok_def by blast+
  have "(if i < m \<and> j < m then E i j else e i j) = (if j < m \<and> i < m then E j i else e j i) \<and>
      (if i < m \<and> j < m then P i j else p i j) = rev (if j < m \<and> i < m then P j i else p j i)" for i j
    using old(1) [of i j] assms(2) [of i j] assms(3) [of i j] by (cases "i < m"; cases "j < m") simp_all
  moreover have "(if i < m \<and> i < m then E i i else e i i) = 0 \<and> (if i < m \<and> i < m then P i i else p i i) = []" for i
    using old(2) [of i i] assms(4,5) by simp
  ultimately show ?thesis unfolding table_ok_def by blast
qed

lemma cost_pairs_table:
  assumes "total_cost cost" "has_table olds [0..<length olds] E P" "table_ok (length olds) E P"
    and "\<forall>ft \<in> set news. costs ft = [] \<and> paths ft = []" "\<forall>ft \<in> set (olds @ news). viewpoints ft \<noteq> []"
  shows "\<exists>fts. fold_option (cost_pair cost) (cost_pairs (length olds) (length (olds @ news))) (olds @ news) = Some fts \<and>
    length fts = length (olds @ news) \<and> costs_ok fts \<and>
    (\<forall>i < length fts. \<exists>cs ps. fts ! i = ((olds @ news) ! i)\<lparr>costs := cs, paths := ps\<rparr>) \<and>
    (\<forall>i < length olds. \<forall>j < length olds. costs (fts ! i) ! j = E i j)"
proof -
  let ?new = "length olds" and ?n = "length (olds @ news)" and ?fts = "olds @ news"
  let ?vf = "\<lambda>k. hd (viewpoints (?fts ! k))"
  have le: "?new \<le> ?n" by simp
  have views: "viewpoints (?fts ! k) \<noteq> [] \<and> hd (viewpoints (?fts ! k)) = ?vf k" if "k < length ?fts" for k
    using assms(5) nth_mem [OF that] by blast
  obtain fts where r: "fold_option (cost_pair cost) (cost_pairs ?new ?n) ?fts = Some fts" "length fts = ?n"
    "\<And>k. k < ?n \<Longrightarrow> fts ! k = add_entries cost ?vf k (partners k (cost_pairs ?new ?n)) (?fts ! k)"
    using fold_cost_pairs [OF assms(1) cost_pairs_bounds [OF le] views] by blast
  let ?E = "\<lambda>i j. if i < ?new \<and> j < ?new then E i j else new_cost cost ?vf i j"
  let ?P = "\<lambda>i j. if i < ?new \<and> j < ?new then P i j else new_path cost ?vf i j"
  have old: "costs (?fts ! k) = map (E k) [0..<?new]" "paths (?fts ! k) = map (P k) [0..<?new]" if "k < ?new" for k
    using assms(2) that by (simp_all add: has_table_def nth_append)
  have fresh: "costs (?fts ! k) = []" "paths (?fts ! k) = []" if "?new \<le> k" "k < ?n" for k
    using assms(4) nth_mem [of "k - ?new" news] that by (auto simp: nth_append)
  have upt: "[0..<?n] = [0..<?new] @ [?new..<?n]" by (rule upt_split) simp_all
  have rows: "costs (fts ! k) = map (?E k) [0..<?n] \<and> paths (fts ! k) = map (?P k) [0..<?n]" if k: "k < ?n" for k
  proof (cases "k < ?new")
    case True
    have "partners k (cost_pairs ?new ?n) = [?new..<?n]" using partners_cost_pairs [OF k le] True by simp
    then show ?thesis unfolding upt r(3) [OF k] add_entries_def using old [OF True] True by simp
  next
    case False
    then have "partners k (cost_pairs ?new ?n) = [0..<?n]" using partners_cost_pairs [OF k le] by simp
    then show ?thesis unfolding r(3) [OF k] add_entries_def using fresh [of k] False k by simp
  qed
  have "table_ok ?n ?E ?P" by (rule mixed_table [OF assms(3)]) (rule new_cost_sym)+
  moreover have "has_table fts [0..<?n] ?E ?P" using rows r(2) by (simp add: has_table_def)
  ultimately have ok: "costs_ok fts" unfolding costs_ok_def r(2) by blast
  have same: "\<exists>cs ps. fts ! i = (?fts ! i)\<lparr>costs := cs, paths := ps\<rparr>" if "i < length fts" for i
    using r(3) [of i] that r(2) unfolding add_entries_def by auto
  have keep: "costs (fts ! i) ! j = E i j" if "i < ?new" "j < ?new" for i j
    using rows [of i] that by simp
  show ?thesis using r(1,2) ok same keep by blast
qed

end
