(* ===== verification/Frontier_Split.thy ===== *)
theory Frontier_Split imports Frontier_Search
begin

text \<open>
  The splitting of large clusters ends, whatever the cells: along the direction of the greatest spread both
  sides have cells, so each part is smaller.
\<close>

section \<open>Means\<close>

definition mean :: "vec3 list \<Rightarrow> vec3" where
  "mean cs = map3 (\<lambda>x. x / real (length cs)) (foldl (zip3 (+)) (0, 0, 0) cs)"

text \<open>The voxel filter of PCL gives the centroids of the points of each of its cells.\<close>

definition centroids :: "(vec3 list \<Rightarrow> vec3 list) \<Rightarrow> bool" where
  "centroids downsample \<longleftrightarrow> (\<forall>cs. cs \<noteq> [] \<longrightarrow> downsample cs \<noteq> [] \<and>
     (\<forall>x \<in> set (downsample cs). \<exists>ws. ws \<noteq> [] \<and> set ws \<subseteq> set cs \<and> x = mean ws))"

text \<open>The eigenvalues and eigenvectors of a symmetric matrix: two of them, the sum of the values is the trace.\<close>

definition eigenpair :: "mat2 \<Rightarrow> real \<times> vec2 \<Rightarrow> bool" where
  "eigenpair m lv = (case m of ((a, b), (b', e)) \<Rightarrow> case lv of (l, (v1, v2)) \<Rightarrow>
     (v1, v2) \<noteq> (0, 0) \<and> a * v1 + b * v2 = l * v1 \<and> b' * v1 + e * v2 = l * v2)"

definition solves_eigen :: "(mat2 \<Rightarrow> (real \<times> vec2) list) \<Rightarrow> bool" where
  "solves_eigen eigen \<longleftrightarrow> (\<forall>a b e. \<exists>p q. eigen ((a, b), (b, e)) = [p, q] \<and>
     eigenpair ((a, b), (b, e)) p \<and> eigenpair ((a, b), (b, e)) q \<and> fst p + fst q = a + e)"

lemma foldl_plus3:
  "foldl (zip3 (+)) (x, y, z) cs =
     (x + sum_list (map fst cs), y + sum_list (map (\<lambda>c. fst (snd c)) cs), z + sum_list (map (\<lambda>c. snd (snd c)) cs))"
proof (induction cs arbitrary: x y z)
  case (Cons c cs)
  then show ?case by (cases c) (simp add: add.assoc)
qed simp

text \<open>The distance of a cell from a centre along a direction.\<close>

definition along :: "vec3 \<Rightarrow> vec2 \<Rightarrow> vec3 \<Rightarrow> real" where
  "along m v c = dot2 (diff2 c m) v"

lemma sum_along:
  "ws \<noteq> [] \<Longrightarrow> sum_list (map (along m v) ws) = real (length ws) * along m v (mean ws)"
proof -
  assume ws: "ws \<noteq> []"
  have "sum_list (map (along m v) ws) =
      sum_list (map fst ws) * fst v + sum_list (map (\<lambda>c. fst (snd c)) ws) * snd v
      - real (length ws) * (fst m * fst v + fst (snd m) * snd v)"
    by (induction ws) (simp_all add: along_def dot2_def diff2_def algebra_simps)
  also have "\<dots> = real (length ws) * along m v (mean ws)"
    using ws by (simp add: along_def dot2_def diff2_def mean_def foldl_plus3 algebra_simps)
  finally show ?thesis .
qed

lemma both_sides:
  assumes "cs \<noteq> []" "c \<in> set cs" "along (mean cs) v c \<noteq> 0"
  shows "\<exists>w \<in> set cs. along (mean cs) v w > 0" "\<exists>w \<in> set cs. along (mean cs) v w < 0"
proof -
  have zero: "sum_list (map (along (mean cs) v) cs) = 0"
    using sum_along [OF assms(1)] by (simp add: along_def dot2_def diff2_def)
  have nonneg: False if "\<forall>w \<in> set cs. 0 \<le> s * along (mean cs) v w" "s \<noteq> 0" for s
  proof -
    have "sum_list (map (\<lambda>w. s * along (mean cs) v w) cs) = 0" using zero by (simp add: sum_list_const_mult)
    then have "\<forall>x \<in> set (map (\<lambda>w. s * along (mean cs) v w) cs). x = 0"
      using that(1) by (subst (asm) sum_list_nonneg_eq_0_iff) auto
    then show False using assms(2,3) that(2) by auto
  qed
  show "\<exists>w \<in> set cs. along (mean cs) v w > 0"
    using nonneg [of "- 1"] by (force simp: not_less)
  show "\<exists>w \<in> set cs. along (mean cs) v w < 0"
    using nonneg [of 1] by (force simp: not_less)
qed

section \<open>The principal direction\<close>

lemma covariance_eq:
  fixes ft :: Frontier
  defines "n \<equiv> real (length (filtered_cells ft))"
  defines "x \<equiv> \<lambda>c. fst (diff2 c (average ft))" and "y \<equiv> \<lambda>c. snd (diff2 c (average ft))"
  shows "covariance ft =
    ((sum_list (map (\<lambda>c. x c * x c) (filtered_cells ft)) / n, sum_list (map (\<lambda>c. x c * y c) (filtered_cells ft)) / n),
     (sum_list (map (\<lambda>c. x c * y c) (filtered_cells ft)) / n, sum_list (map (\<lambda>c. y c * y c) (filtered_cells ft)) / n))"
proof -
  have "foldl (\<lambda>m c. case diff2 c (average ft) of (x, y) \<Rightarrow> case m of ((a, b), (b', e)) \<Rightarrow>
      ((a + x * x, b + x * y), (b' + y * x, e + y * y))) ((a, b), (b', e)) cs =
    ((a + sum_list (map (\<lambda>c. x c * x c) cs), b + sum_list (map (\<lambda>c. x c * y c) cs)),
     (b' + sum_list (map (\<lambda>c. x c * y c) cs), e + sum_list (map (\<lambda>c. y c * y c) cs)))" for a b b' e :: real and cs
    by (induction cs arbitrary: a b b' e) (simp_all add: x_def y_def case_prod_beta mult.commute)
  then show ?thesis by (simp add: covariance_def n_def Let_def)
qed

lemma principal_positive:
  assumes "eigenpair m p" "eigenpair m q" "0 < fst p + fst q"
  obtains l v where "principal [p, q] = Some v" "eigenpair m (l, v)" "0 < l"
proof -
  obtain l1 v1 l2 v2 where e: "p = (l1, v1)" "q = (l2, v2)" by (metis prod.collapse)
  show ?thesis
  proof (cases "l1 > - 1000000 \<and> l2 \<le> l1")
    case True
    then show ?thesis using assms e by (intro that [of v1 l1]) (auto simp: principal_def)
  next
    case False
    then show ?thesis using assms e by (intro that [of v2 l2]) (auto simp: principal_def)
  qed
qed

lemma need_split_direction:
  assumes "solves_eigen eigen" "need_split ff ft" "0 \<le> cluster_size_xy ff"
  obtains v c where "principal (eigen (covariance ft)) = Some v" "c \<in> set (filtered_cells ft)" "along (average ft) v c \<noteq> 0"
proof -
  let ?n = "real (length (filtered_cells ft))"
  let ?x = "\<lambda>c. fst (diff2 c (average ft))" and ?y = "\<lambda>c. snd (diff2 c (average ft))"
  let ?xx = "sum_list (map (\<lambda>c. ?x c * ?x c) (filtered_cells ft))" and ?yy = "sum_list (map (\<lambda>c. ?y c * ?y c) (filtered_cells ft))"
  let ?xy = "sum_list (map (\<lambda>c. ?x c * ?y c) (filtered_cells ft))"
  obtain c0 where c0: "c0 \<in> set (filtered_cells ft)" "norm2 (diff2 c0 (average ft)) > cluster_size_xy ff"
    using assms(2) by (auto simp: need_split_def)
  have n: "0 < ?n" using c0(1) by (cases "filtered_cells ft") auto
  have "0 < sqrt (dot2 (diff2 c0 (average ft)) (diff2 c0 (average ft)))"
    using c0(2) assms(3) unfolding norm2_def by linarith
  then have "0 < dot2 (diff2 c0 (average ft)) (diff2 c0 (average ft))" by (simp only: real_sqrt_gt_0_iff)
  then have "0 < ?x c0 * ?x c0 + ?y c0 * ?y c0" by (simp add: dot2_def)
  moreover have "?x c0 * ?x c0 + ?y c0 * ?y c0 \<le> sum_list (map (\<lambda>c. ?x c * ?x c + ?y c * ?y c) (filtered_cells ft))"
    using c0(1) by (intro member_le_sum_list) auto
  ultimately have trace: "0 < ?xx + ?yy" by (simp add: sum_list_addf)
  have cov: "covariance ft = ((?xx / ?n, ?xy / ?n), (?xy / ?n, ?yy / ?n))" by (rule covariance_eq)
  obtain p q where pq: "eigen (covariance ft) = [p, q]" "eigenpair (covariance ft) p" "eigenpair (covariance ft) q"
    "fst p + fst q = ?xx / ?n + ?yy / ?n"
    using assms(1) unfolding solves_eigen_def cov by blast
  have "0 < fst p + fst q" using trace n by (simp add: pq(4) flip: add_divide_distrib)
  then obtain l v where v: "principal [p, q] = Some v" "eigenpair (covariance ft) (l, v)" "0 < l"
    using principal_positive [OF pq(2,3)] by blast
  obtain v1 v2 where v12: "v = (v1, v2)" by (cases v)
  have eq: "(v1, v2) \<noteq> (0, 0)" "?xx / ?n * v1 + ?xy / ?n * v2 = l * v1" "?xy / ?n * v1 + ?yy / ?n * v2 = l * v2"
    using v(2) unfolding cov v12 eigenpair_def by simp_all
  have "\<exists>c \<in> set (filtered_cells ft). along (average ft) v c \<noteq> 0"
  proof (rule ccontr)
    assume "\<not> ?thesis"
    then have zero: "along (average ft) v c = 0" if "c \<in> set (filtered_cells ft)" for c using that by blast
    have "sum_list (map (\<lambda>c. along (average ft) v c * along (average ft) v c) (filtered_cells ft)) = ?xx * v1 * v1 + 2 * ?xy * v1 * v2 + ?yy * v2 * v2"
      by (induction "filtered_cells ft" rule: list.induct)
        (simp_all add: along_def dot2_def v12 algebra_simps sum_list_addf flip: sum_list_const_mult)
    moreover have "sum_list (map (\<lambda>c. along (average ft) v c * along (average ft) v c) (filtered_cells ft)) = 0"
      using zero by (simp add: sum_list_eq_0_iff cong: map_cong)
    ultimately have "?xx * v1 * v1 + 2 * ?xy * v1 * v2 + ?yy * v2 * v2 = 0" by simp
    moreover have "?xx * v1 + ?xy * v2 = ?n * l * v1" "?xy * v1 + ?yy * v2 = ?n * l * v2"
      using eq(2,3) n by (simp_all add: field_simps)
    then have "v1 * (?xx * v1 + ?xy * v2) + v2 * (?xy * v1 + ?yy * v2) = ?n * l * (v1 * v1 + v2 * v2)"
      by (simp add: algebra_simps)
    ultimately have "?n * l * (v1 * v1 + v2 * v2) = 0" by (simp add: algebra_simps)
    moreover have "0 < v1 * v1 + v2 * v2" using eq(1) by (simp add: sum_squares_gt_zero_iff)
    ultimately show False using n v(3) by simp
  qed
  then show ?thesis using that v(1) pq(1) by metis
qed

section \<open>Splitting ends\<close>

lemma freshD:
  assumes "fresh downsample ft"
  shows "cells ft \<noteq> []" "average ft = mean (cells ft)" "filtered_cells ft = downsample (cells ft)"
    "costs ft = []" "paths ft = []" "viewpoints ft = []"
proof -
  obtain c cs where c: "cells ft = c # cs" "computeFrontierInfo downsample (empty_frontier\<lparr>cells := cells ft\<rparr>) = Some ft"
    using assms by (cases "cells ft") (auto simp: fresh_def computeFrontierInfo_def)
  then have ft: "ft = empty_frontier\<lparr>cells := c # cs, average := mean (c # cs), ftr_min := foldl (zip3 min) c (c # cs),
      ftr_max := foldl (zip3 max) c (c # cs), filtered_cells := downsample (c # cs)\<rparr>"
    by (simp add: computeFrontierInfo_def mean_def)
  show "cells ft \<noteq> []" using c(1) by simp
  show "average ft = mean (cells ft)" "filtered_cells ft = downsample (cells ft)" "costs ft = []" "paths ft = []" "viewpoints ft = []"
    by (subst ft, simp add: c(1) empty_frontier_def)+
qed

lemma length_filter_less: "x \<in> set xs \<Longrightarrow> \<not> P x \<Longrightarrow> length (filter P xs) < length xs"
  by (rule length_filter_less)

lemma splitHorizontally_ok:
  assumes "centroids downsample" "solves_eigen eigen" "0 \<le> cluster_size_xy ff" "fresh downsample ft"
  shows "\<exists>parts. splitHorizontally downsample eigen ff ft = Some (need_split ff ft, parts) \<and>
    (need_split ff ft \<longrightarrow> mset (concat (map cells parts)) = mset (cells ft) \<and>
      (\<forall>q \<in> set parts. fresh downsample q \<and> \<not> need_split ff q))"
  using assms(4)
proof (induction "length (cells ft)" arbitrary: ft rule: less_induct)
  case less
  show ?case
  proof (cases "need_split ff ft")
    case False
    then show ?thesis by (subst splitHorizontally.simps) simp
  next
    case True
    note fr = freshD [OF less.prems]
    obtain v c where v: "principal (eigen (covariance ft)) = Some v" and c: "c \<in> set (filtered_cells ft)" "along (average ft) v c \<noteq> 0"
      using need_split_direction [OF assms(2) True assms(3)] .
    obtain ws where ws: "ws \<noteq> []" "set ws \<subseteq> set (cells ft)" "c = mean ws"
      using assms(1) fr(1) c(1) unfolding fr(3) centroids_def by blast
    have "sum_list (map (along (average ft) v) ws) \<noteq> 0" using sum_along [OF ws(1)] c(2) ws(1,3) by simp
    moreover have "sum_list (map (along (average ft) v) ws) = 0" if "\<forall>w \<in> set ws. along (average ft) v w = 0"
      using that by (simp cong: map_cong)
    ultimately obtain w where w: "w \<in> set ws" "along (average ft) v w \<noteq> 0" by blast
    have wc: "w \<in> set (cells ft)" "along (mean (cells ft)) v w \<noteq> 0" using w ws(2) fr(2) by auto
    note sides = both_sides [OF fr(1) wc]
    let ?side = "\<lambda>c. dot2 (diff2 c (average ft)) v \<ge> 0"
    have s: "\<exists>w \<in> set (cells ft). ?side w" "\<exists>w \<in> set (cells ft). \<not> ?side w"
      using sides unfolding along_def fr(2) [symmetric] by (blast intro: less_imp_le, simp only: not_le)
    have ne: "filter ?side (cells ft) \<noteq> []" "filter (\<lambda>c. \<not> ?side c) (cells ft) \<noteq> []"
      using s by (simp_all add: filter_empty_conv)
    obtain ftr1 where f1: "computeFrontierInfo downsample (empty_frontier\<lparr>cells := filter ?side (cells ft)\<rparr>) = Some ftr1"
      "cells ftr1 = filter ?side (cells ft)" "fresh downsample ftr1" by (rule computeFrontierInfo_fresh [OF ne(1)])
    obtain ftr2 where f2: "computeFrontierInfo downsample (empty_frontier\<lparr>cells := filter (\<lambda>c. \<not> ?side c) (cells ft)\<rparr>) = Some ftr2"
      "cells ftr2 = filter (\<lambda>c. \<not> ?side c) (cells ft)" "fresh downsample ftr2" by (rule computeFrontierInfo_fresh [OF ne(2)])
    have l1: "length (cells ftr1) < length (cells ft)" unfolding f1(2) using s(2) by (auto intro: length_filter_less)
    have l2: "length (cells ftr2) < length (cells ft)" unfolding f2(2) using s(1) by (auto intro: length_filter_less)
    obtain p1 where p1: "splitHorizontally downsample eigen ff ftr1 = Some (need_split ff ftr1, p1)"
      "need_split ff ftr1 \<longrightarrow> mset (concat (map cells p1)) = mset (cells ftr1) \<and> (\<forall>q \<in> set p1. fresh downsample q \<and> \<not> need_split ff q)"
      using less.hyps [OF l1 f1(3)] by blast
    obtain p2 where p2: "splitHorizontally downsample eigen ff ftr2 = Some (need_split ff ftr2, p2)"
      "need_split ff ftr2 \<longrightarrow> mset (concat (map cells p2)) = mset (cells ftr2) \<and> (\<forall>q \<in> set p2. fresh downsample q \<and> \<not> need_split ff q)"
      using less.hyps [OF l2 f2(3)] by blast
    let ?q1 = "if need_split ff ftr1 then p1 else [ftr1]" and ?q2 = "if need_split ff ftr2 then p2 else [ftr2]"
    have "\<not> \<not> need_split ff ft" using True by simp
    then have run: "splitHorizontally downsample eigen ff ft = Some (True, ?q1 @ ?q2)"
      by (subst splitHorizontally.simps) (simp only: if_not_P if_False v f1(1) f2(1) p1(1) p2(1) Let_def Option.bind.simps prod.case)
    have q1: "mset (concat (map cells ?q1)) = mset (cells ftr1)" "\<forall>q \<in> set ?q1. fresh downsample q \<and> \<not> need_split ff q"
      by (cases "need_split ff ftr1", insert p1(2) f1(3), simp_all)+
    have q2: "mset (concat (map cells ?q2)) = mset (cells ftr2)" "\<forall>q \<in> set ?q2. fresh downsample q \<and> \<not> need_split ff q"
      by (cases "need_split ff ftr2", insert p2(2) f2(3), simp_all)+
    have parts: "mset (concat (map cells (?q1 @ ?q2))) = mset (cells ft)"
      unfolding map_append concat_append mset_append q1(1) q2(1) f1(2) f2(2) mset_filter by (rule multiset_partition [symmetric])
    have good: "\<forall>q \<in> set (?q1 @ ?q2). fresh downsample q \<and> \<not> need_split ff q"
      using q1(2) q2(2) by (metis Un_iff set_append)
    have ns: "need_split ff ft = True" using True by simp
    show ?thesis unfolding run ns
    proof (intro exI conjI impI)
      show "Some (True, ?q1 @ ?q2) = Some (True, ?q1 @ ?q2)" ..
      show "mset (concat (map cells (?q1 @ ?q2))) = mset (cells ft)" by (rule parts)
      show "\<forall>q \<in> set (?q1 @ ?q2). fresh downsample q \<and> \<not> need_split ff q" by (rule good)
    qed
  qed
qed

lemma splitLargeFrontiers_ok:
  assumes "centroids downsample" "solves_eigen eigen" "0 \<le> cluster_size_xy ff" "\<forall>ft \<in> set fts. fresh downsample ft"
  shows "\<exists>parts. splitLargeFrontiers downsample eigen ff fts = Some parts \<and>
    mset (concat (map cells parts)) = mset (concat (map cells fts)) \<and>
    (\<forall>q \<in> set parts. fresh downsample q \<and> \<not> need_split ff q)"
  using assms(4)
proof (induction fts)
  case Nil
  then show ?case by simp
next
  case (Cons ft fts)
  have ft: "fresh downsample ft" using Cons.prems by simp
  obtain p1 where p1: "splitHorizontally downsample eigen ff ft = Some (need_split ff ft, p1)"
    "need_split ff ft \<longrightarrow> mset (concat (map cells p1)) = mset (cells ft) \<and> (\<forall>q \<in> set p1. fresh downsample q \<and> \<not> need_split ff q)"
    using splitHorizontally_ok [OF assms(1-3), of ft] Cons.prems by (elim meta_impE exE conjE) (simp, rule that)
  obtain parts where r: "splitLargeFrontiers downsample eigen ff fts = Some parts"
    "mset (concat (map cells parts)) = mset (concat (map cells fts))" "\<forall>q \<in> set parts. fresh downsample q \<and> \<not> need_split ff q"
    using Cons.IH Cons.prems by auto
  let ?q = "if need_split ff ft then p1 else [ft]"
  have q: "mset (concat (map cells ?q)) = mset (cells ft)" "\<forall>q \<in> set ?q. fresh downsample q \<and> \<not> need_split ff q"
    using p1(2) ft by auto
  have step: "splitLargeFrontiers downsample eigen ff (ft # fts) = Some (?q @ parts)" by (simp add: p1(1) r(1))
  have "mset (concat (map cells (?q @ parts))) = mset (concat (map cells (ft # fts)))"
    unfolding map_append concat_append mset_append q(1) r(2) by simp
  moreover have "\<forall>q \<in> set (?q @ parts). fresh downsample q \<and> \<not> need_split ff q" using q(2) r(3) by (metis Un_iff set_append)
  ultimately show ?case using step by (intro exI conjI)
qed

end
