(* ===== verification/Frontier_Cycle.thy ===== *)
theory Frontier_Cycle imports Frontier_Costs Frontier_Split
begin

text \<open>
  The invariant of the frontier finder over updates: an update always completes, and afterwards the clusters
  are disjoint, have viewpoints, and know the cost to each other.
\<close>

section \<open>Loops that end\<close>

lemma loop_from_ends:
  assumes "0 < step" "\<And>y. cond y \<Longrightarrow> y \<le> bound"
  shows "\<exists>xs. loop_from x step cond = Some xs"
proof (induction "nat \<lceil>(bound - x) / step + 1\<rceil>" arbitrary: x rule: less_induct)
  case less
  show ?case
  proof (cases "cond x")
    case False
    then show ?thesis by (simp add: loop_from.simps)
  next
    case True
    then have "0 \<le> (bound - x) / step" using assms by simp
    moreover have "(bound - (x + step)) / step = (bound - x) / step - 1" using assms(1) by (simp add: field_simps)
    ultimately have "nat \<lceil>(bound - (x + step)) / step + 1\<rceil> < nat \<lceil>(bound - x) / step + 1\<rceil>" by linarith
    then obtain xs where "loop_from (x + step) step cond = Some xs" using less by blast
    then show ?thesis using True by (subst loop_from.simps) simp
  qed
qed

lemma wrap_up_ends: "\<exists>y'. wrap_up y = Some y' \<and> - pi \<le> y' \<and> (y' \<le> max y pi)"
proof (induction "nat \<lceil>(- pi - y) / (2 * pi)\<rceil>" arbitrary: y rule: less_induct)
  case less
  show ?case
  proof (cases "y < - pi")
    case False
    then show ?thesis by (simp add: wrap_up.simps)
  next
    case True
    then have "0 < (- pi - y) / (2 * pi)" by simp
    moreover have "(- pi - (y + 2 * pi)) / (2 * pi) = (- pi - y) / (2 * pi) - 1" by (simp add: field_simps)
    ultimately have "nat \<lceil>(- pi - (y + 2 * pi)) / (2 * pi)\<rceil> < nat \<lceil>(- pi - y) / (2 * pi)\<rceil>" by linarith
    then obtain y' where "wrap_up (y + 2 * pi) = Some y'" "- pi \<le> y'" "y' \<le> max (y + 2 * pi) pi" using less by blast
    then show ?thesis using True by (subst wrap_up.simps) auto
  qed
qed

lemma wrap_down_ends: "- pi \<le> y \<Longrightarrow> \<exists>y'. wrap_down y = Some y' \<and> - pi \<le> y' \<and> y' \<le> pi"
proof (induction "nat \<lceil>(y - pi) / (2 * pi)\<rceil>" arbitrary: y rule: less_induct)
  case less
  show ?case
  proof (cases "y > pi")
    case False
    then show ?thesis using less.prems by (simp add: wrap_down.simps)
  next
    case True
    then have "0 < (y - pi) / (2 * pi)" by simp
    moreover have "(y - 2 * pi - pi) / (2 * pi) = (y - pi) / (2 * pi) - 1" by (simp add: field_simps)
    ultimately have "nat \<lceil>(y - 2 * pi - pi) / (2 * pi)\<rceil> < nat \<lceil>(y - pi) / (2 * pi)\<rceil>" by linarith
    moreover have "- pi \<le> y - 2 * pi" using True by simp
    ultimately obtain y' where "wrap_down (y - 2 * pi) = Some y'" "- pi \<le> y'" "y' \<le> pi" using less.hyps by blast
    then show ?thesis using True by (subst wrap_down.simps) auto
  qed
qed

lemma wrapYaw_ends: "\<exists>y'. wrapYaw y = Some y' \<and> - pi \<le> y' \<and> y' \<le> pi"
proof -
  obtain y1 where "wrap_up y = Some y1" "- pi \<le> y1" using wrap_up_ends by blast
  then show ?thesis using wrap_down_ends [of y1] by (simp add: wrapYaw_def)
qed

lemma ray_ids_end: "\<exists>ids. ray_ids (snd (ray_input a b r)) = Some ids"
  using ray_loop_ok [OF ray_setInput_inv] unfolding ray_input_def ray_ids_def by (metis option.map(2))

lemma fold_option_inv:
  assumes "\<And>x s. x \<in> set xs \<Longrightarrow> I s \<Longrightarrow> \<exists>s'. f x s = Some s' \<and> I s'" "I s"
  shows "\<exists>s'. fold_option f xs s = Some s' \<and> I s'"
  using assms
proof (induction xs arbitrary: s)
  case Nil
  then show ?case by simp
next
  case (Cons x xs)
  obtain s1 where s1: "f x s = Some s1" "I s1" using Cons.prems(1) [of x s] Cons.prems(2) by auto
  have "\<exists>s'. fold_option f xs s1 = Some s' \<and> I s'" by (rule Cons.IH [OF _ s1(2)]) (rule Cons.prems(1), simp_all)
  then show ?case using s1(1) by simp
qed

section \<open>Viewpoints\<close>

definition sampling_ok :: "finder_params \<Rightarrow> bool" where
  "sampling_ok ff \<longleftrightarrow> 0 < candidate_rnum ff \<and> candidate_rmin ff < candidate_rmax ff \<and> 0 < candidate_dphi ff"

definition good_view :: "finder_params \<Rightarrow> MapParam \<Rightarrow> MapData \<Rightarrow> Viewpoint \<Rightarrow> bool" where
  "good_view ff p d v \<longleftrightarrow> safe_sample ff p d (vp_pos v) \<and> min_visib_num ff < visib_num v \<and> - pi \<le> vp_yaw v \<and> vp_yaw v \<le> pi"

definition with_views :: "finder_params \<Rightarrow> MapParam \<Rightarrow> MapData \<Rightarrow> Frontier \<Rightarrow> Frontier \<Rightarrow> bool" where
  "with_views ff p d ft ft' \<longleftrightarrow> (\<exists>vs. ft' = ft\<lparr>viewpoints := viewpoints ft @ vs\<rparr> \<and> (\<forall>v \<in> set vs. good_view ff p d v))"

lemma with_views_trans: "with_views ff p d a b \<Longrightarrow> with_views ff p d b c \<Longrightarrow> with_views ff p d a c"
proof -
  assume "with_views ff p d a b" "with_views ff p d b c"
  then obtain vs ws where "b = a\<lparr>viewpoints := viewpoints a @ vs\<rparr>" "\<forall>v \<in> set vs. good_view ff p d v"
    "c = b\<lparr>viewpoints := viewpoints b @ ws\<rparr>" "\<forall>v \<in> set ws. good_view ff p d v" unfolding with_views_def by blast
  then show ?thesis unfolding with_views_def by (intro exI [of _ "vs @ ws"]) auto
qed

lemma countVisibleCells_ends: "\<exists>n u'. countVisibleCells p d caster pos yaw cluster u = Some (n, u')"
proof -
  have "visible_cell p d caster pos c \<noteq> None" for c
    using ray_ids_end [of c pos caster] by (auto simp: visible_cell_def)
  then have "\<exists>n. fold_option (\<lambda>cell n. if \<not> insideFOV u' cell then Some n
      else map_option (\<lambda>visib. if visib then n + 1 else n) (visible_cell p d caster pos cell)) cluster (0 :: int) = Some n \<and> True" for u'
    by (intro fold_option_inv) auto
  then show ?thesis by (simp add: countVisibleCells_def Let_def)
qed

lemma sample_viewpoint_ok:
  assumes "with_views ff p d ft0 ft" "filtered_cells ft0 \<noteq> []"
  shows "\<exists>ft' u'. sample_viewpoint ff p d caster rc phi (ft, u) = Some (ft', u') \<and> with_views ff p d ft0 ft'"
proof -
  let ?pos = "zip3 (\<lambda>a b. a + rc * b) (average ft) (cos phi, sin phi, 0)"
  obtain vs where vs: "ft = ft0\<lparr>viewpoints := viewpoints ft0 @ vs\<rparr>" using assms(1) by (auto simp: with_views_def)
  obtain c cs where c: "filtered_cells ft = c # cs" using assms(2) vs by (cases "filtered_cells ft0") auto
  obtain yaw where yaw: "wrapYaw (average_yaw ?pos c cs) = Some yaw" "- pi \<le> yaw" "yaw \<le> pi" using wrapYaw_ends by blast
  obtain n u' where n: "countVisibleCells p d caster ?pos yaw (c # cs) u = Some (n, u')" using countVisibleCells_ends by blast
  show ?thesis
  proof (cases "safe_sample ff p d ?pos")
    case False
    then show ?thesis using assms(1) by (simp add: sample_viewpoint_def Let_def)
  next
    case True
    let ?ft = "if n > min_visib_num ff then ft\<lparr>viewpoints := viewpoints ft @ [\<lparr>vp_pos = ?pos, vp_yaw = yaw, visib_num = n\<rparr>]\<rparr> else ft"
    have "with_views ff p d ft ?ft"
    proof (cases "n > min_visib_num ff")
      case True
      then show ?thesis using \<open>safe_sample ff p d ?pos\<close> yaw(2,3) unfolding with_views_def if_P [OF True]
        by (intro exI [of _ "[\<lparr>vp_pos = ?pos, vp_yaw = yaw, visib_num = n\<rparr>]"]) (simp add: good_view_def)
    next
      case False
      then show ?thesis unfolding with_views_def if_not_P [OF False] by (intro exI [of _ "[]"]) simp
    qed
    then have "with_views ff p d ft0 ?ft" by (rule with_views_trans [OF assms(1)])
    moreover have "sample_viewpoint ff p d caster rc phi (ft, u) = Some (?ft, u')"
      unfolding sample_viewpoint_def prod.case Let_def c list.case yaw(1) Option.bind.simps n option.map prod.case
      using True by (simp only: not_not if_False simp_thms)
    ultimately show ?thesis by blast
  qed
qed

lemma sampleViewpoints_ok:
  assumes "sampling_ok ff" "filtered_cells ft \<noteq> []"
  shows "\<exists>ft' u'. sampleViewpoints ff p d caster (ft, u) = Some (ft', u') \<and> with_views ff p d ft ft'"
proof -
  obtain rs where rs: "radii ff = Some rs"
    using loop_from_ends [of "(candidate_rmax ff - candidate_rmin ff) / real_of_int (candidate_rnum ff)"
        "\<lambda>rc. rc \<le> candidate_rmax ff + 1 / 1000" "candidate_rmax ff + 1 / 1000" "candidate_rmin ff"] assms(1)
    by (auto simp: radii_def sampling_ok_def Let_def)
  obtain phis where phis: "loop_from (- pi) (candidate_dphi ff) (\<lambda>phi. phi < pi) = Some phis"
    using loop_from_ends [of "candidate_dphi ff" "\<lambda>phi. phi < pi" pi "- pi"] assms(1) by (auto simp: sampling_ok_def)
  let ?I = "\<lambda>acc :: Frontier \<times> PerceptionUtils. with_views ff p d ft (fst acc)"
  have inner: "\<exists>s'. sample_viewpoint ff p d caster rc phi s = Some s' \<and> ?I s'" if "?I s" for rc phi s
    using sample_viewpoint_ok [OF that assms(2), of caster rc phi "snd s"] by auto
  have "\<exists>s'. fold_option (\<lambda>rc acc'. Option.bind (Some phis) (\<lambda>phis. fold_option (sample_viewpoint ff p d caster rc) phis acc')) rs (ft, u) = Some s' \<and> ?I s'"
  proof (rule fold_option_inv)
    fix rc s
    assume "?I s"
    then have "\<exists>s'. fold_option (sample_viewpoint ff p d caster rc) phis s = Some s' \<and> ?I s'" by (intro fold_option_inv inner)
    then show "\<exists>s'. Option.bind (Some phis) (\<lambda>phis. fold_option (sample_viewpoint ff p d caster rc) phis s) = Some s' \<and> ?I s'" by simp
  next
    show "?I (ft, u)" unfolding with_views_def by (intro exI [of _ "[]"]) simp
  qed
  then show ?thesis unfolding sampleViewpoints_def rs Option.bind.simps phis by auto
qed

section \<open>Sorting the viewpoints\<close>

lemma sorted_views: "sorted_wrt (\<lambda>v w. visib_num w \<le> visib_num v) (sort_by better_view vs)"
proof (induction vs)
  case Nil
  then show ?case by (simp add: sort_by_def)
next
  case (Cons v vs)
  have "sorted_wrt (\<lambda>v w. visib_num w \<le> visib_num v) (insert_by better_view v ws)"
    if "sorted_wrt (\<lambda>v w. visib_num w \<le> visib_num v) ws" for ws
    using that
  proof (induction ws)
    case (Cons w ws)
    have set: "set (insert_by better_view v ws) = insert v (set ws)" by (metis mset_insert_by set_mset_add_mset_insert set_mset_mset)
    show ?case
    proof (cases "better_view w v")
      case True
      then have "visib_num v \<le> visib_num w" by (simp add: better_view_def)
      then show ?thesis using True Cons set by simp
    next
      case False
      then have "visib_num w \<le> visib_num v" by (simp add: better_view_def)
      then show ?thesis using False Cons.prems by fastforce
    qed
  qed simp
  then show ?case using Cons by (simp add: sort_by_def)
qed

section \<open>Choosing the frontiers to visit\<close>

text \<open>What does not change when viewpoints are sampled and frontiers are numbered.\<close>

definition core :: "Frontier \<Rightarrow> Frontier" where
  "core ft = ft\<lparr>viewpoints := [], ftr_id := 0\<rparr>"

lemma core_simps [simp]: "cells (core ft) = cells ft" "costs (core ft) = costs ft" "paths (core ft) = paths ft"
  "ftr_min (core ft) = ftr_min ft" "ftr_max (core ft) = ftr_max ft" "filtered_cells (core ft) = filtered_cells ft"
  "average (core ft) = average ft" "core (ft\<lparr>viewpoints := vs\<rparr>) = core ft" "core (ft\<lparr>ftr_id := i\<rparr>) = core ft"
  by (simp_all add: core_def)

definition visitable :: "finder_params \<Rightarrow> MapParam \<Rightarrow> MapData \<Rightarrow> Frontier \<Rightarrow> bool" where
  "visitable ff p d ft \<longleftrightarrow> viewpoints ft \<noteq> [] \<and> (\<forall>v \<in> set (viewpoints ft). good_view ff p d v) \<and>
     sorted_wrt (\<lambda>v w. visib_num w \<le> visib_num v) (viewpoints ft)"

lemma visit_step_ok:
  assumes "sampling_ok ff" "filtered_cells tmp \<noteq> []" "viewpoints tmp = []"
  shows "\<exists>s' ft done'. visit_step ff p d caster tmp (s, done) = Some (s', done') \<and> core ft = core tmp \<and>
    frontier_flag s' = frontier_flag s \<and> removed_ids s' = removed_ids s \<and>
    (visitable ff p d ft \<and> frontiers s' = frontiers s @ [ft] \<and> dormant_frontiers s' = dormant_frontiers s \<and>
       first_new_ftr s' = (case first_new_ftr s of None \<Rightarrow> Some (length (frontiers s)) | Some i \<Rightarrow> Some i) \<or>
     viewpoints ft = [] \<and> frontiers s' = frontiers s \<and> dormant_frontiers s' = dormant_frontiers s @ [ft] \<and>
       first_new_ftr s' = first_new_ftr s)"
proof -
  obtain ft u vs where r: "sampleViewpoints ff p d caster (tmp, percep_utils s) = Some (ft, u)" "ft = tmp\<lparr>viewpoints := vs\<rparr>"
    "\<forall>v \<in> set vs. good_view ff p d v"
    using sampleViewpoints_ok [OF assms(1,2), of p d caster "percep_utils s"] assms(3) unfolding with_views_def by auto
  show ?thesis
  proof (cases "vs = []")
    case True
    then show ?thesis using r by (intro exI [of _ "s\<lparr>percep_utils := u, dormant_frontiers := dormant_frontiers s @ [ft]\<rparr>"] exI [of _ ft]
          exI [of _ "done @ [ft]"]) (simp add: visit_step_def Let_def)
  next
    case False
    let ?ft = "ft\<lparr>viewpoints := sort_by better_view vs\<rparr>"
    have "set (sort_by better_view vs) = set vs" by (metis mset_sort_by set_mset_mset)
    then have "visitable ff p d ?ft" using False r(3) sorted_views by (auto simp: visitable_def)
    then show ?thesis using r False
      by (intro exI [of _ "s\<lparr>percep_utils := u, frontiers := frontiers s @ [?ft],
            first_new_ftr := (case first_new_ftr s of None \<Rightarrow> Some (length (frontiers s)) | Some i \<Rightarrow> Some i)\<rparr>"] exI [of _ ?ft]
          exI [of _ "done @ [ft]"]) (simp add: visit_step_def Let_def cong: option.case_cong)
  qed
qed

lemma visit_fold:
  assumes "sampling_ok ff" "\<forall>t \<in> set tmps. filtered_cells t \<noteq> [] \<and> viewpoints t = []"
  shows "\<exists>s' done' new dorm. fold_option (visit_step ff p d caster) tmps (s, done) = Some (s', done') \<and>
    frontier_flag s' = frontier_flag s \<and> removed_ids s' = removed_ids s \<and>
    frontiers s' = frontiers s @ new \<and> dormant_frontiers s' = dormant_frontiers s @ dorm \<and>
    first_new_ftr s' = (case first_new_ftr s of Some i \<Rightarrow> Some i | None \<Rightarrow> if new = [] then None else Some (length (frontiers s))) \<and>
    mset (map core (new @ dorm)) = mset (map core tmps) \<and> (\<forall>ft \<in> set new. visitable ff p d ft)"
  using assms(2)
proof (induction tmps arbitrary: s "done")
  case Nil
  then show ?case by (intro exI [of _ s] exI [of _ "done"] exI [of _ "[]"]) (simp split: option.split)
next
  case (Cons tmp tmps)
  have t: "filtered_cells tmp \<noteq> []" "viewpoints tmp = []" "\<forall>t \<in> set tmps. filtered_cells t \<noteq> [] \<and> viewpoints t = []"
    using Cons.prems by simp_all
  obtain s1 ft done1 where f: "visit_step ff p d caster tmp (s, done) = Some (s1, done1)" "core ft = core tmp"
    "frontier_flag s1 = frontier_flag s" "removed_ids s1 = removed_ids s"
    "visitable ff p d ft \<and> frontiers s1 = frontiers s @ [ft] \<and> dormant_frontiers s1 = dormant_frontiers s \<and>
       first_new_ftr s1 = (case first_new_ftr s of None \<Rightarrow> Some (length (frontiers s)) | Some i \<Rightarrow> Some i) \<or>
     viewpoints ft = [] \<and> frontiers s1 = frontiers s \<and> dormant_frontiers s1 = dormant_frontiers s @ [ft] \<and>
       first_new_ftr s1 = first_new_ftr s"
    using visit_step_ok [OF assms(1) t(1,2), of p d caster s "done"] by (elim exE conjE) (rule that)
  obtain s' done' new dorm where r: "fold_option (visit_step ff p d caster) tmps (s1, done1) = Some (s', done')"
    "frontier_flag s' = frontier_flag s1" "removed_ids s' = removed_ids s1"
    "frontiers s' = frontiers s1 @ new" "dormant_frontiers s' = dormant_frontiers s1 @ dorm"
    "first_new_ftr s' = (case first_new_ftr s1 of Some i \<Rightarrow> Some i | None \<Rightarrow> if new = [] then None else Some (length (frontiers s1)))"
    "mset (map core (new @ dorm)) = mset (map core tmps)" "\<forall>ft \<in> set new. visitable ff p d ft"
    using Cons.IH [OF t(3), of s1 done1] by (elim exE conjE) (rule that)
  have run: "fold_option (visit_step ff p d caster) (tmp # tmps) (s, done) = Some (s', done')" using f(1) r(1) by simp
  from f(5) show ?case
  proof
    assume a: "visitable ff p d ft \<and> frontiers s1 = frontiers s @ [ft] \<and> dormant_frontiers s1 = dormant_frontiers s \<and>
       first_new_ftr s1 = (case first_new_ftr s of None \<Rightarrow> Some (length (frontiers s)) | Some i \<Rightarrow> Some i)"
    have "first_new_ftr s' = (case first_new_ftr s of Some i \<Rightarrow> Some i | None \<Rightarrow> if ft # new = [] then None else Some (length (frontiers s)))"
      using a r(6) by (simp split: option.splits)
    moreover have "mset (map core ((ft # new) @ dorm)) = mset (map core (tmp # tmps))" using r(7) f(2) by simp
    ultimately show ?thesis using run f(3,4) r(2-5,8) a
      by - (rule exI [of _ s'], rule exI [of _ done'], rule exI [of _ "ft # new"], rule exI [of _ dorm], simp)
  next
    assume a: "viewpoints ft = [] \<and> frontiers s1 = frontiers s \<and> dormant_frontiers s1 = dormant_frontiers s @ [ft] \<and>
       first_new_ftr s1 = first_new_ftr s"
    have "mset (map core (new @ ft # dorm)) = mset (map core (tmp # tmps))" using r(7) f(2) by simp
    then show ?thesis using run f(3,4) r(2-6,8) a
      by - (rule exI [of _ s'], rule exI [of _ done'], rule exI [of _ new], rule exI [of _ "ft # dorm"], simp cong: option.case_cong)
  qed
qed

lemma length_renumber [simp]: "length (renumber fts) = length fts"
  by (simp add: renumber_def)

lemma nth_renumber [simp]: "i < length fts \<Longrightarrow> renumber fts ! i = (fts ! i)\<lparr>ftr_id := int i\<rparr>"
  by (simp add: renumber_def nth_enumerate_eq)

lemma map_renumber: "(\<And>ft i. f (ft\<lparr>ftr_id := i\<rparr>) = f ft) \<Longrightarrow> map f (renumber fts) = map f fts"
  by (rule nth_equalityI) simp_all

lemma clusters_ok_same_cells: "map cells gts = map cells fts \<Longrightarrow> clusters_ok p flags fts \<Longrightarrow> clusters_ok p flags gts"
  by (rule clusters_ok_mset) simp_all

lemma clusters_ok_core:
  assumes "mset (map core gts) = mset (map core hts)" "clusters_ok p flags (fts @ hts)"
  shows "clusters_ok p flags (fts @ gts)"
proof (rule clusters_ok_mset [OF assms(2)])
  have "mset (map cells gts) = mset (map cells hts)"
    using arg_cong [OF assms(1), of "image_mset cells"] by (simp add: multiset.map_comp comp_def flip: mset_map)
  then have "mset (concat (map cells gts)) = mset (concat (map cells hts))"
    unfolding mset_concat sum_mset_sum_list [symmetric] mset_map [of mset] by (simp only:)
  then show "mset (concat (map cells (fts @ gts))) = mset (concat (map cells (fts @ hts)))" by simp
qed

section \<open>The search\<close>

lemma disjoint_parts:
  "distinct (concat (map f xs)) \<Longrightarrow> set (concat (map f (filter P xs))) \<inter> set (concat (map f (filter (\<lambda>x. \<not> P x) xs))) = {}"
proof (induction xs)
  case (Cons x xs)
  then have ih: "set (concat (map f (filter P xs))) \<inter> set (concat (map f (filter (\<lambda>x. \<not> P x) xs))) = {}"
    and new: "set (f x) \<inter> set (concat (map f xs)) = {}" by auto
  have sub: "set (concat (map f (filter Q xs))) \<subseteq> set (concat (map f xs))" for Q by auto
  show ?case
  proof (cases "P x")
    case True
    then show ?thesis using ih new sub [of "\<lambda>x. \<not> P x"] unfolding filter.simps if_P [OF True] by (simp add: Int_Un_distrib2) blast
  next
    case False
    then show ?thesis using ih new sub [of P] unfolding filter.simps by (simp add: Int_Un_distrib) blast
  qed
qed simp

text \<open>The flags an update starts to search with: those of the clusters that the map changed are taken back.\<close>

definition flags_left :: "MapParam \<Rightarrow> MapData \<times> MultiMapManager \<Rightarrow> FrontierFinder \<Rightarrow> bool list \<Rightarrow> bool" where
  "flags_left p dm s flags \<longleftrightarrow> (\<forall>v. isInMap p v \<longrightarrow> flagged p flags v =
     (flagged p (frontier_flag s) v \<and>
      v \<notin> set (concat (map (voxels p) (filter (gone p (fst dm) (updated_boxes dm)) (frontiers s @ dormant_frontiers s))))))"

lemma searchFrontiers_ok:
  assumes box: "box_inside p" and params: "centroids downsample" "solves_eigen eigen" "0 \<le> cluster_size_xy ff"
    and ok: "flags_ok p (frontier_flag s)" "clusters_ok p (frontier_flag s) (frontiers s @ dormant_frontiers s)"
  shows "\<exists>s1 flags1 flags2. searchFrontiers downsample eigen ff p dm s = Some s1 \<and> flags_ok p (frontier_flag s1) \<and>
    frontiers s1 = filter (\<lambda>ft. \<not> gone p (fst dm) (updated_boxes dm) ft) (frontiers s) \<and>
    dormant_frontiers s1 = filter (\<lambda>ft. \<not> gone p (fst dm) (updated_boxes dm) ft) (dormant_frontiers s) \<and>
    clusters_ok p (frontier_flag s1) ((frontiers s1 @ dormant_frontiers s1) @ tmp_frontiers s1) \<and>
    (\<forall>ft \<in> set (tmp_frontiers s1). fresh downsample ft \<and> \<not> need_split ff ft \<and> (\<forall>v \<in> set (voxels p ft). is_frontier p (fst dm) v)) \<and>
    (\<forall>box \<in> set (updated_boxes dm). \<forall>v \<in> set (search_ids p box). is_frontier p (fst dm) v \<longrightarrow> flagged p (frontier_flag s1) v) \<and>
    remove_changed p (fst dm) (updated_boxes dm) 0 (frontiers s) (frontier_flag s) = Some (frontiers s1, removed_ids s1, flags1) \<and>
    flags_left p dm s flags2 \<and>
    (\<forall>v. eligible p (fst dm) v \<longrightarrow> \<not> flagged p flags2 v \<longrightarrow> flagged p (frontier_flag s1) v \<longrightarrow>
       big_enough ff (card (cluster_of p (fst dm) flags2 v)) \<longrightarrow> v \<in> set (concat (map (voxels p) (tmp_frontiers s1))))"
proof -
  let ?d = "fst dm" and ?boxes = "updated_boxes dm"
  let ?g = "gone p ?d ?boxes" and ?all = "frontiers s @ dormant_frontiers s"
  have parts: "clusters_ok p (frontier_flag s) (frontiers s)" "clusters_ok p (frontier_flag s) (dormant_frontiers s)"
    using ok(2) by (simp_all add: clusters_ok_append)
  let ?kept = "filter (\<lambda>ft. \<not> ?g ft) (frontiers s)" and ?dorm = "filter (\<lambda>ft. \<not> ?g ft) (dormant_frontiers s)"
  obtain ids flags1 where r1: "remove_changed p ?d ?boxes 0 (frontiers s) (frontier_flag s) = Some (?kept, ids, flags1)"
    "flags_ok p flags1"
    "\<forall>v. isInMap p v \<longrightarrow> flagged p flags1 v = (flagged p (frontier_flag s) v \<and> v \<notin> set (concat (map (voxels p) (filter ?g (frontiers s)))))"
    using remove_changed_ok [OF box ok(1) parts(1), of ?d ?boxes 0] by (elim exE conjE) (rule that)
  obtain ids2 flags2 where r2: "remove_changed p ?d ?boxes 0 (dormant_frontiers s) flags1 = Some (?dorm, ids2, flags2)"
    "flags_ok p flags2"
    "\<forall>v. isInMap p v \<longrightarrow> flagged p flags2 v = (flagged p flags1 v \<and> v \<notin> set (concat (map (voxels p) (filter ?g (dormant_frontiers s)))))"
    using remove_changed_ok [OF box r1(2) parts(2), of ?d ?boxes 0] by (elim exE conjE) (rule that)
  have ok2: "clusters_ok p flags2 (filter (\<lambda>ft. \<not> ?g ft) ?all)"
  proof (rule clusters_ok_flags [OF clusters_ok_filter [OF ok(2)] box])
    fix v
    assume v: "v \<in> set (concat (map (voxels p) (filter (\<lambda>ft. \<not> ?g ft) ?all)))" "isInMap p v" "flagged p (frontier_flag s) v"
    have "distinct (concat (map (voxels p) ?all))" using ok(2) by (simp add: clusters_ok_def)
    from disjoint_parts [OF this, of ?g] v(1) have "v \<notin> set (concat (map (voxels p) (filter ?g ?all)))" by blast
    then have "v \<notin> set (concat (map (voxels p) (filter ?g (frontiers s))))" "v \<notin> set (concat (map (voxels p) (filter ?g (dormant_frontiers s))))"
      by simp_all
    then show "flagged p flags2 v" using v(2,3) r1(3) r2(3) by blast
  qed
  have closed: "\<forall>v \<in> set (concat (map (search_ids p) ?boxes)). closed_box p v"
    using search_ids_closed [OF box] by auto
  have ok2': "clusters_ok p flags2 ((?kept @ ?dorm) @ [])" using ok2 by simp
  obtain flags3 tmps where r3: "fold_option (seed_step downsample ff p ?d) (concat (map (search_ids p) ?boxes)) (flags2, []) = Some (flags3, [] @ tmps)"
    "flags_ok p flags3" "clusters_ok p flags3 ((?kept @ ?dorm) @ [] @ tmps)"
    "\<forall>ft \<in> set tmps. fresh downsample ft \<and> big_enough ff (length (cells ft)) \<and> (\<forall>v \<in> set (voxels p ft). is_frontier p ?d v)"
    "\<forall>v \<in> set (concat (map (search_ids p) ?boxes)). is_frontier p ?d v \<longrightarrow> flagged p flags3 v"
    "\<forall>v. eligible p ?d v \<longrightarrow> \<not> flagged p flags2 v \<longrightarrow> flagged p flags3 v \<longrightarrow> big_enough ff (card (cluster_of p ?d flags2 v)) \<longrightarrow>
       v \<in> set (concat (map (voxels p) tmps))"
    using seeds_ok [OF box closed r2(2) ok2', of downsample ff ?d] by (elim exE conjE) (rule that)
  have fresh: "\<forall>ft \<in> set tmps. fresh downsample ft" using r3(4) by blast
  obtain tmps' where r4: "splitLargeFrontiers downsample eigen ff tmps = Some tmps'"
    "mset (concat (map cells tmps')) = mset (concat (map cells tmps))" "\<forall>q \<in> set tmps'. fresh downsample q \<and> \<not> need_split ff q"
    using splitLargeFrontiers_ok [OF params fresh] by (elim exE conjE) (rule that)
  let ?s1 = "s\<lparr>frontier_flag := flags3, frontiers := ?kept, dormant_frontiers := ?dorm, tmp_frontiers := tmps', removed_ids := ids\<rparr>"
  have run: "searchFrontiers downsample eigen ff p dm s = Some ?s1"
    unfolding searchFrontiers_def Let_def r1(1) Option.bind.simps prod.case r2(1) r3(1) append_Nil r4(1) option.map ..
  have "clusters_ok p flags3 ((?kept @ ?dorm) @ tmps')"
    by (rule clusters_ok_mset [OF r3(3)]) (simp add: r4(2))
  moreover have "is_frontier p ?d v" if ft: "ft \<in> set tmps'" "v \<in> set (voxels p ft)" for ft v
  proof -
    obtain c where c: "c \<in> set (cells ft)" "v = posToIndex p c" using ft(2) by (auto simp: voxels_def)
    have "c \<in> set (concat (map cells tmps))" using c(1) ft(1) mset_eq_setD [OF r4(2)] by auto
    then obtain gt where gt: "gt \<in> set tmps" "c \<in> set (cells gt)" by auto
    then have "v \<in> set (voxels p gt)" using c(2) by (simp add: voxels_def)
    then show ?thesis using r3(4) gt(1) by blast
  qed
  moreover have "flagged p flags3 v" if "box \<in> set ?boxes" "v \<in> set (search_ids p box)" "is_frontier p ?d v" for box v
    using r3(5) that by auto
  moreover have "flags_left p dm s flags2"
    unfolding flags_left_def using r1(3) r2(3) by auto
  moreover have "\<forall>v. eligible p ?d v \<longrightarrow> \<not> flagged p flags2 v \<longrightarrow> flagged p flags3 v \<longrightarrow>
      big_enough ff (card (cluster_of p ?d flags2 v)) \<longrightarrow> v \<in> set (concat (map (voxels p) tmps'))"
    using r3(6) unfolding set_voxels mset_eq_setD [OF r4(2)] .
  ultimately show ?thesis using run r1(1) r3(2) r4(3)
    by - (rule exI [of _ ?s1], rule exI [of _ flags1], rule exI [of _ flags2], simp)
qed

section \<open>An update\<close>

definition finder_inv :: "MapParam \<Rightarrow> FrontierFinder \<Rightarrow> bool" where
  "finder_inv p s \<longleftrightarrow> flags_ok p (frontier_flag s) \<and> clusters_ok p (frontier_flag s) (frontiers s @ dormant_frontiers s) \<and>
     costs_ok (frontiers s) \<and> (\<forall>ft \<in> set (frontiers s). viewpoints ft \<noteq> []) \<and>
     (\<forall>i < length (frontiers s). ftr_id (frontiers s ! i) = int i)"

lemma finder_inv_init: "finder_inv p (make_finder p u)"
  by (simp add: finder_inv_def make_finder_def flags_ok_def clusters_ok_def costs_ok_def table_ok_def has_table_def)

definition finder_params_ok ::
  "(vec3 list \<Rightarrow> vec3 list) \<Rightarrow> (mat2 \<Rightarrow> (real \<times> vec2) list) \<Rightarrow> finder_params \<Rightarrow> MapParam \<Rightarrow> bool" where
  "finder_params_ok downsample eigen ff p \<longleftrightarrow> box_inside p \<and> centroids downsample \<and> solves_eigen eigen \<and>
     0 \<le> cluster_size_xy ff \<and> sampling_ok ff"

lemma fresh_filtered: "fresh downsample ft \<Longrightarrow> centroids downsample \<Longrightarrow> filtered_cells ft \<noteq> []"
  using freshD [of downsample ft] by (auto simp: centroids_def)

lemma computeFrontiersToVisit_ok:
  assumes "sampling_ok ff" "\<forall>t \<in> set (tmp_frontiers s). filtered_cells t \<noteq> [] \<and> viewpoints t = []"
  shows "\<exists>s' new dorm. computeFrontiersToVisit ff p d caster s = Some s' \<and>
    frontier_flag s' = frontier_flag s \<and> removed_ids s' = removed_ids s \<and>
    frontiers s' = renumber (frontiers s @ new) \<and> dormant_frontiers s' = dormant_frontiers s @ dorm \<and>
    first_new_ftr s' = (if new = [] then None else Some (length (frontiers s))) \<and>
    mset (map core (new @ dorm)) = mset (map core (tmp_frontiers s)) \<and> (\<forall>ft \<in> set new. visitable ff p d ft)"
proof -
  let ?s0 = "s\<lparr>first_new_ftr := None\<rparr>"
  obtain s1 done1 new dorm where r: "fold_option (visit_step ff p d caster) (tmp_frontiers s) (?s0, []) = Some (s1, done1)"
    "frontier_flag s1 = frontier_flag ?s0" "removed_ids s1 = removed_ids ?s0" "frontiers s1 = frontiers ?s0 @ new"
    "dormant_frontiers s1 = dormant_frontiers ?s0 @ dorm"
    "first_new_ftr s1 = (case first_new_ftr ?s0 of Some i \<Rightarrow> Some i | None \<Rightarrow> if new = [] then None else Some (length (frontiers ?s0)))"
    "mset (map core (new @ dorm)) = mset (map core (tmp_frontiers s))" "\<forall>ft \<in> set new. visitable ff p d ft"
    using visit_fold [OF assms, of p d caster ?s0 "[]"] by (elim exE conjE) (rule that)
  have run: "computeFrontiersToVisit ff p d caster s = Some (s1\<lparr>frontiers := renumber (frontiers s1), tmp_frontiers := done1\<rparr>)"
    by (simp add: computeFrontiersToVisit_def r(1))
  show ?thesis using run r by - (rule exI [of _ "s1\<lparr>frontiers := renumber (frontiers s1), tmp_frontiers := done1\<rparr>"],
        rule exI [of _ new], rule exI [of _ dorm], simp)
qed

lemma erase_none: "erase_costs [] ft = Some ft"
  by (simp add: erase_costs_def)

lemma erase_always:
  "(if ids \<noteq> [] then map_some (erase_costs ids) fts else Some fts) = map_some (erase_costs ids) fts"
  using map_some_eq [of fts "erase_costs []" "\<lambda>ft. ft"] by (simp add: erase_none)

lemma map_take_append: "map f xs = map f ys @ zs \<Longrightarrow> map f (take (length ys) xs) = map f ys"
  by (simp flip: take_map)

lemma map_nth_eq: "length xs = length ys \<Longrightarrow> (\<And>i. i < length xs \<Longrightarrow> f (xs ! i) = f (ys ! i)) \<Longrightarrow> map f xs = map f ys"
  by (rule nth_equalityI) simp_all

text \<open>A cluster is updated without losing what was found when it was made.\<close>

definition same_ftr :: "Frontier \<Rightarrow> Frontier \<Rightarrow> bool" where
  "same_ftr ft gt \<longleftrightarrow> cells ft = cells gt \<and> viewpoints ft = viewpoints gt \<and> filtered_cells ft = filtered_cells gt \<and>
     average ft = average gt \<and> ftr_min ft = ftr_min gt \<and> ftr_max ft = ftr_max gt"

lemma updateFrontierCostMatrix_ok:
  assumes cost: "total_cost cost" and costs: "costs_ok fts0"
    and removed: "remove_changed p d boxes 0 fts0 flags = Some (kept, removed_ids s, flags')"
    and kept: "kept = filter (\<lambda>ft. \<not> gone p d boxes ft) fts0" and fts: "frontiers s = renumber (kept @ new)"
    and first: "first_new_ftr s = (if new = [] then None else Some (length kept))"
    and fresh: "\<forall>ft \<in> set new. costs ft = [] \<and> paths ft = []"
    and views: "\<forall>ft \<in> set (kept @ new). viewpoints ft \<noteq> []"
  shows "\<exists>fts. updateFrontierCostMatrix cost s = Some (s\<lparr>frontiers := fts, removed_ids := [], first_new_ftr := None\<rparr>) \<and>
    length fts = length (kept @ new) \<and> costs_ok fts \<and>
    (\<forall>i < length fts. same_ftr (fts ! i) ((kept @ new) ! i) \<and> ftr_id (fts ! i) = int i)"
proof -
  let ?m = "length kept"
  let ?ks = "take ?m (frontiers s)" and ?ns = "drop ?m (frontiers s)"
  have at: "frontiers s ! i = ((kept @ new) ! i)\<lparr>ftr_id := int i\<rparr>" if "i < length (kept @ new)" for i
    unfolding fts by (rule nth_renumber [OF that])
  have len: "length (frontiers s) = length (kept @ new)" by (simp add: fts)
  have new_eq: "(case first_new_ftr s of None \<Rightarrow> length (frontiers s) | Some i \<Rightarrow> i) = ?m" by (simp add: first len)
  have ks: "map costs ?ks = map costs kept" "map paths ?ks = map paths kept"
    by (rule map_take_append [where zs = "map costs new"], simp add: fts map_renumber)
       (rule map_take_append [where zs = "map paths new"], simp add: fts map_renumber)
  obtain olds E P where o: "map_some (erase_costs (removed_ids s)) ?ks = Some olds" "length olds = length ?ks"
    "\<forall>i < length olds. \<exists>cs ps. olds ! i = (?ks ! i)\<lparr>costs := cs, paths := ps\<rparr>"
    "table_ok (length olds) E P" "has_table olds [0..<length olds] E P"
    using erase_costs_kept [OF removed costs kept ks] by (elim exE conjE) (rule that)
  have lo: "length olds = ?m" using o(2) len by simp
  have all: "\<exists>cs ps. (olds @ ?ns) ! i = (frontiers s ! i)\<lparr>costs := cs, paths := ps\<rparr>" if i: "i < length (kept @ new)" for i
  proof (cases "i < ?m")
    case True
    then show ?thesis using o(3) lo len by (simp add: nth_append)
  next
    case False
    then have "(olds @ ?ns) ! i = frontiers s ! i" using i lo len by (simp add: nth_append)
    then show ?thesis by (intro exI [of _ "costs (frontiers s ! i)"] exI [of _ "paths (frontiers s ! i)"]) simp
  qed
  have lens: "length (olds @ ?ns) = length (kept @ new)" using lo len by simp
  have new_rows: "\<forall>ft \<in> set ?ns. costs ft = [] \<and> paths ft = []"
  proof
    fix ft
    assume "ft \<in> set ?ns"
    then obtain i where i: "i < length ?ns" "ft = ?ns ! i" by (metis in_set_conv_nth)
    then have "ft = (new ! i)\<lparr>ftr_id := int (?m + i)\<rparr>" "i < length new" using at [of "?m + i"] len by simp_all
    then show "costs ft = [] \<and> paths ft = []" using fresh nth_mem by fastforce
  qed
  have has_views: "\<forall>ft \<in> set (olds @ ?ns). viewpoints ft \<noteq> []"
  proof
    fix ft
    assume "ft \<in> set (olds @ ?ns)"
    then obtain i where i: "i < length (kept @ new)" "ft = (olds @ ?ns) ! i" using lens by (metis in_set_conv_nth)
    obtain cs ps where "ft = (frontiers s ! i)\<lparr>costs := cs, paths := ps\<rparr>" using all [OF i(1)] i(2) by auto
    then have "viewpoints ft = viewpoints ((kept @ new) ! i)" by (simp add: at [OF i(1)])
    then show "viewpoints ft \<noteq> []" using views nth_mem [OF i(1)] by auto
  qed
  obtain fts where f: "fold_option (cost_pair cost) (cost_pairs (length olds) (length (olds @ ?ns))) (olds @ ?ns) = Some fts"
    "length fts = length (olds @ ?ns)" "costs_ok fts"
    "\<forall>i < length fts. \<exists>cs ps. fts ! i = ((olds @ ?ns) ! i)\<lparr>costs := cs, paths := ps\<rparr>"
    using cost_pairs_table [OF cost o(5,4) new_rows has_views] by (elim exE conjE) (rule that)
  have "length (olds @ ?ns) = length (frontiers s)" using lens len by simp
  then have run: "updateFrontierCostMatrix cost s = Some (s\<lparr>frontiers := fts, removed_ids := [], first_new_ftr := None\<rparr>)"
    using f(1) unfolding lo by (simp only: updateFrontierCostMatrix_def Let_def new_eq erase_always o(1) Option.bind.simps option.map)
  have rows: "same_ftr (fts ! i) ((kept @ new) ! i) \<and> ftr_id (fts ! i) = int i" if i: "i < length fts" for i
  proof -
    have i': "i < length (kept @ new)" using i f(2) lens by simp
    obtain cs ps where 1: "(olds @ ?ns) ! i = (frontiers s ! i)\<lparr>costs := cs, paths := ps\<rparr>" using all [OF i'] by blast
    obtain cs' ps' where "fts ! i = ((olds @ ?ns) ! i)\<lparr>costs := cs', paths := ps'\<rparr>" using f(4) i by blast
    then show ?thesis by (simp add: 1 at [OF i'] same_ftr_def)
  qed
  show ?thesis using run f(2,3) lens rows by (intro exI [of _ fts]) simp
qed

text \<open>
  Everything an update promises: it completes, the clusters that the map did not change stay, in order and
  with their viewpoints, the new ones are visitable, the invariant holds again and the frontier voxels of the
  searched boxes are flagged. Those a search can reach are in a cluster, to visit or dormant, unless they were
  left flagged without a cluster before or their cluster has no more than \<open>cluster_min_\<close> cells.
\<close>

definition clustered :: "MapParam \<Rightarrow> FrontierFinder \<Rightarrow> idx3 set" where
  "clustered p s = set (concat (map (voxels p) (frontiers s @ dormant_frontiers s)))"

definition update_result ::
  "(vec3 list \<Rightarrow> vec3 list) \<Rightarrow> finder_params \<Rightarrow> MapParam \<Rightarrow> MapData \<times> MultiMapManager \<Rightarrow> FrontierFinder \<Rightarrow> FrontierFinder \<Rightarrow> bool" where
  "update_result downsample ff p dm s s3 \<longleftrightarrow>
     (\<exists>flags. flags_left p dm s flags \<and>
        (\<forall>box \<in> set (updated_boxes dm). \<forall>v \<in> set (search_ids p box). eligible p (fst dm) v \<longrightarrow>
           v \<in> clustered p s3 \<or> flagged p (frontier_flag s) v \<and> v \<notin> clustered p s \<or>
           \<not> big_enough ff (card (cluster_of p (fst dm) flags v)))) \<and>
     (let kept = filter (\<lambda>ft. \<not> gone p (fst dm) (updated_boxes dm) ft) (frontiers s) in
      \<exists>new. length (frontiers s3) = length (kept @ new) \<and>
        (\<forall>i < length (frontiers s3). same_ftr (frontiers s3 ! i) ((kept @ new) ! i)) \<and>
        (\<forall>ft \<in> set new. visitable ff p (fst dm) ft)) \<and>
     (\<forall>box \<in> set (updated_boxes dm). \<forall>v \<in> set (search_ids p box). is_frontier p (fst dm) v \<longrightarrow> flagged p (frontier_flag s3) v)"

lemma update_finder_ok:
  assumes params: "finder_params_ok downsample eigen ff p" and cost: "total_cost cost" and inv: "finder_inv p s"
  shows "\<exists>s2 s3. update_finder downsample eigen cost ff p caster dm s = Some (s2, s3) \<and> finder_inv p s3 \<and>
    update_result downsample ff p dm s s3"
proof -
  let ?kept = "filter (\<lambda>ft. \<not> gone p (fst dm) (updated_boxes dm) ft) (frontiers s)"
  have par: "box_inside p" "centroids downsample" "solves_eigen eigen" "0 \<le> cluster_size_xy ff" "sampling_ok ff"
    using params by (simp_all add: finder_params_ok_def)
  have inv': "flags_ok p (frontier_flag s)" "clusters_ok p (frontier_flag s) (frontiers s @ dormant_frontiers s)"
    "costs_ok (frontiers s)" "\<forall>ft \<in> set (frontiers s). viewpoints ft \<noteq> []" using inv by (simp_all add: finder_inv_def)
  obtain s1 flags1 flags2 where s1: "searchFrontiers downsample eigen ff p dm s = Some s1" "flags_ok p (frontier_flag s1)"
    "frontiers s1 = ?kept"
    "dormant_frontiers s1 = filter (\<lambda>ft. \<not> gone p (fst dm) (updated_boxes dm) ft) (dormant_frontiers s)"
    "clusters_ok p (frontier_flag s1) ((frontiers s1 @ dormant_frontiers s1) @ tmp_frontiers s1)"
    "\<forall>ft \<in> set (tmp_frontiers s1). fresh downsample ft \<and> \<not> need_split ff ft \<and> (\<forall>v \<in> set (voxels p ft). is_frontier p (fst dm) v)"
    "\<forall>box \<in> set (updated_boxes dm). \<forall>v \<in> set (search_ids p box). is_frontier p (fst dm) v \<longrightarrow> flagged p (frontier_flag s1) v"
    "remove_changed p (fst dm) (updated_boxes dm) 0 (frontiers s) (frontier_flag s) = Some (frontiers s1, removed_ids s1, flags1)"
    "flags_left p dm s flags2"
    "\<forall>v. eligible p (fst dm) v \<longrightarrow> \<not> flagged p flags2 v \<longrightarrow> flagged p (frontier_flag s1) v \<longrightarrow>
       big_enough ff (card (cluster_of p (fst dm) flags2 v)) \<longrightarrow> v \<in> set (concat (map (voxels p) (tmp_frontiers s1)))"
    using searchFrontiers_ok [OF par(1-4) inv'(1,2), of dm] by (elim exE conjE) (rule that)
  have tmps: "\<forall>t \<in> set (tmp_frontiers s1). filtered_cells t \<noteq> [] \<and> viewpoints t = []"
    using s1(6) fresh_filtered [OF _ par(2)] freshD by blast
  obtain s2 new dorm where s2: "computeFrontiersToVisit ff p (fst dm) caster s1 = Some s2" "frontier_flag s2 = frontier_flag s1"
    "removed_ids s2 = removed_ids s1" "frontiers s2 = renumber (frontiers s1 @ new)" "dormant_frontiers s2 = dormant_frontiers s1 @ dorm"
    "first_new_ftr s2 = (if new = [] then None else Some (length (frontiers s1)))"
    "mset (map core (new @ dorm)) = mset (map core (tmp_frontiers s1))" "\<forall>ft \<in> set new. visitable ff p (fst dm) ft"
    using computeFrontiersToVisit_ok [OF par(5) tmps, of p "fst dm" caster] by (elim exE conjE) (rule that)
  have fresh: "\<forall>ft \<in> set new. costs ft = [] \<and> paths ft = []"
  proof
    fix ft
    assume "ft \<in> set new"
    then have "core ft \<in> core ` set (tmp_frontiers s1)" using mset_eq_setD [OF s2(7)] by auto
    then obtain t where t: "t \<in> set (tmp_frontiers s1)" "core ft = core t" by auto
    then have "fresh downsample t" using s1(6) by blast
    note empty = freshD(4,5) [OF this]
    have "costs ft = costs t" "paths ft = paths t" using arg_cong [OF t(2), of costs] arg_cong [OF t(2), of paths] by simp_all
    then show "costs ft = [] \<and> paths ft = []" by (simp add: empty)
  qed
  have clusters: "clusters_ok p (frontier_flag s1) ((frontiers s1 @ new) @ (dormant_frontiers s1 @ dorm))"
    by (rule clusters_ok_mset [OF clusters_ok_core [OF s2(7) s1(5)]]) simp
  have views: "\<forall>ft \<in> set (frontiers s1 @ new). viewpoints ft \<noteq> []"
    using inv'(4) s1(3) s2(8) by (auto simp: visitable_def)
  obtain s3 where s3: "update_finder downsample eigen cost ff p caster dm s = Some (s2, s3)" "length (frontiers s3) = length (frontiers s1 @ new)"
    "costs_ok (frontiers s3)" "frontier_flag s3 = frontier_flag s1" "dormant_frontiers s3 = dormant_frontiers s1 @ dorm"
    "\<And>i. i < length (frontiers s3) \<Longrightarrow> same_ftr (frontiers s3 ! i) ((frontiers s1 @ new) ! i) \<and> ftr_id (frontiers s3 ! i) = int i"
  proof (cases "frontiers s2 = []")
    case True
    then have "frontiers s1 @ new = []" using s2(4) length_renumber by (metis length_0_conv)
    moreover have "update_finder downsample eigen cost ff p caster dm s = Some (s2, s2)"
      using True by (simp add: update_finder_def s1(1) s2(1))
    moreover have "costs_ok (frontiers s2)" using True by (simp add: costs_ok_def table_ok_def has_table_def)
    ultimately show ?thesis using True s2(2,5) by (intro that [of s2]) simp_all
  next
    case False
    obtain fts where f: "updateFrontierCostMatrix cost s2 = Some (s2\<lparr>frontiers := fts, removed_ids := [], first_new_ftr := None\<rparr>)"
      "length fts = length (frontiers s1 @ new)" "costs_ok fts"
      "\<forall>i < length fts. same_ftr (fts ! i) ((frontiers s1 @ new) ! i) \<and> ftr_id (fts ! i) = int i"
      using updateFrontierCostMatrix_ok [OF cost inv'(3) s1(8) [folded s2(3)] s1(3) s2(4,6) fresh views]
      by (elim exE conjE) (rule that)
    have "update_finder downsample eigen cost ff p caster dm s =
        Some (s2, s2\<lparr>frontiers := fts, removed_ids := [], first_new_ftr := None\<rparr>)"
      using False by (simp add: update_finder_def s1(1) s2(1) f(1))
    then show ?thesis using f(2-4) s2(2,5) by (intro that [of "s2\<lparr>frontiers := fts, removed_ids := [], first_new_ftr := None\<rparr>"]) simp_all
  qed
  have "map cells (frontiers s3) = map cells (frontiers s1 @ new)"
    by (rule map_nth_eq [OF s3(2)]) (use s3(6) in \<open>simp add: same_ftr_def\<close>)
  then have "clusters_ok p (frontier_flag s3) (frontiers s3 @ dormant_frontiers s3)"
    unfolding s3(4,5) by (intro clusters_ok_same_cells [OF _ clusters]) simp
  moreover have "\<forall>ft \<in> set (frontiers s3). viewpoints ft \<noteq> []"
  proof
    fix ft
    assume "ft \<in> set (frontiers s3)"
    then obtain i where i: "i < length (frontiers s3)" "ft = frontiers s3 ! i" by (metis in_set_conv_nth)
    then have "viewpoints ft = viewpoints ((frontiers s1 @ new) ! i)" using s3(6) by (simp add: same_ftr_def)
    moreover have "(frontiers s1 @ new) ! i \<in> set (frontiers s1 @ new)" using i(1) s3(2) by (intro nth_mem) simp
    ultimately show "viewpoints ft \<noteq> []" using views by metis
  qed
  ultimately have "finder_inv p s3" using s1(2) s3(3,4,6) by (simp add: finder_inv_def)
  moreover have "update_result downsample ff p dm s s3"
  proof -
    have "map cells (frontiers s3 @ dormant_frontiers s3) = map cells (frontiers s1 @ new) @ map cells (dormant_frontiers s1 @ dorm)"
      by (simp add: \<open>map cells (frontiers s3) = _\<close> s3(5))
    then have cl: "clustered p s3 = posToIndex p ` set (concat (map cells (frontiers s1 @ new) @ map cells (dormant_frontiers s1 @ dorm)))"
      unfolding clustered_def set_voxels by (simp only:)
    have "set (map cells (new @ dorm)) = set (map cells (tmp_frontiers s1))"
      using arg_cong [OF mset_eq_setD [OF s2(7)], of "image cells"] by (simp add: image_image image_Un)
    then have same: "set (concat (map cells (new @ dorm))) = set (concat (map cells (tmp_frontiers s1)))"
      unfolding set_concat by (simp only:)
    have cl3: "clustered p s3 = set (concat (map (voxels p) (frontiers s1 @ dormant_frontiers s1))) \<union>
        set (concat (map (voxels p) (tmp_frontiers s1)))"
      unfolding cl set_voxels same [symmetric] by (simp add: image_Un Un_ac)
    have "v \<in> clustered p s3 \<or> flagged p (frontier_flag s) v \<and> v \<notin> clustered p s \<or>
        \<not> big_enough ff (card (cluster_of p (fst dm) flags2 v))"
      if v: "box \<in> set (updated_boxes dm)" "v \<in> set (search_ids p box)" "eligible p (fst dm) v" for box v
    proof (cases "flagged p flags2 v")
      case True
      have inm: "isInMap p v" using v(3) inBox_closed closed_in_map [OF par(1)] by (simp add: eligible_def)
      have f: "flagged p (frontier_flag s) v"
        "v \<notin> set (concat (map (voxels p) (filter (gone p (fst dm) (updated_boxes dm)) (frontiers s @ dormant_frontiers s))))"
        using s1(9) [unfolded flags_left_def, THEN spec, THEN mp, OF inm] True by blast+
      then have "v \<in> set (concat (map (voxels p) (frontiers s1 @ dormant_frontiers s1)))" if "v \<in> clustered p s"
        using that unfolding clustered_def s1(3,4) by auto
      then show ?thesis using f(1) cl3 by blast
    next
      case False
      have "flagged p (frontier_flag s1) v" using s1(7) v by (simp add: eligible_def)
      then show ?thesis using s1(10) False v(3) cl3 by blast
    qed
    then have "\<exists>flags. flags_left p dm s flags \<and>
        (\<forall>box \<in> set (updated_boxes dm). \<forall>v \<in> set (search_ids p box). eligible p (fst dm) v \<longrightarrow>
           v \<in> clustered p s3 \<or> flagged p (frontier_flag s) v \<and> v \<notin> clustered p s \<or>
           \<not> big_enough ff (card (cluster_of p (fst dm) flags v)))" using s1(9) by blast
    moreover have "\<exists>new. length (frontiers s3) = length (?kept @ new) \<and>
        (\<forall>i < length (frontiers s3). same_ftr (frontiers s3 ! i) ((?kept @ new) ! i)) \<and> (\<forall>ft \<in> set new. visitable ff p (fst dm) ft)"
      by (rule exI [of _ new]) (use s2(8) s3(2,6) in \<open>simp add: s1(3)\<close>)
    ultimately show ?thesis unfolding update_result_def Let_def s3(4) using s1(7) by (intro conjI)
  qed
  ultimately show ?thesis using s3(1) by blast
qed

end
