(* ===== verification/Frontier_Claims.thy ===== *)
theory Frontier_Claims imports Frontier_Cycle Map_Claims
begin

text \<open>
  The properties of the frontier finder, each with an instance on a map of seven voxels per axis: clusters,
  splitting, the states it can reach, and the cost matrix for the tour solver.
\<close>

section \<open>Instances\<close>

definition ftr_param :: MapParam where
  "ftr_param = small_param\<lparr>map_size := (7, 7, 7), map_max_boundary := (7, 7, 7), map_voxel_num := (7, 7, 7),
     box_mind := (1, 1, 1), box_maxd := (5, 5, 5), box_min := (1, 1, 1), box_max := (5, 5, 5)\<rparr>"

definition ftr_data :: MapData where
  "ftr_data = init_data ftr_param (((1, 1, 1), (5, 5, 5)), ((0, 0, 0), (0, 0, 0)))"

definition ftr_finder_params :: finder_params where
  "ftr_finder_params = \<lparr>cluster_min = 1, cluster_size_xy = 2, cluster_size_z = 10, min_candidate_dist = 1 / 2,
     min_candidate_clearance = 1 / 5, candidate_dphi = 1 / 4, candidate_rmax = 3 / 2, candidate_rmin = 1 / 2,
     candidate_rnum = 3, down_sample = 3, min_visib_num = 0, min_view_finish_fraction = 1 / 5\<rparr>"

definition ftr_utils :: PerceptionUtils where
  "ftr_utils = make_perception 1 1 1 5 (1 / 10)"

text \<open>Eigenvalues and eigenvectors of a symmetric matrix.\<close>

definition sym_eigen :: "mat2 \<Rightarrow> (real \<times> vec2) list" where
  "sym_eigen m = (case m of ((a, b), (_, e)) \<Rightarrow>
     if b = 0 then [(a, (1, 0)), (e, (0, 1))]
     else let r = sqrt ((a - e) * (a - e) + 4 * b * b); l1 = (a + e + r) / 2; l2 = (a + e - r) / 2
          in [(l1, (b, l1 - a)), (l2, (b, l2 - a))])"

lemma eigen_root:
  assumes "r * r = (a - e) * (a - e) + 4 * b * b" "b \<noteq> (0 :: real)" "l = (a + e + r) / 2"
  shows "eigenpair ((a, b), (b, e)) (l, (b, l - a))"
proof -
  have "4 * (b * b + e * (l - a) - l * (l - a)) = 4 * b * b + (a - e) * (a - e) - r * r"
    unfolding assms(3) by (simp add: algebra_simps add_divide_distrib)
  then have "b * b + e * (l - a) = l * (l - a)" using assms(1) by simp
  then show ?thesis using assms(2) by (simp add: eigenpair_def algebra_simps)
qed

lemma solves_sym_eigen: "solves_eigen sym_eigen"
proof -
  have "\<exists>p q. sym_eigen ((a, b), (b, e)) = [p, q] \<and> eigenpair ((a, b), (b, e)) p \<and> eigenpair ((a, b), (b, e)) q \<and> fst p + fst q = a + e"
    for a b e
  proof (cases "b = 0")
    case True
    then show ?thesis by (simp add: sym_eigen_def eigenpair_def)
  next
    case False
    let ?r = "sqrt ((a - e) * (a - e) + 4 * b * b)"
    have r: "?r * ?r = (a - e) * (a - e) + 4 * b * b" "(- ?r) * (- ?r) = (a - e) * (a - e) + 4 * b * b"
      by (simp_all add: sum_squares_ge_zero)
    have run: "sym_eigen ((a, b), (b, e)) = [((a + e + ?r) / 2, (b, (a + e + ?r) / 2 - a)), ((a + e - ?r) / 2, (b, (a + e - ?r) / 2 - a))]"
      using False by (simp add: sym_eigen_def Let_def)
    have second: "(a + e - ?r) / 2 = (a + e + (- ?r)) / 2" by simp
    show ?thesis unfolding run using eigen_root [OF r(1) False refl] eigen_root [OF r(2) False second]
      by (intro exI conjI) (rule refl, assumption, assumption, simp add: field_simps)
  qed
  then show ?thesis unfolding solves_eigen_def by blast
qed

lemma centroids_self: "centroids (\<lambda>cs. cs)"
proof -
  have "mean [x] = x" for x by (cases x) (simp add: mean_def)
  then show ?thesis unfolding centroids_def by (metis empty_set empty_subsetI insert_subset list.simps(15) not_Cons_self2)
qed

lemma ftr_box: "box_inside ftr_param"
  by (simp add: box_inside_def dims_ok_def geometry_ok_def posToIndex_def ftr_param_def small_param_def)

lemma ftr_params_ok: "finder_params_ok (\<lambda>cs. cs) sym_eigen ftr_finder_params ftr_param"
  using solves_sym_eigen centroids_self ftr_box by (simp add: finder_params_ok_def sampling_ok_def ftr_finder_params_def)

lemma ftr_no_flags: "flags_ok ftr_param (replicate 343 False)"
  by (simp add: flags_ok_def getVoxelNum_def ftr_param_def)

section \<open>Clusters\<close>

text \<open>C18: In an exploration box inside of the map, \<open>expandFrontier\<close> terminates without an access outside of
  the flag buffer, collects exactly the voxels connected to the seed through unflagged frontier voxels of
  the box whose centre is not below 0.2 m, each once, keeps them as a cluster if they are more than \<open>cluster_min_\<close>, and flags exactly them.\<close>

theorem expand_frontier_exact:
  assumes "box_inside p" and "flags_ok p flags" and "closed_box p first"
  shows "\<exists>flags' vs ft.
    expandFrontier downsample ff p d first (flags, tmps) = Some (flags', tmps @ (if big_enough ff (length vs) then [ft] else [])) \<and>
    cells ft = map (indexToPos p) vs \<and> distinct vs \<and> set vs = cluster_of p d flags first \<and>
    (\<forall>v. isInMap p v \<longrightarrow> flagged p flags' v = (flagged p flags v \<or> v \<in> set vs))"
  using expandFrontier_ok [OF assms] by metis

lemma expand_frontier_exact_witness:
  "\<exists>flags' vs ft. expandFrontier (\<lambda>cs. cs) ftr_finder_params ftr_param ftr_data (2, 2, 2) (replicate 343 False, []) =
      Some (flags', [] @ (if big_enough ftr_finder_params (length vs) then [ft] else [])) \<and>
    cells ft = map (indexToPos ftr_param) vs \<and> distinct vs \<and> set vs = cluster_of ftr_param ftr_data (replicate 343 False) (2, 2, 2) \<and>
    (\<forall>v. isInMap ftr_param v \<longrightarrow> flagged ftr_param flags' v = (flagged ftr_param (replicate 343 False) v \<or> v \<in> set vs))"
  by (rule expand_frontier_exact [OF ftr_box ftr_no_flags]) (simp add: closed_box_def ftr_param_def small_param_def)

text \<open>C19: Given the centroids of a voxel filter and a correct eigen solver, \<open>splitLargeFrontiers\<close> terminates,
  redistributes the cells of the clusters without losing or duplicating one, and no resulting cluster needs
  to be split.\<close>

theorem split_frontiers_ends:
  assumes "centroids downsample" and "solves_eigen eigen" and "0 \<le> cluster_size_xy ff" and "\<forall>ft \<in> set fts. fresh downsample ft"
  shows "\<exists>parts. splitLargeFrontiers downsample eigen ff fts = Some parts \<and>
    mset (concat (map cells parts)) = mset (concat (map cells fts)) \<and>
    (\<forall>q \<in> set parts. cells q \<noteq> [] \<and> \<not> need_split ff q)"
  using splitLargeFrontiers_ok [OF assms] freshD(1) by meson

lemma ftr_fresh: "fresh (\<lambda>cs. cs) (the (computeFrontierInfo (\<lambda>cs. cs) (empty_frontier\<lparr>cells := [(0, 0, 0), (9, 0, 0)]\<rparr>)))"
  by (simp add: fresh_def computeFrontierInfo_def)

lemma split_frontiers_ends_witness:
  "\<exists>parts. splitLargeFrontiers (\<lambda>cs. cs) sym_eigen ftr_finder_params
      [the (computeFrontierInfo (\<lambda>cs. cs) (empty_frontier\<lparr>cells := [(0, 0, 0), (9, 0, 0)]\<rparr>))] = Some parts \<and>
    mset (concat (map cells parts)) = {#(0, 0, 0), (9, 0, 0)#} \<and> (\<forall>q \<in> set parts. cells q \<noteq> [] \<and> \<not> need_split ftr_finder_params q)"
  using split_frontiers_ends [OF centroids_self solves_sym_eigen, of ftr_finder_params
      "[the (computeFrontierInfo (\<lambda>cs. cs) (empty_frontier\<lparr>cells := [(0, 0, 0), (9, 0, 0)]\<rparr>))]"] ftr_fresh
  by (simp add: ftr_finder_params_def computeFrontierInfo_def)

section \<open>Updates\<close>

text \<open>The cost of a move, with the path search of the planner as a parameter that may change with the map.\<close>

definition view_cost ::
  "(vec3 \<Rightarrow> vec3 \<Rightarrow> vec3 list option) \<Rightarrow> MapParam \<Rightarrow> MapData \<Rightarrow> RayCaster \<Rightarrow> ViewParams \<Rightarrow> move_cost" where
  "view_cost astar p d caster vp = computeCost (view_searchPath astar p d caster) vp"

lemma total_view_cost: "total_cost (view_cost astar p d caster vp)"
proof -
  have "view_searchPath astar p d caster p1 p2 \<noteq> None" for p1 p2
    using ray_ids_end [of p1 p2 caster] by (auto simp: view_searchPath_def split: option.split)
  then show ?thesis by (simp add: total_cost_def view_cost_def computeCost_def)
qed

text \<open>The states of a finder: updates against the map at that time, whatever it is.\<close>

inductive finder_reach ::
  "(vec3 list \<Rightarrow> vec3 list) \<Rightarrow> (mat2 \<Rightarrow> (real \<times> vec2) list) \<Rightarrow> ViewParams \<Rightarrow> finder_params \<Rightarrow> MapParam \<Rightarrow> RayCaster \<Rightarrow>
     FrontierFinder \<Rightarrow> bool"
  for downsample eigen vp ff p caster where
  start: "finder_reach downsample eigen vp ff p caster (make_finder p u)"
| update: "finder_reach downsample eigen vp ff p caster s \<Longrightarrow>
    update_finder downsample eigen (view_cost astar p (fst dm) caster vp) ff p caster dm s = Some (s2, s3) \<Longrightarrow>
    finder_reach downsample eigen vp ff p caster s3"

lemma finder_reach_inv:
  assumes "finder_params_ok downsample eigen ff p" "finder_reach downsample eigen vp ff p caster s"
  shows "finder_inv p s"
  using assms(2)
proof induction
  case (start u)
  show ?case by (rule finder_inv_init)
next
  case (update s astar dm s2 s3)
  obtain t2 t3 where "update_finder downsample eigen (view_cost astar p (fst dm) caster vp) ff p caster dm s = Some (t2, t3)" "finder_inv p t3"
    using update_finder_ok [OF assms(1) total_view_cost update.IH] by blast
  then show ?case using update.hyps(2) by simp
qed

text \<open>C16: Whatever the maps, in every state that whole updates can reach the clusters, to visit and dormant, share
  no voxel and consist of flagged voxels of the box. Every frontier to visit has a viewpoint and its position
  as id (a dormant cluster has neither), and the table of costs between the frontiers to visit is complete,
  symmetric and zero on the diagonal.\<close>

theorem finder_reachable:
  assumes "finder_params_ok downsample eigen ff p" and "finder_reach downsample eigen vp ff p caster s"
  shows "distinct (concat (map (voxels p) (frontiers s @ dormant_frontiers s))) \<and>
    (\<forall>ft \<in> set (frontiers s @ dormant_frontiers s). \<forall>v \<in> set (voxels p ft). closed_box p v \<and> flagged p (frontier_flag s) v) \<and>
    (\<forall>i < length (frontiers s). ftr_id (frontiers s ! i) = int i \<and> viewpoints (frontiers s ! i) \<noteq> [] \<and>
       length (costs (frontiers s ! i)) = length (frontiers s) \<and> costs (frontiers s ! i) ! i = 0 \<and>
       (\<forall>j < length (frontiers s). costs (frontiers s ! i) ! j = costs (frontiers s ! j) ! i \<and>
          paths (frontiers s ! i) ! j = rev (paths (frontiers s ! j) ! i)))"
proof -
  have inv: "clusters_ok p (frontier_flag s) (frontiers s @ dormant_frontiers s)" "costs_ok (frontiers s)"
    "\<forall>ft \<in> set (frontiers s). viewpoints ft \<noteq> []" "\<forall>i < length (frontiers s). ftr_id (frontiers s ! i) = int i"
    using finder_reach_inv [OF assms] unfolding finder_inv_def by blast+
  have "distinct (concat (map (voxels p) (frontiers s @ dormant_frontiers s)))" using inv(1) unfolding clusters_ok_def by blast
  moreover have "\<forall>ft \<in> set (frontiers s @ dormant_frontiers s). \<forall>v \<in> set (voxels p ft). closed_box p v \<and> flagged p (frontier_flag s) v"
    using inv(1) unfolding clusters_ok_def by blast
  ultimately show ?thesis using inv(3,4) costs_okD [OF inv(2)] nth_mem by blast
qed

lemma finder_reachable_witness:
  "distinct (concat (map (voxels ftr_param) (frontiers (make_finder ftr_param ftr_utils) @ dormant_frontiers (make_finder ftr_param ftr_utils))))"
  using finder_reachable [OF ftr_params_ok finder_reach.start] by blast

text \<open>C17: In every reachable state an update against any map completes, without undefined behaviour, keeps the
  frontiers the map did not change with their cells and viewpoints, and adds frontiers whose viewpoints are
  safe, cover more than the minimal number of cells and are sorted by coverage. Every frontier voxel of the
  searched boxes is flagged afterwards, and one that the growth of clusters can reach is in the cells of a
  cluster, to visit or dormant, with two exceptions: its connected cluster of voxels without flag has no
  more than \<open>cluster_min_\<close> cells, which are flagged and dropped, or it was flagged before without being in
  any cluster, as such a drop of an earlier update leaves it.\<close>

theorem finder_update_completes:
  assumes "finder_params_ok downsample eigen ff p" and "finder_reach downsample eigen vp ff p caster s"
  shows "\<exists>s2 s3. update_finder downsample eigen (view_cost astar p (fst dm) caster vp) ff p caster dm s = Some (s2, s3) \<and>
    (\<exists>flags. flags_left p dm s flags \<and>
      (\<forall>box \<in> set (updated_boxes dm). \<forall>v \<in> set (search_ids p box). eligible p (fst dm) v \<longrightarrow>
         v \<in> clustered p s3 \<or> flagged p (frontier_flag s) v \<and> v \<notin> clustered p s \<or>
         \<not> big_enough ff (card (cluster_of p (fst dm) flags v)))) \<and>
    (\<exists>new. length (frontiers s3) = length (filter (\<lambda>ft. \<not> gone p (fst dm) (updated_boxes dm) ft) (frontiers s) @ new) \<and>
      (\<forall>i < length (frontiers s3). same_ftr (frontiers s3 ! i)
        ((filter (\<lambda>ft. \<not> gone p (fst dm) (updated_boxes dm) ft) (frontiers s) @ new) ! i)) \<and>
      (\<forall>ft \<in> set new. visitable ff p (fst dm) ft)) \<and>
    (\<forall>box \<in> set (updated_boxes dm). \<forall>v \<in> set (search_ids p box). is_frontier p (fst dm) v \<longrightarrow> flagged p (frontier_flag s3) v)"
  using update_finder_ok [OF assms(1) total_view_cost finder_reach_inv [OF assms]] unfolding update_result_def Let_def by blast

lemma finder_update_completes_witness:
  "\<exists>s2 s3. update_finder (\<lambda>cs. cs) sym_eigen (view_cost (\<lambda>a b. None) ftr_param ftr_data small_caster
      \<lparr>view_vm = 1, view_yd = 1, view_w_dir = 1\<rparr>) ftr_finder_params ftr_param small_caster (ftr_data, mm_init 0 1 10)
      (make_finder ftr_param ftr_utils) = Some (s2, s3) \<and>
    (\<forall>box \<in> set (updated_boxes (ftr_data, mm_init 0 1 10)). \<forall>v \<in> set (search_ids ftr_param box).
       is_frontier ftr_param ftr_data v \<longrightarrow> flagged ftr_param (frontier_flag s3) v)"
  using finder_update_completes [OF ftr_params_ok finder_reach.start, where dm = "(ftr_data, mm_init 0 1 10)" and
      astar = "\<lambda>a b. None" and caster = small_caster and vp = "\<lparr>view_vm = 1, view_yd = 1, view_w_dir = 1\<rparr>", of ftr_utils]
  unfolding fst_conv by (elim exE conjE) (rule exI, rule exI, rule conjI)



end
