(* ===== verification/Planner_Search.thy ===== *)
theory Planner_Search imports Frontier_Views
begin

text \<open>
  The selection of viewpoints: the graph search of \<open>active_perception/include/active_perception/graph_search.h\<close>
  on the nodes of \<open>graph_node.h\<close>, and \<open>refineLocalTour\<close> of \<open>exploration_manager\<close>. A node is its index. The
  values of the nodes change while they are in the priority queue, so the entry that it gives next is the
  parameter \<open>pick\<close>, an index into the entries in the order of their insertion. \<open>None\<close> is undefined behaviour
  or a search that does not end.
\<close>

section \<open>The graph\<close>

record ViewNode =
  vn_pos :: vec3
  vn_vel :: vec3
  vn_yaw :: real
  vn_neighbors :: "nat list"
  vn_parent :: "nat option"
  vn_g_value :: real
  vn_closed :: bool

definition new_ViewNode :: "vec3 \<Rightarrow> real \<Rightarrow> ViewNode" where
  "new_ViewNode q y = \<lparr>vn_pos = q, vn_vel = (0, 0, 0), vn_yaw = y, vn_neighbors = [], vn_parent = None,
     vn_g_value = 1000000, vn_closed = False\<rparr>"

definition costTo :: "move_cost \<Rightarrow> ViewNode \<Rightarrow> ViewNode \<Rightarrow> real option" where
  "costTo cost a b = map_option fst (cost (vn_pos a) (vn_pos b) (vn_yaw a) (vn_yaw b) (vn_vel a))"

definition addNode :: "ViewNode \<Rightarrow> ViewNode list \<Rightarrow> ViewNode list" where
  "addNode node nodes = nodes @ [node]"

definition addEdge :: "nat \<Rightarrow> nat \<Rightarrow> ViewNode list \<Rightarrow> ViewNode list" where
  "addEdge from to nodes = nodes[from := (nodes ! from)\<lparr>vn_neighbors := vn_neighbors (nodes ! from) @ [to]\<rparr>]"

section \<open>The search\<close>

definition relax :: "move_cost \<Rightarrow> nat \<Rightarrow> nat \<Rightarrow> ViewNode list \<times> nat list \<Rightarrow> (ViewNode list \<times> nat list) option" where
  "relax cost vc vb acc =
     (case acc of (nodes, open_set) \<Rightarrow>
        if vn_closed (nodes ! vb) then Some acc
        else map_option (\<lambda>c.
          let g_tmp = vn_g_value (nodes ! vc) + c in
          if g_tmp < vn_g_value (nodes ! vb)
          then (nodes[vb := (nodes ! vb)\<lparr>vn_g_value := g_tmp, vn_parent := Some vc\<rparr>], open_set @ [vb])
          else acc) (costTo cost (nodes ! vc) (nodes ! vb)))"

text \<open>The path along the parents, from the start on.\<close>

partial_function (option) backtrack :: "ViewNode list \<Rightarrow> nat option \<Rightarrow> nat list option" where
  "backtrack nodes vit =
     (case vit of None \<Rightarrow> Some []
      | Some v \<Rightarrow> Option.bind (backtrack nodes (vn_parent (nodes ! v))) (\<lambda>path. Some (path @ [v])))"

partial_function (option) search_loop ::
  "(ViewNode list \<Rightarrow> nat list \<Rightarrow> nat) \<Rightarrow> move_cost \<Rightarrow> nat \<Rightarrow> ViewNode list \<Rightarrow> nat list \<Rightarrow> nat list option" where
  "search_loop pick cost goal nodes open_set =
     (if open_set = [] then Some []
      else
        let k = pick nodes open_set; vc = open_set ! k; open1 = take k open_set @ drop (Suc k) open_set;
            nodes1 = nodes[vc := (nodes ! vc)\<lparr>vn_closed := True\<rparr>]
        in if vc = goal then backtrack nodes1 (Some vc)
           else Option.bind (fold_option (relax cost vc) (vn_neighbors (nodes1 ! vc)) (nodes1, open1))
             (\<lambda>(nodes2, open2). search_loop pick cost goal nodes2 open2))"

definition DijkstraSearch :: "(ViewNode list \<Rightarrow> nat list \<Rightarrow> nat) \<Rightarrow> move_cost \<Rightarrow> nat \<Rightarrow> nat \<Rightarrow> ViewNode list \<Rightarrow> nat list option" where
  "DijkstraSearch pick cost start goal nodes =
     search_loop pick cost goal (nodes[start := (nodes ! start)\<lparr>vn_g_value := 0\<rparr>]) [start]"

section \<open>The local tour\<close>

text \<open>A viewpoint becomes a node that follows all nodes of the last group.\<close>

definition add_view :: "nat list \<Rightarrow> vec3 \<times> real \<Rightarrow> ViewNode list \<times> nat list \<Rightarrow> ViewNode list \<times> nat list" where
  "add_view last_group view acc =
     (case acc of (nodes, cur_group) \<Rightarrow> case view of (pt, yaw) \<Rightarrow>
        let k = length nodes in (fold (\<lambda>nd. addEdge nd k) last_group (addNode (new_ViewNode pt yaw) nodes), cur_group @ [k]))"

text \<open>The groups of viewpoints; of the last one only the first viewpoint, which is the final node.\<close>

fun add_groups :: "ViewNode list \<Rightarrow> nat list \<Rightarrow> (vec3 \<times> real) list list \<Rightarrow> ViewNode list \<times> nat option" where
  "add_groups nodes last_group [] = (nodes, None)"
| "add_groups nodes last_group [views] =
     (case views of
        [] \<Rightarrow> (nodes, None)
      | view # _ \<Rightarrow> let (nodes', cur_group) = add_view last_group view (nodes, []) in (nodes', Some (hd cur_group)))"
| "add_groups nodes last_group (views # groups) =
     (let (nodes', cur_group) = fold (add_view last_group) views (nodes, []) in add_groups nodes' cur_group groups)"

text \<open>The path of the refined tour, with a finer path search.\<close>

definition refined_tour :: "(vec3 \<Rightarrow> vec3 \<Rightarrow> (real \<times> vec3 list) option) \<Rightarrow> vec3 \<Rightarrow> vec3 list \<Rightarrow> vec3 list option" where
  "refined_tour search cur_pos pts =
     fold_option (\<lambda>pt tour. map_option (\<lambda>(len, path). tour @ (if len \<noteq> 0 then path else [pt]))
       (search (List.last tour) pt)) pts [cur_pos]"

text \<open>The points, yaws and path of the tour; the lists of points and yaws have the same shape.\<close>

definition refineLocalTour ::
  "(ViewNode list \<Rightarrow> nat list \<Rightarrow> nat) \<Rightarrow> move_cost \<Rightarrow> (vec3 \<Rightarrow> vec3 \<Rightarrow> (real \<times> vec3 list) option) \<Rightarrow> vec3 \<Rightarrow> vec3 \<Rightarrow> vec3 \<Rightarrow>
     vec3 list list \<Rightarrow> real list list \<Rightarrow> (vec3 list \<times> real list \<times> vec3 list) option" where
  "refineLocalTour pick cost search cur_pos cur_vel cur_yaw n_points n_yaws =
     (if map length n_points \<noteq> map length n_yaws then None
      else
        let first = (new_ViewNode cur_pos (fst cur_yaw))\<lparr>vn_vel := cur_vel\<rparr>;
            (nodes, final_node) = add_groups (addNode first []) [0] (map2 zip n_points n_yaws)
        in case final_node of
             None \<Rightarrow> None
           | Some fin \<Rightarrow>
               Option.bind (DijkstraSearch pick cost 0 fin nodes) (\<lambda>path.
                 let refined_pts = map (\<lambda>i. vn_pos (nodes ! i)) (tl path); refined_yaws = map (\<lambda>i. vn_yaw (nodes ! i)) (tl path)
                 in map_option (\<lambda>tour. (refined_pts, refined_yaws, tour)) (refined_tour search cur_pos refined_pts)))"

end
