(* ===== verification/Planner_Tours.thy ===== *)
theory Planner_Tours imports Planner_Search Tour_Allocation
begin

text \<open>
  The tours of frontiers of \<open>exploration_manager/src/fast_exploration_manager.cpp\<close>: the update of frontiers,
  the tour through those of the first cell, and the state of the planner. What the planner calls outside of
  this component is in the parameter \<open>explore_env\<close>. \<open>None\<close> is undefined behaviour, an exception, or a loop
  that does not end. Logging and timing are left out.
\<close>

section \<open>The state\<close>

text \<open>The part of \<open>ExplorationData\<close> for the planning of motions, beside the planner of cells and the finder.\<close>

record explorer =
  xp_planner :: planner
  xp_finder :: FrontierFinder
  xp_dead_frontiers :: "vec3 list list"
  xp_frontier_boxes :: "(vec3 \<times> vec3) list"
  xp_points :: "vec3 list"
  xp_views :: "vec3 list"
  xp_yaws :: "real list"
  xp_frontier_tour :: "vec3 list"
  xp_refined_ids :: "int list"
  xp_n_points :: "vec3 list list"
  xp_unrefined_points :: "vec3 list"
  xp_refined_points :: "vec3 list"
  xp_refined_views :: "vec3 list"
  xp_refined_views1 :: "vec3 list"
  xp_refined_views2 :: "vec3 list"
  xp_refined_tour :: "vec3 list"
  xp_next_goal :: vec3
  xp_path_next_goal :: "vec3 list"
  xp_kino_path :: "vec3 list"
  xp_next_pos :: vec3
  xp_next_yaw :: real
  xp_plan_num :: int

record explore_params =
  ep_refine_local :: bool
  ep_no_grid_keep_moving :: bool
  ep_refined_num :: int
  ep_refined_radius :: real
  ep_top_view_num :: int
  ep_max_decay :: real
  ep_tsp_dir :: string
  ep_relax_time :: real
  ep_init_plan_num :: int

text \<open>The path searches (between cells, between views with two weights of the heuristic, and of the trajectory planner with
  the flag for unknown space), the solvers, the order of the priority queue, and the filters.\<close>

record explore_env =
  env_grid_path_len :: "vec3 \<Rightarrow> vec3 \<Rightarrow> real option"
  env_grid_path :: "vec3 \<Rightarrow> vec3 \<Rightarrow> vec3 list option"
  env_uninit :: bool
  env_solve :: solver
  env_solve_single :: "string list \<Rightarrow> string list \<Rightarrow> string list option"
  env_astar :: "vec3 \<Rightarrow> vec3 \<Rightarrow> vec3 list option"
  env_astar_fine :: "vec3 \<Rightarrow> vec3 \<Rightarrow> vec3 list option"
  env_path_finder :: "bool \<Rightarrow> vec3 \<Rightarrow> vec3 \<Rightarrow> vec3 list option"
  env_kino :: "vec3 \<Rightarrow> vec3 \<Rightarrow> vec3 \<Rightarrow> vec3 \<Rightarrow> real \<Rightarrow> vec3 list option"
  env_pick :: "ViewNode list \<Rightarrow> nat list \<Rightarrow> nat"
  env_downsample :: "vec3 list \<Rightarrow> vec3 list"
  env_eigen :: "mat2 \<Rightarrow> (real \<times> vec2) list"

record explore_config =
  xc_plan :: plan_params
  xc_explore :: explore_params
  xc_finder :: finder_params
  xc_map :: MapParam
  xc_view :: ViewParams
  xc_caster :: RayCaster

definition xp_search :: "explore_env \<Rightarrow> explore_config \<Rightarrow> explorer \<Rightarrow> vec3 \<Rightarrow> vec3 \<Rightarrow> (real \<times> vec3 list) option" where
  "xp_search env c s = view_searchPath (env_astar env) (xc_map c) (pl_map (xp_planner s)) (xc_caster c)"

definition xp_cost :: "explore_env \<Rightarrow> explore_config \<Rightarrow> explorer \<Rightarrow> move_cost" where
  "xp_cost env c s = computeCost (xp_search env c s) (xc_view c)"

section \<open>The update of frontiers\<close>

definition view_of :: "vec3 \<Rightarrow> real \<Rightarrow> vec3" where
  "view_of q yaw = zip3 (\<lambda>a b. a + 2 * b) q (cos yaw, sin yaw, 0)"

definition updateFrontierStruct :: "explore_env \<Rightarrow> explore_config \<Rightarrow> vec3 \<Rightarrow> explorer \<Rightarrow> (int \<times> explorer) option" where
  "updateFrontierStruct env c pos s =
     (let pl = xp_planner s in
      Option.bind (update_finder (env_downsample env) (env_eigen env) (xp_cost env c s) (xc_finder c) (xc_map c) (xc_caster c)
        (pl_map pl, pl_chunks pl) (xp_finder s)) (\<lambda>(f2, f3).
      map_option (\<lambda>(points, yaws, averages).
        let pl1 = publishTaskMetrics (xc_plan c) (pl\<lparr>pl_frontiers := getFrontiers f2, pl_averages := averages\<rparr>)
        in (int (length (frontiers f2)),
            s\<lparr>xp_planner := pl1, xp_finder := f3, xp_dead_frontiers := getDormantFrontiers f2,
              xp_frontier_boxes := getFrontierBoxes f2, xp_points := points, xp_yaws := yaws,
              xp_views := map2 view_of points yaws\<rparr>)) (getTopViewpointsInfo (xc_finder c) pos f2)))"

section \<open>The tour of a single drone\<close>

text \<open>The numbers of the tour are those of the nodes; the first node is the current state.\<close>

fun read_single_tour :: "string list \<Rightarrow> int list option" where
  "read_single_tour [] = Some []"
| "read_single_tour (l # ls) =
     Option.bind (stoi l) (\<lambda>i. if i = 1 then read_single_tour ls else if i = - 1 then Some []
       else map_option ((#) (i - 2)) (read_single_tour ls))"

definition findGlobalTour :: "explore_env \<Rightarrow> explore_config \<Rightarrow> vec3 \<Rightarrow> vec3 \<Rightarrow> vec3 \<Rightarrow> explorer \<Rightarrow> (int list \<times> explorer) option" where
  "findGlobalTour env c cur_pos cur_vel cur_yaw s =
     Option.bind (getFullCostMatrix (xp_cost env c s) cur_pos cur_vel cur_yaw (xp_finder s)) (\<lambda>mat.
       let prefix = tour_prefix (ep_tsp_dir (xc_explore c)) ''drone'' (pp_drone_id (xc_plan c));
           par = [''PROBLEM_FILE = '' @ prefix @ ''.tsp'', ''GAIN23 = NO'', ''OUTPUT_TOUR_FILE ='' @ prefix @ ''.tour'', ''RUNS = 1''];
           problem = [''NAME : single'', ''TYPE : ATSP'', ''DIMENSION : '' @ to_dec (length mat), ''EDGE_WEIGHT_TYPE : EXPLICIT'',
             ''EDGE_WEIGHT_FORMAT : FULL_MATRIX'', ''EDGE_WEIGHT_SECTION''] @
             map (weight_row (\<lambda>x. to_int_trunc (x * 100))) mat @ [''EOF'']
       in case env_solve_single env problem par of
            None \<Rightarrow> Some ([], s)
          | Some tour \<Rightarrow>
              Option.bind (read_single_tour (tl (dropWhile (\<lambda>l. l \<noteq> ''TOUR_SECTION'') tour))) (\<lambda>indices.
              map_option (\<lambda>path. (indices, s\<lparr>xp_frontier_tour := path\<rparr>))
                (getPathForTour (xp_search env c s) cur_pos indices (xp_frontier_tour s) (xp_finder s))))"

section \<open>The tour through the frontiers of a cell\<close>

definition ftr_tour_par :: "string \<Rightarrow> nat \<Rightarrow> string list" where
  "ftr_tour_par prefix ftr_num =
     [''SPECIAL'', ''PROBLEM_FILE = '' @ prefix @ ''.atsp'', ''SALESMEN = '' @ to_dec 1, ''MTSP_OBJECTIVE = MINSUM'',
      ''MTSP_MIN_SIZE = '' @ to_dec (min ftr_num 4), ''MTSP_MAX_SIZE = '' @ to_dec (max 1 ftr_num), ''RUNS = 1'',
      ''TRACE_LEVEL = 0'', ''TOUR_FILE = '' @ prefix @ ''.tour'']"

text \<open>The indices of the frontiers from the nodes of the tour. The node of the next cell is taken to be the
  last one if the tour of cells has more than one cell.\<close>

definition tour_indices :: "int \<Rightarrow> bool \<Rightarrow> int list \<Rightarrow> int list \<Rightarrow> int list option" where
  "tour_indices dimension more_cells ftr_ids ids =
     (let tours = tl (parse_tours 1 dimension ids);
          indices = map (\<lambda>i. i - 2) (concat (map tl (filter (\<lambda>t. hd t = 1) tours)))
      in if [] \<in> set tours \<or> (more_cells \<and> indices = []) then None
         else map_some (\<lambda>i. if 0 \<le> i \<and> i < int (length ftr_ids) then Some (ftr_ids ! nat i) else None)
           (if more_cells then butlast indices else indices))"

definition findTourOfFrontier ::
  "explore_env \<Rightarrow> explore_config \<Rightarrow> vec3 \<Rightarrow> vec3 \<Rightarrow> vec3 \<Rightarrow> int list \<Rightarrow> vec3 list \<Rightarrow> explorer \<Rightarrow> (int list \<times> explorer) option" where
  "findTourOfFrontier env c cur_pos cur_vel cur_yaw ftr_ids grid_pos s =
     Option.bind (getSelectedCostMatrix (xc_finder c) (xp_cost env c s) [cur_pos] [cur_vel] [fst cur_yaw] ftr_ids grid_pos (xp_finder s)) (\<lambda>mat.
       let dimension = length mat; prefix = tour_prefix (pp_mtsp_dir (xc_plan c)) ''amtsp'' (pp_drone_id (xc_plan c));
           problem = atsp_file ''amtsp'' ''ATSP'' dimension [] (\<lambda>x. to_int_trunc (100 * x)) mat;
           par = ftr_tour_par prefix (length (pl_frontiers (xp_planner s)))
       in case env_solve env False 1 problem par of
            None \<Rightarrow> Some ([], s)
          | Some tour \<Rightarrow>
              Option.bind (read_tour tour) (\<lambda>ids.
              Option.bind (tour_indices (int dimension) (length (pl_grid_tour (xp_planner s)) > 2) ftr_ids ids) (\<lambda>indices.
              map_option (\<lambda>path. (indices, s\<lparr>xp_frontier_tour := path @ take 1 grid_pos\<rparr>))
                (getPathForTour (xp_search env c s) cur_pos indices (xp_frontier_tour s) (xp_finder s)))))"

text \<open>The tour of cells, and that of the frontiers in the first one.\<close>

definition findGridAndFrontierPath ::
  "explore_env \<Rightarrow> explore_config \<Rightarrow> real \<Rightarrow> vec3 \<Rightarrow> vec3 \<Rightarrow> vec3 \<Rightarrow> explorer \<Rightarrow> (int list \<times> int list \<times> explorer) option" where
  "findGridAndFrontierPath env c now cur_pos cur_vel cur_yaw s =
     Option.bind (findGlobalTourOfGridFromSwarm (env_grid_path_len env) (env_grid_path env) (env_uninit env) (env_solve env)
       (xc_map c) (xc_plan c) now cur_pos cur_vel False (xp_planner s)) (\<lambda>(found, ego_ids, other_ids, pl).
       let s1 = s\<lparr>xp_planner := pl\<rparr> in
       if \<not> found \<or> ego_ids = [] then Some ([], [], s1)
       else
         let ftr_ids = hg_getFrontiersInGrid (pl_grid pl) ego_ids;
             grid_pos = (case getNextGrid (pl_grid pl) ego_ids of None \<Rightarrow> [] | Some (q, _) \<Rightarrow> [q])
         in if ftr_ids = [] then Some (ego_ids, [], s1)
            else map_option (\<lambda>(frontier_ids, s2). (ego_ids, frontier_ids, s2))
              (findTourOfFrontier env c cur_pos cur_vel cur_yaw ftr_ids grid_pos s1))"

end
