(* ===== verification/Planner_Motion.thy ===== *)
theory Planner_Motion imports Planner_Tours
begin

text \<open>
  The planning of one motion in \<open>exploration_manager/src/fast_exploration_manager.cpp\<close>: the choice of the next
  viewpoint, a goal near it that can be reached, and the path to it. The calls of the trajectory planner are
  returned as values of \<open>motion_call\<close>. \<open>None\<close> is undefined behaviour or a loop that does not end. Logging,
  timing and the check that pointers are set are left out.
\<close>

section \<open>A reachable goal\<close>

definition tryPlanGoalCandidate ::
  "explore_env \<Rightarrow> explore_config \<Rightarrow> MapData \<Rightarrow> vec3 \<Rightarrow> bool \<Rightarrow> vec3 \<Rightarrow> (vec3 \<times> vec3 list) option" where
  "tryPlanGoalCandidate env c d start_pos opt candidate =
     (let p = xc_map c; i = posToIndex p candidate in
      if \<not> isInBoxPos p candidate then None
      else if getInflateOccupancy p d i = 1 \<or> getOccupancy p d i = Some OCCUPIED then None
      else case env_path_finder env opt start_pos candidate of
             None \<Rightarrow> None
           | Some path \<Rightarrow> if path = [] then None else Some (candidate, path))"

fun first_some :: "('a \<Rightarrow> 'b option) \<Rightarrow> 'a list \<Rightarrow> 'b option" where
  "first_some f [] = None"
| "first_some f (x # xs) = (case f x of None \<Rightarrow> first_some f xs | Some y \<Rightarrow> Some y)"

definition clamp_to_box :: "MapParam \<Rightarrow> vec3 \<Rightarrow> vec3" where
  "clamp_to_box p pos =
     zip3 max (map3 (\<lambda>lo. lo + resolution p) (box_mind p)) (zip3 min (map3 (\<lambda>hi. hi - resolution p) (box_maxd p)) pos)"

definition xy_norm :: "vec3 \<Rightarrow> real" where
  "xy_norm v = (case v of (x, y, _) \<Rightarrow> sqrt (x * x + y * y))"

text \<open>The candidates in the order in which they are tried: the goal, points on the way to it, a point pushed
  away from obstacles, points beside the way, and points on circles around the goal.\<close>

definition way_candidates :: "MapParam \<Rightarrow> vec3 \<Rightarrow> vec3 \<Rightarrow> vec3 list" where
  "way_candidates p start_pos goal_dir =
     (if vec_norm goal_dir > 1 / 1000
      then map (\<lambda>step. clamp_to_box p (zip3 (+) start_pos (map3 (\<lambda>x. 5 / 100 * real step * x) goal_dir))) (rev [1..<20]) else [])"

definition pushed_candidates :: "MapParam \<Rightarrow> MapData \<Rightarrow> vec3 \<Rightarrow> vec3 list" where
  "pushed_candidates p d goal =
     (let (dist, grad) = getDistWithGrad p d goal in
      if dist > 0 \<and> vec_norm grad > 1 / 1000
      then [clamp_to_box p (zip3 (+) goal (map3 (\<lambda>x. x * max (6 / 10) (2 * resolution p)) (normalized grad)))] else [])"

definition lateral_candidates :: "MapParam \<Rightarrow> vec3 \<Rightarrow> vec3 \<Rightarrow> vec3 \<Rightarrow> vec3 list" where
  "lateral_candidates p start_pos goal goal_dir =
     (let n = xy_norm goal_dir; res = resolution p;
          dir = (- fst (snd goal_dir) / n, fst goal_dir / n, 0);
          on_line = (\<lambda>fr. case zip3 (+) start_pos (map3 (\<lambda>x. fr * x) goal_dir) of
            (x, y, _) \<Rightarrow> (x, y, snd (snd start_pos) + fr * (snd (snd goal) - snd (snd start_pos))))
      in if n > 1 / 1000
         then [clamp_to_box p (zip3 (+) (on_line fr) (map3 (\<lambda>x. sg * offset * x) dir)).
                fr \<leftarrow> [8 / 10, 6 / 10, 4 / 10, 2 / 10],
                offset \<leftarrow> [max (6 / 10) (2 * res), max (12 / 10) (4 * res), max (18 / 10) (6 * res)],
                sg \<leftarrow> [- 1, 1]]
         else [])"

definition directions :: "(real \<times> real) list" where
  "directions = (let k = 70710678 / 100000000
     in [(1, 0), (- 1, 0), (0, 1), (0, - 1), (k, k), (k, - k), (- k, k), (- k, - k)])"

definition circle_candidates :: "MapParam \<Rightarrow> vec3 \<Rightarrow> vec3 list" where
  "circle_candidates p goal =
     (let res = resolution p in
      [clamp_to_box p (zip3 (+) goal (radius * fst dir, radius * snd dir, z_offset)).
        radius \<leftarrow> [max (6 / 10) (2 * res), max (12 / 10) (4 * res), max (18 / 10) (6 * res), max (24 / 10) (8 * res), max 3 (10 * res)],
        z_offset \<leftarrow> [0, res, - res], dir \<leftarrow> directions])"

definition goal_candidates :: "MapParam \<Rightarrow> MapData \<Rightarrow> vec3 \<Rightarrow> vec3 \<Rightarrow> vec3 list" where
  "goal_candidates p d start_pos raw_goal =
     (let goal = clamp_to_box p raw_goal; goal_dir = zip3 (-) goal start_pos
      in goal # way_candidates p start_pos goal_dir @ pushed_candidates p d goal @
         lateral_candidates p start_pos goal goal_dir @ circle_candidates p goal)"

definition findSafeReachableGoal ::
  "explore_env \<Rightarrow> explore_config \<Rightarrow> MapData \<Rightarrow> vec3 \<Rightarrow> vec3 \<Rightarrow> bool \<Rightarrow> (vec3 \<times> vec3 list) option" where
  "findSafeReachableGoal env c d start_pos raw_goal opt =
     (let try_mode = (\<lambda>opt. first_some (tryPlanGoalCandidate env c d start_pos opt) (goal_candidates (xc_map c) d start_pos raw_goal))
      in case try_mode opt of
           Some r \<Rightarrow> Some r
         | None \<Rightarrow> if \<not> opt then try_mode True else None)"

section \<open>Shortening a path\<close>

definition shorten_step ::
  "MapParam \<Rightarrow> MapData \<Rightarrow> RayCaster \<Rightarrow> vec3 list \<Rightarrow> nat \<Rightarrow> vec3 list \<Rightarrow> vec3 list option" where
  "shorten_step p d caster path i short_tour =
     (if vec_norm (zip3 (-) (path ! i) (List.last short_tour)) > 3 then Some (short_tour @ [path ! i])
      else map_option (\<lambda>ids.
        if \<exists>idx \<in> set ids. getInflateOccupancy p d idx = 1 \<or> getOccupancy p d idx = Some UNKNOWN
        then short_tour @ [path ! i] else short_tour)
        (ray_ids (snd (ray_input (List.last short_tour) (path ! Suc i) caster))))"

definition shortenPath :: "MapParam \<Rightarrow> MapData \<Rightarrow> RayCaster \<Rightarrow> vec3 list \<Rightarrow> vec3 list option" where
  "shortenPath p d caster path =
     (if path = [] then Some []
      else map_option (\<lambda>short_tour.
        let tour = (if vec_norm (zip3 (-) (List.last path) (List.last short_tour)) > 1 / 1000 then short_tour @ [List.last path] else short_tour)
        in case tour of
             [a, b] \<Rightarrow> [a, map3 (\<lambda>x. x / 2) (zip3 (+) a b), b]
           | _ \<Rightarrow> tour)
        (fold_option (shorten_step p d caster path) [1..<length path - 1] [hd path]))"

section \<open>The trajectory to a viewpoint\<close>

datatype motion_call =
  PlanExploreTraj "vec3 list" vec3 vec3 real
| KinodynamicReplan vec3 vec3 vec3 vec3 real
| PlanYawExplore vec3 real bool real

text \<open>The waypoints of a far goal: until they are seven metres long.\<close>

fun truncated :: "real \<Rightarrow> vec3 list \<Rightarrow> vec3 list \<Rightarrow> vec3 list" where
  "truncated len2 acc [] = acc"
| "truncated len2 acc (q # qs) =
     (if len2 < 7 then truncated (len2 + vec_norm (zip3 (-) q (List.last acc))) (acc @ [q]) qs else acc)"

text \<open>The result is whether a trajectory was planned, and the calls of the trajectory planner.\<close>

definition planTrajToView ::
  "explore_env \<Rightarrow> explore_config \<Rightarrow> vec3 \<Rightarrow> vec3 \<Rightarrow> vec3 \<Rightarrow> vec3 \<Rightarrow> vec3 \<Rightarrow> real \<Rightarrow> explorer \<Rightarrow> (bool \<times> motion_call list \<times> explorer) option" where
  "planTrajToView env c pos vel acc yaw next_pos next_yaw s =
     (let d = pl_map (xp_planner s); ep = xc_explore c;
          diff1 = \<bar>next_yaw - fst yaw\<bar>; time_lb = min diff1 (2 * pi - diff1) / view_yd (xc_view c);
          opt = xp_plan_num s < ep_init_plan_num ep;
          yaw_call = PlanYawExplore yaw next_yaw True (ep_relax_time ep)
      in case findSafeReachableGoal env c d pos next_pos opt of
           None \<Rightarrow> Some (False, [], s)
         | Some (safe_goal, safe_path) \<Rightarrow>
             Option.bind (shortenPath (xc_map c) d (xc_caster c) safe_path) (\<lambda>path.
               let s1 = s\<lparr>xp_next_pos := safe_goal, xp_path_next_goal := path, xp_kino_path := []\<rparr>; len = path_length path
               in if len < 15 / 10 \<or> opt then
                    Some (True, [PlanExploreTraj path vel acc time_lb, yaw_call],
                      s1\<lparr>xp_next_goal := safe_goal,
                        xp_plan_num := (if xp_plan_num s < ep_init_plan_num ep then xp_plan_num s + 1 else xp_plan_num s)\<rparr>)
                  else if len > 7 then
                    let path2 = truncated 0 [hd path] (tl path)
                    in Some (True, [PlanExploreTraj path2 vel acc time_lb, yaw_call], s1\<lparr>xp_next_goal := List.last path2\<rparr>)
                  else
                    let s2 = s1\<lparr>xp_next_goal := safe_goal\<rparr>; call = KinodynamicReplan pos vel acc safe_goal time_lb
                    in case env_kino env pos vel acc safe_goal time_lb of
                         None \<Rightarrow> Some (False, [call], s2)
                       | Some kino \<Rightarrow> Some (True, [call, yaw_call], s2\<lparr>xp_kino_path := kino\<rparr>)))"

section \<open>The next viewpoint\<close>

text \<open>The index of the least cost below 100000.\<close>

definition min_cost_id :: "real list \<Rightarrow> nat option" where
  "min_cost_id cs =
     snd (fold (\<lambda>(i, x) (m, best). if x < m then (x, Some i) else (m, best)) (enumerate 0 cs) (100000, None))"

text \<open>Without a cell: the closest viewpoint, if the parameter says to keep moving.\<close>

definition fallback_view ::
  "explore_env \<Rightarrow> explore_config \<Rightarrow> vec3 \<Rightarrow> vec3 \<Rightarrow> vec3 \<Rightarrow> explorer \<Rightarrow> ((vec3 \<times> real) option \<times> explorer) option" where
  "fallback_view env c pos vel yaw s =
     (if \<not> ep_no_grid_keep_moving (xc_explore c) \<or> xp_points s = [] \<or> length (xp_yaws s) \<noteq> length (xp_points s) then Some (None, s)
      else map_option (\<lambda>cs. case min_cost_id cs of
          None \<Rightarrow> (None, s)
        | Some i \<Rightarrow>
            let next_pos = xp_points s ! i; next_yaw = xp_yaws s ! i
            in (Some (next_pos, next_yaw),
                s\<lparr>xp_refined_ids := [], xp_n_points := [], xp_unrefined_points := [next_pos], xp_refined_points := [next_pos],
                  xp_refined_views := [view_of next_pos next_yaw], xp_refined_views1 := [], xp_refined_views2 := []\<rparr>))
        (map_some (\<lambda>(q, y). map_option fst (xp_cost env c s pos q (fst yaw) y vel)) (zip (xp_points s) (xp_yaws s))))"

text \<open>Without a frontier in the cell: the viewpoint whose frontier is closest to the centre of the cell.\<close>

definition closest_view :: "explore_env \<Rightarrow> explore_config \<Rightarrow> explorer \<Rightarrow> (vec3 \<times> real) option" where
  "closest_view env c s =
     (let tour = pl_grid_tour (xp_planner s); averages = pl_averages (xp_planner s) in
      if length tour < 2 \<or> length averages < length (xp_points s) then None
      else Option.bind (map_some (\<lambda>i. map_option fst (xp_cost env c s (tour ! 1) (averages ! i) 0 0 (0, 0, 0))) [0..<length (xp_points s)])
        (\<lambda>cs. Option.bind (min_cost_id cs) (\<lambda>i. if i < length (xp_yaws s) then Some (xp_points s ! i, xp_yaws s ! i) else None)))"

definition point_at :: "explorer \<Rightarrow> int \<Rightarrow> vec3 option" where
  "point_at s i = (if 0 \<le> i \<and> i < int (length (xp_points s)) then Some (xp_points s ! nat i) else None)"

definition refine_tour ::
  "explore_env \<Rightarrow> explore_config \<Rightarrow> vec3 \<Rightarrow> vec3 \<Rightarrow> vec3 \<Rightarrow> vec3 list list \<Rightarrow> real list list \<Rightarrow> explorer \<Rightarrow>
     (vec3 list \<times> real list \<times> vec3 list) option" where
  "refine_tour env c pos vel yaw n_points n_yaws s =
     refineLocalTour (env_pick env) (xp_cost env c s)
       (view_searchPath (env_astar_fine env) (xc_map c) (pl_map (xp_planner s)) (xc_caster c)) pos vel yaw n_points n_yaws"

text \<open>A single frontier: its best viewpoint, on the way to the next cell if there is one. Without refinement
  the variable for the viewpoint is never set.\<close>

definition single_view ::
  "explore_env \<Rightarrow> explore_config \<Rightarrow> vec3 \<Rightarrow> vec3 \<Rightarrow> vec3 \<Rightarrow> int list \<Rightarrow> int \<Rightarrow> explorer \<Rightarrow> ((vec3 \<times> real) \<times> explorer) option" where
  "single_view env c pos vel yaw grid_ids ftr s =
     (let ep = xc_explore c in
      if \<not> ep_refine_local ep then None
      else
        Option.bind (point_at s ftr) (\<lambda>unrefined.
        Option.bind (getViewpointsInfo (xc_finder c) pos [ftr] (ep_top_view_num ep) (ep_max_decay ep) (xp_finder s)) (\<lambda>(pts, ys).
        map_option (\<lambda>((next_pos, next_yaw), s1).
          ((next_pos, next_yaw), s1\<lparr>xp_refined_points := [next_pos], xp_refined_views := [view_of next_pos next_yaw]\<rparr>))
        (let s0 = s\<lparr>xp_refined_ids := [ftr], xp_unrefined_points := [unrefined], xp_n_points := pts\<rparr> in
         if length grid_ids \<le> 1 then
           if pts = [] then None
           else Option.bind (map_some (\<lambda>(q, y). map_option fst (xp_cost env c s pos q (fst yaw) y vel)) (zip (hd pts) (hd ys)))
             (\<lambda>cs. map_option (\<lambda>i. ((hd pts ! i, hd ys ! i), s0)) (min_cost_id cs))
         else
           let (pts', ys') = (case getNextGrid (pl_grid (xp_planner s)) grid_ids of
                 None \<Rightarrow> (pts, ys) | Some (q, y) \<Rightarrow> (pts @ [[q]], ys @ [[y]]))
           in Option.bind (refine_tour env c pos vel yaw pts' ys' s) (\<lambda>(rpts, ryaws, tour).
             case (rpts, ryaws) of
               (q # _, y # _) \<Rightarrow> Some ((q, y), s0\<lparr>xp_n_points := pts', xp_refined_tour := tour\<rparr>)
             | _ \<Rightarrow> None)))))"

text \<open>The next frontiers of the tour, up to one that is far away, but at least two.\<close>

fun refined_ids :: "explorer \<Rightarrow> vec3 \<Rightarrow> real \<Rightarrow> int list \<Rightarrow> int list \<Rightarrow> int list option" where
  "refined_ids s pos radius acc [] = Some acc"
| "refined_ids s pos radius acc (i # is) =
     (case point_at s i of
        None \<Rightarrow> None
      | Some q \<Rightarrow>
          if vec_norm (zip3 (-) q pos) > radius \<and> length acc + 1 \<ge> 2 then Some (acc @ [i]) else refined_ids s pos radius (acc @ [i]) is)"

definition refined_fovs :: "(vec3 \<times> real) list \<Rightarrow> PerceptionUtils \<Rightarrow> vec3 list \<times> vec3 list \<times> PerceptionUtils" where
  "refined_fovs views u0 =
     fold (\<lambda>(q, y) (v1, v2, u). let u' = setPose q y u; (l1, l2) = getFOV u' in (v1 @ l1, v2 @ l2, u')) views ([], [], u0)"

definition several_views ::
  "explore_env \<Rightarrow> explore_config \<Rightarrow> vec3 \<Rightarrow> vec3 \<Rightarrow> vec3 \<Rightarrow> int list \<Rightarrow> explorer \<Rightarrow> ((vec3 \<times> real) \<times> explorer) option" where
  "several_views env c pos vel yaw frontier_ids s =
     (let ep = xc_explore c; knum = min (int (length frontier_ids)) (ep_refined_num ep) in
      Option.bind (refined_ids s pos (ep_refined_radius ep) [] (take (nat knum) frontier_ids)) (\<lambda>ids.
      Option.bind (getViewpointsInfo (xc_finder c) pos ids (ep_top_view_num ep) (ep_max_decay ep) (xp_finder s)) (\<lambda>(pts, ys).
      Option.bind (refine_tour env c pos vel yaw pts ys s) (\<lambda>(rpts, ryaws, tour).
        case (rpts, ryaws) of
          (q # _, y # _) \<Rightarrow>
            let (v1, v2, u) = refined_fovs (zip rpts ryaws) (percep_utils (xp_finder s))
            in Some ((q, y), s\<lparr>xp_refined_ids := ids, xp_unrefined_points := map (\<lambda>i. xp_points s ! nat i) ids, xp_n_points := pts,
                 xp_refined_points := rpts, xp_refined_views := map2 view_of rpts ryaws, xp_refined_views1 := v1,
                 xp_refined_views2 := v2, xp_refined_tour := tour, xp_finder := (xp_finder s)\<lparr>percep_utils := u\<rparr>\<rparr>)
        | _ \<Rightarrow> None))))"

definition next_view ::
  "explore_env \<Rightarrow> explore_config \<Rightarrow> vec3 \<Rightarrow> vec3 \<Rightarrow> vec3 \<Rightarrow> int list \<Rightarrow> int list \<Rightarrow> explorer \<Rightarrow> ((vec3 \<times> real) option \<times> explorer) option" where
  "next_view env c pos vel yaw grid_ids frontier_ids s =
     (if grid_ids = [] then fallback_view env c pos vel yaw s
      else case frontier_ids of
             [] \<Rightarrow> map_option (\<lambda>v. (Some v, s)) (closest_view env c s)
           | [ftr] \<Rightarrow> map_option (\<lambda>(v, s1). (Some v, s1)) (single_view env c pos vel yaw grid_ids ftr s)
           | _ \<Rightarrow> map_option (\<lambda>(v, s1). (Some v, s1)) (several_views env c pos vel yaw frontier_ids s))"

definition planExploreMotion ::
  "explore_env \<Rightarrow> explore_config \<Rightarrow> real \<Rightarrow> vec3 \<Rightarrow> vec3 \<Rightarrow> vec3 \<Rightarrow> vec3 \<Rightarrow> explorer \<Rightarrow> (EXPL_RESULT \<times> motion_call list \<times> explorer) option" where
  "planExploreMotion env c now pos vel acc yaw s0 =
     Option.bind (findGridAndFrontierPath env c now pos vel yaw (s0\<lparr>xp_frontier_tour := []\<rparr>)) (\<lambda>(grid_ids, frontier_ids, s1).
     Option.bind (next_view env c pos vel yaw grid_ids frontier_ids s1) (\<lambda>(view, s2).
       case view of
         None \<Rightarrow> Some (NO_GRID, [], s2)
       | Some (next_pos, next_yaw) \<Rightarrow>
           map_option (\<lambda>(ok, calls, s3). (if ok then SUCCEED else FAIL, calls, s3))
             (planTrajToView env c pos vel acc yaw next_pos next_yaw (s2\<lparr>xp_next_pos := next_pos, xp_next_yaw := next_yaw\<rparr>))))"

end
