(* ===== verification/Planner_Paths.thy ===== *)
theory Planner_Paths imports Planner_Motion Frontier_Cycle
begin

text \<open>
  The goals and paths of a motion: the goal can be reached and is free, the shortened path does not leave what
  was checked, and the tour of frontiers that is read from the solver.
\<close>

section \<open>Shortening\<close>

text \<open>No voxel on the ray between two points is occupied or unknown.\<close>

definition free_ray :: "MapParam \<Rightarrow> MapData \<Rightarrow> RayCaster \<Rightarrow> vec3 \<Rightarrow> vec3 \<Rightarrow> bool" where
  "free_ray p d caster a b \<longleftrightarrow> (\<exists>ids. ray_ids (snd (ray_input a b caster)) = Some ids \<and>
     (\<forall>idx \<in> set ids. \<not> (getInflateOccupancy p d idx = 1 \<or> getOccupancy p d idx = Some UNKNOWN)))"

text \<open>A segment of the path, or one that was checked.\<close>

definition safe_segment :: "MapParam \<Rightarrow> MapData \<Rightarrow> RayCaster \<Rightarrow> vec3 list \<Rightarrow> vec3 \<Rightarrow> vec3 \<Rightarrow> bool" where
  "safe_segment p d caster path a b \<longleftrightarrow> (\<exists>i. Suc i < length path \<and> a = path ! i \<and> b = path ! Suc i) \<or> free_ray p d caster a b"

definition shortened :: "MapParam \<Rightarrow> MapData \<Rightarrow> RayCaster \<Rightarrow> vec3 list \<Rightarrow> vec3 list \<Rightarrow> bool" where
  "shortened p d caster path pts \<longleftrightarrow> pts \<noteq> [] \<and> hd pts = hd path \<and> set pts \<subseteq> set path \<and> successively (safe_segment p d caster path) pts"

lemma shortened_append:
  assumes "shortened p d caster path pts" "safe_segment p d caster path (List.last pts) q" "q \<in> set path"
  shows "shortened p d caster path (pts @ [q])"
  using assms by (auto simp: shortened_def successively_append_iff)

lemma shorten_step_ok:
  assumes pts: "shortened p d caster path pts" "safe_segment p d caster path (List.last pts) (path ! i)" and i: "Suc i < length path"
  shows "\<exists>pts'. shorten_step p d caster path i pts = Some pts' \<and> shortened p d caster path pts' \<and>
    safe_segment p d caster path (List.last pts') (path ! Suc i)"
proof -
  have push: "shortened p d caster path (pts @ [path ! i]) \<and> safe_segment p d caster path (List.last (pts @ [path ! i])) (path ! Suc i)"
    using shortened_append [OF pts] i by (auto simp: safe_segment_def)
  obtain ids where ids: "ray_ids (snd (ray_input (List.last pts) (path ! Suc i) caster)) = Some ids" using ray_ids_end by blast
  show ?thesis
  proof (cases "vec_norm (zip3 (-) (path ! i) (List.last pts)) > 3 \<or> (\<exists>idx \<in> set ids. getInflateOccupancy p d idx = 1 \<or> getOccupancy p d idx = Some UNKNOWN)")
    case True
    then show ?thesis using push by (intro exI [of _ "pts @ [path ! i]"]) (auto simp: shorten_step_def ids)
  next
    case False
    then have "free_ray p d caster (List.last pts) (path ! Suc i)" using ids unfolding free_ray_def by blast
    then show ?thesis using False pts(1) by (intro exI [of _ pts]) (auto simp: shorten_step_def ids safe_segment_def)
  qed
qed

lemma shorten_fold:
  assumes "1 \<le> m" "m \<le> n" "n < length path" "shortened p d caster path pts" "safe_segment p d caster path (List.last pts) (path ! m)"
  shows "\<exists>pts'. fold_option (shorten_step p d caster path) [m..<n] pts = Some pts' \<and> shortened p d caster path pts' \<and>
    safe_segment p d caster path (List.last pts') (path ! n)"
  using assms
proof (induction "n - m" arbitrary: m pts)
  case 0
  then show ?case by simp
next
  case (Suc k)
  then have m: "m < n" "Suc m < length path" by simp_all
  obtain pts1 where s: "shorten_step p d caster path m pts = Some pts1" "shortened p d caster path pts1"
    "safe_segment p d caster path (List.last pts1) (path ! Suc m)"
    using shorten_step_ok [OF Suc.prems(4,5) m(2)] by blast
  have "k = n - Suc m" "1 \<le> Suc m" "Suc m \<le> n" using Suc.hyps(2) m(1) by simp_all
  then obtain pts' where "fold_option (shorten_step p d caster path) [Suc m..<n] pts1 = Some pts'" "shortened p d caster path pts'"
    "safe_segment p d caster path (List.last pts') (path ! n)"
    using Suc.hyps(1) [of "Suc m"] Suc.prems(3) s(2,3) by blast
  then show ?case using s(1) m(1) by (simp add: upt_conv_Cons)
qed

text \<open>The points that are kept, and the path: two points get one in the middle.\<close>

definition with_middle :: "vec3 list \<Rightarrow> vec3 list" where
  "with_middle pts = (case pts of [a, b] \<Rightarrow> [a, map3 (\<lambda>x. x / 2) (zip3 (+) a b), b] | _ \<Rightarrow> pts)"

lemma vec_norm_self: "vec_norm (zip3 (-) a a) = 0"
  by (cases a) (simp add: vec_norm_def)

lemma shortenPath_ok:
  assumes "path \<noteq> []"
  shows "\<exists>pts. shortenPath p d caster path = Some (with_middle pts) \<and> shortened p d caster path pts \<and>
    vec_norm (zip3 (-) (List.last path) (List.last pts)) \<le> 1 / 1000"
proof -
  have start: "shortened p d caster path [hd path]" using assms by (simp add: shortened_def)
  have main: "\<exists>pts. fold_option (shorten_step p d caster path) [1..<length path - 1] [hd path] = Some pts \<and> shortened p d caster path pts \<and>
      (length path = 1 \<and> pts = [hd path] \<or> safe_segment p d caster path (List.last pts) (List.last path))"
  proof (cases "length path = 1")
    case True
    then show ?thesis using start by simp
  next
    case False
    moreover have "length path \<noteq> 0" using assms by simp
    ultimately have l: "1 \<le> length path - 1" "length path - 1 < length path" by linarith+
    have "path ! 0 = hd path" using assms by (simp add: hd_conv_nth)
    then have "safe_segment p d caster path (List.last [hd path]) (path ! 1)"
      using l unfolding safe_segment_def by (intro disjI1 exI [of _ 0]) simp
    from shorten_fold [OF order_refl l start this] show ?thesis unfolding last_conv_nth [OF assms] by blast
  qed
  then obtain pts where pts: "fold_option (shorten_step p d caster path) [1..<length path - 1] [hd path] = Some pts" "shortened p d caster path pts"
    "length path = 1 \<and> pts = [hd path] \<or> safe_segment p d caster path (List.last pts) (List.last path)" by blast
  let ?far = "vec_norm (zip3 (-) (List.last path) (List.last pts)) > 1 / 1000"
  let ?tour = "if ?far then pts @ [List.last path] else pts"
  have run: "shortenPath p d caster path = Some (with_middle ?tour)" unfolding shortenPath_def with_middle_def Let_def pts(1) if_not_P [OF assms] by simp
  have "shortened p d caster path ?tour \<and> vec_norm (zip3 (-) (List.last path) (List.last ?tour)) \<le> 1 / 1000"
  proof (cases ?far)
    case True
    have "\<not> (length path = 1 \<and> pts = [hd path])"
    proof
      assume one: "length path = 1 \<and> pts = [hd path]"
      then obtain q where "path = [q]" by (cases path) auto
      then show False using True one by (simp add: vec_norm_self)
    qed
    then have "safe_segment p d caster path (List.last pts) (List.last path)" using pts(3) by blast
    then have "shortened p d caster path (pts @ [List.last path])" using shortened_append [OF pts(2)] last_in_set [OF assms] by blast
    then show ?thesis using True by (simp add: vec_norm_self)
  next
    case False
    then show ?thesis using pts(2) by (simp add: not_less)
  qed
  then show ?thesis using run by blast
qed

section \<open>A reachable goal\<close>

lemma first_some_Some: "first_some f xs = Some y \<Longrightarrow> \<exists>x \<in> set xs. f x = Some y"
  by (induction xs) (auto split: option.splits)

text \<open>What is promised of a goal: it is in the box and free, and the path search found a path to it.\<close>

definition safe_goal :: "explore_env \<Rightarrow> explore_config \<Rightarrow> MapData \<Rightarrow> vec3 \<Rightarrow> vec3 \<Rightarrow> vec3 list \<Rightarrow> bool" where
  "safe_goal env c d start_pos goal path \<longleftrightarrow> isInBoxPos (xc_map c) goal \<and>
     getInflateOccupancy (xc_map c) d (posToIndex (xc_map c) goal) \<noteq> 1 \<and>
     getOccupancy (xc_map c) d (posToIndex (xc_map c) goal) \<noteq> Some OCCUPIED \<and> path \<noteq> [] \<and>
     (\<exists>opt. env_path_finder env opt start_pos goal = Some path)"

lemma tryPlan_safe: "tryPlanGoalCandidate env c d start_pos opt q = Some (goal, path) \<Longrightarrow> goal = q \<and> safe_goal env c d start_pos goal path"
  by (auto simp: tryPlanGoalCandidate_def safe_goal_def Let_def split: if_splits option.splits)

lemma findSafeReachableGoal_safe:
  assumes "findSafeReachableGoal env c d start_pos raw_goal opt = Some (goal, path)"
  shows "safe_goal env c d start_pos goal path" "goal \<in> set (goal_candidates (xc_map c) d start_pos raw_goal)"
proof -
  obtain o' where "first_some (tryPlanGoalCandidate env c d start_pos o') (goal_candidates (xc_map c) d start_pos raw_goal) = Some (goal, path)"
    using assms by (auto simp: findSafeReachableGoal_def Let_def split: option.splits if_splits)
  from first_some_Some [OF this] show "safe_goal env c d start_pos goal path" "goal \<in> set (goal_candidates (xc_map c) d start_pos raw_goal)"
    using tryPlan_safe by blast+
qed

section \<open>The tour of frontiers\<close>

lemma tour_step_cells:
  "\<forall>i \<in> set is. 1 < i \<and> i < dimension \<Longrightarrow> foldl (tour_step 1 dimension) (tours, tour) is = (tours, tour @ is)"
  by (induction "is" arbitrary: tour) (simp_all add: tour_step_def)

text \<open>A tour of the solver: the depot, the drone, all frontiers, and the next cell if it is a node.\<close>

definition solver_tour :: "nat \<Rightarrow> nat list \<Rightarrow> bool \<Rightarrow> int list" where
  "solver_tour n perm next_cell = [0, 1] @ map (\<lambda>i. int i + 2) perm @ (if next_cell then [int n + 2] else []) @ [- 2]"

lemma parse_solver_tour:
  assumes "\<forall>i \<in> set perm. i < n" "dimension = int n + (if next_cell then 3 else 2)"
  shows "parse_tours 1 dimension (solver_tour n perm next_cell) =
    [[], 1 # map (\<lambda>i. int i + 2) perm @ (if next_cell then [int n + 2] else [])]"
proof -
  let ?nodes = "map (\<lambda>i. int i + 2) perm @ (if next_cell then [int n + 2] else [])"
  have nodes: "\<forall>i \<in> set ?nodes. 1 < i \<and> i < dimension" using assms by auto
  have split: "solver_tour n perm next_cell = [0, 1] @ ?nodes @ [- 2]" by (simp add: solver_tour_def)
  have "foldl (tour_step 1 dimension) ([], []) [0, 1] = ([[]], [1])" by (simp add: tour_step_def)
  then have "foldl (tour_step 1 dimension) ([], []) (solver_tour n perm next_cell) =
      tour_step 1 dimension (foldl (tour_step 1 dimension) ([[]], [1]) ?nodes) (- 2)"
    unfolding split by simp
  also have "\<dots> = ([[], 1 # ?nodes], 1 # ?nodes)" unfolding tour_step_cells [OF nodes] by (simp add: tour_step_def)
  finally show ?thesis by (simp add: parse_tours_def)
qed

lemma tour_indices_ok:
  assumes perm: "\<forall>i \<in> set perm. i < length ftr_ids" and dim: "dimension = int (length ftr_ids) + (if next_cell then 3 else 2)"
    and ne: "more_cells \<longrightarrow> next_cell \<or> perm \<noteq> []" "next_cell \<longrightarrow> more_cells"
  shows "tour_indices dimension more_cells ftr_ids (solver_tour (length ftr_ids) perm next_cell) =
    Some (map ((!) ftr_ids) (if more_cells \<and> \<not> next_cell then butlast perm else perm))"
proof -
  let ?n = "length ftr_ids"
  let ?ind = "map int perm @ (if next_cell then [int ?n] else [])"
  let ?f = "\<lambda>i. if 0 \<le> i \<and> i < int ?n then Some (ftr_ids ! nat i) else None"
  have shift: "map (\<lambda>i. i - 2) (map (\<lambda>i. int i + 2) perm @ (if next_cell then [int ?n + 2] else [])) = ?ind" by (simp add: comp_def)
  have run: "tour_indices dimension more_cells ftr_ids (solver_tour ?n perm next_cell) =
      (if more_cells \<and> ?ind = [] then None else map_some ?f (if more_cells then butlast ?ind else ?ind))"
    unfolding tour_indices_def parse_solver_tour [OF perm dim] Let_def list.sel
    by (simp only: filter.simps list.simps list.sel concat.simps append_Nil2 shift if_True simp_thms set_simps insert_iff empty_iff)
  have "map_some ?f (map int is) = Some (map ((!) ftr_ids) is)" if "\<forall>i \<in> set is. i < ?n" for "is"
    using map_some_eq [of "map int is" ?f "\<lambda>i. ftr_ids ! nat i"] that by (auto simp: comp_def)
  moreover have "\<forall>i \<in> set (butlast perm). i < ?n" using perm in_set_butlastD by fast
  ultimately show ?thesis using run ne perm by (cases next_cell; cases more_cells) (auto simp: butlast_append simp flip: map_butlast)
qed

end
