(* ===== verification/Planner_Dijkstra.thy ===== *)
theory Planner_Dijkstra imports Planner_Search Frontier_Costs
begin

text \<open>
  The graph search on a net whose edges go from lower to higher indices: whatever the order in which the queue
  gives its entries, the search ends with a walk to the goal, and with a least entry each time with a walk of
  least cost.
\<close>

section \<open>Walks\<close>

definition far :: real where
  "far = 1000000"

fun net_walk :: "(nat \<Rightarrow> nat list) \<Rightarrow> nat \<Rightarrow> nat list \<Rightarrow> bool" where
  "net_walk N u [] = True"
| "net_walk N u (v # vs) = (v \<in> set (N u) \<and> net_walk N v vs)"

fun walk_cost :: "(nat \<Rightarrow> nat \<Rightarrow> real) \<Rightarrow> nat \<Rightarrow> nat list \<Rightarrow> real" where
  "walk_cost W u [] = 0"
| "walk_cost W u (v # vs) = W u v + walk_cost W v vs"

fun walk_end :: "nat \<Rightarrow> nat list \<Rightarrow> nat" where
  "walk_end u [] = u"
| "walk_end u (v # vs) = walk_end v vs"

lemma walk_append: "net_walk N u (xs @ ys) \<longleftrightarrow> net_walk N u xs \<and> net_walk N (walk_end u xs) ys"
  by (induction xs arbitrary: u) auto

lemma walk_cost_append: "walk_cost W u (xs @ ys) = walk_cost W u xs + walk_cost W (walk_end u xs) ys"
  by (induction xs arbitrary: u) auto

lemma walk_end_append: "walk_end u (xs @ ys) = walk_end (walk_end u xs) ys"
  by (induction xs arbitrary: u) auto

text \<open>A net of \<open>n\<close> nodes: edges go upwards, and no walk from the start is far.\<close>

definition net_ok :: "nat \<Rightarrow> (nat \<Rightarrow> nat list) \<Rightarrow> (nat \<Rightarrow> nat \<Rightarrow> real) \<Rightarrow> nat \<Rightarrow> bool" where
  "net_ok n N W start \<longleftrightarrow> start < n \<and> (\<forall>u < n. \<forall>v \<in> set (N u). u < v \<and> v < n) \<and> (\<forall>u < n. \<forall>v < n. 0 \<le> W u v) \<and>
     (\<forall>vs. net_walk N start vs \<longrightarrow> walk_cost W start vs < far)"

lemma net_okD:
  assumes "net_ok n N W start"
  shows "start < n" "u < n \<Longrightarrow> v \<in> set (N u) \<Longrightarrow> u < v \<and> v < n" "u < n \<Longrightarrow> v < n \<Longrightarrow> 0 \<le> W u v" "net_walk N start vs \<Longrightarrow> walk_cost W start vs < far"
  using assms unfolding net_ok_def by blast+

section \<open>The invariant\<close>

text \<open>The values, the closed nodes, the parents and the entries of the queue; the edges from \<open>vc\<close> to nodes of
  \<open>pending\<close> have not been looked at since it was taken.\<close>

definition search_inv ::
  "nat \<Rightarrow> (nat \<Rightarrow> nat list) \<Rightarrow> (nat \<Rightarrow> nat \<Rightarrow> real) \<Rightarrow> nat \<Rightarrow> nat \<Rightarrow> nat set \<Rightarrow> (nat \<Rightarrow> real) \<Rightarrow> (nat \<Rightarrow> bool) \<Rightarrow> (nat \<Rightarrow> nat option) \<Rightarrow>
     nat set \<Rightarrow> bool" where
  "search_inv n N W start vc pending g cl pa open_set \<longleftrightarrow>
     g start = 0 \<and> pa start = None \<and> (\<forall>v < n. 0 \<le> g v) \<and>
     (\<forall>v < n. g v < far \<longrightarrow> v = start \<or> (\<exists>u < n. pa v = Some u \<and> cl u \<and> v \<in> set (N u) \<and> g v = g u + W u v)) \<and>
     (\<forall>v \<in> open_set. v < n \<and> g v < far) \<and> (\<forall>v < n. g v < far \<longrightarrow> \<not> cl v \<longrightarrow> v \<in> open_set) \<and> (\<forall>u < n. cl u \<longrightarrow> g u < far) \<and>
     (\<forall>u < n. cl u \<longrightarrow> (\<forall>v \<in> set (N u). u = vc \<and> v \<in> pending \<or> cl v \<or> g v \<le> g u + W u v))"

text \<open>What holds as well if the queue gives a least entry.\<close>

definition least_inv ::
  "nat \<Rightarrow> (nat \<Rightarrow> nat list) \<Rightarrow> (nat \<Rightarrow> nat \<Rightarrow> real) \<Rightarrow> nat \<Rightarrow> nat set \<Rightarrow> (nat \<Rightarrow> real) \<Rightarrow> (nat \<Rightarrow> bool) \<Rightarrow> bool" where
  "least_inv n N W vc pending g cl \<longleftrightarrow>
     (\<forall>u < n. cl u \<longrightarrow> (\<forall>v < n. \<not> cl v \<longrightarrow> g u \<le> g v)) \<and>
     (\<forall>u < n. cl u \<longrightarrow> (\<forall>v \<in> set (N u). u = vc \<and> v \<in> pending \<or> g v \<le> g u + W u v))"

lemma search_invD:
  assumes "search_inv n N W start vc pending g cl pa open_set"
  shows "g start = 0" "pa start = None" "v < n \<Longrightarrow> 0 \<le> g v"
    "v < n \<Longrightarrow> g v < far \<Longrightarrow> v = start \<or> (\<exists>u < n. pa v = Some u \<and> cl u \<and> v \<in> set (N u) \<and> g v = g u + W u v)"
    "v \<in> open_set \<Longrightarrow> v < n" "v \<in> open_set \<Longrightarrow> g v < far" "v < n \<Longrightarrow> g v < far \<Longrightarrow> \<not> cl v \<Longrightarrow> v \<in> open_set"
    "u < n \<Longrightarrow> cl u \<Longrightarrow> g u < far"
    "u < n \<Longrightarrow> cl u \<Longrightarrow> v \<in> set (N u) \<Longrightarrow> u = vc \<and> v \<in> pending \<or> cl v \<or> g v \<le> g u + W u v"
  using assms unfolding search_inv_def by blast+

lemma least_invD:
  assumes "least_inv n N W vc pending g cl"
  shows "u < n \<Longrightarrow> cl u \<Longrightarrow> v < n \<Longrightarrow> \<not> cl v \<Longrightarrow> g u \<le> g v"
    "u < n \<Longrightarrow> cl u \<Longrightarrow> v \<in> set (N u) \<Longrightarrow> u = vc \<and> v \<in> pending \<or> g v \<le> g u + W u v"
  using assms unfolding least_inv_def by blast+

lemma search_inv_start:
  assumes "net_ok n N W start" "\<forall>v < n. v \<noteq> start \<longrightarrow> g v = far" "g start = 0" "\<forall>v < n. \<not> cl v" "pa start = None"
  shows "search_inv n N W start vc {} g cl pa {start}" "least_inv n N W vc {} g cl"
proof -
  have g: "g v = (if v = start then 0 else far)" if "v < n" for v using assms(2,3) that by simp
  have pos: "0 < far" by (simp add: far_def)
  show "search_inv n N W start vc {} g cl pa {start}"
    unfolding search_inv_def using assms(3-5) g pos net_okD(1) [OF assms(1)] by auto
  show "least_inv n N W vc {} g cl" using assms(4) by (simp add: least_inv_def)
qed

section \<open>Steps\<close>

text \<open>Taking an entry.\<close>

lemma take_inv:
  assumes "search_inv n N W start vc0 {} g cl pa open_set" "vc \<in> open_set"
    and "open_set - {vc} \<subseteq> open1" "open1 \<subseteq> open_set"
  shows "search_inv n N W start vc (set (N vc)) g (cl(vc := True)) pa open1"
proof -
  note i = search_invD [OF assms(1)]
  have vc: "vc < n" "g vc < far" using i(5,6) assms(2) by blast+
  have parents: "\<forall>v < n. g v < far \<longrightarrow> v = start \<or> (\<exists>u < n. pa v = Some u \<and> (cl(vc := True)) u \<and> v \<in> set (N u) \<and> g v = g u + W u v)"
    using i(4) by (metis fun_upd_apply)
  have entries: "\<forall>v \<in> open1. v < n \<and> g v < far" using i(5,6) assms(4) by blast
  have "\<forall>v < n. g v < far \<longrightarrow> \<not> (cl(vc := True)) v \<longrightarrow> v \<in> open1" using i(7) assms(3) by auto
  moreover have "\<forall>u < n. (cl(vc := True)) u \<longrightarrow> g u < far" using i(8) vc by simp
  moreover have "\<forall>u < n. (cl(vc := True)) u \<longrightarrow> (\<forall>v \<in> set (N u). u = vc \<and> v \<in> set (N vc) \<or> (cl(vc := True)) v \<or> g v \<le> g u + W u v)"
    using i(9) by (metis empty_iff fun_upd_apply)
  ultimately show ?thesis using i(1-3) parents entries unfolding search_inv_def by blast
qed

lemma take_least:
  assumes "net_ok n N W start" "search_inv n N W start vc0 {} g cl pa open_set" "least_inv n N W vc0 {} g cl"
    and "vc \<in> open_set" "\<forall>v \<in> open_set. g vc \<le> g v"
  shows "least_inv n N W vc (set (N vc)) g (cl(vc := True))"
proof -
  note i = search_invD [OF assms(2)] and l = least_invD [OF assms(3)]
  have vc: "g vc < far" using i(6) assms(4) by blast
  have "g vc \<le> g v" if "v < n" "\<not> cl v" for v
    using i(7) [OF that(1) _ that(2)] assms(5) vc by (cases "g v < far") auto
  then have "\<forall>u < n. (cl(vc := True)) u \<longrightarrow> (\<forall>v < n. \<not> (cl(vc := True)) v \<longrightarrow> g u \<le> g v)" using l(1) by auto
  moreover have "\<forall>u < n. (cl(vc := True)) u \<longrightarrow> (\<forall>v \<in> set (N u). u = vc \<and> v \<in> set (N vc) \<or> g v \<le> g u + W u v)"
    using l(2) by (metis empty_iff fun_upd_apply)
  ultimately show ?thesis by (simp add: least_inv_def)
qed

text \<open>Looking at an edge.\<close>

lemma skip_inv:
  assumes "search_inv n N W start vc pending g cl pa open_set" "cl vb \<or> g vb \<le> g vc + W vc vb"
  shows "search_inv n N W start vc (pending - {vb}) g cl pa open_set"
  using assms unfolding search_inv_def by (elim conjE, intro conjI) blast+

lemma skip_least:
  assumes "net_ok n N W start" "least_inv n N W vc pending g cl" "vc < n" "vb \<in> set (N vc)"
    and "cl vb \<longrightarrow> g vb \<le> g vc + W vc vb" "\<not> cl vb \<longrightarrow> g vb \<le> g vc + W vc vb"
  shows "least_inv n N W vc (pending - {vb}) g cl"
  using assms(2,5,6) unfolding least_inv_def by (elim conjE, intro conjI) blast+

lemma relax_inv:
  assumes net: "net_ok n N W start" and inv: "search_inv n N W start vc pending g cl pa open_set"
    and vc: "vc < n" "cl vc" "vb \<in> set (N vc)" and vb: "\<not> cl vb" "g vc + W vc vb < g vb"
    and new: "g' = g(vb := g vc + W vc vb)" "pa' = pa(vb := Some vc)" and short: "g vc + W vc vb < far"
  shows "search_inv n N W start vc (pending - {vb}) g' cl pa' (insert vb open_set)"
proof -
  note i = search_invD [OF inv]
  have b: "vb < n" "vb \<noteq> vc" using net_okD(2) [OF net vc(1,3)] by simp_all
  have nonneg: "0 \<le> g vc + W vc vb" using i(3) [OF vc(1)] net_okD(3) [OF net vc(1) b(1)] by simp
  then have st: "vb \<noteq> start" using i(1) vb(2) by auto
  have keep: "g' u = g u" if "cl u" for u using that vb(1) new(1) by auto
  have less: "g' v \<le> g v" for v using vb(2) new(1) by simp
  have parents: "v = start \<or> (\<exists>u < n. pa' v = Some u \<and> cl u \<and> v \<in> set (N u) \<and> g' v = g' u + W u v)" if v: "v < n" "g' v < far" for v
  proof (cases "v = vb")
    case True
    then show ?thesis using vc b(2) new by auto
  next
    case False
    then have "g v < far" "pa' v = pa v" "g' v = g v" using v(2) new by simp_all
    then show ?thesis using i(4) [OF v(1)] keep by (metis)
  qed
  have edges: "u = vc \<and> v \<in> pending - {vb} \<or> cl v \<or> g' v \<le> g' u + W u v" if uv: "u < n" "cl u" "v \<in> set (N u)" for u v
  proof (cases "v = vb \<and> u = vc")
    case True
    then show ?thesis using new(1) b(2) by simp
  next
    case False
    then show ?thesis using i(9) [OF uv] keep [OF uv(2)] less [of v] by auto
  qed
  have "g' start = 0" "pa' start = None" "\<forall>v < n. 0 \<le> g' v" using i(1-3) st nonneg new by simp_all
  moreover have "\<forall>v \<in> insert vb open_set. v < n \<and> g' v < far" using i(5,6) b(1) short new(1) by auto
  moreover have "\<forall>v < n. g' v < far \<longrightarrow> \<not> cl v \<longrightarrow> v \<in> insert vb open_set" using i(7) new(1) by auto
  moreover have "\<forall>u < n. cl u \<longrightarrow> g' u < far" using i(8) keep by simp
  ultimately show ?thesis using parents edges unfolding search_inv_def by blast
qed

lemma relax_least:
  assumes net: "net_ok n N W start" and inv: "least_inv n N W vc pending g cl" and top: "\<forall>u < n. cl u \<longrightarrow> g u \<le> g vc"
    and vc: "vc < n" "cl vc" "vb \<in> set (N vc)" and vb: "\<not> cl vb" "g vc + W vc vb < g vb" and new: "g' = g(vb := g vc + W vc vb)"
  shows "least_inv n N W vc (pending - {vb}) g' cl" "\<forall>u < n. cl u \<longrightarrow> g' u \<le> g' vc"
proof -
  note l = least_invD [OF inv]
  have b: "vb < n" "vb \<noteq> vc" using net_okD(2) [OF net vc(1,3)] by simp_all
  have keep: "g' u = g u" if "cl u" for u using that vb(1) new by auto
  have less: "g' v \<le> g v" for v using vb(2) new by simp
  show "\<forall>u < n. cl u \<longrightarrow> g' u \<le> g' vc" using top keep vc(2) by simp
  have "g' u \<le> g' v" if u: "u < n" "cl u" and v: "v < n" "\<not> cl v" for u v
  proof (cases "v = vb")
    case True
    then show ?thesis using top u net_okD(3) [OF net vc(1) b(1)] keep [OF u(2)] new by auto
  next
    case False
    then show ?thesis using l(1) [OF u v] keep [OF u(2)] new by simp
  qed
  moreover have "u = vc \<and> v \<in> pending - {vb} \<or> g' v \<le> g' u + W u v" if u: "u < n" "cl u" "v \<in> set (N u)" for u v
  proof (cases "v = vb \<and> u = vc")
    case True
    then show ?thesis using new b(2) by simp
  next
    case False
    then show ?thesis using l(2) [OF u] keep [OF u(2)] less [of v] by auto
  qed
  ultimately show "least_inv n N W vc (pending - {vb}) g' cl" unfolding least_inv_def by blast
qed

section \<open>The search on nodes\<close>

definition static :: "ViewNode \<Rightarrow> vec3 \<times> vec3 \<times> real \<times> nat list" where
  "static a = (vn_pos a, vn_vel a, vn_yaw a, vn_neighbors a)"

definition node_cost :: "move_cost \<Rightarrow> ViewNode list \<Rightarrow> nat \<Rightarrow> nat \<Rightarrow> real" where
  "node_cost cost nodes u v = the (costTo cost (nodes ! u) (nodes ! v))"

definition succs :: "ViewNode list \<Rightarrow> nat \<Rightarrow> nat list" where
  "succs nodes u = vn_neighbors (nodes ! u)"

lemma static_nth: "map static nodes = map static nodes0 \<Longrightarrow> v < length nodes0 \<Longrightarrow> static (nodes ! v) = static (nodes0 ! v)"
  by (metis length_map nth_map)

lemma costTo_static:
  assumes "total_cost cost" "map static nodes = map static nodes0" "u < length nodes0" "v < length nodes0"
  shows "costTo cost (nodes ! u) (nodes ! v) = Some (node_cost cost nodes0 u v)"
proof -
  have "costTo cost (nodes ! u) (nodes ! v) = costTo cost (nodes0 ! u) (nodes0 ! v)"
    using static_nth [OF assms(2,3)] static_nth [OF assms(2,4)] by (simp add: static_def costTo_def)
  moreover have "costTo cost (nodes0 ! u) (nodes0 ! v) \<noteq> None"
    using assms(1) unfolding total_cost_def costTo_def option.map_disc_iff by blast
  ultimately show ?thesis unfolding node_cost_def by (metis option.collapse)
qed

definition graph_inv ::
  "move_cost \<Rightarrow> ViewNode list \<Rightarrow> nat \<Rightarrow> nat \<Rightarrow> nat set \<Rightarrow> ViewNode list \<Rightarrow> nat list \<Rightarrow> bool" where
  "graph_inv cost nodes0 start vc pending nodes open_set \<longleftrightarrow> map static nodes = map static nodes0 \<and>
     search_inv (length nodes0) (succs nodes0) (node_cost cost nodes0) start vc pending (\<lambda>v. vn_g_value (nodes ! v))
       (\<lambda>v. vn_closed (nodes ! v)) (\<lambda>v. vn_parent (nodes ! v)) (set open_set)"

definition graph_least :: "move_cost \<Rightarrow> ViewNode list \<Rightarrow> nat \<Rightarrow> nat set \<Rightarrow> ViewNode list \<Rightarrow> bool" where
  "graph_least cost nodes0 vc pending nodes \<longleftrightarrow>
     least_inv (length nodes0) (succs nodes0) (node_cost cost nodes0) vc pending (\<lambda>v. vn_g_value (nodes ! v)) (\<lambda>v. vn_closed (nodes ! v))"

definition below :: "nat \<Rightarrow> ViewNode list \<Rightarrow> nat \<Rightarrow> bool" where
  "below n nodes vc \<longleftrightarrow> (\<forall>u < n. vn_closed (nodes ! u) \<longrightarrow> vn_g_value (nodes ! u) \<le> vn_g_value (nodes ! vc))"

lemma upd_node:
  assumes "vb < length nodes"
  shows "(\<lambda>v. vn_g_value (nodes[vb := (nodes ! vb)\<lparr>vn_g_value := x, vn_parent := p\<rparr>] ! v)) = (\<lambda>v. vn_g_value (nodes ! v))(vb := x)"
    "(\<lambda>v. vn_parent (nodes[vb := (nodes ! vb)\<lparr>vn_g_value := x, vn_parent := p\<rparr>] ! v)) = (\<lambda>v. vn_parent (nodes ! v))(vb := p)"
    "(\<lambda>v. vn_closed (nodes[vb := (nodes ! vb)\<lparr>vn_g_value := x, vn_parent := p\<rparr>] ! v)) = (\<lambda>v. vn_closed (nodes ! v))"
    "(\<lambda>v. vn_g_value (nodes[vb := (nodes ! vb)\<lparr>vn_closed := b\<rparr>] ! v)) = (\<lambda>v. vn_g_value (nodes ! v))"
    "(\<lambda>v. vn_parent (nodes[vb := (nodes ! vb)\<lparr>vn_closed := b\<rparr>] ! v)) = (\<lambda>v. vn_parent (nodes ! v))"
    "(\<lambda>v. vn_closed (nodes[vb := (nodes ! vb)\<lparr>vn_closed := b\<rparr>] ! v)) = (\<lambda>v. vn_closed (nodes ! v))(vb := b)"
  using assms by (auto simp: nth_list_update)

lemma map_static_update: "static a = static (nodes ! k) \<Longrightarrow> map static (nodes[k := a]) = map static nodes"
  by (cases "k < length nodes") (simp_all add: map_update list_update_same_conv list_update_beyond)

lemma relax_step:
  assumes cost: "total_cost cost" and net: "net_ok (length nodes0) (succs nodes0) (node_cost cost nodes0) start"
    and inv: "graph_inv cost nodes0 start vc pending nodes open_set"
    and short: "vn_g_value (nodes ! vc) + node_cost cost nodes0 vc vb < far"
    and vc: "vc < length nodes0" "vn_closed (nodes ! vc)" "vb \<in> set (succs nodes0 vc)"
  shows "\<exists>nodes' open'. relax cost vc vb (nodes, open_set) = Some (nodes', open') \<and>
    graph_inv cost nodes0 start vc (pending - {vb}) nodes' open' \<and> length open' \<le> Suc (length open_set) \<and>
    (\<forall>v. vn_closed (nodes' ! v) = vn_closed (nodes ! v)) \<and> vn_g_value (nodes' ! vc) = vn_g_value (nodes ! vc) \<and>
    (graph_least cost nodes0 vc pending nodes \<longrightarrow> below (length nodes0) nodes vc \<longrightarrow>
       graph_least cost nodes0 vc (pending - {vb}) nodes' \<and> below (length nodes0) nodes' vc)"
proof -
  let ?W = "node_cost cost nodes0" and ?N = "succs nodes0" and ?n = "length nodes0"
  let ?g = "\<lambda>v. vn_g_value (nodes ! v)" and ?cl = "\<lambda>v. vn_closed (nodes ! v)"
  have stat: "map static nodes = map static nodes0" and si: "search_inv ?n ?N ?W start vc pending ?g ?cl (\<lambda>v. vn_parent (nodes ! v)) (set open_set)"
    using inv by (simp_all add: graph_inv_def)
  have len: "length nodes = ?n" using arg_cong [OF stat, of length] by simp
  have b: "vb < ?n" "vb \<noteq> vc" using net_okD(2) [OF net vc(1,3)] by simp_all
  note c = costTo_static [OF cost stat vc(1) b(1)]
  show ?thesis
  proof (cases "?cl vb \<or> \<not> ?g vc + ?W vc vb < ?g vb")
    case True
    then have "?cl vb \<or> ?g vb \<le> ?g vc + ?W vc vb" by linarith
    then have "graph_inv cost nodes0 start vc (pending - {vb}) nodes open_set"
      using skip_inv [OF si, of vb] stat by (simp add: graph_inv_def)
    moreover have "graph_least cost nodes0 vc (pending - {vb}) nodes" if "graph_least cost nodes0 vc pending nodes" "below ?n nodes vc"
    proof -
      have "?g vb \<le> ?g vc + ?W vc vb" if "?cl vb"
        using \<open>below ?n nodes vc\<close> that b(1) net_okD(3) [OF net vc(1) b(1)] by (fastforce simp: below_def)
      then show ?thesis unfolding graph_least_def
        by (intro skip_least [OF net that(1) [unfolded graph_least_def] vc(1,3)]) (use True in \<open>auto simp: not_less\<close>)
    qed
    moreover have "relax cost vc vb (nodes, open_set) = Some (nodes, open_set)" using True by (auto simp: relax_def c Let_def)
    ultimately show ?thesis by (intro exI [of _ nodes] exI [of _ open_set]) simp
  next
    case False
    let ?nodes = "nodes[vb := (nodes ! vb)\<lparr>vn_g_value := ?g vc + ?W vc vb, vn_parent := Some vc\<rparr>]"
    have vb: "vb < length nodes" using b(1) len by simp
    have nb: "\<not> ?cl vb" "?g vc + ?W vc vb < ?g vb" using False by simp_all
    have stat': "map static ?nodes = map static nodes0" using stat by (simp add: map_static_update static_def)
    have "search_inv ?n ?N ?W start vc (pending - {vb}) (?g(vb := ?g vc + ?W vc vb)) ?cl ((\<lambda>v. vn_parent (nodes ! v))(vb := Some vc)) (set (open_set @ [vb]))"
      using relax_inv [OF net si vc nb refl refl short] by simp
    then have 1: "graph_inv cost nodes0 start vc (pending - {vb}) ?nodes (open_set @ [vb])"
      using stat' unfolding graph_inv_def upd_node(1-3) [OF vb] by blast
    have 2: "graph_least cost nodes0 vc (pending - {vb}) ?nodes \<and> below ?n ?nodes vc"
      if l: "graph_least cost nodes0 vc pending nodes" "below ?n nodes vc"
    proof -
      have top: "\<forall>u < ?n. ?cl u \<longrightarrow> ?g u \<le> ?g vc" using l(2) by (simp add: below_def)
      note rl = relax_least [OF net l(1) [unfolded graph_least_def] top vc nb refl]
      have "graph_least cost nodes0 vc (pending - {vb}) ?nodes" unfolding graph_least_def upd_node(1,3) [OF vb] by (rule rl(1))
      moreover have "below ?n ?nodes vc" using top nb(1) b(2) vb by (auto simp: below_def nth_list_update)
      ultimately show ?thesis by simp
    qed
    have 3: "\<forall>v. vn_closed (?nodes ! v) = ?cl v" "vn_g_value (?nodes ! vc) = ?g vc" using b(2) vb by (auto simp: nth_list_update)
    have run: "relax cost vc vb (nodes, open_set) = Some (?nodes, open_set @ [vb])" using nb by (simp add: relax_def c Let_def)
    show ?thesis
      by (rule exI [of _ ?nodes], rule exI [of _ "open_set @ [vb]"]) (use run 1 2 3 in simp)
  qed
qed

lemma relax_all:
  assumes cost: "total_cost cost" and net: "net_ok (length nodes0) (succs nodes0) (node_cost cost nodes0) start"
    and short: "\<forall>vb \<in> set vs. vn_g_value (nodes ! vc) + node_cost cost nodes0 vc vb < far"
    and vc: "vc < length nodes0" and inv: "graph_inv cost nodes0 start vc pending nodes open_set"
    and cl: "vn_closed (nodes ! vc)" "set vs \<subseteq> set (succs nodes0 vc)"
  shows "\<exists>nodes' open'. fold_option (relax cost vc) vs (nodes, open_set) = Some (nodes', open') \<and>
    graph_inv cost nodes0 start vc (pending - set vs) nodes' open' \<and> length open' \<le> length vs + length open_set \<and>
    (\<forall>v. vn_closed (nodes' ! v) = vn_closed (nodes ! v)) \<and>
    (graph_least cost nodes0 vc pending nodes \<longrightarrow> below (length nodes0) nodes vc \<longrightarrow> graph_least cost nodes0 vc (pending - set vs) nodes')"
  using short inv cl
proof (induction vs arbitrary: pending nodes open_set)
  case Nil
  then show ?case by simp
next
  case (Cons vb vs)
  have sh: "vn_g_value (nodes ! vc) + node_cost cost nodes0 vc vb < far" and v: "vb \<in> set (succs nodes0 vc)" "set vs \<subseteq> set (succs nodes0 vc)"
    using Cons.prems(1,4) by simp_all
  obtain nodes1 open1 where f: "relax cost vc vb (nodes, open_set) = Some (nodes1, open1)"
    "graph_inv cost nodes0 start vc (pending - {vb}) nodes1 open1" "length open1 \<le> Suc (length open_set)"
    "\<forall>v. vn_closed (nodes1 ! v) = vn_closed (nodes ! v)" "vn_g_value (nodes1 ! vc) = vn_g_value (nodes ! vc)"
    "graph_least cost nodes0 vc pending nodes \<longrightarrow> below (length nodes0) nodes vc \<longrightarrow>
       graph_least cost nodes0 vc (pending - {vb}) nodes1 \<and> below (length nodes0) nodes1 vc"
    using relax_step [OF cost net Cons.prems(2) sh vc Cons.prems(3) v(1)] by (elim exE conjE) (rule that)
  have sh1: "\<forall>vb \<in> set vs. vn_g_value (nodes1 ! vc) + node_cost cost nodes0 vc vb < far" using Cons.prems(1) f(5) by simp
  have cl1: "vn_closed (nodes1 ! vc)" using Cons.prems(3) f(4) by simp
  obtain nodes' open' where r: "fold_option (relax cost vc) vs (nodes1, open1) = Some (nodes', open')"
    "graph_inv cost nodes0 start vc (pending - {vb} - set vs) nodes' open'" "length open' \<le> length vs + length open1"
    "\<forall>v. vn_closed (nodes' ! v) = vn_closed (nodes1 ! v)"
    "graph_least cost nodes0 vc (pending - {vb}) nodes1 \<longrightarrow> below (length nodes0) nodes1 vc \<longrightarrow> graph_least cost nodes0 vc (pending - {vb} - set vs) nodes'"
    using Cons.IH [OF sh1 f(2) cl1 v(2)] by (elim exE conjE) (rule that)
  have set: "pending - set (vb # vs) = pending - {vb} - set vs" by auto
  show ?case unfolding set using f r by (intro exI [of _ nodes'] exI [of _ open']) simp
qed

lemma relax_none:
  assumes "total_cost cost" "map static nodes = map static nodes0" "vc < length nodes0"
    and "\<forall>v \<in> set vs. v < length nodes0 \<and> (vn_closed (nodes ! v) \<or> vn_g_value (nodes ! v) \<le> vn_g_value (nodes ! vc) + node_cost cost nodes0 vc v)"
  shows "fold_option (relax cost vc) vs (nodes, open_set) = Some (nodes, open_set)"
  using assms(4)
proof (induction vs)
  case (Cons v vs)
  note c = costTo_static [OF assms(1-3), of v]
  have "relax cost vc v (nodes, open_set) = Some (nodes, open_set)" using Cons.prems c by (auto simp: relax_def Let_def)
  then show ?case using Cons by simp
qed simp

section \<open>The whole search\<close>

lemma backtrack_ok:
  assumes net: "net_ok (length nodes0) (succs nodes0) (node_cost cost nodes0) start"
    and inv: "graph_inv cost nodes0 start vc pending nodes open_set" and v: "v < length nodes0" "vn_g_value (nodes ! v) < far"
  shows "\<exists>path. backtrack nodes (Some v) = Some (start # path) \<and> net_walk (succs nodes0) start path \<and> walk_end start path = v \<and>
    walk_cost (node_cost cost nodes0) start path = vn_g_value (nodes ! v)"
  using v
proof (induction v rule: less_induct)
  case (less v)
  have si: "search_inv (length nodes0) (succs nodes0) (node_cost cost nodes0) start vc pending (\<lambda>v. vn_g_value (nodes ! v))
      (\<lambda>v. vn_closed (nodes ! v)) (\<lambda>v. vn_parent (nodes ! v)) (set open_set)"
    using inv by (simp add: graph_inv_def)
  note i = search_invD [OF si]
  show ?case
  proof (cases "v = start")
    case True
    have "backtrack nodes (Some start) = Some [start]" by (subst backtrack.simps, subst backtrack.simps) (simp add: i(2))
    then show ?thesis using True i(1) by (intro exI [of _ "[]"]) simp
  next
    case False
    then obtain u where u: "u < length nodes0" "vn_parent (nodes ! v) = Some u" "vn_closed (nodes ! u)" "v \<in> set (succs nodes0 u)"
      "vn_g_value (nodes ! v) = vn_g_value (nodes ! u) + node_cost cost nodes0 u v"
      using i(4) [OF less.prems] by blast
    have "u < v" using net_okD(2) [OF net u(1,4)] by simp
    then obtain path where p: "backtrack nodes (Some u) = Some (start # path)" "net_walk (succs nodes0) start path" "walk_end start path = u"
      "walk_cost (node_cost cost nodes0) start path = vn_g_value (nodes ! u)"
      using less.IH u(1) i(8) [OF u(1,3)] by blast
    have "backtrack nodes (Some v) = Some (start # path @ [v])" by (subst backtrack.simps) (simp add: u(2) p(1))
    then show ?thesis using p(2-4) u(4,5) by (intro exI [of _ "path @ [v]"]) (simp add: walk_append walk_cost_append walk_end_append)
  qed
qed

text \<open>The value of an edge is that of a walk.\<close>

lemma short_edge:
  assumes net: "net_ok (length nodes0) (succs nodes0) (node_cost cost nodes0) start"
    and inv: "graph_inv cost nodes0 start vc pending nodes open_set"
    and u: "u < length nodes0" "vn_g_value (nodes ! u) < far" "v \<in> set (succs nodes0 u)"
  shows "vn_g_value (nodes ! u) + node_cost cost nodes0 u v < far"
proof -
  obtain path where p: "net_walk (succs nodes0) start path" "walk_end start path = u"
    "walk_cost (node_cost cost nodes0) start path = vn_g_value (nodes ! u)"
    using backtrack_ok [OF net inv u(1,2)] by blast
  then have "net_walk (succs nodes0) start (path @ [v])" using u(3) by (simp add: walk_append)
  from net_okD(4) [OF net this] show ?thesis using p by (simp add: walk_cost_append)
qed

lemma empty_queue:
  assumes net: "net_ok (length nodes0) (succs nodes0) (node_cost cost nodes0) start"
    and inv: "graph_inv cost nodes0 start vc {} nodes []" and w: "net_walk (succs nodes0) start ws"
  shows "vn_closed (nodes ! walk_end start ws)"
proof -
  have si: "search_inv (length nodes0) (succs nodes0) (node_cost cost nodes0) start vc {} (\<lambda>v. vn_g_value (nodes ! v))
      (\<lambda>v. vn_closed (nodes ! v)) (\<lambda>v. vn_parent (nodes ! v)) (set [])"
    using inv by (simp add: graph_inv_def)
  note i = search_invD [OF si]
  have "vn_closed (nodes ! walk_end u ws)" if "net_walk (succs nodes0) u ws" "vn_closed (nodes ! u)" "u < length nodes0" for u
    using that
  proof (induction ws arbitrary: u)
    case (Cons v ws)
    have v: "v \<in> set (succs nodes0 u)" "net_walk (succs nodes0) v ws" "v < length nodes0"
      using Cons.prems net_okD(2) [OF net Cons.prems(3)] by auto
    have "vn_closed (nodes ! v)"
    proof (rule ccontr)
      assume "\<not> vn_closed (nodes ! v)"
      moreover have "vn_g_value (nodes ! v) < far"
        using i(9) [OF Cons.prems(3,2) v(1)] short_edge [OF net inv Cons.prems(3) i(8) [OF Cons.prems(3,2)] v(1)] calculation by auto
      ultimately show False using i(7) [OF v(3)] by simp
    qed
    then show ?case using Cons.IH v by simp
  qed simp
  moreover have "vn_closed (nodes ! start)" using i(7) [OF net_okD(1) [OF net]] i(1) by (auto simp: far_def)
  ultimately show ?thesis using w net_okD(1) [OF net] by blast
qed

lemma least_is_shortest:
  assumes net: "net_ok (length nodes0) (succs nodes0) (node_cost cost nodes0) start"
    and inv: "graph_inv cost nodes0 start vc {} nodes open_set" and l: "graph_least cost nodes0 vc {} nodes"
    and goal: "goal \<in> set open_set" "\<not> vn_closed (nodes ! goal)" "\<forall>v \<in> set open_set. vn_g_value (nodes ! goal) \<le> vn_g_value (nodes ! v)"
    and w: "net_walk (succs nodes0) start ws" "walk_end start ws = goal"
  shows "vn_g_value (nodes ! goal) \<le> walk_cost (node_cost cost nodes0) start ws"
proof -
  let ?g = "\<lambda>v. vn_g_value (nodes ! v)" and ?W = "node_cost cost nodes0"
  have si: "search_inv (length nodes0) (succs nodes0) (node_cost cost nodes0) start vc {} (\<lambda>v. vn_g_value (nodes ! v))
      (\<lambda>v. vn_closed (nodes ! v)) (\<lambda>v. vn_parent (nodes ! v)) (set open_set)"
    using inv by (simp add: graph_inv_def)
  note i = search_invD [OF si] and l = least_invD [OF l [unfolded graph_least_def]]
  have open_least: "?g goal \<le> ?g v" if "v < length nodes0" "\<not> vn_closed (nodes ! v)" for v
    using i(7) [OF that(1) _ that(2)] i(6) [OF goal(1)] goal(3) by (cases "?g v < far") auto
  have pos: "0 \<le> walk_cost ?W u ws" if "net_walk (succs nodes0) u ws" "u < length nodes0" for u ws
    using that
  proof (induction ws arbitrary: u)
    case (Cons v ws)
    then have "v < length nodes0" using net_okD(2) [OF net Cons.prems(2)] by simp
    then show ?case using Cons net_okD(3) [OF net Cons.prems(2)] by simp
  qed simp
  have "?g goal \<le> c + walk_cost ?W u ws"
    if "net_walk (succs nodes0) u ws" "walk_end u ws = goal" "u < length nodes0" "?g u \<le> c" for u c
    using that
  proof (induction ws arbitrary: u c)
    case Nil
    then show ?case by simp
  next
    case (Cons v ws)
    have v: "v \<in> set (succs nodes0 u)" "net_walk (succs nodes0) v ws" "v < length nodes0"
      using Cons.prems net_okD(2) [OF net Cons.prems(3)] by auto
    show ?case
    proof (cases "vn_closed (nodes ! u)")
      case True
      then have "?g v \<le> c + ?W u v" using l(2) [OF Cons.prems(3) True v(1)] Cons.prems(4) by auto
      then have "?g goal \<le> (c + ?W u v) + walk_cost ?W v ws" using Cons.prems(2) by (intro Cons.IH [OF v(2) _ v(3)]) simp_all
      then show ?thesis by simp
    next
      case False
      then show ?thesis using open_least [OF Cons.prems(3)] Cons.prems(4) pos [OF Cons.prems(1,3)] by simp
    qed
  qed
  from this [OF w net_okD(1) [OF net], of 0] show ?thesis using i(1) by simp
qed

definition valid_pick :: "(ViewNode list \<Rightarrow> nat list \<Rightarrow> nat) \<Rightarrow> bool" where
  "valid_pick pick \<longleftrightarrow> (\<forall>nodes open_set. open_set \<noteq> [] \<longrightarrow> pick nodes open_set < length open_set)"

text \<open>A queue that gives an entry of least value.\<close>

definition least_pick :: "(ViewNode list \<Rightarrow> nat list \<Rightarrow> nat) \<Rightarrow> bool" where
  "least_pick pick \<longleftrightarrow> (\<forall>nodes open_set. \<forall>v \<in> set open_set.
     vn_g_value (nodes ! (open_set ! pick nodes open_set)) \<le> vn_g_value (nodes ! v))"

lemma set_take_drop:
  assumes "k < length xs"
  shows "set xs - {xs ! k} \<subseteq> set (take k xs @ drop (Suc k) xs)" "set (take k xs @ drop (Suc k) xs) \<subseteq> set xs"
    "length (take k xs @ drop (Suc k) xs) = length xs - 1"
proof -
  have "set xs = set (take k xs) \<union> {xs ! k} \<union> set (drop (Suc k) xs)"
    using id_take_nth_drop [OF assms] by (metis Un_insert_right list.simps(15) set_append sup_bot.right_neutral Un_insert_left)
  then show "set xs - {xs ! k} \<subseteq> set (take k xs @ drop (Suc k) xs)" "set (take k xs @ drop (Suc k) xs) \<subseteq> set xs" by auto
qed (use assms in simp)

text \<open>The nodes that are not closed.\<close>

definition open_nodes :: "nat \<Rightarrow> ViewNode list \<Rightarrow> nat set" where
  "open_nodes n nodes = {v. v < n \<and> \<not> vn_closed (nodes ! v)}"

lemma search_loop_ok:
  assumes cost: "total_cost cost" and net: "net_ok (length nodes0) (succs nodes0) (node_cost cost nodes0) start"
    and pick: "valid_pick pick" and goal: "net_walk (succs nodes0) start ws0" "walk_end start ws0 = goal"
    and inv: "graph_inv cost nodes0 start vc0 {} nodes open_set" "\<not> vn_closed (nodes ! goal)"
    and deg: "\<forall>u < length nodes0. length (succs nodes0 u) \<le> deg"
  shows "\<exists>path. search_loop pick cost goal nodes open_set = Some (start # path) \<and> net_walk (succs nodes0) start path \<and> walk_end start path = goal \<and>
    (least_pick pick \<longrightarrow> graph_least cost nodes0 vc0 {} nodes \<longrightarrow>
      (\<forall>ws. net_walk (succs nodes0) start ws \<longrightarrow> walk_end start ws = goal \<longrightarrow>
        walk_cost (node_cost cost nodes0) start path \<le> walk_cost (node_cost cost nodes0) start ws))"
  using inv
proof (induction "Suc deg * card (open_nodes (length nodes0) nodes) + length open_set" arbitrary: nodes open_set vc0 rule: less_induct)
  case less
  let ?n = "length nodes0"
  have stat: "map static nodes = map static nodes0" and si: "search_inv ?n (succs nodes0) (node_cost cost nodes0) start vc0 {} (\<lambda>v. vn_g_value (nodes ! v))
      (\<lambda>v. vn_closed (nodes ! v)) (\<lambda>v. vn_parent (nodes ! v)) (set open_set)"
    using less.prems(1) by (simp_all add: graph_inv_def)
  note i = search_invD [OF si]
  have len: "length nodes = ?n" using arg_cong [OF stat, of length] by simp
  have ne: "open_set \<noteq> []" using empty_queue [OF net _ goal(1)] less.prems goal(2) by metis
  let ?k = "pick nodes open_set"
  let ?vc = "open_set ! ?k"
  have k: "?k < length open_set" using pick ne by (simp add: valid_pick_def)
  have mem: "?vc \<in> set open_set" using k by simp
  have vc: "?vc < ?n" "vn_g_value (nodes ! ?vc) < far" using i(5,6) [OF mem] by simp_all
  let ?open1 = "take ?k open_set @ drop (Suc ?k) open_set"
  note td = set_take_drop [OF k]
  let ?nodes1 = "nodes[?vc := (nodes ! ?vc)\<lparr>vn_closed := True\<rparr>]"
  have vc': "?vc < length nodes" using vc(1) len by simp
  have stat1: "map static ?nodes1 = map static nodes0" using stat by (simp add: map_static_update static_def)
  have inv1: "graph_inv cost nodes0 start ?vc (set (succs nodes0 ?vc)) ?nodes1 ?open1"
    using take_inv [OF si mem td(1,2)] stat1 unfolding graph_inv_def upd_node(4-6) [OF vc'] by blast
  have g1: "vn_g_value (?nodes1 ! v) = vn_g_value (nodes ! v)" for v by (rule fun_cong [OF upd_node(4) [OF vc']])
  have nb: "vn_neighbors (?nodes1 ! ?vc) = succs nodes0 ?vc"
    using static_nth [OF stat1 vc(1)] by (simp add: static_def succs_def)
  show ?case
  proof (cases "?vc = goal")
    case True
    have "vn_g_value (?nodes1 ! ?vc) < far" using vc(2) g1 by simp
    from backtrack_ok [OF net inv1 vc(1) this] obtain path where p: "backtrack ?nodes1 (Some ?vc) = Some (start # path)"
      "net_walk (succs nodes0) start path" "walk_end start path = ?vc" "walk_cost (node_cost cost nodes0) start path = vn_g_value (nodes ! ?vc)"
      unfolding g1 by blast
    have run: "search_loop pick cost goal nodes open_set = Some (start # path)"
      using ne p(1) True by (subst search_loop.simps) (simp add: Let_def)
    have "walk_cost (node_cost cost nodes0) start path \<le> walk_cost (node_cost cost nodes0) start ws"
      if "least_pick pick" "graph_least cost nodes0 vc0 {} nodes" "net_walk (succs nodes0) start ws" "walk_end start ws = goal" for ws
    proof -
      have "\<forall>v \<in> set open_set. vn_g_value (nodes ! ?vc) \<le> vn_g_value (nodes ! v)" using that(1) by (simp add: least_pick_def)
      then show ?thesis using least_is_shortest [OF net less.prems(1) that(2) _ less.prems(2) _ that(3,4)] mem True p(4) by simp
    qed
    then show ?thesis using run p(2,3) True by blast
  next
    case False
    have step: "search_loop pick cost goal nodes open_set =
        Option.bind (fold_option (relax cost ?vc) (succs nodes0 ?vc) (?nodes1, ?open1)) (\<lambda>(nodes2, open2). search_loop pick cost goal nodes2 open2)"
      using ne False by (subst search_loop.simps) (simp add: Let_def nb)
    have goal1: "\<not> vn_closed (?nodes1 ! goal)" using less.prems(2) False vc' by (simp add: nth_list_update)
    show ?thesis
    proof (cases "vn_closed (nodes ! ?vc)")
      case True
      have same: "?nodes1 = nodes" using True by (intro list_update_same_conv [THEN iffD2, OF vc']) simp
      have "fold_option (relax cost ?vc) (succs nodes0 ?vc) (nodes, ?open1) = Some (nodes, ?open1)"
        by (rule relax_none [OF cost stat vc(1)]) (use i(9) [OF vc(1) True] net_okD(2) [OF net vc(1)] in auto)
      then have run: "search_loop pick cost goal nodes open_set = search_loop pick cost goal nodes ?open1"
        unfolding step same by simp
      have inv2: "graph_inv cost nodes0 start vc0 {} nodes ?open1"
      proof -
        have entries: "\<forall>v \<in> set ?open1. v < ?n \<and> vn_g_value (nodes ! v) < far" using i(5,6) td(2) by blast
        have "\<forall>v < ?n. vn_g_value (nodes ! v) < far \<longrightarrow> \<not> vn_closed (nodes ! v) \<longrightarrow> v \<in> set ?open1"
          using i(7) td(1) True by blast
        then show ?thesis using stat si entries unfolding graph_inv_def search_inv_def by blast
      qed
      have "length ?open1 < length open_set" using td(3) k by linarith
      then show ?thesis unfolding run by (intro less.hyps [OF _ inv2 less.prems(2)]) simp
    next
      case fresh: False
      have cl1: "vn_closed (?nodes1 ! ?vc)" using vc' by simp
      have short: "\<forall>vb \<in> set (succs nodes0 ?vc). vn_g_value (?nodes1 ! ?vc) + node_cost cost nodes0 ?vc vb < far"
        unfolding g1 using short_edge [OF net less.prems(1) vc] by blast
      obtain nodes2 open2 where r: "fold_option (relax cost ?vc) (succs nodes0 ?vc) (?nodes1, ?open1) = Some (nodes2, open2)"
        "graph_inv cost nodes0 start ?vc (set (succs nodes0 ?vc) - set (succs nodes0 ?vc)) nodes2 open2"
        "length open2 \<le> length (succs nodes0 ?vc) + length ?open1" "\<forall>v. vn_closed (nodes2 ! v) = vn_closed (?nodes1 ! v)"
        "graph_least cost nodes0 ?vc (set (succs nodes0 ?vc)) ?nodes1 \<longrightarrow> below ?n ?nodes1 ?vc \<longrightarrow>
          graph_least cost nodes0 ?vc (set (succs nodes0 ?vc) - set (succs nodes0 ?vc)) nodes2"
        using relax_all [OF cost net short vc(1) inv1 cl1 subset_refl] by (elim exE conjE) (rule that)
      have "open_nodes ?n nodes2 = open_nodes ?n nodes - {?vc}" unfolding open_nodes_def using r(4) vc' by (auto simp: nth_list_update)
      moreover have vo: "?vc \<in> open_nodes ?n nodes" using vc(1) fresh by (simp add: open_nodes_def)
      moreover have "finite (open_nodes ?n nodes)" by (simp add: open_nodes_def)
      ultimately have card: "Suc (card (open_nodes ?n nodes2)) = card (open_nodes ?n nodes)" by (metis card.remove)
      have "length open2 \<le> deg + (length open_set - 1)" using r(3) td(3) deg vc(1) by (metis add_le_mono1 le_trans)
      then have "length open2 < Suc deg + length open_set" by linarith
      then have smaller: "Suc deg * card (open_nodes ?n nodes2) + length open2 < Suc deg * card (open_nodes ?n nodes) + length open_set"
        unfolding card [symmetric] by simp
      have inv2: "graph_inv cost nodes0 start ?vc {} nodes2 open2" using r(2) by simp
      have goal2: "\<not> vn_closed (nodes2 ! goal)" using goal1 r(4) by simp
      have least: "graph_least cost nodes0 ?vc {} nodes2" if l: "least_pick pick" "graph_least cost nodes0 vc0 {} nodes"
      proof -
        have min: "\<forall>v \<in> set open_set. vn_g_value (nodes ! ?vc) \<le> vn_g_value (nodes ! v)" using l(1) by (simp add: least_pick_def)
        have "graph_least cost nodes0 ?vc (set (succs nodes0 ?vc)) ?nodes1"
          using take_least [OF net si l(2) [unfolded graph_least_def] mem min] unfolding graph_least_def upd_node(4,6) [OF vc'] .
        moreover have "below ?n ?nodes1 ?vc"
        proof -
          have "vn_g_value (nodes ! u) \<le> vn_g_value (nodes ! ?vc)" if "u < ?n" "vn_closed (?nodes1 ! u)" for u
            using least_invD(1) [OF l(2) [unfolded graph_least_def] that(1) _ vc(1) fresh] that(2) by (cases "u = ?vc") simp_all
          then show ?thesis unfolding below_def g1 by blast
        qed
        ultimately show ?thesis using r(5) by simp
      qed
      have run: "search_loop pick cost goal nodes open_set = search_loop pick cost goal nodes2 open2" unfolding step r(1) by simp
      show ?thesis unfolding run using less.hyps [OF smaller inv2 goal2] least by blast
    qed
  qed
qed

lemma DijkstraSearch_ok:
  assumes "total_cost cost" "net_ok (length nodes) (succs nodes) (node_cost cost nodes) start" "valid_pick pick"
    and "net_walk (succs nodes) start ws0" "walk_end start ws0 = goal"
    and "\<forall>a \<in> set nodes. vn_g_value a = far \<and> \<not> vn_closed a \<and> vn_parent a = None"
  shows "\<exists>path. DijkstraSearch pick cost start goal nodes = Some (start # path) \<and> net_walk (succs nodes) start path \<and> walk_end start path = goal \<and>
    (least_pick pick \<longrightarrow> (\<forall>ws. net_walk (succs nodes) start ws \<longrightarrow> walk_end start ws = goal \<longrightarrow>
      walk_cost (node_cost cost nodes) start path \<le> walk_cost (node_cost cost nodes) start ws))"
proof -
  let ?nodes = "nodes[start := (nodes ! start)\<lparr>vn_g_value := 0\<rparr>]"
  have st: "start < length nodes" by (rule net_okD(1) [OF assms(2)])
  have all: "vn_g_value (nodes ! v) = far" "\<not> vn_closed (nodes ! v)" "vn_parent (nodes ! v) = None" if "v < length nodes" for v
    using assms(6) nth_mem [OF that] by blast+
  have stat: "map static ?nodes = map static nodes" by (simp add: map_static_update static_def)
  have start_inv: "search_inv (length nodes) (succs nodes) (node_cost cost nodes) start 0 {} (\<lambda>v. vn_g_value (?nodes ! v)) (\<lambda>v. vn_closed (?nodes ! v))
      (\<lambda>v. vn_parent (?nodes ! v)) {start}" "least_inv (length nodes) (succs nodes) (node_cost cost nodes) 0 {} (\<lambda>v. vn_g_value (?nodes ! v)) (\<lambda>v. vn_closed (?nodes ! v))"
    by (rule search_inv_start [OF assms(2)]; use all st in \<open>auto simp: nth_list_update\<close>)+
  then have inv: "graph_inv cost nodes start 0 {} ?nodes [start]" "graph_least cost nodes 0 {} ?nodes"
    using stat by (simp_all add: graph_inv_def graph_least_def)
  have "\<forall>u < length nodes. length (succs nodes u) \<le> Max ((\<lambda>u. length (succs nodes u)) ` {..<length nodes})" by simp
  moreover have "goal < length nodes"
  proof -
    have "walk_end u ws < length nodes" if "net_walk (succs nodes) u ws" "u < length nodes" for u ws
      using that
    proof (induction ws arbitrary: u)
      case (Cons v ws)
      then have "v < length nodes" using net_okD(2) [OF assms(2) Cons.prems(2)] by simp
      then show ?case using Cons by simp
    qed simp
    then show ?thesis using assms(4,5) st by blast
  qed
  then have "\<not> vn_closed (?nodes ! goal)" using all st by (auto simp: nth_list_update)
  ultimately obtain path where "search_loop pick cost goal ?nodes [start] = Some (start # path)" "net_walk (succs nodes) start path" "walk_end start path = goal"
    "least_pick pick \<longrightarrow> graph_least cost nodes 0 {} ?nodes \<longrightarrow> (\<forall>ws. net_walk (succs nodes) start ws \<longrightarrow> walk_end start ws = goal \<longrightarrow>
      walk_cost (node_cost cost nodes) start path \<le> walk_cost (node_cost cost nodes) start ws)"
    using search_loop_ok [OF assms(1-5) inv(1)] by metis
  then show ?thesis unfolding DijkstraSearch_def using inv(2) by (intro exI [of _ path] conjI impI) simp_all
qed

end
