(* ===== verification/Planner_Layers.thy ===== *)
theory Planner_Layers imports Planner_Dijkstra
begin

text \<open>
  The graph of \<open>refineLocalTour\<close>: its walks from the current state to the final node are the ways to choose
  one viewpoint of each group, so that the search chooses them.
\<close>

section \<open>Building the graph\<close>

lemma addEdge_nth:
  assumes "from < length nodes"
  shows "length (addEdge from to nodes) = length nodes"
    "addEdge from to nodes ! u = (if u = from then (nodes ! u)\<lparr>vn_neighbors := vn_neighbors (nodes ! u) @ [to]\<rparr> else nodes ! u)"
  using assms by (auto simp: addEdge_def nth_list_update)

lemma fold_addEdge:
  assumes "distinct prev" "\<forall>u \<in> set prev. u < length nodes"
  shows "length (fold (\<lambda>nd. addEdge nd k) prev nodes) = length nodes"
    "fold (\<lambda>nd. addEdge nd k) prev nodes ! u =
       (if u \<in> set prev then (nodes ! u)\<lparr>vn_neighbors := vn_neighbors (nodes ! u) @ [k]\<rparr> else nodes ! u)"
  using assms
proof (induction prev arbitrary: nodes)
  case (Cons nd prev)
  case 1
  then show ?case using Cons.IH(1) [of "addEdge nd k nodes"] addEdge_nth by simp
next
  case (Cons nd prev)
  case 2
  then have nd: "nd < length nodes" "nd \<notin> set prev" and prev: "distinct prev" "\<forall>u \<in> set prev. u < length (addEdge nd k nodes)"
    by (simp_all add: addEdge_def)
  show ?case using Cons.IH(2) [OF prev] addEdge_nth(2) [OF nd(1)] nd(2) by simp
qed simp_all

lemma fold_add_view:
  assumes "distinct prev" "\<forall>u \<in> set prev. u < length nodes"
  shows "\<exists>nodes'. fold (add_view prev) views (nodes, cur) = (nodes', cur @ [length nodes..<length nodes + length views]) \<and>
    length nodes' = length nodes + length views \<and>
    (\<forall>u < length nodes. nodes' ! u = (if u \<in> set prev
       then (nodes ! u)\<lparr>vn_neighbors := vn_neighbors (nodes ! u) @ [length nodes..<length nodes + length views]\<rparr> else nodes ! u)) \<and>
    (\<forall>j < length views. nodes' ! (length nodes + j) = new_ViewNode (fst (views ! j)) (snd (views ! j)))"
  using assms(2)
proof (induction views arbitrary: nodes cur)
  case Nil
  then show ?case by simp
next
  case (Cons view views)
  let ?k = "length nodes"
  let ?nodes0 = "addNode (new_ViewNode (fst view) (snd view)) nodes"
  let ?nodes1 = "fold (\<lambda>nd. addEdge nd ?k) prev ?nodes0"
  have l0: "length ?nodes0 = Suc ?k" by (simp add: addNode_def)
  have l: "\<forall>u \<in> set prev. u < length ?nodes0" using Cons.prems l0 by auto
  note fe = fold_addEdge [OF assms(1) l, of ?k]
  have l1: "length ?nodes1 = Suc ?k" using fe(1) l0 by simp
  have old: "?nodes1 ! u = (if u \<in> set prev then (nodes ! u)\<lparr>vn_neighbors := vn_neighbors (nodes ! u) @ [?k]\<rparr> else nodes ! u)" if "u < ?k" for u
    using fe(2) [of u] that by (simp add: addNode_def nth_append)
  have new: "?nodes1 ! ?k = new_ViewNode (fst view) (snd view)"
  proof -
    have "?k \<notin> set prev" using Cons.prems by auto
    then show ?thesis using fe(2) [of ?k] by (simp add: addNode_def)
  qed
  have prev1: "\<forall>u \<in> set prev. u < length ?nodes1" using Cons.prems l1 by auto
  obtain nodes' where r: "fold (add_view prev) views (?nodes1, cur @ [?k]) = (nodes', (cur @ [?k]) @ [length ?nodes1..<length ?nodes1 + length views])"
    "length nodes' = length ?nodes1 + length views"
    "\<forall>u < length ?nodes1. nodes' ! u = (if u \<in> set prev
       then (?nodes1 ! u)\<lparr>vn_neighbors := vn_neighbors (?nodes1 ! u) @ [length ?nodes1..<length ?nodes1 + length views]\<rparr> else ?nodes1 ! u)"
    "\<forall>j < length views. nodes' ! (length ?nodes1 + j) = new_ViewNode (fst (views ! j)) (snd (views ! j))"
    using Cons.IH [OF prev1, of "cur @ [?k]"] by blast
  have upt: "[?k..<?k + length (view # views)] = ?k # [Suc ?k..<Suc ?k + length views]" by (subst upt_conv_Cons) simp_all
  have run: "fold (add_view prev) (view # views) (nodes, cur) = fold (add_view prev) views (?nodes1, cur @ [?k])"
    by (simp add: add_view_def Let_def split: prod.split)
  have "nodes' ! (?k + j) = new_ViewNode (fst ((view # views) ! j)) (snd ((view # views) ! j))" if j: "j < length (view # views)" for j
  proof (cases j)
    case 0
    have "?k \<notin> set prev" using Cons.prems by auto
    then show ?thesis using r(3) l1 new 0 by simp
  next
    case (Suc i)
    then show ?thesis using r(4) j l1 by simp
  qed
  moreover have "nodes' ! u = (if u \<in> set prev
      then (nodes ! u)\<lparr>vn_neighbors := vn_neighbors (nodes ! u) @ [?k..<?k + length (view # views)]\<rparr> else nodes ! u)" if "u < ?k" for u
    using r(3) old [OF that] that l1 unfolding upt by simp
  ultimately show ?case unfolding run upt using r(1,2) l1 by (intro exI [of _ nodes']) simp
qed

section \<open>Choices\<close>

text \<open>One viewpoint of each group, of the last group the first one.\<close>

fun picks_one :: "'a list list \<Rightarrow> 'a list \<Rightarrow> bool" where
  "picks_one [] vs = (vs = [])"
| "picks_one [views] vs = (views \<noteq> [] \<and> vs = [hd views])"
| "picks_one (views # g # gs) [] = False"
| "picks_one (views # g # gs) (v # vs) = (v \<in> set views \<and> picks_one (g # gs) vs)"

definition move_value :: "move_cost \<Rightarrow> vec3 \<Rightarrow> vec3 \<Rightarrow> real \<Rightarrow> real \<Rightarrow> vec3 \<Rightarrow> real" where
  "move_value cost p q y z v = fst (the (cost p q y z v))"

text \<open>The cost of the moves from a state along viewpoints; the velocity only counts for the first move.\<close>

fun tour_cost :: "move_cost \<Rightarrow> vec3 \<Rightarrow> real \<Rightarrow> vec3 \<Rightarrow> (vec3 \<times> real) list \<Rightarrow> real" where
  "tour_cost cost q y v [] = 0"
| "tour_cost cost q y v (w # ws) = move_value cost q (fst w) y (snd w) v + tour_cost cost (fst w) (snd w) (0, 0, 0) ws"

definition view_at :: "ViewNode list \<Rightarrow> nat \<Rightarrow> vec3 \<times> real" where
  "view_at nodes k = (vn_pos (nodes ! k), vn_yaw (nodes ! k))"

definition fresh_node :: "ViewNode \<Rightarrow> bool" where
  "fresh_node a \<longleftrightarrow> vn_g_value a = far \<and> \<not> vn_closed a \<and> vn_parent a = None"

lemma new_node_simps [simp]: "fresh_node (new_ViewNode q y)" "vn_vel (new_ViewNode q y) = (0, 0, 0)"
  "vn_pos (new_ViewNode q y) = q" "vn_yaw (new_ViewNode q y) = y" "vn_neighbors (new_ViewNode q y) = []"
  by (simp_all add: new_ViewNode_def fresh_node_def far_def)

text \<open>A graph under construction: edges go upwards, and the last group has none yet.\<close>

definition layer_ok :: "ViewNode list \<Rightarrow> nat list \<Rightarrow> bool" where
  "layer_ok nodes prev \<longleftrightarrow> distinct prev \<and> (\<forall>u \<in> set prev. u < length nodes \<and> succs nodes u = []) \<and>
     (\<forall>u < length nodes. \<forall>v \<in> set (succs nodes u). u < v \<and> v < length nodes) \<and> (\<forall>u < length nodes. fresh_node (nodes ! u))"

lemma layer_okI:
  assumes "distinct prev" "\<And>u. u \<in> set prev \<Longrightarrow> u < length nodes \<and> succs nodes u = []"
    and "\<And>u v. u < length nodes \<Longrightarrow> v \<in> set (succs nodes u) \<Longrightarrow> u < v \<and> v < length nodes"
    and "\<And>u. u < length nodes \<Longrightarrow> fresh_node (nodes ! u)"
  shows "layer_ok nodes prev"
  using assms unfolding layer_ok_def by blast

lemma layer_okD:
  assumes "layer_ok nodes prev"
  shows "distinct prev" "u \<in> set prev \<Longrightarrow> u < length nodes" "u \<in> set prev \<Longrightarrow> succs nodes u = []"
    "w < length nodes \<Longrightarrow> v \<in> set (succs nodes w) \<Longrightarrow> w < v \<and> v < length nodes" "w < length nodes \<Longrightarrow> fresh_node (nodes ! w)"
  using assms unfolding layer_ok_def by blast+

lemma layer_ok_Nil: "layer_ok nodes prev \<Longrightarrow> layer_ok nodes []"
  by (rule layer_okI) (simp, simp, erule (2) layer_okD(4), erule (1) layer_okD(5))

text \<open>What a finished graph has: it extends the old one, and its walks from the last group are choices.\<close>

definition layers_of :: "ViewNode list \<Rightarrow> nat list \<Rightarrow> (vec3 \<times> real) list list \<Rightarrow> ViewNode list \<Rightarrow> nat \<Rightarrow> bool" where
  "layers_of nodes prev groups nodes' fin \<longleftrightarrow> length nodes \<le> fin \<and> fin < length nodes' \<and> layer_ok nodes' [] \<and>
     (\<forall>u < length nodes. (vn_pos (nodes' ! u), vn_yaw (nodes' ! u), vn_vel (nodes' ! u)) = (vn_pos (nodes ! u), vn_yaw (nodes ! u), vn_vel (nodes ! u)) \<and>
        (u \<notin> set prev \<longrightarrow> succs nodes' u = succs nodes u)) \<and>
     (\<forall>k < length nodes'. length nodes \<le> k \<longrightarrow> vn_vel (nodes' ! k) = (0, 0, 0) \<and> view_at nodes' k \<in> set (concat groups)) \<and>
     (\<forall>u \<in> set prev. \<forall>ws. net_walk (succs nodes') u ws \<longrightarrow> length ws \<le> length groups \<and> (\<forall>k \<in> set ws. length nodes \<le> k \<and> k < length nodes') \<and>
        (walk_end u ws = fin \<longrightarrow> picks_one groups (map (view_at nodes') ws))) \<and>
     (\<forall>u \<in> set prev. \<forall>vs. picks_one groups vs \<longrightarrow> (\<exists>ws. net_walk (succs nodes') u ws \<and> walk_end u ws = fin \<and> map (view_at nodes') ws = vs))"

lemma layers_ofD:
  assumes "layers_of nodes prev groups nodes' fin"
  shows "length nodes \<le> fin" "fin < length nodes'" "layer_ok nodes' []"
    "v < length nodes \<Longrightarrow> (vn_pos (nodes' ! v), vn_yaw (nodes' ! v), vn_vel (nodes' ! v)) = (vn_pos (nodes ! v), vn_yaw (nodes ! v), vn_vel (nodes ! v))"
    "v < length nodes \<Longrightarrow> v \<notin> set prev \<Longrightarrow> succs nodes' v = succs nodes v"
    "k < length nodes' \<Longrightarrow> length nodes \<le> k \<Longrightarrow> vn_vel (nodes' ! k) = (0, 0, 0) \<and> view_at nodes' k \<in> set (concat groups)"
    "u \<in> set prev \<Longrightarrow> net_walk (succs nodes') u ws \<Longrightarrow> length ws \<le> length groups"
    "u \<in> set prev \<Longrightarrow> net_walk (succs nodes') u ws \<Longrightarrow> \<forall>k \<in> set ws. length nodes \<le> k \<and> k < length nodes'"
    "u \<in> set prev \<Longrightarrow> net_walk (succs nodes') u ws \<Longrightarrow> walk_end u ws = fin \<Longrightarrow> picks_one groups (map (view_at nodes') ws)"
    "u \<in> set prev \<Longrightarrow> picks_one groups vs \<Longrightarrow> \<exists>ws. net_walk (succs nodes') u ws \<and> walk_end u ws = fin \<and> map (view_at nodes') ws = vs"
  using assms unfolding layers_of_def by blast+

lemma add_group_ok:
  assumes "layer_ok nodes prev" "views \<noteq> []"
  shows "\<exists>nodes'. fold (add_view prev) views (nodes, []) = (nodes', [length nodes..<length nodes + length views]) \<and>
    length nodes' = length nodes + length views \<and> layer_ok nodes' [length nodes..<length nodes + length views] \<and>
    (\<forall>u < length nodes. (vn_pos (nodes' ! u), vn_yaw (nodes' ! u), vn_vel (nodes' ! u)) = (vn_pos (nodes ! u), vn_yaw (nodes ! u), vn_vel (nodes ! u)) \<and>
      succs nodes' u = (if u \<in> set prev then [length nodes..<length nodes + length views] else succs nodes u)) \<and>
    (\<forall>j < length views. nodes' ! (length nodes + j) = new_ViewNode (fst (views ! j)) (snd (views ! j)))"
proof -
  let ?ids = "[length nodes..<length nodes + length views]"
  have prev: "distinct prev" "\<forall>u \<in> set prev. u < length nodes" and empty: "\<forall>u \<in> set prev. succs nodes u = []"
    and up: "\<And>u v. u < length nodes \<Longrightarrow> v \<in> set (succs nodes u) \<Longrightarrow> u < v \<and> v < length nodes"
    and fr: "\<And>u. u < length nodes \<Longrightarrow> fresh_node (nodes ! u)"
    using assms(1) unfolding layer_ok_def by blast+
  obtain nodes' where r: "fold (add_view prev) views (nodes, []) = (nodes', [] @ ?ids)" "length nodes' = length nodes + length views"
    "\<forall>u < length nodes. nodes' ! u = (if u \<in> set prev then (nodes ! u)\<lparr>vn_neighbors := vn_neighbors (nodes ! u) @ ?ids\<rparr> else nodes ! u)"
    "\<forall>j < length views. nodes' ! (length nodes + j) = new_ViewNode (fst (views ! j)) (snd (views ! j))"
    using fold_add_view [OF prev, of views "[]"] by blast
  have old: "(vn_pos (nodes' ! u), vn_yaw (nodes' ! u), vn_vel (nodes' ! u)) = (vn_pos (nodes ! u), vn_yaw (nodes ! u), vn_vel (nodes ! u)) \<and>
      succs nodes' u = (if u \<in> set prev then ?ids else succs nodes u)" "fresh_node (nodes' ! u)" if "u < length nodes" for u
    using r(3) empty fr [OF that] that by (auto simp: succs_def fresh_node_def)
  have new: "nodes' ! k = new_ViewNode (fst (views ! (k - length nodes))) (snd (views ! (k - length nodes)))" if "length nodes \<le> k" "k < length nodes'" for k
    using r(2) r(4) [THEN spec, of "k - length nodes"] that by simp
  have up': "u < v \<and> v < length nodes'" if "u < length nodes'" "v \<in> set (succs nodes' u)" for u v
  proof (cases "u < length nodes")
    case True
    then show ?thesis using old(1) [OF True] up [OF True, of v] that(2) r(2) True by (cases "u \<in> set prev") auto
  next
    case False
    then show ?thesis using new [of u] that by (simp add: succs_def)
  qed
  have fr': "fresh_node (nodes' ! u)" if "u < length nodes'" for u
    using old(2) new that by (cases "u < length nodes") simp_all
  have ids: "u < length nodes' \<and> succs nodes' u = []" if "u \<in> set ?ids" for u using new [of u] r(2) that by (simp add: succs_def)
  have ok: "layer_ok nodes' ?ids" by (rule layer_okI [OF _ ids up' fr']) simp
  have run: "fold (add_view prev) views (nodes, []) = (nodes', ?ids)" using r(1) by simp
  show ?thesis using run r(2) ok old(1) r(4) by (intro exI [of _ nodes'] conjI) blast+
qed

lemma add_groups_ok:
  assumes "layer_ok nodes prev" "prev \<noteq> []" "groups \<noteq> []" "\<forall>views \<in> set groups. views \<noteq> []"
  shows "\<exists>nodes' fin. add_groups nodes prev groups = (nodes', Some fin) \<and> layers_of nodes prev groups nodes' fin"
  using assms
proof (induction nodes prev groups rule: add_groups.induct)
  case (1 nodes prev)
  then show ?case by simp
next
  case (2 nodes prev views)
  obtain v vs where v: "views = v # vs" using 2(4) by (cases views) auto
  have ne1: "[v] \<noteq> []" by simp
  obtain nodes' where r: "fold (add_view prev) [v] (nodes, []) = (nodes', [length nodes..<length nodes + length [v]])"
    "length nodes' = length nodes + length [v]" "layer_ok nodes' [length nodes..<length nodes + length [v]]"
    "\<forall>u < length nodes. (vn_pos (nodes' ! u), vn_yaw (nodes' ! u), vn_vel (nodes' ! u)) = (vn_pos (nodes ! u), vn_yaw (nodes ! u), vn_vel (nodes ! u)) \<and>
      succs nodes' u = (if u \<in> set prev then [length nodes..<length nodes + length [v]] else succs nodes u)"
    "\<forall>j < length [v]. nodes' ! (length nodes + j) = new_ViewNode (fst ([v] ! j)) (snd ([v] ! j))"
    using add_group_ok [OF 2(1) ne1] by (elim exE conjE) (rule that)
  let ?k = "length nodes"
  have k: "nodes' ! ?k = new_ViewNode (fst v) (snd v)" "succs nodes' ?k = []" "length nodes' = Suc ?k" using r(2,5) by (simp_all add: succs_def)
  have run: "add_groups nodes prev [views] = (nodes', Some ?k)" using r(1) by (simp add: v)
  have ok: "layer_ok nodes' []" by (rule layer_ok_Nil [OF r(3)])
  have prev: "u < ?k \<and> succs nodes' u = [?k]" if "u \<in> set prev" for u
    using r(4) layer_okD(2) [OF 2(1) that] that by simp
  have view: "view_at nodes' ?k = v" using k(1) by (simp add: view_at_def)
  have walks: "ws = [] \<or> ws = [?k]" if "u \<in> set prev" "net_walk (succs nodes') u ws" for u ws
    using that prev [OF that(1)] k(2) by (cases ws; cases "tl ws") auto
  have "layers_of nodes prev [views] nodes' ?k"
    unfolding layers_of_def
  proof (intro conjI ballI allI impI)
    fix u ws
    assume u: "u \<in> set prev" "net_walk (succs nodes') u ws"
    then show "length ws \<le> length [views]" using walks [OF u] by auto
    show "picks_one [views] (map (view_at nodes') ws)" if "walk_end u ws = ?k"
      using walks [OF u] that prev [OF u(1)] view v by auto
    fix k'
    assume "k' \<in> set ws"
    then show "?k \<le> k'" "k' < length nodes'" using walks [OF u] k(3) by auto
  next
    fix u vs
    assume "u \<in> set prev" "picks_one [views] vs"
    then show "\<exists>ws. net_walk (succs nodes') u ws \<and> walk_end u ws = ?k \<and> map (view_at nodes') ws = vs"
      using prev view v by (intro exI [of _ "[?k]"]) simp
  next
    fix u
    assume "u < ?k"
    then show "(vn_pos (nodes' ! u), vn_yaw (nodes' ! u), vn_vel (nodes' ! u)) = (vn_pos (nodes ! u), vn_yaw (nodes ! u), vn_vel (nodes ! u))"
      "u \<notin> set prev \<Longrightarrow> succs nodes' u = succs nodes u" using r(4) by simp_all
  next
    fix k'
    assume "k' < length nodes'" "?k \<le> k'"
    then have "k' = ?k" using k(3) by simp
    then show "vn_vel (nodes' ! k') = (0, 0, 0)" "view_at nodes' k' \<in> set (concat [views])" using k(1) view v by simp_all
  qed (use ok k(3) in auto)
  then show ?case using run by blast
next
  case (3 nodes prev views g gs)
  have ne0: "views \<noteq> []" using 3(5) by simp
  obtain nodes1 where r: "fold (add_view prev) views (nodes, []) = (nodes1, [length nodes..<length nodes + length views])"
    "length nodes1 = length nodes + length views" "layer_ok nodes1 [length nodes..<length nodes + length views]"
    "\<forall>u < length nodes. (vn_pos (nodes1 ! u), vn_yaw (nodes1 ! u), vn_vel (nodes1 ! u)) = (vn_pos (nodes ! u), vn_yaw (nodes ! u), vn_vel (nodes ! u)) \<and>
      succs nodes1 u = (if u \<in> set prev then [length nodes..<length nodes + length views] else succs nodes u)"
    "\<forall>j < length views. nodes1 ! (length nodes + j) = new_ViewNode (fst (views ! j)) (snd (views ! j))"
    using add_group_ok [OF 3(2) ne0] by (elim exE conjE) (rule that)
  let ?n = "length nodes"
  let ?ids = "[?n..<?n + length views]"
  have vne: "views \<noteq> []" "\<forall>views \<in> set (g # gs). views \<noteq> []" using 3(5) by auto
  then have ne: "?ids \<noteq> []" by simp
  obtain nodes' fin where f: "add_groups nodes1 ?ids (g # gs) = (nodes', Some fin)" "layers_of nodes1 ?ids (g # gs) nodes' fin"
    using 3(1) [OF r(1) [symmetric] refl r(3) ne _ vne(2)] by blast
  note lay = layers_ofD [OF f(2)]
  have run: "add_groups nodes prev (views # g # gs) = (nodes', Some fin)" using r(1) f(1) by simp
  have b: "?n + length views \<le> fin" "fin < length nodes'" using lay(1,2) r(2) by simp_all
  have same: "(vn_pos (nodes' ! u), vn_yaw (nodes' ! u), vn_vel (nodes' ! u)) = (vn_pos (nodes ! u), vn_yaw (nodes ! u), vn_vel (nodes ! u))"
    "succs nodes' u = (if u \<in> set prev then ?ids else succs nodes u)" if "u < ?n" for u
    using lay(4,5) [of u] r(2) r(4) [THEN spec, of u] that by simp_all
  have prev: "u < ?n" "succs nodes' u = ?ids" if "u \<in> set prev" for u
    using layer_okD(2) [OF 3(2) that] that same(2) [of u] by simp_all
  have view: "view_at nodes' (?n + j) = views ! j" "vn_vel (nodes' ! (?n + j)) = (0, 0, 0)" if "j < length views" for j
  proof -
    have "?n + j < length nodes1" using that r(2) by simp
    then have "(vn_pos (nodes' ! (?n + j)), vn_yaw (nodes' ! (?n + j)), vn_vel (nodes' ! (?n + j))) = (fst (views ! j), snd (views ! j), (0, 0, 0))"
      using lay(4) [of "?n + j"] r(5) that by simp
    then show "view_at nodes' (?n + j) = views ! j" "vn_vel (nodes' ! (?n + j)) = (0, 0, 0)" by (simp_all add: view_at_def)
  qed
  have vel: "vn_vel (nodes' ! k) = (0, 0, 0) \<and> view_at nodes' k \<in> set (concat (views # g # gs))" if "k < length nodes'" "?n \<le> k" for k
  proof (cases "k < length nodes1")
    case True
    then have "k - ?n < length views" using that r(2) by simp
    then show ?thesis using view [of "k - ?n"] that(2) by simp
  next
    case False
    then show ?thesis using lay(6) [OF that(1)] by simp
  qed
  have walks: "length ws \<le> length (g # gs)" "\<forall>k \<in> set ws. ?n + length views \<le> k \<and> k < length nodes'"
    "walk_end u ws = fin \<longrightarrow> picks_one (g # gs) (map (view_at nodes') ws)" if "u \<in> set ?ids" "net_walk (succs nodes') u ws" for u ws
    using lay(7-9) [OF that] r(2) by simp_all
  have "layers_of nodes prev (views # g # gs) nodes' fin"
    unfolding layers_of_def
  proof (intro conjI ballI allI impI)
    fix u ws
    assume u: "u \<in> set prev" "net_walk (succs nodes') u ws"
    show "length ws \<le> length (views # g # gs)"
    proof (cases ws)
      case (Cons v vs)
      then show ?thesis using walks(1) [of v vs] u prev by simp
    qed simp
    show "picks_one (views # g # gs) (map (view_at nodes') ws)" if e: "walk_end u ws = fin"
    proof (cases ws)
      case Nil
      then show ?thesis using e prev(1) [OF u(1)] b(1) by simp
    next
      case (Cons v vs)
      then have v: "v \<in> set ?ids" "net_walk (succs nodes') v vs" "walk_end v vs = fin" using u prev e by simp_all
      then obtain j where "j < length views" "v = ?n + j" using nat_le_iff_add by fastforce
      then have "view_at nodes' v \<in> set views" using view(1) by simp
      then show ?thesis using walks(3) [OF v(1,2)] v(3) Cons by simp
    qed
    fix k
    assume k: "k \<in> set ws"
    then obtain v vs where v: "ws = v # vs" by (cases ws) auto
    then have "v \<in> set ?ids" "net_walk (succs nodes') v vs" using u prev by simp_all
    then show "?n \<le> k" "k < length nodes'" using walks(2) [of v vs] k v b by auto
  next
    fix u vs
    assume u: "u \<in> set prev" "picks_one (views # g # gs) vs"
    then obtain v vs' where v: "vs = v # vs'" "v \<in> set views" "picks_one (g # gs) vs'" by (cases vs) auto
    then obtain j where j: "j < length views" "v = views ! j" by (metis in_set_conv_nth)
    then have "?n + j \<in> set ?ids" by simp
    then obtain ws where "net_walk (succs nodes') (?n + j) ws" "walk_end (?n + j) ws = fin" "map (view_at nodes') ws = vs'"
      using lay(10) v(3) by blast
    then show "\<exists>ws. net_walk (succs nodes') u ws \<and> walk_end u ws = fin \<and> map (view_at nodes') ws = vs"
      using j view(1) v(1) prev [OF u(1)] by (intro exI [of _ "(?n + j) # ws"]) simp
  qed (use lay(3) b same vel in simp_all)
  then show ?case using run by blast
qed

section \<open>The local tour\<close>

lemma walk_tour_cost:
  assumes "total_cost cost" "\<forall>k \<in> set ws. vn_vel (nodes ! k) = (0, 0, 0)"
  shows "walk_cost (node_cost cost nodes) u ws = tour_cost cost (vn_pos (nodes ! u)) (vn_yaw (nodes ! u)) (vn_vel (nodes ! u)) (map (view_at nodes) ws)"
  using assms(2)
proof (induction ws arbitrary: u)
  case (Cons k ws)
  have "node_cost cost nodes u k = move_value cost (vn_pos (nodes ! u)) (vn_pos (nodes ! k)) (vn_yaw (nodes ! u)) (vn_yaw (nodes ! k)) (vn_vel (nodes ! u))"
    using assms(1) unfolding node_cost_def costTo_def move_value_def total_cost_def by (blast intro: option.map_sel)
  then show ?case using Cons by (simp add: view_at_def)
qed simp

text \<open>All moves between some points have a cost, between zero and a bound.\<close>

definition cost_within :: "move_cost \<Rightarrow> real \<Rightarrow> vec3 set \<Rightarrow> vec3 \<Rightarrow> bool" where
  "cost_within cost b points vel \<longleftrightarrow> total_cost cost \<and>
     (\<forall>p \<in> points. \<forall>q \<in> points. \<forall>y z. \<forall>v \<in> {vel, (0, 0, 0)}. 0 \<le> move_value cost p q y z v \<and> move_value cost p q y z v \<le> b)"

lemma node_cost_within:
  assumes "cost_within cost b points vel" "vn_pos (nodes ! u) \<in> points" "vn_pos (nodes ! v) \<in> points" "vn_vel (nodes ! u) \<in> {vel, (0, 0, 0)}"
  shows "0 \<le> node_cost cost nodes u v" "node_cost cost nodes u v \<le> b"
proof -
  have "node_cost cost nodes u v = move_value cost (vn_pos (nodes ! u)) (vn_pos (nodes ! v)) (vn_yaw (nodes ! u)) (vn_yaw (nodes ! v)) (vn_vel (nodes ! u))"
    using assms(1) unfolding cost_within_def node_cost_def costTo_def move_value_def total_cost_def by (blast intro: option.map_sel)
  then show "0 \<le> node_cost cost nodes u v" "node_cost cost nodes u v \<le> b" using assms unfolding cost_within_def by metis+
qed

lemma picks_one_hd: "groups \<noteq> [] \<Longrightarrow> \<forall>views \<in> set groups. views \<noteq> [] \<Longrightarrow> picks_one groups (map hd groups)"
  by (induction groups rule: induct_list012) simp_all

lemma refined_tour_ok:
  assumes "\<forall>a b. search a b \<noteq> None"
  shows "\<exists>tour. refined_tour search pos pts = Some tour"
proof -
  have "\<exists>tour'. map_option (\<lambda>(len, path). tour @ (if len \<noteq> 0 then path else [pt])) (search (List.last tour) pt) = Some tour'" for tour pt
    using assms [rule_format, of "List.last tour" pt] by auto
  then have "\<exists>tour'. fold_option (\<lambda>pt tour. map_option (\<lambda>(len, path). tour @ (if len \<noteq> 0 then path else [pt])) (search (List.last tour) pt)) pts tour = Some tour'" for tour
    by (induction pts arbitrary: tour) (simp, metis (no_types, lifting) fold_option.simps(2) Option.bind.simps(2))
  then show ?thesis by (simp add: refined_tour_def)
qed

lemma first_layer: "layer_ok (addNode a []) [0]" if "fresh_node a" "vn_neighbors a = []"
  by (rule layer_okI) (use that in \<open>simp_all add: addNode_def succs_def\<close>)

lemma net_okI:
  assumes "start < n" "\<And>u v. u < n \<Longrightarrow> v \<in> set (N u) \<Longrightarrow> u < v \<and> v < n" "\<And>u v. u < n \<Longrightarrow> v < n \<Longrightarrow> 0 \<le> W u v"
    and "\<And>ws. net_walk N start ws \<Longrightarrow> walk_cost W start ws < far"
  shows "net_ok n N W start"
  using assms unfolding net_ok_def by blast

lemma walk_cost_bound:
  assumes "\<And>u v. u < n \<Longrightarrow> v < n \<Longrightarrow> W u v \<le> b" "\<And>u v. u < n \<Longrightarrow> v \<in> set (N u) \<Longrightarrow> u < v \<and> v < n" "u < n" "net_walk N u ws"
  shows "walk_cost W u ws \<le> real (length ws) * b"
  using assms(3,4)
proof (induction ws arbitrary: u)
  case (Cons v ws)
  then have v: "v < n" using assms(2) [OF Cons.prems(1)] by simp
  then have "W u v + walk_cost W v ws \<le> b + real (length ws) * b"
    using Cons by (intro add_mono [OF assms(1) Cons.IH]) simp_all
  then show ?case by (simp add: algebra_simps)
qed simp

lemma refineLocalTour_ok:
  assumes cost: "cost_within cost b (insert cur_pos (set (concat n_points))) cur_vel" "real (length n_points) * b < far"
    and search: "\<forall>a b. search a b \<noteq> None" and pick: "valid_pick pick"
    and groups: "n_points \<noteq> []" "\<forall>ps \<in> set n_points. ps \<noteq> []" "map length n_points = map length n_yaws"
  shows "\<exists>pts yaws tour. refineLocalTour pick cost search cur_pos cur_vel cur_yaw n_points n_yaws = Some (pts, yaws, tour) \<and>
    length pts = length yaws \<and> picks_one (map2 zip n_points n_yaws) (zip pts yaws) \<and>
    (least_pick pick \<longrightarrow> (\<forall>vs. picks_one (map2 zip n_points n_yaws) vs \<longrightarrow>
       tour_cost cost cur_pos (fst cur_yaw) cur_vel (zip pts yaws) \<le> tour_cost cost cur_pos (fst cur_yaw) cur_vel vs))"
proof -
  let ?groups = "map2 zip n_points n_yaws"
  let ?first = "(new_ViewNode cur_pos (fst cur_yaw))\<lparr>vn_vel := cur_vel\<rparr>"
  have total: "total_cost cost" using cost(1) unfolding cost_within_def by blast
  have lens: "length n_points = length n_yaws" using arg_cong [OF groups(3), of length] by simp
  have gne: "?groups \<noteq> []" using groups(1) lens by (cases n_points; cases n_yaws) auto
  have vne: "\<forall>views \<in> set ?groups. views \<noteq> []"
  proof
    fix views
    assume "views \<in> set ?groups"
    then obtain i where i: "i < length n_points" "views = zip (n_points ! i) (n_yaws ! i)" using lens by (auto simp: in_set_conv_nth)
    have "length (n_points ! i) = length (n_yaws ! i)" using arg_cong [OF groups(3), of "\<lambda>xs. xs ! i"] i(1) lens by simp
    moreover have "n_points ! i \<noteq> []" using groups(2) nth_mem [OF i(1)] by blast
    ultimately show "views \<noteq> []" using i(2) by (cases "n_points ! i"; cases "n_yaws ! i") auto
  qed
  have "layer_ok (addNode ?first []) [0]" by (rule first_layer) (simp_all add: new_ViewNode_def fresh_node_def far_def)
  then obtain nodes fin where a: "add_groups (addNode ?first []) [0] ?groups = (nodes, Some fin)" "layers_of (addNode ?first []) [0] ?groups nodes fin"
    using add_groups_ok [OF _ _ gne vne] by (metis list.discI)
  note lay = layers_ofD [OF a(2)]
  have one: "length (addNode ?first []) = 1" by (simp add: addNode_def)
  have zero: "0 \<in> set [0 :: nat]" by simp
  have start: "vn_pos (nodes ! 0) = cur_pos" "vn_yaw (nodes ! 0) = fst cur_yaw" "vn_vel (nodes ! 0) = cur_vel"
    using lay(4) [of 0] one by (simp_all add: addNode_def new_ViewNode_def)
  have vel: "\<forall>k \<in> set ws. vn_vel (nodes ! k) = (0, 0, 0)" if "net_walk (succs nodes) 0 ws" for ws
    using lay(6) lay(8) [OF zero that] by blast
  have points: "vn_pos (nodes ! k) \<in> insert cur_pos (set (concat n_points)) \<and> vn_vel (nodes ! k) \<in> {cur_vel, (0, 0, 0)}" if k: "k < length nodes" for k
  proof (cases "k = 0")
    case True
    then show ?thesis using start by simp
  next
    case False
    then have "vn_vel (nodes ! k) = (0, 0, 0)" "view_at nodes k \<in> set (concat ?groups)" using lay(6) [OF k] one by simp_all
    then show ?thesis by (auto simp: view_at_def dest!: set_zip_leftD)
  qed
  note within = node_cost_within [OF cost(1) conjunct1 [OF points] conjunct1 [OF points] conjunct2 [OF points]]
  note edges = layer_okD(4) [OF lay(3)]
  have n0: "0 < length nodes" using lay(2) by (rule le_less_trans [OF le0])
  have "0 \<le> b" using within [OF n0 n0 n0] by (rule order_trans)
  have short: "walk_cost (node_cost cost nodes) 0 ws < far" if "net_walk (succs nodes) 0 ws" for ws
  proof -
    have "length ws \<le> length n_points" using lay(7) [OF zero that] lens by simp
    then have "real (length ws) * b \<le> real (length n_points) * b" using \<open>0 \<le> b\<close> by (simp add: mult_right_mono)
    then show ?thesis using cost(2) walk_cost_bound [OF within(2) edges n0 that] by fastforce
  qed
  have net: "net_ok (length nodes) (succs nodes) (node_cost cost nodes) 0"
    by (rule net_okI [OF n0]) ((rule edges; assumption), (rule within(1); assumption), erule short)
  obtain ws0 where ws0: "net_walk (succs nodes) 0 ws0" "walk_end 0 ws0 = fin" using lay(10) [OF zero picks_one_hd [OF gne vne]] by blast
  have fr: "\<forall>a \<in> set nodes. vn_g_value a = far \<and> \<not> vn_closed a \<and> vn_parent a = None"
    using layer_okD(5) [OF lay(3)] by (metis fresh_node_def in_set_conv_nth)
  obtain path where p: "DijkstraSearch pick cost 0 fin nodes = Some (0 # path)" "net_walk (succs nodes) 0 path" "walk_end 0 path = fin"
    "least_pick pick \<longrightarrow> (\<forall>ws. net_walk (succs nodes) 0 ws \<longrightarrow> walk_end 0 ws = fin \<longrightarrow>
      walk_cost (node_cost cost nodes) 0 path \<le> walk_cost (node_cost cost nodes) 0 ws)"
    using DijkstraSearch_ok [OF total net pick ws0 fr] by blast
  let ?pts = "map (\<lambda>i. vn_pos (nodes ! i)) path" and ?yaws = "map (\<lambda>i. vn_yaw (nodes ! i)) path"
  have views: "zip ?pts ?yaws = map (view_at nodes) path" by (simp add: view_at_def zip_map_map zip_same_conv_map)
  obtain tour where tour: "refined_tour search cur_pos ?pts = Some tour" using refined_tour_ok [OF search] by blast
  have run: "refineLocalTour pick cost search cur_pos cur_vel cur_yaw n_points n_yaws = Some (?pts, ?yaws, tour)"
    using groups(3) by (simp add: refineLocalTour_def Let_def a(1) p(1) tour)
  have "tour_cost cost cur_pos (fst cur_yaw) cur_vel (zip ?pts ?yaws) \<le> tour_cost cost cur_pos (fst cur_yaw) cur_vel vs"
    if lp: "least_pick pick" "picks_one ?groups vs" for vs
  proof -
    obtain ws where ws: "net_walk (succs nodes) 0 ws" "walk_end 0 ws = fin" "map (view_at nodes) ws = vs" using lay(10) [OF zero lp(2)] by blast
    have "walk_cost (node_cost cost nodes) 0 path \<le> walk_cost (node_cost cost nodes) 0 ws" using p(4) lp(1) ws(1,2) by blast
    then show ?thesis
      unfolding views walk_tour_cost [OF total vel [OF p(2)]] walk_tour_cost [OF total vel [OF ws(1)]] ws(3) start .
  qed
  then show ?thesis
    by (intro exI conjI impI allI) (rule run, simp, simp only: views lay(9) [OF zero p(2,3)], assumption)
qed

end
