(* ===== verification/Planner_Claims.thy ===== *)
theory Planner_Claims imports Planner_Paths Planner_Layers Frontier_Claims
begin

text \<open>
  The properties of the planning of a motion, with their instances: the tour of local refinement takes a viewpoint
  of each frontier, the shortened path keeps to what was checked, the goal of a trajectory is not in an obstacle and
  was reached by the path search, and the order of frontiers is the one of the solver.
\<close>

section \<open>The tour of local refinement\<close>

text \<open>C20: If the costs of moves are between zero and a bound with which no tour gets as far as the initial value of the
  nodes, \<open>refineLocalTour\<close> completes, whichever of its entries the queue gives each time, and its tour takes exactly one
  viewpoint of each frontier, in the order of the frontiers and each with its own yaw, and the first viewpoint of the
  last frontier. (The values of nodes are lowered while they are in the \<open>std::priority_queue\<close>, so nothing is assumed of
  its order. The tour is one of least cost if every entry given is a least one: \<open>refineLocalTour_ok\<close>.)\<close>

theorem local_tour_visits_each:
  assumes "cost_within cost b (insert cur_pos (set (concat n_points))) cur_vel" and "real (length n_points) * b < far"
    and "\<forall>a b. search a b \<noteq> None" and "valid_pick pick"
    and "n_points \<noteq> []" and "\<forall>ps \<in> set n_points. ps \<noteq> []" and "map length n_points = map length n_yaws"
  shows "\<exists>pts yaws tour. refineLocalTour pick cost search cur_pos cur_vel cur_yaw n_points n_yaws = Some (pts, yaws, tour) \<and>
    length pts = length yaws \<and> picks_one (map2 zip n_points n_yaws) (zip pts yaws)"
  using refineLocalTour_ok [OF assms] by blast

definition line_cost :: move_cost where
  "line_cost p q y z v = Some (\<bar>fst p - fst q\<bar>, [p, q])"

lemma line_cost_within: "cost_within line_cost 9 (insert (0, 0, 0) (set (concat [[(5, 0, 0), (1, 0, 0)], [(2, 0, 0), (9, 0, 0)]]))) (0, 0, 0)"
  by (simp add: cost_within_def total_cost_def move_value_def line_cost_def)

text \<open>A queue that always gives the newest entry.\<close>

lemma newest_pick: "valid_pick (\<lambda>nodes open_set. length open_set - 1)"
  by (simp add: valid_pick_def diff_less)

lemma local_tour_visits_each_witness:
  "\<exists>pts yaws tour. refineLocalTour (\<lambda>nodes open_set. length open_set - 1) line_cost (\<lambda>a b. Some (1, [a, b]))
      (0, 0, 0) (0, 0, 0) (0, 0, 0) [[(5, 0, 0), (1, 0, 0)], [(2, 0, 0), (9, 0, 0)]] [[0, 1], [0, 1]] = Some (pts, yaws, tour) \<and>
    length pts = length yaws \<and>
    picks_one (map2 zip [[(5, 0, 0), (1, 0, 0)], [(2, 0, 0), (9, 0, 0)]] [[0, 1], [0, 1]]) (zip pts yaws)"
  by (rule local_tour_visits_each [OF line_cost_within _ _ newest_pick]) (simp_all add: far_def)

section \<open>The shortened path\<close>

text \<open>C22: \<open>shortenPath\<close> completes for a path that is not empty. It keeps points of the path, starting with its first one and
  ending within a millimetre of its last one, such that each segment is one of the path or crosses no occupied or
  unknown voxel; if only two points are left, their middle is put between them.\<close>

theorem shorten_path_safe:
  assumes "path \<noteq> []"
  shows "\<exists>pts. shortenPath p d caster path = Some (with_middle pts) \<and> shortened p d caster path pts \<and>
    vec_norm (zip3 (-) (List.last path) (List.last pts)) \<le> 1 / 1000"
  by (rule shortenPath_ok [OF assms])

lemma shorten_path_safe_witness:
  "\<exists>pts. shortenPath ftr_param ftr_data small_caster [(1, 1, 1), (2, 1, 1), (2, 2, 1)] = Some (with_middle pts) \<and>
    shortened ftr_param ftr_data small_caster [(1, 1, 1), (2, 1, 1), (2, 2, 1)] pts \<and>
    vec_norm (zip3 (-) (List.last [(1, 1, 1), (2, 1, 1), (2, 2, 1)]) (List.last pts)) \<le> 1 / 1000"
  by (rule shorten_path_safe) simp

section \<open>The trajectory to a viewpoint\<close>

lemma truncated_take: "\<exists>n. truncated len2 acc qs = acc @ take n qs"
proof (induction qs arbitrary: len2 acc)
  case (Cons q qs)
  show ?case
  proof (cases "len2 < 7")
    case True
    obtain n where "truncated (len2 + vec_norm (zip3 (-) q (List.last acc))) (acc @ [q]) qs = (acc @ [q]) @ take n qs" using Cons.IH by blast
    then show ?thesis using True by (intro exI [of _ "Suc n"]) simp
  next
    case False
    then show ?thesis by (intro exI [of _ 0]) simp
  qed
qed simp

lemma truncated_prefix:
  assumes "path \<noteq> []"
  shows "\<exists>n > 0. truncated 0 [hd path] (tl path) = take n path"
proof -
  obtain n where "truncated 0 [hd path] (tl path) = [hd path] @ take n (tl path)" using truncated_take by blast
  then show ?thesis using assms by (intro exI [of _ "Suc n"]) (cases path; simp)
qed

lemma with_middle_ne: "pts \<noteq> [] \<Longrightarrow> with_middle pts \<noteq> []"
  by (simp add: with_middle_def split: list.split)

definition time_bound :: "explore_config \<Rightarrow> vec3 \<Rightarrow> real \<Rightarrow> real" where
  "time_bound c yaw next_yaw = min \<bar>next_yaw - fst yaw\<bar> (2 * pi - \<bar>next_yaw - fst yaw\<bar>) / view_yd (xc_view c)"

text \<open>The first call of the trajectory planner: waypoints from the start of the path, or the search of a path to the goal.\<close>

definition trajectory_call :: "explore_config \<Rightarrow> vec3 \<Rightarrow> vec3 \<Rightarrow> vec3 \<Rightarrow> real \<Rightarrow> explorer \<Rightarrow> motion_call \<Rightarrow> bool" where
  "trajectory_call c pos vel acc lb s call \<longleftrightarrow>
     (\<exists>n > 0. call = PlanExploreTraj (take n (xp_path_next_goal s)) vel acc lb) \<or> call = KinodynamicReplan pos vel acc (xp_next_pos s) lb"

lemma planTrajToView_ok:
  assumes "findSafeReachableGoal env c (pl_map (xp_planner s)) pos next_pos (xp_plan_num s < ep_init_plan_num (xc_explore c)) = Some (goal, path)"
    and pts: "shortenPath (xc_map c) (pl_map (xp_planner s)) (xc_caster c) path = Some short" "short \<noteq> []"
  shows "\<exists>ok calls s'. planTrajToView env c pos vel acc yaw next_pos next_yaw s = Some (ok, calls, s') \<and>
    xp_next_pos s' = goal \<and> xp_path_next_goal s' = short \<and>
    (if ok then \<exists>call. calls = [call, PlanYawExplore yaw next_yaw True (ep_relax_time (xc_explore c))] \<and>
         trajectory_call c pos vel acc (time_bound c yaw next_yaw) s' call
     else calls = [KinodynamicReplan pos vel acc goal (time_bound c yaw next_yaw)] \<and>
       env_kino env pos vel acc goal (time_bound c yaw next_yaw) = None)"
proof -
  obtain n where n: "n > 0" "truncated 0 [hd short] (tl short) = take n short" using truncated_prefix [OF pts(2)] by blast
  let ?lb = "time_bound c yaw next_yaw"
  let ?yaw_call = "PlanYawExplore yaw next_yaw True (ep_relax_time (xc_explore c))"
  let ?opt = "xp_plan_num s < ep_init_plan_num (xc_explore c)"
  let ?s1 = "s\<lparr>xp_next_pos := goal, xp_path_next_goal := short, xp_kino_path := []\<rparr>"
  let ?s2 = "?s1\<lparr>xp_next_goal := goal\<rparr>"
  note run = planTrajToView_def [of env c pos vel acc yaw next_pos next_yaw s, unfolded Let_def assms(1), folded time_bound_def,
    unfolded option.case prod.case pts(1) bind.bind_lunit]
  have waypoints: ?thesis if "planTrajToView env c pos vel acc yaw next_pos next_yaw s =
      Some (True, [PlanExploreTraj (take k short) vel acc ?lb, ?yaw_call], s')" "k > 0" "xp_next_pos s' = goal" "xp_path_next_goal s' = short" for k s'
    using that by (intro exI [of _ True] exI [of _ "[PlanExploreTraj (take k short) vel acc ?lb, ?yaw_call]"] exI [of _ s'])
      (auto simp: trajectory_call_def)
  show ?thesis
  proof (cases "path_length short < 15 / 10 \<or> ?opt")
    case True
    show ?thesis
    proof (rule waypoints)
      show "planTrajToView env c pos vel acc yaw next_pos next_yaw s =
        Some (True, [PlanExploreTraj (take (length short) short) vel acc ?lb, ?yaw_call],
          ?s2\<lparr>xp_plan_num := (if ?opt then xp_plan_num s + 1 else xp_plan_num s)\<rparr>)"
        unfolding run if_P [OF True] by simp
    qed (simp_all add: pts(2))
  next
    case near: False
    show ?thesis
    proof (cases "path_length short > 7")
      case True
      show ?thesis
      proof (rule waypoints)
        show "planTrajToView env c pos vel acc yaw next_pos next_yaw s =
          Some (True, [PlanExploreTraj (take n short) vel acc ?lb, ?yaw_call], ?s1\<lparr>xp_next_goal := List.last (take n short)\<rparr>)"
          unfolding run if_not_P [OF near] if_P [OF True] n(2) by simp
      qed (simp_all add: n(1))
    next
      case False
      show ?thesis
      proof (cases "env_kino env pos vel acc goal ?lb")
        case None
        then show ?thesis unfolding run if_not_P [OF near] if_not_P [OF False]
          by (intro exI [of _ False] exI [of _ "[KinodynamicReplan pos vel acc goal ?lb]"] exI [of _ ?s2]) simp
      next
        case (Some kino)
        then show ?thesis unfolding run if_not_P [OF near] if_not_P [OF False]
          by (intro exI [of _ True] exI [of _ "[KinodynamicReplan pos vel acc goal ?lb, ?yaw_call]"] exI [of _ "?s2\<lparr>xp_kino_path := kino\<rparr>"])
            (simp add: trajectory_call_def)
      qed
    qed
  qed
qed

text \<open>C21: \<open>planTrajToView\<close> always completes. If it succeeds, the goal is one of the candidates, in the box, in
  a voxel that is neither occupied nor inflated (it may be unknown) and at the end of a path of the path search; the trajectory planner is called once, on waypoints from the
  start of the shortened path or to that goal, and then the yaw is planned. It fails only if no candidate has a path, without a call
  and with the state unchanged, or if the kinodynamic search fails; then the yaw is not planned.\<close>

theorem trajectory_goal_safe:
  "\<exists>ok calls s'. planTrajToView env c pos vel acc yaw next_pos next_yaw s = Some (ok, calls, s') \<and>
    (if ok then
       xp_next_pos s' \<in> set (goal_candidates (xc_map c) (pl_map (xp_planner s)) pos next_pos) \<and>
       (\<exists>call path pts. calls = [call, PlanYawExplore yaw next_yaw True (ep_relax_time (xc_explore c))] \<and>
         trajectory_call c pos vel acc (time_bound c yaw next_yaw) s' call \<and>
         safe_goal env c (pl_map (xp_planner s)) pos (xp_next_pos s') path \<and>
         xp_path_next_goal s' = with_middle pts \<and> shortened (xc_map c) (pl_map (xp_planner s)) (xc_caster c) path pts)
     else if findSafeReachableGoal env c (pl_map (xp_planner s)) pos next_pos (xp_plan_num s < ep_init_plan_num (xc_explore c)) = None
     then calls = [] \<and> s' = s
     else calls = [KinodynamicReplan pos vel acc (xp_next_pos s') (time_bound c yaw next_yaw)] \<and>
       env_kino env pos vel acc (xp_next_pos s') (time_bound c yaw next_yaw) = None)"
proof (cases "findSafeReachableGoal env c (pl_map (xp_planner s)) pos next_pos (xp_plan_num s < ep_init_plan_num (xc_explore c))")
  case None
  then show ?thesis by (intro exI [of _ False] exI [of _ "[]"] exI [of _ s]) (simp add: planTrajToView_def Let_def)
next
  case (Some r)
  obtain goal path where r: "r = (goal, path)" by (cases r)
  note found = Some [unfolded r]
  note safe = findSafeReachableGoal_safe [OF found]
  then have "path \<noteq> []" by (simp add: safe_goal_def)
  then obtain pts where pts: "shortenPath (xc_map c) (pl_map (xp_planner s)) (xc_caster c) path = Some (with_middle pts)"
    "shortened (xc_map c) (pl_map (xp_planner s)) (xc_caster c) path pts" using shortenPath_ok by blast
  then have "with_middle pts \<noteq> []" using with_middle_ne by (simp add: shortened_def)
  from planTrajToView_ok [OF found pts(1) this, of vel acc yaw next_yaw] obtain ok calls s'
    where run: "planTrajToView env c pos vel acc yaw next_pos next_yaw s = Some (ok, calls, s')" "xp_next_pos s' = goal"
      "xp_path_next_goal s' = with_middle pts"
      "if ok then \<exists>call. calls = [call, PlanYawExplore yaw next_yaw True (ep_relax_time (xc_explore c))] \<and>
         trajectory_call c pos vel acc (time_bound c yaw next_yaw) s' call
       else calls = [KinodynamicReplan pos vel acc goal (time_bound c yaw next_yaw)] \<and>
         env_kino env pos vel acc goal (time_bound c yaw next_yaw) = None" by blast
  then show ?thesis using safe pts(2) found by (intro exI [of _ ok] exI [of _ calls] exI [of _ s']) (cases ok; fastforce)
qed

section \<open>The order of the frontiers\<close>

text \<open>C34: From a tour of the solver that starts at the drone, visits the frontiers in some order and ends at the next cell
  if there is one, \<open>findTourOfFrontier\<close> reads the identifiers of the frontiers in that order; the last frontier is
  lost if the tour has a second cell but \<open>getNextGrid\<close> gave none.\<close>

theorem frontier_tour_order:
  assumes "\<forall>i \<in> set perm. i < length ftr_ids" and "dimension = int (length ftr_ids) + (if next_cell then 3 else 2)"
    and "more_cells \<longrightarrow> next_cell \<or> perm \<noteq> []" and "next_cell \<longrightarrow> more_cells"
  shows "tour_indices dimension more_cells ftr_ids (solver_tour (length ftr_ids) perm next_cell) =
    Some (map ((!) ftr_ids) (if more_cells \<and> \<not> next_cell then butlast perm else perm))"
  by (rule tour_indices_ok [OF assms])

lemma frontier_tour_order_witness:
  "tour_indices 5 True [7, 4, 9] (solver_tour (length [7, 4, 9 :: int]) [2, 0, 1] False) =
    Some (map ((!) [7, 4, 9]) (if True \<and> \<not> False then butlast [2, 0, 1] else [2, 0, 1]))"
  by (rule frontier_tour_order) simp_all

end
