(* ===== verification/Traj_Bspline.thy ===== *)
theory Traj_Bspline imports Frontier_Views "HOL-Library.Monad_Syntax"
begin

text \<open>
  The B-spline trajectories of \<open>bspline/src/non_uniform_bspline.cpp\<close>. A matrix of control points is the list of its
  rows, a vector is a list. \<open>None\<close> is an access outside of a matrix or vector, a value that was never set, or a division
  by the zero length of a knot span. The least-squares solver of Eigen is the parameter \<open>solve\<close>; output to the console
  is left out.
\<close>

section \<open>The spline\<close>

record NonUniformBspline =
  bs_points :: "real list list"
  bs_p :: nat
  bs_n :: int
  bs_m :: nat
  bs_u :: "real list"
  bs_knot_span :: real
  bs_duration :: real
  bs_limits :: "(real \<times> real \<times> real) option"

definition at_index :: "'a list \<Rightarrow> nat \<Rightarrow> 'a option" where
  "at_index xs i = (if i < length xs then Some (xs ! i) else None)"

definition quotient_of_span :: "real \<Rightarrow> real \<Rightarrow> real option" where
  "quotient_of_span x d = (if d = 0 then None else Some (x / d))"

definition uniform_knots :: "nat \<Rightarrow> nat \<Rightarrow> real \<Rightarrow> real list" where
  "uniform_knots p m h =
     foldl (\<lambda>u i. u @ [if i \<le> p then (- real p + real i) * h else u ! (i - 1) + h]) [] [0..<Suc m]"

definition getTimeSpan :: "NonUniformBspline \<Rightarrow> (real \<times> real) option" where
  "getTimeSpan s = do {
     um \<leftarrow> at_index (bs_u s) (bs_p s);
     um_p \<leftarrow> at_index (bs_u s) (bs_m s - bs_p s);
     Some (um, um_p) }"

definition getTimeSum :: "NonUniformBspline \<Rightarrow> real option" where
  "getTimeSum s = map_option (\<lambda>(um, um_p). um_p - um) (getTimeSpan s)"

definition setKnot :: "real list \<Rightarrow> NonUniformBspline \<Rightarrow> NonUniformBspline option" where
  "setKnot knot s = (let s1 = s\<lparr>bs_u := knot\<rparr> in map_option (\<lambda>t. s1\<lparr>bs_duration := t\<rparr>) (getTimeSum s1))"

definition setUniformBspline :: "real list list \<Rightarrow> nat \<Rightarrow> real \<Rightarrow> NonUniformBspline \<Rightarrow> NonUniformBspline option" where
  "setUniformBspline points order interval s =
     (let m = length points + order
      in setKnot (uniform_knots order m interval)
        (s\<lparr>bs_points := points, bs_p := order, bs_knot_span := interval, bs_n := int (length points) - 1, bs_m := m\<rparr>))"

definition make_bspline :: "real list list \<Rightarrow> nat \<Rightarrow> real \<Rightarrow> NonUniformBspline option" where
  "make_bspline points order interval = setUniformBspline points order interval
     \<lparr>bs_points = [], bs_p = 0, bs_n = 0, bs_m = 0, bs_u = [], bs_knot_span = 0, bs_duration = 0, bs_limits = None\<rparr>"

definition setPhysicalLimits :: "real \<Rightarrow> real \<Rightarrow> NonUniformBspline \<Rightarrow> NonUniformBspline" where
  "setPhysicalLimits vel acc s = s\<lparr>bs_limits := Some (vel, acc, 11 / 10)\<rparr>"

section \<open>Evaluation\<close>

text \<open>The first span from \<open>k\<close> on that does not end before \<open>ub\<close>.\<close>

function find_span :: "real list \<Rightarrow> real \<Rightarrow> nat \<Rightarrow> nat option" where
  "find_span u ub k = (if Suc k < length u then if u ! Suc k < ub then find_span u ub (Suc k) else Some k else None)"
  by auto
termination by (relation "measure (\<lambda>(u, _, k). length u - k)") auto

definition deboor_step :: "real list \<Rightarrow> nat \<Rightarrow> nat \<Rightarrow> real \<Rightarrow> nat \<Rightarrow> nat \<Rightarrow> real list list \<Rightarrow> real list list option" where
  "deboor_step u p k ub r i d = do {
     lo \<leftarrow> at_index u (i + k - p);
     hi \<leftarrow> at_index u (i + 1 + k - r);
     alpha \<leftarrow> quotient_of_span (ub - lo) (hi - lo);
     Some (d[i := map2 (\<lambda>a b. (1 - alpha) * a + alpha * b) (d ! (i - 1)) (d ! i)]) }"

definition evaluateDeBoor :: "NonUniformBspline \<Rightarrow> real \<Rightarrow> real list option" where
  "evaluateDeBoor s t = (let p = bs_p s; u = bs_u s in do {
     (um, um_p) \<leftarrow> getTimeSpan s;
     let ub = min (max um t) um_p;
     k \<leftarrow> find_span u ub p;
     d \<leftarrow> map_some (\<lambda>i. at_index (bs_points s) (k - p + i)) [0..<Suc p];
     d' \<leftarrow> fold_option (\<lambda>r. fold_option (deboor_step u p k ub r) (rev [r..<Suc p])) [1..<Suc p] d;
     Some (d' ! p) })"

definition evaluateDeBoorT :: "NonUniformBspline \<Rightarrow> real \<Rightarrow> real list option" where
  "evaluateDeBoorT s t = Option.bind (at_index (bs_u s) (bs_p s)) (\<lambda>um. evaluateDeBoor s (t + um))"

section \<open>Derivatives\<close>

text \<open>The control points of velocity and acceleration, from points, degree and knots.\<close>

definition vel_point :: "real list list \<Rightarrow> nat \<Rightarrow> real list \<Rightarrow> nat \<Rightarrow> real list option" where
  "vel_point P p u i = do {
     a \<leftarrow> at_index P i;
     b \<leftarrow> at_index P (i + 1);
     hi \<leftarrow> at_index u (i + p + 1);
     lo \<leftarrow> at_index u (i + 1);
     c \<leftarrow> quotient_of_span (real p) (hi - lo);
     Some (map2 (\<lambda>x y. c * (y - x)) a b) }"

definition acc_point :: "real list list \<Rightarrow> nat \<Rightarrow> real list \<Rightarrow> nat \<Rightarrow> real list option" where
  "acc_point P p u i = do {
     v \<leftarrow> vel_point P p u i;
     w \<leftarrow> vel_point P p u (i + 1);
     hi \<leftarrow> at_index u (i + p + 1);
     lo \<leftarrow> at_index u (i + 2);
     c \<leftarrow> quotient_of_span (real p - 1) (hi - lo);
     Some (map2 (\<lambda>x y. c * (y - x)) v w) }"

definition vel_points :: "NonUniformBspline \<Rightarrow> real list list option" where
  "vel_points s = map_some (vel_point (bs_points s) (bs_p s) (bs_u s)) [0..<length (bs_points s) - 1]"

definition acc_points :: "NonUniformBspline \<Rightarrow> real list list option" where
  "acc_points s = map_some (acc_point (bs_points s) (bs_p s) (bs_u s)) [0..<length (bs_points s) - 2]"

definition getDerivativeControlPoints :: "NonUniformBspline \<Rightarrow> real list list option" where
  "getDerivativeControlPoints s = (if bs_points s = [] then None else vel_points s)"

definition getDerivative :: "NonUniformBspline \<Rightarrow> NonUniformBspline option" where
  "getDerivative s = do {
     ctp \<leftarrow> getDerivativeControlPoints s;
     derivative \<leftarrow> (if bs_p s = 0 then None else make_bspline ctp (bs_p s - 1) (bs_knot_span s));
     if length (bs_u s) < 2 then None else setKnot (take (length (bs_u s) - 2) (drop 1 (bs_u s))) derivative }"

fun derivatives_from :: "NonUniformBspline \<Rightarrow> nat \<Rightarrow> NonUniformBspline list option" where
  "derivatives_from s 0 = Some []"
| "derivatives_from s (Suc n) = do { d \<leftarrow> getDerivative s; ds \<leftarrow> derivatives_from d n; Some (d # ds) }"

definition computeDerivatives :: "nat \<Rightarrow> NonUniformBspline \<Rightarrow> NonUniformBspline list option" where
  "computeDerivatives k s = derivatives_from s (max 1 k)"

definition getBoundaryStates :: "nat \<Rightarrow> nat \<Rightarrow> NonUniformBspline \<Rightarrow> (real list list \<times> real list list) option" where
  "getBoundaryStates ks ke s = do {
     ders \<leftarrow> computeDerivatives (max ks ke) s;
     duration \<leftarrow> getTimeSum s;
     start \<leftarrow> map_some (\<lambda>d. evaluateDeBoorT d 0) (take (Suc ks) (s # ders));
     fin \<leftarrow> map_some (\<lambda>d. evaluateDeBoorT d duration) (take (Suc ke) (s # ders));
     Some (start, fin) }"

section \<open>Limits\<close>

definition max_abs :: "real \<Rightarrow> real list \<Rightarrow> real" where
  "max_abs m v = foldl (\<lambda>m x. max m \<bar>x\<bar>) m v"

definition checkRatio :: "NonUniformBspline \<Rightarrow> real option" where
  "checkRatio s = do {
     vels \<leftarrow> vel_points s;
     accs \<leftarrow> acc_points s;
     (limit_vel, limit_acc, _) \<leftarrow> bs_limits s;
     Some (max (foldl max_abs (- 1) vels / limit_vel) (sqrt (\<bar>foldl max_abs (- 1) accs\<bar> / limit_acc))) }"

text \<open>The three coordinates against the limit.\<close>

definition exceeds :: "real \<Rightarrow> real list \<Rightarrow> bool option" where
  "exceeds limit v = (if length v < 3 then None else Some (\<exists>x \<in> set (take 3 v). \<bar>x\<bar> > limit + 1 / 10000))"

definition checkFeasibility :: "NonUniformBspline \<Rightarrow> bool option" where
  "checkFeasibility s = do {
     (limit_vel, limit_acc, _) \<leftarrow> bs_limits s;
     vels \<leftarrow> vel_points s;
     vs \<leftarrow> map_some (exceeds limit_vel) vels;
     accs \<leftarrow> acc_points s;
     as \<leftarrow> map_some (exceeds limit_acc) accs;
     Some (True \<notin> set vs \<and> True \<notin> set as) }"

section \<open>The timing\<close>

definition lengthenTime :: "real \<Rightarrow> NonUniformBspline \<Rightarrow> NonUniformBspline option" where
  "lengthenTime ratio s =
     (let u = bs_u s; num1 = 2 * int (bs_p s) - 1; num2 = int (length u) - 1 - 2 * int (bs_p s) + 1 in
      if num1 \<ge> num2 then Some s
      else if num1 < 0 \<or> num2 \<ge> int (length u) then None
      else
        let delta_t = (ratio - 1) * (u ! nat num2 - u ! nat num1); t_inc = delta_t / real_of_int (num2 - num1)
        in Some (s\<lparr>bs_u := map (\<lambda>(i, x).
             if num1 < int i \<and> int i \<le> num2 then x + real_of_int (int i - num1) * t_inc
             else if num2 < int i then x + delta_t else x) (enumerate 0 u)\<rparr>))"

text \<open>The two passes of \<open>reallocateTime\<close> on the knots; the second argument says whether all was feasible.\<close>

definition capped_ratio :: "real \<Rightarrow> real \<Rightarrow> real" where
  "capped_ratio limit_ratio ratio = (if ratio > limit_ratio then limit_ratio else ratio)"

definition realloc_vel ::
  "real list list \<Rightarrow> nat \<Rightarrow> real \<times> real \<times> real \<Rightarrow> nat \<Rightarrow> real list \<times> bool \<Rightarrow> (real list \<times> bool) option" where
  "realloc_vel P p limits i acc = (case (limits, acc) of ((limit_vel, _, limit_ratio), (u, fea)) \<Rightarrow> do {
     vel \<leftarrow> vel_point P p u i;
     ex \<leftarrow> exceeds limit_vel vel;
     if \<not> ex then Some (u, fea)
     else
       let ratio = capped_ratio limit_ratio (max_abs (- 1) vel / limit_vel + 1 / 10000);
           time_ori = u ! (i + p + 1) - u ! (i + 1); delta_t = ratio * time_ori - time_ori; t_inc = delta_t / real p
       in Some (map (\<lambda>(j, x). if i + 2 \<le> j \<and> j \<le> i + p + 1 then x + real (j - i - 1) * t_inc
            else if i + p + 2 \<le> j then x + delta_t else x) (enumerate 0 u), False) })"

definition realloc_acc ::
  "real list list \<Rightarrow> nat \<Rightarrow> real \<times> real \<times> real \<Rightarrow> nat \<Rightarrow> real list \<times> bool \<Rightarrow> (real list \<times> bool) option" where
  "realloc_acc P p limits i st = (case (limits, st) of ((_, limit_acc, limit_ratio), (u, fea)) \<Rightarrow> do {
     acc \<leftarrow> acc_point P p u i;
     ex \<leftarrow> exceeds limit_acc acc;
     if \<not> ex then Some (u, fea)
     else
       let ratio = capped_ratio limit_ratio (sqrt (max_abs (- 1) acc / limit_acc) + 1 / 10000);
           time_ori = u ! (i + p + 1) - u ! (i + 2); delta_t = ratio * time_ori - time_ori; t_inc = delta_t / (real p - 1)
       in if i = 1 \<or> i = 2 then
            if length u < 6 then None
            else Some (map (\<lambda>(j, x). if 2 \<le> j \<and> j \<le> 5 then x + real (j - 1) * t_inc
              else if 6 \<le> j then x + 4 * t_inc else x) (enumerate 0 u), False)
          else Some (map (\<lambda>(j, x). if i + 3 \<le> j \<and> j \<le> i + p + 1 then x + real (j - i - 2) * t_inc
            else if i + p + 2 \<le> j then x + delta_t else x) (enumerate 0 u), False) })"

definition reallocateTime :: "NonUniformBspline \<Rightarrow> (bool \<times> NonUniformBspline) option" where
  "reallocateTime s = (let P = bs_points s; p = bs_p s in do {
     limits \<leftarrow> bs_limits s;
     a \<leftarrow> fold_option (realloc_vel P p limits) [0..<length P - 1] (bs_u s, True);
     (u, fea) \<leftarrow> fold_option (realloc_acc P p limits) [0..<length P - 2] a;
     Some (fea, s\<lparr>bs_u := u\<rparr>) })"

section \<open>Fitting to points\<close>

text \<open>The coefficients of position, velocity and acceleration at a knot; other degrees leave the matrix zero.\<close>

definition knot_coefficients :: "nat \<Rightarrow> real \<Rightarrow> real list \<times> real list \<times> real list" where
  "knot_coefficients degree ts =
     (if degree = 3 then (map (\<lambda>x. x / 6) [1, 4, 1], map (\<lambda>x. x / (2 * ts)) [- 1, 0, 1], map (\<lambda>x. x / (ts * ts)) [1, - 2, 1])
      else if degree = 4 then
        (map (\<lambda>x. x / 24) [1, 11, 11, 1], map (\<lambda>x. x / (6 * ts)) [- 1, - 3, 3, 1], map (\<lambda>x. x / (2 * ts * ts)) [1, - 1, - 1, 1])
      else if degree = 5 then
        (map (\<lambda>x. x / 120) [1, 26, 66, 26, 1], map (\<lambda>x. x / (24 * ts)) [- 1, - 10, 0, 10, 1], map (\<lambda>x. x / (6 * ts * ts)) [1, 2, - 6, 2, 1])
      else ([], [], []))"

definition band_row :: "nat \<Rightarrow> nat \<Rightarrow> real list \<Rightarrow> real list" where
  "band_row cols start cs = replicate start 0 @ cs @ replicate (cols - start - length cs) 0"

definition fit_matrix :: "nat \<Rightarrow> real \<Rightarrow> nat \<Rightarrow> real list list" where
  "fit_matrix degree ts K = (case knot_coefficients degree ts of (pos, vel, acc) \<Rightarrow>
     let cols = K + degree - 1
     in map (\<lambda>i. band_row cols i pos) [0..<K] @
        [band_row cols 0 vel, band_row cols (K - 1) vel, band_row cols 0 acc, band_row cols (K - 1) acc])"

definition parameterizeToBspline ::
  "(real list list \<Rightarrow> real list \<Rightarrow> real list) \<Rightarrow> real \<Rightarrow> vec3 list \<Rightarrow> vec3 list \<Rightarrow> nat \<Rightarrow> real list list \<Rightarrow> real list list option" where
  "parameterizeToBspline solve ts point_set start_end_derivative degree ctrl_pts =
     (if ts \<le> 0 \<or> length point_set < 2 then Some ctrl_pts
      else if length start_end_derivative < 4 then None
      else
        let A = fit_matrix degree ts (length point_set); b = point_set @ take 4 start_end_derivative;
            xs = solve A (map fst b); ys = solve A (map (fst \<circ> snd) b); zs = solve A (map (snd \<circ> snd) b)
        in Some (map (\<lambda>(x, y, z). [x, y, z]) (zip xs (zip ys zs))))"

section \<open>Measures\<close>

definition vec_norm_list :: "real list \<Rightarrow> real" where
  "vec_norm_list v = sqrt (sum_list (map (\<lambda>x. x * x) v))"

definition getLength :: "real \<Rightarrow> NonUniformBspline \<Rightarrow> real option" where
  "getLength res s = do {
     dur \<leftarrow> getTimeSum s;
     p0 \<leftarrow> evaluateDeBoorT s 0;
     ts \<leftarrow> loop_from res res (\<lambda>t. t \<le> dur + 1 / 10000);
     ps \<leftarrow> map_some (evaluateDeBoorT s) ts;
     Some (sum_list (map2 (\<lambda>p_l p_n. vec_norm_list (map2 (-) p_n p_l)) (p0 # ps) ps)) }"

definition getJerk :: "NonUniformBspline \<Rightarrow> real option" where
  "getJerk s = do {
     d1 \<leftarrow> getDerivative s; d2 \<leftarrow> getDerivative d1; jerk_traj \<leftarrow> getDerivative d2;
     terms \<leftarrow> map_some (\<lambda>i. do {
       a \<leftarrow> at_index (bs_u jerk_traj) i;
       b \<leftarrow> at_index (bs_u jerk_traj) (i + 1);
       Some (sum_list (map (\<lambda>x. (b - a) * x * x) (bs_points jerk_traj ! i))) }) [0..<length (bs_points jerk_traj)];
     Some (sum_list terms) }"

text \<open>The mean and the maximum of the norm over the samples of a spline, one every hundredth of a second.\<close>

definition mean_and_max :: "NonUniformBspline \<Rightarrow> (real \<times> real) option" where
  "mean_and_max s = do {
     (tm, tmp) \<leftarrow> getTimeSpan s;
     ts \<leftarrow> loop_from tm (1 / 100) (\<lambda>t. t \<le> tmp);
     vs \<leftarrow> map_some (evaluateDeBoor s) ts;
     m \<leftarrow> quotient_of_span (sum_list (map vec_norm_list vs)) (real (length ts));
     Some (m, foldl (\<lambda>mx v. if vec_norm_list v > mx then vec_norm_list v else mx) (- 1) vs) }"

definition getMeanAndMaxVel :: "NonUniformBspline \<Rightarrow> (real \<times> real) option" where
  "getMeanAndMaxVel s = Option.bind (getDerivative s) mean_and_max"

definition getMeanAndMaxAcc :: "NonUniformBspline \<Rightarrow> (real \<times> real) option" where
  "getMeanAndMaxAcc s = Option.bind (getDerivative s) (\<lambda>d. Option.bind (getDerivative d) mean_and_max)"

end
