(* ===== verification/Traj_Deboor.thy ===== *)
theory Traj_Deboor imports Traj_Bspline Frontier_Costs
begin

text \<open>
  De Boor's algorithm: the rounds compute a triangle of values, which stay between the least and the greatest of the
  control points, and the triangle of the derivative's control points is the derivative.
\<close>

section \<open>The triangle\<close>

fun tri :: "(nat \<Rightarrow> real) \<Rightarrow> nat \<Rightarrow> (nat \<Rightarrow> real) \<Rightarrow> real \<Rightarrow> nat \<Rightarrow> nat \<Rightarrow> real" where
  "tri t p P x 0 j = P j"
| "tri t p P x (Suc r) j =
     (1 - (x - t j) / (t (j + p - r) - t j)) * tri t p P x r (j - 1) + (x - t j) / (t (j + p - r) - t j) * tri t p P x r j"

definition increasing_upto :: "(nat \<Rightarrow> real) \<Rightarrow> nat \<Rightarrow> bool" where
  "increasing_upto t N \<longleftrightarrow> (\<forall>i j. i < j \<longrightarrow> j \<le> N \<longrightarrow> t i < t j)"

lemma increasing_uptoD: "increasing_upto t N \<Longrightarrow> i < j \<Longrightarrow> j \<le> N \<Longrightarrow> t i < t j"
  by (simp add: increasing_upto_def)

lemma increasing_upto_le: "increasing_upto t N \<Longrightarrow> i \<le> j \<Longrightarrow> j \<le> N \<Longrightarrow> t i \<le> t j"
  by (cases "i = j") (simp_all add: increasing_upto_def less_imp_le)

lemma convex_between:
  assumes "0 \<le> a" "a \<le> (1 :: real)" "lo \<le> x" "x \<le> hi" "lo \<le> y" "y \<le> hi"
  shows "lo \<le> (1 - a) * x + a * y \<and> (1 - a) * x + a * y \<le> hi"
proof
  have "(1 - a) * lo + a * lo \<le> (1 - a) * x + a * y" using assms by (intro add_mono mult_left_mono) simp_all
  then show "lo \<le> (1 - a) * x + a * y" by (simp add: algebra_simps)
  have "(1 - a) * x + a * y \<le> (1 - a) * hi + a * hi" using assms by (intro add_mono mult_left_mono) simp_all
  then show "(1 - a) * x + a * y \<le> hi" by (simp add: algebra_simps)
qed

text \<open>The values of the triangle are convex combinations of the control points of the span.\<close>

lemma tri_between:
  assumes t: "increasing_upto t (k + p)" "t k \<le> x" "x \<le> t (Suc k)" and P: "\<And>j. k - p \<le> j \<Longrightarrow> j \<le> k \<Longrightarrow> lo \<le> P j \<and> P j \<le> hi"
    and pk: "p \<le> k"
  shows "r \<le> p \<Longrightarrow> k - p + r \<le> j \<Longrightarrow> j \<le> k \<Longrightarrow> lo \<le> tri t p P x r j \<and> tri t p P x r j \<le> hi"
proof (induction r arbitrary: j)
  case 0
  then show ?case using P by simp
next
  case (Suc r)
  have j: "k - p + r \<le> j - 1" "j - 1 \<le> k" "k - p + r \<le> j" "1 \<le> j" using Suc.prems by simp_all
  have "Suc k \<le> j + p - r" "j + p - r \<le> k + p" "j < j + p - r" using Suc.prems pk by linarith+
  then have "t j \<le> x" "x \<le> t (j + p - r)" "t j < t (j + p - r)"
    using increasing_upto_le [OF t(1), of j k] increasing_upto_le [OF t(1), of "Suc k" "j + p - r"] increasing_uptoD [OF t(1), of j "j + p - r"]
      t(2,3) Suc.prems by simp_all
  then have a: "0 \<le> (x - t j) / (t (j + p - r) - t j)" "(x - t j) / (t (j + p - r) - t j) \<le> 1" by simp_all
  have "lo \<le> tri t p P x r (j - 1) \<and> tri t p P x r (j - 1) \<le> hi" "lo \<le> tri t p P x r j \<and> tri t p P x r j \<le> hi"
    using Suc.IH j Suc.prems by simp_all
  then show ?case unfolding tri.simps by (elim conjE) (rule convex_between [OF a])
qed

text \<open>Differences of neighbours.\<close>

lemma blend_diff: "((1 - a) * y + a * z) - ((1 - b) * w + b * y) = a * (z - y) + (1 - b) * (y - w)" for a :: real
  by (simp add: algebra_simps)

lemma tri_diff:
  "tri t p P x (Suc r) (Suc j) - tri t p P x (Suc r) j =
     (x - t (Suc j)) / (t (Suc j + p - r) - t (Suc j)) * (tri t p P x r (Suc j) - tri t p P x r j) +
     (1 - (x - t j) / (t (j + p - r) - t j)) * (tri t p P x r j - tri t p P x r (j - 1))"
  unfolding tri.simps diff_Suc_1 by (rule blend_diff)

definition der_points :: "(nat \<Rightarrow> real) \<Rightarrow> nat \<Rightarrow> (nat \<Rightarrow> real) \<Rightarrow> nat \<Rightarrow> real" where
  "der_points t p P j = real p / (t (j + p + 1) - t (j + 1)) * (P (Suc j) - P j)"

lemma der_step:
  assumes "T3 \<noteq> T1" "T3 \<noteq> T0" "T2 \<noteq> (T1 :: real)"
  shows "(1 - (x - T1) / (T3 - T1)) * (p / (T3 - T0) * X0) + (x - T1) / (T3 - T1) * (p / (T2 - T1) * X1) =
    p / (T3 - T1) * ((x - T1) / (T2 - T1) * X1 + (1 - (x - T0) / (T3 - T0)) * X0)"
proof -
  have "1 - (x - T1) / (T3 - T1) = (T3 - x) / (T3 - T1)" "1 - (x - T0) / (T3 - T0) = (T3 - x) / (T3 - T0)"
    using assms by (simp_all add: field_simps)
  then show ?thesis by (simp only: divide_inverse distrib_left ac_simps)
qed

text \<open>The triangle of the derivative's points consists of divided differences.\<close>

lemma tri_der:
  assumes t: "increasing_upto t N"
  shows "r \<le> q \<Longrightarrow> r \<le> j \<Longrightarrow> j + q + 2 \<le> N \<Longrightarrow> tri (\<lambda>i. t (Suc i)) q (der_points t (Suc q) P) x r j =
    real (Suc q) / (t (j + q + 2 - r) - t (Suc j)) * (tri t (Suc q) P x r (Suc j) - tri t (Suc q) P x r j)"
proof (induction r arbitrary: j)
  case 0
  then show ?case by (simp add: der_points_def add.commute)
next
  case (Suc r)
  let ?D = "\<lambda>r j. tri t (Suc q) P x r j"
  have ix: "Suc (j - 1) = j" "Suc (j + q - r) = j + q + 1 - r" "j + q + 2 - Suc r = j + q + 1 - r" "j - 1 + q + 2 - r = j + q + 1 - r"
    "Suc j + Suc q - r = j + q + 2 - r" "j + Suc q - r = j + q + 1 - r"
    using Suc.prems by simp_all
  have ih: "tri (\<lambda>i. t (Suc i)) q (der_points t (Suc q) P) x r j = real (Suc q) / (t (j + q + 2 - r) - t (Suc j)) * (?D r (Suc j) - ?D r j)"
    using Suc.IH [of j] Suc.prems by simp
  have ih0: "tri (\<lambda>i. t (Suc i)) q (der_points t (Suc q) P) x r (j - 1) = real (Suc q) / (t (j + q + 1 - r) - t j) * (?D r j - ?D r (j - 1))"
    using Suc.IH [of "j - 1"] Suc.prems unfolding ix by simp
  have "t (Suc j) < t (j + q + 1 - r)" "t j < t (j + q + 1 - r)" "t (Suc j) < t (j + q + 2 - r)"
    using Suc.prems by (auto intro!: increasing_uptoD [OF t])
  then have ne: "t (j + q + 1 - r) \<noteq> t (Suc j)" "t (j + q + 1 - r) \<noteq> t j" "t (j + q + 2 - r) \<noteq> t (Suc j)" by simp_all
  show ?case unfolding tri_diff unfolding tri.simps(2) ix ih ih0 by (rule der_step [OF ne])
qed

lemma der_step2:
  assumes "T3 \<noteq> T1" "T2 \<noteq> T1" "T3 \<noteq> (T0 :: real)"
    and X: "X = (x - T1) / (T2 - T1) * Y1 + (1 - (x - T0) / (T3 - T0)) * Y0"
  shows "(1 - (x - T1) / (T3 - T1)) * (n / (T3 - T0) * Y0) + (x - T1) / (T3 - T1) * (n / (T2 - T1) * Y1) = n / (T3 - T1) * X"
  unfolding X by (rule der_step [OF assms(1,3,2)])

lemma blend_derivative:
  assumes "(f has_real_derivative f') (at x)" "(g has_real_derivative g') (at x)"
  shows "((\<lambda>y. (1 - (y - a) / d) * f y + (y - a) / d * g y) has_real_derivative
    (1 - (x - a) / d) * f' + (x - a) / d * g' + (g x - f x) / d) (at x)"
proof -
  have "((\<lambda>y. (y - a) / d) has_real_derivative 1 / d) (at x)"
    using DERIV_cdivide [OF DERIV_diff [OF DERIV_ident DERIV_const], of a d x] by simp
  note q = this
  have "((\<lambda>y. (1 - (y - a) / d) * f y + (y - a) / d * g y) has_real_derivative
      ((0 - 1 / d) * f x + f' * (1 - (x - a) / d)) + (1 / d * g x + g' * ((x - a) / d))) (at x)"
    by (intro DERIV_add DERIV_mult DERIV_diff DERIV_const q assms(1,2))
  moreover have "((0 - 1 / d) * f x + f' * (1 - (x - a) / d)) + (1 / d * g x + g' * ((x - a) / d)) =
      (1 - (x - a) / d) * f' + (x - a) / d * g' + (g x - f x) / d" by (simp add: diff_divide_distrib algebra_simps)
  ultimately show ?thesis by (rule DERIV_cong)
qed

lemma one_more: "real n / d * X + X / d = real (Suc n) / d * X"
  by (simp add: add_divide_distrib distrib_right)

text \<open>The derivative of a value of the triangle.\<close>

lemma tri_has_derivative:
  assumes t: "increasing_upto t N"
  shows "Suc r \<le> p \<Longrightarrow> Suc r \<le> j \<Longrightarrow> j + p \<le> N \<Longrightarrow> ((\<lambda>x. tri t p P x (Suc r) j) has_real_derivative
    real (Suc r) / (t (j + p - r) - t j) * (tri t p P x r j - tri t p P x r (j - 1))) (at x)"
proof (induction r arbitrary: j)
  case 0
  have "((\<lambda>y. (1 - (y - t j) / (t (j + p) - t j)) * P (j - 1) + (y - t j) / (t (j + p) - t j) * P j) has_real_derivative
      (1 - (x - t j) / (t (j + p) - t j)) * 0 + (x - t j) / (t (j + p) - t j) * 0 + (P j - P (j - 1)) / (t (j + p) - t j)) (at x)"
    by (rule blend_derivative [OF DERIV_const DERIV_const])
  then show ?case by simp
next
  case (Suc r)
  let ?T3 = "t (j + p - Suc r)"
  have ix: "j - 1 + p - r = j + p - Suc r" using Suc.prems by simp
  have lt: "t j < ?T3" "t (j - 1) < ?T3" "t j < t (j + p - r)" using Suc.prems by (auto intro!: increasing_uptoD [OF t])
  have d1: "((\<lambda>x. tri t p P x (Suc r) j) has_real_derivative
      real (Suc r) / (t (j + p - r) - t j) * (tri t p P x r j - tri t p P x r (j - 1))) (at x)"
    using Suc.IH [of j] Suc.prems by simp
  have d0: "((\<lambda>x. tri t p P x (Suc r) (j - 1)) has_real_derivative
      real (Suc r) / (?T3 - t (j - 1)) * (tri t p P x r (j - 1) - tri t p P x r (j - 1 - 1))) (at x)"
    using Suc.IH [of "j - 1"] Suc.prems unfolding ix by simp
  have X: "tri t p P x (Suc r) j - tri t p P x (Suc r) (j - 1) =
      (x - t j) / (t (j + p - r) - t j) * (tri t p P x r j - tri t p P x r (j - 1)) +
      (1 - (x - t (j - 1)) / (?T3 - t (j - 1))) * (tri t p P x r (j - 1) - tri t p P x r (j - 1 - 1))"
    using tri_diff [of t p P x r "j - 1"] Suc.prems unfolding ix by simp
  have ne: "?T3 \<noteq> t j" "t (j + p - r) \<noteq> t j" "?T3 \<noteq> t (j - 1)" "?T3 - t j \<noteq> 0" using lt by simp_all
  note step = der_step2 [OF ne(1-3) X, of "real (Suc r)"]
  have "((\<lambda>x. tri t p P x (Suc (Suc r)) j) has_real_derivative
      real (Suc r) / (?T3 - t j) * (tri t p P x (Suc r) j - tri t p P x (Suc r) (j - 1)) +
      (tri t p P x (Suc r) j - tri t p P x (Suc r) (j - 1)) / (?T3 - t j)) (at x)"
    using blend_derivative [OF d0 d1, of "t j" "?T3 - t j"] unfolding step unfolding tri.simps(2) [of t p P _ "Suc r"] .
  moreover have "real (Suc r) / (?T3 - t j) * (tri t p P x (Suc r) j - tri t p P x (Suc r) (j - 1)) +
      (tri t p P x (Suc r) j - tri t p P x (Suc r) (j - 1)) / (?T3 - t j) =
      real (Suc (Suc r)) / (?T3 - t j) * (tri t p P x (Suc r) j - tri t p P x (Suc r) (j - 1))"
    by (rule one_more)
  ultimately show ?case by (rule DERIV_cong)
qed

text \<open>The last value: its derivative is the last value of the triangle of the derivative's points.\<close>

lemma tri_derivative:
  assumes t: "increasing_upto t (k + p)" and p: "1 \<le> p" "p \<le> k"
  shows "((\<lambda>x. tri t p P x p k) has_real_derivative tri (\<lambda>i. t (Suc i)) (p - 1) (der_points t p P) x (p - 1) (k - 1)) (at x)"
proof -
  obtain q where q: "p = Suc q" using p(1) by (cases p) auto
  obtain h where h: "k = Suc h" using p by (cases k) auto
  have der: "tri (\<lambda>i. t (Suc i)) q (der_points t (Suc q) P) x q h = real (Suc q) / (t (Suc (Suc h)) - t (Suc h)) *
      (tri t (Suc q) P x q (Suc h) - tri t (Suc q) P x q h)"
    using tri_der [OF t, of q q h P x] p unfolding q h by simp
  show ?thesis using tri_has_derivative [OF t, of q p k P x] p der unfolding q h by simp
qed

end
