(* ===== verification/Traj_Eval.thy ===== *)
theory Traj_Eval imports Traj_Deboor
begin

text \<open>
  The evaluation of a spline is the last value of the triangle of its span, coordinate by coordinate. So it stays
  between bounds of the control points, and \<open>getDerivative\<close> gives the derivative.
\<close>

section \<open>Splines\<close>

definition spline_ok :: "nat \<Rightarrow> NonUniformBspline \<Rightarrow> bool" where
  "spline_ok cols s \<longleftrightarrow> bs_p s < length (bs_points s) \<and> bs_m s = length (bs_points s) + bs_p s \<and>
     length (bs_u s) = length (bs_points s) + bs_p s + 1 \<and> increasing_upto ((!) (bs_u s)) (length (bs_points s) + bs_p s) \<and>
     (\<forall>v \<in> set (bs_points s). length v = cols)"

definition coordinate :: "NonUniformBspline \<Rightarrow> nat \<Rightarrow> nat \<Rightarrow> real" where
  "coordinate s c j = bs_points s ! j ! c"

text \<open>The time within the spline, and a span that has it.\<close>

definition clamped :: "NonUniformBspline \<Rightarrow> real \<Rightarrow> real" where
  "clamped s t = min (max (bs_u s ! bs_p s) t) (bs_u s ! length (bs_points s))"

definition in_span :: "NonUniformBspline \<Rightarrow> real \<Rightarrow> nat \<Rightarrow> bool" where
  "in_span s x k \<longleftrightarrow> bs_p s \<le> k \<and> k < length (bs_points s) \<and> bs_u s ! k \<le> x \<and> x \<le> bs_u s ! Suc k \<and> (k = bs_p s \<or> bs_u s ! k < x)"

lemma find_span_eq:
  "k0 \<le> k \<Longrightarrow> Suc k < length u \<Longrightarrow> \<forall>j. k0 \<le> j \<longrightarrow> j < k \<longrightarrow> u ! Suc j < ub \<Longrightarrow> ub \<le> u ! Suc k \<Longrightarrow> find_span u ub k0 = Some k"
proof (induction "k - k0" arbitrary: k0)
  case 0
  then show ?case by simp
next
  case (Suc n)
  then have "find_span u ub (Suc k0) = Some k" using Suc.hyps(1) [of "Suc k0"] by simp
  moreover have "u ! Suc k0 < ub" "Suc k0 < length u" using Suc.hyps(2) Suc.prems by simp_all
  ultimately show ?case by simp
qed

declare find_span.simps [simp del]

lemma span_exists:
  assumes ok: "spline_ok cols s" and x: "bs_u s ! bs_p s \<le> x" "x \<le> bs_u s ! length (bs_points s)"
  shows "\<exists>k. in_span s x k"
proof -
  let ?P = "\<lambda>k. bs_p s \<le> k \<and> x \<le> bs_u s ! Suc k"
  have pr: "bs_p s < length (bs_points s)" using ok by (simp add: spline_ok_def)
  then have "Suc (length (bs_points s) - 1) = length (bs_points s)" "bs_p s \<le> length (bs_points s) - 1" by simp_all
  then have w: "?P (length (bs_points s) - 1)" using x(2) by (simp only: simp_thms)
  define k where "k = (LEAST k. ?P k)"
  have k: "?P k" "k \<le> length (bs_points s) - 1" unfolding k_def by (rule LeastI [of ?P, OF w], rule Least_le [of ?P, OF w])
  have "k = bs_p s \<or> bs_u s ! k < x"
  proof (rule disjCI)
    assume "\<not> bs_u s ! k < x"
    then have "x \<le> bs_u s ! Suc (k - 1)" if "k \<noteq> bs_p s" using k(1) that by simp
    moreover have "\<not> ?P (k - 1)" if "k \<noteq> bs_p s" using not_less_Least [of "k - 1" ?P] k(1) that unfolding k_def [symmetric] by simp
    ultimately show "k = bs_p s" using k(1) by (metis Suc_pred' diff_Suc_1 le_neq_implies_less less_Suc_eq_le not_less_eq_eq zero_less_diff gr_implies_not_zero neq0_conv le_0_eq)
  qed
  then show ?thesis using k x(1) pr unfolding in_span_def by (intro exI [of _ k]) auto
qed

lemma find_span_in:
  assumes ok: "spline_ok cols s" and x: "in_span s x k"
  shows "find_span (bs_u s) x (bs_p s) = Some k"
proof (rule find_span_eq)
  show "bs_p s \<le> k" "Suc k < length (bs_u s)" "x \<le> bs_u s ! Suc k" using assms by (auto simp: in_span_def spline_ok_def)
  have inc: "increasing_upto ((!) (bs_u s)) (length (bs_points s) + bs_p s)" using ok by (simp add: spline_ok_def)
  show "\<forall>j. bs_p s \<le> j \<longrightarrow> j < k \<longrightarrow> bs_u s ! Suc j < x"
  proof (intro allI impI)
    fix j
    assume j: "bs_p s \<le> j" "j < k"
    then have "bs_u s ! Suc j \<le> bs_u s ! k" using x by (intro increasing_upto_le [OF inc]) (auto simp: in_span_def)
    then show "bs_u s ! Suc j < x" using x j by (auto simp: in_span_def)
  qed
qed

section \<open>The rounds\<close>

lemma map2_map: "map2 f (map g xs) (map h xs) = map (\<lambda>x. f (g x) (h x)) xs"
  by (induction xs) simp_all

lemma fold_option_append: "fold_option f (xs @ ys) s = Option.bind (fold_option f xs s) (fold_option f ys)"
proof (induction xs arbitrary: s)
  case (Cons a xs)
  then show ?case by (cases "f a s") simp_all
qed simp

definition tri_row :: "nat \<Rightarrow> NonUniformBspline \<Rightarrow> real \<Rightarrow> nat \<Rightarrow> nat \<Rightarrow> real list" where
  "tri_row cols s x r j = map (\<lambda>c. tri ((!) (bs_u s)) (bs_p s) (coordinate s c) x r j) [0..<cols]"

text \<open>After some rounds, and in the midst of one: the entries from \<open>i\<close> on are already of the next round.\<close>

definition rounds :: "nat \<Rightarrow> NonUniformBspline \<Rightarrow> real \<Rightarrow> nat \<Rightarrow> nat \<Rightarrow> nat \<Rightarrow> real list list" where
  "rounds cols s x k r i = map (\<lambda>j. if i \<le> j then tri_row cols s x (Suc r) (k - bs_p s + j) else tri_row cols s x (min j r) (k - bs_p s + j)) [0..<Suc (bs_p s)]"

lemma rounds_nth:
  "j \<le> bs_p s \<Longrightarrow> rounds cols s x k r i ! j =
    (if i \<le> j then tri_row cols s x (Suc r) (k - bs_p s + j) else tri_row cols s x (min j r) (k - bs_p s + j))"
  using nth_map_upt [of j "Suc (bs_p s)" 0] unfolding rounds_def by (simp del: upt_Suc)

lemma deboor_step_ok:
  assumes ok: "spline_ok cols s" and k: "bs_p s \<le> k" "k < length (bs_points s)" and i: "Suc r \<le> i" "i \<le> bs_p s"
  shows "deboor_step (bs_u s) (bs_p s) k x (Suc r) i (rounds cols s x k r (Suc i)) = Some (rounds cols s x k r i)"
proof -
  let ?p = "bs_p s" and ?u = "bs_u s"
  let ?j = "k - ?p + i"
  have ix: "i + k - ?p = ?j" "i + 1 + k - Suc r = ?j + ?p - r" "i < Suc ?p" "i - 1 < Suc ?p" "k - ?p + (i - 1) = ?j - 1" using k i by simp_all
  have bnd: "?j + ?p - r \<le> length (bs_points s) + ?p" "?j < ?j + ?p - r" using k i by simp_all
  then have len: "?j < length ?u" "?j + ?p - r < length ?u" using ok by (simp_all add: spline_ok_def)
  have "?u ! ?j < ?u ! (?j + ?p - r)" using ok bnd by (intro increasing_uptoD [of "(!) ?u"]) (simp_all add: spline_ok_def)
  then have ne: "?u ! (?j + ?p - r) - ?u ! ?j \<noteq> 0" by simp
  have prev: "rounds cols s x k r (Suc i) ! (i - 1) = tri_row cols s x r (?j - 1)"
  proof -
    have "\<not> Suc i \<le> i - 1" "min (i - 1) r = r" "i - 1 \<le> ?p" using i by simp_all
    then show ?thesis using rounds_nth [of "i - 1" s cols x k r "Suc i"] by (simp only: if_False ix(5))
  qed
  have cur: "rounds cols s x k r (Suc i) ! i = tri_row cols s x r ?j"
    using i by (simp add: rounds_nth min_absorb2)
  have new: "map2 (\<lambda>a b. (1 - (x - ?u ! ?j) / (?u ! (?j + ?p - r) - ?u ! ?j)) * a + (x - ?u ! ?j) / (?u ! (?j + ?p - r) - ?u ! ?j) * b)
      (tri_row cols s x r (?j - 1)) (tri_row cols s x r ?j) = tri_row cols s x (Suc r) ?j"
    unfolding tri_row_def map2_map by simp
  have upd: "(rounds cols s x k r (Suc i))[i := tri_row cols s x (Suc r) ?j] = rounds cols s x k r i"
    by (rule nth_equalityI) (auto simp: rounds_def nth_list_update simp del: upt_Suc)
  have at1: "at_index ?u ?j = Some (?u ! ?j)" "at_index ?u (?j + ?p - r) = Some (?u ! (?j + ?p - r))" using len by (simp_all add: at_index_def)
  have q: "quotient_of_span (x - ?u ! ?j) (?u ! (?j + ?p - r) - ?u ! ?j) = Some ((x - ?u ! ?j) / (?u ! (?j + ?p - r) - ?u ! ?j))"
    using ne by (simp add: quotient_of_span_def)
  have "deboor_step ?u ?p k x (Suc r) i (rounds cols s x k r (Suc i)) =
      Some ((rounds cols s x k r (Suc i))[i := tri_row cols s x (Suc r) ?j])"
    unfolding deboor_step_def ix(1,2) by (simp only: at1 q bind.bind_lunit prev cur new)
  then show ?thesis unfolding upd .
qed

lemma deboor_round:
  assumes ok: "spline_ok cols s" and k: "bs_p s \<le> k" "k < length (bs_points s)" and r: "Suc r \<le> bs_p s"
  shows "fold_option (deboor_step (bs_u s) (bs_p s) k x (Suc r)) (rev [Suc r..<Suc (bs_p s)]) (rounds cols s x k r (Suc (bs_p s))) =
    Some (rounds cols s x k r (Suc r))"
proof -
  have "fold_option (deboor_step (bs_u s) (bs_p s) k x (Suc r)) (rev [i..<Suc (bs_p s)]) (rounds cols s x k r (Suc (bs_p s))) =
      Some (rounds cols s x k r i)" if "Suc r \<le> i" "i \<le> Suc (bs_p s)" for i
    using that(2,1)
  proof (induction rule: inc_induct)
    case base
    then show ?case by simp
  next
    case (step i)
    then have "rev [i..<Suc (bs_p s)] = rev [Suc i..<Suc (bs_p s)] @ [i]" by (simp add: upt_conv_Cons del: upt_Suc)
    moreover have "deboor_step (bs_u s) (bs_p s) k x (Suc r) i (rounds cols s x k r (Suc i)) = Some (rounds cols s x k r i)"
      using step by (intro deboor_step_ok [OF ok k]) simp_all
    ultimately show ?case using step by (simp add: fold_option_append del: upt_Suc)
  qed
  then show ?thesis using r by (simp del: upt_Suc)
qed

lemma next_round: "rounds cols s x k r (Suc r) = rounds cols s x k (Suc r) (Suc (bs_p s))"
  unfolding rounds_def by (rule map_cong) (auto simp: min_def le_Suc_eq simp del: upt_Suc intro: le_antisym)

lemma deboor_rounds:
  assumes ok: "spline_ok cols s" and k: "bs_p s \<le> k" "k < length (bs_points s)"
  shows "r \<le> bs_p s \<Longrightarrow> fold_option (\<lambda>r. fold_option (deboor_step (bs_u s) (bs_p s) k x r) (rev [r..<Suc (bs_p s)])) [1..<Suc r]
    (rounds cols s x k 0 (Suc (bs_p s))) = Some (rounds cols s x k r (Suc (bs_p s)))"
proof (induction r)
  case 0
  then show ?case by simp
next
  case (Suc r)
  have "[1..<Suc (Suc r)] = [1..<Suc r] @ [Suc r]" by simp
  then show ?case using Suc deboor_round [OF ok k, of r x]
    by (simp add: fold_option_append next_round del: upt_Suc)
qed

lemma evaluateDeBoor_in:
  assumes ok: "spline_ok cols s" and x: "in_span s (clamped s t) k"
  shows "evaluateDeBoor s t = Some (tri_row cols s (clamped s t) (bs_p s) k)"
proof -
  let ?p = "bs_p s" and ?u = "bs_u s"
  have k: "?p \<le> k" "k < length (bs_points s)" using x by (auto simp: in_span_def)
  have span: "getTimeSpan s = Some (?u ! ?p, ?u ! length (bs_points s))" using ok by (simp add: getTimeSpan_def at_index_def spline_ok_def)
  have "\<forall>i \<in> set [0..<Suc ?p]. at_index (bs_points s) (k - ?p + i) = Some (bs_points s ! (k - ?p + i))"
    using k by (auto simp: at_index_def simp del: upt_Suc)
  from map_some_eq [OF this]
  have start: "map_some (\<lambda>i. at_index (bs_points s) (k - ?p + i)) [0..<Suc ?p] = Some (map (\<lambda>i. bs_points s ! (k - ?p + i)) [0..<Suc ?p])" .
  have "bs_points s ! (k - ?p + i) = tri_row cols s (clamped s t) 0 (k - ?p + i)" if "i \<le> ?p" for i
  proof -
    have "bs_points s ! (k - ?p + i) \<in> set (bs_points s)" using that k by (intro nth_mem) simp
    then have "length (bs_points s ! (k - ?p + i)) = cols" using ok by (simp add: spline_ok_def)
    then show ?thesis by (intro nth_equalityI) (simp_all add: tri_row_def coordinate_def)
  qed
  then have first: "map (\<lambda>i. bs_points s ! (k - ?p + i)) [0..<Suc ?p] = rounds cols s (clamped s t) k 0 (Suc ?p)"
    unfolding rounds_def by (intro map_cong) (auto simp del: upt_Suc)
  have res: "rounds cols s (clamped s t) k ?p (Suc ?p) ! ?p = tri_row cols s (clamped s t) ?p k"
    using k by (simp add: rounds_nth)
  show ?thesis unfolding evaluateDeBoor_def Let_def span
    using find_span_in [OF ok x] deboor_rounds [OF ok k order_refl, of "clamped s t"]
    by (simp add: clamped_def [symmetric] start first res del: upt_Suc)
qed

lemma clamped_bounds:
  assumes "spline_ok cols s"
  shows "bs_u s ! bs_p s \<le> clamped s t" "clamped s t \<le> bs_u s ! length (bs_points s)"
proof -
  have "bs_u s ! bs_p s < bs_u s ! length (bs_points s)" using assms by (intro increasing_uptoD [of "(!) (bs_u s)"]) (auto simp: spline_ok_def)
  then show "bs_u s ! bs_p s \<le> clamped s t" "clamped s t \<le> bs_u s ! length (bs_points s)" by (simp_all add: clamped_def)
qed

lemma evaluateDeBoor_some:
  assumes ok: "spline_ok cols s"
  shows "\<exists>k. in_span s (clamped s t) k \<and> evaluateDeBoor s t = Some (tri_row cols s (clamped s t) (bs_p s) k)"
  using span_exists [OF ok clamped_bounds [OF ok]] evaluateDeBoor_in [OF ok] by blast

text \<open>Bounds of a coordinate of the control points are bounds of the spline.\<close>

lemma evaluate_between:
  assumes ok: "spline_ok cols s" and c: "c < cols" and P: "\<And>j. j < length (bs_points s) \<Longrightarrow> lo \<le> coordinate s c j \<and> coordinate s c j \<le> hi"
  shows "\<exists>v. evaluateDeBoor s t = Some v \<and> length v = cols \<and> lo \<le> v ! c \<and> v ! c \<le> hi"
proof -
  obtain k where k: "in_span s (clamped s t) k" "evaluateDeBoor s t = Some (tri_row cols s (clamped s t) (bs_p s) k)"
    using evaluateDeBoor_some [OF ok] by blast
  have "increasing_upto ((!) (bs_u s)) (k + bs_p s)" using ok k(1) by (auto simp: increasing_upto_def spline_ok_def in_span_def)
  then have "lo \<le> tri ((!) (bs_u s)) (bs_p s) (coordinate s c) (clamped s t) (bs_p s) k \<and>
      tri ((!) (bs_u s)) (bs_p s) (coordinate s c) (clamped s t) (bs_p s) k \<le> hi"
  proof (rule tri_between)
    show "bs_u s ! k \<le> clamped s t" "clamped s t \<le> bs_u s ! Suc k" "bs_p s \<le> k" "k - bs_p s + bs_p s \<le> k" using k(1) by (simp_all add: in_span_def)
    show "lo \<le> coordinate s c j \<and> coordinate s c j \<le> hi" if "j \<le> k" for j using k(1) that by (intro P) (simp add: in_span_def)
  qed simp_all
  then show ?thesis using k(2) c by (simp add: tri_row_def)
qed

section \<open>The derivative\<close>

lemma uniform_knots_eq: "uniform_knots p m h = map (\<lambda>i. (real i - real p) * h) [0..<Suc m]"
proof -
  have "foldl (\<lambda>u i. u @ [if i \<le> p then (- real p + real i) * h else u ! (i - 1) + h]) [] [0..<n] = map (\<lambda>i. (real i - real p) * h) [0..<n]" for n
  proof (induction n)
    case (Suc n)
    have "(if n \<le> p then (- real p + real n) * h else map (\<lambda>i. (real i - real p) * h) [0..<n] ! (n - 1) + h) = (real n - real p) * h"
    proof (cases n)
      case (Suc k)
      have "map (\<lambda>i. (real i - real p) * h) [0..<n] ! (n - 1) = (real k - real p) * h"
        using nth_map_upt [of "n - 1" n 0] Suc by simp
      then show ?thesis by (simp add: Suc algebra_simps del: upt_Suc)
    qed simp
    then show ?case using Suc by simp
  qed simp
  then show ?thesis unfolding uniform_knots_def .
qed

lemma getTimeSum_some:
  "bs_p s \<le> length (bs_points s) \<Longrightarrow> bs_m s = length (bs_points s) + bs_p s \<Longrightarrow> length (bs_points s) < length (bs_u s) \<Longrightarrow>
    getTimeSum s = Some (bs_u s ! length (bs_points s) - bs_u s ! bs_p s)"
  by (simp add: getTimeSum_def getTimeSpan_def at_index_def)

lemma make_bspline_some:
  assumes "p \<le> length P"
  shows "\<exists>s. make_bspline P p h = Some s \<and> bs_points s = P \<and> bs_p s = p \<and> bs_m s = length P + p \<and> bs_knot_span s = h \<and> bs_limits s = None \<and>
    bs_u s = map (\<lambda>i. (real i - real p) * h) [0..<Suc (length P + p)] \<and> bs_duration s = bs_u s ! length P - bs_u s ! p"
  using assms
  by (simp add: make_bspline_def setUniformBspline_def Let_def setKnot_def uniform_knots_eq getTimeSum_def getTimeSpan_def at_index_def
      del: upt_Suc)

lemma make_bspline_ok:
  assumes "p < length P" "0 < h" "\<forall>v \<in> set P. length v = cols"
  shows "\<exists>s. make_bspline P p h = Some s \<and> spline_ok cols s \<and> bs_points s = P \<and> bs_p s = p \<and> bs_duration s = real (length P - p) * h"
proof -
  obtain s where s: "make_bspline P p h = Some s" "bs_points s = P" "bs_p s = p" "bs_m s = length P + p"
    "bs_u s = map (\<lambda>i. (real i - real p) * h) [0..<Suc (length P + p)]" "bs_duration s = bs_u s ! length P - bs_u s ! p"
    using make_bspline_some [of p P h] assms(1) by auto
  have u: "bs_u s ! i = (real i - real p) * h" if "i \<le> length P + p" for i
    using that nth_map_upt [of i "Suc (length P + p)" 0] unfolding s(5) by (simp del: upt_Suc)
  have "increasing_upto ((!) (bs_u s)) (length P + p)" using assms(2) by (simp add: increasing_upto_def u)
  moreover have "bs_duration s = real (length P - p) * h" using assms(1) by (simp add: s(6) u of_nat_diff algebra_simps)
  ultimately show ?thesis using assms s by (auto simp: spline_ok_def)
qed

text \<open>The control points of the derivative.\<close>

lemma vel_point_some:
  assumes ok: "spline_ok cols s" and p: "1 \<le> bs_p s" and i: "Suc i < length (bs_points s)"
  shows "vel_point (bs_points s) (bs_p s) (bs_u s) i =
    Some (map (\<lambda>c. der_points ((!) (bs_u s)) (bs_p s) (coordinate s c) i) [0..<cols])"
proof -
  let ?u = "bs_u s" and ?p = "bs_p s"
  have ix: "i + ?p + 1 < length ?u" "i + 1 < length ?u" using ok i by (simp_all add: spline_ok_def)
  have "length (bs_points s ! i) = cols" "length (bs_points s ! Suc i) = cols" using ok i by (simp_all add: spline_ok_def)
  then have row: "map2 (\<lambda>x y. c * (y - x)) (bs_points s ! i) (bs_points s ! Suc i) =
      map (\<lambda>k. c * (coordinate s k (Suc i) - coordinate s k i)) [0..<cols]" for c
    by (intro nth_equalityI) (simp_all add: coordinate_def)
  have "?u ! (i + 1) < ?u ! (i + ?p + 1)" using ok i p by (intro increasing_uptoD [of "(!) ?u"]) (auto simp: spline_ok_def)
  then have q: "quotient_of_span (real ?p) (?u ! (i + ?p + 1) - ?u ! (i + 1)) = Some (real ?p / (?u ! (i + ?p + 1) - ?u ! (i + 1)))"
    by (simp add: quotient_of_span_def)
  have ids: "at_index ?u (i + ?p + 1) = Some (?u ! (i + ?p + 1))" "at_index ?u (i + 1) = Some (?u ! (i + 1))"
    "at_index (bs_points s) i = Some (bs_points s ! i)" "at_index (bs_points s) (i + 1) = Some (bs_points s ! Suc i)"
    using ix i by (simp_all add: at_index_def)
  show ?thesis unfolding vel_point_def ids der_points_def by (simp only: q bind.bind_lunit row)
qed

lemma getDerivative_some:
  assumes ok: "spline_ok cols s" and p: "1 \<le> bs_p s"
  shows "\<exists>d. getDerivative s = Some d \<and> spline_ok cols d \<and> bs_p d = bs_p s - 1 \<and> length (bs_points d) = length (bs_points s) - 1 \<and>
    (\<forall>i < length (bs_points s) - 1. vel_point (bs_points s) (bs_p s) (bs_u s) i = Some (bs_points d ! i)) \<and>
    (\<forall>i. Suc i < length (bs_u s) - 1 \<longrightarrow> bs_u d ! i = bs_u s ! Suc i) \<and>
    (\<forall>c < cols. \<forall>i < length (bs_points s) - 1. coordinate d c i = der_points ((!) (bs_u s)) (bs_p s) (coordinate s c) i) \<and>
    bs_duration d = bs_u s ! length (bs_points s) - bs_u s ! bs_p s"
proof -
  let ?P = "bs_points s" and ?p = "bs_p s" and ?u = "bs_u s"
  let ?row = "\<lambda>i. map (\<lambda>c. der_points ((!) ?u) ?p (coordinate s c) i) [0..<cols]"
  define Q where "Q = map ?row [0..<length ?P - 1]"
  define t where "t = take (length ?u - 2) (drop 1 ?u)"
  have len: "?p < length ?P" "length ?u = length ?P + ?p + 1" "bs_m s = length ?P + ?p" using ok by (simp_all add: spline_ok_def)
  have "\<forall>i \<in> set [0..<length ?P - 1]. vel_point ?P ?p ?u i = Some (?row i)" using vel_point_some [OF ok p] by simp
  from map_some_eq [OF this] have pts: "getDerivativeControlPoints s = Some Q"
    using len(1) unfolding getDerivativeControlPoints_def vel_points_def Q_def by (cases ?P) simp_all
  have Ql: "length Q = length ?P - 1" and Qi: "\<And>i. i < length ?P - 1 \<Longrightarrow> Q ! i = ?row i" by (simp_all add: Q_def)
  have Qr: "\<forall>v \<in> set Q. length v = cols" by (simp add: Q_def)
  have tn: "t ! i = ?u ! Suc i" if "Suc i < length ?u - 1" for i using that by (simp add: t_def)
  have tl: "length t = length Q + (?p - 1) + 1" using len p by (simp add: t_def Ql)
  have "?p - 1 \<le> length Q" using len Ql by simp
  from make_bspline_some [OF this, of "bs_knot_span s"] obtain d0 where
    d0: "make_bspline Q (?p - 1) (bs_knot_span s) = Some d0" "bs_points d0 = Q" "bs_p d0 = ?p - 1" "bs_m d0 = length Q + (?p - 1)" by blast
  define d where "d = d0\<lparr>bs_u := t, bs_duration := t ! length Q - t ! (?p - 1)\<rparr>"
  have df: "bs_points d = Q" "bs_p d = ?p - 1" "bs_m d = length Q + (?p - 1)" "bs_u d = t" "bs_duration d = t ! length Q - t ! (?p - 1)"
    using d0 by (simp_all add: d_def)
  have "getTimeSum (d0\<lparr>bs_u := t\<rparr>) = Some (t ! length Q - t ! (?p - 1))"
    using getTimeSum_some [of "d0\<lparr>bs_u := t\<rparr>"] d0 tl len Ql by simp
  then have "setKnot t d0 = Some d" by (simp add: setKnot_def Let_def d_def)
  then have der: "getDerivative s = Some d"
    using p len unfolding getDerivative_def pts t_def [symmetric] by (simp add: d0(1) [simplified])
  have "increasing_upto ((!) t) (length Q + (?p - 1))"
    unfolding increasing_upto_def
  proof (intro allI impI)
    fix i j :: nat
    assume "i < j" "j \<le> length Q + (?p - 1)"
    then show "t ! i < t ! j" using ok len p Ql tn [of i] tn [of j] by (auto simp: spline_ok_def intro: increasing_uptoD)
  qed
  then have okd: "spline_ok cols d" using df tl len p Ql Qr by (auto simp: spline_ok_def)
  have "Suc (length Q) = length ?P" "Suc (?p - 1) = ?p" "Suc (length Q) < length ?u - 1" "Suc (?p - 1) < length ?u - 1" using len p Ql by linarith+
  then have dur: "bs_duration d = ?u ! length ?P - ?u ! ?p" using tn [of "length Q"] tn [of "?p - 1"] unfolding df by simp
  have co: "coordinate d c i = der_points ((!) ?u) ?p (coordinate s c) i" if "c < cols" "i < length ?P - 1" for c i
    using that df Qi by (simp add: coordinate_def)
  have vp: "vel_point ?P ?p ?u i = Some (bs_points d ! i)" if "i < length ?P - 1" for i
    using that df Qi vel_point_some [OF ok p, of i] by simp
  show ?thesis
    using der okd df(2) dur by (intro exI [of _ d] conjI) (simp_all add: df(1,4) Ql co vp [unfolded df] tn)
qed

end
