(* ===== verification/Traj_Limits.thy ===== *)
theory Traj_Limits imports Traj_Eval
begin

text \<open>
  The derivative of a spline as a function of time, the limits that \<open>checkFeasibility\<close> guarantees, and the changes
  of the knots.
\<close>

section \<open>The derivative as a function of time\<close>

lemma tri_cong:
  assumes "\<forall>i \<le> N. t i = t' i" "\<forall>i \<le> k. P i = P' i" "k + p \<le> N"
  shows "j \<le> k \<Longrightarrow> tri t p P x r j = tri t' p P' x r j"
proof (induction r arbitrary: j)
  case 0
  then show ?case using assms by simp
next
  case (Suc r)
  then have "t j = t' j" "t (j + p - r) = t' (j + p - r)" "tri t p P x r (j - 1) = tri t' p P' x r (j - 1)" "tri t p P x r j = tri t' p P' x r j"
    using assms by simp_all
  then show ?case by simp
qed

lemma in_span_mono:
  assumes ok: "spline_ok cols s" and k: "bs_p s \<le> k" "k < length (bs_points s)" and x: "bs_u s ! k < x" "x < bs_u s ! Suc k"
  shows "clamped s x = x" "in_span s x k"
proof -
  have inc: "increasing_upto ((!) (bs_u s)) (length (bs_points s) + bs_p s)" using ok by (simp add: spline_ok_def)
  have "bs_u s ! bs_p s \<le> bs_u s ! k" "bs_u s ! Suc k \<le> bs_u s ! length (bs_points s)"
    using k by (auto intro!: increasing_upto_le [OF inc])
  then show "clamped s x = x" using x by (simp add: clamped_def)
  show "in_span s x k" using k x by (simp add: in_span_def)
qed

text \<open>Inside of a span the derivative spline evaluates to the derivative of the spline.\<close>

lemma derivative_in_span:
  assumes ok: "spline_ok cols s" and p: "1 \<le> bs_p s" and d: "getDerivative s = Some d" and c: "c < cols"
    and k: "bs_p s \<le> k" "k < length (bs_points s)" and x: "bs_u s ! k < x" "x < bs_u s ! Suc k"
  shows "((\<lambda>y. the (evaluateDeBoor s y) ! c) has_real_derivative the (evaluateDeBoor d x) ! c) (at x)"
proof -
  let ?u = "bs_u s" and ?p = "bs_p s"
  have der: "spline_ok cols d" "bs_p d = ?p - 1" "length (bs_points d) = length (bs_points s) - 1"
    "\<forall>i. Suc i < length ?u - 1 \<longrightarrow> bs_u d ! i = ?u ! Suc i"
    "\<forall>i < length (bs_points s) - 1. coordinate d c i = der_points ((!) ?u) ?p (coordinate s c) i"
    using getDerivative_some [OF ok p] d c by auto
  have len: "length ?u = length (bs_points s) + ?p + 1" "?p < length (bs_points s)" using ok by (simp_all add: spline_ok_def)
  have ev: "the (evaluateDeBoor s y) ! c = tri ((!) ?u) ?p (coordinate s c) y ?p k" if "?u ! k < y" "y < ?u ! Suc k" for y
    using evaluateDeBoor_in [OF ok, of y k] in_span_mono [OF ok k that] c by (simp add: tri_row_def)
  have ud: "bs_u d ! (k - 1) = ?u ! k" "bs_u d ! Suc (k - 1) = ?u ! Suc k" using der(4) k p len by auto
  have kd: "bs_p d \<le> k - 1" "k - 1 < length (bs_points d)" using der(2,3) k p by simp_all
  note dspan = in_span_mono [OF der(1) kd, unfolded ud, OF x]
  have "tri ((!) (bs_u d)) (?p - 1) (coordinate d c) x (?p - 1) (k - 1) =
      tri (\<lambda>i. ?u ! Suc i) (?p - 1) (der_points ((!) ?u) ?p (coordinate s c)) x (?p - 1) (k - 1)"
  proof (rule tri_cong)
    show "\<forall>i \<le> k - 1 + (?p - 1). bs_u d ! i = ?u ! Suc i" using der(4) k p len by auto
    show "\<forall>i \<le> k - 1. coordinate d c i = der_points ((!) ?u) ?p (coordinate s c) i" using der(5) k p by auto
  qed simp_all
  then have evd: "the (evaluateDeBoor d x) ! c = tri (\<lambda>i. ?u ! Suc i) (?p - 1) (der_points ((!) ?u) ?p (coordinate s c)) x (?p - 1) (k - 1)"
    using evaluateDeBoor_in [OF der(1), of x "k - 1"] dspan c by (simp add: tri_row_def der(2))
  have "increasing_upto ((!) ?u) (k + ?p)" using ok k by (auto simp: spline_ok_def increasing_upto_def)
  from tri_derivative [OF this p k(1), of "coordinate s c" x]
  have D: "((\<lambda>y. tri ((!) ?u) ?p (coordinate s c) y ?p k) has_real_derivative the (evaluateDeBoor d x) ! c) (at x)" unfolding evd .
  have E: "eventually (\<lambda>y. the (evaluateDeBoor s y) ! c = tri ((!) ?u) ?p (coordinate s c) y ?p k) (nhds x)"
    using eventually_nhds_in_open [of "{?u ! k <..< ?u ! Suc k}" x] x ev by (auto elim: eventually_mono)
  show ?thesis by (rule iffD2 [OF DERIV_cong_ev [OF refl E refl] D])
qed

section \<open>The limits\<close>

lemma map_some_SomeD: "map_some f xs = Some ys \<Longrightarrow> length ys = length xs \<and> (\<forall>i < length xs. f (xs ! i) = Some (ys ! i))"
proof (induction xs arbitrary: ys)
  case (Cons x xs)
  then obtain y zs where "f x = Some y" "map_some f xs = Some zs" "ys = y # zs"
    by (auto simp: map_some_def split: option.splits bind_splits)
  then show ?case using Cons.IH by (auto simp: nth_Cons split: nat.split)
qed (simp add: map_some_def)

lemma exceeds_False: "exceeds limit v = Some False \<Longrightarrow> c < 3 \<Longrightarrow> \<bar>v ! c\<bar> \<le> limit + 1 / 10000"
proof -
  assume e: "exceeds limit v = Some False" "c < 3"
  then have "3 \<le> length v" "\<forall>x \<in> set (take 3 v). \<not> \<bar>x\<bar> > limit + 1 / 10000" by (auto simp: exceeds_def split: if_splits)
  moreover from this have "v ! c \<in> set (take 3 v)" using e(2) by (auto simp: in_set_conv_nth intro!: exI [of _ c])
  ultimately show ?thesis by fastforce
qed

lemma checkFeasibility_points:
  assumes "checkFeasibility s = Some True" "bs_limits s = Some (lv, la, lr)"
  shows "\<And>i v c. Suc i < length (bs_points s) \<Longrightarrow> vel_point (bs_points s) (bs_p s) (bs_u s) i = Some v \<Longrightarrow> c < 3 \<Longrightarrow> \<bar>v ! c\<bar> \<le> lv + 1 / 10000"
    and "\<And>i v c. Suc (Suc i) < length (bs_points s) \<Longrightarrow> acc_point (bs_points s) (bs_p s) (bs_u s) i = Some v \<Longrightarrow> c < 3 \<Longrightarrow> \<bar>v ! c\<bar> \<le> la + 1 / 10000"
proof -
  obtain vels vs accs as where v: "vel_points s = Some vels" "map_some (exceeds lv) vels = Some vs" "True \<notin> set vs"
    and a: "acc_points s = Some accs" "map_some (exceeds la) accs = Some as" "True \<notin> set as"
    using assms by (auto simp: checkFeasibility_def split: bind_splits)
  have small: "\<bar>w ! c\<bar> \<le> l + 1 / 10000"
    if "map_some f [0..<n] = Some ws" "map_some (exceeds l) ws = Some bs" "True \<notin> set bs" "f i = Some w" "i < n" "c < 3"
    for f n ws l bs i w c
  proof -
    have w: "length ws = n" "ws ! i = w" using map_some_SomeD [OF that(1)] that(4,5) by auto
    have b: "length bs = n" "exceeds l w = Some (bs ! i)" using map_some_SomeD [OF that(2)] w that(5) by auto
    then have "bs ! i \<in> set bs" using that(5) by simp
    then have "\<not> bs ! i" using that(3) by auto
    then show ?thesis using exceeds_False [of l w c] b(2) that(6) by simp
  qed
  show "\<bar>w ! c\<bar> \<le> lv + 1 / 10000" if "Suc i < length (bs_points s)" "vel_point (bs_points s) (bs_p s) (bs_u s) i = Some w" "c < 3" for i w c
    using small [OF v(1) [unfolded vel_points_def] v(2,3) that(2) _ that(3)] that(1) by simp
  show "\<bar>w ! c\<bar> \<le> la + 1 / 10000" if "Suc (Suc i) < length (bs_points s)" "acc_point (bs_points s) (bs_p s) (bs_u s) i = Some w" "c < 3" for i w c
    using small [OF a(1) [unfolded acc_points_def] a(2,3) that(2) _ that(3)] that(1) by simp
qed

text \<open>The points of the second derivative are those that are checked.\<close>

lemma acc_point_der:
  assumes ok: "spline_ok cols s" and p: "2 \<le> bs_p s" and d: "getDerivative s = Some d" and i: "Suc (Suc i) < length (bs_points s)"
  shows "acc_point (bs_points s) (bs_p s) (bs_u s) i = vel_point (bs_points d) (bs_p d) (bs_u d) i"
proof -
  let ?u = "bs_u s" and ?p = "bs_p s"
  have p1: "1 \<le> ?p" using p by simp
  have der: "spline_ok cols d" "bs_p d = ?p - 1" "length (bs_points d) = length (bs_points s) - 1"
    "\<forall>i < length (bs_points s) - 1. vel_point (bs_points s) ?p ?u i = Some (bs_points d ! i)"
    "\<forall>i. Suc i < length ?u - 1 \<longrightarrow> bs_u d ! i = ?u ! Suc i"
    using getDerivative_some [OF ok p1] d by auto
  have len: "length ?u = length (bs_points s) + ?p + 1" "length (bs_u d) = length (bs_points s) + ?p - 1" "?p < length (bs_points s)"
    using ok der(1-3) p by (simp_all add: spline_ok_def)
  have ud: "at_index (bs_u d) (i + bs_p d + 1) = at_index ?u (i + ?p + 1)" "at_index (bs_u d) (i + 1) = at_index ?u (i + 2)"
    using der(2,5) len i p by (auto simp: at_index_def)
  have ps: "at_index (bs_points d) i = vel_point (bs_points s) ?p ?u i" "at_index (bs_points d) (i + 1) = vel_point (bs_points s) ?p ?u (i + 1)"
    using der(3,4) i by (simp_all add: at_index_def)
  have "real (bs_p d) = real ?p - 1" using der(2) p1 by (simp add: of_nat_diff)
  then show ?thesis unfolding vel_point_def [of "bs_points d"] acc_point_def ud ps by simp
qed

lemma evaluate_bounded:
  assumes ok: "spline_ok cols d" and c: "c < cols" and P: "\<And>j. j < length (bs_points d) \<Longrightarrow> \<bar>coordinate d c j\<bar> \<le> b"
  shows "\<exists>v. evaluateDeBoor d t = Some v \<and> length v = cols \<and> \<bar>v ! c\<bar> \<le> b"
proof -
  have "- b \<le> coordinate d c j \<and> coordinate d c j \<le> b" if "j < length (bs_points d)" for j using P [OF that] by linarith
  from evaluate_between [OF ok c this, of t] obtain v where "evaluateDeBoor d t = Some v" "length v = cols" "- b \<le> v ! c" "v ! c \<le> b" by blast
  then show ?thesis by (simp add: abs_le_iff)
qed

lemma feasible_bounds:
  assumes ok: "spline_ok 3 s" and p: "2 \<le> bs_p s" and fea: "checkFeasibility s = Some True" and lim: "bs_limits s = Some (lv, la, lr)"
    and d: "getDerivative s = Some d" "getDerivative d = Some dd"
  shows "\<exists>v a. evaluateDeBoor d t = Some v \<and> evaluateDeBoor dd t = Some a \<and>
    (\<forall>c < 3. \<bar>v ! c\<bar> \<le> lv + 1 / 10000 \<and> \<bar>a ! c\<bar> \<le> la + 1 / 10000)"
proof -
  have p1: "1 \<le> bs_p s" using p by simp
  have der: "spline_ok 3 d" "bs_p d = bs_p s - 1" "length (bs_points d) = length (bs_points s) - 1"
    "\<forall>i < length (bs_points s) - 1. vel_point (bs_points s) (bs_p s) (bs_u s) i = Some (bs_points d ! i)"
    using getDerivative_some [OF ok p1] d by auto
  have pd: "1 \<le> bs_p d" using der(2) p by simp
  have dder: "spline_ok 3 dd" "length (bs_points dd) = length (bs_points d) - 1"
    "\<forall>i < length (bs_points d) - 1. vel_point (bs_points d) (bs_p d) (bs_u d) i = Some (bs_points dd ! i)"
    using getDerivative_some [OF der(1) pd] d by auto
  have vb: "\<bar>coordinate d c j\<bar> \<le> lv + 1 / 10000" if "c < 3" "j < length (bs_points d)" for c j
    using checkFeasibility_points(1) [OF fea lim, of j] der(3,4) that by (simp add: coordinate_def)
  have ab: "\<bar>coordinate dd c j\<bar> \<le> la + 1 / 10000" if "c < 3" "j < length (bs_points dd)" for c j
  proof -
    have j: "Suc (Suc j) < length (bs_points s)" using that der(3) dder(2) by simp
    then have "acc_point (bs_points s) (bs_p s) (bs_u s) j = Some (bs_points dd ! j)"
      using acc_point_der [OF ok p d(1) j] dder(2,3) that by simp
    then show ?thesis using checkFeasibility_points(2) [OF fea lim j] that(1) by (simp add: coordinate_def)
  qed
  obtain v where v: "evaluateDeBoor d t = Some v" using evaluateDeBoor_some [OF der(1), of t] by blast
  obtain a where a: "evaluateDeBoor dd t = Some a" using evaluateDeBoor_some [OF dder(1), of t] by blast
  have "\<bar>v ! c\<bar> \<le> lv + 1 / 10000 \<and> \<bar>a ! c\<bar> \<le> la + 1 / 10000" if "c < 3" for c
    using evaluate_bounded [OF der(1) that vb [OF that], of t] evaluate_bounded [OF dder(1) that ab [OF that], of t] v a by simp
  then show ?thesis using v a by blast
qed

end
