(* ===== verification/Traj_Timing.thy ===== *)
theory Traj_Timing imports Traj_Limits
begin

text \<open>
  The changes of the knots: \<open>lengthenTime\<close> and \<open>reallocateTime\<close> only move knots to later times, keep their
  order, and the latter leaves a feasible spline as it is.
\<close>

section \<open>Shifted knots\<close>

lemma increasing_add:
  assumes "increasing_upto t N" "\<And>i j. i < j \<Longrightarrow> j \<le> N \<Longrightarrow> f i \<le> f j"
  shows "increasing_upto (\<lambda>i. t i + f i) N"
  using assms by (auto simp: increasing_upto_def intro: add_less_le_mono)

text \<open>Knots that are later, in the same order.\<close>

definition later_knots :: "real list \<Rightarrow> real list \<Rightarrow> bool" where
  "later_knots u u' \<longleftrightarrow> length u' = length u \<and> (\<forall>i < length u. u ! i \<le> u' ! i)"

lemma later_knots_refl: "later_knots u u"
  by (simp add: later_knots_def)

lemma later_knots_trans: "later_knots u v \<Longrightarrow> later_knots v w \<Longrightarrow> later_knots u w"
  unfolding later_knots_def by (metis order_trans)

lemma shifted_spline:
  assumes ok: "spline_ok cols (s\<lparr>bs_u := u\<rparr>)" and mono: "\<And>i j. i < j \<Longrightarrow> f i \<le> (f j :: real)" and zero: "0 \<le> f 0"
  shows "spline_ok cols (s\<lparr>bs_u := map (\<lambda>(i, x). x + f i) (enumerate 0 u)\<rparr>) \<and> later_knots u (map (\<lambda>(i, x). x + f i) (enumerate 0 u))"
proof
  let ?u = "map (\<lambda>(i, x). x + f i) (enumerate 0 u)" and ?N = "length (bs_points s) + bs_p s"
  have n: "?u ! i = u ! i + f i" if "i < length u" for i using that by (simp add: nth_enumerate_eq)
  have len: "length u = ?N + 1" using ok by (simp add: spline_ok_def)
  have "increasing_upto (\<lambda>i. u ! i + f i) ?N" using ok mono by (intro increasing_add) (simp_all add: spline_ok_def)
  then have "increasing_upto ((!) ?u) ?N" using len n by (simp add: increasing_upto_def)
  then show "spline_ok cols (s\<lparr>bs_u := ?u\<rparr>)" using ok by (simp add: spline_ok_def)
  have "0 \<le> f i" for i using mono [of 0 i] zero by (cases "i = 0") auto
  then show "later_knots u ?u" using n by (simp add: later_knots_def)
qed

text \<open>A shift that grows by equal steps between two knots.\<close>

definition ramp :: "nat \<Rightarrow> nat \<Rightarrow> real \<Rightarrow> nat \<Rightarrow> real" where
  "ramp a n inc j = real (min (j - a) n) * inc"

lemma ramp_mono: "0 \<le> inc \<Longrightarrow> i < j \<Longrightarrow> ramp a n inc i \<le> ramp a n inc j"
  unfolding ramp_def by (intro mult_right_mono) auto

lemma ramp_zero: "0 \<le> inc \<Longrightarrow> 0 \<le> ramp a n inc 0"
  by (simp add: ramp_def)

lemma shifted_by_ramp:
  assumes ok: "spline_ok cols (s\<lparr>bs_u := u\<rparr>)" and inc: "0 \<le> inc" and g: "\<And>i x. g (i, x) = x + ramp a n inc i"
  shows "spline_ok cols (s\<lparr>bs_u := map g (enumerate 0 u)\<rparr>) \<and> later_knots u (map g (enumerate 0 u))"
proof -
  have "g = (\<lambda>(i, x). x + ramp a n inc i)" using g by auto
  then show ?thesis using shifted_spline [OF ok, of "ramp a n inc"] ramp_mono [OF inc] ramp_zero [OF inc] by simp
qed

lemma lengthenTime_ok:
  assumes ok: "spline_ok cols s" and p: "1 \<le> bs_p s" and ratio: "1 \<le> ratio"
  shows "\<exists>s'. lengthenTime ratio s = Some s' \<and> spline_ok cols s' \<and> later_knots (bs_u s) (bs_u s') \<and> bs_points s' = bs_points s \<and>
    (\<forall>i < 2 * bs_p s. i < length (bs_u s) \<longrightarrow> bs_u s' ! i = bs_u s ! i)"
proof -
  let ?u = "bs_u s"
  define a where "a = 2 * bs_p s - 1"
  define b where "b = length ?u - 2 * bs_p s"
  have i1: "2 * int (bs_p s) - 1 = int a" using p by (simp add: a_def)
  show ?thesis
  proof (cases "2 * int (bs_p s) - 1 \<ge> int (length ?u) - 1 - 2 * int (bs_p s) + 1")
    case True
    then show ?thesis using ok later_knots_refl by (simp add: lengthenTime_def Let_def)
  next
    case False
    then have lt: "2 * bs_p s \<le> length ?u" "a < b" "int (length ?u) - 1 - 2 * int (bs_p s) + 1 = int b" using p by (auto simp: a_def b_def)
    have bl: "b < length ?u" using p lt by (simp add: b_def)
    then have "?u ! a < ?u ! b" using ok lt bl by (intro increasing_uptoD [of "(!) ?u" "length (bs_points s) + bs_p s"]) (auto simp: spline_ok_def)
    then have inc: "0 \<le> (ratio - 1) * (?u ! b - ?u ! a) / real (b - a)" using ratio by simp
    let ?inc = "(ratio - 1) * (?u ! b - ?u ! a) / real (b - a)"
    let ?g = "\<lambda>(i, x). if int a < int i \<and> int i \<le> int b then x + real_of_int (int i - int a) * ?inc
             else if int b < int i then x + (ratio - 1) * (?u ! b - ?u ! a) else x"
    have diff: "real_of_int (int b - int a) = real (b - a)" using lt(2) by (simp add: of_nat_diff)
    have run: "lengthenTime ratio s = Some (s\<lparr>bs_u := map ?g (enumerate 0 ?u)\<rparr>)"
      unfolding lengthenTime_def Let_def i1 lt(3) diff nat_int using lt(2) bl by simp
    have g: "?g (i, x) = x + ramp a (b - a) ?inc i" for i x
    proof -
      consider "i \<le> a" | "a < i" "i \<le> b" | "b < i" by linarith
      then show ?thesis
      proof cases
        case 1
        then show ?thesis using lt(2) by (simp add: ramp_def)
      next
        case 2
        then have "min (i - a) (b - a) = i - a" "real_of_int (int i - int a) = real (i - a)" by auto
        then show ?thesis using 2 by (simp add: ramp_def)
      next
        case 3
        then have "min (i - a) (b - a) = b - a" by auto
        then show ?thesis using 3 lt(2) by (simp add: ramp_def)
      qed
    qed
    have "s\<lparr>bs_u := ?u\<rparr> = s" by simp
    then have "spline_ok cols (s\<lparr>bs_u := ?u\<rparr>)" using ok by simp
    note sh = shifted_by_ramp [OF this inc g]
    have keep: "(map ?g (enumerate 0 ?u)) ! i = ?u ! i" if "i < 2 * bs_p s" "i < length ?u" for i
    proof -
      have "(map ?g (enumerate 0 ?u)) ! i = ?u ! i + ramp a (b - a) ?inc i" using that(2) g by (simp only: nth_map length_enumerate nth_enumerate_eq add_0)
      then show ?thesis using that(1) by (simp add: ramp_def a_def)
    qed
    define w where "w = map ?g (enumerate 0 ?u)"
    have "lengthenTime ratio s = Some (s\<lparr>bs_u := w\<rparr>)" "spline_ok cols (s\<lparr>bs_u := w\<rparr>)" "later_knots ?u w"
      "\<And>i. i < 2 * bs_p s \<Longrightarrow> i < length ?u \<Longrightarrow> w ! i = ?u ! i"
      unfolding w_def using run sh keep by blast+
    then show ?thesis by (intro exI [of _ "s\<lparr>bs_u := w\<rparr>"]) simp
  qed
qed

section \<open>Reallocation\<close>

lemma max_abs_start: "m \<le> max_abs m v"
proof (induction v arbitrary: m)
  case (Cons x v)
  have "m \<le> max m \<bar>x\<bar>" by simp
  also have "\<dots> \<le> max_abs (max m \<bar>x\<bar>) v" by (rule Cons.IH)
  finally show ?case by (simp add: max_abs_def)
qed (simp add: max_abs_def)

lemma max_abs_ge: "x \<in> set v \<Longrightarrow> \<bar>x\<bar> \<le> max_abs m v"
proof (induction v arbitrary: m)
  case (Cons y v)
  show ?case
  proof (cases "x = y")
    case True
    have "\<bar>x\<bar> \<le> max m \<bar>y\<bar>" using True by simp
    also have "\<dots> \<le> max_abs (max m \<bar>y\<bar>) v" by (rule max_abs_start)
    finally show ?thesis by (simp add: max_abs_def)
  next
    case False
    then show ?thesis using Cons by (simp add: max_abs_def)
  qed
qed simp

lemma exceeds_max: "exceeds limit v = Some True \<Longrightarrow> limit < max_abs (- 1) v"
proof -
  assume "exceeds limit v = Some True"
  then obtain x where x: "x \<in> set (take 3 v)" "\<bar>x\<bar> > limit + 1 / 10000" by (auto simp: exceeds_def split: if_splits)
  have "\<bar>x\<bar> \<le> max_abs (- 1) v" using in_set_takeD [OF x(1)] by (rule max_abs_ge)
  then show ?thesis using x(2) by simp
qed

lemma capped_ratio_ge: "1 \<le> lr \<Longrightarrow> 1 \<le> r \<Longrightarrow> 1 \<le> capped_ratio lr r"
  by (simp add: capped_ratio_def)

text \<open>A step either leaves all as it is or moves knots and reports that the limit is exceeded.\<close>

definition realloc_step ::
  "(nat \<Rightarrow> real list \<times> bool \<Rightarrow> (real list \<times> bool) option) \<Rightarrow> (nat \<Rightarrow> real list \<Rightarrow> bool) \<Rightarrow> NonUniformBspline \<Rightarrow> nat \<Rightarrow> bool" where
  "realloc_step g bad s i \<longleftrightarrow> (\<forall>u fea. spline_ok 3 (s\<lparr>bs_u := u\<rparr>) \<longrightarrow>
     (if bad i u then \<exists>u'. g i (u, fea) = Some (u', False) \<and> spline_ok 3 (s\<lparr>bs_u := u'\<rparr>) \<and> later_knots u u'
      else g i (u, fea) = Some (u, fea)))"

lemma realloc_stepD:
  assumes "realloc_step g bad s i" "spline_ok 3 (s\<lparr>bs_u := u\<rparr>)"
  shows "bad i u \<Longrightarrow> \<exists>u'. g i (u, fea) = Some (u', False) \<and> spline_ok 3 (s\<lparr>bs_u := u'\<rparr>) \<and> later_knots u u'"
    "\<not> bad i u \<Longrightarrow> g i (u, fea) = Some (u, fea)"
  using assms unfolding realloc_step_def by metis+

lemma realloc_fold:
  assumes "\<forall>i \<in> set is. realloc_step g bad s i"
  shows "spline_ok 3 (s\<lparr>bs_u := u\<rparr>) \<Longrightarrow> \<exists>u' fea'. fold_option g is (u, fea) = Some (u', fea') \<and> spline_ok 3 (s\<lparr>bs_u := u'\<rparr>) \<and>
    later_knots u u' \<and> (fea' \<longleftrightarrow> fea \<and> (\<forall>i \<in> set is. \<not> bad i u)) \<and> (fea' \<longrightarrow> u' = u)"
  using assms
proof (induction "is" arbitrary: u fea)
  case Nil
  then show ?case by (simp add: later_knots_refl)
next
  case (Cons i "is")
  have rest: "\<forall>i \<in> set is. realloc_step g bad s i" and step: "realloc_step g bad s i" using Cons.prems(2) by simp_all
  show ?case
  proof (cases "bad i u")
    case True
    then obtain u1 where u1: "g i (u, fea) = Some (u1, False)" "spline_ok 3 (s\<lparr>bs_u := u1\<rparr>)" "later_knots u u1"
      using realloc_stepD(1) [OF step Cons.prems(1)] by blast
    obtain u' fea' where "fold_option g is (u1, False) = Some (u', fea')" "spline_ok 3 (s\<lparr>bs_u := u'\<rparr>)" "later_knots u1 u'" "\<not> fea'"
      using Cons.IH [OF u1(2) rest, of False] by auto
    then show ?thesis using u1 True later_knots_trans by (intro exI [of _ u'] exI [of _ fea']) auto
  next
    case False
    then have "g i (u, fea) = Some (u, fea)" by (rule realloc_stepD(2) [OF step Cons.prems(1)])
    then show ?thesis using Cons.IH [OF Cons.prems(1) rest, of fea] False by simp
  qed
qed

lemma realloc_fold_upt:
  assumes "\<forall>i < n. realloc_step g bad s i" "spline_ok 3 (s\<lparr>bs_u := u\<rparr>)"
  shows "\<exists>u' fea'. fold_option g [0..<n] (u, fea) = Some (u', fea') \<and> spline_ok 3 (s\<lparr>bs_u := u'\<rparr>) \<and>
    later_knots u u' \<and> (fea' \<longleftrightarrow> fea \<and> (\<forall>i < n. \<not> bad i u)) \<and> (fea' \<longrightarrow> u' = u)"
proof -
  have "(\<forall>i \<in> set [0..<n]. \<not> bad i u) \<longleftrightarrow> (\<forall>i < n. \<not> bad i u)" by auto
  moreover have "\<forall>i \<in> set [0..<n]. realloc_step g bad s i" using assms(1) by simp
  ultimately show ?thesis using realloc_fold [of "[0..<n]" g bad s u fea] assms(2) by simp
qed

definition bad_vel :: "NonUniformBspline \<Rightarrow> real \<Rightarrow> nat \<Rightarrow> real list \<Rightarrow> bool" where
  "bad_vel s lv i u \<longleftrightarrow> (\<exists>v. vel_point (bs_points s) (bs_p s) u i = Some v \<and> exceeds lv v = Some True)"

definition bad_acc :: "NonUniformBspline \<Rightarrow> real \<Rightarrow> nat \<Rightarrow> real list \<Rightarrow> bool" where
  "bad_acc s la i u \<longleftrightarrow> (\<exists>v. acc_point (bs_points s) (bs_p s) u i = Some v \<and> exceeds la v = Some True)"

lemma exceeds_some: "length v = 3 \<Longrightarrow> \<exists>b. exceeds l v = Some b"
  by (simp add: exceeds_def)

lemma vel_point_length:
  assumes "spline_ok 3 (s\<lparr>bs_u := u\<rparr>)" "1 \<le> bs_p s" "Suc i < length (bs_points s)"
  shows "\<exists>v. vel_point (bs_points s) (bs_p s) u i = Some v \<and> length v = 3"
  using vel_point_some [OF assms(1), of i] assms(2,3) by simp

lemma acc_point_length:
  assumes ok: "spline_ok 3 (s\<lparr>bs_u := u\<rparr>)" and p: "2 \<le> bs_p s" and i: "Suc (Suc i) < length (bs_points s)"
  shows "\<exists>v. acc_point (bs_points s) (bs_p s) u i = Some v \<and> length v = 3"
proof -
  let ?s = "s\<lparr>bs_u := u\<rparr>"
  have p1: "1 \<le> bs_p ?s" using p by simp
  obtain d where d: "getDerivative ?s = Some d" "spline_ok 3 d" "bs_p d = bs_p s - 1" "length (bs_points d) = length (bs_points s) - 1"
    using getDerivative_some [OF ok p1] by auto
  then show ?thesis using acc_point_der [OF ok _ d(1), of i] vel_point_some [OF d(2), of i] p i by simp
qed

lemma realloc_vel_step:
  assumes p: "1 \<le> bs_p s" and lim: "0 < lv" "1 \<le> lr" and i: "Suc i < length (bs_points s)"
  shows "realloc_step (realloc_vel (bs_points s) (bs_p s) (lv, la, lr)) (bad_vel s lv) s i"
  unfolding realloc_step_def
proof (intro allI impI)
  fix u fea
  assume ok: "spline_ok 3 (s\<lparr>bs_u := u\<rparr>)"
  let ?p = "bs_p s"
  obtain v where v: "vel_point (bs_points s) ?p u i = Some v" "length v = 3" using vel_point_length [OF ok p i] by blast
  obtain b where b: "exceeds lv v = Some b" using exceeds_some [OF v(2)] by blast
  show "if bad_vel s lv i u then \<exists>u'. realloc_vel (bs_points s) ?p (lv, la, lr) i (u, fea) = Some (u', False) \<and>
      spline_ok 3 (s\<lparr>bs_u := u'\<rparr>) \<and> later_knots u u' else realloc_vel (bs_points s) ?p (lv, la, lr) i (u, fea) = Some (u, fea)"
  proof (cases b)
    case True
    define ratio where "ratio = capped_ratio lr (max_abs (- 1) v / lv + 1 / 10000)"
    define delta where "delta = ratio * (u ! (i + ?p + 1) - u ! (i + 1)) - (u ! (i + ?p + 1) - u ! (i + 1))"
    have "1 < max_abs (- 1) v / lv" using exceeds_max b True lim(1) by (simp add: less_divide_eq)
    then have r: "1 \<le> ratio" unfolding ratio_def by (intro capped_ratio_ge lim(2)) simp
    have "u ! (i + 1) < u ! (i + ?p + 1)" using ok i p by (intro increasing_uptoD [of "(!) u"]) (auto simp: spline_ok_def)
    then have d: "0 \<le> delta" using mult_right_mono [OF r, of "u ! (i + ?p + 1) - u ! (i + 1)"] by (simp add: delta_def)
    let ?g = "\<lambda>(j, x). if i + 2 \<le> j \<and> j \<le> i + ?p + 1 then x + real (j - i - 1) * (delta / real ?p)
            else if i + ?p + 2 \<le> j then x + delta else x"
    have run: "realloc_vel (bs_points s) ?p (lv, la, lr) i (u, fea) = Some (map ?g (enumerate 0 u), False)"
      unfolding realloc_vel_def Let_def prod.case v(1) b bind.bind_lunit ratio_def [symmetric] delta_def [symmetric] using True by simp
    have "?g (j, x) = x + ramp (i + 1) ?p (delta / real ?p) j" for j x
      using p by (auto simp: ramp_def min_def)
    then have "spline_ok 3 (s\<lparr>bs_u := map ?g (enumerate 0 u)\<rparr>) \<and> later_knots u (map ?g (enumerate 0 u))"
      using d by (intro shifted_by_ramp [OF ok]) simp_all
    then show ?thesis using run v b True by (auto simp: bad_vel_def)
  next
    case False
    then show ?thesis using v b by (simp add: realloc_vel_def bad_vel_def)
  qed
qed

lemma realloc_acc_step:
  assumes p: "2 \<le> bs_p s" and lim: "0 < la" "1 \<le> lr" and i: "Suc (Suc i) < length (bs_points s)"
  shows "realloc_step (realloc_acc (bs_points s) (bs_p s) (lv, la, lr)) (bad_acc s la) s i"
  unfolding realloc_step_def
proof (intro allI impI)
  fix u fea
  assume ok: "spline_ok 3 (s\<lparr>bs_u := u\<rparr>)"
  let ?p = "bs_p s"
  obtain v where v: "acc_point (bs_points s) ?p u i = Some v" "length v = 3" using acc_point_length [OF ok p i] by blast
  obtain b where b: "exceeds la v = Some b" using exceeds_some [OF v(2)] by blast
  show "if bad_acc s la i u then \<exists>u'. realloc_acc (bs_points s) ?p (lv, la, lr) i (u, fea) = Some (u', False) \<and>
      spline_ok 3 (s\<lparr>bs_u := u'\<rparr>) \<and> later_knots u u' else realloc_acc (bs_points s) ?p (lv, la, lr) i (u, fea) = Some (u, fea)"
  proof (cases b)
    case True
    define ratio where "ratio = capped_ratio lr (sqrt (max_abs (- 1) v / la) + 1 / 10000)"
    define delta where "delta = ratio * (u ! (i + ?p + 1) - u ! (i + 2)) - (u ! (i + ?p + 1) - u ! (i + 2))"
    define inc where "inc = delta / (real ?p - 1)"
    have "1 < max_abs (- 1) v / la" using exceeds_max b True lim(1) by (simp add: less_divide_eq)
    then have "1 \<le> sqrt (max_abs (- 1) v / la)" by simp
    then have "1 \<le> sqrt (max_abs (- 1) v / la) + 1 / 10000" by linarith
    then have r: "1 \<le> ratio" unfolding ratio_def by (rule capped_ratio_ge [OF lim(2)])
    have "u ! (i + 2) < u ! (i + ?p + 1)" using ok i p by (intro increasing_uptoD [of "(!) u"]) (auto simp: spline_ok_def)
    then have "0 \<le> delta" using mult_right_mono [OF r, of "u ! (i + ?p + 1) - u ! (i + 2)"] by (simp add: delta_def)
    then have d: "0 \<le> inc" using p by (simp add: inc_def)
    have len: "\<not> length u < 6" using ok p by (simp add: spline_ok_def)
    have shift: ?thesis if "realloc_acc (bs_points s) ?p (lv, la, lr) i (u, fea) = Some (map g (enumerate 0 u), False)"
      "\<And>j x. g (j, x) = x + ramp a n inc j" for g a n
    proof -
      have "spline_ok 3 (s\<lparr>bs_u := map g (enumerate 0 u)\<rparr>) \<and> later_knots u (map g (enumerate 0 u))"
        using shifted_by_ramp [OF ok d] that(2) by blast
      then show ?thesis using that(1) v b True by (auto simp: bad_acc_def)
    qed
    show ?thesis
    proof (cases "i = 1 \<or> i = 2")
      case first: True
      show ?thesis
      proof (rule shift)
        show "realloc_acc (bs_points s) ?p (lv, la, lr) i (u, fea) = Some (map (\<lambda>(j, x). if 2 \<le> j \<and> j \<le> 5 then x + real (j - 1) * inc
              else if 6 \<le> j then x + 4 * inc else x) (enumerate 0 u), False)"
          unfolding realloc_acc_def Let_def prod.case v(1) b bind.bind_lunit ratio_def [symmetric] delta_def [symmetric] inc_def [symmetric]
            if_P [OF first] if_not_P [OF len] using True by simp
        show "(\<lambda>(j, x). if 2 \<le> j \<and> j \<le> 5 then x + real (j - 1) * inc else if 6 \<le> j then x + 4 * inc else x) (j, x) = x + ramp 1 4 inc j" for j x
        proof -
          consider "j \<le> 1" | "2 \<le> j" "j \<le> 5" | "6 \<le> j" by linarith
          then show ?thesis
          proof cases
            case 2
            then have "min (j - 1) 4 = j - 1" by simp
            then show ?thesis using 2 by (simp add: ramp_def)
          next
            case 3
            then have "min (j - 1) 4 = 4" by simp
            then show ?thesis using 3 by (simp add: ramp_def)
          qed (simp add: ramp_def)
        qed
      qed
    next
      case later: False
      show ?thesis
      proof (rule shift)
        show "realloc_acc (bs_points s) ?p (lv, la, lr) i (u, fea) = Some (map (\<lambda>(j, x). if i + 3 \<le> j \<and> j \<le> i + ?p + 1 then x + real (j - i - 2) * inc
            else if i + ?p + 2 \<le> j then x + delta else x) (enumerate 0 u), False)"
          unfolding realloc_acc_def Let_def prod.case v(1) b bind.bind_lunit ratio_def [symmetric] delta_def [symmetric] inc_def [symmetric]
            if_not_P [OF later] using True by simp
        have "delta = real (?p - 1) * inc" using p by (simp add: inc_def of_nat_diff)
        then show "(\<lambda>(j, x). if i + 3 \<le> j \<and> j \<le> i + ?p + 1 then x + real (j - i - 2) * inc else if i + ?p + 2 \<le> j then x + delta else x) (j, x) =
            x + ramp (i + 2) (?p - 1) inc j" for j x
        proof -
          assume delta: "delta = real (?p - 1) * inc"
          consider "j \<le> i + 2" | "i + 3 \<le> j" "j \<le> i + ?p + 1" | "i + ?p + 2 \<le> j" by linarith
          then show ?thesis
          proof cases
            case 1
            then show ?thesis using p by (simp add: ramp_def)
          next
            case 2
            then have "min (j - (i + 2)) (?p - 1) = j - i - 2" by simp
            then show ?thesis using 2 by (simp add: ramp_def)
          next
            case 3
            then have "min (j - (i + 2)) (?p - 1) = ?p - 1" by simp
            then show ?thesis using 3 p delta by (simp add: ramp_def)
          qed
        qed
      qed
    qed
  next
    case False
    then show ?thesis using v b by (simp add: realloc_acc_def bad_acc_def)
  qed
qed

lemma exceeds_list:
  assumes "\<forall>i < n. f i = Some (g i) \<and> length (g i) = 3"
  shows "map_some f [0..<n] = Some (map g [0..<n])"
    "map_some (exceeds l) (map g [0..<n]) = Some (map (\<lambda>i. exceeds l (g i) = Some True) [0..<n])"
proof -
  show "map_some f [0..<n] = Some (map g [0..<n])" using assms by (intro map_some_eq) simp
  have "\<forall>w \<in> set (map g [0..<n]). exceeds l w = Some (exceeds l w = Some True)"
  proof
    fix w
    assume "w \<in> set (map g [0..<n])"
    then have "length w = 3" using assms by auto
    then show "exceeds l w = Some (exceeds l w = Some True)" using exceeds_some [of w l] by auto
  qed
  from map_some_eq [OF this] show "map_some (exceeds l) (map g [0..<n]) = Some (map (\<lambda>i. exceeds l (g i) = Some True) [0..<n])"
    by (simp add: comp_def)
qed

lemma checkFeasibility_iff:
  assumes ok: "spline_ok 3 s" and p: "2 \<le> bs_p s" and lim: "bs_limits s = Some (lv, la, lr)"
  shows "checkFeasibility s = Some ((\<forall>i < length (bs_points s) - 1. \<not> bad_vel s lv i (bs_u s)) \<and> (\<forall>i < length (bs_points s) - 2. \<not> bad_acc s la i (bs_u s)))"
proof -
  let ?v = "\<lambda>i. the (vel_point (bs_points s) (bs_p s) (bs_u s) i)" and ?a = "\<lambda>i. the (acc_point (bs_points s) (bs_p s) (bs_u s) i)"
  have ok0: "spline_ok 3 (s\<lparr>bs_u := bs_u s\<rparr>)" and p1: "1 \<le> bs_p s" using ok p by simp_all
  have v: "\<forall>i < length (bs_points s) - 1. vel_point (bs_points s) (bs_p s) (bs_u s) i = Some (?v i) \<and> length (?v i) = 3"
  proof (intro allI impI)
    fix i
    assume "i < length (bs_points s) - 1"
    then have "Suc i < length (bs_points s)" by linarith
    then show "vel_point (bs_points s) (bs_p s) (bs_u s) i = Some (?v i) \<and> length (?v i) = 3" using vel_point_length [OF ok0 p1, of i] by auto
  qed
  have a: "\<forall>i < length (bs_points s) - 2. acc_point (bs_points s) (bs_p s) (bs_u s) i = Some (?a i) \<and> length (?a i) = 3"
  proof (intro allI impI)
    fix i
    assume "i < length (bs_points s) - 2"
    then have "Suc (Suc i) < length (bs_points s)" by linarith
    then show "acc_point (bs_points s) (bs_p s) (bs_u s) i = Some (?a i) \<and> length (?a i) = 3" using acc_point_length [OF ok0 p, of i] by auto
  qed
  have "bad_vel s lv i (bs_u s) \<longleftrightarrow> exceeds lv (?v i) = Some True" if "i < length (bs_points s) - 1" for i
    using v that by (auto simp: bad_vel_def)
  moreover have "bad_acc s la i (bs_u s) \<longleftrightarrow> exceeds la (?a i) = Some True" if "i < length (bs_points s) - 2" for i
    using a that by (auto simp: bad_acc_def)
  moreover have "checkFeasibility s = Some (True \<notin> set (map (\<lambda>i. exceeds lv (?v i) = Some True) [0..<length (bs_points s) - 1]) \<and>
      True \<notin> set (map (\<lambda>i. exceeds la (?a i) = Some True) [0..<length (bs_points s) - 2]))"
    unfolding checkFeasibility_def vel_points_def acc_points_def lim bind.bind_lunit prod.case
      exceeds_list(1) [OF v] exceeds_list(2) [OF v, of lv] exceeds_list(1) [OF a] exceeds_list(2) [OF a, of la] ..
  ultimately show ?thesis by (auto simp: image_iff)
qed

lemma reallocateTime_ok:
  assumes ok: "spline_ok 3 s" and p: "2 \<le> bs_p s" and lim: "bs_limits s = Some (lv, la, lr)" "0 < lv" "0 < la" "1 \<le> lr"
  shows "\<exists>fea s'. reallocateTime s = Some (fea, s') \<and> spline_ok 3 s' \<and> later_knots (bs_u s) (bs_u s') \<and> bs_points s' = bs_points s \<and>
    checkFeasibility s = Some fea \<and> (fea \<longrightarrow> s' = s)"
proof -
  let ?P = "bs_points s" and ?lim = "(lv, la, lr)"
  have ok0: "spline_ok 3 (s\<lparr>bs_u := bs_u s\<rparr>)" using ok by simp
  have vs: "\<forall>i < length ?P - 1. realloc_step (realloc_vel ?P (bs_p s) ?lim) (bad_vel s lv) s i"
    using realloc_vel_step [of s lv lr _ la] p lim by simp
  from realloc_fold_upt [OF vs ok0, of True] obtain u1 f1 where
    one: "fold_option (realloc_vel ?P (bs_p s) ?lim) [0..<length ?P - 1] (bs_u s, True) = Some (u1, f1)" "spline_ok 3 (s\<lparr>bs_u := u1\<rparr>)"
      "later_knots (bs_u s) u1" "f1 \<longleftrightarrow> True \<and> (\<forall>i < length ?P - 1. \<not> bad_vel s lv i (bs_u s))" "f1 \<longrightarrow> u1 = bs_u s"
    by (elim exE conjE) (rule that)
  have as: "\<forall>i < length ?P - 2. realloc_step (realloc_acc ?P (bs_p s) ?lim) (bad_acc s la) s i"
    using realloc_acc_step [of s la lr _ lv] p lim by simp
  from realloc_fold_upt [OF as one(2), of f1] obtain u2 f2 where
    two: "fold_option (realloc_acc ?P (bs_p s) ?lim) [0..<length ?P - 2] (u1, f1) = Some (u2, f2)" "spline_ok 3 (s\<lparr>bs_u := u2\<rparr>)"
      "later_knots u1 u2" "f2 \<longleftrightarrow> f1 \<and> (\<forall>i < length ?P - 2. \<not> bad_acc s la i u1)" "f2 \<longrightarrow> u2 = u1"
    by (elim exE conjE) (rule that)
  have run: "reallocateTime s = Some (f2, s\<lparr>bs_u := u2\<rparr>)" using lim(1) one(1) two(1) by (simp add: reallocateTime_def Let_def)
  have "f2 \<longleftrightarrow> (\<forall>i < length ?P - 1. \<not> bad_vel s lv i (bs_u s)) \<and> (\<forall>i < length ?P - 2. \<not> bad_acc s la i (bs_u s))"
    using one(4,5) two(4) by auto
  then have "checkFeasibility s = Some f2" using checkFeasibility_iff [OF ok p lim(1)] by simp
  then show ?thesis using run two(2,5) one(5) two(4) later_knots_trans [OF one(3) two(3)] by (intro exI [of _ f2] exI [of _ "s\<lparr>bs_u := u2\<rparr>"]) auto
qed

end
