(* ===== verification/Traj_Server.thy ===== *)
theory Traj_Server imports Traj_Limits
begin

text \<open>
  The trajectory server \<open>plan_manage/src/traj_server.cpp\<close>: one function per callback on the global variables of the
  node. The values of local variables that a branch of \<open>cmdCallback\<close> leaves unset are the parameter \<open>unset\<close>; the
  rotation matrix of a quaternion, which Eigen computes, is the parameter \<open>rotation\<close>. Markers, logging and the
  function \<open>test\<close>, which is not called, are left out. \<open>None\<close> is undefined behaviour of the splines.
\<close>

section \<open>State and messages\<close>

record Bspline_msg =
  bm_order :: int
  bm_traj_id :: int
  bm_start_time :: time
  bm_knots :: "real list"
  bm_pos_pts :: "vec3 list"
  bm_yaw_pts :: "real list"
  bm_yaw_dt :: real

record PositionCommand =
  pc_stamp :: time
  pc_trajectory_id :: int
  pc_position :: vec3
  pc_velocity :: vec3
  pc_acceleration :: vec3
  pc_yaw :: real
  pc_yaw_dot :: real

record traj_server =
  ts_cmd :: PositionCommand
  ts_traj :: "NonUniformBspline list"
  ts_duration :: real
  ts_start_time :: time
  ts_traj_id :: int
  ts_percep :: PerceptionUtils
  ts_receive_traj :: bool
  ts_replan_time :: real
  ts_traj_cmd :: "vec3 list"
  ts_traj_real :: "vec3 list"
  ts_flight_start :: time
  ts_flight_end :: time
  ts_last_time :: time
  ts_energy :: real
  ts_R_loop :: mat3
  ts_T_loop :: vec3
  ts_isLoopCorrection :: bool

record local_values =
  lv_pos :: vec3
  lv_vel :: vec3
  lv_acc :: vec3
  lv_jer :: vec3
  lv_yaw :: real
  lv_yawdot :: real

definition init_server :: "time \<Rightarrow> real \<Rightarrow> bool \<Rightarrow> PerceptionUtils \<Rightarrow> traj_server" where
  "init_server now replan loop_correction u =
     \<lparr>ts_cmd = \<lparr>pc_stamp = now, pc_trajectory_id = 0, pc_position = (- 45 / 10, - 3, 0), pc_velocity = (0, 0, 0),
        pc_acceleration = (0, 0, 0), pc_yaw = 0, pc_yaw_dot = 0\<rparr>,
      ts_traj = [], ts_duration = 0, ts_start_time = 0, ts_traj_id = 0, ts_percep = u, ts_receive_traj = False,
      ts_replan_time = replan, ts_traj_cmd = [], ts_traj_real = [], ts_flight_start = 0, ts_flight_end = 0, ts_last_time = 0,
      ts_energy = 0, ts_R_loop = ((1, 0, 0), (0, 1, 0), (0, 0, 1)), ts_T_loop = (0, 0, 0), ts_isLoopCorrection = loop_correction\<rparr>"

section \<open>Callbacks\<close>

definition replanCallback_ts :: "time \<Rightarrow> traj_server \<Rightarrow> traj_server" where
  "replanCallback_ts now s = (let t_stop = (now - ts_start_time s) + 2 / 10 + ts_replan_time s in s\<lparr>ts_duration := min t_stop (ts_duration s)\<rparr>)"

definition newCallback :: "traj_server \<Rightarrow> traj_server" where
  "newCallback s = s\<lparr>ts_traj_cmd := [], ts_traj_real := []\<rparr>"

definition odomCallbck :: "string \<Rightarrow> vec3 \<Rightarrow> traj_server \<Rightarrow> traj_server" where
  "odomCallbck child_frame pos s =
     (if child_frame = ''X'' \<or> child_frame = ''O'' then s
      else let real1 = ts_traj_real s @ [pos] in s\<lparr>ts_traj_real := (if length real1 > 10000 then drop 1000 real1 else real1)\<rparr>)"

definition pgTVioCallback :: "(real \<times> real \<times> real \<times> real \<Rightarrow> mat3) \<Rightarrow> (real \<times> real \<times> real \<times> real) \<times> vec3 \<Rightarrow> traj_server \<Rightarrow> traj_server" where
  "pgTVioCallback rotation msg s = (case msg of (q, t) \<Rightarrow> s\<lparr>ts_R_loop := rotation q, ts_T_loop := t\<rparr>)"

definition row_of_point :: "vec3 \<Rightarrow> real list" where
  "row_of_point q = (case q of (x, y, z) \<Rightarrow> [x, y, z])"

definition bsplineCallback :: "time \<Rightarrow> Bspline_msg \<Rightarrow> traj_server \<Rightarrow> traj_server option" where
  "bsplineCallback now msg s =
     (if bm_traj_id msg \<le> ts_traj_id s then Some s
      else if bm_order msg < 0 then None
      else do {
        pos0 \<leftarrow> make_bspline (map row_of_point (bm_pos_pts msg)) (nat (bm_order msg)) (1 / 10);
        pos_traj \<leftarrow> setKnot (bm_knots msg) pos0;
        yaw_traj \<leftarrow> make_bspline (map (\<lambda>y. [y]) (bm_yaw_pts msg)) 3 (bm_yaw_dt msg);
        vel_traj \<leftarrow> getDerivative pos_traj;
        acc_traj \<leftarrow> getDerivative vel_traj;
        yawdot_traj \<leftarrow> getDerivative yaw_traj;
        jerk_traj \<leftarrow> getDerivative acc_traj;
        duration \<leftarrow> getTimeSum pos_traj;
        Some (s\<lparr>ts_start_time := bm_start_time msg, ts_traj_id := to_int32 (bm_traj_id msg),
          ts_traj := [pos_traj, vel_traj, acc_traj, yaw_traj, yawdot_traj, jerk_traj], ts_duration := duration,
          ts_receive_traj := True, ts_flight_start := (if ts_flight_start s = 0 then now else ts_flight_start s)\<rparr>) })"

definition vector_of :: "real list \<Rightarrow> vec3 option" where
  "vector_of v = (case v of [x, y, z] \<Rightarrow> Some (x, y, z) | _ \<Rightarrow> None)"

definition scalar_of :: "real list \<Rightarrow> real option" where
  "scalar_of v = (case v of [] \<Rightarrow> None | x # _ \<Rightarrow> Some x)"

text \<open>The values at a time: those of the splines, the final position at rest, or none at all.\<close>

definition sample_traj :: "local_values \<Rightarrow> real \<Rightarrow> traj_server \<Rightarrow> local_values option" where
  "sample_traj unset t_cur s =
     (let at3 = (\<lambda>i t. Option.bind (Option.bind (at_index (ts_traj s) i) (\<lambda>d. evaluateDeBoorT d t)) vector_of);
          at1 = (\<lambda>i t. Option.bind (Option.bind (at_index (ts_traj s) i) (\<lambda>d. evaluateDeBoorT d t)) scalar_of)
      in if t_cur < ts_duration s \<and> t_cur \<ge> 0 then do {
           pos \<leftarrow> at3 0 t_cur; vel \<leftarrow> at3 1 t_cur; acc \<leftarrow> at3 2 t_cur;
           yaw \<leftarrow> at1 3 t_cur; yawdot \<leftarrow> at1 4 t_cur; jer \<leftarrow> at3 5 t_cur;
           Some \<lparr>lv_pos = pos, lv_vel = vel, lv_acc = acc, lv_jer = jer, lv_yaw = yaw, lv_yawdot = yawdot\<rparr> }
         else if t_cur \<ge> ts_duration s then do {
           pos \<leftarrow> at3 0 (ts_duration s);
           yaw \<leftarrow> at1 3 (ts_duration s);
           Some (unset\<lparr>lv_pos := pos, lv_vel := (0, 0, 0), lv_acc := (0, 0, 0), lv_yaw := yaw, lv_yawdot := 0\<rparr>) }
         else Some unset)"

definition loop_corrected :: "traj_server \<Rightarrow> local_values \<Rightarrow> local_values" where
  "loop_corrected s v =
     (if ts_isLoopCorrection s then
        let rt = transpose3 (ts_R_loop s); dir = mat_vec rt (cos (lv_yaw v), sin (lv_yaw v), 0)
        in v\<lparr>lv_pos := mat_vec rt (zip3 (-) (lv_pos v) (ts_T_loop s)), lv_vel := mat_vec rt (lv_vel v),
             lv_acc := mat_vec rt (lv_acc v), lv_yaw := atan2 (fst (snd dir)) (fst dir)\<rparr>
      else v)"

text \<open>The record of the executed trajectory.\<close>

definition record_cmd :: "time \<Rightarrow> vec3 \<Rightarrow> vec3 \<Rightarrow> traj_server \<Rightarrow> traj_server" where
  "record_cmd now pos jer s =
     (let s1 = (if ts_traj_cmd s = [] then s\<lparr>ts_traj_cmd := [pos]\<rparr>
        else if vec_norm (zip3 (-) pos (List.last (ts_traj_cmd s))) > 1 / 1000000
        then s\<lparr>ts_traj_cmd := ts_traj_cmd s @ [pos], ts_energy := ts_energy s + dot3 jer jer * (now - ts_last_time s), ts_flight_end := now\<rparr>
        else s)
      in s1\<lparr>ts_last_time := now\<rparr>)"

text \<open>The command that is published, and the state.\<close>

definition cmdCallback :: "local_values \<Rightarrow> time \<Rightarrow> traj_server \<Rightarrow> (PositionCommand option \<times> traj_server) option" where
  "cmdCallback unset now s =
     (if \<not> ts_receive_traj s then Some (None, s)
      else map_option (\<lambda>v0.
        let v = loop_corrected s v0;
            cmd = \<lparr>pc_stamp = now, pc_trajectory_id = ts_traj_id s mod 2 ^ 32, pc_position = lv_pos v, pc_velocity = lv_vel v,
              pc_acceleration = lv_acc v, pc_yaw = lv_yaw v, pc_yaw_dot = lv_yawdot v\<rparr>
        in (Some cmd, record_cmd now (lv_pos v) (lv_jer v) (s\<lparr>ts_cmd := cmd, ts_percep := setPose (lv_pos v) (lv_yaw v) (ts_percep s)\<rparr>)))
        (sample_traj unset (now - ts_start_time s) s))"

end
