(* ===== verification/Traj_Reach.thy ===== *)
theory Traj_Reach imports Traj_Timing Traj_Server
begin

text \<open>
  The reachable states of the trajectory server, and what its commands are.
\<close>

section \<open>Values of splines\<close>

definition in_hull :: "NonUniformBspline \<Rightarrow> vec3 \<Rightarrow> bool" where
  "in_hull tr q \<longleftrightarrow> (\<forall>c < 3. \<exists>i < length (bs_points tr). \<exists>j < length (bs_points tr).
     coordinate tr c i \<le> row_of_point q ! c \<and> row_of_point q ! c \<le> coordinate tr c j)"

lemma evaluateDeBoorT_some:
  assumes "spline_ok cols d"
  shows "\<exists>v. evaluateDeBoorT d t = Some v \<and> length v = cols"
proof -
  have "at_index (bs_u d) (bs_p d) = Some (bs_u d ! bs_p d)" using assms by (simp add: at_index_def spline_ok_def)
  then show ?thesis using evaluateDeBoor_some [OF assms, of "t + bs_u d ! bs_p d"] by (auto simp: evaluateDeBoorT_def tri_row_def)
qed

lemma vector_of_three: "length v = 3 \<Longrightarrow> \<exists>q. vector_of v = Some q \<and> row_of_point q = v"
  by (auto simp: vector_of_def row_of_point_def numeral_eq_Suc length_Suc_conv)

lemma spline_vector:
  assumes "spline_ok 3 d"
  shows "\<exists>q. Option.bind (evaluateDeBoorT d t) vector_of = Some q \<and> evaluateDeBoorT d t = Some (row_of_point q)"
  using evaluateDeBoorT_some [OF assms, of t] vector_of_three by fastforce

lemma spline_scalar:
  assumes "spline_ok 1 d"
  shows "\<exists>x. Option.bind (evaluateDeBoorT d t) scalar_of = Some x"
  using evaluateDeBoorT_some [OF assms, of t] by (auto simp: scalar_of_def length_Suc_conv)

lemma spline_in_hull:
  assumes ok: "spline_ok 3 d" and q: "evaluateDeBoorT d t = Some (row_of_point q)"
  shows "in_hull d q"
  unfolding in_hull_def
proof (intro allI impI)
  fix c :: nat
  assume c: "c < 3"
  let ?N = "{..<length (bs_points d)}" and ?f = "coordinate d c"
  have ne: "?f ` ?N \<noteq> {}" "finite (?f ` ?N)" using ok by (auto simp: spline_ok_def)
  have "Min (?f ` ?N) \<le> ?f j \<and> ?f j \<le> Max (?f ` ?N)" if "j < length (bs_points d)" for j using that ne by simp
  from evaluate_between [OF ok c this, of "t + bs_u d ! bs_p d"] obtain v where
    v: "evaluateDeBoor d (t + bs_u d ! bs_p d) = Some v" "Min (?f ` ?N) \<le> v ! c" "v ! c \<le> Max (?f ` ?N)" by blast
  have "at_index (bs_u d) (bs_p d) = Some (bs_u d ! bs_p d)" using ok by (simp add: at_index_def spline_ok_def)
  then have "v = row_of_point q" using q v(1) by (simp add: evaluateDeBoorT_def)
  moreover obtain i where "i < length (bs_points d)" "?f i = Min (?f ` ?N)" using Min_in [OF ne(2,1)] by (auto simp: image_iff)
  moreover obtain j where "j < length (bs_points d)" "?f j = Max (?f ` ?N)" using Max_in [OF ne(2,1)] by (auto simp: image_iff)
  ultimately show "\<exists>i < length (bs_points d). \<exists>j < length (bs_points d). ?f i \<le> row_of_point q ! c \<and> row_of_point q ! c \<le> ?f j"
    using v(2,3) by metis
qed

section \<open>Reachable states\<close>

definition spline_msg_ok :: "Bspline_msg \<Rightarrow> bool" where
  "spline_msg_ok msg \<longleftrightarrow> 3 \<le> bm_order msg \<and> bm_order msg < int (length (bm_pos_pts msg)) \<and>
     int (length (bm_knots msg)) = int (length (bm_pos_pts msg)) + bm_order msg + 1 \<and>
     increasing_upto ((!) (bm_knots msg)) (length (bm_knots msg) - 1) \<and> 3 < length (bm_yaw_pts msg) \<and> 0 < bm_yaw_dt msg"

inductive server_reach :: "(real \<times> real \<times> real \<times> real \<Rightarrow> mat3) \<Rightarrow> traj_server \<Rightarrow> bool" for rotation where
  start: "server_reach rotation (init_server now replan loop_correction u)"
| bspline: "server_reach rotation s \<Longrightarrow> spline_msg_ok msg \<Longrightarrow> bsplineCallback now msg s = Some s' \<Longrightarrow> server_reach rotation s'"
| replan: "server_reach rotation s \<Longrightarrow> server_reach rotation (replanCallback_ts now s)"
| new: "server_reach rotation s \<Longrightarrow> server_reach rotation (newCallback s)"
| odom: "server_reach rotation s \<Longrightarrow> server_reach rotation (odomCallbck frame pos s)"
| pose: "server_reach rotation s \<Longrightarrow> server_reach rotation (pgTVioCallback rotation msg s)"
| cmd: "server_reach rotation s \<Longrightarrow> cmdCallback unset now s = Some (cmd, s') \<Longrightarrow> server_reach rotation s'"

text \<open>The six splines: position and its three derivatives, yaw and its derivative.\<close>

definition server_inv :: "traj_server \<Rightarrow> bool" where
  "server_inv s \<longleftrightarrow> \<not> ts_receive_traj s \<or> (\<exists>tr d dd y dy j. ts_traj s = [tr, d, dd, y, dy, j] \<and> spline_ok 3 tr \<and> spline_ok 3 d \<and>
     spline_ok 3 dd \<and> spline_ok 3 j \<and> spline_ok 1 y \<and> spline_ok 1 dy \<and> getDerivative tr = Some d \<and> getDerivative d = Some dd \<and>
     getDerivative dd = Some j \<and> getDerivative y = Some dy)"

lemma server_inv_keep: "server_inv s \<Longrightarrow> ts_traj s' = ts_traj s \<Longrightarrow> ts_receive_traj s' = ts_receive_traj s \<Longrightarrow> server_inv s'"
  by (simp add: server_inv_def)

lemma bsplineCallback_new:
  assumes msg: "spline_msg_ok msg" and id: "ts_traj_id s < bm_traj_id msg"
  shows "\<exists>s'. bsplineCallback now msg s = Some s' \<and> ts_receive_traj s' \<and> ts_start_time s' = bm_start_time msg \<and>
    ts_isLoopCorrection s' = ts_isLoopCorrection s \<and> server_inv s'"
proof -
  let ?P = "map row_of_point (bm_pos_pts msg)" and ?p = "nat (bm_order msg)" and ?k = "bm_knots msg"
  let ?Y = "map (\<lambda>y. [y]) (bm_yaw_pts msg)"
  have m: "3 \<le> ?p" "?p < length ?P" "length ?k = length ?P + ?p + 1" "increasing_upto ((!) ?k) (length ?P + ?p)" "3 < length ?Y" "0 < bm_yaw_dt msg"
    using msg by (auto simp: spline_msg_ok_def increasing_upto_def)
  have rows: "\<forall>v \<in> set ?P. length v = 3" "\<forall>v \<in> set ?Y. length v = 1" by (auto simp: row_of_point_def split: prod.split)
  obtain pos0 where pos0: "make_bspline ?P ?p (1 / 10) = Some pos0" "bs_points pos0 = ?P" "bs_p pos0 = ?p" "bs_m pos0 = length ?P + ?p"
    using make_bspline_some [of ?p ?P "1 / 10"] m(2) by auto
  have t0: "getTimeSum (pos0\<lparr>bs_u := ?k\<rparr>) = Some (?k ! length ?P - ?k ! ?p)" using getTimeSum_some [of "pos0\<lparr>bs_u := ?k\<rparr>"] pos0 m by simp
  define tr where "tr = pos0\<lparr>bs_u := ?k, bs_duration := ?k ! length ?P - ?k ! ?p\<rparr>"
  have k: "setKnot ?k pos0 = Some tr" using t0 by (simp add: setKnot_def Let_def tr_def)
  have trf: "bs_points tr = ?P" "bs_p tr = ?p" "bs_m tr = length ?P + ?p" "bs_u tr = ?k" using pos0 by (simp_all add: tr_def)
  have tr: "spline_ok 3 tr" using m rows(1) by (simp add: spline_ok_def trf)
  have p1: "1 \<le> bs_p tr" using trf m by simp
  obtain d where d: "getDerivative tr = Some d" "spline_ok 3 d" "bs_p d = ?p - 1" using getDerivative_some [OF tr p1] trf by auto
  have p2: "1 \<le> bs_p d" using d m by simp
  obtain dd where dd: "getDerivative d = Some dd" "spline_ok 3 dd" "bs_p dd = ?p - 1 - 1" using getDerivative_some [OF d(2) p2] d(3) by auto
  have p3: "1 \<le> bs_p dd" using dd m by simp
  obtain j where j: "getDerivative dd = Some j" "spline_ok 3 j" using getDerivative_some [OF dd(2) p3] by blast
  obtain y where y: "make_bspline ?Y 3 (bm_yaw_dt msg) = Some y" "spline_ok 1 y" "bs_p y = 3" using make_bspline_ok [OF m(5,6) rows(2)] by blast
  have p4: "1 \<le> bs_p y" using y(3) by simp
  obtain dy where dy: "getDerivative y = Some dy" "spline_ok 1 dy" using getDerivative_some [OF y(2) p4] by blast
  have t: "getTimeSum tr = Some (?k ! length ?P - ?k ! ?p)" using getTimeSum_some [of tr] trf m by simp
  have ord: "\<not> bm_order msg < 0" "\<not> bm_traj_id msg \<le> ts_traj_id s" using m(1) id by simp_all
  have run: "bsplineCallback now msg s = Some (s\<lparr>ts_start_time := bm_start_time msg, ts_traj_id := to_int32 (bm_traj_id msg),
      ts_traj := [tr, d, dd, y, dy, j], ts_duration := ?k ! length ?P - ?k ! ?p, ts_receive_traj := True,
      ts_flight_start := (if ts_flight_start s = 0 then now else ts_flight_start s)\<rparr>)"
    unfolding bsplineCallback_def if_not_P [OF ord(2)] if_not_P [OF ord(1)] pos0(1) bind.bind_lunit k y(1) d(1) dd(1) dy(1) j(1) t ..
  show ?thesis unfolding run server_inv_def using tr d dd j y dy by simp
qed

lemma bsplineCallback_inv:
  assumes "server_inv s" "spline_msg_ok msg" "bsplineCallback now msg s = Some s'"
  shows "server_inv s'"
proof (cases "ts_traj_id s < bm_traj_id msg")
  case True
  then show ?thesis using bsplineCallback_new [OF assms(2) True, of now] assms(3) by auto
next
  case False
  then show ?thesis using assms by (simp add: bsplineCallback_def)
qed

lemma cmdCallback_keeps:
  assumes "cmdCallback unset now s = Some (cmd, s')"
  shows "ts_traj s' = ts_traj s" "ts_receive_traj s' = ts_receive_traj s"
  using assms by (auto simp: cmdCallback_def record_cmd_def Let_def split: if_splits)

lemma server_reach_inv: "server_reach rotation s \<Longrightarrow> server_inv s"
proof (induction rule: server_reach.induct)
  case (start now replan loop_correction u)
  then show ?case by (simp add: server_inv_def init_server_def)
next
  case (bspline s msg now s')
  then show ?case using bsplineCallback_inv by blast
next
  case (replan s now)
  show ?case by (rule server_inv_keep [OF replan.IH]) (simp_all add: replanCallback_ts_def Let_def)
next
  case (new s)
  show ?case by (rule server_inv_keep [OF new.IH]) (simp_all add: newCallback_def)
next
  case (odom s frame pos)
  show ?case by (rule server_inv_keep [OF odom.IH]) (simp_all add: odomCallbck_def Let_def)
next
  case (pose s msg)
  show ?case by (rule server_inv_keep [OF pose.IH]) (simp_all add: pgTVioCallback_def split: prod.split)
next
  case (cmd s unset now c s')
  then show ?case using server_inv_keep cmdCallback_keeps by blast
qed

section \<open>Commands\<close>

lemma cmdCallback_follows:
  assumes inv: "server_inv s" and r: "ts_receive_traj s" and l: "\<not> ts_isLoopCorrection s" and now: "ts_start_time s \<le> now"
  shows "\<exists>tr d dd cmd s'. take 3 (ts_traj s) = [tr, d, dd] \<and> getDerivative tr = Some d \<and> getDerivative d = Some dd \<and>
    cmdCallback unset now s = Some (Some cmd, s') \<and> in_hull tr (pc_position cmd) \<and>
    evaluateDeBoorT tr (min (now - ts_start_time s) (ts_duration s)) = Some (row_of_point (pc_position cmd)) \<and>
    (if now - ts_start_time s < ts_duration s
     then evaluateDeBoorT d (now - ts_start_time s) = Some (row_of_point (pc_velocity cmd)) \<and>
       evaluateDeBoorT dd (now - ts_start_time s) = Some (row_of_point (pc_acceleration cmd))
     else pc_velocity cmd = (0, 0, 0) \<and> pc_acceleration cmd = (0, 0, 0))"
proof -
  from inv r obtain tr d dd y dy j where tj: "ts_traj s = [tr, d, dd, y, dy, j]" and ok: "spline_ok 3 tr" "spline_ok 3 d"
     "spline_ok 3 dd" "spline_ok 3 j" "spline_ok 1 y" "spline_ok 1 dy" and der: "getDerivative tr = Some d" "getDerivative d = Some dd"
    unfolding server_inv_def by blast
  let ?t = "now - ts_start_time s" and ?T = "ts_duration s"
  have t0: "\<not> ?t < 0" using now by simp
  have at: "at_index (ts_traj s) 0 = Some tr" "at_index (ts_traj s) 1 = Some d" "at_index (ts_traj s) 2 = Some dd"
    "at_index (ts_traj s) 3 = Some y" "at_index (ts_traj s) 4 = Some dy" "at_index (ts_traj s) 5 = Some j" by (simp_all add: tj at_index_def)
  have done_if: ?thesis if v: "sample_traj unset ?t s = Some v" "evaluateDeBoorT tr (min ?t ?T) = Some (row_of_point (lv_pos v))"
    "if ?t < ?T then evaluateDeBoorT d ?t = Some (row_of_point (lv_vel v)) \<and> evaluateDeBoorT dd ?t = Some (row_of_point (lv_acc v))
     else lv_vel v = (0, 0, 0) \<and> lv_acc v = (0, 0, 0)" for v
  proof -
    let ?cmd = "\<lparr>pc_stamp = now, pc_trajectory_id = ts_traj_id s mod 2 ^ 32, pc_position = lv_pos v, pc_velocity = lv_vel v,
              pc_acceleration = lv_acc v, pc_yaw = lv_yaw v, pc_yaw_dot = lv_yawdot v\<rparr>"
    have "\<exists>s'. cmdCallback unset now s = Some (Some ?cmd, s')" using r l v(1) by (simp add: cmdCallback_def loop_corrected_def Let_def)
    then obtain s' where run: "cmdCallback unset now s = Some (Some ?cmd, s')" by blast
    have "in_hull tr (lv_pos v)" using spline_in_hull [OF ok(1) v(2)] .
    then show ?thesis using run der v(2,3) by (intro exI [of _ tr] exI [of _ d] exI [of _ dd] exI [of _ ?cmd] exI [of _ s']) (simp add: tj)
  qed
  show ?thesis
  proof (cases "?t < ?T")
    case True
    obtain q0 where q0: "Option.bind (evaluateDeBoorT tr ?t) vector_of = Some q0" "evaluateDeBoorT tr ?t = Some (row_of_point q0)"
      using spline_vector [OF ok(1)] by blast
    obtain q1 where q1: "Option.bind (evaluateDeBoorT d ?t) vector_of = Some q1" "evaluateDeBoorT d ?t = Some (row_of_point q1)"
      using spline_vector [OF ok(2)] by blast
    obtain q2 where q2: "Option.bind (evaluateDeBoorT dd ?t) vector_of = Some q2" "evaluateDeBoorT dd ?t = Some (row_of_point q2)"
      using spline_vector [OF ok(3)] by blast
    obtain x3 x4 q5 where q5: "Option.bind (evaluateDeBoorT y ?t) scalar_of = Some x3" "Option.bind (evaluateDeBoorT dy ?t) scalar_of = Some x4"
      "Option.bind (evaluateDeBoorT j ?t) vector_of = Some q5"
      using spline_scalar [OF ok(5), of ?t] spline_scalar [OF ok(6), of ?t] spline_vector [OF ok(4), of ?t] by blast
    have c: "?t < ?T \<and> ?t \<ge> 0" using True t0 by simp
    have sample: "sample_traj unset ?t s = Some \<lparr>lv_pos = q0, lv_vel = q1, lv_acc = q2, lv_jer = q5, lv_yaw = x3, lv_yawdot = x4\<rparr>"
      unfolding sample_traj_def Let_def if_P [OF c] at bind.bind_lunit q0(1) q1(1) q2(1) q5 ..
    show ?thesis using q0(2) q1(2) q2(2) True by (intro done_if [OF sample]) simp_all
  next
    case False
    obtain q0 where q0: "Option.bind (evaluateDeBoorT tr ?T) vector_of = Some q0" "evaluateDeBoorT tr ?T = Some (row_of_point q0)"
      using spline_vector [OF ok(1)] by blast
    obtain x3 where x3: "Option.bind (evaluateDeBoorT y ?T) scalar_of = Some x3" using spline_scalar [OF ok(5)] by blast
    have c: "\<not> (?t < ?T \<and> ?t \<ge> 0)" "?t \<ge> ?T" using False by simp_all
    have sample: "sample_traj unset ?t s = Some (unset\<lparr>lv_pos := q0, lv_vel := (0, 0, 0), lv_acc := (0, 0, 0), lv_yaw := x3, lv_yawdot := 0\<rparr>)"
      unfolding sample_traj_def Let_def if_not_P [OF c(1)] if_P [OF c(2)] at bind.bind_lunit q0(1) x3 ..
    show ?thesis using q0(2) False by (intro done_if [OF sample]) (simp_all add: min_def)
  qed
qed

end
