(* ===== verification/Traj_Claims.thy ===== *)
theory Traj_Claims imports Traj_Reach
begin

text \<open>
  The properties of the trajectories, with their instances: the derivative of a spline, its limits, its timing, and
  the commands of the trajectory server.
\<close>

section \<open>Splines\<close>

definition ex_spline :: NonUniformBspline where
  "ex_spline = the (make_bspline [[0, 0, 0], [1, 0, 0], [2, 0, 0], [3, 0, 0], [4, 0, 0]] 3 1)"

lemma ex_spline_ok: "spline_ok 3 ex_spline" "bs_p ex_spline = 3" "length (bs_points ex_spline) = 5" "bs_u ex_spline = map (\<lambda>i. real i - 3) [0..<9]"
proof -
  let ?P = "[[0, 0, 0], [1, 0, 0], [2, 0, 0], [3, 0, 0], [4, 0, 0 :: real]]"
  have "3 < length ?P" "(0 :: real) < 1" "\<forall>v \<in> set ?P. length v = 3" by simp_all
  from make_bspline_ok [OF this] obtain s where s: "make_bspline ?P 3 1 = Some s" "spline_ok 3 s" "bs_points s = ?P" "bs_p s = 3" by blast
  obtain s' where s': "make_bspline ?P 3 1 = Some s'" "bs_u s' = map (\<lambda>i. (real i - real 3) * 1) [0..<Suc (length ?P + 3)]"
    using make_bspline_some [of 3 ?P 1] by auto
  have "ex_spline = s" using s(1) by (simp add: ex_spline_def)
  moreover have "s' = s" using s(1) s'(1) by simp
  moreover have "Suc (length ?P + 3) = 9" by simp
  ultimately show "spline_ok 3 ex_spline" "bs_p ex_spline = 3" "length (bs_points ex_spline) = 5" "bs_u ex_spline = map (\<lambda>i. real i - 3) [0..<9]"
    using s s'(2) by simp_all
qed

text \<open>Within each knot span, the spline that \<open>getDerivative\<close> returns evaluates to the derivative of the spline with
  respect to time, in each coordinate and for any degree; both are defined at all times.\<close>

theorem spline_derivative_exact:
  assumes "spline_ok cols s" and "1 \<le> bs_p s" and "c < cols" and "bs_p s \<le> k" and "k < length (bs_points s)"
    and "bs_u s ! k < x" and "x < bs_u s ! Suc k"
  shows "\<exists>d. getDerivative s = Some d \<and> spline_ok cols d \<and> (\<forall>y. evaluateDeBoor s y \<noteq> None \<and> evaluateDeBoor d y \<noteq> None) \<and>
    ((\<lambda>y. the (evaluateDeBoor s y) ! c) has_real_derivative the (evaluateDeBoor d x) ! c) (at x)"
proof -
  obtain d where d: "getDerivative s = Some d" "spline_ok cols d" using getDerivative_some [OF assms(1,2)] by blast
  have "evaluateDeBoor r y \<noteq> None" if "spline_ok cols r" for r y using evaluateDeBoor_some [OF that, of y] by auto
  then show ?thesis using d assms(1) derivative_in_span [OF assms(1,2) d(1) assms(3-)] by blast
qed

lemma spline_derivative_exact_witness:
  "\<exists>d. getDerivative ex_spline = Some d \<and> spline_ok 3 d \<and> (\<forall>y. evaluateDeBoor ex_spline y \<noteq> None \<and> evaluateDeBoor d y \<noteq> None) \<and>
    ((\<lambda>y. the (evaluateDeBoor ex_spline y) ! 0) has_real_derivative the (evaluateDeBoor d (1 / 2)) ! 0) (at (1 / 2))"
  by (rule spline_derivative_exact [of 3 ex_spline 0 3]) (simp_all add: ex_spline_ok)

text \<open>If \<open>checkFeasibility\<close> accepts a spline of degree two or more, no coordinate of its velocity or its acceleration
  exceeds the limits by more than the tolerance, at any time and not only at the control points that it checks.\<close>

theorem feasible_spline_within_limits:
  assumes "spline_ok 3 s" and "2 \<le> bs_p s" and "bs_limits s = Some (limit_vel, limit_acc, limit_ratio)" and "checkFeasibility s = Some True"
  shows "\<exists>d dd v a. getDerivative s = Some d \<and> getDerivative d = Some dd \<and> evaluateDeBoor d t = Some v \<and> evaluateDeBoor dd t = Some a \<and>
    (\<forall>c < 3. \<bar>v ! c\<bar> \<le> limit_vel + 1 / 10000 \<and> \<bar>a ! c\<bar> \<le> limit_acc + 1 / 10000)"
proof -
  have p: "1 \<le> bs_p s" using assms(2) by simp
  obtain d where d: "getDerivative s = Some d" "spline_ok 3 d" "bs_p d = bs_p s - 1" using getDerivative_some [OF assms(1) p] by blast
  have "1 \<le> bs_p d" using d(3) assms(2) by simp
  then obtain dd where "getDerivative d = Some dd" using getDerivative_some [OF d(2)] by blast
  then show ?thesis using d(1) feasible_bounds [OF assms(1,2,4,3) d(1), of dd t] by blast
qed

lemma ex_feasible: "checkFeasibility (setPhysicalLimits 2 1 ex_spline) = Some True"
proof -
  let ?s = "setPhysicalLimits 2 1 ex_spline"
  have pts: "bs_points ex_spline = [[0, 0, 0], [1, 0, 0], [2, 0, 0], [3, 0, 0], [4, 0, 0]]"
    using make_bspline_ok [of 3 "[[0, 0, 0], [1, 0, 0], [2, 0, 0], [3, 0, 0], [4, 0, 0]]" 1 3] by (auto simp: ex_spline_def)
  have "bs_limits ?s = Some (2, 1, 11 / 10)" "spline_ok 3 ?s" "2 \<le> bs_p ?s"
    using ex_spline_ok by (simp_all add: setPhysicalLimits_def spline_ok_def)
  note iff = checkFeasibility_iff [OF this(2,3,1)]
  have vel: "vel_point (bs_points ex_spline) 3 (bs_u ex_spline) i = Some [1, 0, 0]" if "i < 4" for i
    using that by (auto simp: less_Suc_eq numeral_eq_Suc vel_point_def at_index_def quotient_of_span_def pts ex_spline_ok(4) upt_rec)
  have acc: "acc_point (bs_points ex_spline) 3 (bs_u ex_spline) i = Some [0, 0, 0]" if "i < 3" for i
    using that vel [of i] vel [of "i + 1"]
    by (auto simp: less_Suc_eq numeral_eq_Suc acc_point_def at_index_def quotient_of_span_def ex_spline_ok(4) upt_rec)
  have "\<not> bad_vel ?s 2 i (bs_u ?s)" if "i < 4" for i
    using vel [OF that] ex_spline_ok(2) by (simp add: bad_vel_def exceeds_def setPhysicalLimits_def numeral_eq_Suc)
  moreover have "\<not> bad_acc ?s 1 i (bs_u ?s)" if "i < 3" for i
    using acc [OF that] ex_spline_ok(2) by (simp add: bad_acc_def exceeds_def setPhysicalLimits_def numeral_eq_Suc)
  ultimately show ?thesis using iff ex_spline_ok(3) by (simp add: setPhysicalLimits_def)
qed

lemma feasible_spline_within_limits_witness:
  "\<exists>d dd v a. getDerivative (setPhysicalLimits 2 1 ex_spline) = Some d \<and> getDerivative d = Some dd \<and>
    evaluateDeBoor d (1 / 2) = Some v \<and> evaluateDeBoor dd (1 / 2) = Some a \<and>
    (\<forall>c < 3. \<bar>v ! c\<bar> \<le> 2 + 1 / 10000 \<and> \<bar>a ! c\<bar> \<le> 1 + 1 / 10000)"
  using ex_spline_ok by (intro feasible_spline_within_limits [of _ 2 1 "11 / 10", OF _ _ _ ex_feasible]) (simp_all add: setPhysicalLimits_def spline_ok_def)

text \<open>\<open>reallocateTime\<close> completes, keeps the control points and the order of the knots, moves no knot to an earlier
  time, and reports exactly what \<open>checkFeasibility\<close> reports of the spline before; a feasible spline is left as it is.\<close>

theorem reallocate_time_ok:
  assumes "spline_ok 3 s" and "2 \<le> bs_p s" and "bs_limits s = Some (limit_vel, limit_acc, limit_ratio)"
    and "0 < limit_vel" and "0 < limit_acc" and "1 \<le> limit_ratio"
  shows "\<exists>fea s'. reallocateTime s = Some (fea, s') \<and> spline_ok 3 s' \<and> later_knots (bs_u s) (bs_u s') \<and> bs_points s' = bs_points s \<and>
    checkFeasibility s = Some fea \<and> (fea \<longrightarrow> s' = s)"
  by (rule reallocateTime_ok [OF assms])

lemma reallocate_time_ok_witness:
  "\<exists>fea s'. reallocateTime (setPhysicalLimits (1 / 2) 1 ex_spline) = Some (fea, s') \<and> spline_ok 3 s' \<and>
    later_knots (bs_u (setPhysicalLimits (1 / 2) 1 ex_spline)) (bs_u s') \<and>
    bs_points s' = bs_points (setPhysicalLimits (1 / 2) 1 ex_spline) \<and>
    checkFeasibility (setPhysicalLimits (1 / 2) 1 ex_spline) = Some fea \<and> (fea \<longrightarrow> s' = setPhysicalLimits (1 / 2) 1 ex_spline)"
  by (rule reallocate_time_ok [of _ "1 / 2" 1 "11 / 10"]) (use ex_spline_ok in \<open>simp_all add: setPhysicalLimits_def spline_ok_def\<close>)

section \<open>The trajectory server\<close>

definition ex_spline_msg :: Bspline_msg where
  "ex_spline_msg = \<lparr>bm_order = 3, bm_traj_id = 1, bm_start_time = 1, bm_knots = map real [0..<9],
     bm_pos_pts = [(0, 0, 1), (1, 0, 1), (2, 0, 1), (3, 1, 1), (4, 2, 1)], bm_yaw_pts = [0, 0, 0, 0, 1], bm_yaw_dt = 1\<rparr>"

definition ex_unset :: local_values where
  "ex_unset = \<lparr>lv_pos = (7, 7, 7), lv_vel = (7, 7, 7), lv_acc = (7, 7, 7), lv_jer = (7, 7, 7), lv_yaw = 7, lv_yawdot = 7\<rparr>"

definition ex_server0 :: traj_server where
  "ex_server0 = init_server 0 (1 / 10) False (make_perception 1 1 1 5 (1 / 10))"

definition ex_server :: traj_server where
  "ex_server = the (bsplineCallback 1 ex_spline_msg ex_server0)"

lemma ex_msg_ok: "spline_msg_ok ex_spline_msg"
  by (simp add: spline_msg_ok_def ex_spline_msg_def increasing_upto_def)

lemma ex_server_ok: "server_reach (\<lambda>q. ((1, 0, 0), (0, 1, 0), (0, 0, 1))) ex_server" "ts_receive_traj ex_server"
  "\<not> ts_isLoopCorrection ex_server" "ts_start_time ex_server = 1"
proof -
  have "ts_traj_id ex_server0 < bm_traj_id ex_spline_msg" by (simp add: ex_server0_def init_server_def ex_spline_msg_def)
  from bsplineCallback_new [OF ex_msg_ok this, of 1] obtain s where
    s: "bsplineCallback 1 ex_spline_msg ex_server0 = Some s" "ts_receive_traj s" "ts_start_time s = bm_start_time ex_spline_msg"
      "ts_isLoopCorrection s = ts_isLoopCorrection ex_server0" by blast
  then have e: "ex_server = s" by (simp add: ex_server_def)
  have "server_reach (\<lambda>q. ((1, 0, 0), (0, 1, 0), (0, 0, 1))) ex_server0" unfolding ex_server0_def by (rule server_reach.start)
  then show "server_reach (\<lambda>q. ((1, 0, 0), (0, 1, 0), (0, 0, 1))) ex_server" unfolding e by (rule server_reach.bspline [OF _ ex_msg_ok s(1)])
  show "ts_receive_traj ex_server" "\<not> ts_isLoopCorrection ex_server" "ts_start_time ex_server = 1"
    using s by (simp_all add: e ex_server0_def init_server_def ex_spline_msg_def)
qed

text \<open>In every state that well-formed trajectories, replanning, odometry and earlier commands can lead to, a command is
  published at any time from the start of the trajectory on. Its position is that of the spline at that time, cut off at
  the end of the trajectory, and lies in the box of the control points; velocity and acceleration are the
  derivatives before the end and zero after it.\<close>

theorem server_follows_trajectory:
  assumes "server_reach rotation s" and "ts_receive_traj s" and "\<not> ts_isLoopCorrection s" and "ts_start_time s \<le> now"
  shows "\<exists>tr d dd cmd s'. take 3 (ts_traj s) = [tr, d, dd] \<and> getDerivative tr = Some d \<and> getDerivative d = Some dd \<and>
    cmdCallback unset now s = Some (Some cmd, s') \<and> in_hull tr (pc_position cmd) \<and>
    evaluateDeBoorT tr (min (now - ts_start_time s) (ts_duration s)) = Some (row_of_point (pc_position cmd)) \<and>
    (if now - ts_start_time s < ts_duration s
     then evaluateDeBoorT d (now - ts_start_time s) = Some (row_of_point (pc_velocity cmd)) \<and>
       evaluateDeBoorT dd (now - ts_start_time s) = Some (row_of_point (pc_acceleration cmd))
     else pc_velocity cmd = (0, 0, 0) \<and> pc_acceleration cmd = (0, 0, 0))"
  by (rule cmdCallback_follows [OF server_reach_inv [OF assms(1)] assms(2-4)])

lemma server_follows_trajectory_witness:
  "\<exists>tr d dd cmd s'. take 3 (ts_traj ex_server) = [tr, d, dd] \<and> getDerivative tr = Some d \<and> getDerivative d = Some dd \<and>
    cmdCallback ex_unset 2 ex_server = Some (Some cmd, s') \<and> in_hull tr (pc_position cmd) \<and>
    evaluateDeBoorT tr (min (2 - ts_start_time ex_server) (ts_duration ex_server)) = Some (row_of_point (pc_position cmd)) \<and>
    (if 2 - ts_start_time ex_server < ts_duration ex_server
     then evaluateDeBoorT d (2 - ts_start_time ex_server) = Some (row_of_point (pc_velocity cmd)) \<and>
       evaluateDeBoorT dd (2 - ts_start_time ex_server) = Some (row_of_point (pc_acceleration cmd))
     else pc_velocity cmd = (0, 0, 0) \<and> pc_acceleration cmd = (0, 0, 0))"
  by (rule server_follows_trajectory [OF ex_server_ok(1,2,3)]) (simp add: ex_server_ok(4))

text \<open>A command before the start time, and the energy after the end, are made of values that were never set.\<close>

lemma invalid_time_unset:
  assumes "ts_receive_traj s" "\<not> ts_isLoopCorrection s" "now < ts_start_time s" "now - ts_start_time s < ts_duration s"
  shows "\<exists>cmd s'. cmdCallback unset now s = Some (Some cmd, s') \<and> pc_position cmd = lv_pos unset \<and> pc_velocity cmd = lv_vel unset"
  using assms by (simp add: cmdCallback_def sample_traj_def loop_corrected_def Let_def)

end
