(* ===== verification/Spec2Isabelle.thy ===== *)
theory Spec2Isabelle imports Local_Relay_Claims Comm_Claims Alloc_Claims Expl_Claims Map_Claims Ray_Functions Transport_Claims Grid_Claims Tour_Claims Frontier_Claims Planner_Claims Traj_Claims
begin

text \<open>
  Verification library for the exploration of an unknown building by a swarm of drones that can only talk to each
  other over a radio network, and in which a drone can become a relay. The program is a set of ROS nodes in C++;
  this library models the nodes and libraries that decide something, as functions on explicit states, and proves
  what makes them correct.

  \<^bold>\<open>The program and how its parts interact.\<close> Every drone runs one of each of the following.

  \<^item> The \<^emph>\<open>map\<close> (\<open>plan_env\<close>) fuses depth images or point clouds into occupancy values, inflates the obstacles,
    computes the distance to the nearest obstacle, and exchanges chunks of newly seen voxels with the other drones.
  \<^item> The \<^emph>\<open>frontier finder\<close> (\<open>active_perception\<close>) keeps clusters of free voxels next to unknown ones, viewpoints
    from which they can be seen, and the costs of moving between those.
  \<^item> The \<^emph>\<open>exploration grid\<close> (\<open>active_perception\<close>) divides the volume into cells on two levels; cells are what the
    drones share out among themselves.
  \<^item> The \<^emph>\<open>planner\<close> (\<open>exploration_manager/src/fast_exploration_manager.cpp\<close>) asks a tour solver which cells a drone
    gets and in which order it visits cells and frontiers, refines that to viewpoints, chooses a goal that can be
    reached and calls the trajectory planner.
  \<^item> The \<^emph>\<open>state machine\<close> (\<open>fast_exploration_fsm.cpp\<close>) triggers the planning, reacts to failures, and takes part in
    the protocol by which grids change hands.
  \<^item> The \<^emph>\<open>allocation coordinator\<close> merges the states of the drones of a connected component into a ledger of owned
    and free grids and, at the leader, answers requests by plans and commits.
  \<^item> The \<^emph>\<open>relay controllers\<close> (\<open>relay_racer_integration\<close>) decide which drone becomes a relay: a local one per drone,
    by election, or a central one that sees all received messages.
  \<^item> The \<^emph>\<open>trajectory server\<close> (\<open>plan_manage/src/traj_server.cpp\<close>) plays back the B-splines of the trajectory planner.
  \<^item> The \<^emph>\<open>transport\<close> (\<open>relay_racer_integration\<close>, \<open>coordinator\<close>) carries the messages of the drones through a network
    simulator: bridges at sender and receiver, forwarders at relays, and a coordinator that runs the simulators in
    lockstep.

  \<^bold>\<open>The correspondence.\<close> A class or node is a \<open>record\<close> of its member variables (in brackets below), a message is a
  record of its fields, an enumeration a \<open>datatype\<close>. A method or callback is a definition with its name that takes the
  state and returns the new one with what it publishes; long functions are cut into helpers that \<open>PROJECT.json\<close> maps to
  their lines. Error exits are values: \<open>None\<close> is undefined behaviour (an access outside of a vector or map, a value never
  set), an exception, or a loop that does not end. Each group ends with a theory \<open>..._Claims\<close> that holds its properties
  with an instance of each; the property numbered C\<open>n\<close> is stated in words before its theorem.

  \<^item> Prelude and geometry. \<open>Relay_Prelude\<close>: how C++ data is read, association lists, caches that expire (locale
    \<open>expiring_cache\<close>), scans with a tolerance (locale \<open>tolerant_scan\<close>). \<open>Relay_Geometry\<close>, \<open>Relay_Anchors\<close>: projection of
    targets out of obstacles, midpoints and penalties that both relay controllers share.
  \<^item> Local relay controller [\<open>lr_state\<close>], \<open>racer_local_relay_controller_node.cpp\<close>: \<open>Local_Relay_State\<close> (callbacks),
    \<open>_Scoring\<close> (candidates), \<open>_Election\<close> (votes), \<open>_Machine\<close> (\<open>tick\<close>, reachable states), \<open>_Props\<close>, \<open>_Claims\<close>: the invariant
    over all events, the role only after a stable election, and release, occupancy and the published commands.
  \<^item> Central relay controller [\<open>cc_state\<close>], \<open>racer_comm_controller_node.cpp\<close>: \<open>Comm_Snapshot\<close> (decoding), \<open>Comm_Links\<close>,
    \<open>Comm_Graph\<close> (hysteresis, depth-first search; locale \<open>symmetric_graph\<close>), \<open>Comm_Relay\<close> (decision and publishing),
    \<open>Comm_Props\<close>, \<open>Comm_Claims\<close>: components are reachability, at most one relay, one command per agent.
  \<^item> Assignment messages and allocation coordinator [\<open>ac_state\<close>], \<open>component_allocation_coordinator_node.cpp\<close>:
    \<open>Assignment_Messages\<close>, \<open>Alloc_Coordinator\<close>, \<open>Alloc_Props\<close>, \<open>Alloc_Claims\<close>: the merge gives the best claim, free and owned
    grids are disjoint, a plan is committed exactly on its acknowledgement.
  \<^item> State machine [\<open>fsm_state\<close>], \<open>fast_exploration_fsm.cpp\<close>: \<open>Expl_State\<close>, \<open>Expl_Grids\<close>, \<open>Expl_Assignment\<close>,
    \<open>Expl_Machine\<close>, \<open>Expl_Props\<close> (the collection \<open>ledger\<close> of operations that leave the ledger alone), \<open>Expl_Claims\<close>: the
    invariant over all callbacks, the only ways in which own grids change, plan and commit, escalation of failures. This
    theory joins both sides of the protocol: \<open>grid_handshake\<close> below.
  \<^item> Voxel map [\<open>MapData\<close>, \<open>RayCaster\<close>, \<open>MultiMapManager\<close>], \<open>sdf_map.cpp\<close>, \<open>raycast.cpp\<close>, \<open>multi_map_manager.cpp\<close>,
    \<open>map_ros.cpp\<close>: \<open>Voxel_Map\<close> (locale \<open>addressing\<close>, interpreted for voxels and for grid cells), \<open>Distance_Transform\<close>,
    \<open>Voxel_Esdf\<close>, \<open>Ray_Caster\<close>, \<open>Ray_Functions\<close>, \<open>Voxel_Fusion\<close>, \<open>Voxel_Fusion_Props\<close>, \<open>Chunk_Ids\<close>, \<open>Map_Chunks\<close>,
    \<open>Map_Chunks_Props\<close>, \<open>Map_Chunks_Timer\<close>, \<open>Map_Ros\<close>, \<open>Map_Claims\<close>: exact distances, rays that end, buffers kept in
    bounds, chunk lists as sets, and an exchange after which the receiver has everything.
  \<^item> Exploration grid [\<open>UniformGrid\<close>, \<open>HGrid\<close>], \<open>uniform_grid.cpp\<close>, \<open>hgrid.cpp\<close>: \<open>Grid_Uniform\<close>, \<open>Grid_Hierarchy\<close>,
    \<open>Grid_Props\<close>, \<open>Grid_Update\<close>, \<open>Grid_Claims\<close>: coarse and fine cells partition the volume, the ids of a drone follow
    the division of cells, the counts are exact.
  \<^item> Tours and allocation, \<open>fast_exploration_manager.cpp\<close>: \<open>Tour_Files\<close>, \<open>Tour_Allocation\<close>, \<open>Tour_Props\<close>, \<open>Tour_Demand\<close>,
    \<open>Tour_Claims\<close>: what is written for the solver and read back, cells given once, demands with the right sum.
  \<^item> Frontier finder [\<open>FrontierFinder\<close>, \<open>PerceptionUtils\<close>], \<open>frontier_finder.cpp\<close>, \<open>perception_utils.cpp\<close>,
    \<open>graph_node.cpp\<close>: \<open>Frontier_View\<close>, \<open>Frontier_Clusters\<close>, \<open>Frontier_Views\<close>, \<open>Frontier_Props\<close>, \<open>Frontier_Search\<close>,
    \<open>Frontier_Split\<close>, \<open>Frontier_Costs\<close>, \<open>Frontier_Cycle\<close>, \<open>Frontier_Claims\<close>: clusters are exact and disjoint, splitting
    ends, updates complete and miss no cluster that is large enough, the cost table is complete and symmetric.
  \<^item> Motion planning [\<open>explorer\<close>], \<open>fast_exploration_manager.cpp\<close>, \<open>graph_search.h\<close>: \<open>Planner_Search\<close>, \<open>Planner_Tours\<close>,
    \<open>Planner_Motion\<close>, \<open>Planner_Dijkstra\<close>, \<open>Planner_Layers\<close>, \<open>Planner_Paths\<close>, \<open>Planner_Claims\<close>: the local tour visits each
    frontier, the goal was reached by the path search and is not in an obstacle, the shortened path was checked.
  \<^item> Trajectories [\<open>NonUniformBspline\<close>, \<open>traj_server\<close>], \<open>non_uniform_bspline.cpp\<close>, \<open>traj_server.cpp\<close>: \<open>Traj_Bspline\<close>,
    \<open>Traj_Deboor\<close>, \<open>Traj_Eval\<close>, \<open>Traj_Limits\<close>, \<open>Traj_Timing\<close>, \<open>Traj_Server\<close>, \<open>Traj_Reach\<close>, \<open>Traj_Claims\<close>: the derivative
    spline is the derivative, feasible control points bound velocity and acceleration at all times, the reallocation of
    time ends and moves no knot back, and the server commands the points of the spline, in the hull of its control points.
  \<^item> Transport [\<open>SeenCache\<close>, \<open>RxState\<close>, \<open>ForwarderState\<close>, \<open>PhyState\<close>, \<open>CoordState\<close>], the bridge nodes, \<open>connector.hpp\<close>,
    \<open>coordinator.cpp\<close>: \<open>Transport_Bridges\<close>, \<open>Transport_Props\<close> (locale \<open>keyed_cache\<close>), \<open>Transport_Phy\<close>,
    \<open>Transport_Phy_Props\<close>, \<open>Transport_Coordinator\<close>, \<open>Transport_Claims\<close>: a message is delivered once over any number of
    forwarders its budget allows, and no packet is lost or released twice by the lockstep.

  \<^bold>\<open>State machines.\<close> The reachable states of a node are an \<open>inductive\<close> predicate whose steps are its callbacks, in any order
  and with any message: \<open>lr_reach\<close>, \<open>cc_reach\<close>, \<open>ac_reach\<close>, \<open>fsm_reach\<close>, \<open>store_reachable\<close>, \<open>grid_reach\<close>,
  \<open>finder_reach\<close>, \<open>server_reach\<close>, \<open>rx_run\<close>, \<open>fwd_run\<close>. The invariants are proved by rule induction from one preservation
  lemma per callback.

  \<^bold>\<open>Bounds and loops.\<close> No definition runs on fuel. A loop that always ends is a recursive function with its measure; one
  that may not end is a \<open>partial_function (option)\<close>, and the property that uses it proves that it returns (rays, growing
  and splitting of clusters, sampling, the graph search, the cutting of chunks, the loops over time). Machine integers
  are words where they wrap in practice (transaction numbers, event times, sequence numbers), \<open>int\<close> with the conversion
  written out where the code narrows (chunk indices, counters of type \<open>short\<close> and \<open>char\<close>), and \<open>int\<close> with a bound in
  the hypotheses elsewhere (\<open>dims_ok\<close>, \<open>stores_small\<close>).

  \<^bold>\<open>What is idealised.\<close>

  \<^item> A \<open>double\<close> or \<open>float\<close> is an exact real; rounding, NaN and overflow are not modelled, and infinity only where it is used
    as a value. Library functions on vectors and matrices are written out over reals.
  \<^item> \<open>std::sort\<close> keeps equal elements in their order, and an \<open>unordered_map\<close> is an association list in the order of
    insertion; where the result could depend on that order, the properties do not.
  \<^item> \<open>splitHorizontally\<close> reads the eigenvectors through an \<open>auto\<close> view of a temporary that no longer exists; the model has
    the values that were meant.

  \<^bold>\<open>What is a parameter.\<close> Code outside of \<open>src\<close> or third-party code is an argument of the definitions that use it: the parser
  of the protobuf messages (\<open>parse\<close>), the tour solver (\<open>solve\<close>, a function to the file it leaves; the vendored LKH), PCL's
  voxel filter (\<open>downsample\<close>), Eigen's eigen and least-squares solvers (\<open>eigen\<close>, \<open>solve\<close>) and rotation matrices (\<open>rot\<close>,
  \<open>rotation\<close>), and the entry that \<open>std::priority_queue\<close> gives when the values of its entries were changed (\<open>pick\<close>). What
  another component answers during one callback of the state machine or the planner is a value as well (\<open>fsm_world\<close>,
  \<open>explore_env\<close>), and so are the path search (\<open>astar\<close>, \<open>search\<close>) and the network simulator's answers. Hypotheses on
  parameters are documented behaviour: \<open>centroids\<close>, \<open>solves_eigen\<close>, complete tour files, \<open>valid_pick\<close>.

  \<^bold>\<open>What is not modelled.\<close> The path searches and the kinodynamic search, the trajectory optimiser and the polynomial
  trajectories, yaw planning, moving obstacles, the physics and sensor simulators and the programs on top of ns-3, because
  their results rest on numerical libraries or simulators; the vendored solver and stack-trace code; drawing, logging,
  topic names, \<open>main\<close> functions and parameter files; sockets, compression and CSV metrics; and code that nothing calls
  (the pairwise optimisation of grids beyond its remaining handlers, \<open>addFrontiers\<close>, \<open>findViewpoints\<close>). Threads are not
  modelled: a node handles its callbacks one after the other, as its single ROS spinner does; the coordinator and the
  physics bridge, which also run a simulation loop, lock what both sides use.
\<close>

section \<open>A grid changes hands\<close>

lemma plan_accepted_by_requester:
  assumes req: "allocationRequestCallback req now c = (c1, Some plan)" and me: "arq_requester_id req = fp_drone_id p"
  shows "\<exists>g v. g \<in> fst ` set (free_grid_pool c) \<and> plan_entry p plan = Some (g, fp_drone_id p, v) \<and>
    apl_txn_id plan = arq_txn_id req \<and> apl_component_epoch plan = component_epoch c \<and>
    apl_leader_id plan = leader_id c \<and> ack_matches (assignment_ack p t1 plan g v True reason) c1 \<and>
    (\<forall>ack now'. ack_matches ack c1 \<longrightarrow> snd (assignmentAckCallback ack now' c1) = Some (plan\<lparr>apl_stamp := now'\<rparr>) \<and>
       map_of (ownership_table (fst (assignmentAckCallback ack now' c1))) g =
         Some \<lparr>own_owner_id = fp_drone_id p, own_owner_version = v\<rparr> \<and>
       map_of (free_grid_pool (fst (assignmentAckCallback ack now' c1))) g = None)"
proof -
  from request_plan_commit [OF req] obtain g v where
    lead: "is_component_leader c" and sel: "select_free_grid (arq_grid_ids req) (free_grid_pool c) = Some (g, v)"
    and g: "g \<in> fst ` set (free_grid_pool c)"
    and plan: "plan = \<lparr>apl_component_epoch = component_epoch c, apl_leader_id = leader_id c, apl_grid_ids = [g],
         apl_owner_ids = [arq_requester_id req], apl_owner_versions = [v + 1], apl_txn_id = arq_txn_id req,
         apl_reason = arq_reason req, apl_stamp = now\<rparr>"
    and ack: "\<forall>ack now'. if ack_matches ack c1
          then snd (assignmentAckCallback ack now' c1) = Some (plan\<lparr>apl_stamp := now'\<rparr>) \<and>
               map_of (ownership_table (fst (assignmentAckCallback ack now' c1))) g =
                 Some \<lparr>own_owner_id = arq_requester_id req, own_owner_version = v + 1\<rparr> \<and>
               map_of (free_grid_pool (fst (assignmentAckCallback ack now' c1))) g = None \<and>
               \<not> pending_plan_active (fst (assignmentAckCallback ack now' c1))
          else assignmentAckCallback ack now' c1 = (c1, None)" by blast
  have "plan_entry p plan = Some (g, fp_drone_id p, v + 1)"
    by (simp add: plan_entry_def plan claimed_grids_def me)
  moreover have "ack_matches (assignment_ack p t1 plan g (v + 1) True reason) c1"
    using req sel lead me
    by (auto simp: allocationRequestCallback_def Let_def ack_matches_def assignment_ack_def plan split: if_splits)
  moreover have "apl_txn_id plan = arq_txn_id req" "apl_component_epoch plan = component_epoch c"
    "apl_leader_id plan = leader_id c" by (simp_all add: plan)
  ultimately show ?thesis using g ack me by (intro exI [of _ g] exI [of _ "v + 1"]) simp
qed

text \<open>C1: The whole handshake between a drone and the leader of its component. If the coordinator answers the
  request of a drone with a plan and both agree on epoch and leader, then the drone, which has nothing
  staged and is no relay, accepts the plan with one acknowledgement; that acknowledgement makes the
  coordinator commit: the grid, free before, is now recorded as the drone's and is no longer free; and the
  commit makes the drone fly it: its grids grow by exactly that grid, which is one of its effective grids,
  and nothing stays staged.\<close>

theorem grid_handshake:
  assumes "allocationRequestCallback req now c = (c1, Some plan)" and "arq_requester_id req = fp_drone_id p"
    and "arq_txn_id req \<noteq> 0" and "component_epoch c = fs_component_epoch s" "leader_id c = fs_component_leader_id s"
    and "wf_params p" "fsm_inv p s" "\<not> fs_pending_active s" "fs_current_role s \<noteq> ROLE_RELAY"
  shows "\<exists>g v ack c2 commit. g \<in> fst ` set (free_grid_pool c) \<and>
    fs_out (assignmentPlanCallback p plan t1 s) = fs_out s @ [AssignmentAckOut ack] \<and>
    assignmentAckCallback ack t2 c1 = (c2, Some commit) \<and>
    map_of (ownership_table c2) g = Some \<lparr>own_owner_id = fp_drone_id p, own_owner_version = v\<rparr> \<and>
    map_of (free_grid_pool c2) g = None \<and>
    (let s' = assignmentCommitCallback p w commit t3 (assignmentPlanCallback p plan t1 s)
     in g \<in> set (getEffectiveSelfGridIds p s') \<and> set (own_grids p s') = insert g (set (own_grids p s)) \<and>
        \<not> fs_pending_active s')"
proof -
  from plan_accepted_by_requester [OF assms(1,2), of t1 "apl_reason plan"] obtain g v where
    a: "g \<in> fst ` set (free_grid_pool c)" "plan_entry p plan = Some (g, fp_drone_id p, v)"
      "apl_txn_id plan = arq_txn_id req" "apl_component_epoch plan = component_epoch c" "apl_leader_id plan = leader_id c"
      "ack_matches (assignment_ack p t1 plan g v True (apl_reason plan)) c1"
      "\<forall>ack now'. ack_matches ack c1 \<longrightarrow> snd (assignmentAckCallback ack now' c1) = Some (plan\<lparr>apl_stamp := now'\<rparr>) \<and>
         map_of (ownership_table (fst (assignmentAckCallback ack now' c1))) g =
           Some \<lparr>own_owner_id = fp_drone_id p, own_owner_version = v\<rparr> \<and>
         map_of (free_grid_pool (fst (assignmentAckCallback ack now' c1))) g = None"
    by (elim exE conjE) (rule that)
  have view: "apl_txn_id plan \<noteq> 0" "apl_component_epoch plan = fs_component_epoch s"
    "apl_leader_id plan = fs_component_leader_id s" using a(3-5) assms(3-5) by simp_all
  let ?ack = "assignment_ack p t1 plan g v True (apl_reason plan)"
  obtain c2 r where ack: "assignmentAckCallback ?ack t2 c1 = (c2, r)" by (metis prod.collapse)
  have c2: "r = Some (plan\<lparr>apl_stamp := t2\<rparr>)" "map_of (free_grid_pool c2) g = None"
    "map_of (ownership_table c2) g = Some \<lparr>own_owner_id = fp_drone_id p, own_owner_version = v\<rparr>"
    using a(7) [rule_format, OF a(6), of t2] by (simp_all add: ack)
  note eff = plan_commit_effect [OF assms(6-9) view a(2), of t1 w t2 t3, unfolded Let_def]
  have r: "assignmentAckCallback ?ack t2 c1 = (c2, Some (plan\<lparr>apl_stamp := t2\<rparr>))" using ack c2(1) by simp
  show ?thesis
    unfolding Let_def
    by (rule exI [of _ g], rule exI [of _ v], rule exI [of _ ?ack], rule exI [of _ c2],
        rule exI [of _ "plan\<lparr>apl_stamp := t2\<rparr>"], intro conjI)
      (use a(1) r c2(2,3) eff in \<open>simp_all only: not_False_eq_True\<close>)
qed


theorem grid_handshake_witness:
  "\<exists>plan c1. allocationRequestCallback (ex_request\<lparr>arq_requester_id := 1\<rparr>) 10 ex_coord = (c1, Some plan) \<and>
    (\<exists>v ack c2 commit. assignmentAckCallback ack 12 c1 = (c2, Some commit) \<and>
      map_of (ownership_table c2) 5 = Some \<lparr>own_owner_id = 1, own_owner_version = v\<rparr> \<and>
      5 \<in> set (getEffectiveSelfGridIds ex_fsm_params
        (assignmentCommitCallback ex_fsm_params ex_world commit 13 (assignmentPlanCallback ex_fsm_params plan 11 ex_fsm))))"
proof -
  let ?req = "ex_request\<lparr>arq_requester_id := 1\<rparr>"
  obtain c1 plan where req: "allocationRequestCallback ?req 10 ex_coord = (c1, Some plan)"
    by (simp add: allocationRequestCallback_def Let_def ex_coord_def ac_init_def ex_request_def
        select_free_grid_def first_free_def)
  have me: "arq_requester_id ?req = fp_drone_id ex_fsm_params" "arq_txn_id ?req \<noteq> 0"
    "component_epoch ex_coord = fs_component_epoch ex_fsm" "leader_id ex_coord = fs_component_leader_id ex_fsm"
    "\<not> fs_pending_active ex_fsm" "fs_current_role ex_fsm \<noteq> ROLE_RELAY" "fp_drone_id ex_fsm_params = 1"
    "fst ` set (free_grid_pool ex_coord) = {5}"
    by (simp_all add: ex_request_def ex_fsm_params_def fsm_default_params_def ex_coord_def ex_fsm_def fsm_init_def)
  from grid_handshake [OF req me(1-4) ex_fsm_inv me(5,6), of 11 12 ex_world 13] req show ?thesis
    unfolding me(7,8) by (fastforce simp: Let_def)
qed

end
